(* ===== verification/Prelude.thy ===== *)
theory Prelude
  imports Main "HOL-Library.Word" "HOL-Library.Monad_Syntax"
begin

text \<open>
  Shared vocabulary of the development: the C integer types as words, C strings as byte
  lists, the index loops \<open>for (i = a; i < n; i++) if (P(i)) ...\<close> that most tables of the
  system are built on, singly linked chains inside an array (free lists), and the word
  and list lemmas the components use.

  Conventions of every component theory. A C pointer argument that may be \<open>NULL\<close> is an
  \<open>option\<close> only where the code distinguishes the two cases and a caller can pass
  \<open>NULL\<close>. An \<open>option\<close> around the whole result of an operation is undefined behaviour
  of C (\<open>None\<close>: a read outside an array). Error returns are the negative integers of the
  source. The mutexes are not modelled: every operation is one atomic step.
\<close>

unbundle bit_operations_syntax

section \<open>Integer types\<close>

type_synonym u8 = "8 word"
type_synonym u16 = "16 word"
type_synonym u32 = "32 word"
type_synonym u64 = "64 word"
type_synonym i32 = "32 word"

text \<open>Bytes of a C string up to its terminating NUL.\<close>

type_synonym bytes = "u8 list"

definition cstr :: "bytes \<Rightarrow> bytes" where
  "cstr bs = takeWhile (\<lambda>b. b \<noteq> 0) bs"

definition is_cstr :: "bytes \<Rightarrow> bool" where
  "is_cstr bs \<longleftrightarrow> 0 \<notin> set bs"

lemma cstr_append [simp]: "is_cstr bs \<Longrightarrow> cstr (bs @ 0 # rest) = bs"
  by (induction bs) (simp_all add: is_cstr_def cstr_def)

lemma cstr_id [simp]: "is_cstr bs \<Longrightarrow> cstr bs = bs"
  by (auto simp: is_cstr_def cstr_def takeWhile_eq_all_conv)

lemma is_cstr_cstr [simp]: "is_cstr (cstr bs)"
  by (auto simp: is_cstr_def cstr_def dest: set_takeWhileD)

text \<open>A string literal of the source as its bytes.\<close>

definition lit :: "string \<Rightarrow> bytes" where
  "lit s = map (\<lambda>c. of_nat (of_char c)) s"

section \<open>Collections of facts\<close>

named_theorems layout_simps \<open>unfolding of constants and field layouts\<close>
named_theorems inv_intros \<open>preservation of the components' invariants\<close>
named_theorems bounds \<open>bounds on word-valued fields\<close>

lemma map_eqI: "(\<And>k v. m k = Some v \<longleftrightarrow> m' k = Some v) \<Longrightarrow> m = m'"
  by (rule ext) (metis not_None_eq)

section \<open>Index loops\<close>

text \<open>The first index of \<open>[i, n)\<close> that satisfies a test: the shape of every linear scan.\<close>

function first_from :: "(nat \<Rightarrow> bool) \<Rightarrow> nat \<Rightarrow> nat \<Rightarrow> nat option" where
  "first_from P i n =
     (if i < n then (if P i then Some i else first_from P (Suc i) n) else None)"
  by pat_completeness auto
termination
  by (relation "measure (\<lambda>(P, i, n). n - i)") auto

declare first_from.simps [simp del]

lemma first_from_SomeD:
  assumes "first_from P i n = Some k"
  shows "i \<le> k" and "k < n" and "P k" and "\<And>j. i \<le> j \<Longrightarrow> j < k \<Longrightarrow> \<not> P j"
proof -
  have "i \<le> k \<and> k < n \<and> P k \<and> (\<forall>j. i \<le> j \<and> j < k \<longrightarrow> \<not> P j)"
    using assms
  proof (induction P i n rule: first_from.induct)
    case (1 P i n)
    show ?case
    proof (cases "i < n \<and> \<not> P i")
      case True
      with 1 have IH: "Suc i \<le> k \<and> k < n \<and> P k \<and> (\<forall>j. Suc i \<le> j \<and> j < k \<longrightarrow> \<not> P j)"
        by (simp add: first_from.simps [of P i n])
      then show ?thesis using True by (metis Suc_leD le_antisym not_less_eq_eq)
    next
      case False
      with 1(2) show ?thesis by (auto simp: first_from.simps [of P i n] split: if_splits)
    qed
  qed
  then show "i \<le> k" and "k < n" and "P k" and "\<And>j. i \<le> j \<Longrightarrow> j < k \<Longrightarrow> \<not> P j"
    by blast+
qed

lemma first_from_None: "first_from P i n = None \<longleftrightarrow> (\<forall>j. i \<le> j \<and> j < n \<longrightarrow> \<not> P j)"
proof (induction P i n rule: first_from.induct)
  case (1 P i n)
  show ?case
  proof (cases "i < n \<and> \<not> P i")
    case True
    with 1 show ?thesis
      by (simp add: first_from.simps [of P i n])
         (metis Suc_leD le_neq_implies_less Suc_leI)
  next
    case False
    then show ?thesis by (auto simp: first_from.simps [of P i n])
  qed
qed

lemma first_from_Some_ex:
  assumes "i \<le> k" and "k < n" and "P k"
  obtains j where "first_from P i n = Some j" and "j \<le> k" and "P j"
proof (cases "first_from P i n")
  case None
  with assms show ?thesis using first_from_None by blast
next
  case (Some j)
  with assms first_from_SomeD [OF Some] show ?thesis
    by (meson not_le_imp_less that)
qed

lemma first_from_eqI:
  assumes "i \<le> k" and "k < n" and "P k" and "\<And>j. i \<le> j \<Longrightarrow> j < k \<Longrightarrow> \<not> P j"
  shows "first_from P i n = Some k"
proof -
  obtain j where j: "first_from P i n = Some j" and "j \<le> k"
    using first_from_Some_ex [of i k n P] assms by blast
  moreover have "i \<le> j" and "P j" using first_from_SomeD [OF j] by auto
  ultimately show ?thesis using assms(4) by (metis le_neq_implies_less)
qed

lemma first_from_cong:
  "(\<And>j. i \<le> j \<Longrightarrow> j < n \<Longrightarrow> P j = Q j) \<Longrightarrow> first_from P i n = first_from Q i n"
proof (induction P i n rule: first_from.induct)
  case (1 P i n)
  then show ?case
    by (simp add: first_from.simps [of P i n] first_from.simps [of Q i n])
qed

text \<open>The same scan over an array held as a list.\<close>

definition find_slot :: "('a \<Rightarrow> bool) \<Rightarrow> 'a list \<Rightarrow> nat option" where
  "find_slot P xs = first_from (\<lambda>i. P (xs ! i)) 0 (length xs)"

lemma find_slot_SomeD:
  assumes "find_slot P xs = Some k"
  shows "k < length xs" and "P (xs ! k)" and "\<And>j. j < k \<Longrightarrow> \<not> P (xs ! j)"
  using first_from_SomeD [OF assms [unfolded find_slot_def]] by auto

lemma find_slot_bounds: "find_slot P xs = Some k \<Longrightarrow> k < length xs \<and> P (xs ! k)"
  using find_slot_SomeD by blast

lemma find_slot_None: "find_slot P xs = None \<longleftrightarrow> (\<forall>x \<in> set xs. \<not> P x)"
  by (simp add: find_slot_def first_from_None all_set_conv_all_nth)

lemma find_slot_eqI:
  "k < length xs \<Longrightarrow> P (xs ! k) \<Longrightarrow> (\<And>j. j < k \<Longrightarrow> \<not> P (xs ! j)) \<Longrightarrow> find_slot P xs = Some k"
  by (auto simp: find_slot_def intro!: first_from_eqI)

lemma find_slot_Some_unique:
  assumes "k < length xs" and "P (xs ! k)"
    and "\<And>j. j < length xs \<Longrightarrow> P (xs ! j) \<Longrightarrow> j = k"
  shows "find_slot P xs = Some k"
proof (rule find_slot_eqI)
  show "k < length xs" and "P (xs ! k)" by (fact assms)+
next
  fix j
  assume "j < k"
  then show "\<not> P (xs ! j)" using assms(1,3) by (metis less_irrefl less_trans)
qed

text \<open>Number of elements that satisfy a test: the counting loops.\<close>

definition count_if :: "('a \<Rightarrow> bool) \<Rightarrow> 'a list \<Rightarrow> nat" where
  "count_if P xs = length (filter P xs)"

lemma count_if_simps [simp]:
  "count_if P [] = 0"
  "count_if P (x # xs) = (if P x then Suc (count_if P xs) else count_if P xs)"
  by (auto simp: count_if_def)

lemma count_if_append [simp]: "count_if P (xs @ ys) = count_if P xs + count_if P ys"
  by (simp add: count_if_def)

lemma count_if_le_length: "count_if P xs \<le> length xs"
  by (simp add: count_if_def)

lemma count_if_replicate [simp]: "count_if P (replicate n x) = (if P x then n else 0)"
  by (simp add: count_if_def filter_replicate)

lemma count_if_zero: "count_if P xs = 0 \<longleftrightarrow> (\<forall>x \<in> set xs. \<not> P x)"
  by (simp add: count_if_def filter_empty_conv)

lemma count_if_update:
  assumes "k < length xs"
  shows "count_if P (xs[k := x]) + (if P (xs ! k) then 1 else 0)
       = count_if P xs + (if P x then 1 else 0)"
proof -
  have xs: "xs = take k xs @ xs ! k # drop (Suc k) xs"
    using assms by (rule id_take_nth_drop)
  have "count_if P xs = count_if P (take k xs @ xs ! k # drop (Suc k) xs)"
    using xs by (rule arg_cong)
  with assms show ?thesis by (simp add: upd_conv_take_nth_drop)
qed

lemma count_if_set:
  "k < length xs \<Longrightarrow> \<not> P (xs ! k) \<Longrightarrow> P x \<Longrightarrow> count_if P (xs[k := x]) = Suc (count_if P xs)"
  using count_if_update [of k xs P x] by simp

lemma count_if_clear:
  "k < length xs \<Longrightarrow> P (xs ! k) \<Longrightarrow> \<not> P x \<Longrightarrow> Suc (count_if P (xs[k := x])) = count_if P xs"
  using count_if_update [of k xs P x] by simp

lemma count_if_keep:
  "k < length xs \<Longrightarrow> P x = P (xs ! k) \<Longrightarrow> count_if P (xs[k := x]) = count_if P xs"
  using count_if_update [of k xs P x] by (simp split: if_splits)

section \<open>Chains inside an array\<close>

text \<open>
  A free list threaded through an array: \<open>chain nxt nil h xs\<close> says that following
  \<open>nxt\<close> from \<open>h\<close> visits exactly \<open>xs\<close> and ends in the sentinel \<open>nil\<close>.
\<close>

fun chain :: "('a \<Rightarrow> 'a) \<Rightarrow> 'a \<Rightarrow> 'a \<Rightarrow> 'a list \<Rightarrow> bool" where
  "chain nxt nil h [] = (h = nil)"
| "chain nxt nil h (x # xs) = (h = x \<and> x \<noteq> nil \<and> chain nxt nil (nxt x) xs)"

lemma chain_nil_head [simp]: "chain nxt nil nil xs \<longleftrightarrow> xs = []"
  by (cases xs) auto

lemma chain_cong:
  "(\<And>x. x \<in> set xs \<Longrightarrow> nxt x = nxt' x) \<Longrightarrow> chain nxt nil h xs = chain nxt' nil h xs"
  by (induction xs arbitrary: h) auto

lemma chain_upd_notin:
  "x \<notin> set xs \<Longrightarrow> chain (nxt(x := y)) nil h xs = chain nxt nil h xs"
  by (rule chain_cong) auto

lemma chain_unique: "chain nxt nil h xs \<Longrightarrow> chain nxt nil h ys \<Longrightarrow> xs = ys"
proof (induction xs arbitrary: h ys)
  case Nil
  then show ?case by (cases ys) auto
next
  case (Cons x xs)
  then show ?case by (cases ys) auto
qed

lemma chain_append:
  "chain nxt nil h (xs @ ys) \<Longrightarrow> \<exists>h'. chain nxt nil h' ys"
  by (induction xs arbitrary: h) auto

section \<open>Rings\<close>

text \<open>
  A ring of fixed capacity whose writer sits at \<open>head\<close> and which retains \<open>count\<close> elements:
  the retained elements from the oldest to the newest.
\<close>

definition ring_items :: "'a list \<Rightarrow> nat \<Rightarrow> nat \<Rightarrow> 'a list" where
  "ring_items buf head count =
     map (\<lambda>i. buf ! ((head + length buf - count + i) mod length buf)) [0..<count]"

lemma length_ring_items [simp]: "length (ring_items buf head count) = count"
  by (simp add: ring_items_def)

lemma nth_ring_items:
  "i < count \<Longrightarrow>
   ring_items buf head count ! i = buf ! ((head + length buf - count + i) mod length buf)"
  by (simp add: ring_items_def)

text \<open>Two offsets below the capacity from the same start hit different cells.\<close>

lemma ring_index_neq:
  fixes h c n i :: nat
  assumes "h < n" and "i < c" and "c \<le> n" and "c < n \<or> 0 < i"
  shows "(h + n - c + i) mod n \<noteq> h"
proof
  assume eq: "(h + n - c + i) mod n = h"
  define d where "d = n - (c - i)"
  have d: "0 < d" "d < n" and "h + n - c + i = h + d"
    unfolding d_def using assms by arith+
  with eq have "(h + d) mod n = h" by simp
  moreover have "(h + d) mod n = (if h + d < n then h + d else h + d - n)"
    using assms(1) d by (simp add: mod_if)
  ultimately show False using d by (simp split: if_splits)
qed

lemma ring_items_push:
  assumes "head < length buf" and "count < length buf"
  shows "ring_items (buf[head := x]) ((head + 1) mod length buf) (Suc count)
       = ring_items buf head count @ [x]"
proof (rule nth_equalityI)
  show "length (ring_items (buf[head := x]) ((head + 1) mod length buf) (Suc count))
      = length (ring_items buf head count @ [x])" by simp
next
  fix i
  assume "i < length (ring_items (buf[head := x]) ((head + 1) mod length buf) (Suc count))"
  then have i: "i \<le> count" by simp
  let ?n = "length buf"
  have shift: "((head + 1) mod ?n + ?n - Suc count + i) mod ?n = (head + ?n - count + i) mod ?n"
  proof (cases "head + 1 = ?n")
    case True
    then have "head + ?n - count + i = ?n + (?n - Suc count + i)"
      using assms by arith
    then have "(head + ?n - count + i) mod ?n = (?n + (?n - Suc count + i)) mod ?n"
      by (rule arg_cong)
    with True show ?thesis by simp
  next
    case False
    with assms show ?thesis by simp
  qed
  show "ring_items (buf[head := x]) ((head + 1) mod ?n) (Suc count) ! i
      = (ring_items buf head count @ [x]) ! i"
  proof (cases "i = count")
    case True
    with assms shift show ?thesis by (simp add: nth_ring_items nth_append)
  next
    case False
    with i have lt: "i < count" by simp
    have "(head + ?n - count + i) mod ?n \<noteq> head"
      using assms lt by (intro ring_index_neq) auto
    with lt shift show ?thesis by (simp add: nth_ring_items nth_append)
  qed
qed

lemma ring_items_push_full:
  assumes "head < length buf"
  shows "ring_items (buf[head := x]) ((head + 1) mod length buf) (length buf)
       = tl (ring_items buf head (length buf)) @ [x]"
proof (rule nth_equalityI)
  have "buf \<noteq> []" using assms by auto
  then show "length (ring_items (buf[head := x]) ((head + 1) mod length buf) (length buf))
      = length (tl (ring_items buf head (length buf)) @ [x])" by simp
next
  fix i
  assume "i < length (ring_items (buf[head := x]) ((head + 1) mod length buf) (length buf))"
  then have i: "i < length buf" by simp
  let ?n = "length buf"
  have shift: "((head + 1) mod ?n + i) mod ?n = (head + Suc i) mod ?n"
    by (simp add: mod_simps)
  show "ring_items (buf[head := x]) ((head + 1) mod ?n) ?n ! i
      = (tl (ring_items buf head ?n) @ [x]) ! i"
  proof (cases "Suc i = ?n")
    case True
    then have "\<not> i < ?n - Suc 0" by arith
    with True assms shift show ?thesis by (simp add: nth_ring_items nth_append)
  next
    case False
    with i have lt: "Suc i < ?n" and "i < ?n - Suc 0" by simp_all
    have "(head + Suc i) mod ?n \<noteq> head"
      using ring_index_neq [of head ?n "Suc i" ?n] assms lt by simp
    with lt shift \<open>i < ?n - Suc 0\<close> show ?thesis
      by (simp add: nth_ring_items nth_append nth_tl)
  qed
qed

section \<open>Bounded words\<close>

lemma unat_take_bit_mod: "unat (take_bit n w) = unat w mod 2 ^ n"
  by (simp only: unsigned_take_bit_eq) (simp add: take_bit_eq_mod)

lemma unat_and_mask: "unat (w AND mask n) = unat w mod 2 ^ n"
  by (simp only: take_bit_eq_mask [symmetric] unat_take_bit_mod)

lemma unat_drop_bit_div: "unat (drop_bit n (w :: 'a::len word)) = unat w div 2 ^ n"
proof -
  have "unat (drop_bit n w) = drop_bit n (take_bit LENGTH('a) (unat w))"
    by (rule unsigned_drop_bit_eq)
  then show ?thesis by (simp add: take_bit_nat_eq_self drop_bit_eq_div)
qed

lemma unat_less_256 [simp, bounds]: "unat (x :: u8) < 256"
  using unsigned_less [of x, where ?'a = nat] by simp

lemma unat_less_65536 [simp, bounds]: "unat (x :: u16) < 65536"
  using unsigned_less [of x, where ?'a = nat] by simp

lemma unat_less_u32 [simp, bounds]: "unat (x :: u32) < 4294967296"
  using unsigned_less [of x, where ?'a = nat] by simp

lemma unat_less_u64 [simp, bounds]: "unat (x :: u64) < 18446744073709551616"
  using unsigned_less [of x, where ?'a = nat] by simp

lemma unat_of_nat_u8 [simp]: "n < 256 \<Longrightarrow> unat (of_nat n :: u8) = n"
  by (simp add: unat_of_nat)

lemma unat_of_nat_u16 [simp]: "n < 65536 \<Longrightarrow> unat (of_nat n :: u16) = n"
  by (simp add: unat_of_nat)

lemma unat_of_nat_u32 [simp]: "n < 4294967296 \<Longrightarrow> unat (of_nat n :: u32) = n"
  by (simp add: unat_of_nat)

lemma unat_of_nat_u64 [simp]: "n < 18446744073709551616 \<Longrightarrow> unat (of_nat n :: u64) = n"
  by (simp add: unat_of_nat)

lemma unat_ucast_u64: "unat (ucast (w :: u32) :: u64) = unat w"
proof -
  have "unat w < 2 ^ 64" by (rule order.strict_trans [OF unat_less_u32]) simp
  then show ?thesis by (simp add: unsigned_ucast_eq take_bit_nat_eq_self)
qed

lemma unat_plus_one: "x \<noteq> - 1 \<Longrightarrow> unat (x + 1 :: 'a :: len word) = Suc (unat x)"
  by (metis add.commute add_eq_0_iff unatSuc minus_equation_iff)

lemma unat_u64_max: "unat (- 1 :: u64) = 18446744073709551615"
  by (simp add: unsigned_minus_1_eq_mask mask_eq_exp_minus_1)

lemma unat_u64_Suc: "unat (x :: u64) < 18446744073709551615 \<Longrightarrow> unat (x + 1) = Suc (unat x)"
  by (metis less_irrefl unat_plus_one unat_u64_max)

lemma unat_of_int_u16: "0 \<le> k \<Longrightarrow> k < 65536 \<Longrightarrow> unat (of_int k :: u16) = nat k"
  by (simp add: unsigned_of_int take_bit_int_eq_self)

lemma u32_of_nat_unat [simp]: "(of_nat (unat x) :: u32) = x"
  by (simp add: word_unat_eq_iff)

text \<open>The slots \<open>[a, n)\<close> of a table as 32-bit indices.\<close>

lemma set_u32_range: "n \<le> 4294967296 \<Longrightarrow> set (map of_nat [a..<n]) = {x :: u32. a \<le> unat x \<and> unat x < n}"
proof (intro equalityI subsetI)
  fix x :: u32
  assume "x \<in> {x. a \<le> unat x \<and> unat x < n}"
  then have "unat x \<in> {a..<n}" by simp
  then have "of_nat (unat x) \<in> (of_nat ` {a..<n} :: u32 set)" by (rule imageI)
  then show "x \<in> set (map of_nat [a..<n])" by simp
qed auto

lemma distinct_u32_range: "n \<le> 4294967296 \<Longrightarrow> distinct (map of_nat [a..<n] :: u32 list)"
proof -
  assume n: "n \<le> 4294967296"
  have "inj_on (of_nat :: nat \<Rightarrow> u32) {a..<n}"
  proof (rule inj_onI)
    fix x y
    assume x: "x \<in> {a..<n}" and y: "y \<in> {a..<n}" and eq: "(of_nat x :: u32) = of_nat y"
    from n x have "unat (of_nat x :: u32) = x" by simp
    moreover from n y have "unat (of_nat y :: u32) = y" by simp
    ultimately show "x = y" using eq by metis
  qed
  then show ?thesis by (simp add: distinct_map)
qed

section \<open>Byte buffers\<close>

text \<open>\<open>memcpy(buf + off, p, n)\<close>.\<close>

definition put_bytes :: "nat \<Rightarrow> bytes \<Rightarrow> bytes \<Rightarrow> bytes" where
  "put_bytes off p buf = take off buf @ p @ drop (off + length p) buf"

lemma length_put_bytes: "off + length p \<le> length buf \<Longrightarrow> length (put_bytes off p buf) = length buf"
  by (simp add: put_bytes_def)

lemma take_put_bytes:
  "off + length p \<le> length buf \<Longrightarrow> take (off + length p) (put_bytes off p buf) = take off buf @ p"
  by (simp add: put_bytes_def)

lemma nth_put_bytes:
  "off + length p \<le> length buf \<Longrightarrow> i < length buf \<Longrightarrow>
     put_bytes off p buf ! i = (if off \<le> i \<and> i < off + length p then p ! (i - off) else buf ! i)"
  by (auto simp: put_bytes_def nth_append min_def)

text \<open>The bytes of a 32-bit field in memory, and the field again.\<close>

definition le32 :: "u32 \<Rightarrow> bytes" where
  "le32 w = map (\<lambda>k. ucast (drop_bit (8 * k) w)) [0..<4]"

definition word_at :: "bytes \<Rightarrow> nat \<Rightarrow> u32" where
  "word_at b i = ucast (b ! (4 * i)) OR push_bit 8 (ucast (b ! (4 * i + 1))) OR
     push_bit 16 (ucast (b ! (4 * i + 2))) OR push_bit 24 (ucast (b ! (4 * i + 3)))"

definition set_word :: "nat \<Rightarrow> u32 \<Rightarrow> bytes \<Rightarrow> bytes" where
  "set_word i w b = put_bytes (4 * i) (le32 w) b"

lemma length_le32 [simp]: "length (le32 w) = 4"
  by (simp add: le32_def)

lemma length_set_word [simp]: "4 * i + 4 \<le> length b \<Longrightarrow> length (set_word i w b) = length b"
  by (simp add: set_word_def length_put_bytes)

lemma word_of_bytes: "ucast (ucast w :: u8) OR push_bit 8 (ucast (ucast (drop_bit 8 w) :: u8)) OR
    push_bit 16 (ucast (ucast (drop_bit 16 w) :: u8)) OR push_bit 24 (ucast (ucast (drop_bit 24 w) :: u8)) = (w :: u32)"
proof (rule bit_word_eqI, goal_cases)
  case (1 n)
  then show ?case by (cases "n < 8"; cases "n < 16"; cases "n < 24") (auto simp: bit_simps)
qed

lemma word_at_set_word:
  assumes "4 * i + 4 \<le> length b" and "4 * j + 4 \<le> length b"
  shows "word_at (set_word i w b) j = (if j = i then w else word_at b j)"
proof -
  have n: "set_word i w b ! k = (if 4 * i \<le> k \<and> k < 4 * i + 4 then le32 w ! (k - 4 * i) else b ! k)"
    if "k < length b" for k
    unfolding set_word_def using nth_put_bytes [of "4 * i" "le32 w" b k] assms(1) that by simp
  show ?thesis
  proof (cases "j = i")
    case True
    have "le32 w ! 0 = ucast w" "le32 w ! 1 = ucast (drop_bit 8 w)" "le32 w ! 2 = ucast (drop_bit 16 w)"
      "le32 w ! 3 = ucast (drop_bit 24 w)" by (simp_all add: le32_def)
    then show ?thesis using True assms n [of "4 * i"] n [of "4 * i + 1"] n [of "4 * i + 2"] n [of "4 * i + 3"]
      word_of_bytes [of w] by (simp add: word_at_def)
  next
    case False
    have same: "set_word i w b ! (4 * j + d) = b ! (4 * j + d)" if "d < 4" for d
    proof -
      have "\<not> (4 * i \<le> 4 * j + d \<and> 4 * j + d < 4 * i + 4)" using False that by linarith
      then show ?thesis using n [of "4 * j + d"] assms(2) that by (metis add_less_cancel_left less_le_trans)
    qed
    from same [of 0] same [of 1] same [of 2] same [of 3] False show ?thesis by (simp add: word_at_def)
  qed
qed

end
