(* ===== verification/Cap_Token.thy ===== *)
theory Cap_Token
  imports Prelude
begin

text \<open>
  The capability core's data: the constants of \<open>wubu_cap.h\<close>, the 64-bit token that packs
  \<open>{generation, idx, flags}\<close>, the capability object of \<open>wubu_cap_internal.h\<close> and the slow
  path helpers of \<open>wubu_cap_token.c\<close> (audience test and the bounded token printer).
\<close>

section \<open>Constants\<close>

abbreviation (input) WUBU_CAP_KIND_NONE :: u16 where "WUBU_CAP_KIND_NONE \<equiv> 0"
abbreviation (input) WUBU_CAP_KIND_SYSTEM :: u16 where "WUBU_CAP_KIND_SYSTEM \<equiv> 9"
abbreviation (input) WUBU_RIGHT_DERIVE :: u64 where "WUBU_RIGHT_DERIVE \<equiv> 0x8"
abbreviation (input) WUBU_RIGHTS_ALL :: u64 where "WUBU_RIGHTS_ALL \<equiv> 0xFFFFFFFFFFFFFFFF"
abbreviation (input) WUBU_CAP_FLAG_PUBLIC :: u8 where "WUBU_CAP_FLAG_PUBLIC \<equiv> 0x01"
abbreviation (input) WUBU_CAP_FLAG_EAGER_REVOKE :: u8 where "WUBU_CAP_FLAG_EAGER_REVOKE \<equiv> 0x02"
abbreviation (input) WUBU_CAP_FLAG_IMMORTAL :: u8 where "WUBU_CAP_FLAG_IMMORTAL \<equiv> 0x08"
abbreviation (input) WUBU_CAP_FLAG_CASCADE_TRUNCATED :: u8 where
  "WUBU_CAP_FLAG_CASCADE_TRUNCATED \<equiv> 0x20"
abbreviation (input) WUBU_PID_PUBLIC :: i32 where "WUBU_PID_PUBLIC \<equiv> 0xFFFF"
abbreviation (input) WUBU_PID_KERNEL :: i32 where "WUBU_PID_KERNEL \<equiv> -1"
abbreviation (input) WUBU_PID_NONE :: i32 where "WUBU_PID_NONE \<equiv> -1"
abbreviation (input) WUBU_CAP_OK :: int where "WUBU_CAP_OK \<equiv> 0"
abbreviation (input) WUBU_CAP_EPERM :: int where "WUBU_CAP_EPERM \<equiv> -1"
abbreviation (input) WUBU_CAP_EREVOKED :: int where "WUBU_CAP_EREVOKED \<equiv> -2"
abbreviation (input) WUBU_CAP_ENOMEM :: int where "WUBU_CAP_ENOMEM \<equiv> -3"
abbreviation (input) WUBU_CAP_EFAULT :: int where "WUBU_CAP_EFAULT \<equiv> -4"
abbreviation (input) WUBU_CAP_EINVAL :: int where "WUBU_CAP_EINVAL \<equiv> -5"
abbreviation (input) WUBU_CAP_OBJECT_CAPACITY :: nat where "WUBU_CAP_OBJECT_CAPACITY \<equiv> 65536"
abbreviation (input) WUBU_CAP_AUDIENCE_MAX :: nat where "WUBU_CAP_AUDIENCE_MAX \<equiv> 8"
abbreviation (input) WUBU_CAP_IDX_NONE :: u32 where "WUBU_CAP_IDX_NONE \<equiv> 0xFFFFFFFF"

section \<open>Tokens\<close>

type_synonym cap_token = u64

abbreviation (input) WUBU_CAP_TOKEN_NULL :: cap_token where "WUBU_CAP_TOKEN_NULL \<equiv> 0"

definition wubu_cap_token_pack :: "u32 \<Rightarrow> u32 \<Rightarrow> u8 \<Rightarrow> cap_token" where
  "wubu_cap_token_pack gen idx flags =
     (push_bit 32 (ucast gen) OR push_bit 8 (ucast idx AND 0xFFFFFF)) OR ucast flags"

definition wubu_cap_token_gen :: "cap_token \<Rightarrow> u32" where
  "wubu_cap_token_gen t = ucast (drop_bit 32 t)"

definition wubu_cap_token_idx :: "cap_token \<Rightarrow> u32" where
  "wubu_cap_token_idx t = ucast (drop_bit 8 t AND 0xFFFFFF)"

definition wubu_cap_token_flags :: "cap_token \<Rightarrow> u8" where
  "wubu_cap_token_flags t = ucast (t AND 0xFF)"

definition wubu_cap_token_is_null :: "cap_token \<Rightarrow> bool" where
  "wubu_cap_token_is_null t \<longleftrightarrow> wubu_cap_token_idx t = 0"

section \<open>Capability objects\<close>

record cap_object =
  o_kind :: u16
  o_deleted :: bool
  o_generation :: u32
  o_rights :: u64
  o_kind_data :: u64
  o_audience_set :: "i32 list"
  o_audience_count :: u8
  o_flags :: u8
  o_parent_idx :: u32
  o_owner_pid :: i32
  o_first_child_idx :: u32
  o_next_sibling_idx :: u32

text \<open>The object \<open>cap_zero\<close> leaves behind.\<close>

definition cap_zero :: cap_object where
  "cap_zero = \<lparr>o_kind = 0, o_deleted = False, o_generation = 0, o_rights = 0, o_kind_data = 0,
     o_audience_set = replicate WUBU_CAP_AUDIENCE_MAX 0, o_audience_count = 0, o_flags = 0,
     o_parent_idx = 0, o_owner_pid = 0, o_first_child_idx = 0, o_next_sibling_idx = 0\<rparr>"

text \<open>The pids the audience loops read: indices below both the count and the array size.\<close>

definition audience_list :: "cap_object \<Rightarrow> i32 list" where
  "audience_list obj =
     take (min (unat (o_audience_count obj)) WUBU_CAP_AUDIENCE_MAX) (o_audience_set obj)"

definition is_public :: "cap_object \<Rightarrow> bool" where
  "is_public obj \<longleftrightarrow> o_flags obj AND WUBU_CAP_FLAG_PUBLIC \<noteq> 0"

definition is_immortal :: "cap_object \<Rightarrow> bool" where
  "is_immortal obj \<longleftrightarrow> o_flags obj AND WUBU_CAP_FLAG_IMMORTAL \<noteq> 0"

definition wubu_cap_validate_audience :: "cap_object \<Rightarrow> i32 \<Rightarrow> bool" where
  "wubu_cap_validate_audience obj pid \<longleftrightarrow>
     (if is_public obj then True else pid \<in> set (audience_list obj))"

section \<open>Printing a token\<close>

text \<open>
  The printer appends to a buffer of \<open>buflen\<close> bytes; the model's buffer is the list of the
  \<open>pos\<close> bytes written so far.
\<close>

fun put_str :: "int \<Rightarrow> bytes \<Rightarrow> bytes \<Rightarrow> bytes" where
  "put_str buflen buf [] = buf"
| "put_str buflen buf (c # s) =
     (if int (length buf) < buflen - 1 then put_str buflen (buf @ [c]) s else buf)"

text \<open>The digits of \<open>v\<close>, least significant first: the loop that fills \<open>tmp\<close>.\<close>

function dec_digits :: "u32 \<Rightarrow> bytes" where
  "dec_digits v = (if v = 0 then [] else (48 + ucast (v mod 10)) # dec_digits (v div 10))"
  by pat_completeness auto
termination
  by (relation "measure unat")
     (auto simp: unat_div_distrib unat_eq_0 [symmetric] simp del: unat_eq_0)

definition put_dec :: "int \<Rightarrow> bytes \<Rightarrow> u32 \<Rightarrow> bytes" where
  "put_dec buflen buf v =
     (let tmp = (if v = 0 then [48] else dec_digits v) in put_str buflen buf (rev tmp))"

definition hex_digit :: "u8 \<Rightarrow> u8" where
  "hex_digit d = lit ''0123456789abcdef'' ! unat (d AND 0xF)"

definition put_hex2 :: "int \<Rightarrow> bytes \<Rightarrow> u8 \<Rightarrow> bytes" where
  "put_hex2 buflen buf v =
     (let buf1 = (if int (length buf) < buflen - 1 then buf @ [hex_digit (drop_bit 4 v)] else buf)
      in if int (length buf1) < buflen - 1 then buf1 @ [hex_digit v] else buf1)"

text \<open>
  Result: the returned length and the whole buffer with its terminating NUL; \<open>buf\<close> is
  \<open>None\<close> for a NULL pointer.
\<close>

definition wubu_cap_token_describe :: "cap_token \<Rightarrow> int \<Rightarrow> bool \<Rightarrow> int \<times> bytes" where
  "wubu_cap_token_describe tok buflen buf_null =
     (if buf_null \<or> buflen \<le> 0 then (0, [])
      else let
        b = put_str buflen [] (lit ''tok={gen='');
        b = put_dec buflen b (wubu_cap_token_gen tok);
        b = put_str buflen b (lit '',idx='');
        b = put_dec buflen b (wubu_cap_token_idx tok);
        b = put_str buflen b (lit '',flags=0x'');
        b = put_hex2 buflen b (wubu_cap_token_flags tok);
        b = (if int (length b) < buflen - 1 then b @ [125] else b)
      in (int (length b), b @ [0]))"

declare dec_digits.simps [simp del]

section \<open>Facts about tokens\<close>

lemma mask24: "(0xFFFFFF :: u64) = mask 24" "(0xFFFFFF :: u32) = mask 24" "(0xFF :: u64) = mask 8"
  by (simp_all add: mask_eq_exp_minus_1)

lemma token_gen_pack [simp]: "wubu_cap_token_gen (wubu_cap_token_pack g i f) = g"
  unfolding wubu_cap_token_gen_def wubu_cap_token_pack_def
  by (rule bit_word_eqI) (auto simp: bit_simps dest: bit_imp_le_length)

lemma token_flags_pack [simp]: "wubu_cap_token_flags (wubu_cap_token_pack g i f) = f"
  unfolding wubu_cap_token_flags_def wubu_cap_token_pack_def mask24
  by (rule bit_word_eqI) (auto simp: bit_simps dest: bit_imp_le_length)

lemma token_idx_pack_mask: "wubu_cap_token_idx (wubu_cap_token_pack g i f) = i AND 0xFFFFFF"
  unfolding wubu_cap_token_idx_def wubu_cap_token_pack_def mask24
  by (rule bit_word_eqI) (auto simp: bit_simps dest: bit_imp_le_length)

lemma and_mask24_id: "unat (i :: u32) < 2 ^ 24 \<Longrightarrow> i AND 0xFFFFFF = i"
proof -
  assume a: "unat i < 2 ^ 24"
  have "unat (i AND mask 24) = unat i mod 2 ^ 24"
    by (rule unat_and_mask)
  with a have "unat (i AND mask 24) = unat i" by simp
  then show ?thesis unfolding mask24 by (rule word_unat_eq_iff [THEN iffD2])
qed

lemma token_idx_pack [simp]:
  "unat i < 2 ^ 24 \<Longrightarrow> wubu_cap_token_idx (wubu_cap_token_pack g i f) = i"
  by (simp add: token_idx_pack_mask and_mask24_id)

lemma token_idx_pack_small [simp]:
  "unat i < 65536 \<Longrightarrow> wubu_cap_token_idx (wubu_cap_token_pack g i f) = i"
  by (rule token_idx_pack) simp

text \<open>Unpacking and repacking a token is the identity: no bit of a token is unused.\<close>

lemma token_pack_unpack:
  "wubu_cap_token_pack (wubu_cap_token_gen t) (wubu_cap_token_idx t) (wubu_cap_token_flags t) = t"
  unfolding wubu_cap_token_gen_def wubu_cap_token_pack_def wubu_cap_token_idx_def
    wubu_cap_token_flags_def mask24
proof (rule bit_word_eqI, goal_cases)
  case (1 n)
  then show ?case by (cases "n < 8"; cases "n < 32") (auto simp: bit_simps)
qed

lemma token_idx_bound: "unat (wubu_cap_token_idx t) < 2 ^ 24"
proof -
  have "wubu_cap_token_idx t = take_bit 24 (wubu_cap_token_idx t)"
    unfolding wubu_cap_token_idx_def mask24
    by (rule bit_word_eqI) (auto simp: bit_simps dest: bit_imp_le_length)
  then have "unat (wubu_cap_token_idx t) = unat (take_bit 24 (wubu_cap_token_idx t))" by simp
  also have "\<dots> < 2 ^ 24"
    by (simp only: unat_take_bit_mod) simp
  finally show ?thesis .
qed

end
