(* ===== verification/Cap_Audit.thy ===== *)
theory Cap_Audit
  imports Cap_Token
begin

text \<open>
  The denial ring of \<open>wubu_cap_audit.c\<close>: a fixed ring of the most recent refusals. The
  interface every client relies on is the locale \<open>bounded_log\<close>; the ring is shown to
  provide it.
\<close>

abbreviation (input) WUBU_CAP_AUDIT_CAPACITY :: nat where "WUBU_CAP_AUDIT_CAPACITY \<equiv> 256"
abbreviation (input) WUBU_CAP_CHECK_AUDIENCE :: u8 where "WUBU_CAP_CHECK_AUDIENCE \<equiv> 1"
abbreviation (input) WUBU_CAP_CHECK_RIGHTS :: u8 where "WUBU_CAP_CHECK_RIGHTS \<equiv> 2"
abbreviation (input) WUBU_CAP_CHECK_REVOKED :: u8 where "WUBU_CAP_CHECK_REVOKED \<equiv> 3"

record cap_audit_rec =
  a_pid :: i32
  a_kind :: u16
  a_check :: u8
  a_requested :: u64
  a_seq :: u64

record cap_audit =
  g_ring :: "cap_audit_rec list"
  g_head :: nat
  g_count :: nat
  g_seq :: u64

definition zero_audit_rec :: cap_audit_rec where
  "zero_audit_rec = \<lparr>a_pid = 0, a_kind = 0, a_check = 0, a_requested = 0, a_seq = 0\<rparr>"

definition wubu_cap_audit_reset :: "cap_audit \<Rightarrow> cap_audit" where
  "wubu_cap_audit_reset a =
     a\<lparr>g_ring := replicate WUBU_CAP_AUDIT_CAPACITY zero_audit_rec, g_head := 0, g_count := 0,
       g_seq := 0\<rparr>"

definition wubu_cap_audit_record :: "i32 \<Rightarrow> u16 \<Rightarrow> u64 \<Rightarrow> u8 \<Rightarrow> cap_audit \<Rightarrow> cap_audit" where
  "wubu_cap_audit_record pid kind requested check a =
     (let r = \<lparr>a_pid = pid, a_kind = kind, a_check = check, a_requested = requested,
               a_seq = g_seq a + 1\<rparr>
      in a\<lparr>g_ring := (g_ring a)[g_head a := r],
           g_seq := g_seq a + 1,
           g_head := (g_head a + 1) mod WUBU_CAP_AUDIT_CAPACITY,
           g_count := (if g_count a < WUBU_CAP_AUDIT_CAPACITY then g_count a + 1 else g_count a)\<rparr>)"

definition wubu_cap_audit_count :: "cap_audit \<Rightarrow> nat" where
  "wubu_cap_audit_count a = g_count a"

definition wubu_cap_audit_total :: "cap_audit \<Rightarrow> u64" where
  "wubu_cap_audit_total a = g_seq a"

definition wubu_cap_audit_at :: "cap_audit \<Rightarrow> nat \<Rightarrow> cap_audit_rec option" where
  "wubu_cap_audit_at a i =
     (if i < g_count a then
        let start = (g_head a + WUBU_CAP_AUDIT_CAPACITY - g_count a) mod WUBU_CAP_AUDIT_CAPACITY
        in Some (g_ring a ! ((start + i) mod WUBU_CAP_AUDIT_CAPACITY))
      else None)"

section \<open>Invariant and abstraction\<close>

definition audit_inv :: "cap_audit \<Rightarrow> bool" where
  "audit_inv a \<longleftrightarrow> length (g_ring a) = WUBU_CAP_AUDIT_CAPACITY \<and>
     g_head a < WUBU_CAP_AUDIT_CAPACITY \<and> g_count a \<le> WUBU_CAP_AUDIT_CAPACITY"

definition audit_items :: "cap_audit \<Rightarrow> cap_audit_rec list" where
  "audit_items a = ring_items (g_ring a) (g_head a) (g_count a)"

definition audit_empty :: cap_audit where
  "audit_empty = \<lparr>g_ring = replicate WUBU_CAP_AUDIT_CAPACITY zero_audit_rec, g_head = 0,
     g_count = 0, g_seq = 0\<rparr>"

text \<open>A denial as the clients pass it to the ring: pid, kind, requested rights, check.\<close>

type_synonym denial = "i32 \<times> u16 \<times> u64 \<times> u8"

fun audit_push :: "denial \<Rightarrow> cap_audit \<Rightarrow> cap_audit" where
  "audit_push (pid, kind, requested, check) a = wubu_cap_audit_record pid kind requested check a"

definition rec_denial :: "cap_audit_rec \<Rightarrow> denial" where
  "rec_denial r = (a_pid r, a_kind r, a_requested r, a_check r)"

section \<open>The interface of a bounded log\<close>

text \<open>
  A log of bounded size: pushing appends, and once the capacity is reached drops the
  oldest entry.
\<close>

locale bounded_log =
  fixes cap :: nat
    and invar :: "'s \<Rightarrow> bool"
    and push :: "'a \<Rightarrow> 's \<Rightarrow> 's"
    and items :: "'s \<Rightarrow> 'a list"
  assumes cap_pos: "0 < cap"
    and items_le: "invar s \<Longrightarrow> length (items s) \<le> cap"
    and invar_push: "invar s \<Longrightarrow> invar (push x s)"
    and items_push: "invar s \<Longrightarrow> items (push x s) =
      (if length (items s) < cap then items s @ [x] else tl (items s) @ [x])"
begin

lemma items_push_take_last:
  "invar s \<Longrightarrow> items (push x s) = drop (length (items s) + 1 - cap) (items s @ [x])"
proof -
  assume s: "invar s"
  show ?thesis
  proof (cases "length (items s) < cap")
    case True
    then show ?thesis using items_push [OF s] by simp
  next
    case False
    then have "length (items s) = cap" using items_le [OF s] by simp
    moreover from this have "items s \<noteq> []" using cap_pos by auto
    ultimately show ?thesis using items_push [OF s] by (cases "items s") auto
  qed
qed

text \<open>After any sequence of pushes the log holds the most recent \<open>cap\<close> entries in order.\<close>

lemma invar_fold_push: "invar s \<Longrightarrow> invar (fold push xs s)"
  by (induction xs arbitrary: s) (auto intro: invar_push)

lemma items_fold_push:
  "invar s \<Longrightarrow> items (fold push xs s) = drop (length (items s @ xs) - cap) (items s @ xs)"
proof (induction xs arbitrary: s)
  case Nil
  then show ?case using items_le by simp
next
  case (Cons x xs)
  let ?n = "length (items s) + 1 - cap"
  have it: "items (push x s) = drop ?n (items s @ [x])"
    using Cons.prems by (rule items_push_take_last)
  have le: "?n \<le> 1" using items_le [OF Cons.prems] by simp
  let ?ys = "items s @ x # xs"
  have app: "items (push x s) @ xs = drop ?n ?ys"
    using le cap_pos unfolding it by simp
  have "items (fold push (x # xs) s) = drop (length (drop ?n ?ys) - cap) (drop ?n ?ys)"
    using Cons.IH [OF invar_push [OF Cons.prems, of x], unfolded app] by (simp only: fold_simps)
  also have "\<dots> = drop (length (drop ?n ?ys) - cap + ?n) ?ys" by (rule drop_drop)
  also have "length (drop ?n ?ys) - cap + ?n = length ?ys - cap"
    unfolding length_drop length_append list.size by arith
  finally show ?case .
qed

lemma last_items_push: "invar s \<Longrightarrow> last (items (push x s)) = x"
  by (simp add: items_push)

end

lemma audit_inv_record [inv_intros]:
  "audit_inv a \<Longrightarrow> audit_inv (wubu_cap_audit_record pid kind req chk a)"
  by (simp add: audit_inv_def wubu_cap_audit_record_def Let_def)

lemma audit_inv_empty [simp]: "audit_inv audit_empty"
  by (simp add: audit_inv_def audit_empty_def)

lemma audit_inv_reset [inv_intros]: "audit_inv (wubu_cap_audit_reset a)"
  by (simp add: audit_inv_def wubu_cap_audit_reset_def)

lemma audit_items_empty [simp]: "audit_items audit_empty = []"
  by (simp add: audit_items_def audit_empty_def ring_items_def)

lemma audit_items_record:
  assumes "audit_inv a"
  shows "audit_items (wubu_cap_audit_record pid kind req chk a) =
     (if length (audit_items a) < WUBU_CAP_AUDIT_CAPACITY then audit_items a else tl (audit_items a))
     @ [\<lparr>a_pid = pid, a_kind = kind, a_check = chk, a_requested = req, a_seq = g_seq a + 1\<rparr>]"
proof (cases "g_count a < WUBU_CAP_AUDIT_CAPACITY")
  case True
  with assms show ?thesis
    using ring_items_push [of "g_head a" "g_ring a" "g_count a"]
    by (simp add: audit_items_def wubu_cap_audit_record_def audit_inv_def Let_def)
next
  case False
  with assms have full: "g_count a = length (g_ring a)" "length (g_ring a) = 256"
    "g_head a < length (g_ring a)"
    by (auto simp: audit_inv_def)
  show ?thesis
    using ring_items_push_full [OF full(3)] full
    by (simp add: audit_items_def wubu_cap_audit_record_def Let_def)
qed

lemma audit_at_items:
  assumes "audit_inv a"
  shows "wubu_cap_audit_at a i = (if i < length (audit_items a) then Some (audit_items a ! i) else None)"
  using assms
  by (simp add: wubu_cap_audit_at_def audit_items_def audit_inv_def nth_ring_items mod_simps)

interpretation audit: bounded_log WUBU_CAP_AUDIT_CAPACITY audit_inv audit_push
  "\<lambda>a. map rec_denial (audit_items a)"
proof (unfold_locales, goal_cases)
  case 1 show ?case by simp
next
  case (2 a) then show ?case by (simp add: audit_items_def audit_inv_def)
next
  case (3 a x) then show ?case by (cases x) (simp add: audit_inv_record)
next
  case (4 a x) then show ?case
    by (cases x) (simp add: audit_items_record rec_denial_def map_tl)
qed

end
