(* ===== verification/Cap_Object.thy ===== *)
theory Cap_Object
  imports Cap_Audit
begin

text \<open>
  The object registry of \<open>wubu_cap_object.c\<close> and the revocation cascade of
  \<open>wubu_cap_revoke.c\<close>. The registry \<open>g_wubu_cap_ptrs\<close> is a partial map from slots; a
  pointer to an object is its slot. The audience argument is the array of the header's
  contract (\<open>WUBU_CAP_AUDIENCE_MAX\<close> entries or a terminator before), \<open>None\<close> for \<open>NULL\<close>.
  The outcome of \<open>malloc\<close> is an argument of the operations that allocate.
\<close>

record cap_state =
  g_ptrs :: "nat \<Rightarrow> cap_object option"
  g_cap_count :: u32
  g_audit :: cap_audit

abbreviation obj_at :: "cap_state \<Rightarrow> u32 \<Rightarrow> cap_object option" where
  "obj_at s idx \<equiv> g_ptrs s (unat idx)"

definition set_obj :: "u32 \<Rightarrow> cap_object \<Rightarrow> cap_state \<Rightarrow> cap_state" where
  "set_obj idx obj s = s\<lparr>g_ptrs := (g_ptrs s)(unat idx \<mapsto> obj)\<rparr>"

definition cap_state_empty :: cap_state where
  "cap_state_empty = \<lparr>g_ptrs = (\<lambda>_. None), g_cap_count = 0, g_audit = audit_empty\<rparr>"

section \<open>File-local helpers\<close>

text \<open>The entries an audience loop reads before its \<open>break\<close>.\<close>

definition audience_prefix :: "i32 list \<Rightarrow> i32 list" where
  "audience_prefix src = takeWhile (\<lambda>p. p \<noteq> WUBU_PID_NONE) (take WUBU_CAP_AUDIENCE_MAX src)"

definition cap_copy_audience :: "i32 list option \<Rightarrow> i32 \<Rightarrow> i32 list \<times> u8" where
  "cap_copy_audience src fallback_pid =
     (case src of
        None \<Rightarrow> (fallback_pid # replicate (WUBU_CAP_AUDIENCE_MAX - 1) WUBU_PID_NONE, 1)
      | Some xs \<Rightarrow>
          let ys = audience_prefix xs
          in (ys @ replicate (WUBU_CAP_AUDIENCE_MAX - length ys) WUBU_PID_NONE, of_nat (length ys)))"

definition cap_find_free_slot_locked :: "cap_state \<Rightarrow> nat option" where
  "cap_find_free_slot_locked s = first_from (\<lambda>i. g_ptrs s i = None) 1 WUBU_CAP_OBJECT_CAPACITY"

definition audience_is_subset :: "cap_object \<Rightarrow> i32 list option \<Rightarrow> bool" where
  "audience_is_subset parent sub =
     (if is_public parent then True
      else case sub of
        None \<Rightarrow> True
      | Some xs \<Rightarrow>
          list_all (\<lambda>p. p \<noteq> WUBU_PID_PUBLIC \<and> p \<in> set (audience_list parent)) (audience_prefix xs))"

section \<open>Initialisation\<close>

definition cap_sentinel :: cap_object where
  "cap_sentinel = cap_zero\<lparr>o_kind := WUBU_CAP_KIND_NONE, o_generation := 1,
     o_rights := WUBU_RIGHTS_ALL,
     o_audience_set := WUBU_PID_PUBLIC # replicate (WUBU_CAP_AUDIENCE_MAX - 1) WUBU_PID_NONE,
     o_audience_count := 1, o_flags := WUBU_CAP_FLAG_IMMORTAL OR WUBU_CAP_FLAG_PUBLIC,
     o_parent_idx := WUBU_CAP_IDX_NONE, o_owner_pid := WUBU_PID_KERNEL,
     o_first_child_idx := WUBU_CAP_IDX_NONE, o_next_sibling_idx := WUBU_CAP_IDX_NONE\<rparr>"

definition wubu_cap_init :: "bool \<Rightarrow> cap_state \<Rightarrow> cap_state" where
  "wubu_cap_init malloc_ok s =
     (if g_ptrs s 0 \<noteq> None then s
      else if \<not> malloc_ok then s
      else s\<lparr>g_ptrs := (g_ptrs s)(0 \<mapsto> cap_sentinel), g_cap_count := 1\<rparr>)"

section \<open>Resolution\<close>

definition deny :: "i32 \<Rightarrow> cap_object \<Rightarrow> u64 \<Rightarrow> u8 \<Rightarrow> cap_state \<Rightarrow> cap_state" where
  "deny pid obj req chk s =
     s\<lparr>g_audit := wubu_cap_audit_record pid (o_kind obj) req chk (g_audit s)\<rparr>"

definition wubu_cap_resolve :: "i32 \<Rightarrow> cap_token \<Rightarrow> u64 \<Rightarrow> cap_state \<Rightarrow> u32 option \<times> cap_state" where
  "wubu_cap_resolve calling_pid tok required_rights s =
     (if wubu_cap_token_is_null tok then (None, s)
      else let idx = wubu_cap_token_idx tok in
        if idx = 0 \<or> WUBU_CAP_OBJECT_CAPACITY \<le> unat idx then (None, s)
        else case obj_at s idx of
          None \<Rightarrow> (None, s)
        | Some obj \<Rightarrow>
            if o_deleted obj
            then (None, deny calling_pid obj required_rights WUBU_CAP_CHECK_REVOKED s)
            else if o_generation obj \<noteq> wubu_cap_token_gen tok
            then (None, deny calling_pid obj required_rights WUBU_CAP_CHECK_REVOKED s)
            else if \<not> is_public obj \<and> calling_pid \<notin> set (audience_list obj)
            then (None, deny calling_pid obj required_rights WUBU_CAP_CHECK_AUDIENCE s)
            else if o_rights obj AND required_rights \<noteq> required_rights
            then (None, deny calling_pid obj required_rights WUBU_CAP_CHECK_RIGHTS s)
            else (Some idx, s))"

section \<open>Lifecycle\<close>

definition wubu_cap_link_child :: "u32 \<Rightarrow> u32 \<Rightarrow> cap_state \<Rightarrow> cap_state" where
  "wubu_cap_link_child parent_idx child_idx s =
     (if parent_idx = WUBU_CAP_IDX_NONE \<or> WUBU_CAP_OBJECT_CAPACITY \<le> unat parent_idx then s
      else if child_idx = 0 \<or> WUBU_CAP_OBJECT_CAPACITY \<le> unat child_idx then s
      else case (obj_at s parent_idx, obj_at s child_idx) of
        (Some parent, Some child) \<Rightarrow>
          let s1 = set_obj child_idx (child\<lparr>o_next_sibling_idx := o_first_child_idx parent\<rparr>) s
          in (case obj_at s1 parent_idx of
                Some p1 \<Rightarrow> set_obj parent_idx (p1\<lparr>o_first_child_idx := child_idx\<rparr>) s1
              | None \<Rightarrow> s1)
      | _ \<Rightarrow> s)"

definition new_object ::
  "u16 \<Rightarrow> u64 \<Rightarrow> i32 list option \<Rightarrow> u8 \<Rightarrow> u64 \<Rightarrow> i32 \<Rightarrow> u32 \<Rightarrow> cap_object" where
  "new_object kind rights audience flags kind_data owner_pid parent_idx =
     (let (aud, n) = cap_copy_audience audience owner_pid;
          flags = (if WUBU_PID_PUBLIC \<in> set (take (unat n) aud)
                   then flags OR WUBU_CAP_FLAG_PUBLIC else flags)
      in cap_zero\<lparr>o_kind := kind, o_generation := 1, o_rights := rights, o_audience_set := aud,
           o_audience_count := n, o_flags := flags, o_parent_idx := parent_idx,
           o_owner_pid := owner_pid, o_kind_data := kind_data,
           o_first_child_idx := WUBU_CAP_IDX_NONE, o_next_sibling_idx := WUBU_CAP_IDX_NONE\<rparr>)"

text \<open>Result: the return code, the token stored in \<open>*out\<close> and the new state.\<close>

definition wubu_cap_create ::
  "bool \<Rightarrow> bool \<Rightarrow> u16 \<Rightarrow> u64 \<Rightarrow> i32 list option \<Rightarrow> u8 \<Rightarrow> u64 \<Rightarrow> i32 \<Rightarrow> u32 \<Rightarrow> cap_state
   \<Rightarrow> int \<times> cap_token \<times> cap_state" where
  "wubu_cap_create init_ok malloc_ok kind rights audience flags kind_data owner_pid parent_idx s0 =
     (let s = (if g_ptrs s0 0 = None then wubu_cap_init init_ok s0 else s0) in
      if \<not> malloc_ok then (WUBU_CAP_ENOMEM, WUBU_CAP_TOKEN_NULL, s)
      else let obj = new_object kind rights audience flags kind_data owner_pid parent_idx in
        case cap_find_free_slot_locked s of
          None \<Rightarrow> (WUBU_CAP_ENOMEM, WUBU_CAP_TOKEN_NULL, s)
        | Some n \<Rightarrow>
            let slot = of_nat n :: u32;
                s1 = set_obj slot obj s;
                s2 = (if g_cap_count s1 \<le> slot then s1\<lparr>g_cap_count := slot + 1\<rparr> else s1);
                s3 = (if parent_idx \<noteq> WUBU_CAP_IDX_NONE \<and> unat parent_idx < WUBU_CAP_OBJECT_CAPACITY
                      then wubu_cap_link_child parent_idx slot s2 else s2)
            in (int n, wubu_cap_token_pack 1 slot (o_flags obj), s3))"

definition cap_derive_inner ::
  "bool \<Rightarrow> bool \<Rightarrow> cap_token \<Rightarrow> i32 \<Rightarrow> u64 \<Rightarrow> i32 list option \<Rightarrow> u8 \<Rightarrow> bool \<Rightarrow> cap_state
   \<Rightarrow> int \<times> cap_token \<times> cap_state" where
  "cap_derive_inner init_ok malloc_ok parent_tok caller_pid rights_subset audience_subset
       flags_subset allow_audience_expand s =
     (let parent_idx = wubu_cap_token_idx parent_tok in
      if parent_idx = 0 \<or> WUBU_CAP_OBJECT_CAPACITY \<le> unat parent_idx
      then (WUBU_CAP_EINVAL, WUBU_CAP_TOKEN_NULL, s)
      else case obj_at s parent_idx of
        None \<Rightarrow> (WUBU_CAP_EINVAL, WUBU_CAP_TOKEN_NULL, s)
      | Some parent \<Rightarrow>
          if o_deleted parent then (WUBU_CAP_EREVOKED, WUBU_CAP_TOKEN_NULL, s)
          else if \<not> wubu_cap_validate_audience parent caller_pid
          then (WUBU_CAP_EPERM, WUBU_CAP_TOKEN_NULL, s)
          else if o_rights parent AND WUBU_RIGHT_DERIVE = 0
          then (WUBU_CAP_EPERM, WUBU_CAP_TOKEN_NULL, s)
          else if o_rights parent AND rights_subset \<noteq> rights_subset
          then (WUBU_CAP_EPERM, WUBU_CAP_TOKEN_NULL, s)
          else let priv_sub = flags_subset AND (WUBU_CAP_FLAG_PUBLIC OR WUBU_CAP_FLAG_IMMORTAL) in
            if o_flags parent AND priv_sub \<noteq> priv_sub
            then (WUBU_CAP_EPERM, WUBU_CAP_TOKEN_NULL, s)
            else if \<not> allow_audience_expand \<and> \<not> audience_is_subset parent audience_subset
            then (WUBU_CAP_EPERM, WUBU_CAP_TOKEN_NULL, s)
            else let aud = (case audience_subset of
                       None \<Rightarrow> caller_pid # replicate (WUBU_CAP_AUDIENCE_MAX - 1) WUBU_PID_NONE
                     | Some a \<Rightarrow> a)
              in wubu_cap_create init_ok malloc_ok (o_kind parent) rights_subset (Some aud)
                   flags_subset (o_kind_data parent) caller_pid parent_idx s)"

definition wubu_cap_derive ::
  "bool \<Rightarrow> bool \<Rightarrow> cap_token \<Rightarrow> i32 \<Rightarrow> u64 \<Rightarrow> i32 list option \<Rightarrow> u8 \<Rightarrow> cap_state
   \<Rightarrow> int \<times> cap_token \<times> cap_state" where
  "wubu_cap_derive init_ok malloc_ok parent caller_pid rights_subset audience_subset flags_subset s =
     cap_derive_inner init_ok malloc_ok parent caller_pid rights_subset audience_subset flags_subset
       False s"

definition wubu_cap_destroy :: "u32 \<Rightarrow> cap_state \<Rightarrow> cap_state" where
  "wubu_cap_destroy idx s =
     (if idx = 0 \<or> WUBU_CAP_OBJECT_CAPACITY \<le> unat idx then s
      else s\<lparr>g_ptrs := (g_ptrs s)(unat idx := None)\<rparr>)"

section \<open>Revocation\<close>

abbreviation (input) WUBU_CAP_REVOKE_CASCADE_MAX :: nat where "WUBU_CAP_REVOKE_CASCADE_MAX \<equiv> 1024"

text \<open>
  Follow a sibling list from \<open>cur\<close> while the queue has room. The result is what was
  queued and whether the walk counts as truncated; \<open>dangling\<close> says whether stopping at a
  freed object counts (it does in the first loop, which tests \<open>cur\<close> after its \<open>break\<close>).
\<close>

fun push_siblings :: "bool \<Rightarrow> (nat \<Rightarrow> cap_object option) \<Rightarrow> u32 \<Rightarrow> nat \<Rightarrow> u32 list \<times> bool" where
  "push_siblings dangling ptrs cur 0 = ([], cur \<noteq> WUBU_CAP_IDX_NONE)"
| "push_siblings dangling ptrs cur (Suc room) =
     (if cur = WUBU_CAP_IDX_NONE then ([], False)
      else case ptrs (unat cur) of
        None \<Rightarrow> ([cur], dangling)
      | Some c \<Rightarrow>
          (case push_siblings dangling ptrs (o_next_sibling_idx c) room of
             (xs, t) \<Rightarrow> (cur # xs, t)))"

definition kill :: "cap_object \<Rightarrow> cap_object" where
  "kill obj = (if o_deleted obj then obj
     else obj\<lparr>o_deleted := True, o_generation := o_generation obj + 1\<rparr>)"

lemma length_push_siblings: "length (fst (push_siblings d ptrs cur room)) \<le> room"
  by (induction room arbitrary: cur) (auto simp: split_beta split: option.splits)

text \<open>Invalidating one queued object, and the children it then queues.\<close>

definition visit :: "u32 \<Rightarrow> cap_object \<Rightarrow> cap_state \<Rightarrow> cap_state" where
  "visit idx obj s = set_obj idx (kill obj) s"

definition queued :: "nat \<Rightarrow> cap_object \<Rightarrow> cap_state \<Rightarrow> u32 list \<times> bool" where
  "queued room obj s = push_siblings False (g_ptrs s) (o_first_child_idx obj) room"

text \<open>
  The work loop: \<open>todo\<close> is \<open>queue[head..tail)\<close>, \<open>room\<close> the free places of the queue. The
  result is the number of objects invalidated and the truncation flag.
\<close>

function cascade_loop :: "u32 list \<Rightarrow> nat \<Rightarrow> nat \<Rightarrow> bool \<Rightarrow> cap_state \<Rightarrow> nat \<times> bool \<times> cap_state" where
  "cascade_loop [] room count truncated s = (count, truncated, s)"
| "cascade_loop (idx # todo) room count truncated s =
     (case obj_at s idx of
        None \<Rightarrow> cascade_loop todo room count truncated s
      | Some obj \<Rightarrow>
          if is_immortal obj then cascade_loop todo room count truncated s
          else cascade_loop (todo @ fst (queued room obj (visit idx obj s)))
                 (room - length (fst (queued room obj (visit idx obj s))))
                 (if o_deleted obj then count else count + 1)
                 (truncated \<or> snd (queued room obj (visit idx obj s))) (visit idx obj s))"
  by pat_completeness auto
termination
  by (relation "measure (\<lambda>(todo, room, count, truncated, s). length todo + room)")
     (use length_push_siblings in \<open>auto simp: queued_def le_imp_diff_is_add\<close>)

definition wubu_cap_revoke_cascade :: "u32 \<Rightarrow> cap_state \<Rightarrow> int \<times> cap_state" where
  "wubu_cap_revoke_cascade root_idx s =
     (if root_idx = 0 \<or> WUBU_CAP_OBJECT_CAPACITY \<le> unat root_idx then (0, s)
      else case obj_at s root_idx of
        None \<Rightarrow> (0, s)
      | Some root \<Rightarrow>
          let first = push_siblings True (g_ptrs s) (o_first_child_idx root)
                        WUBU_CAP_REVOKE_CASCADE_MAX
          in case cascade_loop (fst first) (WUBU_CAP_REVOKE_CASCADE_MAX - length (fst first)) 0
                    (snd first) s of
               (count, truncated, s1) \<Rightarrow>
                 (int count,
                  if truncated then
                    (case obj_at s1 root_idx of
                       None \<Rightarrow> s1
                     | Some root2 \<Rightarrow>
                         set_obj root_idx (root2\<lparr>o_flags := o_flags root2 OR
                           WUBU_CAP_FLAG_CASCADE_TRUNCATED\<rparr>) s1)
                  else s1))"

definition wubu_cap_revoke :: "cap_token \<Rightarrow> cap_state \<Rightarrow> int \<times> cap_state" where
  "wubu_cap_revoke tok s =
     (let idx = wubu_cap_token_idx tok in
      if idx = 0 \<or> WUBU_CAP_OBJECT_CAPACITY \<le> unat idx then (WUBU_CAP_EINVAL, s)
      else case obj_at s idx of
        None \<Rightarrow> (WUBU_CAP_EINVAL, s)
      | Some obj \<Rightarrow>
          if is_immortal obj then (WUBU_CAP_EPERM, s)
          else if o_deleted obj then (WUBU_CAP_EREVOKED, s)
          else let s1 = set_obj idx (obj\<lparr>o_deleted := True,
                          o_generation := o_generation obj + 1\<rparr>) s
            in if o_flags obj AND WUBU_CAP_FLAG_EAGER_REVOKE \<noteq> 0
               then (case wubu_cap_revoke_cascade idx s1 of
                       (c, s2) \<Rightarrow> (if 0 < c then 1 + c else 1, s2))
               else (1, s1))"

section \<open>Inspection\<close>

record cap_inspect =
  i_kind :: u16
  i_flags :: u8
  i_generation :: u32
  i_rights :: u64
  i_audience :: "i32 list"
  i_owner_pid :: i32

definition wubu_cap_inspect :: "cap_token \<Rightarrow> i32 \<Rightarrow> bool \<Rightarrow> cap_state \<Rightarrow> int + cap_inspect" where
  "wubu_cap_inspect tok caller_pid out_null s =
     (if out_null then Inl WUBU_CAP_EFAULT
      else let idx = wubu_cap_token_idx tok in
        if idx = 0 \<or> WUBU_CAP_OBJECT_CAPACITY \<le> unat idx then Inl WUBU_CAP_EINVAL
        else case obj_at s idx of
          None \<Rightarrow> Inl WUBU_CAP_EINVAL
        | Some obj \<Rightarrow>
            if o_deleted obj then Inl WUBU_CAP_EREVOKED
            else if \<not> wubu_cap_validate_audience obj caller_pid then Inl WUBU_CAP_EPERM
            else let seen = filter (\<lambda>p. p = caller_pid \<or> p = WUBU_PID_PUBLIC) (audience_list obj)
              in Inr \<lparr>i_kind = o_kind obj, i_flags = o_flags obj, i_generation = o_generation obj,
                   i_rights = o_rights obj,
                   i_audience = seen @ replicate (WUBU_CAP_AUDIENCE_MAX - length seen) WUBU_PID_NONE,
                   i_owner_pid = o_owner_pid obj\<rparr>)"

end
