(* ===== verification/Cap_Object_Facts.thy ===== *)
theory Cap_Object_Facts
  imports Cap_Object
begin

text \<open>
  Facts about the capability registry: the well-formedness invariant, the order in which
  objects evolve under every operation but \<open>wubu_cap_destroy\<close>, and the behaviour of
  resolution, creation, derivation and revocation on every branch.
\<close>

section \<open>Invariant\<close>

definition link_ok :: "u32 \<Rightarrow> bool" where
  "link_ok i \<longleftrightarrow> i = WUBU_CAP_IDX_NONE \<or> unat i < WUBU_CAP_OBJECT_CAPACITY"

definition obj_ok :: "cap_object \<Rightarrow> bool" where
  "obj_ok obj \<longleftrightarrow> length (o_audience_set obj) = WUBU_CAP_AUDIENCE_MAX \<and>
     unat (o_audience_count obj) \<le> WUBU_CAP_AUDIENCE_MAX \<and>
     link_ok (o_first_child_idx obj) \<and> link_ok (o_next_sibling_idx obj)"

definition cap_inv :: "cap_state \<Rightarrow> bool" where
  "cap_inv s \<longleftrightarrow>
     (\<forall>i obj. g_ptrs s i = Some obj \<longrightarrow> i < WUBU_CAP_OBJECT_CAPACITY \<and> obj_ok obj) \<and>
     audit_inv (g_audit s)"

lemma cap_invI [intro]:
  "(\<And>i obj. g_ptrs s i = Some obj \<Longrightarrow> i < WUBU_CAP_OBJECT_CAPACITY \<and> obj_ok obj) \<Longrightarrow>
   audit_inv (g_audit s) \<Longrightarrow> cap_inv s"
  by (simp add: cap_inv_def)

lemma cap_invD:
  "cap_inv s \<Longrightarrow> g_ptrs s i = Some obj \<Longrightarrow> i < WUBU_CAP_OBJECT_CAPACITY"
  "cap_inv s \<Longrightarrow> g_ptrs s i = Some obj \<Longrightarrow> obj_ok obj"
  "cap_inv s \<Longrightarrow> audit_inv (g_audit s)"
  by (auto simp: cap_inv_def)

lemma link_ok_NONE [simp]: "link_ok WUBU_CAP_IDX_NONE"
  by (simp add: link_ok_def)

lemma set_obj_simps [simp]:
  "g_ptrs (set_obj idx obj s) = (g_ptrs s)(unat idx \<mapsto> obj)"
  "g_audit (set_obj idx obj s) = g_audit s"
  "g_cap_count (set_obj idx obj s) = g_cap_count s"
  by (simp_all add: set_obj_def)

lemma deny_ptrs [simp]: "g_ptrs (deny pid obj req chk s) = g_ptrs s"
  by (simp add: deny_def)

lemma cap_inv_empty [simp]: "cap_inv cap_state_empty"
  by (auto simp: cap_state_empty_def)

lemma cap_inv_set_obj [inv_intros]:
  "cap_inv s \<Longrightarrow> unat idx < WUBU_CAP_OBJECT_CAPACITY \<Longrightarrow> obj_ok obj \<Longrightarrow> cap_inv (set_obj idx obj s)"
  by (auto simp: cap_inv_def split: if_splits)

lemma cap_inv_deny [inv_intros]: "cap_inv s \<Longrightarrow> cap_inv (deny pid obj req chk s)"
  by (auto simp: cap_inv_def deny_def intro: audit_inv_record)

lemma cap_inv_count [simp]: "cap_inv (s\<lparr>g_cap_count := n\<rparr>) = cap_inv s"
  by (simp add: cap_inv_def)

section \<open>Audiences\<close>

lemma length_audience_prefix: "length (audience_prefix xs) \<le> WUBU_CAP_AUDIENCE_MAX"
proof -
  have "length (audience_prefix xs) \<le> length (take WUBU_CAP_AUDIENCE_MAX xs)"
    unfolding audience_prefix_def by (rule length_takeWhile_le)
  then show ?thesis by simp
qed

lemma unat_length_audience_prefix [simp]:
  "unat (of_nat (length (audience_prefix xs)) :: u8) = length (audience_prefix xs)"
  using length_audience_prefix [of xs] by simp

lemma length_copy_audience:
  "length (fst (cap_copy_audience src pid)) = WUBU_CAP_AUDIENCE_MAX"
  "unat (snd (cap_copy_audience src pid)) \<le> WUBU_CAP_AUDIENCE_MAX"
  using length_audience_prefix
  by (auto simp: cap_copy_audience_def Let_def split: option.splits)

text \<open>What a fresh object's audience loops read: the caller's list, or the fallback pid.\<close>

lemma take_copy_audience:
  "take (unat (snd (cap_copy_audience src pid))) (fst (cap_copy_audience src pid)) =
     (case src of None \<Rightarrow> [pid] | Some xs \<Rightarrow> audience_prefix xs)"
proof (cases src)
  case None
  then show ?thesis by (simp add: cap_copy_audience_def)
next
  case (Some xs)
  then show ?thesis by (simp add: cap_copy_audience_def Let_def)
qed

lemma new_object_simps [simp]:
  "o_kind (new_object k r a f d p q) = k"
  "o_deleted (new_object k r a f d p q) = False"
  "o_generation (new_object k r a f d p q) = 1"
  "o_rights (new_object k r a f d p q) = r"
  "o_kind_data (new_object k r a f d p q) = d"
  "o_parent_idx (new_object k r a f d p q) = q"
  "o_owner_pid (new_object k r a f d p q) = p"
  "o_first_child_idx (new_object k r a f d p q) = WUBU_CAP_IDX_NONE"
  "o_next_sibling_idx (new_object k r a f d p q) = WUBU_CAP_IDX_NONE"
  by (simp_all add: new_object_def cap_zero_def split_beta)

lemma audience_list_new_object:
  "audience_list (new_object k r a f d p q) =
     (case a of None \<Rightarrow> [p] | Some xs \<Rightarrow> audience_prefix xs)"
  using take_copy_audience [of a p] length_copy_audience(2) [of a p]
  by (simp add: audience_list_def new_object_def split_beta min_absorb1)

lemma flags_new_object:
  "o_flags (new_object k r a f d p q) =
     (if WUBU_PID_PUBLIC \<in> set (audience_list (new_object k r a f d p q))
      then f OR WUBU_CAP_FLAG_PUBLIC else f)"
  using take_copy_audience [of a p]
  by (simp add: audience_list_new_object) (simp add: new_object_def split_beta)

lemma obj_ok_new_object [simp]: "obj_ok (new_object k r a f d p q)"
  using length_copy_audience [of a p]
  by (simp add: obj_ok_def) (simp add: new_object_def split_beta)

section \<open>How objects evolve\<close>

text \<open>
  What every operation but \<open>wubu_cap_destroy\<close> guarantees of an existing object: its
  identity, rights and audience never change, a revoked object stays revoked, an object
  that is not revoked keeps its generation, an immortal object is never revoked.
\<close>

definition obj_evolves :: "cap_object \<Rightarrow> cap_object \<Rightarrow> bool" where
  "obj_evolves a b \<longleftrightarrow>
     o_kind b = o_kind a \<and> o_rights b = o_rights a \<and> o_kind_data b = o_kind_data a \<and>
     o_audience_set b = o_audience_set a \<and> o_audience_count b = o_audience_count a \<and>
     o_parent_idx b = o_parent_idx a \<and> o_owner_pid b = o_owner_pid a \<and>
     (is_public b = is_public a) \<and> (is_immortal b = is_immortal a) \<and>
     (o_deleted a \<longrightarrow> o_deleted b) \<and>
     (\<not> o_deleted b \<longrightarrow> o_generation b = o_generation a) \<and>
     (is_immortal a \<longrightarrow> o_deleted b = o_deleted a)"

definition evolves :: "cap_state \<Rightarrow> cap_state \<Rightarrow> bool" where
  "evolves s t \<longleftrightarrow>
     (\<forall>i a. g_ptrs s i = Some a \<longrightarrow> (\<exists>b. g_ptrs t i = Some b \<and> obj_evolves a b))"

lemma obj_evolves_refl [simp]: "obj_evolves a a"
  by (simp add: obj_evolves_def)

lemma obj_evolves_trans [trans]: "obj_evolves a b \<Longrightarrow> obj_evolves b c \<Longrightarrow> obj_evolves a c"
  by (auto simp: obj_evolves_def)

lemma evolves_refl [simp]: "evolves s s"
  by (auto simp: evolves_def)

lemma evolves_trans [trans]: "evolves s t \<Longrightarrow> evolves t u \<Longrightarrow> evolves s u"
  unfolding evolves_def using obj_evolves_trans by blast

lemma evolves_same_ptrs: "g_ptrs t = g_ptrs s \<Longrightarrow> evolves s t"
  by (auto simp: evolves_def)

lemma evolves_ptrs: "g_ptrs t = g_ptrs t' \<Longrightarrow> evolves s t = evolves s t'"
  by (simp add: evolves_def)

lemma evolvesE:
  assumes "evolves s t" and "g_ptrs s i = Some a"
  obtains b where "g_ptrs t i = Some b" and "obj_evolves a b"
  using assms by (auto simp: evolves_def)

lemma evolves_set_obj:
  "obj_at s idx = None \<or> (\<exists>a. obj_at s idx = Some a \<and> obj_evolves a obj) \<Longrightarrow>
   evolves s (set_obj idx obj s)"
  by (auto simp: evolves_def)

lemma flags_or_truncated:
  "is_public (obj\<lparr>o_flags := o_flags obj OR WUBU_CAP_FLAG_CASCADE_TRUNCATED\<rparr>) = is_public obj"
  "is_immortal (obj\<lparr>o_flags := o_flags obj OR WUBU_CAP_FLAG_CASCADE_TRUNCATED\<rparr>) = is_immortal obj"
  by (simp_all add: is_public_def is_immortal_def bit.conj_disj_distrib2)

lemma kill_simps [simp]:
  "o_deleted (kill obj)" "o_first_child_idx (kill obj) = o_first_child_idx obj"
  "o_next_sibling_idx (kill obj) = o_next_sibling_idx obj"
  "is_immortal (kill obj) = is_immortal obj" "is_public (kill obj) = is_public obj"
  "o_flags (kill obj) = o_flags obj"
  by (simp_all add: kill_def is_immortal_def is_public_def)

lemma obj_evolves_kill: "\<not> is_immortal obj \<Longrightarrow> obj_evolves obj (kill obj)"
  by (auto simp: obj_evolves_def kill_def is_immortal_def is_public_def)

lemma obj_ok_kill [simp]: "obj_ok (kill obj) = obj_ok obj"
  by (simp add: obj_ok_def kill_def)

section \<open>Every operation keeps the invariant and evolves the objects\<close>

lemma obj_ok_sentinel [simp]: "obj_ok cap_sentinel"
  by (simp add: obj_ok_def cap_sentinel_def cap_zero_def)

lemma init_inv [inv_intros]: "cap_inv s \<Longrightarrow> cap_inv (wubu_cap_init ok s)"
  by (auto simp: wubu_cap_init_def cap_inv_def)

lemma init_evolves: "evolves s (wubu_cap_init ok s)"
  by (auto simp: wubu_cap_init_def evolves_def)

lemma init_other [simp]: "i \<noteq> 0 \<Longrightarrow> g_ptrs (wubu_cap_init ok s) i = g_ptrs s i"
  by (simp add: wubu_cap_init_def)

lemma resolve_ptrs [simp]: "g_ptrs (snd (wubu_cap_resolve pid tok req s)) = g_ptrs s"
  by (simp add: wubu_cap_resolve_def Let_def split: option.splits)

lemma resolve_inv [inv_intros]: "cap_inv s \<Longrightarrow> cap_inv (snd (wubu_cap_resolve pid tok req s))"
  by (auto simp: wubu_cap_resolve_def Let_def split: option.splits intro: cap_inv_deny)

lemma resolve_evolves: "evolves s (snd (wubu_cap_resolve pid tok req s))"
  by (rule evolves_same_ptrs) simp

text \<open>Linking a child only writes the two link fields.\<close>

lemma obj_ok_links [intro]:
  "obj_ok x \<Longrightarrow> link_ok i \<Longrightarrow> obj_ok (x\<lparr>o_next_sibling_idx := i\<rparr>)"
  "obj_ok x \<Longrightarrow> link_ok i \<Longrightarrow> obj_ok (x\<lparr>o_first_child_idx := i\<rparr>)"
  "obj_ok x \<Longrightarrow> link_ok (o_first_child_idx x)"
  by (simp_all add: obj_ok_def)

lemma link_child_inv [inv_intros]:
  assumes "cap_inv s"
  shows "cap_inv (wubu_cap_link_child p c s)"
proof -
  have "unat c < WUBU_CAP_OBJECT_CAPACITY \<Longrightarrow> link_ok c" by (simp add: link_ok_def)
  then show ?thesis
    using assms unfolding wubu_cap_link_child_def
    by (auto simp: Let_def split: option.splits intro!: cap_inv_set_obj obj_ok_links
        dest: cap_invD(2) [OF assms])
qed

lemma obj_evolves_links [simp]:
  "obj_evolves a (b\<lparr>o_next_sibling_idx := i\<rparr>) = obj_evolves a b"
  "obj_evolves a (b\<lparr>o_first_child_idx := i\<rparr>) = obj_evolves a b"
  by (simp_all add: obj_evolves_def is_public_def is_immortal_def)

lemma link_child_evolves: "evolves s (wubu_cap_link_child p c s)"
  unfolding wubu_cap_link_child_def
  by (auto simp: Let_def evolves_def split: option.splits)

lemma link_child_obj:
  assumes "obj_at s c = Some obj"
  shows "\<exists>b. obj_at (wubu_cap_link_child p c s) c = Some b \<and> obj_evolves obj b \<and>
    o_deleted b = o_deleted obj"
proof -
  from link_child_evolves assms obtain b
    where b: "obj_at (wubu_cap_link_child p c s) c = Some b" "obj_evolves obj b" by (rule evolvesE)
  moreover from b(1) assms have "o_deleted b = o_deleted obj"
    by (auto simp: wubu_cap_link_child_def Let_def split: option.splits if_splits)
  ultimately show ?thesis by blast
qed

lemma find_free_slot_SomeD:
  assumes "cap_find_free_slot_locked s = Some n"
  shows "1 \<le> n" and "n < WUBU_CAP_OBJECT_CAPACITY" and "g_ptrs s n = None"
  using first_from_SomeD [OF assms [unfolded cap_find_free_slot_locked_def]] by auto

text \<open>
  A successful \<open>wubu_cap_create\<close>: a fresh slot of the registry holds the new object (its
  sibling link apart), the returned token names it, everything else evolves.
\<close>

lemma create_success:
  assumes "wubu_cap_create i m k r a f d p q s = (rc, tok, t)" and "0 < rc"
  obtains n b where "rc = int n" "1 \<le> n" "n < WUBU_CAP_OBJECT_CAPACITY"
    "g_ptrs s n = None" "g_ptrs t n = Some b" "obj_evolves (new_object k r a f d p q) b"
    "tok = wubu_cap_token_pack 1 (of_nat n) (o_flags (new_object k r a f d p q))"
    "evolves s t" "\<not> o_deleted b"
proof -
  define s1 where "s1 = (if g_ptrs s 0 = None then wubu_cap_init i s else s)"
  define obj where "obj = new_object k r a f d p q"
  obtain n where n: "cap_find_free_slot_locked s1 = Some n" and m: "m"
    using assms unfolding wubu_cap_create_def s1_def [symmetric]
    by (auto simp: Let_def split: if_splits option.splits)
  note free = find_free_slot_SomeD [OF n]
  define s2 where "s2 = set_obj (of_nat n) obj s1"
  define s3 where "s3 = (if g_cap_count s2 \<le> of_nat n then s2\<lparr>g_cap_count := of_nat n + 1\<rparr> else s2)"
  have t: "t = (if q \<noteq> WUBU_CAP_IDX_NONE \<and> unat q < WUBU_CAP_OBJECT_CAPACITY
      then wubu_cap_link_child q (of_nat n) s3 else s3)"
    and rc: "rc = int n" and tok: "tok = wubu_cap_token_pack 1 (of_nat n) (o_flags obj)"
    using assms n m unfolding wubu_cap_create_def s1_def [symmetric] obj_def s2_def s3_def
    by (auto simp: Let_def)
  have p3: "g_ptrs s3 = g_ptrs s2" by (simp add: s3_def)
  have s1n: "g_ptrs s n = None" using free by (simp add: s1_def split: if_splits)
  have o3: "obj_at s3 (of_nat n) = Some obj" using free by (simp add: p3 s2_def)
  have "\<exists>b. g_ptrs t n = Some b \<and> obj_evolves obj b \<and> \<not> o_deleted b"
    using link_child_obj [OF o3, of q] o3 free new_object_simps(2) [of k r a f d p q, folded obj_def]
    by (cases "q \<noteq> WUBU_CAP_IDX_NONE \<and> unat q < WUBU_CAP_OBJECT_CAPACITY") (auto simp: t)
  then obtain b where b: "g_ptrs t n = Some b" "obj_evolves obj b" "\<not> o_deleted b" by blast
  have "evolves s1 s3"
    using free by (simp add: evolves_def p3 s2_def)
  moreover have "evolves s s1" by (simp add: s1_def init_evolves)
  moreover have "evolves s3 t" by (simp add: t link_child_evolves)
  ultimately have "evolves s t" by (blast intro: evolves_trans)
  then show thesis
    using that [OF rc free(1,2) s1n b(1,2) [unfolded obj_def] tok [unfolded obj_def]] b(3) by simp
qed

lemma create_failure:
  assumes "wubu_cap_create i m k r a f d p q s = (rc, tok, t)" and "\<not> 0 < rc"
  shows "rc = WUBU_CAP_ENOMEM" and "tok = WUBU_CAP_TOKEN_NULL" and "evolves s t"
  using assms init_evolves
  by (auto simp: wubu_cap_create_def Let_def split: if_splits option.splits
      dest!: find_free_slot_SomeD(1))

lemma create_evolves: "evolves s (snd (snd (wubu_cap_create i m k r a f d p q s)))"
  by (metis create_success create_failure(3) prod.collapse)

lemma create_inv [inv_intros]:
  assumes "cap_inv s"
  shows "cap_inv (snd (snd (wubu_cap_create i m k r a f d p q s)))"
proof -
  have "unat (of_nat n :: u32) < WUBU_CAP_OBJECT_CAPACITY" if "cap_find_free_slot_locked s' = Some n"
    for s' n using find_free_slot_SomeD(2) [OF that] by simp
  with assms show ?thesis
    unfolding wubu_cap_create_def
    by (auto simp: Let_def split: option.splits intro!: inv_intros)
qed

lemma derive_success:
  assumes "cap_derive_inner i m ptok pid r a f ex s = (rc, tok, t)" and "0 < rc"
  obtains parent aud where "obj_at s (wubu_cap_token_idx ptok) = Some parent"
    "wubu_cap_token_idx ptok \<noteq> 0" "unat (wubu_cap_token_idx ptok) < WUBU_CAP_OBJECT_CAPACITY"
    "\<not> o_deleted parent" "wubu_cap_validate_audience parent pid"
    "o_rights parent AND WUBU_RIGHT_DERIVE \<noteq> 0" "o_rights parent AND r = r"
    "o_flags parent AND (f AND 9) = f AND 9" "ex \<or> audience_is_subset parent a"
    "aud = (case a of None \<Rightarrow> pid # replicate 7 WUBU_PID_NONE | Some xs \<Rightarrow> xs)"
    "wubu_cap_create i m (o_kind parent) r (Some aud) f (o_kind_data parent) pid
       (wubu_cap_token_idx ptok) s = (rc, tok, t)"
  using assms unfolding cap_derive_inner_def
  by (auto simp: Let_def split: if_splits option.splits)

lemma derive_evolves: "evolves s (snd (snd (cap_derive_inner i m ptok pid r a f ex s)))"
  by (auto simp: cap_derive_inner_def Let_def split: option.splits intro: create_evolves)

lemma derive_inv [inv_intros]:
  "cap_inv s \<Longrightarrow> cap_inv (snd (snd (cap_derive_inner i m ptok pid r a f ex s)))"
  by (auto simp: cap_derive_inner_def Let_def split: option.splits intro: create_inv)

lemma destroy_inv [inv_intros]: "cap_inv s \<Longrightarrow> cap_inv (wubu_cap_destroy idx s)"
  by (auto simp: wubu_cap_destroy_def cap_inv_def split: if_splits)

end
