(* ===== verification/Cap_Revoke_Facts.thy ===== *)
theory Cap_Revoke_Facts
  imports Cap_Object_Facts
begin

text \<open>
  The revocation cascade (\<open>wubu_cap_revoke.c\<close>): it keeps the invariant, it only revokes,
  and unless it reports truncation it reaches every descendant.
\<close>

section \<open>Sibling lists\<close>

text \<open>\<open>on_list ptrs c x\<close>: following sibling links from \<open>c\<close> meets \<open>x\<close>.\<close>

inductive on_list :: "(nat \<Rightarrow> cap_object option) \<Rightarrow> u32 \<Rightarrow> u32 \<Rightarrow> bool"
  for ptrs :: "nat \<Rightarrow> cap_object option" where
  here: "c \<noteq> WUBU_CAP_IDX_NONE \<Longrightarrow> on_list ptrs c c"
| there: "c \<noteq> WUBU_CAP_IDX_NONE \<Longrightarrow> ptrs (unat c) = Some obj \<Longrightarrow>
    on_list ptrs (o_next_sibling_idx obj) x \<Longrightarrow> on_list ptrs c x"

inductive_simps on_list_NONE [simp]: "on_list ptrs WUBU_CAP_IDX_NONE x"
inductive_cases on_listE: "on_list ptrs c x"

lemma push_siblings_complete:
  "push_siblings d ptrs c room = (xs, False) \<Longrightarrow> on_list ptrs c x \<Longrightarrow> x \<in> set xs"
proof (induction room arbitrary: c xs)
  case 0
  then show ?case by simp
next
  case (Suc room)
  show ?case
  proof (cases "ptrs (unat c)")
    case None
    with Suc.prems show ?thesis by (auto split: if_splits elim: on_listE)
  next
    case (Some obj)
    obtain ys t where ys: "push_siblings d ptrs (o_next_sibling_idx obj) room = (ys, t)" by fastforce
    from Suc.prems(2) have "c \<noteq> WUBU_CAP_IDX_NONE" by (auto elim: on_listE)
    with Some ys Suc.prems(1) have "t = False" and "xs = c # ys" by auto
    note eq = this
    from Suc.prems(2) show ?thesis
    proof (cases rule: on_list.cases)
      case here
      with eq show ?thesis by simp
    next
      case (there obj')
      with Some have "on_list ptrs (o_next_sibling_idx obj) x" by simp
      with ys eq Suc.IH show ?thesis by simp
    qed
  qed
qed

section \<open>Descendants\<close>

text \<open>One step of the cascade: from a live-walkable object to its children.\<close>

definition casc :: "(nat \<Rightarrow> cap_object option) \<Rightarrow> u32 \<Rightarrow> u32 \<Rightarrow> bool" where
  "casc ptrs x y \<longleftrightarrow> (\<exists>obj. ptrs (unat x) = Some obj \<and> \<not> is_immortal obj \<and>
     on_list ptrs (o_first_child_idx obj) y)"

definition mortal_at :: "(nat \<Rightarrow> cap_object option) \<Rightarrow> u32 \<Rightarrow> bool" where
  "mortal_at ptrs x \<longleftrightarrow> (\<exists>obj. ptrs (unat x) = Some obj \<and> \<not> is_immortal obj)"

definition deleted_at :: "cap_state \<Rightarrow> u32 \<Rightarrow> bool" where
  "deleted_at s x \<longleftrightarrow> (\<exists>obj. obj_at s x = Some obj \<and> o_deleted obj)"

text \<open>The link structure of two registries agrees.\<close>

definition links :: "cap_object \<Rightarrow> u32 \<times> u32 \<times> bool" where
  "links obj = (o_first_child_idx obj, o_next_sibling_idx obj, is_immortal obj)"

definition same_links :: "(nat \<Rightarrow> cap_object option) \<Rightarrow> (nat \<Rightarrow> cap_object option) \<Rightarrow> bool" where
  "same_links p q \<longleftrightarrow> (\<forall>i. map_option links (p i) = map_option links (q i))"

lemma same_links_sym: "same_links p q \<Longrightarrow> same_links q p"
  by (simp add: same_links_def)

lemma same_linksD:
  assumes "same_links p q" and "p i = Some a"
  obtains b where "q i = Some b" "o_first_child_idx b = o_first_child_idx a"
    "o_next_sibling_idx b = o_next_sibling_idx a" "is_immortal b = is_immortal a"
proof -
  have "map_option links (p i) = map_option links (q i)"
    using assms(1) by (simp add: same_links_def)
  with assms(2) have "map_option links (q i) = Some (links a)" by simp
  then show thesis using that by (auto simp: links_def)
qed

lemma on_list_same: "on_list p c x \<Longrightarrow> same_links p q \<Longrightarrow> on_list q c x"
proof (induction rule: on_list.induct)
  case (here c)
  then show ?case by (simp add: on_list.here)
next
  case (there c obj x)
  then obtain b where "q (unat c) = Some b" "o_next_sibling_idx b = o_next_sibling_idx obj"
    by (auto elim: same_linksD)
  with there show ?case by (auto intro: on_list.there)
qed

lemma casc_mono: "same_links p q \<Longrightarrow> casc p x y \<Longrightarrow> casc q x y"
proof -
  assume l: "same_links p q" and "casc p x y"
  then obtain obj where "p (unat x) = Some obj" "\<not> is_immortal obj"
    "on_list p (o_first_child_idx obj) y" by (auto simp: casc_def)
  with l show ?thesis
    by (auto simp: casc_def elim!: same_linksD [of p q "unat x" obj] intro: on_list_same [OF _ l])
qed

lemma casc_same: "same_links p q \<Longrightarrow> casc p = casc q"
  by (intro ext iffI) (blast intro: casc_mono same_links_sym)+

lemma mortal_mono: "same_links p q \<Longrightarrow> mortal_at p x \<Longrightarrow> mortal_at q x"
  by (force simp: mortal_at_def elim: same_linksD)

lemma mortal_same: "same_links p q \<Longrightarrow> mortal_at p x = mortal_at q x"
  by (blast intro: mortal_mono same_links_sym)

lemma same_links_kill:
  "p i = Some obj \<Longrightarrow> same_links p (p(i \<mapsto> kill obj))"
  by (simp add: same_links_def links_def)

lemma casc_reach_mortal: "(casc p)\<^sup>*\<^sup>* x y \<Longrightarrow> mortal_at p y \<Longrightarrow> mortal_at p x"
  by (erule converse_rtranclpE) (auto simp: casc_def mortal_at_def)

section \<open>The cascade loop\<close>

lemma visit_evolves: "obj_at s idx = Some obj \<Longrightarrow> \<not> is_immortal obj \<Longrightarrow> evolves s (visit idx obj s)"
  unfolding visit_def by (rule evolves_set_obj) (simp add: obj_evolves_kill)

lemma visit_inv [inv_intros]:
  "cap_inv s \<Longrightarrow> obj_at s idx = Some obj \<Longrightarrow> cap_inv (visit idx obj s)"
  unfolding visit_def by (auto intro!: cap_inv_set_obj dest: cap_invD)

lemma visit_links: "obj_at s idx = Some obj \<Longrightarrow> same_links (g_ptrs s) (g_ptrs (visit idx obj s))"
  by (simp add: visit_def same_links_kill)

lemma cascade_loop_evolves:
  "cascade_loop todo room count tr s = (n, tr', t) \<Longrightarrow> evolves s t"
proof (induction todo room count tr s rule: cascade_loop.induct)
  case (1 room count truncated s)
  then show ?case by simp
next
  case (2 idx todo room count truncated s)
  then show ?case
    by (auto split: option.splits if_splits dest!: visit_evolves intro: evolves_trans)
qed

lemma cascade_loop_inv:
  "cap_inv s \<Longrightarrow> cap_inv (snd (snd (cascade_loop todo room count tr s)))"
proof (induction todo room count tr s rule: cascade_loop.induct)
  case (1 room count truncated s)
  then show ?case by simp
next
  case (2 idx todo room count truncated s)
  then show ?case by (auto simp: visit_inv split: option.splits)
qed

lemma cascade_loop_truncated:
  "cascade_loop todo room count tr s = (n, False, t) \<Longrightarrow> \<not> tr"
  by (induction todo room count tr s rule: cascade_loop.induct)
     (auto split: option.splits if_splits)

lemma deleted_at_evolves: "deleted_at s x \<Longrightarrow> evolves s t \<Longrightarrow> deleted_at t x"
  unfolding deleted_at_def by (auto elim!: evolvesE simp: obj_evolves_def)

text \<open>
  Without truncation, everything the cascade can reach from its queue ends up revoked.
\<close>

lemma cascade_loop_complete:
  "cascade_loop todo room count tr s = (n, False, t) \<Longrightarrow> x \<in> set todo \<Longrightarrow>
   (casc (g_ptrs s))\<^sup>*\<^sup>* x y \<Longrightarrow> mortal_at (g_ptrs s) y \<Longrightarrow> deleted_at t y"
proof (induction todo room count tr s arbitrary: x rule: cascade_loop.induct)
  case (1 room count truncated s)
  then show ?case by simp
next
  case (2 idx todo room count tr s)
  note IH = "2.IH" and run = "2.prems"(1) and reach = "2.prems"(3) and mortal = "2.prems"(4)
  show ?case
  proof (cases "obj_at s idx")
    case None
    have "x \<noteq> idx"
      using None casc_reach_mortal [OF reach mortal] by (auto simp: mortal_at_def)
    with None 2 show ?thesis by auto
  next
    case (Some obj)
    show ?thesis
    proof (cases "is_immortal obj")
      case True
      have "x \<noteq> idx"
        using Some True casc_reach_mortal [OF reach mortal] by (auto simp: mortal_at_def)
      with Some True 2 show ?thesis by auto
    next
      case False
      define s1 where "s1 = visit idx obj s"
      obtain xs b where xs: "queued room obj s1 = (xs, b)" by fastforce
      have run1: "cascade_loop (todo @ xs) (room - length xs)
          (if o_deleted obj then count else count + 1) (tr \<or> b) s1 = (n, False, t)"
        using run Some False xs by (simp add: s1_def)
      then have "\<not> b" using cascade_loop_truncated by blast
      have links: "same_links (g_ptrs s) (g_ptrs s1)"
        using Some by (simp add: s1_def visit_links)
      have eqs: "casc (g_ptrs s1) = casc (g_ptrs s)" "mortal_at (g_ptrs s1) y"
        using casc_same [OF links] mortal_same [OF links] mortal by simp_all
      have IH1: "deleted_at t y" if "z \<in> set (todo @ xs)" and "(casc (g_ptrs s))\<^sup>*\<^sup>* z y" for z
        using IH(3) [OF Some False, folded s1_def, unfolded xs fst_conv snd_conv, OF run1 that(1)]
          eqs that(2) by simp
      show ?thesis
      proof (cases "x = idx \<and> x \<notin> set todo")
        case True
        from reach show ?thesis
        proof (cases rule: converse_rtranclpE)
          case base
          with True have "deleted_at s1 y" by (simp add: deleted_at_def s1_def visit_def)
          then show ?thesis using cascade_loop_evolves [OF run1] by (rule deleted_at_evolves)
        next
          case (step z)
          from step(1) True Some have "on_list (g_ptrs s) (o_first_child_idx obj) z"
            by (simp add: casc_def)
          then have "on_list (g_ptrs s1) (o_first_child_idx obj) z"
            using links by (rule on_list_same)
          with xs \<open>\<not> b\<close> have "z \<in> set xs"
            by (auto simp: queued_def intro: push_siblings_complete)
          with step(2) show ?thesis by (auto intro: IH1)
        qed
      next
        case False
        with "2.prems"(2) have "x \<in> set todo" by auto
        with reach show ?thesis by (auto intro: IH1)
      qed
    qed
  qed
qed

section \<open>The cascade\<close>

text \<open>The root, flagged as truncated.\<close>

definition flagged :: "cap_object \<Rightarrow> cap_object" where
  "flagged obj = obj\<lparr>o_flags := o_flags obj OR WUBU_CAP_FLAG_CASCADE_TRUNCATED\<rparr>"

lemma obj_evolves_flagged [simp]: "obj_evolves obj (flagged obj)"
  by (simp add: obj_evolves_def flagged_def flags_or_truncated)

lemma flagged_simps [simp]:
  "obj_ok (flagged obj) = obj_ok obj" "o_deleted (flagged obj) = o_deleted obj"
  by (simp_all add: obj_ok_def flagged_def)

lemma cascade_cases:
  assumes "wubu_cap_revoke_cascade r s = (c, t)"
  obtains (none) "r = 0 \<or> WUBU_CAP_OBJECT_CAPACITY \<le> unat r \<or> obj_at s r = None" "t = s" "c = 0"
  | (run) root xs tr0 n tr s1 where "obj_at s r = Some root"
      "push_siblings True (g_ptrs s) (o_first_child_idx root) WUBU_CAP_REVOKE_CASCADE_MAX = (xs, tr0)"
      "cascade_loop xs (WUBU_CAP_REVOKE_CASCADE_MAX - length xs) 0 tr0 s = (n, tr, s1)" "c = int n"
      "t = (if tr then (case obj_at s1 r of None \<Rightarrow> s1 | Some r2 \<Rightarrow> set_obj r (flagged r2) s1) else s1)"
proof (cases "r = 0 \<or> WUBU_CAP_OBJECT_CAPACITY \<le> unat r \<or> obj_at s r = None")
  case True
  with assms have "t = s" and "c = 0" by (auto simp: wubu_cap_revoke_cascade_def split: if_splits)
  with True none show ?thesis by blast
next
  case False
  then obtain root where root: "obj_at s r = Some root" by auto
  obtain xs tr0 where xs: "push_siblings True (g_ptrs s) (o_first_child_idx root)
      WUBU_CAP_REVOKE_CASCADE_MAX = (xs, tr0)" by fastforce
  obtain n tr s1 where loop: "cascade_loop xs (WUBU_CAP_REVOKE_CASCADE_MAX - length xs) 0 tr0 s
      = (n, tr, s1)" by (rule prod_cases3)
  show ?thesis
    using assms False root xs loop
    by (intro run [OF root xs loop])
       (auto simp: wubu_cap_revoke_cascade_def Let_def flagged_def split: option.splits)
qed

lemma cascade_evolves: "evolves s (snd (wubu_cap_revoke_cascade r s))"
proof -
  obtain c t where c: "wubu_cap_revoke_cascade r s = (c, t)" by fastforce
  from c show ?thesis
  proof (cases rule: cascade_cases)
    case (run root xs tr0 n tr s1)
    have "evolves s1 t" using run(5) by (auto intro!: evolves_set_obj split: option.splits)
    with cascade_loop_evolves [OF run(3)] c show ?thesis by (auto intro: evolves_trans)
  qed (use c in simp)
qed

lemma cascade_inv [inv_intros]:
  assumes "cap_inv s"
  shows "cap_inv (snd (wubu_cap_revoke_cascade r s))"
proof -
  obtain c t where c: "wubu_cap_revoke_cascade r s = (c, t)" by fastforce
  from c show ?thesis
  proof (cases rule: cascade_cases)
    case (run root xs tr0 n tr s1)
    have inv1: "cap_inv s1" using cascade_loop_inv [OF assms] run(3) by (metis snd_conv)
    then have "cap_inv t"
      using run(5) by (auto intro!: cap_inv_set_obj split: option.splits dest: cap_invD)
    with c show ?thesis by simp
  qed (use c assms in simp)
qed

text \<open>
  A cascade that leaves the truncation flag of its root clear has revoked every mortal
  object that is a descendant of the root.
\<close>

lemma cascade_complete:
  assumes "wubu_cap_revoke_cascade r s = (c, t)" and "r \<noteq> 0" and "unat r < WUBU_CAP_OBJECT_CAPACITY"
    and "obj_at s r = Some root" and "obj_at t r = Some root'"
    and "o_flags root' AND WUBU_CAP_FLAG_CASCADE_TRUNCATED = 0"
    and "on_list (g_ptrs s) (o_first_child_idx root) x" and "(casc (g_ptrs s))\<^sup>*\<^sup>* x y"
    and "mortal_at (g_ptrs s) y"
  shows "deleted_at t y"
  using assms(1)
proof (cases rule: cascade_cases)
  case none
  with assms show ?thesis by simp
next
  case (run root0 xs tr0 n tr s1)
  have "\<not> tr"
  proof
    assume tr
    then have "root' = flagged (the (obj_at s1 r)) \<or> obj_at s1 r = None"
      using run(5) assms(5) by (auto split: option.splits)
    moreover have "obj_at s1 r \<noteq> None"
      using cascade_loop_evolves [OF run(3)] assms(4) by (auto elim: evolvesE)
    ultimately show False
      using assms(6) by (auto simp: flagged_def bit.conj_disj_distrib2 word_bw_same)
  qed
  with run have loop: "cascade_loop xs (WUBU_CAP_REVOKE_CASCADE_MAX - length xs) 0 tr0 s = (n, False, t)"
    by simp
  then have "\<not> tr0" by (rule cascade_loop_truncated)
  with run assms(4,7) have "x \<in> set xs" by (auto intro: push_siblings_complete)
  with loop assms(8,9) show ?thesis by (auto intro: cascade_loop_complete)
qed

text \<open>The object \<open>wubu_cap_revoke\<close> itself marks.\<close>

definition revoked :: "cap_object \<Rightarrow> cap_object" where
  "revoked obj = obj\<lparr>o_deleted := True, o_generation := o_generation obj + 1\<rparr>"

lemma revoked_simps [simp]:
  "o_deleted (revoked obj)" "obj_ok (revoked obj) = obj_ok obj"
  "o_flags (revoked obj) = o_flags obj"
  "is_immortal (revoked obj) = is_immortal obj" "is_public (revoked obj) = is_public obj"
  "o_first_child_idx (revoked obj) = o_first_child_idx obj"
  by (simp_all add: revoked_def obj_ok_def is_immortal_def is_public_def)

lemma obj_evolves_revoked: "\<not> is_immortal obj \<Longrightarrow> obj_evolves obj (revoked obj)"
  by (auto simp: obj_evolves_def) (simp_all add: revoked_def)

lemma revoke_cases:
  assumes "wubu_cap_revoke tok s = (rc, t)"
  obtains (refused) "rc < 0" "t = s"
  | (lazy) obj where "obj_at s (wubu_cap_token_idx tok) = Some obj" "\<not> is_immortal obj"
      "unat (wubu_cap_token_idx tok) < WUBU_CAP_OBJECT_CAPACITY"
      "\<not> o_deleted obj" "o_flags obj AND WUBU_CAP_FLAG_EAGER_REVOKE = 0" "rc = 1"
      "t = set_obj (wubu_cap_token_idx tok) (revoked obj) s"
  | (eager) obj c where "obj_at s (wubu_cap_token_idx tok) = Some obj" "\<not> is_immortal obj"
      "unat (wubu_cap_token_idx tok) < WUBU_CAP_OBJECT_CAPACITY"
      "\<not> o_deleted obj" "o_flags obj AND WUBU_CAP_FLAG_EAGER_REVOKE \<noteq> 0" "1 \<le> rc"
      "wubu_cap_revoke_cascade (wubu_cap_token_idx tok)
         (set_obj (wubu_cap_token_idx tok) (revoked obj) s) = (c, t)"
  using assms unfolding wubu_cap_revoke_def
  by (auto simp: Let_def revoked_def [symmetric] split: option.splits if_splits prod.splits)

lemma revoke_evolves: "evolves s (snd (wubu_cap_revoke tok s))"
proof -
  obtain rc t where r: "wubu_cap_revoke tok s = (rc, t)" by fastforce
  have mark: "evolves s (set_obj i (revoked obj) s)"
    if "obj_at s i = Some obj" and "\<not> is_immortal obj" for i obj
    using that by (intro evolves_set_obj) (simp add: obj_evolves_revoked)
  from r show ?thesis
  proof (cases rule: revoke_cases)
    case (eager obj c)
    then show ?thesis
      using r mark cascade_evolves by (metis evolves_trans snd_conv)
  qed (use r mark in simp_all)
qed

lemma revoke_inv [inv_intros]:
  assumes "cap_inv s"
  shows "cap_inv (snd (wubu_cap_revoke tok s))"
proof -
  obtain rc t where r: "wubu_cap_revoke tok s = (rc, t)" by fastforce
  have mark: "cap_inv (set_obj i (revoked obj) s)" if "obj_at s i = Some obj" for i obj
    using that assms by (auto intro!: cap_inv_set_obj dest: cap_invD)
  from r show ?thesis
  proof (cases rule: revoke_cases)
    case (eager obj c)
    then show ?thesis
      using r cascade_inv [OF mark [OF eager(1)]] by (metis snd_conv)
  qed (use r mark assms in simp_all)
qed

end
