(* ===== verification/Cap_Handle.thy ===== *)
theory Cap_Handle
  imports Cap_Revoke_Facts
begin

text \<open>
  The per-process handle table of \<open>wubu_cap_handle.c\<close>: slots that name objects of the
  registry, a free list threaded through the unused slots, and a local generation per
  slot. A table argument is an \<open>option\<close> (\<open>None\<close>: the NULL pointer every operation tests
  for); the registry argument is the state of \<open>Cap_Object\<close>. The registry array has
  \<open>WUBU_CAP_OBJECT_CAPACITY\<close> entries and the operations index it with a stored object
  index they do not check: \<open>None\<close> around a result is such a read out of bounds.
\<close>

abbreviation (input) WUBU_CAP_HANDLE_INITIAL :: nat where "WUBU_CAP_HANDLE_INITIAL \<equiv> 16"
abbreviation (input) WUBU_CAP_HANDLE_MAX :: nat where "WUBU_CAP_HANDLE_MAX \<equiv> 1024"
abbreviation (input) WUBU_CAP_HANDLE_NONE :: u32 where "WUBU_CAP_HANDLE_NONE \<equiv> 0xFFFFFFFF"

record hentry =
  e_object_idx :: u32
  e_local_gen :: u32
  e_token_flags :: u8
  e_next_free :: u32

record htable =
  t_entries :: "hentry list"
  t_capacity :: nat
  t_count :: u32
  t_next_free :: u32

definition free_entry :: "u32 \<Rightarrow> hentry" where
  "free_entry head = \<lparr>e_object_idx = WUBU_CAP_IDX_NONE, e_local_gen = 1, e_token_flags = 0,
     e_next_free = head\<rparr>"

fun rebuild_free :: "hentry list \<Rightarrow> nat \<Rightarrow> nat \<Rightarrow> u32 \<Rightarrow> hentry list \<times> u32" where
  "rebuild_free e start 0 head = (e, head)"
| "rebuild_free e start (Suc i) head =
     (if start \<le> i then rebuild_free (e[i := free_entry head]) start i (of_nat i) else (e, head))"

text \<open>
  \<open>junk\<close> is what \<open>malloc\<close> returned in the entries; the two outcomes of \<open>malloc\<close> are arguments.
\<close>

definition wubu_cap_handle_table_create :: "bool \<Rightarrow> bool \<Rightarrow> (nat \<Rightarrow> hentry) \<Rightarrow> htable option" where
  "wubu_cap_handle_table_create malloc_t malloc_e junk =
     (if \<not> malloc_t then None
      else if \<not> malloc_e then None
      else let e0 = (map junk [0..<WUBU_CAP_HANDLE_INITIAL])[0 := (junk 0)
                      \<lparr>e_object_idx := WUBU_CAP_IDX_NONE, e_next_free := WUBU_CAP_HANDLE_NONE\<rparr>];
               (e, head) = rebuild_free e0 1 WUBU_CAP_HANDLE_INITIAL WUBU_CAP_HANDLE_NONE
           in Some \<lparr>t_entries = e, t_capacity = WUBU_CAP_HANDLE_INITIAL, t_count = 0,
                    t_next_free = head\<rparr>)"

text \<open>\<open>junk\<close> is the contents of the part of the new block that \<open>memcpy\<close> does not fill.\<close>

definition grow :: "bool \<Rightarrow> (nat \<Rightarrow> hentry) \<Rightarrow> htable \<Rightarrow> int \<times> htable" where
  "grow malloc_ok junk t =
     (if WUBU_CAP_HANDLE_MAX \<le> t_capacity t then (WUBU_CAP_ENOMEM, t)
      else let new_cap = min (t_capacity t * 2) WUBU_CAP_HANDLE_MAX in
        if \<not> malloc_ok then (WUBU_CAP_ENOMEM, t)
        else let ne = t_entries t @ map junk [t_capacity t..<new_cap];
                 (e, head) = rebuild_free ne (t_capacity t) new_cap (t_next_free t)
             in (WUBU_CAP_OK, t\<lparr>t_entries := e, t_capacity := new_cap, t_next_free := head\<rparr>))"

definition wubu_cap_handle_slot_live :: "htable option \<Rightarrow> u32 \<Rightarrow> bool" where
  "wubu_cap_handle_slot_live t slot =
     (case t of
        None \<Rightarrow> False
      | Some t \<Rightarrow> \<not> (slot < 1 \<or> t_capacity t \<le> unat slot) \<and>
          e_object_idx (t_entries t ! unat slot) \<noteq> WUBU_CAP_IDX_NONE)"

text \<open>The part of \<open>wubu_cap_handle_insert\<close> after the free list is known to be non-empty.\<close>

definition take_slot :: "u32 \<Rightarrow> u8 \<Rightarrow> htable \<Rightarrow> cap_token \<times> htable" where
  "take_slot object_idx token_flags t =
     (let slot = t_next_free t;
          e = t_entries t ! unat slot
      in (wubu_cap_token_pack (e_local_gen e) slot token_flags,
          t\<lparr>t_next_free := e_next_free e,
            t_entries := (t_entries t)[unat slot := e\<lparr>e_object_idx := object_idx,
              e_token_flags := token_flags, e_next_free := WUBU_CAP_HANDLE_NONE\<rparr>],
            t_count := t_count t + 1\<rparr>))"

definition wubu_cap_handle_insert ::
  "bool \<Rightarrow> (nat \<Rightarrow> hentry) \<Rightarrow> htable option \<Rightarrow> u32 \<Rightarrow> u8 \<Rightarrow> cap_token \<times> htable option" where
  "wubu_cap_handle_insert malloc_ok junk t object_idx token_flags =
     (case t of
        None \<Rightarrow> (WUBU_CAP_TOKEN_NULL, None)
      | Some t \<Rightarrow>
          if object_idx = WUBU_CAP_IDX_NONE then (WUBU_CAP_TOKEN_NULL, Some t)
          else if t_next_free t = WUBU_CAP_HANDLE_NONE
          then (case grow malloc_ok junk t of
                  (rc, t') \<Rightarrow>
                    if rc \<noteq> WUBU_CAP_OK then (WUBU_CAP_TOKEN_NULL, Some t')
                    else map_prod id Some (take_slot object_idx token_flags t'))
          else map_prod id Some (take_slot object_idx token_flags t))"

definition wubu_cap_handle_resolve ::
  "htable option \<Rightarrow> i32 \<Rightarrow> cap_token \<Rightarrow> u64 \<Rightarrow> cap_state \<Rightarrow> (u32 option \<times> cap_state) option" where
  "wubu_cap_handle_resolve t caller_pid tok required_rights s =
     (case t of
        None \<Rightarrow> Some (None, s)
      | Some t \<Rightarrow>
          let slot = wubu_cap_token_idx tok in
          if t_capacity t \<le> unat slot then Some (None, s)
          else let e = t_entries t ! unat slot in
            if e_object_idx e = WUBU_CAP_IDX_NONE then Some (None, s)
            else if e_local_gen e \<noteq> wubu_cap_token_gen tok then Some (None, s)
            else if WUBU_CAP_OBJECT_CAPACITY \<le> unat (e_object_idx e) then None
            else let gen = (case obj_at s (e_object_idx e) of Some obj \<Rightarrow> o_generation obj | None \<Rightarrow> 0)
              in Some (wubu_cap_resolve caller_pid
                   (wubu_cap_token_pack gen (e_object_idx e) (e_token_flags e)) required_rights s))"

definition release_slot :: "u32 \<Rightarrow> htable \<Rightarrow> htable" where
  "release_slot slot t =
     (let e = t_entries t ! unat slot
      in t\<lparr>t_entries := (t_entries t)[unat slot := e\<lparr>e_object_idx := WUBU_CAP_IDX_NONE,
             e_local_gen := e_local_gen e + 1, e_token_flags := 0, e_next_free := t_next_free t\<rparr>],
           t_next_free := slot, t_count := t_count t - 1\<rparr>)"

definition wubu_cap_handle_close :: "htable option \<Rightarrow> cap_token \<Rightarrow> int \<times> htable option" where
  "wubu_cap_handle_close t tok =
     (case t of
        None \<Rightarrow> (WUBU_CAP_EFAULT, None)
      | Some t \<Rightarrow>
          let slot = wubu_cap_token_idx tok in
          if t_capacity t \<le> unat slot then (WUBU_CAP_EINVAL, Some t)
          else if e_object_idx (t_entries t ! unat slot) = WUBU_CAP_IDX_NONE
          then (WUBU_CAP_EINVAL, Some t)
          else (WUBU_CAP_OK, Some (release_slot slot t)))"

text \<open>The scan of the table for a capability kind: the first live handle of that kind decides.\<close>

fun resolve_kind_from ::
  "hentry list \<Rightarrow> i32 \<Rightarrow> u16 \<Rightarrow> u64 \<Rightarrow> cap_state \<Rightarrow> (int \<times> cap_state) option" where
  "resolve_kind_from [] pid kind required_rights s = Some (WUBU_CAP_EPERM, s)"
| "resolve_kind_from (e # es) pid kind required_rights s =
     (if e_object_idx e = WUBU_CAP_IDX_NONE then resolve_kind_from es pid kind required_rights s
      else if WUBU_CAP_OBJECT_CAPACITY \<le> unat (e_object_idx e) then None
      else case obj_at s (e_object_idx e) of
        None \<Rightarrow> resolve_kind_from es pid kind required_rights s
      | Some obj \<Rightarrow>
          if o_deleted obj then resolve_kind_from es pid kind required_rights s
          else if o_kind obj \<noteq> kind then resolve_kind_from es pid kind required_rights s
          else (case wubu_cap_resolve pid (wubu_cap_token_pack (o_generation obj) (e_object_idx e)
                       (e_token_flags e)) required_rights s of
                  (r, s') \<Rightarrow> Some (if r \<noteq> None then WUBU_CAP_OK else WUBU_CAP_EPERM, s')))"

definition wubu_cap_handle_resolve_kind ::
  "htable option \<Rightarrow> i32 \<Rightarrow> u16 \<Rightarrow> u64 \<Rightarrow> cap_state \<Rightarrow> (int \<times> cap_state) option" where
  "wubu_cap_handle_resolve_kind t pid kind required_rights s =
     (case t of
        None \<Rightarrow> Some (WUBU_CAP_EPERM, s)
      | Some t \<Rightarrow>
          resolve_kind_from (drop 1 (take (t_capacity t) (t_entries t))) pid kind required_rights s)"

definition wubu_cap_handle_resolve_by_slot ::
  "htable option \<Rightarrow> i32 \<Rightarrow> u32 \<Rightarrow> u64 \<Rightarrow> cap_state \<Rightarrow> (u32 option \<times> cap_state) option" where
  "wubu_cap_handle_resolve_by_slot t caller_pid slot required_rights s =
     (case t of
        None \<Rightarrow> Some (None, s)
      | Some h \<Rightarrow>
          if slot < 1 \<or> t_capacity h \<le> unat slot then Some (None, s)
          else let e = t_entries h ! unat slot in
            if e_object_idx e = WUBU_CAP_IDX_NONE then Some (None, s)
            else wubu_cap_handle_resolve t caller_pid
                   (wubu_cap_token_pack (e_local_gen e) slot (e_token_flags e)) required_rights s)"

definition wubu_cap_handle_revoke_by_slot ::
  "htable option \<Rightarrow> u32 \<Rightarrow> cap_state \<Rightarrow> (int \<times> cap_state) option" where
  "wubu_cap_handle_revoke_by_slot t slot s =
     (case t of
        None \<Rightarrow> Some (WUBU_CAP_EINVAL, s)
      | Some h \<Rightarrow>
          if slot < 1 \<or> t_capacity h \<le> unat slot then Some (WUBU_CAP_EINVAL, s)
          else let e = t_entries h ! unat slot in
            if e_object_idx e = WUBU_CAP_IDX_NONE then Some (WUBU_CAP_EINVAL, s)
            else if WUBU_CAP_OBJECT_CAPACITY \<le> unat (e_object_idx e) then None
            else case obj_at s (e_object_idx e) of
              None \<Rightarrow> Some (WUBU_CAP_EREVOKED, s)
            | Some obj \<Rightarrow>
                if o_deleted obj then Some (WUBU_CAP_EREVOKED, s)
                else (case wubu_cap_revoke (wubu_cap_token_pack (o_generation obj) (e_object_idx e)
                             (e_token_flags e)) s of
                        (rc, s') \<Rightarrow> Some (if rc < 0 then rc else WUBU_CAP_OK, s')))"

definition wubu_cap_handle_close_slot :: "htable option \<Rightarrow> u32 \<Rightarrow> int \<times> htable option" where
  "wubu_cap_handle_close_slot t slot =
     (case t of
        None \<Rightarrow> (WUBU_CAP_EINVAL, None)
      | Some h \<Rightarrow>
          if slot < 1 \<or> t_capacity h \<le> unat slot then (WUBU_CAP_EINVAL, t)
          else let e = t_entries h ! unat slot in
            if e_object_idx e = WUBU_CAP_IDX_NONE then (WUBU_CAP_EINVAL, t)
            else wubu_cap_handle_close t
                   (wubu_cap_token_pack (e_local_gen e) slot (e_token_flags e)))"

end
