(* ===== verification/Cap_System.thy ===== *)
theory Cap_System
  imports Cap_Handle
begin

text \<open>
  The boot capability of \<open>wubu_cap_system.c\<close>: the root of the system capabilities, the
  sub-capabilities installed in a process's handle table, and the gate that looks for one.
\<close>

record system_state =
  y_caps :: cap_state
  g_bootcap_idx :: u32

definition wubu_cap_system_init :: "bool \<Rightarrow> bool \<Rightarrow> system_state \<Rightarrow> system_state" where
  "wubu_cap_system_init init_ok malloc_ok y =
     (if g_bootcap_idx y \<noteq> WUBU_CAP_IDX_NONE then y
      else case wubu_cap_create init_ok malloc_ok WUBU_CAP_KIND_SYSTEM WUBU_RIGHTS_ALL
                  (Some [WUBU_PID_KERNEL])
                  (WUBU_CAP_FLAG_PUBLIC OR WUBU_CAP_FLAG_EAGER_REVOKE) 0 WUBU_PID_KERNEL
                  WUBU_CAP_IDX_NONE (y_caps y) of
        (r, boot, s) \<Rightarrow>
          if r \<le> 0 then y\<lparr>y_caps := s\<rparr> else y\<lparr>y_caps := s, g_bootcap_idx := of_int r\<rparr>)"

definition wubu_cap_system_bootcap_idx :: "system_state \<Rightarrow> u32" where
  "wubu_cap_system_bootcap_idx y = g_bootcap_idx y"

text \<open>
  \<open>mi\<close>, \<open>mc\<close> and \<open>mh\<close> are the outcomes of the three possible allocations, \<open>junk\<close> the
  contents of a grown handle table's new entries.
\<close>

definition wubu_cap_system_install_to_pid ::
  "bool \<Rightarrow> bool \<Rightarrow> bool \<Rightarrow> (nat \<Rightarrow> hentry) \<Rightarrow> htable option \<Rightarrow> i32 \<Rightarrow> u64 \<Rightarrow> system_state
   \<Rightarrow> int \<times> htable option \<times> system_state" where
  "wubu_cap_system_install_to_pid mi mc mh junk t pid rights_subset y =
     (if t = None then (WUBU_CAP_EINVAL, t, y)
      else if g_bootcap_idx y = WUBU_CAP_IDX_NONE then (WUBU_CAP_EINVAL, t, y)
      else case obj_at (y_caps y) (g_bootcap_idx y) of
        None \<Rightarrow> (WUBU_CAP_EREVOKED, t, y)
      | Some root \<Rightarrow>
          if o_deleted root then (WUBU_CAP_EREVOKED, t, y)
          else if rights_subset AND NOT (o_rights root) \<noteq> 0 then (WUBU_CAP_EPERM, t, y)
          else case wubu_cap_derive mi mc
                 (wubu_cap_token_pack (o_generation root) (g_bootcap_idx y) 0) WUBU_PID_KERNEL
                 rights_subset (Some [pid, -1, -1, -1, -1, -1, -1, -1]) 0 (y_caps y) of
            (r, sub, s) \<Rightarrow>
              let y1 = y\<lparr>y_caps := s\<rparr> in
              if r \<le> 0 then (WUBU_CAP_EPERM, t, y1)
              else case wubu_cap_handle_insert mh junk t (of_int r) 0 of
                (htok, t') \<Rightarrow>
                  (if wubu_cap_token_is_null htok then WUBU_CAP_ENOMEM else WUBU_CAP_OK, t', y1))"

definition wubu_cap_system_resolve ::
  "htable option \<Rightarrow> i32 \<Rightarrow> u64 \<Rightarrow> cap_state \<Rightarrow> (int \<times> cap_state) option" where
  "wubu_cap_system_resolve t pid required_rights s =
     wubu_cap_handle_resolve_kind t pid WUBU_CAP_KIND_SYSTEM required_rights s"

end
