(* ===== verification/Cap_Run.thy ===== *)
theory Cap_Run
  imports Cap_Revoke_Facts
begin

text \<open>
  The registry at work: runs of operations, the derivations that take place in them, that
  every derivation attenuates, and that in runs without destruction the child lists lead from
  an object to everything derived from it.
\<close>

section \<open>Runs\<close>

text \<open>
  Every operation of the registry's interface (\<open>wubu_cap.h\<close>) that changes it: creation with
  and without a parent, derivation, revocation and destruction included. A run is a list of
  operations, in the order in which they take the registry's lock.
\<close>

datatype cap_op =
    Op_init bool
  | Op_create bool bool u16 u64 "i32 list option" u8 u64 i32 u32
  | Op_derive bool bool cap_token i32 u64 "i32 list option" u8
  | Op_resolve i32 cap_token u64
  | Op_revoke cap_token
  | Op_destroy u32

fun cap_exec :: "cap_op \<Rightarrow> cap_state \<Rightarrow> cap_state" where
  "cap_exec (Op_init ok) s = wubu_cap_init ok s"
| "cap_exec (Op_create i m k r a f d p q) s = snd (snd (wubu_cap_create i m k r a f d p q s))"
| "cap_exec (Op_derive i m ptok pid r a f) s = snd (snd (wubu_cap_derive i m ptok pid r a f s))"
| "cap_exec (Op_resolve pid tok req) s = snd (wubu_cap_resolve pid tok req s)"
| "cap_exec (Op_revoke tok) s = snd (wubu_cap_revoke tok s)"
| "cap_exec (Op_destroy idx) s = wubu_cap_destroy idx s"

abbreviation cap_run :: "cap_op list \<Rightarrow> cap_state \<Rightarrow> cap_state" where
  "cap_run \<equiv> fold cap_exec"

text \<open>
  A run with the derivations that took place in it: pairs of a slot and a slot whose object
  was derived from the first one's, directly or through others. Destroying an object removes
  its pairs.
\<close>

fun cap_track :: "cap_op \<Rightarrow> cap_state \<times> (u32 \<times> u32) list \<Rightarrow> cap_state \<times> (u32 \<times> u32) list" where
  "cap_track (Op_derive i m ptok pid r a f) (s, L) =
     (case wubu_cap_derive i m ptok pid r a f s of
        (rc, tok, t) \<Rightarrow>
          (t, if 0 < rc
              then (wubu_cap_token_idx ptok, of_int rc) #
                   map (\<lambda>(x, y). (x, of_int rc)) (filter (\<lambda>(x, y). y = wubu_cap_token_idx ptok) L) @ L
              else L))"
| "cap_track (Op_destroy idx) (s, L) =
     (wubu_cap_destroy idx s, filter (\<lambda>(x, y). x \<noteq> idx \<and> y \<noteq> idx) L)"
| "cap_track op (s, L) = (cap_exec op s, L)"

lemma fst_cap_track: "fst (cap_track op (s, L)) = cap_exec op s"
  by (cases op) (auto split: prod.splits)

text \<open>All operations but destruction let every object evolve; destruction affects one slot.\<close>

lemma exec_evolves: "(\<And>i. op \<noteq> Op_destroy i) \<Longrightarrow> evolves s (cap_exec op s)"
  by (cases op) (auto simp: wubu_cap_derive_def
      intro: init_evolves create_evolves derive_evolves resolve_evolves revoke_evolves)

lemma destroy_other: "idx \<noteq> x \<Longrightarrow> obj_at (wubu_cap_destroy idx s) x = obj_at s x"
  by (auto simp: wubu_cap_destroy_def word_unat_eq_iff)

lemma exec_evolves_at:
  assumes "op \<noteq> Op_destroy x" and "obj_at s x = Some a"
  obtains b where "obj_at (cap_exec op s) x = Some b" and "obj_evolves a b"
proof (cases "\<exists>i. op = Op_destroy i")
  case True
  then obtain i where op: "op = Op_destroy i" by blast
  with assms(1) have "i \<noteq> x" by auto
  with op assms(2) that [of a] show thesis by (simp add: destroy_other)
next
  case False
  then show thesis using evolvesE [OF exec_evolves assms(2)] that by blast
qed

lemma run_evolves_at:
  assumes "Op_destroy x \<notin> set ops" and "obj_at s x = Some a"
  shows "\<exists>b. obj_at (cap_run ops s) x = Some b \<and> obj_evolves a b"
  using assms
proof (induction ops arbitrary: s a)
  case (Cons op ops)
  from Cons.prems(1) have "op \<noteq> Op_destroy x" by auto
  from this Cons.prems(2) obtain a1 where "obj_at (cap_exec op s) x = Some a1" "obj_evolves a a1"
    by (rule exec_evolves_at)
  moreover from this Cons.IH [of "cap_exec op s" a1] Cons.prems(1) show ?case
    using obj_evolves_trans by fastforce
qed simp

lemma run_deleted_at: "Op_destroy x \<notin> set ops \<Longrightarrow> deleted_at s x \<Longrightarrow> deleted_at (cap_run ops s) x"
  unfolding deleted_at_def by (auto dest!: run_evolves_at simp: obj_evolves_def)

lemma exec_inv: "cap_inv s \<Longrightarrow> cap_inv (cap_exec op s)"
  by (cases op) (auto simp: wubu_cap_derive_def wubu_cap_destroy_def cap_inv_def [of "s\<lparr>g_ptrs := _\<rparr>"]
      intro: init_inv create_inv derive_inv resolve_inv revoke_inv dest: cap_invD)

lemma run_inv: "cap_inv s \<Longrightarrow> cap_inv (cap_run ops s)"
  by (induction ops arbitrary: s) (simp_all add: exec_inv)

section \<open>Resolution\<close>

text \<open>The object of a slot grants \<open>req\<close> to \<open>pid\<close>.\<close>

definition grants :: "cap_object \<Rightarrow> i32 \<Rightarrow> u64 \<Rightarrow> bool" where
  "grants obj pid req \<longleftrightarrow> wubu_cap_validate_audience obj pid \<and> o_rights obj AND req = req"

lemma resolve_Some_iff:
  "fst (wubu_cap_resolve pid tok req s) = Some idx \<longleftrightarrow>
     idx = wubu_cap_token_idx tok \<and> idx \<noteq> 0 \<and> unat idx < WUBU_CAP_OBJECT_CAPACITY \<and>
     (\<exists>obj. obj_at s idx = Some obj \<and> \<not> o_deleted obj \<and>
        o_generation obj = wubu_cap_token_gen tok \<and> grants obj pid req)"
  by (auto simp: wubu_cap_resolve_def wubu_cap_token_is_null_def grants_def
      wubu_cap_validate_audience_def Let_def split: option.splits if_splits)

lemma resolve_Some_state:
  "fst (wubu_cap_resolve pid tok req s) = Some idx \<Longrightarrow> snd (wubu_cap_resolve pid tok req s) = s"
  by (auto simp: wubu_cap_resolve_def Let_def split: option.splits if_splits)

lemma resolve_deleted:
  "deleted_at s (wubu_cap_token_idx tok) \<Longrightarrow> fst (wubu_cap_resolve pid tok req s) = None"
  by (auto simp: deleted_at_def wubu_cap_resolve_def Let_def)

text \<open>The check a refused resolution of a live slot failed first.\<close>

definition failed_check :: "cap_object \<Rightarrow> cap_token \<Rightarrow> i32 \<Rightarrow> u8" where
  "failed_check obj tok pid =
     (if o_deleted obj \<or> o_generation obj \<noteq> wubu_cap_token_gen tok then WUBU_CAP_CHECK_REVOKED
      else if \<not> wubu_cap_validate_audience obj pid then WUBU_CAP_CHECK_AUDIENCE
      else WUBU_CAP_CHECK_RIGHTS)"

lemma resolve_denied:
  assumes "fst (wubu_cap_resolve pid tok req s) = None"
    and "obj_at s (wubu_cap_token_idx tok) = Some obj"
    and "wubu_cap_token_idx tok \<noteq> 0" and "unat (wubu_cap_token_idx tok) < WUBU_CAP_OBJECT_CAPACITY"
  shows "g_audit (snd (wubu_cap_resolve pid tok req s)) =
     audit_push (pid, o_kind obj, req, failed_check obj tok pid) (g_audit s)"
  using assms
  by (auto simp: wubu_cap_resolve_def wubu_cap_token_is_null_def wubu_cap_validate_audience_def
      failed_check_def deny_def Let_def)

section \<open>Attenuation\<close>

text \<open>\<open>child\<close> gives no process anything \<open>parent\<close> does not.\<close>

definition attenuates :: "cap_object \<Rightarrow> cap_object \<Rightarrow> bool" where
  "attenuates parent child \<longleftrightarrow>
     o_kind child = o_kind parent \<and> o_kind_data child = o_kind_data parent \<and>
     o_rights parent AND o_rights child = o_rights child \<and>
     (is_immortal child \<longrightarrow> is_immortal parent) \<and>
     (\<forall>pid. wubu_cap_validate_audience child pid \<longrightarrow> wubu_cap_validate_audience parent pid)"

definition pid_public_ok :: "cap_object \<Rightarrow> bool" where
  "pid_public_ok obj \<longleftrightarrow> (WUBU_PID_PUBLIC \<in> set (audience_list obj) \<longrightarrow> is_public obj)"

text \<open>
  Every recorded derivation attenuates, and an audience that names the public pid is flagged
  public.
\<close>

definition lineage_inv :: "cap_state \<Rightarrow> (u32 \<times> u32) list \<Rightarrow> bool" where
  "lineage_inv s L \<longleftrightarrow>
     (\<forall>i obj. g_ptrs s i = Some obj \<longrightarrow> pid_public_ok obj) \<and>
     (\<forall>(x, y) \<in> set L. \<exists>a b. obj_at s x = Some a \<and> obj_at s y = Some b \<and> attenuates a b)"

lemma validate_evolves:
  "obj_evolves a b \<Longrightarrow> wubu_cap_validate_audience b pid = wubu_cap_validate_audience a pid"
  by (simp add: obj_evolves_def wubu_cap_validate_audience_def audience_list_def)

lemma attenuates_evolves:
  "attenuates p c \<Longrightarrow> obj_evolves p p' \<Longrightarrow> obj_evolves c c' \<Longrightarrow> attenuates p' c'"
  by (simp add: attenuates_def validate_evolves) (simp add: obj_evolves_def)

lemma pid_public_ok_evolves: "pid_public_ok a \<Longrightarrow> obj_evolves a b \<Longrightarrow> pid_public_ok b"
  by (simp add: pid_public_ok_def obj_evolves_def audience_list_def)

lemma attenuates_refl [simp]: "attenuates a a"
  by (simp add: attenuates_def)

lemma attenuates_trans: "attenuates a b \<Longrightarrow> attenuates b c \<Longrightarrow> attenuates a c"
  unfolding attenuates_def by (metis and.assoc)

lemma lineage_inv_evolves:
  assumes inv: "lineage_inv s L" and ev: "evolves s t"
    and new: "\<And>i b. g_ptrs t i = Some b \<Longrightarrow> g_ptrs s i = None \<Longrightarrow> pid_public_ok b"
  shows "lineage_inv t L"
proof -
  have "pid_public_ok b" if "g_ptrs t i = Some b" for i b
  proof (cases "g_ptrs s i")
    case (Some a)
    with ev that have "obj_evolves a b" by (auto elim: evolvesE)
    with inv Some show ?thesis unfolding lineage_inv_def by (blast intro: pid_public_ok_evolves)
  qed (rule new [OF that])
  moreover have "\<exists>a b. obj_at t x = Some a \<and> obj_at t y = Some b \<and> attenuates a b"
    if "(x, y) \<in> set L" for x y
  proof -
    from inv that obtain a b where ab: "obj_at s x = Some a" "obj_at s y = Some b" "attenuates a b"
      unfolding lineage_inv_def by blast
    obtain a' where "obj_at t x = Some a'" "obj_evolves a a'" using ev ab(1) by (rule evolvesE)
    moreover obtain b' where "obj_at t y = Some b'" "obj_evolves b b'" using ev ab(2) by (rule evolvesE)
    ultimately show ?thesis using attenuates_evolves [OF ab(3)] by blast
  qed
  ultimately show ?thesis unfolding lineage_inv_def by blast
qed

text \<open>A step that adds no object keeps the derivations.\<close>

lemma lineage_inv_same_dom:
  "lineage_inv s L \<Longrightarrow> evolves s t \<Longrightarrow> (\<And>i. g_ptrs s i = None \<Longrightarrow> g_ptrs t i = None) \<Longrightarrow> lineage_inv t L"
  by (rule lineage_inv_evolves) auto

lemma link_child_dom [simp]: "g_ptrs (wubu_cap_link_child p c s) i = None \<longleftrightarrow> g_ptrs s i = None"
  by (auto simp: wubu_cap_link_child_def Let_def split: option.splits)

lemma find_free_slot_bounds:
  "cap_find_free_slot_locked s = Some n \<Longrightarrow>
   1 \<le> n \<and> n < WUBU_CAP_OBJECT_CAPACITY \<and> g_ptrs s n = None"
  using find_free_slot_SomeD by blast

text \<open>Creation adds the slot it returns and, the first time, the sentinel.\<close>

lemma create_dom:
  assumes "wubu_cap_create i m k r a f d p q s = (rc, tok, t)" and "g_ptrs s j = None"
    and "g_ptrs t j \<noteq> None"
  shows "j = 0 \<or> (0 < rc \<and> rc = int j)"
proof (rule ccontr)
  assume "\<not> (j = 0 \<or> (0 < rc \<and> rc = int j))"
  then have "g_ptrs t j = None"
    using assms(1,2) init_other [of j i s]
    by (auto simp: wubu_cap_create_def Let_def split: option.splits if_splits
        dest!: find_free_slot_bounds)
  with assms(3) show False by simp
qed

lemma create_sentinel:
  assumes "wubu_cap_create i m k r a f d p q s = (rc, tok, t)" and "g_ptrs s 0 = None"
    and "g_ptrs t 0 = Some b"
  shows "obj_evolves cap_sentinel b"
proof -
  define s1 where "s1 = wubu_cap_init i s"
  have s1: "g_ptrs s1 0 = None \<or> g_ptrs s1 0 = Some cap_sentinel"
    using assms(2) by (simp add: s1_def wubu_cap_init_def)
  show ?thesis
  proof (cases "g_ptrs s1 0")
    case None
    have "g_ptrs t 0 = None"
      using assms(1,2) None s1_def
      by (auto simp: wubu_cap_create_def Let_def split: option.splits if_splits
          dest!: find_free_slot_bounds)
    with assms(3) show ?thesis by simp
  next
    case (Some c)
    with s1 have c: "c = cap_sentinel" by simp
    have "wubu_cap_create i m k r a f d p q s1 = (rc, tok, t)"
      using assms(1,2) Some unfolding s1_def wubu_cap_create_def by simp
    then have "evolves s1 t" by (metis create_evolves snd_conv)
    with Some assms(3) c show ?thesis by (auto elim: evolvesE)
  qed
qed

lemma cascade_loop_dom:
  "g_ptrs (snd (snd (cascade_loop todo room c tr s))) i = None \<longleftrightarrow> g_ptrs s i = None"
  by (induction todo room c tr s rule: cascade_loop.induct)
     (auto simp: visit_def split: option.splits)

lemma cascade_dom: "g_ptrs (snd (wubu_cap_revoke_cascade r s)) i = None \<longleftrightarrow> g_ptrs s i = None"
proof -
  obtain c t where c: "wubu_cap_revoke_cascade r s = (c, t)" by fastforce
  from c show ?thesis
  proof (cases rule: cascade_cases)
    case (run root xs tr0 n tr s1)
    have "g_ptrs s1 i = None \<longleftrightarrow> g_ptrs s i = None"
      using cascade_loop_dom run(3) by (metis snd_conv)
    with run(5) c show ?thesis by (auto split: option.splits)
  qed (use c in simp)
qed

lemma revoke_dom: "g_ptrs (snd (wubu_cap_revoke tok s)) i = None \<longleftrightarrow> g_ptrs s i = None"
proof -
  obtain rc t where r: "wubu_cap_revoke tok s = (rc, t)" by fastforce
  from r show ?thesis
  proof (cases rule: revoke_cases)
    case (eager obj c)
    with r cascade_dom [of _ _ i] show ?thesis by (metis fun_upd_other fun_upd_same
      option.distinct(1) set_obj_simps(1) snd_conv)
  qed (use r in auto)
qed

lemma sentinel_facts: "pid_public_ok cap_sentinel" "o_parent_idx cap_sentinel = WUBU_CAP_IDX_NONE"
  by (simp_all add: cap_sentinel_def cap_zero_def pid_public_ok_def is_public_def)

lemma pid_public_new_object: "pid_public_ok (new_object k r a f d p q)"
  using flags_new_object [of k r a f d p q]
  by (simp add: pid_public_ok_def is_public_def bit.conj_disj_distrib2)

lemma immortal_bit: "is_immortal x \<longleftrightarrow> bit (o_flags x) 3"
  using and_exp_eq_0_iff_not_bit [of "o_flags x" 3] by (simp add: is_immortal_def)

lemma public_bit: "is_public x \<longleftrightarrow> bit (o_flags x) 0"
  using and_exp_eq_0_iff_not_bit [of "o_flags x" 0] by (simp add: is_public_def)

text \<open>A successful derivation makes an object that attenuates its parent.\<close>

lemma derive_attenuates:
  assumes "o_rights parent AND r = r" and "o_flags parent AND (f AND 9) = f AND 9"
    and "audience_is_subset parent a" and "wubu_cap_validate_audience parent pid"
    and "pid_public_ok parent"
    and "aud = (case a of None \<Rightarrow> pid # replicate 7 WUBU_PID_NONE | Some xs \<Rightarrow> xs)"
  shows "attenuates parent (new_object (o_kind parent) r (Some aud) f (o_kind_data parent) pid q)"
    (is "attenuates parent ?c")
proof -
  have aud: "audience_list ?c = audience_prefix aud" by (simp add: audience_list_new_object)
  have sub: "p \<in> set (audience_prefix aud) \<Longrightarrow> wubu_cap_validate_audience parent p" for p
    using assms(3,4,6)
    by (auto simp: audience_is_subset_def wubu_cap_validate_audience_def list_all_iff
        audience_prefix_def split: if_splits option.splits dest: set_takeWhileD)
  have keep: "bit (o_flags parent) n" if "bit f n" and "n \<in> {0, 3}" for n
    using arg_cong [OF assms(2), of "\<lambda>w. bit w n"] that by (auto simp: bit_and_iff)
  have imm: "is_immortal parent" if "is_immortal ?c"
    using that keep [of 3] unfolding immortal_bit
    by (auto simp: flags_new_object bit_or_iff split: if_splits)
  have pub: "is_public parent" if "is_public ?c"
  proof (cases "WUBU_PID_PUBLIC \<in> set (audience_prefix aud)")
    case True
    then have "wubu_cap_validate_audience parent WUBU_PID_PUBLIC" by (rule sub)
    with assms(5) show ?thesis by (simp add: pid_public_ok_def wubu_cap_validate_audience_def
      split: if_splits)
  next
    case False
    with that keep [of 0] show ?thesis unfolding public_bit by (simp add: flags_new_object aud)
  qed
  show ?thesis
    using assms(1) imm pub sub aud
    by (auto simp: attenuates_def wubu_cap_validate_audience_def)
qed

lemma create_public:
  assumes "wubu_cap_create i m k r a f d p q s = (rc, tok, t)" and "g_ptrs s j = None"
    and "g_ptrs t j = Some b"
  shows "pid_public_ok b"
proof (cases "j = 0")
  case True
  with assms have "obj_evolves cap_sentinel b" by (auto intro: create_sentinel)
  then show ?thesis using sentinel_facts(1) by (blast intro: pid_public_ok_evolves)
next
  case False
  with assms have rc: "0 < rc" "rc = int j" by (auto dest: create_dom)
  with assms(1,3) have "obj_evolves (new_object k r a f d p q) b" by (auto elim: create_success)
  then show ?thesis using pid_public_new_object by (blast intro: pid_public_ok_evolves)
qed

lemma create_lineage:
  assumes "wubu_cap_create i m k r a f d p q s = (rc, tok, t)" and "lineage_inv s L"
  shows "lineage_inv t L"
proof (rule lineage_inv_evolves [OF assms(2)])
  show "evolves s t" using assms(1) create_evolves by (metis snd_conv)
qed (rule create_public [OF assms(1)])

text \<open>A derivation that is refused changes nothing; any other is a creation.\<close>

lemma derive_cases:
  assumes "wubu_cap_derive i m ptok pid r a f s = (rc, tok, t)"
  obtains (refused) "t = s" "\<not> 0 < rc"
  | (made) k aud d where "wubu_cap_create i m k r (Some aud) f d pid (wubu_cap_token_idx ptok) s = (rc, tok, t)"
  using assms unfolding wubu_cap_derive_def cap_derive_inner_def
  by (auto simp: Let_def split: if_splits option.splits)

text \<open>What a successful derivation adds: an object in a fresh slot that attenuates its parent.\<close>

lemma derive_made:
  assumes "wubu_cap_derive i m ptok pid r a f s = (rc, tok, t)" and "0 < rc" and "lineage_inv s L"
  obtains n k aud d where "rc = int n" and "1 \<le> n" and "n < WUBU_CAP_OBJECT_CAPACITY" and "g_ptrs s n = None"
    and "wubu_cap_create i m k r (Some aud) f d pid (wubu_cap_token_idx ptok) s = (rc, tok, t)"
    and "obj_at s (wubu_cap_token_idx ptok) \<noteq> None"
    and "unat (wubu_cap_token_idx ptok) < WUBU_CAP_OBJECT_CAPACITY"
    and "\<exists>a b. obj_at t (wubu_cap_token_idx ptok) = Some a \<and> g_ptrs t n = Some b \<and> attenuates a b"
proof -
  obtain parent aud where d: "obj_at s (wubu_cap_token_idx ptok) = Some parent"
    "wubu_cap_validate_audience parent pid" "o_rights parent AND r = r"
    "o_flags parent AND (f AND 9) = f AND 9" "audience_is_subset parent a"
    "aud = (case a of None \<Rightarrow> pid # replicate 7 WUBU_PID_NONE | Some xs \<Rightarrow> xs)"
    "wubu_cap_create i m (o_kind parent) r (Some aud) f (o_kind_data parent) pid
       (wubu_cap_token_idx ptok) s = (rc, tok, t)"
    using assms(1,2) unfolding wubu_cap_derive_def by (auto elim: derive_success)
  let ?c = "new_object (o_kind parent) r (Some aud) f (o_kind_data parent) pid (wubu_cap_token_idx ptok)"
  obtain n b where n: "rc = int n" "1 \<le> n" "n < WUBU_CAP_OBJECT_CAPACITY" "g_ptrs s n = None"
    "g_ptrs t n = Some b" "obj_evolves ?c b" "evolves s t"
    using d(7) assms(2) by (rule create_success) blast
  have "attenuates parent ?c"
    using d assms(3) by (intro derive_attenuates) (auto simp: lineage_inv_def)
  moreover obtain q where "obj_at t (wubu_cap_token_idx ptok) = Some q" "obj_evolves parent q"
    using n(7) d(1) by (rule evolvesE)
  moreover have "unat (wubu_cap_token_idx ptok) < WUBU_CAP_OBJECT_CAPACITY"
    using assms(1,2) unfolding wubu_cap_derive_def cap_derive_inner_def
    by (auto simp: Let_def split: if_splits)
  ultimately show thesis using that [OF n(1-4) d(7)] d(1) n(5,6) attenuates_evolves by blast
qed

lemma track_lineage:
  assumes "lineage_inv s L" and "cap_track op (s, L) = (t, L')"
  shows "lineage_inv t L'"
proof (cases op)
  case (Op_derive i m ptok pid r a f)
  obtain rc tok where d: "wubu_cap_derive i m ptok pid r a f s = (rc, tok, t)"
    using assms(2) Op_derive by (auto split: prod.splits)
  have inv: "lineage_inv t L"
    using d by (cases rule: derive_cases) (use assms(1) in \<open>auto intro: create_lineage\<close>)
  show ?thesis
  proof (cases "0 < rc")
    case True
    let ?p = "wubu_cap_token_idx ptok"
    obtain n where n: "rc = int n" "n < WUBU_CAP_OBJECT_CAPACITY"
      and new: "\<exists>a b. obj_at t ?p = Some a \<and> g_ptrs t n = Some b \<and> attenuates a b"
      by (rule derive_made [OF d True assms(1)]) (rule that; assumption)
    have un: "unat (of_int rc :: u32) = n" using n by simp
    have L': "L' = (?p, of_int rc) # map (\<lambda>(x, y). (x, of_int rc)) (filter (\<lambda>(x, y). y = ?p) L) @ L"
      using assms(2) Op_derive d True by simp
    have "\<exists>a b. obj_at t x = Some a \<and> obj_at t (of_int rc) = Some b \<and> attenuates a b"
      if "(x, ?p) \<in> set L" for x
    proof -
      from inv that obtain a0 p0 where "obj_at t x = Some a0" "obj_at t ?p = Some p0" "attenuates a0 p0"
        unfolding lineage_inv_def by blast
      with new un show ?thesis by (metis attenuates_trans option.inject)
    qed
    with inv new un show ?thesis unfolding L' lineage_inv_def by auto
  qed (use inv assms(2) Op_derive d in simp)
next
  case (Op_destroy idx)
  then have t: "t = wubu_cap_destroy idx s" "L' = filter (\<lambda>(x, y). x \<noteq> idx \<and> y \<noteq> idx) L"
    using assms(2) by simp_all
  have sub: "g_ptrs s i = Some obj" if "g_ptrs t i = Some obj" for i obj
    using that by (auto simp: t(1) wubu_cap_destroy_def split: if_splits)
  have other: "obj_at t x = obj_at s x" if "x \<noteq> idx" for x
    unfolding t(1) by (rule destroy_other) (use that in simp)
  have "\<exists>a b. obj_at t x = Some a \<and> obj_at t y = Some b \<and> attenuates a b" if "(x, y) \<in> set L'" for x y
  proof -
    have "x \<noteq> idx" "y \<noteq> idx" "(x, y) \<in> set L" using that by (auto simp: t(2))
    then show ?thesis using assms(1) other [of x] other [of y] unfolding lineage_inv_def by auto
  qed
  moreover have "\<forall>i obj. g_ptrs t i = Some obj \<longrightarrow> pid_public_ok obj"
    using assms(1) sub unfolding lineage_inv_def by blast
  ultimately show ?thesis unfolding lineage_inv_def by blast
next
  case (Op_init ok)
  then have t: "t = wubu_cap_init ok s" "L' = L" using assms(2) by simp_all
  show ?thesis unfolding t
    by (rule lineage_inv_evolves [OF assms(1) init_evolves])
       (auto simp: wubu_cap_init_def sentinel_facts split: if_splits)
next
  case (Op_create i m k r a f d p q)
  with assms show ?thesis by (cases "wubu_cap_create i m k r a f d p q s") (auto intro: create_lineage)
next
  case (Op_resolve pid tok req)
  with assms show ?thesis by (auto intro: lineage_inv_same_dom resolve_evolves)
next
  case (Op_revoke tok)
  with assms show ?thesis by (auto simp: revoke_dom intro: lineage_inv_same_dom revoke_evolves)
qed

lemma run_lineage:
  "lineage_inv s L \<Longrightarrow> fold cap_track ops (s, L) = (t, L') \<Longrightarrow> lineage_inv t L'"
proof (induction ops arbitrary: s L)
  case (Cons op ops)
  obtain s1 L1 where "cap_track op (s, L) = (s1, L1)" by fastforce
  with Cons show ?case by (auto dest: track_lineage)
qed simp

lemma lineage_inv_empty: "lineage_inv cap_state_empty []"
  by (simp add: lineage_inv_def cap_state_empty_def)

text \<open>A revoked slot stays revoked.\<close>

lemma revoke_permanent_rule:
  assumes "wubu_cap_revoke tok s = (rc, t)" and "1 \<le> rc" and "Op_destroy (wubu_cap_token_idx tok) \<notin> set ops"
    and "wubu_cap_token_idx tok' = wubu_cap_token_idx tok"
  shows "fst (wubu_cap_resolve pid tok' req (cap_run ops t)) = None"
proof -
  have "deleted_at t (wubu_cap_token_idx tok)"
    using assms(1)
  proof (cases rule: revoke_cases)
    case (eager obj c)
    let ?s1 = "set_obj (wubu_cap_token_idx tok) (revoked obj) s"
    have "evolves ?s1 t" using eager(7) by (metis cascade_evolves snd_conv)
    moreover have "deleted_at ?s1 (wubu_cap_token_idx tok)" by (simp add: deleted_at_def)
    ultimately show ?thesis by (blast intro: deleted_at_evolves)
  qed (use assms(2) in \<open>simp_all add: deleted_at_def\<close>)
  then have "deleted_at (cap_run ops t) (wubu_cap_token_idx tok)" by (rule run_deleted_at [OF assms(3)])
  with assms(4) show ?thesis
    by (simp add: resolve_deleted)
qed

section \<open>Child lists\<close>

text \<open>Child links of a registry in which nothing was destroyed lead to objects.\<close>

definition links_closed :: "cap_state \<Rightarrow> bool" where
  "links_closed s \<longleftrightarrow> (\<forall>i obj l. g_ptrs s i = Some obj \<longrightarrow>
     l \<in> {o_first_child_idx obj, o_next_sibling_idx obj} \<longrightarrow> l = WUBU_CAP_IDX_NONE \<or> obj_at s l \<noteq> None)"

text \<open>\<open>child s x y\<close>: \<open>y\<close> is on the child list of \<open>x\<close>, and immortal only if \<open>x\<close> is.\<close>

definition child :: "cap_state \<Rightarrow> u32 \<Rightarrow> u32 \<Rightarrow> bool" where
  "child s x y \<longleftrightarrow> (\<exists>a b. obj_at s x = Some a \<and> obj_at s y = Some b \<and>
     on_list (g_ptrs s) (o_first_child_idx a) y \<and> (is_immortal b \<longrightarrow> is_immortal a))"

definition grows :: "cap_state \<Rightarrow> cap_state \<Rightarrow> bool" where
  "grows s t \<longleftrightarrow> links_closed t \<and> (\<forall>x y. child s x y \<longrightarrow> child t x y)"

lemma grows_trans: "grows s t \<Longrightarrow> grows t u \<Longrightarrow> grows s u"
  by (simp add: grows_def)

lemma grows_refl: "links_closed s \<Longrightarrow> grows s s"
  by (simp add: grows_def)

lemma grows_same_links:
  assumes "links_closed s" and "same_links (g_ptrs s) (g_ptrs t)"
  shows "grows s t"
proof -
  note rev_links = same_links_sym [OF assms(2)]
  have "obj_at t l \<noteq> None \<longleftrightarrow> obj_at s l \<noteq> None" for l
    using assms(2) unfolding same_links_def by (metis option.map_disc_iff)
  note dom = this
  have "links_closed t"
    unfolding links_closed_def dom
  proof (intro allI impI)
    fix i obj l
    assume i: "g_ptrs t i = Some obj" and l: "l \<in> {o_first_child_idx obj, o_next_sibling_idx obj}"
    from rev_links i obtain b where "g_ptrs s i = Some b" "o_first_child_idx b = o_first_child_idx obj"
      "o_next_sibling_idx b = o_next_sibling_idx obj" by (rule same_linksD)
    with l assms(1) show "l = WUBU_CAP_IDX_NONE \<or> obj_at s l \<noteq> None"
      unfolding links_closed_def by metis
  qed
  moreover have "child t x y" if c: "child s x y" for x y
  proof -
    from c obtain a b where ab: "obj_at s x = Some a" "obj_at s y = Some b"
      "on_list (g_ptrs s) (o_first_child_idx a) y" "is_immortal b \<longrightarrow> is_immortal a"
      by (auto simp: child_def)
    obtain a' where "obj_at t x = Some a'" "o_first_child_idx a' = o_first_child_idx a" "is_immortal a' = is_immortal a"
      using assms(2) ab(1) by (rule same_linksD)
    moreover obtain b' where "obj_at t y = Some b'" "is_immortal b' = is_immortal b"
      using assms(2) ab(2) by (rule same_linksD)
    ultimately show ?thesis using ab(3,4) on_list_same [OF ab(3) assms(2)] by (auto simp: child_def)
  qed
  ultimately show ?thesis by (simp add: grows_def)
qed

text \<open>A fresh object without links.\<close>

lemma grows_fresh:
  assumes "links_closed s" and "g_ptrs s n = None" and "g_ptrs t = (g_ptrs s)(n \<mapsto> obj)"
    and "o_first_child_idx obj = WUBU_CAP_IDX_NONE" and "o_next_sibling_idx obj = WUBU_CAP_IDX_NONE"
  shows "grows s t"
proof -
  have old: "g_ptrs s i = Some x \<Longrightarrow> g_ptrs t i = Some x" for i x using assms(2,3) by auto
  have "on_list (g_ptrs t) c x" if "on_list (g_ptrs s) c x" for c x
    using that by induction (auto intro: on_list.intros old)
  then have "child t x y" if "child s x y" for x y
    using that old unfolding child_def by blast
  moreover have "links_closed t"
    using assms unfolding links_closed_def by (fastforce split: if_splits)
  ultimately show ?thesis by (simp add: grows_def)
qed

text \<open>Linking a child that is on no list yet.\<close>

lemma link_child_rule:
  assumes cl: "links_closed s" and c: "obj_at s c = Some cobj" "c \<noteq> 0" "unat c < WUBU_CAP_OBJECT_CAPACITY"
    and p: "obj_at s p = Some pobj" "unat p < WUBU_CAP_OBJECT_CAPACITY"
    and free: "\<And>i obj. g_ptrs s i = Some obj \<Longrightarrow> o_first_child_idx obj \<noteq> c \<and> o_next_sibling_idx obj \<noteq> c"
  defines "t \<equiv> wubu_cap_link_child p c s"
  shows "grows s t" and "\<exists>a. obj_at t p = Some a \<and> on_list (g_ptrs t) (o_first_child_idx a) c"
proof -
  have cN: "c \<noteq> WUBU_CAP_IDX_NONE" and pN: "p \<noteq> WUBU_CAP_IDX_NONE" using c(3) p(2) by auto
  have uc: "unat x = unat c \<longleftrightarrow> x = c" and up: "unat x = unat p \<longleftrightarrow> x = p" for x by (simp_all add: word_unat_eq_iff)
  have t: "g_ptrs t = (if p = c then (g_ptrs s)(unat c \<mapsto> cobj\<lparr>o_next_sibling_idx := o_first_child_idx cobj, o_first_child_idx := c\<rparr>)
      else (g_ptrs s)(unat c \<mapsto> cobj\<lparr>o_next_sibling_idx := o_first_child_idx pobj\<rparr>, unat p \<mapsto> pobj\<lparr>o_first_child_idx := c\<rparr>))"
    using c p cN pN unfolding t_def wubu_cap_link_child_def by (auto simp: Let_def uc)
  have dom: "g_ptrs t i = None \<longleftrightarrow> g_ptrs s i = None" for i using c(1) p(1) unfolding t by auto
  have next_t: "\<exists>x'. g_ptrs t (unat d) = Some x' \<and> o_next_sibling_idx x' = o_next_sibling_idx x"
    if "g_ptrs s (unat d) = Some x" "d \<noteq> c" for d x
    using that p(1) unfolding t by (auto simp: uc up)
  have first_c: "\<exists>x'. obj_at t c = Some x' \<and> o_next_sibling_idx x' = o_first_child_idx pobj" and
    first_p: "\<exists>x'. obj_at t p = Some x' \<and> o_first_child_idx x' = c"
    using c(1) p(1) unfolding t by (auto simp: uc up)
  have keep: "on_list (g_ptrs t) d x" if "on_list (g_ptrs s) d x" "d \<noteq> c" for d x
    using that
  proof induction
    case (there d obj x)
    with free obtain x' where "g_ptrs t (unat d) = Some x'" "o_next_sibling_idx x' = o_next_sibling_idx obj"
      "o_next_sibling_idx obj \<noteq> c" using next_t by blast
    with there show ?case by (auto intro: on_list.there)
  qed (rule on_list.here)
  have obj_t: "\<exists>x'. obj_at t d = Some x' \<and> is_immortal x' = is_immortal x \<and>
      (d \<noteq> p \<longrightarrow> o_first_child_idx x' = o_first_child_idx x)" if "obj_at s d = Some x" for d x
    using that c(1) p(1) unfolding t by (auto simp: uc up is_immortal_def)
  show here: "\<exists>a. obj_at t p = Some a \<and> on_list (g_ptrs t) (o_first_child_idx a) c"
    using first_p on_list.here [OF cN] by auto
  have "child t x y" if ch: "child s x y" for x y
  proof -
    from ch obtain a b where ab: "obj_at s x = Some a" "obj_at s y = Some b"
      "on_list (g_ptrs s) (o_first_child_idx a) y" "is_immortal b \<longrightarrow> is_immortal a" by (auto simp: child_def)
    have l: "on_list (g_ptrs t) (o_first_child_idx a) y" using keep [OF ab(3)] free [OF ab(1)] by blast
    obtain a' where a': "obj_at t x = Some a'" "is_immortal a' = is_immortal a"
      "x \<noteq> p \<Longrightarrow> o_first_child_idx a' = o_first_child_idx a" using obj_t [OF ab(1)] by blast
    obtain b' where b': "obj_at t y = Some b'" "is_immortal b' = is_immortal b" using obj_t [OF ab(2)] by blast
    have "on_list (g_ptrs t) (o_first_child_idx a') y"
    proof (cases "x = p")
      case True
      with first_p a'(1) have "o_first_child_idx a' = c" by auto
      moreover obtain c' where "obj_at t c = Some c'" "o_next_sibling_idx c' = o_first_child_idx pobj"
        using first_c by blast
      moreover have "a = pobj" using True ab(1) p(1) by simp
      ultimately show ?thesis using on_list.there [OF cN] l by simp
    qed (use a'(3) l in simp)
    with a' b' ab(4) show ?thesis by (auto simp: child_def)
  qed
  moreover have "links_closed t"
    unfolding links_closed_def
  proof (intro allI impI)
    fix i obj l
    assume "g_ptrs t i = Some obj" and "l \<in> {o_first_child_idx obj, o_next_sibling_idx obj}"
    then have "l = c \<or> l \<in> {o_first_child_idx cobj, o_next_sibling_idx cobj} \<or>
        l \<in> {o_first_child_idx pobj, o_next_sibling_idx pobj} \<or>
        (\<exists>x. g_ptrs s i = Some x \<and> l \<in> {o_first_child_idx x, o_next_sibling_idx x})"
      using c(1) p(1) unfolding t by (auto split: if_splits)
    then have "l = c \<or> (\<exists>j x. g_ptrs s j = Some x \<and> l \<in> {o_first_child_idx x, o_next_sibling_idx x})"
      using c(1) p(1) by blast
    then show "l = WUBU_CAP_IDX_NONE \<or> obj_at t l \<noteq> None"
      using cl c(1) unfolding links_closed_def dom by blast
  qed
  ultimately show "grows s t" by (simp add: grows_def)
qed

lemma init_grows: "links_closed s \<Longrightarrow> grows s (wubu_cap_init ok s)"
proof (cases "g_ptrs s 0 = None \<and> ok")
  case True
  assume "links_closed s"
  with True show ?thesis
    by (intro grows_fresh [of s 0 _ cap_sentinel])
       (auto simp: wubu_cap_init_def cap_sentinel_def)
qed (auto simp: wubu_cap_init_def grows_refl)

lemma create_grows:
  assumes cl: "links_closed s" and cr: "wubu_cap_create i m k r a f d pid q s = (rc, tok, t)"
  shows "grows s t"
    and "0 < rc \<Longrightarrow> obj_at s q \<noteq> None \<Longrightarrow> unat q < WUBU_CAP_OBJECT_CAPACITY \<Longrightarrow>
      \<exists>a. obj_at t q = Some a \<and> on_list (g_ptrs t) (o_first_child_idx a) (of_int rc)"
proof -
  define s1 where "s1 = (if g_ptrs s 0 = None then wubu_cap_init i s else s)"
  define obj where "obj = new_object k r a f d pid q"
  have g1: "grows s s1" unfolding s1_def using init_grows [OF cl] grows_refl [OF cl] by simp
  show "grows s t" and "0 < rc \<Longrightarrow> obj_at s q \<noteq> None \<Longrightarrow> unat q < WUBU_CAP_OBJECT_CAPACITY \<Longrightarrow>
      \<exists>a. obj_at t q = Some a \<and> on_list (g_ptrs t) (o_first_child_idx a) (of_int rc)"
  proof (atomize (full), cases "cap_find_free_slot_locked s1 = None \<or> \<not> m")
    case True
    then have "t = s1" "\<not> 0 < rc" using cr unfolding wubu_cap_create_def s1_def [symmetric] by (auto split: if_splits option.splits)
    with g1 show "grows s t \<and> (0 < rc \<longrightarrow> obj_at s q \<noteq> None \<longrightarrow> unat q < WUBU_CAP_OBJECT_CAPACITY \<longrightarrow>
      (\<exists>a. obj_at t q = Some a \<and> on_list (g_ptrs t) (o_first_child_idx a) (of_int rc)))" by simp
  next
    case False
    then obtain n where n: "cap_find_free_slot_locked s1 = Some n" "m" by auto
    note free = find_free_slot_bounds [OF n(1)]
    let ?c = "of_nat n :: u32"
    have un: "unat ?c = n" "?c \<noteq> 0" using free by (simp, simp add: unat_eq_0 [symmetric] del: unat_eq_0)
    define s2 where "s2 = set_obj ?c obj s1"
    define s3 where "s3 = (if g_cap_count s2 \<le> ?c then s2\<lparr>g_cap_count := ?c + 1\<rparr> else s2)"
    have t: "t = (if q \<noteq> WUBU_CAP_IDX_NONE \<and> unat q < WUBU_CAP_OBJECT_CAPACITY
        then wubu_cap_link_child q ?c s3 else s3)" and rc: "rc = int n"
      using cr n unfolding wubu_cap_create_def s1_def [symmetric] obj_def s2_def s3_def by (auto simp: Let_def)
    have p3: "g_ptrs s3 = (g_ptrs s1)(n \<mapsto> obj)" by (simp add: s3_def s2_def un)
    have g3: "grows s1 s3"
      by (rule grows_fresh [OF _ _ p3]) (use g1 free in \<open>simp_all add: grows_def obj_def\<close>)
    have cl1: "links_closed s1" using g1 by (simp add: grows_def)
    have nolist: "o_first_child_idx x \<noteq> ?c \<and> o_next_sibling_idx x \<noteq> ?c" if "g_ptrs s3 j = Some x" for j x
    proof -
      have "unat ?c \<noteq> unat WUBU_CAP_IDX_NONE" using un(1) free by simp
      then have "?c \<noteq> WUBU_CAP_IDX_NONE" by metis
      moreover have "obj_at s1 ?c = None" using un free by simp
      moreover have "l \<noteq> ?c" if "g_ptrs s1 j = Some x" "l \<in> {o_first_child_idx x, o_next_sibling_idx x}" for l
        using cl1 that calculation unfolding links_closed_def by metis
      ultimately show ?thesis using that unfolding p3 obj_def by (auto split: if_splits)
    qed
    have c3: "obj_at s3 ?c = Some obj" by (simp add: p3 un)
    show "grows s t \<and> (0 < rc \<longrightarrow> obj_at s q \<noteq> None \<longrightarrow> unat q < WUBU_CAP_OBJECT_CAPACITY \<longrightarrow>
      (\<exists>a. obj_at t q = Some a \<and> on_list (g_ptrs t) (o_first_child_idx a) (of_int rc)))"
    proof (cases "unat q < WUBU_CAP_OBJECT_CAPACITY \<and> obj_at s3 q \<noteq> None")
      case True
      then obtain pobj where q: "obj_at s3 q = Some pobj" "unat q < WUBU_CAP_OBJECT_CAPACITY" by auto
      then have "q \<noteq> WUBU_CAP_IDX_NONE" by auto
      with q(2) have t': "t = wubu_cap_link_child q ?c s3" by (simp add: t)
      have cl3: "links_closed s3" using g3 by (simp add: grows_def)
      have "unat ?c < WUBU_CAP_OBJECT_CAPACITY" using un free by simp
      note lk = link_child_rule [OF cl3 c3 un(2) this q nolist, folded t']
      show ?thesis using grows_trans [OF g1 grows_trans [OF g3 lk(1)]] lk(2) rc by simp
    next
      case False
      then have "t = s3" using c3 by (auto simp: t wubu_cap_link_child_def split: option.splits)
      moreover have "obj_at s q = None \<or> \<not> unat q < WUBU_CAP_OBJECT_CAPACITY"
        using False unfolding p3 s1_def wubu_cap_init_def by (auto split: if_splits)
      ultimately show ?thesis using grows_trans [OF g1 g3] by auto
    qed
  qed
qed

lemma cascade_loop_links:
  "same_links (g_ptrs s) (g_ptrs (snd (snd (cascade_loop todo room c tr s))))"
proof (induction todo room c tr s rule: cascade_loop.induct)
  case (2 idx todo room count tr s)
  show ?case
  proof (cases "obj_at s idx")
    case (Some obj)
    with 2 visit_links [OF Some] show ?thesis by (auto simp: same_links_def)
  qed (use 2 in simp)
qed (simp add: same_links_def)

lemma cascade_links: "same_links (g_ptrs s) (g_ptrs (snd (wubu_cap_revoke_cascade r s)))"
proof -
  obtain c t where c: "wubu_cap_revoke_cascade r s = (c, t)" by fastforce
  from c show ?thesis
  proof (cases rule: cascade_cases)
    case (run root xs tr0 n tr s1)
    have "same_links (g_ptrs s) (g_ptrs s1)" using cascade_loop_links run(3) by (metis snd_conv)
    moreover have "same_links (g_ptrs s1) (g_ptrs t)"
      using run(5) by (auto simp: same_links_def links_def flagged_def flags_or_truncated split: option.splits)
    ultimately show ?thesis using c by (simp add: same_links_def)
  qed (use c in \<open>simp add: same_links_def\<close>)
qed

lemma revoke_links: "same_links (g_ptrs s) (g_ptrs (snd (wubu_cap_revoke tok s)))"
proof -
  obtain rc t where r: "wubu_cap_revoke tok s = (rc, t)" by fastforce
  have mark: "same_links (g_ptrs s) (g_ptrs (set_obj i (revoked obj) s))" if "obj_at s i = Some obj" for i obj
    using that by (simp add: same_links_def links_def revoked_def is_immortal_def)
  from r show ?thesis
  proof (cases rule: revoke_cases)
    case (eager obj c)
    then show ?thesis
      using r mark [OF eager(1)] cascade_links [of "set_obj (wubu_cap_token_idx tok) (revoked obj) s" "wubu_cap_token_idx tok"]
      by (simp add: same_links_def)
  qed (use r mark in \<open>simp_all add: same_links_def\<close>)
qed

text \<open>In a run without destruction every recorded derivation is a path of child lists.\<close>

definition family_inv :: "cap_state \<Rightarrow> (u32 \<times> u32) list \<Rightarrow> bool" where
  "family_inv s L \<longleftrightarrow> links_closed s \<and> (\<forall>(x, y) \<in> set L. (child s)\<^sup>+\<^sup>+ x y)"

lemma child_path_mono: "(child s)\<^sup>+\<^sup>+ x y \<Longrightarrow> (\<And>x y. child s x y \<Longrightarrow> child t x y) \<Longrightarrow> (child t)\<^sup>+\<^sup>+ x y"
  by (induction rule: tranclp.induct) (blast intro: tranclp.intros)+

lemma family_grows: "family_inv s L \<Longrightarrow> grows s t \<Longrightarrow> family_inv t L"
  unfolding family_inv_def grows_def by (auto intro: child_path_mono)

lemma track_family:
  assumes "family_inv s L" and "lineage_inv s L" and "cap_track op (s, L) = (t, L')" and "\<And>i. op \<noteq> Op_destroy i"
  shows "family_inv t L'"
proof (cases op)
  case (Op_derive i m ptok pid r a f)
  have cl: "links_closed s" using assms(1) by (simp add: family_inv_def)
  let ?p = "wubu_cap_token_idx ptok"
  obtain rc tok where d: "wubu_cap_derive i m ptok pid r a f s = (rc, tok, t)"
    using assms(3) Op_derive by (auto split: prod.splits)
  have "grows s t" using d by (cases rule: derive_cases) (auto intro: create_grows(1) [OF cl] grows_refl cl)
  then have inv: "family_inv t L" by (rule family_grows [OF assms(1)])
  show ?thesis
  proof (cases "0 < rc")
    case True
    obtain n k aud e where n: "rc = int n" "n < WUBU_CAP_OBJECT_CAPACITY"
      and cr: "wubu_cap_create i m k r (Some aud) f e pid ?p s = (rc, tok, t)"
      and p: "obj_at s ?p \<noteq> None" "unat ?p < WUBU_CAP_OBJECT_CAPACITY"
      and new: "\<exists>a b. obj_at t ?p = Some a \<and> g_ptrs t n = Some b \<and> attenuates a b"
      by (rule derive_made [OF d True assms(2)]) (rule that; assumption)
    have un: "unat (of_int rc :: u32) = n" using n by simp
    have ch: "child t ?p (of_int rc)"
      using create_grows(2) [OF cl cr True p] new un unfolding child_def attenuates_def by auto
    have L': "L' = (?p, of_int rc) # map (\<lambda>(x, y). (x, of_int rc)) (filter (\<lambda>(x, y). y = ?p) L) @ L"
      using assms(3) Op_derive d True by simp
    show ?thesis using inv ch unfolding L' family_inv_def by (auto intro: tranclp.trancl_into_trancl)
  qed (use inv assms(3) Op_derive d in simp)
next
  case (Op_create i m k r a f d p q)
  then obtain rc tok where "wubu_cap_create i m k r a f d p q s = (rc, tok, t)" and L: "L' = L"
    using assms(3) by (metis cap_track.simps(4) cap_exec.simps(2) prod.collapse prod.inject)
  with assms(1) show ?thesis unfolding L
    by (intro family_grows [OF assms(1)] create_grows(1)) (simp_all add: family_inv_def)
next
  case (Op_revoke tok)
  with assms family_grows [OF assms(1) grows_same_links [OF _ revoke_links]] show ?thesis
    by (auto simp: family_inv_def)
next
  case (Op_init ok)
  with assms family_grows [OF assms(1) init_grows] show ?thesis by (auto simp: family_inv_def)
next
  case (Op_resolve pid tok req)
  then have "same_links (g_ptrs s) (g_ptrs t)" and L: "L' = L" using assms(3) by (auto simp: same_links_def)
  with assms(1) show ?thesis unfolding L
    by (intro family_grows [OF assms(1)] grows_same_links) (simp_all add: family_inv_def)
qed (use assms(4) in simp)

lemma run_family:
  "family_inv s L \<Longrightarrow> lineage_inv s L \<Longrightarrow> fold cap_track ops (s, L) = (t, L') \<Longrightarrow>
   (\<And>i. Op_destroy i \<notin> set ops) \<Longrightarrow> family_inv t L'"
proof (induction ops arbitrary: s L)
  case (Cons op ops)
  obtain s1 L1 where s1: "cap_track op (s, L) = (s1, L1)" by fastforce
  have "family_inv s1 L1" by (rule track_family [OF Cons.prems(1,2) s1]) (use Cons.prems(4) in auto)
  moreover have "lineage_inv s1 L1" using Cons.prems(2) s1 by (rule track_lineage)
  ultimately show ?case using Cons s1 by auto
qed simp

lemma family_inv_empty: "family_inv cap_state_empty []"
  by (simp add: family_inv_def links_closed_def cap_state_empty_def)

text \<open>Below a mortal object the child lists are what the cascade follows.\<close>

lemma child_casc:
  assumes "(child s)\<^sup>+\<^sup>+ x y" and "mortal_at (g_ptrs s) x"
  shows "(casc (g_ptrs s))\<^sup>+\<^sup>+ x y \<and> mortal_at (g_ptrs s) y"
  using assms
proof induction
  case (base y)
  then show ?case by (auto simp: child_def casc_def mortal_at_def intro!: tranclp.r_into_trancl)
next
  case (step y z)
  then have m: "mortal_at (g_ptrs s) y" "(casc (g_ptrs s))\<^sup>+\<^sup>+ x y" by blast+
  with step(2) have "casc (g_ptrs s) y z" "mortal_at (g_ptrs s) z"
    by (auto simp: child_def casc_def mortal_at_def)
  with m show ?case by (auto intro: tranclp.trancl_into_trancl)
qed

end
