(* ===== verification/Cap_Props.thy ===== *)
theory Cap_Props
  imports Cap_Run
begin

text \<open>
  The properties that span the operations of the capability registry: attenuation along
  derivations, how long a revocation lasts, what it reaches, what a resolution checks and what
  a refusal records.
\<close>

section \<open>A concrete run\<close>

text \<open>
  A root capability for the pids 5 and 7 with the rights \<open>0xB\<close>, and a child that pid 5
  derives from it for itself with the right \<open>0x1\<close> only.
\<close>

definition demo_root :: cap_state where
  "demo_root = snd (snd (wubu_cap_create True True 3 0xB (Some [5, 7, -1]) 2 0 5 WUBU_CAP_IDX_NONE
     cap_state_empty))"

definition demo_child :: cap_state where
  "demo_child = snd (snd (wubu_cap_derive True True (wubu_cap_token_pack 1 1 2) 5 1 None 0 demo_root))"

definition demo_root_obj :: cap_object where
  "demo_root_obj = new_object 3 0xB (Some [5, 7, -1]) 2 0 5 WUBU_CAP_IDX_NONE"

lemma demo_root_obj_eq: "demo_root_obj =
   \<lparr>o_kind = 3, o_deleted = False, o_generation = 1, o_rights = 0xB, o_kind_data = 0,
    o_audience_set = [5, 7, -1, -1, -1, -1, -1, -1], o_audience_count = 2, o_flags = 2,
    o_parent_idx = WUBU_CAP_IDX_NONE, o_owner_pid = 5, o_first_child_idx = WUBU_CAP_IDX_NONE,
    o_next_sibling_idx = WUBU_CAP_IDX_NONE\<rparr>"
  by code_simp

lemma demo_root_eq:
  "demo_root = \<lparr>g_ptrs = [0 \<mapsto> cap_sentinel, 1 \<mapsto> demo_root_obj], g_cap_count = 2,
     g_audit = audit_empty\<rparr>"
  by (simp add: demo_root_def wubu_cap_create_def wubu_cap_init_def cap_state_empty_def Let_def
      demo_root_obj_def cap_find_free_slot_locked_def first_from.simps set_obj_def)

lemma demo_create:
  "wubu_cap_create True True 3 0xB (Some [5, 7, -1]) 2 0 5 WUBU_CAP_IDX_NONE cap_state_empty
     = (1, wubu_cap_token_pack 1 1 2, demo_root)"
  using demo_root_obj_eq
  by (simp add: demo_root_def wubu_cap_create_def wubu_cap_init_def cap_state_empty_def Let_def
      demo_root_obj_def cap_find_free_slot_locked_def first_from.simps)

definition demo_child_obj :: cap_object where
  "demo_child_obj = \<lparr>o_kind = 3, o_deleted = False, o_generation = 1, o_rights = 1, o_kind_data = 0,
    o_audience_set = [5, -1, -1, -1, -1, -1, -1, -1], o_audience_count = 1, o_flags = 0,
    o_parent_idx = 1, o_owner_pid = 5, o_first_child_idx = WUBU_CAP_IDX_NONE,
    o_next_sibling_idx = WUBU_CAP_IDX_NONE\<rparr>"

lemma demo_child_new:
  "new_object 3 1 (Some (5 # replicate 7 (-1))) 0 0 5 1 = demo_child_obj"
  by code_simp

lemma demo_derive:
  "wubu_cap_derive True True (wubu_cap_token_pack 1 1 2) 5 1 None 0 demo_root
     = (2, wubu_cap_token_pack 1 2 0, demo_child)"
  "demo_child = \<lparr>g_ptrs = [0 \<mapsto> cap_sentinel,
       1 \<mapsto> demo_root_obj\<lparr>o_first_child_idx := 2\<rparr>, 2 \<mapsto> demo_child_obj], g_cap_count = 3,
     g_audit = audit_empty\<rparr>"
proof -
  have run: "wubu_cap_derive True True (wubu_cap_token_pack 1 1 2) 5 1 None 0 demo_root =
    (2, wubu_cap_token_pack 1 2 0, \<lparr>g_ptrs = [0 \<mapsto> cap_sentinel,
       1 \<mapsto> demo_root_obj\<lparr>o_first_child_idx := 2\<rparr>, 2 \<mapsto> demo_child_obj], g_cap_count = 3,
     g_audit = audit_empty\<rparr>)"
    unfolding wubu_cap_derive_def cap_derive_inner_def demo_root_eq
    using demo_child_new
    by (simp add: Let_def demo_root_obj_eq wubu_cap_validate_audience_def is_public_def
        audience_list_def audience_is_subset_def wubu_cap_create_def wubu_cap_link_child_def
        cap_find_free_slot_locked_def first_from.simps set_obj_def demo_child_obj_def
        fun_upd_twist)
  then show "demo_child = \<lparr>g_ptrs = [0 \<mapsto> cap_sentinel,
       1 \<mapsto> demo_root_obj\<lparr>o_first_child_idx := 2\<rparr>, 2 \<mapsto> demo_child_obj], g_cap_count = 3,
     g_audit = audit_empty\<rparr>" by (simp add: demo_child_def)
  with run show "wubu_cap_derive True True (wubu_cap_token_pack 1 1 2) 5 1 None 0 demo_root
     = (2, wubu_cap_token_pack 1 2 0, demo_child)" by simp
qed

definition demo_ops :: "cap_op list" where
  "demo_ops = [Op_create True True 3 0xB (Some [5, 7, -1]) 2 0 5 WUBU_CAP_IDX_NONE,
     Op_derive True True (wubu_cap_token_pack 1 1 2) 5 1 None 0]"

lemma demo_track: "fold cap_track demo_ops (cap_state_empty, []) = (demo_child, [(1, 2)])"
  by (simp add: demo_ops_def demo_create demo_derive(1))

section \<open>Properties\<close>



text \<open>
  C2: revocation lasts as long as the slot. Once \<open>wubu_cap_revoke\<close> succeeds, no token for
  that slot resolves, whatever its generation, for any pid and any rights, after any further
  operations, until \<open>wubu_cap_destroy\<close> frees the slot.
\<close>

theorem revoke_permanent:
  assumes "wubu_cap_revoke tok s = (rc, t)" and "1 \<le> rc"
    and "Op_destroy (wubu_cap_token_idx tok) \<notin> set ops"
    and "wubu_cap_token_idx tok' = wubu_cap_token_idx tok"
  shows "fst (wubu_cap_resolve pid tok' req (fold cap_exec ops t)) = None"
  using assms by (rule revoke_permanent_rule)

theorem revoke_permanent_witness:
  "fst (wubu_cap_resolve 5 (wubu_cap_token_pack 9 1 0) 0 (fold cap_exec
     [Op_destroy 2, Op_create True True 3 0xB None 0 0 5 1]
     (snd (wubu_cap_revoke (wubu_cap_token_pack 1 1 2) demo_root)))) = None"
proof -
  define rt where "rt = wubu_cap_revoke (wubu_cap_token_pack 1 1 2) demo_root"
  have "1 \<le> fst rt"
    by (simp add: rt_def wubu_cap_revoke_def demo_root_eq demo_root_obj_eq is_immortal_def Let_def
        split_beta)
  then show ?thesis
    unfolding rt_def [symmetric]
    by (intro revoke_permanent [of "wubu_cap_token_pack 1 1 2" demo_root "fst rt" "snd rt"])
       (simp_all add: rt_def)
qed

text \<open>What an eager revocation that does not report truncation revokes.\<close>

lemma eager_revoke_rule:
  assumes "wubu_cap_revoke tok s = (rc, t)" and "1 \<le> rc" and "r = wubu_cap_token_idx tok"
    and "obj_at s r = Some root" and "o_flags root AND WUBU_CAP_FLAG_EAGER_REVOKE \<noteq> 0"
    and "obj_at t r = Some root'" and "o_flags root' AND WUBU_CAP_FLAG_CASCADE_TRUNCATED = 0"
    and "on_list (g_ptrs s) (o_first_child_idx root) x" and "(casc (g_ptrs s))\<^sup>*\<^sup>* x y"
    and "mortal_at (g_ptrs s) y"
  shows "deleted_at t y"
  using assms(1)
proof (cases rule: revoke_cases)
  case (eager obj c)
  let ?s1 = "set_obj (wubu_cap_token_idx tok) (revoked obj) s"
  have links: "same_links (g_ptrs s) (g_ptrs ?s1)"
    using eager(1) by (simp add: same_links_def links_def revoked_def is_immortal_def)
  have nz: "wubu_cap_token_idx tok \<noteq> 0"
    using assms(1,2) by (auto simp: wubu_cap_revoke_def)
  have "on_list (g_ptrs ?s1) (o_first_child_idx (revoked obj)) x"
    using assms(3,4,8) eager(1) links by (auto intro: on_list_same)
  then show ?thesis
    using cascade_complete [OF eager(7) nz eager(3), of "revoked obj" root' x y] assms
      casc_same [OF links] mortal_same [OF links] by simp
qed (use assms in auto)

text \<open>
  C3: an eager revocation is complete unless it says it is not. After any run from the empty
  registry in which nothing was destroyed, let \<open>wubu_cap_revoke\<close> revoke an object flagged for
  eager revocation and leave its truncation flag clear. Then no token for any object derived
  from it, directly or through others, resolves from then on, until the slot is destroyed.
\<close>

theorem eager_revoke_complete:
  assumes "fold cap_track ops (cap_state_empty, []) = (s, L)" and "\<forall>i. Op_destroy i \<notin> set ops"
    and "wubu_cap_revoke tok s = (rc, t)" and "1 \<le> rc"
    and "obj_at s (wubu_cap_token_idx tok) = Some root" and "o_flags root AND WUBU_CAP_FLAG_EAGER_REVOKE \<noteq> 0"
    and "obj_at t (wubu_cap_token_idx tok) = Some root'" and "o_flags root' AND WUBU_CAP_FLAG_CASCADE_TRUNCATED = 0"
    and "(wubu_cap_token_idx tok, y) \<in> set L" and "Op_destroy y \<notin> set ops'" and "wubu_cap_token_idx tok' = y"
  shows "fst (wubu_cap_resolve pid tok' req (fold cap_exec ops' t)) = None"
proof -
  let ?r = "wubu_cap_token_idx tok"
  have "family_inv s L"
    by (rule run_family [OF family_inv_empty lineage_inv_empty assms(1)]) (use assms(2) in blast)
  with assms(9) have path: "(child s)\<^sup>+\<^sup>+ ?r y" unfolding family_inv_def by blast
  have "\<not> is_immortal root" using assms(3-5) by (auto simp: wubu_cap_revoke_def Let_def split: if_splits)
  then have "mortal_at (g_ptrs s) ?r" using assms(5) by (simp add: mortal_at_def)
  with path have c: "(casc (g_ptrs s))\<^sup>+\<^sup>+ ?r y" "mortal_at (g_ptrs s) y" by (auto dest: child_casc)
  from tranclpD [OF c(1)] obtain x where x: "casc (g_ptrs s) ?r x" "(casc (g_ptrs s))\<^sup>*\<^sup>* x y" by blast
  then have "on_list (g_ptrs s) (o_first_child_idx root) x" using assms(5) by (simp add: casc_def)
  from eager_revoke_rule [OF assms(3,4) refl assms(5-8) this x(2) c(2)] have "deleted_at t y" .
  then have "deleted_at (fold cap_exec ops' t) y" by (rule run_deleted_at [OF assms(10)])
  with assms(11) show ?thesis by (simp add: resolve_deleted)
qed

lemma push_siblings_numeral:
  "push_siblings dangling ptrs cur (numeral k) =
     (if cur = WUBU_CAP_IDX_NONE then ([], False)
      else case ptrs (unat cur) of
        None \<Rightarrow> ([cur], dangling)
      | Some c \<Rightarrow>
          (case push_siblings dangling ptrs (o_next_sibling_idx c) (pred_numeral k) of
             (xs, t) \<Rightarrow> (cur # xs, t)))"
  by (simp add: numeral_eq_Suc)

lemma demo_revoke_eager:
  "wubu_cap_revoke (wubu_cap_token_pack 1 1 2) demo_child = (2, \<lparr>g_ptrs = [0 \<mapsto> cap_sentinel,
       1 \<mapsto> revoked (demo_root_obj\<lparr>o_first_child_idx := 2\<rparr>), 2 \<mapsto> kill demo_child_obj],
       g_cap_count = 3, g_audit = audit_empty\<rparr>)"
  by (simp add: wubu_cap_revoke_def wubu_cap_revoke_cascade_def demo_derive(2) demo_root_obj_eq
      demo_child_obj_def is_immortal_def Let_def set_obj_def revoked_def push_siblings_numeral
      queued_def visit_def kill_def)

theorem eager_revoke_complete_witness:
  "fst (wubu_cap_resolve 5 (wubu_cap_token_pack 1 2 0) 1
     (snd (wubu_cap_revoke (wubu_cap_token_pack 1 1 2) demo_child))) = None"
proof -
  have "\<forall>i. Op_destroy i \<notin> set demo_ops" by (simp add: demo_ops_def)
  from eager_revoke_complete [OF demo_track this demo_revoke_eager, where y = 2 and ops' = "[]"]
  show ?thesis unfolding demo_revoke_eager
    by (simp add: demo_derive(2) demo_root_obj_eq revoked_def)
qed

text \<open>
  C4: an immortal capability cannot be revoked. If a token resolves to an immortal object, the
  same request keeps resolving after any operations, revocations and cascades included, as long
  as \<open>wubu_cap_destroy\<close> does not free its slot.
\<close>

theorem immortal_keeps_resolving:
  assumes "fst (wubu_cap_resolve pid tok req s) = Some idx" and "obj_at s idx = Some obj"
    and "is_immortal obj" and "Op_destroy idx \<notin> set ops"
  shows "fst (wubu_cap_resolve pid tok req (fold cap_exec ops s)) = Some idx"
proof -
  from run_evolves_at [OF assms(4,2)] obtain b
    where b: "obj_at (fold cap_exec ops s) idx = Some b" "obj_evolves obj b" by blast
  moreover from assms have "\<not> o_deleted obj" "o_generation obj = wubu_cap_token_gen tok"
    "grants obj pid req" by (auto simp: resolve_Some_iff)
  ultimately have "\<not> o_deleted b \<and> o_generation b = wubu_cap_token_gen tok \<and> grants b pid req"
    using assms(3) validate_evolves [OF b(2)] by (simp add: grants_def obj_evolves_def)
  with assms(1) b(1) show ?thesis by (auto simp: resolve_Some_iff)
qed

text \<open>A one-object registry whose object is immortal and public.\<close>

definition demo_immortal :: cap_state where
  "demo_immortal = cap_state_empty\<lparr>g_ptrs := [1 \<mapsto> cap_sentinel]\<rparr>"

theorem immortal_keeps_resolving_witness:
  "fst (wubu_cap_resolve 42 (wubu_cap_token_pack 1 1 0) 7 (fold cap_exec
     [Op_revoke (wubu_cap_token_pack 1 1 0), Op_destroy 2] demo_immortal)) = Some 1"
  by (rule immortal_keeps_resolving [where obj = cap_sentinel])
     (simp_all add: demo_immortal_def resolve_Some_iff cap_sentinel_def cap_zero_def is_immortal_def
      grants_def wubu_cap_validate_audience_def is_public_def cap_state_empty_def)

text \<open>
  a created capability works. The token \<open>wubu_cap_create\<close> returns resolves to the slot
  it reports for every pid of its audience (the owner when none was given; everybody when
  the object is public) and every subset of its rights.
\<close>

lemma create_resolves:
  assumes "wubu_cap_create i m k r aud f d owner q s = (rc, tok, t)" and "0 < rc"
    and "pid \<in> set (case aud of None \<Rightarrow> [owner] | Some xs \<Rightarrow> audience_prefix xs) \<or>
         f AND WUBU_CAP_FLAG_PUBLIC \<noteq> 0"
    and "r AND req = req"
  shows "fst (wubu_cap_resolve pid tok req t) = Some (of_int rc)"
proof -
  from assms(1,2) obtain n b where n: "rc = int n" "1 \<le> n" "n < WUBU_CAP_OBJECT_CAPACITY"
    "g_ptrs t n = Some b" "obj_evolves (new_object k r aud f d owner q) b"
    "tok = wubu_cap_token_pack 1 (of_nat n) (o_flags (new_object k r aud f d owner q))"
    and live: "\<not> o_deleted b"
    by (rule create_success) blast
  have "wubu_cap_validate_audience (new_object k r aud f d owner q) pid"
    using assms(3) flags_new_object [of k r aud f d owner q]
    by (auto simp: wubu_cap_validate_audience_def audience_list_new_object is_public_def
        bit.conj_disj_distrib2)
  with n(5) assms(4) have "grants b pid req"
    by (simp add: grants_def validate_evolves) (simp add: obj_evolves_def)
  moreover have "o_generation b = 1" using live n(5) by (simp add: obj_evolves_def)
  moreover have "(of_nat n :: u32) \<noteq> 0" using n(2,3) by (simp add: unat_eq_0 [symmetric] del: unat_eq_0)
  ultimately show ?thesis using n live by (auto simp: resolve_Some_iff)
qed

text \<open>
  Every refusal of a token that names an existing object is the newest record of the
  denial ring, with the pid, the object's kind, the rights asked for and the first check
  that failed; nothing else of the state changes.
\<close>

lemma refusal_is_audited:
  assumes "cap_inv s" and "wubu_cap_resolve pid tok req s = (None, t)"
    and "wubu_cap_token_idx tok \<noteq> 0" and "obj_at s (wubu_cap_token_idx tok) = Some obj"
  shows "last (map rec_denial (audit_items (g_audit t))) =
       (pid, o_kind obj, req,
        if o_deleted obj \<or> o_generation obj \<noteq> wubu_cap_token_gen tok then WUBU_CAP_CHECK_REVOKED
        else if \<not> wubu_cap_validate_audience obj pid then WUBU_CAP_CHECK_AUDIENCE
        else WUBU_CAP_CHECK_RIGHTS) \<and>
     g_ptrs t = g_ptrs s"
proof -
  have lt: "unat (wubu_cap_token_idx tok) < WUBU_CAP_OBJECT_CAPACITY"
    using assms(1,4) by (rule cap_invD)
  have "g_audit t = audit_push (pid, o_kind obj, req, failed_check obj tok pid) (g_audit s)"
    using resolve_denied [of pid tok req s obj] assms(2-4) lt by simp
  then have "last (map rec_denial (audit_items (g_audit t))) =
      (pid, o_kind obj, req, failed_check obj tok pid)"
    by (simp only: audit.last_items_push [OF cap_invD(3) [OF assms(1)]])
  moreover have "g_ptrs t = g_ptrs s" using assms(2) resolve_ptrs [of pid tok req s] by simp
  ultimately show ?thesis by (simp add: failed_check_def)
qed

text \<open>
  the ring retains the most recent \<open>WUBU_CAP_AUDIT_CAPACITY\<close> denials. After any
  sequence of records, \<open>wubu_cap_audit_at\<close> enumerates exactly the last 256 of them, oldest
  first.
\<close>

lemma audit_keeps_newest:
  "(let a = fold audit_push ds audit_empty
    in map (\<lambda>i. map_option rec_denial (wubu_cap_audit_at a i)) [0..<wubu_cap_audit_count a])
   = map Some (drop (length ds - WUBU_CAP_AUDIT_CAPACITY) ds)"
proof -
  define a where "a ds = fold audit_push ds audit_empty" for ds
  have inv: "audit_inv (a ds)" unfolding a_def by (rule audit.invar_fold_push) simp
  have items: "map rec_denial (audit_items (a ds)) = drop (length ds - WUBU_CAP_AUDIT_CAPACITY) ds"
    using audit.items_fold_push [of audit_empty ds] by (simp add: a_def)
  have len: "wubu_cap_audit_count (a ds) = length (audit_items (a ds))"
    by (simp add: wubu_cap_audit_count_def audit_items_def)
  show ?thesis
    unfolding Let_def a_def [symmetric] items [symmetric] len
    by (rule nth_equalityI) (simp_all add: audit_at_items [OF inv])
qed

text \<open>
  a token carries its three fields without loss: unpacking a packed token gives back
  the generation, the 24-bit index and the flags, and packing the fields of any token
  gives the token.
\<close>

lemma token_roundtrip:
  "wubu_cap_token_gen (wubu_cap_token_pack g i f) = g \<and>
   wubu_cap_token_idx (wubu_cap_token_pack g i f) = take_bit 24 i \<and>
   wubu_cap_token_flags (wubu_cap_token_pack g i f) = f \<and>
   wubu_cap_token_pack (wubu_cap_token_gen t) (wubu_cap_token_idx t) (wubu_cap_token_flags t) = t"
  by (simp add: token_idx_pack_mask token_pack_unpack) (simp only: mask24 take_bit_eq_mask)

section \<open>Bounded printing\<close>

lemma length_put_str:
  "int (length b) < n \<Longrightarrow> int (length (put_str n b xs)) < n"
  by (induction xs arbitrary: b) simp_all

lemma is_cstr_put_str: "is_cstr b \<Longrightarrow> is_cstr xs \<Longrightarrow> is_cstr (put_str n b xs)"
  by (induction xs arbitrary: b) (simp_all add: is_cstr_def)

lemma ten_digits: "48 + ucast ((v :: u32) mod 10) \<noteq> (0 :: u8)"
proof
  assume "48 + ucast (v mod 10) = (0 :: u8)"
  then have "unat (48 + ucast (v mod 10) :: u8) = 0" by simp
  moreover have "unat (v mod 10) < 10" by (simp add: unat_mod_distrib)
  then have "unat (ucast (v mod 10) :: u8) < 10" by (simp add: unsigned_ucast_eq take_bit_nat_eq_self)
  ultimately show False by (simp add: unat_word_ariths)
qed

lemma is_cstr_dec_digits: "is_cstr (dec_digits v)"
  by (induction v rule: dec_digits.induct) (subst dec_digits.simps, simp add: is_cstr_def ten_digits)

lemma hex_digit_nonzero: "hex_digit d \<noteq> 0"
proof -
  have "list_all (\<lambda>c. c \<noteq> 0) (lit ''0123456789abcdef'')" and "length (lit ''0123456789abcdef'') = 16"
    by code_simp+
  moreover have "unat (d AND 15) < 16" using unat_and_mask [of d 4] by (simp add: mask_eq_exp_minus_1)
  ultimately show ?thesis unfolding hex_digit_def by (simp add: list_all_length)
qed

text \<open>The steps of the printer keep the text within the buffer and free of NUL bytes.\<close>

definition printed :: "int \<Rightarrow> bytes \<Rightarrow> bool" where
  "printed n b \<longleftrightarrow> int (length b) < n \<and> is_cstr b"

lemma printed_steps:
  "0 < n \<Longrightarrow> printed n []"
  "printed n b \<Longrightarrow> is_cstr xs \<Longrightarrow> printed n (put_str n b xs)"
  "printed n b \<Longrightarrow> printed n (put_dec n b v)"
  "printed n b \<Longrightarrow> printed n (put_hex2 n b w)"
  "printed n b \<Longrightarrow> c \<noteq> 0 \<Longrightarrow> printed n (if int (length b) < n - 1 then b @ [c] else b)"
proof -
  assume b: "printed n b"
  show "is_cstr xs \<Longrightarrow> printed n (put_str n b xs)"
    using b by (simp add: printed_def length_put_str is_cstr_put_str)
  have "is_cstr (rev (if v = 0 then [48] else dec_digits v))"
    using is_cstr_dec_digits [of v] by (simp add: is_cstr_def)
  then show "printed n (put_dec n b v)"
    using b by (simp add: put_dec_def Let_def printed_def length_put_str is_cstr_put_str del: rev.simps)
  show "printed n (put_hex2 n b w)"
    using b by (auto simp: put_hex2_def Let_def printed_def is_cstr_def hex_digit_nonzero)
  show "c \<noteq> 0 \<Longrightarrow> printed n (if int (length b) < n - 1 then b @ [c] else b)"
    using b by (auto simp: printed_def is_cstr_def)
qed (simp add: printed_def is_cstr_def)

text \<open>
  \<open>wubu_cap_token_describe\<close> never writes outside its buffer: for every token and every
  positive buffer length it writes at most \<open>buflen\<close> bytes, ends them with the only NUL
  byte, and returns the length of the string.
\<close>

lemma describe_in_bounds:
  assumes "wubu_cap_token_describe tok buflen False = (n, out)" and "0 < buflen"
  shows "int (length out) \<le> buflen \<and> n = int (length (cstr out)) \<and> out = cstr out @ [0]"
proof -
  define b where "b = put_hex2 buflen (put_str buflen (put_dec buflen (put_str buflen
    (put_dec buflen (put_str buflen [] (lit ''tok={gen='')) (wubu_cap_token_gen tok)) (lit '',idx=''))
    (wubu_cap_token_idx tok)) (lit '',flags=0x'')) (wubu_cap_token_flags tok)"
  define e where "e = (if int (length b) < buflen - 1 then b @ [125] else b)"
  have lits: "is_cstr (lit ''tok={gen='')" "is_cstr (lit '',idx='')" "is_cstr (lit '',flags=0x'')"
    unfolding is_cstr_def by code_simp+
  have "printed buflen b"
    unfolding b_def using assms(2) by (intro printed_steps lits) simp_all
  then have "printed buflen e" unfolding e_def by (rule printed_steps) simp
  moreover have "n = int (length e)" "out = e @ [0]"
    using assms unfolding wubu_cap_token_describe_def Let_def b_def [symmetric] e_def [symmetric]
    by auto
  ultimately show ?thesis
    by (simp add: printed_def)
qed

section \<open>Slot reuse\<close>

text \<open>
  destroying an object does not retire its tokens. After \<open>wubu_cap_destroy\<close> frees a
  slot, the next \<open>wubu_cap_create\<close> reuses it with generation 1 again, so a token of the
  destroyed capability resolves to the new object: here the token of an object of kind 3
  resolves, for the new owner's pid, to an object of kind 4 it was never issued for.
\<close>

lemma destroy_then_create_revives_token:
  "let s = wubu_cap_destroy 1 demo_root;
       (rc, tok, t) = wubu_cap_create True True 4 0xF (Some [9, -1]) 0 0 9 WUBU_CAP_IDX_NONE s
   in fst (wubu_cap_resolve 5 (wubu_cap_token_pack 1 1 2) 3 s) = None \<and>
      fst (wubu_cap_resolve 9 (wubu_cap_token_pack 1 1 2) 0xF t) = Some 1 \<and>
      map_option o_kind (obj_at t 1) = Some 4"
proof -
  let ?o = "new_object 4 0xF (Some [9, -1]) 0 0 9 WUBU_CAP_IDX_NONE"
  have "audience_list ?o = [9]" by (simp add: audience_list_new_object audience_prefix_def)
  then have "wubu_cap_validate_audience ?o 9" by (simp add: wubu_cap_validate_audience_def)
  then show ?thesis
    by (simp add: wubu_cap_destroy_def demo_root_eq wubu_cap_create_def Let_def
        cap_find_free_slot_locked_def first_from.simps set_obj_def resolve_Some_iff grants_def
        wubu_cap_resolve_def [of 5])
qed

end
