(* ===== verification/Slot_Store.thy ===== *)
theory Slot_Store
  imports Prelude
begin

text \<open>
  The contract several tables of the system promise (handle table, fid table, tag table):
  a finite map with an operation that binds a key that was free and one that frees a key.
  The clients' lemmas are proved once here; each table is an interpretation in its own
  theory.
\<close>

datatype ('k, 'v) act = Put 'k 'v | Del 'k

fun act_map :: "('k, 'v) act \<Rightarrow> ('k \<Rightarrow> 'v option) \<Rightarrow> ('k \<Rightarrow> 'v option)" where
  "act_map (Put k v) m = m(k \<mapsto> v)"
| "act_map (Del k) m = m(k := None)"

text \<open>
  \<open>put v s k t\<close>: storing \<open>v\<close> in state \<open>s\<close> may succeed with key \<open>k\<close> and state \<open>t\<close>.
\<close>

locale slot_store =
  fixes invar :: "'s \<Rightarrow> bool"
    and lookup :: "'s \<Rightarrow> 'k \<Rightarrow> 'v option"
    and put :: "'v \<Rightarrow> 's \<Rightarrow> 'k \<Rightarrow> 's \<Rightarrow> bool"
    and del :: "'k \<Rightarrow> 's \<Rightarrow> 's"
  assumes put_invar: "invar s \<Longrightarrow> put v s k t \<Longrightarrow> invar t"
    and put_fresh: "invar s \<Longrightarrow> put v s k t \<Longrightarrow> lookup s k = None"
    and put_lookup: "invar s \<Longrightarrow> put v s k t \<Longrightarrow> lookup t = (lookup s)(k \<mapsto> v)"
    and del_invar: "invar s \<Longrightarrow> invar (del k s)"
    and del_lookup: "invar s \<Longrightarrow> lookup (del k s) = (lookup s)(k := None)"
begin

inductive run :: "'s \<Rightarrow> ('k, 'v) act list \<Rightarrow> 's \<Rightarrow> bool" where
  run_nil: "run s [] s"
| run_put: "put v s k t \<Longrightarrow> run t as u \<Longrightarrow> run s (Put k v # as) u"
| run_del: "run (del k s) as u \<Longrightarrow> run s (Del k # as) u"

text \<open>Every run refines the same sequence of updates of a finite map.\<close>

lemma run_refines:
  "run s as t \<Longrightarrow> invar s \<Longrightarrow> invar t \<and> lookup t = fold act_map as (lookup s)"
  by (induction rule: run.induct) (auto simp: put_invar put_lookup del_invar del_lookup)

text \<open>A binding survives until its own key is freed, and no put reuses its key.\<close>

lemma run_keeps_binding:
  "run s as t \<Longrightarrow> invar s \<Longrightarrow> lookup s k = Some v \<Longrightarrow> Del k \<notin> set as \<Longrightarrow>
   lookup t k = Some v \<and> (\<forall>w. Put k w \<notin> set as)"
proof (induction rule: run.induct)
  case (run_put w s k' t as u)
  have "k' \<noteq> k" using put_fresh [OF run_put.prems(1) run_put.hyps(1)] run_put.prems(2) by auto
  with run_put show ?case by (auto simp: put_invar put_lookup)
qed (auto simp: del_invar del_lookup)

lemma put_other: "invar s \<Longrightarrow> put v s k t \<Longrightarrow> j \<noteq> k \<Longrightarrow> lookup t j = lookup s j"
  by (simp add: put_lookup)

end

end
