(* ===== verification/Cap_Handle_Facts.thy ===== *)
theory Cap_Handle_Facts
  imports Cap_System Cap_Props Slot_Store
begin

text \<open>
  The handle table keeps its free list and its count exact, provides the contract of a
  slot store, and a closed handle stays closed.
\<close>

section \<open>Rebuilding the free list\<close>

abbreviation nxt_of :: "hentry list \<Rightarrow> u32 \<Rightarrow> u32" where
  "nxt_of es x \<equiv> e_next_free (es ! unat x)"

lemma free_entry_simps [simp]:
  "e_object_idx (free_entry h) = WUBU_CAP_IDX_NONE" "e_local_gen (free_entry h) = 1"
  "e_token_flags (free_entry h) = 0" "e_next_free (free_entry h) = h"
  by (simp_all add: free_entry_def)

lemma length_rebuild_free [simp]: "length (fst (rebuild_free e start n h)) = length e"
  by (induction e start n h rule: rebuild_free.induct) simp_all

lemma rebuild_free_outside:
  "i < start \<or> n \<le> i \<Longrightarrow> fst (rebuild_free e start n h) ! i = e ! i"
  by (induction e start n h rule: rebuild_free.induct) (auto simp: nth_list_update)

lemma rebuild_free_inside:
  "start \<le> i \<Longrightarrow> i < n \<Longrightarrow> n \<le> length e \<Longrightarrow>
   \<exists>h'. fst (rebuild_free e start n h) ! i = free_entry h'"
proof (induction e start n h rule: rebuild_free.induct)
  case (2 e start k head)
  show ?case
  proof (cases "i = k")
    case True
    with 2 show ?thesis by (auto simp: rebuild_free_outside)
  next
    case False
    with 2 show ?thesis by simp
  qed
qed simp

lemma rebuild_free_chain:
  "start \<le> n \<Longrightarrow> n \<le> length e \<Longrightarrow> n \<le> WUBU_CAP_HANDLE_MAX \<Longrightarrow>
   chain (nxt_of e) WUBU_CAP_HANDLE_NONE h xs \<Longrightarrow> (\<And>x. x \<in> set xs \<Longrightarrow> unat x < start \<or> n \<le> unat x) \<Longrightarrow>
   chain (nxt_of (fst (rebuild_free e start n h))) WUBU_CAP_HANDLE_NONE
     (snd (rebuild_free e start n h)) (map of_nat [start..<n] @ xs)"
proof (induction e start n h arbitrary: xs rule: rebuild_free.induct)
  case (2 e start i h)
  show ?case
  proof (cases "start \<le> i")
    case True
    let ?e = "e[i := free_entry h]" and ?i = "of_nat i :: u32"
    have ui: "unat ?i = i" using "2.prems"(3) by simp
    have ne: "unat x \<noteq> i" if "x \<in> set xs" for x using "2.prems"(5) [OF that] True by auto
    have "?i \<noteq> WUBU_CAP_HANDLE_NONE"
    proof
      assume "?i = WUBU_CAP_HANDLE_NONE"
      with ui have "i = unat WUBU_CAP_HANDLE_NONE" by simp
      with "2.prems"(3) show False by simp
    qed
    moreover have "chain (nxt_of ?e) WUBU_CAP_HANDLE_NONE h xs = chain (nxt_of e) WUBU_CAP_HANDLE_NONE h xs"
      using ne by (intro chain_cong) (metis nth_list_update_neq)
    ultimately have "chain (nxt_of ?e) WUBU_CAP_HANDLE_NONE ?i (?i # xs)"
      using "2.prems"(2,4) ui by simp
    then have "chain (nxt_of (fst (rebuild_free ?e start i ?i))) WUBU_CAP_HANDLE_NONE
        (snd (rebuild_free ?e start i ?i)) (map of_nat [start..<i] @ ?i # xs)"
      using "2.prems"(2,3,5) ui True by (intro "2.IH") (auto dest: "2.prems"(5))
    with True show ?thesis by simp
  next
    case False
    with 2 show ?thesis by auto
  qed
qed simp

section \<open>Invariant\<close>

definition live_entry :: "hentry \<Rightarrow> bool" where
  "live_entry e \<longleftrightarrow> e_object_idx e \<noteq> WUBU_CAP_IDX_NONE"

text \<open>The free list visits every unused slot but slot 0 exactly once.\<close>

definition free_ok :: "htable \<Rightarrow> u32 list \<Rightarrow> bool" where
  "free_ok t fs \<longleftrightarrow> chain (nxt_of (t_entries t)) WUBU_CAP_HANDLE_NONE (t_next_free t) fs \<and> distinct fs \<and>
     set fs = {x. 1 \<le> unat x \<and> unat x < t_capacity t \<and> \<not> live_entry (t_entries t ! unat x)}"

definition hinv :: "htable \<Rightarrow> bool" where
  "hinv t \<longleftrightarrow> length (t_entries t) = t_capacity t \<and> 1 \<le> t_capacity t \<and>
     t_capacity t \<le> WUBU_CAP_HANDLE_MAX \<and> \<not> live_entry (t_entries t ! 0) \<and>
     unat (t_count t) = count_if live_entry (t_entries t) \<and> (\<exists>fs. free_ok t fs)"

lemma live_free_entry [simp]: "\<not> live_entry (free_entry h)"
  by (simp add: live_entry_def)

lemma count_live_append:
  assumes "length es = length (xs @ ys)" and "\<And>i. i < length xs \<Longrightarrow> es ! i = xs ! i"
    and "\<And>i. length xs \<le> i \<Longrightarrow> i < length es \<Longrightarrow> \<not> P (es ! i)"
  shows "count_if P es = count_if P xs"
proof -
  have "es = take (length xs) es @ drop (length xs) es" by simp
  moreover have "take (length xs) es = xs" using assms(1,2) by (intro nth_equalityI) auto
  moreover have "count_if P (drop (length xs) es) = 0"
    using assms(1,3) by (auto simp: count_if_zero in_set_conv_nth)
  ultimately show ?thesis by (metis add_0_right count_if_append)
qed

lemma hinv_create:
  "\<exists>t. wubu_cap_handle_table_create True True junk = Some t \<and> hinv t \<and> t_count t = 0 \<and>
    (\<forall>e \<in> set (t_entries t). \<not> live_entry e)"
proof -
  define e0 where "e0 = (map junk [0..<16])[0 := (junk 0)\<lparr>e_object_idx := WUBU_CAP_IDX_NONE,
    e_next_free := WUBU_CAP_HANDLE_NONE\<rparr>]"
  define e where "e = fst (rebuild_free e0 1 16 WUBU_CAP_HANDLE_NONE)"
  define h where "h = snd (rebuild_free e0 1 16 WUBU_CAP_HANDLE_NONE)"
  define t where "t = \<lparr>t_entries = e, t_capacity = 16, t_count = 0, t_next_free = h\<rparr>"
  have len: "length e0 = 16" "length e = 16" by (simp_all add: e0_def e_def)
  have dead: "\<not> live_entry (e ! i)" if "i < 16" for i
  proof (cases "i = 0")
    case True
    then show ?thesis using len(1) rebuild_free_outside [of 0 1 16 e0 WUBU_CAP_HANDLE_NONE]
      by (simp add: e_def live_entry_def) (simp add: e0_def)
  next
    case False
    with that len(1) rebuild_free_inside [of 1 i 16 e0 WUBU_CAP_HANDLE_NONE] show ?thesis
      by (auto simp: e_def)
  qed
  have all_dead: "\<forall>x \<in> set e. \<not> live_entry x" using dead len(2) by (auto simp: in_set_conv_nth)
  have "chain (nxt_of e) WUBU_CAP_HANDLE_NONE h (map of_nat [1..<16])"
    using rebuild_free_chain [of 1 16 e0 WUBU_CAP_HANDLE_NONE "[]"] len(1) by (simp add: e_def h_def)
  moreover have "set (map of_nat [1..<16]) = {x :: u32. 1 \<le> unat x \<and> unat x < 16}"
    and "distinct (map of_nat [1..<16] :: u32 list)" by (rule set_u32_range distinct_u32_range; simp)+
  ultimately have "free_ok t (map of_nat [1..<16])"
    using dead by (auto simp: free_ok_def t_def)
  then have "hinv t" using len all_dead dead [of 0] by (auto simp: hinv_def t_def count_if_zero)
  moreover have "wubu_cap_handle_table_create True True junk = Some t"
    by (simp add: wubu_cap_handle_table_create_def t_def e_def h_def e0_def Let_def split_beta)
  ultimately show ?thesis using all_dead by (simp add: t_def)
qed

text \<open>A successful growth keeps the entries, the count and the invariant and frees slots.\<close>

lemma grow_full: "grow ok junk t = (rc, t') \<Longrightarrow> rc \<noteq> WUBU_CAP_OK \<Longrightarrow> t' = t"
  by (auto simp: grow_def Let_def split_beta split: if_splits)

lemma grow_ok:
  assumes "grow ok junk t = (WUBU_CAP_OK, t')" and "hinv t"
  shows "hinv t'" and "t_capacity t < t_capacity t'" and "t_next_free t' \<noteq> WUBU_CAP_HANDLE_NONE"
    and "\<And>i. i < t_capacity t \<Longrightarrow> t_entries t' ! i = t_entries t ! i"
    and "\<And>i. t_capacity t \<le> i \<Longrightarrow> i < t_capacity t' \<Longrightarrow> \<exists>h. t_entries t' ! i = free_entry h"
proof -
  let ?c = "t_capacity t"
  define n where "n = min (?c * 2) WUBU_CAP_HANDLE_MAX"
  define ne where "ne = t_entries t @ map junk [?c..<n]"
  define e where "e = fst (rebuild_free ne ?c n (t_next_free t))"
  define h where "h = snd (rebuild_free ne ?c n (t_next_free t))"
  have c: "length (t_entries t) = ?c" "1 \<le> ?c" "\<not> live_entry (t_entries t ! 0)"
    "unat (t_count t) = count_if live_entry (t_entries t)"
    using assms(2) by (auto simp: hinv_def)
  have t': "t' = t\<lparr>t_entries := e, t_capacity := n, t_next_free := h\<rparr>" and lt: "?c < WUBU_CAP_HANDLE_MAX"
    using assms(1) unfolding grow_def
    by (auto simp: Let_def split_beta e_def h_def ne_def n_def split: if_splits)
  have n: "?c < n" "n \<le> WUBU_CAP_HANDLE_MAX" using lt c(2) by (auto simp: n_def)
  have len: "length ne = n" "length e = n" using c n by (simp_all add: ne_def e_def)
  show old: "t_entries t' ! i = t_entries t ! i" if "i < ?c" for i
    using that c by (simp add: t' e_def rebuild_free_outside) (simp add: ne_def nth_append)
  show new: "\<exists>h. t_entries t' ! i = free_entry h" if "?c \<le> i" and "i < t_capacity t'" for i
    using that rebuild_free_inside [of ?c i n ne] len by (auto simp: t' e_def)
  obtain fs where fs: "free_ok t fs" using assms(2) by (auto simp: hinv_def)
  have below: "unat x < ?c" if "x \<in> set fs" for x using fs that by (auto simp: free_ok_def)
  have "chain (nxt_of ne) WUBU_CAP_HANDLE_NONE (t_next_free t) fs
      = chain (nxt_of (t_entries t)) WUBU_CAP_HANDLE_NONE (t_next_free t) fs"
    using below c by (intro chain_cong) (simp add: ne_def nth_append)
  then have ch: "chain (nxt_of e) WUBU_CAP_HANDLE_NONE h (map of_nat [?c..<n] @ fs)"
    unfolding e_def h_def using n len(1) fs below by (intro rebuild_free_chain) (auto simp: free_ok_def)
  have rng: "set (map of_nat [?c..<n]) = {x :: u32. ?c \<le> unat x \<and> unat x < n}"
    and dist: "distinct (map of_nat [?c..<n] :: u32 list)"
    using n(2) set_u32_range [of n ?c] distinct_u32_range [of n ?c] by simp_all
  have dead: "\<not> live_entry (e ! i)" if "?c \<le> i" "i < n" for i using new that by (fastforce simp: t')
  have "set (map of_nat [?c..<n] @ fs) = {x. 1 \<le> unat x \<and> unat x < n \<and> \<not> live_entry (e ! unat x)}"
    unfolding set_append rng using fs old dead c(2) n(1)
    by (auto simp: free_ok_def t')
  moreover have "distinct (map of_nat [?c..<n] @ fs)"
    using dist fs below rng by (fastforce simp: free_ok_def)
  ultimately have "free_ok t' (map of_nat [?c..<n] @ fs)" using ch by (simp add: free_ok_def t')
  moreover have "count_if live_entry e = count_if live_entry (t_entries t)"
    using old dead len c n by (intro count_live_append [where ys = "map junk [?c..<n]"]) (auto simp: t')
  ultimately show "hinv t'" using c n len old [of 0] by (auto simp: hinv_def t')
  show "?c < t_capacity t'" using n by (simp add: t')
  show "t_next_free t' \<noteq> WUBU_CAP_HANDLE_NONE"
    using ch n(1) by (auto simp: t' upt_rec [of ?c n])
qed

section \<open>Taking and releasing slots\<close>

definition h_lookup :: "htable \<Rightarrow> u32 \<Rightarrow> (u32 \<times> u8) option" where
  "h_lookup t slot =
     (if unat slot < t_capacity t \<and> live_entry (t_entries t ! unat slot)
      then Some (e_object_idx (t_entries t ! unat slot), e_token_flags (t_entries t ! unat slot))
      else None)"

lemma hinvD:
  "hinv t \<Longrightarrow> length (t_entries t) = t_capacity t" "hinv t \<Longrightarrow> 1 \<le> t_capacity t"
  "hinv t \<Longrightarrow> t_capacity t \<le> WUBU_CAP_HANDLE_MAX" "hinv t \<Longrightarrow> \<not> live_entry (t_entries t ! 0)"
  "hinv t \<Longrightarrow> unat (t_count t) = count_if live_entry (t_entries t)"
  by (simp_all add: hinv_def)

text \<open>The head of the free list is a usable slot.\<close>

lemma free_head:
  assumes "hinv t" and "t_next_free t \<noteq> WUBU_CAP_HANDLE_NONE"
  obtains fs where "free_ok t (t_next_free t # fs)" "1 \<le> unat (t_next_free t)"
    "unat (t_next_free t) < t_capacity t" "\<not> live_entry (t_entries t ! unat (t_next_free t))"
proof -
  obtain fs where fs: "free_ok t fs" using assms(1) by (auto simp: hinv_def)
  with assms(2) obtain gs where "fs = t_next_free t # gs" by (cases fs) (auto simp: free_ok_def)
  with fs have ok: "free_ok t (t_next_free t # gs)" by simp
  then have "t_next_free t \<in> {x. 1 \<le> unat x \<and> unat x < t_capacity t \<and> \<not> live_entry (t_entries t ! unat x)}"
    unfolding free_ok_def by (metis list.set_intros(1))
  with ok that show thesis by blast
qed

lemma take_slot_ok:
  assumes "hinv t" and "t_next_free t \<noteq> WUBU_CAP_HANDLE_NONE" and "obj \<noteq> WUBU_CAP_IDX_NONE"
    and "take_slot obj flags t = (tok, t')"
  shows "hinv t'" and "wubu_cap_token_idx tok = t_next_free t" and "1 \<le> unat (t_next_free t)"
    and "unat (t_next_free t) < t_capacity t"
    and "wubu_cap_token_gen tok = e_local_gen (t_entries t ! unat (t_next_free t))"
    and "h_lookup t (t_next_free t) = None"
    and "h_lookup t' = (h_lookup t)(t_next_free t \<mapsto> (obj, flags))"
proof -
  let ?x = "t_next_free t"
  let ?e = "(t_entries t ! unat ?x)\<lparr>e_object_idx := obj, e_token_flags := flags,
    e_next_free := WUBU_CAP_HANDLE_NONE\<rparr>"
  obtain fs where fs: "free_ok t (?x # fs)" and x: "1 \<le> unat ?x" "unat ?x < t_capacity t"
    and dead: "\<not> live_entry (t_entries t ! unat ?x)"
    using assms(1,2) by (rule free_head)
  note inv = hinvD [OF assms(1)]
  have t': "t' = t\<lparr>t_next_free := nxt_of (t_entries t) ?x, t_entries := (t_entries t)[unat ?x := ?e],
      t_count := t_count t + 1\<rparr>"
    and tok: "tok = wubu_cap_token_pack (e_local_gen (t_entries t ! unat ?x)) ?x flags"
    using assms(4) by (auto simp: take_slot_def Let_def)
  have live: "live_entry ?e" using assms(3) by (simp add: live_entry_def)
  have nin: "?x \<notin> set fs" and chn: "chain (nxt_of (t_entries t)) WUBU_CAP_HANDLE_NONE
      (nxt_of (t_entries t) ?x) fs"
    using fs by (auto simp: free_ok_def)
  have ne: "unat y \<noteq> unat ?x" if "y \<in> set fs" for y using nin that by (metis word_unat_eq_iff)
  have "chain (nxt_of ((t_entries t)[unat ?x := ?e])) WUBU_CAP_HANDLE_NONE (nxt_of (t_entries t) ?x) fs"
    using chn ne by (subst chain_cong [where nxt' = "nxt_of (t_entries t)"]) (metis nth_list_update_neq)+
  moreover have "insert ?x (set fs) = {y. 1 \<le> unat y \<and> unat y < t_capacity t \<and>
      \<not> live_entry (t_entries t ! unat y)}"
    using fs by (simp add: free_ok_def)
  then have "set fs = {y. 1 \<le> unat y \<and> unat y < t_capacity t \<and> \<not> live_entry (t_entries t ! unat y)} - {?x}"
    using nin by blast
  then have "set fs = {y. 1 \<le> unat y \<and> unat y < t_capacity t \<and>
      \<not> live_entry ((t_entries t)[unat ?x := ?e] ! unat y)}"
    using live x inv by (auto simp: nth_list_update word_unat_eq_iff [symmetric])
  ultimately have "free_ok t' fs" using fs by (simp add: free_ok_def t')
  moreover have "count_if live_entry ((t_entries t)[unat ?x := ?e]) = Suc (count_if live_entry (t_entries t))"
    using live dead x inv by (intro count_if_set) simp_all
  moreover have "unat (t_count t + 1) = Suc (unat (t_count t))"
    using inv count_if_le_length [of live_entry "t_entries t"] by (simp add: unat_word_ariths)
  ultimately show "hinv t'" using inv x by (auto simp: hinv_def t')
  show "wubu_cap_token_idx tok = ?x" using x inv by (simp add: tok)
  show "wubu_cap_token_gen tok = e_local_gen (t_entries t ! unat ?x)" by (simp add: tok)
  show "h_lookup t ?x = None" using dead by (simp add: h_lookup_def)
  show "h_lookup t' = (h_lookup t)(?x \<mapsto> (obj, flags))"
    using x inv live
    by (intro ext) (auto simp: h_lookup_def t' nth_list_update word_unat_eq_iff [symmetric])
qed (use assms free_head in blast)+

lemma release_slot_ok:
  assumes "hinv t" and "unat x < t_capacity t" and "live_entry (t_entries t ! unat x)"
  shows "hinv (release_slot x t)" and "h_lookup (release_slot x t) = (h_lookup t)(x := None)"
proof -
  let ?e = "(t_entries t ! unat x)\<lparr>e_object_idx := WUBU_CAP_IDX_NONE,
    e_local_gen := e_local_gen (t_entries t ! unat x) + 1, e_token_flags := 0,
    e_next_free := t_next_free t\<rparr>"
  let ?es = "(t_entries t)[unat x := ?e]"
  note inv = hinvD [OF assms(1)]
  have t': "release_slot x t = t\<lparr>t_entries := ?es, t_next_free := x, t_count := t_count t - 1\<rparr>"
    by (simp add: release_slot_def Let_def)
  have dead: "\<not> live_entry ?e" by (simp add: live_entry_def)
  have pos: "1 \<le> unat x" using assms(3) inv(4) by (cases "unat x") auto
  obtain fs where fs: "free_ok t fs" using assms(1) by (auto simp: hinv_def)
  have nin: "x \<notin> set fs" using fs assms(3) by (auto simp: free_ok_def)
  have ne: "unat y \<noteq> unat x" if "y \<in> set fs" for y using nin that by (metis word_unat_eq_iff)
  have "chain (nxt_of ?es) WUBU_CAP_HANDLE_NONE (t_next_free t) fs
      = chain (nxt_of (t_entries t)) WUBU_CAP_HANDLE_NONE (t_next_free t) fs"
    using ne by (intro chain_cong) (metis nth_list_update_neq)
  with fs have "chain (nxt_of ?es) WUBU_CAP_HANDLE_NONE (t_next_free t) fs" by (simp add: free_ok_def)
  moreover have "x \<noteq> WUBU_CAP_HANDLE_NONE"
  proof
    assume "x = WUBU_CAP_HANDLE_NONE"
    then show False using assms(2) inv(3) by simp
  qed
  ultimately have "chain (nxt_of ?es) WUBU_CAP_HANDLE_NONE x (x # fs)"
    using assms(2) inv(1) by simp
  moreover have "set (x # fs) = {y. 1 \<le> unat y \<and> unat y < t_capacity t \<and> \<not> live_entry (?es ! unat y)}"
    using fs dead pos assms(2,3) inv(1) by (auto simp: free_ok_def nth_list_update word_unat_eq_iff [symmetric])
  ultimately have "free_ok (release_slot x t) (x # fs)" using fs nin by (simp add: free_ok_def t')
  moreover have cnt: "Suc (count_if live_entry ?es) = count_if live_entry (t_entries t)"
    using assms dead inv(1) by (intro count_if_clear) simp_all
  then have "t_count t \<noteq> 0" using inv(5) by (metis nat.distinct(1) unat_eq_0)
  then have "unat (t_count t - 1) = count_if live_entry ?es" using cnt inv(5) by (simp add: unat_minus_one)
  ultimately show "hinv (release_slot x t)" using inv pos by (auto simp: hinv_def t')
  show "h_lookup (release_slot x t) = (h_lookup t)(x := None)"
    using dead assms(2) inv(1) by (intro ext) (auto simp: h_lookup_def t' nth_list_update word_unat_eq_iff [symmetric])
qed

text \<open>What an insertion that returns a token did.\<close>

lemma h_lookup_grow:
  assumes "grow ok junk t = (WUBU_CAP_OK, t')" and "hinv t"
  shows "h_lookup t' = h_lookup t"
proof
  fix x
  show "h_lookup t' x = h_lookup t x"
  proof (cases "unat x < t_capacity t")
    case True
    with grow_ok [OF assms] show ?thesis by (auto simp: h_lookup_def)
  next
    case False
    then show ?thesis using grow_ok(5) [OF assms, of "unat x"] by (fastforce simp: h_lookup_def)
  qed
qed

lemma insert_cases:
  assumes "wubu_cap_handle_insert ok junk (Some t) obj flags = (tok, r)"
  obtains (refused) "tok = WUBU_CAP_TOKEN_NULL" "r = Some t"
  | (taken) t1 t' where "obj \<noteq> WUBU_CAP_IDX_NONE" "take_slot obj flags t1 = (tok, t')" "r = Some t'"
      "t1 = t \<and> t_next_free t \<noteq> WUBU_CAP_HANDLE_NONE \<or> grow ok junk t = (WUBU_CAP_OK, t1)"
proof (cases "obj = WUBU_CAP_IDX_NONE")
  case True
  with assms refused show ?thesis by (simp add: wubu_cap_handle_insert_def)
next
  case False
  obtain rc t1 where g: "grow ok junk t = (rc, t1)" by fastforce
  obtain a b where ab: "take_slot obj flags t = (a, b)" by fastforce
  obtain c d where cd: "take_slot obj flags t1 = (c, d)" by fastforce
  note simps = wubu_cap_handle_insert_def False g ab cd
  show ?thesis
  proof (cases "t_next_free t = WUBU_CAP_HANDLE_NONE")
    case True
    show ?thesis
    proof (cases "rc = WUBU_CAP_OK")
      case ok: True
      with True assms have "c = tok" "r = Some d" by (simp_all add: simps)
      with cd g ok taken [OF False, of t1 d] show ?thesis by simp
    next
      case nok: False
      with True assms show ?thesis by (auto simp: simps dest: grow_full [OF g] intro: refused)
    qed
  next
    case nonfull: False
    with assms have "a = tok" "r = Some b" by (simp_all add: simps)
    with ab nonfull taken [OF False, of t b] show ?thesis by simp
  qed
qed

lemma insert_ok:
  assumes "wubu_cap_handle_insert ok junk (Some t) obj flags = (tok, Some t')" and "hinv t"
    and "\<not> wubu_cap_token_is_null tok"
  shows "hinv t'" and "h_lookup t (wubu_cap_token_idx tok) = None"
    and "h_lookup t' = (h_lookup t)(wubu_cap_token_idx tok \<mapsto> (obj, flags))"
    and "wubu_cap_token_gen tok = e_local_gen (t_entries t' ! unat (wubu_cap_token_idx tok))"
    and "unat (wubu_cap_token_idx tok) < t_capacity t'"
proof -
  from assms(1) obtain t1 where t1: "obj \<noteq> WUBU_CAP_IDX_NONE" "take_slot obj flags t1 = (tok, t')"
    and g: "t1 = t \<and> t_next_free t \<noteq> WUBU_CAP_HANDLE_NONE \<or> grow ok junk t = (WUBU_CAP_OK, t1)"
  proof (cases rule: insert_cases)
    case refused
    then show ?thesis using assms(3) by (simp add: wubu_cap_token_is_null_def wubu_cap_token_idx_def)
  qed auto
  have ok1: "hinv t1" "t_next_free t1 \<noteq> WUBU_CAP_HANDLE_NONE" "h_lookup t1 = h_lookup t"
    using g assms(2) grow_ok(1,3) h_lookup_grow by auto
  note ts = take_slot_ok [OF ok1(1,2) t1]
  show "hinv t'" by (rule ts)
  show "h_lookup t (wubu_cap_token_idx tok) = None" using ts ok1(3) by simp
  show "h_lookup t' = (h_lookup t)(wubu_cap_token_idx tok \<mapsto> (obj, flags))" using ts ok1(3) by simp
  show "wubu_cap_token_gen tok = e_local_gen (t_entries t' ! unat (wubu_cap_token_idx tok))"
    "unat (wubu_cap_token_idx tok) < t_capacity t'"
    using ts t1(2) hinvD(1) [OF ok1(1)] by (auto simp: take_slot_def Let_def)
qed

lemma insert_inv [inv_intros]:
  assumes "wubu_cap_handle_insert ok junk (Some t) obj flags = (tok, r)" and "hinv t"
  shows "\<exists>t'. r = Some t' \<and> hinv t'"
  using assms(1)
proof (cases rule: insert_cases)
  case (taken t1 t')
  then have "hinv t1 \<and> t_next_free t1 \<noteq> WUBU_CAP_HANDLE_NONE" using assms(2) grow_ok(1,3) by auto
  with taken show ?thesis using take_slot_ok(1) by blast
qed (use assms(2) in simp)

section \<open>The contract\<close>

definition h_put :: "u32 \<times> u8 \<Rightarrow> htable \<Rightarrow> u32 \<Rightarrow> htable \<Rightarrow> bool" where
  "h_put v t slot t' \<longleftrightarrow> (\<exists>ok junk tok. \<not> wubu_cap_token_is_null tok \<and> slot = wubu_cap_token_idx tok \<and>
     wubu_cap_handle_insert ok junk (Some t) (fst v) (snd v) = (tok, Some t'))"

definition h_del :: "u32 \<Rightarrow> htable \<Rightarrow> htable" where
  "h_del slot t = the (snd (wubu_cap_handle_close_slot (Some t) slot))"

lemma close_live:
  assumes "unat (wubu_cap_token_idx tok) < t_capacity t" and "live_entry (t_entries t ! unat (wubu_cap_token_idx tok))"
  shows "wubu_cap_handle_close (Some t) tok = (WUBU_CAP_OK, Some (release_slot (wubu_cap_token_idx tok) t))"
  using assms by (simp add: wubu_cap_handle_close_def live_entry_def Let_def)

lemma close_dead:
  assumes "\<not> (unat (wubu_cap_token_idx tok) < t_capacity t \<and> live_entry (t_entries t ! unat (wubu_cap_token_idx tok)))"
  shows "wubu_cap_handle_close (Some t) tok = (WUBU_CAP_EINVAL, Some t)"
  using assms by (auto simp: wubu_cap_handle_close_def live_entry_def Let_def)

lemma h_del_eq:
  assumes "hinv t"
  shows "h_del x t = (if unat x < t_capacity t \<and> live_entry (t_entries t ! unat x) then release_slot x t else t)"
proof (cases "unat x < t_capacity t \<and> live_entry (t_entries t ! unat x)")
  case True
  then have "\<not> x < 1" using hinvD(4) [OF assms] by (cases "x = 0") (auto simp: word_less_nat_alt unat_gt_0)
  moreover have "unat x < 65536" using True hinvD(3) [OF assms] by simp
  ultimately show ?thesis
    using True close_live [of "wubu_cap_token_pack _ x _"]
    by (simp add: h_del_def wubu_cap_handle_close_slot_def Let_def live_entry_def)
next
  case False
  then show ?thesis by (auto simp: h_del_def wubu_cap_handle_close_slot_def Let_def live_entry_def)
qed

interpretation handles: slot_store hinv h_lookup h_put h_del
proof (unfold_locales, goal_cases)
  case (1 s v k t) then show ?case using insert_ok(1) by (auto simp: h_put_def)
next
  case (2 s v k t) then show ?case using insert_ok(2) by (auto simp: h_put_def)
next
  case (3 s v k t) then show ?case using insert_ok(3) by (fastforce simp: h_put_def)
next
  case (4 s k) then show ?case by (simp add: h_del_eq release_slot_ok)
next
  case (5 s k) then show ?case
    by (auto simp: h_del_eq release_slot_ok) (auto simp: h_lookup_def)
qed

section \<open>Generations\<close>

text \<open>One operation on a handle table; \<open>h_steps n\<close> is a run of \<open>n\<close> operations.\<close>

inductive h_step :: "htable \<Rightarrow> htable \<Rightarrow> bool" where
  h_insert: "wubu_cap_handle_insert ok junk (Some t) obj flags = (tok, Some t') \<Longrightarrow> h_step t t'"
| h_close: "wubu_cap_handle_close (Some t) tok = (rc, Some t') \<Longrightarrow> h_step t t'"

lemma close_inv [inv_intros]:
  assumes "wubu_cap_handle_close (Some t) tok = (rc, Some t')" and "hinv t"
  shows "hinv t'"
  using assms close_dead [of tok t] close_live [of tok t] release_slot_ok(1) [of t "wubu_cap_token_idx tok"]
  by (metis (no_types, lifting) Pair_inject option.inject)

lemma h_step_inv: "h_step t t' \<Longrightarrow> hinv t \<Longrightarrow> hinv t'"
  by (induction rule: h_step.induct) (auto dest: insert_inv close_inv)

text \<open>A step leaves the generation of a slot alone or adds one to it.\<close>

abbreviation gen_at :: "htable \<Rightarrow> nat \<Rightarrow> u32" where
  "gen_at t i \<equiv> e_local_gen (t_entries t ! i)"

lemma take_slot_gen:
  "take_slot obj flags t = (tok, t') \<Longrightarrow> length (t_entries t') = length (t_entries t) \<and>
   t_capacity t' = t_capacity t \<and> gen_at t' i = gen_at t i"
  by (cases "i = unat (t_next_free t)"; cases "i < length (t_entries t)")
     (auto simp: take_slot_def Let_def list_update_beyond)

lemma h_step_gen:
  assumes "h_step t t'" and "hinv t" and "i < t_capacity t"
  shows "i < t_capacity t' \<and> (gen_at t' i = gen_at t i \<or> gen_at t' i = gen_at t i + 1)"
  using assms(1)
proof (cases rule: h_step.cases)
  case (h_insert ok junk obj flags tok)
  from h_insert(1) show ?thesis
  proof (cases rule: insert_cases)
    case (taken t1 t2)
    then show ?thesis
      using assms(2,3) grow_ok(2,4) [of ok junk t t1] take_slot_gen [of obj flags t1 tok t2 i] by force
  qed (use assms(3) in simp)
next
  case (h_close tok rc)
  show ?thesis
  proof (cases "unat (wubu_cap_token_idx tok) < t_capacity t \<and>
      live_entry (t_entries t ! unat (wubu_cap_token_idx tok))")
    case True
    with h_close close_live [of tok t] have "t' = release_slot (wubu_cap_token_idx tok) t" by simp
    with True assms(3) hinvD(1) [OF assms(2)] show ?thesis
      by (cases "i = unat (wubu_cap_token_idx tok)") (simp_all add: release_slot_def Let_def)
  next
    case False
    with h_close close_dead [of tok t] assms(3) show ?thesis by simp
  qed
qed

lemma h_steps_gen:
  "(h_step ^^ n) t t' \<Longrightarrow> hinv t \<Longrightarrow> i < t_capacity t \<Longrightarrow>
   hinv t' \<and> i < t_capacity t' \<and> (\<exists>k \<le> n. gen_at t' i = gen_at t i + of_nat k)"
proof (induction n arbitrary: t')
  case 0
  then show ?case by simp
next
  case (Suc n)
  from Suc.prems(1) obtain u where u: "(h_step ^^ n) t u" "h_step u t'" by auto
  with Suc obtain k where k: "hinv u" "i < t_capacity u" "k \<le> n" "gen_at u i = gen_at t i + of_nat k"
    by blast
  from h_step_gen [OF u(2) k(1,2)] show ?case
  proof (elim conjE disjE)
    assume "i < t_capacity t'" "gen_at t' i = gen_at u i"
    with k h_step_inv [OF u(2)] show ?thesis by (auto intro: exI [of _ k])
  next
    assume "i < t_capacity t'" "gen_at t' i = gen_at u i + 1"
    with k h_step_inv [OF u(2)] show ?thesis by (auto intro!: exI [of _ "Suc k"] simp: algebra_simps)
  qed
qed

text \<open>A token resolves through a table only while its slot is live with the same generation.\<close>

lemma handle_resolve_stale:
  "gen_at t (unat (wubu_cap_token_idx tok)) \<noteq> wubu_cap_token_gen tok \<Longrightarrow>
   wubu_cap_handle_resolve (Some t) pid tok req s = Some (None, s)"
  by (simp add: wubu_cap_handle_resolve_def Let_def)

text \<open>The object indices a table holds are slots of the registry.\<close>

definition objects_ok :: "htable \<Rightarrow> bool" where
  "objects_ok t \<longleftrightarrow> (\<forall>e \<in> set (t_entries t). live_entry e \<longrightarrow> unat (e_object_idx e) < WUBU_CAP_OBJECT_CAPACITY)"

lemma handle_resolve_live:
  assumes "hinv t" and "objects_ok t" and "h_lookup t (wubu_cap_token_idx tok) = Some (idx, flags)"
    and "gen_at t (unat (wubu_cap_token_idx tok)) = wubu_cap_token_gen tok"
  shows "wubu_cap_handle_resolve (Some t) pid tok req s = Some (wubu_cap_resolve pid
    (wubu_cap_token_pack (case obj_at s idx of Some obj \<Rightarrow> o_generation obj | None \<Rightarrow> 0) idx flags) req s)"
    and "unat idx < WUBU_CAP_OBJECT_CAPACITY"
proof -
  let ?e = "t_entries t ! unat (wubu_cap_token_idx tok)"
  have l: "unat (wubu_cap_token_idx tok) < t_capacity t" "live_entry ?e" "idx = e_object_idx ?e"
    "flags = e_token_flags ?e"
    using assms(3) by (auto simp: h_lookup_def split: if_splits)
  then show lt: "unat idx < WUBU_CAP_OBJECT_CAPACITY"
    using assms(2) hinvD(1) [OF assms(1)] by (auto simp: objects_ok_def)
  show "wubu_cap_handle_resolve (Some t) pid tok req s = Some (wubu_cap_resolve pid
    (wubu_cap_token_pack (case obj_at s idx of Some obj \<Rightarrow> o_generation obj | None \<Rightarrow> 0) idx flags) req s)"
    using l lt assms(4) by (simp add: wubu_cap_handle_resolve_def live_entry_def Let_def)
qed

section \<open>Properties\<close>

text \<open>A table after one insertion of object 1, as the witnesses use it.\<close>

definition demo_table :: "htable option" where
  "demo_table = snd (wubu_cap_handle_insert True (\<lambda>_. free_entry 0)
     (wubu_cap_handle_table_create True True (\<lambda>_. free_entry 0)) 1 0)"

lemma demo_table_eq: "demo_table = Some \<lparr>t_entries = free_entry (-1) #
    \<lparr>e_object_idx = 1, e_local_gen = 1, e_token_flags = 0, e_next_free = -1\<rparr> #
    map (\<lambda>i. free_entry (if i = 15 then -1 else of_nat i + 1)) [2..<16],
    t_capacity = 16, t_count = 1, t_next_free = 2\<rparr>"
  by code_simp

lemma hinv_demo: "\<exists>t tok. demo_table = Some t \<and> hinv t \<and>
    wubu_cap_handle_insert True (\<lambda>_. free_entry 0)
      (wubu_cap_handle_table_create True True (\<lambda>_. free_entry 0)) 1 0 = (tok, Some t)"
proof -
  obtain t0 where t0: "wubu_cap_handle_table_create True True (\<lambda>_. free_entry 0) = Some t0" "hinv t0"
    using hinv_create by blast
  obtain tok r where r: "wubu_cap_handle_insert True (\<lambda>_. free_entry 0) (Some t0) 1 0 = (tok, r)"
    by fastforce
  with insert_inv [OF r t0(2)] t0(1) show ?thesis by (auto simp: demo_table_def)
qed

text \<open>
  C5: the handle table is a finite map. Any run of insertions and closings keeps the
  table's invariant (exact free list, exact count, bounded capacity) and acts on the
  slot-to-object map exactly as the same sequence of updates; a slot is handed out only
  while it is free.
\<close>

theorem handle_table_refines_map:
  assumes "handles.run t as t'" and "hinv t"
  shows "hinv t' \<and> h_lookup t' = fold act_map as (h_lookup t)"
  using assms by (rule handles.run_refines)

theorem handle_table_refines_map_witness:
  "h_lookup (h_del 1 (the demo_table)) 1 = None"
proof -
  obtain t where t: "demo_table = Some t" "hinv t" using hinv_demo by blast
  have "handles.run t [Del 1] (h_del 1 t)" by (intro handles.run_del handles.run_nil)
  from handle_table_refines_map [OF this t(2)] show ?thesis unfolding t(1) by simp
qed

text \<open>
  a closed handle stays closed. After a token's handle is closed, resolving that
  token fails in every later state of the table, for at least \<open>2^32 - 2\<close> further
  operations (the slot's 32-bit generation cannot have come back to the token's).
\<close>

lemma closed_handle_stays_closed:
  assumes "hinv t" and "wubu_cap_handle_close (Some t) tok = (WUBU_CAP_OK, Some t1)"
    and "gen_at t (unat (wubu_cap_token_idx tok)) = wubu_cap_token_gen tok"
    and "(h_step ^^ n) t1 t2" and "n < 2 ^ 32 - 1"
  shows "wubu_cap_handle_resolve (Some t2) pid tok req s = Some (None, s)"
proof (rule handle_resolve_stale)
  let ?i = "unat (wubu_cap_token_idx tok)"
  have live: "?i < t_capacity t" "live_entry (t_entries t ! ?i)"
    using assms(2) close_dead [of tok t] by auto
  then have t1: "t1 = release_slot (wubu_cap_token_idx tok) t" using assms(2) close_live by simp
  then have g1: "hinv t1" "?i < t_capacity t1" "gen_at t1 ?i = gen_at t ?i + 1"
    using live release_slot_ok(1) [OF assms(1) live] hinvD(1) [OF assms(1)]
    by (simp_all add: release_slot_def Let_def)
  from h_steps_gen [OF assms(4) g1(1,2)] obtain k where k: "k \<le> n" "gen_at t2 ?i = gen_at t1 ?i + of_nat k"
    by blast
  show "gen_at t2 ?i \<noteq> wubu_cap_token_gen tok"
  proof
    assume "gen_at t2 ?i = wubu_cap_token_gen tok"
    with k g1 assms(3) have "(of_nat (Suc k) :: u32) = 0" by (simp add: algebra_simps)
    then have "unat (of_nat (Suc k) :: u32) = 0" by simp
    moreover have "unat (of_nat (Suc k) :: u32) = Suc k" using k(1) assms(5) by (intro unat_of_nat_u32) simp
    ultimately show False by simp
  qed
qed

text \<open>
  Resolving a handle is the registry's check. For a table that names registry slots
  only, a resolution never reads outside the registry, and it succeeds exactly when the
  token's slot is live with the token's generation and its object exists, is not revoked,
  admits the pid and covers the rights.
\<close>

lemma handle_resolve_correct:
  assumes "hinv t" and "objects_ok t"
  shows "\<exists>res s'. wubu_cap_handle_resolve (Some t) pid tok req s = Some (res, s') \<and>
     (\<forall>idx. res = Some idx \<longleftrightarrow> idx \<noteq> 0 \<and>
        wubu_cap_token_gen tok = e_local_gen (t_entries t ! unat (wubu_cap_token_idx tok)) \<and>
        (\<exists>flags obj. h_lookup t (wubu_cap_token_idx tok) = Some (idx, flags) \<and> obj_at s idx = Some obj \<and>
          \<not> o_deleted obj \<and> wubu_cap_validate_audience obj pid \<and> o_rights obj AND req = req))"
proof (cases "h_lookup t (wubu_cap_token_idx tok)")
  case None
  then show ?thesis by (auto simp: wubu_cap_handle_resolve_def h_lookup_def live_entry_def Let_def split: if_splits)
next
  case (Some v)
  obtain idx flags where v: "v = (idx, flags)" by fastforce
  show ?thesis
  proof (cases "gen_at t (unat (wubu_cap_token_idx tok)) = wubu_cap_token_gen tok")
    case True
    note r = handle_resolve_live [OF assms Some [unfolded v] True]
    define gen where "gen = (case obj_at s idx of Some obj \<Rightarrow> o_generation obj | None \<Rightarrow> 0)"
    obtain res s' where rs: "wubu_cap_resolve pid (wubu_cap_token_pack gen idx flags) req s = (res, s')"
      by fastforce
    have "res = Some i \<longleftrightarrow> i = idx \<and> i \<noteq> 0 \<and> (\<exists>obj. obj_at s i = Some obj \<and> \<not> o_deleted obj \<and>
        wubu_cap_validate_audience obj pid \<and> o_rights obj AND req = req)" for i
      using resolve_Some_iff [of pid "wubu_cap_token_pack gen idx flags" req s i] rs r(2)
      by (auto simp: grants_def gen_def)
    with rs r(1) Some v True show ?thesis by (auto simp: gen_def)
  next
    case False
    then show ?thesis by (auto simp: handle_resolve_stale)
  qed
qed

text \<open>
  C6: revoking through one handle revokes for every holder. After
  \<open>wubu_cap_handle_revoke_by_slot\<close> succeeds, a handle of any process's table that names
  the same object resolves for nobody, after any further registry operations, until the object
  is destroyed.
\<close>

theorem revoke_by_slot_reaches_all_holders:
  assumes "hinv t" and "h_lookup t slot = Some (idx, flags)"
    and "wubu_cap_handle_revoke_by_slot (Some t) slot s = Some (WUBU_CAP_OK, s1)" and "Op_destroy idx \<notin> set ops"
    and "hinv t'" and "objects_ok t'" and "h_lookup t' (wubu_cap_token_idx tok) = Some (idx, flags')"
  shows "\<exists>s3. wubu_cap_handle_resolve (Some t') pid tok req (fold cap_exec ops s1) = Some (None, s3)"
proof (cases "gen_at t' (unat (wubu_cap_token_idx tok)) = wubu_cap_token_gen tok")
  case True
  note r = handle_resolve_live [OF assms(5-7) True]
  have e: "e_object_idx (t_entries t ! unat slot) = idx" "e_token_flags (t_entries t ! unat slot) = flags"
    using assms(2) by (auto simp: h_lookup_def split: if_splits)
  have "\<exists>(obj :: cap_object) rc. wubu_cap_revoke (wubu_cap_token_pack (o_generation obj) idx flags) s = (rc, s1) \<and> \<not> rc < 0"
    using assms(3) e
    by (auto simp: wubu_cap_handle_revoke_by_slot_def Let_def split: option.splits if_splits prod.splits)
  then obtain obj :: cap_object and rc where "wubu_cap_revoke (wubu_cap_token_pack (o_generation obj) idx flags) s = (rc, s1)"
    and "\<not> rc < 0" by blast
  moreover from this have "1 \<le> rc" by (auto elim: revoke_cases)
  ultimately have "fst (wubu_cap_resolve pid (wubu_cap_token_pack gen idx flags') req (fold cap_exec ops s1)) = None" for gen
    using r(2) assms(4) by (intro revoke_permanent_rule) auto
  then show ?thesis unfolding r(1) by (metis prod.collapse)
next
  case False
  then show ?thesis by (simp add: handle_resolve_stale)
qed

theorem revoke_by_slot_reaches_all_holders_witness:
  "\<exists>s3. wubu_cap_handle_resolve demo_table 5 (wubu_cap_token_pack 1 1 0) 1
     (snd (the (wubu_cap_handle_revoke_by_slot demo_table 1 demo_root))) = Some (None, s3)"
proof -
  obtain t where t: "demo_table = Some t" "hinv t" using hinv_demo by blast
  have ok: "objects_ok t" and e: "t_entries t ! 1 = \<lparr>e_object_idx = 1, e_local_gen = 1, e_token_flags = 0,
      e_next_free = -1\<rparr>" "t_capacity t = 16"
    using t(1) unfolding demo_table_eq by (auto simp: objects_ok_def live_entry_def)
  have l: "h_lookup t 1 = Some (1, 0)" using e by (simp add: h_lookup_def live_entry_def)
  obtain s1 where s1: "wubu_cap_handle_revoke_by_slot (Some t) 1 demo_root = Some (WUBU_CAP_OK, s1)"
    using e by (auto simp: wubu_cap_handle_revoke_by_slot_def Let_def demo_root_eq demo_root_obj_eq
      wubu_cap_revoke_def is_immortal_def split_beta)
  have l': "h_lookup t (wubu_cap_token_idx (wubu_cap_token_pack 1 1 0)) = Some (1, 0)" using l by simp
  show ?thesis
    unfolding t(1) s1 using revoke_by_slot_reaches_all_holders [OF t(2) l s1 _ t(2) ok l', of "[]"] by simp
qed

section \<open>Divergences\<close>

text \<open>
  \<open>wubu_cap_handle_close\<close> does not compare generations: a stale token closes whatever
  handle now occupies its slot. Here the handle of token (generation 1, slot 1) is closed,
  slot 1 is handed out again with generation 2, and the first token closes that one too.
\<close>

lemma stale_token_closes_new_handle:
  "let old = wubu_cap_token_pack 1 1 0;
       t1 = snd (wubu_cap_handle_close demo_table old);
       (new, t2) = wubu_cap_handle_insert True (\<lambda>_. free_entry 0) t1 7 0;
       (rc, t3) = wubu_cap_handle_close t2 old
   in wubu_cap_token_gen new = 2 \<and> wubu_cap_token_idx new = 1 \<and>
      wubu_cap_handle_slot_live t2 1 \<and> rc = WUBU_CAP_OK \<and> \<not> wubu_cap_handle_slot_live t3 1"
  by code_simp

text \<open>
  \<open>wubu_cap_handle_resolve_kind\<close> does not look for \<open>any\<close> covering handle: the first live
  handle of the kind decides. Here a process holds two handles of kind 3 for itself, the
  second of which covers the right 2, and the gate refuses.
\<close>

lemma kind_gate_stops_at_first_handle:
  "let mk = (\<lambda>_. free_entry 0);
       t1 = snd (wubu_cap_handle_insert True mk (wubu_cap_handle_table_create True True mk) 2 0);
       t2 = snd (wubu_cap_handle_insert True mk t1 1 0)
   in map_option fst (wubu_cap_handle_resolve_kind t2 5 3 2 demo_child) = Some WUBU_CAP_EPERM \<and>
      map_option fst (wubu_cap_handle_resolve t2 5 (wubu_cap_token_pack 1 2 0) 2 demo_child) = Some (Some 1)"
proof -
  define mk :: "nat \<Rightarrow> hentry" where "mk = (\<lambda>_. free_entry 0)"
  let ?h = "\<lambda>i n. \<lparr>e_object_idx = i, e_local_gen = 1, e_token_flags = 0, e_next_free = n\<rparr>"
  have "snd (wubu_cap_handle_insert True mk (snd (wubu_cap_handle_insert True mk
      (wubu_cap_handle_table_create True True mk) 2 0)) 1 0) =
    Some \<lparr>t_entries = ?h (-1) (-1) # ?h 2 (-1) # ?h 1 (-1) #
      map (\<lambda>i. free_entry (if i = 15 then -1 else of_nat i + 1)) [3..<16],
      t_capacity = 16, t_count = 2, t_next_free = 3\<rparr>"
    unfolding mk_def by code_simp
  then show ?thesis
    unfolding mk_def
    by (simp add: Let_def wubu_cap_handle_resolve_kind_def wubu_cap_handle_resolve_def demo_derive(2)
        demo_child_obj_def demo_root_obj_eq wubu_cap_resolve_def wubu_cap_token_is_null_def
        is_public_def audience_list_def)
qed

section \<open>The system capability\<close>

definition system_boot :: system_state where
  "system_boot = wubu_cap_system_init True True \<lparr>y_caps = cap_state_empty, g_bootcap_idx = WUBU_CAP_IDX_NONE\<rparr>"

definition boot_obj :: cap_object where
  "boot_obj = \<lparr>o_kind = 9, o_deleted = False, o_generation = 1, o_rights = WUBU_RIGHTS_ALL, o_kind_data = 0,
     o_audience_set = replicate 8 (-1), o_audience_count = 0, o_flags = 3,
     o_parent_idx = WUBU_CAP_IDX_NONE, o_owner_pid = -1, o_first_child_idx = WUBU_CAP_IDX_NONE,
     o_next_sibling_idx = WUBU_CAP_IDX_NONE\<rparr>"

lemma boot_new_object: "new_object 9 WUBU_RIGHTS_ALL (Some [-1]) 3 0 (-1) WUBU_CAP_IDX_NONE = boot_obj"
  by code_simp

lemma system_boot_eq: "system_boot = \<lparr>y_caps = \<lparr>g_ptrs = [0 \<mapsto> cap_sentinel, 1 \<mapsto> boot_obj],
    g_cap_count = 2, g_audit = audit_empty\<rparr>, g_bootcap_idx = 1\<rparr>"
  using boot_new_object
  by (simp add: system_boot_def wubu_cap_system_init_def wubu_cap_create_def wubu_cap_init_def
      cap_state_empty_def Let_def cap_find_free_slot_locked_def first_from.simps set_obj_def)

text \<open>The object a process's system capability is.\<close>

definition sub_obj :: "i32 \<Rightarrow> u64 \<Rightarrow> cap_object" where
  "sub_obj pid r = new_object 9 r (Some [pid, -1, -1, -1, -1, -1, -1, -1]) 0 0 (-1) 1"

lemma rights_all_and [simp]:
  "WUBU_RIGHTS_ALL AND r = r" "r AND NOT WUBU_RIGHTS_ALL = 0" "(r :: u64) AND - 18446744073709551616 = 0"
proof -
  have zero: "(- 18446744073709551616 :: u64) = 0" by simp
  show "(r :: u64) AND - 18446744073709551616 = 0" unfolding zero by simp
  have all: "WUBU_RIGHTS_ALL = -1" by simp
  show "WUBU_RIGHTS_ALL AND r = r" "r AND NOT WUBU_RIGHTS_ALL = 0" unfolding all by simp_all
qed

lemma boot_derive:
  "wubu_cap_derive True True (wubu_cap_token_pack 1 1 0) WUBU_PID_KERNEL r
     (Some [pid, -1, -1, -1, -1, -1, -1, -1]) 0 (y_caps system_boot) =
   (2, wubu_cap_token_pack 1 2 (o_flags (sub_obj pid r)),
    \<lparr>g_ptrs = [0 \<mapsto> cap_sentinel, 1 \<mapsto> boot_obj\<lparr>o_first_child_idx := 2\<rparr>, 2 \<mapsto> sub_obj pid r],
     g_cap_count = 3, g_audit = audit_empty\<rparr>)"
proof -
  have "(sub_obj pid r)\<lparr>o_next_sibling_idx := WUBU_CAP_IDX_NONE\<rparr> = sub_obj pid r"
    by (simp add: sub_obj_def new_object_def split_beta)
  then show ?thesis
    unfolding wubu_cap_derive_def cap_derive_inner_def system_boot_eq
    by (simp add: Let_def wubu_cap_validate_audience_def is_public_def boot_obj_def
        audience_is_subset_def wubu_cap_create_def wubu_cap_link_child_def sub_obj_def [symmetric]
        cap_find_free_slot_locked_def first_from.simps set_obj_def fun_upd_twist)
qed

definition demo_sys_table :: htable where
  "demo_sys_table = \<lparr>t_entries = free_entry (-1) #
    \<lparr>e_object_idx = 2, e_local_gen = 1, e_token_flags = 0, e_next_free = -1\<rparr> #
    map (\<lambda>i. free_entry (if i = 15 then -1 else of_nat i + 1)) [2..<16],
    t_capacity = 16, t_count = 1, t_next_free = 2\<rparr>"

lemma demo_sys_insert:
  "wubu_cap_handle_insert True (\<lambda>_. free_entry 0)
     (wubu_cap_handle_table_create True True (\<lambda>_. free_entry 0)) 2 0
   = (wubu_cap_token_pack 1 1 0, Some demo_sys_table)"
  by code_simp

lemma sub_obj_facts:
  "o_deleted (sub_obj pid r) = False" "o_kind (sub_obj pid r) = 9" "o_generation (sub_obj pid r) = 1"
  "o_rights (sub_obj pid r) = r" "o_first_child_idx (sub_obj pid r) = WUBU_CAP_IDX_NONE"
  "\<not> is_immortal (sub_obj pid r)"
  "pid \<noteq> -1 \<Longrightarrow> wubu_cap_validate_audience (sub_obj pid r) pid"
  by (auto simp: sub_obj_def wubu_cap_validate_audience_def audience_list_new_object audience_prefix_def
      immortal_bit flags_new_object)

text \<open>
  the system capability works end to end. From boot, installing a system
  sub-capability with rights \<open>r\<close> for a process succeeds, the gate then admits that process
  for every subset of \<open>r\<close>, and after the boot capability is revoked the gate refuses it.
\<close>

lemma system_capability_lifecycle:
  assumes "pid \<noteq> -1" and "r AND req = req"
  shows "let (rc, t, y) = wubu_cap_system_install_to_pid True True True (\<lambda>_. free_entry 0)
               (wubu_cap_handle_table_create True True (\<lambda>_. free_entry 0)) pid r system_boot;
             (rv, s) = wubu_cap_revoke (wubu_cap_token_pack 1 (wubu_cap_system_bootcap_idx y) 0) (y_caps y)
         in rc = WUBU_CAP_OK \<and>
            map_option fst (wubu_cap_system_resolve t pid req (y_caps y)) = Some WUBU_CAP_OK \<and>
            rv = 2 \<and> map_option fst (wubu_cap_system_resolve t pid req s) = Some WUBU_CAP_EPERM"
proof -
  define s1 where "s1 = \<lparr>g_ptrs = [0 \<mapsto> cap_sentinel, 1 \<mapsto> boot_obj\<lparr>o_first_child_idx := 2\<rparr>,
    2 \<mapsto> sub_obj pid r], g_cap_count = 3, g_audit = audit_empty\<rparr>"
  have inst: "wubu_cap_system_install_to_pid True True True (\<lambda>_. free_entry 0)
      (wubu_cap_handle_table_create True True (\<lambda>_. free_entry 0)) pid r system_boot
    = (WUBU_CAP_OK, Some demo_sys_table, system_boot\<lparr>y_caps := s1\<rparr>)"
    using boot_derive [of r pid] demo_sys_insert hinv_create [of "\<lambda>_. free_entry 0"]
    by (auto simp: wubu_cap_system_install_to_pid_def system_boot_eq boot_obj_def s1_def Let_def
        wubu_cap_token_is_null_def)
  have "fst (wubu_cap_resolve pid (wubu_cap_token_pack 1 2 0) req s1) = Some 2"
    using assms sub_obj_facts by (simp add: resolve_Some_iff s1_def grants_def)
  then have adm: "map_option fst (wubu_cap_system_resolve (Some demo_sys_table) pid req s1) = Some WUBU_CAP_OK"
    using sub_obj_facts
    by (simp add: wubu_cap_system_resolve_def wubu_cap_handle_resolve_kind_def demo_sys_table_def s1_def
        split_beta)
  define s2 where "s2 = \<lparr>g_ptrs = [0 \<mapsto> cap_sentinel,
      1 \<mapsto> revoked (boot_obj\<lparr>o_first_child_idx := 2\<rparr>), 2 \<mapsto> kill (sub_obj pid r)], g_cap_count = 3,
      g_audit = audit_empty\<rparr>"
  have rev: "wubu_cap_revoke (wubu_cap_token_pack 1 1 0) s1 = (2, s2)"
  proof -
    let ?b = "boot_obj\<lparr>o_first_child_idx := 2\<rparr>"
    have b: "\<not> is_immortal ?b" "\<not> o_deleted ?b" "o_flags ?b AND 2 \<noteq> 0"
      "o_next_sibling_idx (sub_obj pid r) = WUBU_CAP_IDX_NONE"
      by (simp_all add: boot_obj_def is_immortal_def sub_obj_def)
    show ?thesis
      unfolding wubu_cap_revoke_def wubu_cap_revoke_cascade_def s1_def s2_def
      using b sub_obj_facts
      by (simp add: Let_def set_obj_def revoked_def push_siblings_numeral queued_def visit_def)
  qed
  have ref: "map_option fst (wubu_cap_system_resolve (Some demo_sys_table) pid req s2) = Some WUBU_CAP_EPERM"
    by (simp add: wubu_cap_system_resolve_def wubu_cap_handle_resolve_kind_def demo_sys_table_def s2_def)
  show ?thesis
    unfolding inst using adm rev ref by (simp add: wubu_cap_system_bootcap_idx_def system_boot_eq)
qed

end
