(* ===== verification/Styx_Wire.thy ===== *)
theory Styx_Wire
  imports Prelude
begin

text \<open>
  The wire format of the Styx/9P2000 file protocol: the little-endian packers and
  unpackers of \<open>styx.h\<close>, the message header of \<open>styx_internal.h\<close>, the request encoders of
  \<open>styx_enc.c\<close> and the parsers of \<open>styx_parse.c\<close>.

  An encoder's result is the list of the \<open>*len\<close> bytes it writes. A reader takes the buffer
  and an offset; it is \<open>None\<close> when it would read past the end of the buffer. A character
  array that holds a C string is the list of its bytes up to the NUL.
\<close>

section \<open>Constants and data\<close>

abbreviation (input) STYX_MAX_MSG :: nat where "STYX_MAX_MSG \<equiv> 65536"
abbreviation (input) STYX_MAX_FNAME :: nat where "STYX_MAX_FNAME \<equiv> 256"
abbreviation (input) STYX_MAX_WRITE :: nat where "STYX_MAX_WRITE \<equiv> 8192"
abbreviation (input) STYX_MAX_DATA :: nat where "STYX_MAX_DATA \<equiv> 8192"

abbreviation (input) STX_TVERSION :: u8 where "STX_TVERSION \<equiv> 100"
abbreviation (input) STX_TAUTH :: u8 where "STX_TAUTH \<equiv> 102"
abbreviation (input) STX_TATTACH :: u8 where "STX_TATTACH \<equiv> 104"
abbreviation (input) STX_TFLUSH :: u8 where "STX_TFLUSH \<equiv> 108"
abbreviation (input) STX_TWALK :: u8 where "STX_TWALK \<equiv> 110"
abbreviation (input) STX_TOPEN :: u8 where "STX_TOPEN \<equiv> 112"
abbreviation (input) STX_TCREATE :: u8 where "STX_TCREATE \<equiv> 114"
abbreviation (input) STX_TREAD :: u8 where "STX_TREAD \<equiv> 116"
abbreviation (input) STX_TWRITE :: u8 where "STX_TWRITE \<equiv> 118"
abbreviation (input) STX_TCLUNK :: u8 where "STX_TCLUNK \<equiv> 120"
abbreviation (input) STX_TREMOVE :: u8 where "STX_TREMOVE \<equiv> 122"
abbreviation (input) STX_TSTAT :: u8 where "STX_TSTAT \<equiv> 124"
abbreviation (input) STX_TWSTAT :: u8 where "STX_TWSTAT \<equiv> 126"
abbreviation (input) STX_RVERSION :: u8 where "STX_RVERSION \<equiv> 101"
abbreviation (input) STX_RAUTH :: u8 where "STX_RAUTH \<equiv> 103"
abbreviation (input) STX_RATTACH :: u8 where "STX_RATTACH \<equiv> 105"
abbreviation (input) STX_RERROR :: u8 where "STX_RERROR \<equiv> 107"
abbreviation (input) STX_RFLUSH :: u8 where "STX_RFLUSH \<equiv> 109"
abbreviation (input) STX_RWALK :: u8 where "STX_RWALK \<equiv> 111"
abbreviation (input) STX_ROPEN :: u8 where "STX_ROPEN \<equiv> 113"
abbreviation (input) STX_RCREATE :: u8 where "STX_RCREATE \<equiv> 115"
abbreviation (input) STX_RREAD :: u8 where "STX_RREAD \<equiv> 117"
abbreviation (input) STX_RWRITE :: u8 where "STX_RWRITE \<equiv> 119"
abbreviation (input) STX_RCLUNK :: u8 where "STX_RCLUNK \<equiv> 121"
abbreviation (input) STX_RREMOVE :: u8 where "STX_RREMOVE \<equiv> 123"
abbreviation (input) STX_RSTAT :: u8 where "STX_RSTAT \<equiv> 125"
abbreviation (input) STX_RWSTAT :: u8 where "STX_RWSTAT \<equiv> 127"
abbreviation (input) STX_QTDIR :: u8 where "STX_QTDIR \<equiv> 0x80"
abbreviation (input) STX_QTFILE :: u8 where "STX_QTFILE \<equiv> 0x00"
abbreviation (input) STX_DMDIR :: u32 where "STX_DMDIR \<equiv> 0x80000000"

record styx_qid =
  q_type :: u8
  q_version :: u32
  q_path :: u64

record styx_dir =
  d_size :: u16
  d_type :: u16
  d_dev :: u32
  d_qid :: styx_qid
  d_mode :: u32
  d_atime :: u32
  d_mtime :: u32
  d_length :: u64
  d_name :: bytes
  d_uid :: bytes
  d_gid :: bytes
  d_muid :: bytes

section \<open>Packing\<close>

definition styx_put16 :: "u16 \<Rightarrow> bytes" where
  "styx_put16 val = [ucast (val AND 0xFF), ucast (drop_bit 8 val AND 0xFF)]"

definition styx_put32 :: "u32 \<Rightarrow> bytes" where
  "styx_put32 val = [ucast (val AND 0xFF), ucast (drop_bit 8 val AND 0xFF),
     ucast (drop_bit 16 val AND 0xFF), ucast (drop_bit 24 val AND 0xFF)]"

fun put_le :: "nat \<Rightarrow> u64 \<Rightarrow> bytes" where
  "put_le 0 val = []"
| "put_le (Suc n) val = ucast (val AND 0xFF) # put_le n (drop_bit 8 val)"

definition styx_put64 :: "u64 \<Rightarrow> bytes" where
  "styx_put64 val = put_le 8 val"

text \<open>\<open>s\<close> is the C string's bytes; \<open>None\<close> is the NULL pointer.\<close>

definition styx_putstr :: "bytes option \<Rightarrow> bytes" where
  "styx_putstr s =
     (let str = (case s of None \<Rightarrow> [] | Some s \<Rightarrow> s);
          n = of_nat (length str) :: u16;
          n = (if 255 < n then 255 else n)
      in styx_put16 n @ take (unat n) str)"

section \<open>Unpacking\<close>

definition get8 :: "bytes \<Rightarrow> nat \<Rightarrow> u8 option" where
  "get8 buf pos = (if pos < length buf then Some (buf ! pos) else None)"

definition styx_get16 :: "bytes \<Rightarrow> nat \<Rightarrow> u16 option" where
  "styx_get16 buf pos = do {
     a \<leftarrow> get8 buf pos;
     b \<leftarrow> get8 buf (pos + 1);
     Some (ucast a OR push_bit 8 (ucast b))
   }"

definition styx_get32 :: "bytes \<Rightarrow> nat \<Rightarrow> u32 option" where
  "styx_get32 buf pos = do {
     a \<leftarrow> get8 buf pos;
     b \<leftarrow> get8 buf (pos + 1);
     c \<leftarrow> get8 buf (pos + 2);
     d \<leftarrow> get8 buf (pos + 3);
     Some (((ucast a OR push_bit 8 (ucast b)) OR push_bit 16 (ucast c)) OR push_bit 24 (ucast d))
   }"

text \<open>The loop of \<open>styx_get64\<close>: bytes \<open>i-1, \<dots>, 0\<close> shifted into \<open>val\<close>.\<close>

fun get_le :: "bytes \<Rightarrow> nat \<Rightarrow> nat \<Rightarrow> u64 \<Rightarrow> u64 option" where
  "get_le buf pos 0 val = Some val"
| "get_le buf pos (Suc i) val = do {
     b \<leftarrow> get8 buf (pos + i);
     get_le buf pos i (push_bit 8 val OR ucast b)
   }"

definition styx_get64 :: "bytes \<Rightarrow> nat \<Rightarrow> u64 option" where
  "styx_get64 buf pos = get_le buf pos 8 0"

definition get_bytes :: "bytes \<Rightarrow> nat \<Rightarrow> nat \<Rightarrow> bytes option" where
  "get_bytes buf pos n = (if n = 0 then Some [] else
     if pos + n \<le> length buf then Some (take n (drop pos buf)) else None)"

text \<open>
  \<open>styx_getstr\<close>: the inner \<open>None\<close> is the returned NULL (nothing written to \<open>out\<close>);
  otherwise the C string left in \<open>out\<close> and the position after it. \<open>outsz\<close> is at least 1.
\<close>

definition styx_getstr :: "bytes \<Rightarrow> nat \<Rightarrow> nat \<Rightarrow> int \<Rightarrow> (bytes \<times> nat) option option" where
  "styx_getstr buf pos outsz avail =
     (if avail < 2 then Some None
      else do {
        n \<leftarrow> styx_get16 buf pos;
        let n = (if of_nat (outsz - 1) < n then of_nat (outsz - 1) else n);
        let have_n = avail - 2;
        let n = (if have_n < int (unat n) then of_int have_n else n);
        s \<leftarrow> get_bytes buf (pos + 2) (unat n);
        Some (Some (cstr s, pos + 2 + unat n))
      })"

section \<open>Requests\<close>

definition styx_write_header :: "nat \<Rightarrow> u8 \<Rightarrow> u16 \<Rightarrow> bytes" where
  "styx_write_header total_size typ tag = styx_put32 (of_nat total_size) @ [typ] @ styx_put16 tag"

text \<open>A message: its header, with the position reached as the size, and its body.\<close>

definition message :: "u8 \<Rightarrow> u16 \<Rightarrow> bytes \<Rightarrow> bytes" where
  "message typ tag body = styx_write_header (7 + length body) typ tag @ body"

definition put_qid :: "styx_qid \<Rightarrow> bytes" where
  "put_qid q = [q_type q] @ styx_put32 (q_version q) @ styx_put64 (q_path q)"

definition styx_build_tversion :: "u32 \<Rightarrow> bytes option \<Rightarrow> bytes" where
  "styx_build_tversion msize version =
     message STX_TVERSION 0 (styx_put32 msize @ styx_putstr version)"

definition styx_build_tattach :: "u16 \<Rightarrow> u32 \<Rightarrow> u32 \<Rightarrow> bytes option \<Rightarrow> bytes" where
  "styx_build_tattach tag fid afid aname =
     message STX_TATTACH tag (styx_put32 fid @ styx_put32 afid @
       styx_putstr (Some (case aname of None \<Rightarrow> [] | Some a \<Rightarrow> a)))"

text \<open>\<open>nwname\<close> is the count of the source, \<open>wname\<close> the array (of at least as many names).\<close>

definition styx_build_twalk :: "u16 \<Rightarrow> u32 \<Rightarrow> u32 \<Rightarrow> bytes option list \<Rightarrow> int \<Rightarrow> bytes" where
  "styx_build_twalk tag fid newfid wname nwname =
     message STX_TWALK tag (styx_put32 fid @ styx_put32 newfid @ styx_put16 (of_int nwname) @
       concat (map styx_putstr (take (nat (min nwname 16)) wname)))"

definition styx_build_topen :: "u16 \<Rightarrow> u32 \<Rightarrow> int \<Rightarrow> bytes" where
  "styx_build_topen tag fid mode = message STX_TOPEN tag (styx_put32 fid @ [of_int mode])"

definition styx_build_tread :: "u16 \<Rightarrow> u32 \<Rightarrow> u64 \<Rightarrow> u32 \<Rightarrow> bytes" where
  "styx_build_tread tag fid offset count =
     message STX_TREAD tag (styx_put32 fid @ styx_put64 offset @ styx_put32 count)"

text \<open>\<open>data\<close> points to at least \<open>count\<close> bytes.\<close>

definition styx_build_twrite :: "u16 \<Rightarrow> u32 \<Rightarrow> u64 \<Rightarrow> u32 \<Rightarrow> bytes \<Rightarrow> bytes" where
  "styx_build_twrite tag fid offset count data =
     message STX_TWRITE tag (styx_put32 fid @ styx_put64 offset @ styx_put32 count @
       take (unat count) data)"

definition styx_build_tclunk :: "u16 \<Rightarrow> u32 \<Rightarrow> bytes" where
  "styx_build_tclunk tag fid = message STX_TCLUNK tag (styx_put32 fid)"

definition styx_build_tstat :: "u16 \<Rightarrow> u32 \<Rightarrow> bytes" where
  "styx_build_tstat tag fid = message STX_TSTAT tag (styx_put32 fid)"

definition styx_build_tauth :: "u16 \<Rightarrow> u32 \<Rightarrow> bytes option \<Rightarrow> bytes option \<Rightarrow> bytes" where
  "styx_build_tauth tag afid uname aname =
     message STX_TAUTH tag (styx_put32 afid @ styx_putstr uname @ styx_putstr aname)"

definition styx_build_tflush :: "u16 \<Rightarrow> u16 \<Rightarrow> bytes" where
  "styx_build_tflush tag oldtag = message STX_TFLUSH tag (styx_put16 oldtag)"

definition styx_build_tcreate :: "u16 \<Rightarrow> u32 \<Rightarrow> bytes option \<Rightarrow> u32 \<Rightarrow> u8 \<Rightarrow> bytes" where
  "styx_build_tcreate tag fid name perm mode =
     message STX_TCREATE tag (styx_put32 fid @ styx_putstr name @ styx_put32 perm @ [mode])"

definition styx_build_tremove :: "u16 \<Rightarrow> u32 \<Rightarrow> bytes" where
  "styx_build_tremove tag fid = message STX_TREMOVE tag (styx_put32 fid)"

text \<open>The Dir record without its length prefix, as \<open>Twstat\<close> and \<open>Rstat\<close> write it.\<close>

definition put_dir :: "styx_dir \<Rightarrow> bytes" where
  "put_dir dir = styx_put16 (d_type dir) @ styx_put32 (d_dev dir) @ put_qid (d_qid dir) @
     styx_put32 (d_mode dir) @ styx_put32 (d_atime dir) @ styx_put32 (d_mtime dir) @
     styx_put64 (d_length dir) @ styx_putstr (Some (d_name dir)) @ styx_putstr (Some (d_uid dir)) @
     styx_putstr (Some (d_gid dir)) @ styx_putstr (Some (d_muid dir))"

definition styx_build_twstat :: "u16 \<Rightarrow> u32 \<Rightarrow> styx_dir \<Rightarrow> bytes" where
  "styx_build_twstat tag fid dir =
     message STX_TWSTAT tag (styx_put32 fid @ styx_put16 (of_nat (length (put_dir dir))) @ put_dir dir)"

definition styx_error :: "u16 \<Rightarrow> bytes option \<Rightarrow> bytes" where
  "styx_error tag errmsg = message STX_RERROR tag (styx_putstr errmsg)"

section \<open>Parsers\<close>

text \<open>
  The inner \<open>None\<close> is the return value -1. \<open>null\<close> says that a pointer argument the parser
  tests is NULL; \<open>len\<close> is the length argument.
\<close>

definition styx_parse_version :: "bool \<Rightarrow> bytes \<Rightarrow> u32 \<Rightarrow> (u32 \<times> bytes option) option option" where
  "styx_parse_version null buf len =
     (if null then Some None
      else if len < 13 then Some None
      else do {
        t \<leftarrow> get8 buf 4;
        if t \<noteq> STX_RVERSION then Some None
        else do {
          msize \<leftarrow> styx_get32 buf 7;
          p \<leftarrow> styx_getstr buf 11 STYX_MAX_FNAME (int (unat len) - 11);
          Some (Some (msize, map_option fst p))
        }
      })"

definition styx_parse_attach ::
  "bool \<Rightarrow> bytes \<Rightarrow> u32 \<Rightarrow> (u32 \<times> u32 \<times> bytes option) option option" where
  "styx_parse_attach null buf len =
     (if null then Some None
      else if len < 17 then Some None
      else do {
        t \<leftarrow> get8 buf 4;
        if t \<noteq> STX_TATTACH then Some None
        else do {
          fid \<leftarrow> styx_get32 buf 7;
          afid \<leftarrow> styx_get32 buf 11;
          p \<leftarrow> styx_getstr buf 15 STYX_MAX_FNAME (int (unat len) - 15);
          Some (Some (fid, afid, map_option fst p))
        }
      })"

definition styx_parse_open :: "bool \<Rightarrow> bytes \<Rightarrow> u32 \<Rightarrow> (u32 \<times> u8) option option" where
  "styx_parse_open null buf len =
     (if null \<or> len < 12 then Some None
      else do {
        t \<leftarrow> get8 buf 4;
        if t \<noteq> STX_TOPEN then Some None
        else do {
          fid \<leftarrow> styx_get32 buf 7;
          mode \<leftarrow> get8 buf 11;
          Some (Some (fid, mode))
        }
      })"

definition styx_parse_read :: "bool \<Rightarrow> bytes \<Rightarrow> u32 \<Rightarrow> (u32 \<times> u64 \<times> u32) option option" where
  "styx_parse_read null buf len =
     (if null \<or> len < 23 then Some None
      else do {
        t \<leftarrow> get8 buf 4;
        if t \<noteq> STX_TREAD then Some None
        else do {
          fid \<leftarrow> styx_get32 buf 7;
          offset \<leftarrow> styx_get64 buf 11;
          count \<leftarrow> styx_get32 buf 19;
          Some (Some (fid, offset, count))
        }
      })"

text \<open>\<open>*data = buf + 23\<close>: the rest of the buffer from there.\<close>

definition styx_parse_write ::
  "bool \<Rightarrow> bytes \<Rightarrow> u32 \<Rightarrow> (u32 \<times> u64 \<times> u32 \<times> bytes) option option" where
  "styx_parse_write null buf len =
     (if null \<or> len < 24 then Some None
      else do {
        t \<leftarrow> get8 buf 4;
        if t \<noteq> STX_TWRITE then Some None
        else do {
          fid \<leftarrow> styx_get32 buf 7;
          offset \<leftarrow> styx_get64 buf 11;
          count \<leftarrow> styx_get32 buf 19;
          Some (Some (fid, offset, count, drop 23 buf))
        }
      })"

definition styx_parse_clunk :: "bool \<Rightarrow> bytes \<Rightarrow> u32 \<Rightarrow> u32 option option" where
  "styx_parse_clunk null buf len =
     (if null \<or> len < 11 then Some None
      else do {
        t \<leftarrow> get8 buf 4;
        if t \<noteq> STX_TCLUNK then Some None else map_option Some (styx_get32 buf 7)
      })"

definition styx_parse_stat :: "bool \<Rightarrow> bytes \<Rightarrow> u32 \<Rightarrow> u32 option option" where
  "styx_parse_stat null buf len =
     (if null \<or> len < 11 then Some None
      else do {
        t \<leftarrow> get8 buf 4;
        if t \<noteq> STX_TSTAT then Some None else map_option Some (styx_get32 buf 7)
      })"

text \<open>
  The name loop that \<open>styx_parse_walk\<close> and the \<open>Twalk\<close> arm share: it stops at the first
  string that does not fit, leaving the remaining names unwritten.
\<close>

fun get_names :: "nat \<Rightarrow> bytes \<Rightarrow> int \<Rightarrow> nat \<Rightarrow> bytes list option" where
  "get_names 0 buf limit pos = Some []"
| "get_names (Suc n) buf limit pos = do {
     r \<leftarrow> styx_getstr buf pos STYX_MAX_FNAME (limit - int pos);
     case r of
       None \<Rightarrow> Some []
     | Some (s, pos') \<Rightarrow> map_option (\<lambda>ss. s # ss) (get_names n buf limit pos')
   }"

definition styx_parse_walk ::
  "bool \<Rightarrow> bytes \<Rightarrow> u32 \<Rightarrow> (u32 \<times> u32 \<times> bytes list \<times> nat) option option" where
  "styx_parse_walk null buf len =
     (if null \<or> len < 18 then Some None
      else do {
        t \<leftarrow> get8 buf 4;
        if t \<noteq> STX_TWALK then Some None
        else do {
          fid \<leftarrow> styx_get32 buf 7;
          newfid \<leftarrow> styx_get32 buf 11;
          n \<leftarrow> styx_get16 buf 15;
          let nwname = min (unat n) 16;
          names \<leftarrow> get_names nwname buf (int (unat len)) 17;
          Some (Some (fid, newfid, names, nwname))
        }
      })"

end
