(* ===== verification/Styx_Tables.thy ===== *)
theory Styx_Tables
  imports Styx_Wire Slot_Store
begin

text \<open>
  The tables beside the Styx dispatcher: request tags (\<open>styx_tags.c\<close>), byte-range locks
  (\<open>styx_locks.c\<close>), requests in flight (\<open>styx_flush.c\<close>) and message and error names
  (\<open>styx_names.c\<close>). A table argument is \<open>None\<close> for the NULL pointer.
\<close>

section \<open>Tags\<close>

abbreviation (input) STYX_TAG_SLOTS :: nat where "STYX_TAG_SLOTS \<equiv> 256"

record styx_tag_slot =
  ts_tag :: u16
  ts_req_id :: u32
  ts_in_use :: bool

record styx_tagtable =
  tt_slots :: "styx_tag_slot list"
  tt_live :: int

definition styx_tags_init :: "styx_tagtable option \<Rightarrow> styx_tagtable option" where
  "styx_tags_init t =
     (case t of
        None \<Rightarrow> None
      | Some _ \<Rightarrow> Some \<lparr>tt_slots = map (\<lambda>i. \<lparr>ts_tag = of_nat i, ts_req_id = 0, ts_in_use = False\<rparr>)
                                 [0..<STYX_TAG_SLOTS],
                       tt_live = 0\<rparr>)"

text \<open>Result: the return code, the tag stored in \<open>*tag\<close>, the table.\<close>

definition styx_tags_alloc ::
  "styx_tagtable option \<Rightarrow> u32 \<Rightarrow> bool \<Rightarrow> int \<times> u16 option \<times> styx_tagtable option" where
  "styx_tags_alloc t req_id tag_null =
     (case t of
        None \<Rightarrow> (-1, None, None)
      | Some tt \<Rightarrow>
          if tag_null then (-1, None, t)
          else case find_slot (\<lambda>s. \<not> ts_in_use s) (tt_slots tt) of
            None \<Rightarrow> (-1, None, t)
          | Some i \<Rightarrow>
              let s = tt_slots tt ! i
              in (0, Some (ts_tag s),
                  Some (tt\<lparr>tt_slots := (tt_slots tt)[i := s\<lparr>ts_in_use := True, ts_req_id := req_id\<rparr>],
                           tt_live := tt_live tt + 1\<rparr>)))"

definition styx_tags_lookup :: "styx_tagtable option \<Rightarrow> u16 \<Rightarrow> int \<times> u32 option" where
  "styx_tags_lookup t tag =
     (case t of
        None \<Rightarrow> (-1, None)
      | Some tt \<Rightarrow>
          case find_slot (\<lambda>s. ts_in_use s \<and> ts_tag s = tag) (tt_slots tt) of
            None \<Rightarrow> (-1, None)
          | Some i \<Rightarrow> (0, Some (ts_req_id (tt_slots tt ! i))))"

definition styx_tags_release :: "styx_tagtable option \<Rightarrow> u16 \<Rightarrow> int \<times> styx_tagtable option" where
  "styx_tags_release t tag =
     (case t of
        None \<Rightarrow> (-1, None)
      | Some tt \<Rightarrow>
          case find_slot (\<lambda>s. ts_in_use s \<and> ts_tag s = tag) (tt_slots tt) of
            None \<Rightarrow> (-1, t)
          | Some i \<Rightarrow>
              (0, Some (tt\<lparr>tt_slots := (tt_slots tt)[i := (tt_slots tt ! i)\<lparr>ts_in_use := False,
                                                    ts_req_id := 0\<rparr>],
                          tt_live := tt_live tt - 1\<rparr>)))"

section \<open>Byte-range locks\<close>

abbreviation (input) STYX_LOCK_MAX :: nat where "STYX_LOCK_MAX \<equiv> 32"
abbreviation (input) STYX_LOCK_RDLCK :: int where "STYX_LOCK_RDLCK \<equiv> 0"
abbreviation (input) STYX_LOCK_WRLCK :: int where "STYX_LOCK_WRLCK \<equiv> 1"
abbreviation (input) STYX_LOCK_UNLCK :: int where "STYX_LOCK_UNLCK \<equiv> 2"
abbreviation (input) END :: u64 where "END \<equiv> 0xFFFFFFFFFFFFFFFF"

record styx_lock_rec =
  l_qid :: u64
  l_owner :: i32
  l_start :: u64
  l_length :: u64
  l_type :: int
  l_in_use :: bool

type_synonym styx_locktab = "styx_lock_rec list"

text \<open>The end of a range as the code computes it, with the wrap-around of \<open>uint64_t\<close>.\<close>

definition range_end :: "u64 \<Rightarrow> u64 \<Rightarrow> u64" where
  "range_end start len = (if len = 0 then END else start + len - 1)"

definition overlaps :: "u64 \<Rightarrow> u64 \<Rightarrow> u64 \<Rightarrow> u64 \<Rightarrow> bool" where
  "overlaps s1 e1 s2 e2 \<longleftrightarrow> \<not> (e1 < s2 \<or> e2 < s1)"

definition lock_overlaps :: "u64 \<Rightarrow> u64 \<Rightarrow> styx_lock_rec \<Rightarrow> bool" where
  "lock_overlaps start e l = overlaps start e (l_start l) (range_end (l_start l) (l_length l))"

definition free_lock :: styx_lock_rec where
  "free_lock = \<lparr>l_qid = 0, l_owner = 0, l_start = 0, l_length = 0, l_type = 0, l_in_use = False\<rparr>"

definition styx_locks_init :: "styx_locktab option \<Rightarrow> styx_locktab option" where
  "styx_locks_init t = map_option (\<lambda>_. replicate STYX_LOCK_MAX free_lock) t"

text \<open>Which entries \<open>styx_unlock\<close> removes.\<close>

definition unlock_hits :: "u64 \<Rightarrow> i32 \<Rightarrow> u64 \<Rightarrow> u64 \<Rightarrow> styx_lock_rec \<Rightarrow> bool" where
  "unlock_hits qid own start e l \<longleftrightarrow>
     l_in_use l \<and> l_qid l = qid \<and> l_owner l = own \<and> lock_overlaps start e l \<and>
     l_start l = start \<and> range_end (l_start l) (l_length l) = e"

definition styx_unlock ::
  "styx_locktab option \<Rightarrow> u64 \<Rightarrow> i32 \<Rightarrow> u64 \<Rightarrow> u64 \<Rightarrow> int \<times> styx_locktab option" where
  "styx_unlock t qid own start len =
     (case t of
        None \<Rightarrow> (-1, None)
      | Some ls \<Rightarrow>
          let e = range_end start len;
              hit = list_ex (unlock_hits qid own start e) ls
          in (if hit then 0 else -1,
              Some (map (\<lambda>l. if unlock_hits qid own start e l then l\<lparr>l_in_use := False\<rparr> else l) ls)))"

text \<open>The entries that make \<open>styx_lock\<close> refuse.\<close>

definition lock_conflicts :: "u64 \<Rightarrow> i32 \<Rightarrow> u64 \<Rightarrow> u64 \<Rightarrow> int \<Rightarrow> styx_lock_rec \<Rightarrow> bool" where
  "lock_conflicts qid own start e typ l \<longleftrightarrow>
     l_in_use l \<and> l_qid l = qid \<and> l_owner l \<noteq> own \<and> lock_overlaps start e l \<and>
     (l_type l = STYX_LOCK_WRLCK \<or> typ = STYX_LOCK_WRLCK)"

definition styx_lock ::
  "styx_locktab option \<Rightarrow> u64 \<Rightarrow> i32 \<Rightarrow> u64 \<Rightarrow> u64 \<Rightarrow> int \<Rightarrow> int \<times> styx_locktab option" where
  "styx_lock t qid own start len typ =
     (case t of
        None \<Rightarrow> (-1, None)
      | Some ls \<Rightarrow>
          let e = range_end start len in
          if typ \<noteq> STYX_LOCK_UNLCK \<and> list_ex (lock_conflicts qid own start e typ) ls then (-1, t)
          else if typ = STYX_LOCK_UNLCK then styx_unlock t qid own start len
          else case find_slot (\<lambda>l. l_in_use l \<and> l_qid l = qid \<and> l_owner l = own \<and>
                                 l_start l = start \<and> l_length l = len) ls of
            Some i \<Rightarrow> (0, Some (ls[i := (ls ! i)\<lparr>l_type := typ\<rparr>]))
          | None \<Rightarrow>
              (case find_slot (\<lambda>l. \<not> l_in_use l) ls of
                 Some i \<Rightarrow> (0, Some (ls[i := \<lparr>l_qid = qid, l_owner = own, l_start = start,
                                           l_length = len, l_type = typ, l_in_use = True\<rparr>]))
               | None \<Rightarrow> (-1, t)))"

definition styx_lock_count :: "styx_locktab option \<Rightarrow> nat" where
  "styx_lock_count t = (case t of None \<Rightarrow> 0 | Some ls \<Rightarrow> count_if l_in_use ls)"

section \<open>Requests in flight\<close>

abbreviation (input) STYX_FLUSH_MAX :: nat where "STYX_FLUSH_MAX \<equiv> 32"

record styx_flush_slot =
  fs_tag :: u16
  fs_in_use :: bool
  fs_cancelled :: bool

type_synonym styx_flushtab = "styx_flush_slot list"

definition zero_flush_slot :: styx_flush_slot where
  "zero_flush_slot = \<lparr>fs_tag = 0, fs_in_use = False, fs_cancelled = False\<rparr>"

definition styx_flush_init :: "styx_flushtab option \<Rightarrow> styx_flushtab option" where
  "styx_flush_init t = map_option (\<lambda>_. replicate STYX_FLUSH_MAX zero_flush_slot) t"

definition flush_find :: "styx_flushtab \<Rightarrow> u16 \<Rightarrow> nat option" where
  "flush_find t tag = find_slot (\<lambda>s. fs_in_use s \<and> fs_tag s = tag) t"

definition styx_flush_begin :: "styx_flushtab option \<Rightarrow> u16 \<Rightarrow> int \<times> styx_flushtab option" where
  "styx_flush_begin t tag =
     (case t of
        None \<Rightarrow> (-1, None)
      | Some ss \<Rightarrow>
          if flush_find ss tag \<noteq> None then (-1, t)
          else case find_slot (\<lambda>s. \<not> fs_in_use s) ss of
            None \<Rightarrow> (-1, t)
          | Some i \<Rightarrow> (0, Some (ss[i := \<lparr>fs_tag = tag, fs_in_use = True, fs_cancelled = False\<rparr>])))"

definition styx_flush_cancel :: "styx_flushtab option \<Rightarrow> u16 \<Rightarrow> int \<times> styx_flushtab option" where
  "styx_flush_cancel t tag =
     (case t of
        None \<Rightarrow> (-1, None)
      | Some ss \<Rightarrow>
          case flush_find ss tag of
            None \<Rightarrow> (-1, t)
          | Some i \<Rightarrow> (0, Some (ss[i := (ss ! i)\<lparr>fs_cancelled := True\<rparr>])))"

definition styx_flush_is_cancelled :: "styx_flushtab \<Rightarrow> u16 \<Rightarrow> bool" where
  "styx_flush_is_cancelled ss tag =
     (case flush_find ss tag of None \<Rightarrow> False | Some i \<Rightarrow> fs_cancelled (ss ! i))"

definition styx_flush_end :: "styx_flushtab option \<Rightarrow> u16 \<Rightarrow> int \<times> styx_flushtab option" where
  "styx_flush_end t tag =
     (case t of
        None \<Rightarrow> (-1, None)
      | Some ss \<Rightarrow>
          case flush_find ss tag of
            None \<Rightarrow> (-1, t)
          | Some i \<Rightarrow> (0, Some (ss[i := zero_flush_slot])))"

definition styx_flush_in_flight :: "styx_flushtab option \<Rightarrow> nat" where
  "styx_flush_in_flight t = (case t of None \<Rightarrow> 0 | Some ss \<Rightarrow> count_if fs_in_use ss)"

section \<open>Names\<close>

text \<open>The seed table, indexed from 100.\<close>

definition g_msg_names :: "bytes list" where
  "g_msg_names = map lit [''Tversion'', ''Rversion'', ''Tauth'', ''Rauth'', ''Tattach'', ''Rattach'',
     ''Terror'', ''Rerror'', ''Tflush'', ''Rflush'', ''Twalk'', ''Rwalk'', ''Topen'', ''Ropen'',
     ''Tcreate'', ''Rcreate'', ''Tread'', ''Rread'', ''Twrite'', ''Rwrite'', ''Tclunk'', ''Rclunk'',
     ''Tremove'', ''Rremove'', ''Tstat'', ''Rstat'', ''Twstat'', ''Rwstat'']"

record styx_names =
  n_registry :: "u8 \<Rightarrow> bytes option"
  n_seeded :: bool

definition styx_msg_registry_seed :: "styx_names \<Rightarrow> styx_names" where
  "styx_msg_registry_seed r =
     (if n_seeded r then r
      else r\<lparr>n_registry := (\<lambda>t. if unat t < 128
                then (if unat t < 100 \<or> 127 < unat t then None else Some (g_msg_names ! (unat t - 100)))
                else n_registry r t),
             n_seeded := True\<rparr>)"

definition styx_msg_name_register :: "u8 \<Rightarrow> bytes option \<Rightarrow> styx_names \<Rightarrow> int \<times> styx_names" where
  "styx_msg_name_register typ name r =
     (case name of
        None \<Rightarrow> (-1, r)
      | Some n \<Rightarrow>
          let r1 = styx_msg_registry_seed r
          in (0, r1\<lparr>n_registry := (n_registry r1)(typ \<mapsto> n)\<rparr>))"

definition styx_msg_name :: "u8 \<Rightarrow> styx_names \<Rightarrow> bytes \<times> styx_names" where
  "styx_msg_name typ r =
     (let r1 = styx_msg_registry_seed r
      in (case n_registry r1 typ of Some n \<Rightarrow> n | None \<Rightarrow> lit ''Unknown'', r1))"

text \<open>The errno values are those of Linux.\<close>

definition styx_errno_ename :: "int \<Rightarrow> bytes" where
  "styx_errno_ename err = lit (
     if err = 0 then ''no error''
     else if err = 1 \<or> err = 13 then ''permission denied''
     else if err = 2 then ''no such file or directory''
     else if err = 17 then ''file already exists''
     else if err = 20 then ''not a directory''
     else if err = 21 then ''is a directory''
     else if err = 30 then ''read-only filesystem''
     else if err = 28 then ''no space left on device''
     else if err = 36 then ''file name too long''
     else if err = 40 then ''too many symbolic links''
     else if err = 18 then ''cross-device link''
     else if err = 39 then ''directory not empty''
     else if err = 16 then ''resource busy''
     else if err = 4 then ''interrupted''
     else if err = 11 then ''resource temporarily unavailable''
     else if err = 9 then ''bad file descriptor''
     else if err = 24 then ''too many open files in process''
     else if err = 23 then ''too many open files in system''
     else if err = 22 then ''invalid argument''
     else if err = 5 then ''input/output error''
     else if err = 95 then ''operation not supported''
     else if err = 75 then ''value too large''
     else ''unknown error'')"

end
