(* ===== verification/Styx_Serve.thy ===== *)
theory Styx_Serve
  imports Styx_Tables
begin

text \<open>
  The Styx server: the fid table of \<open>styx_fid.c\<close> and the dispatcher of \<open>styx_serve.c\<close> with
  its response builders, one definition per arm of the switch.

  The server structure is the record \<open>styx_server\<close>; its \<open>user_data\<close> has the type variable
  \<open>'u\<close>. The callbacks are code the server does not know: they are the arguments of the
  dispatcher, one optional function per slot of the structure, each from the request's
  fields and the server to its return value, the \<open>errno\<close> it leaves, its outputs and the new
  server. A dispatch is \<open>None\<close> when it reads outside the request buffer or dereferences a
  pointer it computed from NULL; otherwise it is the return code, the bytes of the reply
  and the new server.
\<close>

section \<open>Server state\<close>

abbreviation (input) STYX_MAX_FIDS :: nat where "STYX_MAX_FIDS \<equiv> 128"

record styx_fid =
  f_in_use :: bool
  f_fid :: u32
  f_open_fid :: u32
  f_open_mode :: int
  f_offset :: u64
  f_qid :: styx_qid
  f_file_state :: nat

record 'u styx_server =
  s_fids :: "styx_fid list"
  s_next_tag :: u16
  s_msize :: u32
  s_max_msize :: u32
  s_version :: bytes
  s_connected :: bool
  s_user_data :: 'u

definition zero_qid :: styx_qid where
  "zero_qid = \<lparr>q_type = 0, q_version = 0, q_path = 0\<rparr>"

definition zero_fid :: styx_fid where
  "zero_fid = \<lparr>f_in_use = False, f_fid = 0, f_open_fid = 0, f_open_mode = 0, f_offset = 0,
     f_qid = zero_qid, f_file_state = 0\<rparr>"

text \<open>\<open>u0\<close> is the NULL \<open>user_data\<close> that \<open>memset\<close> leaves.\<close>

definition styx_init :: "'u \<Rightarrow> 'u styx_server" where
  "styx_init u0 = \<lparr>s_fids = replicate STYX_MAX_FIDS zero_fid, s_next_tag = 1,
     s_msize = of_nat STYX_MAX_MSG, s_max_msize = of_nat STYX_MAX_MSG, s_version = lit ''9P2000'',
     s_connected = False, s_user_data = u0\<rparr>"

section \<open>Fids\<close>

text \<open>A pointer to an entry of the fid table is its index.\<close>

definition styx_fid_alloc :: "u32 \<Rightarrow> 'u styx_server \<Rightarrow> (nat \<times> 'u styx_server) option" where
  "styx_fid_alloc fid srv =
     (case find_slot (\<lambda>f. \<not> f_in_use f) (s_fids srv) of
        None \<Rightarrow> None
      | Some i \<Rightarrow> Some (i, srv\<lparr>s_fids := (s_fids srv)[i := zero_fid\<lparr>f_in_use := True, f_fid := fid\<rparr>]\<rparr>))"

definition styx_fid_lookup :: "u32 \<Rightarrow> 'u styx_server \<Rightarrow> nat option" where
  "styx_fid_lookup fid srv = find_slot (\<lambda>f. f_in_use f \<and> f_fid f = fid) (s_fids srv)"

definition upd_fid :: "nat \<Rightarrow> (styx_fid \<Rightarrow> styx_fid) \<Rightarrow> 'u styx_server \<Rightarrow> 'u styx_server" where
  "upd_fid i g srv = srv\<lparr>s_fids := (s_fids srv)[i := g (s_fids srv ! i)]\<rparr>"

definition styx_fid_free :: "u32 \<Rightarrow> 'u styx_server \<Rightarrow> 'u styx_server" where
  "styx_fid_free fid srv =
     (case styx_fid_lookup fid srv of
        None \<Rightarrow> srv
      | Some i \<Rightarrow> upd_fid i (\<lambda>f. f\<lparr>f_in_use := False\<rparr>) srv)"

section \<open>Callbacks\<close>

record 'u styx_ops =
  c_clone :: "(u32 \<Rightarrow> u32 \<Rightarrow> 'u styx_server \<Rightarrow> 'u styx_server) option"
  c_attach :: "(u32 \<Rightarrow> bytes \<Rightarrow> 'u styx_server \<Rightarrow> int \<times> 'u styx_server) option"
  c_walk :: "(u32 \<Rightarrow> u32 \<Rightarrow> bytes list \<Rightarrow> nat \<Rightarrow> 'u styx_server \<Rightarrow> int \<times> styx_qid list \<times> int \<times> 'u styx_server) option"
  c_open :: "(u32 \<Rightarrow> u8 \<Rightarrow> 'u styx_server \<Rightarrow> int \<times> int \<times> styx_qid \<times> 'u styx_server) option"
  c_read :: "(u32 \<Rightarrow> u64 \<Rightarrow> u32 \<Rightarrow> 'u styx_server \<Rightarrow> int \<times> int \<times> bytes \<times> u32 \<times> 'u styx_server) option"
  c_write :: "(u32 \<Rightarrow> u64 \<Rightarrow> u32 \<Rightarrow> bytes \<Rightarrow> 'u styx_server \<Rightarrow> int \<times> int \<times> u32 \<times> 'u styx_server) option"
  c_clunk :: "(u32 \<Rightarrow> 'u styx_server \<Rightarrow> 'u styx_server) option"
  c_remove :: "(u32 \<Rightarrow> 'u styx_server \<Rightarrow> 'u styx_server) option"
  c_stat :: "(u32 \<Rightarrow> 'u styx_server \<Rightarrow> int \<times> styx_dir \<times> 'u styx_server) option"
  c_wstat :: "(u32 \<Rightarrow> styx_dir \<Rightarrow> 'u styx_server \<Rightarrow> int \<times> int \<times> 'u styx_server) option"
  c_auth :: "(u32 \<Rightarrow> bytes \<Rightarrow> bytes \<Rightarrow> 'u styx_server \<Rightarrow> int \<times> styx_qid \<times> 'u styx_server) option"
  c_create :: "(u32 \<Rightarrow> bytes \<Rightarrow> u32 \<Rightarrow> u8 \<Rightarrow> 'u styx_server \<Rightarrow> int \<times> int \<times> styx_qid \<times> 'u styx_server) option"
  c_flush :: "(u16 \<Rightarrow> 'u styx_server \<Rightarrow> 'u styx_server) option"

type_synonym 'u served = "(int \<times> bytes \<times> 'u styx_server) option"

section \<open>Response builders\<close>

definition build_rversion :: "u16 \<Rightarrow> u32 \<Rightarrow> bytes \<Rightarrow> bytes" where
  "build_rversion tag msize version = message STX_RVERSION tag (styx_put32 msize @ styx_putstr (Some version))"

definition build_rattach :: "u16 \<Rightarrow> styx_qid \<Rightarrow> bytes" where
  "build_rattach tag qid = message STX_RATTACH tag (put_qid qid)"

text \<open>\<open>None\<close> when the loop would read past the \<open>qids\<close> array.\<close>

definition build_rwalk :: "u16 \<Rightarrow> styx_qid list \<Rightarrow> int \<Rightarrow> bytes option" where
  "build_rwalk tag qids nqid =
     (if int (length qids) < nqid then None
      else Some (message STX_RWALK tag (styx_put16 (of_int nqid) @ concat (map put_qid (take (nat nqid) qids)))))"

definition build_ropen :: "u16 \<Rightarrow> styx_qid \<Rightarrow> u32 \<Rightarrow> bytes" where
  "build_ropen tag qid iounit = message STX_ROPEN tag (put_qid qid @ styx_put32 iounit)"

text \<open>\<open>data\<close> is \<open>None\<close> for the NULL pointer; \<open>None\<close> when \<open>memcpy\<close> would read past it.\<close>

definition build_rread :: "u16 \<Rightarrow> bytes option \<Rightarrow> u32 \<Rightarrow> bytes option" where
  "build_rread tag data count =
     (let count = (if STYX_MAX_DATA < unat count then STYX_MAX_DATA else unat count);
          count = (if STYX_MAX_MSG < 7 + 4 + count then STYX_MAX_MSG - 7 - 4 else count)
      in case data of
           None \<Rightarrow> if count = 0 then Some (message STX_RREAD tag (styx_put32 0)) else None
         | Some d \<Rightarrow>
             if length d < count then None
             else Some (message STX_RREAD tag (styx_put32 (of_nat count) @ take count d)))"

definition build_rwrite :: "u16 \<Rightarrow> u32 \<Rightarrow> bytes" where
  "build_rwrite tag count = message STX_RWRITE tag (styx_put32 count)"

definition build_rclunk :: "u16 \<Rightarrow> bytes" where
  "build_rclunk tag = message STX_RCLUNK tag []"

definition build_rremove :: "u16 \<Rightarrow> bytes" where
  "build_rremove tag = message STX_RREMOVE tag []"

definition build_rauth :: "u16 \<Rightarrow> styx_qid \<Rightarrow> bytes" where
  "build_rauth tag aqid = message STX_RAUTH tag (put_qid aqid)"

definition build_rcreate :: "u16 \<Rightarrow> styx_qid \<Rightarrow> u32 \<Rightarrow> bytes" where
  "build_rcreate tag qid iounit = message STX_RCREATE tag (put_qid qid @ styx_put32 iounit)"

definition build_rflush :: "u16 \<Rightarrow> bytes" where
  "build_rflush tag = message STX_RFLUSH tag []"

definition build_rwstat :: "u16 \<Rightarrow> bytes" where
  "build_rwstat tag = message STX_RWSTAT tag []"

definition build_rstat :: "u16 \<Rightarrow> styx_dir \<Rightarrow> bytes" where
  "build_rstat tag dir = message STX_RSTAT tag (styx_put16 (of_nat (length (put_dir dir))) @ put_dir dir)"

section \<open>Dispatch\<close>

definition reply_error :: "u16 \<Rightarrow> bytes \<Rightarrow> 'u styx_server \<Rightarrow> 'u served" where
  "reply_error tag msg srv = Some (0, styx_error tag (Some msg), srv)"

text \<open>The macro \<open>STYX_NEED\<close>: the rest of the arm runs only if the frame is long enough.\<close>

definition styx_need :: "nat \<Rightarrow> nat \<Rightarrow> u16 \<Rightarrow> 'u styx_server \<Rightarrow> 'u served \<Rightarrow> 'u served" where
  "styx_need off msg_size tag srv rest =
     (if msg_size < off then reply_error tag (lit ''Truncated message'') srv else rest)"

text \<open>The reason of a failed callback: its errno by name, or the arm's own text.\<close>

definition reason :: "int \<Rightarrow> string \<Rightarrow> bytes" where
  "reason e msg = (if e \<noteq> 0 then styx_errno_ename e else lit msg)"

abbreviation (input) STYX_MSIZE_FLOOR :: u32 where "STYX_MSIZE_FLOOR \<equiv> 64"

definition serve_tversion :: "bytes \<Rightarrow> nat \<Rightarrow> u16 \<Rightarrow> 'u styx_server \<Rightarrow> 'u served" where
  "serve_tversion inbuf msg_size tag srv = do {
     c_msize \<leftarrow> styx_get32 inbuf 7;
     styx_need (11 + 2) msg_size tag srv (do {
       r \<leftarrow> styx_getstr inbuf 11 16 (int msg_size - 11);
       let c_version = (case r of None \<Rightarrow> [] | Some (v, _) \<Rightarrow> v);
       if take 6 c_version \<noteq> lit ''9P2000'' \<and> c_version \<noteq> lit ''9P2000.u''
       then reply_error tag (lit ''Unknown protocol version'') srv
       else if c_msize < STYX_MSIZE_FLOOR then reply_error tag (lit ''msize too small'') srv
       else
         let ceiling = (if s_max_msize srv \<noteq> 0 then s_max_msize srv else of_nat STYX_MAX_MSG);
             ceiling = (if of_nat STYX_MAX_MSG < ceiling then of_nat STYX_MAX_MSG else ceiling);
             msize = (if c_msize < ceiling then c_msize else ceiling)
         in Some (0, build_rversion tag msize (lit ''9P2000''),
                  srv\<lparr>s_msize := msize, s_version := lit ''9P2000'', s_connected := True\<rparr>)
     })
   }"

definition serve_tauth :: "'u styx_ops \<Rightarrow> bytes \<Rightarrow> nat \<Rightarrow> u16 \<Rightarrow> 'u styx_server \<Rightarrow> 'u served" where
  "serve_tauth ops inbuf msg_size tag srv = styx_need (11 + 4) msg_size tag srv (do {
     afid \<leftarrow> styx_get32 inbuf 7;
     r \<leftarrow> styx_getstr inbuf 11 STYX_MAX_FNAME (int msg_size - 11);
     (uname, p) \<leftarrow> r;
     r2 \<leftarrow> styx_getstr inbuf p STYX_MAX_FNAME (int msg_size - int p);
     let aname = (case r2 of None \<Rightarrow> [] | Some (a, _) \<Rightarrow> a);
     case c_auth ops of
       None \<Rightarrow> reply_error tag (lit ''authentication not required'') srv
     | Some cb \<Rightarrow>
         (case cb afid uname aname srv of
            (rc, aqid, srv') \<Rightarrow>
              if rc \<noteq> 0 then reply_error tag (lit ''Authentication failed'') srv'
              else Some (0, build_rauth tag aqid, srv'))
   })"

definition serve_tflush :: "'u styx_ops \<Rightarrow> bytes \<Rightarrow> nat \<Rightarrow> u16 \<Rightarrow> 'u styx_server \<Rightarrow> 'u served" where
  "serve_tflush ops inbuf msg_size tag srv = styx_need 9 msg_size tag srv (do {
     oldtag \<leftarrow> styx_get16 inbuf 7;
     let srv' = (case c_flush ops of None \<Rightarrow> srv | Some cb \<Rightarrow> cb oldtag srv);
     Some (0, build_rflush tag, srv')
   })"

definition serve_tcreate :: "'u styx_ops \<Rightarrow> bytes \<Rightarrow> nat \<Rightarrow> u16 \<Rightarrow> 'u styx_server \<Rightarrow> 'u served" where
  "serve_tcreate ops inbuf msg_size tag srv = styx_need 13 msg_size tag srv (do {
     fid \<leftarrow> styx_get32 inbuf 7;
     r \<leftarrow> styx_getstr inbuf 11 STYX_MAX_FNAME (int msg_size - 11);
     (name, p) \<leftarrow> r;
     if msg_size < p + 5 then reply_error tag (lit ''Bad Tcreate'') srv
     else do {
       perm \<leftarrow> styx_get32 inbuf p;
       mode \<leftarrow> get8 inbuf (p + 4);
       case c_create ops of
         None \<Rightarrow> reply_error tag (lit ''Create not supported'') srv
       | Some cb \<Rightarrow>
           (case cb fid name perm mode srv of
              (rc, e, qid, srv') \<Rightarrow>
                if rc \<noteq> 0 then reply_error tag (reason e ''Create failed'') srv'
                else Some (0, build_rcreate tag qid 0, srv'))
     }
   })"

definition serve_tattach :: "'u styx_ops \<Rightarrow> bytes \<Rightarrow> nat \<Rightarrow> u16 \<Rightarrow> 'u styx_server \<Rightarrow> 'u served" where
  "serve_tattach ops inbuf msg_size tag srv = styx_need 15 msg_size tag srv (do {
     fid \<leftarrow> styx_get32 inbuf 7;
     afid \<leftarrow> styx_get32 inbuf 11;
     r \<leftarrow> styx_getstr inbuf 15 STYX_MAX_FNAME (int msg_size - 15);
     let aname = (case r of None \<Rightarrow> [] | Some (a, _) \<Rightarrow> a);
     case c_attach ops of
       None \<Rightarrow>
         (case styx_fid_alloc fid srv of
            None \<Rightarrow> reply_error tag (lit ''Out of fids'') srv
          | Some (i, srv1) \<Rightarrow>
              let root_qid = \<lparr>q_type = STX_QTDIR, q_version = 1, q_path = 1\<rparr>
              in Some (0, build_rattach tag root_qid, upd_fid i (\<lambda>f. f\<lparr>f_qid := root_qid\<rparr>) srv1))
     | Some cb \<Rightarrow>
         (case cb fid aname srv of
            (rc, srv') \<Rightarrow>
              if rc \<noteq> 0 then reply_error tag (lit ''Attach failed'') srv'
              else
                let qid = (case styx_fid_lookup fid srv' of
                             Some i \<Rightarrow> f_qid (s_fids srv' ! i)
                           | None \<Rightarrow> \<lparr>q_type = STX_QTFILE, q_version = 0, q_path = 0\<rparr>)
                in Some (0, build_rattach tag qid, srv'))
   })"

definition serve_twalk :: "'u styx_ops \<Rightarrow> bytes \<Rightarrow> nat \<Rightarrow> u16 \<Rightarrow> 'u styx_server \<Rightarrow> 'u served" where
  "serve_twalk ops inbuf msg_size tag srv = do {
     fid \<leftarrow> styx_get32 inbuf 7;
     newfid \<leftarrow> styx_get32 inbuf 11;
     nw \<leftarrow> styx_get16 inbuf 15;
     let nwname = unat nw;
     case styx_fid_lookup fid srv of
       None \<Rightarrow> reply_error tag (lit ''Bad fid in walk'') srv
     | Some i \<Rightarrow>
         if nwname = 0 then
           if styx_fid_lookup newfid srv \<noteq> None then reply_error tag (lit ''fid in use'') srv
           else case styx_fid_alloc newfid srv of
             None \<Rightarrow> reply_error tag (lit ''Out of fids'') srv
           | Some (j, srv1) \<Rightarrow>
               let srv2 = upd_fid j (\<lambda>_. (s_fids srv1 ! i)\<lparr>f_fid := newfid\<rparr>) srv1;
                   srv3 = (case c_clone ops of None \<Rightarrow> srv2 | Some cb \<Rightarrow> cb fid newfid srv2)
               in map_option (\<lambda>b. (0, b, srv3)) (build_rwalk tag [f_qid (s_fids srv3 ! i)] 1)
         else case c_walk ops of
           None \<Rightarrow> reply_error tag (lit ''Walk not supported'') srv
         | Some cb \<Rightarrow> do {
             let actual = (if 16 < nwname then 16 else nwname);
             names \<leftarrow> get_names actual inbuf (int msg_size) 17;
             (case cb fid newfid names actual srv of
                (ret, qids, nwqid, srv') \<Rightarrow>
                  if ret \<noteq> 0 \<and> nwqid = 0 then reply_error tag (lit ''Walk failed'') srv'
                  else map_option (\<lambda>b. (0, b, srv')) (build_rwalk tag qids nwqid))
           }
   }"

text \<open>What \<open>Topen\<close> records in the fid.\<close>

definition mark_open :: "u8 \<Rightarrow> styx_fid \<Rightarrow> styx_fid" where
  "mark_open mode f = f\<lparr>f_open_mode := int (unat mode), f_offset := 0, f_open_fid := f_fid f\<rparr>"

definition serve_topen :: "'u styx_ops \<Rightarrow> bytes \<Rightarrow> u16 \<Rightarrow> 'u styx_server \<Rightarrow> 'u served" where
  "serve_topen ops inbuf tag srv = do {
     fid \<leftarrow> styx_get32 inbuf 7;
     mode \<leftarrow> get8 inbuf 11;
     case styx_fid_lookup fid srv of
       None \<Rightarrow> reply_error tag (lit ''Bad fid in open'') srv
     | Some i \<Rightarrow>
         (case c_open ops of
            None \<Rightarrow>
              Some (0, build_ropen tag (f_qid (s_fids srv ! i)) (of_nat STYX_MAX_DATA),
                    upd_fid i (mark_open mode) srv)
          | Some cb \<Rightarrow>
              (case cb fid mode srv of
                 (rc, e, qid, srv') \<Rightarrow>
                   if rc \<noteq> 0 then reply_error tag (reason e ''Open failed'') srv'
                   else Some (0, build_ropen tag qid (of_nat STYX_MAX_DATA),
                              upd_fid i (mark_open mode) srv')))
   }"

text \<open>The number of bytes \<open>Tread\<close> asks the callback for.\<close>

definition read_cap :: "'u styx_server \<Rightarrow> u32 \<Rightarrow> u32" where
  "read_cap srv count =
     (let cap = (if s_msize srv \<noteq> 0 \<and> 11 < s_msize srv then s_msize srv - 11 else of_nat STYX_MAX_DATA);
          cap = (if of_nat STYX_MAX_DATA < cap then of_nat STYX_MAX_DATA else cap)
      in if cap < count then cap else count)"

definition serve_tread :: "'u styx_ops \<Rightarrow> bytes \<Rightarrow> u16 \<Rightarrow> 'u styx_server \<Rightarrow> 'u served" where
  "serve_tread ops inbuf tag srv = do {
     fid \<leftarrow> styx_get32 inbuf 7;
     offset \<leftarrow> styx_get64 inbuf 11;
     count \<leftarrow> styx_get32 inbuf 19;
     case styx_fid_lookup fid srv of
       None \<Rightarrow> reply_error tag (lit ''Bad fid in read'') srv
     | Some i \<Rightarrow>
         (case c_read ops of
            None \<Rightarrow> map_option (\<lambda>b. (0, b, srv)) (build_rread tag None 0)
          | Some cb \<Rightarrow>
              (case cb fid offset (read_cap srv count) srv of
                 (rc, e, rdata, nread, srv') \<Rightarrow>
                   if rc \<noteq> 0 then reply_error tag (reason e ''Read failed'') srv'
                   else map_option
                          (\<lambda>b. (0, b, upd_fid i (\<lambda>f. f\<lparr>f_offset := offset + ucast nread\<rparr>) srv'))
                          (build_rread tag (Some rdata) nread)))
   }"

definition serve_twrite :: "'u styx_ops \<Rightarrow> bytes \<Rightarrow> nat \<Rightarrow> u16 \<Rightarrow> 'u styx_server \<Rightarrow> 'u served" where
  "serve_twrite ops inbuf msg_size tag srv = do {
     fid \<leftarrow> styx_get32 inbuf 7;
     offset \<leftarrow> styx_get64 inbuf 11;
     count \<leftarrow> styx_get32 inbuf 19;
     if msg_size < 23 + unat count then reply_error tag (lit ''Write payload overruns message'') srv
     else case styx_fid_lookup fid srv of
       None \<Rightarrow> reply_error tag (lit ''Bad fid in write'') srv
     | Some i \<Rightarrow> do {
         let count = (if of_nat STYX_MAX_WRITE < count then of_nat STYX_MAX_WRITE else count);
         case c_write ops of
           None \<Rightarrow> reply_error tag (lit ''Write not supported'') srv
         | Some cb \<Rightarrow> do {
             wdata \<leftarrow> get_bytes inbuf 23 (unat count);
             (case cb fid offset count wdata srv of
                (rc, e, nwritten, srv') \<Rightarrow>
                  if rc \<noteq> 0 then reply_error tag (reason e ''Write failed'') srv'
                  else Some (0, build_rwrite tag nwritten,
                             upd_fid i (\<lambda>f. f\<lparr>f_offset := offset + ucast nwritten\<rparr>) srv'))
           }
       }
   }"

definition serve_tclunk :: "'u styx_ops \<Rightarrow> bytes \<Rightarrow> u16 \<Rightarrow> 'u styx_server \<Rightarrow> 'u served" where
  "serve_tclunk ops inbuf tag srv = do {
     fid \<leftarrow> styx_get32 inbuf 7;
     if styx_fid_lookup fid srv = None then reply_error tag (lit ''Bad fid in clunk'') srv
     else
       let srv1 = (case c_clunk ops of None \<Rightarrow> srv | Some cb \<Rightarrow> cb fid srv)
       in Some (0, build_rclunk tag, styx_fid_free fid srv1)
   }"

definition serve_tremove :: "'u styx_ops \<Rightarrow> bytes \<Rightarrow> u16 \<Rightarrow> 'u styx_server \<Rightarrow> 'u served" where
  "serve_tremove ops inbuf tag srv = do {
     fid \<leftarrow> styx_get32 inbuf 7;
     let srv1 = (case c_remove ops of None \<Rightarrow> srv | Some cb \<Rightarrow> cb fid srv);
     Some (0, build_rremove tag, styx_fid_free fid srv1)
   }"

definition default_dir :: "styx_qid \<Rightarrow> styx_dir" where
  "default_dir qid = \<lparr>d_size = 0, d_type = 0, d_dev = 0, d_qid = qid,
     d_mode = (if q_type qid AND STX_QTDIR \<noteq> 0 then STX_DMDIR else 0), d_atime = 0, d_mtime = 0,
     d_length = 0, d_name = lit ''file'', d_uid = lit ''wubu'', d_gid = lit ''wubu'', d_muid = []\<rparr>"

definition serve_tstat :: "'u styx_ops \<Rightarrow> bytes \<Rightarrow> u16 \<Rightarrow> 'u styx_server \<Rightarrow> 'u served" where
  "serve_tstat ops inbuf tag srv = do {
     fid \<leftarrow> styx_get32 inbuf 7;
     case styx_fid_lookup fid srv of
       None \<Rightarrow> reply_error tag (lit ''Bad fid in stat'') srv
     | Some i \<Rightarrow>
         (case c_stat ops of
            None \<Rightarrow> Some (0, build_rstat tag (default_dir (f_qid (s_fids srv ! i))), srv)
          | Some cb \<Rightarrow>
              (case cb fid srv of
                 (rc, dir, srv') \<Rightarrow>
                   if rc \<noteq> 0 then reply_error tag (lit ''Stat failed'') srv'
                   else Some (0, build_rstat tag dir, srv')))
   }"

text \<open>One string of the Dir record: going on from a NULL position is undefined.\<close>

definition dir_str :: "bytes \<Rightarrow> nat \<Rightarrow> nat option \<Rightarrow> (bytes \<times> nat option) option" where
  "dir_str inbuf msg_size p = do {
     p \<leftarrow> p;
     r \<leftarrow> styx_getstr inbuf p STYX_MAX_FNAME (int msg_size - int p);
     Some (case r of None \<Rightarrow> ([], None) | Some (s, q) \<Rightarrow> (s, Some q))
   }"

definition serve_twstat :: "'u styx_ops \<Rightarrow> bytes \<Rightarrow> nat \<Rightarrow> u16 \<Rightarrow> 'u styx_server \<Rightarrow> 'u served" where
  "serve_twstat ops inbuf msg_size tag srv = do {
     fid \<leftarrow> styx_get32 inbuf 7;
     case c_wstat ops of
       None \<Rightarrow> reply_error tag (lit ''Wstat not supported'') srv
     | Some cb \<Rightarrow> do {
         dirsz \<leftarrow> styx_get16 inbuf 11;
         typ \<leftarrow> styx_get16 inbuf 13;
         dev \<leftarrow> styx_get32 inbuf 15;
         qt \<leftarrow> get8 inbuf 19;
         qv \<leftarrow> styx_get32 inbuf 20;
         qp \<leftarrow> styx_get64 inbuf 24;
         mode \<leftarrow> styx_get32 inbuf 32;
         atime \<leftarrow> styx_get32 inbuf 36;
         mtime \<leftarrow> styx_get32 inbuf 40;
         len \<leftarrow> styx_get64 inbuf 44;
         (name, p1) \<leftarrow> dir_str inbuf msg_size (Some 52);
         (uid, p2) \<leftarrow> dir_str inbuf msg_size p1;
         (gid, p3) \<leftarrow> dir_str inbuf msg_size p2;
         (muid, p4) \<leftarrow> dir_str inbuf msg_size p3;
         (case cb fid \<lparr>d_size = 0, d_type = typ, d_dev = dev,
                   d_qid = \<lparr>q_type = qt, q_version = qv, q_path = qp\<rparr>, d_mode = mode, d_atime = atime,
                   d_mtime = mtime, d_length = len, d_name = name, d_uid = uid, d_gid = gid,
                   d_muid = muid\<rparr> srv of
            (rc, e, srv') \<Rightarrow>
              if rc \<noteq> 0 then reply_error tag (reason e ''Wstat failed'') srv'
              else Some (0, build_rwstat tag, srv'))
       }
   }"

definition dispatch :: "'u styx_ops \<Rightarrow> bytes \<Rightarrow> nat \<Rightarrow> u8 \<Rightarrow> u16 \<Rightarrow> 'u styx_server \<Rightarrow> 'u served" where
  "dispatch ops inbuf msg_size typ tag srv =
     (if typ = STX_TVERSION then serve_tversion inbuf msg_size tag srv
      else if typ = STX_TAUTH then serve_tauth ops inbuf msg_size tag srv
      else if typ = STX_TFLUSH then serve_tflush ops inbuf msg_size tag srv
      else if typ = STX_TCREATE then serve_tcreate ops inbuf msg_size tag srv
      else if typ = STX_TATTACH then serve_tattach ops inbuf msg_size tag srv
      else if typ = STX_TWALK then serve_twalk ops inbuf msg_size tag srv
      else if typ = STX_TOPEN then serve_topen ops inbuf tag srv
      else if typ = STX_TREAD then serve_tread ops inbuf tag srv
      else if typ = STX_TWRITE then serve_twrite ops inbuf msg_size tag srv
      else if typ = STX_TCLUNK then serve_tclunk ops inbuf tag srv
      else if typ = STX_TREMOVE then serve_tremove ops inbuf tag srv
      else if typ = STX_TSTAT then serve_tstat ops inbuf tag srv
      else if typ = STX_TWSTAT then serve_twstat ops inbuf msg_size tag srv
      else reply_error tag (lit ''Unknown message type'') srv)"

text \<open>\<open>inbuf\<close> has \<open>inlen\<close> bytes; \<open>null\<close> says that a pointer argument is NULL.\<close>

definition styx_serve ::
  "'u styx_ops \<Rightarrow> bool \<Rightarrow> bytes \<Rightarrow> u32 \<Rightarrow> 'u styx_server \<Rightarrow> 'u served" where
  "styx_serve ops null inbuf inlen srv =
     (if null \<or> inlen < 7 then Some (-1, [], srv)
      else do {
        msg_size \<leftarrow> styx_get32 inbuf 0;
        msg_type \<leftarrow> get8 inbuf 4;
        tag \<leftarrow> styx_get16 inbuf 5;
        if inlen < msg_size \<or> of_nat STYX_MAX_MSG < msg_size
        then reply_error tag (lit ''Bad message size'') srv
        else if s_msize srv \<noteq> 0 \<and> s_msize srv < msg_size
        then reply_error tag (lit ''Message exceeds negotiated msize'') srv
        else dispatch ops inbuf (unat msg_size) msg_type tag srv
      })"

end
