(* ===== verification/Styx_Wire_Facts.thy ===== *)
theory Styx_Wire_Facts
  imports Styx_Wire
begin

text \<open>
  Facts about the wire format: reading back what was packed, at any offset, and the round
  trips of the requests through the parsers.
\<close>

section \<open>Lengths\<close>

lemma length_put [simp]:
  "length (styx_put16 v) = 2" "length (styx_put32 w) = 4" "length (put_le n x) = n"
  "length (styx_put64 x) = 8"
proof -
  show le: "length (put_le n x) = n" for n x by (induction n arbitrary: x) simp_all
  show "length (styx_put64 x) = 8" by (simp add: styx_put64_def le)
qed (simp_all add: styx_put16_def styx_put32_def)

lemma length_header [simp]: "length (styx_write_header n t tag) = 7"
  by (simp add: styx_write_header_def)

lemma length_message [simp]: "length (message t tag body) = 7 + length body"
  by (simp add: message_def)

lemma length_put_qid [simp]: "length (put_qid q) = 13"
  by (simp add: put_qid_def)

text \<open>The length \<open>styx_putstr\<close> gives to a string.\<close>

definition str_len :: "bytes \<Rightarrow> nat" where
  "str_len s = min (length s mod 65536) 255"

lemma putstr_eq: "styx_putstr (Some s) = styx_put16 (of_nat (str_len s)) @ take (str_len s) s"
proof -
  have u: "unat (of_nat (length s) :: u16) = length s mod 65536" by (simp add: unat_of_nat)
  have "(if 255 < (of_nat (length s) :: u16) then 255 else of_nat (length s) :: u16) = of_nat (str_len s)"
    unfolding word_unat_eq_iff using u by (simp add: word_less_nat_alt str_len_def)
  then show ?thesis
    by (simp add: styx_putstr_def Let_def) (simp add: str_len_def)
qed

lemma putstr_None: "styx_putstr None = styx_put16 0"
  by (simp add: styx_putstr_def)

lemma length_putstr_le: "length (styx_putstr s) \<le> 257"
  by (cases s) (simp_all add: putstr_eq putstr_None str_len_def)

lemma length_putstr_ge: "2 \<le> length (styx_putstr s)"
  by (cases s) (simp_all add: putstr_eq putstr_None)

lemma putstr_short: "length s \<le> 255 \<Longrightarrow> styx_putstr (Some s) = styx_put16 (of_nat (length s)) @ s"
  by (simp add: putstr_eq str_len_def)

section \<open>Reading at an offset\<close>

lemma get8_app: "length xs \<le> n \<Longrightarrow> get8 (xs @ ys) n = get8 ys (n - length xs)"
  by (auto simp: get8_def nth_append)

lemma get8_app_left: "n < length xs \<Longrightarrow> get8 (xs @ ys) n = get8 xs n"
  by (simp add: get8_def nth_append)

lemma get8_app_add: "length xs \<le> n \<Longrightarrow> get8 (xs @ ys) (n + k) = get8 ys (n - length xs + k)"
  using get8_app [of xs "n + k" ys] by simp

lemma get16_app: "length xs \<le> n \<Longrightarrow> styx_get16 (xs @ ys) n = styx_get16 ys (n - length xs)"
  by (simp only: styx_get16_def get8_app get8_app_add diff_add_assoc2)

lemma get32_app: "length xs \<le> n \<Longrightarrow> styx_get32 (xs @ ys) n = styx_get32 ys (n - length xs)"
  by (simp only: styx_get32_def get8_app get8_app_add diff_add_assoc2)

lemma get_le_app: "length xs \<le> n \<Longrightarrow> get_le (xs @ ys) n k v = get_le ys (n - length xs) k v"
  by (induction k arbitrary: v) (simp_all add: get8_app_add)

lemma get64_app: "length xs \<le> n \<Longrightarrow> styx_get64 (xs @ ys) n = styx_get64 ys (n - length xs)"
  by (simp add: styx_get64_def get_le_app)

lemma get_bytes_app: "length xs \<le> n \<Longrightarrow> get_bytes (xs @ ys) n k = get_bytes ys (n - length xs) k"
  by (auto simp: get_bytes_def)

lemmas get_app = get8_app get16_app get32_app get64_app get_bytes_app

lemma get8_Cons: "get8 (x # xs) 0 = Some x" "get8 (x # xs) (Suc n) = get8 xs n"
  by (simp_all add: get8_def)

lemma get16_put: "styx_get16 (styx_put16 v @ ys) 0 = Some v"
proof -
  have "ucast (ucast (v AND 0xFF) :: u8) OR push_bit 8 (ucast (ucast (drop_bit 8 v AND 0xFF) :: u8)) = v"
  proof -
    have m: "(0xFF :: u16) = mask 8" by (simp add: mask_eq_exp_minus_1)
    show ?thesis
      unfolding m by (rule bit_word_eqI) (auto simp: bit_simps dest: bit_imp_le_length)
  qed
  then show ?thesis by (simp add: styx_get16_def styx_put16_def get8_def)
qed

lemma get32_put: "styx_get32 (styx_put32 v @ ys) 0 = Some v"
proof -
  have m: "(0xFF :: u32) = mask 8" by (simp add: mask_eq_exp_minus_1)
  have "((ucast (ucast (v AND 0xFF) :: u8) OR push_bit 8 (ucast (ucast (drop_bit 8 v AND 0xFF) :: u8)))
      OR push_bit 16 (ucast (ucast (drop_bit 16 v AND 0xFF) :: u8)))
      OR push_bit 24 (ucast (ucast (drop_bit 24 v AND 0xFF) :: u8)) = v"
    unfolding m
  proof (rule bit_word_eqI, goal_cases)
    case (1 n)
    then show ?case by (cases "n < 8"; cases "n < 16"; cases "n < 24") (auto simp: bit_simps)
  qed
  then show ?thesis by (simp add: styx_get32_def styx_put32_def get8_def)
qed

text \<open>The loop of \<open>styx_get64\<close> undoes the loop of \<open>styx_put64\<close>.\<close>

lemma get_le_put_le:
  "k \<le> n \<Longrightarrow> n \<le> 8 \<Longrightarrow>
   get_le (put_le n v @ ys) 0 k (drop_bit (8 * k) (take_bit (8 * n) v)) = Some (take_bit (8 * n) v)"
proof (induction k)
  case 0
  then show ?case by simp
next
  case (Suc k)
  have nth: "put_le n v ! k = ucast (drop_bit (8 * k) v AND 0xFF)" if "k < n" for n k v
    using that
  proof (induction n arbitrary: k v)
    case (Suc n)
    then show ?case by (cases k) (simp_all add: algebra_simps)
  qed simp
  have m: "(0xFF :: u64) = mask 8" by (simp add: mask_eq_exp_minus_1)
  have "push_bit 8 (drop_bit (8 * Suc k) (take_bit (8 * n) v)) OR
      ucast (ucast (drop_bit (8 * k) v AND 0xFF) :: u8) = drop_bit (8 * k) (take_bit (8 * n) v)"
    unfolding m
  proof (rule bit_word_eqI, goal_cases)
    case (1 i)
    with Suc.prems show ?case by (cases "i < 8") (auto simp: bit_simps algebra_simps)
  qed
  with Suc show ?case by (simp add: get8_def nth nth_append)
qed

lemma get64_put: "styx_get64 (styx_put64 v @ ys) 0 = Some v"
  using get_le_put_le [of 8 8 v ys] by (simp add: styx_get64_def styx_put64_def take_bit_word_eq_self)

lemma get_put [simp]:
  "styx_get16 (styx_put16 v @ ys) 0 = Some v" "styx_get16 (styx_put16 v) 0 = Some v"
  "styx_get32 (styx_put32 w @ ys) 0 = Some w" "styx_get32 (styx_put32 w) 0 = Some w"
  "styx_get64 (styx_put64 x @ ys) 0 = Some x" "styx_get64 (styx_put64 x) 0 = Some x"
  using get16_put [of v "[]"] get32_put [of w "[]"] get64_put [of x "[]"]
  by (simp_all add: get16_put get32_put get64_put)

text \<open>Reading back a string: the text it denotes and the bytes after it.\<close>

lemma getstr_put:
  assumes "length s \<le> 255" and "is_cstr s" and "int (length s) + 2 \<le> avail"
  shows "styx_getstr (xs @ styx_putstr (Some s) @ ys) (length xs) STYX_MAX_FNAME avail =
    Some (Some (s, length xs + 2 + length s))"
proof -
  have u: "unat (of_nat (length s) :: u16) = length s" using assms(1) by simp
  have v: "uint (of_nat (length s) :: u16) = int (length s)" using arg_cong [OF u, of int] by simp
  have "\<not> (255 :: u16) < of_nat (length s)" using assms(1) u by (simp add: word_less_nat_alt)
  moreover have "get_bytes (xs @ styx_put16 (of_nat (length s)) @ s @ ys) (length xs + 2) (length s) = Some s"
    by (simp add: get_app) (simp add: get_bytes_def)
  ultimately show ?thesis
    using assms u v by (simp add: styx_getstr_def putstr_short get_app Let_def)
qed

section \<open>Headers\<close>

lemma message_app: "message t tag body = styx_write_header (7 + length body) t tag @ body"
  by (simp add: message_def)

lemma header_fields:
  "styx_get32 (message t tag body) 0 = Some (of_nat (7 + length body))"
  "get8 (message t tag body) 4 = Some t"
  "styx_get16 (message t tag body) 5 = Some tag"
proof -
  show "styx_get32 (message t tag body) 0 = Some (of_nat (7 + length body))"
    by (simp add: message_def styx_write_header_def)
  have h: "message t tag body = styx_put32 (of_nat (7 + length body)) @ [t] @ styx_put16 tag @ body"
    by (simp add: message_def styx_write_header_def)
  show "get8 (message t tag body) 4 = Some t" unfolding h by (simp add: get_app get8_Cons)
  have "message t tag body = (styx_put32 (of_nat (7 + length body)) @ [t]) @ styx_put16 tag @ body"
    by (simp add: h)
  then show "styx_get16 (message t tag body) 5 = Some tag"
    using get16_app [of "styx_put32 (of_nat (7 + length body)) @ [t]" 5 "styx_put16 tag @ body"] by simp
qed

lemma message_body:
  "7 \<le> n \<Longrightarrow> get8 (message t tag body) n = get8 body (n - 7)"
  "7 \<le> n \<Longrightarrow> styx_get16 (message t tag body) n = styx_get16 body (n - 7)"
  "7 \<le> n \<Longrightarrow> styx_get32 (message t tag body) n = styx_get32 body (n - 7)"
  "7 \<le> n \<Longrightarrow> styx_get64 (message t tag body) n = styx_get64 body (n - 7)"
  unfolding message_app by (simp_all add: get_app)

section \<open>Round trips\<close>

text \<open>The names a client may send: C strings of at most 255 bytes.\<close>

definition sendable :: "bytes \<Rightarrow> bool" where
  "sendable s \<longleftrightarrow> length s \<le> 255 \<and> is_cstr s"

lemma get_names_put:
  "\<forall>s \<in> set names. sendable s \<Longrightarrow>
   int (length xs + length (concat (map (\<lambda>s. styx_putstr (Some s)) names))) \<le> limit \<Longrightarrow>
   get_names (length names) (xs @ concat (map (\<lambda>s. styx_putstr (Some s)) names) @ ys) limit (length xs)
     = Some names"
proof (induction names arbitrary: xs)
  case Nil
  then show ?case by simp
next
  case (Cons s names)
  let ?rest = "concat (map (\<lambda>s. styx_putstr (Some s)) names)"
  let ?xs = "xs @ styx_putstr (Some s)"
  have s: "length s \<le> 255" "is_cstr s" using Cons.prems(1) by (auto simp: sendable_def)
  then have len: "length (styx_putstr (Some s)) = 2 + length s" by (simp add: putstr_short)
  have "styx_getstr (xs @ styx_putstr (Some s) @ ?rest @ ys) (length xs) STYX_MAX_FNAME
      (limit - int (length xs)) = Some (Some (s, length xs + 2 + length s))"
    using s Cons.prems(2) len by (intro getstr_put) auto
  moreover have "get_names (length names) (?xs @ ?rest @ ys) limit (length ?xs) = Some names"
    using Cons.prems by (intro Cons.IH) (auto simp: algebra_simps)
  ultimately show ?case using len by simp
qed

lemma length_concat_putstr:
  "2 * length names \<le> length (concat (map (\<lambda>s. styx_putstr (Some s)) names))"
  "length (concat (map (\<lambda>s. styx_putstr (Some s)) names)) \<le> 257 * length names"
proof (induction names)
  case (Cons s names)
  {
    case 1
    then show ?case using Cons length_putstr_ge [of "Some s"] by simp
  next
    case 2
    then show ?case using Cons length_putstr_le [of "Some s"] by simp
  }
qed simp_all

lemma walk_body:
  fixes fid newfid :: u32
  assumes "\<forall>s \<in> set names. sendable s" and "length names \<le> 16"
  defines "body \<equiv> styx_put32 fid @ styx_put32 newfid @ styx_put16 (of_nat (length names)) @
     concat (map (\<lambda>s. styx_putstr (Some s)) names)"
  shows "styx_build_twalk tag fid newfid (map Some names) (int (length names)) = message STX_TWALK tag body"
    and "get_names (length names) (message STX_TWALK tag body) (int (7 + length body)) 17 = Some names"
proof -
  show "styx_build_twalk tag fid newfid (map Some names) (int (length names)) = message STX_TWALK tag body"
    using assms(2) by (simp add: styx_build_twalk_def body_def o_def)
  let ?pre = "styx_write_header (7 + length body) STX_TWALK tag @ styx_put32 fid @ styx_put32 newfid @
    styx_put16 (of_nat (length names))"
  have "message STX_TWALK tag body = ?pre @ concat (map (\<lambda>s. styx_putstr (Some s)) names) @ []"
    by (simp add: message_def body_def)
  then show "get_names (length names) (message STX_TWALK tag body) (int (7 + length body)) 17 = Some names"
    using get_names_put [OF assms(1), of ?pre "int (7 + length body)" "[]"] by (simp add: body_def)
qed

text \<open>
  the fixed-size requests survive the wire: what \<open>styx_build_topen\<close>, \<open>styx_build_tread\<close>,
  \<open>styx_build_tclunk\<close> and \<open>styx_build_tstat\<close> encode, the matching parser reads back, for
  every field value.
\<close>

lemma fixed_requests_roundtrip:
  "styx_parse_open False (styx_build_topen tag fid mode) 12 = Some (Some (fid, of_int mode)) \<and>
   styx_parse_read False (styx_build_tread tag fid offset count) 23 = Some (Some (fid, offset, count)) \<and>
   styx_parse_clunk False (styx_build_tclunk tag fid) 11 = Some (Some fid) \<and>
   styx_parse_stat False (styx_build_tstat tag fid) 11 = Some (Some fid)"
  by (simp add: styx_parse_open_def styx_build_topen_def styx_parse_read_def styx_build_tread_def
      styx_parse_clunk_def styx_build_tclunk_def styx_parse_stat_def styx_build_tstat_def
      header_fields message_body get_app get8_Cons)

text \<open>
  C7: a non-empty write and a walk over one to sixteen names survive the wire: the parsers
  return the fid, the offset and exactly the bytes written, and the walk's names in order. (The
  parsers refuse an empty write and a walk over no names; see \<open>clone_and_empty_write_refused\<close>.)
\<close>

theorem variable_requests_roundtrip:
  assumes "0 < length data" and "length data < 2 ^ 32 - 23"
    and "\<forall>s \<in> set names. sendable s" and "0 < length names" and "length names \<le> 16"
  shows "(let m = styx_build_twrite tag fid offset (of_nat (length data)) data
     in styx_parse_write False m (of_nat (length m)) = Some (Some (fid, offset, of_nat (length data), data))) \<and>
    (let m = styx_build_twalk tag fid newfid (map Some names) (int (length names))
     in styx_parse_walk False m (of_nat (length m)) = Some (Some (fid, newfid, names, length names)))"
proof
  have n: "unat (of_nat (length data) :: u32) = length data" using assms(2) by simp
  let ?m = "styx_build_twrite tag fid offset (of_nat (length data)) data"
  have len: "length ?m = 23 + length data" using n by (simp add: styx_build_twrite_def)
  moreover from this have "unat (of_nat (length ?m) :: u32) = 23 + length data"
    using assms(2) by (simp only: len) (rule unat_of_nat_u32, simp)
  ultimately have "\<not> (of_nat (length ?m) :: u32) < 24"
    using assms(1) by (cases data) (simp_all add: word_less_nat_alt)
  moreover have "drop 23 ?m = data" using n by (simp add: styx_build_twrite_def message_def)
  ultimately show "let m = styx_build_twrite tag fid offset (of_nat (length data)) data
     in styx_parse_write False m (of_nat (length m)) = Some (Some (fid, offset, of_nat (length data), data))"
    by (simp add: styx_parse_write_def styx_build_twrite_def header_fields message_body get_app Let_def)
next
  define body where "body = styx_put32 fid @ styx_put32 newfid @ styx_put16 (of_nat (length names)) @
     concat (map (\<lambda>s. styx_putstr (Some s)) names)"
  note w = walk_body [OF assms(3,5), where fid = fid and newfid = newfid and tag = tag, folded body_def]
  have "2 \<le> length (concat (map (\<lambda>s. styx_putstr (Some s)) names))"
    using length_concat_putstr(1) [of names] assms(4) by linarith
  then have l: "19 \<le> 7 + length body" "7 + length body < 2 ^ 32"
    using length_concat_putstr(2) [of names] assms(5) by (auto simp: body_def)
  then have u: "unat (of_nat (7 + length body) :: u32) = 7 + length body" by (intro unat_of_nat_u32) simp
  then have "\<not> (of_nat (7 + length body) :: u32) < 18" using l by (simp only: word_less_nat_alt) simp
  moreover have "unat (of_nat (length names) :: u16) = length names" using assms(5) by simp
  moreover have "styx_get32 body 0 = Some fid" "styx_get32 body 4 = Some newfid"
    "styx_get16 body 8 = Some (of_nat (length names))"
    by (simp_all add: body_def get_app)
  ultimately show "let m = styx_build_twalk tag fid newfid (map Some names) (int (length names))
     in styx_parse_walk False m (of_nat (length m)) = Some (Some (fid, newfid, names, length names))"
    unfolding w(1) Let_def length_message styx_parse_walk_def u
    using w(2) assms(5) by (simp add: header_fields message_body min_absorb1 del: of_nat_add)
qed

theorem variable_requests_roundtrip_witness:
  "(let m = styx_build_twrite 7 1 0 2 [65, 66]
     in styx_parse_write False m (of_nat (length m)) = Some (Some (1, 0, 2, [65, 66]))) \<and>
    (let m = styx_build_twalk 7 1 2 [Some [117, 115, 114], Some [98, 105, 110]] 2
     in styx_parse_walk False m (of_nat (length m)) = Some (Some (1, 2, [[117, 115, 114], [98, 105, 110]], Suc (Suc 0))))"
  using variable_requests_roundtrip [of "[65, 66]" "[[117, 115, 114], [98, 105, 110]]" 7 1 0 2]
  by (simp add: sendable_def is_cstr_def)

text \<open>
  Two requests a client can build are refused by the client-side parsers: a clone (a walk
  over no names, 17 bytes) and an empty write (23 bytes), because the length tests ask for
  one byte more than the fixed fields.
\<close>

lemma clone_and_empty_write_refused:
  "styx_parse_walk False (styx_build_twalk tag fid newfid [] 0) 17 = Some None"
  "styx_parse_write False (styx_build_twrite tag fid offset 0 []) 23 = Some None"
  by (simp_all add: styx_parse_walk_def styx_parse_write_def)

end
