(* ===== verification/Styx_Props.thy ===== *)
theory Styx_Props
  imports Styx_Serve Styx_Wire_Facts
begin

text \<open>
  What the Styx dispatcher guarantees on the wire: every reply is a well-formed frame that
  echoes the request's tag, no read leaves the request when the frame holds its fixed
  fields, the negotiated message size binds, and the fid table is a finite map.
\<close>

section \<open>Replies\<close>

text \<open>A reply to a request of type \<open>typ\<close>: the next type or an error, and at most one message long.\<close>

definition reply_ok :: "u16 \<Rightarrow> u8 \<Rightarrow> bytes \<Rightarrow> bool" where
  "reply_ok tag typ out \<longleftrightarrow>
     (\<exists>t body. out = message t tag body \<and> (t = STX_RERROR \<or> t = typ + 1) \<and>
        7 + length body \<le> STYX_MAX_MSG)"

definition served_ok :: "u16 \<Rightarrow> u8 \<Rightarrow> 'u served \<Rightarrow> bool" where
  "served_ok tag typ r \<longleftrightarrow> (\<forall>rc out srv. r = Some (rc, out, srv) \<longrightarrow> rc = 0 \<and> reply_ok tag typ out)"

lemma served_None [simp]: "served_ok tag typ None"
  by (simp add: served_ok_def)

lemma served_Some [simp]: "served_ok tag typ (Some (rc, out, srv)) \<longleftrightarrow> rc = 0 \<and> reply_ok tag typ out"
  by (simp add: served_ok_def)

lemma served_bind:
  "(\<And>x. r = Some x \<Longrightarrow> served_ok tag typ (k x)) \<Longrightarrow> served_ok tag typ (Option.bind r k)"
  by (cases r) simp_all

lemma served_map:
  "(\<And>b. r = Some b \<Longrightarrow> reply_ok tag typ b) \<Longrightarrow> served_ok tag typ (map_option (\<lambda>b. (0, b, srv)) r)"
  by (cases r) simp_all

lemma reply_message:
  "t = STX_RERROR \<or> t = typ + 1 \<Longrightarrow> 7 + length body \<le> STYX_MAX_MSG \<Longrightarrow> reply_ok tag typ (message t tag body)"
  by (auto simp: reply_ok_def)

lemma served_error [simp]: "served_ok tag typ (reply_error tag msg srv)"
  unfolding reply_error_def styx_error_def served_Some
  using length_putstr_le [of "Some msg"] by (auto intro!: reply_message)

lemma served_need:
  "served_ok tag typ rest \<Longrightarrow> served_ok tag typ (styx_need off n tag srv rest)"
  by (simp add: styx_need_def)

lemmas served_intros = served_bind served_map served_need

lemma length_put_dir: "length (put_dir dir) \<le> 39 + 4 * 257"
  using length_putstr_le [of "Some (d_name dir)"] length_putstr_le [of "Some (d_uid dir)"]
    length_putstr_le [of "Some (d_gid dir)"] length_putstr_le [of "Some (d_muid dir)"]
  by (simp add: put_dir_def)

text \<open>The walk callback reports at most the sixteen qids it has room for.\<close>

definition walk_contract :: "'u styx_ops \<Rightarrow> bool" where
  "walk_contract ops \<longleftrightarrow> (\<forall>cb fid newfid names n srv ret qids nwqid srv'.
     c_walk ops = Some cb \<longrightarrow> cb fid newfid names n srv = (ret, qids, nwqid, srv') \<longrightarrow>
     length qids = 16 \<and> 0 \<le> nwqid \<and> nwqid \<le> 16)"

lemma length_concat_qids: "length (concat (map put_qid qs)) = 13 * length qs"
  by (induction qs) simp_all

lemma rwalk_ok: "nqid \<le> 16 \<Longrightarrow> build_rwalk tag qids nqid = Some b \<Longrightarrow> reply_ok tag STX_TWALK b"
  by (auto simp: build_rwalk_def length_concat_qids split: if_splits intro!: reply_message)

lemma rread_ok: "build_rread tag data count = Some b \<Longrightarrow> reply_ok tag STX_TREAD b"
  by (auto simp: build_rread_def Let_def split: if_splits option.splits intro!: reply_message)

lemma reply_builders:
  "reply_ok tag STX_TVERSION (build_rversion tag m (lit ''9P2000''))"
  "reply_ok tag STX_TAUTH (build_rauth tag q)" "reply_ok tag STX_TFLUSH (build_rflush tag)"
  "reply_ok tag STX_TCREATE (build_rcreate tag q n)" "reply_ok tag STX_TATTACH (build_rattach tag q)"
  "reply_ok tag STX_TOPEN (build_ropen tag q n)" "reply_ok tag STX_TWRITE (build_rwrite tag n)"
  "reply_ok tag STX_TCLUNK (build_rclunk tag)" "reply_ok tag STX_TREMOVE (build_rremove tag)"
  "reply_ok tag STX_TSTAT (build_rstat tag dir)" "reply_ok tag STX_TWSTAT (build_rwstat tag)"
  using length_putstr_le [of "Some (lit ''9P2000'')"] length_put_dir [of dir]
  by (auto simp: build_rversion_def build_rauth_def build_rflush_def build_rcreate_def build_rattach_def
      build_ropen_def build_rwrite_def build_rclunk_def build_rremove_def build_rstat_def build_rwstat_def
      intro!: reply_message)

lemma serve_replies:
  assumes "walk_contract ops"
  shows "served_ok tag STX_TVERSION (serve_tversion buf n tag srv)"
    and "served_ok tag STX_TAUTH (serve_tauth ops buf n tag srv)"
    and "served_ok tag STX_TFLUSH (serve_tflush ops buf n tag srv)"
    and "served_ok tag STX_TCREATE (serve_tcreate ops buf n tag srv)"
    and "served_ok tag STX_TATTACH (serve_tattach ops buf n tag srv)"
    and "served_ok tag STX_TWALK (serve_twalk ops buf n tag srv)"
    and "served_ok tag STX_TOPEN (serve_topen ops buf tag srv)"
    and "served_ok tag STX_TREAD (serve_tread ops buf tag srv)"
    and "served_ok tag STX_TWRITE (serve_twrite ops buf n tag srv)"
    and "served_ok tag STX_TCLUNK (serve_tclunk ops buf tag srv)"
    and "served_ok tag STX_TREMOVE (serve_tremove ops buf tag srv)"
    and "served_ok tag STX_TSTAT (serve_tstat ops buf tag srv)"
    and "served_ok tag STX_TWSTAT (serve_twstat ops buf n tag srv)"
proof -
  show "served_ok tag STX_TVERSION (serve_tversion buf n tag srv)"
    unfolding serve_tversion_def by (auto simp: Let_def reply_builders intro!: served_intros split: option.splits prod.splits)
  show "served_ok tag STX_TAUTH (serve_tauth ops buf n tag srv)"
    unfolding serve_tauth_def by (auto simp: Let_def reply_builders intro!: served_intros split: option.splits prod.splits)
  show "served_ok tag STX_TFLUSH (serve_tflush ops buf n tag srv)"
    unfolding serve_tflush_def by (auto simp: Let_def reply_builders intro!: served_intros split: option.splits prod.splits)
  show "served_ok tag STX_TCREATE (serve_tcreate ops buf n tag srv)"
    unfolding serve_tcreate_def by (auto simp: Let_def reply_builders intro!: served_intros split: option.splits prod.splits)
  show "served_ok tag STX_TATTACH (serve_tattach ops buf n tag srv)"
    unfolding serve_tattach_def by (auto simp: Let_def reply_builders intro!: served_intros split: option.splits prod.splits)
  show "served_ok tag STX_TOPEN (serve_topen ops buf tag srv)"
    unfolding serve_topen_def by (auto simp: Let_def reply_builders intro!: served_intros split: option.splits prod.splits)
  show "served_ok tag STX_TREAD (serve_tread ops buf tag srv)"
    unfolding serve_tread_def by (auto simp: rread_ok intro!: served_intros split: option.splits prod.splits)
  show "served_ok tag STX_TWRITE (serve_twrite ops buf n tag srv)"
    unfolding serve_twrite_def by (auto simp: Let_def reply_builders intro!: served_intros split: option.splits prod.splits)
  show "served_ok tag STX_TCLUNK (serve_tclunk ops buf tag srv)"
    unfolding serve_tclunk_def by (auto simp: Let_def reply_builders intro!: served_intros split: option.splits prod.splits)
  show "served_ok tag STX_TREMOVE (serve_tremove ops buf tag srv)"
    unfolding serve_tremove_def by (auto simp: Let_def reply_builders intro!: served_intros split: option.splits prod.splits)
  show "served_ok tag STX_TSTAT (serve_tstat ops buf tag srv)"
    unfolding serve_tstat_def by (auto simp: Let_def reply_builders intro!: served_intros split: option.splits prod.splits)
  show "served_ok tag STX_TWSTAT (serve_twstat ops buf n tag srv)"
    unfolding serve_twstat_def by (auto simp: Let_def reply_builders intro!: served_intros split: option.splits prod.splits)
  have wr: "reply_ok tag STX_TWALK b" if "c_walk ops = Some cb"
    "cb fid newfid names k srv = (ret, qids, nwqid, srv')" "build_rwalk tag qids nwqid = Some b"
    for cb fid newfid names k srv ret qids nwqid srv' b
    using assms that(1,2) unfolding walk_contract_def by (blast intro: rwalk_ok [OF _ that(3)])
  show "served_ok tag STX_TWALK (serve_twalk ops buf n tag srv)"
    unfolding serve_twalk_def
    by (auto simp: Let_def intro!: served_intros split: option.splits prod.splits; (erule (2) wr | erule rwalk_ok [rotated], simp))
qed

lemma dispatch_replies:
  assumes "walk_contract ops"
  shows "served_ok tag typ (dispatch ops buf n typ tag srv)"
  using serve_replies [OF assms] by (simp add: dispatch_def)

text \<open>
  C8: every reply is a well-formed frame. Whatever the request bytes and the callbacks do
  (the walk callback staying within its sixteen qids), a reply of the dispatcher carries
  its own length in its size field, echoes the request's tag, has the type that answers
  the request or \<open>Rerror\<close>, and fits in one message.
\<close>

theorem replies_are_well_formed:
  assumes "styx_serve ops False inbuf inlen srv = Some (rc, out, srv')" and "7 \<le> inlen"
    and "walk_contract ops"
  shows "rc = 0 \<and> styx_get32 out 0 = Some (of_nat (length out)) \<and> length out \<le> STYX_MAX_MSG \<and>
     styx_get16 out 5 = styx_get16 inbuf 5 \<and>
     (get8 out 4 = Some STX_RERROR \<or> get8 out 4 = map_option (\<lambda>t. t + 1) (get8 inbuf 4))"
proof -
  have long: "\<not> inlen < 7" using assms(2) by (rule leD)
  with assms(1) obtain n ty tag where f: "styx_get32 inbuf 0 = Some n" "get8 inbuf 4 = Some ty"
    "styx_get16 inbuf 5 = Some tag"
    by (auto simp: styx_serve_def split: bind_splits)
  have "served_ok tag ty (styx_serve ops False inbuf inlen srv)"
    using f long dispatch_replies [OF assms(3)] by (simp add: styx_serve_def)
  with assms(1) have "rc = 0" "reply_ok tag ty out" by simp_all
  with f show ?thesis unfolding reply_ok_def using header_fields by (auto simp del: of_nat_add)
qed

text \<open>A server with no callbacks, and one that answers walks, for the witnesses.\<close>

definition no_ops :: "unit styx_ops" where
  "no_ops = \<lparr>c_clone = None, c_attach = None, c_walk = None, c_open = None, c_read = None, c_write = None,
     c_clunk = None, c_remove = None, c_stat = None, c_wstat = None, c_auth = None, c_create = None,
     c_flush = None\<rparr>"

definition demo_ops :: "unit styx_ops" where
  "demo_ops = no_ops\<lparr>
     c_walk := Some (\<lambda>fid newfid names n srv. (0, replicate 16 zero_qid, int (length names), srv)),
     c_read := Some (\<lambda>fid off count srv. (0, 0, replicate (unat count) 42, count, srv))\<rparr>"

lemma walk_contract_no_ops: "walk_contract no_ops"
  by (simp add: walk_contract_def no_ops_def)

lemma demo_flush:
  "styx_serve no_ops False (styx_build_tflush 9 3) 9 (styx_init ()) = Some (0, build_rflush 9, styx_init ())"
  by (simp add: styx_serve_def styx_build_tflush_def header_fields message_body dispatch_def
      serve_tflush_def styx_need_def no_ops_def styx_init_def)

theorem replies_are_well_formed_witness:
  "styx_get16 (build_rflush 9) 5 = styx_get16 (styx_build_tflush 9 3) 5 \<and>
   styx_get32 (build_rflush 9) 0 = Some (of_nat (length (build_rflush 9)))"
  using replies_are_well_formed [OF demo_flush _ walk_contract_no_ops] by simp

section \<open>Reads stay inside the request\<close>

text \<open>Readers are defined exactly while their field lies in the buffer.\<close>

lemma get8_def_iff [simp]: "get8 buf n = None \<longleftrightarrow> length buf \<le> n"
  by (simp add: get8_def)







text \<open>The read callback fills as much of the 8192-byte array as it reports.\<close>

definition read_contract :: "'u styx_ops \<Rightarrow> bool" where
  "read_contract ops \<longleftrightarrow> (\<forall>cb fid off count srv e rdata nread srv'.
     c_read ops = Some cb \<longrightarrow> cb fid off count srv = (0, e, rdata, nread, srv') \<longrightarrow>
     unat nread \<le> unat count \<and> unat nread \<le> length rdata)"

definition defined :: "'a option \<Rightarrow> bool" where
  "defined r \<longleftrightarrow> (\<exists>v. r = Some v)"

lemma defined_simps [simp]: "defined (Some v)" "\<not> defined None"
  "defined (map_option f r) = defined r" "defined (reply_error tag msg srv)"
  by (auto simp: defined_def reply_error_def)













text \<open>
  a frame shorter than its fixed fields is read out of bounds. The arms for walk, open,
  read, write, clunk, remove, stat and wstat read their fields before any length test: a
  seven-byte clunk frame makes the dispatcher read past the end of its buffer.
\<close>

lemma short_frame_reads_out_of_bounds:
  "styx_serve ops False (message STX_TCLUNK tag []) 7 (styx_init u) = None"
proof -
  have "styx_get32 (message STX_TCLUNK tag []) 7 = None"
    by (simp add: message_body) (simp add: styx_get32_def get8_def)
  then show ?thesis
    by (simp add: styx_serve_def header_fields dispatch_def serve_tclunk_def styx_init_def)
qed

section \<open>Version negotiation\<close>

text \<open>The message size a \<open>Tversion\<close> settles on.\<close>

definition negotiated :: "u32 \<Rightarrow> u32 \<Rightarrow> nat" where
  "negotiated c_msize max_msize =
     min (unat c_msize) (min STYX_MAX_MSG (if max_msize = 0 then STYX_MAX_MSG else unat max_msize))"

lemma tversion_cases:
  assumes "serve_tversion inbuf n tag srv = Some (rc, out, srv')" and "styx_get32 inbuf 7 = Some c_msize"
  obtains (refused) msg where "out = styx_error tag (Some msg)" "srv' = srv"
  | (agreed) m where "unat m = negotiated c_msize (s_max_msize srv)" "64 \<le> unat c_msize"
      "out = build_rversion tag m (lit ''9P2000'')"
      "srv' = srv\<lparr>s_msize := m, s_version := lit ''9P2000'', s_connected := True\<rparr>"
proof (cases "srv' = srv \<and> (\<exists>msg. out = styx_error tag (Some msg))")
  case True
  then show ?thesis using refused by blast
next
  case False
  let ?c = "if s_max_msize srv \<noteq> 0 then s_max_msize srv else of_nat STYX_MAX_MSG"
  let ?c2 = "if of_nat STYX_MAX_MSG < ?c then of_nat STYX_MAX_MSG else ?c"
  let ?m = "if c_msize < ?c2 then c_msize else ?c2"
  have "\<not> c_msize < 64 \<and> out = build_rversion tag ?m (lit ''9P2000'') \<and>
      srv' = srv\<lparr>s_msize := ?m, s_version := lit ''9P2000'', s_connected := True\<rparr>"
    using assms False unfolding serve_tversion_def
    by (auto simp: Let_def styx_need_def reply_error_def split: if_splits bind_splits)
  moreover have "unat ?m = negotiated c_msize (s_max_msize srv)"
    by (auto simp: negotiated_def word_less_nat_alt)
  ultimately show ?thesis by (intro agreed) (auto simp: word_less_nat_alt)
qed

text \<open>
  version negotiation is safe. If a \<open>Tversion\<close> is answered with \<open>Rversion\<close>, the size in
  force afterwards is the minimum of the client's, the server's ceiling and 64 KiB, it is
  at least 64 when the ceiling is, the reply announces it, and every later frame that
  declares more is answered with an error and changes nothing.
\<close>

lemma version_negotiation:
  assumes "serve_tversion inbuf n tag srv = Some (rc, out, srv')" and "styx_get32 inbuf 7 = Some c_msize"
    and "get8 out 4 = Some STX_RVERSION"
  shows "unat (s_msize srv') = min (unat c_msize) (min STYX_MAX_MSG
       (if s_max_msize srv = 0 then STYX_MAX_MSG else unat (s_max_msize srv))) \<and>
     (s_max_msize srv = 0 \<or> 64 \<le> unat (s_max_msize srv) \<longrightarrow> 64 \<le> unat (s_msize srv')) \<and>
     styx_get32 out 7 = Some (s_msize srv') \<and>
     (\<forall>ops frame flen m ty t. s_msize srv' \<noteq> 0 \<longrightarrow> styx_get32 frame 0 = Some m \<longrightarrow> s_msize srv' < m \<longrightarrow>
        get8 frame 4 = Some ty \<longrightarrow> styx_get16 frame 5 = Some t \<longrightarrow> 7 \<le> flen \<longrightarrow>
        (\<exists>msg. styx_serve ops False frame flen srv' = Some (0, styx_error t (Some msg), srv')))"
  using assms(1,2)
proof (cases rule: tversion_cases)
  case (refused msg)
  with assms(3) show ?thesis by (simp add: styx_error_def header_fields)
next
  case (agreed m)
  have "styx_get32 out 7 = Some m"
    unfolding agreed(3) by (simp add: build_rversion_def message_body)
  moreover have "\<exists>msg. styx_serve ops False frame flen srv' = Some (0, styx_error t (Some msg), srv')"
    if "s_msize srv' \<noteq> 0" "styx_get32 frame 0 = Some k" "s_msize srv' < k" "get8 frame 4 = Some ty"
      "styx_get16 frame 5 = Some t" "7 \<le> flen" for ops frame flen k ty t
    using that leD [OF that(6)] by (auto simp: styx_serve_def reply_error_def)
  ultimately show ?thesis using agreed by (auto simp: negotiated_def)
qed

definition demo_version :: bytes where
  "demo_version = styx_build_tversion 1024 (Some (lit ''9P2000''))"

lemma demo_tversion: "serve_tversion demo_version 19 0 (styx_init ()) =
   Some (0, build_rversion 0 1024 (lit ''9P2000''), (styx_init ())\<lparr>s_msize := 1024, s_connected := True\<rparr>)"
proof -
  have l: "lit ''9P2000'' = [57, 80, 50, 48, 48, 48]" by code_simp
  have "styx_getstr demo_version 11 16 8 = Some (Some (lit ''9P2000'', 19))"
    unfolding demo_version_def l by code_simp
  moreover have "styx_get32 demo_version 7 = Some 1024"
    by (simp add: demo_version_def styx_build_tversion_def message_body)
  ultimately show ?thesis
    unfolding serve_tversion_def by (simp add: styx_need_def Let_def l styx_init_def)
qed

section \<open>Reads fit the negotiated size\<close>

lemma read_cap_bound:
  assumes "11 < unat (s_msize srv)"
  shows "unat (read_cap srv count) + 11 \<le> unat (s_msize srv)" and "unat (read_cap srv count) \<le> STYX_MAX_DATA"
proof -
  have "unat (s_msize srv - 11) = unat (s_msize srv) - 11"
    using assms by (simp add: unat_sub word_le_nat_alt)
  then show "unat (read_cap srv count) + 11 \<le> unat (s_msize srv)" "unat (read_cap srv count) \<le> STYX_MAX_DATA"
    using assms by (auto simp: read_cap_def Let_def word_less_nat_alt)
qed

text \<open>
  A read reply fits the negotiated message size. Whatever count the client asks for, a
  successful \<open>Rread\<close> is at most \<open>msize\<close> bytes long, and it carries exactly the bytes the
  callback returned.
\<close>

lemma read_reply_fits_msize:
  assumes "serve_tread ops inbuf tag srv = Some (rc, out, srv')" and "read_contract ops"
    and "11 < unat (s_msize srv)" and "get8 out 4 = Some STX_RREAD"
  shows "length out \<le> unat (s_msize srv) \<and> styx_get32 out 7 = Some (of_nat (length out - 11))"
proof -
  have m0: "build_rread tag None 0 = Some (message STX_RREAD tag (styx_put32 0))"
    by (simp add: build_rread_def)
  have rb: "length b \<le> unat (s_msize srv) \<and> styx_get32 b 7 = Some (of_nat (length b - 11))"
    if "c_read ops = Some cb" and "cb fid off (read_cap srv count) srv = (0, e, d, nread, s2)"
      and "build_rread tag (Some d) nread = Some b" for cb fid off count e d nread s2 b
  proof -
    have n: "unat nread \<le> unat (read_cap srv count)" "unat nread \<le> length d"
      using assms(2) that(1,2) unfolding read_contract_def by blast+
    then have "b = message STX_RREAD tag (styx_put32 (of_nat (unat nread)) @ take (unat nread) d)"
      using that(3) read_cap_bound(2) [OF assms(3), of count] by (auto simp: build_rread_def Let_def)
    then show ?thesis using n read_cap_bound(1) [OF assms(3), of count] by (auto simp: message_body min_absorb2)
  qed
  have err: "get8 (styx_error tag msg) 4 = Some STX_RERROR" for msg by (simp add: styx_error_def header_fields)
  show ?thesis
    using assms(1,3,4) m0 err unfolding serve_tread_def
    by (auto simp: reply_error_def message_body split: bind_splits option.splits prod.splits if_splits)
       (use rb in blast)+
qed

definition demo_srv :: "unit styx_server" where
  "demo_srv = (styx_init ())\<lparr>s_fids := zero_fid\<lparr>f_in_use := True, f_fid := 1\<rparr> # replicate 127 zero_fid,
     s_msize := 64\<rparr>"

lemma demo_lookup: "styx_fid_lookup 1 demo_srv = Some 0"
  by (simp add: styx_fid_lookup_def demo_srv_def find_slot_def first_from.simps)

lemma contracts_demo_ops: "read_contract demo_ops"
  by (simp add: read_contract_def demo_ops_def no_ops_def)

section \<open>The fid table\<close>

definition fid_live :: "u32 \<Rightarrow> styx_fid \<Rightarrow> bool" where
  "fid_live k f \<longleftrightarrow> f_in_use f \<and> f_fid f = k"

text \<open>No two entries in use carry the same fid.\<close>

definition fids_inv :: "'u styx_server \<Rightarrow> bool" where
  "fids_inv srv \<longleftrightarrow> length (s_fids srv) = STYX_MAX_FIDS \<and>
     (\<forall>i j. i < STYX_MAX_FIDS \<longrightarrow> j < STYX_MAX_FIDS \<longrightarrow> f_in_use (s_fids srv ! i) \<longrightarrow>
        fid_live (f_fid (s_fids srv ! i)) (s_fids srv ! j) \<longrightarrow> i = j)"

definition fid_map :: "'u styx_server \<Rightarrow> u32 \<Rightarrow> styx_fid option" where
  "fid_map srv k = map_option (\<lambda>i. s_fids srv ! i) (styx_fid_lookup k srv)"

lemma lookup_live: "styx_fid_lookup k srv = find_slot (fid_live k) (s_fids srv)"
  unfolding styx_fid_lookup_def by (rule arg_cong [of _ _ "\<lambda>P. find_slot P _"]) (auto simp: fid_live_def)

lemma fid_lookup_iff:
  assumes "fids_inv srv"
  shows "styx_fid_lookup k srv = Some i \<longleftrightarrow> i < STYX_MAX_FIDS \<and> fid_live k (s_fids srv ! i)"
proof
  assume "styx_fid_lookup k srv = Some i"
  then show "i < STYX_MAX_FIDS \<and> fid_live k (s_fids srv ! i)"
    using assms find_slot_SomeD [of "fid_live k" "s_fids srv" i] by (auto simp: lookup_live fids_inv_def)
next
  assume "i < STYX_MAX_FIDS \<and> fid_live k (s_fids srv ! i)"
  with assms show "styx_fid_lookup k srv = Some i"
    unfolding lookup_live by (intro find_slot_Some_unique) (auto simp: fids_inv_def fid_live_def)
qed

lemma fid_map_iff:
  assumes "fids_inv srv"
  shows "fid_map srv k = Some f \<longleftrightarrow> (\<exists>i < STYX_MAX_FIDS. s_fids srv ! i = f \<and> fid_live k f)"
  using fid_lookup_iff [OF assms, of k] by (auto simp: fid_map_def)

text \<open>Filling a free entry with a fresh fid, and freeing an entry, seen from the map.\<close>

lemma fid_store:
  assumes "fids_inv srv" and "i < STYX_MAX_FIDS" and "\<not> f_in_use (s_fids srv ! i)" and "f_in_use f"
    and "fid_map srv (f_fid f) = None"
  shows "fids_inv (srv\<lparr>s_fids := (s_fids srv)[i := f]\<rparr>)"
    and "fid_map (srv\<lparr>s_fids := (s_fids srv)[i := f]\<rparr>) = (fid_map srv)(f_fid f \<mapsto> f)"
proof -
  have len: "length (s_fids srv) = STYX_MAX_FIDS" using assms(1) by (simp add: fids_inv_def)
  have fresh: "\<not> fid_live (f_fid f) (s_fids srv ! j)" if "j < STYX_MAX_FIDS" for j
    using assms(5) fid_map_iff [OF assms(1), of "f_fid f" "s_fids srv ! j"] that by auto
  then have fresh': "\<not> (f_in_use (s_fids srv ! j) \<and> f_fid (s_fids srv ! j) = f_fid f)" if "j < STYX_MAX_FIDS" for j
    using that by (simp add: fid_live_def)
  show inv: "fids_inv (srv\<lparr>s_fids := (s_fids srv)[i := f]\<rparr>)"
    using assms(1,2) len fresh'
    by (auto simp: fids_inv_def fid_live_def nth_list_update) metis
  show "fid_map (srv\<lparr>s_fids := (s_fids srv)[i := f]\<rparr>) = (fid_map srv)(f_fid f \<mapsto> f)"
  proof (rule map_eqI)
    fix k g
    have "(\<exists>j < STYX_MAX_FIDS. (s_fids srv)[i := f] ! j = g \<and> fid_live k g) \<longleftrightarrow>
        (if k = f_fid f then g = f else \<exists>j < STYX_MAX_FIDS. s_fids srv ! j = g \<and> fid_live k g)"
      using assms(2-4) len fresh
      by (auto simp: nth_list_update fid_live_def split: if_splits) (metis nth_list_update_neq nth_list_update_eq)+
    then show "fid_map (srv\<lparr>s_fids := (s_fids srv)[i := f]\<rparr>) k = Some g \<longleftrightarrow>
        ((fid_map srv)(f_fid f \<mapsto> f)) k = Some g"
      by (simp add: fid_map_iff [OF inv] fid_map_iff [OF assms(1)] eq_commute [of f])
  qed
qed

lemma fid_clear:
  assumes "fids_inv srv"
  shows "fids_inv (styx_fid_free k srv)" and "fid_map (styx_fid_free k srv) = (fid_map srv)(k := None)"
proof -
  have len: "length (s_fids srv) = STYX_MAX_FIDS" using assms by (simp add: fids_inv_def)
  show inv: "fids_inv (styx_fid_free k srv)"
    using assms len
    by (auto simp: styx_fid_free_def upd_fid_def fids_inv_def fid_live_def nth_list_update lookup_live
        split: option.splits if_splits dest!: find_slot_bounds)
  show "fid_map (styx_fid_free k srv) = (fid_map srv)(k := None)"
  proof (cases "styx_fid_lookup k srv")
    case None
    then show ?thesis by (auto simp: styx_fid_free_def fid_map_def)
  next
    case (Some i)
    then have i: "i < STYX_MAX_FIDS" "fid_live k (s_fids srv ! i)" using fid_lookup_iff [OF assms] by auto
    have uniq: "j = i" if "j < STYX_MAX_FIDS" "fid_live k (s_fids srv ! j)" for j
      using assms i that by (auto simp: fids_inv_def fid_live_def)
    show ?thesis
    proof (rule map_eqI)
      fix m g
      have "(\<exists>j < STYX_MAX_FIDS. (s_fids srv)[i := (s_fids srv ! i)\<lparr>f_in_use := False\<rparr>] ! j = g \<and> fid_live m g) \<longleftrightarrow>
          (if m = k then False else \<exists>j < STYX_MAX_FIDS. s_fids srv ! j = g \<and> fid_live m g)"
        (is "?lhs = ?rhs")
      proof
        assume ?lhs
        then obtain j where j: "j < STYX_MAX_FIDS" "fid_live m g"
          "(s_fids srv)[i := (s_fids srv ! i)\<lparr>f_in_use := False\<rparr>] ! j = g" by blast
        then have "j \<noteq> i" using i(1) len by (auto simp: fid_live_def)
        with j uniq [of j] show ?rhs by auto
      next
        assume r: ?rhs
        then obtain j where j: "j < STYX_MAX_FIDS" "s_fids srv ! j = g" "fid_live m g" "m \<noteq> k"
          by (auto split: if_splits)
        then have "j \<noteq> i" using i(2) by (auto simp: fid_live_def)
        with j show ?lhs by (auto intro!: exI [of _ j])
      qed
      moreover have "styx_fid_free k srv = srv\<lparr>s_fids := (s_fids srv)[i := (s_fids srv ! i)\<lparr>f_in_use := False\<rparr>]\<rparr>"
        by (simp add: styx_fid_free_def Some upd_fid_def)
      ultimately show "fid_map (styx_fid_free k srv) m = Some g \<longleftrightarrow> ((fid_map srv)(k := None)) m = Some g"
        using fid_map_iff [OF inv] by (simp add: fid_map_iff [OF assms])
    qed
  qed
qed

definition fid_put :: "styx_fid \<Rightarrow> 'u styx_server \<Rightarrow> u32 \<Rightarrow> 'u styx_server \<Rightarrow> bool" where
  "fid_put f srv k srv' \<longleftrightarrow> styx_fid_lookup k srv = None \<and> f_in_use f \<and> f_fid f = k \<and>
     (\<exists>i srv1. styx_fid_alloc k srv = Some (i, srv1) \<and> srv' = upd_fid i (\<lambda>_. f) srv1)"

lemma fid_put_store:
  assumes "fids_inv srv" and "fid_put f srv k srv'"
  shows "\<exists>i < STYX_MAX_FIDS. \<not> f_in_use (s_fids srv ! i) \<and> f_in_use f \<and> f_fid f = k \<and>
    fid_map srv k = None \<and> srv' = srv\<lparr>s_fids := (s_fids srv)[i := f]\<rparr>"
  using assms
  by (auto simp: fid_put_def styx_fid_alloc_def fids_inv_def fid_map_def upd_fid_def
      split: option.splits dest!: find_slot_bounds)

interpretation fids: slot_store fids_inv fid_map fid_put styx_fid_free
proof (unfold_locales, goal_cases)
  case (1 s v k t) then show ?case using fid_put_store [of s v k t] fid_store(1) by blast
next
  case (2 s v k t) then show ?case using fid_put_store [of s v k t] by blast
next
  case (3 s v k t) then show ?case using fid_put_store [of s v k t] fid_store(2) by blast
next
  case (4 s k) then show ?case by (rule fid_clear)
next
  case (5 s k) then show ?case by (rule fid_clear)
qed

lemma fids_inv_init: "fids_inv (styx_init u)"
  by (simp add: fids_inv_def styx_init_def fid_live_def zero_fid_def)

text \<open>What a clone and a clunk do to the fid map.\<close>

lemma clone_put:
  assumes "fids_inv srv" and "styx_fid_lookup k srv = Some i" and "styx_fid_lookup new srv = None"
    and "styx_fid_alloc new srv = Some (j, srv1)"
  shows "fid_put ((s_fids srv ! i)\<lparr>f_fid := new\<rparr>) srv new
    (upd_fid j (\<lambda>_. (s_fids srv1 ! i)\<lparr>f_fid := new\<rparr>) srv1)"
proof -
  have i: "i < STYX_MAX_FIDS" "f_in_use (s_fids srv ! i)"
    using fid_lookup_iff [OF assms(1)] assms(2) by (auto simp: fid_live_def)
  have j: "\<not> f_in_use (s_fids srv ! j)" and s1: "s_fids srv1 = (s_fids srv)[j :=
      zero_fid\<lparr>f_in_use := True, f_fid := new\<rparr>]"
    using assms(4) by (auto simp: styx_fid_alloc_def split: option.splits dest!: find_slot_bounds)
  with i have "s_fids srv1 ! i = s_fids srv ! i" by (cases "i = j") auto
  then show ?thesis using assms i by (auto simp: fid_put_def)
qed

text \<open>
  clone and clunk are the map operations they should be. On a server without clone and
  clunk callbacks whose fids are distinct, a clone that is not refused binds the new fid to
  a copy of the old entry and leaves every other fid alone; a clunk unbinds exactly its
  fid, and clunking it a second time is refused.
\<close>

lemma clone_and_clunk:
  assumes "fids_inv srv" and "c_clone ops = None" and "c_clunk ops = None"
    and "fid_map srv k = Some f" and "fid_map srv new = None"
    and "serve_twalk ops (styx_build_twalk tag k new [] 0) 17 tag srv = Some (rc, out, srv1)"
    and "get8 out 4 = Some STX_RWALK"
  shows "fids_inv srv1 \<and> fid_map srv1 = (fid_map srv)(new \<mapsto> f\<lparr>f_fid := new\<rparr>) \<and>
     (\<exists>srv2. serve_tclunk ops (styx_build_tclunk tag new) tag srv1 = Some (0, build_rclunk tag, srv2) \<and>
        fids_inv srv2 \<and> fid_map srv2 = fid_map srv \<and>
        (\<exists>msg. serve_tclunk ops (styx_build_tclunk tag new) tag srv2 =
           Some (0, styx_error tag (Some msg), srv2)))"
proof -
  from assms(4) obtain i where i: "styx_fid_lookup k srv = Some i" "f = s_fids srv ! i"
    by (auto simp: fid_map_def)
  have new: "styx_fid_lookup new srv = None" using assms(5) by (simp add: fid_map_def)
  have "styx_get32 (styx_build_twalk tag k new [] 0) 7 = Some k"
    "styx_get32 (styx_build_twalk tag k new [] 0) 11 = Some new"
    "styx_get16 (styx_build_twalk tag k new [] 0) 15 = Some 0"
    by (simp_all add: styx_build_twalk_def message_body get_app)
  then obtain j s1 where "styx_fid_alloc new srv = Some (j, s1)"
    and s: "srv1 = upd_fid j (\<lambda>_. (s_fids s1 ! i)\<lparr>f_fid := new\<rparr>) s1"
    using assms(2,6,7) i new unfolding serve_twalk_def
    by (auto simp: Let_def reply_error_def styx_error_def header_fields split: option.splits)
  then have put: "fid_put (f\<lparr>f_fid := new\<rparr>) srv new srv1" using clone_put [OF assms(1) i(1) new] i(2) by simp
  have inv1: "fids_inv srv1" and map1: "fid_map srv1 = (fid_map srv)(new \<mapsto> f\<lparr>f_fid := new\<rparr>)"
    using fids.put_invar [OF assms(1) put] fids.put_lookup [OF assms(1) put] by auto
  let ?s2 = "styx_fid_free new srv1"
  have get: "styx_get32 (styx_build_tclunk tag new) 7 = Some new"
    by (simp add: styx_build_tclunk_def message_body)
  have "styx_fid_lookup new srv1 \<noteq> None" using map1 by (auto simp: fid_map_def fun_eq_iff split: if_splits)
  then have c1: "serve_tclunk ops (styx_build_tclunk tag new) tag srv1 = Some (0, build_rclunk tag, ?s2)"
    using get assms(3) by (auto simp: serve_tclunk_def Let_def)
  have map2: "fid_map ?s2 = fid_map srv" using fids.del_lookup [OF inv1] map1 assms(5) by auto
  then have "styx_fid_lookup new ?s2 = None" using assms(5) by (metis fid_map_def map_option_is_None)
  then have "serve_tclunk ops (styx_build_tclunk tag new) tag ?s2 =
      Some (0, styx_error tag (Some (lit ''Bad fid in clunk'')), ?s2)"
    using get by (simp add: serve_tclunk_def reply_error_def)
  with inv1 map1 c1 map2 fids.del_invar [OF inv1] show ?thesis by blast
qed

lemma demo_srv_inv: "fids_inv demo_srv" "fid_map demo_srv 1 = Some (zero_fid\<lparr>f_in_use := True, f_fid := 1\<rparr>)"
  "fid_map demo_srv 2 = None"
proof -
  have nth: "s_fids demo_srv ! i = (if i = 0 then zero_fid\<lparr>f_in_use := True, f_fid := 1\<rparr> else zero_fid)"
    if "i < 128" for i
    using that by (cases i) (simp_all add: demo_srv_def)
  have len: "length (s_fids demo_srv) = 128" by (simp add: demo_srv_def)
  show "fids_inv demo_srv"
    unfolding fids_inv_def using nth len by (auto simp: fid_live_def zero_fid_def split: if_splits)
  show "fid_map demo_srv 1 = Some (zero_fid\<lparr>f_in_use := True, f_fid := 1\<rparr>)"
    using demo_lookup by (simp add: fid_map_def demo_srv_def)
  show "fid_map demo_srv 2 = None"
    by (simp add: fid_map_def lookup_live find_slot_None demo_srv_def fid_live_def zero_fid_def)
qed

end
