(* ===== verification/Styx_Table_Facts.thy ===== *)
theory Styx_Table_Facts
  imports Styx_Tables
begin

text \<open>
  The tag table is a slot store, the lock table never holds two conflicting locks, and a
  flush is remembered exactly as long as its request is in flight.
\<close>

section \<open>Tags\<close>

definition tag_inv :: "styx_tagtable \<Rightarrow> bool" where
  "tag_inv t \<longleftrightarrow> length (tt_slots t) = STYX_TAG_SLOTS \<and>
     (\<forall>i < STYX_TAG_SLOTS. ts_tag (tt_slots t ! i) = of_nat i) \<and>
     tt_live t = int (count_if ts_in_use (tt_slots t))"

definition tag_map :: "styx_tagtable \<Rightarrow> u16 \<Rightarrow> u32 option" where
  "tag_map t tag = snd (styx_tags_lookup (Some t) tag)"

lemma tag_find:
  assumes "tag_inv t"
  shows "find_slot (\<lambda>s. ts_in_use s \<and> ts_tag s = tag) (tt_slots t) =
    (if unat tag < STYX_TAG_SLOTS \<and> ts_in_use (tt_slots t ! unat tag) then Some (unat tag) else None)"
proof -
  have tag: "ts_tag (tt_slots t ! i) = tag \<longleftrightarrow> i = unat tag" if "i < STYX_TAG_SLOTS" for i
    using assms that by (auto simp: tag_inv_def word_unat_eq_iff)
  have len: "length (tt_slots t) = STYX_TAG_SLOTS" using assms by (simp add: tag_inv_def)
  show ?thesis
  proof (cases "unat tag < STYX_TAG_SLOTS \<and> ts_in_use (tt_slots t ! unat tag)")
    case True
    then have "find_slot (\<lambda>s. ts_in_use s \<and> ts_tag s = tag) (tt_slots t) = Some (unat tag)"
      using tag len by (intro find_slot_Some_unique) auto
    with True show ?thesis by simp
  next
    case False
    have "\<not> (ts_in_use (tt_slots t ! i) \<and> ts_tag (tt_slots t ! i) = tag)" if "i < STYX_TAG_SLOTS" for i
      using False tag [OF that] that by auto
    then have "find_slot (\<lambda>s. ts_in_use s \<and> ts_tag s = tag) (tt_slots t) = None"
      using len by (simp add: find_slot_None all_set_conv_all_nth)
    with False show ?thesis by auto
  qed
qed

lemma tag_map_eq:
  assumes "tag_inv t"
  shows "tag_map t tag = (if unat tag < STYX_TAG_SLOTS \<and> ts_in_use (tt_slots t ! unat tag)
    then Some (ts_req_id (tt_slots t ! unat tag)) else None)"
  by (simp add: tag_map_def styx_tags_lookup_def tag_find [OF assms])

definition tag_put :: "u32 \<Rightarrow> styx_tagtable \<Rightarrow> u16 \<Rightarrow> styx_tagtable \<Rightarrow> bool" where
  "tag_put req t tag t' \<longleftrightarrow> styx_tags_alloc (Some t) req False = (0, Some tag, Some t')"

definition tag_del :: "u16 \<Rightarrow> styx_tagtable \<Rightarrow> styx_tagtable" where
  "tag_del tag t = the (snd (styx_tags_release (Some t) tag))"

lemma tag_put_slot:
  assumes "tag_inv t" and "tag_put req t tag t'"
  shows "unat tag < STYX_TAG_SLOTS" and "\<not> ts_in_use (tt_slots t ! unat tag)"
    and "t' = t\<lparr>tt_slots := (tt_slots t)[unat tag := (tt_slots t ! unat tag)\<lparr>ts_in_use := True, ts_req_id := req\<rparr>],
           tt_live := tt_live t + 1\<rparr>"
proof -
  obtain i where i: "find_slot (\<lambda>s. \<not> ts_in_use s) (tt_slots t) = Some i" "tag = ts_tag (tt_slots t ! i)"
    and t': "t' = t\<lparr>tt_slots := (tt_slots t)[i := (tt_slots t ! i)\<lparr>ts_in_use := True, ts_req_id := req\<rparr>],
      tt_live := tt_live t + 1\<rparr>"
    using assms(2) by (auto simp: tag_put_def styx_tags_alloc_def Let_def split: option.splits)
  from find_slot_bounds [OF i(1)] assms(1) have b: "i < STYX_TAG_SLOTS" "\<not> ts_in_use (tt_slots t ! i)"
    "unat tag = i" by (auto simp: tag_inv_def i(2))
  then show "unat tag < STYX_TAG_SLOTS" "\<not> ts_in_use (tt_slots t ! unat tag)"
    "t' = t\<lparr>tt_slots := (tt_slots t)[unat tag := (tt_slots t ! unat tag)\<lparr>ts_in_use := True, ts_req_id := req\<rparr>],
       tt_live := tt_live t + 1\<rparr>" using t' by auto
qed

lemma tag_inv_upd:
  assumes "tag_inv t" and "i < STYX_TAG_SLOTS" and "ts_tag s = ts_tag (tt_slots t ! i)"
    and "n + (if ts_in_use (tt_slots t ! i) then 1 else 0) = tt_live t + (if ts_in_use s then 1 else 0)"
  shows "tag_inv (t\<lparr>tt_slots := (tt_slots t)[i := s], tt_live := n\<rparr>)"
  using assms count_if_update [of i "tt_slots t" ts_in_use s]
  by (auto simp: tag_inv_def nth_list_update split: if_splits)

lemma tag_del_eq:
  assumes "tag_inv t"
  shows "tag_del tag t = (if unat tag < STYX_TAG_SLOTS \<and> ts_in_use (tt_slots t ! unat tag)
    then t\<lparr>tt_slots := (tt_slots t)[unat tag := (tt_slots t ! unat tag)\<lparr>ts_in_use := False, ts_req_id := 0\<rparr>],
           tt_live := tt_live t - 1\<rparr> else t)"
  by (simp add: tag_del_def styx_tags_release_def tag_find [OF assms])

lemma tag_del_inv: "tag_inv t \<Longrightarrow> tag_inv (tag_del tag t)"
  by (auto simp: tag_del_eq intro!: tag_inv_upd)

interpretation tags: slot_store tag_inv tag_map tag_put tag_del
proof (unfold_locales, goal_cases)
  case (1 s v k t)
  note p = tag_put_slot [OF 1]
  show ?case unfolding p(3) using 1(1) p(1,2) by (intro tag_inv_upd) auto
next
  case (2 s v k t)
  then show ?case using tag_put_slot [OF 2] by (simp add: tag_map_eq)
next
  case (3 s v k t)
  note p = tag_put_slot [OF 3]
  have inv: "tag_inv t" unfolding p(3) using 3(1) p(1,2) by (intro tag_inv_upd) auto
  have len: "length (tt_slots s) = STYX_TAG_SLOTS" using 3(1) by (simp add: tag_inv_def)
  show ?case
    unfolding p(3) fun_eq_iff fun_upd_def tag_map_eq [OF inv [unfolded p(3)]] tag_map_eq [OF 3(1)]
    using p(1,2) len by (auto simp: nth_list_update word_unat_eq_iff [symmetric])
next
  case (4 s k) then show ?case by (rule tag_del_inv)
next
  case (5 s k)
  have inv: "tag_inv (tag_del k s)" using 5 by (rule tag_del_inv)
  have len: "length (tt_slots s) = STYX_TAG_SLOTS" using 5 by (simp add: tag_inv_def)
  show ?case
    unfolding fun_eq_iff fun_upd_def tag_map_eq [OF inv] tag_map_eq [OF 5]
    using len by (auto simp: tag_del_eq [OF 5] nth_list_update word_unat_eq_iff [symmetric])
qed

section \<open>Locks\<close>

text \<open>The bytes a lock covers, and when a range stays below the end of the 64-bit space.\<close>

definition covers :: "u64 \<Rightarrow> u64 \<Rightarrow> nat \<Rightarrow> bool" where
  "covers start len b \<longleftrightarrow> unat start \<le> b \<and> (if len = 0 then b < 2 ^ 64 else b < unat start + unat len)"

definition no_wrap :: "u64 \<Rightarrow> u64 \<Rightarrow> bool" where
  "no_wrap start len \<longleftrightarrow> unat start + unat len \<le> 2 ^ 64"

lemma covers_range:
  assumes "no_wrap start len" and "covers start len b"
  shows "unat start \<le> b" and "b \<le> unat (range_end start len)"
proof -
  show "unat start \<le> b" using assms(2) by (simp add: covers_def)
  show "b \<le> unat (range_end start len)"
  proof (cases "len = 0")
    case True
    with assms(2) show ?thesis by (simp add: covers_def range_end_def)
  next
    case False
    then have pos: "0 < unat len" by (simp add: unat_gt_0)
    have "start + len - 1 = of_nat (unat start + unat len - 1)"
      using pos by (simp add: of_nat_diff)
    moreover have "unat (of_nat (unat start + unat len - 1) :: u64) = unat start + unat len - 1"
      using assms(1) pos by (intro unat_of_nat_u64) (simp add: no_wrap_def)
    ultimately show ?thesis using False assms(2) by (auto simp: range_end_def covers_def)
  qed
qed

text \<open>Two locks that the table must not hold together.\<close>

definition clash :: "styx_lock_rec \<Rightarrow> styx_lock_rec \<Rightarrow> bool" where
  "clash l m \<longleftrightarrow> l_in_use l \<and> l_in_use m \<and> l_qid l = l_qid m \<and> l_owner l \<noteq> l_owner m \<and>
     lock_overlaps (l_start l) (range_end (l_start l) (l_length l)) m \<and>
     (l_type l = STYX_LOCK_WRLCK \<or> l_type m = STYX_LOCK_WRLCK)"

definition lock_inv :: "styx_locktab \<Rightarrow> bool" where
  "lock_inv ls \<longleftrightarrow> (\<forall>l \<in> set ls. \<forall>m \<in> set ls. \<not> clash l m)"

lemma clash_sym: "clash l m \<Longrightarrow> clash m l"
  by (auto simp: clash_def lock_overlaps_def overlaps_def)

lemma clash_self [simp]: "\<not> clash l l"
  by (simp add: clash_def)

lemma clash_free: "\<not> l_in_use l \<Longrightarrow> \<not> clash l m" "\<not> l_in_use m \<Longrightarrow> \<not> clash l m"
  by (simp_all add: clash_def)

lemma lock_inv_upd:
  assumes "lock_inv ls" and "\<And>m. m \<in> set ls \<Longrightarrow> \<not> clash l m"
  shows "lock_inv (ls[i := l])"
proof -
  have "set (ls[i := l]) \<subseteq> insert l (set ls)" by (rule set_update_subset_insert)
  then have "x = l \<or> x \<in> set ls" if "x \<in> set (ls[i := l])" for x using that by blast
  with assms show ?thesis unfolding lock_inv_def by (metis clash_self clash_sym)
qed

lemma styx_unlock_inv:
  assumes "lock_inv ls" and "styx_unlock (Some ls) q own s n = (rc, Some ls')"
  shows "lock_inv ls'"
  using assms by (auto simp: styx_unlock_def lock_inv_def Let_def clash_free split: if_splits)

lemma styx_lock_inv:
  assumes "lock_inv ls" and "styx_lock (Some ls) q own s n typ = (rc, Some ls')"
  shows "lock_inv ls'"
proof (cases "typ = STYX_LOCK_UNLCK")
  case True
  with assms(2) have "styx_unlock (Some ls) q own s n = (rc, Some ls')" by (simp add: styx_lock_def Let_def)
  with assms(1) show ?thesis by (rule styx_unlock_inv)
next
  case False
  have no: "\<not> clash l m" if "\<not> list_ex (lock_conflicts q own s (range_end s n) typ) ls" "m \<in> set ls"
    "l_qid l = q" "l_owner l = own" "l_start l = s" "l_length l = n" "l_type l = typ" for l m
    using that by (auto simp: list_ex_iff lock_conflicts_def clash_def)
  show ?thesis
  proof (cases "list_ex (lock_conflicts q own s (range_end s n) typ) ls")
    case True
    with assms False show ?thesis by (simp add: styx_lock_def Let_def)
  next
    case nc: False
    show ?thesis
    proof (cases "find_slot (\<lambda>l. l_in_use l \<and> l_qid l = q \<and> l_owner l = own \<and> l_start l = s \<and> l_length l = n) ls")
      case None
      with assms False nc have "ls' = ls \<or> (\<exists>i. ls' = ls[i := \<lparr>l_qid = q, l_owner = own, l_start = s,
          l_length = n, l_type = typ, l_in_use = True\<rparr>])"
        by (auto simp: styx_lock_def Let_def split: option.splits)
      then show ?thesis using assms(1) no [OF nc] by (elim disjE exE) (auto intro!: lock_inv_upd)
    next
      case (Some i)
      with find_slot_bounds [OF Some] assms False nc have "ls' = ls[i := (ls ! i)\<lparr>l_type := typ\<rparr>]"
        "l_qid (ls ! i) = q" "l_owner (ls ! i) = own" "l_start (ls ! i) = s" "l_length (ls ! i) = n"
        by (auto simp: styx_lock_def Let_def)
      then show ?thesis using assms(1) no [OF nc] by (simp add: lock_inv_upd)
    qed
  qed
qed

text \<open>One lock or unlock request on ranges that do not pass the end of the 64-bit space.\<close>

inductive lock_step :: "styx_locktab \<Rightarrow> styx_locktab \<Rightarrow> bool" where
  do_lock: "styx_lock (Some ls) q own s n typ = (rc, Some ls') \<Longrightarrow> no_wrap s n \<Longrightarrow> lock_step ls ls'"
| do_unlock: "styx_unlock (Some ls) q own s n = (rc, Some ls') \<Longrightarrow> lock_step ls ls'"

definition ranges_ok :: "styx_locktab \<Rightarrow> bool" where
  "ranges_ok ls \<longleftrightarrow> (\<forall>l \<in> set ls. no_wrap (l_start l) (l_length l))"

lemma ranges_ok_upd: "ranges_ok ls \<Longrightarrow> no_wrap (l_start l) (l_length l) \<Longrightarrow> ranges_ok (ls[i := l])"
  unfolding ranges_ok_def using set_update_subset_insert [of ls i l] by blast

lemma unlock_ranges: "ranges_ok ls \<Longrightarrow> styx_unlock (Some ls) q own s n = (rc, Some ls') \<Longrightarrow> ranges_ok ls'"
  by (auto simp: styx_unlock_def Let_def ranges_ok_def split: if_splits)

lemma lock_ranges:
  assumes "ranges_ok ls" and "styx_lock (Some ls) q own s n typ = (rc, Some ls')" and "no_wrap s n"
  shows "ranges_ok ls'"
proof -
  have old: "no_wrap (l_start (ls ! i)) (l_length (ls ! i))" if "find_slot P ls = Some i" for P i
    using assms(1) find_slot_bounds [OF that] by (simp add: ranges_ok_def)
  show ?thesis
    using assms unlock_ranges [OF assms(1)] old
    by (auto simp: styx_lock_def Let_def split: if_splits option.splits intro!: ranges_ok_upd)
qed

lemma lock_step_ok: "lock_step ls ls' \<Longrightarrow> lock_inv ls \<and> ranges_ok ls \<Longrightarrow> lock_inv ls' \<and> ranges_ok ls'"
  by (induction rule: lock_step.induct)
     (auto intro: styx_lock_inv styx_unlock_inv lock_ranges unlock_ranges)

lemma lock_init_ok: "lock_inv (replicate STYX_LOCK_MAX free_lock)" "ranges_ok (replicate STYX_LOCK_MAX free_lock)"
  by (simp_all add: lock_inv_def ranges_ok_def no_wrap_def free_lock_def clash_def)

lemma lock_reach_ok:
  "lock_step\<^sup>*\<^sup>* (replicate STYX_LOCK_MAX free_lock) ls \<Longrightarrow> lock_inv ls \<and> ranges_ok ls"
  by (induction rule: rtranclp_induct) (simp_all add: lock_init_ok lock_step_ok)

text \<open>
  C10: byte-range locks are exclusive. After any sequence of lock and unlock requests on
  ranges that do not wrap, no byte of a file is covered by locks of two different owners
  of which one is a write lock.
\<close>

theorem locks_are_exclusive:
  assumes "lock_step\<^sup>*\<^sup>* (replicate STYX_LOCK_MAX free_lock) ls" and "l \<in> set ls" and "m \<in> set ls"
    and "l_in_use l" and "l_in_use m" and "l_qid l = l_qid m" and "l_owner l \<noteq> l_owner m"
    and "covers (l_start l) (l_length l) b" and "covers (l_start m) (l_length m) b"
  shows "l_type l \<noteq> STYX_LOCK_WRLCK \<and> l_type m \<noteq> STYX_LOCK_WRLCK"
proof -
  have ok: "lock_inv ls" "ranges_ok ls" using lock_reach_ok [OF assms(1)] by auto
  then have "no_wrap (l_start l) (l_length l)" "no_wrap (l_start m) (l_length m)"
    using assms(2,3) by (auto simp: ranges_ok_def)
  then have "unat (l_start l) \<le> b" "b \<le> unat (range_end (l_start l) (l_length l))"
    "unat (l_start m) \<le> b" "b \<le> unat (range_end (l_start m) (l_length m))"
    using covers_range assms(8,9) by blast+
  then have "lock_overlaps (l_start l) (range_end (l_start l) (l_length l)) m"
    by (auto simp: lock_overlaps_def overlaps_def word_less_nat_alt)
  moreover have "\<not> clash l m" using ok(1) assms(2,3) by (auto simp: lock_inv_def)
  ultimately show ?thesis using assms(4-7) by (auto simp: clash_def)
qed

definition demo_locks :: styx_locktab where
  "demo_locks = the (snd (styx_lock (snd (styx_lock (Some (replicate STYX_LOCK_MAX free_lock)) 1 10 0 100
     STYX_LOCK_RDLCK)) 1 20 50 100 STYX_LOCK_RDLCK))"

theorem locks_are_exclusive_witness:
  "l_type (demo_locks ! 0) \<noteq> STYX_LOCK_WRLCK \<and> l_type (demo_locks ! 1) \<noteq> STYX_LOCK_WRLCK"
proof (rule locks_are_exclusive [where ls = demo_locks and b = 60])
  define l1 where "l1 = the (snd (styx_lock (Some (replicate STYX_LOCK_MAX free_lock)) 1 10 0 100 STYX_LOCK_RDLCK))"
  have 1: "styx_lock (Some (replicate STYX_LOCK_MAX free_lock)) 1 10 0 100 STYX_LOCK_RDLCK = (0, Some l1)"
    unfolding l1_def by code_simp
  have 2: "styx_lock (Some l1) 1 20 50 100 STYX_LOCK_RDLCK = (0, Some demo_locks)"
    unfolding l1_def demo_locks_def by code_simp
  have "lock_step (replicate STYX_LOCK_MAX free_lock) l1" using 1 by (rule do_lock) (simp add: no_wrap_def)
  moreover have "lock_step l1 demo_locks" using 2 by (rule do_lock) (simp add: no_wrap_def)
  ultimately show "lock_step\<^sup>*\<^sup>* (replicate STYX_LOCK_MAX free_lock) demo_locks" by simp
  have len: "length demo_locks = 32" unfolding demo_locks_def by code_simp
  then show "demo_locks ! 0 \<in> set demo_locks" "demo_locks ! 1 \<in> set demo_locks" by simp_all
  have e: "demo_locks ! 0 = \<lparr>l_qid = 1, l_owner = 10, l_start = 0, l_length = 100, l_type = 0, l_in_use = True\<rparr>"
    "demo_locks ! 1 = \<lparr>l_qid = 1, l_owner = 20, l_start = 50, l_length = 100, l_type = 0, l_in_use = True\<rparr>"
    unfolding demo_locks_def by code_simp+
  show "l_in_use (demo_locks ! 0)" "l_in_use (demo_locks ! 1)" "l_qid (demo_locks ! 0) = l_qid (demo_locks ! 1)"
    "l_owner (demo_locks ! 0) \<noteq> l_owner (demo_locks ! 1)"
    "covers (l_start (demo_locks ! 0)) (l_length (demo_locks ! 0)) 60"
    "covers (l_start (demo_locks ! 1)) (l_length (demo_locks ! 1)) 60"
    unfolding e by (simp_all add: covers_def)
qed

text \<open>
  a range that wraps escapes the conflict test. Owner 10 write-locks the last 16 bytes
  of the 64-bit space and 16 more, owner 20 then write-locks the last 8 bytes of the same
  file, and both requests succeed.
\<close>

lemma wrapping_lock_escapes:
  "let t0 = Some (replicate STYX_LOCK_MAX free_lock);
       (rc1, t1) = styx_lock t0 1 10 0xFFFFFFFFFFFFFFF0 32 STYX_LOCK_WRLCK;
       (rc2, t2) = styx_lock t1 1 20 0xFFFFFFFFFFFFFFF8 8 STYX_LOCK_WRLCK
   in rc1 = 0 \<and> rc2 = 0 \<and> styx_lock_count t2 = 2"
  by code_simp

section \<open>Properties of the tag table\<close>

text \<open>
  The tag table hands out unique tags. Any run of allocations and releases keeps the
  table's invariant and acts as the same updates of a finite map from tags to requests: a
  tag is handed out only while it is free, and until it is released it is found with the
  request it was allocated for.
\<close>

lemma tag_table_refines_map:
  assumes "tags.run t as t'" and "tag_inv t"
  shows "tag_inv t' \<and> tag_map t' = fold act_map as (tag_map t) \<and>
    (\<forall>tag req. tag_map t tag = Some req \<longrightarrow> Del tag \<notin> set as \<longrightarrow>
       styx_tags_lookup (Some t') tag = (0, Some req) \<and> (\<forall>r. Put tag r \<notin> set as))"
proof (intro conjI allI impI)
  show "tag_inv t'" "tag_map t' = fold act_map as (tag_map t)" using tags.run_refines [OF assms] by auto
  fix tag req
  assume "tag_map t tag = Some req" "Del tag \<notin> set as"
  from tags.run_keeps_binding [OF assms this]
  show "styx_tags_lookup (Some t') tag = (0, Some req)" "\<And>r. Put tag r \<notin> set as"
    by (auto simp: tag_map_def styx_tags_lookup_def split: option.splits)
qed

lemma tag_init_inv: "\<exists>t. styx_tags_init (Some t0) = Some t \<and> tag_inv t"
  by (simp add: styx_tags_init_def tag_inv_def count_if_zero)

section \<open>Requests in flight\<close>

lemma flush_find_begin:
  assumes "styx_flush_begin (Some ss) tag = (0, Some ss1)"
  obtains i where "flush_find ss1 tag = Some i" "i < length ss1"
    "ss1 ! i = \<lparr>fs_tag = tag, fs_in_use = True, fs_cancelled = False\<rparr>"
proof -
  from assms obtain i where i: "find_slot (\<lambda>s. \<not> fs_in_use s) ss = Some i" and none: "flush_find ss tag = None"
    and ss1: "ss1 = ss[i := \<lparr>fs_tag = tag, fs_in_use = True, fs_cancelled = False\<rparr>]"
    by (auto simp: styx_flush_begin_def split: if_splits option.splits)
  have b: "i < length ss" using find_slot_bounds [OF i] by simp
  have other: "\<not> (fs_in_use (ss ! j) \<and> fs_tag (ss ! j) = tag)" if "j < length ss" for j
    using none that by (auto simp: flush_find_def find_slot_None)
  have "flush_find ss1 tag = Some i"
    unfolding flush_find_def ss1
  proof (rule find_slot_Some_unique)
    fix j
    assume "j < length (ss[i := \<lparr>fs_tag = tag, fs_in_use = True, fs_cancelled = False\<rparr>])"
      and "fs_in_use (ss[i := \<lparr>fs_tag = tag, fs_in_use = True, fs_cancelled = False\<rparr>] ! j) \<and>
        fs_tag (ss[i := \<lparr>fs_tag = tag, fs_in_use = True, fs_cancelled = False\<rparr>] ! j) = tag"
    then show "j = i" using other [of j] by (cases "j = i") auto
  qed (use b in simp_all)
  with that b ss1 show thesis by simp
qed

text \<open>
  a flush is remembered while its request is in flight. A request that begins is not
  cancelled; cancelling it succeeds and is seen from then on; ending it succeeds and makes
  the tag free again.
\<close>

lemma flush_lifecycle:
  assumes "styx_flush_begin (Some ss) tag = (0, Some ss1)"
  shows "\<not> styx_flush_is_cancelled ss1 tag \<and>
     (\<exists>ss2. styx_flush_cancel (Some ss1) tag = (0, Some ss2) \<and> styx_flush_is_cancelled ss2 tag) \<and>
     fst (styx_flush_begin (Some ss1) tag) = -1 \<and>
     (\<exists>ss3. styx_flush_end (Some ss1) tag = (0, Some ss3) \<and>
        styx_flush_in_flight (Some ss3) + 1 = styx_flush_in_flight (Some ss1))"
proof -
  from assms obtain i where f: "flush_find ss1 tag = Some i" and i: "i < length ss1"
    and e: "ss1 ! i = \<lparr>fs_tag = tag, fs_in_use = True, fs_cancelled = False\<rparr>" by (rule flush_find_begin)
  have same: "fs_in_use (ss1[i := (ss1 ! i)\<lparr>fs_cancelled := True\<rparr>] ! j) = fs_in_use (ss1 ! j)"
    "fs_tag (ss1[i := (ss1 ! i)\<lparr>fs_cancelled := True\<rparr>] ! j) = fs_tag (ss1 ! j)" for j
    using i by (cases "j = i"; simp)+
  have "flush_find (ss1[i := (ss1 ! i)\<lparr>fs_cancelled := True\<rparr>]) tag = flush_find ss1 tag"
    unfolding flush_find_def find_slot_def by (simp only: same length_list_update)
  then have c: "styx_flush_is_cancelled (ss1[i := (ss1 ! i)\<lparr>fs_cancelled := True\<rparr>]) tag"
    using f i by (simp add: styx_flush_is_cancelled_def)
  have "Suc (count_if fs_in_use (ss1[i := zero_flush_slot])) = count_if fs_in_use ss1"
    using i e by (intro count_if_clear) (simp_all add: zero_flush_slot_def)
  with f e c show ?thesis
    by (simp add: styx_flush_is_cancelled_def styx_flush_cancel_def styx_flush_begin_def styx_flush_end_def
        styx_flush_in_flight_def)
qed

end
