(* ===== verification/Timer_Wheel.thy ===== *)
theory Timer_Wheel
  imports Prelude "HOL-Library.Multiset"
begin

text \<open>
  The hierarchical timer wheel of \<open>kernel/timer_wheel.c\<close>: 6 levels of 64 slots, each slot a
  chain of entries (the list of the entries from the head of the chain). Level \<open>l\<close> holds
  timers at least \<open>64 ^ l\<close> ticks away; when the clock reaches a multiple of \<open>64 ^ l\<close> the
  slot of level \<open>l\<close> that begins there is moved down. Entries come from a pool of 256 cells
  of which only the number of used cells matters, since no cell is given back.

  The wheel is compared with its specification, a bag of timers: a tick fires exactly
  the timers whose expiry is the new time and keeps every other one.
\<close>

section \<open>The wheel\<close>

definition TW_LEVELS :: nat where "TW_LEVELS = 6"
definition TW_SLOTS :: nat where "TW_SLOTS = 64"
definition TW_MAX_ENTRIES :: nat where "TW_MAX_ENTRIES = 256"

lemmas tw_consts = TW_LEVELS_def TW_SLOTS_def TW_MAX_ENTRIES_def

record tw_entry =
  te_id :: u64
  te_expiry :: u64

record tw =
  tw_now :: u64
  tw_pending :: u64
  tw_cascades :: u64
  tw_slots :: "nat \<Rightarrow> nat \<Rightarrow> tw_entry list"
  tw_pool_used :: nat

definition tw_init :: tw where
  "tw_init = \<lparr>tw_now = 0, tw_pending = 0, tw_cascades = 0, tw_slots = \<lambda>_ _. [], tw_pool_used = 0\<rparr>"

text \<open>The loop of \<open>level_for\<close>, with its local variables \<open>level\<close> and \<open>span\<close>.\<close>

function level_loop :: "u64 \<Rightarrow> nat \<Rightarrow> u64 \<Rightarrow> nat" where
  "level_loop delta level span =
     (if level + 1 < TW_LEVELS \<and> delta \<ge> span
      then level_loop delta (level + 1) (span * of_nat TW_SLOTS) else level)"
  by pat_completeness auto
termination
  by (relation "measure (\<lambda>(delta, level, span). TW_LEVELS - level)") auto

definition level_for :: "u64 \<Rightarrow> nat" where
  "level_for delta = level_loop delta 0 (of_nat TW_SLOTS)"

definition slot_of :: "u64 \<Rightarrow> nat \<Rightarrow> nat" where
  "slot_of t level = unat (drop_bit (6 * level) t AND 63)"

definition set_slot :: "nat \<Rightarrow> nat \<Rightarrow> tw_entry list \<Rightarrow> tw \<Rightarrow> tw" where
  "set_slot l s es w = w\<lparr>tw_slots := (tw_slots w)(l := (tw_slots w l)(s := es))\<rparr>"

text \<open>Pushing an entry on the chain of the level and slot its remaining time gives.\<close>

definition tw_place :: "u64 \<Rightarrow> tw_entry \<Rightarrow> tw \<Rightarrow> tw" where
  "tw_place delta e w =
     (let l = level_for delta; s = slot_of (te_expiry e) l
      in set_slot l s (e # tw_slots w l s) w)"

definition tw_add :: "tw \<Rightarrow> u64 \<Rightarrow> u64 \<Rightarrow> int \<times> tw" where
  "tw_add w i expiry =
     (if expiry < tw_now w then (-1, w)
      else if tw_pool_used w \<ge> TW_MAX_ENTRIES then (-1, w)
      else (let w1 = w\<lparr>tw_pool_used := tw_pool_used w + 1\<rparr>;
                w2 = tw_place (expiry - tw_now w) \<lparr>te_id = i, te_expiry = expiry\<rparr> w1
            in (0, w2\<lparr>tw_pending := tw_pending w2 + 1\<rparr>)))"

text \<open>The body of the loop of \<open>cascade\<close>, and the whole function: the chain is detached
  from its slot, then its entries are placed again one by one.\<close>

definition cascade_one :: "tw_entry \<Rightarrow> tw \<Rightarrow> tw" where
  "cascade_one e w =
     (let delta = (if te_expiry e > tw_now w then te_expiry e - tw_now w else 0);
          w1 = tw_place delta e w
      in w1\<lparr>tw_cascades := tw_cascades w1 + 1\<rparr>)"

definition cascade :: "nat \<Rightarrow> nat \<Rightarrow> tw \<Rightarrow> tw" where
  "cascade level slot w =
     fold cascade_one (tw_slots w level slot) (set_slot level slot [] w)"

definition low_bits_zero :: "u64 \<Rightarrow> nat \<Rightarrow> bool" where
  "low_bits_zero t l \<longleftrightarrow> t AND (push_bit (6 * l) 1 - 1) = 0"

definition cascade_level :: "nat \<Rightarrow> tw \<Rightarrow> tw" where
  "cascade_level l w =
     (if low_bits_zero (tw_now w) l then cascade l (slot_of (tw_now w) l) w else w)"

text \<open>One round of the firing loop. \<open>out\<close> holds the ids stored so far, so that
  \<open>fired\<close> of the source is its length.\<close>

definition fire_one :: "int \<Rightarrow> tw_entry \<Rightarrow> tw \<times> u64 list \<Rightarrow> tw \<times> u64 list" where
  "fire_one mx e st =
     (let w = fst st; out = snd st in
      if te_expiry e \<le> tw_now w
      then (w\<lparr>tw_pending := tw_pending w - 1\<rparr>,
            if int (length out) < mx then out @ [te_id e] else out)
      else (tw_place (te_expiry e - tw_now w) e w, out))"

definition tw_advance :: "tw \<Rightarrow> int \<Rightarrow> tw \<times> u64 list" where
  "tw_advance w mx =
     (let w1 = w\<lparr>tw_now := tw_now w + 1\<rparr>;
          w2 = fold cascade_level [1..<TW_LEVELS] w1;
          slot0 = slot_of (tw_now w2) 0
      in fold (fire_one mx) (tw_slots w2 0 slot0) (set_slot 0 slot0 [] w2, []))"

definition next_one :: "tw_entry \<Rightarrow> u64 \<Rightarrow> u64" where
  "next_one e best = (if best = 0 \<or> te_expiry e < best then te_expiry e else best)"

definition tw_next :: "tw \<Rightarrow> u64" where
  "tw_next w =
     fold (\<lambda>l. fold (\<lambda>s. fold next_one (tw_slots w l s)) [0..<TW_SLOTS]) [0..<TW_LEVELS] 0"

end
