(* ===== verification/Timer_Wheel_Facts.thy ===== *)
theory Timer_Wheel_Facts
  imports Timer_Wheel
begin

text \<open>
  Facts about the timer wheel: placement of an entry in the wheel as arithmetic, the
  invariant that every entry sits where the clock will meet it in time, the behaviour of a
  tick, and the properties of whole runs.
\<close>

section \<open>Placement\<close>

declare level_loop.simps [simp del]

lemma level_for_cases:
  "level_for d = (if d < 64 then 0 else if d < 4096 then 1 else if d < 262144 then 2
     else if d < 16777216 then 3 else if d < 1073741824 then 4 else 5)"
  by (simp add: level_for_def level_loop.simps tw_consts linorder_not_less [symmetric]
      del: not_less not_le)

lemma level_for_less [simp]: "level_for d < 6"
  by (simp add: level_for_cases)

lemma level_for_lower: "level_for d \<noteq> 0 \<Longrightarrow> 64 ^ level_for d \<le> unat d"
  by (auto simp: level_for_cases word_less_nat_alt not_less split: if_splits)

lemma level_for_upper: "level_for d < 5 \<Longrightarrow> unat d < 64 ^ (level_for d + 1)"
  by (auto simp: level_for_cases word_less_nat_alt split: if_splits)

lemma pow64: "(2::nat) ^ (6 * l) = 64 ^ l"
  by (simp add: power_mult)

lemma unat_take_bit6: "unat (take_bit m (t :: u64)) = unat t mod 2 ^ m"
  by (simp only: unsigned_take_bit_eq) (simp only: take_bit_eq_mod)

lemma slot_of_unat: "slot_of t l = unat t div 64 ^ l mod 64"
proof -
  have "drop_bit (6 * l) t AND 63 = take_bit 6 (drop_bit (6 * l) t)"
    by (simp add: take_bit_eq_mask mask_eq_decr_exp)
  moreover have "unat (drop_bit (6 * l) t) = unat t div 64 ^ l"
    by (simp only: unat_drop_bit_eq) (simp only: drop_bit_eq_div pow64)
  ultimately show ?thesis
    by (simp only: slot_of_def unat_take_bit6) simp
qed

lemma low_bits_zero_unat: "low_bits_zero t l \<longleftrightarrow> unat t mod 64 ^ l = 0"
proof -
  have "t AND (push_bit (6 * l) 1 - 1) = take_bit (6 * l) t"
    by (simp add: take_bit_eq_mask mask_eq_decr_exp)
  then have "low_bits_zero t l \<longleftrightarrow> unat (take_bit (6 * l) t) = 0"
    by (simp only: low_bits_zero_def unat_eq_0)
  then show ?thesis by (simp only: unat_take_bit6 pow64)
qed

text \<open>The time at which the slot of level \<open>l\<close> holding expiry \<open>E\<close> begins.\<close>

definition slot_start :: "nat \<Rightarrow> nat \<Rightarrow> nat" where
  "slot_start l E = E div 64 ^ l * 64 ^ l"

lemma slot_start_le: "slot_start l E \<le> E"
  by (simp add: slot_start_def)

lemma slot_start_0 [simp]: "slot_start 0 E = E"
  by (simp add: slot_start_def)

lemma slot_start_gt: "E < slot_start l E + 64 ^ l"
  by (simp add: slot_start_def) (metis add.commute dividend_less_div_times zero_less_numeral zero_less_power)

text \<open>Where an entry with expiry \<open>E\<close> may be while the clock shows \<open>N\<close>, levels below \<open>k\<close>
  having been cascaded at this tick. With \<open>k = 6\<close> only entries due now may start at \<open>N\<close>.\<close>

definition in_place :: "nat \<Rightarrow> nat \<Rightarrow> nat \<Rightarrow> nat \<Rightarrow> nat \<Rightarrow> bool" where
  "in_place k N l s E \<longleftrightarrow>
     l < 6 \<and> s = E div 64 ^ l mod 64 \<and> (l < 5 \<longrightarrow> E < N + 64 ^ (l + 1)) \<and>
     N \<le> slot_start l E \<and> (slot_start l E = N \<longrightarrow> l = 0 \<or> k \<le> l)"

definition ahead :: "nat \<Rightarrow> nat \<Rightarrow> nat \<Rightarrow> nat \<Rightarrow> bool" where
  "ahead N l s E \<longleftrightarrow>
     l < 6 \<and> s = E div 64 ^ l mod 64 \<and> (l < 5 \<longrightarrow> E < N + 64 ^ (l + 1)) \<and> N < slot_start l E"

lemma in_place_ge: "in_place k N l s E \<Longrightarrow> N \<le> E"
  using slot_start_le [of l E] by (simp add: in_place_def)

lemma ahead_gt: "ahead N l s E \<Longrightarrow> N < E"
  using slot_start_le [of l E] by (simp add: ahead_def)

lemma ahead_tick: "ahead N l s E \<Longrightarrow> in_place (Suc 0) (Suc N) l s E"
  by (auto simp: ahead_def in_place_def)

lemma level_for_in_place:
  assumes "unat d = E - N" and "N \<le> E"
  shows "in_place k N (level_for d) (E div 64 ^ level_for d mod 64) E"
proof (cases "level_for d = 0")
  case True
  then show ?thesis
    using assms level_for_upper [of d] by (simp add: in_place_def)
next
  case False
  then have "64 ^ level_for d \<le> E - N" using level_for_lower [of d] assms(1) by simp
  then have "N < slot_start (level_for d) E"
    using slot_start_gt [of E "level_for d"] assms(2) by linarith
  moreover have "E < N + 64 ^ (level_for d + 1)" if "level_for d < 5"
    using level_for_upper [OF that] assms by simp
  ultimately show ?thesis by (simp add: in_place_def)
qed

lemma in_place_ahead: "in_place k N l s E \<Longrightarrow> N < slot_start l E \<Longrightarrow> ahead N l s E"
  by (simp add: ahead_def in_place_def)

lemma slot_start_here:
  "slot_start l E = N \<Longrightarrow> N mod 64 ^ l = 0 \<and> E div 64 ^ l = N div 64 ^ l"
  by (auto simp: slot_start_def)

lemma in_place_next:
  assumes "in_place k N l s E" and "k \<noteq> 0"
    and "l = k \<Longrightarrow> N mod 64 ^ k = 0 \<Longrightarrow> s \<noteq> N div 64 ^ k mod 64"
  shows "in_place (Suc k) N l s E"
proof (cases "l = k")
  case True
  then have "slot_start k E \<noteq> N"
    using assms slot_start_here [of k E N] by (auto simp: in_place_def)
  with True assms(1) show ?thesis by (simp add: in_place_def)
next
  case False
  with assms(1) show ?thesis by (auto simp: in_place_def)
qed

text \<open>After all levels are cascaded the current slot of level 0 holds the due entries.\<close>

lemma in_place_due:
  assumes "in_place k N 0 s E"
  shows "E = N \<longleftrightarrow> s = N mod 64"
proof -
  have "N \<le> E" and "E < N + 64" and "s = E mod 64"
    using assms by (auto simp: in_place_def)
  moreover have "E = N" if "E mod 64 = N mod 64"
    using that \<open>N \<le> E\<close> \<open>E < N + 64\<close> by (simp add: mod_eq_iff_dvd_symdiff_nat split: if_splits) (auto dest: dvd_imp_le)
  ultimately show ?thesis by auto
qed

section \<open>The wheel as a bag of timers\<close>

definition cells :: "(nat \<times> nat) set" where
  "cells = {..<TW_LEVELS} \<times> {..<TW_SLOTS}"

definition tw_bag :: "tw \<Rightarrow> tw_entry multiset" where
  "tw_bag w = (\<Sum>p \<in> cells. mset (tw_slots w (fst p) (snd p)))"

definition all_cells :: "(nat \<Rightarrow> nat \<Rightarrow> nat \<Rightarrow> bool) \<Rightarrow> tw \<Rightarrow> bool" where
  "all_cells P w \<longleftrightarrow> (\<forall>l s. \<forall>e \<in> set (tw_slots w l s). P l s (unat (te_expiry e)))"

definition tw_inv :: "tw \<Rightarrow> bool" where
  "tw_inv w \<longleftrightarrow> all_cells (ahead (unat (tw_now w))) w \<and> unat (tw_pending w) = size (tw_bag w)
     \<and> size (tw_bag w) \<le> tw_pool_used w \<and> tw_pool_used w \<le> TW_MAX_ENTRIES"

lemma finite_cells [simp]: "finite cells"
  by (simp add: cells_def)

lemma in_cells [simp]: "(l, s) \<in> cells \<longleftrightarrow> l < 6 \<and> s < 64"
  by (simp add: cells_def tw_consts)

lemma set_slot_simps [simp]:
  "tw_now (set_slot l s es w) = tw_now w" "tw_pending (set_slot l s es w) = tw_pending w"
  "tw_cascades (set_slot l s es w) = tw_cascades w"
  "tw_pool_used (set_slot l s es w) = tw_pool_used w"
  "tw_slots (set_slot l s es w) l' s' = (if l' = l \<and> s' = s then es else tw_slots w l' s')"
  by (auto simp: set_slot_def)

lemma tw_bag_field [simp]:
  "tw_bag (w\<lparr>tw_now := t\<rparr>) = tw_bag w" "tw_bag (w\<lparr>tw_pending := t\<rparr>) = tw_bag w"
  "tw_bag (w\<lparr>tw_cascades := t\<rparr>) = tw_bag w" "tw_bag (w\<lparr>tw_pool_used := n\<rparr>) = tw_bag w"
  by (simp_all add: tw_bag_def)

lemma all_cells_field [simp]:
  "all_cells P (w\<lparr>tw_now := t\<rparr>) = all_cells P w"
  "all_cells P (w\<lparr>tw_pending := t\<rparr>) = all_cells P w"
  "all_cells P (w\<lparr>tw_cascades := t\<rparr>) = all_cells P w"
  "all_cells P (w\<lparr>tw_pool_used := n\<rparr>) = all_cells P w"
  by (simp_all add: all_cells_def)

lemma tw_bag_set_slot:
  assumes "l < 6" and "s < 64"
  shows "tw_bag (set_slot l s es w) + mset (tw_slots w l s) = tw_bag w + mset es"
proof -
  let ?f = "\<lambda>w p. mset (tw_slots w (fst p) (snd p))"
  have in_c: "(l, s) \<in> cells" using assms by simp
  have "sum (?f (set_slot l s es w)) (cells - {(l, s)}) = sum (?f w) (cells - {(l, s)})"
    by (rule sum.cong) auto
  then show ?thesis
    using sum.remove [OF finite_cells in_c, of "?f w"]
      sum.remove [OF finite_cells in_c, of "?f (set_slot l s es w)"]
    by (simp add: tw_bag_def)
qed

lemma in_tw_bag: "e \<in># tw_bag w \<longleftrightarrow> (\<exists>l < 6. \<exists>s < 64. e \<in> set (tw_slots w l s))"
  by (simp add: tw_bag_def set_mset_sum) (auto simp: cells_def tw_consts)

lemma all_cells_mono:
  "all_cells P w \<Longrightarrow> (\<And>l s E. P l s E \<Longrightarrow> Q l s E) \<Longrightarrow> all_cells Q w"
  by (auto simp: all_cells_def)

lemma all_cells_set_slot:
  "all_cells P w \<Longrightarrow> (\<And>e. e \<in> set es \<Longrightarrow> P l s (unat (te_expiry e))) \<Longrightarrow>
     all_cells P (set_slot l s es w)"
  by (auto simp: all_cells_def)

text \<open>Placing an entry adds it to the bag, in its place.\<close>

lemma tw_place_simps [simp]:
  "tw_now (tw_place d e w) = tw_now w" "tw_pending (tw_place d e w) = tw_pending w"
  "tw_pool_used (tw_place d e w) = tw_pool_used w"
  by (simp_all add: tw_place_def Let_def)

lemma slot_of_less [simp]: "slot_of t l < 64"
  by (simp add: slot_of_unat)

lemma tw_bag_place [simp]: "tw_bag (tw_place d e w) = add_mset e (tw_bag w)"
  using tw_bag_set_slot [of "level_for d" "slot_of (te_expiry e) (level_for d)"
      "e # tw_slots w (level_for d) (slot_of (te_expiry e) (level_for d))" w]
  by (simp add: tw_place_def Let_def)

lemma all_cells_place:
  assumes "all_cells (in_place k N) w" and "unat d = unat (te_expiry e) - N"
    and "N \<le> unat (te_expiry e)"
  shows "all_cells (in_place k N) (tw_place d e w)"
  using assms level_for_in_place [OF assms(2,3), of k]
  unfolding tw_place_def Let_def
  by (auto intro!: all_cells_set_slot simp: slot_of_unat) (auto simp: all_cells_def)

lemma unat_delta:
  "t \<le> (x :: u64) \<Longrightarrow> unat (x - t) = unat x - unat t"
  by (simp add: unat_sub)

section \<open>Cascading\<close>

lemma cascade_one_props:
  assumes "all_cells (in_place k (unat (tw_now w))) w" and "tw_now w \<le> te_expiry e"
  shows "all_cells (in_place k (unat (tw_now w))) (cascade_one e w)"
    and "tw_now (cascade_one e w) = tw_now w" and "tw_pending (cascade_one e w) = tw_pending w"
    and "tw_pool_used (cascade_one e w) = tw_pool_used w"
    and "tw_bag (cascade_one e w) = add_mset e (tw_bag w)"
  using assms unat_delta [OF assms(2)]
  by (auto simp: cascade_one_def Let_def word_le_nat_alt word_less_nat_alt intro!: all_cells_place)

text \<open>What the cascading of a level keeps.\<close>

definition same_timers :: "tw \<Rightarrow> tw \<Rightarrow> bool" where
  "same_timers w w' \<longleftrightarrow> tw_now w' = tw_now w \<and> tw_pending w' = tw_pending w
     \<and> tw_pool_used w' = tw_pool_used w \<and> tw_bag w' = tw_bag w"

lemma cascade_fold:
  assumes "all_cells (in_place k (unat (tw_now w))) w" and "\<And>e. e \<in> set es \<Longrightarrow> tw_now w \<le> te_expiry e"
  shows "all_cells (in_place k (unat (tw_now w))) (fold cascade_one es w) \<and>
     tw_now (fold cascade_one es w) = tw_now w \<and>
     tw_pending (fold cascade_one es w) = tw_pending w \<and>
     tw_pool_used (fold cascade_one es w) = tw_pool_used w \<and>
     tw_bag (fold cascade_one es w) = tw_bag w + mset es"
  using assms
proof (induction es arbitrary: w)
  case (Cons e es)
  note one = cascade_one_props [OF Cons.prems(1), of e]
  show ?case
    using Cons.IH [of "cascade_one e w"] Cons.prems one by simp
qed simp

lemma cascade_level_props:
  assumes inv: "all_cells (in_place k (unat (tw_now w))) w" and k: "1 \<le> k" "k < 6"
  shows "all_cells (in_place (Suc k) (unat (tw_now w))) (cascade_level k w)"
    and "same_timers w (cascade_level k w)"
proof -
  let ?N = "unat (tw_now w)" and ?s = "slot_of (tw_now w) k"
  let ?es = "tw_slots w k ?s" and ?w0 = "set_slot k ?s [] w"
  have "all_cells (in_place (Suc k) ?N) (cascade_level k w) \<and> same_timers w (cascade_level k w)"
  proof (cases "low_bits_zero (tw_now w) k")
    case False
    then have "all_cells (in_place (Suc k) ?N) w"
      using inv k by (auto simp: all_cells_def low_bits_zero_unat intro!: in_place_next)
    with False show ?thesis by (simp add: cascade_level_def same_timers_def)
  next
    case True
    have "all_cells (in_place (Suc k) ?N) ?w0"
      using inv k by (auto simp: all_cells_def slot_of_unat intro!: in_place_next)
    moreover have "tw_now w \<le> te_expiry e" if "e \<in> set ?es" for e
      using inv that in_place_ge by (fastforce simp: all_cells_def word_le_nat_alt)
    moreover have "tw_bag ?w0 + mset ?es = tw_bag w"
      using tw_bag_set_slot [of k ?s "[]" w] k by simp
    ultimately show ?thesis
      using True cascade_fold [of "Suc k" ?w0 ?es]
      by (simp add: cascade_level_def cascade_def same_timers_def)
  qed
  then show "all_cells (in_place (Suc k) ?N) (cascade_level k w)"
    and "same_timers w (cascade_level k w)" by auto
qed

lemma cascade_levels:
  assumes "all_cells (in_place k (unat (tw_now w))) w" and "1 \<le> k" and "k \<le> 6"
  shows "all_cells (in_place 6 (unat (tw_now w))) (fold cascade_level [k..<6] w) \<and>
    same_timers w (fold cascade_level [k..<6] w)"
  using assms
proof (induction "6 - k" arbitrary: k w)
  case 0
  then show ?case by (simp add: same_timers_def)
next
  case (Suc n)
  then have "k < 6" by simp
  note step = cascade_level_props [OF Suc.prems(1,2) this]
  have "[k..<6] = k # [Suc k..<6]" using \<open>k < 6\<close> by (rule upt_conv_Cons)
  then show ?case
    using Suc.hyps(1) [of "Suc k" "cascade_level k w"] Suc.hyps(2) step \<open>k < 6\<close>
    by (auto simp: same_timers_def)
qed

section \<open>A tick\<close>

lemma fire_due:
  "te_expiry e \<le> tw_now w \<Longrightarrow> fire_one mx e (w, out) =
    (w\<lparr>tw_pending := tw_pending w - 1\<rparr>, if int (length out) < mx then out @ [te_id e] else out)"
  by (simp add: fire_one_def)

lemma fire_all:
  assumes "\<And>e. e \<in> set es \<Longrightarrow> te_expiry e \<le> tw_now w"
  shows "fold (fire_one mx) es (w, out) =
    (w\<lparr>tw_pending := tw_pending w - of_nat (length es)\<rparr>,
     out @ take (nat mx - length out) (map te_id es))"
  using assms
proof (induction es arbitrary: w out)
  case (Cons e es)
  have "fold (fire_one mx) es (fire_one mx e (w, out)) =
    (w\<lparr>tw_pending := tw_pending w - 1 - of_nat (length es)\<rparr>,
     (if int (length out) < mx then out @ [te_id e] else out) @
       take (nat mx - length (if int (length out) < mx then out @ [te_id e] else out))
         (map te_id es))"
    using Cons.IH Cons.prems by (simp add: fire_due)
  then show ?case
    by (auto simp: fire_due Cons.prems diff_diff_eq algebra_simps take_Cons' nat_less_iff)
qed simp

lemma tick_time:
  assumes "all_cells (ahead (unat (tw_now w))) w"
  shows "all_cells (in_place 1 (unat (tw_now w + 1))) w"
proof (cases "tw_now w = - 1")
  case True
  then have "\<not> ahead (unat (tw_now w)) l s (unat (te_expiry e))"
    for l s and e :: tw_entry
    using ahead_gt [of "unat (tw_now w)" l s "unat (te_expiry e)"]
      unat_less_u64 [of "te_expiry e"] unat_u64_max by auto
  with assms show ?thesis by (auto simp: all_cells_def)
next
  case False
  then have "unat (tw_now w + 1) = Suc (unat (tw_now w))"
    by (rule unat_plus_one)
  with assms show ?thesis by (auto intro: all_cells_mono ahead_tick)
qed

text \<open>The entries of the current slot of level 0, once every level is cascaded.\<close>

lemma current_slot:
  assumes inv: "all_cells (in_place 6 (unat (tw_now w))) w" and s: "s = slot_of (tw_now w) 0"
  shows "e \<in> set (tw_slots w 0 s) \<Longrightarrow> te_expiry e = tw_now w"
    and "all_cells (ahead (unat (tw_now w))) (set_slot 0 s [] w)"
    and "tw_bag (set_slot 0 s [] w) + mset (tw_slots w 0 s) = tw_bag w"
proof -
  have s': "s = unat (tw_now w) mod 64" using s by (simp add: slot_of_unat)
  show "te_expiry e = tw_now w" if "e \<in> set (tw_slots w 0 s)"
    using inv that in_place_due [of 6 "unat (tw_now w)" s "unat (te_expiry e)"] s'
    by (auto simp: all_cells_def word_unat_eq_iff)
  have "ahead (unat (tw_now w)) l s1 E"
    if "in_place 6 (unat (tw_now w)) l s1 E" and "\<not> (l = 0 \<and> s1 = s)" for l s1 E
  proof (rule in_place_ahead [OF that(1)])
    have "slot_start l E \<noteq> unat (tw_now w)"
      using that in_place_due [of 6 "unat (tw_now w)" s1 E] s' by (auto simp: in_place_def)
    then show "unat (tw_now w) < slot_start l E" using that(1) by (simp add: in_place_def)
  qed
  then show "all_cells (ahead (unat (tw_now w))) (set_slot 0 s [] w)"
    using inv by (auto simp: all_cells_def)
  show "tw_bag (set_slot 0 s [] w) + mset (tw_slots w 0 s) = tw_bag w"
    using tw_bag_set_slot [of 0 s "[]" w] s by simp
qed

lemma all_cells_bag:
  "all_cells (ahead N) w \<Longrightarrow> e \<in># tw_bag w \<Longrightarrow> N < unat (te_expiry e)"
  by (auto simp: in_tw_bag all_cells_def dest: ahead_gt)

lemma split_bag:
  assumes "A + B = C" and "\<And>x. x \<in># A \<Longrightarrow> \<not> P x" and "\<And>x. x \<in># B \<Longrightarrow> P x"
  shows "A = {#x \<in># C. \<not> P x#}" and "B = {#x \<in># C. P x#}"
proof -
  have "filter_mset P A = {#}" "filter_mset (\<lambda>x. \<not> P x) A = A"
    "filter_mset P B = B" "filter_mset (\<lambda>x. \<not> P x) B = {#}"
    using assms(2,3) by (auto simp: filter_mset_eq_conv filter_mset_False)
  then show "A = {#x \<in># C. \<not> P x#}" and "B = {#x \<in># C. P x#}"
    by (simp_all add: assms(1) [symmetric])
qed

lemma unat_minus_count:
  "n \<le> unat (p :: u64) \<Longrightarrow> unat (p - of_nat n) = unat p - n"
  by (metis le_unat_uoi unat_sub word_le_nat_alt)

lemma tw_advance_rule:
  assumes inv: "tw_inv w" and adv: "tw_advance w mx = (w', out)"
  shows "tw_inv w'" and "tw_now w' = tw_now w + 1"
    and "tw_bag w' = {#e \<in># tw_bag w. te_expiry e \<noteq> tw_now w + 1#}"
    and "\<exists>due. mset due = {#e \<in># tw_bag w. te_expiry e = tw_now w + 1#} \<and>
           out = take (nat mx) (map te_id due)"
    and "tw_pool_used w' = tw_pool_used w"
proof -
  define w1 where "w1 = w\<lparr>tw_now := tw_now w + 1\<rparr>"
  define w2 where "w2 = fold cascade_level [1..<6] w1"
  define s where "s = slot_of (tw_now w2) 0"
  define due where "due = tw_slots w2 0 s"
  define w3 where "w3 = set_slot 0 s [] w2"
  have "all_cells (in_place 1 (unat (tw_now w1))) w1"
    using inv tick_time by (simp add: w1_def tw_inv_def)
  then have w2: "all_cells (in_place 6 (unat (tw_now w2))) w2" "same_timers w1 w2"
    using cascade_levels [of 1 w1] by (auto simp: w2_def same_timers_def)
  note slot = current_slot [OF w2(1) s_def, folded due_def w3_def]
  have now: "tw_now w3 = tw_now w + 1" "tw_now w2 = tw_now w + 1"
    using w2(2) by (auto simp: w3_def same_timers_def w1_def)
  have "(w', out) = fold (fire_one mx) due (w3, [])"
    unfolding adv [symmetric] tw_advance_def Let_def TW_LEVELS_def w3_def due_def s_def w2_def w1_def
    by (rule refl)
  then have res: "w' = w3\<lparr>tw_pending := tw_pending w3 - of_nat (length due)\<rparr>"
    "out = take (nat mx) (map te_id due)"
    using slot(1) now by (auto simp: fire_all)
  have bag: "tw_bag w3 + mset due = tw_bag w"
    using slot(3) w2(2) by (simp add: same_timers_def w1_def)
  have "te_expiry e \<noteq> tw_now w + 1" if "e \<in># tw_bag w3" for e
    using all_cells_bag [OF slot(2) that] now by auto
  moreover have "te_expiry e = tw_now w + 1" if "e \<in># mset due" for e
    using slot(1) [of e] that now by simp
  ultimately have parts: "tw_bag w3 = {#e \<in># tw_bag w. te_expiry e \<noteq> tw_now w + 1#}"
    "mset due = {#e \<in># tw_bag w. te_expiry e = tw_now w + 1#}"
    using split_bag [OF bag, of "\<lambda>e. te_expiry e = tw_now w + 1"] by blast+
  then show "tw_now w' = tw_now w + 1"
    and "tw_bag w' = {#e \<in># tw_bag w. te_expiry e \<noteq> tw_now w + 1#}"
    and "\<exists>due. mset due = {#e \<in># tw_bag w. te_expiry e = tw_now w + 1#} \<and>
           out = take (nat mx) (map te_id due)"
    using res now by auto
  have sizes: "size (tw_bag w) = size (tw_bag w3) + length due"
    using arg_cong [OF bag, of size] by simp
  moreover have "tw_pending w3 = tw_pending w" "tw_pool_used w3 = tw_pool_used w"
    using w2(2) by (auto simp: w3_def same_timers_def w1_def)
  ultimately show "tw_inv w'" and "tw_pool_used w' = tw_pool_used w"
    using inv slot(2) now unat_minus_count [of "length due" "tw_pending w"]
    by (simp_all add: tw_inv_def res)
qed

lemma tw_add_rule:
  assumes inv: "tw_inv w" and add: "tw_add w i t = (r, w')" and t: "t \<noteq> tw_now w"
  shows "tw_inv w'" and "tw_now w' = tw_now w"
    and "r = 0 \<Longrightarrow> tw_bag w' = add_mset \<lparr>te_id = i, te_expiry = t\<rparr> (tw_bag w)"
proof -
  let ?e = "\<lparr>te_id = i, te_expiry = t\<rparr>" and ?N = "unat (tw_now w)"
  have "tw_inv w' \<and> tw_now w' = tw_now w \<and> (r = 0 \<longrightarrow> tw_bag w' = add_mset ?e (tw_bag w))"
  proof (cases "tw_now w < t \<and> tw_pool_used w < 256")
    case True
    let ?d = "t - tw_now w"
    have le: "?N < unat t" "unat ?d = unat t - ?N"
      using True by (auto simp: word_less_nat_alt unat_sub word_le_nat_alt)
    have "ahead ?N (level_for ?d) (slot_of t (level_for ?d)) (unat t)"
    proof (rule in_place_ahead)
      show "in_place 6 ?N (level_for ?d) (slot_of t (level_for ?d)) (unat t)"
        using level_for_in_place [of ?d "unat t" ?N] le by (simp add: slot_of_unat)
      then show "?N < slot_start (level_for ?d) (unat t)"
        using le level_for_less [of ?d] by (auto simp: in_place_def nat_less_le)
    qed
    then have "all_cells (ahead ?N) (tw_place ?d ?e (w\<lparr>tw_pool_used := n\<rparr>))" for n
      using inv by (auto simp: tw_place_def Let_def tw_inv_def all_cells_def)
    moreover have "unat (tw_pending w + 1) = Suc (unat (tw_pending w))"
      using inv True by (intro unat_u64_Suc) (auto simp: tw_inv_def tw_consts)
    moreover have "w' = (tw_place ?d ?e (w\<lparr>tw_pool_used := tw_pool_used w + 1\<rparr>))
        \<lparr>tw_pending := tw_pending w + 1\<rparr>"
      using add True by (simp add: tw_add_def Let_def tw_consts order.asym split: if_splits)
    ultimately show ?thesis
      using True inv by (simp add: TW_MAX_ENTRIES_def tw_inv_def)
  next
    case False
    then show ?thesis using add inv t by (auto simp: tw_add_def tw_consts split: if_splits)
  qed
  then show "tw_inv w'" and "tw_now w' = tw_now w"
    and "r = 0 \<Longrightarrow> tw_bag w' = add_mset ?e (tw_bag w)" by auto
qed

section \<open>Runs of the wheel\<close>

text \<open>The states a caller reaches who adds timers for later than now. Adding one for the
  current tick is the case \<open>timer_for_now_is_late\<close> below.\<close>

inductive tw_reach :: "tw \<Rightarrow> bool" where
  reach_init: "tw_reach tw_init"
| reach_add: "tw_reach w \<Longrightarrow> expiry \<noteq> tw_now w \<Longrightarrow> tw_reach (snd (tw_add w i expiry))"
| reach_tick: "tw_reach w \<Longrightarrow> tw_reach (fst (tw_advance w mx))"

fun tw_run :: "int \<Rightarrow> nat \<Rightarrow> tw \<Rightarrow> tw \<times> u64 list list" where
  "tw_run mx 0 w = (w, [])"
| "tw_run mx (Suc n) w =
     (case tw_advance w mx of (w1, out) \<Rightarrow>
      case tw_run mx n w1 of (w2, outs) \<Rightarrow> (w2, out # outs))"

lemma tw_init_inv: "tw_inv tw_init"
  by (simp add: tw_inv_def tw_init_def all_cells_def tw_bag_def)

lemma tw_reach_inv: "tw_reach w \<Longrightarrow> tw_inv w"
proof (induction rule: tw_reach.induct)
  case (reach_add w expiry i)
  then show ?case by (metis prod.collapse tw_add_rule(1))
next
  case (reach_tick w mx)
  then show ?case by (metis prod.collapse tw_advance_rule(1))
qed (rule tw_init_inv)

lemma tw_inv_later: "tw_inv w \<Longrightarrow> e \<in># tw_bag w \<Longrightarrow> unat (tw_now w) < unat (te_expiry e)"
  by (auto simp: tw_inv_def intro: all_cells_bag)

definition due_at :: "nat \<Rightarrow> tw \<Rightarrow> u64 multiset" where
  "due_at t w = image_mset te_id {#e \<in># tw_bag w. unat (te_expiry e) = t#}"

lemma tick_outputs:
  assumes inv: "tw_inv w" and mx: "256 \<le> mx" and adv: "tw_advance w mx = (w', out)"
  shows "mset out = due_at (unat (tw_now w) + 1) w"
    and "tw_bag w' = {#e \<in># tw_bag w. unat (te_expiry e) > unat (tw_now w) + 1#}"
    and "tw_bag w' \<noteq> {#} \<Longrightarrow> unat (tw_now w') = unat (tw_now w) + 1"
proof -
  have now: "te_expiry e = tw_now w + 1 \<longleftrightarrow> unat (te_expiry e) = unat (tw_now w) + 1"
    if "e \<in># tw_bag w" for e
  proof -
    have "unat (tw_now w) < 18446744073709551615"
      using tw_inv_later [OF inv that] unat_less_u64 [of "te_expiry e"] by linarith
    then show ?thesis using unat_u64_Suc by (simp add: word_unat_eq_iff)
  qed
  obtain ds where ds: "mset ds = {#e \<in># tw_bag w. te_expiry e = tw_now w + 1#}"
    "out = take (nat mx) (map te_id ds)"
    using tw_advance_rule(4) [OF inv adv] by auto
  have "length ds \<le> size (tw_bag w)"
    using size_filter_mset_lesseq [of "\<lambda>e. te_expiry e = tw_now w + 1" "tw_bag w"] ds(1)
    by (metis size_mset)
  then have "length ds \<le> nat mx" using inv mx by (auto simp: tw_inv_def tw_consts)
  then have "mset out = image_mset te_id (mset ds)" using ds(2) by simp
  then show "mset out = due_at (unat (tw_now w) + 1) w"
    using now by (simp add: ds(1) due_at_def cong: filter_mset_cong)
  show "tw_bag w' = {#e \<in># tw_bag w. unat (te_expiry e) > unat (tw_now w) + 1#}"
    unfolding tw_advance_rule(3) [OF inv adv]
    using now tw_inv_later [OF inv] by (intro filter_mset_cong refl) (metis Suc_eq_plus1 Suc_lessI less_irrefl)
  note bag = this
  show "unat (tw_now w') = unat (tw_now w) + 1" if ne: "tw_bag w' \<noteq> {#}"
  proof -
    obtain e where "e \<in># tw_bag w'" using ne by (rule multiset_nonemptyE)
    then have "unat (tw_now w) + 1 < unat (te_expiry e)" unfolding bag by simp
    then show ?thesis
      using unat_u64_Suc [of "tw_now w"] unat_less_u64 [of "te_expiry e"]
        tw_advance_rule(2) [OF inv adv] by simp
  qed
qed

lemma later_bag:
  assumes "tw_inv w" and "256 \<le> mx" and "tw_advance w mx = (w', out)"
    and P: "\<And>E. P E (unat (tw_now w) + 1) \<Longrightarrow> unat (tw_now w) + 1 < E"
  shows "{#e \<in># tw_bag w'. P (unat (te_expiry e)) (unat (tw_now w'))#} =
      {#e \<in># tw_bag w. P (unat (te_expiry e)) (unat (tw_now w) + 1)#}"
proof (cases "tw_bag w' = {#}")
  note tick = tick_outputs [OF assms(1-3)]
  case True
  then have "\<not> unat (tw_now w) + 1 < unat (te_expiry e)" if "e \<in># tw_bag w" for e
    using tick(2) that by (metis filter_mset_eq_mempty_iff)
  then have "{#e \<in># tw_bag w. P (unat (te_expiry e)) (unat (tw_now w) + 1)#} = {#}"
    using P by (auto simp: filter_mset_eq_mempty_iff)
  with True show ?thesis by simp
next
  note tick = tick_outputs [OF assms(1-3)]
  case False
  then show ?thesis
    using tick(2,3) P by (auto simp: filter_filter_mset intro!: filter_mset_cong)
qed

lemma next_one_fold:
  assumes "\<forall>e \<in> set es. te_expiry e \<noteq> 0"
  shows "fold next_one es b =
    (if es = [] then b else if b = 0 then Min (te_expiry ` set es)
     else min b (Min (te_expiry ` set es)))"
  using assms
proof (induction es arbitrary: b)
  case (Cons e es)
  have "next_one e b = (if b = 0 then te_expiry e else min b (te_expiry e))"
    by (auto simp: next_one_def min_def)
  with Cons show ?case
    by (cases "es = []") (auto simp: min_def)
qed simp

lemma tw_next_flat:
  "tw_next w = fold next_one (concat (map (\<lambda>(l, s). tw_slots w l s)
     (List.product [0..<TW_LEVELS] [0..<TW_SLOTS]))) 0"
proof -
  have "fold (\<lambda>l. fold (\<lambda>s. fold next_one (f l s)) ss) ls b =
     fold next_one (concat (map (\<lambda>(l, s). f l s) (List.product ls ss))) b" for f ls ss b
  proof (induction ls arbitrary: b)
    case (Cons l ls)
    have "fold (\<lambda>s. fold next_one (f l s)) ss b = fold next_one (concat (map (f l) ss)) b" for b
      by (induction ss arbitrary: b) auto
    with Cons show ?case by (simp add: comp_def)
  qed simp
  then show ?thesis by (simp add: tw_next_def)
qed

section \<open>Properties\<close>

text \<open>C11: Timers fire exactly on time, on any sequence of ticks, at every distance and through
  every cascade. Take a wheel reached by ticks and by adding timers for later than the tick at which
  they are added (a timer for the current tick is late, see \<open>timer_for_now_is_late\<close>). With
  room for 256 ids in the output array, the
  \<open>j\<close>-th tick reports precisely the ids of the timers whose expiry is \<open>j + 1\<close> ticks
  after the present time, and after \<open>k\<close> ticks the wheel holds precisely the later ones.\<close>

theorem timers_fire_on_time:
  assumes "tw_reach w" and "256 \<le> mx" and "tw_run mx k w = (w', outs)"
  shows "length outs = k \<and>
    (\<forall>j < k. mset (outs ! j) = due_at (unat (tw_now w) + j + 1) w) \<and>
    tw_bag w' = {#e \<in># tw_bag w. unat (te_expiry e) > unat (tw_now w) + k#}"
  using tw_reach_inv [OF assms(1)] assms(3)
proof (induction k arbitrary: w outs)
  case 0
  then show ?case
    using tw_inv_later [of w] by (auto intro: filter_mset_cong [of _ _ _ "\<lambda>_. True", symmetric, simplified])
next
  case (Suc k)
  obtain w1 out outs' where adv: "tw_advance w mx = (w1, out)"
    and run: "tw_run mx k w1 = (w', outs')" and outs: "outs = out # outs'"
    using Suc.prems(2) by (auto split: prod.splits)
  note tick = tick_outputs [OF Suc.prems(1) assms(2) adv]
  note later = later_bag [OF Suc.prems(1) assms(2) adv]
  have IH: "length outs' = k" "\<And>j. j < k \<Longrightarrow> mset (outs' ! j) = due_at (unat (tw_now w1) + j + 1) w1"
    "tw_bag w' = {#e \<in># tw_bag w1. unat (te_expiry e) > unat (tw_now w1) + k#}"
    using Suc.IH [OF tw_advance_rule(1) [OF Suc.prems(1) adv] run] by auto
  have "due_at (unat (tw_now w1) + j + 1) w1 = due_at (unat (tw_now w) + Suc j + 1) w" for j
    using later [of "\<lambda>E N. E = N + j + 1"] by (simp add: due_at_def)
  moreover have "tw_bag w' = {#e \<in># tw_bag w. unat (te_expiry e) > unat (tw_now w) + Suc k#}"
    using IH(3) later [of "\<lambda>E N. E > N + k"] by simp
  ultimately show ?case
    using IH tick(1) by (auto simp: outs nth_Cons split: nat.splits)
qed

theorem timers_fire_on_time_witness:
  "tw_reach (snd (tw_add tw_init 7 2)) \<and>
   mset (snd (tw_run 256 2 (snd (tw_add tw_init 7 2))) ! 1) =
     due_at (unat (tw_now (snd (tw_add tw_init 7 2))) + 1 + 1) (snd (tw_add tw_init 7 2)) \<and>
   snd (tw_run 256 2 (snd (tw_add tw_init 7 2))) = [[], [7]]"
proof -
  have "tw_reach (snd (tw_add tw_init 7 2))"
    by (rule reach_add [OF reach_init]) (simp add: tw_init_def)
  moreover have "snd (tw_run 256 2 (snd (tw_add tw_init 7 2))) = [[], [7]]"
    by code_simp
  ultimately show ?thesis
    using timers_fire_on_time [of "snd (tw_add tw_init 7 2)" 256 2, OF _ _ prod.collapse [symmetric]]
    by (auto dest!: spec [of _ "1 :: nat"])
qed

text \<open>\<open>tw_next\<close> returns the earliest expiry in the wheel, and 0 for an empty one.\<close>

lemma tw_next_is_earliest:
  assumes "tw_reach w"
  shows "tw_next w =
    (if tw_bag w = {#} then 0 else Min (te_expiry ` set_mset (tw_bag w)))"
proof -
  let ?es = "concat (map (\<lambda>(l, s). tw_slots w l s) (List.product [0..<TW_LEVELS] [0..<TW_SLOTS]))"
  have set: "set ?es = set_mset (tw_bag w)"
    by (simp add: set_eq_iff in_tw_bag tw_consts) (metis atLeastLessThan_iff zero_le)
  have "te_expiry e \<noteq> 0" if "e \<in> set ?es" for e
    using tw_inv_later [OF tw_reach_inv [OF assms], of e] that unfolding set by auto
  then have "tw_next w = (if ?es = [] then 0 else Min (te_expiry ` set ?es))"
    unfolding tw_next_flat using next_one_fold [of ?es 0] by auto
  then show ?thesis
    unfolding set by (metis set set_empty2 set_mset_eq_empty_iff)
qed

text \<open>A timer added for the current tick, which \<open>tw_add\<close> accepts, goes into the slot that the
  clock has just left and fires 64 ticks later.\<close>

lemma set_slot_id: "tw_slots w l s = [] \<Longrightarrow> set_slot l s [] w = w"
  by (simp add: set_slot_def fun_upd_idem)

lemma idle_tick:
  assumes "\<And>l s. 1 \<le> l \<Longrightarrow> tw_slots w l s = []" and "tw_slots w 0 (slot_of (tw_now w + 1) 0) = []"
  shows "tw_advance w mx = (w\<lparr>tw_now := tw_now w + 1\<rparr>, [])"
proof -
  let ?w = "w\<lparr>tw_now := tw_now w + 1\<rparr>"
  have "cascade_level l ?w = ?w" if "1 \<le> l" for l
    using assms(1) [OF that] by (simp add: cascade_level_def cascade_def set_slot_id)
  then have "fold cascade_level ls ?w = ?w" if "\<forall>l \<in> set ls. 1 \<le> l" for ls
    using that by (induction ls) auto
  then have "fold cascade_level [1..<TW_LEVELS] ?w = ?w" by simp
  then show ?thesis
    using assms(2) by (simp only: tw_advance_def Let_def) (simp add: set_slot_id)
qed

lemma idle_run:
  assumes "\<And>l s. (l, s) \<noteq> (0, 0) \<Longrightarrow> tw_slots w l s = []"
    and "unat (tw_now w) + k < 64"
  shows "tw_run mx k w = (w\<lparr>tw_now := tw_now w + of_nat k\<rparr>, replicate k [])"
  using assms
proof (induction k arbitrary: w)
  case (Suc k)
  have "slot_of (tw_now w + 1) 0 \<noteq> 0"
    using Suc.prems(2) by (simp add: slot_of_unat unat_u64_Suc)
  then have "tw_advance w mx = (w\<lparr>tw_now := tw_now w + 1\<rparr>, [])"
    using Suc.prems(1) by (intro idle_tick) auto
  moreover have "tw_run mx k (w\<lparr>tw_now := tw_now w + 1\<rparr>) =
      (w\<lparr>tw_now := tw_now w + 1 + of_nat k\<rparr>, replicate k [])"
    using Suc.IH [of "w\<lparr>tw_now := tw_now w + 1\<rparr>"] Suc.prems by (simp add: unat_u64_Suc)
  ultimately show ?case by (simp add: algebra_simps)
qed simp

lemma timer_for_now_is_late:
  "fst (tw_add tw_init 7 0) = 0"
  "snd (tw_run mx 63 (snd (tw_add tw_init 7 0))) = replicate 63 []"
  "snd (tw_advance (fst (tw_run mx 63 (snd (tw_add tw_init 7 0)))) 256) = [7]"
proof -
  let ?w = "snd (tw_add tw_init 7 0)"
  have w: "?w = \<lparr>tw_now = 0, tw_pending = 1, tw_cascades = 0,
      tw_slots = (\<lambda>_ _. [])(0 := (\<lambda>_. [])(0 := [\<lparr>te_id = 7, te_expiry = 0\<rparr>])),
      tw_pool_used = 1\<rparr>"
    by (simp add: tw_add_def tw_init_def tw_consts Let_def tw_place_def set_slot_def
        level_for_cases slot_of_def)
  have run: "tw_run mx 63 ?w = (?w\<lparr>tw_now := 63\<rparr>, replicate 63 [])"
  proof -
    have "tw_slots ?w l s = []" if "(l, s) \<noteq> (0, 0)" for l s using that by (auto simp: w)
    moreover have "tw_now ?w = 0" by (simp add: w)
    ultimately show ?thesis using idle_run [of ?w 63 mx] by simp
  qed
  then show "snd (tw_run mx 63 ?w) = replicate 63 []" by simp
  show "fst (tw_add tw_init 7 0) = 0"
    by (simp add: tw_add_def tw_init_def tw_consts Let_def)
  have "snd (tw_advance (?w\<lparr>tw_now := 63\<rparr>) 256) = [7]" by code_simp
  then show "snd (tw_advance (fst (tw_run mx 63 ?w)) 256) = [7]" by (simp only: run fst_conv)
qed

text \<open>No tick gives pool cells back: once 256 timers were ever added, every further one is
  refused, even on a wheel that holds none.\<close>

lemma pool_cells_not_reclaimed:
  assumes "tw_inv w" and "tw_advance w mx = (w', out)"
  shows "tw_pool_used w' = tw_pool_used w"
    and "tw_pool_used w = TW_MAX_ENTRIES \<Longrightarrow> tw_add w' i t = (-1, w')"
proof -
  show *: "tw_pool_used w' = tw_pool_used w" using tw_advance_rule(5) [OF assms] .
  show "tw_add w' i t = (-1, w')" if "tw_pool_used w = TW_MAX_ENTRIES"
    using that * by (simp add: tw_add_def)
qed

end
