(* ===== verification/Bit_Array.thy ===== *)
theory Bit_Array
  imports Prelude
begin

text \<open>
  Arrays of bits packed eight to a byte, the way the hive marks dead slots and the page
  allocator marks used pages: bit \<open>i\<close> is bit \<open>i & 7\<close> of byte \<open>i >> 3\<close>.
\<close>

definition ba_get :: "u8 list \<Rightarrow> nat \<Rightarrow> bool" where
  "ba_get bs i \<longleftrightarrow> drop_bit (i mod 8) (bs ! (i div 8)) AND 1 = 1"

definition ba_set :: "u8 list \<Rightarrow> nat \<Rightarrow> u8 list" where
  "ba_set bs i = bs[i div 8 := bs ! (i div 8) OR push_bit (i mod 8) 1]"

definition ba_clr :: "u8 list \<Rightarrow> nat \<Rightarrow> u8 list" where
  "ba_clr bs i = bs[i div 8 := bs ! (i div 8) AND NOT (push_bit (i mod 8) 1)]"

lemma ba_get_bit: "ba_get bs i \<longleftrightarrow> bit (bs ! (i div 8)) (i mod 8)"
  by (simp add: ba_get_def bit_iff_odd_drop_bit and_one_eq odd_iff_mod_2_eq_one)

lemma div_mod_8_eq: "i div 8 = j div 8 \<Longrightarrow> i mod 8 = j mod 8 \<Longrightarrow> i = (j :: nat)"
  by (metis div_mult_mod_eq)

lemma length_ba [simp]: "length (ba_set bs i) = length bs" "length (ba_clr bs i) = length bs"
  by (simp_all add: ba_set_def ba_clr_def)

lemma ba_get_set: "i div 8 < length bs \<Longrightarrow> ba_get (ba_set bs i) j \<longleftrightarrow> j = i \<or> ba_get bs j"
  by (auto simp: ba_get_bit ba_set_def nth_list_update bit_or_iff bit_exp_iff dest: div_mod_8_eq)

lemma ba_get_clr: "i div 8 < length bs \<Longrightarrow> ba_get (ba_clr bs i) j \<longleftrightarrow> j \<noteq> i \<and> ba_get bs j"
  by (auto simp: ba_get_bit ba_clr_def nth_list_update bit_and_iff bit_not_iff bit_exp_iff
      dest: div_mod_8_eq)

lemma ba_get_ones: "i div 8 < n \<Longrightarrow> ba_get (replicate n 0xFF) i"
proof -
  assume "i div 8 < n"
  then have "replicate n (0xFF :: u8) ! (i div 8) = - 1" by simp
  then show ?thesis by (simp only: ba_get_bit) (simp add: bit_minus_1_iff)
qed

lemma ba_get_zeros [simp]: "i div 8 < n \<Longrightarrow> \<not> ba_get (replicate n 0) i"
  by (simp add: ba_get_bit)

end
