(* ===== verification/Hive.thy ===== *)
theory Hive
  imports Bit_Array "HOL-Library.Multiset"
begin

text \<open>
  The hive container of \<open>kernel/wubu_hive.c\<close>: a list of blocks of fixed capacity, in each
  block a bit field that marks the dead slots and a free list of the dead slots threaded
  through the slots themselves, so that a slot word is an element pointer or the index of
  the next free slot.

  The linked list of blocks is the list of blocks in order from \<open>head\<close>; \<open>tail\<close> is
  its last element. A block pointer of an iterator is the position of the block.
  Element pointers are 64-bit words and \<open>NULL\<close> is 0. Counters that never exceed
  the number of slots in memory are natural numbers. The allocator is a callback
  of the caller: the parameter \<open>alloc k n\<close> says whether the \<open>k\<close>-th request of an
  operation, of \<open>n\<close> bytes, succeeds.
\<close>

section \<open>Blocks\<close>

definition WUBU_HIVE_NONE :: u64 where "WUBU_HIVE_NONE = - 1"
definition WUBU_HIVE_DEFAULT_CAP :: nat where "WUBU_HIVE_DEFAULT_CAP = 32"

record wubu_hive_block =
  hb_slots :: "u64 list"
  hb_skip :: "u8 list"
  hb_live :: nat
  hb_cap :: nat
  hb_free_head :: u64

record wubu_hive =
  hv_blocks :: "wubu_hive_block list"
  hv_block_cap :: nat
  hv_size :: nat
  hv_capacity :: nat

record wubu_hive_iter =
  hi_block :: "nat option"
  hi_idx :: nat

definition skip_get :: "wubu_hive_block \<Rightarrow> nat \<Rightarrow> bool" where
  "skip_get b i \<longleftrightarrow> ba_get (hb_skip b) i"

definition skip_set :: "wubu_hive_block \<Rightarrow> nat \<Rightarrow> wubu_hive_block" where
  "skip_set b i = b\<lparr>hb_skip := ba_set (hb_skip b) i\<rparr>"

definition skip_clr :: "wubu_hive_block \<Rightarrow> nat \<Rightarrow> wubu_hive_block" where
  "skip_clr b i = b\<lparr>hb_skip := ba_clr (hb_skip b) i\<rparr>"

text \<open>The words that chain every slot of a block into the free list.\<close>

definition free_chain :: "nat \<Rightarrow> u64 list" where
  "free_chain cap = map (\<lambda>i. if i + 1 < cap then of_nat (i + 1) else WUBU_HIVE_NONE) [0..<cap]"

definition fresh_block :: "nat \<Rightarrow> wubu_hive_block" where
  "fresh_block cap = \<lparr>hb_slots = free_chain cap, hb_skip = replicate ((cap + 7) div 8) 0xFF,
     hb_live = 0, hb_cap = cap, hb_free_head = 0\<rparr>"

text \<open>Appending a block asks for the block header (48 bytes), its slots and its bit field.\<close>

definition wubu_hive_block_new :: "(nat \<Rightarrow> u64 \<Rightarrow> bool) \<Rightarrow> wubu_hive \<Rightarrow> wubu_hive option" where
  "wubu_hive_block_new alloc h =
     (let cap = hv_block_cap h in
      if \<not> alloc 0 48 then None
      else if \<not> alloc 1 (of_nat cap * 8) then None
      else if \<not> alloc 2 (of_nat ((cap + 7) div 8)) then None
      else Some (h\<lparr>hv_blocks := hv_blocks h @ [fresh_block cap],
                   hv_capacity := hv_capacity h + cap\<rparr>))"

section \<open>Operations\<close>

definition wubu_hive_new :: "nat \<Rightarrow> (nat \<Rightarrow> u64 \<Rightarrow> bool) \<Rightarrow> wubu_hive option" where
  "wubu_hive_new block_cap alloc =
     (let cap = (if block_cap = 0 then WUBU_HIVE_DEFAULT_CAP else block_cap) in
      if \<not> alloc 0 56 then None
      else Some \<lparr>hv_blocks = [], hv_block_cap = cap, hv_size = 0, hv_capacity = 0\<rparr>)"

text \<open>Destroying a hive releases storage; the model is the sequence of the releases.\<close>

datatype hive_storage = Skip_of nat | Slots_of nat | Block_of nat | Hive_itself

definition wubu_hive_destroy :: "wubu_hive \<Rightarrow> hive_storage list" where
  "wubu_hive_destroy h =
     concat (map (\<lambda>b. [Skip_of b, Slots_of b, Block_of b]) [0..<length (hv_blocks h)])
     @ [Hive_itself]"

definition wubu_hive_size :: "wubu_hive \<Rightarrow> nat" where
  "wubu_hive_size h = hv_size h"

definition wubu_hive_capacity :: "wubu_hive \<Rightarrow> nat" where
  "wubu_hive_capacity h = hv_capacity h"

definition wubu_hive_block_count :: "wubu_hive \<Rightarrow> nat" where
  "wubu_hive_block_count h = length (hv_blocks h)"

definition wubu_hive_empty :: "wubu_hive \<Rightarrow> bool" where
  "wubu_hive_empty h \<longleftrightarrow> hv_size h = 0"

definition block_put :: "u64 \<Rightarrow> wubu_hive_block \<Rightarrow> wubu_hive_block" where
  "block_put elem b =
     (let idx = unat (hb_free_head b);
          b1 = b\<lparr>hb_free_head := hb_slots b ! idx\<rparr>;
          b2 = b1\<lparr>hb_slots := (hb_slots b1)[idx := elem]\<rparr>;
          b3 = skip_clr b2 idx
      in b3\<lparr>hb_live := hb_live b3 + 1\<rparr>)"

definition hive_put :: "nat \<Rightarrow> u64 \<Rightarrow> wubu_hive \<Rightarrow> wubu_hive" where
  "hive_put j elem h =
     h\<lparr>hv_blocks := (hv_blocks h)[j := block_put elem (hv_blocks h ! j)],
       hv_size := hv_size h + 1\<rparr>"

definition wubu_hive_insert ::
  "(nat \<Rightarrow> u64 \<Rightarrow> bool) \<Rightarrow> wubu_hive \<Rightarrow> u64 \<Rightarrow> u64 \<times> wubu_hive" where
  "wubu_hive_insert alloc h elem =
     (if elem = 0 then (0, h)
      else case find_slot (\<lambda>b. hb_free_head b \<noteq> WUBU_HIVE_NONE) (hv_blocks h) of
        Some j \<Rightarrow> (elem, hive_put j elem h)
      | None \<Rightarrow>
          (case wubu_hive_block_new alloc h of
             None \<Rightarrow> (0, h)
           | Some h1 \<Rightarrow> (elem, hive_put (length (hv_blocks h)) elem h1)))"

definition block_free :: "nat \<Rightarrow> wubu_hive_block \<Rightarrow> wubu_hive_block" where
  "block_free i b =
     (let b1 = b\<lparr>hb_slots := (hb_slots b)[i := hb_free_head b]\<rparr>;
          b2 = b1\<lparr>hb_free_head := of_nat i\<rparr>;
          b3 = skip_set b2 i
      in b3\<lparr>hb_live := hb_live b3 - 1\<rparr>)"

definition wubu_hive_erase_at :: "wubu_hive \<Rightarrow> wubu_hive_iter \<Rightarrow> bool \<times> wubu_hive" where
  "wubu_hive_erase_at h it =
     (case hi_block it of
        None \<Rightarrow> (False, h)
      | Some j \<Rightarrow>
          (let b = hv_blocks h ! j in
           if hi_idx it \<ge> hb_cap b \<or> skip_get b (hi_idx it) then (False, h)
           else (True, h\<lparr>hv_blocks := (hv_blocks h)[j := block_free (hi_idx it) b],
                         hv_size := hv_size h - 1\<rparr>)))"

definition block_clear :: "wubu_hive_block \<Rightarrow> wubu_hive_block" where
  "block_clear b =
     b\<lparr>hb_skip := replicate ((hb_cap b + 7) div 8) 0xFF, hb_slots := free_chain (hb_cap b),
       hb_live := 0, hb_free_head := 0\<rparr>"

definition wubu_hive_clear :: "wubu_hive \<Rightarrow> wubu_hive" where
  "wubu_hive_clear h = h\<lparr>hv_blocks := map block_clear (hv_blocks h), hv_size := 0\<rparr>"

section \<open>Iteration\<close>

definition block_live_from :: "wubu_hive_block \<Rightarrow> nat \<Rightarrow> nat option" where
  "block_live_from b i = first_from (\<lambda>i. \<not> skip_get b i) i (hb_cap b)"

definition wubu_hive_block_first_live :: "wubu_hive_block \<Rightarrow> nat option" where
  "wubu_hive_block_first_live b = block_live_from b 0"

definition no_iter :: wubu_hive_iter where
  "no_iter = \<lparr>hi_block = None, hi_idx = 0\<rparr>"

text \<open>The loop over the blocks from position \<open>j\<close> on, which \<open>first\<close> and \<open>next\<close> share.\<close>

definition first_block_from :: "wubu_hive \<Rightarrow> nat \<Rightarrow> u64 \<times> wubu_hive_iter" where
  "first_block_from h j =
     (case first_from (\<lambda>j. wubu_hive_block_first_live (hv_blocks h ! j) \<noteq> None) j
             (length (hv_blocks h)) of
        None \<Rightarrow> (0, no_iter)
      | Some j' \<Rightarrow>
          (let i = the (wubu_hive_block_first_live (hv_blocks h ! j'))
           in (hb_slots (hv_blocks h ! j') ! i, \<lparr>hi_block = Some j', hi_idx = i\<rparr>)))"

definition wubu_hive_first :: "wubu_hive \<Rightarrow> u64 \<times> wubu_hive_iter" where
  "wubu_hive_first h = first_block_from h 0"

definition wubu_hive_next :: "wubu_hive \<Rightarrow> wubu_hive_iter \<Rightarrow> u64 \<times> wubu_hive_iter" where
  "wubu_hive_next h it =
     (case hi_block it of
        None \<Rightarrow> (0, it)
      | Some j \<Rightarrow>
          (case block_live_from (hv_blocks h ! j) (hi_idx it + 1) of
             Some i \<Rightarrow> (hb_slots (hv_blocks h ! j) ! i, \<lparr>hi_block = Some j, hi_idx = i\<rparr>)
           | None \<Rightarrow> first_block_from h (j + 1)))"

text \<open>What an iteration has still to visit: the live elements of a block from a slot on, of the
  blocks from a position on, and after an iterator.\<close>

definition block_from :: "wubu_hive_block \<Rightarrow> nat \<Rightarrow> u64 list" where
  "block_from b i = map (\<lambda>k. hb_slots b ! k) (filter (\<lambda>k. \<not> skip_get b k) [i..<hb_cap b])"

definition blocks_from :: "wubu_hive \<Rightarrow> nat \<Rightarrow> u64 list" where
  "blocks_from h j = concat (map (\<lambda>k. block_from (hv_blocks h ! k) 0) [j..<length (hv_blocks h)])"

definition rest_after :: "wubu_hive \<Rightarrow> wubu_hive_iter \<Rightarrow> u64 list" where
  "rest_after h it =
     (case hi_block it of
        None \<Rightarrow> []
      | Some j \<Rightarrow> block_from (hv_blocks h ! j) (hi_idx it + 1) @ blocks_from h (j + 1))"

lemma first_from_filter:
  "filter P [i..<n] = (case first_from P i n of None \<Rightarrow> [] | Some k \<Rightarrow> k # filter P [Suc k..<n])"
proof (induction P i n rule: first_from.induct)
  case (1 P i n)
  then show ?case
    by (simp add: first_from.simps [of P i n] upt_conv_Cons del: upt_Suc)
qed

lemma first_from_concat:
  "concat (map f [i..<n]) =
    (case first_from (\<lambda>k. f k \<noteq> []) i n of
       None \<Rightarrow> [] | Some k \<Rightarrow> f k @ concat (map f [Suc k..<n]))"
proof (induction "\<lambda>k. f k \<noteq> []" i n rule: first_from.induct)
  case (1 i n)
  then show ?case
    by (simp add: first_from.simps [of "\<lambda>k. f k \<noteq> []" i n] upt_conv_Cons del: upt_Suc)
qed

lemma block_from_eq:
  "block_from b i = (case block_live_from b i of
     None \<Rightarrow> [] | Some k \<Rightarrow> hb_slots b ! k # block_from b (k + 1))"
  by (simp add: block_from_def block_live_from_def first_from_filter [of _ i] split: option.splits)

lemma blocks_from_step:
  "first_block_from h j =
    (case blocks_from h j of [] \<Rightarrow> (0, no_iter) | e # _ \<Rightarrow> (e, snd (first_block_from h j)))"
  "blocks_from h j \<noteq> [] \<Longrightarrow> rest_after h (snd (first_block_from h j)) = tl (blocks_from h j)"
proof -
  have live: "wubu_hive_block_first_live b \<noteq> None \<longleftrightarrow> block_from b 0 \<noteq> []" for b
    by (subst block_from_eq) (simp add: wubu_hive_block_first_live_def split: option.splits)
  note unf = first_block_from_def live
    blocks_from_def [of h j, unfolded first_from_concat [where i = j]]
  show "first_block_from h j =
    (case blocks_from h j of [] \<Rightarrow> (0, no_iter) | e # _ \<Rightarrow> (e, snd (first_block_from h j)))"
    unfolding unf
    by (auto simp: Let_def wubu_hive_block_first_live_def block_from_eq [of _ 0]
        split: option.splits dest!: first_from_SomeD(3))
  show "rest_after h (snd (first_block_from h j)) = tl (blocks_from h j)" if "blocks_from h j \<noteq> []"
    using that unfolding unf
    by (auto simp: Let_def wubu_hive_block_first_live_def block_from_eq [of _ 0] rest_after_def
        blocks_from_def split: option.splits dest!: first_from_SomeD(3))
qed

lemma wubu_hive_next_step:
  "wubu_hive_next h it =
    (case rest_after h it of
       [] \<Rightarrow> (0, if hi_block it = None then it else no_iter)
     | e # _ \<Rightarrow> (e, snd (wubu_hive_next h it)))"
  "rest_after h it \<noteq> [] \<Longrightarrow> rest_after h (snd (wubu_hive_next h it)) = tl (rest_after h it)"
proof -
  have "(wubu_hive_next h it =
      (case rest_after h it of
         [] \<Rightarrow> (0, if hi_block it = None then it else no_iter)
       | e # _ \<Rightarrow> (e, snd (wubu_hive_next h it)))) \<and>
    (rest_after h it \<noteq> [] \<longrightarrow> rest_after h (snd (wubu_hive_next h it)) = tl (rest_after h it))"
  proof (cases "hi_block it")
    case None
    then show ?thesis by (simp add: wubu_hive_next_def rest_after_def)
  next
    case (Some j)
    show ?thesis
    proof (cases "block_live_from (hv_blocks h ! j) (hi_idx it + 1)")
      case None
      then have "rest_after h it = blocks_from h (j + 1)"
        and "wubu_hive_next h it = first_block_from h (j + 1)"
        using Some
        by (simp_all add: rest_after_def wubu_hive_next_def block_from_eq [of _ "Suc (hi_idx it)"])
      with Some show ?thesis
        by (simp only: option.distinct if_False) (intro conjI impI blocks_from_step)
    next
      case (Some i)
      with \<open>hi_block it = Some j\<close> show ?thesis
        by (simp add: wubu_hive_next_def rest_after_def block_from_eq [of _ "Suc (hi_idx it)"])
    qed
  qed
  then show "wubu_hive_next h it =
      (case rest_after h it of
         [] \<Rightarrow> (0, if hi_block it = None then it else no_iter)
       | e # _ \<Rightarrow> (e, snd (wubu_hive_next h it)))"
    and "rest_after h it \<noteq> [] \<Longrightarrow> rest_after h (snd (wubu_hive_next h it)) = tl (rest_after h it)"
    by blast+
qed

text \<open>The number of rounds a loop over the hive has left when it stands at element \<open>e\<close>.\<close>

definition rounds :: "wubu_hive \<Rightarrow> u64 \<times> wubu_hive_iter \<Rightarrow> nat" where
  "rounds h p = (if fst p = 0 then 0 else Suc (length (rest_after h (snd p))))"

lemma rounds_next: "e \<noteq> 0 \<Longrightarrow> rounds h (wubu_hive_next h it) < rounds h (e, it)"
proof (cases "rest_after h it")
  case Nil
  assume "e \<noteq> 0"
  have "fst (wubu_hive_next h it) = 0"
    by (subst wubu_hive_next_step(1)) (simp add: Nil)
  with \<open>e \<noteq> 0\<close> show ?thesis by (simp add: rounds_def)
next
  case (Cons x xs)
  assume "e \<noteq> 0"
  with Cons wubu_hive_next_step(2) [of h it] show ?thesis by (simp add: rounds_def)
qed

text \<open>The loop of \<open>wubu_hive_erase\<close>, and the loop of a caller that collects the elements.\<close>

function erase_loop :: "wubu_hive \<Rightarrow> u64 \<Rightarrow> u64 \<times> wubu_hive_iter \<Rightarrow> u64 \<times> wubu_hive" where
  "erase_loop h elem (e, it) =
     (if e = 0 then (0, h)
      else if e = elem then (elem, snd (wubu_hive_erase_at h it))
      else erase_loop h elem (wubu_hive_next h it))"
  by pat_completeness auto
termination
  by (relation "measure (\<lambda>(h, elem, p). rounds h p)") (auto intro: rounds_next)

definition wubu_hive_erase :: "wubu_hive \<Rightarrow> u64 \<Rightarrow> u64 \<times> wubu_hive" where
  "wubu_hive_erase h elem =
     (if elem = 0 then (0, h) else erase_loop h elem (wubu_hive_first h))"

function walk :: "wubu_hive \<Rightarrow> u64 \<times> wubu_hive_iter \<Rightarrow> u64 list" where
  "walk h (e, it) = (if e = 0 then [] else e # walk h (wubu_hive_next h it))"
  by pat_completeness auto
termination
  by (relation "measure (\<lambda>(h, p). rounds h p)") (auto intro: rounds_next)

declare erase_loop.simps [simp del] walk.simps [simp del]

end
