(* ===== verification/Bag_Store.thy ===== *)
theory Bag_Store
  imports Prelude "HOL-Library.Multiset"
begin

text \<open>
  The contract of a container that keeps a bag of elements: insertion may fail (and then
  changes nothing), deletion removes one occurrence and says whether there was one, clearing
  empties the bag. A client that only knows these laws predicts the contents after any
  sequence of operations from the operations and their outcomes.
\<close>

datatype ('a, 'e) bag_op = Insert_op 'a 'e | Erase_op 'e | Clear_op

fun bag_run :: "('a, 'e) bag_op list \<Rightarrow> bool list \<Rightarrow> 'e multiset \<Rightarrow> 'e multiset option" where
  "bag_run [] [] B = Some B"
| "bag_run (Insert_op a e # ops) (r # rs) B = bag_run ops rs (if r then add_mset e B else B)"
| "bag_run (Erase_op e # ops) (r # rs) B =
     (if r = (e \<in># B) then bag_run ops rs (B - {#e#}) else None)"
| "bag_run (Clear_op # ops) (r # rs) B = bag_run ops rs {#}"
| "bag_run _ _ B = None"

locale bag_store =
  fixes invar :: "'s \<Rightarrow> bool"
    and bag :: "'s \<Rightarrow> 'e multiset"
    and ins :: "'a \<Rightarrow> 'e \<Rightarrow> 's \<Rightarrow> bool \<times> 's"
    and del :: "'e \<Rightarrow> 's \<Rightarrow> bool \<times> 's"
    and clr :: "'s \<Rightarrow> 's"
  assumes ins_invar: "invar s \<Longrightarrow> ins a e s = (r, s') \<Longrightarrow> invar s'"
    and ins_bag: "invar s \<Longrightarrow> ins a e s = (r, s') \<Longrightarrow>
      bag s' = (if r then add_mset e (bag s) else bag s)"
    and del_invar: "invar s \<Longrightarrow> del e s = (r, s') \<Longrightarrow> invar s'"
    and del_result: "invar s \<Longrightarrow> del e s = (r, s') \<Longrightarrow> r \<longleftrightarrow> e \<in># bag s"
    and del_bag: "invar s \<Longrightarrow> del e s = (r, s') \<Longrightarrow> bag s' = bag s - {#e#}"
    and clr_invar: "invar s \<Longrightarrow> invar (clr s)"
    and clr_bag: "invar s \<Longrightarrow> bag (clr s) = {#}"
begin

definition step :: "('a, 'e) bag_op \<Rightarrow> 's \<Rightarrow> bool \<times> 's" where
  "step op s = (case op of Insert_op a e \<Rightarrow> ins a e s | Erase_op e \<Rightarrow> del e s | Clear_op \<Rightarrow> (True, clr s))"

lemma step_refines:
  assumes "invar s" and "step op s = (r, s')"
  shows "invar s'" and "bag_run (op # ops) (r # rs) (bag s) = bag_run ops rs (bag s')"
proof -
  have "invar s' \<and> bag_run (op # ops) (r # rs) (bag s) = bag_run ops rs (bag s')"
  proof (cases op)
    case (Insert_op a e)
    with assms have "ins a e s = (r, s')" by (simp add: step_def)
    from ins_invar [OF assms(1) this] ins_bag [OF assms(1) this] Insert_op show ?thesis by simp
  next
    case (Erase_op e)
    with assms have "del e s = (r, s')" by (simp add: step_def)
    from del_invar [OF assms(1) this] del_result [OF assms(1) this] del_bag [OF assms(1) this] Erase_op
    show ?thesis by simp
  next
    case Clear_op
    with assms show ?thesis by (auto simp: step_def clr_invar clr_bag)
  qed
  then show "invar s'" and "bag_run (op # ops) (r # rs) (bag s) = bag_run ops rs (bag s')" by auto
qed

fun run :: "('a, 'e) bag_op list \<Rightarrow> 's \<Rightarrow> bool list \<times> 's" where
  "run [] s = ([], s)"
| "run (op # ops) s =
     (case step op s of (r, s1) \<Rightarrow> case run ops s1 of (rs, s2) \<Rightarrow> (r # rs, s2))"

lemma run_refines:
  "invar s \<Longrightarrow> run ops s = (rs, s') \<Longrightarrow> invar s' \<and> bag_run ops rs (bag s) = Some (bag s')"
proof (induction ops arbitrary: s rs)
  case (Cons op ops)
  obtain r s1 rs1 where "step op s = (r, s1)" "run ops s1 = (rs1, s')" "rs = r # rs1"
    using Cons.prems(2) by (auto split: prod.splits)
  then show ?case
    using Cons.IH [of s1 rs1] step_refines [OF Cons.prems(1), of op r s1] by simp
qed simp

end

end
