(* ===== verification/Hive_Facts.thy ===== *)
theory Hive_Facts
  imports Hive Bag_Store
begin

text \<open>
  Correctness of the hive: the invariant of a block (its free list visits exactly its dead
  slots), its preservation, the hive as a bag of elements, and iteration.
\<close>

section \<open>The bit field\<close>

lemma skip_get_set:
  "i div 8 < length (hb_skip b) \<Longrightarrow> skip_get (skip_set b i) j \<longleftrightarrow> j = i \<or> skip_get b j"
  by (simp add: skip_get_def skip_set_def ba_get_set)

lemma skip_get_clr:
  "i div 8 < length (hb_skip b) \<Longrightarrow> skip_get (skip_clr b i) j \<longleftrightarrow> j \<noteq> i \<and> skip_get b j"
  by (simp add: skip_get_def skip_clr_def ba_get_clr)

lemma skip_fields [simp]:
  "hb_slots (skip_set b i) = hb_slots b" "hb_live (skip_set b i) = hb_live b"
  "hb_cap (skip_set b i) = hb_cap b" "hb_free_head (skip_set b i) = hb_free_head b"
  "hb_slots (skip_clr b i) = hb_slots b" "hb_live (skip_clr b i) = hb_live b"
  "hb_cap (skip_clr b i) = hb_cap b" "hb_free_head (skip_clr b i) = hb_free_head b"
  "length (hb_skip (skip_set b i)) = length (hb_skip b)"
  "length (hb_skip (skip_clr b i)) = length (hb_skip b)"
  by (simp_all add: skip_set_def skip_clr_def)

lemma skip_get_field [simp]:
  "skip_get (b\<lparr>hb_slots := x\<rparr>) = skip_get b" "skip_get (b\<lparr>hb_live := n\<rparr>) = skip_get b"
  "skip_get (b\<lparr>hb_free_head := w\<rparr>) = skip_get b"
  by (simp_all add: skip_get_def fun_eq_iff)

section \<open>Blocks\<close>

definition live_idx :: "wubu_hive_block \<Rightarrow> nat set" where
  "live_idx b = {i. i < hb_cap b \<and> \<not> skip_get b i}"

definition dead_idx :: "wubu_hive_block \<Rightarrow> nat set" where
  "dead_idx b = {i. i < hb_cap b \<and> skip_get b i}"

definition free_list :: "wubu_hive_block \<Rightarrow> u64 list \<Rightarrow> bool" where
  "free_list b fl \<longleftrightarrow> chain (\<lambda>x. hb_slots b ! unat x) WUBU_HIVE_NONE (hb_free_head b) fl
     \<and> distinct fl \<and> unat ` set fl = dead_idx b"

definition block_ok :: "wubu_hive_block \<Rightarrow> bool" where
  "block_ok b \<longleftrightarrow> 0 < hb_cap b \<and> hb_cap b < 2 ^ 60 \<and> length (hb_slots b) = hb_cap b
     \<and> length (hb_skip b) = (hb_cap b + 7) div 8 \<and> (\<exists>fl. free_list b fl)
     \<and> (\<forall>i \<in> live_idx b. hb_slots b ! i \<noteq> 0) \<and> hb_live b = card (live_idx b)"

lemma finite_idx [simp]: "finite (live_idx b)" "finite (dead_idx b)"
  by (simp_all add: live_idx_def dead_idx_def)

lemma block_ok_skip: "block_ok b \<Longrightarrow> i < hb_cap b \<Longrightarrow> i div 8 < length (hb_skip b)"
  by (simp add: block_ok_def)

lemma mset_block:
  "mset (block_from b 0) = image_mset (\<lambda>k. hb_slots b ! k) (mset_set (live_idx b))"
proof -
  have "mset (filter (\<lambda>k. \<not> skip_get b k) [0..<hb_cap b]) = mset_set (live_idx b)"
    by (simp add: mset_set_set [symmetric] live_idx_def set_filter [symmetric] del: set_filter mset_filter)
       (simp add: mset_set_set atLeast0LessThan lessThan_def conj_commute)
  then show ?thesis by (simp add: block_from_def del: mset_filter)
qed

lemma length_block: "length (block_from b 0) = card (live_idx b)"
  by (metis mset_block size_image_mset size_mset size_mset_set)

lemma mset_image_cong:
  "finite A \<Longrightarrow> (\<And>k. k \<in> A \<Longrightarrow> f k = g k) \<Longrightarrow>
     image_mset f (mset_set A) = image_mset g (mset_set A)"
  by (auto intro: image_mset_cong)

subsection \<open>Fresh and cleared blocks\<close>

lemma skip_get_ff:
  "i < cap \<Longrightarrow> hb_skip b = replicate ((cap + 7) div 8) 0xFF \<Longrightarrow> skip_get b i"
  by (simp add: skip_get_def ba_get_ones)

lemma of_nat_not_NONE: "k < 2 ^ 60 \<Longrightarrow> of_nat k \<noteq> WUBU_HIVE_NONE"
  by (auto simp: WUBU_HIVE_NONE_def word_unat_eq_iff unat_u64_max)

lemma free_chain_from:
  assumes "k < cap" and "cap < 2 ^ 60"
  shows "chain (\<lambda>x. free_chain cap ! unat x) WUBU_HIVE_NONE (of_nat k) (map of_nat [k..<cap])"
  using assms(1)
proof (induction "cap - k" arbitrary: k)
  case (Suc n)
  have "unat (of_nat k :: u64) = k" using Suc.prems assms(2) by simp
  then have nxt: "free_chain cap ! unat (of_nat k :: u64) =
      (if k + 1 < cap then of_nat (k + 1) else WUBU_HIVE_NONE)"
    using Suc.prems by (simp add: free_chain_def)
  have ne: "of_nat k \<noteq> WUBU_HIVE_NONE" using Suc.prems assms(2) by (intro of_nat_not_NONE) simp
  show ?case
  proof (cases "k + 1 < cap")
    case True
    then have "chain (\<lambda>x. free_chain cap ! unat x) WUBU_HIVE_NONE (of_nat (k + 1))
        (map of_nat [k + 1..<cap])"
      using Suc.hyps by (intro Suc.hyps(1)) auto
    with True nxt ne show ?thesis by (simp add: upt_conv_Cons del: upt_Suc)
  next
    case False
    then have "[k..<cap] = [k]" using Suc.prems by (simp add: upt_conv_Cons)
    with False nxt ne show ?thesis by simp
  qed
qed simp

lemma free_block_ok:
  assumes "0 < cap" and "cap < 2 ^ 60"
    and "hb_slots b = free_chain cap" "hb_skip b = replicate ((cap + 7) div 8) 0xFF"
    "hb_live b = 0" "hb_cap b = cap" "hb_free_head b = 0"
  shows "block_ok b" and "block_from b 0 = []" and "live_idx b = {}"
proof -
  have dead: "skip_get b i" if "i < cap" for i
    using that assms(4) by (rule skip_get_ff)
  then show live: "live_idx b = {}" using assms(6) by (auto simp: live_idx_def)
  then show "block_from b 0 = []" by (metis card.empty length_0_conv length_block)
  have u: "unat (of_nat i :: u64) = i" if "i < cap" for i using that assms(2) by simp
  have "distinct (map of_nat [0..<cap] :: u64 list)"
    by (auto simp: distinct_map inj_on_def) (metis u)
  moreover have "unat ` set (map of_nat [0..<cap] :: u64 list) = dead_idx b"
    using u dead assms(6) by (force simp: dead_idx_def image_iff)
  ultimately have "free_list b (map of_nat [0..<cap])"
    using free_chain_from [of 0 cap] assms by (simp add: free_list_def)
  then show "block_ok b"
    using assms live by (auto simp: block_ok_def free_chain_def)
qed

lemma fresh_block_ok:
  assumes "0 < cap" and "cap < 2 ^ 60"
  shows "block_ok (fresh_block cap)" and "block_from (fresh_block cap) 0 = []"
    and "hb_cap (fresh_block cap) = cap"
  using free_block_ok [OF assms, of "fresh_block cap"] by (simp_all add: fresh_block_def)

lemma block_clear_ok:
  assumes "block_ok b"
  shows "block_ok (block_clear b)" and "block_from (block_clear b) 0 = []"
    and "hb_cap (block_clear b) = hb_cap b"
  using free_block_ok [of "hb_cap b" "block_clear b"] assms
  by (simp_all add: block_clear_def block_ok_def)

subsection \<open>Taking and giving back a slot\<close>

lemma free_head_dead:
  assumes "block_ok b" and "hb_free_head b \<noteq> WUBU_HIVE_NONE"
  shows "unat (hb_free_head b) \<in> dead_idx b"
proof -
  obtain fl where fl: "free_list b fl" using assms(1) by (auto simp: block_ok_def)
  then obtain xs where "fl = hb_free_head b # xs"
    using assms(2) by (cases fl) (auto simp: free_list_def)
  with fl show ?thesis by (auto simp: free_list_def)
qed

lemma full_block:
  assumes "block_ok b" and "hb_free_head b = WUBU_HIVE_NONE"
  shows "live_idx b = {..<hb_cap b}"
proof -
  obtain fl where fl: "free_list b fl" using assms(1) by (auto simp: block_ok_def)
  then have "dead_idx b = {}" using assms(2) by (auto simp: free_list_def)
  then show ?thesis by (auto simp: live_idx_def dead_idx_def)
qed

lemma block_put_fields [simp]: "hb_cap (block_put e b) = hb_cap b"
  by (simp add: block_put_def Let_def)

lemma block_put_live:
  assumes "block_ok b" and "hb_free_head b \<noteq> WUBU_HIVE_NONE"
  defines "x \<equiv> unat (hb_free_head b)"
  shows "live_idx (block_put e b) = insert x (live_idx b)"
    and "dead_idx (block_put e b) = dead_idx b - {x}" and "x \<notin> live_idx b" and "x < hb_cap b"
    and "hb_slots (block_put e b) = (hb_slots b)[x := e]"
    and "x < length (hb_slots b)"
proof -
  have x: "x < hb_cap b" "skip_get b x" using free_head_dead [OF assms(1,2)] by (auto simp: dead_idx_def x_def)
  then have get: "skip_get (block_put e b) j \<longleftrightarrow> j \<noteq> x \<and> skip_get b j" for j
    using skip_get_clr [of x "b\<lparr>hb_free_head := hb_slots b ! x, hb_slots := (hb_slots b)[x := e]\<rparr>" j]
      block_ok_skip [OF assms(1)]
    by (simp add: block_put_def Let_def x_def)
  show "live_idx (block_put e b) = insert x (live_idx b)"
    and "dead_idx (block_put e b) = dead_idx b - {x}" and "x \<notin> live_idx b" and "x < hb_cap b"
    using x by (auto simp: live_idx_def dead_idx_def get)
  show "hb_slots (block_put e b) = (hb_slots b)[x := e]" and "x < length (hb_slots b)"
    using x(1) assms(1) by (simp_all add: block_put_def Let_def x_def block_ok_def)
qed

lemma block_put_ok:
  assumes ok: "block_ok b" and free: "hb_free_head b \<noteq> WUBU_HIVE_NONE" and "e \<noteq> 0"
  shows "block_ok (block_put e b)"
    and "mset (block_from (block_put e b) 0) = add_mset e (mset (block_from b 0))"
proof -
  let ?x = "unat (hb_free_head b)" and ?b = "block_put e b"
  note put = block_put_live [OF ok free]
  obtain fl where fl: "free_list b fl" using ok by (auto simp: block_ok_def)
  then obtain xs where xs: "fl = hb_free_head b # xs"
    using free by (cases fl) (auto simp: free_list_def)
  have "(hb_slots b)[?x := e] ! unat y = hb_slots b ! unat y" if "y \<in> set xs" for y
  proof -
    have "unat y \<noteq> ?x"
      using fl xs that by (auto simp: free_list_def word_unat_eq_iff [symmetric])
    then show ?thesis by simp
  qed
  then have "chain (\<lambda>y. (hb_slots b)[?x := e] ! unat y) WUBU_HIVE_NONE (hb_slots b ! ?x) xs"
    using fl xs by (subst chain_cong [where nxt' = "\<lambda>y. hb_slots b ! unat y"])
      (auto simp: free_list_def)
  moreover have "hb_free_head ?b = hb_slots b ! ?x" by (simp add: block_put_def Let_def)
  moreover have "unat ` set xs = dead_idx b - {?x}"
    using fl xs by (auto simp: free_list_def word_unat_eq_iff [symmetric])
  ultimately have "free_list ?b xs"
    using fl xs put by (simp add: free_list_def)
  moreover have "hb_live ?b = card (live_idx ?b)"
    using ok put by (simp add: block_put_def Let_def block_ok_def)
  moreover have "length (hb_skip ?b) = length (hb_skip b)" by (simp add: block_put_def Let_def)
  ultimately show "block_ok ?b"
    using ok put \<open>e \<noteq> 0\<close> by (auto simp: block_ok_def nth_list_update)
  have "image_mset (\<lambda>k. (hb_slots b)[?x := e] ! k) (mset_set (live_idx b)) =
      image_mset (\<lambda>k. hb_slots b ! k) (mset_set (live_idx b))"
    using put(3) by (intro mset_image_cong) (simp, metis nth_list_update_neq)
  then show "mset (block_from ?b 0) = add_mset e (mset (block_from b 0))"
    using put by (simp add: mset_block)
qed

lemma block_free_fields [simp]: "hb_cap (block_free i b) = hb_cap b"
  by (simp add: block_free_def Let_def)

lemma block_free_live:
  assumes "block_ok b" and "i \<in> live_idx b"
  shows "live_idx (block_free i b) = live_idx b - {i}"
    and "dead_idx (block_free i b) = insert i (dead_idx b)"
    and "hb_slots (block_free i b) = (hb_slots b)[i := hb_free_head b]"
    and "i < length (hb_slots b)" and "i \<notin> dead_idx b"
proof -
  have i: "i < hb_cap b" using assms(2) by (simp add: live_idx_def)
  then have get: "skip_get (block_free i b) j \<longleftrightarrow> j = i \<or> skip_get b j" for j
    using skip_get_set [of i "b\<lparr>hb_slots := (hb_slots b)[i := hb_free_head b], hb_free_head := of_nat i\<rparr>" j]
      block_ok_skip [OF assms(1)]
    by (simp add: block_free_def Let_def)
  show "live_idx (block_free i b) = live_idx b - {i}"
    and "dead_idx (block_free i b) = insert i (dead_idx b)"
    and "i < length (hb_slots b)" and "i \<notin> dead_idx b"
    using i assms by (auto simp: live_idx_def dead_idx_def get block_ok_def)
  show "hb_slots (block_free i b) = (hb_slots b)[i := hb_free_head b]"
    by (simp add: block_free_def Let_def)
qed

lemma block_free_ok:
  assumes ok: "block_ok b" and i: "i \<in> live_idx b"
  shows "block_ok (block_free i b)"
    and "add_mset (hb_slots b ! i) (mset (block_from (block_free i b) 0)) = mset (block_from b 0)"
proof -
  let ?b = "block_free i b" and ?x = "of_nat i :: u64"
  note free = block_free_live [OF ok i]
  have i': "i < 2 ^ 60" "unat ?x = i" using i ok by (auto simp: live_idx_def block_ok_def)
  obtain fl where fl: "free_list b fl" using ok by (auto simp: block_ok_def)
  have out: "y \<in> set fl \<Longrightarrow> unat y \<noteq> i" for y using fl free(5) by (auto simp: free_list_def)
  have "hb_slots ?b ! unat y = hb_slots b ! unat y" if "y \<in> set fl" for y
    using out [OF that] by (simp add: free(3))
  then have "chain (\<lambda>y. hb_slots ?b ! unat y) WUBU_HIVE_NONE (hb_free_head b) fl"
    using fl by (subst chain_cong [where nxt' = "\<lambda>y. hb_slots b ! unat y"])
      (auto simp: free_list_def)
  moreover have "hb_free_head ?b = ?x" by (simp add: block_free_def Let_def)
  ultimately have "free_list ?b (?x # fl)"
    using fl out [of ?x] i' free(2,3,4) of_nat_not_NONE [OF i'(1)] by (auto simp: free_list_def)
  moreover have "hb_live ?b = card (live_idx ?b)"
    using ok i free(1) by (simp add: block_free_def Let_def block_ok_def)
  moreover have "length (hb_skip ?b) = length (hb_skip b)" by (simp add: block_free_def Let_def)
  ultimately show "block_ok ?b"
    using ok free by (auto simp: block_ok_def)
  have "image_mset (\<lambda>k. hb_slots ?b ! k) (mset_set (live_idx ?b)) =
      image_mset (\<lambda>k. hb_slots b ! k) (mset_set (live_idx ?b))"
    unfolding free(3) free(1) by (intro mset_image_cong) auto
  moreover have "mset_set (live_idx b) = add_mset i (mset_set (live_idx ?b))"
    using i by (simp add: free(1) mset_set.remove)
  ultimately show "add_mset (hb_slots b ! i) (mset (block_from ?b 0)) = mset (block_from b 0)"
    by (simp add: mset_block)
qed

section \<open>The hive\<close>

definition hive_elems :: "wubu_hive \<Rightarrow> u64 list" where
  "hive_elems h = concat (map (\<lambda>b. block_from b 0) (hv_blocks h))"

definition hive_ok :: "wubu_hive \<Rightarrow> bool" where
  "hive_ok h \<longleftrightarrow> 0 < hv_block_cap h \<and> hv_block_cap h < 2 ^ 60
     \<and> (\<forall>b \<in> set (hv_blocks h). block_ok b \<and> hb_cap b = hv_block_cap h)
     \<and> hv_size h = length (hive_elems h)
     \<and> hv_capacity h = length (hv_blocks h) * hv_block_cap h"

lemma blocks_from_0: "blocks_from h 0 = hive_elems h"
proof -
  have "map (\<lambda>k. block_from (hv_blocks h ! k) 0) [0..<length (hv_blocks h)] =
      map (\<lambda>b. block_from b 0) (map (\<lambda>k. hv_blocks h ! k) [0..<length (hv_blocks h)])"
    by simp
  then show ?thesis by (simp only: blocks_from_def hive_elems_def map_nth)
qed

lemma mset_elems_update:
  assumes "j < length bs"
  shows "mset (concat (map f (bs[j := b]))) + mset (f (bs ! j)) = mset (concat (map f bs)) + mset (f b)"
  using assms
proof (induction bs arbitrary: j)
  case (Cons c bs)
  then show ?case by (cases j) (auto simp: union_ac)
qed simp

lemma hive_ok_blockD:
  "hive_ok h \<Longrightarrow> j < length (hv_blocks h) \<Longrightarrow> block_ok (hv_blocks h ! j) \<and> hb_cap (hv_blocks h ! j) = hv_block_cap h"
  by (auto simp: hive_ok_def)

lemma hive_elems_nonzero:
  assumes "hive_ok h" shows "0 \<notin> set (hive_elems h)"
proof
  assume "0 \<in> set (hive_elems h)"
  then obtain b where b: "b \<in> set (hv_blocks h)" "0 \<in> set (block_from b 0)"
    by (auto simp: hive_elems_def)
  then obtain k where "k \<in> live_idx b" "hb_slots b ! k = 0"
    by (auto simp: block_from_def live_idx_def)
  with b(1) assms show False by (auto simp: hive_ok_def block_ok_def)
qed

lemma hive_ok_replace:
  assumes "hive_ok h" and "j < length (hv_blocks h)" and "block_ok b" and "hb_cap b = hv_block_cap h"
    and "h' = h\<lparr>hv_blocks := (hv_blocks h)[j := b], hv_size := n\<rparr>"
    and "n + length (block_from (hv_blocks h ! j) 0) = hv_size h + length (block_from b 0)"
  shows "hive_ok h'"
    and "mset (hive_elems h') + mset (block_from (hv_blocks h ! j) 0) =
      mset (hive_elems h) + mset (block_from b 0)"
proof -
  show m: "mset (hive_elems h') + mset (block_from (hv_blocks h ! j) 0) =
      mset (hive_elems h) + mset (block_from b 0)"
    using mset_elems_update [OF assms(2), of "\<lambda>b. block_from b 0" b] assms(5) by (simp add: hive_elems_def)
  have "n = length (hive_elems h')"
    using arg_cong [OF m, of size] assms(1,6) by (simp add: hive_ok_def)
  then show "hive_ok h'"
    using assms(1-5) by (auto simp: hive_ok_def dest!: set_update_subset_insert [THEN subsetD])
qed

subsection \<open>Insertion\<close>

lemma hive_put_ok:
  assumes "hive_ok h" and "j < length (hv_blocks h)" and "e \<noteq> 0"
    and "hb_free_head (hv_blocks h ! j) \<noteq> WUBU_HIVE_NONE"
  shows "hive_ok (hive_put j e h)"
    and "mset (hive_elems (hive_put j e h)) = add_mset e (mset (hive_elems h))"
proof -
  let ?b = "hv_blocks h ! j"
  have b: "block_ok ?b" "hb_cap ?b = hv_block_cap h" using hive_ok_blockD [OF assms(1,2)] by auto
  note put = block_put_ok [OF b(1) assms(4,3)]
  have len: "length (block_from (block_put e ?b) 0) = Suc (length (block_from ?b 0))"
    using arg_cong [OF put(2), of size] by simp
  note rep = hive_ok_replace [OF assms(1,2) put(1) _ hive_put_def]
  show "hive_ok (hive_put j e h)" by (rule rep(1)) (simp_all add: b len)
  have "mset (hive_elems (hive_put j e h)) + mset (block_from ?b 0) =
      mset (hive_elems h) + mset (block_from (block_put e ?b) 0)"
    by (rule rep(2)) (simp_all add: b len)
  then show "mset (hive_elems (hive_put j e h)) = add_mset e (mset (hive_elems h))"
    by (simp add: put(2))
qed

lemma block_new_ok:
  assumes "hive_ok h" and "wubu_hive_block_new alloc h = Some h1"
  shows "hive_ok h1" and "hive_elems h1 = hive_elems h"
    and "hv_blocks h1 = hv_blocks h @ [fresh_block (hv_block_cap h)]"
  using assms fresh_block_ok [of "hv_block_cap h"]
  by (auto simp: wubu_hive_block_new_def Let_def hive_ok_def hive_elems_def split: if_splits)

lemma fresh_free_head: "hb_free_head (fresh_block cap) \<noteq> WUBU_HIVE_NONE"
  by (simp add: fresh_block_def WUBU_HIVE_NONE_def)

lemma insert_rule:
  assumes ok: "hive_ok h" and ins: "wubu_hive_insert alloc h e = (r, h')"
  shows "hive_ok h'"
    and "e \<noteq> 0 \<Longrightarrow> r = e \<Longrightarrow> mset (hive_elems h') = add_mset e (mset (hive_elems h))"
    and "r \<noteq> e \<Longrightarrow> r = 0 \<and> h' = h" and "e = 0 \<Longrightarrow> h' = h"
proof -
  have "hive_ok h' \<and> (if e \<noteq> 0 \<and> r = e then mset (hive_elems h') = add_mset e (mset (hive_elems h))
      else r = 0 \<and> h' = h)"
  proof (cases "e = 0")
    case True
    with ok ins show ?thesis by (simp add: wubu_hive_insert_def)
  next
    case False
    show ?thesis
    proof (cases "find_slot (\<lambda>b. hb_free_head b \<noteq> WUBU_HIVE_NONE) (hv_blocks h)")
      case (Some j)
      note j = find_slot_bounds [OF Some]
      with False Some ins hive_put_ok [OF ok _ False] show ?thesis
        by (auto simp: wubu_hive_insert_def)
    next
      case None
      show ?thesis
      proof (cases "wubu_hive_block_new alloc h")
        case None
        with \<open>find_slot _ _ = None\<close> False ok ins show ?thesis by (auto simp: wubu_hive_insert_def)
      next
        case (Some h1)
        note new = block_new_ok [OF ok Some]
        have "hive_ok (hive_put (length (hv_blocks h)) e h1) \<and>
          mset (hive_elems (hive_put (length (hv_blocks h)) e h1)) = add_mset e (mset (hive_elems h))"
          using hive_put_ok [OF new(1) _ False, of "length (hv_blocks h)"] fresh_free_head new
          by simp
        with Some \<open>find_slot _ _ = None\<close> False ins show ?thesis
          by (auto simp: wubu_hive_insert_def)
      qed
    qed
  qed
  then show "hive_ok h'"
    and "e \<noteq> 0 \<Longrightarrow> r = e \<Longrightarrow> mset (hive_elems h') = add_mset e (mset (hive_elems h))"
    and "r \<noteq> e \<Longrightarrow> r = 0 \<and> h' = h" and "e = 0 \<Longrightarrow> h' = h"
    by (auto split: if_splits)
qed

subsection \<open>Erasure\<close>

lemma erase_at_ok:
  assumes ok: "hive_ok h" and j: "j < length (hv_blocks h)" and i: "i \<in> live_idx (hv_blocks h ! j)"
    and it: "hi_block it = Some j" "hi_idx it = i"
  defines "h' \<equiv> snd (wubu_hive_erase_at h it)"
  shows "fst (wubu_hive_erase_at h it)" and "hive_ok h'"
    and "add_mset (hb_slots (hv_blocks h ! j) ! i) (mset (hive_elems h')) = mset (hive_elems h)"
proof -
  let ?b = "hv_blocks h ! j"
  have b: "block_ok ?b" "hb_cap ?b = hv_block_cap h" using hive_ok_blockD [OF ok j] by auto
  note free = block_free_ok [OF b(1) i]
  have len: "Suc (length (block_from (block_free i ?b) 0)) = length (block_from ?b 0)"
    using arg_cong [OF free(2), of size] by simp
  have "hive_elems h \<noteq> []"
    using len nth_mem [OF j] by (fastforce simp: hive_elems_def)
  then have pos: "0 < hv_size h" using ok by (simp add: hive_ok_def)
  have eq: "wubu_hive_erase_at h it =
      (True, h\<lparr>hv_blocks := (hv_blocks h)[j := block_free i ?b], hv_size := hv_size h - 1\<rparr>)"
    using i it by (simp add: wubu_hive_erase_at_def Let_def live_idx_def)
  then show "fst (wubu_hive_erase_at h it)" by simp
  have h': "h' = h\<lparr>hv_blocks := (hv_blocks h)[j := block_free i ?b], hv_size := hv_size h - 1\<rparr>"
    by (simp add: h'_def eq)
  note rep = hive_ok_replace [OF ok j free(1) _ h']
  show "hive_ok h'" by (rule rep(1)) (use pos in \<open>simp_all add: b len [symmetric]\<close>)
  have "mset (hive_elems h') + mset (block_from ?b 0) =
      mset (hive_elems h) + mset (block_from (block_free i ?b) 0)"
    by (rule rep(2)) (use pos in \<open>simp_all add: b len [symmetric]\<close>)
  then show "add_mset (hb_slots ?b ! i) (mset (hive_elems h')) = mset (hive_elems h)"
    by (simp add: free(2) [symmetric])
qed

text \<open>Where the iteration stands: an iterator at a live slot, with the element of that slot.\<close>

definition stands_at :: "wubu_hive \<Rightarrow> u64 \<times> wubu_hive_iter \<Rightarrow> bool" where
  "stands_at h p \<longleftrightarrow> fst p = 0 \<or>
     (\<exists>j i. hi_block (snd p) = Some j \<and> hi_idx (snd p) = i \<and> j < length (hv_blocks h) \<and>
        i \<in> live_idx (hv_blocks h ! j) \<and> fst p = hb_slots (hv_blocks h ! j) ! i)"

lemma stands_at_first: "stands_at h (first_block_from h j)"
proof (cases "first_from (\<lambda>j. wubu_hive_block_first_live (hv_blocks h ! j) \<noteq> None) j
    (length (hv_blocks h))")
  case None
  then show ?thesis by (simp add: first_block_from_def stands_at_def)
next
  case (Some k)
  note k = first_from_SomeD [OF Some]
  then obtain i where i: "wubu_hive_block_first_live (hv_blocks h ! k) = Some i" by auto
  then have "i \<in> live_idx (hv_blocks h ! k)"
    using first_from_SomeD [OF i [unfolded wubu_hive_block_first_live_def block_live_from_def]]
    by (simp add: live_idx_def)
  with Some k(2) i show ?thesis by (simp add: first_block_from_def stands_at_def)
qed

lemma stands_at_next:
  assumes "stands_at h (e, it)" and "e \<noteq> 0"
  shows "stands_at h (wubu_hive_next h it)"
proof -
  obtain j where j: "hi_block it = Some j" "j < length (hv_blocks h)"
    using assms by (auto simp: stands_at_def)
  show ?thesis
  proof (cases "block_live_from (hv_blocks h ! j) (hi_idx it + 1)")
    case None
    with j stands_at_first show ?thesis by (simp add: wubu_hive_next_def)
  next
    case (Some i)
    with first_from_SomeD [OF Some [unfolded block_live_from_def]] j show ?thesis
      by (simp add: wubu_hive_next_def stands_at_def live_idx_def)
  qed
qed

lemma walk_rest:
  assumes "0 \<notin> set (rest_after h it)" and "e \<noteq> 0"
  shows "walk h (e, it) = e # rest_after h it"
  using assms
proof (induction "rest_after h it" arbitrary: e it)
  case Nil
  then have "fst (wubu_hive_next h it) = 0"
    by (subst wubu_hive_next_step(1)) (simp add: Nil(1) [symmetric])
  then have "walk h (wubu_hive_next h it) = []"
    by (cases "wubu_hive_next h it") (simp add: walk.simps)
  with Nil show ?case by (simp add: walk.simps [of h e it])
next
  case (Cons x xs)
  let ?n = "wubu_hive_next h it"
  have n: "?n = (x, snd ?n)" by (subst wubu_hive_next_step(1)) (simp add: Cons(2) [symmetric])
  have r: "rest_after h (snd ?n) = xs"
    using wubu_hive_next_step(2) [of h it] Cons(2) by (metis list.sel(3) list.distinct(1))
  have "walk h (x, snd ?n) = x # xs"
    using Cons(1) [of "snd ?n" x] r Cons(2,3) by (metis list.set_intros(1,2))
  then show ?case using n Cons(2,4) by (simp add: walk.simps [of h e it])
qed

lemma walk_first:
  assumes "0 \<notin> set (hive_elems h)"
  shows "walk h (wubu_hive_first h) = hive_elems h"
proof (cases "hive_elems h")
  case Nil
  then have "wubu_hive_first h = (0, no_iter)"
    unfolding wubu_hive_first_def by (subst blocks_from_step(1)) (simp add: blocks_from_0)
  then show ?thesis using Nil by (simp add: walk.simps)
next
  case (Cons x xs)
  have f: "wubu_hive_first h = (x, snd (wubu_hive_first h))"
    unfolding wubu_hive_first_def by (subst blocks_from_step(1)) (simp add: blocks_from_0 Cons)
  have "rest_after h (snd (wubu_hive_first h)) = xs"
    using blocks_from_step(2) [of h 0] by (simp add: wubu_hive_first_def blocks_from_0 Cons)
  then have "walk h (x, snd (wubu_hive_first h)) = x # xs"
    using assms Cons by (subst walk_rest) auto
  with f Cons show ?thesis by simp
qed

text \<open>The erasing loop removes the first occurrence it meets, or nothing.\<close>

lemma erase_loop_rule:
  assumes "hive_ok h" and "stands_at h p" and "elem \<noteq> 0" and "erase_loop h elem p = (r, h')"
  shows "hive_ok h' \<and> (if elem \<in> set (walk h p)
      then r = elem \<and> add_mset elem (mset (hive_elems h')) = mset (hive_elems h)
      else r = 0 \<and> h' = h)"
  using assms
proof (induction h elem p rule: erase_loop.induct)
  case (1 h elem e it)
  consider "e = 0" | "e \<noteq> 0" "e = elem" | "e \<noteq> 0" "e \<noteq> elem" by blast
  then show ?case
  proof cases
    case 1
    with \<open>hive_ok h\<close> \<open>erase_loop h elem (e, it) = _\<close> show ?thesis
      by (simp add: erase_loop.simps walk.simps)
  next
    case 2
    then obtain j i where "hi_block it = Some j" "hi_idx it = i" "j < length (hv_blocks h)"
      "i \<in> live_idx (hv_blocks h ! j)" "e = hb_slots (hv_blocks h ! j) ! i"
      using \<open>stands_at h (e, it)\<close> by (auto simp: stands_at_def)
    with erase_at_ok [OF \<open>hive_ok h\<close>] 2 \<open>erase_loop h elem (e, it) = _\<close> show ?thesis
      by (auto simp: erase_loop.simps walk.simps)
  next
    case 3
    then have "stands_at h (wubu_hive_next h it)"
      using \<open>stands_at h (e, it)\<close> stands_at_next by blast
    then show ?thesis
      using 1 3 by (simp add: erase_loop.simps [of h elem e] walk.simps [of h e])
  qed
qed

lemma erase_rule:
  assumes "hive_ok h" and "wubu_hive_erase h elem = (r, h')"
  shows "hive_ok h' \<and> (if elem \<in> set (hive_elems h)
      then r = elem \<and> add_mset elem (mset (hive_elems h')) = mset (hive_elems h)
      else r = 0 \<and> h' = h)"
proof (cases "elem = 0")
  case True
  with assms hive_elems_nonzero show ?thesis by (auto simp: wubu_hive_erase_def)
next
  case False
  have "stands_at h (wubu_hive_first h)" by (simp add: wubu_hive_first_def stands_at_first)
  from erase_loop_rule [OF assms(1) this False] False assms walk_first [OF hive_elems_nonzero]
  show ?thesis by (simp add: wubu_hive_erase_def)
qed

lemma clear_rule:
  assumes "hive_ok h"
  shows "hive_ok (wubu_hive_clear h)" and "hive_elems (wubu_hive_clear h) = []"
proof -
  have b: "block_ok (block_clear b) \<and> block_from (block_clear b) 0 = [] \<and>
      hb_cap (block_clear b) = hv_block_cap h" if "b \<in> set (hv_blocks h)" for b
    using block_clear_ok [of b] assms that by (auto simp: hive_ok_def)
  then show e: "hive_elems (wubu_hive_clear h) = []"
    by (auto simp: hive_elems_def wubu_hive_clear_def)
  show "hive_ok (wubu_hive_clear h)"
    using assms b e unfolding hive_ok_def by (auto simp: wubu_hive_clear_def)
qed

section \<open>The hive as a bag\<close>

text \<open>The outcomes of the operations as the bag contract has them: a non-null result is a
  success.\<close>

definition hive_ins :: "(nat \<Rightarrow> u64 \<Rightarrow> bool) \<Rightarrow> u64 \<Rightarrow> wubu_hive \<Rightarrow> bool \<times> wubu_hive" where
  "hive_ins alloc e h = (case wubu_hive_insert alloc h e of (r, h') \<Rightarrow> (r \<noteq> 0, h'))"

definition hive_del :: "u64 \<Rightarrow> wubu_hive \<Rightarrow> bool \<times> wubu_hive" where
  "hive_del e h = (case wubu_hive_erase h e of (r, h') \<Rightarrow> (r \<noteq> 0, h'))"

definition hive_bag :: "wubu_hive \<Rightarrow> u64 multiset" where
  "hive_bag h = mset (hive_elems h)"

lemma hive_ins_rule:
  assumes "hive_ok h" and "hive_ins alloc e h = (r, h')"
  shows "hive_ok h'" and "hive_bag h' = (if r then add_mset e (hive_bag h) else hive_bag h)"
proof -
  obtain x where x: "wubu_hive_insert alloc h e = (x, h')" "r \<longleftrightarrow> x \<noteq> 0"
    using assms(2) by (auto simp: hive_ins_def split: prod.splits)
  note rule = insert_rule [OF assms(1) x(1)]
  show "hive_ok h'" by (rule rule(1))
  show "hive_bag h' = (if r then add_mset e (hive_bag h) else hive_bag h)"
    using rule(2-4) x(2) by (cases "x = e") (auto simp: hive_bag_def)
qed

lemma hive_del_rule:
  assumes "hive_ok h" and "hive_del e h = (r, h')"
  shows "hive_ok h'" and "r \<longleftrightarrow> e \<in># hive_bag h" and "hive_bag h' = hive_bag h - {#e#}"
proof -
  obtain x where x: "wubu_hive_erase h e = (x, h')" "r \<longleftrightarrow> x \<noteq> 0"
    using assms(2) by (auto simp: hive_del_def split: prod.splits)
  have nz: "e \<in> set (hive_elems h) \<Longrightarrow> e \<noteq> 0" using hive_elems_nonzero [OF assms(1)] by auto
  note rule = erase_rule [OF assms(1) x(1)]
  show "hive_ok h'" using rule by simp
  show "r \<longleftrightarrow> e \<in># hive_bag h" using rule x(2) nz by (auto simp: hive_bag_def split: if_splits)
  show "hive_bag h' = hive_bag h - {#e#}"
  proof (cases "e \<in> set (hive_elems h)")
    case True
    with rule have "add_mset e (hive_bag h') = hive_bag h" by (simp add: hive_bag_def)
    then show ?thesis by (metis add_mset_remove_trivial)
  next
    case False
    with rule show ?thesis by (simp add: hive_bag_def)
  qed
qed

interpretation hives: bag_store hive_ok hive_bag hive_ins hive_del wubu_hive_clear
proof (unfold_locales, goal_cases)
  case 1 then show ?case by (rule hive_ins_rule(1))
next
  case 2 then show ?case by (rule hive_ins_rule(2))
next
  case 3 then show ?case by (rule hive_del_rule(1))
next
  case 4 then show ?case by (rule hive_del_rule(2))
next
  case 5 then show ?case by (rule hive_del_rule(3))
next
  case 6 then show ?case by (rule clear_rule(1))
next
  case 7 then show ?case by (simp add: hive_bag_def clear_rule(2))
qed

text \<open>A sequence of operations on the hive, as a caller runs it.\<close>

fun hive_run ::
  "(nat \<Rightarrow> u64 \<Rightarrow> bool, u64) bag_op list \<Rightarrow> wubu_hive \<Rightarrow> bool list \<times> wubu_hive" where
  "hive_run [] h = ([], h)"
| "hive_run (op # ops) h =
     (case (case op of Insert_op alloc e \<Rightarrow> hive_ins alloc e h
                     | Erase_op e \<Rightarrow> hive_del e h
                     | Clear_op \<Rightarrow> (True, wubu_hive_clear h)) of
        (r, h1) \<Rightarrow> (case hive_run ops h1 of (rs, h2) \<Rightarrow> (r # rs, h2)))"

lemma hive_run_eq: "hive_run ops h = hives.run ops h"
  by (induction ops arbitrary: h) (simp_all add: hives.step_def)

lemma hive_new_ok:
  "wubu_hive_new cap alloc = Some h \<Longrightarrow> cap < 2 ^ 60 \<Longrightarrow> hive_ok h \<and> hive_bag h = {#}"
  by (auto simp: wubu_hive_new_def hive_ok_def hive_bag_def hive_elems_def
      WUBU_HIVE_DEFAULT_CAP_def Let_def split: if_splits)

text \<open>A hive without a free slot is full.\<close>

lemma no_free_slot_full:
  assumes "hive_ok h" and "find_slot (\<lambda>b. hb_free_head b \<noteq> WUBU_HIVE_NONE) (hv_blocks h) = None"
  shows "hv_size h = hv_capacity h"
proof -
  have "length (block_from b 0) = hv_block_cap h" if "b \<in> set (hv_blocks h)" for b
    using that assms full_block [of b]
    by (auto simp: length_block hive_ok_def find_slot_None)
  then have "map (\<lambda>b. length (block_from b 0)) (hv_blocks h) = map (\<lambda>_. hv_block_cap h) (hv_blocks h)"
    by simp
  then have "length (hive_elems h) = length (hv_blocks h) * hv_block_cap h"
    by (simp only: hive_elems_def length_concat map_map comp_def sum_list_triv) simp
  with assms(1) show ?thesis by (simp add: hive_ok_def)
qed

lemma put_keeps_live:
  assumes "block_ok b" and "hb_free_head b \<noteq> WUBU_HIVE_NONE" and "i \<in> live_idx b"
  shows "i \<in> live_idx (block_put e b)" and "hb_slots (block_put e b) ! i = hb_slots b ! i"
proof -
  note put = block_put_live [OF assms(1,2)]
  show "i \<in> live_idx (block_put e b)" using assms(3) by (simp add: put(1))
  have "i \<noteq> unat (hb_free_head b)" using put(3) assms(3) by auto
  then show "hb_slots (block_put e b) ! i = hb_slots b ! i" by (simp add: put(5))
qed

section \<open>Properties\<close>

text \<open>C12: The hive implements a bag. On a new hive, after any sequence of insertions (under any
  allocator), erasures and clearings, the outcomes agree with a bag that starts empty, and an
  iteration from \<open>wubu_hive_first\<close> by \<open>wubu_hive_next\<close> visits exactly the elements of that
  bag, each as often as it occurs; \<open>wubu_hive_size\<close> is their number.\<close>

theorem hive_refines_bag:
  assumes "wubu_hive_new cap alloc = Some h" and "cap < 2 ^ 60"
    and "hive_run ops h = (rs, h')"
  shows "bag_run ops rs {#} = Some (mset (walk h' (wubu_hive_first h'))) \<and>
    wubu_hive_size h' = length (walk h' (wubu_hive_first h'))"
proof -
  have "hive_ok h' \<and> bag_run ops rs {#} = Some (hive_bag h')"
    using hives.run_refines [of h ops rs h'] hive_new_ok [OF assms(1,2)] assms(3)
    by (simp add: hive_run_eq)
  moreover from this have "walk h' (wubu_hive_first h') = hive_elems h'"
    by (intro walk_first hive_elems_nonzero) simp
  ultimately show ?thesis
    by (auto simp: hive_bag_def hive_ok_def wubu_hive_size_def)
qed

theorem hive_refines_bag_witness:
  "\<exists>h rs h'. wubu_hive_new 2 (\<lambda>_ _. True) = Some h \<and>
     hive_run [Insert_op (\<lambda>_ _. True) 9, Insert_op (\<lambda>_ _. True) 9, Insert_op (\<lambda>_ _. True) 4,
       Erase_op 9, Erase_op 5] h = (rs, h') \<and> rs = [True, True, True, True, False] \<and>
     Some (mset (walk h' (wubu_hive_first h'))) = Some {#4, 9#}"
proof -
  let ?ops = "[Insert_op (\<lambda>_ _. True) 9, Insert_op (\<lambda>_ _. True) 9, Insert_op (\<lambda>_ _. True) 4,
       Erase_op 9, Erase_op 5 :: (nat \<Rightarrow> u64 \<Rightarrow> bool, u64) bag_op]"
  let ?h = "the (wubu_hive_new 2 (\<lambda>_ _. True))"
  obtain rs h' where run: "hive_run ?ops ?h = (rs, h')" by (rule prod.exhaust)
  have new: "wubu_hive_new 2 (\<lambda>_ _. True) = Some ?h" by (simp add: wubu_hive_new_def)
  have "fst (hive_run ?ops ?h) = [True, True, True, True, False]" by code_simp
  then have rs: "rs = [True, True, True, True, False]" unfolding run by simp
  have "bag_run ?ops rs {#} = Some (mset (walk h' (wubu_hive_first h')))"
    using hive_refines_bag [OF new _ run] by simp
  then have "Some (mset (walk h' (wubu_hive_first h'))) = Some {#4, 9#}" unfolding rs by simp
  with new run rs show ?thesis by blast
qed

text \<open>Insertion moves nothing and wastes nothing. In a hive that satisfies its invariant every
  element in place before a successful insertion is in the same slot of the same block after
  it, and a block is added only when all slots are taken.\<close>

lemma hive_insert_is_stable:
  assumes "hive_ok h" and "wubu_hive_insert alloc h e = (e, h')" and "e \<noteq> 0"
  shows "(\<forall>j i. j < length (hv_blocks h) \<and> i < hb_cap (hv_blocks h ! j) \<and> \<not> skip_get (hv_blocks h ! j) i
       \<longrightarrow> \<not> skip_get (hv_blocks h' ! j) i \<and> hb_slots (hv_blocks h' ! j) ! i = hb_slots (hv_blocks h ! j) ! i) \<and>
    (wubu_hive_size h < wubu_hive_capacity h \<longrightarrow> wubu_hive_block_count h' = wubu_hive_block_count h)"
proof (cases "find_slot (\<lambda>b. hb_free_head b \<noteq> WUBU_HIVE_NONE) (hv_blocks h)")
  case (Some k)
  note k = find_slot_bounds [OF Some]
  have h': "h' = hive_put k e h" using assms(2,3) Some by (simp add: wubu_hive_insert_def)
  have ok: "block_ok (hv_blocks h ! k)" using hive_ok_blockD [OF assms(1)] k by blast
  note keeps = put_keeps_live [OF ok conjunct2 [OF k], unfolded live_idx_def, simplified]
  show ?thesis
    using k keeps by (auto simp: h' hive_put_def nth_list_update wubu_hive_block_count_def)
next
  case None
  then obtain h1 where h1: "wubu_hive_block_new alloc h = Some h1"
      "h' = hive_put (length (hv_blocks h)) e h1"
    using assms(2,3) by (auto simp: wubu_hive_insert_def split: option.splits)
  then show ?thesis
    using block_new_ok(3) [OF assms(1) h1(1)] no_free_slot_full [OF assms(1) None]
    by (auto simp: hive_put_def nth_list_update nth_append wubu_hive_size_def wubu_hive_capacity_def)
qed

text \<open>Destroying a hive releases each of its storage areas exactly once.\<close>

lemma destroy_releases_once:
  "distinct (wubu_hive_destroy h)"
  "set (wubu_hive_destroy h) = {Hive_itself} \<union>
     (\<Union>j \<in> {..<length (hv_blocks h)}. {Skip_of j, Slots_of j, Block_of j})"
  by (auto simp: wubu_hive_destroy_def intro!: distinct_concat simp: distinct_map inj_on_def)

end
