(* ===== verification/Crc32.thy ===== *)
theory Crc32
  imports Prelude
begin

text \<open>
  The two CRC-32 routines of the system: the table-driven one of the journal
  (\<open>kernel/txfs.c\<close>) and the bitwise one of the recovery slots
  (\<open>kernel/wubu_recovery.c\<close>). They compute the same function, and a change of a single byte
  always changes the checksum. A buffer and its size are a byte list.
\<close>

section \<open>The table-driven routine\<close>

definition crc_poly :: u32 where "crc_poly = 0xEDB88320"

definition crc_step :: "u32 \<Rightarrow> u32" where
  "crc_step c = (if c AND 1 \<noteq> 0 then crc_poly XOR drop_bit 1 c else drop_bit 1 c)"

definition crc32_table :: "u32 list" where
  "crc32_table = map (\<lambda>i. (crc_step ^^ 8) (of_nat i)) [0..<256]"

definition crc_update :: "u32 \<Rightarrow> u8 \<Rightarrow> u32" where
  "crc_update crc p = crc32_table ! unat ((crc XOR ucast p) AND 0xFF) XOR drop_bit 8 crc"

definition txfs_crc32 :: "bytes \<Rightarrow> u32" where
  "txfs_crc32 data = foldl crc_update 0xFFFFFFFF data XOR 0xFFFFFFFF"

section \<open>The bitwise routine\<close>

definition recovery_crc_bit :: "u32 \<Rightarrow> u32" where
  "recovery_crc_bit crc = drop_bit 1 crc XOR (crc_poly AND (0 - (crc AND 1)))"

definition recovery_crc_byte :: "u32 \<Rightarrow> u8 \<Rightarrow> u32" where
  "recovery_crc_byte crc p = (recovery_crc_bit ^^ 8) (crc XOR ucast p)"

definition wubu_recovery_crc32 :: "bytes \<Rightarrow> u32" where
  "wubu_recovery_crc32 data = NOT (foldl recovery_crc_byte 0xFFFFFFFF data)"

section \<open>One bit\<close>

lemma low_bit_cases: "x AND 1 = 0 \<or> x AND 1 = (1 :: u32)"
  by (simp add: and_one_eq) (metis not_mod_2_eq_0_eq_1)

lemma recovery_crc_bit_step: "recovery_crc_bit c = crc_step c"
  using low_bit_cases [of c]
  by (auto simp: recovery_crc_bit_def crc_step_def xor.commute)

lemma crc_step_xor: "crc_step (a XOR b) = crc_step a XOR crc_step b"
proof -
  have low: "(a XOR b) AND 1 = (a AND 1) XOR (b AND 1)"
    by (rule bit_word_eqI) (auto simp: bit_and_iff bit_xor_iff)
  have drop: "drop_bit (Suc 0) (a XOR b) = drop_bit (Suc 0) a XOR drop_bit (Suc 0) b"
    by (rule drop_bit_xor)
  show ?thesis
    using low_bit_cases [of a] low_bit_cases [of b]
    by (elim disjE) (simp_all add: crc_step_def low drop xor.assoc xor.left_commute xor.commute
        del: drop_bit_xor)
qed

lemma crc_steps_xor: "(crc_step ^^ n) (a XOR b) = (crc_step ^^ n) a XOR (crc_step ^^ n) b"
  by (induction n) (simp_all add: crc_step_xor)

text \<open>While the low bits are clear a step is a shift.\<close>

lemma crc_steps_shift: "take_bit n x = 0 \<Longrightarrow> (crc_step ^^ n) x = drop_bit n x"
proof (induction n)
  case (Suc n)
  have zero: "\<not> bit x k" if "k \<le> n" for k
    using arg_cong [OF Suc.prems, of "\<lambda>w. bit w k"] that by (simp add: bit_take_bit_iff)
  have "take_bit n x = 0" by (rule bit_word_eqI) (simp add: bit_take_bit_iff zero)
  then have "(crc_step ^^ n) x = drop_bit n x" by (rule Suc.IH)
  moreover have "drop_bit n x AND 1 = 0"
    using zero [of n] by (auto simp: and_one_eq even_iff_mod_2_eq_zero bit_iff_odd_drop_bit)
  then have "crc_step (drop_bit n x) = drop_bit (Suc n) x"
    by (simp add: crc_step_def drop_bit_drop_bit)
  ultimately show ?case by simp
qed simp

text \<open>A step loses nothing: its top bit tells whether the polynomial was added.\<close>

lemma crc_step_zero: "crc_step x = 0 \<Longrightarrow> x = 0"
proof -
  assume zero: "crc_step x = 0"
  have "\<not> bit x 32" by (auto dest: bit_imp_le_length)
  then have top: "bit (crc_step x) 31 \<longleftrightarrow> x AND 1 \<noteq> 0"
    by (auto simp: crc_step_def bit_xor_iff bit_drop_bit_eq crc_poly_def)
  with zero have low: "x AND 1 = 0" by simp
  with zero have drop: "drop_bit 1 x = 0" by (simp add: crc_step_def)
  show "x = 0"
  proof (rule bit_word_eqI)
    fix k
    show "bit x k \<longleftrightarrow> bit (0 :: u32) k"
      using arg_cong [OF low, of "\<lambda>w. bit w 0"] arg_cong [OF drop, of "\<lambda>w. bit w (k - 1)"]
      by (cases k) (auto simp: bit_and_iff bit_drop_bit_eq)
  qed
qed

lemma xor_cancel: "a XOR c = b XOR c \<Longrightarrow> a = (b :: u32)"
proof (rule bit_word_eqI)
  fix k
  assume "a XOR c = b XOR c"
  then have "bit (a XOR c) k = bit (b XOR c) k" by simp
  then show "bit a k = bit b k" by (auto simp: bit_xor_iff)
qed

lemma xor_zero_eq: "a XOR b = 0 \<Longrightarrow> a = (b :: u32)"
  using xor_cancel [of a b b] by simp

lemma crc_steps_inj: "(crc_step ^^ n) a = (crc_step ^^ n) b \<Longrightarrow> a = b"
proof (induction n)
  case (Suc n)
  then have "crc_step ((crc_step ^^ n) a XOR (crc_step ^^ n) b) = 0"
    by (simp add: crc_step_xor)
  then have "(crc_step ^^ n) a XOR (crc_step ^^ n) b = 0" by (rule crc_step_zero)
  then show ?case by (rule Suc.IH [OF xor_zero_eq])
qed simp

section \<open>One byte\<close>

lemma crc_table_nth: "i < 256 \<Longrightarrow> crc32_table ! i = (crc_step ^^ 8) (of_nat i)"
  unfolding crc32_table_def by (subst nth_map_upt) (simp_all only: diff_zero add_0)

lemma crc_update_steps: "crc_update crc p = (crc_step ^^ 8) (crc XOR ucast p)"
proof -
  let ?x = "crc XOR ucast p :: u32" and ?hi = "push_bit 8 (drop_bit 8 crc)"
  have mask: "?x AND 0xFF = take_bit 8 ?x" by (simp add: take_bit_eq_mask mask_eq_decr_exp)
  have "unat (take_bit 8 ?x) < 256"
    using take_bit_nat_less_exp [of 8 "unat ?x"] by (simp only: unsigned_take_bit_eq) simp
  then have table: "crc32_table ! unat (?x AND 0xFF) = (crc_step ^^ 8) (take_bit 8 ?x)"
    unfolding mask by (subst crc_table_nth) (simp_all del: funpow.simps)
  have "?x = take_bit 8 ?x XOR ?hi"
    by (rule bit_word_eqI)
      (use bit_imp_le_length [of p] in
        \<open>auto simp: bit_xor_iff bit_take_bit_iff bit_push_bit_iff bit_drop_bit_eq bit_ucast_iff\<close>)
  then have "(crc_step ^^ 8) ?x = (crc_step ^^ 8) (take_bit 8 ?x) XOR (crc_step ^^ 8) ?hi"
    by (metis crc_steps_xor)
  also have "(crc_step ^^ 8) ?hi = drop_bit 8 ?hi"
    by (rule crc_steps_shift) (rule bit_word_eqI, simp add: bit_take_bit_iff bit_push_bit_iff)
  also have "drop_bit 8 ?hi = drop_bit 8 crc"
    by (rule bit_word_eqI) (auto simp: bit_push_bit_iff bit_drop_bit_eq dest: bit_imp_le_length)
  finally show ?thesis by (simp only: crc_update_def table)
qed

lemma recovery_byte_update: "recovery_crc_byte crc p = crc_update crc p"
proof -
  have "recovery_crc_bit = crc_step" by (rule ext) (rule recovery_crc_bit_step)
  then show ?thesis by (simp only: recovery_crc_byte_def crc_update_steps)
qed

lemma crc_update_inj1: "crc_update a p = crc_update b p \<Longrightarrow> a = b"
  unfolding crc_update_steps by (drule crc_steps_inj) (rule xor_cancel)

lemma crc_update_inj2: "crc_update a p = crc_update a q \<Longrightarrow> p = q"
proof -
  assume "crc_update a p = crc_update a q"
  then have "a XOR ucast p = a XOR (ucast q :: u32)"
    unfolding crc_update_steps by (rule crc_steps_inj)
  then have "(ucast p :: u32) = ucast q"
    using xor_cancel [of "ucast p" a "ucast q"] by (simp add: xor.commute)
  then have same: "bit (ucast p :: u32) k = bit (ucast q :: u32) k" for k by simp
  show "p = q"
  proof (rule bit_word_eqI)
    fix k
    assume "k < LENGTH(8)"
    with same [of k] show "bit p k = bit q k" by (simp add: bit_ucast_iff)
  qed
qed

lemma crc_foldl_inj: "foldl crc_update a ps = foldl crc_update b ps \<Longrightarrow> a = b"
  by (induction ps arbitrary: a b) (auto dest: crc_update_inj1)

lemma txfs_crc_byte:
  assumes "p \<noteq> q"
  shows "txfs_crc32 (pre @ p # post) \<noteq> txfs_crc32 (pre @ q # post)"
proof
  let ?a = "foldl crc_update 0xFFFFFFFF pre"
  assume "txfs_crc32 (pre @ p # post) = txfs_crc32 (pre @ q # post)"
  then have "foldl crc_update (crc_update ?a p) post = foldl crc_update (crc_update ?a q) post"
    unfolding txfs_crc32_def by (drule_tac xor_cancel) simp
  then show False using assms crc_foldl_inj crc_update_inj2 by blast
qed

section \<open>Properties\<close>

text \<open>C13: The table-driven checksum of the journal and the bitwise checksum of the recovery slots
  are the same function of the data.\<close>

theorem crc_routines_agree: "txfs_crc32 data = wubu_recovery_crc32 data"
proof -
  have "recovery_crc_byte = crc_update" by (intro ext) (rule recovery_byte_update)
  moreover have "x XOR 0xFFFFFFFF = NOT x" for x :: u32
  proof -
    have ones: "(0xFFFFFFFF :: u32) = - 1" by simp
    show ?thesis
      unfolding ones by (rule bit_word_eqI) (simp add: bit_xor_iff bit_not_iff bit_minus_1_iff)
  qed
  ultimately show ?thesis by (simp add: txfs_crc32_def wubu_recovery_crc32_def)
qed

text \<open>A corrupted byte is always detected: two buffers that differ in exactly one byte, at any
  position, have different checksums.\<close>

lemma crc_detects_byte_change:
  "p \<noteq> q \<Longrightarrow> txfs_crc32 (pre @ p # post) \<noteq> txfs_crc32 (pre @ q # post)"
  by (rule txfs_crc_byte)

end
