(* ===== verification/Txfs.thy ===== *)
theory Txfs
  imports Crc32
begin

text \<open>
  The transaction journal of \<open>kernel/txfs.c\<close>: operations are collected in an open
  transaction, a commit appends them to a write-ahead journal and then publishes them in the
  journal header, recovery replays what was published and not yet applied.

  The journal buffer holds a header of 464 bytes and then packed entries of 1052 bytes
  each. It is accessed only in these units, so it is modelled as the copy of the
  header and the array of the entry cells; the offsets are computed as in the code. The
  \<open>ops\<close> array and \<open>op_count\<close> of a transaction are the list of its operations. A
  \<open>None\<close> around a result is undefined behaviour: reading past the caller's data, or
  writing through the freed journal.
\<close>

section \<open>Data\<close>

definition TXFS_JOURNAL_MAGIC :: u32 where "TXFS_JOURNAL_MAGIC = 0x544A4631"
definition TXFS_MAX_TXN_OPS :: nat where "TXFS_MAX_TXN_OPS = 64"
definition TXFS_JOURNAL_SIZE :: nat where "TXFS_JOURNAL_SIZE = 65536"
definition TXFS_MAX_PATH :: nat where "TXFS_MAX_PATH = 256"
definition HEADER_BYTES :: nat where "HEADER_BYTES = 464"
definition ENTRY_BYTES :: nat where "ENTRY_BYTES = 1052"
definition JOURNAL_CELLS :: nat where "JOURNAL_CELLS = 61"

lemmas txfs_consts = TXFS_MAX_TXN_OPS_def TXFS_JOURNAL_SIZE_def TXFS_MAX_PATH_def HEADER_BYTES_def
  ENTRY_BYTES_def JOURNAL_CELLS_def

datatype txfs_op_type =
  TXFS_OP_NONE | TXFS_OP_WRITE | TXFS_OP_TRUNCATE | TXFS_OP_CREATE | TXFS_OP_DELETE
  | TXFS_OP_MKDIR | TXFS_OP_RMDIR | TXFS_OP_RENAME | TXFS_OP_CHMOD

datatype txfs_txn_state = TXFS_TXN_CLOSED | TXFS_TXN_OPEN | TXFS_TXN_COMMITTING | TXFS_TXN_ABORTED

record txfs_entry =
  e_type :: txfs_op_type
  e_txn_id :: u32
  e_op_index :: u32
  e_offset :: u64
  e_size :: u32
  e_path :: bytes
  e_path2 :: bytes
  e_data :: bytes
  e_data_crc :: u32

record txfs_header =
  h_magic :: u32
  h_version :: u32
  h_txn_id_counter :: u32
  h_entry_count :: u32
  h_committed_count :: u32
  h_applied_count :: u32
  h_checksum :: u32

record txfs_txn =
  t_id :: u32
  t_state :: txfs_txn_state
  t_ops :: "txfs_entry list"

text \<open>The buffer: the stored header and the entry cells. \<open>j_writes\<close> is a history variable that no
  operation reads: the copies made into the buffer since it was allocated, in order.\<close>

datatype journal_write = Entry_write nat txfs_entry | Header_write txfs_header

record txfs_journal =
  j_header :: txfs_header
  j_cells :: "txfs_entry list"
  j_writes :: "journal_write list"

text \<open>The two places where the code copies into the buffer.\<close>

fun copy_in :: "journal_write \<Rightarrow> txfs_journal \<Rightarrow> txfs_journal" where
  "copy_in (Entry_write i e) j =
     j\<lparr>j_cells := (j_cells j)[i := e], j_writes := j_writes j @ [Entry_write i e]\<rparr>"
| "copy_in (Header_write h) j = j\<lparr>j_header := h, j_writes := j_writes j @ [Header_write h]\<rparr>"

record txfs =
  tx_journal :: "txfs_journal option"
  tx_journal_size :: nat
  tx_header :: txfs_header
  tx_txn :: txfs_txn
  tx_active :: bool
  tx_root :: bytes
  tx_committed :: u64
  tx_aborted :: u64
  tx_applied :: u64
  tx_recovery_count :: u64
  tx_recovered :: bool

text \<open>Memory cleared by \<open>memset\<close> or \<open>calloc\<close>.\<close>

definition zero_entry :: txfs_entry where
  "zero_entry = \<lparr>e_type = TXFS_OP_NONE, e_txn_id = 0, e_op_index = 0, e_offset = 0, e_size = 0,
     e_path = replicate 256 0, e_path2 = replicate 256 0, e_data = replicate 512 0,
     e_data_crc = 0\<rparr>"

definition zero_header :: txfs_header where
  "zero_header = \<lparr>h_magic = 0, h_version = 0, h_txn_id_counter = 0, h_entry_count = 0,
     h_committed_count = 0, h_applied_count = 0, h_checksum = 0\<rparr>"

definition fresh_journal :: txfs_journal where
  "fresh_journal = \<lparr>j_header = zero_header, j_cells = replicate JOURNAL_CELLS zero_entry, j_writes = []\<rparr>"

definition zero_txn :: txfs_txn where
  "zero_txn = \<lparr>t_id = 0, t_state = TXFS_TXN_CLOSED, t_ops = []\<rparr>"

section \<open>Header checksum\<close>

text \<open>The bytes before the checksum field.\<close>

definition header_bytes :: "txfs_header \<Rightarrow> bytes" where
  "header_bytes h = le32 (h_magic h) @ le32 (h_version h) @ le32 (h_txn_id_counter h)
     @ le32 (h_entry_count h) @ le32 (h_committed_count h) @ le32 (h_applied_count h)"

definition journal_header_checksum :: "txfs_header \<Rightarrow> u32" where
  "journal_header_checksum h = txfs_crc32 (header_bytes h)"

section \<open>Lifecycle\<close>

text \<open>\<open>strncpy\<close> of at most 255 characters into a cleared field of 256 bytes.\<close>

definition path_field :: "bytes \<Rightarrow> bytes" where
  "path_field p = (let c = take (TXFS_MAX_PATH - 1) (cstr p) in c @ replicate (TXFS_MAX_PATH - length c) 0)"

text \<open>\<open>alloc\<close>: the allocation of the journal succeeds.\<close>

definition txfs_init :: "bool \<Rightarrow> bytes option \<Rightarrow> int \<times> txfs" where
  "txfs_init alloc fs_root =
     (let tx = \<lparr>tx_journal = None, tx_journal_size = 0, tx_header = zero_header, tx_txn = zero_txn,
                tx_active = False,
                tx_root = path_field (case fs_root of Some r \<Rightarrow> r | None \<Rightarrow> lit ''/tmp/wubu_txfs''),
                tx_committed = 0, tx_aborted = 0, tx_applied = 0, tx_recovery_count = 0,
                tx_recovered = False\<rparr>;
          h = \<lparr>h_magic = TXFS_JOURNAL_MAGIC, h_version = 1, h_txn_id_counter = 1,
               h_entry_count = 0, h_committed_count = 0, h_applied_count = 0, h_checksum = 0\<rparr>
      in if \<not> alloc then (-1, tx)
         else (0, tx\<lparr>tx_journal := Some fresh_journal,
                     tx_journal_size := TXFS_JOURNAL_SIZE,
                     tx_header := h\<lparr>h_checksum := journal_header_checksum h\<rparr>\<rparr>))"

definition txfs_abort :: "txfs \<Rightarrow> int \<times> txfs" where
  "txfs_abort tx =
     (if \<not> tx_active tx then (-1, tx)
      else (0, tx\<lparr>tx_txn := (tx_txn tx)\<lparr>t_state := TXFS_TXN_ABORTED\<rparr>, tx_active := False,
                  tx_aborted := tx_aborted tx + 1\<rparr>))"

definition txfs_shutdown :: "txfs \<Rightarrow> txfs" where
  "txfs_shutdown tx =
     (let tx1 = (if tx_active tx then snd (txfs_abort tx) else tx)
      in tx1\<lparr>tx_journal := None, tx_journal_size := 0\<rparr>)"

section \<open>Transactions\<close>

text \<open>The result is the transaction id converted to \<open>int\<close>.\<close>

definition txfs_begin :: "txfs \<Rightarrow> int \<times> txfs" where
  "txfs_begin tx =
     (if tx_active tx then (-1, tx)
      else (let i = h_txn_id_counter (tx_header tx)
            in (sint i, tx\<lparr>tx_header := (tx_header tx)\<lparr>h_txn_id_counter := i + 1\<rparr>,
                           tx_txn := \<lparr>t_id = i, t_state = TXFS_TXN_OPEN, t_ops = []\<rparr>,
                           tx_active := True\<rparr>)))"

definition entry_offset :: "u32 \<Rightarrow> u32" where
  "entry_offset i = of_nat (HEADER_BYTES + unat i * ENTRY_BYTES)"

definition cell_of :: "u32 \<Rightarrow> nat" where
  "cell_of off = (unat off - HEADER_BYTES) div ENTRY_BYTES"

definition journal_write_entry :: "txfs \<Rightarrow> txfs_entry \<Rightarrow> int \<times> txfs" where
  "journal_write_entry tx entry =
     (case tx_journal tx of
        None \<Rightarrow> (-1, tx)
      | Some j \<Rightarrow>
          (let off = entry_offset (h_entry_count (tx_header tx)) in
           if unat off + ENTRY_BYTES > tx_journal_size tx then (-1, tx)
           else (0, tx\<lparr>tx_journal := Some (copy_in (Entry_write (cell_of off) entry) j),
                       tx_header := (tx_header tx)
                         \<lparr>h_entry_count := h_entry_count (tx_header tx) + 1\<rparr>\<rparr>)))"

definition journal_update_checksum :: "txfs \<Rightarrow> txfs option" where
  "journal_update_checksum tx =
     (let h = (tx_header tx)\<lparr>h_checksum := journal_header_checksum (tx_header tx)\<rparr> in
      case tx_journal tx of
        None \<Rightarrow> None
      | Some j \<Rightarrow> Some (tx\<lparr>tx_header := h, tx_journal := Some (copy_in (Header_write h) j)\<rparr>))"

text \<open>The entry that phase 1 writes for the \<open>i\<close>-th operation.\<close>

definition seal_entry :: "u32 \<Rightarrow> nat \<Rightarrow> txfs_entry \<Rightarrow> txfs_entry" where
  "seal_entry txn i e =
     e\<lparr>e_txn_id := txn, e_op_index := of_nat i,
       e_data_crc := txfs_crc32 (take (unat (e_size e)) (e_data e))\<rparr>"

text \<open>Phase 1 over the remaining operations: the state, and whether a write failed.\<close>

fun write_ops :: "u32 \<Rightarrow> nat \<Rightarrow> txfs_entry list \<Rightarrow> txfs \<Rightarrow> bool \<times> txfs" where
  "write_ops txn i [] tx = (True, tx)"
| "write_ops txn i (e # es) tx =
     (case journal_write_entry tx (seal_entry txn i e) of
        (rc, tx1) \<Rightarrow> if rc \<noteq> 0 then (False, tx1) else write_ops txn (i + 1) es tx1)"

text \<open>Phases 2 and 4: publish the entries, then mark them applied.\<close>

definition commit_publish :: "txfs \<Rightarrow> txfs option" where
  "commit_publish tx =
     journal_update_checksum
       (tx\<lparr>tx_header := (tx_header tx)\<lparr>h_committed_count := h_entry_count (tx_header tx)\<rparr>\<rparr>)"

definition commit_checkpoint :: "txfs \<Rightarrow> txfs option" where
  "commit_checkpoint tx =
     journal_update_checksum
       (tx\<lparr>tx_header := (tx_header tx)\<lparr>h_applied_count := h_committed_count (tx_header tx)\<rparr>\<rparr>)"

definition set_txn_state :: "txfs_txn_state \<Rightarrow> txfs \<Rightarrow> txfs" where
  "set_txn_state s tx = tx\<lparr>tx_txn := (tx_txn tx)\<lparr>t_state := s\<rparr>\<rparr>"

definition txfs_commit :: "txfs \<Rightarrow> (int \<times> txfs) option" where
  "txfs_commit tx =
     (if \<not> tx_active tx then Some (-1, tx)
      else let tx0 = set_txn_state TXFS_TXN_COMMITTING tx; ops = t_ops (tx_txn tx) in
        if ops = [] then
          Some (0, tx0\<lparr>tx_committed := tx_committed tx0 + 1, tx_active := False\<rparr>)
        else
          (case write_ops (t_id (tx_txn tx)) 0 ops tx0 of
             (False, tx1) \<Rightarrow>
               Some (-1, (set_txn_state TXFS_TXN_ABORTED tx1)
                         \<lparr>tx_active := False, tx_aborted := tx_aborted tx1 + 1\<rparr>)
           | (True, tx1) \<Rightarrow> do {
               tx2 \<leftarrow> commit_publish tx1;
               tx3 \<leftarrow> Some (tx2\<lparr>tx_applied := tx_applied tx2 + of_nat (length ops)\<rparr>);
               tx4 \<leftarrow> commit_checkpoint tx3;
               Some (0, (set_txn_state TXFS_TXN_CLOSED tx4)
                        \<lparr>tx_committed := tx_committed tx4 + 1, tx_active := False\<rparr>)
             }))"

definition txfs_txn_active :: "txfs \<Rightarrow> bool" where
  "txfs_txn_active tx = tx_active tx"

section \<open>Operations\<close>

definition add_op ::
  "txfs \<Rightarrow> txfs_op_type \<Rightarrow> bytes option \<Rightarrow> u64 \<Rightarrow> bytes option \<Rightarrow> u32 \<Rightarrow> bytes option \<Rightarrow> (int \<times> txfs) option"
where
  "add_op tx ty path offset data nbytes path2 =
     (if \<not> tx_active tx then Some (-1, tx)
      else if length (t_ops (tx_txn tx)) \<ge> TXFS_MAX_TXN_OPS then Some (-1, tx)
      else
        let sz = (if nbytes > 512 then 512 else nbytes);
            op0 = zero_entry\<lparr>e_type := ty, e_offset := offset, e_size := sz\<rparr>;
            op1 = (case path of Some p \<Rightarrow> op0\<lparr>e_path := path_field p\<rparr> | None \<Rightarrow> op0);
            op2 = (case path2 of Some p \<Rightarrow> op1\<lparr>e_path2 := path_field p\<rparr> | None \<Rightarrow> op1);
            push = (\<lambda>op. Some (0, tx\<lparr>tx_txn := (tx_txn tx)\<lparr>t_ops := t_ops (tx_txn tx) @ [op]\<rparr>\<rparr>))
        in case data of
             Some d \<Rightarrow>
               (if nbytes > 0 then
                  (if length d < unat sz then None
                   else push (op2\<lparr>e_data := take (unat sz) d @ drop (unat sz) (e_data op2)\<rparr>))
                else push op2)
           | None \<Rightarrow> push op2)"

definition txfs_write :: "txfs \<Rightarrow> bytes option \<Rightarrow> u64 \<Rightarrow> bytes option \<Rightarrow> u32 \<Rightarrow> (int \<times> txfs) option" where
  "txfs_write tx path offset data nbytes = add_op tx TXFS_OP_WRITE path offset data nbytes None"

definition txfs_truncate :: "txfs \<Rightarrow> bytes option \<Rightarrow> u64 \<Rightarrow> (int \<times> txfs) option" where
  "txfs_truncate tx path nbytes = add_op tx TXFS_OP_TRUNCATE path nbytes None 0 None"

definition txfs_create :: "txfs \<Rightarrow> bytes option \<Rightarrow> (int \<times> txfs) option" where
  "txfs_create tx path = add_op tx TXFS_OP_CREATE path 0 None 0 None"

definition txfs_delete :: "txfs \<Rightarrow> bytes option \<Rightarrow> (int \<times> txfs) option" where
  "txfs_delete tx path = add_op tx TXFS_OP_DELETE path 0 None 0 None"

definition txfs_mkdir :: "txfs \<Rightarrow> bytes option \<Rightarrow> (int \<times> txfs) option" where
  "txfs_mkdir tx path = add_op tx TXFS_OP_MKDIR path 0 None 0 None"

definition txfs_rename :: "txfs \<Rightarrow> bytes option \<Rightarrow> bytes option \<Rightarrow> (int \<times> txfs) option" where
  "txfs_rename tx old_path new_path = add_op tx TXFS_OP_RENAME old_path 0 None 0 new_path"

section \<open>Recovery\<close>

definition entry_valid :: "txfs_entry \<Rightarrow> bool" where
  "entry_valid e \<longleftrightarrow> e_data_crc e = txfs_crc32 (take (unat (e_size e)) (e_data e))"

text \<open>The replay loop over the indices \<open>[i, n)\<close>: the number of entries replayed. \<open>None\<close>: the
  checksum of an entry whose size exceeds its data field is computed over what lies behind it.\<close>

function replay :: "txfs_journal \<Rightarrow> nat \<Rightarrow> nat \<Rightarrow> nat \<Rightarrow> nat option" where
  "replay j jsize i n =
     (if i < n then
        (let off = entry_offset (of_nat i) in
         if unat off + ENTRY_BYTES > jsize then Some 0
         else (let e = j_cells j ! cell_of off in
           if unat (e_size e) > length (e_data e) then None
           else if \<not> entry_valid e then Some 0
           else map_option Suc (replay j jsize (i + 1) n)))
      else Some 0)"
  by pat_completeness auto
termination
  by (relation "measure (\<lambda>(j, jsize, i, n). n - i)") auto

declare replay.simps [simp del]

definition txfs_recover :: "txfs \<Rightarrow> (int \<times> txfs) option" where
  "txfs_recover tx =
     (let h = tx_header tx; unapplied = h_committed_count h - h_applied_count h in
      if unapplied = 0 then Some (0, tx)
      else do {
        replayed \<leftarrow> (case tx_journal tx of
                       None \<Rightarrow> Some 0
                     | Some j \<Rightarrow> replay j (tx_journal_size tx) (unat (h_applied_count h))
                                        (unat (h_committed_count h)));
        tx1 \<leftarrow> journal_update_checksum
                 (tx\<lparr>tx_header := h\<lparr>h_applied_count := h_applied_count h + of_nat replayed\<rparr>\<rparr>);
        Some (int replayed,
              if replayed > 0
              then tx1\<lparr>tx_recovered := True, tx_recovery_count := tx_recovery_count tx1 + 1,
                       tx_applied := tx_applied tx1 + of_nat replayed\<rparr>
              else tx1)
      })"

definition txfs_was_recovered :: "txfs \<Rightarrow> bool" where "txfs_was_recovered tx = tx_recovered tx"
definition txfs_journal_count :: "txfs \<Rightarrow> u32" where "txfs_journal_count tx = h_entry_count (tx_header tx)"
definition txfs_committed_count :: "txfs \<Rightarrow> u32" where
  "txfs_committed_count tx = h_committed_count (tx_header tx)"
definition txfs_applied_count :: "txfs \<Rightarrow> u32" where
  "txfs_applied_count tx = h_applied_count (tx_header tx)"
definition txfs_committed_total :: "txfs \<Rightarrow> u64" where "txfs_committed_total tx = tx_committed tx"
definition txfs_aborted_total :: "txfs \<Rightarrow> u64" where "txfs_aborted_total tx = tx_aborted tx"

end
