(* ===== verification/Txfs_Facts.thy ===== *)
theory Txfs_Facts
  imports Txfs
begin

text \<open>
  Correctness of the transaction journal: what phase 1 of a commit leaves in the journal, the
  invariant of reachable states with the log of committed operations, the journal buffer after
  each copy a commit makes into it, and recovery from corrupted entries.
\<close>

section \<open>Cells\<close>

lemma entry_offset_unat: "unat i \<le> 61 \<Longrightarrow> unat (entry_offset i) = 464 + unat i * 1052"
  unfolding entry_offset_def txfs_consts by (rule unat_of_nat_u32) simp

lemma cell_of_offset: "unat i \<le> 61 \<Longrightarrow> cell_of (entry_offset i) = unat i"
  by (simp add: cell_of_def entry_offset_unat txfs_consts)

lemma entry_fits:
  "unat i \<le> 61 \<Longrightarrow> unat (entry_offset i) + ENTRY_BYTES > TXFS_JOURNAL_SIZE \<longleftrightarrow> unat i = 61"
  by (auto simp: entry_offset_unat txfs_consts)

text \<open>A usable journal, its number of entries, and the entries below an index.\<close>

definition has_journal :: "txfs \<Rightarrow> bool" where
  "has_journal tx \<longleftrightarrow> tx_journal_size tx = TXFS_JOURNAL_SIZE \<and>
     (\<exists>j. tx_journal tx = Some j \<and> length (j_cells j) = 61) \<and> unat (h_entry_count (tx_header tx)) \<le> 61"

definition jcells :: "txfs \<Rightarrow> txfs_entry list" where
  "jcells tx = j_cells (the (tx_journal tx))"

definition stored :: "txfs \<Rightarrow> txfs_header" where
  "stored tx = j_header (the (tx_journal tx))"

definition entries :: "txfs \<Rightarrow> nat" where
  "entries tx = unat (h_entry_count (tx_header tx))"

text \<open>Everything but the cells and the entry count is as before.\<close>

definition same_but_cells :: "txfs \<Rightarrow> txfs \<Rightarrow> bool" where
  "same_but_cells tx tx' \<longleftrightarrow> has_journal tx' \<and> stored tx' = stored tx \<and>
     (\<exists>j n. tx' = tx\<lparr>tx_journal := j, tx_header := (tx_header tx)\<lparr>h_entry_count := n\<rparr>\<rparr>)"

lemma journal_write_entry_room:
  assumes "has_journal tx" and "entries tx < 61"
  obtains tx' where "journal_write_entry tx e = (0, tx')" and "same_but_cells tx tx'"
    and "entries tx' = Suc (entries tx)" and "jcells tx' = (jcells tx)[entries tx := e]"
    and "the (tx_journal tx') = copy_in (Entry_write (entries tx) e) (the (tx_journal tx))"
proof -
  obtain j where j: "tx_journal tx = Some j" "length (j_cells j) = 61"
    using assms(1) by (auto simp: has_journal_def)
  let ?n = "h_entry_count (tx_header tx)"
  let ?tx = "tx\<lparr>tx_journal := Some (copy_in (Entry_write (unat ?n) e) j),
    tx_header := (tx_header tx)\<lparr>h_entry_count := ?n + 1\<rparr>\<rparr>"
  have n: "unat ?n < 61" using assms(2) by (simp add: entries_def)
  then have suc: "unat (?n + 1) = Suc (unat ?n)"
    by (simp add: unat_word_ariths)
  have "journal_write_entry tx e = (0, ?tx)"
    using j n assms(1) entry_fits [of ?n] cell_of_offset [of ?n]
    by (simp add: journal_write_entry_def Let_def has_journal_def)
  moreover have "same_but_cells tx ?tx"
    using j n suc assms(1) by (auto simp: same_but_cells_def has_journal_def stored_def)
  ultimately show thesis using that [of ?tx] j suc by (simp add: entries_def jcells_def)
qed

lemma journal_write_entry_full:
  "has_journal tx \<Longrightarrow> entries tx = 61 \<Longrightarrow> journal_write_entry tx e = (-1, tx)"
  by (auto simp: journal_write_entry_def has_journal_def entries_def entry_fits Let_def)

section \<open>Phase 1\<close>

fun seal_all :: "u32 \<Rightarrow> nat \<Rightarrow> txfs_entry list \<Rightarrow> txfs_entry list" where
  "seal_all txn i [] = []"
| "seal_all txn i (e # es) = seal_entry txn i e # seal_all txn (i + 1) es"

lemma length_seal_all [simp]: "length (seal_all txn i es) = length es"
  by (induction es arbitrary: i) auto

lemma seal_entry_valid: "entry_valid (seal_entry txn i e)"
  by (simp add: entry_valid_def seal_entry_def)

lemma seal_all_valid: "e \<in> set (seal_all txn i es) \<Longrightarrow> entry_valid e"
  by (induction es arbitrary: i) (auto simp: seal_entry_valid)

lemma same_but_cells_refl: "has_journal tx \<Longrightarrow> same_but_cells tx tx"
  unfolding same_but_cells_def
  by (auto intro!: exI [of _ "tx_journal tx"] exI [of _ "h_entry_count (tx_header tx)"])

lemma same_but_cells_trans:
  assumes "same_but_cells a b" and "same_but_cells b c"
  shows "same_but_cells a c"
proof -
  obtain j n j' n' where "b = a\<lparr>tx_journal := j, tx_header := (tx_header a)\<lparr>h_entry_count := n\<rparr>\<rparr>"
    "c = b\<lparr>tx_journal := j', tx_header := (tx_header b)\<lparr>h_entry_count := n'\<rparr>\<rparr>"
    using assms by (auto simp: same_but_cells_def)
  then have "c = a\<lparr>tx_journal := j', tx_header := (tx_header a)\<lparr>h_entry_count := n'\<rparr>\<rparr>" by simp
  with assms show ?thesis by (auto simp: same_but_cells_def)
qed

lemma has_journal_length: "has_journal tx \<Longrightarrow> length (jcells tx) = 61"
  by (auto simp: has_journal_def jcells_def)

text \<open>Copies of entries into cells from \<open>n\<close> on.\<close>

definition entry_writes :: "nat \<Rightarrow> journal_write list \<Rightarrow> bool" where
  "entry_writes n ws \<longleftrightarrow> (\<forall>w \<in> set ws. \<exists>i e. w = Entry_write i e \<and> n \<le> i)"

lemma entry_writes_simps [simp]:
  "entry_writes n []" "entry_writes n (w # ws) \<longleftrightarrow> (\<exists>i e. w = Entry_write i e \<and> n \<le> i) \<and> entry_writes n ws"
  by (simp_all add: entry_writes_def)

lemma entry_writes_mono: "entry_writes m ws \<Longrightarrow> n \<le> m \<Longrightarrow> entry_writes n ws"
  by (fastforce simp: entry_writes_def)

text \<open>The writes of a transaction either all fit, or fill the journal up.\<close>

lemma write_ops_rule:
  assumes "has_journal tx" and "write_ops txn i es tx = (ok, tx')"
  shows "same_but_cells tx tx' \<and> (ok \<longleftrightarrow> entries tx + length es \<le> 61) \<and>
    entries tx' = min 61 (entries tx + length es) \<and>
    take (entries tx) (jcells tx') = take (entries tx) (jcells tx) \<and>
    (ok \<longrightarrow> take (entries tx') (jcells tx') = take (entries tx) (jcells tx) @ seal_all txn i es) \<and>
    (\<exists>ws. entry_writes (entries tx) ws \<and> the (tx_journal tx') = fold copy_in ws (the (tx_journal tx)))"
  using assms
proof (induction es arbitrary: i tx)
  case Nil
  then show ?case
    by (auto simp: same_but_cells_refl has_journal_def entries_def min_def intro: exI [of _ "[]"])
next
  case (Cons e es)
  show ?case
  proof (cases "entries tx < 61")
    case False
    then have full: "entries tx = 61" using Cons.prems(1) by (simp add: has_journal_def entries_def)
    with Cons.prems journal_write_entry_full [OF Cons.prems(1) full] show ?thesis
      by (simp add: same_but_cells_refl) (metis entry_writes_simps(1) fold_simps(1))
  next
    case True
    from journal_write_entry_room [OF Cons.prems(1) True, of "seal_entry txn i e"]
    obtain tx1 where w: "journal_write_entry tx (seal_entry txn i e) = (0, tx1)"
      and s: "same_but_cells tx tx1" and n: "entries tx1 = Suc (entries tx)"
      and c: "jcells tx1 = (jcells tx)[entries tx := seal_entry txn i e]"
      and j: "the (tx_journal tx1) = copy_in (Entry_write (entries tx) (seal_entry txn i e)) (the (tx_journal tx))" .
    have rest: "write_ops txn (i + 1) es tx1 = (ok, tx')" using Cons.prems(2) w by simp
    have IH: "same_but_cells tx1 tx'" "ok \<longleftrightarrow> entries tx1 + length es \<le> 61"
      "entries tx' = min 61 (entries tx1 + length es)"
      "take (entries tx1) (jcells tx') = take (entries tx1) (jcells tx1)"
      "ok \<Longrightarrow> take (entries tx') (jcells tx') = take (entries tx1) (jcells tx1) @ seal_all txn (i + 1) es"
      "\<exists>ws. entry_writes (entries tx1) ws \<and> the (tx_journal tx') = fold copy_in ws (the (tx_journal tx1))"
      using Cons.IH [OF _ rest] s by (auto simp: same_but_cells_def)
    from IH(6) obtain ws where ws: "entry_writes (entries tx1) ws"
      "the (tx_journal tx') = fold copy_in ws (the (tx_journal tx1))" by blast
    have "entry_writes (entries tx) (Entry_write (entries tx) (seal_entry txn i e) # ws)"
      using entry_writes_mono [OF ws(1)] n by auto
    then have hist: "\<exists>ws. entry_writes (entries tx) ws \<and> the (tx_journal tx') = fold copy_in ws (the (tx_journal tx))"
      using ws(2) unfolding j by (metis fold_simps(2))
    have step: "take (entries tx1) (jcells tx1) = take (entries tx) (jcells tx) @ [seal_entry txn i e]"
      using True has_journal_length [OF Cons.prems(1)] by (simp add: n c take_Suc_conv_app_nth)
    have "take (entries tx) (jcells tx') = take (entries tx) (take (entries tx1) (jcells tx'))"
      by (simp add: n min_def)
    also have "\<dots> = take (entries tx) (jcells tx)"
      unfolding IH(4) step using True has_journal_length [OF Cons.prems(1)] by simp
    finally show ?thesis
      using IH(1-5) same_but_cells_trans [OF s IH(1)] n step hist by auto
  qed
qed

section \<open>Reachable states\<close>

text \<open>The states a caller reaches, with the log of the operations committed so far, sealed as
  phase 1 seals them. \<open>txfs_shutdown\<close> ends the life of the journal.\<close>

inductive txfs_reach :: "txfs \<Rightarrow> txfs_entry list \<Rightarrow> bool" where
  reach_init: "txfs_reach (snd (txfs_init True root)) []"
| reach_begin: "txfs_reach tx log \<Longrightarrow> txfs_reach (snd (txfs_begin tx)) log"
| reach_op: "txfs_reach tx log \<Longrightarrow> add_op tx ty path off data nbytes path2 = Some (r, tx') \<Longrightarrow>
    txfs_reach tx' log"
| reach_abort: "txfs_reach tx log \<Longrightarrow> txfs_reach (snd (txfs_abort tx)) log"
| reach_commit: "txfs_reach tx log \<Longrightarrow> txfs_commit tx = Some (0, tx') \<Longrightarrow>
    txfs_reach tx' (log @ seal_all (t_id (tx_txn tx)) 0 (t_ops (tx_txn tx)))"
| reach_commit_failed: "txfs_reach tx log \<Longrightarrow> txfs_commit tx = Some (r, tx') \<Longrightarrow> r \<noteq> 0 \<Longrightarrow>
    txfs_reach tx' log"
| reach_recover: "txfs_reach tx log \<Longrightarrow> txfs_recover tx = Some (r, tx') \<Longrightarrow> txfs_reach tx' log"

text \<open>The invariant: the published entries are the log and are valid, nothing is left to
  apply, and entries beyond the published ones exist only in a full journal.\<close>

definition txfs_inv :: "txfs \<Rightarrow> txfs_entry list \<Rightarrow> bool" where
  "txfs_inv tx log \<longleftrightarrow> has_journal tx \<and>
     h_applied_count (tx_header tx) = h_committed_count (tx_header tx) \<and>
     h_committed_count (stored tx) = h_committed_count (tx_header tx) \<and>
     h_applied_count (stored tx) = h_committed_count (tx_header tx) \<and>
     unat (h_committed_count (tx_header tx)) = length log \<and>
     length log \<le> entries tx \<and> (length log = entries tx \<or> entries tx = 61) \<and>
     take (length log) (jcells tx) = log \<and> (\<forall>e \<in> set log. entry_valid e)"

lemma txfs_inv_has_journal: "txfs_inv tx log \<Longrightarrow> has_journal tx"
  by (simp add: txfs_inv_def)

text \<open>The invariant speaks of the journal and the counters only.\<close>

lemma txfs_inv_cong:
  assumes "txfs_inv tx log" and "tx_journal tx' = tx_journal tx" "tx_journal_size tx' = tx_journal_size tx"
    "h_entry_count (tx_header tx') = h_entry_count (tx_header tx)"
    "h_committed_count (tx_header tx') = h_committed_count (tx_header tx)"
    "h_applied_count (tx_header tx') = h_applied_count (tx_header tx)"
  shows "txfs_inv tx' log"
  using assms by (simp add: txfs_inv_def has_journal_def stored_def entries_def jcells_def)

lemma txfs_init_inv: "txfs_inv (snd (txfs_init True root)) []"
  by (simp add: txfs_init_def txfs_inv_def has_journal_def stored_def entries_def zero_header_def
      fresh_journal_def txfs_consts Let_def)

lemma add_op_state:
  assumes "add_op tx ty path off data nbytes path2 = Some (r, tx')"
  shows "\<exists>ops. tx' = tx\<lparr>tx_txn := (tx_txn tx)\<lparr>t_ops := ops\<rparr>\<rparr>"
  using assms
  by (auto simp: add_op_def Let_def split: if_splits option.splits intro: exI [of _ "t_ops (tx_txn tx)"])

lemma set_txn_state_fields [simp]:
  "tx_journal (set_txn_state s tx) = tx_journal tx" "tx_header (set_txn_state s tx) = tx_header tx"
  "tx_journal_size (set_txn_state s tx) = tx_journal_size tx"
  "tx_aborted (set_txn_state s tx) = tx_aborted tx" "tx_committed (set_txn_state s tx) = tx_committed tx"
  "tx_applied (set_txn_state s tx) = tx_applied tx" "tx_active (set_txn_state s tx) = tx_active tx"
  by (simp_all add: set_txn_state_def)

lemma journal_update_checksum_rule:
  assumes "has_journal tx"
  obtains tx' where "journal_update_checksum tx = Some tx'" and "has_journal tx'"
    and "jcells tx' = jcells tx" and "entries tx' = entries tx"
    and "h_committed_count (tx_header tx') = h_committed_count (tx_header tx)"
    and "h_applied_count (tx_header tx') = h_applied_count (tx_header tx)"
    and "stored tx' = tx_header tx'"
    and "h_checksum (stored tx') = journal_header_checksum (stored tx')"
    and "tx_committed tx' = tx_committed tx" and "tx_aborted tx' = tx_aborted tx"
    and "the (tx_journal tx') = copy_in (Header_write (tx_header tx')) (the (tx_journal tx))"
proof -
  obtain j where "tx_journal tx = Some j" "length (j_cells j) = 61"
    using assms by (auto simp: has_journal_def)
  with assms show thesis
    by (intro that [of "the (journal_update_checksum tx)"])
      (auto simp: journal_update_checksum_def Let_def has_journal_def jcells_def entries_def stored_def
        journal_header_checksum_def header_bytes_def)
qed

text \<open>A transaction that does not fit leaves the invariant intact.\<close>

lemma txfs_inv_filled:
  assumes "txfs_inv tx log" and "same_but_cells tx tx'" and "entries tx' = 61"
    and "take (entries tx) (jcells tx') = take (entries tx) (jcells tx)"
  shows "txfs_inv tx' log"
proof -
  have le: "length log \<le> entries tx" using assms(1) by (simp add: txfs_inv_def)
  have "take (length log) (jcells tx') = take (length log) (take (entries tx) (jcells tx'))"
    using le by (simp add: min_def)
  also have "\<dots> = take (length log) (jcells tx)" using le by (simp add: assms(4) min_def)
  finally have "take (length log) (jcells tx') = log" using assms(1) by (simp add: txfs_inv_def)
  moreover have "entries tx \<le> 61" using assms(1) by (simp add: txfs_inv_def has_journal_def entries_def)
  ultimately show ?thesis using assms(1-3) le by (auto simp: txfs_inv_def same_but_cells_def)
qed

section \<open>Commit\<close>

text \<open>The counters of the states after phase 1, 2 and 4.\<close>

lemma commit_phases:
  assumes inv: "txfs_inv tx log" and w: "write_ops txn 0 ops tx = (True, tx1)"
  obtains tx2 where "commit_publish tx1 = Some tx2" and "has_journal tx2"
    and "jcells tx2 = jcells tx1" and "entries tx2 = entries tx1"
    and "take (entries tx1) (jcells tx1) = take (entries tx) (jcells tx) @ seal_all txn 0 ops"
    and "unat (h_committed_count (tx_header tx2)) = entries tx1"
    and "h_applied_count (tx_header tx2) = h_committed_count (tx_header tx)"
    and "stored tx2 = tx_header tx2"
    and "tx_committed tx2 = tx_committed tx" and "tx_aborted tx2 = tx_aborted tx"
    and "the (tx_journal tx2) = copy_in (Header_write (tx_header tx2)) (the (tx_journal tx1))"
proof -
  note wr = write_ops_rule [OF txfs_inv_has_journal [OF inv] w]
  let ?tx1 = "tx1\<lparr>tx_header := (tx_header tx1)\<lparr>h_committed_count := h_entry_count (tx_header tx1)\<rparr>\<rparr>"
  have "has_journal ?tx1" using wr by (simp add: same_but_cells_def has_journal_def)
  from journal_update_checksum_rule [OF this] obtain tx2 where
    "journal_update_checksum ?tx1 = Some tx2" "has_journal tx2" "jcells tx2 = jcells ?tx1"
    "entries tx2 = entries ?tx1"
    "h_committed_count (tx_header tx2) = h_committed_count (tx_header ?tx1)"
    "h_applied_count (tx_header tx2) = h_applied_count (tx_header ?tx1)"
    "stored tx2 = tx_header tx2" "tx_committed tx2 = tx_committed ?tx1" "tx_aborted tx2 = tx_aborted ?tx1"
    "the (tx_journal tx2) = copy_in (Header_write (tx_header tx2)) (the (tx_journal ?tx1))"
    by metis
  with wr inv show thesis
    by (intro that [of tx2])
      (auto simp: commit_publish_def jcells_def entries_def txfs_inv_def same_but_cells_def)
qed

lemma commit_rule:
  assumes inv: "txfs_inv tx log" and act: "tx_active tx"
  defines "ops \<equiv> t_ops (tx_txn tx)"
  obtains tx' where "entries tx + length ops \<le> 61 \<or> ops = [] \<Longrightarrow> txfs_commit tx = Some (0, tx') \<and>
      txfs_inv tx' (log @ seal_all (t_id (tx_txn tx)) 0 ops) \<and> tx_committed tx' = tx_committed tx + 1 \<and>
      tx_aborted tx' = tx_aborted tx \<and> \<not> tx_active tx'"
    and "\<not> (entries tx + length ops \<le> 61 \<or> ops = []) \<Longrightarrow> txfs_commit tx = Some (-1, tx') \<and>
      txfs_inv tx' log \<and> tx_committed tx' = tx_committed tx \<and> tx_aborted tx' = tx_aborted tx + 1 \<and>
      \<not> tx_active tx' \<and> entries tx' = 61"
proof (cases "ops = []")
  case True
  with act txfs_inv_cong [OF inv] show thesis
    by (intro that [of "(set_txn_state TXFS_TXN_COMMITTING tx)\<lparr>tx_committed := tx_committed tx + 1,
          tx_active := False\<rparr>"])
      (auto simp: txfs_commit_def Let_def ops_def)
next
  case False
  let ?tx0 = "set_txn_state TXFS_TXN_COMMITTING tx" and ?id = "t_id (tx_txn tx)"
  have inv0: "txfs_inv ?tx0 log" by (rule txfs_inv_cong [OF inv]) simp_all
  obtain ok tx1 where w: "write_ops ?id 0 ops ?tx0 = (ok, tx1)" by (rule prod.exhaust)
  note wr = write_ops_rule [OF txfs_inv_has_journal [OF inv0] w]
  have ent: "entries ?tx0 = entries tx" "jcells ?tx0 = jcells tx"
    by (simp_all add: entries_def jcells_def)
  show thesis
  proof (cases ok)
    case False
    let ?r = "(set_txn_state TXFS_TXN_ABORTED tx1)\<lparr>tx_active := False, tx_aborted := tx_aborted tx1 + 1\<rparr>"
    have "txfs_inv tx1 log"
      using wr False by (intro txfs_inv_filled [OF inv0]) auto
    then have "txfs_inv ?r log" by (rule txfs_inv_cong) simp_all
    moreover have "txfs_commit tx = Some (-1, ?r)"
      using act \<open>ops \<noteq> []\<close> w False by (simp add: txfs_commit_def Let_def ops_def)
    moreover have "\<not> entries tx + length ops \<le> 61" "entries ?r = 61" "tx_committed tx1 = tx_committed tx"
      "tx_aborted tx1 = tx_aborted tx"
      using wr ent False by (auto simp: entries_def same_but_cells_def)
    ultimately show thesis using that [of ?r] \<open>ops \<noteq> []\<close> by simp
  next
    case True
    then have w': "write_ops ?id 0 ops ?tx0 = (True, tx1)" using w by simp
    obtain tx2 where p: "commit_publish tx1 = Some tx2" "has_journal tx2" "jcells tx2 = jcells tx1"
      "entries tx2 = entries tx1"
      "take (entries tx1) (jcells tx1) = take (entries tx) (jcells tx) @ seal_all ?id 0 ops"
      "unat (h_committed_count (tx_header tx2)) = entries tx1"
      "tx_committed tx2 = tx_committed tx" "tx_aborted tx2 = tx_aborted tx"
      using commit_phases [OF inv0 w'] unfolding ent by (metis set_txn_state_fields(4,5))
    let ?tx3 = "tx2\<lparr>tx_applied := tx_applied tx2 + of_nat (length ops)\<rparr>"
    let ?tx3' = "?tx3\<lparr>tx_header := (tx_header ?tx3)\<lparr>h_applied_count := h_committed_count (tx_header ?tx3)\<rparr>\<rparr>"
    have "has_journal ?tx3'" using p(2) by (simp add: has_journal_def)
    from journal_update_checksum_rule [OF this] obtain tx4 where
      q: "journal_update_checksum ?tx3' = Some tx4" "has_journal tx4" "jcells tx4 = jcells ?tx3'"
      "entries tx4 = entries ?tx3'"
      "h_committed_count (tx_header tx4) = h_committed_count (tx_header ?tx3')"
      "h_applied_count (tx_header tx4) = h_applied_count (tx_header ?tx3')"
      "stored tx4 = tx_header tx4" "tx_committed tx4 = tx_committed ?tx3'" "tx_aborted tx4 = tx_aborted ?tx3'"
      by metis
    let ?r = "(set_txn_state TXFS_TXN_CLOSED tx4)\<lparr>tx_committed := tx_committed tx4 + 1, tx_active := False\<rparr>"
    have room: "entries tx + length ops \<le> 61" "entries tx1 = entries tx + length ops"
      using wr ent True by auto
    then have "length log = entries tx" using inv \<open>ops \<noteq> []\<close> by (cases ops) (auto simp: txfs_inv_def)
    with p q inv room have "txfs_inv tx4 (log @ seal_all ?id 0 ops)"
      by (auto simp: txfs_inv_def entries_def jcells_def dest: seal_all_valid)
    then have "txfs_inv ?r (log @ seal_all ?id 0 ops)" by (rule txfs_inv_cong) simp_all
    moreover have "txfs_commit tx = Some (0, ?r)"
      using act \<open>ops \<noteq> []\<close> w True p(1) q(1)
      by (simp add: txfs_commit_def Let_def ops_def commit_checkpoint_def)
    ultimately show thesis using that [of ?r] room(1) p(7,8) q(8,9) by simp
  qed
qed

lemma recover_idle: "txfs_inv tx log \<Longrightarrow> txfs_recover tx = Some (0, tx)"
  by (simp add: txfs_recover_def txfs_inv_def Let_def)

lemma txfs_reach_inv: "txfs_reach tx log \<Longrightarrow> txfs_inv tx log"
proof (induction rule: txfs_reach.induct)
  case (reach_init root)
  show ?case by (rule txfs_init_inv)
next
  case (reach_begin tx log)
  show ?case by (rule txfs_inv_cong [OF reach_begin.IH]) (auto simp: txfs_begin_def Let_def)
next
  case (reach_op tx log ty path off data nbytes path2 r tx')
  obtain ops where "tx' = tx\<lparr>tx_txn := (tx_txn tx)\<lparr>t_ops := ops\<rparr>\<rparr>"
    using add_op_state [OF reach_op.hyps(2)] by blast
  then show ?case by (intro txfs_inv_cong [OF reach_op.IH]) simp_all
next
  case (reach_abort tx log)
  show ?case by (rule txfs_inv_cong [OF reach_abort.IH]) (auto simp: txfs_abort_def)
next
  case (reach_commit tx log tx')
  then have "tx_active tx" by (auto simp: txfs_commit_def split: if_splits)
  from commit_rule [OF reach_commit.IH this] reach_commit.hyps(2) show ?case by fastforce
next
  case (reach_commit_failed tx log r tx')
  show ?case
  proof (cases "tx_active tx")
    case True
    from commit_rule [OF reach_commit_failed.IH True] reach_commit_failed.hyps(2,3) show ?thesis
      by fastforce
  next
    case False
    with reach_commit_failed show ?thesis by (simp add: txfs_commit_def)
  qed
next
  case (reach_recover tx log r tx')
  with recover_idle [of tx log] show ?case by simp
qed

section \<open>The buffer during a commit\<close>

text \<open>The buffer after its first \<open>n\<close> copies, and the entries that it publishes as not yet applied.\<close>

definition buffer_after :: "nat \<Rightarrow> txfs_journal \<Rightarrow> txfs_journal" where
  "buffer_after n j = fold copy_in (take n (j_writes j)) fresh_journal"

definition pending :: "txfs_journal \<Rightarrow> txfs_entry list" where
  "pending j = (let h = j_header j; a = unat (h_applied_count h); c = unat (h_committed_count h)
     in take (c - a) (drop a (j_cells j)))"

text \<open>The history of a reachable buffer is complete.\<close>

definition history :: "txfs \<Rightarrow> bool" where
  "history tx \<longleftrightarrow> the (tx_journal tx) = fold copy_in (j_writes (the (tx_journal tx))) fresh_journal"

lemma writes_copy_in [simp]: "j_writes (copy_in w j) = j_writes j @ [w]"
  by (cases w) simp_all

lemma writes_fold [simp]: "j_writes (fold copy_in ws j) = j_writes j @ ws"
  by (induction ws arbitrary: j) simp_all

lemma history_copy: "history tx \<Longrightarrow> the (tx_journal tx') = fold copy_in ws (the (tx_journal tx)) \<Longrightarrow> history tx'"
  by (simp add: history_def)

lemma history_same: "history tx \<Longrightarrow> tx_journal tx' = tx_journal tx \<Longrightarrow> history tx'"
  by (simp add: history_def)

lemma cells_copy_entries:
  "entry_writes n ws \<Longrightarrow> take n (j_cells (fold copy_in ws j)) = take n (j_cells j) \<and> j_header (fold copy_in ws j) = j_header j"
proof (induction ws arbitrary: j)
  case (Cons w ws)
  then obtain i e where "w = Entry_write i e" "n \<le> i" by auto
  with Cons show ?case by simp
qed simp

text \<open>What a commit copies: the entries, and when all fit, the header twice.\<close>

lemma commit_writes:
  assumes inv: "txfs_inv tx log" and act: "tx_active tx" and cm: "txfs_commit tx = Some (rc, tx')"
  defines "ops \<equiv> t_ops (tx_txn tx)" and "j \<equiv> the (tx_journal tx)"
  obtains (quiet) ws where "entry_writes (entries tx) ws" and "the (tx_journal tx') = fold copy_in ws j"
      and "\<not> (rc = 0 \<and> ops \<noteq> [])"
  | (published) ws h2 h4 where "entry_writes (entries tx) ws" and "rc = 0" and "ops \<noteq> []"
      and "the (tx_journal tx') = fold copy_in (ws @ [Header_write h2, Header_write h4]) j"
      and "take (unat (h_committed_count h2)) (j_cells (fold copy_in ws j)) = log @ seal_all (t_id (tx_txn tx)) 0 ops"
      and "unat (h_committed_count h2) = length log + length ops"
      and "unat (h_applied_count h2) = length log" and "h_applied_count h4 = h_committed_count h4"
proof (cases "ops = []")
  case True
  with cm act have "tx_journal tx' = tx_journal tx" by (auto simp: txfs_commit_def Let_def ops_def)
  then show thesis using True by (intro quiet [of "[]"]) (simp_all add: j_def)
next
  case False
  let ?tx0 = "set_txn_state TXFS_TXN_COMMITTING tx" and ?id = "t_id (tx_txn tx)"
  have inv0: "txfs_inv ?tx0 log" by (rule txfs_inv_cong [OF inv]) simp_all
  obtain ok tx1 where w: "write_ops ?id 0 ops ?tx0 = (ok, tx1)" by (rule prod.exhaust)
  have ent: "entries ?tx0 = entries tx" "jcells ?tx0 = jcells tx" by (simp_all add: entries_def jcells_def)
  note wr = write_ops_rule [OF txfs_inv_has_journal [OF inv0] w, unfolded ent set_txn_state_fields]
  from wr obtain ws where ws: "entry_writes (entries tx) ws" "the (tx_journal tx1) = fold copy_in ws j"
    unfolding j_def by blast
  show thesis
  proof (cases ok)
    case False
    then have "rc = -1" "tx_journal tx' = tx_journal tx1"
      using cm act \<open>ops \<noteq> []\<close> w by (auto simp: txfs_commit_def Let_def ops_def)
    with ws show thesis by (intro quiet) simp_all
  next
    case True
    then have w': "write_ops ?id 0 ops ?tx0 = (True, tx1)" using w by simp
    obtain tx2 where p: "commit_publish tx1 = Some tx2" "has_journal tx2"
      "take (entries tx1) (jcells tx1) = take (entries tx) (jcells tx) @ seal_all ?id 0 ops"
      "unat (h_committed_count (tx_header tx2)) = entries tx1"
      "h_applied_count (tx_header tx2) = h_committed_count (tx_header tx)"
      "the (tx_journal tx2) = copy_in (Header_write (tx_header tx2)) (the (tx_journal tx1))"
      using commit_phases [OF inv0 w'] unfolding ent set_txn_state_fields by metis
    let ?tx3 = "tx2\<lparr>tx_applied := tx_applied tx2 + of_nat (length ops)\<rparr>"
    let ?tx3' = "?tx3\<lparr>tx_header := (tx_header ?tx3)\<lparr>h_applied_count := h_committed_count (tx_header ?tx3)\<rparr>\<rparr>"
    have "has_journal ?tx3'" using p(2) by (simp add: has_journal_def)
    from journal_update_checksum_rule [OF this] obtain tx4 where
      q: "journal_update_checksum ?tx3' = Some tx4"
      "h_committed_count (tx_header tx4) = h_committed_count (tx_header ?tx3')"
      "h_applied_count (tx_header tx4) = h_applied_count (tx_header ?tx3')"
      "the (tx_journal tx4) = copy_in (Header_write (tx_header tx4)) (the (tx_journal ?tx3'))" by metis
    have "rc = 0" "tx_journal tx' = tx_journal tx4"
      using cm act \<open>ops \<noteq> []\<close> w True p(1) q(1)
      by (auto simp: txfs_commit_def Let_def ops_def commit_checkpoint_def)
    moreover have room: "entries tx1 = entries tx + length ops" using wr True by auto
    moreover have "length log = entries tx" "take (entries tx) (jcells tx) = log"
      using inv \<open>ops \<noteq> []\<close> wr True by (cases ops; auto simp: txfs_inv_def)+
    ultimately show thesis
      using p q ws \<open>ops \<noteq> []\<close> inv
      by (intro published [of ws "tx_header tx2" "tx_header tx4"]) (auto simp: jcells_def txfs_inv_def)
  qed
qed

lemma commit_journal:
  assumes "txfs_inv tx log" and "tx_active tx" and "txfs_commit tx = Some (rc, tx')"
  shows "\<exists>ws. the (tx_journal tx') = fold copy_in ws (the (tx_journal tx))"
  by (rule commit_writes [OF assms]) blast+

lemma recover_journal:
  assumes "txfs_recover tx = Some (r, tx')" and "tx_journal tx = Some j"
  shows "\<exists>ws. the (tx_journal tx') = fold copy_in ws j"
proof (cases "tx' = tx")
  case True
  with assms(2) show ?thesis by (intro exI [of _ "[]"]) simp
next
  case False
  with assms obtain h where "the (tx_journal tx') = copy_in (Header_write h) j"
    by (auto simp: txfs_recover_def journal_update_checksum_def Let_def split: if_splits option.splits bind_splits)
  then show ?thesis by (intro exI [of _ "[Header_write h]"]) simp
qed

lemma txfs_reach_history: "txfs_reach tx log \<Longrightarrow> history tx"
proof (induction rule: txfs_reach.induct)
  case (reach_init root)
  show ?case by (simp add: history_def txfs_init_def Let_def fresh_journal_def)
next
  case (reach_begin tx log)
  show ?case by (rule history_same [OF reach_begin.IH]) (simp add: txfs_begin_def Let_def)
next
  case (reach_op tx log ty path off data nbytes path2 r tx')
  from add_op_state [OF reach_op.hyps(2)] history_same [OF reach_op.IH] show ?case by auto
next
  case (reach_abort tx log)
  show ?case by (rule history_same [OF reach_abort.IH]) (simp add: txfs_abort_def)
next
  case (reach_commit tx log tx')
  then have "tx_active tx" by (auto simp: txfs_commit_def split: if_splits)
  from commit_journal [OF txfs_reach_inv [OF reach_commit.hyps(1)] this reach_commit.hyps(2)]
  show ?case using history_copy [OF reach_commit.IH] by blast
next
  case (reach_commit_failed tx log r tx')
  show ?case
  proof (cases "tx_active tx")
    case True
    from commit_journal [OF txfs_reach_inv [OF reach_commit_failed.hyps(1)] True reach_commit_failed.hyps(2)]
    show ?thesis using history_copy [OF reach_commit_failed.IH] by blast
  next
    case False
    with reach_commit_failed show ?thesis by (simp add: txfs_commit_def)
  qed
next
  case (reach_recover tx log r tx')
  obtain j where "tx_journal tx = Some j"
    using txfs_inv_has_journal [OF txfs_reach_inv [OF reach_recover.hyps(1)]] by (auto simp: has_journal_def)
  from recover_journal [OF reach_recover.hyps(2) this] this obtain ws where
    "the (tx_journal tx') = fold copy_in ws (the (tx_journal tx))" by auto
  then show ?case by (rule history_copy [OF reach_recover.IH])
qed

text \<open>A first transaction with one operation.\<close>

lemma demo_open:
  obtains tx where "txfs_reach tx []" and "tx_active tx" and "entries tx = 0"
    and "length (t_ops (tx_txn tx)) = 1"
proof -
  let ?t1 = "snd (txfs_begin (snd (txfs_init True None)))"
  have t1: "txfs_reach ?t1 []" by (intro reach_begin reach_init)
  have f: "tx_active ?t1" "t_ops (tx_txn ?t1) = []" "h_entry_count (tx_header ?t1) = 0"
    by (simp_all add: txfs_begin_def txfs_init_def Let_def)
  then obtain tx where tx: "add_op ?t1 TXFS_OP_MKDIR (Some (lit ''a'')) 0 None 0 None = Some (0, tx)"
    "length (t_ops (tx_txn tx)) = 1" "tx_active tx" "h_entry_count (tx_header tx) = 0"
    by (simp add: add_op_def Let_def txfs_consts)
  from that [OF reach_op [OF t1 tx(1)] tx(3) _ tx(2)] tx(4) show thesis by (simp add: entries_def)
qed

lemma replay_stops:
  assumes "\<not> entry_valid (j_cells j ! k)" and "i \<le> k" and "k < n" and "n \<le> 61"
    and "\<And>l. i \<le> l \<Longrightarrow> l \<le> k \<Longrightarrow> unat (e_size (j_cells j ! l)) \<le> length (e_data (j_cells j ! l))"
  shows "\<exists>m. replay j jsize i n = Some m \<and> m \<le> k - i"
  using assms
proof (induction "n - i" arbitrary: i)
  case (Suc m)
  then have u: "unat (of_nat i :: u32) = i" by simp
  show ?case
  proof (cases "i = k")
    case True
    with Suc.prems u cell_of_offset [of "of_nat i"] show ?thesis
      by (simp add: replay.simps [of j _ k] Let_def)
  next
    case False
    then have "\<exists>m. replay j jsize (i + 1) n = Some m \<and> m \<le> k - (i + 1)" using Suc by (intro Suc.hyps(1)) auto
    then show ?thesis
      using False Suc.prems(2,3,4) Suc.prems(5) [of i] u cell_of_offset [of "of_nat i"]
      by (auto simp: replay.simps [of j _ i] Let_def)
  qed
qed simp

section \<open>Properties\<close>

text \<open>Commit succeeds exactly when there is room. In a reachable state with an open transaction
  \<open>txfs_commit\<close> returns 0 when the transaction is empty or its operations fit into the 61
  cells of the journal, and otherwise -1; the transaction is closed in both cases and
  exactly one of the two statistics counters goes up. In particular a journal that is full
  refuses every non-empty transaction from then on, and a transaction of more than 61
  operations never commits.\<close>

lemma commit_succeeds_iff_room:
  assumes "txfs_reach tx log" and "txfs_txn_active tx"
  shows "\<exists>rc tx'. txfs_commit tx = Some (rc, tx') \<and> \<not> txfs_txn_active tx' \<and>
    (if t_ops (tx_txn tx) = [] \<or> unat (txfs_journal_count tx) + length (t_ops (tx_txn tx)) \<le> 61
     then rc = 0 \<and> txfs_committed_total tx' = txfs_committed_total tx + 1 \<and>
          txfs_aborted_total tx' = txfs_aborted_total tx
     else rc = -1 \<and> txfs_committed_total tx' = txfs_committed_total tx \<and>
          txfs_aborted_total tx' = txfs_aborted_total tx + 1 \<and> txfs_journal_count tx' = 61)"
proof -
  have act: "tx_active tx" using assms(2) by (simp add: txfs_txn_active_def)
  from commit_rule [OF txfs_reach_inv [OF assms(1)] act] show ?thesis
    by (auto simp: txfs_txn_active_def txfs_journal_count_def txfs_committed_total_def
        txfs_aborted_total_def entries_def word_unat_eq_iff) metis+
qed

text \<open>C14: A commit is all or nothing in the journal buffer. Take any reachable state with an open
  transaction, and the buffer at any moment of its commit: after any number of the copies that
  \<open>txfs_commit\<close> makes into the buffer, each of an entry or of the header and taken as one step. There
  is nothing to replay in it (no entry counts as committed and not applied), except at the one moment
  between the publication and the checkpoint of a successful commit; there it is exactly the operations of the transaction,
  all of them, in order, each with its transaction id, its index and a valid checksum. The entries
  published before the commit stay as they are throughout.\<close>

theorem commit_is_all_or_nothing:
  assumes "txfs_reach tx log" and "txfs_txn_active tx" and "txfs_commit tx = Some (rc, tx')"
    and "tx_journal tx = Some j" and "tx_journal tx' = Some j'"
    and "length (j_writes j) \<le> n" and "n \<le> length (j_writes j')"
  shows "pending (buffer_after n j') =
      (if rc = 0 \<and> t_ops (tx_txn tx) \<noteq> [] \<and> n + 1 = length (j_writes j')
       then seal_all (t_id (tx_txn tx)) 0 (t_ops (tx_txn tx)) else []) \<and>
    (\<forall>e \<in> set (pending (buffer_after n j')). entry_valid e) \<and>
    take (unat (txfs_committed_count tx)) (j_cells (buffer_after n j')) =
      take (unat (txfs_committed_count tx)) (j_cells j)"
proof -
  have inv: "txfs_inv tx log" by (rule txfs_reach_inv [OF assms(1)])
  have act: "tx_active tx" using assms(2) by (simp add: txfs_txn_active_def)
  have hist: "j = fold copy_in (j_writes j) fresh_journal"
    using txfs_reach_history [OF assms(1)] assms(4) by (simp add: history_def)
  have log: "unat (txfs_committed_count tx) = length log" "length log \<le> entries tx"
    and idle: "h_applied_count (j_header j) = h_committed_count (j_header j)"
    using inv assms(4) by (auto simp: txfs_inv_def txfs_committed_count_def stored_def)
  have after: "buffer_after n j' = fold copy_in (take (n - length (j_writes j)) ws) j"
    if "j' = fold copy_in ws j" for ws
  proof -
    have "j_writes j' = j_writes j @ ws" by (simp add: that)
    then have "buffer_after n j' = fold copy_in (take (n - length (j_writes j)) ws) (fold copy_in (j_writes j) fresh_journal)"
      using assms(6) by (simp add: buffer_after_def)
    then show ?thesis by (simp only: hist [symmetric])
  qed
  have idle_at: "pending (fold copy_in (take m ws) j) = [] \<and>
      take (length log) (j_cells (fold copy_in (take m ws) j)) = take (length log) (j_cells j)"
    if "entry_writes (entries tx) ws" for m ws
  proof -
    have "entry_writes (length log) (take m ws)"
      using that log(2) by (fastforce simp: entry_writes_def dest: in_set_takeD)
    from cells_copy_entries [OF this, of j] idle show ?thesis by (simp add: pending_def Let_def)
  qed
  have j: "the (tx_journal tx) = j" "the (tx_journal tx') = j'" using assms(4,5) by simp_all
  let ?ops = "t_ops (tx_txn tx)" and ?m = "n - length (j_writes j)"
  show ?thesis
  proof (rule commit_writes [OF inv act assms(3), unfolded j])
    fix ws
    assume q: "entry_writes (entries tx) ws" "j' = fold copy_in ws j" "\<not> (rc = 0 \<and> ?ops \<noteq> [])"
    show ?thesis unfolding after [OF q(2)] log(1) using idle_at [OF q(1)] q(3) by auto
  next
    fix ws h2 h4
    assume p: "entry_writes (entries tx) ws" "rc = 0" "?ops \<noteq> []"
      "j' = fold copy_in (ws @ [Header_write h2, Header_write h4]) j"
      "take (unat (h_committed_count h2)) (j_cells (fold copy_in ws j)) = log @ seal_all (t_id (tx_txn tx)) 0 ?ops"
      "unat (h_committed_count h2) = length log + length ?ops" "unat (h_applied_count h2) = length log"
      "h_applied_count h4 = h_committed_count h4"
    have len: "length (j_writes j') = length (j_writes j) + length ws + 2" by (simp add: p(4))
    have all: "pending (fold copy_in ws j) = [] \<and>
        take (length log) (j_cells (fold copy_in ws j)) = take (length log) (j_cells j)"
      using idle_at [OF p(1), of "length ws"] by simp
    have "drop (length log) (take (length log + length ?ops) (j_cells (fold copy_in ws j))) =
        seal_all (t_id (tx_txn tx)) 0 ?ops" using p(5,6) by simp
    then have pub: "take (length ?ops) (drop (length log) (j_cells (fold copy_in ws j))) =
        seal_all (t_id (tx_txn tx)) 0 ?ops" by (simp add: drop_take)
    consider "?m \<le> length ws" | "?m = length ws + 1" | "?m = length ws + 2" using len assms(6,7) by linarith
    then show ?thesis
    proof cases
      case 1
      then have "n + 1 \<noteq> length (j_writes j')" using len assms(6) by simp
      with 1 show ?thesis unfolding after [OF p(4)] log(1) using idle_at [OF p(1), of ?m] by simp
    next
      case 2
      then have "n + 1 = length (j_writes j')" using len assms(6) by simp
      with 2 p(2,3,6,7) all pub show ?thesis unfolding after [OF p(4)] log(1)
        by (auto simp: pending_def dest: seal_all_valid)
    next
      case 3
      then have "n + 1 \<noteq> length (j_writes j')" using len assms(6) by simp
      with 3 p(8) all show ?thesis unfolding after [OF p(4)] log(1) by (simp add: pending_def)
    qed
  qed
qed

theorem commit_is_all_or_nothing_witness:
  "\<exists>tx tx' j'. txfs_reach tx [] \<and> txfs_commit tx = Some (0, tx') \<and> tx_journal tx' = Some j' \<and>
    length (t_ops (tx_txn tx)) = 1 \<and>
    pending (buffer_after (length (j_writes j') - 1) j') = seal_all (t_id (tx_txn tx)) 0 (t_ops (tx_txn tx))"
proof -
  obtain tx where r: "txfs_reach tx []" and a: "tx_active tx" and e: "entries tx = 0"
    and ops: "length (t_ops (tx_txn tx)) = 1" by (rule demo_open)
  from commit_rule [OF txfs_reach_inv [OF r] a] e ops obtain tx' where c: "txfs_commit tx = Some (0, tx')"
    and i: "txfs_inv tx' ([] @ seal_all (t_id (tx_txn tx)) 0 (t_ops (tx_txn tx)))" by auto
  obtain j where j: "tx_journal tx = Some j"
    using txfs_inv_has_journal [OF txfs_reach_inv [OF r]] by (auto simp: has_journal_def)
  obtain j' where j': "tx_journal tx' = Some j'" using txfs_inv_has_journal [OF i] by (auto simp: has_journal_def)
  have ne: "t_ops (tx_txn tx) \<noteq> []" using ops by auto
  have len: "length (j_writes j) + 1 \<le> length (j_writes j')"
  proof (rule commit_writes [OF txfs_reach_inv [OF r] a c])
  qed (use j j' ne in simp_all)
  have act: "txfs_txn_active tx" using a by (simp add: txfs_txn_active_def)
  have n: "length (j_writes j) \<le> length (j_writes j') - 1" "length (j_writes j') - 1 \<le> length (j_writes j')"
    "length (j_writes j') - 1 + 1 = length (j_writes j')" using len by simp_all
  have "pending (buffer_after (length (j_writes j') - 1) j') = seal_all (t_id (tx_txn tx)) 0 (t_ops (tx_txn tx))"
    using commit_is_all_or_nothing [OF r act c j j' n(1,2)] ne n(3) by simp
  with r c j' ops show ?thesis by blast
qed

text \<open>C15: Recovery never applies a corrupted entry. When a single byte of the data of a published,
  unapplied entry has changed since the entry was sealed, and no unapplied entry up to it has a
  size beyond its data field, recovery returns normally and leaves that entry and all later
  ones unapplied.\<close>

theorem recovery_stops_at_corruption:
  assumes "tx_journal tx = Some j" and "unat (txfs_committed_count tx) \<le> 61"
    and "unat (txfs_applied_count tx) \<le> k" and "k < unat (txfs_committed_count tx)"
    and "entry_valid (e\<lparr>e_data := pre @ p # post\<rparr>)" and "length pre < unat (e_size e)"
    and "j_cells j ! k = e\<lparr>e_data := pre @ q # post\<rparr>" and "p \<noteq> q"
    and "\<forall>i. unat (txfs_applied_count tx) \<le> i \<and> i \<le> k \<longrightarrow>
      unat (e_size (j_cells j ! i)) \<le> length (e_data (j_cells j ! i))"
  shows "\<exists>r tx'. txfs_recover tx = Some (r, tx') \<and> unat (txfs_applied_count tx') \<le> k"
proof -
  let ?h = "tx_header tx"
  let ?a = "h_applied_count ?h" and ?c = "h_committed_count ?h"
  have "txfs_crc32 (pre @ p # post') \<noteq> txfs_crc32 (pre @ q # post')" for post'
    using txfs_crc_byte [OF assms(8)] .
  then have bad: "\<not> entry_valid (j_cells j ! k)"
    using assms(5-8) by (auto simp: entry_valid_def take_Cons' split: if_splits)
  obtain m where n: "replay j (tx_journal_size tx) (unat ?a) (unat ?c) = Some m" "m \<le> k - unat ?a"
    using replay_stops [OF bad, of "unat ?a" "unat ?c" "tx_journal_size tx"] assms(2-4,9)
    by (auto simp: txfs_committed_count_def txfs_applied_count_def)
  have a: "unat ?a \<le> k" "unat ?c \<le> 61" "k < unat ?c"
    using assms(2-4) by (simp_all add: txfs_committed_count_def txfs_applied_count_def)
  then have "unat (of_nat m :: u32) = m" using n(2) by simp
  then have "unat (?a + of_nat m) \<le> k" using n(2) a by (simp add: unat_word_ariths)
  moreover have "?c - ?a \<noteq> 0" using a by auto
  ultimately show ?thesis
    using assms(1) n(1)
    by (auto simp: txfs_recover_def Let_def journal_update_checksum_def txfs_applied_count_def)
qed

theorem recovery_stops_at_corruption_witness:
  "\<exists>tx. unat (txfs_committed_count tx) = 1 \<and> unat (txfs_applied_count tx) = 0 \<and>
     (\<exists>r tx'. txfs_recover tx = Some (r, tx') \<and> unat (txfs_applied_count tx') \<le> 0)"
proof -
  let ?e = "zero_entry\<lparr>e_size := 1, e_data_crc := txfs_crc32 [5]\<rparr>"
  let ?j = "\<lparr>j_header = zero_header, j_cells = [?e\<lparr>e_data := [] @ 6 # []\<rparr>], j_writes = []\<rparr>"
  let ?tx = "(snd (txfs_init True None))\<lparr>tx_journal := Some ?j,
    tx_header := zero_header\<lparr>h_committed_count := 1\<rparr>\<rparr>"
  have "entry_valid (?e\<lparr>e_data := [] @ 5 # []\<rparr>)" by (simp add: entry_valid_def)
  from recovery_stops_at_corruption [where tx = ?tx and j = ?j and k = 0 and q = 6, OF _ _ _ _ this]
  have "\<exists>r tx'. txfs_recover ?tx = Some (r, tx') \<and> unat (txfs_applied_count tx') \<le> 0"
    by (simp add: txfs_committed_count_def txfs_applied_count_def zero_header_def)
  moreover have "unat (txfs_committed_count ?tx) = 1" "unat (txfs_applied_count ?tx) = 0"
    by (simp_all add: txfs_committed_count_def txfs_applied_count_def zero_header_def)
  ultimately show ?thesis by blast
qed

end
