(* ===== verification/Vmm.thy ===== *)
theory Vmm
  imports Bit_Array
begin

text \<open>
  The virtual-memory module of the kernel, \<open>kernel/wubu_vmm.c\<close> and the memory map it reads,
  \<open>kernel/wubu_memmap.c\<close>: the bitmap page allocator with reference counts, the four-level
  page tables, demand-zero regions and copy-on-write.

  The global variables are one record. Physical memory is identity mapped in the code: it
  is a function from addresses to 64-bit words, used at multiples of 8. The spinlock and the
  TLB invalidations are not modelled. The linker symbols that bound the kernel image are
  parameters of \<open>wubu_vmm_init\<close>; the E820 table is a parameter too, as the list of the
  entries the boot code stored. A \<open>None\<close> from \<open>wubu_vmm_init\<close> is a write outside the bitmap.
\<close>

section \<open>State\<close>

definition PAGE :: u64 where "PAGE = 4096"
definition WUBU_VMM_PHYS_BASE :: u64 where "WUBU_VMM_PHYS_BASE = 0x01000000"
definition WUBU_VMM_PHYS_END :: u64 where "WUBU_VMM_PHYS_END = 0x08000000"
definition WUBU_VMM_BITMAP_BITS :: nat where "WUBU_VMM_BITMAP_BITS = 28672"
definition PML4_BASE :: u64 where "PML4_BASE = 0x300000"
definition WUBU_VMM_MAX_DEMAND :: nat where "WUBU_VMM_MAX_DEMAND = 4"
definition KERNEL_HALF :: u64 where "KERNEL_HALF = 0xffffffff80000000"

record vmm =
  v_bitmap :: "u8 list"
  v_free :: u64
  v_refs :: "u16 list"
  v_mem :: "u64 \<Rightarrow> u64"
  v_demand :: "(u64 \<times> u32) list"
  v_faults :: u32

section \<open>The bitmap\<close>

definition bm_set :: "nat \<Rightarrow> vmm \<Rightarrow> vmm" where
  "bm_set idx st = st\<lparr>v_bitmap := ba_set (v_bitmap st) idx, v_free := v_free st - 1\<rparr>"

definition bm_clear :: "nat \<Rightarrow> vmm \<Rightarrow> vmm" where
  "bm_clear idx st = st\<lparr>v_bitmap := ba_clr (v_bitmap st) idx, v_free := v_free st + 1\<rparr>"

definition bm_test :: "vmm \<Rightarrow> nat \<Rightarrow> bool" where
  "bm_test st idx \<longleftrightarrow> ba_get (v_bitmap st) idx"

section \<open>Initialisation\<close>

text \<open>An entry of the E820 table: base, length, type. The result is the number of entries
  and the largest usable region.\<close>

record wubu_memmap_info =
  mm_base :: u64
  mm_len :: u64
  mm_found :: bool

definition memmap_entry :: "u64 \<times> u64 \<times> u32 \<Rightarrow> wubu_memmap_info \<Rightarrow> wubu_memmap_info" where
  "memmap_entry e info =
     (case e of (base, len, ty) \<Rightarrow>
        if ty = 1 \<and> len > mm_len info then \<lparr>mm_base = base, mm_len = len, mm_found = True\<rparr>
        else info)"

definition wubu_memmap_init :: "u16 \<Rightarrow> (nat \<Rightarrow> u64 \<times> u64 \<times> u32) \<Rightarrow> nat \<times> wubu_memmap_info" where
  "wubu_memmap_init count table =
     (let info = \<lparr>mm_base = 0, mm_len = 0, mm_found = False\<rparr> in
      if count = 0 \<or> count > 8 then (0, info)
      else (unat count, fold memmap_entry (map table [0..<unat count]) info))"

text \<open>The loop that marks the pages from address \<open>p\<close> below \<open>e\<close>.\<close>

definition page_index :: "u64 \<Rightarrow> nat" where
  "page_index p = unat (ucast ((p - WUBU_VMM_PHYS_BASE) div PAGE) :: u32)"

function mark_range :: "nat \<Rightarrow> nat \<Rightarrow> vmm \<Rightarrow> vmm option" where
  "mark_range p e st =
     (if p < e then
        (let idx = page_index (of_nat p) in
         if idx < WUBU_VMM_BITMAP_BITS then mark_range (p + 4096) e (bm_set idx st) else None)
      else Some st)"
  by pat_completeness auto
termination
  by (relation "measure (\<lambda>(p, e, st). e - p)") auto

declare mark_range.simps [simp del]

definition low_half :: "u64 \<Rightarrow> u64" where
  "low_half a = (if a \<ge> KERNEL_HALF then a - KERNEL_HALF else a)"

definition mark_used :: "u64 \<times> u64 \<Rightarrow> vmm option \<Rightarrow> vmm option" where
  "mark_used r st =
     (let b = (if fst r < WUBU_VMM_PHYS_BASE then WUBU_VMM_PHYS_BASE else fst r);
          e = (if snd r > WUBU_VMM_PHYS_END then WUBU_VMM_PHYS_END else snd r)
      in st \<bind> mark_range (unat b) (unat e))"

definition wubu_vmm_init ::
  "u64 \<Rightarrow> u64 \<Rightarrow> u16 \<Rightarrow> (nat \<Rightarrow> u64 \<times> u64 \<times> u32) \<Rightarrow> vmm \<Rightarrow> vmm option" where
  "wubu_vmm_init kernel_start stack_top count table st =
     (let st0 = st\<lparr>v_bitmap := replicate (WUBU_VMM_BITMAP_BITS div 8) 0,
                   v_refs := replicate WUBU_VMM_BITMAP_BITS 0,
                   v_free := of_nat WUBU_VMM_BITMAP_BITS\<rparr>;
          used = [(low_half kernel_start, low_half stack_top), (0x200000, 0x500000),
                  (0x400000, 0x4400000), (0x90000, 0x99000), (0x70000, 0x78000)];
          mm = wubu_memmap_init count table;
          real_end = mm_base (snd mm) + mm_len (snd mm)
      in do {
        st1 \<leftarrow> fold mark_used used (Some st0);
        if fst mm > 0 \<and> mm_found (snd mm) \<and> real_end < WUBU_VMM_PHYS_END
        then mark_range (unat real_end) (unat WUBU_VMM_PHYS_END) st1
        else Some st1
      })"

section \<open>The page allocator\<close>

text \<open>The first-fit scan, with its local variables \<open>i\<close>, \<open>run\<close> and \<open>start\<close>.\<close>

function scan :: "vmm \<Rightarrow> nat \<Rightarrow> nat \<Rightarrow> nat \<Rightarrow> nat \<Rightarrow> nat option" where
  "scan st n i run start =
     (if i < WUBU_VMM_BITMAP_BITS then
        (if \<not> bm_test st i then
           (let start' = (if run = 0 then i else start) in
            if run + 1 = n then Some start' else scan st n (i + 1) (run + 1) start')
         else scan st n (i + 1) 0 start)
      else None)"
  by pat_completeness auto
termination
  by (relation "measure (\<lambda>(st, n, i, run, start). WUBU_VMM_BITMAP_BITS - i)") (auto simp: Let_def)

declare scan.simps [simp del]

definition take_page :: "nat \<Rightarrow> vmm \<Rightarrow> vmm" where
  "take_page j st = (bm_set j st)\<lparr>v_refs := (v_refs st)[j := 1]\<rparr>"

definition wubu_vmm_alloc_pages :: "u32 \<Rightarrow> vmm \<Rightarrow> u64 \<times> vmm" where
  "wubu_vmm_alloc_pages n st =
     (if n = 0 \<or> n > 64 then (0, st)
      else case scan st (unat n) 0 0 0 of
        None \<Rightarrow> (0, st)
      | Some start \<Rightarrow>
          (WUBU_VMM_PHYS_BASE + of_nat start * PAGE, fold take_page [start..<start + unat n] st))"

text \<open>The pages of a call on \<open>n\<close> pages from \<open>phys\<close>, as indices; 32-bit arithmetic.\<close>

definition page_run :: "u64 \<Rightarrow> u32 \<Rightarrow> nat list" where
  "page_run phys n =
     map (\<lambda>i. unat ((ucast ((phys - WUBU_VMM_PHYS_BASE) div PAGE) :: u32) + of_nat i)) [0..<unat n]"

definition bad_phys :: "u64 \<Rightarrow> bool" where
  "bad_phys phys \<longleftrightarrow> phys < WUBU_VMM_PHYS_BASE \<or> (phys - WUBU_VMM_PHYS_BASE) mod PAGE \<noteq> 0"

definition ref_page :: "nat \<Rightarrow> vmm \<Rightarrow> vmm" where
  "ref_page idx st =
     (if idx < WUBU_VMM_BITMAP_BITS \<and> bm_test st idx \<and> v_refs st ! idx < 0xFFFF
      then st\<lparr>v_refs := (v_refs st)[idx := v_refs st ! idx + 1]\<rparr> else st)"

definition wubu_vmm_ref :: "u64 \<Rightarrow> u32 \<Rightarrow> vmm \<Rightarrow> vmm" where
  "wubu_vmm_ref phys n st = (if bad_phys phys then st else fold ref_page (page_run phys n) st)"

definition wubu_vmm_refcount :: "u64 \<Rightarrow> vmm \<Rightarrow> u16" where
  "wubu_vmm_refcount phys st =
     (if bad_phys phys then 0
      else if page_index phys \<ge> WUBU_VMM_BITMAP_BITS then 0
      else v_refs st ! page_index phys)"

definition free_page :: "nat \<Rightarrow> vmm \<Rightarrow> vmm" where
  "free_page idx st =
     (if idx \<ge> WUBU_VMM_BITMAP_BITS \<or> \<not> bm_test st idx then st
      else (let st1 = (if v_refs st ! idx > 0
                       then st\<lparr>v_refs := (v_refs st)[idx := v_refs st ! idx - 1]\<rparr> else st)
            in if v_refs st1 ! idx = 0 then bm_clear idx st1 else st1))"

definition wubu_vmm_free_pages :: "u64 \<Rightarrow> u32 \<Rightarrow> vmm \<Rightarrow> vmm" where
  "wubu_vmm_free_pages phys n st =
     (if bad_phys phys then st else fold free_page (page_run phys n) st)"

section \<open>Page tables\<close>

definition vmm_phys_of :: "u64 \<Rightarrow> u64" where
  "vmm_phys_of va = (if va \<ge> KERNEL_HALF then va - KERNEL_HALF else va)"

text \<open>The index of an address at a level: shifts 39, 30, 21 and 12.\<close>

definition vidx :: "nat \<Rightarrow> u64 \<Rightarrow> nat" where
  "vidx sh virt = unat ((ucast (drop_bit sh virt) :: u32) AND 0x1FF)"

definition slot_addr :: "u64 \<Rightarrow> nat \<Rightarrow> u64" where
  "slot_addr tab i = tab + 8 * of_nat i"

definition present :: "u64 \<Rightarrow> bool" where
  "present e \<longleftrightarrow> e AND 1 \<noteq> 0"

definition next_table :: "u64 \<Rightarrow> u64" where
  "next_table e = vmm_phys_of (e AND NOT 0xFFF)"

definition zero_page :: "u64 \<Rightarrow> vmm \<Rightarrow> vmm" where
  "zero_page tab st =
     st\<lparr>v_mem := fold (\<lambda>i m. m(slot_addr tab i := 0)) [0..<512] (v_mem st)\<rparr>"

text \<open>One level of \<open>wubu_vmm_map_page\<close>: the table below slot \<open>i\<close> of \<open>tab\<close>, made if absent.\<close>

definition descend :: "u64 \<Rightarrow> nat \<Rightarrow> vmm \<Rightarrow> u64 option \<times> vmm" where
  "descend tab i st =
     (let e = v_mem st (slot_addr tab i) in
      if present e then (Some (next_table e), st)
      else (case wubu_vmm_alloc_pages 1 st of (new, st1) \<Rightarrow>
              if new = 0 then (None, st1)
              else (let st2 = zero_page new st1
                    in (Some new, st2\<lparr>v_mem := (v_mem st2)(slot_addr tab i := new OR 3)\<rparr>))))"

definition wubu_vmm_map_page :: "u64 \<Rightarrow> u64 \<Rightarrow> u32 \<Rightarrow> vmm \<Rightarrow> int \<times> vmm" where
  "wubu_vmm_map_page virt phys flags st =
     (case descend PML4_BASE (vidx 39 virt) st of
        (None, st1) \<Rightarrow> (-1, st1)
      | (Some pdp, st1) \<Rightarrow>
     (case descend pdp (vidx 30 virt) st1 of
        (None, st2) \<Rightarrow> (-1, st2)
      | (Some pd, st2) \<Rightarrow>
     (case descend pd (vidx 21 virt) st2 of
        (None, st3) \<Rightarrow> (-1, st3)
      | (Some pt, st3) \<Rightarrow>
          (0, st3\<lparr>v_mem := (v_mem st3)(slot_addr pt (vidx 12 virt) :=
                   phys OR (ucast flags AND 0xFFF))\<rparr>))))"

text \<open>The read-only walk that \<open>unmap\<close> and \<open>cow_fault\<close> share: the last-level table.\<close>

definition walk_tables :: "vmm \<Rightarrow> u64 \<Rightarrow> u64 option" where
  "walk_tables st virt =
     (let e4 = v_mem st (slot_addr PML4_BASE (vidx 39 virt));
          pdp = next_table e4;
          e3 = v_mem st (slot_addr pdp (vidx 30 virt)) in
      if \<not> present e4 \<or> \<not> present e3 then None
      else (let pd = next_table e3; e2 = v_mem st (slot_addr pd (vidx 21 virt)) in
            if \<not> present e2 then None else Some (next_table e2)))"

definition wubu_vmm_unmap :: "u64 \<Rightarrow> vmm \<Rightarrow> int \<times> vmm" where
  "wubu_vmm_unmap virt st =
     (case walk_tables st virt of
        None \<Rightarrow> (-1, st)
      | Some pt \<Rightarrow> (0, st\<lparr>v_mem := (v_mem st)(slot_addr pt (vidx 12 virt) := 0)\<rparr>))"

section \<open>Demand-zero regions\<close>

definition wubu_vmm_register_demand :: "u64 \<Rightarrow> u32 \<Rightarrow> vmm \<Rightarrow> u64 \<times> vmm" where
  "wubu_vmm_register_demand base pages st =
     (if length (v_demand st) \<ge> WUBU_VMM_MAX_DEMAND then (0, st)
      else (base, st\<lparr>v_demand := v_demand st @ [(base, pages)]\<rparr>))"

definition wubu_vmm_is_demand :: "u64 \<Rightarrow> vmm \<Rightarrow> bool" where
  "wubu_vmm_is_demand va st =
     list_ex (\<lambda>(base, pages). va \<ge> base \<and> va < base + ucast pages * PAGE) (v_demand st)"

definition wubu_vmm_demand_fill :: "u64 \<Rightarrow> vmm \<Rightarrow> int \<times> vmm" where
  "wubu_vmm_demand_fill va st =
     (if \<not> wubu_vmm_is_demand va st then (-1, st)
      else (case wubu_vmm_alloc_pages 1 st of (phys, st1) \<Rightarrow>
        if phys = 0 then (-1, st1)
        else (case wubu_vmm_map_page (va AND NOT (PAGE - 1)) phys 3 (zero_page phys st1) of
          (rc, st2) \<Rightarrow>
            if rc \<noteq> 0 then (-1, wubu_vmm_free_pages phys 1 st2)
            else (0, st2\<lparr>v_faults := v_faults st2 + 1\<rparr>))))"

definition wubu_vmm_free_count :: "vmm \<Rightarrow> u64" where "wubu_vmm_free_count st = v_free st"
definition wubu_vmm_demand_count :: "vmm \<Rightarrow> nat" where "wubu_vmm_demand_count st = length (v_demand st)"
definition wubu_vmm_demand_faults :: "vmm \<Rightarrow> u32" where "wubu_vmm_demand_faults st = v_faults st"

section \<open>Copy on write\<close>

definition wubu_vmm_map_shared :: "u64 \<Rightarrow> u64 \<Rightarrow> vmm \<Rightarrow> int \<times> vmm" where
  "wubu_vmm_map_shared virt phys st = wubu_vmm_map_page virt phys 1 (wubu_vmm_ref phys 1 st)"

definition copy_page :: "u64 \<Rightarrow> u64 \<Rightarrow> vmm \<Rightarrow> vmm" where
  "copy_page src dst st =
     st\<lparr>v_mem := fold (\<lambda>i m. m(slot_addr dst i := m (slot_addr src i))) [0..<512] (v_mem st)\<rparr>"

definition set_pte :: "u64 \<Rightarrow> nat \<Rightarrow> u64 \<Rightarrow> vmm \<Rightarrow> vmm" where
  "set_pte pt i e st = st\<lparr>v_mem := (v_mem st)(slot_addr pt i := e)\<rparr>"

definition wubu_vmm_cow_fault :: "u64 \<Rightarrow> vmm \<Rightarrow> int \<times> vmm" where
  "wubu_vmm_cow_fault va st =
     (let page_base = va AND NOT (PAGE - 1) in
      case walk_tables st page_base of
        None \<Rightarrow> (0, st)
      | Some pt \<Rightarrow>
          (let i1 = vidx 12 page_base; pte = v_mem st (slot_addr pt i1) in
           if \<not> present pte then (0, st)
           else if pte AND 2 \<noteq> 0 then (0, st)
           else (let phys = pte AND NOT 0xFFF in
             if wubu_vmm_refcount phys st \<le> 1 then (1, set_pte pt i1 (pte OR 2) st)
             else (case wubu_vmm_alloc_pages 1 st of (copy, st1) \<Rightarrow>
               if copy = 0 then (0, st1)
               else (1, set_pte pt i1 ((copy AND NOT 0xFFF) OR 3)
                          (wubu_vmm_free_pages phys 1 (copy_page phys copy st1)))))))"

end
