(* ===== verification/Vmm_Facts.thy ===== *)
theory Vmm_Facts
  imports Vmm
begin

text \<open>
  The page allocator: the bitmap operations, the first-fit scan, allocation, and reference
  counted release.
\<close>

section \<open>The bitmap\<close>

lemmas vmm_consts = PAGE_def WUBU_VMM_PHYS_BASE_def WUBU_VMM_PHYS_END_def WUBU_VMM_BITMAP_BITS_def
  PML4_BASE_def KERNEL_HALF_def

text \<open>The shape of the state, and: a page with references is in use.\<close>

definition vm_ok :: "vmm \<Rightarrow> bool" where
  "vm_ok st \<longleftrightarrow> length (v_bitmap st) = 3584 \<and> length (v_refs st) = 28672 \<and>
     (\<forall>i < 28672. 0 < v_refs st ! i \<longrightarrow> bm_test st i)"

lemma bm_fields [simp]:
  "v_refs (bm_set i st) = v_refs st" "v_mem (bm_set i st) = v_mem st"
  "v_demand (bm_set i st) = v_demand st" "v_free (bm_set i st) = v_free st - 1"
  "v_refs (bm_clear i st) = v_refs st" "v_mem (bm_clear i st) = v_mem st"
  "v_demand (bm_clear i st) = v_demand st" "v_free (bm_clear i st) = v_free st + 1"
  "length (v_bitmap (bm_set i st)) = length (v_bitmap st)"
  "length (v_bitmap (bm_clear i st)) = length (v_bitmap st)"
  by (simp_all add: bm_set_def bm_clear_def)

lemma bm_test_set:
  "length (v_bitmap st) = 3584 \<Longrightarrow> i < 28672 \<Longrightarrow> bm_test (bm_set i st) j \<longleftrightarrow> j = i \<or> bm_test st j"
  by (simp add: bm_test_def bm_set_def ba_get_set)

lemma bm_test_clear:
  "length (v_bitmap st) = 3584 \<Longrightarrow> i < 28672 \<Longrightarrow> bm_test (bm_clear i st) j \<longleftrightarrow> j \<noteq> i \<and> bm_test st j"
  by (simp add: bm_test_def bm_clear_def ba_get_clr)

lemma bm_test_field [simp]:
  "bm_test (st\<lparr>v_refs := r\<rparr>) = bm_test st" "bm_test (st\<lparr>v_mem := m\<rparr>) = bm_test st"
  "bm_test (st\<lparr>v_faults := f\<rparr>) = bm_test st" "bm_test (st\<lparr>v_demand := d\<rparr>) = bm_test st"
  by (simp_all add: bm_test_def fun_eq_iff)

section \<open>The scan\<close>

definition all_free :: "vmm \<Rightarrow> nat \<Rightarrow> nat \<Rightarrow> bool" where
  "all_free st s n \<longleftrightarrow> (\<forall>j. s \<le> j \<and> j < s + n \<longrightarrow> \<not> bm_test st j)"

text \<open>What the loop knows at \<open>i\<close>: the last \<open>run\<close> pages are free, and no window that starts
  before them is.\<close>

definition scanned :: "vmm \<Rightarrow> nat \<Rightarrow> nat \<Rightarrow> nat \<Rightarrow> nat \<Rightarrow> bool" where
  "scanned st n i run start \<longleftrightarrow> run < n \<and> run \<le> i \<and> (run = 0 \<or> start = i - run) \<and>
     (\<forall>j. i - run \<le> j \<and> j < i \<longrightarrow> \<not> bm_test st j) \<and> (\<forall>s < i - run. \<not> all_free st s n)"

lemma scanned_used:
  assumes "scanned st n i run start" and "bm_test st i"
  shows "scanned st n (i + 1) 0 start"
proof -
  have "\<not> all_free st s n" if "s < i + 1" for s
  proof (cases "s < i - run")
    case True
    with assms(1) show ?thesis by (simp add: scanned_def)
  next
    case False
    then have "s \<le> i \<and> i < s + n" using that assms(1) by (simp add: scanned_def) linarith
    with assms(2) show ?thesis by (auto simp: all_free_def)
  qed
  with assms(1) show ?thesis by (simp add: scanned_def)
qed

lemma scanned_free:
  assumes "scanned st n i run start" and "\<not> bm_test st i" and "run + 1 < n"
  shows "scanned st n (i + 1) (run + 1) (if run = 0 then i else start)"
  using assms by (auto simp: scanned_def less_Suc_eq)

lemma scan_rule:
  assumes "scanned st n i run start" and "i \<le> WUBU_VMM_BITMAP_BITS"
  shows "case scan st n i run start of
      None \<Rightarrow> \<forall>s. s + n \<le> WUBU_VMM_BITMAP_BITS \<longrightarrow> \<not> all_free st s n
    | Some s \<Rightarrow> s + n \<le> WUBU_VMM_BITMAP_BITS \<and> all_free st s n \<and> (\<forall>s' < s. \<not> all_free st s' n)"
  using assms
proof (induction st n i run start rule: scan.induct)
  case (1 st n i run start)
  have "run < n" using "1.prems"(1) by (simp add: scanned_def)
  then consider "i = WUBU_VMM_BITMAP_BITS" | "i < WUBU_VMM_BITMAP_BITS" "bm_test st i"
    | "i < WUBU_VMM_BITMAP_BITS" "\<not> bm_test st i" "run + 1 = n"
    | "i < WUBU_VMM_BITMAP_BITS" "\<not> bm_test st i" "run + 1 < n"
    using "1.prems"(2) by (metis Suc_eq_plus1 Suc_lessI le_neq_implies_less)
  then show ?case
  proof cases
    case 1
    have "\<not> all_free st s n" if "s + n \<le> i" for s
    proof -
      have "s < i - run" using that \<open>scanned st n i run start\<close> by (auto simp: scanned_def)
      then show ?thesis using \<open>scanned st n i run start\<close> by (simp add: scanned_def)
    qed
    with 1 show ?thesis by (simp add: scan.simps)
  next
    case 2
    with "1.IH"(2) [OF 2(1)] scanned_used [OF "1.prems"(1) 2(2)] show ?thesis
      by (simp add: scan.simps [of st n i])
  next
    case 3
    have s: "(if run = 0 then i else start) = i - run" using "1.prems"(1) by (auto simp: scanned_def)
    have "all_free st (i - run) n"
      unfolding all_free_def
    proof (intro allI impI)
      fix j
      assume "i - run \<le> j \<and> j < i - run + n"
      then have "i - run \<le> j" "j < i \<or> j = i" using 3(3) "1.prems"(1) by (auto simp: scanned_def)
      then show "\<not> bm_test st j" using 3(2) "1.prems"(1) by (auto simp: scanned_def)
    qed
    moreover have "i - run + n \<le> WUBU_VMM_BITMAP_BITS" using 3 "1.prems"(1) by (simp add: scanned_def)
    ultimately show ?thesis
      using 3 s "1.prems"(1) by (simp add: scan.simps [of st n i] scanned_def)
  next
    case 4
    with "1.IH"(1) [OF 4(1,2) refl] scanned_free [OF "1.prems"(1) 4(2,3)] show ?thesis
      by (simp add: scan.simps [of st n i])
  qed
qed

section \<open>Allocation\<close>

lemma take_pages_rule:
  assumes "length (v_bitmap st) = 3584" and "length (v_refs st) = 28672" and "\<forall>j \<in> set js. j < 28672"
  shows "length (v_bitmap (fold take_page js st)) = 3584 \<and> length (v_refs (fold take_page js st)) = 28672 \<and>
    (\<forall>i. bm_test (fold take_page js st) i \<longleftrightarrow> i \<in> set js \<or> bm_test st i) \<and>
    (\<forall>i < 28672. v_refs (fold take_page js st) ! i = (if i \<in> set js then 1 else v_refs st ! i)) \<and>
    v_free (fold take_page js st) = v_free st - of_nat (length js) \<and>
    v_mem (fold take_page js st) = v_mem st \<and> v_demand (fold take_page js st) = v_demand st"
  using assms
proof (induction js arbitrary: st)
  case (Cons j js)
  let ?st = "take_page j st"
  have "length (v_bitmap ?st) = 3584" "length (v_refs ?st) = 28672"
    "\<And>i. bm_test ?st i \<longleftrightarrow> i = j \<or> bm_test st i"
    "\<And>i. i < 28672 \<Longrightarrow> v_refs ?st ! i = (if i = j then 1 else v_refs st ! i)"
    "v_free ?st = v_free st - 1" "v_mem ?st = v_mem st" "v_demand ?st = v_demand st"
    using Cons.prems by (auto simp: take_page_def bm_test_set nth_list_update)
  with Cons.IH [of ?st] Cons.prems(3) show ?case by (auto simp: algebra_simps)
qed simp

definition page_addr :: "nat \<Rightarrow> u64" where
  "page_addr i = WUBU_VMM_PHYS_BASE + of_nat i * PAGE"

lemma page_addr_unat: "i < 28672 \<Longrightarrow> unat (page_addr i) = 16777216 + i * 4096"
  by (simp add: page_addr_def vmm_consts unat_word_ariths unat_of_nat)

lemma page_addr_nonzero: "i < 28672 \<Longrightarrow> page_addr i \<noteq> 0"
  using page_addr_unat [of i] by auto

lemma alloc_rule:
  assumes ok: "vm_ok st" and n: "0 < n" "n \<le> 64" and alloc: "wubu_vmm_alloc_pages n st = (p, st')"
  shows "p = 0 \<Longrightarrow> st' = st \<and> (\<forall>s. s + unat n \<le> 28672 \<longrightarrow> \<not> all_free st s (unat n))"
    and "p \<noteq> 0 \<Longrightarrow> \<exists>s. p = page_addr s \<and> s + unat n \<le> 28672 \<and> all_free st s (unat n) \<and>
       (\<forall>s' < s. \<not> all_free st s' (unat n)) \<and> st' = fold take_page [s..<s + unat n] st"
proof -
  have n': "\<not> (n = 0 \<or> n > 64)" "0 < unat n" using n by (auto simp: unat_gt_0)
  have "scanned st (unat n) 0 0 0" using n'(2) by (simp add: scanned_def)
  note rule = scan_rule [OF this, unfolded WUBU_VMM_BITMAP_BITS_def, simplified]
  show "st' = st \<and> (\<forall>s. s + unat n \<le> 28672 \<longrightarrow> \<not> all_free st s (unat n))" if "p = 0"
  proof (cases "scan st (unat n) 0 0 0")
    case None
    with rule alloc n' show ?thesis by (simp add: wubu_vmm_alloc_pages_def)
  next
    case (Some s)
    with rule n'(2) have "s < 28672" by simp
    from page_addr_nonzero [OF this] Some that alloc n' show ?thesis
      by (simp add: wubu_vmm_alloc_pages_def page_addr_def)
  qed
  show "\<exists>s. p = page_addr s \<and> s + unat n \<le> 28672 \<and> all_free st s (unat n) \<and>
       (\<forall>s' < s. \<not> all_free st s' (unat n)) \<and> st' = fold take_page [s..<s + unat n] st" if "p \<noteq> 0"
  proof (cases "scan st (unat n) 0 0 0")
    case None
    with that alloc n' show ?thesis by (simp add: wubu_vmm_alloc_pages_def)
  next
    case (Some s)
    with rule alloc n' show ?thesis by (intro exI [of _ s]) (simp add: wubu_vmm_alloc_pages_def page_addr_def)
  qed
qed

lemma vm_ok_take:
  "vm_ok st \<Longrightarrow> \<forall>j \<in> set js. j < 28672 \<Longrightarrow> vm_ok (fold take_page js st)"
  using take_pages_rule [of st js] by (auto simp: vm_ok_def split: if_splits)

lemma vm_ok_alloc: "vm_ok st \<Longrightarrow> wubu_vmm_alloc_pages n st = (p, st') \<Longrightarrow> vm_ok st'"
proof -
  assume ok: "vm_ok st" and alloc: "wubu_vmm_alloc_pages n st = (p, st')"
  show "vm_ok st'"
  proof (cases "0 < n \<and> n \<le> 64")
    case True
    then show ?thesis
      using alloc_rule [OF ok _ _ alloc] vm_ok_take [OF ok] ok by (cases "p = 0") fastforce+
  next
    case False
    then have "st' = st" using alloc by (auto simp: wubu_vmm_alloc_pages_def not_le word_neq_0_conv [symmetric])
    with ok show ?thesis by simp
  qed
qed

section \<open>Reference counts\<close>

lemma page_index_addr: "i < 28672 \<Longrightarrow> page_index (page_addr i) = i"
proof -
  assume i: "i < 28672"
  have "page_addr i - WUBU_VMM_PHYS_BASE = of_nat (i * 4096)"
    by (simp add: page_addr_def PAGE_def)
  moreover have "(of_nat (i * 4096) :: u64) div PAGE = of_nat i"
    using i by (simp add: word_unat_eq_iff unat_div PAGE_def unat_word_ariths unat_of_nat)
  ultimately show ?thesis using i by (simp add: page_index_def unsigned_ucast_eq unsigned_of_nat take_bit_nat_eq_self)
qed

lemma page_addr_good: "i < 28672 \<Longrightarrow> \<not> bad_phys (page_addr i)"
proof -
  assume i: "i < 28672"
  have "page_addr i - WUBU_VMM_PHYS_BASE = of_nat (i * 4096)"
    by (simp add: page_addr_def PAGE_def)
  then have "(page_addr i - WUBU_VMM_PHYS_BASE) mod PAGE = 0"
    using i by (simp add: word_unat_eq_iff unat_mod PAGE_def unat_word_ariths unat_of_nat)
  then show ?thesis
    using page_addr_unat [OF i] by (simp add: bad_phys_def word_less_nat_alt WUBU_VMM_PHYS_BASE_def)
qed

lemma page_run_one: "i < 28672 \<Longrightarrow> page_run (page_addr i) 1 = [i]"
  using page_index_addr [of i] by (simp add: page_run_def page_index_def)

lemma single_page:
  assumes "i < 28672"
  shows "wubu_vmm_ref (page_addr i) 1 st = ref_page i st"
    and "wubu_vmm_free_pages (page_addr i) 1 st = free_page i st"
    and "wubu_vmm_refcount (page_addr i) st = v_refs st ! i"
  using assms page_addr_good [OF assms] page_run_one [OF assms] page_index_addr [OF assms]
  by (simp_all add: wubu_vmm_ref_def wubu_vmm_free_pages_def wubu_vmm_refcount_def WUBU_VMM_BITMAP_BITS_def)

lemma ref_page_rule:
  assumes "vm_ok st" and "i < 28672" and "bm_test st i" and "v_refs st ! i < 0xFFFF"
  shows "vm_ok (ref_page i st)" and "bm_test (ref_page i st) = bm_test st"
    and "v_refs (ref_page i st) = (v_refs st)[i := v_refs st ! i + 1]"
    and "v_mem (ref_page i st) = v_mem st" and "v_free (ref_page i st) = v_free st"
  using assms by (auto simp: ref_page_def vm_ok_def WUBU_VMM_BITMAP_BITS_def nth_list_update)

lemma free_page_shared:
  assumes "vm_ok st" and "i < 28672" and "1 < v_refs st ! i"
  shows "vm_ok (free_page i st)" and "bm_test (free_page i st) = bm_test st"
    and "v_refs (free_page i st) = (v_refs st)[i := v_refs st ! i - 1]"
    and "v_mem (free_page i st) = v_mem st" and "v_free (free_page i st) = v_free st"
proof -
  have r: "0 < v_refs st ! i" "v_refs st ! i - 1 \<noteq> 0" "bm_test st i"
    using assms by (auto simp: vm_ok_def word_greater_zero_iff order.strict_trans [of 0 1])
  have eq: "free_page i st = st\<lparr>v_refs := (v_refs st)[i := v_refs st ! i - 1]\<rparr>"
    using assms(1,2) r by (simp add: free_page_def Let_def vm_ok_def WUBU_VMM_BITMAP_BITS_def)
  then show "vm_ok (free_page i st)"
    using assms r by (auto simp: vm_ok_def nth_list_update)
  show "bm_test (free_page i st) = bm_test st"
    and "v_refs (free_page i st) = (v_refs st)[i := v_refs st ! i - 1]"
    and "v_mem (free_page i st) = v_mem st" and "v_free (free_page i st) = v_free st"
    by (simp_all add: eq)
qed

lemma free_page_last:
  assumes "vm_ok st" and "i < 28672" and "v_refs st ! i = 1"
  shows "vm_ok (free_page i st)" and "bm_test (free_page i st) j \<longleftrightarrow> j \<noteq> i \<and> bm_test st j"
    and "v_refs (free_page i st) = (v_refs st)[i := 0]"
    and "v_mem (free_page i st) = v_mem st" and "v_free (free_page i st) = v_free st + 1"
proof -
  have r: "bm_test st i" using assms by (simp add: vm_ok_def)
  have len: "length (v_bitmap st) = 3584" "length (v_refs st) = 28672" using assms(1) by (simp_all add: vm_ok_def)
  have eq: "free_page i st = bm_clear i (st\<lparr>v_refs := (v_refs st)[i := 0]\<rparr>)"
    using assms r len by (simp add: free_page_def Let_def WUBU_VMM_BITMAP_BITS_def)
  have test: "bm_test (free_page i st) k \<longleftrightarrow> k \<noteq> i \<and> bm_test st k" for k
    using assms(2) len by (simp add: eq bm_test_clear)
  then show "bm_test (free_page i st) j \<longleftrightarrow> j \<noteq> i \<and> bm_test st j" .
  show "v_refs (free_page i st) = (v_refs st)[i := 0]"
    and "v_mem (free_page i st) = v_mem st" and "v_free (free_page i st) = v_free st + 1"
    by (simp_all add: eq)
  then show "vm_ok (free_page i st)"
    using assms(1,2) test len by (auto simp: vm_ok_def nth_list_update eq)
qed

lemma refs_many:
  assumes "vm_ok st" and "i < 28672" and "bm_test st i" and "unat (v_refs st ! i) + k \<le> 0xFFFF"
  shows "vm_ok ((ref_page i ^^ k) st) \<and> bm_test ((ref_page i ^^ k) st) = bm_test st \<and>
    unat (v_refs ((ref_page i ^^ k) st) ! i) = unat (v_refs st ! i) + k"
  using assms(4)
proof (induction k)
  case (Suc k)
  let ?st = "(ref_page i ^^ k) st"
  have IH: "vm_ok ?st" "bm_test ?st = bm_test st" "unat (v_refs ?st ! i) = unat (v_refs st ! i) + k"
    using Suc by auto
  have lt: "v_refs ?st ! i < 0xFFFF" using IH(3) Suc.prems by (simp add: word_less_nat_alt)
  have "length (v_refs ?st) = 28672" using IH(1) by (simp add: vm_ok_def)
  with ref_page_rule [OF IH(1) assms(2) _ lt] assms(2,3) IH Suc.prems show ?case
    by (simp add: unat_word_ariths)
qed (use assms in simp)

lemma frees_many:
  assumes "vm_ok st" and "i < 28672" and "m < unat (v_refs st ! i)"
  shows "vm_ok ((free_page i ^^ m) st) \<and> bm_test ((free_page i ^^ m) st) = bm_test st \<and>
    unat (v_refs ((free_page i ^^ m) st) ! i) = unat (v_refs st ! i) - m"
  using assms(3)
proof (induction m)
  case (Suc m)
  let ?st = "(free_page i ^^ m) st"
  have IH: "vm_ok ?st" "bm_test ?st = bm_test st" "unat (v_refs ?st ! i) = unat (v_refs st ! i) - m"
    using Suc by auto
  have lt: "1 < v_refs ?st ! i" using IH(3) Suc.prems by (simp add: word_less_nat_alt)
  have len: "length (v_refs ?st) = 28672" using IH(1) by (simp add: vm_ok_def)
  have "unat (v_refs ?st ! i - 1) = unat (v_refs ?st ! i) - 1"
    using lt by (subst unat_sub) (simp_all add: order.strict_implies_order)
  with free_page_shared [OF IH(1) assms(2) lt] IH len assms(2) show ?case by simp
qed (use assms in simp)

section \<open>Properties\<close>

text \<open>Page allocation. For 1 to 64 pages the allocator either returns 0, changes nothing and
  there is no run of that many free pages; or it returns the address of the first such run:
  its pages lie in the managed range and were free, they are now in use with one
  reference each, the free count drops by their number, no other page changes, and no
  memory is written.\<close>

lemma alloc_returns_fresh_pages:
  assumes "vm_ok st" and "0 < n" and "n \<le> 64" and "wubu_vmm_alloc_pages n st = (p, st')"
  shows "if p = 0 then st' = st \<and> (\<forall>s. s + unat n \<le> WUBU_VMM_BITMAP_BITS \<longrightarrow>
        (\<exists>j. s \<le> j \<and> j < s + unat n \<and> bm_test st j))
    else \<exists>s. p = WUBU_VMM_PHYS_BASE + of_nat s * PAGE \<and> s + unat n \<le> WUBU_VMM_BITMAP_BITS \<and>
      (\<forall>j. s \<le> j \<and> j < s + unat n \<longrightarrow> \<not> bm_test st j) \<and>
      (\<forall>s' < s. \<exists>j. s' \<le> j \<and> j < s' + unat n \<and> bm_test st j) \<and>
      (\<forall>j. bm_test st' j \<longleftrightarrow> (s \<le> j \<and> j < s + unat n) \<or> bm_test st j) \<and>
      (\<forall>j < WUBU_VMM_BITMAP_BITS. v_refs st' ! j = (if s \<le> j \<and> j < s + unat n then 1 else v_refs st ! j)) \<and>
      wubu_vmm_free_count st' = wubu_vmm_free_count st - of_nat (unat n) \<and> v_mem st' = v_mem st"
proof (cases "p = 0")
  case True
  with alloc_rule(1) [OF assms] show ?thesis by (auto simp: all_free_def WUBU_VMM_BITMAP_BITS_def)
next
  case False
  from alloc_rule(2) [OF assms False] obtain s where s: "p = page_addr s" "s + unat n \<le> 28672"
    "all_free st s (unat n)" "\<forall>s' < s. \<not> all_free st s' (unat n)"
    "st' = fold take_page [s..<s + unat n] st" by blast
  have "length (v_bitmap st) = 3584" "length (v_refs st) = 28672" using assms(1) by (auto simp: vm_ok_def)
  note take = take_pages_rule [OF this, of "[s..<s + unat n]", folded s(5)]
  have "\<forall>j \<in> set [s..<s + unat n]. j < 28672" using s(2) by simp
  note take' = take [OF this]
  show ?thesis
    using False s take'
    by (simp add: page_addr_def WUBU_VMM_BITMAP_BITS_def all_free_def wubu_vmm_free_count_def)
      (intro exI [of _ s], auto)
qed

text \<open>A machine with every page free, for the examples.\<close>

definition blank_vmm :: vmm where
  "blank_vmm = \<lparr>v_bitmap = replicate 3584 0, v_free = 28672, v_refs = replicate 28672 0,
     v_mem = (\<lambda>_. 0), v_demand = [], v_faults = 0\<rparr>"

lemma blank_ok: "vm_ok blank_vmm" and blank_free: "i < 28672 \<Longrightarrow> \<not> bm_test blank_vmm i"
  by (simp_all add: vm_ok_def blank_vmm_def bm_test_def)

lemma blank_alloc: "fst (wubu_vmm_alloc_pages 1 blank_vmm) = page_addr 0"
  using blank_free [of 0]
  by (simp add: wubu_vmm_alloc_pages_def scan.simps WUBU_VMM_BITMAP_BITS_def page_addr_def)

text \<open>C16: reference counting. A freshly allocated page that is referenced \<open>k\<close> more times, \<open>k\<close> less than 65535, has
  count \<open>k + 1\<close>; it stays in use through the first \<open>k\<close> releases, each of which lowers the
  count by one, and the release after them frees it.\<close>

theorem page_lives_until_last_release:
  assumes "vm_ok st" and "wubu_vmm_alloc_pages 1 st = (p, st1)" and "p \<noteq> 0" and "k < 0xFFFF" and "m \<le> k"
  defines "shared \<equiv> (wubu_vmm_ref p 1 ^^ k) st1"
  shows "unat (wubu_vmm_refcount p ((wubu_vmm_free_pages p 1 ^^ m) shared)) = k + 1 - m \<and>
    bm_test ((wubu_vmm_free_pages p 1 ^^ m) shared) (page_index p) \<and>
    \<not> bm_test ((wubu_vmm_free_pages p 1 ^^ (k + 1)) shared) (page_index p)"
proof -
  obtain i where i: "p = page_addr i" "i < 28672" "st1 = fold take_page [i..<i + 1] st"
    using alloc_rule(2) [OF assms(1) _ _ assms(2,3)] by auto
  have fns: "wubu_vmm_ref p 1 = ref_page i" "wubu_vmm_free_pages p 1 = free_page i"
    by (intro ext, simp add: i(1) single_page [OF i(2)])+
  have cnt: "unat (wubu_vmm_refcount p s) = unat (v_refs s ! i)" for s by (simp add: i(1) single_page [OF i(2)])
  have ok1: "vm_ok st1" by (rule vm_ok_alloc [OF assms(1,2)])
  have one: "v_refs st1 ! i = 1" "bm_test st1 i"
    using take_pages_rule [of st "[i..<i + 1]"] assms(1) i by (auto simp: vm_ok_def)
  have "vm_ok shared \<and> bm_test shared i \<and> unat (v_refs shared ! i) = k + 1"
    using refs_many [OF ok1 i(2) one(2), of k] one assms(4) by (simp add: shared_def fns)
  then have sh: "vm_ok shared" "bm_test shared i" "unat (v_refs shared ! i) = k + 1" by auto
  have part: "vm_ok ((free_page i ^^ j) shared) \<and> bm_test ((free_page i ^^ j) shared) i \<and>
      unat (v_refs ((free_page i ^^ j) shared) ! i) = k + 1 - j" if "j \<le> k" for j
    using frees_many [OF sh(1) i(2), of j] sh that by simp
  have last: "v_refs ((free_page i ^^ k) shared) ! i = 1"
    using part [of k] by (simp add: word_unat_eq_iff)
  have "\<not> bm_test (free_page i ((free_page i ^^ k) shared)) i"
    using free_page_last(2) [OF _ i(2) last] part [of k] by simp
  moreover have pi: "page_index p = i" using page_index_addr [OF i(2)] by (simp add: i(1))
  ultimately show ?thesis
    unfolding fns cnt pi using part [OF assms(5)] by simp
qed

theorem page_lives_until_last_release_witness:
  "\<exists>p st1. wubu_vmm_alloc_pages 1 blank_vmm = (p, st1) \<and>
     unat (wubu_vmm_refcount p ((wubu_vmm_free_pages p 1 ^^ 1) ((wubu_vmm_ref p 1 ^^ 2) st1))) = 2 \<and>
     \<not> bm_test ((wubu_vmm_free_pages p 1 ^^ 3) ((wubu_vmm_ref p 1 ^^ 2) st1)) (page_index p)"
proof -
  obtain p st1 where al: "wubu_vmm_alloc_pages 1 blank_vmm = (p, st1)" by (rule prod.exhaust)
  then have "p \<noteq> 0" using blank_alloc page_addr_nonzero [of 0] by simp
  from page_lives_until_last_release [OF blank_ok al this, of 2 1] al show ?thesis
    by (intro exI [of _ p] exI [of _ st1]) simp
qed

end
