(* ===== verification/Vmm_Tables.thy ===== *)
theory Vmm_Tables
  imports Vmm_Facts
begin

text \<open>
  The page tables: the tree of tables that hangs off \<open>PML4_BASE\<close>, its invariant (no
  table is reached by two paths, and every table in the managed range is in use), and what a
  descent, a write to a last-level slot and a page copy do to the translations. An upper entry
  with the page-size bit is a large page, a leaf of the tree, as the processor reads it; the
  boot code (\<open>crt0.S\<close>) maps the first gigabyte that way. The walks of \<open>wubu_vmm.c\<close> do not
  look at that bit, so their rules speak about addresses that are under no large page.
\<close>

section \<open>Addresses\<close>

definition aligned :: "u64 \<Rightarrow> bool" where
  "aligned a \<longleftrightarrow> unat a mod 4096 = 0"

lemma alignedE: "aligned a \<Longrightarrow> (\<And>k. unat a = 4096 * k \<Longrightarrow> P) \<Longrightarrow> P"
  by (auto simp: aligned_def elim!: dvdE)

lemma alignedI: "unat a = 4096 * k \<Longrightarrow> aligned a"
  by (simp add: aligned_def)

lemma aligned_bound: "aligned a \<Longrightarrow> unat a + 4096 \<le> 18446744073709551616"
proof -
  assume "aligned a"
  then obtain k where k: "unat a = 4096 * k" by (rule alignedE)
  moreover have "unat a < 18446744073709551616" by simp
  ultimately have "k < 4503599627370496" by simp
  then show ?thesis using k by simp
qed

lemma slot_addr_unat: "aligned a \<Longrightarrow> i < 512 \<Longrightarrow> unat (slot_addr a i) = unat a + 8 * i"
  using aligned_bound [of a] by (simp add: slot_addr_def unat_word_ariths unat_of_nat)

lemma slot_addr_inj:
  assumes "aligned a" "aligned b" "i < 512" "j < 512" and "slot_addr a i = slot_addr b j"
  shows "a = b" and "i = j"
proof -
  obtain k where k1: "unat a = 4096 * k" using assms(1) by (rule alignedE)
  obtain l where k2: "unat b = 4096 * l" using assms(2) by (rule alignedE)
  note k = k1 k2
  have "4096 * k + 8 * i = 4096 * l + 8 * j"
    using arg_cong [OF assms(5), of unat] slot_addr_unat assms(1-4) k by simp
  then have eq: "512 * k + i = 512 * l + j" by linarith
  have "k = l" using arg_cong [OF eq, of "\<lambda>n. n div 512"] assms(3,4) by simp
  moreover from this have "i = j" using eq by simp
  ultimately show "a = b" and "i = j" using k by (simp_all add: word_unat_eq_iff)
qed

lemma aligned_page_addr: "i < 28672 \<Longrightarrow> aligned (page_addr i)"
  by (rule alignedI [of _ "4096 + i"]) (simp add: page_addr_unat)

lemma page_addr_inj: "i < 28672 \<Longrightarrow> j < 28672 \<Longrightarrow> page_addr i = page_addr j \<Longrightarrow> i = j"
proof -
  assume "i < 28672" "j < 28672" "page_addr i = page_addr j"
  then have "16777216 + i * 4096 = 16777216 + j * 4096" using page_addr_unat by metis
  then show "i = j" by linarith
qed

lemma aligned_mask: "aligned (e AND NOT 0xFFF)"
proof -
  have "take_bit 12 (e AND NOT 0xFFF) = 0"
  proof (rule bit_word_eqI)
    fix k
    have "bit (0xFFF :: u64) k" if "k < 12"
    proof -
      have "(0xFFF :: u64) = mask 12" by (simp add: mask_eq_exp_minus_1)
      then show ?thesis using that by (simp only: bit_mask_iff) (simp add: possible_bit_def)
    qed
    then show "bit (take_bit 12 (e AND NOT 0xFFF)) k = bit (0 :: u64) k"
      by (auto simp: bit_take_bit_iff bit_and_iff bit_not_iff)
  qed
  then have "unat (e AND NOT 0xFFF) mod 4096 = 0"
    using unsigned_take_bit_eq [of 12 "e AND NOT 0xFFF"] by (simp add: take_bit_eq_mod unat_eq_0)
  then show ?thesis by (simp add: aligned_def)
qed

lemma aligned_phys_of: "aligned a \<Longrightarrow> aligned (vmm_phys_of a)"
proof (cases "a \<ge> KERNEL_HALF")
  case True
  assume "aligned a"
  then obtain k where "unat a = 4096 * k" by (rule alignedE)
  moreover have "unat (a - KERNEL_HALF) = unat a - 4096 * 4503599626846208"
    using True by (simp add: unat_sub KERNEL_HALF_def)
  ultimately have "unat (a - KERNEL_HALF) = 4096 * (k - 4503599626846208)"
    by (simp only: diff_mult_distrib2)
  then show ?thesis using True by (simp add: vmm_phys_of_def alignedI)
next
  case False
  assume "aligned a"
  with False show ?thesis by (simp add: vmm_phys_of_def)
qed

lemma aligned_next: "aligned (next_table e)"
  unfolding next_table_def by (rule aligned_phys_of [OF aligned_mask])

lemma vidx_less [simp]: "vidx sh v < 512"
proof -
  have "vidx sh v \<le> unat (0x1FF :: u32)"
    unfolding vidx_def by (rule word_le_nat_alt [THEN iffD1]) (rule word_and_le1)
  then show ?thesis by simp
qed

section \<open>The tree of tables\<close>

text \<open>An entry above the last level with bit 7 set maps a large page.\<close>

definition large :: "u64 \<Rightarrow> bool" where
  "large e \<longleftrightarrow> bit e 7"

text \<open>The table at the end of a path, the path given from its last index to its first; paths of
  up to three indices lead to tables.\<close>

fun table_at :: "(u64 \<Rightarrow> u64) \<Rightarrow> nat list \<Rightarrow> u64 option" where
  "table_at m [] = Some PML4_BASE"
| "table_at m (i # p) =
     (case table_at m p of
        None \<Rightarrow> None
      | Some a \<Rightarrow> (let e = m (slot_addr a i) in
                  if present e \<and> \<not> large e then Some (next_table e) else None))"

text \<open>The entry of the large page that a path meets, if any.\<close>

fun large_on :: "(u64 \<Rightarrow> u64) \<Rightarrow> nat list \<Rightarrow> u64 option" where
  "large_on m [] = None"
| "large_on m (i # p) =
     (case table_at m p of
        None \<Rightarrow> large_on m p
      | Some a \<Rightarrow> (let e = m (slot_addr a i) in if present e \<and> large e then Some e else None))"

lemma table_not_large: "table_at m p = Some a \<Longrightarrow> large_on m p = None"
  by (cases p) (auto simp: Let_def split: option.splits if_splits)

lemma large_on_prefix: "large_on m (i # p) = None \<Longrightarrow> large_on m p = None"
  by (cases "table_at m p") (auto simp: table_not_large)

definition good :: "nat list \<Rightarrow> bool" where
  "good p \<longleftrightarrow> length p \<le> 3 \<and> (\<forall>i \<in> set p. i < 512)"

lemma good_Cons: "good (i # p) \<longleftrightarrow> i < 512 \<and> length p \<le> 2 \<and> good p"
  by (auto simp: good_def)

lemma table_aligned: "table_at m p = Some a \<Longrightarrow> aligned a"
  by (cases p) (auto simp: aligned_next Let_def split: option.splits if_splits
      intro: alignedI [of _ 768] simp: PML4_BASE_def)

definition pt_inv :: "vmm \<Rightarrow> bool" where
  "pt_inv st \<longleftrightarrow> vm_ok st \<and>
     (\<forall>p q a. good p \<and> good q \<and> table_at (v_mem st) p = Some a \<and> table_at (v_mem st) q = Some a \<longrightarrow> p = q) \<and>
     (\<forall>p i. good p \<and> i < 28672 \<and> table_at (v_mem st) p = Some (page_addr i) \<longrightarrow> bm_test st i)"

lemma pt_inv_inj:
  "pt_inv st \<Longrightarrow> table_at (v_mem st) p = Some a \<Longrightarrow> table_at (v_mem st) q = Some a \<Longrightarrow>
     good p \<Longrightarrow> good q \<Longrightarrow> p = q"
  unfolding pt_inv_def by blast

lemma pt_inv_fresh:
  "pt_inv st \<Longrightarrow> i < 28672 \<Longrightarrow> \<not> bm_test st i \<Longrightarrow> good p \<Longrightarrow> table_at (v_mem st) p \<noteq> Some (page_addr i)"
  unfolding pt_inv_def by blast

text \<open>The path of a virtual address, and its translation.\<close>

definition vpath :: "u64 \<Rightarrow> nat list" where
  "vpath v = [vidx 21 v, vidx 30 v, vidx 39 v]"

lemma good_vpath [simp]: "good (vpath v)" "length (vpath v) = 3"
  by (simp_all add: vpath_def good_def)

text \<open>An address under no large page.\<close>

definition small_pages :: "vmm \<Rightarrow> u64 \<Rightarrow> bool" where
  "small_pages st v \<longleftrightarrow> large_on (v_mem st) (vpath v) = None"

lemma walk_tables_eq: "small_pages st v \<Longrightarrow> walk_tables st v = table_at (v_mem st) (vpath v)"
  by (auto simp: small_pages_def walk_tables_def vpath_def Let_def split: if_splits)

definition pte_of :: "(u64 \<Rightarrow> u64) \<Rightarrow> nat list \<Rightarrow> nat \<Rightarrow> u64 option" where
  "pte_of m p i =
     (case table_at m p of
        None \<Rightarrow> None
      | Some pt \<Rightarrow> (let e = m (slot_addr pt i) in if present e then Some e else None))"

definition vlookup :: "vmm \<Rightarrow> u64 \<Rightarrow> u64 option" where
  "vlookup st v =
     (case large_on (v_mem st) (vpath v) of
        Some e \<Rightarrow> Some e
      | None \<Rightarrow> pte_of (v_mem st) (vpath v) (vidx 12 v))"

text \<open>Two addresses in the same page of the 48-bit space.\<close>

definition same_page :: "u64 \<Rightarrow> u64 \<Rightarrow> bool" where
  "same_page v w \<longleftrightarrow> vpath v = vpath w \<and> vidx 12 v = vidx 12 w"

text \<open>Memory that agrees on the slots of all upper tables has the same tables.\<close>

lemma table_at_cong:
  assumes "\<And>p a i. good p \<Longrightarrow> length p \<le> 2 \<Longrightarrow> table_at m p = Some a \<Longrightarrow> i < 512 \<Longrightarrow>
    m' (slot_addr a i) = m (slot_addr a i)"
  shows "good q \<Longrightarrow> table_at m' q = table_at m q"
proof (induction q)
  case (Cons i q)
  then have "table_at m' q = table_at m q" "i < 512" "length q \<le> 2" "good q" by (auto simp: good_Cons)
  with assms [of q _ i] show ?case by (auto split: option.splits)
qed simp

lemma large_on_cong:
  assumes "\<And>p a i. good p \<Longrightarrow> length p \<le> 2 \<Longrightarrow> table_at m p = Some a \<Longrightarrow> i < 512 \<Longrightarrow>
    m' (slot_addr a i) = m (slot_addr a i)"
  shows "good q \<Longrightarrow> large_on m' q = large_on m q"
proof (induction q)
  case (Cons i q)
  then have q: "i < 512" "length q \<le> 2" "good q" by (auto simp: good_Cons)
  have "table_at m' q = table_at m q" by (rule table_at_cong [OF _ q(3)]) (rule assms; assumption)
  with assms [of q _ i] q Cons.IH show ?case by (auto split: option.splits)
qed simp

text \<open>The invariant depends on the tables and grows with the pages in use.\<close>

lemma pt_inv_mono:
  assumes "pt_inv st" and "vm_ok st'" and "\<And>p. good p \<Longrightarrow> table_at (v_mem st') p = table_at (v_mem st) p"
    and "\<And>i. bm_test st i \<Longrightarrow> bm_test st' i"
  shows "pt_inv st'"
  unfolding pt_inv_def
proof (intro conjI allI impI)
  fix p q a
  assume a: "good p \<and> good q \<and> table_at (v_mem st') p = Some a \<and> table_at (v_mem st') q = Some a"
  then have "table_at (v_mem st) p = Some a" "table_at (v_mem st) q = Some a"
    using assms(3) by metis+
  then show "p = q" by (rule pt_inv_inj [OF assms(1)]) (use a in simp_all)
next
  fix p i
  assume "good p \<and> i < 28672 \<and> table_at (v_mem st') p = Some (page_addr i)"
  then have "bm_test st i" using assms(3) [of p] pt_inv_fresh [OF assms(1), of i p] by auto
  then show "bm_test st' i" by (rule assms(4))
qed (rule assms(2))

section \<open>Writing a last-level slot\<close>

lemma set_leaf:
  assumes inv: "pt_inv st" and t: "table_at (v_mem st) q = Some pt" "good q" "length q = 3" and i: "i < 512"
  shows "pt_inv (set_pte pt i e st)"
    and "good p \<Longrightarrow> table_at (v_mem (set_pte pt i e st)) p = table_at (v_mem st) p"
    and "good p \<Longrightarrow> large_on (v_mem (set_pte pt i e st)) p = large_on (v_mem st) p"
    and "good p \<Longrightarrow> length p = 3 \<Longrightarrow> j < 512 \<Longrightarrow> pte_of (v_mem (set_pte pt i e st)) p j =
      (if p = q \<and> j = i then (if present e then Some e else None) else pte_of (v_mem st) p j)"
proof -
  let ?m = "v_mem st" and ?m' = "v_mem (set_pte pt i e st)"
  have al: "aligned pt" using t(1) by (rule table_aligned)
  have m': "?m' = ?m(slot_addr pt i := e)" by (simp add: set_pte_def)
  have other: "?m' (slot_addr a k) = ?m (slot_addr a k)"
    if "table_at ?m p = Some a" "good p" "k < 512" "\<not> (p = q \<and> k = i)" for p a k
  proof -
    have "\<not> (a = pt \<and> k = i)" using that pt_inv_inj [OF inv that(1)] t by blast
    then show ?thesis
      using slot_addr_inj [OF table_aligned [OF that(1)] al that(3) i] by (auto simp: m')
  qed
  have upper: "?m' (slot_addr a k) = ?m (slot_addr a k)"
    if "good r" "length r \<le> 2" "table_at ?m r = Some a" "k < 512" for r a k
  proof -
    have "r \<noteq> q" using that(2) t(3) by auto
    with that show ?thesis by (intro other) auto
  qed
  show tab: "table_at ?m' p = table_at ?m p" if "good p" for p by (rule table_at_cong [OF _ that]) (rule upper; assumption)
  show "large_on ?m' p = large_on ?m p" if "good p" for p by (rule large_on_cong [OF _ that]) (rule upper; assumption)
  from tab show "pt_inv (set_pte pt i e st)"
    using inv by (intro pt_inv_mono [OF inv]) (simp_all add: pt_inv_def set_pte_def vm_ok_def)
  show "pte_of ?m' p j = (if p = q \<and> j = i then (if present e then Some e else None) else pte_of ?m p j)"
    if "good p" "length p = 3" "j < 512"
  proof (cases "table_at ?m p")
    case None
    with tab [OF that(1)] t(1) show ?thesis by (auto simp: pte_of_def)
  next
    case (Some a)
    then show ?thesis
    proof (cases "p = q \<and> j = i")
      case True
      have "?m' (slot_addr pt i) = e" by (simp add: m')
      with True Some tab [OF that(1)] t(1) show ?thesis by (simp add: pte_of_def)
    next
      case False
      with tab [OF that(1)] Some other [OF Some that(1,3)] show ?thesis by (auto simp: pte_of_def)
    qed
  qed
qed

section \<open>Fresh pages\<close>

lemma fold_slots_other:
  "(\<And>i. i \<in> set is \<Longrightarrow> x \<noteq> slot_addr a i) \<Longrightarrow> fold (\<lambda>i m. m(slot_addr a i := f m i)) is m x = m x"
  by (induction "is" arbitrary: m) auto

lemma zero_page_mem:
  assumes "aligned a"
  shows "i < 512 \<Longrightarrow> v_mem (zero_page a st) (slot_addr a i) = 0"
    and "aligned b \<Longrightarrow> b \<noteq> a \<Longrightarrow> i < 512 \<Longrightarrow> v_mem (zero_page a st) (slot_addr b i) = v_mem st (slot_addr b i)"
proof -
  have "fold (\<lambda>i m. m(slot_addr a i := 0)) is m (slot_addr a i) = 0"
    if "i \<in> set is" for i "is" and m :: "u64 \<Rightarrow> u64"
  proof -
    have "fold (\<lambda>i m. m(slot_addr a i := 0)) is m x = (if x \<in> slot_addr a ` set is then 0 else m x)" for x
      by (induction "is" arbitrary: m) auto
    then show ?thesis using that by simp
  qed
  then show "i < 512 \<Longrightarrow> v_mem (zero_page a st) (slot_addr a i) = 0"
    by (simp add: zero_page_def)
  show "v_mem (zero_page a st) (slot_addr b i) = v_mem st (slot_addr b i)"
    if "aligned b" "b \<noteq> a" "i < 512"
    unfolding zero_page_def using slot_addr_inj(1) [OF that(1) assms that(3)] that(2)
    by (simp add: fold_slots_other [where f = "\<lambda>_ _. 0"]) (subst fold_slots_other [where f = "\<lambda>_ _. 0"]; auto)
qed

lemma copy_page_mem:
  assumes "aligned src" and "aligned dst" and "src \<noteq> dst"
  shows "i < 512 \<Longrightarrow> v_mem (copy_page src dst st) (slot_addr dst i) = v_mem st (slot_addr src i)"
    and "aligned b \<Longrightarrow> b \<noteq> dst \<Longrightarrow> i < 512 \<Longrightarrow> v_mem (copy_page src dst st) (slot_addr b i) = v_mem st (slot_addr b i)"
proof -
  let ?f = "\<lambda>i m. m(slot_addr dst i := m (slot_addr src i))"
  have other: "fold ?f [0..<n] m (slot_addr b i) = m (slot_addr b i)"
    if "aligned b" "b \<noteq> dst" "i < 512" "n \<le> 512" for b i n and m :: "u64 \<Rightarrow> u64"
  proof (rule fold_slots_other [where f = "\<lambda>m i. m (slot_addr src i)"])
    fix j
    assume "j \<in> set [0..<n]"
    then show "slot_addr b i \<noteq> slot_addr dst j"
      using slot_addr_inj(1) [OF that(1) assms(2) that(3), of j] that(2,4) by auto
  qed
  have copied: "fold ?f [0..<n] m (slot_addr dst i) = m (slot_addr src i)"
    if "i < n" "n \<le> 512" for i n and m :: "u64 \<Rightarrow> u64"
    using that
  proof (induction n)
    case (Suc n)
    let ?m = "fold ?f [0..<n] m"
    have step: "fold ?f [0..<Suc n] m = ?m(slot_addr dst n := ?m (slot_addr src n))"
      by (simp del: fun_upd_apply)
    show ?case
    proof (cases "i = n")
      case True
      with other [OF assms(1,3), of n n m] Suc.prems show ?thesis
        unfolding step by (simp only: fun_upd_same)
    next
      case False
      then have "slot_addr dst i \<noteq> slot_addr dst n"
        using slot_addr_inj(2) [OF assms(2,2)] Suc.prems by fastforce
      then have "fold ?f [0..<Suc n] m (slot_addr dst i) = ?m (slot_addr dst i)"
        unfolding step by (rule fun_upd_other)
      also have "\<dots> = m (slot_addr src i)" using False Suc.prems by (intro Suc.IH) auto
      finally show ?thesis .
    qed
  qed simp
  show "i < 512 \<Longrightarrow> v_mem (copy_page src dst st) (slot_addr dst i) = v_mem st (slot_addr src i)"
    by (simp add: copy_page_def copied)
  show "aligned b \<Longrightarrow> b \<noteq> dst \<Longrightarrow> i < 512 \<Longrightarrow> v_mem (copy_page src dst st) (slot_addr b i) = v_mem st (slot_addr b i)"
    by (simp add: copy_page_def other)
qed

text \<open>A single page from the allocator.\<close>

definition fresh_page :: "vmm \<Rightarrow> u64 \<Rightarrow> vmm \<Rightarrow> nat \<Rightarrow> bool" where
  "fresh_page st p st1 k \<longleftrightarrow> k < 28672 \<and> p = page_addr k \<and> \<not> bm_test st k \<and> vm_ok st1 \<and>
     (\<forall>j. bm_test st1 j \<longleftrightarrow> j = k \<or> bm_test st j) \<and> v_mem st1 = v_mem st \<and>
     (\<forall>q. good q \<longrightarrow> table_at (v_mem st) q \<noteq> Some p) \<and> v_refs st1 ! k = 1 \<and>
     (\<forall>j. j < 28672 \<and> j \<noteq> k \<longrightarrow> v_refs st1 ! j = v_refs st ! j) \<and> v_demand st1 = v_demand st"

lemma alloc_one:
  assumes "pt_inv st" and "wubu_vmm_alloc_pages 1 st = (p, st1)" and "p \<noteq> 0"
  shows "\<exists>k. fresh_page st p st1 k"
proof -
  have ok: "vm_ok st" using assms(1) by (simp add: pt_inv_def)
  from alloc_rule(2) [OF ok _ _ assms(2,3)] obtain k where k: "p = page_addr k" "k < 28672"
    "\<not> bm_test st k" "st1 = fold take_page [k] st" by (auto simp: all_free_def)
  have "length (v_bitmap st) = 3584" "length (v_refs st) = 28672" using ok by (auto simp: vm_ok_def)
  note take = take_pages_rule [OF this, of "[k]", folded k(4)]
  have "fresh_page st p st1 k"
    unfolding fresh_page_def
    using take k(2) pt_inv_fresh [OF assms(1) k(2,3)] k(1,3) vm_ok_alloc [OF ok assms(2)] by auto
  then show ?thesis ..
qed

lemma alloc_one_fail: "pt_inv st \<Longrightarrow> wubu_vmm_alloc_pages 1 st = (0, st1) \<Longrightarrow> st1 = st"
  using alloc_rule(1) [of st 1 0 st1] by (auto simp: pt_inv_def)

section \<open>Descending\<close>

lemma aligned_low_bits: "aligned a \<Longrightarrow> k < 12 \<Longrightarrow> \<not> bit a k"
proof -
  assume "aligned a" and k: "k < 12"
  then have "unat (take_bit 12 a) = 0"
    by (simp only: unsigned_take_bit_eq) (simp add: take_bit_eq_mod aligned_def)
  then have "take_bit 12 a = 0" by (simp only: unat_eq_0)
  from arg_cong [OF this, of "\<lambda>w. bit w k"] k show "\<not> bit a k" by (simp add: bit_take_bit_iff)
qed

lemma bit_fff: "bit (0xFFF :: u64) k \<longleftrightarrow> k < 12"
proof -
  have "(0xFFF :: u64) = mask 12" by (simp add: mask_eq_exp_minus_1)
  then show ?thesis by (simp only: bit_mask_iff) (auto simp: possible_bit_def)
qed

lemma strip_flags:
  assumes "aligned a" and "\<And>k. bit f k \<Longrightarrow> k < 12"
  shows "(a OR f) AND NOT 0xFFF = a"
proof (rule bit_word_eqI)
  fix k
  assume "k < LENGTH(64)"
  then show "bit ((a OR f) AND NOT 0xFFF) k = bit a k"
    using assms(2) [of k] aligned_low_bits [OF assms(1), of k]
    by (simp only: bit_and_iff bit_or_iff bit_not_iff bit_fff) (auto simp: possible_bit_def)
qed

lemma bit_3: "bit (3 :: u64) k \<longleftrightarrow> k < 2"
proof -
  have "(3 :: u64) = mask 2" by (simp add: mask_eq_exp_minus_1)
  then show ?thesis by (simp only: bit_mask_iff) (auto simp: possible_bit_def)
qed

lemma present_bit: "present e \<longleftrightarrow> bit e 0"
  by (simp add: present_def and_one_eq bit_0 odd_iff_mod_2_eq_one)

lemma next_table_new:
  assumes "k < 28672"
  shows "next_table (page_addr k OR 3) = page_addr k" and "present (page_addr k OR 3)"
    and "\<not> large (page_addr k OR 3)"
proof -
  have "(page_addr k OR 3) AND NOT 0xFFF = page_addr k"
    by (rule strip_flags [OF aligned_page_addr [OF assms]]) (drule bit_3 [THEN iffD1], simp)
  moreover have "\<not> page_addr k \<ge> KERNEL_HALF"
    using assms page_addr_unat [OF assms] by (simp add: KERNEL_HALF_def word_le_nat_alt)
  ultimately show "next_table (page_addr k OR 3) = page_addr k"
    unfolding next_table_def vmm_phys_of_def by (simp only: if_False)
  have "bit (3 :: u64) 0" by (rule bit_3 [THEN iffD2]) simp
  then show "present (page_addr k OR 3)" by (simp only: present_bit bit_or_iff) simp
  show "\<not> large (page_addr k OR 3)"
    using aligned_low_bits [OF aligned_page_addr [OF assms], of 7] by (simp only: large_def bit_or_iff bit_3) simp
qed

text \<open>The memory after a table was made: the fresh page is clear but for nothing, one slot of
  the parent points to it, and no other table word has changed.\<close>

lemma new_table_tree:
  assumes inv: "pt_inv st" and t: "table_at (v_mem st) p = Some a" "good (i # p)"
    and absent: "\<not> present (v_mem st (slot_addr a i))" and k: "k < 28672" "\<not> bm_test st k"
    and word: "\<And>c j. aligned c \<Longrightarrow> j < 512 \<Longrightarrow> m' (slot_addr c j) =
      (if c = a \<and> j = i then page_addr k OR 3 else if c = page_addr k then 0 else v_mem st (slot_addr c j))"
  shows "good q \<Longrightarrow> table_at m' q = (if q = i # p then Some (page_addr k) else table_at (v_mem st) q)"
    and "good q \<Longrightarrow> large_on m' q = large_on (v_mem st) q"
    and "good q \<Longrightarrow> length q = 3 \<Longrightarrow> j < 512 \<Longrightarrow> pte_of m' q j = pte_of (v_mem st) q j"
proof -
  let ?m = "v_mem st" and ?b = "page_addr k"
  have p: "i < 512" "good p" "length p \<le> 2" using t(2) by (auto simp: good_Cons)
  have ab: "aligned ?b" using k(1) by (rule aligned_page_addr)
  have neq: "c \<noteq> ?b" if "table_at ?m r = Some c" "good r" for r c
    using pt_inv_fresh [OF inv k that(2)] that(1) by auto
  have none: "table_at ?m (i # p) = None" using t(1) absent by simp
  have zero: "\<not> present (m' (slot_addr ?b j))" if "j < 512" for j
    using word [OF ab that] neq [OF t(1) p(2)] by (auto simp: present_def)
  show tab: "table_at m' q = (if q = i # p then Some ?b else table_at ?m q)" if "good q" for q
    using that
  proof (induction q)
    case (Cons j r)
    then have r: "good r" "j < 512" by (auto simp: good_Cons)
    consider "r = i # p" | "r \<noteq> i # p" "table_at ?m r = None"
      | c where "r \<noteq> i # p" "table_at ?m r = Some c" by fastforce
    then show ?case
    proof cases
      case 1
      with Cons.IH [OF r(1)] zero [OF r(2)] none show ?thesis by auto
    next
      case 2
      with Cons.IH [OF r(1)] t(1) show ?thesis by auto
    next
      case 3
      have IH: "table_at m' r = Some c" using Cons.IH [OF r(1)] 3 by simp
      show ?thesis
      proof (cases "c = a \<and> j = i")
        case True
        then have "r = p" using pt_inv_inj [OF inv _ t(1) r(1) p(2)] 3(2) by blast
        with True IH word [OF table_aligned [OF 3(2)] r(2)] next_table_new [OF k(1)] show ?thesis by simp
      next
        case False
        then have "j # r \<noteq> i # p" using 3(2) t(1) by auto
        moreover have "m' (slot_addr c j) = ?m (slot_addr c j)"
          using word [OF table_aligned [OF 3(2)] r(2)] False neq [OF 3(2) r(1)] by auto
        ultimately show ?thesis using IH 3(2) by auto
      qed
    qed
  qed simp
  show "large_on m' q = large_on ?m q" if "good q" for q
    using that
  proof (induction q)
    case (Cons j r)
    then have r: "good r" "j < 512" by (auto simp: good_Cons)
    note IH = Cons.IH [OF r(1)] and T = tab [OF r(1)]
    show ?case
    proof (cases "table_at ?m r")
      case None
      have "large_on ?m (i # p) = None" using t(1) absent by simp
      with None IH T zero [OF r(2)] show ?thesis by (cases "r = i # p") auto
    next
      case (Some c)
      then have c: "table_at m' r = Some c" using T none by auto
      have "m' (slot_addr c j) = (if c = a \<and> j = i then ?b OR 3 else ?m (slot_addr c j))"
        using word [OF table_aligned [OF Some] r(2)] neq [OF Some r(1)] by simp
      with c Some absent next_table_new(3) [OF k(1)] show ?thesis by auto
    qed
  qed simp
  show "pte_of m' q j = pte_of ?m q j" if q: "good q" "length q = 3" "j < 512"
  proof (cases "q = i # p")
    case True
    with tab [OF q(1)] none zero [OF q(3)] show ?thesis by (simp add: pte_of_def)
  next
    case False
    show ?thesis
    proof (cases "table_at ?m q")
      case None
      with tab [OF q(1)] False show ?thesis by (simp add: pte_of_def)
    next
      case (Some c)
      have "c \<noteq> a" using pt_inv_inj [OF inv Some _ q(1) p(2)] t(1) p(3) q(2) by auto
      then have "m' (slot_addr c j) = ?m (slot_addr c j)"
        using word [OF table_aligned [OF Some] q(3)] neq [OF Some q(1)] by auto
      with tab [OF q(1)] False Some show ?thesis by (simp add: pte_of_def)
    qed
  qed
qed

lemma pt_inv_new_table:
  assumes "pt_inv st" and "vm_ok st'" and "k < 28672" and "\<not> bm_test st k"
    and "\<And>j. bm_test st' j \<longleftrightarrow> j = k \<or> bm_test st j"
    and tab: "\<And>q. good q \<Longrightarrow> table_at (v_mem st') q = (if q = r then Some (page_addr k) else table_at (v_mem st) q)"
  shows "pt_inv st'"
  unfolding pt_inv_def
proof (intro conjI allI impI)
  fix p q a
  assume a: "good p \<and> good q \<and> table_at (v_mem st') p = Some a \<and> table_at (v_mem st') q = Some a"
  then show "p = q"
    using tab [of p] tab [of q] pt_inv_fresh [OF assms(1,3,4), of p] pt_inv_fresh [OF assms(1,3,4), of q]
      pt_inv_inj [OF assms(1), of p a q] by (auto split: if_splits)
next
  fix p i
  assume "good p \<and> i < 28672 \<and> table_at (v_mem st') p = Some (page_addr i)"
  then show "bm_test st' i"
    using tab [of p] pt_inv_fresh [OF assms(1), of i p] page_addr_inj [of i k] assms(3,5)
    by (auto split: if_splits)
qed (rule assms(2))

text \<open>What a descent gives and keeps.\<close>

definition descended :: "vmm \<Rightarrow> u64 \<Rightarrow> vmm \<Rightarrow> bool" where
  "descended st a st' \<longleftrightarrow> pt_inv st' \<and> v_demand st' = v_demand st \<and>
     (\<forall>q. good q \<longrightarrow> large_on (v_mem st') q = large_on (v_mem st) q) \<and>
     (\<forall>q j. good q \<and> length q = 3 \<and> j < 512 \<longrightarrow> pte_of (v_mem st') q j = pte_of (v_mem st) q j) \<and>
     (\<forall>c j. aligned c \<and> j < 512 \<and> c \<noteq> a \<and> (\<forall>k < 28672. c = page_addr k \<longrightarrow> bm_test st k) \<longrightarrow>
       v_mem st' (slot_addr c j) = v_mem st (slot_addr c j)) \<and>
     (\<forall>j. bm_test st j \<longrightarrow> bm_test st' j) \<and>
     (\<forall>j < 28672. bm_test st j \<longrightarrow> v_refs st' ! j = v_refs st ! j) \<and>
     (\<forall>q a. good q \<and> table_at (v_mem st) q = Some a \<longrightarrow> table_at (v_mem st') q = Some a) \<and>
     (\<forall>q c. good q \<and> table_at (v_mem st') q = Some c \<longrightarrow>
        table_at (v_mem st) q = Some c \<or> (\<exists>k < 28672. c = page_addr k \<and> \<not> bm_test st k))"

lemma descendedD:
  assumes "descended st a st'"
  shows "pt_inv st'" and "v_demand st' = v_demand st"
    and "good q \<Longrightarrow> length q = 3 \<Longrightarrow> j < 512 \<Longrightarrow> pte_of (v_mem st') q j = pte_of (v_mem st) q j"
    and "aligned c \<Longrightarrow> j < 512 \<Longrightarrow> c \<noteq> a \<Longrightarrow> (\<forall>k < 28672. c = page_addr k \<longrightarrow> bm_test st k) \<Longrightarrow>
      v_mem st' (slot_addr c j) = v_mem st (slot_addr c j)"
    and "bm_test st k \<Longrightarrow> bm_test st' k"
    and "k < 28672 \<Longrightarrow> bm_test st k \<Longrightarrow> v_refs st' ! k = v_refs st ! k"
    and "good q \<Longrightarrow> table_at (v_mem st) q = Some b \<Longrightarrow> table_at (v_mem st') q = Some b"
    and "good q \<Longrightarrow> table_at (v_mem st') q = Some c \<Longrightarrow>
      table_at (v_mem st) q = Some c \<or> (\<exists>k < 28672. c = page_addr k \<and> \<not> bm_test st k)"
    and "good q \<Longrightarrow> large_on (v_mem st') q = large_on (v_mem st) q"
  using assms unfolding descended_def by blast+

lemma descend_rule:
  assumes inv: "pt_inv st" and t: "table_at (v_mem st) p = Some a" "good (i # p)"
    and small: "large_on (v_mem st) (i # p) = None"
    and d: "descend a i st = (Some b, st')"
  shows "descended st a st' \<and> table_at (v_mem st') (i # p) = Some b"
proof (cases "present (v_mem st (slot_addr a i))")
  case True
  then have "\<not> large (v_mem st (slot_addr a i))" using small t(1) by (auto split: if_splits)
  with True d t inv show ?thesis by (auto simp: descend_def descended_def)
next
  case False
  let ?m = "v_mem st" and ?m' = "v_mem st'"
  have i: "i < 512" "good p" using t(2) by (auto simp: good_Cons)
  from False obtain st1 where al: "wubu_vmm_alloc_pages 1 st = (b, st1)" and nz: "b \<noteq> 0"
    and st': "st' = (zero_page b st1)\<lparr>v_mem := (v_mem (zero_page b st1))(slot_addr a i := b OR 3)\<rparr>"
    using d by (auto simp: descend_def Let_def split: prod.splits if_splits)
  obtain k where "fresh_page st b st1 k" using alloc_one [OF inv al nz] ..
  then have k: "k < 28672" "b = page_addr k" "\<not> bm_test st k" "vm_ok st1"
    "\<And>j. bm_test st1 j \<longleftrightarrow> j = k \<or> bm_test st j" "v_mem st1 = v_mem st"
    "\<And>q. good q \<Longrightarrow> table_at (v_mem st) q \<noteq> Some b" "v_refs st1 ! k = 1"
    "\<And>j. j < 28672 \<Longrightarrow> j \<noteq> k \<Longrightarrow> v_refs st1 ! j = v_refs st ! j" "v_demand st1 = v_demand st"
    unfolding fresh_page_def by blast+
  have ab: "aligned b" using k(1,2) aligned_page_addr by simp
  have aa: "aligned a" using t(1) by (rule table_aligned)
  have neq: "a \<noteq> b" using k(7) [OF i(2)] t(1) by auto
  have fields: "vm_ok st'" "bm_test st' = bm_test st1" "v_refs st' = v_refs st1" "v_demand st' = v_demand st"
    using k(4,10) by (simp_all add: st' zero_page_def vm_ok_def)
  have word: "?m' (slot_addr c j) = (if c = a \<and> j = i then page_addr k OR 3
      else if c = page_addr k then 0 else ?m (slot_addr c j))" if "aligned c" "j < 512" for c j
    using slot_addr_inj [OF that(1) aa that(2) i(1)] zero_page_mem(1) [OF ab that(2), of st1]
      zero_page_mem(2) [OF ab that(1) _ that(2), of st1] neq k(2,6)
    by (auto simp: st')
  have tree1: "table_at ?m' q = (if q = i # p then Some (page_addr k) else table_at ?m q)"
    if "good q" for q
    by (rule new_table_tree(1) [OF inv t False k(1,3) _ that]) (rule word)
  have tree2: "pte_of ?m' q j = pte_of ?m q j" if "good q" "length q = 3" "j < 512" for q j
    by (rule new_table_tree(3) [OF inv t False k(1,3) _ that]) (rule word)
  have tree3: "large_on ?m' q = large_on ?m q" if "good q" for q
    by (rule new_table_tree(2) [OF inv t False k(1,3) _ that]) (rule word)
  have "pt_inv st'"
    by (rule pt_inv_new_table [OF inv fields(1) k(1,3) _ tree1]) (simp_all add: fields k(5))
  moreover have "?m' (slot_addr c j) = ?m (slot_addr c j)"
    if "aligned c" "j < 512" "c \<noteq> a" "\<forall>k < 28672. c = page_addr k \<longrightarrow> bm_test st k" for c j
    using word [OF that(1,2)] that(3,4) k(1,3) by auto
  moreover have "table_at ?m' (i # p) = Some b"
    using tree1 [OF t(2)] by (simp only: refl if_True k(2))
  moreover have "table_at ?m' q = Some c" if "good q" "table_at ?m q = Some c" for q c
  proof -
    have "table_at ?m (i # p) = None" using t(1) False by simp
    then have "q \<noteq> i # p" using that(2) by auto
    then show ?thesis using tree1 [OF that(1)] that(2) by (simp only: if_False)
  qed
  moreover have "table_at ?m q = Some c \<or> (\<exists>k < 28672. c = page_addr k \<and> \<not> bm_test st k)"
    if "good q" "table_at ?m' q = Some c" for q c
    using tree1 [OF that(1)] that(2) k(1,3) by (metis option.inject)
  moreover have "v_refs st' ! j = v_refs st ! j" if "j < 28672" "bm_test st j" for j
    using k(3) k(9) [of j] that unfolding fields(3) by blast
  moreover have "bm_test st' j" if "bm_test st j" for j using k(5) that fields(2) by simp
  ultimately show ?thesis
    using tree2 tree3 fields(4) unfolding descended_def by blast
qed

text \<open>Writing into a fresh page touches no table.\<close>

lemma scratch_page:
  assumes inv: "pt_inv st" and f: "fresh_page st p st1 k"
    and same: "\<forall>c j. aligned c \<and> c \<noteq> p \<and> j < 512 \<longrightarrow> v_mem st2 (slot_addr c j) = v_mem st1 (slot_addr c j)"
    and st2: "bm_test st2 = bm_test st1" "vm_ok st2"
  shows "good q \<Longrightarrow> table_at (v_mem st2) q = table_at (v_mem st) q" and "pt_inv st2"
    and "good q \<Longrightarrow> large_on (v_mem st2) q = large_on (v_mem st) q"
    and "good q \<Longrightarrow> j < 512 \<Longrightarrow> pte_of (v_mem st2) q j = pte_of (v_mem st) q j"
proof -
  have mem: "v_mem st1 = v_mem st" and used: "\<And>j. bm_test st j \<Longrightarrow> bm_test st2 j"
    and neq: "\<And>q. good q \<Longrightarrow> table_at (v_mem st) q \<noteq> Some p"
    using f st2(1) by (auto simp: fresh_page_def)
  have word: "v_mem st2 (slot_addr a j) = v_mem st (slot_addr a j)"
    if "good r" "table_at (v_mem st) r = Some a" "j < 512" for r a j
  proof -
    have "a \<noteq> p" using neq [OF that(1)] that(2) by auto
    with same table_aligned [OF that(2)] that(3) mem show ?thesis by simp
  qed
  show tab: "table_at (v_mem st2) q = table_at (v_mem st) q" if "good q" for q
    using word that by (intro table_at_cong) auto
  show "large_on (v_mem st2) q = large_on (v_mem st) q" if "good q" for q
    using word that by (intro large_on_cong) auto
  show "pt_inv st2" using tab used by (intro pt_inv_mono [OF inv st2(2)])
  show "pte_of (v_mem st2) q j = pte_of (v_mem st) q j" if "good q" "j < 512"
    using tab [OF that(1)] word [OF that(1) _ that(2)] by (auto simp: pte_of_def split: option.splits)
qed

end
