(* ===== verification/Vmm_Boot.thy ===== *)
theory Vmm_Boot
  imports Vmm_Tables
begin

text \<open>
  The page tables that \<open>crt0.S\<close> builds before the kernel runs, for an image loaded at 1 MB (which
  puts the top table at \<open>PML4_BASE\<close>): the first gigabyte as 2 MB pages, and the kernel image in
  the top half as 4 KB pages. They satisfy the invariant of the page tables.
\<close>

text \<open>The 64-bit words from \<open>PML4_BASE\<close> on: PML4, PDP_ident, PD_ident, PDP_high, PD_high, and
  PT_high running on into PT_high2. The pages are cleared first.\<close>

definition boot_mem :: "u64 \<Rightarrow> u64" where
  "boot_mem w =
     (let a = unat w in
      if a = 0x300000 then 0x301003
      else if a = 0x300FF8 then 0x303003
      else if a = 0x301000 then 0x302003
      else if 0x302000 \<le> a \<and> a < 0x303000 \<and> a mod 8 = 0 then of_nat ((a - 0x302000) div 8 * 0x200000 + 0x83)
      else if a = 0x303FF0 then 0x304003
      else if a = 0x304000 then 0x305003
      else if a = 0x304008 then 0x306003
      else if 0x305800 \<le> a \<and> a < 0x306880 \<and> a mod 8 = 0 then of_nat (0x100000 + (a - 0x305800) div 8 * 0x1000 + 3)
      else 0)"

definition boot_vmm :: vmm where
  "boot_vmm = blank_vmm\<lparr>v_mem := boot_mem\<rparr>"

lemma boot_slot:
  assumes "i < 512"
  shows "boot_mem (slot_addr 0x300000 i) = (if i = 0 then 0x301003 else if i = 511 then 0x303003 else 0)"
    and "boot_mem (slot_addr 0x301000 i) = (if i = 0 then 0x302003 else 0)"
    and "boot_mem (slot_addr 0x302000 i) = of_nat (i * 0x200000 + 0x83)"
    and "boot_mem (slot_addr 0x303000 i) = (if i = 510 then 0x304003 else 0)"
    and "boot_mem (slot_addr 0x304000 i) = (if i = 0 then 0x305003 else if i = 1 then 0x306003 else 0)"
proof -
  have u: "unat (slot_addr a i) = unat a + 8 * i" if "unat a mod 4096 = 0" for a
    using that assms by (simp add: slot_addr_unat aligned_def)
  note v = u [of "0x300000"] u [of "0x301000"] u [of "0x302000"] u [of "0x303000"] u [of "0x304000"]
  show "boot_mem (slot_addr 0x300000 i) = (if i = 0 then 0x301003 else if i = 511 then 0x303003 else 0)"
    using v(1) assms by (auto simp: boot_mem_def)
  show "boot_mem (slot_addr 0x301000 i) = (if i = 0 then 0x302003 else 0)"
    using v(2) assms by (auto simp: boot_mem_def)
  show "boot_mem (slot_addr 0x302000 i) = of_nat (i * 0x200000 + 0x83)"
    using v(3) assms by (auto simp: boot_mem_def)
  show "boot_mem (slot_addr 0x303000 i) = (if i = 510 then 0x304003 else 0)"
    using v(4) assms by (auto simp: boot_mem_def)
  show "boot_mem (slot_addr 0x304000 i) = (if i = 0 then 0x305003 else if i = 1 then 0x306003 else 0)"
    using v(5) assms by (auto simp: boot_mem_def)
qed

lemma boot_entries:
  "next_table 0x301003 = 0x301000" "next_table 0x302003 = 0x302000" "next_table 0x303003 = 0x303000"
  "next_table 0x304003 = 0x304000" "next_table 0x305003 = 0x305000" "next_table 0x306003 = 0x306000"
  "present 0x301003" "present 0x302003" "present 0x303003" "present 0x304003" "present 0x305003" "present 0x306003"
  "\<not> large 0x301003" "\<not> large 0x302003" "\<not> large 0x303003" "\<not> large 0x304003" "\<not> large 0x305003" "\<not> large 0x306003"
  "\<not> present 0"
  by (simp_all add: next_table_def vmm_phys_of_def KERNEL_HALF_def present_def large_def)

lemma boot_large: "i < 512 \<Longrightarrow> present (of_nat (i * 0x200000 + 0x83)) \<and> large (of_nat (i * 0x200000 + 0x83))"
proof -
  let ?n = "i * 0x200000 + 0x83"
  have tb: "take_bit 8 ?n = 0x83" by (simp add: take_bit_eq_mod) presburger
  have bits: "bit ?n k = bit (0x83 :: nat) k" if "k < 8" for k
    using arg_cong [OF tb, of "\<lambda>n. bit n k"] that by (simp only: bit_take_bit_iff simp_thms)
  have "bit ?n 0 = bit (0x83 :: nat) 0" "bit ?n 7 = bit (0x83 :: nat) 7" by (rule bits, simp)+
  moreover have "bit (0x83 :: nat) 0" "bit (0x83 :: nat) 7" by (simp_all add: bit_iff_odd)
  ultimately have "bit ?n 0" "bit ?n 7" by blast+
  then show ?thesis by (simp only: present_bit large_def bit_of_nat_iff) (simp add: possible_bit_def)
qed

lemma boot_table1: "i < 512 \<Longrightarrow>
    table_at boot_mem [i] = (if i = 0 then Some 0x301000 else if i = 511 then Some 0x303000 else None)"
  by (simp add: PML4_BASE_def boot_slot boot_entries)

lemma boot_table2: "i < 512 \<Longrightarrow> j < 512 \<Longrightarrow> table_at boot_mem [j, i] =
    (if (j, i) = (0, 0) then Some 0x302000 else if (j, i) = (510, 511) then Some 0x304000 else None)"
  by (subst table_at.simps(2)) (simp add: boot_table1 boot_slot boot_entries del: table_at.simps)

lemma boot_table3: "i < 512 \<Longrightarrow> j < 512 \<Longrightarrow> k < 512 \<Longrightarrow> table_at boot_mem [k, j, i] =
    (if (k, j, i) = (0, 510, 511) then Some 0x305000 else if (k, j, i) = (1, 510, 511) then Some 0x306000 else None)"
  by (subst table_at.simps(2)) (simp add: boot_table2 boot_slot boot_entries boot_large del: table_at.simps of_nat_add of_nat_mult)

text \<open>Seven tables, each reached by one path.\<close>

definition boot_tree :: "(nat list \<times> u64) list" where
  "boot_tree = [([], 0x300000), ([0], 0x301000), ([511], 0x303000), ([0, 0], 0x302000), ([510, 511], 0x304000),
     ([0, 510, 511], 0x305000), ([1, 510, 511], 0x306000)]"

lemma boot_tables:
  assumes "good p" and "table_at boot_mem p = Some a"
  shows "(p, a) \<in> set boot_tree"
proof -
  consider "p = []" | i where "p = [i]" | j i where "p = [j, i]" | k j i where "p = [k, j, i]"
    using assms(1) by (auto simp: good_def length_Suc_conv numeral_3_eq_3 le_Suc_eq)
  then show ?thesis
  proof cases
    case 1
    with assms(2) show ?thesis by (simp add: PML4_BASE_def boot_tree_def)
  next
    case (2 i)
    with assms show ?thesis using boot_table1 [of i] by (auto simp: good_def boot_tree_def split: if_splits)
  next
    case (3 j i)
    with assms show ?thesis using boot_table2 [of i j] by (auto simp: good_def boot_tree_def split: if_splits)
  next
    case (4 k j i)
    with assms show ?thesis using boot_table3 [of i j k] by (auto simp: good_def boot_tree_def split: if_splits)
  qed
qed

text \<open>So the invariant holds from the start, whatever pages \<open>wubu_vmm_init\<close> has reserved.\<close>

lemma boot_pt_inv:
  assumes "vm_ok st" and "v_mem st = boot_mem"
  shows "pt_inv st"
  unfolding pt_inv_def
proof (intro conjI allI impI)
  fix p q a
  assume "good p \<and> good q \<and> table_at (v_mem st) p = Some a \<and> table_at (v_mem st) q = Some a"
  then have "(p, a) \<in> set boot_tree" "(q, a) \<in> set boot_tree" using boot_tables assms(2) by auto
  then show "p = q" by (auto simp: boot_tree_def)
next
  fix p i
  assume a: "good p \<and> i < 28672 \<and> table_at (v_mem st) p = Some (page_addr i)"
  then have "(p, page_addr i) \<in> set boot_tree" using boot_tables assms(2) by auto
  then have "unat (page_addr i) < 0x1000000" by (auto simp: boot_tree_def)
  with page_addr_unat [of i] a show "bm_test st i" by simp
qed (rule assms(1))

lemma boot_vmm_inv: "pt_inv boot_vmm"
proof (rule boot_pt_inv)
  show "vm_ok boot_vmm" using blank_ok by (simp add: boot_vmm_def vm_ok_def)
qed (simp add: boot_vmm_def)

text \<open>The first gigabyte translates to itself by large pages; the addresses from there on, and the
  region the kernel registers for demand filling, are under none.\<close>

lemma boot_small:
  assumes "k < 512" and "j < 512" and "i < 512" and "(j, i) \<noteq> (0, 0)"
  shows "large_on boot_mem [k, j, i] = None"
  using assms boot_table1 [OF assms(3)] boot_table2 [OF assms(3,2)] boot_slot(1) [OF assms(3)]
    boot_slot(2,4) [OF assms(2)] boot_slot(5) [OF assms(1)]
  by (auto simp: boot_entries PML4_BASE_def simp del: table_at.simps(2) split: if_splits)

end
