(* ===== verification/Vmm_Props.thy ===== *)
theory Vmm_Props
  imports Vmm_Boot
begin

text \<open>
  What mapping, unmapping, demand filling and copy-on-write do to the translations and to
  the contents of memory, for addresses that no large page maps; the witnesses run on the
  tables of the boot code.
\<close>

section \<open>Room\<close>

text \<open>The free pages: a descent takes one at most, and fails only when there is none.\<close>

definition free_set :: "vmm \<Rightarrow> nat set" where
  "free_set st = {i. i < 28672 \<and> \<not> bm_test st i}"

lemma finite_free_set [simp]: "finite (free_set st)"
  by (simp add: free_set_def)

lemma alloc_one_room: "pt_inv st \<Longrightarrow> free_set st \<noteq> {} \<Longrightarrow> wubu_vmm_alloc_pages 1 st = (p, st1) \<Longrightarrow> p \<noteq> 0"
proof
  assume inv: "pt_inv st" and "free_set st \<noteq> {}" and a: "wubu_vmm_alloc_pages 1 st = (p, st1)" "p = 0"
  then obtain i where i: "i < 28672" "\<not> bm_test st i" by (auto simp: free_set_def)
  have "all_free st i 1"
    unfolding all_free_def using i(2) by (metis le_antisym less_Suc_eq_le Suc_eq_plus1)
  moreover have "\<forall>s. s + unat (1 :: u32) \<le> 28672 \<longrightarrow> \<not> all_free st s (unat (1 :: u32))"
    using alloc_rule(1) [of st 1 p st1] inv a by (auto simp: pt_inv_def)
  ultimately show False using i(1) by auto
qed

lemma fresh_page_room:
  assumes "fresh_page st p st1 k" and "bm_test st2 = bm_test st1"
  shows "card (free_set st2) = card (free_set st) - 1"
proof -
  have "free_set st2 = free_set st - {k}" and "k \<in> free_set st"
    using assms by (auto simp: fresh_page_def free_set_def)
  then show ?thesis by simp
qed

lemma descend_room:
  assumes "pt_inv st" and "descend a i st = (r, st')"
  shows "free_set st \<noteq> {} \<Longrightarrow> r \<noteq> None" and "card (free_set st) \<le> card (free_set st') + 1"
proof -
  obtain b st1 where al: "wubu_vmm_alloc_pages 1 st = (b, st1)" by (rule prod.exhaust)
  show "r \<noteq> None" if "free_set st \<noteq> {}"
    using assms(2) alloc_one_room [OF assms(1) that al] al
    by (auto simp: descend_def Let_def split: if_splits)
  show "card (free_set st) \<le> card (free_set st') + 1"
  proof (cases "present (v_mem st (slot_addr a i)) \<or> b = 0")
    case True
    then have "st' = st" using assms al alloc_one_fail [OF assms(1), of st1]
      by (auto simp: descend_def Let_def split: if_splits)
    then show ?thesis by simp
  next
    case False
    then obtain k where f: "fresh_page st b st1 k" using alloc_one [OF assms(1) al] by auto
    moreover have "bm_test st' = bm_test st1" using assms(2) False al
      by (auto simp: descend_def Let_def zero_page_def)
    ultimately show ?thesis using fresh_page_room by fastforce
  qed
qed

section \<open>Mapping\<close>

lemma vpath_parts:
  "good [vidx 39 v]" "good [vidx 30 v, vidx 39 v]" "good [vidx 21 v, vidx 30 v, vidx 39 v]"
  by (simp_all add: good_def)

text \<open>A page that is in use (or not managed) and is not a table.\<close>

definition data_page :: "vmm \<Rightarrow> u64 \<Rightarrow> bool" where
  "data_page st c \<longleftrightarrow> aligned c \<and> (\<forall>k < 28672. c = page_addr k \<longrightarrow> bm_test st k) \<and>
     (\<forall>q. good q \<longrightarrow> table_at (v_mem st) q \<noteq> Some c)"

lemma small_parts:
  assumes "small_pages st v"
  shows "large_on (v_mem st) [vidx 39 v] = None" and "large_on (v_mem st) [vidx 30 v, vidx 39 v] = None"
    and "large_on (v_mem st) [vidx 21 v, vidx 30 v, vidx 39 v] = None"
proof -
  show 3: "large_on (v_mem st) [vidx 21 v, vidx 30 v, vidx 39 v] = None"
    using assms by (simp only: small_pages_def vpath_def)
  show 2: "large_on (v_mem st) [vidx 30 v, vidx 39 v] = None" by (rule large_on_prefix [OF 3])
  show "large_on (v_mem st) [vidx 39 v] = None" by (rule large_on_prefix [OF 2])
qed

text \<open>A successful map: three descents and a write to the last-level slot.\<close>

lemma map_page_rule:
  assumes inv: "pt_inv st" and small: "small_pages st v"
    and map: "wubu_vmm_map_page v phys flags st = (0, st')"
  defines "e \<equiv> phys OR (ucast flags AND 0xFFF)"
  obtains st3 pt where "pt_inv st3" and "table_at (v_mem st3) (vpath v) = Some pt"
    and "st' = set_pte pt (vidx 12 v) e st3"
    and "\<And>q j. good q \<Longrightarrow> length q = 3 \<Longrightarrow> j < 512 \<Longrightarrow> pte_of (v_mem st3) q j = pte_of (v_mem st) q j"
    and "\<And>c j. data_page st c \<Longrightarrow> j < 512 \<Longrightarrow> c \<noteq> pt \<and> v_mem st3 (slot_addr c j) = v_mem st (slot_addr c j)"
    and "\<And>j. bm_test st j \<Longrightarrow> bm_test st3 j"
    and "\<And>j. j < 28672 \<Longrightarrow> bm_test st j \<Longrightarrow> v_refs st3 ! j = v_refs st ! j"
    and "\<And>q i. good q \<Longrightarrow> i < 28672 \<Longrightarrow> bm_test st i \<Longrightarrow> table_at (v_mem st3) q = Some (page_addr i) \<Longrightarrow>
        table_at (v_mem st) q = Some (page_addr i)"
    and "card (free_set st) \<le> card (free_set st3) + 3" and "v_demand st3 = v_demand st"
    and "\<And>q. good q \<Longrightarrow> large_on (v_mem st3) q = large_on (v_mem st) q"
proof -
  obtain pdp st1 pd st2 pt st3 where d1: "descend PML4_BASE (vidx 39 v) st = (Some pdp, st1)"
    and d2: "descend pdp (vidx 30 v) st1 = (Some pd, st2)"
    and d3: "descend pd (vidx 21 v) st2 = (Some pt, st3)"
    and st': "st' = set_pte pt (vidx 12 v) e st3"
    using map unfolding wubu_vmm_map_page_def e_def set_pte_def
    by (auto split: prod.splits option.splits)
  have s1: "descended st PML4_BASE st1 \<and> table_at (v_mem st1) [vidx 39 v] = Some pdp"
    by (rule descend_rule [OF inv _ vpath_parts(1) small_parts(1) [OF small] d1]) simp
  note D1 = descendedD [OF conjunct1 [OF s1]]
  have l1: "large_on (v_mem st1) [vidx 30 v, vidx 39 v] = None"
    using D1(9) [OF vpath_parts(2)] small_parts(2) [OF small] by (simp only:)
  note s2 = descend_rule [OF D1(1) conjunct2 [OF s1] vpath_parts(2) l1 d2]
  note D2 = descendedD [OF conjunct1 [OF s2]]
  have l2: "large_on (v_mem st2) [vidx 21 v, vidx 30 v, vidx 39 v] = None"
    using D1(9) [OF vpath_parts(3)] D2(9) [OF vpath_parts(3)] small_parts(3) [OF small] by (simp only:)
  note s3 = descend_rule [OF D2(1) conjunct2 [OF s2] vpath_parts(3) l2 d3]
  note D3 = descendedD [OF conjunct1 [OF s3]]
  have up: "table_at (v_mem st3) [vidx 39 v] = Some pdp"
    "table_at (v_mem st3) [vidx 30 v, vidx 39 v] = Some pd"
    by (intro D3(7) D2(7) vpath_parts conjunct2 [OF s1] conjunct2 [OF s2])+
  show thesis
  proof (rule that [of st3 pt])
    show "pt_inv st3" by (rule D3(1))
    show "table_at (v_mem st3) (vpath v) = Some pt" using s3 by (simp only: vpath_def)
    show "st' = set_pte pt (vidx 12 v) e st3" by (rule st')
    show "pte_of (v_mem st3) q j = pte_of (v_mem st) q j" if "good q" "length q = 3" "j < 512" for q j
      using D1(3) [OF that] D2(3) [OF that] D3(3) [OF that] by simp
    show "bm_test st3 j" if "bm_test st j" for j by (intro D3(5) D2(5) D1(5) that)
    show "v_refs st3 ! j = v_refs st ! j" if "j < 28672" "bm_test st j" for j
      using D1(6) [OF that] D2(6) [OF that(1) D1(5) [OF that(2)]] D3(6) [OF that(1) D2(5) [OF D1(5) [OF that(2)]]]
      by simp
    show "card (free_set st) \<le> card (free_set st3) + 3"
      using descend_room(2) [OF inv d1] descend_room(2) [OF D1(1) d2] descend_room(2) [OF D2(1) d3] by simp
    show "v_demand st3 = v_demand st" using D1(2) D2(2) D3(2) by simp
    show "large_on (v_mem st3) q = large_on (v_mem st) q" if "good q" for q
      using D1(9) [OF that] D2(9) [OF that] D3(9) [OF that] by simp
    show "table_at (v_mem st) q = Some (page_addr i)"
      if "good q" "i < 28672" "bm_test st i" "table_at (v_mem st3) q = Some (page_addr i)" for q i
      using D3(8) [OF that(1,4)] D2(8) [OF that(1)] D1(8) [OF that(1)] page_addr_inj [OF that(2)] that(3)
        D1(5) D2(5) by metis
    show "c \<noteq> pt \<and> v_mem st3 (slot_addr c j) = v_mem st (slot_addr c j)"
      if d: "data_page st c" and j: "j < 512" for c j
    proof -
      have c: "aligned c" "j < 512" "\<forall>k < 28672. c = page_addr k \<longrightarrow> bm_test st k"
        "\<And>q. good q \<Longrightarrow> table_at (v_mem st) q \<noteq> Some c" using d j by (auto simp: data_page_def)
      have c1: "\<forall>k < 28672. c = page_addr k \<longrightarrow> bm_test st1 k"
        and c2: "\<forall>k < 28672. c = page_addr k \<longrightarrow> bm_test st2 k" using c(3) D1(5) D2(5) by blast+
      have n1: "table_at (v_mem st1) q \<noteq> Some c" if "good q" for q using D1(8) [OF that] c(3,4) that by blast
      have n2: "table_at (v_mem st2) q \<noteq> Some c" if "good q" for q using D2(8) [OF that] c1 n1 that by blast
      have n3: "table_at (v_mem st3) q \<noteq> Some c" if "good q" for q using D3(8) [OF that] c2 n2 that by blast
      have "c \<noteq> PML4_BASE" using c(4) [of "[]"] by (auto simp: good_def)
      moreover have "c \<noteq> pdp" "c \<noteq> pd" "c \<noteq> pt" using n3 up vpath_parts s3 by blast+
      ultimately show ?thesis
        using D1(4) [OF c(1,2)] D2(4) [OF c(1,2)] D3(4) [OF c(1,2)] c(3) c1 c2 by simp
    qed
  qed
qed

lemma vlookup_set_pte:
  assumes "pt_inv st" and "table_at (v_mem st) (vpath v) = Some pt"
  shows "vlookup (set_pte pt (vidx 12 v) e st) w =
    (if same_page w v then (if present e then Some e else None) else vlookup st w)"
  using set_leaf(3) [OF assms good_vpath(1,2) vidx_less, of "vpath w" 12 v e]
    set_leaf(4) [OF assms good_vpath(1,2) vidx_less, of "vpath w" "vidx 12 w" 12 v e] table_not_large [OF assms(2)]
  by (auto simp: vlookup_def same_page_def split: option.split)

lemma vlookup_cong:
  assumes "\<And>q. good q \<Longrightarrow> large_on (v_mem st') q = large_on (v_mem st) q"
    and "\<And>q j. good q \<Longrightarrow> length q = 3 \<Longrightarrow> j < 512 \<Longrightarrow> pte_of (v_mem st') q j = pte_of (v_mem st) q j"
  shows "vlookup st' w = vlookup st w" and "small_pages st' w = small_pages st w"
  using assms by (simp_all add: vlookup_def small_pages_def split: option.split)

text \<open>What is left when the slot of a data page is not the one written.\<close>

lemma set_pte_data:
  assumes "table_at m r = Some pt" and "i < 512" and "c \<noteq> pt" and "aligned c" and "j < 512"
  shows "v_mem (set_pte pt i e st) (slot_addr c j) = v_mem st (slot_addr c j)"
  using slot_addr_inj(1) [OF assms(4) table_aligned [OF assms(1)] assms(5,2)] assms(3)
  by (auto simp: set_pte_def)

lemma present_flags:
  assumes "flags AND 1 = (1 :: u32)"
  shows "present (phys OR (ucast flags AND 0xFFF))"
proof -
  have "bit flags 0" using assms by (simp add: and_one_eq bit_0 odd_iff_mod_2_eq_one)
  moreover have "bit (0xFFF :: u64) 0" by simp
  ultimately show ?thesis by (simp add: present_bit bit_or_iff bit_and_iff bit_ucast_iff del: bit_0)
qed

lemma map_page_room:
  assumes inv: "pt_inv st" and small: "small_pages st v" and room: "3 \<le> card (free_set st)"
  shows "\<exists>st'. wubu_vmm_map_page v phys flags st = (0, st')"
proof -
  have ne: "free_set s \<noteq> {}" if "0 < card (free_set s)" for s using that by auto
  obtain r1 st1 where d1: "descend PML4_BASE (vidx 39 v) st = (r1, st1)" by (rule prod.exhaust)
  then obtain pdp where r1: "r1 = Some pdp" using descend_room(1) [OF inv d1] ne room by fastforce
  have s1: "descended st PML4_BASE st1 \<and> table_at (v_mem st1) [vidx 39 v] = Some pdp"
    by (rule descend_rule [OF inv _ vpath_parts(1) small_parts(1) [OF small] d1 [unfolded r1]]) simp
  note D1 = descendedD(1) [OF conjunct1 [OF s1]]
  have l1: "large_on (v_mem st1) [vidx 30 v, vidx 39 v] = None"
    using descendedD(9) [OF conjunct1 [OF s1] vpath_parts(2)] small_parts(2) [OF small] by (simp only:)
  obtain r2 st2 where d2: "descend pdp (vidx 30 v) st1 = (r2, st2)" by (rule prod.exhaust)
  have c1: "2 \<le> card (free_set st1)" using descend_room(2) [OF inv d1] room by simp
  then obtain pd where r2: "r2 = Some pd" using descend_room(1) [OF D1 d2] ne by fastforce
  note s2 = descend_rule [OF D1 conjunct2 [OF s1] vpath_parts(2) l1 d2 [unfolded r2]]
  note D2 = descendedD(1) [OF conjunct1 [OF s2]]
  obtain r3 st3 where d3: "descend pd (vidx 21 v) st2 = (r3, st3)" by (rule prod.exhaust)
  have "1 \<le> card (free_set st2)" using descend_room(2) [OF D1 d2] c1 by simp
  then obtain pt where r3: "r3 = Some pt" using descend_room(1) [OF D2 d3] ne by fastforce
  show ?thesis by (simp add: wubu_vmm_map_page_def d1 d2 d3 r1 r2 r3)
qed

section \<open>Faults\<close>

text \<open>The page base of a fault has the indices of the address.\<close>

lemma vidx_page: "12 \<le> sh \<Longrightarrow> vidx sh (va AND NOT (PAGE - 1)) = vidx sh va"
proof -
  assume sh: "12 \<le> sh"
  have "PAGE - 1 = 0xFFF" by (simp add: PAGE_def)
  moreover have "drop_bit sh (va AND NOT 0xFFF) = drop_bit sh va"
  proof (rule bit_word_eqI)
    fix k
    have "bit (va AND NOT 0xFFF) (sh + k) = bit va (sh + k)"
      using sh bit_imp_le_length [of va "sh + k"]
      by (simp only: bit_and_iff bit_not_iff bit_fff) (auto simp: possible_bit_def)
    then show "bit (drop_bit sh (va AND NOT 0xFFF)) k = bit (drop_bit sh va) k"
      by (simp only: bit_drop_bit_eq comp_def)
  qed
  ultimately show ?thesis by (simp only: vidx_def)
qed

lemma vpath_page: "vpath (va AND NOT (PAGE - 1)) = vpath va"
  unfolding vpath_def by (subst (1 2 3) vidx_page) simp_all

text \<open>The fresh page, cleared, is still not part of any table.\<close>

lemma zeroed_page:
  assumes inv: "pt_inv st" and f: "fresh_page st phys st1 k"
  shows "good q \<Longrightarrow> table_at (v_mem (zero_page phys st1)) q = table_at (v_mem st) q"
    and "pt_inv (zero_page phys st1)"
    and "good q \<Longrightarrow> j < 512 \<Longrightarrow> pte_of (v_mem (zero_page phys st1)) q j = pte_of (v_mem st) q j"
    and "bm_test (zero_page phys st1) = bm_test st1"
    and "aligned phys"
    and "good q \<Longrightarrow> large_on (v_mem (zero_page phys st1)) q = large_on (v_mem st) q"
proof -
  let ?z = "zero_page phys st1"
  show ap: "aligned phys" using f aligned_page_addr by (auto simp: fresh_page_def)
  have "vm_ok st1" using f by (simp add: fresh_page_def)
  then have bz: "bm_test ?z = bm_test st1" "vm_ok ?z" by (simp_all add: zero_page_def vm_ok_def)
  have zm: "\<forall>c j. aligned c \<and> c \<noteq> phys \<and> j < 512 \<longrightarrow> v_mem ?z (slot_addr c j) = v_mem st1 (slot_addr c j)"
    using zero_page_mem(2) [OF ap] by blast
  note z = scratch_page [OF inv f zm bz]
  show "good q \<Longrightarrow> table_at (v_mem ?z) q = table_at (v_mem st) q" and "pt_inv ?z"
    and "good q \<Longrightarrow> j < 512 \<Longrightarrow> pte_of (v_mem ?z) q j = pte_of (v_mem st) q j"
    and "bm_test ?z = bm_test st1" and "good q \<Longrightarrow> large_on (v_mem ?z) q = large_on (v_mem st) q"
    by (rule z(1), assumption, rule z(2), rule z(4), assumption+, rule bz(1), rule z(3), assumption)
qed

lemma demand_fill_rule:
  assumes inv: "pt_inv st" and small: "small_pages st va" and fill: "wubu_vmm_demand_fill va st = (0, st')"
  obtains k where "k < 28672" and "\<not> bm_test st k" and "bm_test st' k" and "pt_inv st'"
    and "vlookup st' va = Some (page_addr k OR 3)"
    and "\<forall>w. \<not> same_page w va \<longrightarrow> vlookup st' w = vlookup st w"
    and "\<forall>j < 512. v_mem st' (slot_addr (page_addr k) j) = 0"
    and "\<forall>c j. data_page st c \<and> j < 512 \<longrightarrow> v_mem st' (slot_addr c j) = v_mem st (slot_addr c j)"
proof -
  let ?pb = "va AND NOT (PAGE - 1)"
  obtain phys st1 st2 where al: "wubu_vmm_alloc_pages 1 st = (phys, st1)" "phys \<noteq> 0"
    and mp: "wubu_vmm_map_page ?pb phys 3 (zero_page phys st1) = (0, st2)"
    and st': "st' = st2\<lparr>v_faults := v_faults st2 + 1\<rparr>"
    using fill by (auto simp: wubu_vmm_demand_fill_def split: if_splits prod.splits)
  obtain k where f: "fresh_page st phys st1 k" using alloc_one [OF inv al] ..
  then have k: "k < 28672" "phys = page_addr k" "\<not> bm_test st k" "bm_test st1 k" "vm_ok st1"
    "v_mem st1 = v_mem st" "\<And>j. bm_test st j \<Longrightarrow> bm_test st1 j" by (auto simp: fresh_page_def)
  let ?z = "zero_page phys st1"
  note z = zeroed_page [OF inv f]
  note bz = z(4) and ap = z(5)
  have sm: "small_pages ?z ?pb" using small z(6) [OF good_vpath(1)] by (simp add: small_pages_def vpath_page)
  obtain st3 pt where 3: "pt_inv st3" "table_at (v_mem st3) (vpath ?pb) = Some pt"
    "st2 = set_pte pt (vidx 12 ?pb) (phys OR (ucast (3 :: u32) AND 0xFFF)) st3"
    "\<And>q j. good q \<Longrightarrow> length q = 3 \<Longrightarrow> j < 512 \<Longrightarrow> pte_of (v_mem st3) q j = pte_of (v_mem ?z) q j"
    "\<And>c j. data_page ?z c \<Longrightarrow> j < 512 \<Longrightarrow> c \<noteq> pt \<and> v_mem st3 (slot_addr c j) = v_mem ?z (slot_addr c j)"
    "\<And>j. bm_test ?z j \<Longrightarrow> bm_test st3 j" "\<And>q. good q \<Longrightarrow> large_on (v_mem st3) q = large_on (v_mem ?z) q"
    using map_page_rule [OF z(2) sm mp] by blast
  have same: "vpath ?pb = vpath va" "vidx 12 ?pb = vidx 12 va" by (rule vpath_page, rule vidx_page) simp
  have e: "phys OR (ucast (3 :: u32) AND 0xFFF) = phys OR 3" by simp
  have mem: "v_mem st' = v_mem (set_pte pt (vidx 12 va) (phys OR 3) st3)" by (simp add: st' 3(3) same e)
  have t3: "table_at (v_mem st3) (vpath va) = Some pt" using 3(2) same by simp
  have pres: "present (phys OR 3)" using next_table_new(2) [OF k(1)] k(2) by simp
  have look: "vlookup st' w = (if same_page w va then Some (phys OR 3) else vlookup st w)" for w
  proof -
    have "vlookup st3 w = vlookup ?z w" by (rule vlookup_cong(1)) (rule 3(7), assumption, rule 3(4), assumption+)
    moreover have "vlookup ?z w = vlookup st w" by (rule vlookup_cong(1)) (rule z(6), assumption, rule z(3), assumption+)
    moreover have "vlookup st' w = vlookup (set_pte pt (vidx 12 va) (phys OR 3) st3) w"
      unfolding vlookup_def mem ..
    ultimately show ?thesis using vlookup_set_pte [OF 3(1) t3] pres by simp
  qed
  have zero: "v_mem st' (slot_addr phys j) = 0" if "j < 512" for j
  proof -
    have "\<forall>k' < 28672. phys = page_addr k' \<longrightarrow> bm_test ?z k'"
      using page_addr_inj [OF _ k(1)] k(2,4) bz by auto
    moreover have "\<And>q. good q \<Longrightarrow> table_at (v_mem ?z) q \<noteq> Some phys"
      using z(1) f unfolding fresh_page_def by metis
    ultimately have "data_page ?z phys" using ap unfolding data_page_def by blast
    then have "phys \<noteq> pt" "v_mem st3 (slot_addr phys j) = 0"
      using 3(5) [OF _ that] zero_page_mem(1) [OF ap that] by auto
    then show ?thesis
      using slot_addr_inj(1) [OF ap table_aligned [OF t3] that vidx_less] by (auto simp: mem set_pte_def)
  qed
  have data: "v_mem st' (slot_addr c j) = v_mem st (slot_addr c j)" if c: "data_page st c" "j < 512" for c j
  proof -
    have dz: "aligned c" "data_page ?z c" using c(1) k(7) z(1) bz unfolding data_page_def by auto
    have "c \<noteq> phys" using c(1) k(1-3) unfolding data_page_def by blast
    then have "v_mem ?z (slot_addr c j) = v_mem st (slot_addr c j)"
      using zero_page_mem(2) [OF ap dz(1) _ c(2)] k(6) by simp
    moreover note 3(5) [OF dz(2) c(2)]
    ultimately show ?thesis
      unfolding mem using set_pte_data [OF t3 vidx_less _ dz(1) c(2)] by simp
  qed
  have p2: "pt_inv st2" unfolding 3(3) same e by (rule set_leaf(1) [OF 3(1) t3 good_vpath vidx_less])
  then have "vm_ok st'" by (simp add: st' pt_inv_def vm_ok_def)
  then have "pt_inv st'" by (rule pt_inv_mono [OF p2]) (simp_all add: st')
  moreover have "bm_test st' k" using 3(6) [of k] bz k(4) by (simp add: st' 3(3) set_pte_def)
  moreover have "same_page va va" by (simp add: same_page_def)
  ultimately show thesis
    by (intro that [OF k(1,3)]) (simp_all add: look zero [unfolded k(2)] k(2) data)
qed

lemma demand_fill_room:
  assumes "pt_inv st" and "wubu_vmm_is_demand va st" and "4 \<le> card (free_set st)" and "small_pages st va"
  shows "\<exists>st'. wubu_vmm_demand_fill va st = (0, st')"
proof -
  obtain phys st1 where al: "wubu_vmm_alloc_pages 1 st = (phys, st1)" by (rule prod.exhaust)
  have "free_set st \<noteq> {}" using assms(3) by auto
  then have nz: "phys \<noteq> 0" by (rule alloc_one_room [OF assms(1) _ al])
  obtain k where f: "fresh_page st phys st1 k" using alloc_one [OF assms(1) al nz] ..
  let ?z = "zero_page phys st1"
  have "3 \<le> card (free_set ?z)" using fresh_page_room [OF f zeroed_page(4) [OF assms(1) f]] assms(3) by simp
  then obtain st2 where "wubu_vmm_map_page (va AND NOT (PAGE - 1)) phys 3 ?z = (0, st2)"
    using map_page_room [OF zeroed_page(2) [OF assms(1) f], of "va AND NOT (PAGE - 1)" phys 3]
      zeroed_page(6) [OF assms(1) f good_vpath(1)] assms(4) by (auto simp: small_pages_def vpath_page)
  with al nz assms(2) show ?thesis by (simp add: wubu_vmm_demand_fill_def)
qed

text \<open>A write to a shared page.\<close>

text \<open>What the fault handler reads from the tables.\<close>

lemma cow_fault_eq:
  assumes "vlookup st va = Some pte" and "pte AND 2 = 0"
    and "pte AND NOT 0xFFF = page_addr i" and "i < 28672" and "small_pages st va"
  obtains pt where "table_at (v_mem st) (vpath va) = Some pt"
    and "wubu_vmm_cow_fault va st = (if v_refs st ! i \<le> 1 then (1, set_pte pt (vidx 12 va) (pte OR 2) st)
      else case wubu_vmm_alloc_pages 1 st of (copy, st1) \<Rightarrow>
        if copy = 0 then (0, st1)
        else (1, set_pte pt (vidx 12 va) ((copy AND NOT 0xFFF) OR 3)
          (wubu_vmm_free_pages (page_addr i) 1 (copy_page (page_addr i) copy st1))))"
proof -
  let ?pb = "va AND NOT (PAGE - 1)"
  have same: "vpath ?pb = vpath va" "vidx 12 ?pb = vidx 12 va" by (rule vpath_page, rule vidx_page) simp
  obtain pt where t: "table_at (v_mem st) (vpath va) = Some pt"
    and pte: "v_mem st (slot_addr pt (vidx 12 va)) = pte" "present pte"
    using assms(1,5) by (auto simp: vlookup_def small_pages_def pte_of_def Let_def split: option.splits if_splits)
  have "small_pages st ?pb" using assms(5) by (simp add: small_pages_def same)
  note walk = walk_tables_eq [OF this]
  have rc: "wubu_vmm_refcount (page_addr i) st = v_refs st ! i" by (rule single_page(3) [OF assms(4)])
  show thesis
    by (rule that [OF t])
      (simp only: wubu_vmm_cow_fault_def Let_def walk same t option.case pte assms(2,3) rc
        if_False if_True simp_thms)
qed

lemma cow_alone_rule:
  assumes "pt_inv st" and "vlookup st va = Some pte" and "pte AND 2 = 0"
    and "pte AND NOT 0xFFF = page_addr i" and "i < 28672" and "small_pages st va" and "v_refs st ! i \<le> 1"
  shows "\<exists>st'. wubu_vmm_cow_fault va st = (1, st') \<and> pt_inv st' \<and> v_refs st' = v_refs st \<and>
    (\<forall>w. vlookup st' w = (if same_page w va then Some (pte OR 2) else vlookup st w))"
proof -
  obtain pt where t: "table_at (v_mem st) (vpath va) = Some pt"
    and eq: "wubu_vmm_cow_fault va st = (1, set_pte pt (vidx 12 va) (pte OR 2) st)"
    using cow_fault_eq [OF assms(2-6)] assms(7) by metis
  have "present pte" using assms(2,6)
    by (auto simp: vlookup_def small_pages_def pte_of_def Let_def split: option.splits if_splits)
  then have "present (pte OR 2)" by (simp only: present_bit bit_or_iff) simp
  with eq set_leaf(1) [OF assms(1) t good_vpath vidx_less] vlookup_set_pte [OF assms(1) t]
  show ?thesis by (simp add: set_pte_def)
qed

lemma cow_room:
  assumes "pt_inv st" and "vlookup st va = Some pte" and "pte AND 2 = 0"
    and "pte AND NOT 0xFFF = page_addr i" and "i < 28672" and "small_pages st va" and "free_set st \<noteq> {}"
  shows "\<exists>st'. wubu_vmm_cow_fault va st = (1, st')"
proof -
  obtain copy st1 where al: "wubu_vmm_alloc_pages 1 st = (copy, st1)" by (rule prod.exhaust)
  have "copy \<noteq> 0" by (rule alloc_one_room [OF assms(1,7) al])
  then show ?thesis by (rule_tac cow_fault_eq [OF assms(2-6)]) (simp add: al split: if_split)
qed

lemma cow_shared_rule:
  assumes inv: "pt_inv st" and look: "vlookup st va = Some pte" "pte AND 2 = 0"
    and page: "pte AND NOT 0xFFF = page_addr i" "i < 28672" and small: "small_pages st va" and shared: "1 < v_refs st ! i"
    and notab: "\<And>q. good q \<Longrightarrow> table_at (v_mem st) q \<noteq> Some (page_addr i)"
    and cow: "wubu_vmm_cow_fault va st = (1, st')"
  obtains k where "k < 28672" and "\<not> bm_test st k" and "k \<noteq> i" and "pt_inv st'"
    and "\<And>w. vlookup st' w = (if same_page w va then Some (page_addr k OR 3) else vlookup st w)"
    and "\<And>j. j < 512 \<Longrightarrow> v_mem st' (slot_addr (page_addr k) j) = v_mem st (slot_addr (page_addr i) j) \<and>
      v_mem st' (slot_addr (page_addr i) j) = v_mem st (slot_addr (page_addr i) j)"
    and "v_refs st' ! i = v_refs st ! i - 1" and "v_refs st' ! k = 1" and "bm_test st' i"
proof -
  let ?src = "page_addr i"
  obtain pt where t: "table_at (v_mem st) (vpath va) = Some pt"
    and "wubu_vmm_cow_fault va st = (if v_refs st ! i \<le> 1 then (1, set_pte pt (vidx 12 va) (pte OR 2) st)
      else case wubu_vmm_alloc_pages 1 st of (copy, st1) \<Rightarrow>
        if copy = 0 then (0, st1)
        else (1, set_pte pt (vidx 12 va) ((copy AND NOT 0xFFF) OR 3)
          (wubu_vmm_free_pages ?src 1 (copy_page ?src copy st1))))"
    by (rule cow_fault_eq [OF look page small])
  moreover have "\<not> v_refs st ! i \<le> 1" using shared by simp
  ultimately have eq: "wubu_vmm_cow_fault va st = (case wubu_vmm_alloc_pages 1 st of (copy, st1) \<Rightarrow>
      if copy = 0 then (0, st1)
      else (1, set_pte pt (vidx 12 va) ((copy AND NOT 0xFFF) OR 3)
        (wubu_vmm_free_pages ?src 1 (copy_page ?src copy st1))))" by (simp only: if_False)
  obtain copy st1 where al1: "wubu_vmm_alloc_pages 1 st = (copy, st1)" by (rule prod.exhaust)
  have al2: "copy \<noteq> 0" and st': "st' = set_pte pt (vidx 12 va) ((copy AND NOT 0xFFF) OR 3)
      (wubu_vmm_free_pages ?src 1 (copy_page ?src copy st1))"
    using cow unfolding eq al1 prod.case by (metis prod.inject zero_neq_one)+
  note al = al1 al2
  obtain k where f: "fresh_page st copy st1 k" using alloc_one [OF inv al] ..
  then have k: "k < 28672" "copy = page_addr k" "\<not> bm_test st k" "bm_test st1 k" "vm_ok st1"
    "v_mem st1 = v_mem st" "v_refs st1 ! k = 1" by (auto simp: fresh_page_def)
  have "0 < v_refs st ! i" by (rule order_less_trans [OF _ shared]) simp
  then have used: "bm_test st i" using inv page(2) by (simp add: pt_inv_def vm_ok_def)
  then have ik: "k \<noteq> i" using k(3) by auto
  have r1: "v_refs st1 ! i = v_refs st ! i" "bm_test st1 i" using f ik page(2) used by (auto simp: fresh_page_def)
  let ?c = "copy_page ?src copy st1" and ?f = "free_page i (copy_page ?src copy st1)"
  have ali: "aligned ?src" "aligned copy" using aligned_page_addr page(2) k(1,2) by auto
  have ne: "?src \<noteq> copy" using page_addr_inj [OF page(2) k(1)] k(2) ik by auto
  have c: "bm_test ?c = bm_test st1" "vm_ok ?c" "v_refs ?c = v_refs st1"
    using k(5) by (simp_all add: copy_page_def vm_ok_def)
  note cp = copy_page_mem [OF ali ne]
  have sh: "1 < v_refs ?c ! i" using shared r1 c(3) by simp
  note fr = free_page_shared [OF c(2) page(2) sh]
  have fc: "bm_test ?f = bm_test st1" using fr(2) c(1) by simp
  have "\<forall>c j. aligned c \<and> c \<noteq> copy \<and> j < 512 \<longrightarrow> v_mem ?f (slot_addr c j) = v_mem st1 (slot_addr c j)"
    using cp(2) unfolding fr(4) by blast
  note s = scratch_page [OF inv f this fc fr(1)]
  have st'': "st' = set_pte pt (vidx 12 va) (page_addr k OR 3) ?f"
  proof -
    have "(copy OR 0) AND NOT 0xFFF = copy" by (rule strip_flags [OF ali(2)]) simp
    then have "copy AND NOT 0xFFF = copy" by (simp only: or.right_neutral)
    then show ?thesis unfolding st' by (simp only: single_page(2) [OF page(2)] k(2))
  qed
  have tf: "table_at (v_mem ?f) (vpath va) = Some pt" using s(1) [OF good_vpath(1)] t by simp
  have lookf: "vlookup ?f w = vlookup st w" for w
    by (rule vlookup_cong(1)) (rule s(3), assumption, rule s(4), assumption+)
  have "vlookup st' w = (if same_page w va then Some (page_addr k OR 3) else vlookup st w)" for w
    unfolding st'' using vlookup_set_pte [OF s(2) tf, of "page_addr k OR 3" w] lookf next_table_new(2) [OF k(1)]
    by simp
  moreover have "v_mem st' (slot_addr copy j) = v_mem st (slot_addr ?src j) \<and>
      v_mem st' (slot_addr ?src j) = v_mem st (slot_addr ?src j)" if "j < 512" for j
  proof -
    have "pt \<noteq> ?src" "pt \<noteq> copy" using notab [OF good_vpath(1)] t f by (auto simp: fresh_page_def)
    then have "slot_addr copy j \<noteq> slot_addr pt (vidx 12 va)" "slot_addr ?src j \<noteq> slot_addr pt (vidx 12 va)"
      using slot_addr_inj(1) [OF _ table_aligned [OF t] that vidx_less] ali by blast+
    then show ?thesis
      using cp(1) [OF that] cp(2) [OF ali(1) ne that] k(6) fr(4) by (simp add: st'' set_pte_def)
  qed
  moreover have "pt_inv st'" unfolding st'' by (rule set_leaf(1) [OF s(2) tf good_vpath vidx_less])
  moreover have "length (v_refs st1) = 28672" using k(5) by (simp add: vm_ok_def)
  ultimately show thesis
    using that [of k] k ik fr(3) r1 c(3) page(2) fc by (simp add: st'' set_pte_def)
qed

section \<open>The machine after boot\<close>

lemma boot_room: "card (free_set boot_vmm) = 28672"
proof -
  have "free_set boot_vmm = {..<28672}" using blank_free by (auto simp: free_set_def boot_vmm_def bm_test_def)
  then show ?thesis by simp
qed

lemma boot_small_pages: "v_mem st = boot_mem \<Longrightarrow> (vidx 30 v, vidx 39 v) \<noteq> (0, 0) \<Longrightarrow> small_pages st v"
  by (simp add: small_pages_def vpath_def boot_small del: large_on.simps)

text \<open>The demand region of \<open>metal_main.c\<close>.\<close>

definition heap_va :: u64 where "heap_va = 0xffffffff90000000"

lemma heap_va_small: "v_mem st = boot_mem \<Longrightarrow> small_pages st heap_va"
  by (rule boot_small_pages) (simp_all add: vidx_def heap_va_def drop_bit_eq_div)

lemma heap_va_page: "same_page (heap_va + 0x10) heap_va"
  by (simp add: same_page_def vpath_def vidx_def heap_va_def drop_bit_eq_div)

text \<open>A page mapped twice as shared.\<close>

lemma shared_page_example:
  "\<exists>st i. pt_inv st \<and> small_pages st heap_va \<and> i < 28672 \<and> vlookup st heap_va = Some (page_addr i OR 1) \<and> v_refs st ! i = 2 \<and>
     (\<forall>q. good q \<longrightarrow> table_at (v_mem st) q \<noteq> Some (page_addr i)) \<and> free_set st \<noteq> {}"
proof -
  obtain p st1 where al: "wubu_vmm_alloc_pages 1 boot_vmm = (p, st1)" by (rule prod.exhaust)
  then have "p \<noteq> 0" using alloc_one_room [OF boot_vmm_inv _ al] boot_room by fastforce
  with alloc_one [OF boot_vmm_inv al] obtain k where f: "fresh_page boot_vmm p st1 k" by blast
  then have k: "k < 28672" "p = page_addr k" "vm_ok st1" "bm_test st1 k" "v_refs st1 ! k = 1"
    by (auto simp: fresh_page_def)
  let ?st2 = "ref_page k st1"
  have "v_refs st1 ! k < 0xFFFF" using k(5) by simp
  note r = ref_page_rule [OF k(3,1,4) this]
  have refs2: "v_refs ?st2 ! k = 2" using r(3) k(1,3,5) by (simp add: vm_ok_def)
  have sc: "\<forall>c j. aligned c \<and> c \<noteq> p \<and> j < 512 \<longrightarrow> v_mem ?st2 (slot_addr c j) = v_mem st1 (slot_addr c j)"
    by (simp add: r(4))
  note s2 = scratch_page [OF boot_vmm_inv f sc r(2,1)]
  have "v_mem ?st2 = boot_mem" using r(4) f by (simp add: fresh_page_def boot_vmm_def)
  then have sm: "small_pages ?st2 heap_va" by (rule heap_va_small)
  have room: "card (free_set ?st2) = 28671" using fresh_page_room [OF f r(2)] boot_room by simp
  then have "3 \<le> card (free_set ?st2)" by simp
  then obtain st' where mp: "wubu_vmm_map_page heap_va p 1 ?st2 = (0, st')"
    using map_page_room [OF s2(2) sm] by blast
  obtain st3 pt where 3: "pt_inv st3" "table_at (v_mem st3) (vpath heap_va) = Some pt"
    "st' = set_pte pt (vidx 12 heap_va) (p OR (ucast (1 :: u32) AND 0xFFF)) st3"
    "\<And>j. j < 28672 \<Longrightarrow> bm_test ?st2 j \<Longrightarrow> v_refs st3 ! j = v_refs ?st2 ! j"
    "\<And>q i. good q \<Longrightarrow> i < 28672 \<Longrightarrow> bm_test ?st2 i \<Longrightarrow> table_at (v_mem st3) q = Some (page_addr i) \<Longrightarrow>
        table_at (v_mem ?st2) q = Some (page_addr i)"
    "card (free_set ?st2) \<le> card (free_set st3) + 3" "\<And>q. good q \<Longrightarrow> large_on (v_mem st3) q = large_on (v_mem ?st2) q"
    using map_page_rule [OF s2(2) sm mp] by blast
  note leaf = set_leaf [OF 3(1,2) good_vpath vidx_less]
  have used: "bm_test ?st2 k" using r(2) k(4) by simp
  have "pt_inv st'" unfolding 3(3) by (rule leaf(1))
  moreover have "small_pages st' heap_va"
    using sm leaf(3) [OF good_vpath(1)] 3(7) [OF good_vpath(1)] by (simp add: small_pages_def 3(3))
  moreover have "vlookup st' heap_va = Some (page_addr k OR 1)"
    unfolding 3(3) using vlookup_set_pte [OF 3(1,2)] present_flags [of 1 p] k(2)
    by (simp add: same_page_def)
  moreover have "v_refs st' ! k = 2" using 3(4) [OF k(1) used] refs2 by (simp add: 3(3) set_pte_def)
  moreover have "table_at (v_mem st') q \<noteq> Some (page_addr k)" if "good q" for q
    unfolding 3(3) leaf(2) [OF that] using 3(5) [OF that k(1) used] s2(1) [OF that] f that k(2)
    by (auto simp: fresh_page_def)
  moreover have "free_set st' = free_set st3" by (simp add: 3(3) set_pte_def free_set_def bm_test_def)
  then have "free_set st' \<noteq> {}" using 3(6) room by auto
  ultimately show ?thesis using k(1) by blast
qed

section \<open>Properties\<close>

text \<open>C17: Mapping and unmapping change one translation. When three pages are free (for the tables
  that may be missing on the way) and no large page maps \<open>virt\<close> (the boot code maps the first
  gigabyte with 2 MB pages, which \<open>wubu_vmm_map_page\<close> does not recognise),
  \<open>wubu_vmm_map_page\<close> succeeds: the page of \<open>virt\<close> translates to the given frame with the given
  flag bits and every other page, large ones included, translates as before. A following
  \<open>wubu_vmm_unmap\<close> succeeds too: the page has no translation and the others are still as before.
  The tree of tables stays sound throughout, and pages in use that are not tables keep their
  contents. The invariant holds of the tables the kernel boots with.\<close>

theorem map_then_unmap:
  assumes "pt_inv st" and "small_pages st v"
    and "3 \<le> card {i. i < WUBU_VMM_BITMAP_BITS \<and> \<not> bm_test st i}" and "flags AND 1 = 1"
  shows "\<exists>st' st''. wubu_vmm_map_page v phys flags st = (0, st') \<and> pt_inv st' \<and>
    vlookup st' v = Some (phys OR (ucast flags AND 0xFFF)) \<and>
    (\<forall>w. \<not> same_page w v \<longrightarrow> vlookup st' w = vlookup st w) \<and>
    wubu_vmm_unmap v st' = (0, st'') \<and> pt_inv st'' \<and> vlookup st'' v = None \<and>
    (\<forall>w. \<not> same_page w v \<longrightarrow> vlookup st'' w = vlookup st w) \<and>
    (\<forall>c j. data_page st c \<and> j < 512 \<longrightarrow> v_mem st' (slot_addr c j) = v_mem st (slot_addr c j) \<and>
       v_mem st'' (slot_addr c j) = v_mem st (slot_addr c j))"
proof -
  let ?e = "phys OR (ucast flags AND 0xFFF)"
  have "3 \<le> card (free_set st)" using assms(3) by (simp add: free_set_def WUBU_VMM_BITMAP_BITS_def)
  then obtain st' where map: "wubu_vmm_map_page v phys flags st = (0, st')"
    using map_page_room [OF assms(1,2)] by blast
  obtain st3 pt where 3: "pt_inv st3" "table_at (v_mem st3) (vpath v) = Some pt"
    "st' = set_pte pt (vidx 12 v) ?e st3"
    "\<And>q j. good q \<Longrightarrow> length q = 3 \<Longrightarrow> j < 512 \<Longrightarrow> pte_of (v_mem st3) q j = pte_of (v_mem st) q j"
    "\<And>q. good q \<Longrightarrow> large_on (v_mem st3) q = large_on (v_mem st) q"
    "\<And>c j. data_page st c \<Longrightarrow> j < 512 \<Longrightarrow> c \<noteq> pt \<and> v_mem st3 (slot_addr c j) = v_mem st (slot_addr c j)"
    using map_page_rule [OF assms(1,2) map] by blast
  have old: "vlookup st3 w = vlookup st w" for w by (rule vlookup_cong(1) [OF 3(5,4)])
  have pres: "present ?e" by (rule present_flags [OF assms(4)])
  note leaf = set_leaf [OF 3(1,2) good_vpath vidx_less]
  have inv': "pt_inv st'" unfolding 3(3) by (rule leaf(1))
  have t': "table_at (v_mem st') (vpath v) = Some pt" unfolding 3(3) using leaf(2) 3(2) by simp
  have look: "vlookup st' w = (if same_page w v then Some ?e else vlookup st w)" for w
    unfolding 3(3) using vlookup_set_pte [OF 3(1,2)] pres old by simp
  let ?u = "set_pte pt (vidx 12 v) 0 st'"
  have un: "wubu_vmm_unmap v st' = (0, ?u)"
    using t' table_not_large [OF t'] by (simp add: wubu_vmm_unmap_def walk_tables_eq small_pages_def set_pte_def)
  have "vlookup ?u w = (if same_page w v then None else vlookup st w)" for w
    using vlookup_set_pte [OF inv' t', of 0 w] look by (simp add: present_def)
  moreover have "v_mem st' (slot_addr c j) = v_mem st (slot_addr c j) \<and> v_mem ?u (slot_addr c j) = v_mem st (slot_addr c j)"
    if "data_page st c \<and> j < 512" for c j
  proof -
    have "aligned c" using that by (simp add: data_page_def)
    with that show ?thesis
      using 3(6) [of c j] set_pte_data [OF t' vidx_less, of c j] by (simp add: 3(3))
  qed
  moreover note set_leaf(1) [OF inv' t' good_vpath vidx_less, of 12 v 0]
  moreover have "same_page v v" by (simp add: same_page_def)
  ultimately show ?thesis
    using un inv' look map by (intro exI [of _ st'] exI [of _ ?u]) simp
qed

theorem map_then_unmap_witness:
  "\<exists>st' st''. wubu_vmm_map_page heap_va 0x1234000 3 boot_vmm = (0, st') \<and>
     vlookup st' heap_va = Some 0x1234003 \<and> wubu_vmm_unmap heap_va st' = (0, st'') \<and>
     vlookup st'' heap_va = None"
  using map_then_unmap [OF boot_vmm_inv heap_va_small, of 3 "0x1234000"] boot_room
  by (auto simp: free_set_def WUBU_VMM_BITMAP_BITS_def boot_vmm_def)

text \<open>C18: A fault in a demand-zero region. When the faulting address lies in a registered region
  under no large page, and four pages are free (one for the data, three for tables that may be
  missing), \<open>wubu_vmm_demand_fill\<close> succeeds: the page of the address translates, writable, to a
  page that was free and now reads as zeros throughout; no other translation changes, no page in
  use other than the tables changes its contents, and the tables stay sound.\<close>

theorem demand_fill_gives_zero_page:
  assumes "pt_inv st" and "wubu_vmm_is_demand va st" and "small_pages st va"
    and "4 \<le> card {i. i < WUBU_VMM_BITMAP_BITS \<and> \<not> bm_test st i}"
  shows "\<exists>k st'. wubu_vmm_demand_fill va st = (0, st') \<and> pt_inv st' \<and>
    k < WUBU_VMM_BITMAP_BITS \<and> \<not> bm_test st k \<and> bm_test st' k \<and>
    vlookup st' va = Some (page_addr k OR 3) \<and>
    (\<forall>w. \<not> same_page w va \<longrightarrow> vlookup st' w = vlookup st w) \<and>
    (\<forall>j < 512. v_mem st' (slot_addr (page_addr k) j) = 0) \<and>
    (\<forall>c j. data_page st c \<and> j < 512 \<longrightarrow> v_mem st' (slot_addr c j) = v_mem st (slot_addr c j))"
proof -
  have room: "4 \<le> card (free_set st)" using assms(4) by (simp add: free_set_def WUBU_VMM_BITMAP_BITS_def)
  obtain st' where fill: "wubu_vmm_demand_fill va st = (0, st')"
    using demand_fill_room [OF assms(1,2) room assms(3)] by blast
  obtain k where "k < 28672" "\<not> bm_test st k" "bm_test st' k"
    "pt_inv st'" "vlookup st' va = Some (page_addr k OR 3)"
    "\<forall>w. \<not> same_page w va \<longrightarrow> vlookup st' w = vlookup st w"
    "\<forall>j < 512. v_mem st' (slot_addr (page_addr k) j) = 0"
    "\<forall>c j. data_page st c \<and> j < 512 \<longrightarrow> v_mem st' (slot_addr c j) = v_mem st (slot_addr c j)"
    by (rule demand_fill_rule [OF assms(1,3) fill]) (rule that; assumption)
  with fill show ?thesis by (intro exI [of _ k] exI [of _ st']) (simp add: WUBU_VMM_BITMAP_BITS_def)
qed

theorem demand_fill_gives_zero_page_witness:
  "\<exists>k st'. wubu_vmm_demand_fill (heap_va + 0x10) (snd (wubu_vmm_register_demand heap_va 4096 boot_vmm)) = (0, st') \<and>
     vlookup st' (heap_va + 0x10) = Some (page_addr k OR 3) \<and> v_mem st' (slot_addr (page_addr k) 5) = 0"
proof -
  let ?st = "snd (wubu_vmm_register_demand heap_va 4096 boot_vmm)"
  have st: "v_mem ?st = boot_mem" "bm_test ?st = bm_test boot_vmm" "vm_ok ?st" "v_demand ?st = [(heap_va, 4096)]"
    using blank_ok by (auto simp: wubu_vmm_register_demand_def WUBU_VMM_MAX_DEMAND_def vm_ok_def boot_vmm_def
        blank_vmm_def fun_eq_iff bm_test_def)
  have inv: "pt_inv ?st" by (rule boot_pt_inv [OF st(3,1)])
  have dem: "wubu_vmm_is_demand (heap_va + 0x10) ?st"
    unfolding wubu_vmm_is_demand_def st(4) by (simp add: PAGE_def heap_va_def)
  have small: "small_pages ?st (heap_va + 0x10)"
    using heap_va_small [OF st(1)] heap_va_page by (simp add: small_pages_def same_page_def)
  have "card {i. i < WUBU_VMM_BITMAP_BITS \<and> \<not> bm_test ?st i} = 28672"
    using boot_room by (simp add: st free_set_def WUBU_VMM_BITMAP_BITS_def)
  with demand_fill_gives_zero_page [OF inv dem small] show ?thesis by fastforce
qed

text \<open>C19: A write fault on a page mapped read-only by a last-level entry (no large page), whose
  frame is one of the managed pages and is not a table, when a page is free. If nobody shares
  the frame, the mapping becomes writable and no count changes. Otherwise the faulting page
  gets a private frame that was free, holds a copy of the shared one and has one reference; the
  shared frame keeps its contents and loses one reference. No other translation changes,
  and the tables stay sound.\<close>

theorem cow_gives_private_copy:
  assumes "pt_inv st" and "small_pages st va" and "vlookup st va = Some pte" and "pte AND 2 = 0"
    and "pte AND NOT 0xFFF = page_addr i" and "i < WUBU_VMM_BITMAP_BITS"
    and "\<forall>q. good q \<longrightarrow> table_at (v_mem st) q \<noteq> Some (page_addr i)"
    and "\<exists>k < WUBU_VMM_BITMAP_BITS. \<not> bm_test st k"
  shows "\<exists>st'. wubu_vmm_cow_fault va st = (1, st') \<and> pt_inv st' \<and>
    (\<forall>w. \<not> same_page w va \<longrightarrow> vlookup st' w = vlookup st w) \<and>
    (if v_refs st ! i \<le> 1 then vlookup st' va = Some (pte OR 2) \<and> v_refs st' = v_refs st
     else \<exists>k < WUBU_VMM_BITMAP_BITS. \<not> bm_test st k \<and> vlookup st' va = Some (page_addr k OR 3) \<and>
       (\<forall>j < 512. v_mem st' (slot_addr (page_addr k) j) = v_mem st (slot_addr (page_addr i) j) \<and>
          v_mem st' (slot_addr (page_addr i) j) = v_mem st (slot_addr (page_addr i) j)) \<and>
       v_refs st' ! i = v_refs st ! i - 1 \<and> v_refs st' ! k = 1)"
proof (cases "v_refs st ! i \<le> 1")
  case True
  have i: "i < 28672" using assms(6) by (simp add: WUBU_VMM_BITMAP_BITS_def)
  have "same_page va va" by (simp add: same_page_def)
  with cow_alone_rule [OF assms(1,3-5) i assms(2) True] True show ?thesis by fastforce
next
  case False
  then have sh: "1 < v_refs st ! i" by simp
  have i: "i < 28672" and room: "free_set st \<noteq> {}"
    using assms(6,8) by (auto simp: WUBU_VMM_BITMAP_BITS_def free_set_def)
  obtain st' where cow: "wubu_vmm_cow_fault va st = (1, st')"
    using cow_room [OF assms(1,3-5) i assms(2) room] by blast
  have refl: "same_page va va" by (simp add: same_page_def)
  obtain k where k: "k < 28672" "\<not> bm_test st k" "pt_inv st'"
    "\<forall>w. vlookup st' w = (if same_page w va then Some (page_addr k OR 3) else vlookup st w)"
    "\<forall>j < 512. v_mem st' (slot_addr (page_addr k) j) = v_mem st (slot_addr (page_addr i) j) \<and>
      v_mem st' (slot_addr (page_addr i) j) = v_mem st (slot_addr (page_addr i) j)"
    "v_refs st' ! i = v_refs st ! i - 1" "v_refs st' ! k = 1"
    using cow_shared_rule [OF assms(1,3-5) i assms(2) sh assms(7) [rule_format] cow] by blast
  show ?thesis
    using cow False k refl by (intro exI [of _ st']) (auto simp: WUBU_VMM_BITMAP_BITS_def)
qed

theorem cow_gives_private_copy_witness:
  "\<exists>st i k st'. vlookup st heap_va = Some (page_addr i OR 1) \<and> v_refs st ! i = 2 \<and>
     wubu_vmm_cow_fault heap_va st = (1, st') \<and> vlookup st' heap_va = Some (page_addr k OR 3) \<and>
     v_mem st' (slot_addr (page_addr k) 7) = v_mem st (slot_addr (page_addr i) 7) \<and> v_refs st' ! i = 1"
proof -
  obtain st i where ex: "pt_inv st" "i < 28672" "small_pages st heap_va" "vlookup st heap_va = Some (page_addr i OR 1)" "v_refs st ! i = 2"
    "\<forall>q. good q \<longrightarrow> table_at (v_mem st) q \<noteq> Some (page_addr i)" "free_set st \<noteq> {}"
    using shared_page_example by blast
  have ro: "(page_addr i OR 1) AND 2 = 0"
    using aligned_low_bits [OF aligned_page_addr [OF ex(2)], of 1]
    by (intro bit_word_eqI) (auto simp: bit_simps)
  have "(page_addr i OR 1) AND NOT 0xFFF = page_addr i"
    by (rule strip_flags [OF aligned_page_addr [OF ex(2)]]) (simp add: bit_1_iff)
  note cow = cow_gives_private_copy [OF ex(1,3,4) ro this _ ex(6)]
  have "i < WUBU_VMM_BITMAP_BITS" "\<exists>k < WUBU_VMM_BITMAP_BITS. \<not> bm_test st k"
    using ex(2,7) by (auto simp: WUBU_VMM_BITMAP_BITS_def free_set_def)
  note cow' = cow [OF this]
  have "\<not> v_refs st ! i \<le> 1" and sub: "v_refs st ! i - 1 = 1" using ex(5) by (simp_all add: word_le_nat_alt)
  note cow'' = cow' [unfolded if_not_P [OF this(1)] sub]
  obtain st' k where "wubu_vmm_cow_fault heap_va st = (1, st')" "vlookup st' heap_va = Some (page_addr k OR 3)"
    "\<forall>j < 512. v_mem st' (slot_addr (page_addr k) j) = v_mem st (slot_addr (page_addr i) j) \<and>
       v_mem st' (slot_addr (page_addr i) j) = v_mem st (slot_addr (page_addr i) j)" "v_refs st' ! i = 1"
    using cow'' by blast
  with ex(4,5) show ?thesis by (intro exI [of _ st] exI [of _ i] exI [of _ k] exI [of _ st']) simp
qed

end
