(* ===== verification/Recovery.thy ===== *)
theory Recovery
  imports Crc32
begin

text \<open>
  The checkpoint ring of \<open>kernel/wubu_recovery.c\<close>: five rotating slots, each a copy of a
  caller's state with its checksum, and the emergency reset that clears them and keeps only
  the principles. The payload of a slot is the list of its 512 bytes. \<open>r\<close> is never
  \<open>NULL\<close> here; the other pointers are options. The checksum of the principles is over the
  bytes of the fields before it, in the little-endian layout the compiler gives them.
\<close>

section \<open>State\<close>

definition WUBU_RECOVERY_SLOTS :: nat where "WUBU_RECOVERY_SLOTS = 5"
definition WUBU_RECOVERY_PRINCIPLES_MAGIC :: u32 where "WUBU_RECOVERY_PRINCIPLES_MAGIC = 0x4A455355"

record wubu_recovery_principles =
  pr_magic :: u32
  pr_version :: u32
  pr_identity :: bytes
  pr_max_rollback_attempts :: u32
  pr_jesus_armed :: u32
  pr_human_gate_required :: u32
  pr_growth_loop :: u32
  pr_human_centric :: u32
  pr_no_third_party :: u32
  pr_no_stubs :: u32
  pr_license_origin :: u32
  pr_checksum :: u32

record wubu_recovery_slot =
  sl_used :: u32
  sl_seq :: u32
  sl_size :: u32
  sl_crc :: u32
  sl_payload :: bytes

record wubu_recovery =
  rec_slots :: "wubu_recovery_slot list"
  rec_principles :: wubu_recovery_principles
  rec_next_slot :: u32
  rec_seq :: u32
  rec_jesus_used :: u32
  rec_rollback_count :: u32

definition empty_slot :: wubu_recovery_slot where
  "empty_slot = \<lparr>sl_used = 0, sl_seq = 0, sl_size = 0, sl_crc = 0, sl_payload = replicate 512 0\<rparr>"

definition principle_bytes :: "wubu_recovery_principles \<Rightarrow> bytes" where
  "principle_bytes p =
     le32 (pr_magic p) @ le32 (pr_version p) @ pr_identity p @ le32 (pr_max_rollback_attempts p) @
     le32 (pr_jesus_armed p) @ le32 (pr_human_gate_required p) @ le32 (pr_growth_loop p) @
     le32 (pr_human_centric p) @ le32 (pr_no_third_party p) @ le32 (pr_no_stubs p) @
     le32 (pr_license_origin p)"

text \<open>The statement that brings the checksum up to date.\<close>

definition seal_principles :: "wubu_recovery_principles \<Rightarrow> wubu_recovery_principles" where
  "seal_principles p = p\<lparr>pr_checksum := wubu_recovery_crc32 (principle_bytes p)\<rparr>"

section \<open>Operations\<close>

definition wubu_recovery_init ::
  "wubu_recovery \<Rightarrow> wubu_recovery_principles option \<Rightarrow> int \<times> wubu_recovery" where
  "wubu_recovery_init r p =
     (case p of
        None \<Rightarrow> (-1, r)
      | Some pr \<Rightarrow>
          (0, \<lparr>rec_slots = replicate WUBU_RECOVERY_SLOTS empty_slot,
               rec_principles = seal_principles (pr\<lparr>pr_magic := WUBU_RECOVERY_PRINCIPLES_MAGIC\<rparr>),
               rec_next_slot = 0, rec_seq = 0, rec_jesus_used = 0, rec_rollback_count = 0\<rparr>))"

definition wubu_recovery_checkpoint ::
  "wubu_recovery \<Rightarrow> bytes option \<Rightarrow> u32 \<Rightarrow> int \<times> wubu_recovery" where
  "wubu_recovery_checkpoint r state nbytes =
     (case state of
        None \<Rightarrow> (-1, r)
      | Some data \<Rightarrow>
          if nbytes = 0 then (-1, r)
          else if nbytes > 512 then (-1, r)
          else
            (let s = unat (rec_next_slot r mod of_nat WUBU_RECOVERY_SLOTS);
                 slot = rec_slots r ! s;
                 image = take (unat nbytes) data
             in (int s,
                 r\<lparr>rec_slots := (rec_slots r)[s := slot\<lparr>
                      sl_payload := image @ drop (unat nbytes) (sl_payload slot),
                      sl_size := nbytes, sl_used := 1, sl_seq := rec_seq r,
                      sl_crc := wubu_recovery_crc32 image\<rparr>],
                   rec_seq := rec_seq r + 1, rec_next_slot := rec_next_slot r + 1\<rparr>)))"

text \<open>The bytes written to \<open>out\<close>, when it is not \<open>NULL\<close>.\<close>

definition wubu_recovery_rollback :: "wubu_recovery \<Rightarrow> u32 \<Rightarrow> bool \<Rightarrow> u32 \<Rightarrow> int \<times> bytes" where
  "wubu_recovery_rollback r slot has_out cap =
     (if \<not> has_out \<or> slot \<ge> of_nat WUBU_RECOVERY_SLOTS then (-1, [])
      else (let s = rec_slots r ! unat slot in
            if sl_used s = 0 then (-1, [])
            else if cap < sl_size s then (-1, [])
            else (sint (sl_size s), take (unat (sl_size s)) (sl_payload s))))"

text \<open>The last component is what is stored through \<open>principles\<close>, when it is not \<open>NULL\<close>.\<close>

definition wubu_recovery_jesus ::
  "wubu_recovery \<Rightarrow> bool \<Rightarrow> u32 \<Rightarrow> int \<times> wubu_recovery \<times> wubu_recovery_principles option" where
  "wubu_recovery_jesus r has_out cap =
     (if \<not> has_out then (-1, r, None)
      else if pr_jesus_armed (rec_principles r) = 0 then (-2, r, None)
      else (0, r\<lparr>rec_slots := replicate WUBU_RECOVERY_SLOTS empty_slot, rec_next_slot := 0, rec_jesus_used := 1\<rparr>,
            Some (rec_principles r)))"

definition wubu_recovery_arm_jesus :: "wubu_recovery \<Rightarrow> u32 \<Rightarrow> int \<times> wubu_recovery" where
  "wubu_recovery_arm_jesus r armed =
     (0, r\<lparr>rec_principles := seal_principles
            ((rec_principles r)\<lparr>pr_jesus_armed := (if armed \<noteq> 0 then 1 else 0)\<rparr>)\<rparr>)"

definition wubu_recovery_verify :: "wubu_recovery \<Rightarrow> u32 \<Rightarrow> int" where
  "wubu_recovery_verify r slot =
     (if slot \<ge> of_nat WUBU_RECOVERY_SLOTS then -1
      else (let s = rec_slots r ! unat slot in
            if sl_used s = 0 then 0
            else if wubu_recovery_crc32 (take (unat (sl_size s)) (sl_payload s)) = sl_crc s then 1 else 0))"

definition wubu_recovery_log :: "wubu_recovery \<Rightarrow> u32 \<Rightarrow> u32 \<Rightarrow> u32 \<Rightarrow> int \<times> wubu_recovery" where
  "wubu_recovery_log r event slot seq = (0, r)"

definition wubu_recovery_healthy :: "wubu_recovery \<Rightarrow> int" where
  "wubu_recovery_healthy r =
     (if pr_magic (rec_principles r) \<noteq> WUBU_RECOVERY_PRINCIPLES_MAGIC then 0
      else if wubu_recovery_crc32 (principle_bytes (rec_principles r)) = pr_checksum (rec_principles r)
      then 1 else 0)"

definition wubu_recovery_live :: "wubu_recovery \<Rightarrow> nat" where
  "wubu_recovery_live r = length (filter (\<lambda>s. sl_used s \<noteq> 0) (rec_slots r))"

definition wubu_recovery_container ::
  "wubu_recovery \<Rightarrow> bytes option \<Rightarrow> u32 \<Rightarrow> bool \<Rightarrow> int \<times> nat option \<times> wubu_recovery" where
  "wubu_recovery_container r working_set nbytes has_id =
     (if working_set = None \<or> \<not> has_id then (-1, None, r)
      else (case wubu_recovery_checkpoint r working_set nbytes of
          (s, r') \<Rightarrow> if s < 0 then (-1, None, r') else (0, Some (nat s), r')))"

section \<open>The ring holds the newest checkpoints\<close>

text \<open>A client's call, and the list of the states saved since the last reset.\<close>

datatype recovery_op = Checkpoint bytes | Arm u32 | Reset

fun recovery_step :: "recovery_op \<Rightarrow> wubu_recovery \<Rightarrow> wubu_recovery" where
  "recovery_step (Checkpoint d) r = snd (wubu_recovery_checkpoint r (Some d) (of_nat (length d)))"
| "recovery_step (Arm a) r = snd (wubu_recovery_arm_jesus r a)"
| "recovery_step Reset r = fst (snd (wubu_recovery_jesus r True 0))"

fun saved_step :: "recovery_op \<Rightarrow> bytes list \<times> bool \<Rightarrow> bytes list \<times> bool" where
  "saved_step (Checkpoint d) (h, a) = (if d = [] \<or> length d > 512 then h else h @ [d], a)"
| "saved_step (Arm x) (h, a) = (h, x \<noteq> 0)"
| "saved_step Reset (h, a) = (if a then [] else h, a)"

definition holds :: "wubu_recovery_slot \<Rightarrow> bytes \<Rightarrow> bool" where
  "holds s d \<longleftrightarrow> sl_used s = 1 \<and> unat (sl_size s) = length d \<and> length d \<le> 512 \<and>
     take (length d) (sl_payload s) = d \<and> sl_crc s = wubu_recovery_crc32 d \<and> length (sl_payload s) = 512"

definition ring_inv :: "bytes list \<times> bool \<Rightarrow> wubu_recovery \<Rightarrow> bool" where
  "ring_inv ha r \<longleftrightarrow> (case ha of (h, a) \<Rightarrow>
     length (rec_slots r) = 5 \<and> unat (rec_next_slot r) = length h \<and>
     a = (pr_jesus_armed (rec_principles r) \<noteq> 0) \<and> wubu_recovery_healthy r = 1 \<and>
     (\<forall>i < length h. length h \<le> i + 5 \<longrightarrow> holds (rec_slots r ! (i mod 5)) (h ! i)) \<and>
     (\<forall>j < 5. length h \<le> j \<longrightarrow> sl_used (rec_slots r ! j) = 0 \<and> length (sl_payload (rec_slots r ! j)) = 512))"

lemma healthy_iff: "wubu_recovery_healthy r = 1 \<longleftrightarrow>
    pr_magic (rec_principles r) = WUBU_RECOVERY_PRINCIPLES_MAGIC \<and>
    wubu_recovery_crc32 (principle_bytes (rec_principles r)) = pr_checksum (rec_principles r)"
  by (simp add: wubu_recovery_healthy_def)

lemma ring_initial:
  "ring_inv ([], pr_jesus_armed p \<noteq> 0) (snd (wubu_recovery_init r (Some p)))"
  by (auto simp: ring_inv_def wubu_recovery_init_def WUBU_RECOVERY_SLOTS_def empty_slot_def
      healthy_iff seal_principles_def principle_bytes_def)

lemma mod5_window:
  fixes i n :: nat
  assumes "n \<le> i + 5" and "i < n" and "Suc n \<le> i + 5"
  shows "i mod 5 \<noteq> n mod 5"
proof
  assume "i mod 5 = n mod 5"
  then have "5 dvd n - i" using assms(2) by (metis less_imp_le_nat mod_eq_dvd_iff_nat)
  then show False using assms by (auto dest: dvd_imp_le)
qed

lemma ring_checkpoint:
  assumes inv: "ring_inv (h, a) r" and d: "d \<noteq> []" "length d \<le> 512" and room: "Suc (length h) < 2 ^ 32"
  shows "ring_inv (h @ [d], a) (snd (wubu_recovery_checkpoint r (Some d) (of_nat (length d))))"
proof -
  let ?n = "length h" and ?s = "length h mod 5"
  define r' where "r' = snd (wubu_recovery_checkpoint r (Some d) (of_nat (length d)))"
  define new where "new = (rec_slots r ! ?s)\<lparr>sl_payload := d @ drop (length d) (sl_payload (rec_slots r ! ?s)),
    sl_size := of_nat (length d), sl_used := 1, sl_seq := rec_seq r, sl_crc := wubu_recovery_crc32 d\<rparr>"
  note I = inv [unfolded ring_inv_def prod.case]
  have size: "unat (of_nat (length d) :: u32) = length d" using d by (simp add: unat_of_nat)
  have guards: "(of_nat (length d) :: u32) \<noteq> 0" "\<not> (of_nat (length d) :: u32) > 512"
    using d size by (auto simp: word_less_nat_alt simp flip: unat_eq_0)
  have s: "unat (rec_next_slot r mod of_nat WUBU_RECOVERY_SLOTS) = ?s"
    using I by (simp add: WUBU_RECOVERY_SLOTS_def unat_mod)
  have r': "r' = r\<lparr>rec_slots := (rec_slots r)[?s := new], rec_seq := rec_seq r + 1, rec_next_slot := rec_next_slot r + 1\<rparr>"
    using guards by (simp add: r'_def wubu_recovery_checkpoint_def s size new_def Let_def)
  have pay: "length (sl_payload (rec_slots r ! ?s)) = 512"
  proof (cases "?n < 5")
    case False
    then have "?n - 5 < ?n" "?n \<le> (?n - 5) + 5" "(?n - 5) mod 5 = ?s" by (simp_all add: le_mod_geq)
    then show ?thesis using I unfolding holds_def by metis
  qed (use I in simp)
  have new: "holds new d" using d size pay by (simp add: holds_def new_def)
  have next1: "unat (rec_next_slot r + 1) = Suc ?n" using I room by (simp add: unat_word_ariths)
  have old: "holds (rec_slots r' ! (i mod 5)) ((h @ [d]) ! i)" if "i < Suc ?n" "Suc ?n \<le> i + 5" for i
  proof (cases "i = ?n")
    case True
    then show ?thesis using new I by (simp add: r')
  next
    case False
    with that have "i < ?n" "?n \<le> i + 5" by auto
    then show ?thesis
      using mod5_window [of ?n i] that I by (simp add: r' nth_append)
  qed
  moreover have "sl_used (rec_slots r' ! j) = 0 \<and> length (sl_payload (rec_slots r' ! j)) = 512"
    if "j < 5" "Suc ?n \<le> j" for j
    using that I by (simp add: r' nth_list_update)
  moreover have "wubu_recovery_healthy r' = 1" using I unfolding healthy_iff by (simp add: r')
  ultimately show ?thesis
    using I next1 unfolding ring_inv_def prod.case r'_def [symmetric] by (simp add: r')
qed

lemma checkpoint_refused: "d = [] \<or> (512 < length d \<and> length d < 2 ^ 32) \<Longrightarrow>
    wubu_recovery_checkpoint r (Some d) (of_nat (length d)) = (-1, r)"
  by (auto simp: wubu_recovery_checkpoint_def word_less_nat_alt unat_of_nat)

lemma ring_step:
  assumes "ring_inv (h, a) r" and "Suc (length h) < 2 ^ 32"
    and "\<And>d. op = Checkpoint d \<Longrightarrow> length d < 2 ^ 32"
  shows "ring_inv (saved_step op (h, a)) (recovery_step op r)"
proof (cases op)
  case (Checkpoint d)
  show ?thesis
  proof (cases "d = [] \<or> length d > 512")
    case True
    then show ?thesis using assms Checkpoint checkpoint_refused [of d r] by auto
  next
    case False
    then show ?thesis using ring_checkpoint [OF assms(1) _ _ assms(2), of d] Checkpoint by simp
  qed
next
  case (Arm x)
  then show ?thesis using assms(1)
    by (auto simp: ring_inv_def wubu_recovery_arm_jesus_def healthy_iff seal_principles_def
        principle_bytes_def split: if_splits)
next
  case Reset
  then show ?thesis using assms(1)
    by (auto simp: ring_inv_def wubu_recovery_jesus_def healthy_iff WUBU_RECOVERY_SLOTS_def
        empty_slot_def)
qed

lemma ring_run:
  assumes "ring_inv ha r" and "length (fst ha) + length ops < 2 ^ 32 - 1"
    and "\<forall>d. Checkpoint d \<in> set ops \<longrightarrow> length d < 2 ^ 32"
  shows "ring_inv (fold saved_step ops ha) (fold recovery_step ops r)"
  using assms
proof (induction ops arbitrary: ha r)
  case (Cons op ops)
  obtain h a where ha: "ha = (h, a)" by (rule prod.exhaust)
  have "length (fst (saved_step op ha)) \<le> Suc (length h)" by (cases op) (simp_all add: ha)
  then have "length (fst (saved_step op ha)) + length ops < 2 ^ 32 - 1" using Cons.prems(2) ha by simp
  moreover have "ring_inv (saved_step op ha) (recovery_step op r)"
    unfolding ha by (rule ring_step) (use Cons.prems ha in auto)
  ultimately show ?case using Cons.IH Cons.prems(3) by simp
qed simp

text \<open>What the invariant says of the operations that read the ring.\<close>

lemma ring_used:
  assumes "ring_inv (h, a) r" and "j < 5"
  shows "sl_used (rec_slots r ! j) \<noteq> 0 \<longleftrightarrow> j < length h"
proof
  assume "j < length h"
  define q where "q = (length h - 1 - j) div 5"
  have "q * 5 + (length h - 1 - j) mod 5 = length h - 1 - j" unfolding q_def by (rule div_mult_mod_eq)
  moreover have "(length h - 1 - j) mod 5 < 5" by simp
  ultimately have "j + q * 5 < length h" "length h \<le> (j + q * 5) + 5"
    using \<open>j < length h\<close> by linarith+
  note i = this
  have "(j + q * 5) mod 5 = j" using assms(2) by simp
  then show "sl_used (rec_slots r ! j) \<noteq> 0" using assms i by (auto simp: ring_inv_def holds_def)
qed (use assms in \<open>auto simp: ring_inv_def not_less [symmetric]\<close>)

lemma ring_live:
  assumes "ring_inv (h, a) r"
  shows "wubu_recovery_live r = min 5 (length h)"
proof -
  have "wubu_recovery_live r = card {j. j < 5 \<and> sl_used (rec_slots r ! j) \<noteq> 0}"
    using assms by (simp add: wubu_recovery_live_def length_filter_conv_card ring_inv_def)
  also have "{j. j < 5 \<and> sl_used (rec_slots r ! j) \<noteq> 0} = {..< min 5 (length h)}"
    using ring_used [OF assms] by fastforce
  finally show ?thesis by simp
qed

lemma ring_read:
  assumes "ring_inv (h, a) r" and "i < length h" and "length h \<le> i + 5" and "length (h ! i) \<le> unat cap"
  shows "wubu_recovery_rollback r (of_nat (i mod 5)) True cap = (int (length (h ! i)), h ! i)"
    and "wubu_recovery_verify r (of_nat (i mod 5)) = 1"
proof -
  let ?s = "rec_slots r ! (i mod 5)"
  have s: "holds ?s (h ! i)" using assms(1-3) by (simp add: ring_inv_def)
  have slot: "unat (of_nat (i mod 5) :: u32) = i mod 5" "\<not> (of_nat (i mod 5) :: u32) \<ge> of_nat WUBU_RECOVERY_SLOTS"
    by (simp_all add: unat_of_nat word_le_nat_alt WUBU_RECOVERY_SLOTS_def)
  have size: "sint (sl_size ?s) = int (length (h ! i))"
  proof -
    have "int (unat (sl_size ?s)) = int (length (h ! i))" "length (h ! i) \<le> 512" using s by (simp_all add: holds_def)
    then show ?thesis
      using signed_take_bit_int_eq_self [of 31 "uint (sl_size ?s)"] by (simp add: sint_uint)
  qed
  show "wubu_recovery_rollback r (of_nat (i mod 5)) True cap = (int (length (h ! i)), h ! i)"
    using s slot size assms(4) by (simp add: wubu_recovery_rollback_def holds_def Let_def word_less_nat_alt)
  show "wubu_recovery_verify r (of_nat (i mod 5)) = 1"
    using s slot by (simp add: wubu_recovery_verify_def holds_def Let_def)
qed

section \<open>Properties\<close>

text \<open>C20: The ring keeps the five newest checkpoints. After any sequence of checkpoints, armings and
  resets of an initialised ring, \<open>live\<close> counts the states saved since the last effective reset,
  up to five; each of the newest five is in the slot of its number modulo five, where
  \<open>rollback\<close> returns exactly its bytes and \<open>verify\<close> accepts it; and \<open>healthy\<close> holds. A
  checkpoint of no bytes or of more than 512 saves nothing, and a reset that is not armed
  clears nothing.\<close>

theorem ring_keeps_last_five:
  fixes r0 :: wubu_recovery and p :: wubu_recovery_principles and ops :: "recovery_op list"
  assumes "length ops < 2 ^ 32 - 1" and "\<forall>d. Checkpoint d \<in> set ops \<longrightarrow> length d < 2 ^ 32"
  defines "r \<equiv> fold recovery_step ops (snd (wubu_recovery_init r0 (Some p)))"
    and "h \<equiv> fst (fold saved_step ops ([], pr_jesus_armed p \<noteq> 0))"
  shows "wubu_recovery_healthy r = 1 \<and> wubu_recovery_live r = min 5 (length h) \<and>
    (\<forall>i cap. i < length h \<and> length h \<le> i + 5 \<and> length (h ! i) \<le> unat cap \<longrightarrow>
       wubu_recovery_rollback r (of_nat (i mod 5)) True cap = (int (length (h ! i)), h ! i) \<and>
       wubu_recovery_verify r (of_nat (i mod 5)) = 1)"
proof -
  obtain a where "fold saved_step ops ([], pr_jesus_armed p \<noteq> 0) = (h, a)"
    unfolding h_def by (metis prod.collapse)
  then have inv: "ring_inv (h, a) r"
    using ring_run [OF ring_initial, of p ops r0] assms(1,2) unfolding r_def by simp
  then have "wubu_recovery_healthy r = 1" by (simp add: ring_inv_def)
  with ring_live [OF inv] ring_read [OF inv] show ?thesis by blast
qed

definition example_principles :: wubu_recovery_principles where
  "example_principles = \<lparr>pr_magic = 0, pr_version = 1, pr_identity = replicate 32 0,
     pr_max_rollback_attempts = 5, pr_jesus_armed = 1, pr_human_gate_required = 1, pr_growth_loop = 1,
     pr_human_centric = 1, pr_no_third_party = 1, pr_no_stubs = 1, pr_license_origin = 0, pr_checksum = 0\<rparr>"

theorem ring_keeps_last_five_witness:
  "\<forall>r0. wubu_recovery_rollback (fold recovery_step [Checkpoint [9], Reset, Checkpoint [1, 2], Checkpoint [3]]
     (snd (wubu_recovery_init r0 (Some example_principles)))) 0 True 8 = (2, [1, 2])"
proof
  fix r0
  let ?ops = "[Checkpoint [9], Reset, Checkpoint [1, 2], Checkpoint [3]]"
  have h: "fst (fold saved_step ?ops ([], pr_jesus_armed example_principles \<noteq> 0)) = [[1, 2], [3]]"
    by (simp add: example_principles_def)
  have "length ?ops < 2 ^ 32 - 1" "\<forall>d. Checkpoint d \<in> set ?ops \<longrightarrow> length d < 2 ^ 32" by auto
  note ring = ring_keeps_last_five [OF this, of r0 example_principles, unfolded h]
  have "length ([[1, 2], [3]] ! 0 :: u8 list) \<le> unat (8 :: u32)" by simp
  with conjunct2 [OF conjunct2 [OF ring], rule_format, of 0 8] show
    "wubu_recovery_rollback (fold recovery_step ?ops (snd (wubu_recovery_init r0 (Some example_principles)))) 0 True 8
      = (2, [1, 2])" by (simp del: fold.simps)
qed

end
