(* ===== verification/Sha256.thy ===== *)
theory Sha256
  imports Prelude
begin

text \<open>
  The hash of the kernel, \<open>kernel/wubu_sha256.c\<close>: the compression function, the
  streaming context and the one-shot call, and the reference it is checked against: the
  padded message cut into blocks, as FIPS 180-4 describes it. The context pointer is not
  \<open>NULL\<close>; the data of an update is a byte list or \<open>NULL\<close>.
\<close>

section \<open>Compression\<close>

definition K_sha :: "u32 list" where
  "K_sha = concat [
    [0x428a2f98, 0x71374491, 0xb5c0fbcf, 0xe9b5dba5],
    [0x3956c25b, 0x59f111f1, 0x923f82a4, 0xab1c5ed5],
    [0xd807aa98, 0x12835b01, 0x243185be, 0x550c7dc3],
    [0x72be5d74, 0x80deb1fe, 0x9bdc06a7, 0xc19bf174],
    [0xe49b69c1, 0xefbe4786, 0x0fc19dc6, 0x240ca1cc],
    [0x2de92c6f, 0x4a7484aa, 0x5cb0a9dc, 0x76f988da],
    [0x983e5152, 0xa831c66d, 0xb00327c8, 0xbf597fc7],
    [0xc6e00bf3, 0xd5a79147, 0x06ca6351, 0x14292967],
    [0x27b70a85, 0x2e1b2138, 0x4d2c6dfc, 0x53380d13],
    [0x650a7354, 0x766a0abb, 0x81c2c92e, 0x92722c85],
    [0xa2bfe8a1, 0xa81a664b, 0xc24b8b70, 0xc76c51a3],
    [0xd192e819, 0xd6990624, 0xf40e3585, 0x106aa070],
    [0x19a4c116, 0x1e376c08, 0x2748774c, 0x34b0bcb5],
    [0x391c0cb3, 0x4ed8aa4a, 0x5b9cca4f, 0x682e6ff3],
    [0x748f82ee, 0x78a5636f, 0x84c87814, 0x8cc70208],
    [0x90befffa, 0xa4506ceb, 0xbef9a3f7, 0xc67178f2]]"

definition rotr32 :: "u32 \<Rightarrow> nat \<Rightarrow> u32" where
  "rotr32 x n = drop_bit n x OR push_bit (32 - n) x"

definition Ch :: "u32 \<Rightarrow> u32 \<Rightarrow> u32 \<Rightarrow> u32" where
  "Ch x y z = (x AND y) XOR (NOT x AND z)"

definition Maj :: "u32 \<Rightarrow> u32 \<Rightarrow> u32 \<Rightarrow> u32" where
  "Maj x y z = (x AND y) XOR (x AND z) XOR (y AND z)"

definition sha_S0 :: "u32 \<Rightarrow> u32" where
  "sha_S0 x = rotr32 x 2 XOR rotr32 x 13 XOR rotr32 x 22"

definition sha_S1 :: "u32 \<Rightarrow> u32" where
  "sha_S1 x = rotr32 x 6 XOR rotr32 x 11 XOR rotr32 x 25"

definition sha_s0 :: "u32 \<Rightarrow> u32" where
  "sha_s0 x = rotr32 x 7 XOR rotr32 x 18 XOR drop_bit 3 x"

definition sha_s1 :: "u32 \<Rightarrow> u32" where
  "sha_s1 x = rotr32 x 17 XOR rotr32 x 19 XOR drop_bit 10 x"

definition be32 :: "bytes \<Rightarrow> nat \<Rightarrow> u32" where
  "be32 p off = push_bit 24 (ucast (p ! off)) OR push_bit 16 (ucast (p ! (off + 1))) OR
     push_bit 8 (ucast (p ! (off + 2))) OR ucast (p ! (off + 3))"

definition sha_schedule :: "bytes \<Rightarrow> u32 list" where
  "sha_schedule block =
     fold (\<lambda>i w. w @ [sha_s1 (w ! (i - 2)) + w ! (i - 7) + sha_s0 (w ! (i - 15)) + w ! (i - 16)])
       [16..<64] (map (\<lambda>i. be32 block (4 * i)) [0..<16])"

type_synonym sha_regs = "u32 \<times> u32 \<times> u32 \<times> u32 \<times> u32 \<times> u32 \<times> u32 \<times> u32"

definition sha_round :: "u32 list \<Rightarrow> nat \<Rightarrow> sha_regs \<Rightarrow> sha_regs" where
  "sha_round w i regs =
     (case regs of (a, b, cc, d, e, f, g, h) \<Rightarrow>
        (let t1 = h + sha_S1 e + Ch e f g + K_sha ! i + w ! i;
             t2 = sha_S0 a + Maj a b cc
         in (t1 + t2, a, b, cc, d + t1, e, f, g)))"

definition sha256_compress :: "u32 list \<Rightarrow> bytes \<Rightarrow> u32 list" where
  "sha256_compress st block =
     (case fold (sha_round (sha_schedule block)) [0..<64]
          (st ! 0, st ! 1, st ! 2, st ! 3, st ! 4, st ! 5, st ! 6, st ! 7) of
        (a, b, cc, d, e, f, g, h) \<Rightarrow>
          [st ! 0 + a, st ! 1 + b, st ! 2 + cc, st ! 3 + d, st ! 4 + e, st ! 5 + f, st ! 6 + g, st ! 7 + h])"

section \<open>The context\<close>

record wubu_sha256_ctx =
  sha_state :: "u32 list"
  sha_bitlen :: u64
  sha_buf :: bytes
  sha_buflen :: nat

definition sha_iv :: "u32 list" where
  "sha_iv = [0x6a09e667, 0xbb67ae85, 0x3c6ef372, 0xa54ff53a, 0x510e527f, 0x9b05688c, 0x1f83d9ab, 0x5be0cd19]"

definition wubu_sha256_init :: "wubu_sha256_ctx \<Rightarrow> wubu_sha256_ctx" where
  "wubu_sha256_init c = c\<lparr>sha_state := sha_iv, sha_bitlen := 0, sha_buflen := 0\<rparr>"

text \<open>The loop over whole blocks of the input: the state, and what is left of the input.\<close>

function block_loop :: "u32 list \<Rightarrow> bytes \<Rightarrow> u32 list \<times> bytes" where
  "block_loop st p = (if 64 \<le> length p then block_loop (sha256_compress st p) (drop 64 p) else (st, p))"
  by pat_completeness auto
termination
  by (relation "measure (\<lambda>(st, p). length p)") auto

declare block_loop.simps [simp del]

text \<open>The part of \<open>update\<close> after the buffer was filled up and emptied.\<close>

definition absorb :: "wubu_sha256_ctx \<Rightarrow> bytes \<Rightarrow> wubu_sha256_ctx" where
  "absorb c p =
     (case block_loop (sha_state c) p of (st, rest) \<Rightarrow>
        if rest \<noteq> [] then c\<lparr>sha_state := st, sha_buf := put_bytes 0 rest (sha_buf c), sha_buflen := length rest\<rparr>
        else c\<lparr>sha_state := st\<rparr>)"

definition wubu_sha256_update :: "wubu_sha256_ctx \<Rightarrow> bytes option \<Rightarrow> wubu_sha256_ctx" where
  "wubu_sha256_update c0 data =
     (case data of
        None \<Rightarrow> c0
      | Some p \<Rightarrow>
          (let c = c0\<lparr>sha_bitlen := sha_bitlen c0 + of_nat (length p) * 8\<rparr> in
           if sha_buflen c \<noteq> 0 then
             (let need = 64 - sha_buflen c in
              if length p < need then
                c\<lparr>sha_buf := put_bytes (sha_buflen c) p (sha_buf c), sha_buflen := sha_buflen c + length p\<rparr>
              else
                (let buf = put_bytes (sha_buflen c) (take need p) (sha_buf c)
                 in absorb (c\<lparr>sha_buf := buf, sha_state := sha256_compress (sha_state c) buf, sha_buflen := 0\<rparr>)
                      (drop need p)))
           else absorb c p))"

definition be64_bytes :: "u64 \<Rightarrow> bytes" where
  "be64_bytes n = map (\<lambda>i. ucast (drop_bit (56 - 8 * i) n)) [0..<8]"

definition digest_bytes :: "u32 list \<Rightarrow> bytes" where
  "digest_bytes st = concat (map (\<lambda>i. [ucast (drop_bit 24 (st ! i)), ucast (drop_bit 16 (st ! i)),
     ucast (drop_bit 8 (st ! i)), ucast (st ! i)]) [0..<8])"

definition wubu_sha256_final :: "wubu_sha256_ctx \<Rightarrow> bytes \<times> wubu_sha256_ctx" where
  "wubu_sha256_final c =
     (let bitlen = sha_bitlen c;
          c1 = wubu_sha256_update c (Some [0x80]);
          rem0 = 64 - sha_buflen c1;
          rem = (if rem0 < 8 then rem0 + 64 else rem0);
          c2 = (if rem > 8 then wubu_sha256_update c1 (Some (replicate (rem - 8) 0)) else c1);
          c3 = wubu_sha256_update c2 (Some (be64_bytes bitlen))
      in (digest_bytes (sha_state c3), c3))"

text \<open>The local context of the one-shot call starts with the bytes the stack holds.\<close>

definition wubu_sha256 :: "wubu_sha256_ctx \<Rightarrow> bytes option \<Rightarrow> int \<times> bytes" where
  "wubu_sha256 stack data =
     (0, fst (wubu_sha256_final (wubu_sha256_update (wubu_sha256_init stack) data)))"

section \<open>The reference\<close>

definition sha_block :: "bytes \<Rightarrow> nat \<Rightarrow> bytes" where
  "sha_block m i = take 64 (drop (64 * i) m)"

definition sha_blocks :: "u32 list \<Rightarrow> bytes \<Rightarrow> u32 list" where
  "sha_blocks st m = fold (\<lambda>i s. sha256_compress s (sha_block m i)) [0..<length m div 64] st"

definition sha_pad :: "bytes \<Rightarrow> bytes" where
  "sha_pad m = m @ [0x80] @ replicate ((119 - length m mod 64) mod 64) 0 @ be64_bytes (of_nat (8 * length m))"

text \<open>The reference for padding and buffering: one pass over the padded message. It uses the compression
  function of the code, so it says nothing about the rounds and constants of that function.\<close>

definition sha256_reference :: "bytes \<Rightarrow> bytes" where
  "sha256_reference m = digest_bytes (sha_blocks sha_iv (sha_pad m))"

end
