(* ===== verification/Sha256_Facts.thy ===== *)
theory Sha256_Facts
  imports Sha256
begin

text \<open>
  The streaming hash: however a message is cut into updates, the digest is the reference
  digest of the whole message.
\<close>

section \<open>Blocks\<close>

lemma be32_take: "off + 3 < n \<Longrightarrow> be32 (take n p) off = be32 p off"
  by (simp add: be32_def)

lemma compress_take: "sha256_compress st (take 64 p) = sha256_compress st p"
proof -
  have "map (\<lambda>i. be32 (take 64 p) (4 * i)) [0..<16] = map (\<lambda>i. be32 p (4 * i)) [0..<16]"
    by (rule map_cong) (simp_all add: be32_take)
  then show ?thesis by (simp only: sha256_compress_def sha_schedule_def)
qed

lemma sha_blocks_short: "length m < 64 \<Longrightarrow> sha_blocks st m = st"
  by (simp add: sha_blocks_def)

lemma sha_blocks_append:
  assumes "64 dvd length a"
  shows "sha_blocks st (a @ b) = sha_blocks (sha_blocks st a) b"
proof -
  obtain k where k: "length a = 64 * k" using assms by (rule dvdE)
  let ?n = "length b div 64"
  have n: "length (a @ b) div 64 = k + ?n" by (simp add: k)
  have left: "fold (\<lambda>i s. sha256_compress s (sha_block (a @ b) i)) [0..<k] st
      = fold (\<lambda>i s. sha256_compress s (sha_block a i)) [0..<k] st"
    by (rule fold_cong) (auto simp: sha_block_def k)
  have "fold (\<lambda>i s. sha256_compress s (sha_block (a @ b) i)) (map (\<lambda>i. i + k) [0..<?n]) s'
      = fold (\<lambda>i s. sha256_compress s (sha_block b i)) [0..<?n] s'" for s'
    unfolding fold_map comp_def by (rule fold_cong) (auto simp: sha_block_def k)
  then have right: "fold (\<lambda>i s. sha256_compress s (sha_block (a @ b) i)) [k..<k + ?n] s'
      = fold (\<lambda>i s. sha256_compress s (sha_block b i)) [0..<?n] s'" for s'
    using map_add_upt [of k ?n] by (simp add: add.commute)
  have "[0..<k + ?n] = [0..<k] @ [k..<k + ?n]" by (rule upt_add_eq_append) simp
  then show ?thesis
    unfolding sha_blocks_def n by (simp only: fold_append comp_def left right) (simp add: k)
qed

lemma sha_blocks_one: "length p = 64 \<Longrightarrow> sha_blocks st p = sha256_compress st p"
  by (simp add: sha_blocks_def sha_block_def)

lemma block_loop_eq: "block_loop st p = (sha_blocks st p, drop (64 * (length p div 64)) p)"
proof (induction st p rule: block_loop.induct)
  case (1 st p)
  show ?case
  proof (cases "64 \<le> length p")
    case True
    have "sha_blocks st p = sha_blocks st (take 64 p @ drop 64 p)" by simp
    also have "\<dots> = sha_blocks (sha256_compress st p) (drop 64 p)"
      using True by (subst sha_blocks_append) (simp_all add: sha_blocks_one compress_take)
    finally have blocks: "sha_blocks st p = sha_blocks (sha256_compress st p) (drop 64 p)" .
    have "64 + 64 * ((length p - 64) div 64) = 64 * (length p div 64)"
      using True by (simp add: le_div_geq)
    then show ?thesis using 1 [OF True] True blocks by (simp add: block_loop.simps [of st p] add.commute)
  next
    case False
    then show ?thesis by (simp add: block_loop.simps [of st p] sha_blocks_short)
  qed
qed

section \<open>The context\<close>

text \<open>What the context knows after the message \<open>m\<close>.\<close>

definition sha_inv :: "wubu_sha256_ctx \<Rightarrow> bytes \<Rightarrow> bool" where
  "sha_inv c m \<longleftrightarrow> length (sha_buf c) = 64 \<and> sha_buflen c = length m mod 64 \<and>
     sha_bitlen c = of_nat (8 * length m) \<and>
     take (sha_buflen c) (sha_buf c) = drop (64 * (length m div 64)) m \<and>
     sha_state c = sha_blocks sha_iv m"

text \<open>The whole blocks of a message, and the rest.\<close>

lemma split_blocks:
  obtains w r where "m = w @ r" "64 dvd length w" "length r = length m mod 64" "r = drop (64 * (length m div 64)) m"
proof (rule that [of "take (64 * (length m div 64)) m" "drop (64 * (length m div 64)) m"])
  have le: "64 * (length m div 64) \<le> length m" by simp
  then show "64 dvd length (take (64 * (length m div 64)) m)" by (simp add: min_absorb2)
  show "length (drop (64 * (length m div 64)) m) = length m mod 64"
    by (simp add: minus_mult_div_eq_mod)
qed simp_all

lemma drop_blocks: "64 dvd length w \<Longrightarrow> length r < 64 \<Longrightarrow> drop (64 * (length (w @ r) div 64)) (w @ r) = r"
  by (auto elim!: dvdE)

lemma sha_absorb_inv:
  assumes "length (sha_buf c) = 64" "sha_buflen c = 0" "64 dvd length w" "sha_state c = sha_blocks sha_iv w"
    and "sha_bitlen c = of_nat (8 * length (w @ p))"
  shows "sha_inv (absorb c p) (w @ p)"
proof -
  obtain u r where p: "p = u @ r" "64 dvd length u" "length r = length p mod 64" "r = drop (64 * (length p div 64)) p"
    by (rule split_blocks)
  have r: "length r < 64" using p(3) by simp
  have st: "sha_blocks (sha_state c) p = sha_blocks sha_iv (w @ p)"
    using assms(3,4) by (simp add: sha_blocks_append)
  have len: "length (w @ p) mod 64 = length r" using assms(3) p(3) by (auto elim!: dvdE)
  have "64 dvd length (w @ u)" using assms(3) p(2) by simp
  from drop_blocks [OF this r] have rest: "drop (64 * (length (w @ p) div 64)) (w @ p) = r" by (simp add: p(1))
  have loop: "block_loop (sha_state c) p = (sha_blocks sha_iv (w @ p), r)"
    unfolding block_loop_eq st p(4) [symmetric] ..
  show ?thesis
  proof (cases "r = []")
    case True
    then show ?thesis using assms(1,2,5) len rest loop by (simp add: absorb_def sha_inv_def)
  next
    case False
    then show ?thesis
      using assms(1,5) len rest loop r take_put_bytes [of 0 r "sha_buf c"] length_put_bytes [of 0 r "sha_buf c"]
      by (simp add: absorb_def sha_inv_def)
  qed
qed

lemma sha_update_inv:
  assumes inv: "sha_inv c m"
  shows "sha_inv (wubu_sha256_update c (Some p)) (m @ p)"
proof -
  obtain w r where m: "m = w @ r" "64 dvd length w" "length r = length m mod 64" "r = drop (64 * (length m div 64)) m"
    by (rule split_blocks)
  note I = inv [unfolded sha_inv_def]
  have r: "length r < 64" "sha_buflen c = length r" using I m(3) by simp_all
  have r3: "take (length r) (sha_buf c) = r" using I m(3,4) by metis
  have buf: "length (sha_buf c) = 64" and st: "sha_state c = sha_blocks sha_iv m" using I by simp_all
  have "sha_blocks sha_iv m = sha_blocks sha_iv w"
    using m(1,2) r(1) by (simp add: sha_blocks_append sha_blocks_short)
  with st have stw: "sha_state c = sha_blocks sha_iv w" by simp
  have bits: "sha_bitlen c + of_nat (length p) * 8 = of_nat (8 * length (m @ p))"
    using inv by (simp add: sha_inv_def)
  let ?c = "c\<lparr>sha_bitlen := sha_bitlen c + of_nat (length p) * 8\<rparr>"
  show ?thesis
  proof (cases "r = []")
    case True
    then have "wubu_sha256_update c (Some p) = absorb ?c p" using r(2) by (simp add: wubu_sha256_update_def Let_def)
    then show ?thesis
      using sha_absorb_inv [of ?c m p] True m(1,2) buf r(2) st bits by simp
  next
    case False
    show ?thesis
    proof (cases "length p < 64 - length r")
      case True
      have "sha_blocks sha_iv (m @ p) = sha_blocks sha_iv w"
        using m(1,2) True by (simp add: sha_blocks_append sha_blocks_short)
      moreover have "64 dvd length w" "length (r @ p) < 64" using m(2) True by auto
      note drop_blocks [OF this]
      moreover have "length (m @ p) mod 64 = length r + length p" using m(1,2) True by (auto elim!: dvdE)
      ultimately show ?thesis
        using False True r r3 buf stw bits m(1) take_put_bytes [of "length r" p "sha_buf c"]
          length_put_bytes [of "length r" p "sha_buf c"]
        by (simp add: wubu_sha256_update_def sha_inv_def Let_def)
    next
      case big: False
      let ?need = "64 - length r"
      let ?q = "take ?need p" and ?rest = "drop ?need p"
      have q: "length r + length ?q = 64" using big r(1) by simp
      have "put_bytes (length r) ?q (sha_buf c) = take (length r) (sha_buf c) @ ?q"
        using q buf by (simp add: put_bytes_def)
      then have b: "put_bytes (length r) ?q (sha_buf c) = r @ ?q" using r3 by simp
      have comp: "sha256_compress (sha_state c) (r @ ?q) = sha_blocks sha_iv (m @ ?q)"
        using m(1,2) q stw by (simp add: sha_blocks_append sha_blocks_one)
      have dvd: "64 dvd length (m @ ?q)" using m(1,2) q by (metis append.assoc dvd_add dvd_refl length_append)
      have "wubu_sha256_update c (Some p) =
          absorb (?c\<lparr>sha_buf := r @ ?q, sha_state := sha_blocks sha_iv (m @ ?q), sha_buflen := 0\<rparr>) ?rest"
        using False big r(2) comp b by (simp add: wubu_sha256_update_def Let_def)
      moreover have "sha_inv \<dots> ((m @ ?q) @ ?rest)"
        by (rule sha_absorb_inv) (use q dvd bits in simp_all)
      ultimately show ?thesis by simp
    qed
  qed
qed

lemma sha_init_inv: "length (sha_buf c) = 64 \<Longrightarrow> sha_inv (wubu_sha256_init c) []"
  by (simp add: sha_inv_def wubu_sha256_init_def sha_blocks_short)

lemma sha_updates_inv:
  "sha_inv c m \<Longrightarrow> sha_inv (fold (\<lambda>d c. wubu_sha256_update c (Some d)) ds c) (m @ concat ds)"
  by (induction ds arbitrary: c m) (simp_all add: sha_update_inv [of _ _ "_ :: bytes", simplified] flip: append_assoc)

text \<open>The number of zero bytes that \<open>final\<close> adds.\<close>

lemma pad_count:
  fixes n :: nat
  defines "rem0 \<equiv> 64 - (n + 1) mod 64"
  defines "rem \<equiv> if rem0 < 8 then rem0 + 64 else rem0"
  shows "rem - 8 = (119 - n mod 64) mod 64" and "8 \<le> rem" and "rem \<le> 71"
    and "64 dvd n + 1 + (119 - n mod 64) mod 64 + 8"
proof -
  define k q where "k = n mod 64" and "q = n div 64"
  have k: "k < 64" and n: "n = 64 * q + k" by (simp_all add: k_def q_def)
  have "(n + 1) mod 64 = (if k = 63 then 0 else k + 1)" using k by (auto simp: n)
  then show "rem - 8 = (119 - n mod 64) mod 64" and "8 \<le> rem" and "rem \<le> 71"
    using k unfolding rem_def rem0_def k_def [symmetric] by (auto simp: mod_if)
  have "(119 - k) mod 64 = (if k \<le> 55 then 55 - k else 119 - k)" using k by (auto simp: mod_if)
  then show "64 dvd n + 1 + (119 - n mod 64) mod 64 + 8"
    unfolding k_def [symmetric] using k by (auto simp: n dvd_def intro: exI [of _ "q + 1"] exI [of _ "q + 2"])
qed

lemma final_reference:
  assumes inv: "sha_inv c m"
  shows "fst (wubu_sha256_final c) = sha256_reference m"
proof -
  let ?n = "length m" and ?z = "replicate ((119 - length m mod 64) mod 64) (0 :: u8)"
  define c1 where "c1 = wubu_sha256_update c (Some [0x80])"
  define rem0 where "rem0 = 64 - sha_buflen c1"
  define rem where "rem = (if rem0 < 8 then rem0 + 64 else rem0)"
  define c2 where "c2 = (if rem > 8 then wubu_sha256_update c1 (Some (replicate (rem - 8) 0)) else c1)"
  have i1: "sha_inv c1 (m @ [0x80])" unfolding c1_def by (rule sha_update_inv [OF inv])
  then have bl: "sha_buflen c1 = (?n + 1) mod 64" by (simp add: sha_inv_def)
  have rem: "rem - 8 = (119 - ?n mod 64) mod 64" "8 \<le> rem"
    unfolding rem_def rem0_def bl by (rule pad_count)+
  have i2: "sha_inv c2 ((m @ [0x80]) @ ?z)"
  proof (cases "rem > 8")
    case True
    then show ?thesis unfolding c2_def rem(1) using sha_update_inv [OF i1] by simp
  next
    case False
    then have "(119 - ?n mod 64) mod 64 = 0" using rem by simp
    then show ?thesis unfolding c2_def using False i1 by simp
  qed
  have bits: "sha_bitlen c = of_nat (8 * ?n)" using inv by (simp add: sha_inv_def)
  have "sha_inv (wubu_sha256_update c2 (Some (be64_bytes (sha_bitlen c)))) (sha_pad m)"
    using sha_update_inv [OF i2, of "be64_bytes (sha_bitlen c)"] unfolding bits by (simp add: sha_pad_def)
  then have "sha_state (wubu_sha256_update c2 (Some (be64_bytes (sha_bitlen c)))) = sha_blocks sha_iv (sha_pad m)"
    by (simp add: sha_inv_def)
  then show ?thesis
    unfolding wubu_sha256_final_def Let_def sha256_reference_def fst_conv
      c1_def [symmetric] rem0_def [symmetric] rem_def [symmetric] c2_def [symmetric] by (rule arg_cong)
qed

section \<open>Properties\<close>

text \<open>C21: Streaming. Whatever way a message is cut into updates (empty ones included), the digest
  that \<open>wubu_sha256_final\<close> gives is the reference digest of the whole message: the message
  with its FIPS 180-4 padding, compressed block by block. The one-shot call gives the same,
  the padded message is a whole number of blocks and what the context held before is
  irrelevant.\<close>

theorem sha256_streaming:
  assumes "length (sha_buf c) = 64"
  shows "fst (wubu_sha256_final (fold (\<lambda>d c. wubu_sha256_update c (Some d)) ds (wubu_sha256_init c)))
      = sha256_reference (concat ds) \<and>
    wubu_sha256 c (Some m) = (0, sha256_reference m) \<and> 64 dvd length (sha_pad m)"
proof (intro conjI)
  show "fst (wubu_sha256_final (fold (\<lambda>d c. wubu_sha256_update c (Some d)) ds (wubu_sha256_init c)))
      = sha256_reference (concat ds)"
    using final_reference [OF sha_updates_inv [OF sha_init_inv [OF assms]]] by simp
  show "wubu_sha256 c (Some m) = (0, sha256_reference m)"
    using final_reference [OF sha_update_inv [OF sha_init_inv [OF assms]]] by (simp add: wubu_sha256_def)
  show "64 dvd length (sha_pad m)"
    using pad_count(4) [of "length m"] by (simp add: sha_pad_def be64_bytes_def ac_simps)
qed

theorem sha256_streaming_witness:
  "fst (wubu_sha256_final (wubu_sha256_update (wubu_sha256_update (wubu_sha256_init
      \<lparr>sha_state = [], sha_bitlen = 7, sha_buf = replicate 64 0, sha_buflen = 3\<rparr>)
      (Some (lit ''ab''))) (Some (lit ''c'')))) = sha256_reference (lit ''abc'')"
  using sha256_streaming [of "\<lparr>sha_state = [], sha_bitlen = 7, sha_buf = replicate 64 0, sha_buflen = 3\<rparr>"
      "[lit ''ab'', lit ''c'']" "[]"]
  by (simp add: lit_def)

end
