(* ===== verification/Fat32.thy ===== *)
theory Fat32
  imports Prelude
begin

text \<open>
  The file allocation table of the FAT32 file system: the cached table
  (\<open>kernel/fat32_fat.c\<close>), cluster chains (\<open>kernel/fat32_cluster.c\<close>), the 8.3 names
  (\<open>kernel/fat32_name.c\<close>) and the time stamps (\<open>kernel/fat32.c\<close>).

  The block device is given by the two function pointers of \<open>fat32_blk_ops\<close> and its
  context; they are parameters. A read yields its return code and the bytes it stored
  in the buffer. \<open>malloc\<close> of the cache buffer is a parameter too: the block it returns, with
  whatever bytes it holds, or \<open>None\<close>.
\<close>

section \<open>State\<close>

definition FAT32_SECTOR_SIZE :: nat where "FAT32_SECTOR_SIZE = 512"
definition FAT32_CLUSTER_EOC :: u32 where "FAT32_CLUSTER_EOC = 0x0FFFFFF8"
definition FAT32_CLUSTER_FREE :: u32 where "FAT32_CLUSTER_FREE = 0"

record 'd fat32_blk_ops =
  blk_read :: "'d \<Rightarrow> u64 \<Rightarrow> u32 \<Rightarrow> int \<times> bytes"
  blk_write :: "'d \<Rightarrow> u64 \<Rightarrow> u32 \<Rightarrow> bytes \<Rightarrow> int \<times> 'd"
  blk_n_sectors :: u64

record 'd fat32_volume =
  vol_ctx :: 'd
  vol_mounted :: bool
  vol_dirty :: bool
  vol_sectors_per_cluster :: u32
  vol_bytes_per_cluster :: u32
  vol_reserved_sectors :: u32
  vol_num_fats :: u32
  vol_sectors_per_fat :: u32
  vol_root_cluster :: u32
  vol_fat1_lba :: u64
  vol_fat2_lba :: u64
  vol_data_lba :: u64
  vol_total_clusters :: u32
  vol_free_clusters :: u32
  vol_next_free :: u32
  vol_fs_info_lba :: u64
  vol_cached_fat_sector :: u32
  vol_cached_dirty :: bool
  vol_fat_cache :: "bytes option"

section \<open>The cached table\<close>

definition fat32_flush :: "'d fat32_blk_ops \<Rightarrow> 'd fat32_volume \<Rightarrow> int \<times> 'd fat32_volume" where
  "fat32_flush ops vol =
     (case vol_fat_cache vol of
        None \<Rightarrow> (0, vol)
      | Some buf \<Rightarrow>
          if \<not> vol_cached_dirty vol then (0, vol)
          else (case blk_write ops (vol_ctx vol) (vol_fat1_lba vol + ucast (vol_cached_fat_sector vol)) 1 buf of
            (rc1, d1) \<Rightarrow>
              if rc1 \<noteq> 0 then (-1, vol\<lparr>vol_ctx := d1\<rparr>)
              else if vol_num_fats vol \<ge> 2 then
                (case blk_write ops d1 (vol_fat2_lba vol + ucast (vol_cached_fat_sector vol)) 1 buf of
                   (rc2, d2) \<Rightarrow>
                     if rc2 \<noteq> 0 then (-1, vol\<lparr>vol_ctx := d2\<rparr>)
                     else (0, vol\<lparr>vol_ctx := d2, vol_cached_dirty := False\<rparr>))
              else (0, vol\<lparr>vol_ctx := d1, vol_cached_dirty := False\<rparr>)))"

definition fat_cache_invalidate :: "'d fat32_volume \<Rightarrow> 'd fat32_volume" where
  "fat_cache_invalidate vol = vol\<lparr>vol_cached_fat_sector := 0xFFFFFFFF, vol_cached_dirty := False\<rparr>"

text \<open>The part \<open>fat_read_entry\<close> and \<open>fat_write_entry\<close> share: bring a sector of the table into
  the buffer.\<close>

definition fat_load :: "'d fat32_blk_ops \<Rightarrow> u32 \<Rightarrow> bytes \<Rightarrow> 'd fat32_volume \<Rightarrow> int \<times> 'd fat32_volume" where
  "fat_load ops sector buf vol =
     (case (if vol_cached_dirty vol then fat32_flush ops vol else (0, vol)) of (frc, vol1) \<Rightarrow>
        if frc \<noteq> 0 then (-1, vol1)
        else (case blk_read ops (vol_ctx vol1) (vol_fat1_lba vol1 + ucast sector) 1 of (rc, bs) \<Rightarrow>
          let vol2 = vol1\<lparr>vol_fat_cache := Some (put_bytes 0 bs buf)\<rparr>
          in if rc \<noteq> 0 then (-1, vol2) else (0, vol2\<lparr>vol_cached_fat_sector := sector\<rparr>)))"

text \<open>The buffer: the one there is, or the one \<open>malloc\<close> gives.\<close>

definition with_cache :: "bytes option \<Rightarrow> 'd fat32_volume \<Rightarrow> 'd fat32_volume" where
  "with_cache mem vol = (if vol_fat_cache vol = None then vol\<lparr>vol_fat_cache := mem\<rparr> else vol)"

definition fat_read_entry ::
  "'d fat32_blk_ops \<Rightarrow> bytes option \<Rightarrow> 'd fat32_volume \<Rightarrow> u32 \<Rightarrow> int \<times> u32 \<times> 'd fat32_volume" where
  "fat_read_entry ops mem vol cluster =
     (let sector = cluster div 128; off = unat (cluster mod 128);
          (rc, vol1) =
            (if vol_fat_cache vol = None \<or> sector \<noteq> vol_cached_fat_sector vol then
               (case vol_fat_cache (with_cache mem vol) of
                  None \<Rightarrow> (-1, vol)
                | Some buf \<Rightarrow> fat_load ops sector buf (with_cache mem vol))
             else (0, vol))
      in if rc \<noteq> 0 then (-1, 0, vol1)
         else (0, word_at (the (vol_fat_cache vol1)) off AND 0x0FFFFFFF, vol1))"

definition fat_write_entry ::
  "'d fat32_blk_ops \<Rightarrow> bytes option \<Rightarrow> 'd fat32_volume \<Rightarrow> u32 \<Rightarrow> u32 \<Rightarrow> int \<times> 'd fat32_volume" where
  "fat_write_entry ops mem vol cluster value =
     (let sector = cluster div 128; off = unat (cluster mod 128); vol0 = with_cache mem vol in
      case vol_fat_cache vol0 of
        None \<Rightarrow> (-1, vol0)
      | Some buf \<Rightarrow>
          (case (if sector \<noteq> vol_cached_fat_sector vol0 then fat_load ops sector buf vol0 else (0, vol0)) of
             (rc, vol1) \<Rightarrow>
               if rc \<noteq> 0 then (-1, vol1)
               else (let b = the (vol_fat_cache vol1);
                         w = (word_at b off AND 0xF0000000) OR (value AND 0x0FFFFFFF)
                     in (0, vol1\<lparr>vol_fat_cache := Some (set_word off w b), vol_cached_dirty := True\<rparr>))))"

section \<open>Clusters\<close>

definition fat32_next_cluster ::
  "'d fat32_blk_ops \<Rightarrow> bytes option \<Rightarrow> 'd fat32_volume \<Rightarrow> u32 \<Rightarrow> u32 \<times> 'd fat32_volume" where
  "fat32_next_cluster ops mem vol cluster =
     (if cluster < 2 then (0, vol)
      else (case fat_read_entry ops mem vol cluster of (rc, entry, vol1) \<Rightarrow>
        if rc \<noteq> 0 then (0, vol1)
        else if entry \<ge> FAT32_CLUSTER_EOC then (0, vol1)
        else (entry, vol1)))"

definition fat32_cluster_to_lba :: "'d fat32_volume \<Rightarrow> u32 \<Rightarrow> u64" where
  "fat32_cluster_to_lba vol cluster =
     (if cluster < 2 then 0
      else vol_data_lba vol + ucast (cluster - 2) * ucast (vol_sectors_per_cluster vol))"

definition fat32_lba_to_cluster :: "'d fat32_volume \<Rightarrow> u64 \<Rightarrow> u32" where
  "fat32_lba_to_cluster vol lba =
     (if lba < vol_data_lba vol then 0
      else ucast ((lba - vol_data_lba vol) div ucast (vol_sectors_per_cluster vol)) + 2)"

text \<open>The scan of \<open>fat32_alloc_clusters\<close>, for \<open>n\<close> more rounds: the variables \<open>first\<close> and \<open>found\<close> at
  its end, or \<open>None\<close> when a read failed.\<close>

fun alloc_scan ::
  "'d fat32_blk_ops \<Rightarrow> bytes option \<Rightarrow> u32 \<Rightarrow> nat \<Rightarrow> u32 \<Rightarrow> u32 \<Rightarrow> u32 \<Rightarrow> 'd fat32_volume
   \<Rightarrow> (u32 \<times> u32) option \<times> 'd fat32_volume" where
  "alloc_scan ops mem count 0 cluster first found vol = (Some (first, found), vol)"
| "alloc_scan ops mem count (Suc n) cluster first found vol =
     (let c = (if cluster \<ge> vol_total_clusters vol then 2 else cluster) in
      case fat_read_entry ops mem vol c of (rc, entry, vol1) \<Rightarrow>
        if rc \<noteq> 0 then (None, vol1)
        else if entry = FAT32_CLUSTER_FREE then
          (let first1 = (if found = 0 then c else first); found1 = found + 1 in
           if found1 \<ge> count then (Some (first1, found1), vol1)
           else alloc_scan ops mem count n (c + 1) first1 found1 vol1)
        else alloc_scan ops mem count n (c + 1) 0 0 vol1)"

fun link_chain ::
  "'d fat32_blk_ops \<Rightarrow> bytes option \<Rightarrow> u32 \<Rightarrow> u32 \<Rightarrow> nat list \<Rightarrow> 'd fat32_volume \<Rightarrow> bool \<times> 'd fat32_volume" where
  "link_chain ops mem first count [] vol = (True, vol)"
| "link_chain ops mem first count (i # is) vol =
     (let c = first + of_nat i; nxt = (if of_nat i < count - 1 then c + 1 else FAT32_CLUSTER_EOC) in
      case fat_write_entry ops mem vol c nxt of (rc, vol1) \<Rightarrow>
        if rc \<noteq> 0 then (False, vol1) else link_chain ops mem first count is vol1)"

definition alloc_hint :: "u32 \<Rightarrow> u32 \<Rightarrow> 'd fat32_volume \<Rightarrow> 'd fat32_volume" where
  "alloc_hint first count vol =
     (let nf = first + count;
          vol1 = vol\<lparr>vol_next_free := (if nf \<ge> vol_total_clusters vol then 2 else nf)\<rparr>
      in if vol_free_clusters vol1 > count
         then vol1\<lparr>vol_free_clusters := vol_free_clusters vol1 - count\<rparr> else vol1)"

definition fat32_alloc_clusters ::
  "'d fat32_blk_ops \<Rightarrow> bytes option \<Rightarrow> 'd fat32_volume \<Rightarrow> u32 \<Rightarrow> u32 \<Rightarrow> u32 \<times> 'd fat32_volume" where
  "fat32_alloc_clusters ops mem vol count hint =
     (if count = 0 then (0, vol)
      else let start = (if hint \<ge> 2 then hint else 2) in
        case alloc_scan ops mem count (unat (vol_total_clusters vol)) start 0 0 vol of
          (None, vol1) \<Rightarrow> (0, vol1)
        | (Some (first, found), vol1) \<Rightarrow>
            if found < count then (0, vol1)
            else (case link_chain ops mem first count [0..<unat count] vol1 of
                (ok, vol2) \<Rightarrow> if \<not> ok then (0, vol2) else (first, alloc_hint first count vol2)))"

text \<open>The loop that frees a chain; no result means that it does not end.\<close>

partial_function (option) fat32_free_chain ::
  "'d fat32_blk_ops \<Rightarrow> bytes option \<Rightarrow> 'd fat32_volume \<Rightarrow> u32 \<Rightarrow> 'd fat32_volume option" where
  "fat32_free_chain ops mem vol cluster =
     (if cluster \<ge> 2 \<and> cluster < FAT32_CLUSTER_EOC then
        (case fat_read_entry ops mem vol cluster of (rc, nxt, vol1) \<Rightarrow>
           if rc \<noteq> 0 then Some vol1
           else (case fat_write_entry ops mem vol1 cluster FAT32_CLUSTER_FREE of (_, vol2) \<Rightarrow>
             (let vol3 = vol2\<lparr>vol_free_clusters := vol_free_clusters vol2 + 1\<rparr> in
              if nxt \<ge> FAT32_CLUSTER_EOC then Some vol3 else fat32_free_chain ops mem vol3 nxt)))
      else Some vol)"

text \<open>The counting loop from \<open>c\<close>, for \<open>n\<close> clusters.\<close>

fun count_free_from ::
  "'d fat32_blk_ops \<Rightarrow> bytes option \<Rightarrow> nat \<Rightarrow> u32 \<Rightarrow> u32 \<Rightarrow> 'd fat32_volume \<Rightarrow> u32 \<times> 'd fat32_volume" where
  "count_free_from ops mem 0 c count vol = (count, vol)"
| "count_free_from ops mem (Suc n) c count vol =
     (case fat_read_entry ops mem vol c of (rc, entry, vol1) \<Rightarrow>
        if rc \<noteq> 0 then (count, vol1)
        else count_free_from ops mem n (c + 1) (if entry = FAT32_CLUSTER_FREE then count + 1 else count) vol1)"

definition fat32_count_free ::
  "'d fat32_blk_ops \<Rightarrow> bytes option \<Rightarrow> 'd fat32_volume \<Rightarrow> u32 \<times> 'd fat32_volume" where
  "fat32_count_free ops mem vol =
     (case count_free_from ops mem (unat (vol_total_clusters vol) - 2) 2 0 vol of
        (count, vol1) \<Rightarrow> (count, vol1\<lparr>vol_free_clusters := count\<rparr>))"

section \<open>Names and times\<close>

definition toupper_c :: "u8 \<Rightarrow> u8" where
  "toupper_c b = (if 0x61 \<le> b \<and> b \<le> 0x7A then b - 0x20 else b)"

text \<open>The loop that copies up to \<open>n\<close> characters, up to a dot when \<open>dot\<close> is set: the copied
  characters, and the rest of the string.\<close>

fun copy_part :: "bool \<Rightarrow> nat \<Rightarrow> bytes \<Rightarrow> bytes \<times> bytes" where
  "copy_part dot (Suc n) (b # bs) =
     (if dot \<and> b = 0x2E then ([], b # bs)
      else (case copy_part dot n bs of (cs, rest) \<Rightarrow> (toupper_c b # cs, rest)))"
| "copy_part dot n bs = ([], bs)"

definition name_to_83 :: "bytes \<Rightarrow> bytes" where
  "name_to_83 src =
     (if src = [0x2E] then 0x2E # replicate 10 0x20
      else if src = [0x2E, 0x2E] then 0x2E # 0x2E # replicate 9 0x20
      else (case copy_part True 8 src of (name, rest) \<Rightarrow>
        (case copy_part False 3 (case rest of [] \<Rightarrow> [] | b # bs \<Rightarrow> if b = 0x2E then bs else rest) of
           (ext, _) \<Rightarrow>
             put_bytes 8 ext (put_bytes 0 name (replicate 11 0x20)))))"

text \<open>The characters of a field without the blanks at its end.\<close>

definition trim_field :: "bytes \<Rightarrow> bytes" where
  "trim_field f = rev (dropWhile (\<lambda>b. b = 0x20) (rev f))"

definition name_from_83 :: "bytes \<Rightarrow> u64 \<Rightarrow> bytes" where
  "name_from_83 name83 dst_size =
     (let room = unat (dst_size - 1); name = trim_field (take 8 name83); ext = trim_field (drop 8 name83);
          k = take room name
      in if ext \<noteq> [] \<and> name83 ! 0 \<noteq> 0x2E then take room (take room (k @ [0x2E]) @ ext) else k)"

definition lfn_checksum :: "bytes \<Rightarrow> u8" where
  "lfn_checksum name83 =
     foldl (\<lambda>sum b. (if sum AND 1 \<noteq> 0 then 0x80 else 0) + drop_bit 1 sum + b) 0 (take 11 name83)"

text \<open>Strings as their characters before the terminating NUL.\<close>

fun name_cmp :: "bytes \<Rightarrow> bytes \<Rightarrow> int" where
  "name_cmp (a # as) (b # bs) =
     (if toupper_c a \<noteq> toupper_c b then uint (toupper_c a) - uint (toupper_c b) else name_cmp as bs)"
| "name_cmp as bs =
     uint (toupper_c (case as of [] \<Rightarrow> 0 | a # _ \<Rightarrow> a)) - uint (toupper_c (case bs of [] \<Rightarrow> 0 | b # _ \<Rightarrow> b))"

record tm =
  tm_sec :: int
  tm_min :: int
  tm_hour :: int
  tm_mday :: int
  tm_mon :: int
  tm_year :: int

text \<open>The argument is what \<open>gmtime\<close> returns; the result is the time and the date.\<close>

definition datetime_to_dos :: "tm option \<Rightarrow> u16 \<times> u16" where
  "datetime_to_dos info =
     (case info of
        None \<Rightarrow> (0, 0x0021)
      | Some t \<Rightarrow>
          (let y0 = tm_year t + 1900; year = (if y0 < 1980 then 1980 else y0) in
           (of_int (tm_sec t div 2 OR push_bit 5 (tm_min t) OR push_bit 11 (tm_hour t)),
            of_int (tm_mday t OR push_bit 5 (tm_mon t + 1) OR push_bit 9 (year - 1980)))))"

section \<open>A device\<close>

text \<open>The RAM disk of \<open>kernel/test/legacy/fat32_test.c\<close>: memory from the base address of the
  disk on, or \<open>NULL\<close>.\<close>

definition RAM_DISK_SECTORS :: u64 where "RAM_DISK_SECTORS = 16384"

type_synonym ram_disk = "(nat \<Rightarrow> u8) option"

definition ram_read :: "ram_disk \<Rightarrow> u64 \<Rightarrow> u32 \<Rightarrow> int \<times> bytes" where
  "ram_read d lba n =
     (case d of
        None \<Rightarrow> (-1, [])
      | Some m \<Rightarrow>
          if lba + ucast n > RAM_DISK_SECTORS then (-1, [])
          else (0, map (\<lambda>i. m (unat (lba * 512) + i)) [0..<unat n * 512]))"

definition ram_write :: "ram_disk \<Rightarrow> u64 \<Rightarrow> u32 \<Rightarrow> bytes \<Rightarrow> int \<times> ram_disk" where
  "ram_write d lba n buf =
     (case d of
        None \<Rightarrow> (-1, d)
      | Some m \<Rightarrow>
          if lba + ucast n > RAM_DISK_SECTORS then (-1, d)
          else (0, Some (\<lambda>a. if unat (lba * 512) \<le> a \<and> a < unat (lba * 512) + unat n * 512
                            then buf ! (a - unat (lba * 512)) else m a)))"

definition ram_blk_ops :: "ram_disk fat32_blk_ops" where
  "ram_blk_ops = \<lparr>blk_read = ram_read, blk_write = ram_write, blk_n_sectors = RAM_DISK_SECTORS\<rparr>"

text \<open>The loops that may not end are executable.\<close>

declare fat32_free_chain.simps [code]

end
