(* ===== verification/Packed_Fields.thy ===== *)
theory Packed_Fields
  imports Prelude
begin

text \<open>
  Little-endian fields of packed structures: a structure is its bytes, a field is read and
  written at its offset, and a write leaves the other fields alone.
\<close>

section \<open>Little-endian fields\<close>

definition le16 :: "u16 \<Rightarrow> bytes" where
  "le16 w = [ucast w, ucast (drop_bit 8 w)]"

definition half_at :: "bytes \<Rightarrow> nat \<Rightarrow> u16" where
  "half_at b i = ucast (b ! i) OR push_bit 8 (ucast (b ! (i + 1)))"

definition dword_at :: "bytes \<Rightarrow> nat \<Rightarrow> u32" where
  "dword_at b i = ucast (b ! i) OR push_bit 8 (ucast (b ! (i + 1))) OR
     push_bit 16 (ucast (b ! (i + 2))) OR push_bit 24 (ucast (b ! (i + 3)))"

section \<open>Reading what was written\<close>

lemma length_le16 [simp]: "length (le16 w) = 2"
  by (simp add: le16_def)

lemma half_bytes: "ucast (ucast w :: u8) OR push_bit 8 (ucast (ucast (drop_bit 8 w) :: u8)) = (w :: u16)"
  by (rule bit_word_eqI) (auto simp: bit_simps)

lemma half_at_put:
  assumes "off + length p \<le> length b" and "i + 2 \<le> length b"
  shows "i + 2 \<le> off \<or> off + length p \<le> i \<Longrightarrow> half_at (put_bytes off p b) i = half_at b i"
    and "off = i \<Longrightarrow> p = le16 w \<Longrightarrow> half_at (put_bytes off p b) i = w"
  using assms by (auto simp: half_at_def nth_put_bytes le16_def half_bytes)

lemma dword_at_put:
  assumes "off + length p \<le> length b" and "i + 4 \<le> length b"
  shows "i + 4 \<le> off \<or> off + length p \<le> i \<Longrightarrow> dword_at (put_bytes off p b) i = dword_at b i"
    and "off = i \<Longrightarrow> p = le32 w \<Longrightarrow> dword_at (put_bytes off p b) i = w"
  using assms word_of_bytes [of w] by (auto simp: dword_at_def nth_put_bytes le32_def)

lemma byte_at_put:
  assumes "off + length p \<le> length b" and "i < length b"
  shows "i < off \<or> off + length p \<le> i \<Longrightarrow> put_bytes off p b ! i = b ! i"
    and "off = i \<Longrightarrow> p = [x] \<Longrightarrow> put_bytes off p b ! i = x"
  using assms by (auto simp: nth_put_bytes)

lemmas field_simps_put = half_at_put(1) half_at_put(2) [OF _ _ refl refl] dword_at_put(1) dword_at_put(2) [OF _ _ refl refl]
  byte_at_put(1) byte_at_put(2) [OF _ _ refl refl] length_put_bytes

text \<open>A field after a sequence of writes: the last one that covers it counts.\<close>

abbreviation puts :: "(nat \<times> bytes) list \<Rightarrow> bytes \<Rightarrow> bytes" where
  "puts ws b \<equiv> fold (\<lambda>(off, p) b. put_bytes off p b) ws b"

lemma length_puts: "\<forall>(off, p) \<in> set ws. off + length p \<le> length b \<Longrightarrow> length (puts ws b) = length b"
  by (induction ws arbitrary: b) (auto simp: length_put_bytes)

lemma nth_puts_other:
  assumes "\<forall>(off, p) \<in> set ws. off + length p \<le> length b \<and> (i < off \<or> off + length p \<le> i)" and "i < length b"
  shows "puts ws b ! i = b ! i"
  using assms by (induction ws arbitrary: b) (auto simp: length_put_bytes byte_at_put)

lemma nth_puts:
  assumes "\<forall>(off, p) \<in> set ws. off + length p \<le> length b" and "k < length ws" and "ws ! k = (off, q)"
    and "\<forall>(off', p) \<in> set (drop (Suc k) ws). i < off' \<or> off' + length p \<le> i" and "off \<le> i" and "i < off + length q"
  shows "puts ws b ! i = q ! (i - off)"
proof -
  let ?b = "puts (take k ws) b"
  have ws: "ws = take k ws @ (off, q) # drop (Suc k) ws" using id_take_nth_drop [OF assms(2)] assms(3) by simp
  have sub: "set (take k ws) \<subseteq> set ws" "set (drop (Suc k) ws) \<subseteq> set ws" "(off, q) \<in> set ws"
    using assms(2,3) by (auto dest: in_set_takeD in_set_dropD) (metis nth_mem)
  have len: "length ?b = length b" using assms(1) sub(1) by (intro length_puts) auto
  have fit: "off + length q \<le> length b" using assms(1) sub(3) by auto
  have "puts ws b = puts (drop (Suc k) ws) (put_bytes off q ?b)" by (subst ws) simp
  also have "\<dots> ! i = put_bytes off q ?b ! i"
    using assms(1,4,5,6) sub(2) fit len by (intro nth_puts_other) (auto simp: length_put_bytes)
  also have "\<dots> = q ! (i - off)" using assms(5,6) fit len by (simp add: nth_put_bytes)
  finally show ?thesis .
qed

lemma fields_puts:
  assumes "\<forall>(off, p) \<in> set ws. off + length p \<le> length b" and "k < length ws"
  shows "ws ! k = (i, le16 w) \<Longrightarrow> \<forall>(off, p) \<in> set (drop (Suc k) ws). i + 2 \<le> off \<or> off + length p \<le> i \<Longrightarrow>
      half_at (puts ws b) i = w"
    and "ws ! k = (i, le32 v) \<Longrightarrow> \<forall>(off, p) \<in> set (drop (Suc k) ws). i + 4 \<le> off \<or> off + length p \<le> i \<Longrightarrow>
      dword_at (puts ws b) i = v"
    and "ws ! k = (i, [x]) \<Longrightarrow> \<forall>(off, p) \<in> set (drop (Suc k) ws). i < off \<or> off + length p \<le> i \<Longrightarrow> puts ws b ! i = x"
proof -
  note n = nth_puts [OF assms]
  show "half_at (puts ws b) i = w" if "ws ! k = (i, le16 w)"
    "\<forall>(off, p) \<in> set (drop (Suc k) ws). i + 2 \<le> off \<or> off + length p \<le> i"
    using n [OF that(1), of i] n [OF that(1), of "i + 1"] that(2) half_bytes [of w] by (fastforce simp: half_at_def le16_def)
  show "dword_at (puts ws b) i = v" if "ws ! k = (i, le32 v)"
    "\<forall>(off, p) \<in> set (drop (Suc k) ws). i + 4 \<le> off \<or> off + length p \<le> i"
    using n [OF that(1), of i] n [OF that(1), of "i + 1"] n [OF that(1), of "i + 2"] n [OF that(1), of "i + 3"] that(2)
      word_of_bytes [of v] by (fastforce simp: dword_at_def le32_def)
  show "puts ws b ! i = x" if "ws ! k = (i, [x])" "\<forall>(off, p) \<in> set (drop (Suc k) ws). i < off \<or> off + length p \<le> i"
    using n [OF that(1), of i] that(2) by simp
qed

end
