(* ===== verification/Lfn.thy ===== *)
theory Lfn
  imports Fat32 Packed_Fields
begin

text \<open>
  The codec for long file names (\<open>kernel/wubu_lfn.c\<close>): a name is cut into chunks of 13 UTF-16 units,
  each in a directory entry of 32 bytes, stored last chunk first. Names are their characters
  before the terminating NUL; pointers are not NULL.
\<close>

section \<open>Model\<close>

definition WUBU_LFN_CHARS_PER_ENTRY :: nat where "WUBU_LFN_CHARS_PER_ENTRY = 13"
definition WUBU_LFN_ENTRY_SZ :: nat where "WUBU_LFN_ENTRY_SZ = 32"
definition WUBU_LFN_MAX_NAME :: nat where "WUBU_LFN_MAX_NAME = 260"
definition WUBU_LFN_MAX_ENTRIES :: nat where "WUBU_LFN_MAX_ENTRIES = 20"
definition WUBU_LFN_ATTR :: u8 where "WUBU_LFN_ATTR = 0x0F"

text \<open>The offsets of the 13 units: the three fields of 5, 6 and 2.\<close>

definition lfn_offsets :: "nat list" where
  "lfn_offsets = concat (map (\<lambda>(base, n). map (\<lambda>k. base + 2 * k) [0..<n]) [(1, 5), (14, 6), (28, 2)])"

definition lfn_unit :: "u16 list \<Rightarrow> nat \<Rightarrow> nat \<Rightarrow> u16" where
  "lfn_unit chunk nchars i = (if i < nchars then chunk ! i else if i = nchars then 0x0000 else 0xFFFF)"

definition wubu_lfn_encode_chunk :: "u16 list \<Rightarrow> nat \<Rightarrow> nat \<Rightarrow> nat \<Rightarrow> u8 \<Rightarrow> bytes" where
  "wubu_lfn_encode_chunk chunk nchars offset total_entries checksum =
     (let ordinal = of_nat (offset + 1) OR (if offset + 1 = total_entries then 0x40 else 0) in
      puts ([(0, [ordinal]), (11, [WUBU_LFN_ATTR]), (13, [checksum])]
            @ map (\<lambda>i. (lfn_offsets ! i, le16 (lfn_unit chunk nchars i))) [0..<13])
        (replicate WUBU_LFN_ENTRY_SZ 0))"

text \<open>The units of an entry, or \<open>None\<close> for the return value -1.\<close>

definition wubu_lfn_decode_chunk :: "bytes \<Rightarrow> u16 list option" where
  "wubu_lfn_decode_chunk entry =
     (if entry ! 11 \<noteq> WUBU_LFN_ATTR then None
      else Some (takeWhile (\<lambda>c. c \<noteq> 0x0000 \<and> c \<noteq> 0xFFFF) (map (half_at entry) lfn_offsets)))"

definition wubu_lfn_checksum :: "bytes \<Rightarrow> u8" where
  "wubu_lfn_checksum name83 =
     foldl (\<lambda>sum b. (if sum AND 1 \<noteq> 0 then 0x80 else 0) + drop_bit 1 sum + b) 0 (take 11 name83)"

definition lfn_needed :: "bytes \<Rightarrow> bool" where
  "lfn_needed nm \<longleftrightarrow> length nm > 12 \<or> list_ex (\<lambda>c. 0x61 \<le> c \<and> c \<le> 0x7A) nm"

text \<open>The 8.3 name the checksum is taken of.\<close>

definition lfn_83 :: "bytes \<Rightarrow> bytes" where
  "lfn_83 nm =
     (case copy_part True 8 nm of (base, rest) \<Rightarrow>
        let b = put_bytes 0 base (replicate 11 0x20) in
        case rest of
          [] \<Rightarrow> b
        | c # cs \<Rightarrow> if c = 0x2E then put_bytes 8 (fst (copy_part False 3 cs)) b else b)"

definition lfn_entry :: "u16 list \<Rightarrow> nat \<Rightarrow> u8 \<Rightarrow> nat \<Rightarrow> bytes" where
  "lfn_entry units n_entries csum ci =
     wubu_lfn_encode_chunk (drop (ci * WUBU_LFN_CHARS_PER_ENTRY) units)
       (min (length units - ci * WUBU_LFN_CHARS_PER_ENTRY) WUBU_LFN_CHARS_PER_ENTRY) ci n_entries csum"

definition wubu_lfn_build_entries :: "bytes \<Rightarrow> int \<Rightarrow> bytes list" where
  "wubu_lfn_build_entries nm max_entries =
     (if max_entries \<le> 0 then []
      else if nm = [] \<or> length nm > WUBU_LFN_MAX_NAME then []
      else if \<not> lfn_needed nm then []
      else (let units = map ucast nm;
                n_entries = min ((length units + WUBU_LFN_CHARS_PER_ENTRY - 1) div WUBU_LFN_CHARS_PER_ENTRY) (nat max_entries);
                csum = wubu_lfn_checksum (lfn_83 nm)
            in map (\<lambda>e. lfn_entry units n_entries csum (n_entries - 1 - e)) [0..<n_entries]))"

text \<open>The loop that collects the units, over the entries from the last to the first.\<close>

fun lfn_collect :: "bytes list \<Rightarrow> u16 list \<Rightarrow> u16 list option" where
  "lfn_collect [] us = Some us"
| "lfn_collect (e # es) us =
     (if length us < WUBU_LFN_MAX_NAME then
        (case wubu_lfn_decode_chunk e of
           None \<Rightarrow> None
         | Some cs \<Rightarrow> lfn_collect es (take WUBU_LFN_MAX_NAME (us @ cs)))
      else Some us)"

definition wubu_lfn_reconstruct :: "bytes list \<Rightarrow> nat \<Rightarrow> bytes option" where
  "wubu_lfn_reconstruct entries outsz =
     (if outsz = 0 \<or> entries = [] then None
      else map_option (\<lambda>us. map (\<lambda>u. if u > 0xFF then 0x3F else ucast u) (take (outsz - 1) us))
             (lfn_collect (rev entries) []))"

section \<open>One entry\<close>

lemma unat_less_u8: "unat (x :: u8) < 256"
  using unsigned_less [of x, where ?'a = nat] by simp

lemma unat_ucast_u16: "unat (ucast (x :: u8) :: u16) = unat x"
proof -
  have "unat x < 2 ^ 16" by (rule order.strict_trans [OF unat_less_u8]) simp
  then show ?thesis by (simp add: unsigned_ucast_eq take_bit_nat_eq_self)
qed

lemma narrow_u16: "ucast (ucast (x :: u8) :: u16) = x"
  by (rule bit_word_eqI) (auto simp: bit_simps)

lemma widen_char: "(if (ucast (x :: u8) :: u16) > 0xFF then 0x3F else ucast (ucast x :: u16)) = x"
proof -
  have "\<not> 255 < unat x" using unat_less_u8 [of x] by linarith
  then show ?thesis by (simp add: word_less_nat_alt unat_ucast_u16 narrow_u16)
qed

lemma lfn_offsets_eq: "lfn_offsets = [1, 3, 5, 7, 9, 14, 16, 18, 20, 22, 24, 28, 30]"
  by (simp add: lfn_offsets_def upt_rec)

lemma less_13: "i < (13 :: nat) \<Longrightarrow> i \<in> {0, 1, 2, 3, 4, 5, 6, 7, 8, 9, 10, 11, 12}"
  by (auto simp: less_Suc_eq eval_nat_numeral)

lemma lfn_offsets_gap: "i < j \<Longrightarrow> j < 13 \<Longrightarrow> lfn_offsets ! i + 2 \<le> lfn_offsets ! j"
  using less_13 [of i] less_13 [of j] by (auto simp: lfn_offsets_eq)

lemma lfn_offsets_range: "i < 13 \<Longrightarrow> 1 \<le> lfn_offsets ! i \<and> lfn_offsets ! i + 2 \<le> 32 \<and> (lfn_offsets ! i + 2 \<le> 11 \<or> 14 \<le> lfn_offsets ! i)"
  using less_13 [of i] by (auto simp: lfn_offsets_eq)

lemma encode_fields:
  "length (wubu_lfn_encode_chunk chunk n off tot cs) = 32"
  "wubu_lfn_encode_chunk chunk n off tot cs ! 11 = 0x0F"
  "i < 13 \<Longrightarrow> half_at (wubu_lfn_encode_chunk chunk n off tot cs) (lfn_offsets ! i) = lfn_unit chunk n i"
  "wubu_lfn_encode_chunk chunk n off tot cs ! 0 = of_nat (off + 1) OR (if off + 1 = tot then 0x40 else 0)"
proof -
  define ws :: "(nat \<times> bytes) list" where "ws = [(0, [of_nat (off + 1) OR (if off + 1 = tot then 0x40 else 0)]), (11, [0x0F]), (13, [cs])]
      @ map (\<lambda>i. (lfn_offsets ! i, le16 (lfn_unit chunk n i))) [0..<13]"
  have e: "wubu_lfn_encode_chunk chunk n off tot cs = puts ws (replicate 32 0)"
    by (simp add: wubu_lfn_encode_chunk_def ws_def Let_def WUBU_LFN_ATTR_def WUBU_LFN_ENTRY_SZ_def)
  have fits: "\<forall>(off, p) \<in> set ws. off + length p \<le> length (replicate 32 (0 :: u8))"
    using lfn_offsets_range by (auto simp: ws_def)
  show "length (wubu_lfn_encode_chunk chunk n off tot cs) = 32" unfolding e using length_puts [OF fits] by simp
  show "wubu_lfn_encode_chunk chunk n off tot cs ! 11 = 0x0F"
    unfolding e by (rule fields_puts(3) [OF fits, of 1]) (use lfn_offsets_range in \<open>fastforce simp: ws_def\<close>)+
  have "1 \<le> lfn_offsets ! i" if "i < 13" for i using lfn_offsets_range [OF that] by simp
  then show "wubu_lfn_encode_chunk chunk n off tot cs ! 0 = of_nat (off + 1) OR (if off + 1 = tot then 0x40 else 0)"
    unfolding e by (intro fields_puts(3) [OF fits, of 0]) (fastforce simp: ws_def)+
  show "half_at (wubu_lfn_encode_chunk chunk n off tot cs) (lfn_offsets ! i) = lfn_unit chunk n i" if i: "i < 13"
    unfolding e
  proof (rule fields_puts(1) [OF fits, of "Suc (Suc (Suc i))"])
    show "ws ! Suc (Suc (Suc i)) = (lfn_offsets ! i, le16 (lfn_unit chunk n i))" using i by (simp add: ws_def nth_append)
    show "\<forall>(off, p) \<in> set (drop (Suc (Suc (Suc (Suc i)))) ws). lfn_offsets ! i + 2 \<le> off \<or> off + length p \<le> lfn_offsets ! i"
      using lfn_offsets_gap [of i] by (auto simp: ws_def drop_map)
  qed (use i in \<open>simp add: ws_def\<close>)
qed

lemma encode_units:
  assumes "n \<le> 13" and "n \<le> length chunk"
  shows "map (half_at (wubu_lfn_encode_chunk chunk n off tot cs)) lfn_offsets = take n chunk @ map (lfn_unit chunk n) [n..<13]"
proof -
  have "length lfn_offsets = 13" by (simp add: lfn_offsets_eq)
  then have "map (half_at (wubu_lfn_encode_chunk chunk n off tot cs)) lfn_offsets = map (lfn_unit chunk n) [0..<13]"
    by (intro nth_equalityI) (simp_all add: encode_fields(3))
  also have "\<dots> = map (lfn_unit chunk n) [0..<n] @ map (lfn_unit chunk n) [n..<13]"
    using assms(1) upt_add_eq_append [of 0 n "13 - n"] by (simp flip: map_append)
  also have "map (lfn_unit chunk n) [0..<n] = take n chunk"
    using assms(2) by (intro nth_equalityI) (simp_all add: lfn_unit_def)
  finally show ?thesis .
qed

lemma decode_encode:
  assumes "n \<le> 13" and "n \<le> length chunk" and "\<forall>c \<in> set chunk. c \<noteq> 0 \<and> c \<noteq> 0xFFFF"
  shows "wubu_lfn_decode_chunk (wubu_lfn_encode_chunk chunk n off tot cs) = Some (take n chunk)"
proof -
  have "takeWhile (\<lambda>c. c \<noteq> 0 \<and> c \<noteq> 0xFFFF) (map (lfn_unit chunk n) [n..<13]) = []"
    by (cases "n < 13") (simp_all add: upt_conv_Cons lfn_unit_def)
  moreover have "\<forall>c \<in> set (take n chunk). c \<noteq> 0 \<and> c \<noteq> 0xFFFF" using assms(3) by (auto dest: in_set_takeD)
  ultimately have "takeWhile (\<lambda>c. c \<noteq> 0 \<and> c \<noteq> 0xFFFF) (map (half_at (wubu_lfn_encode_chunk chunk n off tot cs)) lfn_offsets) = take n chunk"
    unfolding encode_units [OF assms(1,2)] by (subst takeWhile_append2) auto
  then show ?thesis using encode_fields(2) [of chunk n off tot cs] by (simp add: wubu_lfn_decode_chunk_def WUBU_LFN_ATTR_def)
qed

section \<open>The chain\<close>

lemma decode_entry:
  assumes "\<forall>c \<in> set units. c \<noteq> 0 \<and> c \<noteq> 0xFFFF"
  shows "wubu_lfn_decode_chunk (lfn_entry units n_entries cs ci) = Some (take 13 (drop (ci * 13) units))"
proof -
  have "wubu_lfn_decode_chunk (lfn_entry units n_entries cs ci) =
      Some (take (min (length units - ci * 13) 13) (drop (ci * 13) units))"
    unfolding lfn_entry_def WUBU_LFN_CHARS_PER_ENTRY_def
    by (rule decode_encode) (use assms in \<open>auto dest: in_set_dropD\<close>)
  then show ?thesis by (simp add: min_def)
qed

lemma collect_entries:
  assumes "\<forall>c \<in> set units. c \<noteq> 0 \<and> c \<noteq> 0xFFFF" and "length units \<le> 260" and "k \<le> t" and "(t - 1) * 13 < length units"
    and "length units \<le> t * 13"
  shows "lfn_collect (map (lfn_entry units n cs) [k..<t]) (take (k * 13) units) = Some units"
  using assms(3)
proof (induction "t - k" arbitrary: k)
  case 0
  then show ?case using assms(5) by simp
next
  case (Suc j)
  then have k: "k < t" by simp
  then have "k * 13 < length units" using assms(4) by (metis Suc_pred' le_less_trans less_Suc_eq_le mult_le_mono1 not_less_zero zero_less_iff_neq_zero)
  moreover have "take (k * 13) units @ take 13 (drop (k * 13) units) = take (Suc k * 13) units"
    using take_add [of "k * 13" 13 units] by (simp add: add.commute)
  moreover have "take 260 (take (Suc k * 13) units) = take (Suc k * 13) units" using assms(2) by (simp add: min_def)
  ultimately show ?case
    using Suc(1) [of "Suc k"] Suc(2) k assms(2) decode_entry [OF assms(1)]
    by (simp add: upt_conv_Cons WUBU_LFN_MAX_NAME_def)
qed

lemma units_ok:
  assumes "0 \<notin> set nm" and c: "c \<in> set (map ucast (nm :: bytes) :: u16 list)"
  shows "c \<noteq> 0 \<and> c \<noteq> 0xFFFF"
proof -
  obtain x where x: "x \<in> set nm" "c = ucast x" using c by auto
  have "unat c = unat x" unfolding x by (rule unat_ucast_u16)
  moreover have "unat x < 256" by (rule unat_less_u8)
  moreover have "unat x \<noteq> 0" using x(1) assms(1) by (metis unat_eq_zero)
  ultimately have "unat c < 256" "unat c \<noteq> 0" by simp_all
  then show ?thesis by (simp add: word_unat_eq_iff)
qed

lemma build_entries_eq:
  assumes "nm \<noteq> []" and "length nm \<le> 260" and "lfn_needed nm" and "t = (length nm + 12) div 13"
  shows "wubu_lfn_build_entries nm 20 = map (\<lambda>e. lfn_entry (map ucast nm) t (wubu_lfn_checksum (lfn_83 nm)) (t - 1 - e)) [0..<t]"
    and "t \<le> 20" and "0 < t" and "(t - 1) * 13 < length nm" and "length nm \<le> t * 13"
proof -
  show t: "t \<le> 20" "0 < t" "(t - 1) * 13 < length nm" "length nm \<le> t * 13"
    using assms(1,2,4) length_greater_0_conv [of nm] by linarith+
  show "wubu_lfn_build_entries nm 20 = map (\<lambda>e. lfn_entry (map ucast nm) t (wubu_lfn_checksum (lfn_83 nm)) (t - 1 - e)) [0..<t]"
    using assms t(1)
    by (simp add: wubu_lfn_build_entries_def WUBU_LFN_MAX_NAME_def WUBU_LFN_CHARS_PER_ENTRY_def Let_def min_def add.commute)
qed

text \<open>C27: Long names survive. The entries that \<open>wubu_lfn_build_entries\<close> makes for a name that needs
  them (at most 260 characters) are as many as 13 units each require, and
  \<open>wubu_lfn_reconstruct\<close> gives exactly that name back when the buffer is large enough.\<close>

theorem lfn_roundtrip:
  assumes "nm \<noteq> []" and "length nm \<le> 260" and "0 \<notin> set nm" and "lfn_needed nm" and "length nm < outsz"
  shows "wubu_lfn_reconstruct (wubu_lfn_build_entries nm 20) outsz = Some nm \<and>
    length (wubu_lfn_build_entries nm 20) = (length nm + 12) div 13 \<and>
    (\<forall>e \<in> set (wubu_lfn_build_entries nm 20). length e = 32 \<and> e ! 11 = WUBU_LFN_ATTR)"
proof -
  let ?us = "map ucast nm :: u16 list" and ?t = "(length nm + 12) div 13" and ?cs = "wubu_lfn_checksum (lfn_83 nm)"
  note b = build_entries_eq(1) [OF assms(1,2,4) refl] and t = build_entries_eq(2-) [OF assms(1,2,4) refl]
  have r: "rev (wubu_lfn_build_entries nm 20) = map (lfn_entry ?us ?t ?cs) [0..<?t]"
    unfolding b by (rule nth_equalityI) (auto simp: rev_nth)
  have "lfn_collect (rev (wubu_lfn_build_entries nm 20)) [] = Some ?us"
    using collect_entries [of ?us 0 ?t ?t ?cs] units_ok [OF assms(3)] assms(2) t r by simp
  moreover have "map (\<lambda>u. if u > 0xFF then 0x3F else ucast u) ?us = nm"
    by (simp add: widen_char comp_def)
  moreover have "wubu_lfn_build_entries nm 20 \<noteq> []" using b t(2) by simp
  ultimately have "wubu_lfn_reconstruct (wubu_lfn_build_entries nm 20) outsz = Some nm"
    using assms(5) by (simp add: wubu_lfn_reconstruct_def)
  moreover have "\<forall>e \<in> set (wubu_lfn_build_entries nm 20). length e = 32 \<and> e ! 11 = WUBU_LFN_ATTR"
    by (auto simp: b lfn_entry_def encode_fields WUBU_LFN_ATTR_def)
  moreover have "length (wubu_lfn_build_entries nm 20) = ?t" unfolding b by simp
  ultimately show ?thesis by blast
qed

theorem lfn_roundtrip_witness:
  "wubu_lfn_reconstruct (wubu_lfn_build_entries (replicate 14 0x61) 20) 15 = Some (replicate 14 0x61)"
  by (rule lfn_roundtrip [THEN conjunct1]) (simp_all add: lfn_needed_def)

text \<open>The checksum in the entries is not always that of the short entry beside them: for a base
  name of more than 8 characters the two ways to make an 8.3 name differ.\<close>

lemma lfn_checksum_differs:
  "let nm = [0x6C, 0x6F, 0x6E, 0x67, 0x66, 0x69, 0x6C, 0x65, 0x6E, 0x61, 0x6D, 0x65, 0x2E, 0x74, 0x78, 0x74] in
     wubu_lfn_checksum (lfn_83 nm) \<noteq> lfn_checksum (name_to_83 nm)"
  by code_simp

end
