(* ===== verification/Fat32_Dir.thy ===== *)
theory Fat32_Dir
  imports Lfn
begin

text \<open>
  Directories (\<open>kernel/fat32_dir.c\<close>): enumeration, lookup, creation and deletion of entries. A
  directory entry is its 32 bytes. A result \<open>None\<close> means that the code has no defined result: a cyclic
  chain is followed forever, or a long-name entry with ordinal 0 is stored below its
  buffer. The parameter \<open>got\<close> says whether \<open>malloc\<close> of the cluster buffers succeeds, \<open>now\<close> is what
  \<open>gmtime\<close> returns for the current time.
\<close>

section \<open>Entries\<close>

definition FAT32_DIR_ENTRY_SIZE :: nat where "FAT32_DIR_ENTRY_SIZE = 32"
definition FAT32_MAX_NAME :: nat where "FAT32_MAX_NAME = 255"
definition FAT32_ATTR_VOLUME_ID :: u8 where "FAT32_ATTR_VOLUME_ID = 0x08"
definition FAT32_ATTR_DIRECTORY :: u8 where "FAT32_ATTR_DIRECTORY = 0x10"
definition FAT32_ATTR_ARCHIVE :: u8 where "FAT32_ATTR_ARCHIVE = 0x20"
definition FAT32_ATTR_LFN :: u8 where "FAT32_ATTR_LFN = 0x0F"

record fat32_file_info =
  fi_name :: bytes
  fi_first_cluster :: u32
  fi_file_size :: u32
  fi_attr :: u8
  fi_dir_cluster :: u32
  fi_dir_offset :: u32

definition dir_slot :: "bytes \<Rightarrow> nat \<Rightarrow> bytes" where
  "dir_slot buf i = take FAT32_DIR_ENTRY_SIZE (drop (i * FAT32_DIR_ENTRY_SIZE) buf)"

definition entries_per_cluster :: "'d fat32_volume \<Rightarrow> nat" where
  "entries_per_cluster vol = unat (vol_bytes_per_cluster vol div 32)"

definition de_cluster :: "bytes \<Rightarrow> u32" where
  "de_cluster de = push_bit 16 (ucast (half_at de 20)) OR ucast (half_at de 26)"

text \<open>A C string in a buffer.\<close>

definition cstr :: "bytes \<Rightarrow> bytes" where "cstr buf = takeWhile (\<lambda>b. b \<noteq> 0) buf"

definition entry_name :: "bytes \<Rightarrow> bytes \<Rightarrow> bytes" where
  "entry_name lfn de = (if lfn ! 0 \<noteq> 0 then cstr lfn else cstr (name_from_83 (take 11 de) 256))"

definition lfn_cleared :: bytes where "lfn_cleared = replicate 256 0"

text \<open>The loop that stores the units of a long-name entry from index \<open>idx\<close> on.\<close>

fun lfn_store :: "int \<Rightarrow> u16 list \<Rightarrow> bytes \<Rightarrow> bytes option" where
  "lfn_store idx [] lfn = Some lfn"
| "lfn_store idx (c # cs) lfn =
     (if \<not> idx < 255 then Some lfn
      else if c = 0x0000 \<or> c = 0xFFFF then Some lfn
      else if idx < 0 then None
      else lfn_store (idx + 1) cs (lfn[nat idx := ucast (c AND 0xFF)]))"

definition lfn_take_entry :: "bytes \<Rightarrow> bytes \<Rightarrow> bytes option" where
  "lfn_take_entry de lfn =
     (let ord = de ! 0; seq = uint (ord AND 0x3F);
          lfn1 = (if ord AND 0x40 \<noteq> 0 then lfn_cleared else lfn)
      in lfn_store ((seq - 1) * 13) (map (half_at de) lfn_offsets) lfn1)"

section \<open>Lookup\<close>

text \<open>What a scan of the entries of a cluster ends with: the end mark, a result, or nothing, with the
  long name collected so far.\<close>

datatype 'r dir_scan = Scan_stop | Scan_hit 'r | Scan_more bytes

definition found_info :: "bytes \<Rightarrow> bytes \<Rightarrow> u32 \<Rightarrow> nat \<Rightarrow> fat32_file_info" where
  "found_info nm de cluster i =
     \<lparr>fi_name = take 254 nm, fi_first_cluster = de_cluster de, fi_file_size = dword_at de 28, fi_attr = de ! 11,
      fi_dir_cluster = cluster, fi_dir_offset = of_nat i\<rparr>"

fun find_entries :: "bytes \<Rightarrow> bytes \<Rightarrow> u32 \<Rightarrow> nat list \<Rightarrow> bytes \<Rightarrow> fat32_file_info dir_scan option" where
  "find_entries nm buf cluster [] lfn = Some (Scan_more lfn)"
| "find_entries nm buf cluster (i # is) lfn =
     (let de = dir_slot buf i in
      if de ! 0 = 0x00 then Some Scan_stop
      else if de ! 0 = 0xE5 then find_entries nm buf cluster is lfn_cleared
      else if de ! 11 = FAT32_ATTR_LFN then
        (case lfn_take_entry de lfn of None \<Rightarrow> None | Some lfn1 \<Rightarrow> find_entries nm buf cluster is lfn1)
      else if de ! 11 AND FAT32_ATTR_VOLUME_ID \<noteq> 0 then find_entries nm buf cluster is lfn_cleared
      else if name_cmp (entry_name lfn de) nm = 0 then Some (Scan_hit (found_info (entry_name lfn de) de cluster i))
      else find_entries nm buf cluster is lfn_cleared)"

partial_function (option) find_loop ::
  "'d fat32_blk_ops \<Rightarrow> bytes option \<Rightarrow> bytes \<Rightarrow> 'd fat32_volume \<Rightarrow> u32 \<Rightarrow> bytes
   \<Rightarrow> (fat32_file_info option \<times> 'd fat32_volume) option" where
  "find_loop ops mem nm vol cluster lfn =
     (if cluster \<ge> 2 \<and> cluster < FAT32_CLUSTER_EOC then
        (case blk_read ops (vol_ctx vol) (fat32_cluster_to_lba vol cluster) (vol_sectors_per_cluster vol) of (rc, buf) \<Rightarrow>
           if rc \<noteq> 0 then Some (None, vol)
           else (case find_entries nm buf cluster [0..<entries_per_cluster vol] lfn of
               None \<Rightarrow> None
             | Some Scan_stop \<Rightarrow> Some (None, vol)
             | Some (Scan_hit info) \<Rightarrow> Some (Some info, vol)
             | Some (Scan_more lfn1) \<Rightarrow>
                 (case fat32_next_cluster ops mem vol cluster of (next, vol1) \<Rightarrow> find_loop ops mem nm vol1 next lfn1)))
      else Some (None, vol))"

text \<open>The information on the entry, or none for the return value -1.\<close>

definition fat32_find ::
  "'d fat32_blk_ops \<Rightarrow> bytes option \<Rightarrow> bool \<Rightarrow> 'd fat32_volume \<Rightarrow> u32 \<Rightarrow> bytes
   \<Rightarrow> (fat32_file_info option \<times> 'd fat32_volume) option" where
  "fat32_find ops mem got vol dir_cluster nm =
     (if \<not> got then Some (None, vol)
      else find_loop ops mem nm vol (if dir_cluster = 0 then vol_root_cluster vol else dir_cluster) lfn_cleared)"

section \<open>Enumeration\<close>

text \<open>The callback gets the information and its context and says whether to go on.\<close>

type_synonym 's dir_callback = "fat32_file_info \<Rightarrow> 's \<Rightarrow> bool \<times> 's"

definition listed_info :: "bytes \<Rightarrow> bytes \<Rightarrow> u32 \<Rightarrow> nat \<Rightarrow> fat32_file_info" where
  "listed_info lfn de cluster i =
     \<lparr>fi_name = (if lfn ! 0 \<noteq> 0 then take 254 (cstr lfn) else cstr (name_from_83 (take 11 de) 256)),
      fi_first_cluster = de_cluster de, fi_file_size = dword_at de 28, fi_attr = de ! 11,
      fi_dir_cluster = cluster, fi_dir_offset = of_nat i\<rparr>"

text \<open>The result is whether the scan goes on, the count, the context and the long name.\<close>

fun list_entries ::
  "'s dir_callback option \<Rightarrow> bytes \<Rightarrow> u32 \<Rightarrow> nat list \<Rightarrow> int \<Rightarrow> 's \<Rightarrow> bytes \<Rightarrow> (bool \<times> int \<times> 's \<times> bytes) option" where
  "list_entries cb buf cluster [] count s lfn = Some (True, count, s, lfn)"
| "list_entries cb buf cluster (i # is) count s lfn =
     (let de = dir_slot buf i in
      if de ! 0 = 0x00 then Some (False, count, s, lfn)
      else if de ! 0 = 0xE5 then list_entries cb buf cluster is count s lfn_cleared
      else if de ! 11 = FAT32_ATTR_LFN then
        (case lfn_take_entry de lfn of None \<Rightarrow> None | Some lfn1 \<Rightarrow> list_entries cb buf cluster is count s lfn1)
      else if de ! 11 AND FAT32_ATTR_VOLUME_ID \<noteq> 0 then list_entries cb buf cluster is count s lfn_cleared
      else (case cb of
          None \<Rightarrow> list_entries cb buf cluster is (count + 1) s lfn_cleared
        | Some f \<Rightarrow>
            (case f (listed_info lfn de cluster i) s of (go, s1) \<Rightarrow>
               if \<not> go then Some (False, count + 1, s1, lfn)
               else list_entries cb buf cluster is (count + 1) s1 lfn_cleared)))"

partial_function (option) list_loop ::
  "'d fat32_blk_ops \<Rightarrow> bytes option \<Rightarrow> 's dir_callback option \<Rightarrow> 'd fat32_volume \<Rightarrow> u32 \<Rightarrow> int \<Rightarrow> 's \<Rightarrow> bytes
   \<Rightarrow> (int \<times> 's \<times> 'd fat32_volume) option" where
  "list_loop ops mem cb vol cluster count s lfn =
     (if cluster \<ge> 2 \<and> cluster < FAT32_CLUSTER_EOC then
        (case blk_read ops (vol_ctx vol) (fat32_cluster_to_lba vol cluster) (vol_sectors_per_cluster vol) of (rc, buf) \<Rightarrow>
           if rc \<noteq> 0 then Some (-1, s, vol)
           else (case list_entries cb buf cluster [0..<entries_per_cluster vol] count s lfn of
               None \<Rightarrow> None
             | Some (go, count1, s1, lfn1) \<Rightarrow>
                 if \<not> go then Some (count1, s1, vol)
                 else (case fat32_next_cluster ops mem vol cluster of
                   (next, vol1) \<Rightarrow> list_loop ops mem cb vol1 next count1 s1 lfn1)))
      else Some (count, s, vol))"

definition fat32_dir_read ::
  "'d fat32_blk_ops \<Rightarrow> bytes option \<Rightarrow> bool \<Rightarrow> 'd fat32_volume \<Rightarrow> u32 \<Rightarrow> 's dir_callback option \<Rightarrow> 's
   \<Rightarrow> (int \<times> 's \<times> 'd fat32_volume) option" where
  "fat32_dir_read ops mem got vol dir_cluster cb s =
     (if \<not> vol_mounted vol then Some (-1, s, vol)
      else if \<not> got then Some (-1, s, vol)
      else list_loop ops mem cb vol (if dir_cluster = 0 then vol_root_cluster vol else dir_cluster) 0 s lfn_cleared)"

section \<open>Creation\<close>

definition put_cluster :: "u32 \<Rightarrow> (nat \<times> bytes) list" where
  "put_cluster c = [(26, le16 (ucast (c AND 0xFFFF))), (20, le16 (ucast (drop_bit 16 c)))]"

text \<open>The first cluster of a new directory.\<close>

definition dot_entries :: "'d fat32_volume \<Rightarrow> u32 \<Rightarrow> u32 \<Rightarrow> bytes" where
  "dot_entries vol new_cluster dir_cluster =
     put_bytes 32 (puts ((0, 0x2E # 0x2E # replicate 9 0x20) # (11, [FAT32_ATTR_DIRECTORY]) # put_cluster dir_cluster) (replicate 32 0))
       (put_bytes 0 (puts ((0, 0x2E # replicate 10 0x20) # (11, [FAT32_ATTR_DIRECTORY]) # put_cluster new_cluster) (replicate 32 0))
         (replicate (unat (vol_bytes_per_cluster vol)) 0))"

definition slot_free :: "bytes \<Rightarrow> nat \<Rightarrow> bool" where
  "slot_free buf i \<longleftrightarrow> dir_slot buf i ! 0 = 0x00 \<or> dir_slot buf i ! 0 = 0xE5"

text \<open>The first run of \<open>n + 1\<close> free slots.\<close>

definition free_slots :: "'d fat32_volume \<Rightarrow> bytes \<Rightarrow> nat \<Rightarrow> nat option" where
  "free_slots vol buf n =
     List.find (\<lambda>i. list_all (\<lambda>k. slot_free buf (i + k)) [0..<Suc n]) [0..<entries_per_cluster vol - n]"

definition short_entry :: "bytes \<Rightarrow> u8 \<Rightarrow> u32 \<Rightarrow> tm option \<Rightarrow> bytes" where
  "short_entry nm attr cluster now =
     (case datetime_to_dos now of (tme, dte) \<Rightarrow>
        puts ([(0, take 8 (name_to_83 nm)), (8, drop 8 (name_to_83 nm)), (11, [attr])] @ put_cluster cluster
              @ [(14, le16 tme), (16, le16 dte), (22, le16 tme), (24, le16 dte), (18, le16 dte)])
          (replicate 32 0))"

definition store_entries :: "bytes \<Rightarrow> nat \<Rightarrow> bytes list \<Rightarrow> bytes" where
  "store_entries buf i es =
     fold (\<lambda>(k, e) b. put_bytes ((i + k) * FAT32_DIR_ENTRY_SIZE) e b) (zip [0..<length es] es) buf"

definition created_info :: "bytes \<Rightarrow> u8 \<Rightarrow> u32 \<Rightarrow> u32 \<Rightarrow> nat \<Rightarrow> fat32_file_info" where
  "created_info nm attr new_cluster cluster i =
     \<lparr>fi_name = take 255 nm, fi_first_cluster = new_cluster, fi_file_size = 0, fi_attr = attr,
      fi_dir_cluster = cluster, fi_dir_offset = of_nat i\<rparr>"

partial_function (option) create_loop ::
  "'d fat32_blk_ops \<Rightarrow> bytes option \<Rightarrow> bytes \<Rightarrow> u8 \<Rightarrow> tm option \<Rightarrow> bytes list \<Rightarrow> u32 \<Rightarrow> 'd fat32_volume \<Rightarrow> u32
   \<Rightarrow> (int \<times> fat32_file_info option \<times> 'd fat32_volume) option" where
  "create_loop ops mem nm attr now lfns new_cluster vol cluster =
     (if cluster \<ge> 2 \<and> cluster < FAT32_CLUSTER_EOC then
        (let lba = fat32_cluster_to_lba vol cluster in
         case blk_read ops (vol_ctx vol) lba (vol_sectors_per_cluster vol) of (rc, buf) \<Rightarrow>
           if rc \<noteq> 0 then Some (-1, None, vol)
           else (case free_slots vol buf (length lfns) of
               Some i \<Rightarrow>
                 (case blk_write ops (vol_ctx vol) lba (vol_sectors_per_cluster vol)
                         (store_entries buf i (lfns @ [short_entry nm attr new_cluster now])) of
                    (wrc, d1) \<Rightarrow> Some (if wrc = 0 then 0 else -1,
                        Some (created_info nm attr new_cluster cluster (i + length lfns)), vol\<lparr>vol_ctx := d1\<rparr>))
             | None \<Rightarrow>
                 (case fat32_next_cluster ops mem vol cluster of (next, vol1) \<Rightarrow>
                    if next = 0 \<or> next \<ge> FAT32_CLUSTER_EOC then
                      (case fat32_alloc_clusters ops mem vol1 1 0 of (nd, vol2) \<Rightarrow>
                         if nd = 0 then Some (-1, None, vol2)
                         else (case fat_write_entry ops mem vol2 cluster nd of (_, vol3) \<Rightarrow>
                           (case fat_write_entry ops mem vol3 nd FAT32_CLUSTER_EOC of (_, vol4) \<Rightarrow>
                             (case blk_write ops (vol_ctx vol4) (fat32_cluster_to_lba vol4 nd) (vol_sectors_per_cluster vol4)
                                     (replicate (unat (vol_bytes_per_cluster vol4)) 0) of
                                (_, d5) \<Rightarrow>
                                  create_loop ops mem nm attr now lfns new_cluster (vol4\<lparr>vol_ctx := d5\<rparr>) nd))))
                    else create_loop ops mem nm attr now lfns new_cluster vol1 next)))
      else Some (-1, None, vol))"

definition fat32_create ::
  "'d fat32_blk_ops \<Rightarrow> bytes option \<Rightarrow> bool \<Rightarrow> tm option \<Rightarrow> 'd fat32_volume \<Rightarrow> u32 \<Rightarrow> bytes \<Rightarrow> u8
   \<Rightarrow> (int \<times> fat32_file_info option \<times> 'd fat32_volume) option" where
  "fat32_create ops mem got now vol dir_cluster nm attr =
     (if \<not> vol_mounted vol then Some (-1, None, vol)
      else if nm = [] then Some (-1, None, vol)
      else let dir = (if dir_cluster = 0 then vol_root_cluster vol else dir_cluster) in
        case fat32_find ops mem got vol dir nm of
          None \<Rightarrow> None
        | Some (Some existing, vol1) \<Rightarrow> Some (0, Some existing, vol1)
        | Some (None, vol1) \<Rightarrow>
            (case fat32_alloc_clusters ops mem vol1 1 0 of (new_cluster, vol2) \<Rightarrow>
               if new_cluster = 0 then Some (-1, None, vol2)
               else if \<not> got then Some (-1, None, vol2)
               else (let vol3 = (if attr AND FAT32_ATTR_DIRECTORY \<noteq> 0
                                 then vol2\<lparr>vol_ctx := snd (blk_write ops (vol_ctx vol2) (fat32_cluster_to_lba vol2 new_cluster)
                                        (vol_sectors_per_cluster vol2) (dot_entries vol2 new_cluster dir))\<rparr>
                                 else vol2)
                     in create_loop ops mem nm attr now (wubu_lfn_build_entries nm 20) new_cluster vol3 dir)))"

section \<open>Deletion\<close>

definition fat32_delete ::
  "'d fat32_blk_ops \<Rightarrow> bytes option \<Rightarrow> bool \<Rightarrow> 'd fat32_volume \<Rightarrow> u32 \<Rightarrow> bytes \<Rightarrow> (int \<times> 'd fat32_volume) option" where
  "fat32_delete ops mem got vol dir_cluster nm =
     (if \<not> vol_mounted vol then Some (-1, vol)
      else case fat32_find ops mem got vol (if dir_cluster = 0 then vol_root_cluster vol else dir_cluster) nm of
        None \<Rightarrow> None
      | Some (None, vol1) \<Rightarrow> Some (-1, vol1)
      | Some (Some info, vol1) \<Rightarrow>
          (case (if fi_first_cluster info \<ge> 2 then fat32_free_chain ops mem vol1 (fi_first_cluster info) else Some vol1) of
             None \<Rightarrow> None
           | Some vol2 \<Rightarrow>
               if \<not> got then Some (-1, vol2)
               else (let lba = fat32_cluster_to_lba vol2 (fi_dir_cluster info) in
                 case blk_read ops (vol_ctx vol2) lba (vol_sectors_per_cluster vol2) of (rc, buf) \<Rightarrow>
                   if rc \<noteq> 0 then Some (-1, vol2)
                   else (case blk_write ops (vol_ctx vol2) lba (vol_sectors_per_cluster vol2)
                           (put_bytes (unat (fi_dir_offset info) * FAT32_DIR_ENTRY_SIZE) [0xE5] buf) of
                     (wrc, d3) \<Rightarrow> Some (if wrc = 0 then 0 else -1, vol2\<lparr>vol_ctx := d3\<rparr>)))))"

text \<open>The loops that may not end are executable.\<close>

declare find_loop.simps [code]
  list_loop.simps [code]
  create_loop.simps [code]

end
