(* ===== verification/Fat32_File.thy ===== *)
theory Fat32_File
  imports Fat32_Dir
begin

text \<open>
  Open files (\<open>kernel/fat32_file.c\<close>): opening, reading, writing, seeking and closing. The volume that
  an open file points to is passed along with the file. A result \<open>None\<close> means that a chain is
  followed forever; the parameters \<open>mem\<close>, \<open>got\<close> and \<open>now\<close> are those of the directory
  operations.
\<close>

section \<open>State\<close>

text \<open>The field \<open>f_vol\<close> says that the volume pointer is not NULL.\<close>

record fat32_file =
  f_vol :: bool
  f_first_cluster :: u32
  f_current_cluster :: u32
  f_file_size :: u32
  f_attr :: u8
  f_pos :: u64
  f_write_mode :: bool
  f_dir_cluster :: u32
  f_dir_offset :: u32

definition closed_file :: fat32_file where
  "closed_file = \<lparr>f_vol = False, f_first_cluster = 0, f_current_cluster = 0, f_file_size = 0, f_attr = 0, f_pos = 0,
     f_write_mode = False, f_dir_cluster = 0, f_dir_offset = 0\<rparr>"

section \<open>Reading\<close>

text \<open>How much of the current cluster a transfer covers: the offset in it and the length.\<close>

definition transfer_span :: "'d fat32_volume \<Rightarrow> u64 \<Rightarrow> u64 \<Rightarrow> u32 \<times> u32" where
  "transfer_span vol pos remaining =
     (let cluster_size = vol_bytes_per_cluster vol;
          offset = ucast (pos mod ucast cluster_size);
          room = cluster_size - offset
      in (offset, if remaining < ucast room then ucast remaining else room))"

text \<open>The loop of \<open>fat32_read\<close>: the bytes stored so far, the file and the volume.\<close>

partial_function (option) read_loop ::
  "'d fat32_blk_ops \<Rightarrow> bytes option \<Rightarrow> bool \<Rightarrow> bytes \<Rightarrow> u64 \<Rightarrow> u32 \<Rightarrow> fat32_file \<Rightarrow> 'd fat32_volume
   \<Rightarrow> (bytes \<times> fat32_file \<times> 'd fat32_volume) option" where
  "read_loop ops mem got acc remaining cluster fp vol =
     (if remaining > 0 \<and> cluster \<ge> 2 \<and> cluster < FAT32_CLUSTER_EOC then
        (case transfer_span vol (f_pos fp) remaining of (offset, to_read) \<Rightarrow>
           let partial = \<not> (offset = 0 \<and> to_read = vol_bytes_per_cluster vol) in
           if partial \<and> \<not> got then Some (acc, fp, vol)
           else (case blk_read ops (vol_ctx vol) (fat32_cluster_to_lba vol cluster) (vol_sectors_per_cluster vol) of
              (rc, bs) \<Rightarrow>
                if rc \<noteq> 0 then Some (acc, fp, vol)
                else (let acc1 = acc @ (if partial then take (unat to_read) (drop (unat offset) bs) else bs);
                          fp1 = fp\<lparr>f_pos := f_pos fp + ucast to_read\<rparr>;
                          left = remaining - ucast to_read
                      in if offset + to_read \<ge> vol_bytes_per_cluster vol then
                           (case fat32_next_cluster ops mem vol cluster of (next, vol1) \<Rightarrow>
                              read_loop ops mem got acc1 left next (fp1\<lparr>f_current_cluster := next\<rparr>) vol1)
                         else read_loop ops mem got acc1 left cluster fp1 vol)))
      else Some (acc, fp, vol))"

text \<open>The bytes that are stored in the buffer (their number is the return value).\<close>

definition fat32_read ::
  "'d fat32_blk_ops \<Rightarrow> bytes option \<Rightarrow> bool \<Rightarrow> fat32_file \<Rightarrow> 'd fat32_volume \<Rightarrow> u64
   \<Rightarrow> (bytes \<times> fat32_file \<times> 'd fat32_volume) option" where
  "fat32_read ops mem got fp vol n =
     (if \<not> f_vol fp then Some ([], fp, vol)
      else let remaining = (if f_pos fp + n > ucast (f_file_size fp) then ucast (f_file_size fp) - f_pos fp else n) in
        if remaining = 0 then Some ([], fp, vol)
        else read_loop ops mem got [] remaining (f_current_cluster fp) fp vol)"

section \<open>Writing\<close>

text \<open>The walk that looks for the cluster before the current one.\<close>

partial_function (option) prev_loop ::
  "'d fat32_blk_ops \<Rightarrow> bytes option \<Rightarrow> u32 \<Rightarrow> u32 \<Rightarrow> u32 \<Rightarrow> 'd fat32_volume \<Rightarrow> (u32 \<times> 'd fat32_volume) option" where
  "prev_loop ops mem cluster prev c vol =
     (if c \<ge> 2 \<and> c < FAT32_CLUSTER_EOC then
        (case fat32_next_cluster ops mem vol c of (next, vol1) \<Rightarrow>
           if next = cluster \<or> next = 0 \<or> next \<ge> FAT32_CLUSTER_EOC then Some (prev, vol1)
           else prev_loop ops mem cluster c next vol1)
      else Some (prev, vol))"

definition find_prev ::
  "'d fat32_blk_ops \<Rightarrow> bytes option \<Rightarrow> fat32_file \<Rightarrow> 'd fat32_volume \<Rightarrow> (u32 \<times> 'd fat32_volume) option" where
  "find_prev ops mem fp vol =
     (let cluster = f_current_cluster fp; first = f_first_cluster fp in
      if cluster \<ge> 2 \<and> cluster < FAT32_CLUSTER_EOC then
        (if first \<noteq> cluster then prev_loop ops mem cluster first first vol else Some (first, vol))
      else Some (0, vol))"

text \<open>Make sure that there is a cluster to write to: the cluster, or 0 when none could be had.\<close>

definition ensure_cluster ::
  "'d fat32_blk_ops \<Rightarrow> bytes option \<Rightarrow> u32 \<Rightarrow> u32 \<Rightarrow> fat32_file \<Rightarrow> 'd fat32_volume \<Rightarrow> u32 \<times> fat32_file \<times> 'd fat32_volume" where
  "ensure_cluster ops mem cluster prev fp vol =
     (if cluster < 2 \<or> cluster \<ge> FAT32_CLUSTER_EOC then
        (case fat32_alloc_clusters ops mem vol 1 0 of (new, vol1) \<Rightarrow>
           if new = 0 then (0, fp, vol1)
           else (let (fp1, vol2) =
                   (if f_first_cluster fp < 2 then (fp\<lparr>f_first_cluster := new\<rparr>, vol1)
                    else if prev \<ge> 2 \<and> prev < FAT32_CLUSTER_EOC then (fp, snd (fat_write_entry ops mem vol1 prev new))
                    else (fp, vol1))
                 in (new, fp1\<lparr>f_current_cluster := new\<rparr>, snd (fat_write_entry ops mem vol2 new FAT32_CLUSTER_EOC))))
      else (cluster, fp, vol))"

text \<open>Store bytes in a cluster: whole, or read, modify and write. The flag says whether it worked.\<close>

definition store_part ::
  "'d fat32_blk_ops \<Rightarrow> bool \<Rightarrow> u32 \<Rightarrow> u32 \<Rightarrow> bytes \<Rightarrow> 'd fat32_volume \<Rightarrow> bool \<times> 'd fat32_volume" where
  "store_part ops got cluster offset src vol =
     (let lba = fat32_cluster_to_lba vol cluster; spc = vol_sectors_per_cluster vol in
      if offset = 0 \<and> length src = unat (vol_bytes_per_cluster vol) then
        (case blk_write ops (vol_ctx vol) lba spc src of (rc, d) \<Rightarrow> (rc = 0, vol\<lparr>vol_ctx := d\<rparr>))
      else if \<not> got then (False, vol)
      else (case blk_read ops (vol_ctx vol) lba spc of (rc, bs) \<Rightarrow>
        if rc \<noteq> 0 then (False, vol)
        else (case blk_write ops (vol_ctx vol) lba spc (put_bytes (unat offset) src bs) of (wrc, d) \<Rightarrow>
          (wrc = 0, vol\<lparr>vol_ctx := d\<rparr>))))"

partial_function (option) write_loop ::
  "'d fat32_blk_ops \<Rightarrow> bytes option \<Rightarrow> bool \<Rightarrow> bytes \<Rightarrow> u64 \<Rightarrow> u32 \<Rightarrow> u32 \<Rightarrow> fat32_file \<Rightarrow> 'd fat32_volume
   \<Rightarrow> (u64 \<times> fat32_file \<times> 'd fat32_volume) option" where
  "write_loop ops mem got src written cluster0 prev fp0 vol0 =
     (if src = [] then Some (written, fp0, vol0)
      else (case ensure_cluster ops mem cluster0 prev fp0 vol0 of (cluster, fp, vol) \<Rightarrow>
        if cluster = 0 then Some (written, fp, vol)
        else (case transfer_span vol (f_pos fp) (of_nat (length src)) of (offset, to_write) \<Rightarrow>
          (case store_part ops got cluster offset (take (unat to_write) src) vol of (ok, vol1) \<Rightarrow>
             if \<not> ok then Some (written, fp, vol1)
             else (let pos = f_pos fp + ucast to_write;
                       fp1 = fp\<lparr>f_pos := pos, f_file_size := (if pos > ucast (f_file_size fp) then ucast pos else f_file_size fp)\<rparr>;
                       rest = drop (unat to_write) src; count = written + ucast to_write
                   in if offset + to_write \<ge> vol_bytes_per_cluster vol1 then
                        (case fat32_next_cluster ops mem vol1 cluster of (next, vol2) \<Rightarrow>
                           write_loop ops mem got rest count next cluster (fp1\<lparr>f_current_cluster := next\<rparr>) vol2)
                      else write_loop ops mem got rest count cluster prev fp1 vol1)))))"

text \<open>The number of bytes written, the file and the volume.\<close>

definition fat32_write ::
  "'d fat32_blk_ops \<Rightarrow> bytes option \<Rightarrow> bool \<Rightarrow> fat32_file \<Rightarrow> 'd fat32_volume \<Rightarrow> bytes
   \<Rightarrow> (u64 \<times> fat32_file \<times> 'd fat32_volume) option" where
  "fat32_write ops mem got fp vol buf =
     (if \<not> f_vol fp \<or> \<not> f_write_mode fp then Some (0, fp, vol)
      else (case find_prev ops mem fp vol of
         None \<Rightarrow> None
       | Some (prev, vol1) \<Rightarrow> write_loop ops mem got buf 0 (f_current_cluster fp) prev fp vol1))"

section \<open>Seeking\<close>

fun seek_walk :: "'d fat32_blk_ops \<Rightarrow> bytes option \<Rightarrow> nat \<Rightarrow> u32 \<Rightarrow> 'd fat32_volume \<Rightarrow> u32 \<times> 'd fat32_volume" where
  "seek_walk ops mem 0 cluster vol = (cluster, vol)"
| "seek_walk ops mem (Suc i) cluster vol =
     (case fat32_next_cluster ops mem vol cluster of (next, vol1) \<Rightarrow>
        if next = 0 \<or> next \<ge> FAT32_CLUSTER_EOC then (cluster, vol1) else seek_walk ops mem i next vol1)"

definition fat32_seek ::
  "'d fat32_blk_ops \<Rightarrow> bytes option \<Rightarrow> fat32_file \<Rightarrow> 'd fat32_volume \<Rightarrow> int \<Rightarrow> int \<Rightarrow> int \<times> fat32_file \<times> 'd fat32_volume" where
  "fat32_seek ops mem fp vol offset whence =
     (if whence \<noteq> 0 \<and> whence \<noteq> 1 \<and> whence \<noteq> 2 then (-1, fp, vol)
      else (let new_pos = (if whence = 0 then offset else if whence = 1 then sint (f_pos fp) + offset
                           else int (unat (f_file_size fp)) + offset) in
        if new_pos < 0 then (-1, fp, vol)
        else (let pos = of_int new_pos :: u64 in
          case seek_walk ops mem (unat (pos div ucast (vol_bytes_per_cluster vol))) (f_first_cluster fp) vol of
            (cluster, vol1) \<Rightarrow> (sint pos, fp\<lparr>f_pos := pos, f_current_cluster := cluster\<rparr>, vol1))))"

section \<open>Opening and closing\<close>

text \<open>The walk to the last cluster: the file with the cluster that was reached.\<close>

partial_function (option) last_loop ::
  "'d fat32_blk_ops \<Rightarrow> bytes option \<Rightarrow> u32 \<Rightarrow> fat32_file \<Rightarrow> 'd fat32_volume \<Rightarrow> (fat32_file \<times> 'd fat32_volume) option" where
  "last_loop ops mem c fp vol =
     (if c \<ge> 2 then
        (case fat32_next_cluster ops mem vol c of (next, vol1) \<Rightarrow>
           if next = 0 \<or> next \<ge> FAT32_CLUSTER_EOC then Some (fp, vol1)
           else last_loop ops mem next (fp\<lparr>f_current_cluster := next\<rparr>) vol1)
      else Some (fp, vol))"

definition opened :: "fat32_file_info \<Rightarrow> u32 \<Rightarrow> u64 \<Rightarrow> bool \<Rightarrow> fat32_file" where
  "opened info fsize pos wr =
     \<lparr>f_vol = True, f_first_cluster = fi_first_cluster info, f_current_cluster = fi_first_cluster info, f_file_size = fsize,
      f_attr = fi_attr info, f_pos = pos, f_write_mode = wr, f_dir_cluster = fi_dir_cluster info,
      f_dir_offset = fi_dir_offset info\<rparr>"

text \<open>The mode is its first two characters. The file is there when the call succeeds.\<close>

definition fat32_open ::
  "'d fat32_blk_ops \<Rightarrow> bytes option \<Rightarrow> bool \<Rightarrow> tm option \<Rightarrow> 'd fat32_volume \<Rightarrow> u32 \<Rightarrow> bytes \<Rightarrow> char \<times> char
   \<Rightarrow> (fat32_file option \<times> 'd fat32_volume) option" where
  "fat32_open ops mem got now vol dir_cluster nm mode =
     (if \<not> vol_mounted vol then Some (None, vol)
      else let dir = (if dir_cluster = 0 then vol_root_cluster vol else dir_cluster) in
        case fat32_find ops mem got vol dir nm of
          None \<Rightarrow> None
        | Some (found, vol1) \<Rightarrow>
            if fst mode = CHR ''r'' then
              (case found of
                 None \<Rightarrow> Some (None, vol1)
               | Some info \<Rightarrow> Some (Some (opened info (fi_file_size info) 0 (snd mode = CHR ''w'')), vol1))
            else if fst mode = CHR ''w'' then
              (case (if found \<noteq> None then map_option snd (fat32_delete ops mem got vol1 dir nm) else Some vol1) of
                 None \<Rightarrow> None
               | Some vol2 \<Rightarrow>
                   (case fat32_create ops mem got now vol2 dir nm FAT32_ATTR_ARCHIVE of
                      None \<Rightarrow> None
                    | Some (rc, created, vol3) \<Rightarrow>
                        if rc \<noteq> 0 then Some (None, vol3)
                        else Some (Some (opened (the created) 0 0 True), vol3)))
            else if fst mode = CHR ''a'' then
              (case found of
                 None \<Rightarrow>
                   (case fat32_create ops mem got now vol1 dir nm FAT32_ATTR_ARCHIVE of
                      None \<Rightarrow> None
                    | Some (rc, created, vol3) \<Rightarrow>
                        if rc \<noteq> 0 then Some (None, vol3)
                        else Some (Some (opened (the created) 0 0 True), vol3))
               | Some info \<Rightarrow>
                   map_option (\<lambda>(fp, vol2). (Some fp, vol2))
                     (last_loop ops mem (fi_first_cluster info)
                        (opened info (fi_file_size info) (ucast (fi_file_size info)) True) vol1))
            else Some (None, vol1))"

definition fat32_close ::
  "'d fat32_blk_ops \<Rightarrow> bool \<Rightarrow> tm option \<Rightarrow> fat32_file \<Rightarrow> 'd fat32_volume \<Rightarrow> fat32_file \<times> 'd fat32_volume" where
  "fat32_close ops got now fp vol =
     (if \<not> f_vol fp then (fp, vol)
      else if f_write_mode fp \<and> f_first_cluster fp \<ge> 2 \<and> f_dir_cluster fp \<ge> 2 \<and> got then
        (let lba = fat32_cluster_to_lba vol (f_dir_cluster fp); at = unat (f_dir_offset fp) * FAT32_DIR_ENTRY_SIZE in
         case blk_read ops (vol_ctx vol) lba (vol_sectors_per_cluster vol) of (rc, buf) \<Rightarrow>
           if rc = 0 then
             (case datetime_to_dos now of (tme, dte) \<Rightarrow>
                (closed_file, vol\<lparr>vol_ctx := snd (blk_write ops (vol_ctx vol) lba (vol_sectors_per_cluster vol)
                   (puts [(at + 28, le32 (f_file_size fp)), (at + 22, le16 tme), (at + 24, le16 dte), (at + 18, le16 dte)] buf))\<rparr>))
           else (closed_file, vol))
      else (closed_file, vol))"

text \<open>The loops that may not end are executable.\<close>

declare read_loop.simps [code]
  prev_loop.simps [code]
  write_loop.simps [code]
  last_loop.simps [code]

end
