(* ===== verification/Fat32_Facts.thy ===== *)
theory Fat32_Facts
  imports Fat32
begin

text \<open>
  The cached file allocation table acts as a map from clusters to entries, whatever the
  cache holds and whether or not the device fails: the interface \<open>blk_device\<close> states what a
  block device promises, and the table operations are shown correct for every device that
  keeps it.
\<close>

section \<open>The device\<close>

text \<open>A device has 512-byte sectors. A read that succeeds gives the sector and one that fails
  stores nothing; a write that succeeds replaces the sector, and no write touches another
  sector. The RAM disk and the AHCI adapter of the repository behave so; \<open>fat32.h\<close> does not ask it of a
  device, and with one whose failed read stores part of a sector the cache of the table would be wrong
  (\<open>fat32_fat.c\<close> leaves \<open>cached_fat_sector\<close> naming the old sector).\<close>

locale blk_device =
  fixes ops :: "'d fat32_blk_ops" and sec :: "'d \<Rightarrow> u64 \<Rightarrow> bytes"
  assumes sec_length: "length (sec d l) = 512"
    and read_ok: "blk_read ops d l 1 = (0, bs) \<Longrightarrow> bs = sec d l"
    and read_fail: "blk_read ops d l 1 = (rc, bs) \<Longrightarrow> rc \<noteq> 0 \<Longrightarrow> bs = []"
    and write_ok: "length b = 512 \<Longrightarrow> blk_write ops d l 1 b = (0, d') \<Longrightarrow> sec d' = (sec d)(l := b)"
    and write_other: "blk_write ops d l 1 b = (rc, d') \<Longrightarrow> l' \<noteq> l \<Longrightarrow> sec d' l' = sec d l'"

section \<open>The table as a map\<close>

text \<open>The fields that the table operations never change.\<close>

definition geom :: "'d fat32_volume \<Rightarrow> u64 \<times> u64 \<times> u32 \<times> u32 \<times> u32" where
  "geom vol = (vol_fat1_lba vol, vol_fat2_lba vol, vol_sectors_per_fat vol, vol_num_fats vol,
     vol_total_clusters vol)"

definition in_fat :: "'d fat32_volume \<Rightarrow> u32 \<Rightarrow> bool" where
  "in_fat vol c \<longleftrightarrow> unat c div 128 < unat (vol_sectors_per_fat vol)"

text \<open>The sector of the first table that the cache stands for, if any.\<close>

definition cached_word :: "('d \<Rightarrow> u64 \<Rightarrow> bytes) \<Rightarrow> 'd fat32_volume \<Rightarrow> u32 \<Rightarrow> bytes" where
  "cached_word sec vol s =
     (if vol_fat_cache vol \<noteq> None \<and> s = vol_cached_fat_sector vol then the (vol_fat_cache vol)
      else sec (vol_ctx vol) (vol_fat1_lba vol + ucast s))"

definition fat_word :: "('d \<Rightarrow> u64 \<Rightarrow> bytes) \<Rightarrow> 'd fat32_volume \<Rightarrow> u32 \<Rightarrow> u32" where
  "fat_word sec vol c = word_at (cached_word sec vol (c div 128)) (unat (c mod 128))"

definition fat_view :: "('d \<Rightarrow> u64 \<Rightarrow> bytes) \<Rightarrow> 'd fat32_volume \<Rightarrow> u32 \<Rightarrow> u32" where
  "fat_view sec vol c = fat_word sec vol c AND 0x0FFFFFFF"

text \<open>The two tables lie one after the other, the cache has a sector of the first one, equal to
  it unless dirty, and the second table is a copy of the first apart from a dirty sector.\<close>

definition fat_ok :: "('d \<Rightarrow> u64 \<Rightarrow> bytes) \<Rightarrow> 'd fat32_volume \<Rightarrow> bool" where
  "fat_ok sec vol \<longleftrightarrow>
     unat (vol_fat1_lba vol) + unat (vol_sectors_per_fat vol) \<le> unat (vol_fat2_lba vol) \<and>
     unat (vol_fat2_lba vol) + unat (vol_sectors_per_fat vol) < 2 ^ 64 \<and>
     unat (vol_sectors_per_fat vol) \<le> 2 ^ 25 \<and>
     (case vol_fat_cache vol of
        None \<Rightarrow> \<not> vol_cached_dirty vol \<and> vol_cached_fat_sector vol = 0xFFFFFFFF
      | Some b \<Rightarrow> length b = 512 \<and>
          (if vol_cached_fat_sector vol = 0xFFFFFFFF then \<not> vol_cached_dirty vol
           else unat (vol_cached_fat_sector vol) < unat (vol_sectors_per_fat vol) \<and>
             (\<not> vol_cached_dirty vol \<longrightarrow>
                b = sec (vol_ctx vol) (vol_fat1_lba vol + ucast (vol_cached_fat_sector vol))))) \<and>
     (2 \<le> vol_num_fats vol \<longrightarrow> (\<forall>s. unat s < unat (vol_sectors_per_fat vol) \<and>
        \<not> (vol_cached_dirty vol \<and> s = vol_cached_fat_sector vol) \<longrightarrow>
        sec (vol_ctx vol) (vol_fat2_lba vol + ucast s) = sec (vol_ctx vol) (vol_fat1_lba vol + ucast s)))"

lemma sector_unat: "unat (c div 128 :: u32) = unat c div 128" "unat (c mod 128 :: u32) = unat c mod 128"
  by (simp_all add: unat_div unat_mod)

lemma cluster_eq_iff: "c = c' \<longleftrightarrow> c div 128 = c' div 128 \<and> unat (c mod 128) = unat (c' mod 128)" for c c' :: u32
proof
  assume "c div 128 = c' div 128 \<and> unat (c mod 128) = unat (c' mod 128)"
  then have "unat c div 128 = unat c' div 128 \<and> unat c mod 128 = unat c' mod 128"
    using sector_unat by metis
  then have "unat c = unat c'" by (metis div_mult_mod_eq)
  then show "c = c'" by (simp add: word_unat_eq_iff)
qed simp

lemma in_fat_sector: "in_fat vol c \<Longrightarrow> unat (c div 128) < unat (vol_sectors_per_fat vol)"
  by (simp add: in_fat_def sector_unat)

lemma in_fat_geom: "geom vol' = geom vol \<Longrightarrow> in_fat vol' c = in_fat vol c"
  by (simp add: in_fat_def geom_def)

lemma real_sector: "fat_ok sec vol \<Longrightarrow> unat s < unat (vol_sectors_per_fat vol) \<Longrightarrow> s \<noteq> (0xFFFFFFFF :: u32)"
  by (auto simp: fat_ok_def)

text \<open>Different sectors of the tables have different addresses.\<close>

lemma fat_addr:
  fixes s t :: u32
  assumes "fat_ok sec vol" and "unat s < unat (vol_sectors_per_fat vol)" and "unat t < unat (vol_sectors_per_fat vol)"
  shows "vol_fat1_lba vol + ucast s = vol_fat1_lba vol + ucast t \<longleftrightarrow> s = t"
    and "vol_fat2_lba vol + ucast s = vol_fat2_lba vol + ucast t \<longleftrightarrow> s = t"
    and "vol_fat1_lba vol + ucast s \<noteq> vol_fat2_lba vol + ucast t"
proof -
  have inj: "(ucast s :: u64) = ucast t \<longleftrightarrow> s = t" by (simp add: word_unat_eq_iff unat_ucast_u64)
  then show "vol_fat1_lba vol + ucast s = vol_fat1_lba vol + ucast t \<longleftrightarrow> s = t"
    and "vol_fat2_lba vol + ucast s = vol_fat2_lba vol + ucast t \<longleftrightarrow> s = t" by simp_all
  have u: "unat (ucast s :: u64) = unat s" "unat (ucast t :: u64) = unat t"
    by (rule unat_ucast_u64)+
  have b: "unat (vol_fat1_lba vol) + unat s < unat (vol_fat2_lba vol)" "unat (vol_fat2_lba vol) + unat t < 2 ^ 64"
    using assms by (auto simp: fat_ok_def)
  then have "unat (vol_fat1_lba vol + ucast s) = unat (vol_fat1_lba vol) + unat s"
    "unat (vol_fat2_lba vol + ucast t) = unat (vol_fat2_lba vol) + unat t"
    using u by (simp_all add: unat_word_ariths)
  then show "vol_fat1_lba vol + ucast s \<noteq> vol_fat2_lba vol + ucast t" using b by auto
qed

text \<open>A step that keeps the map.\<close>

definition keeps :: "('d \<Rightarrow> u64 \<Rightarrow> bytes) \<Rightarrow> 'd fat32_volume \<Rightarrow> 'd fat32_volume \<Rightarrow> bool" where
  "keeps sec vol vol' \<longleftrightarrow> fat_ok sec vol' \<and> geom vol' = geom vol \<and>
     (\<forall>s. unat s < unat (vol_sectors_per_fat vol) \<longrightarrow> cached_word sec vol' s = cached_word sec vol s)"

lemma keeps_refl: "fat_ok sec vol \<Longrightarrow> keeps sec vol vol"
  by (simp add: keeps_def)

lemma keeps_trans: "keeps sec a b \<Longrightarrow> keeps sec b c \<Longrightarrow> keeps sec a c"
  by (auto simp: keeps_def geom_def)

lemma keepsD:
  assumes "keeps sec vol vol'"
  shows "fat_ok sec vol'" and "geom vol' = geom vol"
    and "in_fat vol c \<Longrightarrow> fat_word sec vol' c = fat_word sec vol c"
    and "in_fat vol c \<Longrightarrow> fat_view sec vol' c = fat_view sec vol c"
  using assms in_fat_sector [of vol c] by (auto simp: keeps_def fat_word_def fat_view_def)

text \<open>The word that a write stores.\<close>

definition new_word :: "u32 \<Rightarrow> u32 \<Rightarrow> u32" where
  "new_word old v = (old AND 0xF0000000) OR (v AND 0x0FFFFFFF)"

lemma new_word_view: "new_word old v AND 0x0FFFFFFF = v AND 0x0FFFFFFF"
proof -
  have m: "(0x0FFFFFFF :: u32) = mask 28" "(0xF0000000 :: u32) = NOT (mask 28)"
    by (simp_all add: mask_eq_exp_minus_1)
  show ?thesis unfolding new_word_def m by (rule bit_word_eqI) (auto simp: bit_simps)
qed

section \<open>The operations\<close>

context blk_device
begin

lemma flush_rule:
  assumes ok: "fat_ok sec vol" and fl: "fat32_flush ops vol = (rc, vol')"
  shows "keeps sec vol vol' \<and> vol_fat_cache vol' = vol_fat_cache vol \<and>
    vol_cached_fat_sector vol' = vol_cached_fat_sector vol \<and> (rc = 0 \<longrightarrow> \<not> vol_cached_dirty vol')"
proof (cases "vol_fat_cache vol = None \<or> \<not> vol_cached_dirty vol")
  case True
  then have "vol' = vol" "\<not> vol_cached_dirty vol"
    using fl ok by (auto simp: fat32_flush_def fat_ok_def split: option.splits)
  with ok show ?thesis by (simp add: keeps_refl)
next
  case False
  then obtain b where b: "vol_fat_cache vol = Some b" and dirty: "vol_cached_dirty vol" by auto
  let ?s = "vol_cached_fat_sector vol" and ?n = "unat (vol_sectors_per_fat vol)"
  let ?a1 = "vol_fat1_lba vol + ucast ?s" and ?a2 = "vol_fat2_lba vol + ucast ?s"
  have s: "unat ?s < ?n" "length b = 512" using ok b dirty by (auto simp: fat_ok_def split: if_splits)
  note addr = fat_addr [OF ok]
  obtain rc1 d1 where w1: "blk_write ops (vol_ctx vol) ?a1 1 b = (rc1, d1)" by (rule prod.exhaust)
  obtain rc2 d2 where w2: "blk_write ops d1 ?a2 1 b = (rc2, d2)" by (rule prod.exhaust)
  have o1: "l \<noteq> ?a1 \<Longrightarrow> sec d1 l = sec (vol_ctx vol) l" for l
    using write_other [OF w1] write_ok [OF s(2), of "vol_ctx vol" ?a1 d1] w1 by (cases "rc1 = 0") auto
  have o2: "l \<noteq> ?a2 \<Longrightarrow> sec d2 l = sec d1 l" for l
    using write_other [OF w2] write_ok [OF s(2), of d1 ?a2 d2] w2 by (cases "rc2 = 0") auto
  have s1: "rc1 = 0 \<Longrightarrow> sec d1 ?a1 = b" using write_ok [OF s(2)] w1 by auto
  have s2: "rc2 = 0 \<Longrightarrow> sec d2 ?a2 = b" using write_ok [OF s(2)] w2 by auto
  have cw: "cached_word sec v t = cached_word sec vol t"
    if "unat t < ?n" "v = vol\<lparr>vol_ctx := d, vol_cached_dirty := x\<rparr>" "d = d1 \<or> d = d2" for v t d x
    using that addr(1) [OF that(1) s(1)] addr(3) [OF that(1) s(1)] b o1 o2 by (auto simp: cached_word_def)
  have ok': "fat_ok sec (vol\<lparr>vol_ctx := d, vol_cached_dirty := x\<rparr>)"
    if "x \<or> (rc1 = 0 \<and> (2 \<le> vol_num_fats vol \<longrightarrow> rc2 = 0 \<and> d = d2))" "d = d1 \<or> d = d2" for d x
  proof -
    have mirror: "sec d (vol_fat2_lba vol + ucast t) = sec d (vol_fat1_lba vol + ucast t)"
      if t: "unat t < ?n" "t \<noteq> ?s" and "2 \<le> vol_num_fats vol" for t
      using o1 o2 addr(1) [OF t(1) s(1)] addr(2) [OF t(1) s(1)] addr(3) [OF t(1) s(1)] addr(3) [OF s(1) t(1)] ok t dirty
        \<open>d = d1 \<or> d = d2\<close> \<open>2 \<le> vol_num_fats vol\<close> by (auto simp: fat_ok_def)
    have here: "sec d ?a1 = b" "2 \<le> vol_num_fats vol \<longrightarrow> sec d ?a2 = b" if "\<not> x"
      using that \<open>x \<or> _\<close> s1 s2 o2 addr(3) [OF s(1) s(1)] \<open>d = d1 \<or> d = d2\<close> by auto
    show ?thesis
      using ok b dirty mirror here s by (cases "x") (auto simp: fat_ok_def split: if_splits)
  qed
  have "\<exists>d x. vol' = vol\<lparr>vol_ctx := d, vol_cached_dirty := x\<rparr> \<and> (d = d1 \<or> d = d2) \<and> (rc = 0 \<longrightarrow> \<not> x) \<and>
      (x \<or> (rc1 = 0 \<and> (2 \<le> vol_num_fats vol \<longrightarrow> rc2 = 0 \<and> d = d2)))"
  proof -
    have d: "vol\<lparr>vol_ctx := e\<rparr> = vol\<lparr>vol_ctx := e, vol_cached_dirty := True\<rparr>" for e
      using dirty by (cases vol) simp
    consider "rc1 \<noteq> 0" | "rc1 = 0" "2 \<le> vol_num_fats vol" | "rc1 = 0" "\<not> 2 \<le> vol_num_fats vol" by blast
    then show ?thesis
    proof cases
      case 1
      then show ?thesis using fl b dirty w1
        by (intro exI [of _ d1] exI [of _ True]) (auto simp: fat32_flush_def d [symmetric])
    next
      case 2
      then show ?thesis using fl b dirty w1 w2
        by (intro exI [of _ d2] exI [of _ "rc2 \<noteq> 0"]) (auto simp: fat32_flush_def d [symmetric] split: if_splits)
    next
      case 3
      then show ?thesis using fl b dirty w1
        by (intro exI [of _ d1] exI [of _ False]) (auto simp: fat32_flush_def)
    qed
  qed
  then obtain d x where v: "vol' = vol\<lparr>vol_ctx := d, vol_cached_dirty := x\<rparr>" "d = d1 \<or> d = d2" "rc = 0 \<longrightarrow> \<not> x"
    "x \<or> (rc1 = 0 \<and> (2 \<le> vol_num_fats vol \<longrightarrow> rc2 = 0 \<and> d = d2))" by blast
  then have "keeps sec vol vol'"
    using ok' [OF v(4,2)] cw [OF _ v(1,2)] by (simp add: keeps_def geom_def)
  with v show ?thesis by simp
qed

lemma load_rule:
  assumes ok: "fat_ok sec vol" and b: "vol_fat_cache vol = Some buf" and s: "unat s < unat (vol_sectors_per_fat vol)"
    and ld: "fat_load ops s buf vol = (rc, vol')"
  shows "keeps sec vol vol' \<and> vol_fat_cache vol' \<noteq> None \<and> (rc = 0 \<longrightarrow> vol_cached_fat_sector vol' = s)"
proof -
  obtain frc vol1 where fl: "(if vol_cached_dirty vol then fat32_flush ops vol else (0, vol)) = (frc, vol1)"
    by (rule prod.exhaust)
  have k1: "keeps sec vol vol1" "vol_fat_cache vol1 = Some buf" "frc = 0 \<longrightarrow> \<not> vol_cached_dirty vol1"
    using fl flush_rule [OF ok, of frc vol1] keeps_refl [OF ok] b by (auto split: if_splits)
  show ?thesis
  proof (cases "frc = 0")
    case False
    then have "vol' = vol1" "rc \<noteq> 0" using ld fl by (auto simp: fat_load_def)
    with k1 show ?thesis by simp
  next
    case True
    then have clean: "\<not> vol_cached_dirty vol1" using k1 by simp
    obtain rrc bs where rd: "blk_read ops (vol_ctx vol1) (vol_fat1_lba vol1 + ucast s) 1 = (rrc, bs)" by (rule prod.exhaust)
    have ok1: "fat_ok sec vol1" and n1: "vol_sectors_per_fat vol1 = vol_sectors_per_fat vol"
      using keepsD [OF k1(1)] by (simp_all add: geom_def)
    have len: "length buf = 512" using ok1 k1(2) by (simp add: fat_ok_def)
    show ?thesis
    proof (cases "rrc = 0")
      case False
      then have "bs = []" using read_fail [OF rd] by simp
      then have "put_bytes 0 bs buf = buf" by (simp add: put_bytes_def)
      then have "vol' = vol1" "rc \<noteq> 0" using ld fl True rd False k1(2) by (auto simp: fat_load_def)
      with k1 show ?thesis by simp
    next
      case r0: True
      let ?sect = "sec (vol_ctx vol1) (vol_fat1_lba vol1 + ucast s)"
      have "bs = ?sect" using read_ok rd r0 by simp
      then have "put_bytes 0 bs buf = ?sect" using sec_length len by (simp add: put_bytes_def)
      then have v: "vol' = vol1\<lparr>vol_fat_cache := Some ?sect, vol_cached_fat_sector := s\<rparr>"
        and rc: "rc = 0"
        using ld fl True rd r0 by (auto simp: fat_load_def)
      have "s \<noteq> 0xFFFFFFFF" by (rule real_sector [OF ok s])
      then have "fat_ok sec vol'"
        using ok1 clean s n1 k1(2) sec_length by (auto simp: v fat_ok_def)
      moreover have "cached_word sec vol' t = cached_word sec vol1 t" if "unat t < unat (vol_sectors_per_fat vol)" for t
        using ok1 clean k1(2) that n1 by (auto simp: v cached_word_def fat_ok_def split: if_splits)
      ultimately have "keeps sec vol1 vol'" using n1 by (simp add: keeps_def v geom_def)
      with k1(1) have "keeps sec vol vol'" by (rule keeps_trans)
      with v rc show ?thesis by simp
    qed
  qed
qed

text \<open>The buffer from \<open>malloc\<close> has the size of a sector.\<close>

lemma with_cache_rule:
  assumes "fat_ok sec vol" and "\<forall>m. mem = Some m \<longrightarrow> length m = 512"
  shows "keeps sec vol (with_cache mem vol)"
proof (cases "vol_fat_cache vol")
  case None
  then show ?thesis
    using assms real_sector [OF assms(1)] by (cases mem) (auto simp: keeps_def with_cache_def fat_ok_def geom_def cached_word_def)
qed (use assms(1) in \<open>simp add: with_cache_def keeps_refl\<close>)

lemma read_rule:
  assumes ok: "fat_ok sec vol" and mem: "\<forall>m. mem = Some m \<longrightarrow> length m = 512" and c: "in_fat vol c"
    and rd: "fat_read_entry ops mem vol c = (rc, v, vol')"
  shows "keeps sec vol vol' \<and> (rc = 0 \<longrightarrow> v = fat_view sec vol c \<and>
    vol_fat_cache vol' \<noteq> None \<and> vol_cached_fat_sector vol' = c div 128)"
proof -
  note k0 = with_cache_rule [OF ok mem]
  let ?p = "if vol_fat_cache vol = None \<or> c div 128 \<noteq> vol_cached_fat_sector vol then
      (case vol_fat_cache (with_cache mem vol) of None \<Rightarrow> (-1, vol)
       | Some buf \<Rightarrow> fat_load ops (c div 128) buf (with_cache mem vol)) else (0, vol)"
  obtain rc1 vol1 where p: "?p = (rc1, vol1)" by (rule prod.exhaust)
  have s: "unat (c div 128) < unat (vol_sectors_per_fat (with_cache mem vol))"
    using in_fat_sector [OF c] by (simp add: with_cache_def)
  have k1: "keeps sec vol vol1" "rc1 = 0 \<longrightarrow> vol_fat_cache vol1 \<noteq> None \<and> vol_cached_fat_sector vol1 = c div 128"
    using p load_rule [OF keepsD(1) [OF k0] _ s, of _ rc1 vol1] keeps_trans [OF k0, of vol1] keeps_refl [OF ok]
    by (auto split: if_splits option.splits)
  have out: "rc = (if rc1 \<noteq> 0 then -1 else 0)" "vol' = vol1"
    "rc1 = 0 \<longrightarrow> v = word_at (the (vol_fat_cache vol1)) (unat (c mod 128)) AND 0x0FFFFFFF"
    using rd p by (auto simp: fat_read_entry_def Let_def split: if_splits)
  have "v = fat_view sec vol1 c" if "rc1 = 0"
    using that out k1(2) by (simp add: fat_view_def fat_word_def cached_word_def)
  then show ?thesis using k1 out keepsD(4) [OF k1(1) c] by auto
qed

lemma write_rule:
  assumes ok: "fat_ok sec vol" and mem: "\<forall>m. mem = Some m \<longrightarrow> length m = 512" and c: "in_fat vol c"
    and wr: "fat_write_entry ops mem vol c v = (rc, vol')"
  shows "fat_ok sec vol' \<and> geom vol' = geom vol" and "rc \<noteq> 0 \<Longrightarrow> keeps sec vol vol'"
    and "rc = 0 \<Longrightarrow> in_fat vol c' \<Longrightarrow>
      fat_word sec vol' c' = (if c' = c then new_word (fat_word sec vol c) v else fat_word sec vol c')"
    and "vol_fat_cache vol \<noteq> None \<Longrightarrow> vol_cached_fat_sector vol = c div 128 \<Longrightarrow> rc = 0"
proof -
  note k0 = with_cache_rule [OF ok mem]
  let ?v0 = "with_cache mem vol" and ?s = "c div 128" and ?o = "unat (c mod 128)"
  have s: "unat ?s < unat (vol_sectors_per_fat ?v0)" using in_fat_sector [OF c] by (simp add: with_cache_def)
  have all: "(fat_ok sec vol' \<and> geom vol' = geom vol) \<and> (rc \<noteq> 0 \<longrightarrow> keeps sec vol vol') \<and>
      (rc = 0 \<longrightarrow> (\<forall>c'. in_fat vol c' \<longrightarrow>
        fat_word sec vol' c' = (if c' = c then new_word (fat_word sec vol c) v else fat_word sec vol c')))"
  proof (cases "vol_fat_cache ?v0")
    case None
    then have "vol' = ?v0" "rc = -1" using wr by (auto simp: fat_write_entry_def Let_def)
    then show ?thesis using k0 keepsD [OF k0] by simp
  next
    case (Some buf)
    obtain rc1 vol1 where p: "(if ?s \<noteq> vol_cached_fat_sector ?v0 then fat_load ops ?s buf ?v0 else (0, ?v0)) = (rc1, vol1)"
      by (rule prod.exhaust)
    have k1: "keeps sec vol vol1" "vol_fat_cache vol1 \<noteq> None" "rc1 = 0 \<longrightarrow> vol_cached_fat_sector vol1 = ?s"
      using p load_rule [OF keepsD(1) [OF k0] Some s, of rc1 vol1] keeps_trans [OF k0, of vol1] k0 Some
      by (auto split: if_splits)
    show ?thesis
    proof (cases "rc1 = 0")
      case False
      then have "vol' = vol1" "rc = -1" using wr p Some by (auto simp: fat_write_entry_def Let_def)
      then show ?thesis using k1(1) keepsD [OF k1(1)] by simp
    next
      case True
      obtain b where b: "vol_fat_cache vol1 = Some b" using k1(2) by auto
      let ?w = "new_word (word_at b ?o) v"
      have v': "vol' = vol1\<lparr>vol_fat_cache := Some (set_word ?o ?w b), vol_cached_dirty := True\<rparr>" "rc = 0"
        using wr p Some True b by (auto simp: fat_write_entry_def Let_def new_word_def)
      have ok1: "fat_ok sec vol1" and g1: "geom vol1 = geom vol" using keepsD [OF k1(1)] by auto
      have o: "?o < 128" by (simp add: sector_unat)
      have len: "length b = 512" "?s \<noteq> 0xFFFFFFFF" "vol_cached_fat_sector vol1 = ?s"
        using ok1 b k1(3) True real_sector [OF ok in_fat_sector [OF c]] by (simp_all add: fat_ok_def)
      have ok': "fat_ok sec vol'"
        using ok1 b len o s g1 by (auto simp: v' fat_ok_def geom_def with_cache_def split: if_splits)
      have bw: "word_at b ?o = fat_word sec vol c"
        using keepsD(3) [OF k1(1) c] b len(3) by (simp add: fat_word_def cached_word_def)
      have "fat_word sec vol' c' = (if c' = c then ?w else fat_word sec vol c')" if "in_fat vol c'" for c'
      proof (cases "c' div 128 = ?s")
        case True
        have "unat (c' mod 128) < 128" by (simp add: sector_unat)
        then have "fat_word sec vol' c' = (if unat (c' mod 128) = ?o then ?w else word_at b (unat (c' mod 128)))"
          using word_at_set_word [of ?o b "unat (c' mod 128)" ?w] o len True
          by (simp add: v' fat_word_def cached_word_def)
        moreover have "word_at b (unat (c' mod 128)) = fat_word sec vol c'"
          using keepsD(3) [OF k1(1) that] b len(3) True by (simp add: fat_word_def cached_word_def)
        ultimately show ?thesis using cluster_eq_iff [of c' c] True by simp
      next
        case False
        then have "fat_word sec vol' c' = fat_word sec vol1 c'"
          using b len(3) by (simp add: v' fat_word_def cached_word_def)
        then show ?thesis using keepsD(3) [OF k1(1) that] False by auto
      qed
      then show ?thesis using ok' g1 v' bw by (simp add: geom_def)
    qed
  qed
  then show "fat_ok sec vol' \<and> geom vol' = geom vol" and "rc \<noteq> 0 \<Longrightarrow> keeps sec vol vol'"
    and "rc = 0 \<Longrightarrow> in_fat vol c' \<Longrightarrow>
      fat_word sec vol' c' = (if c' = c then new_word (fat_word sec vol c) v else fat_word sec vol c')"
    by blast+
  show "rc = 0" if "vol_fat_cache vol \<noteq> None" "vol_cached_fat_sector vol = c div 128"
    using wr that by (auto simp: fat_write_entry_def with_cache_def Let_def split: option.splits)
qed

lemma view_write:
  assumes "fat_ok sec vol" and "\<forall>m. mem = Some m \<longrightarrow> length m = 512" and "in_fat vol c"
    and "fat_write_entry ops mem vol c v = (0, vol')" and "in_fat vol c'"
  shows "fat_view sec vol' c' = (if c' = c then v AND 0x0FFFFFFF else fat_view sec vol c')"
  using write_rule(3) [OF assms(1-4) refl assms(5)] by (simp add: fat_view_def new_word_view)

end

section \<open>The RAM disk is such a device\<close>

definition ram_has :: "u64 \<Rightarrow> bool" where
  "ram_has l \<longleftrightarrow> l + ucast (1 :: u32) \<le> RAM_DISK_SECTORS"

definition ram_sector :: "ram_disk \<Rightarrow> u64 \<Rightarrow> bytes" where
  "ram_sector d l =
     (case d of
        None \<Rightarrow> replicate 512 0
      | Some m \<Rightarrow> if ram_has l then map (\<lambda>i. m (unat (l * 512) + i)) [0..<512] else replicate 512 0)"

lemma ram_range: "ram_has l \<Longrightarrow> unat l < 16384 \<or> l = - 1"
proof (cases "l = - 1")
  case False
  assume "ram_has l"
  moreover have "unat (l + 1) = unat l + 1" using False by (simp add: unat_plus_one)
  ultimately show ?thesis by (simp add: ram_has_def RAM_DISK_SECTORS_def word_le_nat_alt)
qed simp

lemma ram_disjoint:
  assumes "ram_has l" and "ram_has l'" and "l \<noteq> l'" and "i < 512" and "j < 512"
  shows "unat (l * 512) + i \<noteq> unat (l' * 512) + j"
proof -
  have pos: "unat (k * 512) = unat k * 512" if "unat k < 16384" for k :: u64
    using that by (simp add: unat_word_ariths)
  have top: "unat (- 1 * 512 :: u64) = 18446744073709551104" by simp
  have "unat l \<noteq> unat l'" using assms(3) by (simp add: word_unat_eq_iff)
  then show ?thesis
    using ram_range [OF assms(1)] ram_range [OF assms(2)] pos [of l] pos [of l'] top assms(3-5) by auto
qed

lemma ram_write_other:
  assumes "blk_write ram_blk_ops d l 1 b = (rc, d')" and "k \<noteq> l"
  shows "ram_sector d' k = ram_sector d k"
proof (cases "d = None \<or> \<not> ram_has l")
  case True
  then show ?thesis using assms(1) by (auto simp: ram_blk_ops_def ram_write_def ram_has_def split: option.splits if_splits)
next
  case False
  then obtain m where m: "d = Some m" "ram_has l"
    "d' = Some (\<lambda>a. if unat (l * 512) \<le> a \<and> a < unat (l * 512) + 512 then b ! (a - unat (l * 512)) else m a)"
    using assms(1) by (auto simp: ram_blk_ops_def ram_write_def ram_has_def split: option.splits if_splits)
  have "\<not> (unat (l * 512) \<le> unat (k * 512) + i \<and> unat (k * 512) + i < unat (l * 512) + 512)"
    if "ram_has k" "i < 512" for i
  proof
    assume a: "unat (l * 512) \<le> unat (k * 512) + i \<and> unat (k * 512) + i < unat (l * 512) + 512"
    then have "unat (k * 512) + i - unat (l * 512) < 512" by linarith
    from ram_disjoint [OF that(1) m(2) assms(2) that(2) this] a show False by simp
  qed
  then show ?thesis using m by (auto simp: ram_sector_def)
qed

interpretation ram: blk_device ram_blk_ops ram_sector
proof
  fix d l bs rc b d' and l' :: u64
  show "length (ram_sector d l) = 512" by (simp add: ram_sector_def split: option.splits)
  show "blk_read ram_blk_ops d l 1 = (0, bs) \<Longrightarrow> bs = ram_sector d l"
    by (auto simp: ram_blk_ops_def ram_read_def ram_sector_def ram_has_def split: option.splits if_splits)
  show "blk_read ram_blk_ops d l 1 = (rc, bs) \<Longrightarrow> rc \<noteq> 0 \<Longrightarrow> bs = []"
    by (auto simp: ram_blk_ops_def ram_read_def split: option.splits if_splits)
  show "blk_write ram_blk_ops d l 1 b = (rc, d') \<Longrightarrow> l' \<noteq> l \<Longrightarrow> ram_sector d' l' = ram_sector d l'"
    by (rule ram_write_other)
  show "ram_sector d' = (ram_sector d)(l := b)"
    if len: "length b = 512" and wr: "blk_write ram_blk_ops d l 1 b = (0, d')"
  proof -
    obtain m where m: "d = Some m" "ram_has l"
      "d' = Some (\<lambda>a. if unat (l * 512) \<le> a \<and> a < unat (l * 512) + 512 then b ! (a - unat (l * 512)) else m a)"
      using wr by (auto simp: ram_blk_ops_def ram_write_def ram_has_def split: option.splits if_splits)
    then have "ram_sector d' l = b" using len by (auto simp: ram_sector_def list_eq_iff_nth_eq)
    then show ?thesis using ram_write_other [OF wr] by (auto simp: fun_eq_iff)
  qed
qed

section \<open>Sequences of table operations\<close>

datatype fat_op = Fat_get u32 | Fat_put u32 u32 | Fat_flush

fun fat_do :: "'d fat32_blk_ops \<Rightarrow> bytes option \<Rightarrow> fat_op \<Rightarrow> 'd fat32_volume \<Rightarrow> (int \<times> u32) \<times> 'd fat32_volume" where
  "fat_do ops mem (Fat_get c) vol = (case fat_read_entry ops mem vol c of (rc, v, vol') \<Rightarrow> ((rc, v), vol'))"
| "fat_do ops mem (Fat_put c v) vol = (case fat_write_entry ops mem vol c v of (rc, vol') \<Rightarrow> ((rc, 0), vol'))"
| "fat_do ops mem Fat_flush vol = (case fat32_flush ops vol of (rc, vol') \<Rightarrow> ((rc, 0), vol'))"

fun fat_run ::
  "'d fat32_blk_ops \<Rightarrow> bytes option \<Rightarrow> fat_op list \<Rightarrow> 'd fat32_volume \<Rightarrow> (int \<times> u32) list \<times> 'd fat32_volume" where
  "fat_run ops mem [] vol = ([], vol)"
| "fat_run ops mem (x # xs) vol =
     (case fat_do ops mem x vol of (r, vol1) \<Rightarrow> case fat_run ops mem xs vol1 of (rs, vol2) \<Rightarrow> (r # rs, vol2))"

text \<open>What a map of entries says about the results: a read that succeeds gives the entry, a write
  that succeeds replaces the lower 28 bits of one entry, anything else changes nothing. No
  map means that a result is wrong.\<close>

fun fat_spec :: "fat_op list \<Rightarrow> (int \<times> u32) list \<Rightarrow> (u32 \<Rightarrow> u32) \<Rightarrow> (u32 \<Rightarrow> u32) option" where
  "fat_spec [] [] m = Some m"
| "fat_spec (Fat_get c # xs) ((rc, v) # rs) m = (if rc = 0 \<and> v \<noteq> m c then None else fat_spec xs rs m)"
| "fat_spec (Fat_put c v # xs) ((rc, _) # rs) m = fat_spec xs rs (if rc = 0 then m(c := v AND 0x0FFFFFFF) else m)"
| "fat_spec (Fat_flush # xs) (r # rs) m = fat_spec xs rs m"
| "fat_spec _ _ m = None"

fun op_in_fat :: "'d fat32_volume \<Rightarrow> fat_op \<Rightarrow> bool" where
  "op_in_fat vol (Fat_get c) = in_fat vol c"
| "op_in_fat vol (Fat_put c v) = in_fat vol c"
| "op_in_fat vol Fat_flush = True"

definition disk_entry :: "('d \<Rightarrow> u64 \<Rightarrow> bytes) \<Rightarrow> 'd \<Rightarrow> u64 \<Rightarrow> u32 \<Rightarrow> u32" where
  "disk_entry sec d base c = word_at (sec d (base + ucast (c div 128))) (unat (c mod 128)) AND 0x0FFFFFFF"

lemma clean_on_disk:
  assumes "fat_ok sec vol" and "\<not> vol_cached_dirty vol" and "in_fat vol c"
  shows "disk_entry sec (vol_ctx vol) (vol_fat1_lba vol) c = fat_view sec vol c"
    and "2 \<le> vol_num_fats vol \<Longrightarrow> disk_entry sec (vol_ctx vol) (vol_fat2_lba vol) c = fat_view sec vol c"
proof -
  have s: "unat (c div 128) < unat (vol_sectors_per_fat vol)" by (rule in_fat_sector [OF assms(3)])
  have "cached_word sec vol (c div 128) = sec (vol_ctx vol) (vol_fat1_lba vol + ucast (c div 128))"
    using assms(1,2) real_sector [OF assms(1) s] by (auto simp: cached_word_def fat_ok_def split: if_splits)
  then show one: "disk_entry sec (vol_ctx vol) (vol_fat1_lba vol) c = fat_view sec vol c"
    by (simp add: disk_entry_def fat_view_def fat_word_def)
  have "2 \<le> vol_num_fats vol \<Longrightarrow> sec (vol_ctx vol) (vol_fat2_lba vol + ucast (c div 128)) =
      sec (vol_ctx vol) (vol_fat1_lba vol + ucast (c div 128))"
    using assms(1,2) s by (simp add: fat_ok_def)
  with one show "2 \<le> vol_num_fats vol \<Longrightarrow> disk_entry sec (vol_ctx vol) (vol_fat2_lba vol) c = fat_view sec vol c"
    by (simp add: disk_entry_def)
qed

context blk_device
begin

lemma do_rule:
  assumes ok: "fat_ok sec vol" and mem: "\<forall>m. mem = Some m \<longrightarrow> length m = 512" and x: "op_in_fat vol x"
    and agree: "\<And>c. in_fat vol c \<Longrightarrow> fat_view sec vol c = m c" and d: "fat_do ops mem x vol = (r, vol')"
  shows "\<exists>m'. fat_spec (x # xs) (r # rs) m = fat_spec xs rs m' \<and> fat_ok sec vol' \<and> geom vol' = geom vol \<and>
    (\<forall>c. in_fat vol c \<longrightarrow> fat_view sec vol' c = m' c)"
proof (cases x)
  case (Fat_get c)
  obtain rc v where r: "fat_read_entry ops mem vol c = (rc, v, vol')" "r = (rc, v)"
    using d Fat_get by (auto split: prod.splits)
  have c: "in_fat vol c" using x Fat_get by simp
  note R = read_rule [OF ok mem c r(1)]
  have "fat_spec (x # xs) (r # rs) m = fat_spec xs rs m" using Fat_get r(2) R agree [OF c] by auto
  then show ?thesis using R agree keepsD [OF conjunct1 [OF R]] by (intro exI [of _ m]) simp
next
  case (Fat_put c v)
  obtain rc where r: "fat_write_entry ops mem vol c v = (rc, vol')" "r = (rc, 0)"
    using d Fat_put by (auto split: prod.splits)
  have c: "in_fat vol c" using x Fat_put by simp
  note W = write_rule [OF ok mem c r(1)]
  show ?thesis
  proof (cases "rc = 0")
    case True
    then show ?thesis
      using Fat_put r(2) W(1) view_write [OF ok mem c r(1) [unfolded True]] agree
      by (intro exI [of _ "m(c := v AND 0x0FFFFFFF)"]) simp
  next
    case False
    then show ?thesis using Fat_put r(2) W(1) keepsD [OF W(2)] agree by (intro exI [of _ m]) simp
  qed
next
  case Fat_flush
  obtain rc where r: "fat32_flush ops vol = (rc, vol')" "r = (rc, 0)" using d Fat_flush by (auto split: prod.splits)
  note F = flush_rule [OF ok r(1)]
  show ?thesis using Fat_flush r(2) keepsD [OF conjunct1 [OF F]] agree by (intro exI [of _ m]) simp
qed

lemma run_rule:
  assumes "fat_ok sec vol" and "\<forall>m. mem = Some m \<longrightarrow> length m = 512" and "\<forall>x \<in> set xs. op_in_fat vol x"
    and "\<And>c. in_fat vol c \<Longrightarrow> fat_view sec vol c = m c" and "fat_run ops mem xs vol = (rs, vol')"
  shows "\<exists>m'. fat_spec xs rs m = Some m' \<and> fat_ok sec vol' \<and> geom vol' = geom vol \<and>
    (\<forall>c. in_fat vol c \<longrightarrow> fat_view sec vol' c = m' c)"
  using assms(1,3,4,5)
proof (induction xs arbitrary: vol rs m)
  case (Cons x xs)
  obtain r vol1 rs1 where d: "fat_do ops mem x vol = (r, vol1)" and rest: "fat_run ops mem xs vol1 = (rs1, vol')"
    and rs: "rs = r # rs1" using Cons.prems(4) by (auto split: prod.splits)
  obtain m1 where m1: "fat_spec (x # xs) (r # rs1) m = fat_spec xs rs1 m1" "fat_ok sec vol1" "geom vol1 = geom vol"
    "\<And>c. in_fat vol c \<Longrightarrow> fat_view sec vol1 c = m1 c"
    using do_rule [OF Cons.prems(1) assms(2) _ Cons.prems(3) d, of xs rs1] Cons.prems(2) by auto
  have same: "in_fat vol1 c = in_fat vol c" "op_in_fat vol1 y = op_in_fat vol y" for c y
    using in_fat_geom [OF m1(3)] by (simp, cases y) simp_all
  from Cons.IH [OF m1(2) _ _ rest, of m1] Cons.prems(2) m1(1,3,4) rs show ?case by (simp add: same)
qed auto

end

section \<open>Properties\<close>

text \<open>C22: The cached table is a map. On every block device that keeps its contract, any sequence of
  entry reads, entry writes and flushes of clusters inside the table returns what a map
  from clusters to 28-bit entries would return, whichever sectors pass through the cache and
  whichever device operations fail; and when the cache is clean at the end, both copies of
  the table on the device hold exactly that map.\<close>

theorem fat_cache_is_a_map:
  assumes "blk_device ops sec" and "fat_ok sec vol" and "\<forall>m. mem = Some m \<longrightarrow> length m = 512"
    and "\<forall>x \<in> set xs. op_in_fat vol x" and "fat_run ops mem xs vol = (rs, vol')"
  shows "\<exists>m. fat_spec xs rs (fat_view sec vol) = Some m \<and> fat_ok sec vol' \<and>
    (\<forall>c. in_fat vol c \<longrightarrow> fat_view sec vol' c = m c \<and>
       (\<not> vol_cached_dirty vol' \<longrightarrow> disk_entry sec (vol_ctx vol') (vol_fat1_lba vol) c = m c \<and>
          (2 \<le> vol_num_fats vol \<longrightarrow> disk_entry sec (vol_ctx vol') (vol_fat2_lba vol) c = m c)))"
proof -
  obtain m where m: "fat_spec xs rs (fat_view sec vol) = Some m" "fat_ok sec vol'" "geom vol' = geom vol"
    "\<And>c. in_fat vol c \<Longrightarrow> fat_view sec vol' c = m c"
    using blk_device.run_rule [OF assms(1-4) refl assms(5)] by blast
  have g: "vol_fat1_lba vol' = vol_fat1_lba vol" "vol_fat2_lba vol' = vol_fat2_lba vol" "vol_num_fats vol' = vol_num_fats vol"
    using m(3) by (simp_all add: geom_def)
  have "in_fat vol' c = in_fat vol c" for c by (rule in_fat_geom [OF m(3)])
  then show ?thesis
    using m clean_on_disk [OF m(2)] by (intro exI [of _ m]) (auto simp: g)
qed

text \<open>A volume on an empty RAM disk: tables of one sector at 32 and 33.\<close>

definition demo_vol :: "ram_disk fat32_volume" where
  "demo_vol = \<lparr>vol_ctx = Some (\<lambda>_. 0), vol_mounted = True, vol_dirty = False, vol_sectors_per_cluster = 1,
     vol_bytes_per_cluster = 512, vol_reserved_sectors = 32, vol_num_fats = 2, vol_sectors_per_fat = 1,
     vol_root_cluster = 2, vol_fat1_lba = 32, vol_fat2_lba = 33, vol_data_lba = 34, vol_total_clusters = 100,
     vol_free_clusters = 0, vol_next_free = 2, vol_fs_info_lba = 1, vol_cached_fat_sector = 0xFFFFFFFF,
     vol_cached_dirty = False, vol_fat_cache = None\<rparr>"

lemma demo_sector: "ram_sector (Some (\<lambda>_. 0)) l = replicate 512 0"
  by (simp add: ram_sector_def map_replicate_const)

lemma demo_ok: "fat_ok ram_sector demo_vol"
  by (simp add: fat_ok_def demo_vol_def demo_sector)

lemma demo_view: "fat_view ram_sector demo_vol c = 0"
  by (simp add: fat_view_def fat_word_def cached_word_def demo_vol_def demo_sector word_at_def sector_unat)

theorem fat_cache_is_a_map_witness:
  "\<exists>rs vol'. fat_run ram_blk_ops (Some (replicate 512 7)) [Fat_put 5 6, Fat_get 5, Fat_flush] demo_vol = (rs, vol') \<and>
     (\<exists>m. fat_spec [Fat_put 5 6, Fat_get 5, Fat_flush] rs (fat_view ram_sector demo_vol) = Some m \<and>
        fat_view ram_sector vol' 5 = m 5)"
proof -
  let ?xs = "[Fat_put 5 6, Fat_get 5, Fat_flush]"
  obtain rs vol' where r: "fat_run ram_blk_ops (Some (replicate 512 7)) ?xs demo_vol = (rs, vol')" by (rule prod.exhaust)
  have c: "in_fat demo_vol 5" by (simp add: in_fat_def demo_vol_def)
  then have "\<forall>x \<in> set ?xs. op_in_fat demo_vol x" by simp
  from fat_cache_is_a_map [OF ram.blk_device_axioms demo_ok _ this r] c show ?thesis using r by auto
qed

end
