(* ===== verification/Fat32_Chains.thy ===== *)
theory Fat32_Chains
  imports Fat32_Facts
begin

text \<open>
  Cluster chains on a device that does not fail: allocation, following a chain, releasing it
  and counting free clusters, each described on the map that the table stands for.
\<close>

section \<open>A reliable device\<close>

locale reliable_device = blk_device +
  fixes live :: "'a \<Rightarrow> bool" and has :: "u64 \<Rightarrow> bool"
  assumes live_read: "live d \<Longrightarrow> has l \<Longrightarrow> fst (blk_read ops d l 1) = 0"
    and live_write: "live d \<Longrightarrow> has l \<Longrightarrow> blk_write ops d l 1 b = (rc, d') \<Longrightarrow> rc = 0 \<and> live d'"

definition served :: "('d \<Rightarrow> bool) \<Rightarrow> (u64 \<Rightarrow> bool) \<Rightarrow> bytes option \<Rightarrow> 'd fat32_volume \<Rightarrow> bool" where
  "served live has mem vol \<longleftrightarrow> live (vol_ctx vol) \<and> (vol_fat_cache vol \<noteq> None \<or> mem \<noteq> None) \<and>
     (\<forall>m. mem = Some m \<longrightarrow> length m = 512) \<and>
     (\<forall>s. unat s < unat (vol_sectors_per_fat vol) \<longrightarrow>
        has (vol_fat1_lba vol + ucast (s :: u32)) \<and> has (vol_fat2_lba vol + ucast s))"

text \<open>The volume stands for the map \<open>m\<close>.\<close>

definition fat_state ::
  "('d \<Rightarrow> u64 \<Rightarrow> bytes) \<Rightarrow> ('d \<Rightarrow> bool) \<Rightarrow> (u64 \<Rightarrow> bool) \<Rightarrow> bytes option \<Rightarrow> 'd fat32_volume \<Rightarrow> (u32 \<Rightarrow> u32) \<Rightarrow> bool" where
  "fat_state sec live has mem vol m \<longleftrightarrow> fat_ok sec vol \<and> served live has mem vol \<and>
     (\<forall>c. in_fat vol c \<longrightarrow> fat_view sec vol c = m c)"

text \<open>Two volumes that differ in the cache and the device only.\<close>

definition same_vol :: "'d fat32_volume \<Rightarrow> 'd fat32_volume \<Rightarrow> bool" where
  "same_vol vol vol' \<longleftrightarrow> geom vol' = geom vol \<and> vol_free_clusters vol' = vol_free_clusters vol \<and>
     vol_next_free vol' = vol_next_free vol"

lemma same_vol_refl: "same_vol vol vol"
  by (simp add: same_vol_def)

lemma same_vol_trans: "same_vol a b \<Longrightarrow> same_vol b c \<Longrightarrow> same_vol a c"
  by (simp add: same_vol_def)

lemma same_volD:
  assumes "same_vol vol vol'"
  shows "in_fat vol' c = in_fat vol c" and "vol_total_clusters vol' = vol_total_clusters vol"
    and "vol_sectors_per_fat vol' = vol_sectors_per_fat vol" and "vol_free_clusters vol' = vol_free_clusters vol"
  using assms by (simp_all add: same_vol_def geom_def in_fat_def)

text \<open>The operations leave the counters alone.\<close>

lemma flush_stats:
  "fat32_flush ops vol = (rc, vol') \<Longrightarrow> vol_free_clusters vol' = vol_free_clusters vol \<and> vol_next_free vol' = vol_next_free vol"
  by (auto simp: fat32_flush_def split: option.splits if_splits prod.splits)

lemma load_stats:
  "fat_load ops s b vol = (rc, vol') \<Longrightarrow> vol_free_clusters vol' = vol_free_clusters vol \<and> vol_next_free vol' = vol_next_free vol"
  by (auto simp: fat_load_def Let_def split: if_splits prod.splits dest!: flush_stats)

lemma read_stats:
  "fat_read_entry ops mem vol c = (rc, v, vol') \<Longrightarrow>
     vol_free_clusters vol' = vol_free_clusters vol \<and> vol_next_free vol' = vol_next_free vol"
  by (auto simp: fat_read_entry_def with_cache_def Let_def split: if_splits prod.splits option.splits dest!: load_stats)

lemma write_stats:
  "fat_write_entry ops mem vol c v = (rc, vol') \<Longrightarrow>
     vol_free_clusters vol' = vol_free_clusters vol \<and> vol_next_free vol' = vol_next_free vol"
  by (auto simp: fat_write_entry_def with_cache_def Let_def split: if_splits prod.splits option.splits dest!: load_stats)

lemma counters_irrelevant:
  "fat_ok sec (vol\<lparr>vol_free_clusters := x\<rparr>) = fat_ok sec vol" "fat_ok sec (vol\<lparr>vol_next_free := x\<rparr>) = fat_ok sec vol"
  "served live has mem (vol\<lparr>vol_free_clusters := x\<rparr>) = served live has mem vol"
  "served live has mem (vol\<lparr>vol_next_free := x\<rparr>) = served live has mem vol"
  "in_fat (vol\<lparr>vol_free_clusters := x\<rparr>) = in_fat vol" "in_fat (vol\<lparr>vol_next_free := x\<rparr>) = in_fat vol"
  "fat_view sec (vol\<lparr>vol_free_clusters := x\<rparr>) = fat_view sec vol" "fat_view sec (vol\<lparr>vol_next_free := x\<rparr>) = fat_view sec vol"
  unfolding fat_ok_def served_def in_fat_def fat_view_def fat_word_def cached_word_def fun_eq_iff
  by (simp_all cong: if_cong option.case_cong split del: if_split)

lemma fat_state_counters:
  "fat_state sec live has mem (vol\<lparr>vol_free_clusters := x\<rparr>) m = fat_state sec live has mem vol m"
  "fat_state sec live has mem (vol\<lparr>vol_next_free := x\<rparr>) m = fat_state sec live has mem vol m"
  by (simp_all only: fat_state_def counters_irrelevant)

context reliable_device
begin

lemma flush_served:
  assumes ok: "fat_ok sec vol" and sv: "served live has mem vol" and fl: "fat32_flush ops vol = (rc, vol')"
  shows "rc = 0 \<and> served live has mem vol'"
proof (cases "vol_fat_cache vol = None \<or> \<not> vol_cached_dirty vol")
  case True
  then show ?thesis using fl sv by (auto simp: fat32_flush_def split: option.splits)
next
  case False
  then obtain b where b: "vol_fat_cache vol = Some b" and dirty: "vol_cached_dirty vol" by auto
  have s: "unat (vol_cached_fat_sector vol) < unat (vol_sectors_per_fat vol)"
    using ok b dirty by (auto simp: fat_ok_def split: if_splits)
  then have h: "has (vol_fat1_lba vol + ucast (vol_cached_fat_sector vol))"
    "has (vol_fat2_lba vol + ucast (vol_cached_fat_sector vol))" "live (vol_ctx vol)"
    using sv by (simp_all add: served_def)
  obtain rc1 d1 where w1: "blk_write ops (vol_ctx vol) (vol_fat1_lba vol + ucast (vol_cached_fat_sector vol)) 1 b = (rc1, d1)"
    by (rule prod.exhaust)
  obtain rc2 d2 where w2: "blk_write ops d1 (vol_fat2_lba vol + ucast (vol_cached_fat_sector vol)) 1 b = (rc2, d2)"
    by (rule prod.exhaust)
  note l1 = live_write [OF h(3,1) w1]
  note l2 = live_write [OF conjunct2 [OF l1] h(2) w2]
  show ?thesis
    using fl b dirty w1 w2 l1 l2 sv by (auto simp: fat32_flush_def served_def split: if_splits)
qed

lemma load_served:
  assumes ok: "fat_ok sec vol" and sv: "served live has mem vol" and b: "vol_fat_cache vol = Some buf"
    and s: "unat s < unat (vol_sectors_per_fat vol)" and ld: "fat_load ops s buf vol = (rc, vol')"
  shows "rc = 0 \<and> served live has mem vol'"
proof -
  obtain frc vol1 where fl: "(if vol_cached_dirty vol then fat32_flush ops vol else (0, vol)) = (frc, vol1)"
    by (rule prod.exhaust)
  have v1: "frc = 0" "served live has mem vol1" "geom vol1 = geom vol"
    using fl flush_served [OF ok sv, of frc vol1] flush_rule [OF ok, of frc vol1] sv
    by (auto simp: keeps_def split: if_splits)
  have "fst (blk_read ops (vol_ctx vol1) (vol_fat1_lba vol1 + ucast s) 1) = 0"
    using v1 s by (intro live_read) (simp_all add: served_def geom_def)
  then show ?thesis using ld fl v1 by (auto simp: fat_load_def served_def Let_def split: prod.splits if_splits)
qed

lemma with_cache_served: "served live has mem vol \<Longrightarrow>
    served live has mem (with_cache mem vol) \<and> vol_fat_cache (with_cache mem vol) \<noteq> None"
  by (auto simp: served_def with_cache_def)

lemma get_rule:
  assumes st: "fat_state sec live has mem vol m" and c: "in_fat vol c"
  obtains vol' where "fat_read_entry ops mem vol c = (0, m c, vol')" and "fat_state sec live has mem vol' m"
    and "same_vol vol vol'" and "vol_fat_cache vol' \<noteq> None" and "vol_cached_fat_sector vol' = c div 128"
proof -
  have ok: "fat_ok sec vol" and sv: "served live has mem vol" and m: "fat_view sec vol c = m c"
    using st c by (auto simp: fat_state_def)
  have mem: "\<forall>b. mem = Some b \<longrightarrow> length b = 512" using sv by (simp add: served_def)
  obtain rc v vol' where rd: "fat_read_entry ops mem vol c = (rc, v, vol')" by (metis prod_cases3)
  note R = read_rule [OF ok mem c rd]
  note W = with_cache_served [OF sv] and ok0 = keepsD(1,2) [OF with_cache_rule [OF ok mem]]
  obtain buf where buf: "vol_fat_cache (with_cache mem vol) = Some buf" using W by auto
  have s: "unat (c div 128) < unat (vol_sectors_per_fat (with_cache mem vol))"
    using in_fat_sector [OF c] ok0(2) by (simp add: geom_def)
  have sv': "rc = 0 \<and> served live has mem vol'"
    using rd load_served [OF ok0(1) conjunct1 [OF W] buf s] sv buf
    by (auto simp: fat_read_entry_def Let_def split: if_splits prod.splits)
  have k: "keeps sec vol vol'" using R by simp
  have "fat_state sec live has mem vol' m"
    using st sv' keepsD [OF k] in_fat_geom [OF keepsD(2) [OF k]] by (auto simp: fat_state_def)
  moreover have "same_vol vol vol'" using keepsD(2) [OF k] read_stats [OF rd] by (simp add: same_vol_def)
  ultimately show thesis using that R sv' m rd by simp
qed

lemma put_rule:
  assumes st: "fat_state sec live has mem vol m" and c: "in_fat vol c"
  obtains vol' where "fat_write_entry ops mem vol c v = (0, vol')"
    and "fat_state sec live has mem vol' (m(c := v AND 0x0FFFFFFF))" and "same_vol vol vol'"
proof -
  have ok: "fat_ok sec vol" and sv: "served live has mem vol" using st by (auto simp: fat_state_def)
  have mem: "\<forall>b. mem = Some b \<longrightarrow> length b = 512" using sv by (simp add: served_def)
  obtain rc vol' where wr: "fat_write_entry ops mem vol c v = (rc, vol')" by (rule prod.exhaust)
  note W = with_cache_served [OF sv] and ok0 = keepsD(1,2) [OF with_cache_rule [OF ok mem]]
  obtain buf where buf: "vol_fat_cache (with_cache mem vol) = Some buf" using W by auto
  have s: "unat (c div 128) < unat (vol_sectors_per_fat (with_cache mem vol))"
    using in_fat_sector [OF c] ok0(2) by (simp add: geom_def)
  have sv': "rc = 0 \<and> served live has mem vol'"
    using wr load_served [OF ok0(1) conjunct1 [OF W] buf s] conjunct1 [OF W] buf
    by (auto simp: fat_write_entry_def Let_def served_def split: if_splits prod.splits)
  then have wr0: "fat_write_entry ops mem vol c v = (0, vol')" using wr by simp
  note R = write_rule(1) [OF ok mem c wr0]
  have "fat_state sec live has mem vol' (m(c := v AND 0x0FFFFFFF))"
    using st sv' R in_fat_geom [OF conjunct2 [OF R]] view_write [OF ok mem c wr0] by (auto simp: fat_state_def)
  moreover have "same_vol vol vol'" using R write_stats [OF wr] by (simp add: same_vol_def)
  ultimately show thesis using that wr0 by simp
qed

end

interpretation ram_reliable: reliable_device ram_blk_ops ram_sector "\<lambda>d. d \<noteq> None" ram_has
proof
  fix d l b rc d'
  show "d \<noteq> None \<Longrightarrow> ram_has l \<Longrightarrow> fst (blk_read ram_blk_ops d l 1) = 0"
    by (auto simp: ram_blk_ops_def ram_read_def ram_has_def)
  show "d \<noteq> None \<Longrightarrow> ram_has l \<Longrightarrow> blk_write ram_blk_ops d l 1 b = (rc, d') \<Longrightarrow> rc = 0 \<and> d' \<noteq> None"
    by (auto simp: ram_blk_ops_def ram_write_def ram_has_def split: if_splits)
qed

section \<open>Releasing a chain\<close>

text \<open>The clusters of a chain, in order.\<close>

fun fat_chain :: "(u32 \<Rightarrow> u32) \<Rightarrow> u32 list \<Rightarrow> bool" where
  "fat_chain m [] = False"
| "fat_chain m [c] = (FAT32_CLUSTER_EOC \<le> m c)"
| "fat_chain m (c # d # cs) = (m c = d \<and> fat_chain m (d # cs))"

definition data_cluster :: "'d fat32_volume \<Rightarrow> u32 \<Rightarrow> bool" where
  "data_cluster vol c \<longleftrightarrow> 2 \<le> c \<and> c < FAT32_CLUSTER_EOC \<and> in_fat vol c"

lemma fat_chain_cong: "(\<And>c. c \<in> set cs \<Longrightarrow> m c = m' c) \<Longrightarrow> fat_chain m cs = fat_chain m' cs"
  by (induction m cs rule: fat_chain.induct) auto

lemma data_cluster_geom: "geom vol' = geom vol \<Longrightarrow> data_cluster vol' c = data_cluster vol c"
  using in_fat_geom [of vol' vol] by (simp add: data_cluster_def)

context reliable_device
begin

text \<open>One round of the loop.\<close>

lemma free_round:
  assumes st: "fat_state sec live has mem vol m" and c: "data_cluster vol c"
  obtains vol' where "fat32_free_chain ops mem vol c =
      (if m c \<ge> FAT32_CLUSTER_EOC then Some vol' else fat32_free_chain ops mem vol' (m c))"
    and "fat_state sec live has mem vol' (m(c := 0))" and "geom vol' = geom vol"
    and "vol_free_clusters vol' = vol_free_clusters vol + 1"
proof -
  have inf: "in_fat vol c" using c by (simp add: data_cluster_def)
  obtain vol1 where 1: "fat_read_entry ops mem vol c = (0, m c, vol1)" "fat_state sec live has mem vol1 m" "same_vol vol vol1"
    by (rule get_rule [OF st inf])
  have inf1: "in_fat vol1 c" using inf same_volD(1) [OF 1(3)] by simp
  obtain vol2 where 2: "fat_write_entry ops mem vol1 c FAT32_CLUSTER_FREE = (0, vol2)"
    "fat_state sec live has mem vol2 (m(c := FAT32_CLUSTER_FREE AND 0x0FFFFFFF))" "same_vol vol1 vol2"
    by (rule put_rule [OF 1(2) inf1])
  note sv = same_vol_trans [OF 1(3) 2(3)]
  let ?v = "vol2\<lparr>vol_free_clusters := vol_free_clusters vol2 + 1\<rparr>"
  show thesis
  proof (rule that [of ?v])
    show "fat32_free_chain ops mem vol c =
      (if m c \<ge> FAT32_CLUSTER_EOC then Some ?v else fat32_free_chain ops mem ?v (m c))"
      using c 1(1) 2(1) by (subst fat32_free_chain.simps) (simp add: data_cluster_def Let_def)
    show "fat_state sec live has mem ?v (m(c := 0))"
      using 2(2) by (simp add: fat_state_counters FAT32_CLUSTER_FREE_def)
    show "geom ?v = geom vol" "vol_free_clusters ?v = vol_free_clusters vol + 1"
      using sv by (simp_all add: same_vol_def geom_def)
  qed
qed

lemma free_list:
  assumes "fat_state sec live has mem vol m" and "fat_chain m (c # cs)" and "distinct (c # cs)"
    and "\<forall>x \<in> set (c # cs). data_cluster vol x"
  shows "\<exists>vol'. fat32_free_chain ops mem vol c = Some vol' \<and>
    fat_state sec live has mem vol' (\<lambda>x. if x \<in> set (c # cs) then 0 else m x) \<and> geom vol' = geom vol \<and>
    vol_free_clusters vol' = vol_free_clusters vol + of_nat (length (c # cs))"
  using assms
proof (induction cs arbitrary: vol m c)
  case Nil
  obtain vol' where "fat32_free_chain ops mem vol c =
      (if m c \<ge> FAT32_CLUSTER_EOC then Some vol' else fat32_free_chain ops mem vol' (m c))"
    "fat_state sec live has mem vol' (m(c := 0))" "geom vol' = geom vol"
    "vol_free_clusters vol' = vol_free_clusters vol + 1"
    using free_round [OF Nil.prems(1), of c] Nil.prems(4) by auto
  moreover have "m(c := 0) = (\<lambda>x. if x \<in> set [c] then 0 else m x)" by auto
  ultimately show ?case using Nil.prems(2) by simp
next
  case (Cons d cs)
  obtain vol1 where 1: "fat32_free_chain ops mem vol c =
      (if m c \<ge> FAT32_CLUSTER_EOC then Some vol1 else fat32_free_chain ops mem vol1 (m c))"
    "fat_state sec live has mem vol1 (m(c := 0))" "geom vol1 = geom vol"
    "vol_free_clusters vol1 = vol_free_clusters vol + 1"
    using free_round [OF Cons.prems(1), of c] Cons.prems(4) by auto
  have d: "m c = d" "\<not> d \<ge> FAT32_CLUSTER_EOC" using Cons.prems(2,4) by (auto simp: data_cluster_def)
  have "fat_chain m (d # cs) = fat_chain (m(c := 0)) (d # cs)"
    by (rule fat_chain_cong) (use Cons.prems(3) in auto)
  then have fc: "fat_chain (m(c := 0)) (d # cs)" using Cons.prems(2) by simp
  have dc: "distinct (d # cs)" "\<forall>x \<in> set (d # cs). data_cluster vol1 x"
    using Cons.prems(3,4) data_cluster_geom [OF 1(3)] by simp_all
  obtain vol' where v: "fat32_free_chain ops mem vol1 d = Some vol'"
    "fat_state sec live has mem vol' (\<lambda>x. if x \<in> set (d # cs) then 0 else (m(c := 0)) x)" "geom vol' = geom vol1"
    "vol_free_clusters vol' = vol_free_clusters vol1 + of_nat (length (d # cs))"
    using Cons.IH [OF 1(2) fc dc] by blast
  have "(\<lambda>x. if x \<in> set (d # cs) then 0 else (m(c := 0)) x) = (\<lambda>x. if x \<in> set (c # d # cs) then 0 else m x)" by auto
  then show ?case using v 1 d by (simp add: algebra_simps)
qed

text \<open>The loop ends on every table that points inside itself, cycles included: each round clears
  an entry that was not clear.\<close>

lemma free_ends:
  assumes "fat_state sec live has mem vol m" and "data_cluster vol c"
    and "\<And>x. in_fat vol x \<Longrightarrow> 2 \<le> m x \<Longrightarrow> m x < FAT32_CLUSTER_EOC \<Longrightarrow> in_fat vol (m x)"
  shows "\<exists>vol' m'. fat32_free_chain ops mem vol c = Some vol' \<and> fat_state sec live has mem vol' m' \<and>
    geom vol' = geom vol \<and> m' c = 0 \<and> (\<forall>x. m' x = 0 \<or> m' x = m x)"
  using assms
proof (induction "card {x. in_fat vol x \<and> m x \<noteq> 0}" arbitrary: vol m c rule: less_induct)
  case less
  obtain vol1 where 1: "fat32_free_chain ops mem vol c =
      (if m c \<ge> FAT32_CLUSTER_EOC then Some vol1 else fat32_free_chain ops mem vol1 (m c))"
    "fat_state sec live has mem vol1 (m(c := 0))" "geom vol1 = geom vol"
    by (rule free_round [OF less.prems(1,2)])
  show ?case
  proof (cases "m c \<ge> FAT32_CLUSTER_EOC \<or> m c < 2")
    case True
    then have "fat32_free_chain ops mem vol c = Some vol1"
      using 1(1) fat32_free_chain.simps [of ops mem vol1 "m c"] by (auto simp: not_le)
    with 1 show ?thesis by (intro exI [of _ vol1] exI [of _ "m(c := 0)"]) simp
  next
    case False
    have inf: "in_fat vol x = in_fat vol1 x" for x using in_fat_geom [OF 1(3)] by simp
    have c: "in_fat vol c" using less.prems(2) by (simp add: data_cluster_def)
    have "m c \<noteq> 0" using False by auto
    then have "{x. in_fat vol1 x \<and> (m(c := 0)) x \<noteq> 0} \<subset> {x. in_fat vol x \<and> m x \<noteq> 0}" using c by (auto simp: inf)
    then have "card {x. in_fat vol1 x \<and> (m(c := 0)) x \<noteq> 0} < card {x. in_fat vol x \<and> m x \<noteq> 0}"
      by (intro psubset_card_mono) simp_all
    moreover have "data_cluster vol1 (m c)"
      using False less.prems(3) [OF c] by (auto simp: data_cluster_def inf not_le not_less)
    moreover have "in_fat vol1 ((m(c := 0)) x)"
      if "in_fat vol1 x" "2 \<le> (m(c := 0)) x" "(m(c := 0)) x < FAT32_CLUSTER_EOC" for x
      using that less.prems(3) [of x] by (cases "x = c") (simp_all add: inf)
    ultimately obtain vol' m' where v: "fat32_free_chain ops mem vol1 (m c) = Some vol'"
      "fat_state sec live has mem vol' m'" "geom vol' = geom vol1" "\<forall>x. m' x = 0 \<or> m' x = (m(c := 0)) x"
      using less.hyps [OF _ 1(2)] by blast
    moreover have "m' c = 0" using v(4) by (metis fun_upd_same)
    ultimately show ?thesis using 1 False
      by (intro exI [of _ vol'] exI [of _ m']) (auto simp: fun_upd_def split: if_splits)
  qed
qed

end

end
