(* ===== verification/Fat32_Alloc.thy ===== *)
theory Fat32_Alloc
  imports Fat32_Chains
begin

text \<open>
  Allocation of clusters: what the scan finds, what the chain that is linked looks like, and
  that releasing it brings the table back.
\<close>

section \<open>The scan\<close>

text \<open>The clusters the volume counts are inside the table and below the end-of-chain marks.\<close>

definition sized :: "'d fat32_volume \<Rightarrow> bool" where
  "sized vol \<longleftrightarrow> 2 < unat (vol_total_clusters vol) \<and>
     unat (vol_total_clusters vol) \<le> 128 * unat (vol_sectors_per_fat vol) \<and>
     unat (vol_total_clusters vol) \<le> unat FAT32_CLUSTER_EOC"

lemma sized_in_fat: "sized vol \<Longrightarrow> unat c < unat (vol_total_clusters vol) \<Longrightarrow> in_fat vol c"
  by (simp add: sized_def in_fat_def less_mult_imp_div_less mult.commute)

lemma sized_geom: "geom vol' = geom vol \<Longrightarrow> sized vol' = sized vol"
  by (simp add: sized_def geom_def)

lemma unat_u32_Suc: "unat (c :: u32) < unat (d :: u32) \<Longrightarrow> unat (c + 1) = unat c + 1"
proof -
  assume "unat c < unat d"
  then have "unat c + 1 < 4294967296" using unat_less_u32 [of d] by linarith
  then show ?thesis by (simp add: unat_word_ariths)
qed

lemma unat_u32_add: "unat (c :: u32) = unat a + unat b \<Longrightarrow> c = a + of_nat (unat (b :: u32))"
proof -
  assume c: "unat c = unat a + unat b"
  then have "unat a + unat b < 4294967296" using unat_less_u32 [of c] by linarith
  then show ?thesis using c by (simp add: word_unat_eq_iff unat_word_ariths)
qed

text \<open>A run of \<open>k\<close> free clusters from \<open>first\<close> on, or a run that has passed the end.\<close>

definition run_ok :: "(u32 \<Rightarrow> u32) \<Rightarrow> nat \<Rightarrow> u32 \<Rightarrow> nat \<Rightarrow> bool" where
  "run_ok m T first k \<longleftrightarrow> T < unat first + k \<or>
     (2 \<le> unat first \<and> unat first + k \<le> T \<and> (\<forall>j < k. m (first + of_nat j) = 0))"

definition scan_inv :: "(u32 \<Rightarrow> u32) \<Rightarrow> nat \<Rightarrow> u32 \<Rightarrow> u32 \<Rightarrow> u32 \<Rightarrow> bool" where
  "scan_inv m T cluster first found \<longleftrightarrow> 2 \<le> unat cluster \<and>
     (0 < unat found \<longrightarrow> run_ok m T first (unat found) \<and>
        (T < unat first + unat found \<or> unat cluster = unat first + unat found))"

text \<open>The clusters that \<open>n\<close> rounds from \<open>cluster\<close> on pass, wrapping at the end, are in use.\<close>

definition scan_saw :: "(u32 \<Rightarrow> u32) \<Rightarrow> nat \<Rightarrow> nat \<Rightarrow> nat \<Rightarrow> bool" where
  "scan_saw m T cluster n \<longleftrightarrow> (let c = (if T \<le> cluster then 2 else cluster) in
     \<forall>x. 2 \<le> unat x \<and> unat x < T \<and> (c \<le> unat x \<and> unat x < c + n \<or> unat x + T < 2 + n + c) \<longrightarrow> m x \<noteq> 0)"

lemma scan_saw_Suc:
  assumes "scan_saw m T (unat c + 1) n" and "m c \<noteq> 0" and "2 \<le> unat c" and "unat c < T"
    and "unat c = (if T \<le> cluster then 2 else cluster)"
  shows "scan_saw m T cluster (Suc n)"
  unfolding scan_saw_def Let_def assms(5) [symmetric]
proof (intro allI impI)
  fix x :: u32
  assume a: "2 \<le> unat x \<and> unat x < T \<and> (unat c \<le> unat x \<and> unat x < unat c + Suc n \<or> unat x + T < 2 + Suc n + unat c)"
  show "m x \<noteq> 0"
  proof (cases "unat x = unat c")
    case True
    then have "x = c" by (simp add: word_unat_eq_iff)
    then show ?thesis using assms(2) by simp
  next
    case False
    show ?thesis
    proof (cases "unat c + 1 = T")
      case True
      then have "unat x < 2 + n" using a False by linarith
      then show ?thesis using assms(1) a True by (simp add: scan_saw_def)
    next
      case below: False
      then have "unat c + 1 \<le> unat x \<and> unat x < unat c + 1 + n \<or> unat x + T < 2 + n + (unat c + 1)"
        using a False by linarith
      then show ?thesis using assms(1,4) a below by (simp add: scan_saw_def)
    qed
  qed
qed

lemma scan_saw_all: "scan_saw m T start T \<Longrightarrow> 2 \<le> start \<Longrightarrow> 2 \<le> unat x \<Longrightarrow> unat x < T \<Longrightarrow> m x \<noteq> 0"
  by (auto simp: scan_saw_def Let_def split: if_splits)

lemma scan_inv_free:
  assumes inv: "scan_inv m T cluster first found" and T: "2 < T" "T < 2 ^ 32" and found: "unat (found + 1) = unat found + 1"
    and c: "c = (if T \<le> unat cluster then 2 else cluster)" and free: "m c = 0"
  shows "scan_inv m T (c + 1) (if found = 0 then c else first) (found + 1)"
    and "run_ok m T (if found = 0 then c else first) (unat found + 1)"
proof -
  have c2: "2 \<le> unat c" "unat c < T" using inv T(1) by (auto simp: c scan_inv_def)
  have c1: "unat (c + 1) = unat c + 1" using c2(2) T(2) by (simp add: unat_word_ariths)
  have "run_ok m T (if found = 0 then c else first) (unat found + 1) \<and>
      (T < unat (if found = 0 then c else first) + (unat found + 1) \<or>
       unat (c + 1) = unat (if found = 0 then c else first) + (unat found + 1))"
  proof (cases "found = 0")
    case True
    then show ?thesis using c2 c1 free by (simp add: run_ok_def)
  next
    case False
    then have "0 < unat found" by (simp add: unat_gt_0)
    then have run: "run_ok m T first (unat found)" "T < unat first + unat found \<or> unat cluster = unat first + unat found"
      using inv by (auto simp: scan_inv_def)
    show ?thesis
    proof (cases "T < unat first + unat found \<or> T \<le> unat cluster")
      case True
      then have "T < unat first + (unat found + 1)" using run(2) by auto
      then show ?thesis using False by (simp add: run_ok_def)
    next
      case inside: False
      then have cl: "c = cluster" "unat c = unat first + unat found" using run(2) c by auto
      have "c = first + of_nat (unat found)" by (rule unat_u32_add [OF cl(2)])
      then have "\<forall>j < unat found + 1. m (first + of_nat j) = 0"
        using run(1) inside free by (auto simp: run_ok_def less_Suc_eq)
      then show ?thesis using False c1 cl c2 run(1) inside by (auto simp: run_ok_def)
    qed
  qed
  then show "run_ok m T (if found = 0 then c else first) (unat found + 1)"
    and "scan_inv m T (c + 1) (if found = 0 then c else first) (found + 1)"
    using c1 c2 found by (auto simp: scan_inv_def)
qed

context reliable_device
begin

lemma run_scan_rule:
  assumes "fat_state sec live has mem vol m" and "sized vol" and "unat found < unat count"
    and "scan_inv m (unat (vol_total_clusters vol)) cluster first found"
  shows "\<exists>first' found' vol'. alloc_scan ops mem count n cluster first found vol = (Some (first', found'), vol') \<and>
    fat_state sec live has mem vol' m \<and> same_vol vol vol' \<and>
    (count \<le> found' \<longrightarrow> run_ok m (unat (vol_total_clusters vol)) first' (unat count))"
  using assms
proof (induction n arbitrary: cluster first found vol)
  case 0
  then show ?case by (simp add: same_vol_refl word_le_nat_alt)
next
  case (Suc n)
  let ?T = "unat (vol_total_clusters vol)"
  define c where "c = (if ?T \<le> unat cluster then 2 else cluster)"
  have c': "(if cluster \<ge> vol_total_clusters vol then 2 else cluster) = c" by (simp add: c_def word_le_nat_alt)
  have T: "2 < ?T" "?T < 2 ^ 32" using Suc.prems(2) by (simp_all add: sized_def)
  have cT: "2 \<le> unat c" "unat c < ?T" using Suc.prems(4) T(1) by (auto simp: c_def scan_inv_def)
  obtain vol1 where 1: "fat_read_entry ops mem vol c = (0, m c, vol1)" "fat_state sec live has mem vol1 m" "same_vol vol vol1"
    by (rule get_rule [OF Suc.prems(1) sized_in_fat [OF Suc.prems(2) cT(2)]])
  have s1: "sized vol1" "unat (vol_total_clusters vol1) = ?T"
    using Suc.prems(2) sized_geom [of vol1 vol] 1(3) by (simp_all add: same_vol_def geom_def)
  have f1: "unat (found + 1) = unat found + 1"
    by (rule unat_u32_Suc [OF Suc.prems(3)])
  have up: "unat (c + 1) = unat c + 1" by (rule unat_u32_Suc [OF cT(2)])
  show ?case
  proof (cases "m c = FAT32_CLUSTER_FREE")
    case False
    have "scan_inv m ?T (c + 1) 0 0" using cT up by (simp add: scan_inv_def)
    with Suc.IH [OF 1(2) s1(1), of 0 "c + 1" 0] Suc.prems(3) obtain first' found' vol'
      where "alloc_scan ops mem count n (c + 1) 0 0 vol1 = (Some (first', found'), vol')"
        "fat_state sec live has mem vol' m" "same_vol vol1 vol'"
        "count \<le> found' \<longrightarrow> run_ok m ?T first' (unat count)" unfolding s1(2) by auto
    then show ?thesis using 1(1) False same_vol_trans [OF 1(3)]
      by (intro exI [of _ first'] exI [of _ found'] exI [of _ vol']) (simp add: c' Let_def)
  next
    case True
    let ?first = "if found = 0 then c else first"
    note I = scan_inv_free [OF Suc.prems(4) T f1 c_def True [unfolded FAT32_CLUSTER_FREE_def]]
    show ?thesis
    proof (cases "count \<le> found + 1")
      case full: True
      then have "unat count = unat found + 1" using f1 Suc.prems(3) by (simp add: word_le_nat_alt)
      then show ?thesis using 1 True full I(2) by (simp add: c' Let_def)
    next
      case more: False
      then have "unat (found + 1) < unat count" by (simp add: word_le_nat_alt)
      from Suc.IH [OF 1(2) s1(1) this I(1) [folded s1(2)]] obtain first' found' vol'
        where "alloc_scan ops mem count n (c + 1) ?first (found + 1) vol1 = (Some (first', found'), vol')"
          "fat_state sec live has mem vol' m" "same_vol vol1 vol'"
          "count \<le> found' \<longrightarrow> run_ok m ?T first' (unat count)" unfolding s1(2) by blast
      then show ?thesis using 1(1) True more same_vol_trans [OF 1(3)]
        by (intro exI [of _ first'] exI [of _ found'] exI [of _ vol']) (simp add: c' Let_def)
    qed
  qed
qed

text \<open>A scan for one cluster finds a free one, or has seen every cluster it passed in use.\<close>

lemma scan_one:
  assumes "fat_state sec live has mem vol m" and "sized vol" and "2 \<le> unat cluster"
    and "alloc_scan ops mem 1 n cluster 0 0 vol = (Some (first', found'), vol')"
  shows "found' = 0 \<and> scan_saw m (unat (vol_total_clusters vol)) (unat cluster) n \<or>
    found' = 1 \<and> 2 \<le> unat first' \<and> unat first' < unat (vol_total_clusters vol) \<and> m first' = 0"
  using assms
proof (induction n arbitrary: cluster vol)
  case 0
  then show ?case by (auto simp: sized_def scan_saw_def Let_def)
next
  case (Suc n)
  let ?T = "unat (vol_total_clusters vol)"
  define c :: u32 where "c = (if ?T \<le> unat cluster then 2 else cluster)"
  have c': "(if cluster \<ge> vol_total_clusters vol then 2 else cluster) = c" by (simp add: c_def word_le_nat_alt)
  have uc: "unat c = (if ?T \<le> unat cluster then 2 else unat cluster)" by (simp add: c_def)
  have T: "2 < ?T" "?T < 2 ^ 32" using Suc.prems(2) by (simp_all add: sized_def)
  have cT: "2 \<le> unat c" "unat c < ?T" using Suc.prems(3) T(1) by (auto simp: c_def)
  obtain vol1 where 1: "fat_read_entry ops mem vol c = (0, m c, vol1)" "fat_state sec live has mem vol1 m" "same_vol vol vol1"
    by (rule get_rule [OF Suc.prems(1) sized_in_fat [OF Suc.prems(2) cT(2)]])
  have s1: "sized vol1" "unat (vol_total_clusters vol1) = ?T"
    using Suc.prems(2) sized_geom [of vol1 vol] 1(3) by (simp_all add: same_vol_def geom_def)
  have up: "unat (c + 1) = unat c + 1" by (rule unat_u32_Suc [OF cT(2)])
  show ?case
  proof (cases "m c = 0")
    case True
    then have "first' = c \<and> found' = 1" using Suc.prems(4) 1(1) by (auto simp: c' Let_def FAT32_CLUSTER_FREE_def)
    then show ?thesis using cT True by simp
  next
    case False
    then have rest: "alloc_scan ops mem 1 n (c + 1) 0 0 vol1 = (Some (first', found'), vol')"
      using Suc.prems(4) 1(1) by (simp add: c' Let_def FAT32_CLUSTER_FREE_def)
    have "2 \<le> unat (c + 1)" using cT up by simp
    from Suc.IH [OF 1(2) s1(1) this rest, unfolded s1(2) up] show ?thesis
      using scan_saw_Suc [of m ?T c n "unat cluster", OF _ False cT uc] by blast
  qed
qed

end

section \<open>Linking\<close>

text \<open>The entry that the \<open>i\<close>-th cluster of the new chain gets.\<close>

definition chain_entry :: "u32 \<Rightarrow> u32 \<Rightarrow> nat \<Rightarrow> u32" where
  "chain_entry first count i =
     (if (of_nat i :: u32) < count - 1 then first + of_nat i + 1 else FAT32_CLUSTER_EOC) AND 0x0FFFFFFF"

definition linked :: "u32 \<Rightarrow> u32 \<Rightarrow> (u32 \<Rightarrow> u32) \<Rightarrow> u32 \<Rightarrow> u32" where
  "linked first count m x =
     (if unat first \<le> unat x \<and> unat x < unat first + unat count
      then (if unat x + 1 < unat first + unat count then x + 1 else FAT32_CLUSTER_EOC) else m x)"

lemma run_unat:
  assumes "unat first + n \<le> unat (T :: u32)" and "j < n"
  shows "unat (first + of_nat j :: u32) = unat first + j"
proof -
  have "unat first + j < 4294967296" using assms unat_less_u32 [of T] by linarith
  then show ?thesis by (simp add: unat_word_ariths unat_of_nat)
qed

lemma fold_linked:
  assumes T: "unat first + unat count \<le> unat (T :: u32)" "unat T \<le> unat FAT32_CLUSTER_EOC" and k: "k \<le> unat count"
  shows "fold (\<lambda>i m. m(first + of_nat i := chain_entry first count i)) [0..<k] m x =
    (if unat first \<le> unat x \<and> unat x < unat first + k then linked first count m x else m x)"
  using k
proof (induction k)
  case (Suc k)
  let ?c = "first + of_nat k"
  have u: "unat ?c = unat first + k" by (rule run_unat [OF T(1)]) (use Suc.prems in simp)
  have x: "x = ?c \<longleftrightarrow> unat x = unat first + k" using u by (metis word_unat_eq_iff)
  have "chain_entry first count k = linked first count m ?c"
  proof (cases "Suc k < unat count")
    case True
    have "first + of_nat (Suc k) = ?c + 1" by (simp add: ac_simps)
    then have c1: "unat (?c + 1) = unat first + k + 1"
      using run_unat [OF T(1) True] by (simp only: add_Suc_right Suc_eq_plus1)
    then have "unat (?c + 1) < 2 ^ 28" using True T by (simp add: FAT32_CLUSTER_EOC_def)
    moreover have "(0x0FFFFFFF :: u32) = mask 28" by (simp add: mask_eq_exp_minus_1)
    ultimately have "(?c + 1) AND 0x0FFFFFFF = ?c + 1"
      by (simp only: flip: take_bit_eq_mask) (simp add: word_unat_eq_iff unsigned_take_bit_eq take_bit_nat_eq_self)
    moreover have "(of_nat k :: u32) < count - 1"
    proof -
      have "unat (count - 1) = unat count - 1" using True by (subst unat_sub) (simp_all add: word_le_nat_alt)
      moreover have "k < 4294967296" using True unat_less_u32 [of count] by linarith
      ultimately show ?thesis using True by (simp add: word_less_nat_alt unat_of_nat)
    qed
    ultimately show ?thesis using True u by (simp add: chain_entry_def linked_def)
  next
    case False
    then have n: "unat count = Suc k" using Suc.prems by simp
    have "unat (count - 1) = k" using n by (subst unat_sub) (simp_all add: word_le_nat_alt)
    moreover have "k < 4294967296" using n unat_less_u32 [of count] by linarith
    ultimately have "\<not> (of_nat k :: u32) < count - 1" by (simp add: word_less_nat_alt unat_of_nat)
    then show ?thesis using n u by (simp add: chain_entry_def linked_def FAT32_CLUSTER_EOC_def)
  qed
  then show ?case using Suc x by auto
next
  case 0
  have "(unat first \<le> unat x \<and> unat x < unat first + 0) = False" by auto
  then show ?case by (simp only: if_False upt.simps fold_simps)
qed

lemma fold_linked_all:
  assumes "unat first + unat count \<le> unat (T :: u32)" and "unat T \<le> unat FAT32_CLUSTER_EOC"
  shows "fold (\<lambda>i m. m(first + of_nat i := chain_entry first count i)) [0..<unat count] m = linked first count m"
  using fold_linked [OF assms order.refl, of m] by (auto simp: fun_eq_iff linked_def)

lemma fat_chain_upt:
  assumes "i < n" and "\<forall>j. i \<le> j \<and> Suc j < n \<longrightarrow> m (f j) = f (Suc j)" and "FAT32_CLUSTER_EOC \<le> m (f (n - 1))"
  shows "fat_chain m (map f [i..<n])"
  using assms
proof (induction "n - i" arbitrary: i)
  case (Suc k)
  show ?case
  proof (cases "Suc i = n")
    case True
    then have "[i..<n] = [i]" "n - 1 = i" by auto
    then show ?thesis using Suc.prems(3) by simp
  next
    case False
    then have "Suc i < n" using Suc.prems(1) by simp
    then have "fat_chain m (map f [Suc i..<n])" using Suc by simp
    moreover have "[i..<n] = i # Suc i # [Suc (Suc i)..<n]" "[Suc i..<n] = Suc i # [Suc (Suc i)..<n]"
      using \<open>Suc i < n\<close> by (simp_all add: upt_conv_Cons)
    ultimately show ?thesis using Suc.prems(2) \<open>Suc i < n\<close> by simp
  qed
qed simp

definition run_clusters :: "u32 \<Rightarrow> u32 \<Rightarrow> u32 list" where
  "run_clusters first count = map (\<lambda>j. first + of_nat j) [0..<unat count]"

lemma run_clusters_facts:
  assumes "unat first + unat count \<le> unat (T :: u32)" and "unat T \<le> unat FAT32_CLUSTER_EOC" and "0 < count"
  shows "fat_chain (linked first count m) (run_clusters first count)" and "distinct (run_clusters first count)"
    and "x \<in> set (run_clusters first count) \<longleftrightarrow> unat first \<le> unat x \<and> unat x < unat first + unat count"
proof -
  have n: "0 < unat count" using assms(3) by (simp add: unat_gt_0)
  note u = run_unat [OF assms(1)]
  have next1: "first + of_nat (Suc j) = first + of_nat j + 1" for j by (simp add: add.assoc add.commute)
  show "fat_chain (linked first count m) (run_clusters first count)"
    unfolding run_clusters_def
  proof (rule fat_chain_upt [OF n])
    show "\<forall>j. 0 \<le> j \<and> Suc j < unat count \<longrightarrow> linked first count m (first + of_nat j) = first + of_nat (Suc j)"
      using u by (auto simp: linked_def next1)
    show "FAT32_CLUSTER_EOC \<le> linked first count m (first + of_nat (unat count - 1))"
      using u [of "unat count - 1"] n unfolding linked_def by (cases "unat count") simp_all
  qed
  show "distinct (run_clusters first count)"
    using u by (auto simp: run_clusters_def distinct_map inj_on_def) (metis add_left_cancel)
  show "x \<in> set (run_clusters first count) \<longleftrightarrow> unat first \<le> unat x \<and> unat x < unat first + unat count"
  proof
    assume "x \<in> set (run_clusters first count)"
    then show "unat first \<le> unat x \<and> unat x < unat first + unat count" using u by (auto simp: run_clusters_def)
  next
    assume a: "unat first \<le> unat x \<and> unat x < unat first + unat count"
    then have "x = first + of_nat (unat x - unat first)" using u [of "unat x - unat first"] by (simp add: word_unat_eq_iff)
    moreover have "unat x - unat first \<in> {0..<unat count}" using a by auto
    ultimately show "x \<in> set (run_clusters first count)"
      unfolding run_clusters_def set_map set_upt by (rule image_eqI)
  qed
qed

text \<open>Allocation and release are inverse on the map.\<close>

lemma linked_free:
  assumes "\<forall>x. unat first \<le> unat x \<and> unat x < unat first + unat count \<longrightarrow> m x = 0"
  shows "(if unat first \<le> unat x \<and> unat x < unat first + unat count then 0 else linked first count m x) = m x"
  using assms by (simp add: linked_def)

lemma run_ok_free:
  assumes "run_ok m (unat (T :: u32)) first (unat count)" and "unat first + unat count \<le> unat T"
  shows "2 \<le> unat first" and "\<forall>x. unat first \<le> unat x \<and> unat x < unat first + unat count \<longrightarrow> m x = 0"
proof -
  show "2 \<le> unat first" using assms by (auto simp: run_ok_def)
  show "\<forall>x. unat first \<le> unat x \<and> unat x < unat first + unat count \<longrightarrow> m x = 0"
  proof (intro allI impI)
    fix x :: u32
    assume a: "unat first \<le> unat x \<and> unat x < unat first + unat count"
    then have j: "unat x - unat first < unat count" by linarith
    have "unat x = unat (first + of_nat (unat x - unat first))" using run_unat [OF assms(2) j] a by simp
    then have "x = first + of_nat (unat x - unat first)" by (simp only: word_unat_eq_iff)
    moreover have "m (first + of_nat (unat x - unat first)) = 0" using assms j by (auto simp: run_ok_def)
    ultimately show "m x = 0" by simp
  qed
qed

lemma alloc_hint_keeps:
  "fat_state sec live has mem (alloc_hint first count vol) m = fat_state sec live has mem vol m"
  "geom (alloc_hint first count vol) = geom vol"
  by (simp_all add: alloc_hint_def Let_def fat_state_counters geom_def)

context reliable_device
begin

lemma link_rule:
  assumes "fat_state sec live has mem vol m" and "\<forall>j \<in> set is. in_fat vol (first + of_nat j)"
  shows "\<exists>vol'. link_chain ops mem first count is vol = (True, vol') \<and>
    fat_state sec live has mem vol' (fold (\<lambda>i m. m(first + of_nat i := chain_entry first count i)) is m) \<and> same_vol vol vol'"
  using assms
proof (induction "is" arbitrary: vol m)
  case Nil
  then show ?case by (simp add: same_vol_refl)
next
  case (Cons i js)
  let ?c = "first + of_nat i :: u32"
  let ?n = "if (of_nat i :: u32) < count - 1 then ?c + 1 else FAT32_CLUSTER_EOC"
  have inf: "in_fat vol ?c" using Cons.prems(2) by simp
  obtain vol1 where 1: "fat_write_entry ops mem vol ?c ?n = (0, vol1)"
    "fat_state sec live has mem vol1 (m(?c := ?n AND 0x0FFFFFFF))" "same_vol vol vol1"
    by (rule put_rule [OF Cons.prems(1) inf])
  have ce: "?n AND 0x0FFFFFFF = chain_entry first count i" by (simp add: chain_entry_def)
  have "\<forall>j \<in> set js. in_fat vol1 (first + of_nat j)" using Cons.prems(2) same_volD(1) [OF 1(3)] by simp
  from Cons.IH [OF 1(2) [unfolded ce] this] obtain vol' where "link_chain ops mem first count js vol1 = (True, vol')"
    "fat_state sec live has mem vol' (fold (\<lambda>i m. m(first + of_nat i := chain_entry first count i)) js
       (m(?c := chain_entry first count i)))" "same_vol vol1 vol'" by blast
  then show ?case using 1(1) same_vol_trans [OF 1(3)]
    by (intro exI [of _ vol']) (simp add: Let_def fun_upd_def)
qed

text \<open>What \<open>fat32_alloc_clusters\<close> does when the run it finds ends inside the volume.\<close>

lemma run_alloc_rule:
  assumes st: "fat_state sec live has mem vol m" and sz: "sized vol" and cnt: "0 < count"
    and al: "fat32_alloc_clusters ops mem vol count hint = (first, vol')"
    and "first \<noteq> 0"
  shows "unat (vol_total_clusters vol) < unat first + unat count \<or>
    (2 \<le> unat first \<and> (\<forall>x. unat first \<le> unat x \<and> unat x < unat first + unat count \<longrightarrow> m x = 0) \<and>
     fat_state sec live has mem vol' (linked first count m) \<and> geom vol' = geom vol)"
proof -
  let ?T = "unat (vol_total_clusters vol)" and ?start = "if hint \<ge> 2 then hint else 2"
  have c0: "count \<noteq> 0" "unat (0 :: u32) < unat count" using cnt by (auto simp: unat_gt_0)
  have "2 \<le> unat ?start" by (simp add: word_le_nat_alt)
  then have inv: "scan_inv m ?T ?start 0 0" by (simp add: scan_inv_def)
  obtain f found vol1 where sc: "alloc_scan ops mem count ?T ?start 0 0 vol = (Some (f, found), vol1)"
    "fat_state sec live has mem vol1 m" "same_vol vol vol1" "count \<le> found \<longrightarrow> run_ok m ?T f (unat count)"
    using run_scan_rule [OF st sz c0(2) inv] by blast
  show ?thesis
  proof (cases "found < count")
    case True
    then show ?thesis using al sc c0 \<open>first \<noteq> 0\<close> by (simp add: fat32_alloc_clusters_def Let_def)
  next
    case False
    then have run: "run_ok m ?T f (unat count)" using sc(4) by simp
    have al': "(case link_chain ops mem f count [0..<unat count] vol1 of
        (ok, vol2) \<Rightarrow> if \<not> ok then (0, vol2) else (f, alloc_hint f count vol2)) = (first, vol')"
      using al sc(1) c0 False by (simp add: fat32_alloc_clusters_def Let_def)
    show ?thesis
    proof (cases "unat f + unat count \<le> ?T")
      case past: False
      then show ?thesis using al' \<open>first \<noteq> 0\<close> by (auto split: prod.splits if_splits)
    next
      case True
      note R = run_ok_free [OF run True]
      have s1: "sized vol1" "vol_total_clusters vol1 = vol_total_clusters vol"
        using sz sized_geom [of vol1 vol] sc(3) by (simp_all add: same_vol_def geom_def)
      have "\<forall>j \<in> set [0..<unat count]. in_fat vol1 (f + of_nat j)"
        using run_unat [OF True] True by (auto intro!: sized_in_fat [OF s1(1)] simp: s1(2))
      from link_rule [OF sc(2) this, of count] obtain vol2 where
        l: "link_chain ops mem f count [0..<unat count] vol1 = (True, vol2)"
          "fat_state sec live has mem vol2 (linked f count m)" "same_vol vol1 vol2"
        using fold_linked_all [OF True] sz by (auto simp: sized_def)
      have "first = f" "vol' = alloc_hint f count vol2" using al' l(1) by auto
      moreover have "geom vol2 = geom vol" using sc(3) l(3) by (simp add: same_vol_def)
      ultimately show ?thesis using R l(2) by (simp add: alloc_hint_keeps)
    qed
  qed
qed

end

section \<open>Properties\<close>

context reliable_device
begin

lemma alloc_one_rule:
  assumes st: "fat_state sec live has mem vol m" and sz: "sized vol"
    and al: "fat32_alloc_clusters ops mem vol 1 hint = (first, vol')"
  shows "if \<forall>x. 2 \<le> unat x \<and> unat x < unat (vol_total_clusters vol) \<longrightarrow> m x \<noteq> 0
    then first = 0 \<and> fat_state sec live has mem vol' m
    else 2 \<le> unat first \<and> unat first < unat (vol_total_clusters vol) \<and> m first = 0 \<and>
      fat_state sec live has mem vol' (m(first := FAT32_CLUSTER_EOC))"
proof -
  let ?T = "unat (vol_total_clusters vol)" and ?start = "if hint \<ge> 2 then hint else 2"
  have s2: "2 \<le> unat ?start" by (simp add: word_le_nat_alt)
  then have inv: "scan_inv m ?T ?start 0 0" by (simp add: scan_inv_def)
  obtain f found vol1 where sc: "alloc_scan ops mem 1 ?T ?start 0 0 vol = (Some (f, found), vol1)"
    "fat_state sec live has mem vol1 m" "same_vol vol vol1" "1 \<le> found \<longrightarrow> run_ok m ?T f (unat (1 :: u32))"
    using run_scan_rule [OF st sz _ inv, of 1 ?T] by auto
  note C = scan_one [OF st sz s2 sc(1)]
  show ?thesis
  proof (cases "found = 0")
    case True
    then have "\<forall>x. 2 \<le> unat x \<and> unat x < ?T \<longrightarrow> m x \<noteq> 0" using C scan_saw_all [OF _ s2] by auto
    moreover have "first = 0" "vol' = vol1" using al sc(1) True by (auto simp: fat32_alloc_clusters_def Let_def)
    ultimately show ?thesis using sc(2) by simp
  next
    case False
    then have f: "found = 1" "2 \<le> unat f" "unat f < ?T" "m f = 0" using C by auto
    have s1: "sized vol1" "vol_total_clusters vol1 = vol_total_clusters vol"
      using sz sized_geom [of vol1 vol] sc(3) by (simp_all add: same_vol_def geom_def)
    obtain vol2 where p: "fat_write_entry ops mem vol1 f FAT32_CLUSTER_EOC = (0, vol2)"
      "fat_state sec live has mem vol2 (m(f := FAT32_CLUSTER_EOC AND 0x0FFFFFFF))"
      by (rule put_rule [OF sc(2) sized_in_fat [OF s1(1)]]) (use f s1 in simp)
    have "first = f" "vol' = alloc_hint f 1 vol2" using al sc(1) f(1) p(1) by (auto simp: fat32_alloc_clusters_def Let_def)
    then show ?thesis using f p(2) by (auto simp: alloc_hint_keeps FAT32_CLUSTER_EOC_def)
  qed
qed

end

text \<open>Allocation of one cluster is complete. On a device that does not fail,
  \<open>fat32_alloc_clusters\<close> for one cluster, from any hint, returns 0 and changes no entry exactly when no
  cluster from 2 up to the number of clusters is free; otherwise it returns a cluster that was
  free, marks it as the end of a chain and changes no other entry.\<close>

lemma alloc_one_cluster:
  assumes "reliable_device ops sec live has" and "fat_state sec live has mem vol m" and "sized vol"
    and "fat32_alloc_clusters ops mem vol 1 hint = (first, vol')"
  shows "if \<forall>x. 2 \<le> unat x \<and> unat x < unat (vol_total_clusters vol) \<longrightarrow> m x \<noteq> 0
    then first = 0 \<and> fat_state sec live has mem vol' m
    else 2 \<le> unat first \<and> unat first < unat (vol_total_clusters vol) \<and> m first = 0 \<and>
      fat_state sec live has mem vol' (m(first := FAT32_CLUSTER_EOC))"
  by (rule reliable_device.alloc_one_rule [OF assms])

text \<open>The witnesses run on the RAM disk.\<close>

lemma demo_state: "fat_state ram_sector (\<lambda>d. d \<noteq> None) ram_has (Some (replicate 512 7)) demo_vol (\<lambda>_. 0)"
proof -
  have "served (\<lambda>d. d \<noteq> None) ram_has (Some (replicate 512 7)) demo_vol"
    by (auto simp: served_def demo_vol_def ram_has_def RAM_DISK_SECTORS_def unat_eq_zero)
  then show ?thesis using demo_ok by (simp add: fat_state_def demo_view)
qed

lemma demo_sized: "sized demo_vol"
  by (simp add: sized_def demo_vol_def FAT32_CLUSTER_EOC_def)

text \<open>C23: Allocation and release. On a device that does not fail, when \<open>fat32_alloc_clusters\<close> returns a run
  that ends inside the volume, the clusters of the run were free, they now form a chain
  in order, no other entry has changed, and \<open>fat32_free_chain\<close> on its first cluster returns and
  brings every entry of the table back.\<close>

theorem alloc_free_roundtrip:
  assumes dev: "reliable_device ops sec live has" and st: "fat_state sec live has mem vol m" and sz: "sized vol" and cnt: "0 < count"
    and al: "fat32_alloc_clusters ops mem vol count hint = (first, vol1)" and first: "first \<noteq> 0"
    and fits: "unat first + unat count \<le> unat (vol_total_clusters vol)"
  shows "(\<forall>x \<in> set (run_clusters first count). 2 \<le> x \<and> m x = 0) \<and>
    (\<exists>m1 vol2. fat_state sec live has mem vol1 m1 \<and> fat_chain m1 (run_clusters first count) \<and>
      (\<forall>x. x \<notin> set (run_clusters first count) \<longrightarrow> m1 x = m x) \<and>
      fat32_free_chain ops mem vol1 first = Some vol2 \<and> fat_state sec live has mem vol2 m)"
proof -
  let ?r = "run_clusters first count"
  have A: "2 \<le> unat first" "\<forall>x. unat first \<le> unat x \<and> unat x < unat first + unat count \<longrightarrow> m x = 0"
    "fat_state sec live has mem vol1 (linked first count m)" "geom vol1 = geom vol"
    using reliable_device.run_alloc_rule [OF dev st sz cnt al first] fits by auto
  have T: "unat (vol_total_clusters vol) \<le> unat FAT32_CLUSTER_EOC" using sz by (simp add: sized_def)
  note R = run_clusters_facts [OF fits T cnt]
  have inr: "x \<in> set ?r \<Longrightarrow> 2 \<le> x \<and> m x = 0 \<and> data_cluster vol1 x" for x
    using A(1,2) R(3) [of x] sized_in_fat [OF sz, of x] fits T
    by (auto simp: in_fat_geom [OF A(4)] data_cluster_def word_le_nat_alt word_less_nat_alt)
  have "0 < unat count" using cnt by (simp add: unat_gt_0)
  then have r: "?r = first # tl ?r" by (simp add: run_clusters_def upt_conv_Cons)
  obtain vol2 where f: "fat32_free_chain ops mem vol1 first = Some vol2"
    "fat_state sec live has mem vol2 (\<lambda>x. if x \<in> set ?r then 0 else linked first count m x)"
    using reliable_device.free_list [OF dev A(3), of first "tl ?r", folded r] R(1,2) inr by auto
  have "(\<lambda>x. if x \<in> set ?r then 0 else linked first count m x) = m"
    using linked_free [OF A(2)] by (simp only: R(3))
  then show ?thesis using A(3) R inr f by (auto simp: linked_def intro!: exI [of _ "linked first count m"])
qed

lemma demo_alloc:
  obtains vol1 where "fat32_alloc_clusters ram_blk_ops (Some (replicate 512 7)) demo_vol 3 4 = (4, vol1)"
proof -
  let ?m = "Some (replicate 512 (7 :: u8))"
  have "fst (fat32_alloc_clusters ram_blk_ops ?m demo_vol 3 4) = 4"
    by code_simp
  then show thesis using that by (metis prod.collapse)
qed

theorem alloc_free_roundtrip_witness:
  "\<exists>vol1 vol2. fat32_alloc_clusters ram_blk_ops (Some (replicate 512 7)) demo_vol 3 4 = (4, vol1) \<and>
     fat32_free_chain ram_blk_ops (Some (replicate 512 7)) vol1 4 = Some vol2 \<and>
     fat_state ram_sector (\<lambda>d. d \<noteq> None) ram_has (Some (replicate 512 7)) vol2 (\<lambda>_. 0)"
proof -
  obtain vol1 where a: "fat32_alloc_clusters ram_blk_ops (Some (replicate 512 7)) demo_vol 3 4 = (4, vol1)"
    by (rule demo_alloc)
  have "unat (4 :: u32) + unat (3 :: u32) \<le> unat (vol_total_clusters demo_vol)" by (simp add: demo_vol_def)
  from alloc_free_roundtrip [OF ram_reliable.reliable_device_axioms demo_state demo_sized _ a _ this] a
  show ?thesis by auto
qed

text \<open>A run that starts at the last cluster and goes on at cluster 2 is linked as if it were
  contiguous: past the end of the volume.\<close>

lemma alloc_run_past_the_end:
  "\<exists>vol1. fat32_alloc_clusters ram_blk_ops (Some (replicate 512 7)) demo_vol 2 99 = (99, vol1) \<and>
     vol_total_clusters vol1 = 100 \<and> fat_view ram_sector vol1 99 = 100 \<and> fat_view ram_sector vol1 2 = 0"
proof -
  let ?r = "fat32_alloc_clusters ram_blk_ops (Some (replicate 512 7)) demo_vol 2 99"
  have "fst ?r = 99 \<and> vol_total_clusters (snd ?r) = 100 \<and> fat_view ram_sector (snd ?r) 99 = 100 \<and> fat_view ram_sector (snd ?r) 2 = 0"
    by code_simp
  then show ?thesis by (intro exI [of _ "snd ?r"]) (auto simp: prod_eq_iff)
qed

text \<open>C24: Releasing a chain always ends. On a device that does not fail and a table whose links point inside
  it, \<open>fat32_free_chain\<close> returns from every data cluster, on cyclic and cross-linked chains
  too; it has cleared the first entry and every entry is unchanged or cleared.\<close>

theorem free_chain_terminates:
  assumes "reliable_device ops sec live has" and "fat_state sec live has mem vol m" and "data_cluster vol c"
    and "\<And>x. in_fat vol x \<Longrightarrow> 2 \<le> m x \<Longrightarrow> m x < FAT32_CLUSTER_EOC \<Longrightarrow> in_fat vol (m x)"
  shows "\<exists>vol' m'. fat32_free_chain ops mem vol c = Some vol' \<and> fat_state sec live has mem vol' m' \<and>
    m' c = 0 \<and> (\<forall>x. m' x = 0 \<or> m' x = m x)"
  using reliable_device.free_ends [OF assms] by blast

theorem free_chain_terminates_witness:
  "\<exists>vol vol' m'. fat_state ram_sector (\<lambda>d. d \<noteq> None) ram_has (Some (replicate 512 7)) vol ((\<lambda>_. 0)(5 := 6, 6 := 5)) \<and>
     fat32_free_chain ram_blk_ops (Some (replicate 512 7)) vol 5 = Some vol' \<and>
     fat_state ram_sector (\<lambda>d. d \<noteq> None) ram_has (Some (replicate 512 7)) vol' m' \<and> m' 5 = 0"
proof -
  let ?mem = "Some (replicate 512 (7 :: u8))" and ?m = "(\<lambda>_. 0 :: u32)(5 := 6, 6 := 5) :: u32 \<Rightarrow> u32"
  have inf: "in_fat demo_vol 5" "in_fat demo_vol 6" by (simp_all add: in_fat_def demo_vol_def)
  obtain v1 where 1: "fat_state ram_sector (\<lambda>d. d \<noteq> None) ram_has ?mem v1 ((\<lambda>_. 0)(5 := 6 AND 0x0FFFFFFF))" "same_vol demo_vol v1"
    by (rule ram_reliable.put_rule [OF demo_state inf(1)])
  obtain v2 where 2: "fat_state ram_sector (\<lambda>d. d \<noteq> None) ram_has ?mem v2 ((\<lambda>_. 0)(5 := 6 AND 0x0FFFFFFF, 6 := 5 AND 0x0FFFFFFF))" "same_vol v1 v2"
    by (rule ram_reliable.put_rule [OF 1(1), of 6 5]) (use inf(2) same_volD(1) [OF 1(2)] in simp_all)
  have st: "fat_state ram_sector (\<lambda>d. d \<noteq> None) ram_has ?mem v2 ?m" using 2(1) by simp
  have inf2: "in_fat v2 x = in_fat demo_vol x" for x using same_volD(1) [OF 1(2)] same_volD(1) [OF 2(2)] by simp
  have "data_cluster v2 5" using inf by (simp add: data_cluster_def inf2 FAT32_CLUSTER_EOC_def)
  moreover have "in_fat v2 (?m x)" if "2 \<le> ?m x" for x using that inf by (auto simp: inf2 split: if_splits)
  ultimately show ?thesis using free_chain_terminates [OF ram_reliable.reliable_device_axioms st] st by blast
qed

end
