(* ===== verification/Fat32_Frame.thy ===== *)
theory Fat32_Frame
  imports Fat32_Alloc
begin

text \<open>
  The table operations leave the rest of the device alone. A device whose other sectors are
  held fixed keeps the contract of a reliable device as long as only sectors of the tables are
  written, so every rule on the table also says that data, boot sector and directory sectors
  are unchanged.
\<close>

definition fat_area :: "'d fat32_volume \<Rightarrow> u64 \<Rightarrow> bool" where
  "fat_area vol l \<longleftrightarrow> (\<exists>s. unat s < unat (vol_sectors_per_fat vol) \<and>
     (l = vol_fat1_lba vol + ucast (s :: u32) \<or> l = vol_fat2_lba vol + ucast s))"

definition framed :: "('d \<Rightarrow> u64 \<Rightarrow> bytes) \<Rightarrow> ('d \<Rightarrow> bool) \<Rightarrow> (u64 \<Rightarrow> bool) \<Rightarrow> (u64 \<Rightarrow> bytes) \<Rightarrow> 'd \<Rightarrow> bool" where
  "framed sec live area \<sigma> d \<longleftrightarrow> live d \<and> (\<forall>l. \<not> area l \<longrightarrow> sec d l = \<sigma> l)"

context reliable_device
begin

lemma framed_reliable: "reliable_device ops sec (framed sec live area \<sigma>) (\<lambda>l. has l \<and> area l)"
proof (unfold_locales)
  fix d l b rc d'
  assume d: "framed sec live area \<sigma> d" and l: "has l \<and> area l" and w: "blk_write ops d l 1 b = (rc, d')"
  have "sec d' k = \<sigma> k" if "\<not> area k" for k
  proof -
    have "k \<noteq> l" using that l by auto
    then show ?thesis using write_other [OF w] d that by (simp add: framed_def)
  qed
  then show "rc = 0 \<and> framed sec live area \<sigma> d'"
    using live_write [OF _ _ w] d l by (auto simp: framed_def)
qed (auto simp: framed_def live_read)

end

lemma fat_state_framed:
  assumes "\<And>l. fat_area vol l \<Longrightarrow> area l"
  shows "fat_state sec (framed sec live area \<sigma>) (\<lambda>l. has l \<and> area l) mem vol m \<longleftrightarrow>
    fat_state sec live has mem vol m \<and> (\<forall>l. \<not> area l \<longrightarrow> sec (vol_ctx vol) l = \<sigma> l)"
proof -
  have "has l \<and> area l \<longleftrightarrow> has l"
    if "l = vol_fat1_lba vol + ucast s \<or> l = vol_fat2_lba vol + ucast s" "unat s < unat (vol_sectors_per_fat vol)"
    for l and s :: u32
    using that assms [of l] by (auto simp: fat_area_def)
  then show ?thesis by (auto simp: fat_state_def served_def framed_def)
qed

lemma fat_area_geom: "geom vol' = geom vol \<Longrightarrow> fat_area vol' = fat_area vol"
  by (simp add: fun_eq_iff fat_area_def geom_def)

end
