(* ===== verification/Fat32_Extents.thy ===== *)
theory Fat32_Extents
  imports Fat32_Frame
begin

text \<open>
  Clusters as blocks of data: a device that reads and writes runs of sectors, and the state of a
  volume as two maps, the table entries and the contents of the clusters.
\<close>

section \<open>Runs of sectors\<close>

definition run_of :: "u64 \<Rightarrow> nat \<Rightarrow> u64 list" where
  "run_of l n = map (\<lambda>i. l + of_nat i) [0..<n]"

locale extent_device = reliable_device +
  assumes read_run: "live d \<Longrightarrow> 0 < unat n \<Longrightarrow> unat l + unat n \<le> 2 ^ 64 \<Longrightarrow> \<forall>k \<in> set (run_of l (unat n)). has k \<Longrightarrow>
      blk_read ops d l n = (0, concat (map (sec d) (run_of l (unat n))))"
    and write_run: "live d \<Longrightarrow> 0 < unat n \<Longrightarrow> unat l + unat n \<le> 2 ^ 64 \<Longrightarrow> \<forall>k \<in> set (run_of l (unat n)). has k \<Longrightarrow>
      length b = 512 * unat n \<Longrightarrow> \<exists>d'. blk_write ops d l n b = (0, d') \<and> live d' \<and>
        concat (map (sec d') (run_of l (unat n))) = b \<and> (\<forall>k. k \<notin> set (run_of l (unat n)) \<longrightarrow> sec d' k = sec d k)"

text \<open>The RAM disk is such a device.\<close>

lemma unat_run: "unat l + n \<le> 2 ^ 64 \<Longrightarrow> i < n \<Longrightarrow> unat (l + of_nat i :: u64) = unat l + i"
  by (simp add: unat_word_ariths unat_of_nat)

lemma unat_top: "unat (- 1 :: u64) = 18446744073709551615"
  by (simp add: unsigned_minus_1_eq_mask mask_eq_exp_minus_1)

lemma ram_run_bound:
  assumes "unat l + unat n \<le> 2 ^ 64" and "\<forall>k \<in> set (run_of l (unat n)). ram_has k" and "0 < unat (n :: u32)"
  shows "\<not> l + ucast n > RAM_DISK_SECTORS" and "i < unat n \<Longrightarrow> unat ((l + of_nat i) * 512) = unat (l * 512) + 512 * i"
proof -
  have u: "unat (l + of_nat i) = unat l + i" if "i < unat n" for i by (rule unat_run [OF assms(1) that])
  have all: "ram_has (l + of_nat i)" if "i < unat n" for i using assms(2) that by (auto simp: run_of_def)
  have last: "ram_has (l + of_nat (unat n - 1))" by (rule all) (use assms(3) in simp)
  have e: "l + of_nat (unat n - 1) + 1 = l + ucast n"
  proof -
    have "(of_nat (unat n - 1) :: u64) + 1 = of_nat (unat n)" using assms(3) by (metis Suc_pred' of_nat_Suc add.commute)
    then show ?thesis by (simp add: add.assoc)
  qed
  then show "\<not> l + ucast n > RAM_DISK_SECTORS" using last e by (metis ram_has_def not_less unsigned_1)
  show "unat ((l + of_nat i) * 512) = unat (l * 512) + 512 * i" if i: "i < unat n" for i
  proof -
    have r0: "unat l < 16384 \<or> l = - 1" using ram_range [OF all [OF assms(3)]] by simp
    show ?thesis
    proof (cases "l = - 1")
      case True
      then have "unat n \<le> 1" using assms(1) unat_top by simp
      then have "i = 0" using i by simp
      then show ?thesis by simp
    next
      case False
      then have l: "unat l < 16384" using r0 by simp
      have "unat (l + of_nat i) < 16384 \<or> l + of_nat i = - 1" by (rule ram_range [OF all [OF i]])
      moreover have "l + of_nat i \<noteq> - 1"
      proof
        assume "l + of_nat i = - 1"
        then have "unat l + i = 18446744073709551615" using u [OF i] unat_top by simp
        then show False using l i unat_less_u32 [of n] by linarith
      qed
      ultimately have "unat l + i < 16384" using u [OF i] by simp
      then show ?thesis using u [OF i] l by (simp add: unat_word_ariths)
    qed
  qed
qed

lemma concat_rows: "concat (map (\<lambda>i. map (\<lambda>j. f (c * i + j)) [0..<c]) [0..<n]) = map f [0..<n * c]"
proof (induction n)
  case (Suc n)
  have "[0..<Suc n * c] = [0..<n * c] @ map (\<lambda>j. c * n + j) [0..<c]"
    using upt_add_eq_append [of 0 "n * c" c] map_add_upt [of "n * c" c] by (simp add: add.commute mult.commute)
  then show ?case using Suc by (simp add: comp_def)
qed simp

lemma ram_run_sectors:
  assumes "unat l + unat n \<le> 2 ^ 64" and "\<forall>k \<in> set (run_of l (unat n)). ram_has k" and "0 < unat (n :: u32)"
  shows "concat (map (ram_sector (Some f)) (run_of l (unat n))) = map (\<lambda>i. f (unat (l * 512) + i)) [0..<unat n * 512]"
proof -
  have "map (ram_sector (Some f)) (run_of l (unat n)) = map (\<lambda>i. map (\<lambda>j. f (unat (l * 512) + (512 * i + j))) [0..<512]) [0..<unat n]"
    using assms(2) ram_run_bound(2) [OF assms] by (auto simp: run_of_def ram_sector_def add.assoc)
  then show ?thesis using concat_rows [of "\<lambda>i. f (unat (l * 512) + i)" 512 "unat n"] by simp
qed

lemma ram_write_sectors:
  assumes "unat l + unat n \<le> 2 ^ 64" and "\<forall>k \<in> set (run_of l (unat n)). ram_has k" and "0 < unat (n :: u32)"
    and "k \<notin> set (run_of l (unat n))"
  shows "ram_sector (Some (\<lambda>a. if unat (l * 512) \<le> a \<and> a < unat (l * 512) + unat n * 512 then g a else f a)) k = ram_sector (Some f) k"
proof -
  have "\<not> (unat (l * 512) \<le> unat (k * 512) + j \<and> unat (k * 512) + j < unat (l * 512) + unat n * 512)"
    if "ram_has k" "j < 512" for j
  proof
    assume a: "unat (l * 512) \<le> unat (k * 512) + j \<and> unat (k * 512) + j < unat (l * 512) + unat n * 512"
    define q where "q = unat (k * 512) + j - unat (l * 512)"
    have q: "unat (k * 512) + j = unat (l * 512) + q" "q < unat n * 512" using a by (auto simp: q_def)
    let ?i = "q div 512"
    have i: "?i < unat n" using q(2) by (simp add: less_mult_imp_div_less)
    have "unat ((l + of_nat ?i) * 512) + q mod 512 = unat (k * 512) + j"
      using ram_run_bound(2) [OF assms(1-3) i] q(1) mult_div_mod_eq [of 512 q] by simp
    moreover have "ram_has (l + of_nat ?i)" "k \<noteq> l + of_nat ?i" using assms(2,4) i by (auto simp: run_of_def)
    ultimately show False using ram_disjoint [of "l + of_nat ?i" k "q mod 512" j] that by simp
  qed
  then show ?thesis by (auto simp: ram_sector_def)
qed

interpretation ram_extent: extent_device ram_blk_ops ram_sector "\<lambda>d. d \<noteq> None" ram_has
proof
  fix d :: ram_disk and l b and n :: u32
  assume d: "d \<noteq> None" and n: "0 < unat n" and nw: "unat l + unat n \<le> 2 ^ 64" and h: "\<forall>k \<in> set (run_of l (unat n)). ram_has k"
  obtain f where f: "d = Some f" using d by auto
  note bound = ram_run_bound(1) [OF nw h n] and sectors = ram_run_sectors [OF nw h n]
  show "blk_read ram_blk_ops d l n = (0, concat (map (ram_sector d) (run_of l (unat n))))"
    using bound sectors by (simp add: ram_blk_ops_def ram_read_def f)
  show "\<exists>d'. blk_write ram_blk_ops d l n b = (0, d') \<and> d' \<noteq> None \<and>
      concat (map (ram_sector d') (run_of l (unat n))) = b \<and> (\<forall>k. k \<notin> set (run_of l (unat n)) \<longrightarrow> ram_sector d' k = ram_sector d k)"
    if b: "length b = 512 * unat n"
  proof -
    let ?g = "\<lambda>a. if unat (l * 512) \<le> a \<and> a < unat (l * 512) + unat n * 512 then b ! (a - unat (l * 512)) else f a"
    have "blk_write ram_blk_ops d l n b = (0, Some ?g)" using bound by (simp add: ram_blk_ops_def ram_write_def f)
    moreover have "map (\<lambda>i. ?g (unat (l * 512) + i)) [0..<unat n * 512] = b"
      using b by (intro nth_equalityI) simp_all
    ultimately show ?thesis using sectors [of ?g] ram_write_sectors [OF nw h n] f by auto
  qed
qed

section \<open>Clusters\<close>

definition cluster_run :: "'d fat32_volume \<Rightarrow> u32 \<Rightarrow> u64 list" where
  "cluster_run vol c = run_of (fat32_cluster_to_lba vol c) (unat (vol_sectors_per_cluster vol))"

definition cluster_data :: "('d \<Rightarrow> u64 \<Rightarrow> bytes) \<Rightarrow> 'd fat32_volume \<Rightarrow> u32 \<Rightarrow> bytes" where
  "cluster_data sec vol c = concat (map (sec (vol_ctx vol)) (cluster_run vol c))"

definition counted :: "'d fat32_volume \<Rightarrow> u32 \<Rightarrow> bool" where
  "counted vol c \<longleftrightarrow> 2 \<le> unat c \<and> unat c < unat (vol_total_clusters vol)"

text \<open>The layout of the data area: after the tables, all of it on the device, no address overflow.\<close>

definition layout_ok :: "(u64 \<Rightarrow> bool) \<Rightarrow> 'd fat32_volume \<Rightarrow> bool" where
  "layout_ok has vol \<longleftrightarrow> sized vol \<and> 0 < unat (vol_sectors_per_cluster vol) \<and>
     unat (vol_bytes_per_cluster vol) = 512 * unat (vol_sectors_per_cluster vol) \<and>
     unat (vol_fat1_lba vol) + unat (vol_sectors_per_fat vol) \<le> unat (vol_data_lba vol) \<and>
     unat (vol_fat2_lba vol) + unat (vol_sectors_per_fat vol) \<le> unat (vol_data_lba vol) \<and>
     unat (vol_data_lba vol) + unat (vol_total_clusters vol) * unat (vol_sectors_per_cluster vol) < 2 ^ 64 \<and>
     (\<forall>c. counted vol c \<longrightarrow> (\<forall>l \<in> set (cluster_run vol c). has l))"

text \<open>The fields that no operation on files changes.\<close>

definition shape :: "'d fat32_volume \<Rightarrow> u64 \<times> u64 \<times> u32 \<times> u32 \<times> u32 \<times> u64 \<times> u32 \<times> u32" where
  "shape vol = (vol_fat1_lba vol, vol_fat2_lba vol, vol_sectors_per_fat vol, vol_num_fats vol, vol_total_clusters vol,
     vol_data_lba vol, vol_sectors_per_cluster vol, vol_bytes_per_cluster vol)"

lemma shape_geom: "shape vol' = shape vol \<Longrightarrow> geom vol' = geom vol"
  by (simp add: shape_def geom_def)

lemma lba_nat:
  assumes "layout_ok has vol" and "counted vol c"
  shows "unat (fat32_cluster_to_lba vol c) = unat (vol_data_lba vol) + (unat c - 2) * unat (vol_sectors_per_cluster vol)"
    and "unat (fat32_cluster_to_lba vol c) + unat (vol_sectors_per_cluster vol) < 2 ^ 64"
proof -
  let ?S = "unat (vol_sectors_per_cluster vol)" and ?T = "unat (vol_total_clusters vol)" and ?k = "unat c - 2"
  have c: "2 \<le> unat c" "unat c < ?T" using assms(2) by (auto simp: counted_def)
  have b: "unat (vol_data_lba vol) + ?T * ?S < 2 ^ 64" using assms(1) by (simp add: layout_ok_def)
  have "(?k + 1) * ?S \<le> ?T * ?S" using c by (intro mult_le_mono1) simp
  then have k: "?k * ?S + ?S \<le> ?T * ?S" by simp
  have "unat (c - 2) = ?k" using c by (subst unat_sub) (simp_all add: word_le_nat_alt)
  moreover have "\<not> c < 2" using c by (simp add: word_less_nat_alt)
  ultimately show l: "unat (fat32_cluster_to_lba vol c) = unat (vol_data_lba vol) + ?k * ?S"
    using k b by (simp add: fat32_cluster_to_lba_def unat_word_ariths unat_ucast_u64)
  then show "unat (fat32_cluster_to_lba vol c) + ?S < 2 ^ 64" using k b by linarith
qed

lemma in_run:
  assumes "unat l + n \<le> 2 ^ 64"
  shows "k \<in> set (run_of l n) \<longleftrightarrow> unat l \<le> unat k \<and> unat k < unat l + n"
proof
  assume "unat l \<le> unat k \<and> unat k < unat l + n"
  then have "unat k - unat l < n" "unat k = unat l + (unat k - unat l)" by auto
  then have "k = l + of_nat (unat k - unat l)" using unat_run [OF assms] by (simp add: word_unat_eq_iff)
  then show "k \<in> set (run_of l n)" using \<open>unat k - unat l < n\<close> unfolding run_of_def set_map set_upt by auto
qed (use unat_run [OF assms] in \<open>auto simp: run_of_def\<close>)

lemma cluster_runs_disjoint:
  assumes "layout_ok has vol" and "counted vol c" and "counted vol c'" and "c \<noteq> c'" and "l \<in> set (cluster_run vol c)"
  shows "l \<notin> set (cluster_run vol c')"
proof -
  let ?S = "unat (vol_sectors_per_cluster vol)" and ?b = "unat (vol_data_lba vol)"
  note L = lba_nat [OF assms(1,2)] and L' = lba_nat [OF assms(1,3)]
  have l: "?b + (unat c - 2) * ?S \<le> unat l" "unat l < ?b + (unat c - 2) * ?S + ?S"
    using assms(5) in_run [OF less_imp_le [OF L(2)]] L(1) by (auto simp: cluster_run_def)
  have "unat c - 2 \<noteq> unat c' - 2" using assms(2-4) by (auto simp: counted_def word_unat_eq_iff)
  then have "Suc (unat c - 2) \<le> unat c' - 2 \<or> Suc (unat c' - 2) \<le> unat c - 2" by linarith
  then have "Suc (unat c - 2) * ?S \<le> (unat c' - 2) * ?S \<or> Suc (unat c' - 2) * ?S \<le> (unat c - 2) * ?S"
    using mult_le_mono1 by blast
  then have "\<not> (?b + (unat c' - 2) * ?S \<le> unat l \<and> unat l < ?b + (unat c' - 2) * ?S + ?S)" using l by auto
  then show ?thesis using in_run [OF less_imp_le [OF L'(2)]] L'(1) by (auto simp: cluster_run_def)
qed

lemma fat_area_below:
  assumes "layout_ok has vol" and "fat_ok sec vol" and "fat_area vol l"
  shows "unat l < unat (vol_data_lba vol)"
proof -
  obtain s :: u32 where s: "unat s < unat (vol_sectors_per_fat vol)" "l = vol_fat1_lba vol + ucast s \<or> l = vol_fat2_lba vol + ucast s"
    using assms(3) by (auto simp: fat_area_def)
  have b: "unat (vol_fat1_lba vol) + unat (vol_sectors_per_fat vol) \<le> unat (vol_data_lba vol)"
    "unat (vol_fat2_lba vol) + unat (vol_sectors_per_fat vol) \<le> unat (vol_data_lba vol)"
    "unat (vol_data_lba vol) < 2 ^ 64" using assms(1) by (auto simp: layout_ok_def)
  have "unat (vol_fat1_lba vol) + unat s < 2 ^ 64" "unat (vol_fat2_lba vol) + unat s < 2 ^ 64"
    using s(1) b by linarith+
  then have "unat (vol_fat1_lba vol + ucast s) = unat (vol_fat1_lba vol) + unat s"
    "unat (vol_fat2_lba vol + ucast s) = unat (vol_fat2_lba vol) + unat s"
    by (simp_all add: unat_word_ariths unat_ucast_u64)
  then show ?thesis using s b by auto
qed

lemma data_not_fat:
  assumes "layout_ok has vol" and "fat_ok sec vol" and "counted vol c" and "l \<in> set (cluster_run vol c)"
  shows "\<not> fat_area vol l"
proof -
  note L = lba_nat [OF assms(1,3)]
  have "unat (vol_data_lba vol) \<le> unat l" using assms(4) in_run [OF less_imp_le [OF L(2)]] L(1) by (auto simp: cluster_run_def)
  then show ?thesis using fat_area_below [OF assms(1,2), of l] by auto
qed

text \<open>The table operations keep the shape of the volume.\<close>

lemma flush_shape: "fat32_flush ops vol = (rc, vol') \<Longrightarrow> shape vol' = shape vol"
  by (auto simp: fat32_flush_def shape_def split: option.splits if_splits prod.splits)

lemma load_shape: "fat_load ops s b vol = (rc, vol') \<Longrightarrow> shape vol' = shape vol"
  by (auto simp: fat_load_def shape_def Let_def split: if_splits prod.splits dest!: flush_shape [unfolded shape_def])

lemma read_shape: "fat_read_entry ops mem vol c = (rc, v, vol') \<Longrightarrow> shape vol' = shape vol"
  by (auto simp: fat_read_entry_def with_cache_def shape_def Let_def split: if_splits prod.splits option.splits
      dest!: load_shape [unfolded shape_def])

lemma write_shape: "fat_write_entry ops mem vol c v = (rc, vol') \<Longrightarrow> shape vol' = shape vol"
  by (auto simp: fat_write_entry_def with_cache_def shape_def Let_def split: if_splits prod.splits option.splits
      dest!: load_shape [unfolded shape_def])

lemma next_shape: "fat32_next_cluster ops mem vol c = (n, vol') \<Longrightarrow> shape vol' = shape vol"
  by (auto simp: fat32_next_cluster_def split: if_splits prod.splits dest: read_shape)

lemma scan_shape: "alloc_scan ops mem count n c f k vol = (r, vol') \<Longrightarrow> shape vol' = shape vol"
proof (induction n arbitrary: c f k vol)
  case (Suc n)
  obtain rc e vol1 where rd: "fat_read_entry ops mem vol (if c \<ge> vol_total_clusters vol then 2 else c) = (rc, e, vol1)"
    by (metis prod_cases3)
  show ?case using Suc.prems Suc.IH rd read_shape [OF rd] by (auto simp: Let_def split: if_splits)
qed simp

lemma link_shape: "link_chain ops mem f count is vol = (r, vol') \<Longrightarrow> shape vol' = shape vol"
proof (induction "is" arbitrary: vol)
  case (Cons i js)
  obtain rc vol1 where w: "fat_write_entry ops mem vol (f + of_nat i)
      (if of_nat i < count - 1 then f + of_nat i + 1 else FAT32_CLUSTER_EOC) = (rc, vol1)" by (rule prod.exhaust)
  show ?case using Cons w write_shape [OF w] by (auto simp: Let_def split: if_splits)
qed simp

lemma alloc_shape: "fat32_alloc_clusters ops mem vol count hint = (f, vol') \<Longrightarrow> shape vol' = shape vol"
  by (auto simp: fat32_alloc_clusters_def alloc_hint_def Let_def split: if_splits prod.splits option.splits
      dest!: scan_shape link_shape) (simp_all add: shape_def)

section \<open>The state as two maps\<close>

definition file_state ::
  "('d \<Rightarrow> u64 \<Rightarrow> bytes) \<Rightarrow> ('d \<Rightarrow> bool) \<Rightarrow> (u64 \<Rightarrow> bool) \<Rightarrow> bytes option \<Rightarrow> 'd fat32_volume
   \<Rightarrow> (u32 \<Rightarrow> u32) \<Rightarrow> (u32 \<Rightarrow> bytes) \<Rightarrow> bool" where
  "file_state sec live has mem vol m D \<longleftrightarrow> fat_state sec live has mem vol m \<and> layout_ok has vol \<and>
     (\<forall>c. counted vol c \<longrightarrow> cluster_data sec vol c = D c)"

lemma shape_fields:
  assumes "shape vol' = shape vol"
  shows "counted vol' = counted vol" "cluster_run vol' = cluster_run vol" "layout_ok has vol' = layout_ok has vol"
    "fat_area vol' = fat_area vol" "in_fat vol' = in_fat vol" "vol_bytes_per_cluster vol' = vol_bytes_per_cluster vol"
    "vol_sectors_per_cluster vol' = vol_sectors_per_cluster vol" "fat32_cluster_to_lba vol' = fat32_cluster_to_lba vol"
    "sized vol' = sized vol" "vol_total_clusters vol' = vol_total_clusters vol"
  using assms by (simp_all add: shape_def fun_eq_iff counted_def cluster_run_def fat32_cluster_to_lba_def layout_ok_def
      sized_def fat_area_def in_fat_def)

lemma counted_in_fat: "file_state sec live has mem vol m D \<Longrightarrow> counted vol c \<Longrightarrow> in_fat vol c"
  by (simp add: file_state_def layout_ok_def counted_def sized_in_fat)

text \<open>Table operations, run on the device with all other sectors fixed, keep the contents.\<close>

abbreviation others_fixed :: "('d \<Rightarrow> u64 \<Rightarrow> bytes) \<Rightarrow> ('d \<Rightarrow> bool) \<Rightarrow> 'd fat32_volume \<Rightarrow> 'd \<Rightarrow> bool" where
  "others_fixed sec live vol \<equiv> framed sec live (fat_area vol) (sec (vol_ctx vol))"

lemma file_state_framed:
  "file_state sec live has mem vol m D \<Longrightarrow>
     fat_state sec (others_fixed sec live vol) (\<lambda>l. has l \<and> fat_area vol l) mem vol m"
  using fat_state_framed [of vol "fat_area vol"] by (auto simp: file_state_def)

lemma framed_file_state:
  assumes f: "file_state sec live has mem vol m D" and s: "shape vol' = shape vol"
    and st: "fat_state sec (others_fixed sec live vol) (\<lambda>l. has l \<and> fat_area vol l) mem vol' m'"
  shows "file_state sec live has mem vol' m' D"
proof -
  note S = shape_fields [OF s]
  have st': "fat_state sec live has mem vol' m'" "\<forall>l. \<not> fat_area vol l \<longrightarrow> sec (vol_ctx vol') l = sec (vol_ctx vol) l"
    using st fat_state_framed [of vol' "fat_area vol"] by (auto simp: S)
  have "cluster_data sec vol' c = cluster_data sec vol c" if "counted vol c" for c
    using st'(2) data_not_fat [OF _ _ that] f
    by (auto simp: cluster_data_def S file_state_def fat_state_def intro!: arg_cong [where f = concat])
  then show ?thesis using f st'(1) by (auto simp: file_state_def S)
qed

lemma fat_state_ctx:
  assumes st: "fat_state sec live has mem vol m" and lv: "live d" and eq: "\<And>l. fat_area vol l \<Longrightarrow> sec d l = sec (vol_ctx vol) l"
  shows "fat_state sec live has mem (vol\<lparr>vol_ctx := d\<rparr>) m"
proof -
  let ?v = "vol\<lparr>vol_ctx := d\<rparr>"
  have e: "sec d (vol_fat1_lba vol + ucast s) = sec (vol_ctx vol) (vol_fat1_lba vol + ucast s)"
    "sec d (vol_fat2_lba vol + ucast s) = sec (vol_ctx vol) (vol_fat2_lba vol + ucast s)"
    if "unat s < unat (vol_sectors_per_fat vol)" for s :: u32
    using eq that by (auto simp: fat_area_def)
  have ok: "fat_ok sec vol" using st by (simp add: fat_state_def)
  then have "fat_ok sec ?v" using e by (cases "vol_fat_cache vol") (auto simp: fat_ok_def)
  moreover have "served live has mem ?v" using st lv by (simp add: fat_state_def served_def)
  moreover have "fat_view sec ?v c = m c" if "in_fat vol c" for c
  proof -
    have "cached_word sec ?v (c div 128) = cached_word sec vol (c div 128)"
      using e(1) [OF in_fat_sector [OF that]] by (simp add: cached_word_def)
    then show ?thesis using st that by (simp add: fat_state_def fat_view_def fat_word_def)
  qed
  ultimately show ?thesis by (simp add: fat_state_def in_fat_def)
qed

context extent_device
begin

lemma next_rule:
  assumes f: "file_state sec live has mem vol m D" and c: "counted vol c"
  obtains vol' where "fat32_next_cluster ops mem vol c = (if m c \<ge> FAT32_CLUSTER_EOC then 0 else m c, vol')"
    and "file_state sec live has mem vol' m D" and "shape vol' = shape vol"
proof -
  let ?live = "others_fixed sec live vol" and ?has = "\<lambda>l. has l \<and> fat_area vol l"
  obtain vol' where r: "fat_read_entry ops mem vol c = (0, m c, vol')" "fat_state sec ?live ?has mem vol' m"
    using reliable_device.get_rule [OF framed_reliable file_state_framed [OF f] counted_in_fat [OF f c]] by blast
  have s: "shape vol' = shape vol" by (rule read_shape [OF r(1)])
  have "\<not> c < 2" using c by (simp add: counted_def word_less_nat_alt)
  then have "fat32_next_cluster ops mem vol c = (if m c \<ge> FAT32_CLUSTER_EOC then 0 else m c, vol')"
    using r(1) by (simp add: fat32_next_cluster_def)
  then show thesis using that framed_file_state [OF f s r(2)] s by blast
qed

lemma entry_rule:
  assumes f: "file_state sec live has mem vol m D" and c: "counted vol c"
  obtains vol' where "fat_write_entry ops mem vol c v = (0, vol')"
    and "file_state sec live has mem vol' (m(c := v AND 0x0FFFFFFF)) D" and "shape vol' = shape vol"
proof -
  let ?live = "others_fixed sec live vol" and ?has = "\<lambda>l. has l \<and> fat_area vol l"
  obtain vol' where r: "fat_write_entry ops mem vol c v = (0, vol')" "fat_state sec ?live ?has mem vol' (m(c := v AND 0x0FFFFFFF))"
    using reliable_device.put_rule [OF framed_reliable file_state_framed [OF f] counted_in_fat [OF f c]] by blast
  have s: "shape vol' = shape vol" by (rule write_shape [OF r(1)])
  then show thesis using that r(1) framed_file_state [OF f s r(2)] by blast
qed

lemma alloc_cluster_rule:
  assumes f: "file_state sec live has mem vol m D" and free: "\<exists>x. counted vol x \<and> m x = 0"
  obtains c vol' where "fat32_alloc_clusters ops mem vol 1 0 = (c, vol')" and "counted vol c" and "m c = 0"
    and "file_state sec live has mem vol' (m(c := FAT32_CLUSTER_EOC)) D" and "shape vol' = shape vol"
proof -
  let ?live = "others_fixed sec live vol" and ?has = "\<lambda>l. has l \<and> fat_area vol l"
  obtain c vol' where a: "fat32_alloc_clusters ops mem vol 1 0 = (c, vol')" by (rule prod.exhaust)
  have sz: "sized vol" using f by (simp add: file_state_def layout_ok_def)
  have r: "2 \<le> unat c" "unat c < unat (vol_total_clusters vol)" "m c = 0"
    "fat_state sec ?live ?has mem vol' (m(c := FAT32_CLUSTER_EOC))"
    using reliable_device.alloc_one_rule [OF framed_reliable file_state_framed [OF f] sz a] free
    by (auto simp: counted_def split: if_splits)
  have s: "shape vol' = shape vol" by (rule alloc_shape [OF a])
  show thesis using that [OF a] r framed_file_state [OF f s r(4)] s by (simp add: counted_def)
qed

lemma read_cluster:
  assumes "file_state sec live has mem vol m D" and "counted vol c"
  shows "blk_read ops (vol_ctx vol) (fat32_cluster_to_lba vol c) (vol_sectors_per_cluster vol) = (0, D c)"
proof -
  have f: "live (vol_ctx vol)" "layout_ok has vol" "cluster_data sec vol c = D c"
    using assms by (auto simp: file_state_def fat_state_def served_def)
  show ?thesis using read_run [of "vol_ctx vol" "vol_sectors_per_cluster vol" "fat32_cluster_to_lba vol c"] f assms(2)
      lba_nat(2) [OF f(2) assms(2)] by (simp add: cluster_data_def cluster_run_def layout_ok_def)
qed

lemma write_cluster:
  assumes f: "file_state sec live has mem vol m D" and c: "counted vol c" and b: "length b = unat (vol_bytes_per_cluster vol)"
  obtains d where "blk_write ops (vol_ctx vol) (fat32_cluster_to_lba vol c) (vol_sectors_per_cluster vol) b = (0, d)"
    and "file_state sec live has mem (vol\<lparr>vol_ctx := d\<rparr>) m (D(c := b))"
proof -
  have st: "live (vol_ctx vol)" "layout_ok has vol" "fat_ok sec vol" using f by (auto simp: file_state_def fat_state_def served_def)
  obtain d where d: "blk_write ops (vol_ctx vol) (fat32_cluster_to_lba vol c) (vol_sectors_per_cluster vol) b = (0, d)"
    "live d" "concat (map (sec d) (cluster_run vol c)) = b" "\<forall>k. k \<notin> set (cluster_run vol c) \<longrightarrow> sec d k = sec (vol_ctx vol) k"
    using write_run [of "vol_ctx vol" "vol_sectors_per_cluster vol" "fat32_cluster_to_lba vol c" b] st c b
      lba_nat(2) [OF st(2) c] by (auto simp: cluster_run_def layout_ok_def)
  let ?v = "vol\<lparr>vol_ctx := d\<rparr>"
  have fat: "sec d l = sec (vol_ctx vol) l" if "fat_area vol l" for l
    using d(4) data_not_fat [OF st(2,3) c] that by auto
  have "shape ?v = shape vol" by (simp add: shape_def)
  note S = shape_fields [OF this]
  have "cluster_data sec ?v x = (D(c := b)) x" if x: "counted vol x" for x
  proof (cases "x = c")
    case True
    then show ?thesis using d(3) by (simp add: cluster_data_def S)
  next
    case False
    then have "map (sec d) (cluster_run vol x) = map (sec (vol_ctx vol)) (cluster_run vol x)"
      using d(4) cluster_runs_disjoint [OF st(2) x c False] by simp
    then have "cluster_data sec ?v x = cluster_data sec vol x" by (simp add: cluster_data_def S del: map_eq_conv)
    then show ?thesis using f x False by (simp add: file_state_def)
  qed
  then have "file_state sec live has mem ?v m (D(c := b))"
    using f fat_state_ctx [of sec live has mem vol m d] fat d(2) by (simp add: file_state_def S)
  then show thesis using that d(1) by blast
qed

end

end
