(* ===== verification/Fat32_Format.thy ===== *)
theory Fat32_Format
  imports Fat32 Packed_Fields
begin

text \<open>
  The life of a FAT32 volume (\<open>kernel/fat32_format.c\<close>): formatting, mounting, unmounting and the
  boot volume. The boot sector is the packed structure of \<open>kernel/fat32.h\<close> as its 512
  bytes; a field is read and written at its offset. \<open>time\<close> is a parameter.
\<close>

section \<open>The boot sector\<close>

definition bs_bytes_per_sector :: "bytes \<Rightarrow> u16" where "bs_bytes_per_sector b = half_at b 11"
definition bs_sectors_per_cluster :: "bytes \<Rightarrow> u8" where "bs_sectors_per_cluster b = b ! 13"
definition bs_reserved_sectors :: "bytes \<Rightarrow> u16" where "bs_reserved_sectors b = half_at b 14"
definition bs_num_fats :: "bytes \<Rightarrow> u8" where "bs_num_fats b = b ! 16"
definition bs_sectors_per_fat :: "bytes \<Rightarrow> u32" where "bs_sectors_per_fat b = dword_at b 36"
definition bs_fat_flags :: "bytes \<Rightarrow> u16" where "bs_fat_flags b = half_at b 40"
definition bs_root_cluster :: "bytes \<Rightarrow> u32" where "bs_root_cluster b = dword_at b 44"
definition bs_fs_info_sector :: "bytes \<Rightarrow> u16" where "bs_fs_info_sector b = half_at b 48"
definition bs_signature :: "bytes \<Rightarrow> u16" where "bs_signature b = half_at b 510"

definition set_fat_flags :: "u16 \<Rightarrow> bytes \<Rightarrow> bytes" where
  "set_fat_flags w b = put_bytes 40 (le16 w) b"

definition boot_valid :: "bytes \<Rightarrow> bool" where
  "boot_valid b \<longleftrightarrow> bs_signature b = 0xAA55 \<and> bs_bytes_per_sector b = 512 \<and> bs_sectors_per_cluster b \<noteq> 0 \<and>
     bs_sectors_per_fat b \<noteq> 0 \<and> \<not> bs_root_cluster b < 2"

section \<open>Mounting\<close>

text \<open>The volume after \<open>memset\<close> and \<open>fat_cache_invalidate\<close>.\<close>

definition fresh_volume :: "'d \<Rightarrow> 'd fat32_volume" where
  "fresh_volume d = fat_cache_invalidate
     \<lparr>vol_ctx = d, vol_mounted = False, vol_dirty = False, vol_sectors_per_cluster = 0, vol_bytes_per_cluster = 0,
      vol_reserved_sectors = 0, vol_num_fats = 0, vol_sectors_per_fat = 0, vol_root_cluster = 0, vol_fat1_lba = 0,
      vol_fat2_lba = 0, vol_data_lba = 0, vol_total_clusters = 0, vol_free_clusters = 0, vol_next_free = 0,
      vol_fs_info_lba = 0, vol_cached_fat_sector = 0, vol_cached_dirty = False, vol_fat_cache = None\<rparr>"

definition populate :: "u64 \<Rightarrow> bytes \<Rightarrow> 'd fat32_volume \<Rightarrow> 'd fat32_volume" where
  "populate n_sectors bs vol =
     (let fat1 = ucast (bs_reserved_sectors bs); spf = ucast (bs_sectors_per_fat bs) :: u64;
          fat2 = fat1 + spf; data = fat2 + spf
      in vol\<lparr>vol_mounted := True,
           vol_sectors_per_cluster := ucast (bs_sectors_per_cluster bs),
           vol_bytes_per_cluster := ucast (bs_sectors_per_cluster bs) * 512,
           vol_reserved_sectors := ucast (bs_reserved_sectors bs),
           vol_num_fats := ucast (bs_num_fats bs),
           vol_sectors_per_fat := bs_sectors_per_fat bs,
           vol_root_cluster := bs_root_cluster bs,
           vol_fat1_lba := fat1, vol_fat2_lba := fat2, vol_data_lba := data,
           vol_total_clusters := ucast ((n_sectors - data) div ucast (bs_sectors_per_cluster bs)) + 2,
           vol_fs_info_lba := ucast (bs_fs_info_sector bs)\<rparr>)"

text \<open>The dirty-volume flag: reported when it was set, set when it was not. The result of
  the write is ignored.\<close>

definition mark_in_use :: "'d fat32_blk_ops \<Rightarrow> bytes \<Rightarrow> 'd fat32_volume \<Rightarrow> 'd fat32_volume" where
  "mark_in_use ops bs vol =
     (if bs_fat_flags bs AND 0x80 \<noteq> 0 then vol\<lparr>vol_dirty := True\<rparr>
      else vol\<lparr>vol_dirty := False,
             vol_ctx := snd (blk_write ops (vol_ctx vol) 0 1 (set_fat_flags (bs_fat_flags bs OR 0x80) bs))\<rparr>)"

definition read_fsinfo :: "'d fat32_blk_ops \<Rightarrow> bytes \<Rightarrow> 'd fat32_volume \<Rightarrow> 'd fat32_volume" where
  "read_fsinfo ops bs vol =
     (if bs_fs_info_sector bs > 0 then
        (case blk_read ops (vol_ctx vol) (ucast (bs_fs_info_sector bs)) 1 of (rc, b) \<Rightarrow>
           if rc = 0 \<and> dword_at b 0 = 0x41615252 \<and> dword_at b 484 = 0x61417272 \<and> dword_at b 508 = 0xAA550000
           then vol\<lparr>vol_free_clusters := dword_at b 488,
                    vol_next_free := (if dword_at b 492 < 2 then 2 else dword_at b 492)\<rparr>
           else vol)
      else vol)"

definition fat32_mount :: "'d fat32_blk_ops \<Rightarrow> 'd \<Rightarrow> int \<times> 'd fat32_volume" where
  "fat32_mount ops d =
     (case blk_read ops d 0 1 of (rc, bs) \<Rightarrow>
        if rc \<noteq> 0 \<or> \<not> boot_valid bs then (-1, fresh_volume d)
        else (0, read_fsinfo ops bs (mark_in_use ops bs (populate (blk_n_sectors ops) bs (fresh_volume d)))))"

definition fat32_unmount :: "'d fat32_blk_ops \<Rightarrow> 'd fat32_volume \<Rightarrow> 'd fat32_volume" where
  "fat32_unmount ops vol =
     (let vol1 = (if vol_fat_cache vol \<noteq> None
                  then (if vol_cached_dirty vol then snd (fat32_flush ops vol) else vol)
                         \<lparr>vol_fat_cache := None, vol_cached_dirty := False\<rparr>
                  else vol);
          vol2 = (if vol_mounted vol1 then
                    (case blk_read ops (vol_ctx vol1) 0 1 of (rc, bs) \<Rightarrow>
                       if rc = 0
                       then vol1\<lparr>vol_ctx := snd (blk_write ops (vol_ctx vol1) 0 1
                                   (set_fat_flags (bs_fat_flags bs AND 0xFF7F) bs))\<rparr>
                       else vol1)
                  else vol1)
      in vol2\<lparr>vol_mounted := False, vol_dirty := False\<rparr>)"

section \<open>Formatting\<close>

definition cluster_sectors :: "u64 \<Rightarrow> u8" where
  "cluster_sectors sector_count =
     (let total_kb = sector_count div 2 in
      if total_kb \<le> 244000 then 1
      else if total_kb \<le> 976000 then 2
      else if total_kb \<le> 3056000 then 4
      else if total_kb \<le> 6112000 then 8
      else if total_kb \<le> 16777000 then 16
      else if total_kb \<le> 33554000 then 32
      else 64)"

definition format_clusters :: "u64 \<Rightarrow> u32" where
  "format_clusters sector_count = ucast ((sector_count - 32) div ucast (cluster_sectors sector_count))"

definition format_spf :: "u64 \<Rightarrow> u32" where
  "format_spf sector_count = (format_clusters sector_count * 4 + 512 - 1) div 512 + 1"

definition label_bytes :: "bytes option \<Rightarrow> bytes" where
  "label_bytes vol_name =
     (case vol_name of
        Some nm \<Rightarrow> put_bytes 0 (take 11 nm) (replicate 11 0x20)
      | None \<Rightarrow> [0x4E, 0x4F, 0x20, 0x4E, 0x41, 0x4D, 0x45, 0x20, 0x20, 0x20, 0x20])"

definition format_boot :: "u64 \<Rightarrow> bytes option \<Rightarrow> u32 \<Rightarrow> bytes" where
  "format_boot sector_count vol_name now =
     fold (\<lambda>(off, p) b. put_bytes off p b)
       [(0, [0xEB, 0x58, 0x90]),
        (3, [0x4D, 0x53, 0x57, 0x49, 0x4E, 0x34, 0x2E, 0x31]),
        (11, le16 512),
        (13, [cluster_sectors sector_count]),
        (14, le16 32),
        (16, [2]),
        (17, le16 0),
        (19, le16 0),
        (21, [0xF8]),
        (22, le16 0),
        (32, le32 (ucast sector_count)),
        (36, le32 (format_spf sector_count)),
        (40, le16 0),
        (42, le16 0),
        (44, le32 2),
        (48, le16 1),
        (50, le16 6),
        (64, [0x80]),
        (66, [0x29]),
        (67, le32 now),
        (71, label_bytes vol_name),
        (82, [0x46, 0x41, 0x54, 0x33, 0x32, 0x20, 0x20, 0x20]),
        (510, le16 0xAA55)]
       (replicate 512 0)"

definition zero_sector :: bytes where "zero_sector = replicate 512 0"

definition fat_init :: bytes where
  "fat_init = set_word 2 0x0FFFFFFF (set_word 1 0x0FFFFFFF (set_word 0 0x0FFFFFF8 (replicate 512 0)))"

definition fsinfo_sector :: "u64 \<Rightarrow> bytes" where
  "fsinfo_sector sector_count =
     put_bytes 508 (le32 0xAA550000) (put_bytes 492 (le32 3)
       (put_bytes 488 (le32 (format_clusters sector_count - 1))
         (put_bytes 484 (le32 0x61417272) (put_bytes 0 (le32 0x41615252) (replicate 512 0)))))"

text \<open>Writes of one sector each, up to the first that fails.\<close>

fun write_each :: "'d fat32_blk_ops \<Rightarrow> (u64 \<times> bytes) list \<Rightarrow> 'd \<Rightarrow> int \<times> 'd" where
  "write_each ops [] d = (0, d)"
| "write_each ops ((l, b) # ws) d =
     (case blk_write ops d l 1 b of (rc, d1) \<Rightarrow> if rc \<noteq> 0 then (-1, d1) else write_each ops ws d1)"

text \<open>The sectors that formatting writes, in order.\<close>

definition format_writes :: "u64 \<Rightarrow> bytes \<Rightarrow> (u64 \<times> bytes) list" where
  "format_writes sector_count boot =
     (let fat_start = 32 :: u64; spf = ucast (format_spf sector_count) :: u64; fat_end = fat_start + 2 * spf in
      [(0, boot), (6, boot)]
      @ map (\<lambda>i. (of_nat i, zero_sector)) [unat fat_start..<unat fat_end]
      @ [(fat_start, fat_init), (fat_start + spf, fat_init), (1, fsinfo_sector sector_count)]
      @ map (\<lambda>i. (fat_end + of_nat i, zero_sector)) [0..<unat (cluster_sectors sector_count)])"

definition fat32_format :: "'d fat32_blk_ops \<Rightarrow> u32 \<Rightarrow> u64 \<Rightarrow> bytes option \<Rightarrow> 'd \<Rightarrow> int \<times> 'd" where
  "fat32_format ops now sector_count vol_name d =
     write_each ops (format_writes sector_count (format_boot sector_count vol_name now)) d"

text \<open>\<open>fat32_boot_attach\<close> on the module's volume. The label is \<open>WUBUOS\<close>.\<close>

definition fat32_boot_attach ::
  "'d fat32_blk_ops \<Rightarrow> u32 \<Rightarrow> 'd fat32_volume \<Rightarrow> 'd \<Rightarrow> int \<times> 'd fat32_volume" where
  "fat32_boot_attach ops now vol d =
     (if vol_mounted vol then (0, vol)
      else (case blk_read ops d 0 1 of (rc, bs) \<Rightarrow>
        if rc = 0 \<and> bs_bytes_per_sector bs = 512 \<and> bs_sectors_per_fat bs \<noteq> 0 then fat32_mount ops d
        else (case fat32_format ops now (blk_n_sectors ops) (Some [0x57, 0x55, 0x42, 0x55, 0x4F, 0x53]) d of
           (frc, d1) \<Rightarrow> if frc \<noteq> 0 then (-1, vol\<lparr>vol_ctx := d1\<rparr>) else fat32_mount ops d1)))"

definition fat32_validate :: "'d fat32_blk_ops \<Rightarrow> bool \<Rightarrow> 'd fat32_volume \<Rightarrow> int" where
  "fat32_validate ops got_mem vol =
     (if \<not> vol_mounted vol then -1
      else if \<not> got_mem then -1
      else if fst (blk_read ops (vol_ctx vol) (fat32_cluster_to_lba vol (vol_root_cluster vol))
                (vol_sectors_per_cluster vol)) = 0 then 0 else -1)"

end
