(* ===== verification/Fat32_Format_Facts.thy ===== *)
theory Fat32_Format_Facts
  imports Fat32_Format Fat32_Frame
begin

text \<open>
  A formatted device mounts as a volume whose table is a map with only the root directory in
  use: the state that the theorems on the table and on allocation start from. The dirty-volume
  flag tells a volume that was unmounted from one that was not.
\<close>

section \<open>Fields of a sector\<close>

lemma length_label [simp]: "length (label_bytes nm) = 11"
  by (cases nm) (simp_all add: label_bytes_def length_put_bytes)

lemma length_format_boot: "length (format_boot n nm t) = 512"
  unfolding format_boot_def by (subst length_puts) simp_all

lemma format_boot_fields:
  "bs_bytes_per_sector (format_boot n nm t) = 512" "bs_sectors_per_cluster (format_boot n nm t) = cluster_sectors n"
  "bs_reserved_sectors (format_boot n nm t) = 32" "bs_num_fats (format_boot n nm t) = 2"
  "bs_sectors_per_fat (format_boot n nm t) = format_spf n" "bs_fat_flags (format_boot n nm t) = 0"
  "bs_root_cluster (format_boot n nm t) = 2" "bs_fs_info_sector (format_boot n nm t) = 1"
  "bs_signature (format_boot n nm t) = 0xAA55"
  unfolding format_boot_def bs_bytes_per_sector_def bs_sectors_per_cluster_def bs_reserved_sectors_def bs_num_fats_def
    bs_sectors_per_fat_def bs_fat_flags_def bs_root_cluster_def bs_fs_info_sector_def bs_signature_def
  subgoal by (rule fields_puts(1) [where k = 2]) simp_all
  subgoal by (rule fields_puts(3) [where k = 3]) simp_all
  subgoal by (rule fields_puts(1) [where k = 4]) simp_all
  subgoal by (rule fields_puts(3) [where k = 5]) simp_all
  subgoal by (rule fields_puts(2) [where k = 11]) simp_all
  subgoal by (rule fields_puts(1) [where k = 12]) simp_all
  subgoal by (rule fields_puts(2) [where k = 14]) simp_all
  subgoal by (rule fields_puts(1) [where k = 15]) simp_all
  subgoal by (rule fields_puts(1) [where k = 22]) simp_all
  done

lemma fsinfo_fields:
  "dword_at (fsinfo_sector n) 0 = 0x41615252" "dword_at (fsinfo_sector n) 484 = 0x61417272"
  "dword_at (fsinfo_sector n) 508 = 0xAA550000" "dword_at (fsinfo_sector n) 488 = format_clusters n - 1"
  "dword_at (fsinfo_sector n) 492 = 3" "length (fsinfo_sector n) = 512"
  by (simp_all add: fsinfo_sector_def field_simps_put)

lemma set_flags_fields:
  assumes "length b = 512"
  shows "bs_bytes_per_sector (set_fat_flags w b) = bs_bytes_per_sector b"
    "bs_sectors_per_cluster (set_fat_flags w b) = bs_sectors_per_cluster b"
    "bs_reserved_sectors (set_fat_flags w b) = bs_reserved_sectors b" "bs_num_fats (set_fat_flags w b) = bs_num_fats b"
    "bs_sectors_per_fat (set_fat_flags w b) = bs_sectors_per_fat b" "bs_fat_flags (set_fat_flags w b) = w"
    "bs_root_cluster (set_fat_flags w b) = bs_root_cluster b" "bs_fs_info_sector (set_fat_flags w b) = bs_fs_info_sector b"
    "bs_signature (set_fat_flags w b) = bs_signature b" "length (set_fat_flags w b) = 512"
  using assms unfolding set_fat_flags_def bs_bytes_per_sector_def bs_sectors_per_cluster_def bs_reserved_sectors_def
    bs_num_fats_def bs_sectors_per_fat_def bs_fat_flags_def bs_root_cluster_def bs_fs_info_sector_def bs_signature_def
  by (simp_all add: field_simps_put)

section \<open>The sizes that formatting computes\<close>

lemma cluster_sectors_cases:
  fixes n :: u64
  assumes "unat n < 2 ^ 32"
  shows "unat (cluster_sectors n) \<in> {1, 2, 4, 8, 16, 32, 64}" and "unat n \<le> 2 ^ 26 * unat (cluster_sectors n)"
    and "64 * unat (cluster_sectors n) \<le> unat n \<or> cluster_sectors n = 1"
  using assms by (auto simp: cluster_sectors_def Let_def word_le_nat_alt unat_div)

lemma format_sizes:
  fixes n :: u64
  assumes "64 \<le> unat n" and "unat n < 2 ^ 32"
  defines "S \<equiv> unat (cluster_sectors n)" and "C \<equiv> unat (format_clusters n)" and "F \<equiv> unat (format_spf n)"
  shows "C = (unat n - 32) div S" and "F = (4 * C + 511) div 512 + 1" and "C \<le> 2 ^ 26" and "32 + 2 * F + S \<le> unat n"
    and "(unat n - (32 + 2 * F)) div S + 2 \<le> 128 * F"
proof -
  note S = cluster_sectors_cases [OF assms(2), folded S_def]
  have S0: "0 < S" using S(1) by auto
  have "unat (n - 32) = unat n - 32" using assms(1) by (subst unat_sub) (simp_all add: word_le_nat_alt)
  moreover have "unat (cluster_sectors n) < 2 ^ 64" using S(1) by (auto simp: S_def)
  then have "unat (ucast (cluster_sectors n) :: u64) = S" by (simp add: S_def unsigned_ucast_eq take_bit_nat_eq_self)
  ultimately have d: "unat ((n - 32) div ucast (cluster_sectors n)) = (unat n - 32) div S" by (simp add: unat_div)
  have C26: "(unat n - 32) div S \<le> 2 ^ 26"
  proof -
    have "unat n - 32 \<le> 2 ^ 26 * S" using S(2) by linarith
    then have "(unat n - 32) div S \<le> (2 ^ 26 * S) div S" by (rule div_le_mono)
    then show ?thesis using S0 by simp
  qed
  show C: "C = (unat n - 32) div S"
    using d C26 by (simp add: C_def format_clusters_def unsigned_ucast_eq take_bit_nat_eq_self)
  show C': "C \<le> 2 ^ 26" using C C26 by simp
  then have "4 * C + 511 < 2 ^ 32" by simp
  then have "unat (format_clusters n * 4 + 512 - 1) = 4 * C + 511"
    by (simp add: unat_word_ariths C_def [symmetric] mult.commute)
  then have "unat ((format_clusters n * 4 + 512 - 1) div 512) = (4 * C + 511) div 512" by (simp add: unat_div)
  moreover have "C \<le> 67108864" using C' by simp
  then have "(4 * C + 511) div 512 + 1 < 4294967296" by linarith
  ultimately show F: "F = (4 * C + 511) div 512 + 1"
    by (simp add: F_def format_spf_def unat_word_ariths)
  have F': "F \<le> C div 128 + 2" using F by linarith
  have CS: "C * S \<le> unat n - 32" using C by (simp add: div_times_less_eq_dividend)
  show "32 + 2 * F + S \<le> unat n"
  proof (cases "S = 1")
    case True
    then have "C = unat n - 32" using C by simp
    then show ?thesis using F' True assms(1) by linarith
  next
    case False
    then have "64 * S \<le> unat n" using S(3) by (auto simp: S_def)
    moreover have "2 \<le> S" using False S0 by linarith
    then have "2 * C \<le> C * S" by (simp add: mult.commute)
    ultimately show ?thesis using F' CS \<open>2 \<le> S\<close> by linarith
  qed
  have "(unat n - (32 + 2 * F)) div S \<le> C" unfolding C by (rule div_le_mono) simp
  moreover have "C + 2 \<le> 128 * F" using F by linarith
  ultimately show "(unat n - (32 + 2 * F)) div S + 2 \<le> 128 * F" by linarith
qed

section \<open>What formatting leaves on the device\<close>

context reliable_device
begin

lemma write_each_rule:
  assumes "live d" and "\<forall>(l, b) \<in> set ws. has l \<and> length b = 512"
  shows "\<exists>d'. write_each ops ws d = (0, d') \<and> live d' \<and>
    (\<forall>l. sec d' l = (case map_of (rev ws) l of None \<Rightarrow> sec d l | Some b \<Rightarrow> b))"
  using assms
proof (induction ws arbitrary: d)
  case (Cons w ws)
  obtain l b where w: "w = (l, b)" by (rule prod.exhaust)
  obtain rc d1 where wr: "blk_write ops d l 1 b = (rc, d1)" by (rule prod.exhaust)
  have lb: "has l" "length b = 512" using Cons.prems(2) w by auto
  have rc: "rc = 0" "live d1" using live_write [OF Cons.prems(1) lb(1) wr] by auto
  have s1: "sec d1 = (sec d)(l := b)" using write_ok [OF lb(2)] wr rc by simp
  obtain d' where d': "write_each ops ws d1 = (0, d')" "live d'"
    "\<forall>x. sec d' x = (case map_of (rev ws) x of None \<Rightarrow> sec d1 x | Some b \<Rightarrow> b)"
    using Cons.IH [OF rc(2)] Cons.prems(2) by auto
  then show ?case using wr rc s1 by (auto simp: w map_add_def split: option.splits)
qed simp

end

text \<open>The last write to each sector.\<close>

lemma unat_of_nat_pow: "k < 2 ^ 64 \<Longrightarrow> unat (of_nat k :: u64) = k"
  by (simp add: unat_of_nat take_bit_nat_eq_self)

lemma map_of_range:
  assumes "b \<le> 2 ^ 64"
  shows "map_of (rev (map (\<lambda>i. (of_nat i :: u64, z)) [a..<b])) l = (if a \<le> unat l \<and> unat l < b then Some z else None)"
  using assms
proof (induction b)
  case (Suc b)
  have "l = of_nat b \<longleftrightarrow> unat l = b"
    using Suc.prems by (auto simp: unat_of_nat take_bit_nat_eq_self word_unat_eq_iff)
  then show ?case using Suc by auto
qed simp

lemma format_writes_nat:
  fixes n :: u64
  assumes "64 \<le> unat n" and "unat n < 2 ^ 32"
  defines "F \<equiv> unat (format_spf n)" and "S \<equiv> unat (cluster_sectors n)"
  shows "format_writes n boot = [(0, boot), (6, boot)] @ map (\<lambda>i. (of_nat i, zero_sector)) [32..<32 + 2 * F]
     @ [(32, fat_init), (of_nat (32 + F), fat_init), (1, fsinfo_sector n)]
     @ map (\<lambda>i. (of_nat i, zero_sector)) [32 + 2 * F..<32 + 2 * F + S]"
proof -
  have F: "32 + 2 * F + S \<le> unat n" using format_sizes(4) [OF assms(1,2)] by (simp add: F_def S_def)
  have e: "32 + 2 * (ucast (format_spf n) :: u64) = of_nat (32 + 2 * F)"
    by (simp add: F_def)
  have "unat (of_nat (32 + 2 * F) :: u64) = 32 + 2 * F"
    using F assms(2) by (intro unat_of_nat_pow) simp
  moreover have "map (\<lambda>i. (of_nat (32 + 2 * F) + of_nat i :: u64, zero_sector)) [0..<S] =
      map (\<lambda>i. (of_nat i, zero_sector)) [32 + 2 * F..<32 + 2 * F + S]"
    by (rule nth_equalityI) simp_all
  moreover have "32 + (ucast (format_spf n) :: u64) = of_nat (32 + F)" by (simp add: F_def)
  ultimately show ?thesis unfolding format_writes_def Let_def e S_def [symmetric] by simp
qed

lemma case_if_Some: "(case (if P then Some z else None) of None \<Rightarrow> a | Some v \<Rightarrow> Some v) = (if P then Some z else a)"
  by simp

lemma format_last:
  fixes n :: u64
  assumes "64 \<le> unat n" and "unat n < 2 ^ 32"
  defines "F \<equiv> unat (format_spf n)" and "S \<equiv> unat (cluster_sectors n)"
  shows "map_of (rev (format_writes n boot)) l =
     (if 32 + 2 * F \<le> unat l \<and> unat l < 32 + 2 * F + S then Some zero_sector
      else if unat l = 1 then Some (fsinfo_sector n)
      else if unat l = 32 + F \<or> unat l = 32 then Some fat_init
      else if 32 \<le> unat l \<and> unat l < 32 + 2 * F then Some zero_sector
      else if unat l = 6 \<or> unat l = 0 then Some boot else None)"
proof -
  have F: "32 + 2 * F + S \<le> unat n" using format_sizes(4) [OF assms(1,2)] by (simp add: F_def S_def)
  then have b: "32 + 2 * F + S \<le> 2 ^ 64" "32 + 2 * F \<le> 2 ^ 64" "32 + F < 2 ^ 64" using assms(2) by auto
  have F0: "0 < F" using format_sizes(2) [OF assms(1,2)] by (simp add: F_def)
  have eqs: "l = of_nat (32 + F) \<longleftrightarrow> unat l = 32 + F" "l = 32 \<longleftrightarrow> unat l = 32" "l = 1 \<longleftrightarrow> unat l = 1"
    "l = 6 \<longleftrightarrow> unat l = 6" "l = 0 \<longleftrightarrow> unat l = 0"
    unfolding word_unat_eq_iff unat_of_nat_pow [OF b(3)] by simp_all
  show ?thesis
    unfolding format_writes_nat [OF assms(1,2), folded F_def S_def] rev_append map_of_append map_add_def
      map_of_range [OF b(1)] map_of_range [OF b(2)] case_if_Some
    using F0 by (simp add: eqs del: of_nat_add)
qed

text \<open>The table of a fresh volume: the two reserved entries and the root directory.\<close>

definition fresh_table :: "u32 \<Rightarrow> u32" where
  "fresh_table c = (if c = 0 then 0x0FFFFFF8 else if c = 1 \<or> c = 2 then 0x0FFFFFFF else 0)"

lemma length_fat_init: "length fat_init = 512"
  by (simp add: fat_init_def)

lemma fat_init_word: "i < 128 \<Longrightarrow> word_at fat_init i = (if i = 0 then 0x0FFFFFF8 else if i = 1 \<or> i = 2 then 0x0FFFFFFF else 0)"
  unfolding fat_init_def by (simp add: word_at_set_word) (simp add: word_at_def)

lemma zero_word: "i < 128 \<Longrightarrow> word_at zero_sector i = 0"
  by (simp add: zero_sector_def word_at_def)

lemma fresh_word:
  "word_at (if c div 128 = (0 :: u32) then fat_init else zero_sector) (unat (c mod 128)) AND 0x0FFFFFFF = fresh_table c"
proof (cases "c div 128 = 0")
  case True
  then have "unat c < 128" using sector_unat(1) [of c] by (simp add: word_unat_eq_iff div_eq_0_iff)
  then have "unat (c mod 128) = unat c" by (simp add: sector_unat(2))
  with \<open>unat c < 128\<close> True show ?thesis by (simp add: fat_init_word fresh_table_def word_unat_eq_iff)
next
  case False
  then have "c \<noteq> 0" "c \<noteq> 1" "c \<noteq> 2" by auto
  then show ?thesis using False by (simp add: zero_word sector_unat fresh_table_def)
qed

context reliable_device
begin

lemma format_rule:
  fixes n :: u64
  assumes "64 \<le> unat n" and "unat n < 2 ^ 32" and "live d" and "\<forall>l. unat l < unat n \<longrightarrow> has l"
  defines "F \<equiv> unat (format_spf n)"
  shows "\<exists>d'. fat32_format ops now n nm d = (0, d') \<and> live d' \<and> sec d' 0 = format_boot n nm now \<and> sec d' 1 = fsinfo_sector n \<and>
    (\<forall>s :: u32. unat s < F \<longrightarrow> sec d' (32 + ucast s) = (if s = 0 then fat_init else zero_sector) \<and>
       sec d' (32 + ucast (format_spf n) + ucast s) = (if s = 0 then fat_init else zero_sector))"
proof -
  let ?b = "format_boot n nm now" and ?S = "unat (cluster_sectors n)"
  have F: "32 + 2 * F + ?S \<le> unat n" "0 < F" using format_sizes(2,4) [OF assms(1,2)] by (simp_all add: F_def)
  have "has l \<and> length b = 512" if "(l, b) \<in> set (format_writes n ?b)" for l b
  proof -
    have "unat l < unat n"
      using that F assms(1,2) by (auto simp: format_writes_nat [OF assms(1,2)] F_def [symmetric] unat_of_nat_pow simp del: of_nat_add)
    then show ?thesis using that assms(4)
      by (auto simp: format_writes_nat [OF assms(1,2)] length_format_boot length_fat_init zero_sector_def fsinfo_fields(6))
  qed
  then obtain d' where d: "fat32_format ops now n nm d = (0, d')" "live d'"
    "\<And>l. sec d' l = (case map_of (rev (format_writes n ?b)) l of None \<Rightarrow> sec d l | Some b \<Rightarrow> b)"
    using write_each_rule [OF assms(3), of "format_writes n ?b"] unfolding fat32_format_def by blast
  have s: "sec d' (32 + ucast s) = (if s = 0 then fat_init else zero_sector) \<and>
      sec d' (32 + ucast (format_spf n) + ucast s) = (if s = 0 then fat_init else zero_sector)"
    if "unat s < F" for s :: u32
  proof -
    have u: "unat (32 + ucast s :: u64) = 32 + unat s"
      "unat (32 + ucast (format_spf n) + ucast s :: u64) = 32 + F + unat s"
      using that F(1) assms(2) by (simp_all add: unat_word_ariths unat_ucast_u64 F_def)
    show ?thesis using that by (simp add: d(3) format_last [OF assms(1,2)] F_def [symmetric] u unat_eq_zero)
  qed
  show ?thesis using d(1,2) s F(2) by (simp add: d(3) format_last [OF assms(1,2)] F_def [symmetric])
qed

text \<open>Mounting what formatting left.\<close>

lemma mount_rule:
  fixes n :: u64
  assumes n: "64 \<le> unat n" "unat n < 2 ^ 32" and lv: "live d" and hs: "\<forall>l. unat l < unat n \<longrightarrow> has l"
    and ns: "blk_n_sectors ops = n" and boot: "sec d 0 = format_boot n nm now" and fsi: "sec d 1 = fsinfo_sector n"
    and fat: "\<forall>s :: u32. unat s < unat (format_spf n) \<longrightarrow> sec d (32 + ucast s) = (if s = 0 then fat_init else zero_sector) \<and>
       sec d (32 + ucast (format_spf n) + ucast s) = (if s = 0 then fat_init else zero_sector)"
  shows "\<exists>vol. fat32_mount ops d = (0, vol) \<and> vol_mounted vol \<and> \<not> vol_dirty vol \<and> sized vol \<and> vol_root_cluster vol = 2 \<and>
    vol_free_clusters vol = format_clusters n - 1 \<and> sec (vol_ctx vol) 0 = set_fat_flags 0x80 (format_boot n nm now) \<and>
    (length b = 512 \<longrightarrow> fat_state sec live has (Some b) vol fresh_table)"
proof -
  let ?F = "unat (format_spf n)" and ?boot = "format_boot n nm now"
  let ?S = "unat (cluster_sectors n)"
  let ?T = "(unat n - (32 + 2 * ?F)) div ?S + 2"
  note Z = format_sizes [OF n] and fields = format_boot_fields [of n nm now]
  have nz: "0 < ?F" "0 < ?S" "?F \<le> 2 ^ 25" using Z(2,3) cluster_sectors_cases(1) [OF n(2)] by auto
  have h: "has 0" "has 1" using hs n(1) by auto
  have rd: "blk_read ops e l 1 = (0, sec e l)" if "live e" "has l" for e l
    using live_read [OF that] read_ok [of e l] by (metis prod.collapse)
  have valid: "boot_valid ?boot" using nz by (auto simp: boot_valid_def fields unat_gt_0)
  obtain rc d1 where wr: "blk_write ops d 0 1 (set_fat_flags 0x80 ?boot) = (rc, d1)" by (rule prod.exhaust)
  have d1: "rc = 0" "live d1" "sec d1 = (sec d)(0 := set_fat_flags 0x80 ?boot)"
    using live_write [OF lv h(1) wr] write_ok [of "set_fat_flags 0x80 ?boot" d 0 d1] wr
    by (auto simp: set_flags_fields(10) length_format_boot)
  define vol where "vol = (populate n ?boot (fresh_volume d))\<lparr>vol_dirty := False, vol_ctx := d1,
      vol_free_clusters := format_clusters n - 1, vol_next_free := 3\<rparr>"
  have ctx: "vol_ctx (populate n ?boot (fresh_volume d)) = d"
    by (simp add: populate_def fresh_volume_def fat_cache_invalidate_def Let_def)
  have mnt: "fat32_mount ops d = (0, vol)"
    using rd [OF lv h(1)] rd [OF d1(2) h(2)] wr d1(3) valid ctx
    by (simp add: fat32_mount_def boot ns mark_in_use_def read_fsinfo_def fields vol_def fsi fsinfo_fields)
  have g: "vol_fat1_lba vol = 32" "vol_fat2_lba vol = 32 + ucast (format_spf n)" "vol_sectors_per_fat vol = format_spf n"
    "vol_num_fats vol = 2" "vol_fat_cache vol = None" "vol_cached_fat_sector vol = 0xFFFFFFFF" "\<not> vol_cached_dirty vol"
    "vol_ctx vol = d1" "vol_mounted vol" "\<not> vol_dirty vol" "vol_root_cluster vol = 2" "vol_free_clusters vol = format_clusters n - 1"
    by (simp_all add: vol_def populate_def fresh_volume_def fat_cache_invalidate_def fields Let_def)
  have q: "(unat n - (32 + 2 * ?F)) div ?S \<le> unat n - 32" by (rule order.trans [OF div_le_dividend]) simp
  have tot: "unat (vol_total_clusters vol) = ?T"
  proof -
    let ?lo = "32 + ucast (format_spf n) + ucast (format_spf n) :: u64"
    have lo: "unat ?lo = 32 + 2 * ?F" using Z(4) n(2) by (simp add: unat_word_ariths unat_ucast_u64)
    then have "unat (n - ?lo) = unat n - (32 + 2 * ?F)" using Z(4) by (subst unat_sub) (simp_all add: word_le_nat_alt)
    moreover have "?S < 2 ^ 64" using cluster_sectors_cases(1) [OF n(2)] by auto
    then have "unat (ucast (cluster_sectors n) :: u64) = ?S" by (simp add: unsigned_ucast_eq take_bit_nat_eq_self)
    ultimately have "unat ((n - ?lo) div ucast (cluster_sectors n)) = (unat n - (32 + 2 * ?F)) div ?S" by (simp add: unat_div)
    then have "unat (ucast ((n - ?lo) div ucast (cluster_sectors n)) :: u32) = (unat n - (32 + 2 * ?F)) div ?S"
      using q n(2) by (simp add: unsigned_ucast_eq take_bit_nat_eq_self)
    moreover have "vol_total_clusters vol = ucast ((n - ?lo) div ucast (cluster_sectors n)) + 2"
      by (simp add: vol_def populate_def Let_def fields)
    ultimately show ?thesis using q n by (simp add: unat_word_ariths)
  qed
  have szd: "sized vol"
  proof -
    have "?S \<le> unat n - (32 + 2 * ?F)" using Z(4) by linarith
    then have "0 < (unat n - (32 + 2 * ?F)) div ?S" using nz(2) by (simp add: div_greater_zero_iff)
    moreover have "(unat n - (32 + 2 * ?F)) div ?S \<le> 2 ^ 26"
      using Z(1,3) div_le_mono [of "unat n - (32 + 2 * ?F)" "unat n - 32" ?S] by linarith
    ultimately show ?thesis using Z(5) by (simp add: sized_def tot g FAT32_CLUSTER_EOC_def)
  qed
  have sec1: "sec d1 (32 + ucast s) = (if s = 0 then fat_init else zero_sector) \<and>
      sec d1 (32 + ucast (format_spf n) + ucast s) = (if s = 0 then fat_init else zero_sector)"
    "has (32 + ucast s)" "has (32 + ucast (format_spf n) + ucast s)" if "unat s < ?F" for s :: u32
  proof -
    have u: "unat (32 + ucast s :: u64) = 32 + unat s"
      "unat (32 + ucast (format_spf n) + ucast s :: u64) = 32 + ?F + unat s"
      using that Z(4) n(2) by (simp_all add: unat_word_ariths unat_ucast_u64)
    then have "(32 + ucast s :: u64) \<noteq> 0" "(32 + ucast (format_spf n) + ucast s :: u64) \<noteq> 0" by (auto simp: word_unat_eq_iff)
    then show "sec d1 (32 + ucast s) = (if s = 0 then fat_init else zero_sector) \<and>
        sec d1 (32 + ucast (format_spf n) + ucast s) = (if s = 0 then fat_init else zero_sector)"
      using fat that by (simp add: d1(3))
    show "has (32 + ucast s)" "has (32 + ucast (format_spf n) + ucast s)" using hs u that Z(4) by auto
  qed
  have ok: "fat_ok sec vol"
    using nz Z(4) n(2) sec1 by (simp add: fat_ok_def g unat_word_ariths unat_ucast_u64)
  have "fat_state sec live has (Some b) vol fresh_table" if "length b = 512"
    using ok that sec1 d1(2) fresh_word
    by (auto simp: fat_state_def served_def g in_fat_def fat_view_def fat_word_def cached_word_def sector_unat)
  then show ?thesis using mnt szd g by (auto simp: d1(3))
qed

end

section \<open>Unmounting and mounting again\<close>

lemma read_fsinfo_keeps: "geom (read_fsinfo ops bs vol) = geom vol" "vol_ctx (read_fsinfo ops bs vol) = vol_ctx vol"
  "vol_dirty (read_fsinfo ops bs vol) = vol_dirty vol" "vol_mounted (read_fsinfo ops bs vol) = vol_mounted vol"
  "vol_fat_cache (read_fsinfo ops bs vol) = vol_fat_cache vol" "vol_cached_dirty (read_fsinfo ops bs vol) = vol_cached_dirty vol"
  "vol_cached_fat_sector (read_fsinfo ops bs vol) = vol_cached_fat_sector vol"
  by (simp_all add: read_fsinfo_def geom_def split: prod.split)

context reliable_device
begin

lemma read_sector: "live d \<Longrightarrow> has l \<Longrightarrow> blk_read ops d l 1 = (0, sec d l)"
  using live_read [of d l] read_ok [of d l] by (metis prod.collapse)

text \<open>What mounting does on any device with a valid boot sector.\<close>

lemma mount_any:
  assumes lv: "live d" and h: "has 0" and bs: "bs = sec d 0" and valid: "boot_valid bs"
  obtains vol where "fat32_mount ops d = (0, vol)" and "vol_mounted vol" and "vol_dirty vol \<longleftrightarrow> bs_fat_flags bs AND 0x80 \<noteq> 0"
    and "geom vol = geom (populate (blk_n_sectors ops) bs (fresh_volume d))" and "live (vol_ctx vol)"
    and "vol_fat_cache vol = None" and "vol_cached_fat_sector vol = 0xFFFFFFFF" and "\<not> vol_cached_dirty vol"
    and "\<forall>l. l \<noteq> 0 \<longrightarrow> sec (vol_ctx vol) l = sec d l"
    and "sec (vol_ctx vol) 0 = (if bs_fat_flags bs AND 0x80 \<noteq> 0 then bs else set_fat_flags (bs_fat_flags bs OR 0x80) bs)"
proof -
  let ?p = "populate (blk_n_sectors ops) bs (fresh_volume d)"
  let ?vol = "read_fsinfo ops bs (mark_in_use ops bs ?p)"
  have p: "vol_ctx ?p = d" "vol_mounted ?p" "vol_fat_cache ?p = None" "vol_cached_fat_sector ?p = 0xFFFFFFFF" "\<not> vol_cached_dirty ?p"
    by (simp_all add: populate_def fresh_volume_def fat_cache_invalidate_def Let_def)
  have len: "length bs = 512" using sec_length bs by simp
  obtain rc d1 where wr: "blk_write ops d 0 1 (set_fat_flags (bs_fat_flags bs OR 0x80) bs) = (rc, d1)" by (rule prod.exhaust)
  have d1: "rc = 0" "live d1" "sec d1 = (sec d)(0 := set_fat_flags (bs_fat_flags bs OR 0x80) bs)"
    using live_write [OF lv h wr] write_ok [OF set_flags_fields(10) [OF len], of d 0] wr by auto
  have m: "vol_mounted (mark_in_use ops bs ?p)" "vol_dirty (mark_in_use ops bs ?p) \<longleftrightarrow> bs_fat_flags bs AND 0x80 \<noteq> 0"
    "geom (mark_in_use ops bs ?p) = geom ?p" "vol_fat_cache (mark_in_use ops bs ?p) = None"
    "vol_cached_fat_sector (mark_in_use ops bs ?p) = 0xFFFFFFFF" "\<not> vol_cached_dirty (mark_in_use ops bs ?p)"
    "vol_ctx (mark_in_use ops bs ?p) = (if bs_fat_flags bs AND 0x80 \<noteq> 0 then d else d1)"
    using p wr by (simp_all add: mark_in_use_def geom_def)
  show thesis
  proof (rule that [of ?vol])
    show "fat32_mount ops d = (0, ?vol)" using read_sector [OF lv h] bs valid by (simp add: fat32_mount_def)
  qed (use m d1 lv bs in \<open>auto simp: read_fsinfo_keeps\<close>)
qed

lemma flush_state:
  assumes st: "fat_state sec live has mem vol m" and fl: "fat32_flush ops vol = (rc, vol')"
  shows "rc = 0 \<and> fat_state sec live has mem vol' m \<and> same_vol vol vol' \<and> \<not> vol_cached_dirty vol' \<and> vol_mounted vol' = vol_mounted vol"
proof -
  have ok: "fat_ok sec vol" and sv: "served live has mem vol" using st by (auto simp: fat_state_def)
  note F = flush_rule [OF ok fl] and S = flush_served [OF ok sv fl]
  have k: "keeps sec vol vol'" using F by simp
  have "fat_state sec live has mem vol' m"
    using st S keepsD [OF k] in_fat_geom [OF keepsD(2) [OF k]] by (auto simp: fat_state_def)
  moreover have "vol_mounted vol' = vol_mounted vol" using fl by (auto simp: fat32_flush_def split: option.splits if_splits prod.splits)
  ultimately show ?thesis using F S flush_stats [OF fl] keepsD(2) [OF k] by (simp add: same_vol_def)
qed

text \<open>The volume that \<open>fat32_unmount\<close> has when its cache is written back.\<close>

lemma unmount_clean:
  assumes st: "fat_state sec live has mem vol m" and area: "\<And>l. fat_area vol l \<Longrightarrow> l \<noteq> 0"
    and mnt: "vol_mounted vol"
  obtains vol0 where "fat_state sec live has mem vol0 m" and "same_vol vol vol0" and "\<not> vol_cached_dirty vol0"
    and "sec (vol_ctx vol0) 0 = sec (vol_ctx vol) 0"
    and "vol_ctx (fat32_unmount ops vol) = (case blk_read ops (vol_ctx vol0) 0 1 of (rc, bs) \<Rightarrow> if rc = 0
         then snd (blk_write ops (vol_ctx vol0) 0 1 (set_fat_flags (bs_fat_flags bs AND 0xFF7F) bs)) else vol_ctx vol0)"
proof (cases "vol_cached_dirty vol")
  case False
  then have "vol_ctx (fat32_unmount ops vol) = (case blk_read ops (vol_ctx vol) 0 1 of (rc, bs) \<Rightarrow> if rc = 0
         then snd (blk_write ops (vol_ctx vol) 0 1 (set_fat_flags (bs_fat_flags bs AND 0xFF7F) bs)) else vol_ctx vol)"
    using mnt by (auto simp: fat32_unmount_def Let_def split: prod.splits)
  then show thesis using that [OF st same_vol_refl False refl] by blast
next
  case True
  then have c: "vol_fat_cache vol \<noteq> None" using st by (cases "vol_fat_cache vol") (auto simp: fat_state_def fat_ok_def)
  obtain rc vol0 where fl: "fat32_flush ops vol = (rc, vol0)" by (rule prod.exhaust)
  note F = flush_state [OF st fl]
  let ?\<sigma> = "sec (vol_ctx vol)" and ?area = "\<lambda>l. l \<noteq> (0 :: u64)"
  have "fat_state sec (framed sec live ?area ?\<sigma>) (\<lambda>l. has l \<and> ?area l) mem vol m"
    using fat_state_framed [of vol ?area] area st by blast
  from reliable_device.flush_state [OF framed_reliable this fl]
  have "framed sec live ?area ?\<sigma> (vol_ctx vol0)" by (simp add: fat_state_def served_def)
  then have z: "sec (vol_ctx vol0) 0 = sec (vol_ctx vol) 0" by (simp add: framed_def)
  have "vol_ctx (fat32_unmount ops vol) = (case blk_read ops (vol_ctx vol0) 0 1 of (rc, bs) \<Rightarrow> if rc = 0
         then snd (blk_write ops (vol_ctx vol0) 0 1 (set_fat_flags (bs_fat_flags bs AND 0xFF7F) bs)) else vol_ctx vol0)"
    using mnt c True fl F by (auto simp: fat32_unmount_def Let_def split: prod.splits)
  then show thesis using that F z by blast
qed

end

lemma geom_populate_flags:
  "length bs = 512 \<Longrightarrow> geom (populate n (set_fat_flags w bs) (fresh_volume d)) = geom (populate n bs (fresh_volume d'))"
  by (simp add: geom_def populate_def Let_def set_flags_fields)

lemma boot_valid_flags: "length bs = 512 \<Longrightarrow> boot_valid (set_fat_flags w bs) = boot_valid bs"
  by (simp add: boot_valid_def set_flags_fields)

lemma dirty_bit: "(w AND 0xFF7F) AND 0x80 = (0 :: u16)" "(w OR 0x80) AND 0x80 \<noteq> (0 :: u16)"
proof -
  show "(w AND 0xFF7F) AND 0x80 = (0 :: u16)" by (simp add: and.assoc)
  have "bit ((w OR 0x80) AND 0x80) 7" by (simp add: bit_simps)
  then show "(w OR 0x80) AND 0x80 \<noteq> (0 :: u16)" by (metis bit_0_eq bot_apply bot_bool_def)
qed

text \<open>A volume with a clean or empty cache on a device that holds its tables.\<close>

lemma mounted_state:
  assumes st: "fat_state sec live has mem vol0 m" and clean: "\<not> vol_cached_dirty vol0" and g: "geom vol = geom vol0"
    and area: "\<And>l. fat_area vol0 l \<Longrightarrow> sec (vol_ctx vol) l = sec (vol_ctx vol0) l" and lv: "live (vol_ctx vol)"
    and c: "vol_fat_cache vol = None" "vol_cached_fat_sector vol = 0xFFFFFFFF" "\<not> vol_cached_dirty vol" and mem: "mem \<noteq> None"
  shows "fat_state sec live has mem vol m"
proof -
  have ok: "fat_ok sec vol0" and sv: "served live has mem vol0" using st by (auto simp: fat_state_def)
  have gs: "vol_fat1_lba vol = vol_fat1_lba vol0" "vol_fat2_lba vol = vol_fat2_lba vol0" "vol_sectors_per_fat vol = vol_sectors_per_fat vol0"
    "vol_num_fats vol = vol_num_fats vol0" using g by (simp_all add: geom_def)
  have eq: "sec (vol_ctx vol) (vol_fat1_lba vol0 + ucast s) = sec (vol_ctx vol0) (vol_fat1_lba vol0 + ucast s)"
    "sec (vol_ctx vol) (vol_fat2_lba vol0 + ucast s) = sec (vol_ctx vol0) (vol_fat2_lba vol0 + ucast s)"
    if "unat s < unat (vol_sectors_per_fat vol0)" for s :: u32
    using area that by (auto simp: fat_area_def)
  have "fat_ok sec vol" using ok clean c eq by (simp add: fat_ok_def gs)
  moreover have "served live has mem vol" using sv lv mem by (simp add: served_def gs)
  moreover have "fat_view sec vol x = m x" if x: "in_fat vol x" for x
  proof -
    have x0: "in_fat vol0 x" using x in_fat_geom [OF g] by simp
    have "fat_view sec vol x = disk_entry sec (vol_ctx vol) (vol_fat1_lba vol0) x"
      using c by (simp add: fat_view_def fat_word_def cached_word_def disk_entry_def gs)
    also have "\<dots> = disk_entry sec (vol_ctx vol0) (vol_fat1_lba vol0) x"
      using eq(1) [OF in_fat_sector [OF x0]] by (simp add: disk_entry_def)
    also have "\<dots> = m x" using clean_on_disk(1) [OF ok clean x0] st x0 by (simp add: fat_state_def)
    finally show ?thesis .
  qed
  ultimately show ?thesis by (simp add: fat_state_def)
qed

lemma fat_area_pos:
  assumes "fat_ok sec vol" and "0 < vol_fat1_lba vol" and "fat_area vol l"
  shows "l \<noteq> 0"
proof -
  have p: "0 < unat (vol_fat1_lba vol)" using assms(2) by (simp add: unat_gt_0)
  obtain s :: u32 where s: "unat s < unat (vol_sectors_per_fat vol)" "l = vol_fat1_lba vol + ucast s \<or> l = vol_fat2_lba vol + ucast s"
    using assms(3) by (auto simp: fat_area_def)
  have b: "unat (vol_fat1_lba vol) + unat (vol_sectors_per_fat vol) \<le> unat (vol_fat2_lba vol)"
    "unat (vol_fat2_lba vol) + unat (vol_sectors_per_fat vol) < 2 ^ 64" using assms(1) by (auto simp: fat_ok_def)
  have "unat (vol_fat1_lba vol + ucast s) = unat (vol_fat1_lba vol) + unat s"
    "unat (vol_fat2_lba vol + ucast s) = unat (vol_fat2_lba vol) + unat s"
    using s(1) b by (simp_all add: unat_word_ariths unat_ucast_u64)
  then have "0 < unat l" using s p b by auto
  then show ?thesis by auto
qed

text \<open>The volume was mounted from the boot sector that the device still has.\<close>

definition boot_agrees :: "'d fat32_blk_ops \<Rightarrow> ('d \<Rightarrow> u64 \<Rightarrow> bytes) \<Rightarrow> 'd fat32_volume \<Rightarrow> bool" where
  "boot_agrees ops sec vol \<longleftrightarrow> vol_mounted vol \<and> boot_valid (sec (vol_ctx vol) 0) \<and> 0 < vol_fat1_lba vol \<and>
     geom vol = geom (populate (blk_n_sectors ops) (sec (vol_ctx vol) 0) (fresh_volume (vol_ctx vol)))"

context reliable_device
begin

lemma mount_agrees:
  assumes lv: "live d" and h: "has 0" and valid: "boot_valid (sec d 0)" and r: "bs_reserved_sectors (sec d 0) \<noteq> 0"
    and mnt: "fat32_mount ops d = (0, vol)"
  shows "boot_agrees ops sec vol"
proof -
  let ?bs = "sec d 0"
  obtain vol' where v: "fat32_mount ops d = (0, vol')" "vol_mounted vol'"
    "geom vol' = geom (populate (blk_n_sectors ops) ?bs (fresh_volume d))"
    "sec (vol_ctx vol') 0 = (if bs_fat_flags ?bs AND 0x80 \<noteq> 0 then ?bs else set_fat_flags (bs_fat_flags ?bs OR 0x80) ?bs)"
    by (rule mount_any [OF lv h refl valid])
  have g: "geom (populate n (sec (vol_ctx vol') 0) (fresh_volume e)) = geom (populate n ?bs (fresh_volume e'))" for n and e e' :: 'a
    by (simp add: v(4) geom_def populate_def Let_def set_flags_fields [OF sec_length])
  have "vol_fat1_lba vol' = ucast (bs_reserved_sectors ?bs)" using v(3) by (simp add: geom_def populate_def Let_def)
  moreover have "unat (bs_reserved_sectors ?bs) < 2 ^ LENGTH(16)" by (rule unsigned_less)
  then have "unat (bs_reserved_sectors ?bs) < 2 ^ 64" by (rule order.strict_trans2) simp
  then have "(ucast (bs_reserved_sectors ?bs) :: u64) \<noteq> 0" using r
    by (simp add: word_unat_eq_iff unsigned_ucast_eq take_bit_nat_eq_self)
  ultimately have "0 < vol_fat1_lba vol'" by (simp add: word_gt_0)
  then show ?thesis using v mnt valid g [of _ "vol_ctx vol'" d] boot_valid_flags [OF sec_length] by (auto simp: boot_agrees_def)
qed

end

section \<open>Properties\<close>

lemma format_mounts:
  assumes dev: "reliable_device ops sec live has" and "live d" and ns: "blk_n_sectors ops = n"
    and "64 \<le> unat n" and "unat n < 2 ^ 32" and "\<forall>l. unat l < unat n \<longrightarrow> has l" and "length b = 512"
  shows "\<exists>d' vol. fat32_format ops now n nm d = (0, d') \<and> fat32_mount ops d' = (0, vol) \<and> vol_mounted vol \<and>
    \<not> vol_dirty vol \<and> sized vol \<and> vol_root_cluster vol = 2 \<and> vol_free_clusters vol = format_clusters n - 1 \<and>
    fat_state sec live has (Some b) vol fresh_table \<and> boot_agrees ops sec vol"
proof -
  obtain d' where d: "fat32_format ops now n nm d = (0, d')" "live d'" "sec d' 0 = format_boot n nm now"
    "sec d' 1 = fsinfo_sector n"
    "\<forall>s :: u32. unat s < unat (format_spf n) \<longrightarrow> sec d' (32 + ucast s) = (if s = 0 then fat_init else zero_sector) \<and>
       sec d' (32 + ucast (format_spf n) + ucast s) = (if s = 0 then fat_init else zero_sector)"
    using reliable_device.format_rule [OF dev assms(4,5,2,6), of now nm] by blast
  have h: "has 0" using assms(4,6) by auto
  have "unat (format_spf n) \<noteq> 0" "unat (cluster_sectors n) \<noteq> 0"
    using format_sizes(2) [OF assms(4,5)] cluster_sectors_cases(1) [OF assms(5)] by auto
  then have "boot_valid (sec d' 0)" "bs_reserved_sectors (sec d' 0) \<noteq> 0"
    by (auto simp: d(3) boot_valid_def format_boot_fields)
  then have "fat32_mount ops d' = (0, vol) \<Longrightarrow> boot_agrees ops sec vol" for vol
    by (rule reliable_device.mount_agrees [OF dev d(2) h])
  then show ?thesis
    using reliable_device.mount_rule [OF dev assms(4,5) d(2) assms(6) ns d(3,4,5), of b] d(1) assms(7) by blast
qed

text \<open>C25: Formatting establishes the invariant. On every device that does not fail and has
  between 64 and \<open>2 ^ 32\<close> sectors, \<open>fat32_format\<close> and then \<open>fat32_mount\<close> succeed, whatever the device
  held before: the volume is clean, its geometry is consistent (the counted clusters are inside
  the table), both copies of the table agree, and the table is the map in which only the two
  reserved entries and the root directory are in use.\<close>

theorem format_then_mount:
  assumes "reliable_device ops sec live has" and "live d" and "blk_n_sectors ops = n"
    and "64 \<le> unat n" and "unat n < 2 ^ 32" and "\<forall>l. unat l < unat n \<longrightarrow> has l" and "length b = 512"
  shows "\<exists>d' vol. fat32_format ops now n nm d = (0, d') \<and> fat32_mount ops d' = (0, vol) \<and> vol_mounted vol \<and>
    \<not> vol_dirty vol \<and> sized vol \<and> vol_root_cluster vol = 2 \<and> vol_free_clusters vol = format_clusters n - 1 \<and>
    fat_state sec live has (Some b) vol fresh_table \<and> boot_agrees ops sec vol"
  by (rule format_mounts [OF assms])

lemma ram_sectors: "unat l < 16384 \<Longrightarrow> ram_has l"
proof -
  assume l: "unat l < 16384"
  then have "unat (l + 1) = unat l + 1" by (simp add: unat_word_ariths)
  then show ?thesis using l by (simp add: ram_has_def RAM_DISK_SECTORS_def word_le_nat_alt)
qed

theorem format_then_mount_witness:
  "\<exists>d' vol. fat32_format ram_blk_ops 7 16384 None (Some (\<lambda>i. of_nat i)) = (0, d') \<and> fat32_mount ram_blk_ops d' = (0, vol) \<and>
     sized vol \<and> fat_state ram_sector (\<lambda>d. d \<noteq> None) ram_has (Some (replicate 512 7)) vol fresh_table"
proof -
  have "blk_n_sectors ram_blk_ops = 16384" by (simp add: ram_blk_ops_def RAM_DISK_SECTORS_def)
  moreover have "\<forall>l. unat l < unat (16384 :: u64) \<longrightarrow> ram_has l" using ram_sectors by simp
  ultimately show ?thesis
    using format_then_mount [OF ram_reliable.reliable_device_axioms, of "Some (\<lambda>i. of_nat i)" 16384 "replicate 512 7" 7 None]
    by auto
qed

text \<open>C26: Unmounting makes the table durable and the flag tells crashes apart. For a mounted volume on a
  device that does not fail, \<open>fat32_unmount\<close> and then \<open>fat32_mount\<close> give a volume that is reported
  clean and stands for the same table, whatever was still in the cache; and mounting the device once
  more without unmounting reports it dirty.\<close>

theorem unmount_mount_roundtrip:
  assumes dev: "reliable_device ops sec live has" and st: "fat_state sec live has (Some b) vol m" and h: "has 0"
    and agrees: "boot_agrees ops sec vol"
  shows "\<exists>vol2. fat32_mount ops (vol_ctx (fat32_unmount ops vol)) = (0, vol2) \<and> \<not> vol_dirty vol2 \<and>
    fat_state sec live has (Some b) vol2 m \<and>
    (\<exists>vol3. fat32_mount ops (vol_ctx vol2) = (0, vol3) \<and> vol_dirty vol3)"
proof -
  have mnt: "vol_mounted vol" and valid: "boot_valid (sec (vol_ctx vol) 0)" and pos: "0 < vol_fat1_lba vol"
    and g: "geom vol = geom (populate (blk_n_sectors ops) (sec (vol_ctx vol) 0) (fresh_volume (vol_ctx vol)))"
    using agrees by (simp_all add: boot_agrees_def)
  note bd = reliable_device.axioms(1) [OF dev]
  have len: "length (sec e l) = 512" for e l by (rule blk_device.sec_length [OF bd])
  have area0: "l \<noteq> 0" if "fat_area vol l" for l using fat_area_pos [OF _ pos that] st by (auto simp: fat_state_def)
  obtain vol0 where v0: "fat_state sec live has (Some b) vol0 m" "same_vol vol vol0" "\<not> vol_cached_dirty vol0"
    "sec (vol_ctx vol0) 0 = sec (vol_ctx vol) 0" and ctx: "vol_ctx (fat32_unmount ops vol) =
      (case blk_read ops (vol_ctx vol0) 0 1 of (rc, bs) \<Rightarrow> if rc = 0
         then snd (blk_write ops (vol_ctx vol0) 0 1 (set_fat_flags (bs_fat_flags bs AND 0xFF7F) bs)) else vol_ctx vol0)"
    by (rule reliable_device.unmount_clean [OF dev st area0 mnt])
  have lv0: "live (vol_ctx vol0)" using v0(1) by (simp add: fat_state_def served_def)
  let ?bs = "sec (vol_ctx vol) 0"
  let ?nbs = "set_fat_flags (bs_fat_flags ?bs AND 0xFF7F) ?bs" and ?d = "vol_ctx (fat32_unmount ops vol)"
  obtain rc d1 where wr: "blk_write ops (vol_ctx vol0) 0 1 ?nbs = (rc, d1)" by (rule prod.exhaust)
  have d1: "live d1" "sec d1 = (sec (vol_ctx vol0))(0 := ?nbs)" and d: "?d = d1"
    using reliable_device.live_write [OF dev lv0 h wr] blk_device.write_ok [OF bd, of ?nbs "vol_ctx vol0" 0 d1] wr
      ctx reliable_device.read_sector [OF dev lv0 h] v0(4) len by (auto simp: set_flags_fields(10))
  have bs1: "sec ?d 0 = ?nbs" "boot_valid ?nbs" using d d1(2) valid len by (simp_all add: boot_valid_flags)
  have lvd: "live ?d" using d d1(1) by simp
  obtain vol2 where m2: "fat32_mount ops ?d = (0, vol2)" "vol_mounted vol2" "vol_dirty vol2 \<longleftrightarrow> bs_fat_flags ?nbs AND 0x80 \<noteq> 0"
    "geom vol2 = geom (populate (blk_n_sectors ops) ?nbs (fresh_volume ?d))" "live (vol_ctx vol2)" "vol_fat_cache vol2 = None"
    "vol_cached_fat_sector vol2 = 0xFFFFFFFF" "\<not> vol_cached_dirty vol2" "\<forall>l. l \<noteq> 0 \<longrightarrow> sec (vol_ctx vol2) l = sec ?d l"
    "sec (vol_ctx vol2) 0 = (if bs_fat_flags ?nbs AND 0x80 \<noteq> 0 then ?nbs else set_fat_flags (bs_fat_flags ?nbs OR 0x80) ?nbs)"
    by (rule reliable_device.mount_any [OF dev lvd h bs1(1) [symmetric] bs1(2)])
  have clean: "bs_fat_flags ?nbs AND 0x80 = 0" using len by (simp add: set_flags_fields dirty_bit)
  have g2: "geom vol2 = geom vol0" using m2(4) g v0(2) len by (simp add: geom_populate_flags [where d' = "vol_ctx vol"] same_vol_def)
  have sec2: "sec (vol_ctx vol2) l = sec (vol_ctx vol0) l" if "fat_area vol0 l" for l
    using that area0 [of l] fat_area_geom [of vol0 vol] v0(2) m2(9) d d1(2) by (auto simp: same_vol_def)
  have st2: "fat_state sec live has (Some b) vol2 m"
    by (rule mounted_state [OF v0(1,3) g2 sec2 m2(5-8)]) simp_all
  let ?bs2 = "sec (vol_ctx vol2) 0"
  have b2: "?bs2 = set_fat_flags (bs_fat_flags ?nbs OR 0x80) ?nbs" using m2(10) clean by simp
  then have bs2: "boot_valid ?bs2" "bs_fat_flags ?bs2 AND 0x80 \<noteq> 0"
    using bs1(2) len by (simp_all add: boot_valid_flags set_flags_fields dirty_bit)
  obtain vol3 where "fat32_mount ops (vol_ctx vol2) = (0, vol3)" "vol_dirty vol3"
    by (rule reliable_device.mount_any [OF dev m2(5) h refl bs2(1)]) (use bs2(2) in blast)
  then show ?thesis using m2(1,3) clean st2 by blast
qed

theorem unmount_mount_roundtrip_witness:
  "\<exists>vol vol2 vol3. fat_state ram_sector (\<lambda>d. d \<noteq> None) ram_has (Some (replicate 512 7)) vol fresh_table \<and>
     fat32_mount ram_blk_ops (vol_ctx (fat32_unmount ram_blk_ops vol)) = (0, vol2) \<and> \<not> vol_dirty vol2 \<and>
     fat32_mount ram_blk_ops (vol_ctx vol2) = (0, vol3) \<and> vol_dirty vol3"
proof -
  have n: "blk_n_sectors ram_blk_ops = 16384" by (simp add: ram_blk_ops_def RAM_DISK_SECTORS_def)
  have h: "\<forall>l. unat l < unat (16384 :: u64) \<longrightarrow> ram_has l" using ram_sectors by simp
  obtain vol where v: "fat_state ram_sector (\<lambda>d. d \<noteq> None) ram_has (Some (replicate 512 7)) vol fresh_table"
    "boot_agrees ram_blk_ops ram_sector vol"
    using format_mounts [OF ram_reliable.reliable_device_axioms _ n _ _ h, of "Some (\<lambda>_. 0)" "replicate 512 7"] by auto
  have "ram_has 0" by (rule ram_sectors) simp
  from unmount_mount_roundtrip [OF ram_reliable.reliable_device_axioms v(1) this v(2)] v(1) show ?thesis by blast
qed

end
