(* ===== verification/Fat32_File_Facts.thy ===== *)
theory Fat32_File_Facts
  imports Fat32_File Fat32_Extents Fat32_Format_Facts "HOL-Library.Sublist"
begin

text \<open>
  What is written to a file is what is read from it: the contents of a file as the bytes of its
  clusters in chain order, the loops of \<open>fat32_write\<close> and \<open>fat32_read\<close> on them, and that no other cluster
  is touched.
\<close>

section \<open>Chains and blocks\<close>

lemma all_nat_cases: "(\<forall>i. Q i) \<longleftrightarrow> Q 0 \<and> (\<forall>i. Q (Suc i))"
  by (metis not0_implies_Suc)

lemma fat_chain_nth:
  "fat_chain m cs \<longleftrightarrow> cs \<noteq> [] \<and> (\<forall>i. Suc i < length cs \<longrightarrow> m (cs ! i) = cs ! Suc i) \<and> FAT32_CLUSTER_EOC \<le> m (last cs)"
proof (induction m cs rule: fat_chain.induct)
  case (3 m c d cs)
  have "(\<forall>i. Suc i < length (c # d # cs) \<longrightarrow> m ((c # d # cs) ! i) = (c # d # cs) ! Suc i) \<longleftrightarrow>
      m c = d \<and> (\<forall>i. Suc i < length (d # cs) \<longrightarrow> m ((d # cs) ! i) = (d # cs) ! Suc i)"
    using all_nat_cases [of "\<lambda>i. Suc i < length (c # d # cs) \<longrightarrow> m ((c # d # cs) ! i) = (c # d # cs) ! Suc i"] by simp
  with 3 show ?case by simp
qed auto

definition file_bytes :: "(u32 \<Rightarrow> bytes) \<Rightarrow> u32 list \<Rightarrow> bytes" where
  "file_bytes D cs = concat (map D cs)"

lemma file_bytes_simps [simp]:
  "file_bytes D [] = []" "file_bytes D (c # cs) = D c @ file_bytes D cs" "file_bytes D (cs @ ds) = file_bytes D cs @ file_bytes D ds"
  by (simp_all add: file_bytes_def)

lemma file_bytes_eq: "(\<And>c. c \<in> set cs \<Longrightarrow> D c = E c) \<Longrightarrow> file_bytes D cs = file_bytes E cs"
  by (induction cs) auto

lemma drop_file_blocks:
  assumes "\<forall>c \<in> set cs. length (D c) = Z" and "k \<le> length cs"
  shows "drop (k * Z) (file_bytes D cs) = file_bytes D (drop k cs)" and "length (file_bytes D cs) = length cs * Z"
proof -
  show "length (file_bytes D cs) = length cs * Z"
    using assms(1) by (induction cs) (auto simp: file_bytes_def)
  show "drop (k * Z) (file_bytes D cs) = file_bytes D (drop k cs)"
    using assms
  proof (induction cs arbitrary: k)
    case (Cons c cs)
    then show ?case by (cases k) (simp_all add: file_bytes_def)
  qed (simp add: file_bytes_def)
qed

lemma block_part:
  assumes "\<forall>c \<in> set cs. length (D c) = Z" and "k < length cs" and "off + n \<le> Z"
  shows "take n (drop (k * Z + off) (file_bytes D cs)) = take n (drop off (D (cs ! k)))"
proof -
  have "drop (k * Z + off) (file_bytes D cs) = drop off (file_bytes D (drop k cs))"
    using drop_file_blocks(1) [OF assms(1), of k] assms(2) by (simp flip: drop_drop add: add.commute)
  also have "drop k cs = cs ! k # drop (Suc k) cs" using assms(2) by (simp add: Cons_nth_drop_Suc)
  finally show ?thesis using assms by (simp add: file_bytes_def)
qed

lemma put_block:
  assumes "\<forall>c \<in> set cs. length (D c) = Z" and "distinct cs" and "k < length cs" and "off + length p \<le> Z"
  shows "file_bytes (D(cs ! k := put_bytes off p (D (cs ! k)))) cs = put_bytes (k * Z + off) p (file_bytes D cs)"
  using assms
proof (induction cs arbitrary: k)
  case (Cons c cs)
  show ?case
  proof (cases k)
    case 0
    then show ?thesis using Cons.prems(1,2,4) by (simp add: put_bytes_def) (auto intro: file_bytes_eq)
  next
    case (Suc j)
    have "file_bytes (D(cs ! j := put_bytes off p (D (cs ! j)))) cs = put_bytes (j * Z + off) p (file_bytes D cs)"
      by (rule Cons.IH) (use Cons.prems Suc in simp_all)
    moreover have "cs ! j \<noteq> c" using Cons.prems(2,3) Suc by auto
    ultimately show ?thesis using Suc Cons.prems(1) by (simp add: put_bytes_def add.assoc del: fun_upd_apply) simp
  qed
qed simp

lemma put_bytes_twice:
  "off + length p \<le> length b \<Longrightarrow> put_bytes (off + length p) q (put_bytes off p b) = put_bytes off (p @ q) b"
  by (simp add: put_bytes_def ac_simps)

lemma chain_snoc:
  assumes "fat_chain m cs" and "distinct cs" and "c \<notin> set cs"
  shows "fat_chain (m(last cs := c, c := FAT32_CLUSTER_EOC)) (cs @ [c])"
proof -
  let ?m = "m(last cs := c, c := FAT32_CLUSTER_EOC)"
  have ne: "cs \<noteq> []" using assms(1) by (simp add: fat_chain_nth)
  have "?m ((cs @ [c]) ! i) = (cs @ [c]) ! Suc i" if i: "Suc i < length (cs @ [c])" for i
  proof (cases "Suc i < length cs")
    case True
    then have "cs ! i \<noteq> last cs" using assms(2) ne by (simp add: last_conv_nth nth_eq_iff_index_eq)
    moreover have "cs ! i \<noteq> c" using True assms(3) by (metis Suc_lessD nth_mem)
    ultimately show ?thesis using True assms(1) by (simp add: nth_append fat_chain_nth)
  next
    case False
    then have "i = length cs - 1" using i by simp
    then show ?thesis using ne assms(3) by (auto simp: nth_append last_conv_nth)
  qed
  then show ?thesis using assms(1) by (simp add: fat_chain_nth)
qed

section \<open>The part of a cluster that a transfer covers\<close>

lemma transfer_span_nat:
  assumes "0 < unat (vol_bytes_per_cluster vol)" and "Z = unat (vol_bytes_per_cluster vol)"
    and "transfer_span vol pos remaining = (offset, len)"
  shows "unat offset = unat pos mod Z" and "unat len = min (unat remaining) (Z - unat pos mod Z)"
    and "offset + len \<ge> vol_bytes_per_cluster vol \<longleftrightarrow> unat pos mod Z + min (unat remaining) (Z - unat pos mod Z) = Z"
proof -
  have Z: "0 < Z" "Z < 2 ^ 32" using assms(1,2) unat_less_u32 by auto
  have m: "unat pos mod Z < Z" using Z(1) by simp
  then have "unat pos mod Z < 2 ^ 32" using Z(2) by linarith
  then have o: "unat (ucast (pos mod ucast (vol_bytes_per_cluster vol)) :: u32) = unat pos mod Z"
    using m Z by (simp add: unsigned_ucast_eq unat_mod unat_ucast_u64 assms(2) [symmetric] take_bit_nat_eq_self)
  then show off: "unat offset = unat pos mod Z" using assms(3) by (auto simp: transfer_span_def Let_def)
  have room: "unat (vol_bytes_per_cluster vol - offset) = Z - unat pos mod Z"
    using off m assms(2) by (subst unat_sub) (simp_all add: word_le_nat_alt)
  have l: "len = (if remaining < ucast (vol_bytes_per_cluster vol - offset) then ucast remaining else vol_bytes_per_cluster vol - offset)"
    using assms(3) by (auto simp: transfer_span_def Let_def)
  show len: "unat len = min (unat remaining) (Z - unat pos mod Z)"
  proof (cases "unat remaining < Z - unat pos mod Z")
    case True
    then have "unat (ucast remaining :: u32) = unat remaining" using Z(2) by (simp add: unsigned_ucast_eq take_bit_nat_eq_self)
    then show ?thesis using True l room by (simp add: word_less_nat_alt unat_ucast_u64)
  qed (use l room in \<open>simp add: word_less_nat_alt unat_ucast_u64\<close>)
  have "unat (offset + len) = unat pos mod Z + min (unat remaining) (Z - unat pos mod Z)"
    using off len m Z(2) by (simp add: unat_word_ariths)
  then show "offset + len \<ge> vol_bytes_per_cluster vol \<longleftrightarrow> unat pos mod Z + min (unat remaining) (Z - unat pos mod Z) = Z"
    using m assms(2) by (auto simp: word_le_nat_alt)
qed

section \<open>Reading\<close>

text \<open>The clusters of a file.\<close>

definition file_chain :: "'d fat32_volume \<Rightarrow> (u32 \<Rightarrow> u32) \<Rightarrow> u32 list \<Rightarrow> bool" where
  "file_chain vol m cs \<longleftrightarrow> fat_chain m cs \<and> distinct cs \<and> (\<forall>c \<in> set cs. counted vol c)"

lemma counted_range:
  assumes "layout_ok has vol" and "counted vol c"
  shows "2 \<le> c" and "c < FAT32_CLUSTER_EOC" and "c \<noteq> 0"
  using assms by (auto simp: counted_def layout_ok_def sized_def word_le_nat_alt word_less_nat_alt)

text \<open>
  The bytes \<open>src\<close> have been stored from position \<open>P\<close> on: the clusters hold what they held, with these bytes put
  over it, and nothing else has changed.
\<close>

definition stored :: "('d \<Rightarrow> u64 \<Rightarrow> bytes) \<Rightarrow> ('d \<Rightarrow> bool) \<Rightarrow> (u64 \<Rightarrow> bool) \<Rightarrow> bytes option \<Rightarrow> 'd fat32_volume \<Rightarrow> (u32 \<Rightarrow> u32) \<Rightarrow> (u32 \<Rightarrow> bytes) \<Rightarrow> u32 list \<Rightarrow> nat \<Rightarrow> bytes
    \<Rightarrow> 'd fat32_volume \<Rightarrow> (u32 \<Rightarrow> u32) \<Rightarrow> (u32 \<Rightarrow> bytes) \<Rightarrow> u32 list \<Rightarrow> bool" where
  "stored sec live has mem vol m D cs P src vol' m' D' cs' \<longleftrightarrow> file_state sec live has mem vol' m' D' \<and> shape vol' = shape vol \<and>
     prefix cs cs' \<and> file_chain vol' m' cs' \<and> P + length src \<le> length cs' * unat (vol_bytes_per_cluster vol) \<and>
     file_bytes D' cs' = put_bytes P src (file_bytes D cs') \<and> (\<forall>x. x \<notin> set cs' \<longrightarrow> m' x = m x \<and> D' x = D x)"

lemma advance_block:
  assumes "0 < Z" and "P mod Z + n = Z"
  shows "(P + n) div Z = Suc (P div Z)" and "(P + n) mod Z = 0"
proof -
  have "P + n = Suc (P div Z) * Z" using assms(2) div_mult_mod_eq [of P Z] unfolding mult_Suc by linarith
  then show "(P + n) div Z = Suc (P div Z)" "(P + n) mod Z = 0" using assms(1) by simp_all
qed

lemma stay_in_block: "P mod Z + n < Z \<Longrightarrow> (P + n) div Z = P div (Z :: nat)"
  using mult_div_mod_eq [of Z P] by (intro div_nat_eqI) (unfold mult_Suc_right, linarith+)

lemma below_end: "0 < Z \<Longrightarrow> P + r \<le> n * Z \<Longrightarrow> 0 < r \<Longrightarrow> P div Z < (n :: nat)"
  using div_less_iff_less_mult [of Z P n] by linarith

text \<open>The clusters that are free.\<close>

definition free_clusters :: "'d fat32_volume \<Rightarrow> (u32 \<Rightarrow> u32) \<Rightarrow> u32 set" where
  "free_clusters vol m = {x. counted vol x \<and> m x = 0}"

lemma masked: "counted vol c \<Longrightarrow> layout_ok has vol \<Longrightarrow> c AND 0x0FFFFFFF = c" "FAT32_CLUSTER_EOC AND 0x0FFFFFFF = FAT32_CLUSTER_EOC"
proof -
  show "FAT32_CLUSTER_EOC AND 0x0FFFFFFF = FAT32_CLUSTER_EOC" by (simp add: FAT32_CLUSTER_EOC_def)
  assume "counted vol c" "layout_ok has vol"
  then have "unat c < 2 ^ 28" using counted_range(2) [of has vol c] by (simp add: word_less_nat_alt FAT32_CLUSTER_EOC_def)
  then have "take_bit 28 c = c" by (simp add: word_unat_eq_iff unsigned_take_bit_eq take_bit_nat_eq_self)
  moreover have "(0x0FFFFFFF :: u32) = mask 28" by (simp add: mask_eq_exp_minus_1)
  ultimately show "c AND 0x0FFFFFFF = c" by (simp add: take_bit_eq_mask)
qed

lemma put_nothing: "put_bytes P [] b = b"
  by (simp add: put_bytes_def)

lemma moved_file:
  assumes "unat n = k" and "unat (f_pos fp) + k < 2 ^ 32" and "pos = f_pos fp + ucast (n :: u32)"
  shows "unat pos = unat (f_pos fp) + k"
    and "unat (if pos > ucast (f_file_size fp) then ucast pos else f_file_size fp) = max (unat (f_file_size fp)) (unat (f_pos fp) + k)"
proof -
  show pos: "unat pos = unat (f_pos fp) + k" using assms by (simp add: unat_word_ariths unat_ucast_u64)
  then have "unat (ucast pos :: u32) = unat (f_pos fp) + k" using assms(2) by (simp add: unsigned_ucast_eq take_bit_nat_eq_self)
  then show "unat (if pos > ucast (f_file_size fp) then ucast pos else f_file_size fp) = max (unat (f_file_size fp)) (unat (f_pos fp) + k)"
    using pos by (auto simp: word_less_nat_alt unat_ucast_u64 max_def)
qed

lemma free_not_in_chain:
  assumes lay: "layout_ok has vol" and ch: "file_chain vol m cs" and free: "m c = 0"
  shows "c \<notin> set cs"
proof
  assume "c \<in> set cs"
  then obtain i where i: "i < length cs" "c = cs ! i" by (auto simp: in_set_conv_nth)
  show False
  proof (cases "Suc i < length cs")
    case True
    then have "m c = cs ! Suc i" "counted vol (cs ! Suc i)" using ch i by (auto simp: file_chain_def fat_chain_nth)
    then show False using free counted_range(3) [OF lay] by simp
  next
    case False
    then have "i = length cs - 1" using i(1) by simp
    then have "c = last cs" using i by (subst last_conv_nth) auto
    then show False using ch free by (simp add: file_chain_def fat_chain_nth FAT32_CLUSTER_EOC_def)
  qed
qed

lemma file_chain_upd:
  assumes "file_chain vol m cs" and "c \<notin> set cs" and "shape vol' = shape vol"
  shows "file_chain vol' (m(c := v)) cs"
proof -
  have "cs \<noteq> []" using assms(1) by (auto simp: file_chain_def fat_chain_nth)
  moreover have "cs ! i \<noteq> c" if "Suc i < length cs" for i using that assms(2) by (metis Suc_lessD nth_mem)
  ultimately show ?thesis using assms by (auto simp: file_chain_def fat_chain_nth shape_fields [OF assms(3)])
qed

context extent_device
begin

lemma data_length: "file_state sec live has mem vol m D \<Longrightarrow> counted vol c \<Longrightarrow> length (D c) = unat (vol_bytes_per_cluster vol)"
proof -
  assume f: "file_state sec live has mem vol m D" and c: "counted vol c"
  have "length (concat (map (sec d) ls)) = 512 * length ls" for d ls by (induction ls) (simp_all add: sec_length)
  moreover have "length (cluster_run vol c) = unat (vol_sectors_per_cluster vol)" by (simp add: cluster_run_def run_of_def)
  ultimately have "length (cluster_data sec vol c) = 512 * unat (vol_sectors_per_cluster vol)" by (simp add: cluster_data_def)
  then show ?thesis using f c by (simp add: file_state_def layout_ok_def)
qed

text \<open>The successor in the chain, or 0 at its end.\<close>

lemma next_in_chain:
  assumes f: "file_state sec live has mem vol m D" and ch: "file_chain vol m cs" and k: "k < length cs"
  obtains vol' where "fat32_next_cluster ops mem vol (cs ! k) = (if Suc k < length cs then cs ! Suc k else 0, vol')"
    and "file_state sec live has mem vol' m D" and "shape vol' = shape vol"
proof -
  have lay: "layout_ok has vol" using f by (simp add: file_state_def)
  have c: "counted vol (cs ! k)" using ch k by (simp add: file_chain_def)
  have e: "(if m (cs ! k) \<ge> FAT32_CLUSTER_EOC then 0 else m (cs ! k)) = (if Suc k < length cs then cs ! Suc k else 0)"
  proof (cases "Suc k < length cs")
    case True
    then have "m (cs ! k) = cs ! Suc k" "counted vol (cs ! Suc k)" using ch by (auto simp: file_chain_def fat_chain_nth)
    moreover from this(2) have "\<not> FAT32_CLUSTER_EOC \<le> cs ! Suc k" using counted_range(2) [OF lay] by (simp only: not_le)
    ultimately show ?thesis using True by simp
  next
    case False
    then have "cs ! k = last cs" using k by (metis Suc_lessI diff_Suc_1 last_conv_nth list.size(3) not_less_zero)
    then show ?thesis using False ch by (simp add: file_chain_def fat_chain_nth)
  qed
  obtain vol' where "fat32_next_cluster ops mem vol (cs ! k) = (if m (cs ! k) \<ge> FAT32_CLUSTER_EOC then 0 else m (cs ! k), vol')"
    "file_state sec live has mem vol' m D" "shape vol' = shape vol" by (rule next_rule [OF f c])
  then show thesis using that unfolding e by blast
qed

lemma read_loop_rule:
  assumes "file_state sec live has mem vol m D" and "file_chain vol m cs" and "Z = unat (vol_bytes_per_cluster vol)"
    and "P = unat (f_pos fp)" and "R = unat remaining" and "P + R \<le> length cs * Z" and "P + R < 2 ^ 64"
    and "R \<noteq> 0 \<Longrightarrow> cluster = cs ! (P div Z)"
  shows "\<exists>fp' vol'. read_loop ops mem True acc remaining cluster fp vol =
      Some (acc @ take R (drop P (file_bytes D cs)), fp', vol') \<and> file_state sec live has mem vol' m D \<and>
      shape vol' = shape vol \<and> f_pos fp' = f_pos fp + remaining"
  using assms
proof (induction R arbitrary: acc remaining cluster fp vol P rule: less_induct)
  case (less R)
  note f = less.prems(1) and ch = less.prems(2) and Z = less.prems(3) and P = less.prems(4) and R = less.prems(5)
  have lay: "layout_ok has vol" using f by (simp add: file_state_def)
  have Z0: "0 < Z" using lay Z by (simp add: layout_ok_def)
  show ?case
  proof (cases "R = 0")
    case True
    then have "remaining = 0" using R by (simp add: unat_eq_zero)
    then show ?thesis using f by (subst read_loop.simps) (simp add: True)
  next
    case False
    let ?k = "P div Z"
    have cl: "cluster = cs ! ?k" using less.prems(8) False by blast
    have k: "?k < length cs" using below_end [OF Z0 less.prems(6)] False by simp
    have c: "counted vol cluster" using ch k cl by (simp add: file_chain_def)
    obtain offset len where sp: "transfer_span vol (f_pos fp) remaining = (offset, len)" by (rule prod.exhaust)
    define n where "n = min R (Z - P mod Z)"
    have span: "unat offset = P mod Z" "unat len = n" "offset + len \<ge> vol_bytes_per_cluster vol \<longleftrightarrow> P mod Z + n = Z"
      using transfer_span_nat [OF _ Z sp] Z0 Z by (simp_all add: n_def P R)
    have m: "P mod Z < Z" using Z0 by simp
    then have n: "0 < n" "n \<le> R" "P mod Z + n \<le> Z" using False by (auto simp: n_def)
    have lenD: "\<forall>c \<in> set cs. length (D c) = Z" using data_length [OF f] ch Z by (simp add: file_chain_def)
    let ?B = "file_bytes D cs"
    have part: "take n (drop (P mod Z) (D cluster)) = take n (drop P ?B)"
      using block_part [OF lenD k n(3)] cl by simp
    have piece: "(if \<not> (offset = 0 \<and> len = vol_bytes_per_cluster vol) then take (unat len) (drop (unat offset) (D cluster)) else D cluster)
        = take n (drop P ?B)"
      using part span(1,2) data_length [OF f c] Z by auto
    have pos: "unat (f_pos fp + ucast len) = P + n"
      using less.prems(7) n(2) span(2) by (simp add: unat_word_ariths unat_ucast_u64 P)
    have left: "unat (remaining - ucast len) = R - n"
      using n(2) span(2) R by (subst unat_sub) (simp_all add: word_le_nat_alt unat_ucast_u64)
    have whole: "take R (drop P ?B) = take n (drop P ?B) @ take (R - n) (drop (P + n) ?B)"
      using take_add [of n "R - n" "drop P ?B"] n(2) by (simp add: add.commute)
    have bound: "P + n + (R - n) \<le> length cs * Z" "P + n + (R - n) < 2 ^ 64" "R - n < R"
      using less.prems(6,7) n(1,2) by simp_all
    let ?acc = "acc @ take n (drop P ?B)" and ?fp = "fp\<lparr>f_pos := f_pos fp + ucast len\<rparr>" and ?left = "remaining - ucast len"
    have body: "read_loop ops mem True acc remaining cluster fp vol =
        (if offset + len \<ge> vol_bytes_per_cluster vol then
           (case fat32_next_cluster ops mem vol cluster of (next, vol1) \<Rightarrow>
              read_loop ops mem True ?acc ?left next (?fp\<lparr>f_current_cluster := next\<rparr>) vol1)
         else read_loop ops mem True ?acc ?left cluster ?fp vol)"
      using counted_range [OF lay c] False R sp read_cluster [OF f c] piece
      by (subst read_loop.simps) (simp add: Let_def word_less_nat_alt)
    show ?thesis
    proof (cases "P mod Z + n = Z")
      case True
      note adv = advance_block [OF Z0 True]
      obtain vol1 where nx: "fat32_next_cluster ops mem vol cluster = (if Suc ?k < length cs then cs ! Suc ?k else 0, vol1)"
        "file_state sec live has mem vol1 m D" "shape vol1 = shape vol"
        using next_in_chain [OF f ch k] cl by metis
      note S = shape_fields [OF nx(3)]
      have ch1: "file_chain vol1 m cs" using ch by (simp add: file_chain_def S)
      define nxt where "nxt = (if Suc ?k < length cs then cs ! Suc ?k else 0)"
      have "nxt = cs ! ((P + n) div Z)" if "R - n \<noteq> 0" using below_end [OF Z0 bound(1)] that adv(1) by (simp add: nxt_def)
      then have "\<exists>fp' vol'. read_loop ops mem True ?acc ?left nxt (?fp\<lparr>f_current_cluster := nxt\<rparr>) vol1 =
          Some (?acc @ take (R - n) (drop (P + n) ?B), fp', vol') \<and> file_state sec live has mem vol' m D \<and>
          shape vol' = shape vol1 \<and> f_pos fp' = f_pos (?fp\<lparr>f_current_cluster := nxt\<rparr>) + ?left"
        using pos left bound Z by (intro less.IH [OF bound(3) nx(2) ch1]) (simp_all add: S)
      then show ?thesis using body nx(1,3) True span(3) whole by (simp flip: nxt_def)
    next
      case False
      then have "R - n = 0" using m by (auto simp: n_def min_def split: if_splits)
      then have "\<exists>fp' vol'. read_loop ops mem True ?acc ?left cluster ?fp vol =
          Some (?acc @ take (R - n) (drop (P + n) ?B), fp', vol') \<and> file_state sec live has mem vol' m D \<and>
          shape vol' = shape vol \<and> f_pos fp' = f_pos fp + ucast len + ?left"
        using less.IH [OF bound(3) f ch, of "P + n" ?fp ?left] Z pos left bound by simp
      then show ?thesis using body False span(3) whole by simp
    qed
  qed
qed

section \<open>Writing\<close>

lemma store_part_rule:
  assumes f: "file_state sec live has mem vol m D" and c: "counted vol c" and b: "unat off + length p \<le> unat (vol_bytes_per_cluster vol)"
  obtains vol' where "store_part ops True c off p vol = (True, vol')"
    and "file_state sec live has mem vol' m (D(c := put_bytes (unat off) p (D c)))" and "shape vol' = shape vol"
proof -
  have len: "length (put_bytes (unat off) p (D c)) = unat (vol_bytes_per_cluster vol)"
    using data_length [OF f c] b by (simp add: length_put_bytes)
  have whole: "put_bytes (unat off) p (D c) = p" if "off = 0 \<and> length p = unat (vol_bytes_per_cluster vol)"
    using that data_length [OF f c] by (simp add: put_bytes_def)
  obtain d where d: "blk_write ops (vol_ctx vol) (fat32_cluster_to_lba vol c) (vol_sectors_per_cluster vol) (put_bytes (unat off) p (D c)) = (0, d)"
    "file_state sec live has mem (vol\<lparr>vol_ctx := d\<rparr>) m (D(c := put_bytes (unat off) p (D c)))"
    by (rule write_cluster [OF f c len])
  then have "store_part ops True c off p vol = (True, vol\<lparr>vol_ctx := d\<rparr>)"
    using whole read_cluster [OF f c] by (auto simp: store_part_def Let_def)
  then show thesis using that d(2) by (simp add: shape_def)
qed

lemma extend_rule:
  assumes f: "file_state sec live has mem vol m D" and ch: "file_chain vol m cs" and free: "free_clusters vol m \<noteq> {}"
    and first: "f_first_cluster fp = hd cs"
  obtains c vol' where "ensure_cluster ops mem 0 (last cs) fp vol = (c, fp\<lparr>f_current_cluster := c\<rparr>, vol')"
    and "c \<in> free_clusters vol m" and "c \<notin> set cs" and "shape vol' = shape vol"
    and "file_state sec live has mem vol' (m(last cs := c, c := FAT32_CLUSTER_EOC)) D"
    and "file_chain vol' (m(last cs := c, c := FAT32_CLUSTER_EOC)) (cs @ [c])"
proof -
  have lay: "layout_ok has vol" using f by (simp add: file_state_def)
  have ne: "cs \<noteq> []" using ch by (auto simp: file_chain_def fat_chain_nth)
  have lc: "counted vol (last cs)" "counted vol (hd cs)" using ch ne by (auto simp: file_chain_def)
  have ex: "\<exists>x. counted vol x \<and> m x = 0" using free by (auto simp: free_clusters_def)
  obtain c vol1 where a: "fat32_alloc_clusters ops mem vol 1 0 = (c, vol1)" "counted vol c" "m c = 0"
    "file_state sec live has mem vol1 (m(c := FAT32_CLUSTER_EOC)) D" "shape vol1 = shape vol"
    by (rule alloc_cluster_rule [OF f ex])
  note S1 = shape_fields [OF a(5)]
  have lc1: "counted vol1 (last cs)" using lc by (simp add: S1)
  obtain vol2 where w: "fat_write_entry ops mem vol1 (last cs) c = (0, vol2)"
    "file_state sec live has mem vol2 ((m(c := FAT32_CLUSTER_EOC))(last cs := c AND 0x0FFFFFFF)) D" "shape vol2 = shape vol1"
    by (rule entry_rule [OF a(4) lc1])
  note S2 = shape_fields [OF w(3)]
  have c2: "counted vol2 c" using a(2) by (simp add: S1 S2)
  obtain vol3 where e: "fat_write_entry ops mem vol2 c FAT32_CLUSTER_EOC = (0, vol3)"
    "file_state sec live has mem vol3 ((m(c := FAT32_CLUSTER_EOC, last cs := c AND 0x0FFFFFFF))(c := FAT32_CLUSTER_EOC AND 0x0FFFFFFF)) D"
    "shape vol3 = shape vol2"
    by (rule entry_rule [OF w(2) c2])
  have new: "c \<notin> set cs" by (rule free_not_in_chain [OF lay ch a(3)])
  then have m: "m(c := FAT32_CLUSTER_EOC, last cs := c AND 0x0FFFFFFF, c := FAT32_CLUSTER_EOC AND 0x0FFFFFFF) =
      m(last cs := c, c := FAT32_CLUSTER_EOC)"
    using masked(1) [OF a(2) lay] masked(2) by (simp add: fun_upd_twist)
  have sh: "shape vol3 = shape vol" using e(3) w(3) a(5) by simp
  have "file_chain vol3 (m(last cs := c, c := FAT32_CLUSTER_EOC)) (cs @ [c])"
    using ch new chain_snoc [of m cs c] a(2) unfolding file_chain_def by (simp add: shape_fields [OF sh])
  moreover have "ensure_cluster ops mem 0 (last cs) fp vol = (c, fp\<lparr>f_current_cluster := c\<rparr>, vol3)"
    using a(1) w(1) e(1) first counted_range [OF lay lc(1)] counted_range [OF lay lc(2)] counted_range(3) [OF lay a(2)]
    by (simp add: ensure_cluster_def)
  ultimately show thesis using that [of c vol3] a(2,3) new sh e(2) m by (simp add: free_clusters_def)
qed

text \<open>The cluster that holds the position of a file, taken from the free ones when the position is at the end.\<close>

lemma ready_rule:
  assumes f: "file_state sec live has mem vol m D" and ch: "file_chain vol m cs" and first: "f_first_cluster fp = hd cs"
    and at: "P div Z < length cs \<and> cluster = cs ! (P div Z) \<or> P = length cs * Z \<and> cluster = 0 \<and> prev = last cs"
    and room: "P < (length cs + card (free_clusters vol m)) * Z"
  obtains c fp1 vol1 m1 cs1 where "ensure_cluster ops mem cluster prev fp vol = (c, fp\<lparr>f_current_cluster := fp1\<rparr>, vol1)"
    and "P div Z < length (cs @ cs1)" and "c = (cs @ cs1) ! (P div Z)" and "file_state sec live has mem vol1 m1 D"
    and "file_chain vol1 m1 (cs @ cs1)" and "shape vol1 = shape vol" and "\<forall>x. x \<notin> set (cs @ cs1) \<longrightarrow> m1 x = m x"
    and "length (cs @ cs1) + card (free_clusters vol1 m1) = length cs + card (free_clusters vol m)"
proof -
  have lay: "layout_ok has vol" using f by (simp add: file_state_def)
  show thesis
  proof (cases "P div Z < length cs \<and> cluster = cs ! (P div Z)")
    case True
    then have "counted vol cluster" using ch by (simp add: file_chain_def)
    note r = counted_range [OF lay this]
    have "ensure_cluster ops mem cluster prev fp vol = (cluster, fp\<lparr>f_current_cluster := f_current_cluster fp\<rparr>, vol)"
      using r by (simp add: ensure_cluster_def not_less [symmetric])
    then show thesis using that [of cluster "f_current_cluster fp" vol "[]" m] True f ch by simp
  next
    case False
    then have P: "P = length cs * Z" "cluster = 0" "prev = last cs" using at by auto
    then have Z: "0 < Z" "free_clusters vol m \<noteq> {}" using room by (auto intro!: gr0I)
    obtain c vol1 where e: "ensure_cluster ops mem 0 (last cs) fp vol = (c, fp\<lparr>f_current_cluster := c\<rparr>, vol1)"
      "c \<in> free_clusters vol m" "c \<notin> set cs" "shape vol1 = shape vol"
      "file_state sec live has mem vol1 (m(last cs := c, c := FAT32_CLUSTER_EOC)) D"
      "file_chain vol1 (m(last cs := c, c := FAT32_CLUSTER_EOC)) (cs @ [c])"
      by (rule extend_rule [OF f ch Z(2) first])
    have ne: "cs \<noteq> []" and end_mark: "FAT32_CLUSTER_EOC \<le> m (last cs)" using ch by (simp_all add: file_chain_def fat_chain_nth)
    have c0: "c \<noteq> 0" using e(2) counted_range(3) [OF lay] by (simp add: free_clusters_def)
    have "m (last cs) \<noteq> 0" using end_mark by (auto simp: FAT32_CLUSTER_EOC_def)
    then have "free_clusters vol1 (m(last cs := c, c := FAT32_CLUSTER_EOC)) = free_clusters vol m - {c}"
      using c0 by (auto simp: free_clusters_def shape_fields [OF e(4)] FAT32_CLUSTER_EOC_def)
    moreover have "card (free_clusters vol m - {c}) + 1 = card (free_clusters vol m)"
      using e(2) by (metis Suc_eq_plus1 card_Suc_Diff1 finite)
    ultimately show thesis using that [of c c vol1 "[c]" "m(last cs := c, c := FAT32_CLUSTER_EOC)"] e P Z ne
      by (simp add: nth_append)
  qed
qed

lemma stored_step:
  assumes f: "file_state sec live has mem vol m D"
    and fr: "\<forall>x. x \<notin> set cs1 \<longrightarrow> m1 x = m x" and pre: "prefix cs cs1" and k: "P div Z < length cs1" and Z: "Z = unat (vol_bytes_per_cluster vol)"
    and p: "P mod Z + length p \<le> Z" and shd: "shape vold = shape vol"
    and rest: "stored sec live has mem vold m1 (D(cs1 ! (P div Z) := put_bytes (P mod Z) p (D (cs1 ! (P div Z))))) cs1 (P + length p) src vol' m' D' cs'"
  shows "stored sec live has mem vol m D cs P (p @ src) vol' m' D' cs'"
proof -
  let ?c = "cs1 ! (P div Z)" let ?D = "D(?c := put_bytes (P mod Z) p (D ?c))"
  have R: "file_state sec live has mem vol' m' D'" "shape vol' = shape vol" "prefix cs1 cs'" "file_chain vol' m' cs'"
    "P + length p + length src \<le> length cs' * Z" "file_bytes D' cs' = put_bytes (P + length p) src (file_bytes ?D cs')"
    "\<forall>x. x \<notin> set cs' \<longrightarrow> m' x = m1 x \<and> D' x = ?D x"
    using rest shd shape_fields(6) [OF shd] Z by (auto simp: stored_def)
  have sub: "set cs1 \<subseteq> set cs'" "cs1 ! (P div Z) = cs' ! (P div Z)" "P div Z < length cs'"
    using R(3) k by (auto simp: prefix_def nth_append)
  have len: "\<forall>c \<in> set cs'. length (D c) = Z"
    using R(4) data_length [OF f] Z by (auto simp: file_chain_def shape_fields [OF R(2)])
  have "file_bytes ?D cs' = put_bytes P p (file_bytes D cs')"
    using put_block [OF len _ sub(3) p] R(4) unfolding sub(2) by (simp add: file_chain_def)
  moreover have "P + length p \<le> length (file_bytes D cs')" using R(5) drop_file_blocks(2) [OF len, of 0] by simp
  ultimately have "file_bytes D' cs' = put_bytes P (p @ src) (file_bytes D cs')" using R(6) by (simp add: put_bytes_twice)
  moreover have "prefix cs cs'" using pre R(3) by (rule prefix_order.trans)
  moreover have "m' x = m x \<and> D' x = D x" if "x \<notin> set cs'" for x
    using that R(7) fr sub k nth_mem [OF k] by (auto split: if_splits)
  ultimately show ?thesis using R Z by (simp add: stored_def add.assoc)
qed

lemma transfer_rule:
  assumes ens: "ensure_cluster ops mem cluster prev fp0 vol0 = (c, fp, vol)"
    and f: "file_state sec live has mem vol m D" and ch: "file_chain vol m cs" and Z: "Z = unat (vol_bytes_per_cluster vol)"
    and P: "P = unat (f_pos fp)" and L: "L = length src" "0 < L" and small: "P + L < 2 ^ 32"
    and k: "P div Z < length cs" and c: "c = cs ! (P div Z)"
  obtains n nxt prv fp' vol' where "0 < n" and "n \<le> L" and "P mod Z + n \<le> Z"
    and "write_loop ops mem True src written cluster prev fp0 vol0 = write_loop ops mem True (drop n src) (written + of_nat n) nxt prv fp' vol'"
    and "file_state sec live has mem vol' m (D(c := put_bytes (P mod Z) (take n src) (D c)))" and "shape vol' = shape vol"
    and "f_pos fp' = f_pos fp + of_nat n" and "unat (f_pos fp') = P + n" and "unat (f_file_size fp') = max (unat (f_file_size fp)) (P + n)"
    and "f_first_cluster fp' = f_first_cluster fp" and "f_vol fp' = f_vol fp"
    and "(P + n) div Z < length cs \<and> nxt = cs ! ((P + n) div Z) \<or> P + n = length cs * Z \<and> nxt = 0 \<and> prv = last cs"
proof -
  have lay: "layout_ok has vol" using f by (simp add: file_state_def)
  have Z0: "0 < Z" using lay Z by (simp add: layout_ok_def)
  have cc: "counted vol c" using k c ch by (simp add: file_chain_def)
  obtain offset len where sp: "transfer_span vol (f_pos fp) (of_nat (length src)) = (offset, len)" by (rule prod.exhaust)
  define n where "n = min L (Z - P mod Z)"
  have "unat (of_nat (length src) :: u64) = L" using L small by (simp add: unat_of_nat_u64)
  then have span: "unat offset = P mod Z" "unat len = n" "offset + len \<ge> vol_bytes_per_cluster vol \<longleftrightarrow> P mod Z + n = Z"
    using transfer_span_nat [OF _ Z sp] Z0 Z by (simp_all add: n_def P)
  have md: "P mod Z < Z" using Z0 by simp
  then have n: "0 < n" "n \<le> L" "P mod Z + n \<le> Z" using L by (auto simp: n_def)
  let ?p = "take n src" and ?pos = "f_pos fp + ucast len"
  let ?fp = "fp\<lparr>f_pos := ?pos, f_file_size := (if ?pos > ucast (f_file_size fp) then ucast ?pos else f_file_size fp)\<rparr>"
  have part: "unat offset + length ?p \<le> unat (vol_bytes_per_cluster vol)" using n(2,3) span(1) L Z by simp
  obtain vol2 where st: "store_part ops True c offset ?p vol = (True, vol2)"
    "file_state sec live has mem vol2 m (D(c := put_bytes (unat offset) ?p (D c)))" "shape vol2 = shape vol"
    by (rule store_part_rule [OF f cc part])
  note S2 = shape_fields [OF st(3)] and st2 = st(2) [unfolded span(1)]
  have ch2: "file_chain vol2 m cs" using ch by (simp add: file_chain_def S2)
  have mv: "unat ?pos = P + n" "unat (f_file_size ?fp) = max (unat (f_file_size fp)) (P + n)"
    using moved_file [OF span(2), of fp ?pos] small n(2) P by auto
  have cnt: "(ucast len :: u64) = of_nat n" using span(2) small n(2) by (simp add: word_unat_eq_iff unat_ucast_u64 unat_of_nat_u64)
  have body: "write_loop ops mem True src written cluster prev fp0 vol0 =
      (if offset + len \<ge> vol_bytes_per_cluster vol then
         (case fat32_next_cluster ops mem vol2 c of (next, vol3) \<Rightarrow>
            write_loop ops mem True (drop n src) (written + of_nat n) next c (?fp\<lparr>f_current_cluster := next\<rparr>) vol3)
       else write_loop ops mem True (drop n src) (written + of_nat n) c prev ?fp vol2)"
    using L ens counted_range(3) [OF lay cc] sp st(1) span(2) cnt
    by (subst write_loop.simps) (auto simp: Let_def S2)
  show thesis
  proof (cases "P mod Z + n = Z")
    case True
    note adv = advance_block [OF Z0 True]
    define nxt where "nxt = (if Suc (P div Z) < length cs then cs ! Suc (P div Z) else 0)"
    obtain vol3 where nx: "fat32_next_cluster ops mem vol2 c = (nxt, vol3)"
      "file_state sec live has mem vol3 m (D(c := put_bytes (P mod Z) ?p (D c)))" "shape vol3 = shape vol2"
      using next_in_chain [OF st2 ch2 k] unfolding c nxt_def by metis
    have fin: "P + n = length cs * Z \<and> c = last cs" if "\<not> Suc (P div Z) < length cs"
    proof -
      have "length cs = Suc (P div Z)" using that k by simp
      then show ?thesis using adv True div_mult_mod_eq [of "P + n" Z] c k by (simp add: last_conv_nth flip: length_0_conv)
    qed
    have "(P + n) div Z < length cs \<and> nxt = cs ! ((P + n) div Z) \<or> P + n = length cs * Z \<and> nxt = 0 \<and> c = last cs"
      using adv(1) fin by (auto simp: nxt_def)
    then show thesis using that [OF n _ nx(2), of nxt c "?fp\<lparr>f_current_cluster := nxt\<rparr>"] body nx(1,3) st(3) mv cnt True span(3) by simp
  next
    case False
    have "(P + n) div Z = P div Z" by (rule stay_in_block) (use False n(3) in simp)
    then show thesis using that [OF n _ st2, of c prev ?fp] body st(3) mv cnt False span(3) k c by simp
  qed
qed

lemma write_loop_rule:
  assumes "file_state sec live has mem vol m D" and "file_chain vol m cs" and "Z = unat (vol_bytes_per_cluster vol)"
    and "P = unat (f_pos fp)" and "L = length src" and "f_first_cluster fp = hd cs"
    and "P div Z < length cs \<and> cluster = cs ! (P div Z) \<or> P = length cs * Z \<and> cluster = 0 \<and> prev = last cs"
    and "P + L \<le> (length cs + card (free_clusters vol m)) * Z" and "P + L < 2 ^ 32" and "P \<le> unat (f_file_size fp)"
  shows "\<exists>fp' vol' m' D' cs'. write_loop ops mem True src written cluster prev fp vol = Some (written + of_nat L, fp', vol') \<and>
      stored sec live has mem vol m D cs P src vol' m' D' cs' \<and>
      unat (f_file_size fp') = max (unat (f_file_size fp)) (P + L) \<and> f_first_cluster fp' = hd cs \<and> f_vol fp' = f_vol fp"
  using assms
proof (induction L arbitrary: src written cluster prev fp vol m D cs P rule: less_induct)
  case (less L)
  note f = less.prems(1) and ch = less.prems(2) and Z = less.prems(3) and P = less.prems(4) and L = less.prems(5)
    and first = less.prems(6) and at = less.prems(7) and room = less.prems(8)
  show ?case
  proof (cases "L = 0")
    case True
    have "0 < Z" using f Z by (simp add: file_state_def layout_ok_def)
    then have "P \<le> length cs * Z" using at div_less_iff_less_mult [of Z P "length cs"] by linarith
    then have "stored sec live has mem vol m D cs P [] vol m D cs" using f ch Z by (simp add: stored_def put_nothing)
    then show ?thesis using True L less.prems(6,10) by (subst write_loop.simps) (auto simp: max_def)
  next
    case False
    then have L0: "0 < L" by simp
    have "P < (length cs + card (free_clusters vol m)) * Z" using room L0 by linarith
    note ready = ready_rule [OF f ch first at this]
    obtain c cc vol1 ns m1 where e: "ensure_cluster ops mem cluster prev fp vol = (c, fp\<lparr>f_current_cluster := cc\<rparr>, vol1)"
      "P div Z < length (cs @ ns)" "c = (cs @ ns) ! (P div Z)" "file_state sec live has mem vol1 m1 D" "file_chain vol1 m1 (cs @ ns)"
      "shape vol1 = shape vol" "\<forall>x. x \<notin> set (cs @ ns) \<longrightarrow> m1 x = m x"
      "length (cs @ ns) + card (free_clusters vol1 m1) = length cs + card (free_clusters vol m)"
      by (rule ready)
    let ?cs = "cs @ ns" and ?fp = "fp\<lparr>f_current_cluster := cc\<rparr>"
    have Z1: "Z = unat (vol_bytes_per_cluster vol1)" and P1: "P = unat (f_pos ?fp)" using Z P shape_fields(6) [OF e(6)] by simp_all
    obtain n nxt prv fp' vol' where t: "0 < n" "n \<le> L" "P mod Z + n \<le> Z"
      "write_loop ops mem True src written cluster prev fp vol = write_loop ops mem True (drop n src) (written + of_nat n) nxt prv fp' vol'"
      "file_state sec live has mem vol' m1 (D(c := put_bytes (P mod Z) (take n src) (D c)))" "shape vol' = shape vol1"
      "f_pos fp' = f_pos ?fp + of_nat n" "unat (f_pos fp') = P + n" "unat (f_file_size fp') = max (unat (f_file_size ?fp)) (P + n)"
      "f_first_cluster fp' = f_first_cluster ?fp" "f_vol fp' = f_vol ?fp"
      "(P + n) div Z < length ?cs \<and> nxt = ?cs ! ((P + n) div Z) \<or> P + n = length ?cs * Z \<and> nxt = 0 \<and> prv = last ?cs"
      by (rule transfer_rule [OF e(1,4,5) Z1 P1 L L0 less.prems(9) e(2,3)])
    let ?D = "D(c := put_bytes (P mod Z) (take n src) (D c))"
    have sh: "shape vol' = shape vol" using t(6) e(6) by simp
    have ne: "cs \<noteq> []" using ch by (auto simp: file_chain_def fat_chain_nth)
    have "\<exists>fq vq m' D' cs'. write_loop ops mem True (drop n src) (written + of_nat n) nxt prv fp' vol' =
        Some (written + of_nat n + of_nat (L - n), fq, vq) \<and> stored sec live has mem vol' m1 ?D ?cs (P + n) (drop n src) vq m' D' cs' \<and>
        unat (f_file_size fq) = max (unat (f_file_size fp')) (P + n + (L - n)) \<and> f_first_cluster fq = hd ?cs \<and> f_vol fq = f_vol fp'"
    proof (rule less.IH [OF _ t(5) _ _ t(8) [symmetric]])
      show "file_chain vol' m1 ?cs" using e(5) by (simp add: file_chain_def shape_fields [OF t(6)])
      show "Z = unat (vol_bytes_per_cluster vol')" using Z shape_fields(6) [OF sh] by simp
      show "P + n + (L - n) \<le> (length ?cs + card (free_clusters vol' m1)) * Z"
      proof -
        have "free_clusters vol' m1 = free_clusters vol1 m1" by (simp add: free_clusters_def shape_fields [OF t(6)])
        then show ?thesis using room t(2) unfolding e(8) [symmetric] by simp
      qed
    qed (use t L ne first less.prems(9) in simp_all)
    then obtain fq vq m' D' cs' where q: "write_loop ops mem True src written cluster prev fp vol = Some (written + of_nat L, fq, vq)"
      "stored sec live has mem vol' m1 ?D ?cs (P + n) (drop n src) vq m' D' cs'"
      "unat (f_file_size fq) = max (unat (f_file_size fp)) (P + L)" "f_first_cluster fq = hd cs" "f_vol fq = f_vol fp"
      using t ne by (auto simp: add.assoc max_def of_nat_diff)
    have "stored sec live has mem vol m D cs P (take n src @ drop n src) vq m' D' cs'"
    proof (rule stored_step [OF f e(7) _ e(2) Z _ sh])
      show "stored sec live has mem vol' m1 (D(?cs ! (P div Z) := put_bytes (P mod Z) (take n src) (D (?cs ! (P div Z))))) ?cs
          (P + length (take n src)) (drop n src) vq m' D' cs'"
        using q(2) t(2) L e(3) by simp
    qed (use t(2,3) L in simp_all)
    then show ?thesis using q by auto
  qed
qed

lemma prev_loop_rule:
  assumes "file_state sec live has mem vol m D" and "file_chain vol m cs" and "k < length cs" and "i < k"
  shows "\<exists>p vol'. prev_loop ops mem (cs ! k) prev (cs ! i) vol = Some (p, vol') \<and> file_state sec live has mem vol' m D \<and> shape vol' = shape vol"
  using assms
proof (induction "k - i" arbitrary: i prev vol rule: less_induct)
  case less
  note f = less.prems(1) and ch = less.prems(2)
  have lay: "layout_ok has vol" using f by (simp add: file_state_def)
  have c: "counted vol (cs ! i)" "counted vol (cs ! Suc i)" "i < length cs" using ch less.prems(3,4) by (simp_all add: file_chain_def)
  obtain vol1 where nx: "fat32_next_cluster ops mem vol (cs ! i) = (if Suc i < length cs then cs ! Suc i else 0, vol1)"
    "file_state sec live has mem vol1 m D" "shape vol1 = shape vol" by (rule next_in_chain [OF f ch c(3)])
  have ch1: "file_chain vol1 m cs" using ch by (simp add: file_chain_def shape_fields [OF nx(3)])
  have step: "prev_loop ops mem (cs ! k) prev (cs ! i) vol =
      (if cs ! Suc i = cs ! k then Some (prev, vol1) else prev_loop ops mem (cs ! k) (cs ! i) (cs ! Suc i) vol1)"
    using nx(1) less.prems(3,4) counted_range [OF lay c(1)] counted_range [OF lay c(2)]
    by (subst prev_loop.simps) (simp add: not_less [symmetric])
  show ?case
  proof (cases "cs ! Suc i = cs ! k")
    case False
    then have "Suc i < k" using less.prems(4) by (metis Suc_lessI)
    then show ?thesis using less.hyps [OF _ nx(2) ch1 less.prems(3)] step False nx(3) by simp
  qed (use step nx in simp)
qed

lemma find_prev_rule:
  assumes f: "file_state sec live has mem vol m D" and ch: "file_chain vol m cs" and k: "k < length cs"
    and fp: "f_first_cluster fp = hd cs" "f_current_cluster fp = cs ! k"
  shows "\<exists>p vol'. find_prev ops mem fp vol = Some (p, vol') \<and> file_state sec live has mem vol' m D \<and> shape vol' = shape vol"
proof -
  have ne: "cs \<noteq> []" using k by auto
  show ?thesis
  proof (cases "k = 0")
    case False
    then show ?thesis using prev_loop_rule [OF f ch k, of 0 "cs ! 0"] fp f ne by (auto simp: find_prev_def Let_def hd_conv_nth)
  qed (use fp f ne in \<open>auto simp: find_prev_def Let_def hd_conv_nth\<close>)
qed

lemma seek_walk_rule:
  assumes "file_state sec live has mem vol m D" and "file_chain vol m cs" and "j + i < length cs"
  shows "\<exists>vol'. seek_walk ops mem i (cs ! j) vol = (cs ! (j + i), vol') \<and> file_state sec live has mem vol' m D \<and> shape vol' = shape vol"
  using assms
proof (induction i arbitrary: j vol)
  case (Suc i)
  note f = Suc.prems(1) and ch = Suc.prems(2)
  have lay: "layout_ok has vol" using f by (simp add: file_state_def)
  have c: "counted vol (cs ! Suc j)" "j < length cs" using ch Suc.prems(3) by (simp_all add: file_chain_def)
  obtain vol1 where nx: "fat32_next_cluster ops mem vol (cs ! j) = (if Suc j < length cs then cs ! Suc j else 0, vol1)"
    "file_state sec live has mem vol1 m D" "shape vol1 = shape vol" by (rule next_in_chain [OF f ch c(2)])
  have ch1: "file_chain vol1 m cs" using ch by (simp add: file_chain_def shape_fields [OF nx(3)])
  show ?case using Suc.IH [OF nx(2) ch1, of "Suc j"] nx(1,3) Suc.prems(3) counted_range [OF lay c(1)]
    by (simp add: not_less [symmetric])
qed simp

lemma seek_rule:
  assumes f: "file_state sec live has mem vol m D" and ch: "file_chain vol m cs" and Z: "Z = unat (vol_bytes_per_cluster vol)"
    and fp: "f_first_cluster fp = hd cs" and Q: "Q div Z < length cs" "Q < 2 ^ 32"
  shows "\<exists>vol'. fat32_seek ops mem fp vol (int Q) 0 = (int Q, fp\<lparr>f_pos := of_nat Q, f_current_cluster := cs ! (Q div Z)\<rparr>, vol') \<and>
      file_state sec live has mem vol' m D \<and> shape vol' = shape vol"
proof -
  have ne: "cs \<noteq> []" using Q by auto
  have u: "unat (of_nat Q :: u64) = Q" using Q(2) by (simp add: unat_of_nat_u64)
  then have k: "unat ((of_nat Q :: u64) div ucast (vol_bytes_per_cluster vol)) = Q div Z" by (simp add: unat_div unat_ucast_u64 Z)
  have "sint (of_nat Q :: u64) = int Q" using Q(2) by (simp add: signed_of_nat signed_take_bit_int_eq_self)
  then show ?thesis using seek_walk_rule [OF f ch, of 0 "Q div Z"] k Q ne fp
    by (auto simp: fat32_seek_def Let_def hd_conv_nth)
qed

lemma read_rule:
  assumes f: "file_state sec live has mem vol m D" and ch: "file_chain vol m cs" and Z: "Z = unat (vol_bytes_per_cluster vol)"
    and fp: "f_vol fp" "f_current_cluster fp = cs ! (Q div Z)" "unat (f_pos fp) = Q"
    and n: "Q + n \<le> unat (f_file_size fp)" "unat (f_file_size fp) \<le> length cs * Z"
  shows "\<exists>fp' vol'. fat32_read ops mem True fp vol (of_nat n) = Some (take n (drop Q (file_bytes D cs)), fp', vol') \<and>
      file_state sec live has mem vol' m D \<and> shape vol' = shape vol"
proof -
  have s: "unat (f_file_size fp) < 2 ^ 32" using unat_less_u32 [of "f_file_size fp"] by simp
  have "Q + n < 2 ^ 32" by (rule le_less_trans [OF n(1) s])
  then have u: "unat (of_nat n :: u64) = n" "Q + n < 2 ^ 64" by (simp_all add: unat_of_nat_u64)
  then have "unat (f_pos fp + of_nat n) = Q + n" using fp(3) by (simp add: unat_word_ariths)
  then have "\<not> ucast (f_file_size fp) < f_pos fp + of_nat n" using n(1) by (simp add: word_less_nat_alt unat_ucast_u64)
  then have r: "fat32_read ops mem True fp vol (of_nat n) =
      (if n = 0 then Some ([], fp, vol) else read_loop ops mem True [] (of_nat n) (f_current_cluster fp) fp vol)"
    using fp(1) u(1) by (auto simp: fat32_read_def Let_def word_unat_eq_iff)
  show ?thesis using r f read_loop_rule [OF f ch Z fp(3) [symmetric] u(1) [symmetric], of "f_current_cluster fp" "[]"] n u(2) fp(2)
    by (cases "n = 0") auto
qed

lemma write_rule:
  assumes f: "file_state sec live has mem vol m D" and ch: "file_chain vol m cs" and Z: "Z = unat (vol_bytes_per_cluster vol)"
    and fp: "f_vol fp" "f_write_mode fp" "f_first_cluster fp = hd cs" "unat (f_pos fp) = P" "f_current_cluster fp = cs ! (P div Z)"
    and P: "P div Z < length cs" "P \<le> unat (f_file_size fp)" "P + length src < 2 ^ 32"
    and room: "P + length src \<le> (length cs + card (free_clusters vol m)) * Z"
  shows "\<exists>fp' vol' m' D' cs'. fat32_write ops mem True fp vol src = Some (of_nat (length src), fp', vol') \<and>
      stored sec live has mem vol m D cs P src vol' m' D' cs' \<and>
      unat (f_file_size fp') = max (unat (f_file_size fp)) (P + length src) \<and> f_first_cluster fp' = hd cs \<and> f_vol fp' = f_vol fp"
proof -
  obtain p vol1 where pv: "find_prev ops mem fp vol = Some (p, vol1)" "file_state sec live has mem vol1 m D" "shape vol1 = shape vol"
    using find_prev_rule [OF f ch P(1) fp(3,5)] by blast
  note S = shape_fields [OF pv(3)]
  have ch1: "file_chain vol1 m cs" and Z1: "Z = unat (vol_bytes_per_cluster vol1)" using ch Z by (simp_all add: file_chain_def S)
  have "free_clusters vol1 m = free_clusters vol m" by (simp add: free_clusters_def S)
  then show ?thesis
    using write_loop_rule [OF pv(2) ch1 Z1 fp(4) [symmetric] refl fp(3), where cluster = "f_current_cluster fp" and prev = p and written = 0] pv(1,3) fp(1,2,5) P room
    by (simp add: fat32_write_def stored_def S)
qed

end

section \<open>Properties\<close>

text \<open>C28: What is written to a file is read back. On a device that does not fail, for a file whose clusters form a
  chain, with a position not beyond the size and inside a cluster of the chain that is the current cluster, and
  when the clusters of the file and the free ones have room, \<open>fat32_write\<close>
  returns, writes every byte, extends the chain as needed, leaves every other table entry and cluster as it
  was, and the size grows to the end of the data; then seeking to any position and reading returns
  the old contents with the written bytes put over them. (A position at the end of a chain that is full, as after
  a write that ended at a cluster boundary, is not inside a cluster: \<open>current_cluster\<close> is 0 there and the next
  write does not link the cluster it allocates.)\<close>

theorem file_write_read:
  assumes dev: "extent_device ops sec live has" and f: "file_state sec live has mem vol m D" and ch: "file_chain vol m cs"
    and Z: "Z = unat (vol_bytes_per_cluster vol)" and fp: "f_vol fp" "f_write_mode fp" "f_first_cluster fp = hd cs"
    and pos: "unat (f_pos fp) = P" "f_current_cluster fp = cs ! (P div Z)" "P div Z < length cs"
    and fits: "P \<le> unat (f_file_size fp)" "unat (f_file_size fp) \<le> length cs * Z"
    and room: "P + length src < 2 ^ 32" "P + length src \<le> (length cs + card (free_clusters vol m)) * Z"
  shows "\<exists>fp1 vol1 m1 D1 cs1. fat32_write ops mem True fp vol src = Some (of_nat (length src), fp1, vol1) \<and>
      unat (f_file_size fp1) = max (unat (f_file_size fp)) (P + length src) \<and>
      stored sec live has mem vol m D cs P src vol1 m1 D1 cs1 \<and>
      (\<forall>Q n. 0 < n \<and> Q + n \<le> unat (f_file_size fp1) \<longrightarrow>
        (\<exists>fp2 vol2 fp3 vol3. fat32_seek ops mem fp1 vol1 (int Q) 0 = (int Q, fp2, vol2) \<and>
          fat32_read ops mem True fp2 vol2 (of_nat n) = Some (take n (drop Q (put_bytes P src (file_bytes D cs1))), fp3, vol3)))"
proof -
  obtain fp1 vol1 m1 D1 cs1 where w: "fat32_write ops mem True fp vol src = Some (of_nat (length src), fp1, vol1)"
    "stored sec live has mem vol m D cs P src vol1 m1 D1 cs1" "unat (f_file_size fp1) = max (unat (f_file_size fp)) (P + length src)"
    "f_first_cluster fp1 = hd cs" "f_vol fp1"
    using extent_device.write_rule [OF dev f ch Z fp pos(1,2,3) fits(1) room] fp(1) by auto
  have st: "file_state sec live has mem vol1 m1 D1" "file_chain vol1 m1 cs1" "shape vol1 = shape vol" "prefix cs cs1"
    "P + length src \<le> length cs1 * Z" "file_bytes D1 cs1 = put_bytes P src (file_bytes D cs1)"
    using w(2) Z by (auto simp: stored_def)
  have Z1: "Z = unat (vol_bytes_per_cluster vol1)" using Z shape_fields(6) [OF st(3)] by simp
  have Z0: "0 < Z" using f Z by (simp add: file_state_def layout_ok_def)
  have hd: "f_first_cluster fp1 = hd cs1" using st(4) pos(3) w(4) by (cases cs) (auto simp: prefix_def)
  have "length cs * Z \<le> length cs1 * Z" using st(4) by (intro mult_le_mono1) (rule prefix_length_le)
  then have size: "unat (f_file_size fp1) \<le> length cs1 * Z" using w(3) st(5) fits(2) by linarith
  have "\<exists>fp2 vol2 fp3 vol3. fat32_seek ops mem fp1 vol1 (int Q) 0 = (int Q, fp2, vol2) \<and>
      fat32_read ops mem True fp2 vol2 (of_nat n) = Some (take n (drop Q (put_bytes P src (file_bytes D cs1))), fp3, vol3)"
    if n: "0 < n" "Q + n \<le> unat (f_file_size fp1)" for Q n
  proof -
    have "unat (f_file_size fp1) < 2 ^ 32" using unat_less_u32 [of "f_file_size fp1"] by simp
    then have Q: "Q < 2 ^ 32" using n(2) by linarith
    have k: "Q div Z < length cs1" by (rule below_end [OF Z0 le_trans [OF n(2) size] n(1)])
    obtain vol2 where s: "fat32_seek ops mem fp1 vol1 (int Q) 0 = (int Q, fp1\<lparr>f_pos := of_nat Q, f_current_cluster := cs1 ! (Q div Z)\<rparr>, vol2)"
      "file_state sec live has mem vol2 m1 D1" "shape vol2 = shape vol1"
      using extent_device.seek_rule [OF dev st(1,2) Z1 hd k Q] by blast
    let ?fp = "fp1\<lparr>f_pos := of_nat Q, f_current_cluster := cs1 ! (Q div Z)\<rparr>"
    have "file_chain vol2 m1 cs1" "Z = unat (vol_bytes_per_cluster vol2)"
      using st(2) Z1 by (simp_all add: file_chain_def shape_fields [OF s(3)])
    then have "\<exists>fp' vol'. fat32_read ops mem True ?fp vol2 (of_nat n) = Some (take n (drop Q (file_bytes D1 cs1)), fp', vol') \<and>
        file_state sec live has mem vol' m1 D1 \<and> shape vol' = shape vol2"
      using n(2) size w(5) Q by (intro extent_device.read_rule [OF dev s(2)]) (simp_all add: unat_of_nat_u64)
    then show ?thesis using s(1) st(6) by auto
  qed
  then show ?thesis using w by blast
qed

text \<open>On the RAM disk: 1000 bytes, in a file of one cluster that grows to two.\<close>

definition demo_file :: fat32_file where
  "demo_file = closed_file\<lparr>f_vol := True, f_first_cluster := 5, f_current_cluster := 5, f_write_mode := True\<rparr>"

lemma demo_file_state:
  "file_state ram_sector (\<lambda>d. d \<noteq> None) ram_has (Some (replicate 512 7)) demo_vol (\<lambda>_. 0) (\<lambda>_. replicate 512 0)"
proof -
  have "cluster_data ram_sector demo_vol c = replicate 512 0" for c
    by (simp add: cluster_data_def cluster_run_def run_of_def demo_vol_def demo_sector)
  moreover have "layout_ok ram_has demo_vol"
  proof -
    have "ram_has l" if "counted demo_vol c" "l \<in> set (cluster_run demo_vol c)" for c l
    proof (rule ram_sectors)
      have c: "2 \<le> unat c" "unat c < 100" using that(1) by (simp_all add: counted_def demo_vol_def)
      then have "l = 34 + ucast (c - 2)"
        using that(2) by (simp add: cluster_run_def run_of_def demo_vol_def fat32_cluster_to_lba_def word_less_nat_alt)
      moreover have "unat (c - 2) = unat c - 2" using c(1) by (subst unat_sub) (simp_all add: word_le_nat_alt)
      ultimately show "unat l < 16384" using c(2) by (simp add: unat_word_ariths unat_ucast_u64)
    qed
    then show ?thesis using demo_sized by (auto simp: layout_ok_def) (auto simp: demo_vol_def)
  qed
  ultimately show ?thesis using demo_state by (simp add: file_state_def)
qed

lemma demo_chain:
  obtains vol where "file_state ram_sector (\<lambda>d. d \<noteq> None) ram_has (Some (replicate 512 7)) vol ((\<lambda>_. 0)(5 := FAT32_CLUSTER_EOC)) (\<lambda>_. replicate 512 0)"
    and "shape vol = shape demo_vol" and "vol_mounted vol" and "file_chain vol ((\<lambda>_. 0)(5 := FAT32_CLUSTER_EOC)) [5]" and "counted vol 6"
proof -
  have c5: "counted demo_vol 5" "counted demo_vol 6" by (simp_all add: counted_def demo_vol_def)
  obtain vol where v: "fat_write_entry ram_blk_ops (Some (replicate 512 7)) demo_vol 5 FAT32_CLUSTER_EOC = (0, vol)"
    "file_state ram_sector (\<lambda>d. d \<noteq> None) ram_has (Some (replicate 512 7)) vol ((\<lambda>_. 0)(5 := FAT32_CLUSTER_EOC AND 0x0FFFFFFF)) (\<lambda>_. replicate 512 0)"
    "shape vol = shape demo_vol"
    by (rule ram_extent.entry_rule [OF demo_file_state c5(1)])
  note S = shape_fields [OF v(3)]
  have "vol_mounted (snd (fat_write_entry ram_blk_ops (Some (replicate 512 7)) demo_vol 5 FAT32_CLUSTER_EOC))" by code_simp
  moreover have "file_chain vol ((\<lambda>_. 0)(5 := FAT32_CLUSTER_EOC)) [5]" using c5 by (simp add: file_chain_def fat_chain_nth S)
  ultimately show thesis using that v c5 by (simp add: FAT32_CLUSTER_EOC_def S)
qed

theorem file_write_read_witness:
  "\<exists>vol fp1 vol1 fp2 vol2 fp3 vol3. fat32_write ram_blk_ops (Some (replicate 512 7)) True demo_file vol (replicate 1000 9) = Some (1000, fp1, vol1) \<and>
     fat32_seek ram_blk_ops (Some (replicate 512 7)) fp1 vol1 10 0 = (10, fp2, vol2) \<and>
     fat32_read ram_blk_ops (Some (replicate 512 7)) True fp2 vol2 900 = Some (replicate 900 9, fp3, vol3)"
proof -
  let ?mem = "Some (replicate 512 (7 :: u8))" and ?m = "(\<lambda>_. 0 :: u32)(5 := FAT32_CLUSTER_EOC) :: u32 \<Rightarrow> u32"
  obtain vol where f: "file_state ram_sector (\<lambda>d. d \<noteq> None) ram_has ?mem vol ?m (\<lambda>_. replicate 512 0)" and sh: "shape vol = shape demo_vol"
    and ch: "file_chain vol ?m [5]" and c6: "counted vol 6" by (rule demo_chain)
  have Z: "512 = unat (vol_bytes_per_cluster vol)" by (simp add: shape_fields [OF sh] demo_vol_def)
  have "{6} \<subseteq> free_clusters vol ?m" using c6 by (auto simp: free_clusters_def)
  then have "1 \<le> card (free_clusters vol ?m)" using card_mono [of "free_clusters vol ?m" "{6}"] by simp
  then have room: "0 + length (replicate 1000 (9 :: u8)) \<le> (length [5 :: u32] + card (free_clusters vol ?m)) * 512" by simp
  from file_write_read [OF ram_extent.extent_device_axioms f ch Z, of demo_file 0 "replicate 1000 9"] room
  obtain fp1 vol1 cs1 where w: "fat32_write ram_blk_ops ?mem True demo_file vol (replicate 1000 9) = Some (1000, fp1, vol1)"
    "unat (f_file_size fp1) = 1000" "\<forall>Q n. 0 < n \<and> Q + n \<le> unat (f_file_size fp1) \<longrightarrow>
        (\<exists>fp2 vol2 fp3 vol3. fat32_seek ram_blk_ops ?mem fp1 vol1 (int Q) 0 = (int Q, fp2, vol2) \<and>
          fat32_read ram_blk_ops ?mem True fp2 vol2 (of_nat n) =
            Some (take n (drop Q (put_bytes 0 (replicate 1000 9) (file_bytes (\<lambda>_. replicate 512 0) cs1))), fp3, vol3))"
    by (auto simp: demo_file_def closed_file_def)
  obtain fp2 vol2 fp3 vol3 where "fat32_seek ram_blk_ops ?mem fp1 vol1 10 0 = (10, fp2, vol2)"
    "fat32_read ram_blk_ops ?mem True fp2 vol2 900 = Some (replicate 900 9, fp3, vol3)"
    using w(3) [rule_format, of 900 10] w(2) by (auto simp: put_bytes_def)
  then show ?thesis using w(1) by blast
qed

end
