(* ===== verification/Fat32_Dir_Facts.thy ===== *)
theory Fat32_Dir_Facts
  imports Fat32_Dir Fat32_File_Facts
begin

text \<open>
  A file that is created is found: the entries of a long name as the scan of a directory reads
  them, lookup in a directory as a function of the contents of its clusters, and creation in it.
\<close>

section \<open>Slots of a directory cluster\<close>

lemma dir_slot_put:
  assumes "length e = 32" and "(k + 1) * 32 \<le> length b"
  shows "dir_slot (put_bytes (k * 32) e b) j = (if j = k then e else dir_slot b j)"
proof -
  have len: "length (put_bytes (k * 32) e b) = length b" using assms by (simp add: length_put_bytes)
  have "dir_slot (put_bytes (k * 32) e b) j ! i = (if j = k then e else dir_slot b j) ! i"
    if i: "i < 32" "j * 32 + i < length b" for i
  proof -
    have "k * 32 \<le> j * 32 + i \<and> j * 32 + i < k * 32 + 32 \<longleftrightarrow> j = k" using i(1) by linarith
    then show ?thesis using i assms by (simp add: dir_slot_def FAT32_DIR_ENTRY_SIZE_def nth_put_bytes len)
  qed
  then show ?thesis using len assms by (intro nth_equalityI) (auto simp: dir_slot_def FAT32_DIR_ENTRY_SIZE_def)
qed

lemma store_entries_snoc:
  "store_entries buf i (es @ [e]) = put_bytes ((i + length es) * 32) e (store_entries buf i es)"
  by (simp add: store_entries_def FAT32_DIR_ENTRY_SIZE_def)

lemma store_entries_slots:
  assumes "\<forall>e \<in> set es. length e = 32" and "(i + length es) * 32 \<le> length buf"
  shows "length (store_entries buf i es) = length buf"
    and "dir_slot (store_entries buf i es) j = (if i \<le> j \<and> j < i + length es then es ! (j - i) else dir_slot buf j)"
proof -
  have "length (store_entries buf i es) = length buf \<and>
      (\<forall>j. dir_slot (store_entries buf i es) j = (if i \<le> j \<and> j < i + length es then es ! (j - i) else dir_slot buf j))"
    using assms
  proof (induction es rule: rev_induct)
    case (snoc e es)
    then have IH: "length (store_entries buf i es) = length buf"
      "dir_slot (store_entries buf i es) j = (if i \<le> j \<and> j < i + length es then es ! (j - i) else dir_slot buf j)" for j by auto
    have fit: "(i + length es + 1) * 32 \<le> length (store_entries buf i es)" using snoc.prems(2) IH(1) by simp
    have e: "length e = 32" using snoc.prems(1) by simp
    have "length (store_entries buf i (es @ [e])) = length buf"
      using fit e IH(1) by (simp add: store_entries_snoc length_put_bytes)
    moreover have "dir_slot (store_entries buf i (es @ [e])) j =
        (if i \<le> j \<and> j < i + length (es @ [e]) then (es @ [e]) ! (j - i) else dir_slot buf j)" for j
      using IH(2) [of j] unfolding store_entries_snoc dir_slot_put [OF e fit] by (auto simp: nth_append)
    ultimately show ?case by blast
  qed (auto simp: store_entries_def)
  then show "length (store_entries buf i es) = length buf"
    "dir_slot (store_entries buf i es) j = (if i \<le> j \<and> j < i + length es then es ! (j - i) else dir_slot buf j)" by auto
qed

section \<open>The scan\<close>

lemma find_entries_append:
  "find_entries nm b c (xs @ ys) lfn =
     (case find_entries nm b c xs lfn of Some (Scan_more l) \<Rightarrow> find_entries nm b c ys l | r \<Rightarrow> r)"
  by (induction xs arbitrary: lfn) (auto simp: Let_def split: option.splits)

lemma find_entries_cong:
  "(\<And>j. j \<in> set xs \<Longrightarrow> dir_slot b j = dir_slot b' j) \<Longrightarrow> find_entries nm b c xs lfn = find_entries nm b' c xs lfn"
  by (induction xs arbitrary: lfn) (auto simp: Let_def split: option.splits)

lemma find_entries_no_stop:
  "(\<And>j. j \<in> set xs \<Longrightarrow> dir_slot b j ! 0 \<noteq> 0) \<Longrightarrow> find_entries nm b c xs lfn \<noteq> Some Scan_stop"
  by (induction xs arbitrary: lfn) (auto simp: Let_def split: option.splits)

lemma name_cmp_refl: "name_cmp nm nm = 0"
  by (induction nm) simp_all

section \<open>Long names as the scan reads them\<close>

lemma lfn_store_units:
  assumes "\<forall>c \<in> set cs. c \<noteq> 0 \<and> c \<noteq> 0xFFFF" and "rest \<noteq> [] \<longrightarrow> hd rest = 0 \<or> hd rest = 0xFFFF"
    and "idx + length cs \<le> 255" and "length lfn = 256"
  shows "lfn_store (int idx) (cs @ rest) lfn = Some (put_bytes idx (map (\<lambda>c. ucast (c AND 0xFF)) cs) lfn)"
  using assms
proof (induction cs arbitrary: idx lfn)
  case Nil
  then show ?case by (cases rest) (auto simp: put_nothing)
next
  case (Cons c cs)
  have "lfn_store (int (Suc idx)) (cs @ rest) (lfn[idx := ucast (c AND 0xFF)]) =
      Some (put_bytes (Suc idx) (map (\<lambda>c. ucast (c AND 0xFF)) cs) (lfn[idx := ucast (c AND 0xFF)]))"
    by (rule Cons.IH) (use Cons.prems in auto)
  moreover have "put_bytes (Suc idx) q (lfn[idx := x]) = put_bytes idx (x # q) lfn" for q x
    using Cons.prems(3,4) by (simp add: put_bytes_def upd_conv_take_nth_drop take_append add.commute)
  ultimately show ?case using Cons.prems by (simp add: add.commute)
qed

lemma low_byte: "ucast ((ucast (x :: u8) :: u16) AND 0xFF) = x"
proof -
  have e: "y AND 0xFF = take_bit 8 y" for y :: u16 by (simp add: take_bit_eq_mask mask_eq_exp_minus_1)
  show ?thesis unfolding e by (rule bit_word_eqI) (auto simp: bit_simps)
qed

text \<open>The characters from index \<open>s\<close> on are in place.\<close>

definition lfn_from :: "bytes \<Rightarrow> nat \<Rightarrow> bytes" where
  "lfn_from nm s = replicate s 0 @ drop s nm @ replicate (256 - length nm) 0"

lemma lfn_from_simps:
  assumes "length nm \<le> 255"
  shows "lfn_from nm (length nm) = lfn_cleared" and "s \<le> length nm \<Longrightarrow> length (lfn_from nm s) = 256"
    and "nm \<noteq> [] \<Longrightarrow> 0 \<notin> set nm \<Longrightarrow> lfn_from nm 0 ! 0 \<noteq> 0" and "0 \<notin> set nm \<Longrightarrow> cstr (lfn_from nm 0) = nm"
proof -
  show "lfn_from nm (length nm) = lfn_cleared" using assms by (simp add: lfn_from_def lfn_cleared_def flip: replicate_add)
  show "s \<le> length nm \<Longrightarrow> length (lfn_from nm s) = 256" using assms by (simp add: lfn_from_def)
  show "nm \<noteq> [] \<Longrightarrow> 0 \<notin> set nm \<Longrightarrow> lfn_from nm 0 ! 0 \<noteq> 0" by (cases nm) (simp_all add: lfn_from_def)
  assume z: "0 \<notin> set nm"
  have "takeWhile (\<lambda>b. b \<noteq> 0) (nm @ replicate (256 - length nm) 0) = nm @ takeWhile (\<lambda>b. b \<noteq> 0) (replicate (256 - length nm) 0)"
    using z by (intro takeWhile_append2) auto
  then show "cstr (lfn_from nm 0) = nm" by (simp add: lfn_from_def cstr_def takeWhile_replicate)
qed

lemma lfn_from_step:
  assumes "length nm \<le> 255" and "s \<le> length nm" and "s' = min (s + n) (length nm)"
  shows "put_bytes s (take n (drop s nm)) (lfn_from nm s') = lfn_from nm s"
proof -
  have "drop s nm = take n (drop s nm) @ drop s' nm"
    using assms(2,3) append_take_drop_id [of n "drop s nm"] by (simp add: min_def add.commute) 
  moreover have "length (take n (drop s nm)) = s' - s" "s \<le> s'" using assms(2,3) by auto
  moreover have "replicate s' 0 = replicate s 0 @ replicate (s' - s) (0 :: u8)" using \<open>s \<le> s'\<close> by (simp flip: replicate_add)
  ultimately show ?thesis unfolding put_bytes_def lfn_from_def by simp
qed

lemma ordinal_bits:
  assumes "ci < 20" and "ord = of_nat (ci + 1) OR (if lastp then 0x40 else 0 :: u8)"
  shows "uint (ord AND 0x3F) = int ci + 1" and "ord AND 0x40 \<noteq> 0 \<longleftrightarrow> lastp" and "ord \<noteq> 0" and "ord \<noteq> 0xE5"
proof -
  have "ci \<in> {0, 1, 2, 3, 4, 5, 6, 7, 8, 9, 10, 11, 12, 13, 14, 15, 16, 17, 18, 19}" using assms(1) by (auto simp: less_Suc_eq eval_nat_numeral)
  then show "uint (ord AND 0x3F) = int ci + 1" "ord AND 0x40 \<noteq> 0 \<longleftrightarrow> lastp" "ord \<noteq> 0" "ord \<noteq> 0xE5"
    unfolding assms(2) by (cases lastp; auto)+
qed

lemma lfn_entry_scan:
  assumes nm: "length nm \<le> 255" "0 \<notin> set nm" and ci: "ci * 13 < length nm" "ci < 20"
    and lfn: "Suc ci = t \<longrightarrow> length nm \<le> t * 13" "Suc ci \<noteq> t \<longrightarrow> lfn = lfn_from nm (min (ci * 13 + 13) (length nm))"
  shows "lfn_take_entry (lfn_entry (map ucast nm) t cs ci) lfn = Some (lfn_from nm (ci * 13))"
    and "length (lfn_entry (map ucast nm) t cs ci) = 32" and "lfn_entry (map ucast nm) t cs ci ! 11 = 0x0F"
    and "lfn_entry (map ucast nm) t cs ci ! 0 \<noteq> 0" and "lfn_entry (map ucast nm) t cs ci ! 0 \<noteq> 0xE5"
proof -
  let ?e = "lfn_entry (map ucast nm) t cs ci" and ?chunk = "drop (ci * 13) (map ucast nm) :: u16 list"
  define n where "n = min (length nm - ci * 13) 13"
  have e: "?e = wubu_lfn_encode_chunk ?chunk n ci t cs" by (simp add: lfn_entry_def WUBU_LFN_CHARS_PER_ENTRY_def n_def)
  show "length ?e = 32" "?e ! 11 = 0x0F" unfolding e by (rule encode_fields)+
  have "?e ! 0 = of_nat (ci + 1) OR (if Suc ci = t then 0x40 else 0)" unfolding e by (simp add: encode_fields(4))
  note ord = ordinal_bits [OF ci(2) this]
  show "?e ! 0 \<noteq> 0" "?e ! 0 \<noteq> 0xE5" by (rule ord)+
  let ?s = "min (ci * 13 + 13) (length nm)"
  have n: "n \<le> 13" "n \<le> length ?chunk" "ci * 13 + n \<le> 255" using nm(1) ci(1) by (auto simp: n_def)
  have buf: "(if ?e ! 0 AND 0x40 \<noteq> 0 then lfn_cleared else lfn) = lfn_from nm ?s"
  proof (cases "Suc ci = t")
    case True
    then have "?s = length nm" using lfn(1) by (auto simp: min_def)
    then show ?thesis using True lfn_from_simps(1) [OF nm(1)] unfolding ord(2) by simp
  qed (use lfn(2) ord(2) in simp)
  have rest: "map (lfn_unit ?chunk n) [n..<13] \<noteq> [] \<longrightarrow> hd (map (lfn_unit ?chunk n) [n..<13]) = 0"
    by (simp add: hd_map lfn_unit_def)
  have "lfn_take_entry ?e lfn = lfn_store (int (ci * 13)) (take n ?chunk @ map (lfn_unit ?chunk n) [n..<13]) (lfn_from nm ?s)"
  proof -
    have "map (half_at ?e) lfn_offsets = take n ?chunk @ map (lfn_unit ?chunk n) [n..<13]" unfolding e by (rule encode_units [OF n(1,2)])
    then show ?thesis unfolding lfn_take_entry_def Let_def buf ord(1) by simp
  qed
  also have "\<dots> = Some (put_bytes (ci * 13) (map (\<lambda>c. ucast (c AND 0xFF)) (take n ?chunk)) (lfn_from nm ?s))"
  proof (rule lfn_store_units)
    show "\<forall>c \<in> set (take n ?chunk). c \<noteq> 0 \<and> c \<noteq> 0xFFFF" using units_ok [OF nm(2)] by (blast dest: in_set_takeD in_set_dropD)
  qed (use rest n nm(1) ci(1) in \<open>auto simp: lfn_from_simps(2)\<close>)
  also have "map (\<lambda>c. ucast (c AND 0xFF)) (take n ?chunk) = take 13 (drop (ci * 13) nm)"
    by (simp add: take_map drop_map low_byte comp_def n_def min_def)
  also have "put_bytes (ci * 13) (take 13 (drop (ci * 13) nm)) (lfn_from nm ?s) = lfn_from nm (ci * 13)"
    by (rule lfn_from_step) (use nm ci in auto)
  finally show "lfn_take_entry ?e lfn = Some (lfn_from nm (ci * 13))" .
qed

text \<open>Over the long-name entries of a name the scan collects the name.\<close>

lemma find_lfn_run:
  assumes nm: "length nm \<le> 255" "0 \<notin> set nm" and t: "t \<le> 20" "(t - 1) * 13 < length nm" "length nm \<le> t * 13" and e: "e < t"
    and slots: "\<forall>k < t. dir_slot b (i + k) = lfn_entry (map ucast nm) t cs (t - 1 - k)"
    and lfn: "e = 0 \<or> lfn = lfn_from nm ((t - e) * 13)"
  shows "find_entries want b c ([i + e..<i + t] @ xs) lfn = find_entries want b c xs (lfn_from nm 0)"
  using e lfn
proof (induction "t - e" arbitrary: e lfn)
  case (Suc k)
  let ?ci = "t - 1 - e"
  have "?ci * 13 \<le> (t - 1) * 13" by (intro mult_le_mono1) simp
  then have ci: "?ci * 13 < length nm" "?ci < 20" using t(1,2) Suc.prems(1) by linarith+
  have "(t - e) * 13 \<le> (t - 1) * 13" if "e \<noteq> 0" using that by (intro mult_le_mono1) simp
  then have "e \<noteq> 0 \<Longrightarrow> min (?ci * 13 + 13) (length nm) = (t - e) * 13" using t(2) Suc.prems(1) by (auto simp: min_def)
  then have st: "Suc ?ci \<noteq> t \<longrightarrow> lfn = lfn_from nm (min (?ci * 13 + 13) (length nm))"
    using Suc.prems by (cases "e = 0") auto
  note scan = lfn_entry_scan [OF nm ci _ st, of cs]
  have "[i + e..<i + t] = (i + e) # [i + Suc e..<i + t]" using Suc.prems(1) by (simp add: upt_conv_Cons)
  then have step: "find_entries want b c ([i + e..<i + t] @ xs) lfn =
      find_entries want b c ([i + Suc e..<i + t] @ xs) (lfn_from nm (?ci * 13))"
    using scan t(3) slots Suc.prems(1) by (simp add: Let_def FAT32_ATTR_LFN_def)
  show ?case
  proof (cases "Suc e < t")
    case True
    then show ?thesis using Suc(1) [of "Suc e" "lfn_from nm (?ci * 13)"] Suc(2) step by simp
  next
    case False
    then have "t = Suc e" using Suc.prems(1) by simp
    then show ?thesis using step by simp
  qed
qed simp

section \<open>The short entry\<close>

lemma copy_part_length: "length (fst (copy_part dot n bs)) \<le> n"
  by (induction dot n bs rule: copy_part.induct) (auto split: prod.splits)

lemma name_to_83_cases:
  obtains "name_to_83 nm = 0x2E # replicate 10 0x20" | "name_to_83 nm = 0x2E # 0x2E # replicate 9 0x20"
  | ext where "length ext \<le> 3" and "name_to_83 nm = put_bytes 8 ext (put_bytes 0 (fst (copy_part True 8 nm)) (replicate 11 0x20))"
proof -
  obtain name rest where n: "copy_part True 8 nm = (name, rest)" by (rule prod.exhaust)
  obtain ext r where e: "copy_part False 3 (case rest of [] \<Rightarrow> [] | b # bs \<Rightarrow> if b = 0x2E then bs else rest) = (ext, r)"
    by (rule prod.exhaust)
  have "length ext \<le> 3" using copy_part_length [of False 3] e by (metis fst_conv)
  moreover have "name_to_83 nm = (if nm = [0x2E] then 0x2E # replicate 10 0x20 else if nm = [0x2E, 0x2E] then 0x2E # 0x2E # replicate 9 0x20
      else put_bytes 8 ext (put_bytes 0 (fst (copy_part True 8 nm)) (replicate 11 0x20)))"
    using n e by (simp add: name_to_83_def)
  ultimately show thesis using that by presburger
qed

lemma name_to_83_length: "length (name_to_83 nm) = 11"
proof (rule name_to_83_cases [of nm])
  fix ext assume "length ext \<le> 3" "name_to_83 nm = put_bytes 8 ext (put_bytes 0 (fst (copy_part True 8 nm)) (replicate 11 0x20))"
  then show ?thesis using copy_part_length [of True 8 nm] by (simp add: length_put_bytes)
qed simp_all

lemma toupper_first: "b \<noteq> 0 \<Longrightarrow> toupper_c b \<noteq> 0" "b \<noteq> 0xE5 \<Longrightarrow> toupper_c b \<noteq> 0xE5"
proof -
  have "unat (b - 0x20) = unat b - 32" "97 \<le> unat b" "unat b \<le> 122" if "0x61 \<le> b \<and> b \<le> 0x7A"
    using that by (simp_all add: unat_sub word_le_nat_alt)
  then show "b \<noteq> 0 \<Longrightarrow> toupper_c b \<noteq> 0" "b \<noteq> 0xE5 \<Longrightarrow> toupper_c b \<noteq> 0xE5"
    by (auto simp: toupper_c_def word_unat_eq_iff)
qed

lemma name_to_83_first:
  assumes "nm \<noteq> []" and "hd nm \<noteq> 0" and "hd nm \<noteq> 0xE5"
  shows "name_to_83 nm ! 0 \<noteq> 0 \<and> name_to_83 nm ! 0 \<noteq> 0xE5"
proof (rule name_to_83_cases [of nm])
  fix ext assume e: "length ext \<le> 3" "name_to_83 nm = put_bytes 8 ext (put_bytes 0 (fst (copy_part True 8 nm)) (replicate 11 0x20))"
  obtain b bs where nm: "nm = b # bs" using assms(1) by (cases nm) auto
  have "name_to_83 nm ! 0 = (if b = 0x2E then 0x20 else toupper_c b)"
    unfolding e(2) by (auto simp: nm put_bytes_def eval_nat_numeral split: prod.splits)
  then show ?thesis using toupper_first [of b] assms nm by auto
qed simp_all

lemma cluster_halves: "push_bit 16 (ucast (ucast (drop_bit 16 c) :: u16)) OR ucast (ucast (c AND 0xFFFF) :: u16) = (c :: u32)"
proof -
  have e: "c AND 0xFFFF = take_bit 16 c" by (simp add: take_bit_eq_mask mask_eq_exp_minus_1)
  show ?thesis unfolding e by (rule bit_word_eqI) (auto simp: bit_simps)
qed

lemma short_entry_fields:
  "length (short_entry nm attr c now) = 32" "short_entry nm attr c now ! 0 = name_to_83 nm ! 0"
  "short_entry nm attr c now ! 11 = attr" "de_cluster (short_entry nm attr c now) = c" "dword_at (short_entry nm attr c now) 28 = 0"
proof -
  obtain tme dte where dt: "datetime_to_dos now = (tme, dte)" by (rule prod.exhaust)
  define ws where "ws = [(0, take 8 (name_to_83 nm)), (8, drop 8 (name_to_83 nm)), (11, [attr])] @ put_cluster c
      @ [(14, le16 tme), (16, le16 dte), (22, le16 tme), (24, le16 dte), (18, le16 dte)]"
  have e: "short_entry nm attr c now = puts ws (replicate 32 0)" by (simp add: short_entry_def dt ws_def)
  have fits: "\<forall>(off, p) \<in> set ws. off + length p \<le> length (replicate 32 (0 :: u8))"
    by (auto simp: ws_def put_cluster_def name_to_83_length)
  show "length (short_entry nm attr c now) = 32" unfolding e using length_puts [OF fits] by simp
  show "short_entry nm attr c now ! 11 = attr"
    unfolding e by (rule fields_puts(3) [OF fits, of 2]) (auto simp: ws_def put_cluster_def)
  have "half_at (short_entry nm attr c now) 26 = ucast (c AND 0xFFFF)" "half_at (short_entry nm attr c now) 20 = ucast (drop_bit 16 c)"
    unfolding e by (rule fields_puts(1) [OF fits, of 3]; auto simp: ws_def put_cluster_def)
      (rule fields_puts(1) [OF fits, of 4]; auto simp: ws_def put_cluster_def)
  then show "de_cluster (short_entry nm attr c now) = c" by (simp only: de_cluster_def cluster_halves)
  show "short_entry nm attr c now ! 0 = name_to_83 nm ! 0"
    unfolding e using nth_puts [OF fits, of 0 0 "take 8 (name_to_83 nm)" 0] by (simp add: ws_def put_cluster_def name_to_83_length)
  have "short_entry nm attr c now ! k = replicate 32 0 ! k" if "28 \<le> k" "k < 32" for k
    unfolding e by (rule nth_puts_other) (use that in \<open>auto simp: ws_def put_cluster_def name_to_83_length\<close>)
  then show "dword_at (short_entry nm attr c now) 28 = 0" by (simp add: dword_at_def)
qed

section \<open>A created entry is found\<close>

lemma free_slots_range:
  assumes "free_slots vol buf n = Some i"
  shows "i + n < entries_per_cluster vol" and "k \<le> n \<Longrightarrow> slot_free buf (i + k)"
  using assms unfolding free_slots_def by (auto simp: find_Some_iff list_all_iff)

lemma created_is_found:
  assumes nm: "nm \<noteq> []" "length nm \<le> 255" "0 \<notin> set nm" "lfn_needed nm" "hd nm \<noteq> 0xE5"
    and es: "es = wubu_lfn_build_entries nm 20 @ [short_entry nm attr nc now]" and attr: "attr AND FAT32_ATTR_VOLUME_ID = 0"
    and fit: "i + length es \<le> E" "E * 32 \<le> length buf"
    and before: "\<forall>j < i. dir_slot buf j ! 0 \<noteq> 0" and none: "\<forall>info. find_entries nm buf c [0..<E] lfn \<noteq> Some (Scan_hit info)"
    and sane: "find_entries nm buf c [0..<E] lfn \<noteq> None"
  shows "find_entries nm (store_entries buf i es) c [0..<E] lfn =
    Some (Scan_hit (found_info nm (short_entry nm attr nc now) c (i + length es - 1)))"
proof -
  define t where "t = (length nm + 12) div 13"
  have "length nm \<le> 260" using nm(2) by simp
  note b = build_entries_eq [OF nm(1) this nm(4) t_def]
  let ?b = "store_entries buf i es" and ?de = "short_entry nm attr nc now"
  have lt: "length es = Suc t" by (simp add: es b(1))
  have "(i + length es) * 32 \<le> E * 32" using fit(1) by (rule mult_le_mono1)
  then have fit32: "(i + length es) * 32 \<le> length buf" using fit(2) by simp
  have len: "\<forall>e \<in> set es. length e = 32"
    by (auto simp: es b(1) lfn_entry_def encode_fields(1) short_entry_fields(1))
  note slots = store_entries_slots(2) [OF len fit32]
  have run: "\<forall>k < t. dir_slot ?b (i + k) = lfn_entry (map ucast nm) t (wubu_lfn_checksum (lfn_83 nm)) (t - 1 - k)"
    using slots lt by (auto simp: es b(1) nth_append)
  have last: "dir_slot ?b (i + t) = ?de" using slots [of "i + t"] lt by (simp add: es b(1) nth_append)
  have split: "[0..<E] = [0..<i] @ [i..<i + t] @ (i + t) # [Suc (i + t)..<E]"
    using fit(1) lt upt_add_eq_append [of 0 i "E - i"] upt_add_eq_append [of i "i + t" "E - (i + t)"] by (simp add: upt_conv_Cons)
  have old: "find_entries nm ?b c [0..<i] lfn = find_entries nm buf c [0..<i] lfn"
    by (rule find_entries_cong) (simp add: slots)
  have "find_entries nm buf c [0..<i] lfn \<noteq> Some Scan_stop" by (rule find_entries_no_stop) (use before in simp)
  moreover have "find_entries nm buf c [0..<E] lfn = (case find_entries nm buf c [0..<i] lfn of
      Some (Scan_more l) \<Rightarrow> find_entries nm buf c ([i..<i + t] @ (i + t) # [Suc (i + t)..<E]) l | r \<Rightarrow> r)"
    by (subst split) (rule find_entries_append)
  ultimately obtain l where pre: "find_entries nm buf c [0..<i] lfn = Some (Scan_more l)"
    using none sane by (auto split: option.splits dir_scan.splits)
  have "find_entries nm ?b c [0..<E] lfn = find_entries nm ?b c ([i + 0..<i + t] @ (i + t) # [Suc (i + t)..<E]) l"
    by (subst split) (simp add: find_entries_append [of _ _ _ "[0..<i]"] old pre)
  also have "\<dots> = find_entries nm ?b c ((i + t) # [Suc (i + t)..<E]) (lfn_from nm 0)"
    by (rule find_lfn_run [OF nm(2,3) b(2,4,5,3) run]) simp
  also have "\<dots> = Some (Scan_hit (found_info nm ?de c (i + t)))"
  proof -
    have "attr \<noteq> 0x0F" using attr by (auto simp: FAT32_ATTR_VOLUME_ID_def)
    moreover have "hd nm \<noteq> 0" using nm(1,3) by (metis hd_in_set)
    ultimately show ?thesis
      using last name_to_83_first [OF nm(1) _ nm(5)] attr lfn_from_simps(3) [OF nm(2,1,3)] lfn_from_simps(4) [OF nm(2,3)]
      by (simp add: Let_def short_entry_fields FAT32_ATTR_LFN_def entry_name_def name_cmp_refl)
  qed
  finally show ?thesis by (simp add: lt)
qed

section \<open>Directories as the contents of their clusters\<close>

fun dir_lookup :: "bytes \<Rightarrow> nat \<Rightarrow> (u32 \<Rightarrow> bytes) \<Rightarrow> u32 list \<Rightarrow> bytes \<Rightarrow> fat32_file_info option option" where
  "dir_lookup nm E D [] lfn = Some None"
| "dir_lookup nm E D (c # cs) lfn =
     (case find_entries nm (D c) c [0..<E] lfn of
        None \<Rightarrow> None
      | Some Scan_stop \<Rightarrow> Some None
      | Some (Scan_hit info) \<Rightarrow> Some (Some info)
      | Some (Scan_more l) \<Rightarrow> dir_lookup nm E D cs l)"

lemma dir_lookup_hit: "find_entries nm (D c) c [0..<E] lfn = Some (Scan_hit info) \<Longrightarrow> dir_lookup nm E D (c # cs) lfn = Some (Some info)"
  by simp

lemma entries_bound:
  assumes "layout_ok has vol" and "length b = unat (vol_bytes_per_cluster vol)"
  shows "entries_per_cluster vol * 32 \<le> length b"
  using assms(2) div_times_less_eq_dividend [of "unat (vol_bytes_per_cluster vol)" 32] by (simp add: entries_per_cluster_def unat_div)

context extent_device
begin

lemma find_loop_rule:
  assumes "file_state sec live has mem vol m D" and "file_chain vol m cs" and "k \<le> length cs"
    and "dir_lookup nm (entries_per_cluster vol) D (drop k cs) lfn = Some r"
  shows "\<exists>vol'. find_loop ops mem nm vol (if k < length cs then cs ! k else 0) lfn = Some (r, vol') \<and>
      file_state sec live has mem vol' m D \<and> shape vol' = shape vol"
  using assms
proof (induction "length cs - k" arbitrary: k vol lfn)
  case 0
  then show ?case by (subst find_loop.simps) simp
next
  case (Suc j)
  note f = Suc.prems(1) and ch = Suc.prems(2)
  have k: "k < length cs" using Suc.hyps(2) by simp
  have lay: "layout_ok has vol" using f by (simp add: file_state_def)
  have c: "counted vol (cs ! k)" using ch k by (simp add: file_chain_def)
  obtain vol1 where nx: "fat32_next_cluster ops mem vol (cs ! k) = (if Suc k < length cs then cs ! Suc k else 0, vol1)"
    "file_state sec live has mem vol1 m D" "shape vol1 = shape vol" by (rule next_in_chain [OF f ch k])
  have ch1: "file_chain vol1 m cs" using ch by (simp add: file_chain_def shape_fields [OF nx(3)])
  have E: "entries_per_cluster vol1 = entries_per_cluster vol" by (simp add: entries_per_cluster_def shape_fields [OF nx(3)])
  have step: "find_loop ops mem nm vol (cs ! k) lfn =
      (case find_entries nm (D (cs ! k)) (cs ! k) [0..<entries_per_cluster vol] lfn of
         None \<Rightarrow> None
       | Some Scan_stop \<Rightarrow> Some (None, vol)
       | Some (Scan_hit info) \<Rightarrow> Some (Some info, vol)
       | Some (Scan_more l) \<Rightarrow> find_loop ops mem nm vol1 (if Suc k < length cs then cs ! Suc k else 0) l)"
    using counted_range [OF lay c] read_cluster [OF f c] nx(1) by (subst find_loop.simps) (simp split: option.splits dir_scan.splits)
  have "drop k cs = cs ! k # drop (Suc k) cs" using k by (simp add: Cons_nth_drop_Suc)
  then show ?case using Suc.prems(4) k step f Suc.hyps(1) [of "Suc k" vol1, OF _ nx(2) ch1] Suc.hyps(2) E nx(3)
    by (auto split: option.splits dir_scan.splits)
qed

lemma find_rule:
  assumes f: "file_state sec live has mem vol m D" and ch: "file_chain vol m cs"
    and lk: "dir_lookup nm (entries_per_cluster vol) D cs lfn_cleared = Some r"
  shows "\<exists>vol'. fat32_find ops mem True vol (hd cs) nm = Some (r, vol') \<and> file_state sec live has mem vol' m D \<and> shape vol' = shape vol"
proof -
  have ne: "cs \<noteq> []" using ch by (auto simp: file_chain_def fat_chain_nth)
  then have "counted vol (hd cs)" using ch by (simp add: file_chain_def)
  then have "hd cs \<noteq> 0" using f counted_range(3) by (auto simp: file_state_def)
  then show ?thesis using find_loop_rule [OF f ch, of 0 nm lfn_cleared r] lk ne by (simp add: fat32_find_def hd_conv_nth)
qed

lemma create_rule:
  assumes f: "file_state sec live has mem vol m D" and ch: "file_chain vol m cs" and mnt: "vol_mounted vol" and nm: "nm \<noteq> []"
    and lk: "dir_lookup nm (entries_per_cluster vol) D cs lfn_cleared = Some None" and free: "\<exists>x. counted vol x \<and> m x = 0"
    and attr: "attr AND FAT32_ATTR_DIRECTORY = 0"
    and slots: "free_slots vol (D (hd cs)) (length (wubu_lfn_build_entries nm 20)) = Some i"
  obtains nc vol' where "fat32_create ops mem True now vol (hd cs) nm attr =
      Some (0, Some (created_info nm attr nc (hd cs) (i + length (wubu_lfn_build_entries nm 20))), vol')"
    and "counted vol nc" and "m nc = 0" and "shape vol' = shape vol" and "file_chain vol' (m(nc := FAT32_CLUSTER_EOC)) cs"
    and "file_state sec live has mem vol' (m(nc := FAT32_CLUSTER_EOC))
      (D(hd cs := store_entries (D (hd cs)) i (wubu_lfn_build_entries nm 20 @ [short_entry nm attr nc now])))"
proof -
  let ?c = "hd cs" and ?lf = "wubu_lfn_build_entries nm 20" and ?E = "entries_per_cluster vol"
  have lay: "layout_ok has vol" using f by (simp add: file_state_def)
  have ne: "cs \<noteq> []" using ch by (auto simp: file_chain_def fat_chain_nth)
  then have cin: "?c \<in> set cs" and c: "counted vol ?c" using ch by (simp_all add: file_chain_def)
  obtain vol1 where v1: "fat32_find ops mem True vol ?c nm = Some (None, vol1)" "file_state sec live has mem vol1 m D" "shape vol1 = shape vol"
    using find_rule [OF f ch lk] by blast
  note S1 = shape_fields [OF v1(3)]
  have ex: "\<exists>x. counted vol1 x \<and> m x = 0" using free by (simp add: S1)
  obtain nc vol2 where a: "fat32_alloc_clusters ops mem vol1 1 0 = (nc, vol2)" "counted vol1 nc" "m nc = 0"
    "file_state sec live has mem vol2 (m(nc := FAT32_CLUSTER_EOC)) D" "shape vol2 = shape vol1"
    by (rule alloc_cluster_rule [OF v1(2) ex])
  have sh: "shape vol2 = shape vol" using a(5) v1(3) by simp
  note S2 = shape_fields [OF sh]
  have c2: "counted vol2 ?c" using c by (simp add: S2)
  let ?es = "?lf @ [short_entry nm attr nc now]"
  have len: "length (D ?c) = unat (vol_bytes_per_cluster vol)" by (rule data_length [OF f c])
  have "(i + length ?es) * 32 \<le> ?E * 32" using free_slots_range(1) [OF slots] by (intro mult_le_mono1) simp
  then have fit: "(i + length ?es) * 32 \<le> length (D ?c)" using entries_bound [OF lay len] by linarith
  have e32: "\<forall>e \<in> set ?es. length e = 32"
    by (auto simp: wubu_lfn_build_entries_def Let_def lfn_entry_def encode_fields(1) short_entry_fields(1) split: if_splits)
  have b: "length (store_entries (D ?c) i ?es) = unat (vol_bytes_per_cluster vol2)"
    using store_entries_slots(1) [OF e32 fit] len by (simp add: S2)
  obtain d where d: "blk_write ops (vol_ctx vol2) (fat32_cluster_to_lba vol2 ?c) (vol_sectors_per_cluster vol2) (store_entries (D ?c) i ?es) = (0, d)"
    "file_state sec live has mem (vol2\<lparr>vol_ctx := d\<rparr>) (m(nc := FAT32_CLUSTER_EOC)) (D(?c := store_entries (D ?c) i ?es))"
    by (rule write_cluster [OF a(4) c2 b])
  have sl: "free_slots vol2 (D ?c) (length ?lf) = Some i" using slots by (simp add: free_slots_def entries_per_cluster_def S2)
  have "create_loop ops mem nm attr now ?lf nc vol2 ?c = Some (0, Some (created_info nm attr nc ?c (i + length ?lf)), vol2\<lparr>vol_ctx := d\<rparr>)"
    using counted_range [OF lay c] read_cluster [OF a(4) c2] sl d(1) by (subst create_loop.simps) (simp add: Let_def)
  then have "fat32_create ops mem True now vol ?c nm attr = Some (0, Some (created_info nm attr nc ?c (i + length ?lf)), vol2\<lparr>vol_ctx := d\<rparr>)"
    using mnt nm v1(1) a(1) counted_range(3) [OF lay, of nc] a(2) counted_range(3) [OF lay c] attr
    by (simp add: fat32_create_def Let_def S1)
  moreover have shd: "shape (vol2\<lparr>vol_ctx := d\<rparr>) = shape vol" using sh by (simp add: shape_def)
  moreover have "file_chain (vol2\<lparr>vol_ctx := d\<rparr>) (m(nc := FAT32_CLUSTER_EOC)) cs"
    by (rule file_chain_upd [OF ch free_not_in_chain [OF lay ch a(3)] shd])
  ultimately show thesis using that [of nc] a(2,3) d(2) by (simp add: S1)
qed

end

section \<open>Properties\<close>

text \<open>C29: A created file is found. On a device that does not fail, in a directory whose first cluster has room for
  the entries of a long name with no end mark before it, \<open>fat32_create\<close> of a file (not a directory) under a long name of at
  most 255 characters that does not start with the byte 0xE5 (the mark of a deleted entry) and that lookup does
  not find, when a cluster is free, takes one free cluster, changes the first cluster of the directory and nothing
  else, and \<open>fat32_find\<close> of the name then returns the new file: its cluster, size 0, its attributes and
  the same place of the entry that creation reported.\<close>

theorem create_then_find:
  assumes dev: "extent_device ops sec live has" and f: "file_state sec live has mem vol m D" and ch: "file_chain vol m cs"
    and mnt: "vol_mounted vol" and nm: "nm \<noteq> []" "length nm \<le> 255" "0 \<notin> set nm" "lfn_needed nm" "hd nm \<noteq> 0xE5"
    and lk: "dir_lookup nm (entries_per_cluster vol) D cs lfn_cleared = Some None" and free: "\<exists>x. counted vol x \<and> m x = 0"
    and attr: "attr AND FAT32_ATTR_DIRECTORY = 0" "attr AND FAT32_ATTR_VOLUME_ID = 0"
    and slots: "free_slots vol (D (hd cs)) (length (wubu_lfn_build_entries nm 20)) = Some i"
    and before: "\<forall>j < i. dir_slot (D (hd cs)) j ! 0 \<noteq> 0"
  shows "\<exists>created vol1 info vol2 b. fat32_create ops mem True now vol (hd cs) nm attr = Some (0, Some created, vol1) \<and>
      counted vol (fi_first_cluster created) \<and> m (fi_first_cluster created) = 0 \<and>
      file_state sec live has mem vol1 (m(fi_first_cluster created := FAT32_CLUSTER_EOC)) (D(hd cs := b)) \<and>
      fat32_find ops mem True vol1 (hd cs) nm = Some (Some info, vol2) \<and> fi_name info = take 254 nm \<and>
      fi_first_cluster info = fi_first_cluster created \<and> fi_file_size info = 0 \<and> fi_attr info = attr \<and>
      fi_dir_cluster info = fi_dir_cluster created \<and> fi_dir_offset info = fi_dir_offset created"
proof -
  let ?c = "hd cs" and ?lf = "wubu_lfn_build_entries nm 20" and ?E = "entries_per_cluster vol"
  obtain nc vol1 where cr: "fat32_create ops mem True now vol ?c nm attr = Some (0, Some (created_info nm attr nc ?c (i + length ?lf)), vol1)"
    "counted vol nc" "m nc = 0" "shape vol1 = shape vol" "file_chain vol1 (m(nc := FAT32_CLUSTER_EOC)) cs"
    "file_state sec live has mem vol1 (m(nc := FAT32_CLUSTER_EOC)) (D(?c := store_entries (D ?c) i (?lf @ [short_entry nm attr nc now])))"
    by (rule extent_device.create_rule [OF dev f ch mnt nm(1) lk free attr(1) slots])
  let ?es = "?lf @ [short_entry nm attr nc now]" let ?b = "store_entries (D ?c) i ?es"
  have ne: "cs \<noteq> []" and c: "counted vol ?c" using ch by (auto simp: file_chain_def fat_chain_nth)
  have lay: "layout_ok has vol" using f by (simp add: file_state_def)
  have cs: "cs = ?c # tl cs" using ne by simp
  have old: "find_entries nm (D ?c) ?c [0..<?E] lfn_cleared \<noteq> None" "\<forall>info. find_entries nm (D ?c) ?c [0..<?E] lfn_cleared \<noteq> Some (Scan_hit info)"
    using lk by (subst (asm) (1) cs, auto split: option.splits dir_scan.splits)+
  have fit: "i + length ?es \<le> ?E" using free_slots_range(1) [OF slots] by simp
  have room: "?E * 32 \<le> length (D ?c)" by (rule entries_bound [OF lay extent_device.data_length [OF dev f c]])
  have hit: "find_entries nm ?b ?c [0..<?E] lfn_cleared = Some (Scan_hit (found_info nm (short_entry nm attr nc now) ?c (i + length ?lf)))"
    using created_is_found [OF nm refl attr(2) fit room before old(2,1)] by simp
  let ?info = "found_info nm (short_entry nm attr nc now) ?c (i + length ?lf)"
  have "dir_lookup nm (entries_per_cluster vol1) (D(?c := ?b)) cs lfn_cleared = Some (Some ?info)"
  proof -
    have "entries_per_cluster vol1 = ?E" by (simp add: entries_per_cluster_def shape_fields [OF cr(4)])
    then show ?thesis using hit dir_lookup_hit [of nm "D(?c := ?b)" ?c ?E lfn_cleared ?info "tl cs"] ne by simp
  qed
  from extent_device.find_rule [OF dev cr(6,5) this] obtain vol2 where "fat32_find ops mem True vol1 ?c nm = Some (Some ?info, vol2)" by blast
  then show ?thesis using cr(1,2,3,6)
    by (intro exI [of _ "created_info nm attr nc ?c (i + length ?lf)"] exI [of _ vol1] exI [of _ ?info] exI [of _ vol2] exI [of _ ?b])
      (simp add: created_info_def found_info_def short_entry_fields)
qed

theorem create_then_find_witness:
  "\<exists>vol created vol1 info vol2. fat32_create ram_blk_ops (Some (replicate 512 7)) True None vol 5 (replicate 14 0x61) 0x20 = Some (0, Some created, vol1) \<and>
     fat32_find ram_blk_ops (Some (replicate 512 7)) True vol1 5 (replicate 14 0x61) = Some (Some info, vol2) \<and>
     fi_first_cluster info = fi_first_cluster created"
proof -
  let ?mem = "Some (replicate 512 (7 :: u8))" and ?m = "(\<lambda>_. 0 :: u32)(5 := FAT32_CLUSTER_EOC) :: u32 \<Rightarrow> u32" and ?nm = "replicate 14 (0x61 :: u8)"
  obtain vol where f: "file_state ram_sector (\<lambda>d. d \<noteq> None) ram_has ?mem vol ?m (\<lambda>_. replicate 512 0)" and sh: "shape vol = shape demo_vol"
    and mnt: "vol_mounted vol" and ch: "file_chain vol ?m [5]" and c6: "counted vol 6" by (rule demo_chain)
  have E: "entries_per_cluster vol = 16" by (simp add: entries_per_cluster_def shape_fields [OF sh] demo_vol_def)
  have slot: "j < 16 \<Longrightarrow> dir_slot (replicate 512 0) j ! 0 = 0" for j by (simp add: dir_slot_def FAT32_DIR_ENTRY_SIZE_def)
  have "length (wubu_lfn_build_entries ?nm 20) = 2"
    using build_entries_eq(1) [of ?nm 2] by (simp add: lfn_needed_def)
  then have fs: "free_slots vol (replicate 512 0) (length (wubu_lfn_build_entries ?nm 20)) = Some 0"
    by (simp add: free_slots_def E slot_free_def slot upt_conv_Cons)
  have lk: "dir_lookup ?nm (entries_per_cluster vol) (\<lambda>_. replicate 512 0) [5] lfn_cleared = Some None"
    by (simp add: E upt_conv_Cons slot)
  have "\<exists>x. counted vol x \<and> ?m x = 0" using c6 by (auto intro!: exI [of _ 6])
  from create_then_find [OF ram_extent.extent_device_axioms f ch mnt _ _ _ _ _ lk this, where attr = "0x20" and i = 0 and now = None] fs show ?thesis
    by (fastforce simp: lfn_needed_def FAT32_ATTR_DIRECTORY_def FAT32_ATTR_VOLUME_ID_def)
qed

end
