(* ===== verification/Byte_Memory.thy ===== *)
theory Byte_Memory
  imports Prelude
begin

text \<open>
  Byte-addressed memory: little-endian words of 32 and 64 bits at an address, blocks that are
  copied and filled, and that an access leaves the bytes it does not cover alone.
\<close>

type_synonym memory = "nat \<Rightarrow> u8"

definition rd32 :: "memory \<Rightarrow> nat \<Rightarrow> u32" where
  "rd32 m a = ucast (m a) OR push_bit 8 (ucast (m (a + 1))) OR push_bit 16 (ucast (m (a + 2))) OR push_bit 24 (ucast (m (a + 3)))"

definition wr32 :: "memory \<Rightarrow> nat \<Rightarrow> u32 \<Rightarrow> memory" where
  "wr32 m a w = m(a := ucast w, a + 1 := ucast (drop_bit 8 w), a + 2 := ucast (drop_bit 16 w), a + 3 := ucast (drop_bit 24 w))"

definition rd64 :: "memory \<Rightarrow> nat \<Rightarrow> u64" where
  "rd64 m a = ucast (rd32 m a) OR push_bit 32 (ucast (rd32 m (a + 4)))"

definition wr64 :: "memory \<Rightarrow> nat \<Rightarrow> u64 \<Rightarrow> memory" where
  "wr64 m a w = wr32 (wr32 m a (ucast w)) (a + 4) (ucast (drop_bit 32 w))"

text \<open>\<open>memset\<close> and \<open>memcpy\<close>.\<close>

definition mem_fill :: "memory \<Rightarrow> nat \<Rightarrow> nat \<Rightarrow> u8 \<Rightarrow> memory" where
  "mem_fill m a n b = (\<lambda>x. if a \<le> x \<and> x < a + n then b else m x)"

definition mem_copy :: "memory \<Rightarrow> nat \<Rightarrow> nat \<Rightarrow> nat \<Rightarrow> memory" where
  "mem_copy m dst src n = (\<lambda>x. if dst \<le> x \<and> x < dst + n then m (src + (x - dst)) else m x)"

section \<open>Access and frame\<close>

text \<open>Two memories that agree on a range.\<close>

definition same_on :: "nat \<Rightarrow> nat \<Rightarrow> memory \<Rightarrow> memory \<Rightarrow> bool" where
  "same_on a n m m' \<longleftrightarrow> (\<forall>x. a \<le> x \<and> x < a + n \<longrightarrow> m' x = m x)"

lemma same_on_refl [simp]: "same_on a n m m"
  by (simp add: same_on_def)

lemma same_on_trans: "same_on a n m m' \<Longrightarrow> same_on a n m' m'' \<Longrightarrow> same_on a n m m''"
  by (simp add: same_on_def)

lemma same_on_part: "same_on a n m m' \<Longrightarrow> a \<le> b \<Longrightarrow> b + k \<le> a + n \<Longrightarrow> same_on b k m m'"
  by (auto simp: same_on_def)

lemma rd32_wr32: "rd32 (wr32 m a w) a = w"
  using word_of_bytes [of w] by (simp add: rd32_def wr32_def)

lemma wr32_same_on: "b + k \<le> a \<or> a + 4 \<le> b \<Longrightarrow> same_on b k m (wr32 m a w)"
  by (auto simp: same_on_def wr32_def)

lemma rd32_same_on: "same_on b 4 m m' \<Longrightarrow> rd32 m' b = rd32 m b"
  by (simp add: rd32_def same_on_def)

lemma wr64_same_on: "b + k \<le> a \<or> a + 8 \<le> b \<Longrightarrow> same_on b k m (wr64 m a w)"
  unfolding wr64_def by (rule same_on_trans [OF wr32_same_on wr32_same_on]) auto

lemma rd64_same_on: "same_on b 8 m m' \<Longrightarrow> rd64 m' b = rd64 m b"
  using rd32_same_on [of b m m'] rd32_same_on [of "b + 4" m m'] same_on_part [of b 8 m m' b 4] same_on_part [of b 8 m m' "b + 4" 4]
  by (simp add: rd64_def)

lemma word64_halves: "ucast (ucast (w :: u64) :: u32) OR push_bit 32 (ucast (ucast (drop_bit 32 w) :: u32)) = w"
  by (rule bit_word_eqI) (auto simp: bit_simps)

lemma rd64_wr64: "rd64 (wr64 m a w) a = w"
proof -
  have "rd32 (wr64 m a w) a = ucast w" "rd32 (wr64 m a w) (a + 4) = ucast (drop_bit 32 w)"
    by (simp_all add: wr64_def rd32_wr32 rd32_same_on [OF wr32_same_on])
  then show ?thesis by (simp only: rd64_def word64_halves)
qed

lemma fill_same_on: "b + k \<le> a \<or> a + n \<le> b \<Longrightarrow> same_on b k m (mem_fill m a n v)"
  by (auto simp: same_on_def mem_fill_def)

lemma copy_same_on: "b + k \<le> a \<or> a + n \<le> b \<Longrightarrow> same_on b k m (mem_copy m a src n)"
  by (auto simp: same_on_def mem_copy_def)

lemma rd_wr_simps:
  "b + 4 \<le> a \<or> a + 4 \<le> b \<Longrightarrow> rd32 (wr32 m a w) b = rd32 m b" "b + 4 \<le> a \<or> a + 8 \<le> b \<Longrightarrow> rd32 (wr64 m a v) b = rd32 m b"
  "b + 8 \<le> a \<or> a + 4 \<le> b \<Longrightarrow> rd64 (wr32 m a w) b = rd64 m b" "b + 8 \<le> a \<or> a + 8 \<le> b \<Longrightarrow> rd64 (wr64 m a v) b = rd64 m b"
  by (rule rd32_same_on rd64_same_on, rule wr32_same_on wr64_same_on, assumption)+

end
