(* ===== verification/Kheap.thy ===== *)
theory Kheap
  imports Byte_Memory
begin

text \<open>
  The kernel heap (\<open>kernel/memory.c\<close>, \<open>kernel/memory.h\<close>): blocks with headers and red zones in
  byte-addressed memory, lists of free blocks by size and of all sizes, first fit, splitting,
  and merging with the block behind. Addresses are 64-bit words, 0 is \<open>NULL\<close>; the members of a
  structure are read at the address plus their offset. The control structure is a record of its
  own. The spinlock is not modelled. A result \<open>None\<close> means that a list is followed forever.
\<close>

section \<open>Constants and state\<close>

definition MEM_PAG_SIZE :: u64 where "MEM_PAG_SIZE = 4096"
definition MEM_HEAP_HASH_SIZE :: u64 where "MEM_HEAP_HASH_SIZE = 512"
definition HEAP_CTRL_SIGNATURE :: u32 where "HEAP_CTRL_SIGNATURE = 0x5EEDC0DE"
definition MEM_USED_SIGNATURE :: u32 where "MEM_USED_SIGNATURE = 0xDEADBEEF"
definition MEM_UNUSED_SIGNATURE :: u32 where "MEM_UNUSED_SIGNATURE = 0xCAFEBABE"
definition MEM_RED_ZONE_SIZE :: u64 where "MEM_RED_ZONE_SIZE = 16"
definition MEM_CANARY_FRONT :: u32 where "MEM_CANARY_FRONT = 0xBADCAFE0"
definition MEM_CANARY_BACK :: u32 where "MEM_CANARY_BACK = 0xDEADBEE0"

text \<open>The size of \<open>CMemUsed\<close>, which is also the offset of its \<open>start\<close>, and of \<open>CHeapCtrl\<close>.\<close>

definition sizeof_CMemUsed :: u64 where "sizeof_CMemUsed = 16"
definition sizeof_CHeapCtrl :: u64 where "sizeof_CHeapCtrl = 4144"

record CHeapCtrl =
  hc_signature :: u32
  heap_hash :: "u64 list"
  malloc_free_list :: u64
  used_size :: u64
  max_size :: u64

record heap_state =
  h_mem :: memory
  g_heap :: u64
  g_hc :: CHeapCtrl
  g_heap_base :: u64
  g_heap_total :: u64
  g_next_page :: u64
  g_heap_end :: u64

text \<open>The members of a block header: \<open>signature\<close>, \<open>size\<close> and, in a free block, \<open>next\<close>.\<close>

definition mu_signature :: "memory \<Rightarrow> u64 \<Rightarrow> u32" where "mu_signature m a = rd32 m (unat a)"
definition mu_size :: "memory \<Rightarrow> u64 \<Rightarrow> u32" where "mu_size m a = rd32 m (unat a + 4)"
definition mu_next :: "memory \<Rightarrow> u64 \<Rightarrow> u64" where "mu_next m a = rd64 m (unat a + 8)"
definition set_signature :: "u64 \<Rightarrow> u32 \<Rightarrow> memory \<Rightarrow> memory" where "set_signature a w m = wr32 m (unat a) w"
definition set_size :: "u64 \<Rightarrow> u32 \<Rightarrow> memory \<Rightarrow> memory" where "set_size a w m = wr32 m (unat a + 4) w"
definition set_next :: "u64 \<Rightarrow> u64 \<Rightarrow> memory \<Rightarrow> memory" where "set_next a p m = wr64 m (unat a + 8) p"

section \<open>Red zones\<close>

fun put_words :: "nat \<Rightarrow> u64 \<Rightarrow> u32 \<Rightarrow> memory \<Rightarrow> memory" where
  "put_words 0 a w m = m"
| "put_words (Suc n) a w m = put_words n (a + 4) w (wr32 m (unat a) w)"

fun all_words :: "nat \<Rightarrow> u64 \<Rightarrow> u32 \<Rightarrow> memory \<Rightarrow> bool" where
  "all_words 0 a w m \<longleftrightarrow> True"
| "all_words (Suc n) a w m \<longleftrightarrow> rd32 m (unat a) = w \<and> all_words n (a + 4) w m"

definition user_bytes :: "memory \<Rightarrow> u64 \<Rightarrow> u64" where
  "user_bytes m mu = ucast (mu_size m mu) - sizeof_CMemUsed - 2 * MEM_RED_ZONE_SIZE"

definition write_canaries :: "u64 \<Rightarrow> memory \<Rightarrow> memory" where
  "write_canaries mu m =
     (let start = mu + sizeof_CMemUsed;
          m1 = put_words 4 start MEM_CANARY_FRONT m
      in put_words 4 (start + MEM_RED_ZONE_SIZE + user_bytes m1 mu) MEM_CANARY_BACK m1)"

definition check_canaries :: "memory \<Rightarrow> u64 \<Rightarrow> int" where
  "check_canaries m mu =
     (let start = mu + sizeof_CMemUsed in
      if \<not> all_words 4 start MEM_CANARY_FRONT m then -1
      else if \<not> all_words 4 (start + MEM_RED_ZONE_SIZE + user_bytes m mu) MEM_CANARY_BACK m then -1
      else 0)"

section \<open>Pages and initialisation\<close>

definition alloc_pages :: "u64 \<Rightarrow> heap_state \<Rightarrow> u64 \<times> heap_state" where
  "alloc_pages n_pages s =
     (let n = n_pages * MEM_PAG_SIZE in
      if g_next_page s + n > g_heap_end s then (0, s)
      else (g_next_page s, s\<lparr>g_next_page := g_next_page s + n\<rparr>))"

definition empty_ctrl :: CHeapCtrl where
  "empty_ctrl = \<lparr>hc_signature = 0, heap_hash = replicate 512 0, malloc_free_list = 0, used_size = 0, max_size = 0\<rparr>"

text \<open>The argument \<open>backing\<close> is the memory that the heap is given, 0 when there is none.\<close>

definition mem_init :: "u64 \<Rightarrow> u64 \<Rightarrow> heap_state \<Rightarrow> int \<times> heap_state" where
  "mem_init backing total_bytes s =
     (let s1 = s\<lparr>g_heap_base := backing\<rparr> in
      if backing = 0 then (-1, s1)
      else (let s2 = s1\<lparr>g_heap_total := total_bytes, g_next_page := backing, g_heap_end := backing + total_bytes\<rparr> in
        case alloc_pages ((sizeof_CHeapCtrl + MEM_PAG_SIZE - 1) div MEM_PAG_SIZE) s2 of (p, s3) \<Rightarrow>
          if p = 0 then (-1, s3\<lparr>g_heap := 0\<rparr>)
          else (0, s3\<lparr>g_heap := p, g_hc := empty_ctrl\<lparr>hc_signature := HEAP_CTRL_SIGNATURE, max_size := total_bytes - MEM_PAG_SIZE\<rparr>\<rparr>)))"

definition mem_shutdown :: "heap_state \<Rightarrow> heap_state" where
  "mem_shutdown s =
     (if g_heap_base s \<noteq> 0 then s\<lparr>g_heap_base := 0, g_heap := 0, g_next_page := 0, g_heap_end := 0\<rparr> else s)"

section \<open>Allocation\<close>

definition block_total :: "u64 \<Rightarrow> u64" where
  "block_total req = ((if req = 0 then 1 else req) + sizeof_CMemUsed + 2 * MEM_RED_ZONE_SIZE + 15) AND NOT 15"

text \<open>First fit: the block before and the block, 0 when there is none.\<close>

partial_function (option) free_scan :: "memory \<Rightarrow> u64 \<Rightarrow> u64 \<Rightarrow> u64 \<Rightarrow> (u64 \<times> u64) option" where
  "free_scan m n prev cur =
     (if cur = 0 then Some (prev, 0)
      else if ucast (mu_size m cur) \<ge> n then Some (prev, cur)
      else free_scan m n cur (mu_next m cur))"

definition link_after :: "u64 \<Rightarrow> u64 \<Rightarrow> heap_state \<Rightarrow> heap_state" where
  "link_after prev p s =
     (if prev = 0 then s\<lparr>g_hc := (g_hc s)\<lparr>malloc_free_list := p\<rparr>\<rparr> else s\<lparr>h_mem := set_next prev p (h_mem s)\<rparr>)"

text \<open>A block of at least that size, with its size in the header; 0 when there is none.\<close>

definition get_block :: "u64 \<Rightarrow> heap_state \<Rightarrow> (u64 \<times> heap_state) option" where
  "get_block n s =
     (let hc = g_hc s; u = (if n < MEM_HEAP_HASH_SIZE then heap_hash hc ! unat n else 0) in
      if u \<noteq> 0 then Some (u, s\<lparr>g_hc := hc\<lparr>heap_hash := (heap_hash hc)[unat n := mu_next (h_mem s) u]\<rparr>\<rparr>)
      else (case free_scan (h_mem s) n 0 (malloc_free_list hc) of
          None \<Rightarrow> None
        | Some (prev, cur) \<Rightarrow>
            if cur \<noteq> 0 then Some (cur, link_after prev (mu_next (h_mem s) cur) s)
            else (let n_pages = (n + MEM_PAG_SIZE - 1) div MEM_PAG_SIZE in
              case alloc_pages n_pages s of (block, s1) \<Rightarrow>
                if block = 0 then Some (0, s1)
                else Some (block, s1\<lparr>h_mem := set_size block (ucast (n_pages * MEM_PAG_SIZE)) (h_mem s1)\<rparr>))))"

definition push_free :: "u64 \<Rightarrow> heap_state \<Rightarrow> heap_state" where
  "push_free u s =
     s\<lparr>h_mem := set_next u (malloc_free_list (g_hc s)) (h_mem s), g_hc := (g_hc s)\<lparr>malloc_free_list := u\<rparr>\<rparr>"

text \<open>What is done from the label \<open>found\<close> on.\<close>

definition trim_block :: "u64 \<Rightarrow> u64 \<Rightarrow> heap_state \<Rightarrow> heap_state" where
  "trim_block mu n s =
     (let sz = ucast (mu_size (h_mem s) mu) :: u64 in
      if sz > n then
        (let s1 = (if sz > n + sizeof_CMemUsed + 16 then
                     (let rem = mu + n in
                      push_free rem (s\<lparr>h_mem := set_next rem 0 (set_size rem (ucast (sz - n)) (set_signature rem MEM_UNUSED_SIGNATURE (h_mem s)))\<rparr>))
                   else s)
         in s1\<lparr>h_mem := set_size mu (ucast n) (h_mem s1)\<rparr>)
      else s)"

definition mem_alloc :: "u64 \<Rightarrow> heap_state \<Rightarrow> (u64 \<times> heap_state) option" where
  "mem_alloc req s =
     (if g_heap s = 0 then Some (0, s)
      else (let n = block_total req in
        case get_block n s of
          None \<Rightarrow> None
        | Some (mu, s1) \<Rightarrow>
            if mu = 0 then Some (0, s1)
            else (let s2 = trim_block mu n (s1\<lparr>h_mem := set_signature mu MEM_USED_SIGNATURE (h_mem s1)\<rparr>);
                      s3 = s2\<lparr>h_mem := write_canaries mu (h_mem s2)\<rparr>;
                      hc = g_hc s3
                  in Some (mu + sizeof_CMemUsed + MEM_RED_ZONE_SIZE,
                       s3\<lparr>g_hc := hc\<lparr>used_size := used_size hc + ucast (mu_size (h_mem s3) mu)\<rparr>\<rparr>))))"

definition mem_calloc :: "u64 \<Rightarrow> u64 \<Rightarrow> heap_state \<Rightarrow> (u64 \<times> heap_state) option" where
  "mem_calloc count req s =
     (let n = count * req in
      case mem_alloc n s of
        None \<Rightarrow> None
      | Some (p, s1) \<Rightarrow> Some (p, if p \<noteq> 0 then s1\<lparr>h_mem := mem_fill (h_mem s1) (unat p) (unat n) 0\<rparr> else s1))"

section \<open>Release\<close>

text \<open>Look for a block in a list: the block before it and the block, or 0.\<close>

partial_function (option) unlink_scan :: "memory \<Rightarrow> u64 \<Rightarrow> u64 \<Rightarrow> u64 \<Rightarrow> (u64 \<times> u64) option" where
  "unlink_scan m nu p c =
     (if c \<noteq> 0 \<and> c \<noteq> nu then unlink_scan m nu c (mu_next m c) else Some (p, c))"

definition header_of :: "u64 \<Rightarrow> u64" where
  "header_of ptr = ptr - MEM_RED_ZONE_SIZE - sizeof_CMemUsed"

text \<open>Take the free block \<open>nxt\<close> out of the list that its size says.\<close>

definition unlink_free :: "u64 \<Rightarrow> heap_state \<Rightarrow> heap_state option" where
  "unlink_free nxt s =
     (let hc = g_hc s; m = h_mem s; sz = mu_size m nxt in
      if ucast sz < MEM_HEAP_HASH_SIZE then
        (case unlink_scan m nxt 0 (heap_hash hc ! unat sz) of
           None \<Rightarrow> None
         | Some (p, c) \<Rightarrow>
             Some (if c = nxt then (if p \<noteq> 0 then s\<lparr>h_mem := set_next p (mu_next m c) m\<rparr>
                                    else s\<lparr>g_hc := hc\<lparr>heap_hash := (heap_hash hc)[unat sz := mu_next m c]\<rparr>\<rparr>)
                   else s))
      else
        (case unlink_scan m nxt 0 (malloc_free_list hc) of
           None \<Rightarrow> None
         | Some (p, c) \<Rightarrow>
             Some (if c = nxt then (if p \<noteq> 0 then s\<lparr>h_mem := set_next p (mu_next m c) m\<rparr>
                                    else s\<lparr>g_hc := hc\<lparr>malloc_free_list := mu_next m c\<rparr>\<rparr>)
                   else s)))"

definition coalesce :: "u64 \<Rightarrow> heap_state \<Rightarrow> heap_state option" where
  "coalesce mu s =
     (let nxt = mu + ucast (mu_size (h_mem s) mu);
          heap_end = g_heap s + sizeof_CHeapCtrl + max_size (g_hc s)
      in if nxt < heap_end \<and> mu_signature (h_mem s) nxt = MEM_UNUSED_SIGNATURE then
           (case unlink_free nxt s of
              None \<Rightarrow> None
            | Some s1 \<Rightarrow> Some (s1\<lparr>h_mem := set_size mu (mu_size (h_mem s1) mu + mu_size (h_mem s1) nxt) (h_mem s1)\<rparr>))
         else Some s)"

definition push_by_size :: "u64 \<Rightarrow> heap_state \<Rightarrow> heap_state" where
  "push_by_size mu s =
     (let hc = g_hc s; sz = mu_size (h_mem s) mu in
      if ucast sz < MEM_HEAP_HASH_SIZE
      then s\<lparr>h_mem := set_next mu (heap_hash hc ! unat sz) (h_mem s), g_hc := hc\<lparr>heap_hash := (heap_hash hc)[unat sz := mu]\<rparr>\<rparr>
      else push_free mu s)"

definition mem_free :: "u64 \<Rightarrow> heap_state \<Rightarrow> heap_state option" where
  "mem_free ptr s =
     (if ptr = 0 \<or> g_heap s = 0 then Some s
      else (let mu = header_of ptr in
        if mu_signature (h_mem s) mu \<noteq> MEM_USED_SIGNATURE then Some s
        else (let hc = g_hc s;
                  s1 = s\<lparr>g_hc := hc\<lparr>used_size := used_size hc - ucast (mu_size (h_mem s) mu)\<rparr>,
                         h_mem := set_next mu 0 (set_signature mu MEM_UNUSED_SIGNATURE (h_mem s))\<rparr>
              in map_option (push_by_size mu) (coalesce mu s1))))"

definition mem_realloc :: "u64 \<Rightarrow> u64 \<Rightarrow> heap_state \<Rightarrow> (u64 \<times> heap_state) option" where
  "mem_realloc ptr new_size s =
     (if ptr = 0 then mem_alloc new_size s
      else if new_size = 0 then map_option (\<lambda>s1. (0, s1)) (mem_free ptr s)
      else (let old_usable = user_bytes (h_mem s) (header_of ptr);
                copy_size = (if old_usable < new_size then old_usable else new_size)
            in case mem_alloc new_size s of
              None \<Rightarrow> None
            | Some (new_ptr, s1) \<Rightarrow>
                if new_ptr = 0 then Some (0, s1)
                else map_option (\<lambda>s2. (new_ptr, s2))
                       (mem_free ptr (s1\<lparr>h_mem := mem_copy (h_mem s1) (unat new_ptr) (unat ptr) (unat copy_size)\<rparr>))))"

section \<open>Diagnostics\<close>

definition mem_used :: "heap_state \<Rightarrow> u64" where
  "mem_used s = (if g_heap s \<noteq> 0 then used_size (g_hc s) else 0)"

definition mem_available :: "heap_state \<Rightarrow> u64" where
  "mem_available s = (if g_heap s = 0 then 0 else max_size (g_hc s) - used_size (g_hc s))"

definition mem_validate :: "heap_state \<Rightarrow> int" where
  "mem_validate s = (if g_heap s = 0 then -1 else if hc_signature (g_hc s) \<noteq> HEAP_CTRL_SIGNATURE then -1 else 0)"

definition mem_check_redzones :: "u64 \<Rightarrow> heap_state \<Rightarrow> int" where
  "mem_check_redzones ptr s =
     (if ptr = 0 \<or> g_heap s = 0 then -1
      else if mu_signature (h_mem s) (header_of ptr) \<noteq> MEM_USED_SIGNATURE then -1
      else check_canaries (h_mem s) (header_of ptr))"

definition align8 :: "u64 \<Rightarrow> u64" where "align8 a = (a + 7) AND NOT 7"

text \<open>A header with a size that is believed.\<close>

definition plausible :: "heap_state \<Rightarrow> u64 \<Rightarrow> bool" where
  "plausible s scan \<longleftrightarrow> ucast (mu_size (h_mem s) scan) \<ge> sizeof_CMemUsed \<and>
     ucast (mu_size (h_mem s) scan) < g_heap_total s \<and> scan + ucast (mu_size (h_mem s) scan) \<le> g_heap_end s"

text \<open>The callbacks change their context only.\<close>

partial_function (option) walk_loop :: "heap_state \<Rightarrow> (u64 \<Rightarrow> u64 \<Rightarrow> 's \<Rightarrow> 's) \<Rightarrow> u64 \<Rightarrow> 's \<Rightarrow> 's option" where
  "walk_loop s cb scan ctx =
     (if scan + 4 \<le> g_heap_end s then
        (if mu_signature (h_mem s) scan = MEM_USED_SIGNATURE \<and> plausible s scan
         then walk_loop s cb (align8 (scan + ucast (mu_size (h_mem s) scan)))
                (cb (scan + sizeof_CMemUsed + MEM_RED_ZONE_SIZE) (user_bytes (h_mem s) scan) ctx)
         else walk_loop s cb (scan + 8) ctx)
      else Some ctx)"

definition mem_walk :: "(u64 \<Rightarrow> u64 \<Rightarrow> 's \<Rightarrow> 's) option \<Rightarrow> heap_state \<Rightarrow> 's \<Rightarrow> 's option" where
  "mem_walk cb s ctx =
     (if g_heap s = 0 then Some ctx
      else (case cb of
          None \<Rightarrow> Some ctx
        | Some f \<Rightarrow> walk_loop s f (align8 (g_heap_base s + sizeof_CHeapCtrl)) ctx))"

partial_function (option) bloom_loop ::
  "heap_state \<Rightarrow> u32 \<Rightarrow> (u64 \<Rightarrow> u32 \<Rightarrow> 's \<Rightarrow> 's) option \<Rightarrow> u64 \<Rightarrow> int \<Rightarrow> 's \<Rightarrow> (int \<times> 's) option" where
  "bloom_loop s sig cb scan count ctx =
     (if scan + 4 \<le> g_heap_end s then
        (if mu_signature (h_mem s) scan = sig \<and> plausible s scan
         then bloom_loop s sig cb (align8 (scan + ucast (mu_size (h_mem s) scan))) (count + 1)
                (case cb of None \<Rightarrow> ctx | Some f \<Rightarrow> f scan sig ctx)
         else if scan + 12 \<le> g_heap_end s \<and> rd32 (h_mem s) (unat scan + 8) = sig
         then bloom_loop s sig cb (align8 (scan + 48)) (count + 1) (case cb of None \<Rightarrow> ctx | Some f \<Rightarrow> f scan sig ctx)
         else bloom_loop s sig cb (scan + 8) count ctx)
      else Some (count, ctx))"

definition mem_bloom_scan :: "u32 \<Rightarrow> (u64 \<Rightarrow> u32 \<Rightarrow> 's \<Rightarrow> 's) option \<Rightarrow> heap_state \<Rightarrow> 's \<Rightarrow> (int \<times> 's) option" where
  "mem_bloom_scan sig cb s ctx =
     (if g_heap s = 0 \<or> g_heap_base s = 0 then Some (0, ctx)
      else bloom_loop s sig cb (align8 (g_heap_base s + sizeof_CHeapCtrl)) 0 ctx)"

text \<open>The bytes in used blocks and the numbers of used and free ones (the bytes in free blocks stay 0).\<close>

partial_function (option) stats_loop :: "heap_state \<Rightarrow> u64 \<Rightarrow> u64 \<Rightarrow> int \<Rightarrow> int \<Rightarrow> (u64 \<times> int \<times> int) option" where
  "stats_loop s scan used_sz nu nf =
     (if scan + 4 \<le> g_heap_end s then
        (if mu_signature (h_mem s) scan = MEM_USED_SIGNATURE \<and> plausible s scan
         then stats_loop s (align8 (scan + ucast (mu_size (h_mem s) scan))) (used_sz + ucast (mu_size (h_mem s) scan)) (nu + 1) nf
         else if scan + 12 \<le> g_heap_end s \<and> rd32 (h_mem s) (unat scan + 8) = MEM_UNUSED_SIGNATURE
         then stats_loop s (align8 (scan + 48)) used_sz nu (nf + 1)
         else stats_loop s (scan + 8) used_sz nu nf)
      else Some (used_sz, nu, nf))"

text \<open>The return value, the bytes used and free, and the two counts.\<close>

definition mem_walk_stats :: "heap_state \<Rightarrow> (int \<times> u64 \<times> u64 \<times> int \<times> int) option" where
  "mem_walk_stats s =
     (if g_heap s = 0 \<or> g_heap_base s = 0 then Some (-1, 0, 0, 0, 0)
      else map_option (\<lambda>(used_sz, nu, nf). (nu, used_sz, 0, nu, nf))
             (stats_loop s (align8 (g_heap_base s + sizeof_CHeapCtrl)) 0 0 0))"

text \<open>The corrupt blocks in a list.\<close>

partial_function (option) corrupt_in :: "memory \<Rightarrow> u64 \<Rightarrow> int \<Rightarrow> int option" where
  "corrupt_in m u k =
     (if u = 0 then Some k
      else corrupt_in m (mu_next m u)
             (if mu_signature m u = MEM_USED_SIGNATURE \<and> check_canaries m u \<noteq> 0 then k + 1 else k))"

fun corrupt_buckets :: "memory \<Rightarrow> u64 list \<Rightarrow> int \<Rightarrow> int option" where
  "corrupt_buckets m [] k = Some k"
| "corrupt_buckets m (u # us) k =
     (case corrupt_in m u k of None \<Rightarrow> None | Some k1 \<Rightarrow> corrupt_buckets m us k1)"

definition mem_validate_all :: "heap_state \<Rightarrow> int option" where
  "mem_validate_all s =
     (if g_heap s = 0 then Some (-1)
      else (case corrupt_buckets (h_mem s) (heap_hash (g_hc s)) 0 of
          None \<Rightarrow> None
        | Some k \<Rightarrow> corrupt_in (h_mem s) (malloc_free_list (g_hc s)) k))"

partial_function (option) coalescing_loop :: "heap_state \<Rightarrow> u64 \<Rightarrow> u64 \<Rightarrow> int \<Rightarrow> int option" where
  "coalescing_loop s end_addr walk k =
     (if walk \<noteq> 0 \<and> walk < end_addr then
        (let m = h_mem s; sz = ucast (mu_size m walk) :: u64 in
         if sz = 0 \<or> sz > max_size (g_hc s) then Some k
         else (let next = walk + sz in
           coalescing_loop s end_addr next
             (if next < end_addr \<and> mu_signature m walk = MEM_UNUSED_SIGNATURE \<and> mu_signature m next = MEM_UNUSED_SIGNATURE
              then k + 1 else k)))
      else Some k)"

definition mem_validate_coalescing :: "heap_state \<Rightarrow> int option" where
  "mem_validate_coalescing s =
     (if g_heap s = 0 then Some (-1)
      else coalescing_loop s (g_heap s + sizeof_CHeapCtrl + max_size (g_hc s)) (g_heap s + sizeof_CHeapCtrl) 0)"

text \<open>The loops that may not end are executable.\<close>

declare free_scan.simps [code]
  unlink_scan.simps [code]
  walk_loop.simps [code]
  bloom_loop.simps [code]
  stats_loop.simps [code]
  corrupt_in.simps [code]
  coalescing_loop.simps [code]

end
