(* ===== verification/Kheap_Facts.thy ===== *)
theory Kheap_Facts
  imports Kheap
begin

text \<open>
  The kernel heap keeps its blocks apart: the invariant that the free blocks on the lists, the
  blocks in use and the blocks in between are disjoint and have intact headers, and what
  allocation, release and reallocation do to it.
\<close>

section \<open>Lists of free blocks\<close>

abbreviation bsize :: "memory \<Rightarrow> u64 \<Rightarrow> nat" where
  "bsize m a \<equiv> unat (mu_size m a)"

fun block_list :: "memory \<Rightarrow> u64 \<Rightarrow> u64 list \<Rightarrow> bool" where
  "block_list m p [] \<longleftrightarrow> p = 0"
| "block_list m p (a # as) \<longleftrightarrow> p = a \<and> a \<noteq> 0 \<and> block_list m (mu_next m a) as"

lemma block_list_cong: "(\<And>a. a \<in> set as \<Longrightarrow> mu_next m' a = mu_next m a) \<Longrightarrow> block_list m' p as = block_list m p as"
  by (induction as arbitrary: p) auto

lemma block_list_head: "block_list m p as \<Longrightarrow> p = (case as of [] \<Rightarrow> 0 | a # _ \<Rightarrow> a)"
  by (cases as) auto


text \<open>The block before the one where a search stopped.\<close>

definition last_or :: "u64 \<Rightarrow> u64 list \<Rightarrow> u64" where
  "last_or p xs = (if xs = [] then p else last xs)"

lemma free_scan_rule:
  assumes "block_list m cur as"
  shows "(\<exists>pre c post. as = pre @ c # post \<and> n \<le> ucast (mu_size m c) \<and> free_scan m n prev cur = Some (last_or prev pre, c)) \<or>
    (\<forall>a \<in> set as. \<not> n \<le> ucast (mu_size m a)) \<and> free_scan m n prev cur = Some (last_or prev as, 0)"
  using assms
proof (induction as arbitrary: cur prev)
  case Nil
  then show ?case by (subst (1 2) free_scan.simps) (simp add: last_or_def)
next
  case (Cons a as)
  then have a: "cur = a" "a \<noteq> 0" "block_list m (mu_next m a) as" by auto
  show ?case
  proof (cases "n \<le> ucast (mu_size m a)")
    case True
    have "free_scan m n prev cur = Some (last_or prev [], a)" using a True by (subst free_scan.simps) (simp add: last_or_def)
    then show ?thesis using True by (intro disjI1 exI [of _ "[]"]) auto
  next
    case False
    have e: "free_scan m n prev cur = free_scan m n a (mu_next m a)" using a False by (subst free_scan.simps) simp
    have l: "last_or a xs = last_or prev (a # xs)" for xs by (simp add: last_or_def)
    from Cons.IH [OF a(3), of a] show ?thesis
    proof
      assume "\<exists>pre c post. as = pre @ c # post \<and> n \<le> ucast (mu_size m c) \<and> free_scan m n a (mu_next m a) = Some (last_or a pre, c)"
      then obtain pre c post where "as = pre @ c # post" "n \<le> ucast (mu_size m c)" "free_scan m n a (mu_next m a) = Some (last_or a pre, c)" by blast
      then show ?thesis using e l [of pre] by (intro disjI1 exI [of _ "a # pre"] exI [of _ c] exI [of _ post]) simp
    qed (use e l [of as] False in auto)
  qed
qed

lemma unlink_scan_rule:
  assumes "block_list m cur (pre @ c # post)" and "c \<notin> set pre"
  shows "unlink_scan m c prev cur = Some (last_or prev pre, c)"
  using assms
proof (induction pre arbitrary: cur prev)
  case Nil
  then show ?case by (subst unlink_scan.simps) (simp add: last_or_def)
next
  case (Cons a pre)
  then have a: "cur = a" "a \<noteq> 0" "block_list m (mu_next m a) (pre @ c # post)" "a \<noteq> c" "c \<notin> set pre" by auto
  have "unlink_scan m c prev cur = unlink_scan m c a (mu_next m a)" using a by (subst unlink_scan.simps) simp
  then show ?case using Cons.IH [OF a(3,5), of a] by (simp add: last_or_def)
qed

section \<open>Headers\<close>

lemma header_cong:
  assumes "same_on (unat a) 16 m m'"
  shows "mu_signature m' a = mu_signature m a" "mu_size m' a = mu_size m a" "mu_next m' a = mu_next m a"
  using assms by (auto simp: mu_signature_def mu_size_def mu_next_def intro!: rd32_same_on rd64_same_on same_on_part [OF assms])

lemma set_fields [simp]:
  "mu_signature (set_signature a w m) a = w" "mu_size (set_signature a w m) a = mu_size m a" "mu_next (set_signature a w m) a = mu_next m a"
  "mu_signature (set_size a w m) a = mu_signature m a" "mu_size (set_size a w m) a = w" "mu_next (set_size a w m) a = mu_next m a"
  "mu_signature (set_next a p m) a = mu_signature m a" "mu_size (set_next a p m) a = mu_size m a" "mu_next (set_next a p m) a = p"
  by (simp_all add: mu_signature_def mu_size_def mu_next_def set_signature_def set_size_def set_next_def rd32_wr32 rd64_wr64 rd_wr_simps)

lemma set_fields_same_on:
  assumes "b + k \<le> unat a \<or> unat a + 16 \<le> b"
  shows "same_on b k m (set_signature a w m)" "same_on b k m (set_size a w m)" "same_on b k m (set_next a p m)"
  unfolding set_signature_def set_size_def set_next_def using assms by (auto intro!: wr32_same_on wr64_same_on)

section \<open>The invariant\<close>

definition list_head :: "heap_state \<Rightarrow> nat \<Rightarrow> u64" where
  "list_head s k = (if k < 512 then heap_hash (g_hc s) ! k else malloc_free_list (g_hc s))"

definition set_head :: "nat \<Rightarrow> u64 \<Rightarrow> heap_state \<Rightarrow> heap_state" where
  "set_head k p s =
     (if k < 512 then s\<lparr>g_hc := (g_hc s)\<lparr>heap_hash := (heap_hash (g_hc s))[k := p]\<rparr>\<rparr>
      else s\<lparr>g_hc := (g_hc s)\<lparr>malloc_free_list := p\<rparr>\<rparr>)"

definition pool_ok :: "heap_state \<Rightarrow> bool" where
  "pool_ok s \<longleftrightarrow> g_heap s \<noteq> 0 \<and> length (heap_hash (g_hc s)) = 512 \<and> unat (g_heap_base s) + 8192 \<le> unat (g_next_page s) \<and>
     unat (g_next_page s) \<le> unat (g_heap_end s) \<and> unat (g_heap_end s) < unat (g_heap_base s) + 2 ^ 32 \<and>
     unat (g_heap_end s) < 2 ^ 63 \<and> 16 dvd unat (g_next_page s)"

text \<open>Where a block may lie, and that two blocks do not overlap.\<close>

definition block_ok :: "heap_state \<Rightarrow> u64 \<Rightarrow> bool" where
  "block_ok s a \<longleftrightarrow> unat (g_heap_base s) + 8192 \<le> unat a \<and> unat a + bsize (h_mem s) a \<le> unat (g_next_page s) \<and>
     48 \<le> bsize (h_mem s) a \<and> 16 dvd bsize (h_mem s) a \<and> 16 dvd unat a"

definition apart :: "memory \<Rightarrow> u64 \<Rightarrow> u64 \<Rightarrow> bool" where
  "apart m a b \<longleftrightarrow> unat a + bsize m a \<le> unat b \<or> unat b + bsize m b \<le> unat a"

definition blocks :: "(nat \<Rightarrow> u64 list) \<Rightarrow> u64 set \<Rightarrow> u64 set \<Rightarrow> u64 set" where
  "blocks L lv X = (\<Union>k \<le> 512. set (L k)) \<union> lv \<union> X"

text \<open>
  The lists \<open>L\<close> (the buckets, and the list of all sizes at index 512), the blocks \<open>lv\<close> in use and
  the blocks \<open>X\<close> that an operation has in hand.
\<close>

definition heap_inv :: "heap_state \<Rightarrow> (nat \<Rightarrow> u64 list) \<Rightarrow> u64 set \<Rightarrow> u64 set \<Rightarrow> bool" where
  "heap_inv s L lv X \<longleftrightarrow> pool_ok s \<and>
     (\<forall>k \<le> 512. block_list (h_mem s) (list_head s k) (L k) \<and> distinct (L k)) \<and>
     (\<forall>k \<le> 512. \<forall>j \<le> 512. k \<noteq> j \<longrightarrow> set (L k) \<inter> set (L j) = {}) \<and> (\<forall>k \<le> 512. set (L k) \<inter> (lv \<union> X) = {}) \<and>
     lv \<inter> X = {} \<and> finite lv \<and>
     (\<forall>a \<in> blocks L lv X. block_ok s a) \<and> (\<forall>a \<in> blocks L lv X. \<forall>b \<in> blocks L lv X. a \<noteq> b \<longrightarrow> apart (h_mem s) a b) \<and>
     (\<forall>k \<le> 512. \<forall>a \<in> set (L k). mu_signature (h_mem s) a = MEM_UNUSED_SIGNATURE \<and> (k < 512 \<longrightarrow> bsize (h_mem s) a = k)) \<and>
     (\<forall>a \<in> lv. mu_signature (h_mem s) a = MEM_USED_SIGNATURE) \<and>
     used_size (g_hc s) = of_nat (\<Sum>a \<in> lv. bsize (h_mem s) a)"

lemma heap_invD:
  assumes "heap_inv s L lv X"
  shows "pool_ok s" "\<And>k. k \<le> 512 \<Longrightarrow> block_list (h_mem s) (list_head s k) (L k)" "\<And>k. k \<le> 512 \<Longrightarrow> distinct (L k)"
    "\<And>k j. k \<le> 512 \<Longrightarrow> j \<le> 512 \<Longrightarrow> k \<noteq> j \<Longrightarrow> set (L k) \<inter> set (L j) = {}" "\<And>k. k \<le> 512 \<Longrightarrow> set (L k) \<inter> (lv \<union> X) = {}"
    "lv \<inter> X = {}" "finite lv" "\<And>a. a \<in> blocks L lv X \<Longrightarrow> block_ok s a"
    "\<And>a b. a \<in> blocks L lv X \<Longrightarrow> b \<in> blocks L lv X \<Longrightarrow> a \<noteq> b \<Longrightarrow> apart (h_mem s) a b"
    "\<And>k a. k \<le> 512 \<Longrightarrow> a \<in> set (L k) \<Longrightarrow> mu_signature (h_mem s) a = MEM_UNUSED_SIGNATURE"
    "\<And>k a. k < 512 \<Longrightarrow> a \<in> set (L k) \<Longrightarrow> bsize (h_mem s) a = k"
    "\<And>a. a \<in> lv \<Longrightarrow> mu_signature (h_mem s) a = MEM_USED_SIGNATURE"
    "used_size (g_hc s) = of_nat (\<Sum>a \<in> lv. bsize (h_mem s) a)"
  using assms unfolding heap_inv_def by auto

lemma heap_invI:
  assumes "pool_ok s" "\<And>k. k \<le> 512 \<Longrightarrow> block_list (h_mem s) (list_head s k) (L k)" "\<And>k. k \<le> 512 \<Longrightarrow> distinct (L k)"
    "\<And>k j. k \<le> 512 \<Longrightarrow> j \<le> 512 \<Longrightarrow> k \<noteq> j \<Longrightarrow> set (L k) \<inter> set (L j) = {}" "\<And>k. k \<le> 512 \<Longrightarrow> set (L k) \<inter> (lv \<union> X) = {}"
    "lv \<inter> X = {}" "finite lv" "\<And>a. a \<in> blocks L lv X \<Longrightarrow> block_ok s a"
    "\<And>a b. a \<in> blocks L lv X \<Longrightarrow> b \<in> blocks L lv X \<Longrightarrow> a \<noteq> b \<Longrightarrow> apart (h_mem s) a b"
    "\<And>k a. k \<le> 512 \<Longrightarrow> a \<in> set (L k) \<Longrightarrow> mu_signature (h_mem s) a = MEM_UNUSED_SIGNATURE"
    "\<And>k a. k < 512 \<Longrightarrow> a \<in> set (L k) \<Longrightarrow> bsize (h_mem s) a = k"
    "\<And>a. a \<in> lv \<Longrightarrow> mu_signature (h_mem s) a = MEM_USED_SIGNATURE"
    "used_size (g_hc s) = of_nat (\<Sum>a \<in> lv. bsize (h_mem s) a)"
  shows "heap_inv s L lv X"
  using assms unfolding heap_inv_def by auto

lemma in_blocks: "k \<le> 512 \<Longrightarrow> a \<in> set (L k) \<Longrightarrow> a \<in> blocks L lv X" "a \<in> lv \<Longrightarrow> a \<in> blocks L lv X" "a \<in> X \<Longrightarrow> a \<in> blocks L lv X"
  by (auto simp: blocks_def)

lemma blocks_split: "k \<le> 512 \<Longrightarrow> blocks L lv X = (\<Union>j \<in> {..512} - {k}. set (L j)) \<union> set (L k) \<union> lv \<union> X"
  by (auto simp: blocks_def)

lemma blocks_upd: "k \<le> 512 \<Longrightarrow> blocks (L(k := xs)) lv X = (\<Union>j \<in> {..512} - {k}. set (L j)) \<union> set xs \<union> lv \<union> X"
  using blocks_split [of k "L(k := xs)"] by simp

lemma block_nonzero: "block_ok s a \<Longrightarrow> a \<noteq> 0"
  by (auto simp: block_ok_def)

text \<open>Memory that changes inside a block in hand only.\<close>

definition changed_in :: "u64 \<Rightarrow> nat \<Rightarrow> memory \<Rightarrow> memory \<Rightarrow> bool" where
  "changed_in a n m m' \<longleftrightarrow> (\<forall>x. x < unat a \<or> unat a + n \<le> x \<longrightarrow> m' x = m x)"

lemma changed_in_same: "changed_in a n m m' \<Longrightarrow> b + k \<le> unat a \<or> unat a + n \<le> b \<Longrightarrow> same_on b k m m'"
  by (auto simp: changed_in_def same_on_def)

lemma changed_in_trans: "changed_in a n m m' \<Longrightarrow> changed_in a n m' m'' \<Longrightarrow> changed_in a n m m''"
  by (simp add: changed_in_def)

lemma header_apart:
  assumes "heap_inv s L lv X" and "a \<in> blocks L lv X" and "b \<in> blocks L lv X" and "a \<noteq> b" and "changed_in a (bsize (h_mem s) a) (h_mem s) m'"
  shows "same_on (unat b) (bsize (h_mem s) b) (h_mem s) m'" and "same_on (unat b) 16 (h_mem s) m'"
proof -
  show all: "same_on (unat b) (bsize (h_mem s) b) (h_mem s) m'"
    using heap_invD(9) [OF assms(1-4)] by (intro changed_in_same [OF assms(5)]) (auto simp: apart_def)
  show "same_on (unat b) 16 (h_mem s) m'"
    by (rule same_on_part [OF all]) (use heap_invD(8) [OF assms(1,3)] in \<open>auto simp: block_ok_def\<close>)
qed

lemma loose_resize:
  assumes inv: "heap_inv s L lv X" and a: "a \<in> X" and ch: "changed_in a n (h_mem s) m'"
    and n: "bsize m' a \<le> n" and ok: "block_ok (s\<lparr>h_mem := m'\<rparr>) a"
    and far: "\<And>b. b \<in> blocks L lv X \<Longrightarrow> b \<noteq> a \<Longrightarrow> unat b + bsize (h_mem s) b \<le> unat a \<or> unat a + n \<le> unat b"
  shows "heap_inv (s\<lparr>h_mem := m'\<rparr>) L lv X"
proof -
  let ?m = "h_mem s"
  note I = heap_invD [OF inv]
  have hd: "mu_signature m' b = mu_signature ?m b" "mu_size m' b = mu_size ?m b" "mu_next m' b = mu_next ?m b"
    if "b \<in> blocks L lv X" "b \<noteq> a" for b
  proof -
    have "same_on (unat b) 16 ?m m'"
      using far [OF that] I(8) [OF that(1)] by (intro changed_in_same [OF ch]) (auto simp: block_ok_def)
    then show "mu_signature m' b = mu_signature ?m b" "mu_size m' b = mu_size ?m b" "mu_next m' b = mu_next ?m b" by (rule header_cong)+
  qed
  have free: "b \<noteq> a" if "k \<le> 512" "b \<in> set (L k)" for k b using I(5) [OF that(1)] a that(2) by auto
  have live: "b \<noteq> a" if "b \<in> lv" for b using I(6) a that by auto
  have "block_list m' (list_head s k) (L k)" if k: "k \<le> 512" for k
    using I(2) [OF k] hd(3) free [OF k] in_blocks(1) [OF k] by (subst block_list_cong) auto
  moreover have "block_ok (s\<lparr>h_mem := m'\<rparr>) b" if b: "b \<in> blocks L lv X" for b
    using I(8) [OF b] hd(2) [OF b] ok by (cases "b = a") (auto simp: block_ok_def)
  moreover have "apart m' b c" if bc: "b \<in> blocks L lv X" "c \<in> blocks L lv X" "b \<noteq> c" for b c
    using I(9) [OF bc] far [of b] far [of c] hd(2) [of b] hd(2) [of c] n bc by (cases "b = a"; cases "c = a") (auto simp: apart_def)
  moreover have "(\<Sum>b \<in> lv. bsize m' b) = (\<Sum>b \<in> lv. bsize ?m b)"
    using hd(2) [OF in_blocks(2) live] by (intro sum.cong) auto
  moreover have "list_head (s\<lparr>h_mem := m'\<rparr>) = list_head s" by (simp add: list_head_def fun_eq_iff)
  ultimately show ?thesis using I hd free live in_blocks by (auto simp: heap_inv_def pool_ok_def)
qed

lemma loose_write:
  assumes inv: "heap_inv s L lv X" and a: "a \<in> X" and ch: "changed_in a (bsize (h_mem s) a) (h_mem s) m'"
    and sz: "bsize m' a \<le> bsize (h_mem s) a" "48 \<le> bsize m' a" "16 dvd bsize m' a"
  shows "heap_inv (s\<lparr>h_mem := m'\<rparr>) L lv X"
proof (rule loose_resize [OF inv a ch sz(1)])
  have aB: "a \<in> blocks L lv X" using a by (rule in_blocks)
  show "block_ok (s\<lparr>h_mem := m'\<rparr>) a" using heap_invD(8) [OF inv aB] sz by (auto simp: block_ok_def)
  show "unat b + bsize (h_mem s) b \<le> unat a \<or> unat a + bsize (h_mem s) a \<le> unat b" if "b \<in> blocks L lv X" "b \<noteq> a" for b
    using heap_invD(9) [OF inv aB that(1) that(2) [symmetric]] by (auto simp: apart_def)
qed

section \<open>Moving blocks between the lists and the hand\<close>

lemma head_simps [simp]:
  "h_mem (set_head k p s) = h_mem s" "list_head (s\<lparr>h_mem := m\<rparr>) = list_head s"
  "g_heap (set_head k p s) = g_heap s" "g_heap_base (set_head k p s) = g_heap_base s" "g_next_page (set_head k p s) = g_next_page s"
  "g_heap_end (set_head k p s) = g_heap_end s" "used_size (g_hc (set_head k p s)) = used_size (g_hc s)"
  "max_size (g_hc (set_head k p s)) = max_size (g_hc s)" "length (heap_hash (g_hc (set_head k p s))) = length (heap_hash (g_hc s))"
  by (simp_all add: set_head_def list_head_def fun_eq_iff)

lemma list_head_set:
  "k \<le> 512 \<Longrightarrow> j \<le> 512 \<Longrightarrow> length (heap_hash (g_hc s)) = 512 \<Longrightarrow> list_head (set_head k p s) j = (if j = k then p else list_head s j)"
  by (auto simp: list_head_def set_head_def)

lemma block_ok_cong:
  "g_heap_base s' = g_heap_base s \<Longrightarrow> g_next_page s' = g_next_page s \<Longrightarrow> mu_size (h_mem s') a = mu_size (h_mem s) a \<Longrightarrow>
     block_ok s' a = block_ok s a"
  by (simp add: block_ok_def)

lemma next_write:
  assumes inv: "heap_inv s L lv X" and a: "a \<in> blocks L lv X" and b: "b \<in> blocks L lv X"
  shows "mu_next (set_next a p (h_mem s)) b = (if b = a then p else mu_next (h_mem s) b)"
    and "mu_signature (set_next a p (h_mem s)) b = mu_signature (h_mem s) b" and "mu_size (set_next a p (h_mem s)) b = mu_size (h_mem s) b"
proof -
  have "16 \<le> bsize (h_mem s) a" using heap_invD(8) [OF inv a] by (simp add: block_ok_def)
  then have "changed_in a (bsize (h_mem s) a) (h_mem s) (set_next a p (h_mem s))"
    by (auto simp: changed_in_def set_next_def wr64_def wr32_def)
  then have "b \<noteq> a \<Longrightarrow> same_on (unat b) 16 (h_mem s) (set_next a p (h_mem s))" using header_apart(2) [OF inv a b] by auto
  note h = header_cong [OF this]
  show "mu_next (set_next a p (h_mem s)) b = (if b = a then p else mu_next (h_mem s) b)"
    "mu_signature (set_next a p (h_mem s)) b = mu_signature (h_mem s) b" "mu_size (set_next a p (h_mem s)) b = mu_size (h_mem s) b"
    using h by (cases "b = a"; simp)+
qed

lemma push_inv:
  assumes inv: "heap_inv s L lv X" and a: "a \<in> X" and sig: "mu_signature (h_mem s) a = MEM_UNUSED_SIGNATURE"
    and k: "k \<le> 512" "k < 512 \<Longrightarrow> bsize (h_mem s) a = k"
  shows "heap_inv (set_head k a (s\<lparr>h_mem := set_next a (list_head s k) (h_mem s)\<rparr>)) (L(k := a # L k)) lv (X - {a})"
proof -
  let ?m = "set_next a (list_head s k) (h_mem s)" and ?L = "L(k := a # L k)"
  let ?s = "set_head k a (s\<lparr>h_mem := ?m\<rparr>)"
  note I = heap_invD [OF inv]
  have aB: "a \<in> blocks L lv X" using a by (rule in_blocks)
  have B: "blocks ?L lv (X - {a}) = blocks L lv X" using a by (auto simp: blocks_upd [OF k(1)] blocks_split [OF k(1)])
  note W = next_write [OF inv aB]
  have hash: "length (heap_hash (g_hc s)) = 512" using I(1) by (simp add: pool_ok_def)
  have free: "b \<noteq> a" if "j \<le> 512" "b \<in> set (L j)" for j b using I(5) [OF that(1)] a that(2) by auto
  have old: "block_list ?m (list_head s j) (L j)" if j: "j \<le> 512" for j
    using I(2) [OF j] W(1) [OF in_blocks(1) [OF j]] free [OF j] by (subst block_list_cong) auto
  have "block_list ?m (list_head ?s j) (?L j)" if j: "j \<le> 512" for j
    using old [OF j] old [OF k(1)] list_head_set [OF k(1) j, of "s\<lparr>h_mem := ?m\<rparr>"] hash block_nonzero [OF I(8) [OF aB]] by simp
  moreover have "distinct (?L j)" if "j \<le> 512" for j using I(3) [OF that] free [OF that] by auto
  moreover have "set (?L j) \<inter> set (?L i) = {}" if "j \<le> 512" "i \<le> 512" "j \<noteq> i" for i j
    using I(4) [OF that] that(3) free [OF that(1)] free [OF that(2)] by auto
  moreover have "set (?L j) \<inter> (lv \<union> (X - {a})) = {}" if "j \<le> 512" for j using I(5) [OF that] I(6) a by auto
  moreover have "block_ok ?s b" if "b \<in> blocks L lv X" for b
    using I(8) [OF that] W(3) [OF that] by (subst block_ok_cong [of _ s]) simp_all
  moreover have "apart ?m b c" if "b \<in> blocks L lv X" "c \<in> blocks L lv X" "b \<noteq> c" for b c
    using I(9) [OF that] W(3) [OF that(1)] W(3) [OF that(2)] by (simp add: apart_def)
  moreover have "mu_signature ?m b = MEM_UNUSED_SIGNATURE \<and> (j < 512 \<longrightarrow> bsize ?m b = j)" if "j \<le> 512" "b \<in> set (?L j)" for j b
  proof (cases "b \<in> set (L j)")
    case True
    moreover have "b \<in> blocks L lv X" using that(1) True by (rule in_blocks)
    ultimately show ?thesis using I(10) [OF that(1) True] I(11) [of j b] W(2,3) [of b] by simp
  next
    case False
    then have "b = a" "j = k" using that(2) by (auto split: if_splits)
    then show ?thesis using W(2,3) [OF aB] sig k by simp
  qed
  moreover have "(\<Sum>b \<in> lv. bsize ?m b) = (\<Sum>b \<in> lv. bsize (h_mem s) b)" using W(3) [OF in_blocks(2)] by (intro sum.cong) auto
  ultimately show ?thesis using I(1,6,7,12,13) W(2) [OF in_blocks(2)] unfolding heap_inv_def B by (auto simp: pool_ok_def)
qed

text \<open>The state after the block \<open>c\<close> is taken out of a list behind the blocks \<open>pre\<close>.\<close>

definition cut_out :: "nat \<Rightarrow> u64 list \<Rightarrow> u64 \<Rightarrow> heap_state \<Rightarrow> heap_state" where
  "cut_out k pre c s =
     (if pre = [] then set_head k (mu_next (h_mem s) c) s
      else s\<lparr>h_mem := set_next (last pre) (mu_next (h_mem s) c) (h_mem s)\<rparr>)"

lemma block_list_cut:
  assumes "block_list m p (pre @ c # post)" and "distinct (pre @ c # post)" and "pre \<noteq> []"
    and "\<And>b. b \<in> set (pre @ post) \<Longrightarrow> mu_next m' b = (if b = last pre then mu_next m c else mu_next m b)"
  shows "block_list m' p (pre @ post)"
  using assms
proof (induction pre arbitrary: p)
  case (Cons a pre)
  show ?case
  proof (cases "pre = []")
    case True
    then have "block_list m' (mu_next m c) post = block_list m (mu_next m c) post"
      using Cons.prems(2,4) by (intro block_list_cong) auto
    then show ?thesis using Cons.prems True by auto
  next
    case False
    then have "block_list m' (mu_next m a) (pre @ post)" using Cons by (intro Cons.IH) auto
    moreover have "mu_next m' a = mu_next m a" using Cons.prems(2,4) False by (auto simp: last_in_set)
    ultimately show ?thesis using Cons.prems(1) by auto
  qed
qed simp

lemma block_list_end: "block_list m p (pre @ c # post) \<Longrightarrow> block_list m (mu_next m c) post"
  by (induction pre arbitrary: p) auto

lemma cut_inv:
  assumes inv: "heap_inv s L lv X" and k: "k \<le> 512" and L: "L k = pre @ c # post"
  shows "heap_inv (cut_out k pre c s) (L(k := pre @ post)) lv (insert c X)"
    and "\<And>b. b \<in> blocks L lv X \<Longrightarrow> mu_size (h_mem (cut_out k pre c s)) b = mu_size (h_mem s) b"
    and "\<And>b. b \<in> blocks L lv X \<Longrightarrow> mu_signature (h_mem (cut_out k pre c s)) b = mu_signature (h_mem s) b"
proof -
  let ?s = "cut_out k pre c s" and ?L = "L(k := pre @ post)"
  note I = heap_invD [OF inv]
  have B: "blocks ?L lv (insert c X) = blocks L lv X" using L by (auto simp: blocks_upd [OF k] blocks_split [OF k])
  have hash: "length (heap_hash (g_hc s)) = 512" using I(1) by (simp add: pool_ok_def)
  have ls: "pre \<noteq> [] \<Longrightarrow> last pre \<in> blocks L lv X" using in_blocks(1) [OF k] L by (simp add: last_in_set)
  have W: "mu_next (h_mem ?s) b = (if pre \<noteq> [] \<and> b = last pre then mu_next (h_mem s) c else mu_next (h_mem s) b)"
    "mu_signature (h_mem ?s) b = mu_signature (h_mem s) b" "mu_size (h_mem ?s) b = mu_size (h_mem s) b" if "b \<in> blocks L lv X" for b
    using next_write [OF inv ls that] by (auto simp: cut_out_def)
  then show "\<And>b. b \<in> blocks L lv X \<Longrightarrow> mu_size (h_mem ?s) b = mu_size (h_mem s) b"
    "\<And>b. b \<in> blocks L lv X \<Longrightarrow> mu_signature (h_mem ?s) b = mu_signature (h_mem s) b" by auto
  have d: "distinct (pre @ c # post)" using I(3) [OF k] L by simp
  have ck: "c \<in> set (L k)" using L by simp
  have "block_list (h_mem ?s) (list_head ?s j) (?L j)" if j: "j \<le> 512" for j
  proof (cases "j = k")
    case True
    have bl: "block_list (h_mem s) (list_head s k) (pre @ c # post)" using I(2) [OF k] L by simp
    show ?thesis
    proof (cases "pre = []")
      case False
      then show ?thesis using True block_list_cut [OF bl d False, of "h_mem ?s"] W(1) [OF in_blocks(1) [OF k]] L by (simp add: cut_out_def)
    next
      case True
      then show ?thesis using \<open>j = k\<close> block_list_end [OF bl] list_head_set [OF k k hash] by (simp add: cut_out_def)
    qed
  next
    case False
    have "last pre \<notin> set (L j)" if "pre \<noteq> []" using I(4) [OF k j] False last_in_set [OF that] L by auto
    then have "block_list (h_mem ?s) (list_head s j) (L j)"
      using I(2) [OF j] W(1) [OF in_blocks(1) [OF j]] by (subst block_list_cong) auto
    moreover have "list_head ?s j = list_head s j" using False list_head_set [OF k j hash] by (simp add: cut_out_def)
    ultimately show ?thesis using False by simp
  qed
  moreover have "distinct (?L j)" if "j \<le> 512" for j using I(3) [OF that] d by auto
  moreover have "set (?L j) \<inter> set (?L i) = {}" if "j \<le> 512" "i \<le> 512" "j \<noteq> i" for i j
    using I(4) [OF that] that(3) L by auto
  moreover have "set (?L j) \<inter> (lv \<union> insert c X) = {}" if "j \<le> 512" for j
    using I(5) [OF that] I(4) [OF that k] d L ck by (cases "j = k") auto
  moreover have "lv \<inter> insert c X = {}" using I(5) [OF k] I(6) ck by auto
  moreover have "block_ok ?s b" if "b \<in> blocks L lv X" for b
    using I(8) [OF that] W(3) [OF that] by (subst block_ok_cong [of _ s]) (simp_all add: cut_out_def)
  moreover have "apart (h_mem ?s) b e" if "b \<in> blocks L lv X" "e \<in> blocks L lv X" "b \<noteq> e" for b e
    using I(9) [OF that] W(3) [OF that(1)] W(3) [OF that(2)] by (simp add: apart_def)
  moreover have "mu_signature (h_mem ?s) b = MEM_UNUSED_SIGNATURE \<and> (j < 512 \<longrightarrow> bsize (h_mem ?s) b = j)" if "j \<le> 512" "b \<in> set (?L j)" for j b
  proof -
    have "b \<in> set (L j)" using that(2) L by (auto split: if_splits)
    then show ?thesis using I(10,11) W(2,3) in_blocks(1) [OF that(1)] that(1) by auto
  qed
  moreover have "(\<Sum>b \<in> lv. bsize (h_mem ?s) b) = (\<Sum>b \<in> lv. bsize (h_mem s) b)" using W(3) [OF in_blocks(2)] by (intro sum.cong) auto
  moreover have "pool_ok ?s" "used_size (g_hc ?s) = used_size (g_hc s)" using I(1) by (simp_all add: cut_out_def pool_ok_def)
  ultimately show "heap_inv ?s ?L lv (insert c X)" using I(7,12,13) W(2) [OF in_blocks(2)] unfolding heap_inv_def B by auto
qed

text \<open>A block in hand comes into use, and back.\<close>

lemma used_simps [simp]:
  "list_head (s\<lparr>g_hc := (g_hc s)\<lparr>used_size := u\<rparr>\<rparr>) = list_head s" "pool_ok (s\<lparr>g_hc := (g_hc s)\<lparr>used_size := u\<rparr>\<rparr>) = pool_ok s"
  "block_ok (s\<lparr>g_hc := (g_hc s)\<lparr>used_size := u\<rparr>\<rparr>) = block_ok s"
  by (simp_all add: list_head_def pool_ok_def block_ok_def fun_eq_iff)

lemma use_inv:
  assumes inv: "heap_inv s L lv X" and a: "a \<in> X" and sig: "mu_signature (h_mem s) a = MEM_USED_SIGNATURE"
  shows "heap_inv (s\<lparr>g_hc := (g_hc s)\<lparr>used_size := used_size (g_hc s) + ucast (mu_size (h_mem s) a)\<rparr>\<rparr>) L (insert a lv) (X - {a})"
proof -
  note I = heap_invD [OF inv]
  have B: "blocks L (insert a lv) (X - {a}) = blocks L lv X" using a by (auto simp: blocks_def)
  have "a \<notin> lv" using I(6) a by auto
  then have "of_nat (\<Sum>b \<in> insert a lv. bsize (h_mem s) b) = used_size (g_hc s) + ucast (mu_size (h_mem s) a)"
    using I(7,13) by (simp add: add.commute)
  note sum = this [symmetric]
  have U: "insert a lv \<union> (X - {a}) = lv \<union> X" using a by auto
  show ?thesis
  proof (rule heap_invI, unfold B U)
    fix k :: nat assume "k \<le> 512"
    then show "set (L k) \<inter> (lv \<union> X) = {}" by (rule I(5))
  qed (use I(1-4,6-12) sig a sum in \<open>auto simp del: of_nat_sum\<close>)
qed

lemma unuse_inv:
  assumes inv: "heap_inv s L lv X" and a: "a \<in> lv"
  shows "heap_inv (s\<lparr>g_hc := (g_hc s)\<lparr>used_size := used_size (g_hc s) - ucast (mu_size (h_mem s) a)\<rparr>\<rparr>) L (lv - {a}) (insert a X)"
proof -
  note I = heap_invD [OF inv]
  have B: "blocks L (lv - {a}) (insert a X) = blocks L lv X" using a by (auto simp: blocks_def)
  have "(\<Sum>b \<in> lv. bsize (h_mem s) b) = bsize (h_mem s) a + (\<Sum>b \<in> lv - {a}. bsize (h_mem s) b)" using I(7) a by (rule sum.remove)
  then have "of_nat (\<Sum>b \<in> lv - {a}. bsize (h_mem s) b) = used_size (g_hc s) - ucast (mu_size (h_mem s) a)"
    using I(13) by simp
  note sum = this [symmetric]
  have U: "lv - {a} \<union> insert a X = lv \<union> X" using a by auto
  show ?thesis
  proof (rule heap_invI, unfold B U)
    fix k :: nat assume "k \<le> 512"
    then show "set (L k) \<inter> (lv \<union> X) = {}" by (rule I(5))
  qed (use I(1-4,6-12) a sum in \<open>auto simp del: of_nat_sum\<close>)
qed

text \<open>A new block in hand that does not meet the others.\<close>

lemma hand_inv:
  assumes inv: "heap_inv s L lv X" and new: "a \<notin> blocks L lv X" and ok: "block_ok s a"
    and ap: "\<And>b. b \<in> blocks L lv X \<Longrightarrow> apart (h_mem s) a b"
  shows "heap_inv s L lv (insert a X)"
proof -
  have B: "blocks L lv (insert a X) = insert a (blocks L lv X)" by (auto simp: blocks_def)
  have sym: "apart (h_mem s) b a" if "b \<in> blocks L lv X" for b using ap [OF that] by (auto simp: apart_def)
  have "set (L k) \<inter> (lv \<union> insert a X) = {}" if "k \<le> 512" for k
    using heap_invD(5) [OF inv that] new in_blocks(1) [OF that, of a L lv X] by auto
  moreover have "lv \<inter> insert a X = {}" using heap_invD(6) [OF inv] new by (auto simp: blocks_def)
  moreover note I = heap_invD [OF inv]
  ultimately show ?thesis using I(1) by (intro heap_invI) (use I ok ap sym in \<open>auto simp: B\<close>)
qed

lemma drop_inv:
  assumes "heap_inv s L lv X"
  shows "heap_inv s L lv (X - {a})"
proof -
  have "blocks L lv (X - {a}) \<subseteq> blocks L lv X" by (auto simp: blocks_def)
  note sub = subsetD [OF this] and I = heap_invD [OF assms]
  show ?thesis
  proof (rule heap_invI)
    show "set (L k) \<inter> (lv \<union> (X - {a})) = {}" if "k \<le> 512" for k using I(5) [OF that] by blast
    show "block_ok s b" if "b \<in> blocks L lv (X - {a})" for b by (rule I(8) [OF sub [OF that]])
    show "apart (h_mem s) b c" if "b \<in> blocks L lv (X - {a})" "c \<in> blocks L lv (X - {a})" "b \<noteq> c" for b c
      by (rule I(9) [OF sub [OF that(1)] sub [OF that(2)] that(3)])
  qed (use I(1-4,6,7,10-13) in auto)
qed

text \<open>A block in hand is cut in two.\<close>

lemma split_inv:
  assumes inv: "heap_inv s L lv X" and a: "a \<in> X" and n: "48 \<le> n" "16 dvd n" "n + 48 \<le> bsize (h_mem s) a"
    and m: "changed_in a (bsize (h_mem s) a) (h_mem s) m'" "bsize m' a = n" "unat b = unat a + n" "bsize m' b = bsize (h_mem s) a - n"
  shows "heap_inv (s\<lparr>h_mem := m'\<rparr>) L lv (insert b X)"
proof -
  let ?m = "h_mem s"
  note I = heap_invD [OF inv]
  have aB: "a \<in> blocks L lv X" using a by (rule in_blocks)
  have ok: "block_ok s a" by (rule I(8) [OF aB])
  have inv1: "heap_inv (s\<lparr>h_mem := m'\<rparr>) L lv X" by (rule loose_write [OF inv a m(1)]) (use n m(2) in auto)
  have far: "unat c + bsize m' c \<le> unat a \<or> unat a + bsize ?m a \<le> unat c" if c: "c \<in> blocks L lv X" "c \<noteq> a" for c
  proof -
    have "mu_size m' c = mu_size ?m c" using header_cong(2) [OF header_apart(2) [OF inv aB c(1) c(2) [symmetric] m(1)]] .
    then show ?thesis using I(9) [OF aB c(1) c(2) [symmetric]] by (auto simp: apart_def)
  qed
  have big: "48 \<le> bsize m' c" if "c \<in> blocks L lv X" for c using heap_invD(8) [OF inv1 that] by (simp add: block_ok_def)
  have "16 dvd bsize ?m a - n" using n(2) ok by (simp add: block_ok_def dvd_diff_nat)
  then have okb: "block_ok (s\<lparr>h_mem := m'\<rparr>) b" using ok n m(3,4) by (auto simp: block_ok_def)
  have apb: "apart m' b c" if c: "c \<in> blocks L lv X" for c
    using far [OF c] m n by (cases "c = a") (auto simp: apart_def)
  have "b \<notin> blocks L lv X" using far [of b] big [of b] m(3) n by (cases "b = a") auto
  then show ?thesis using hand_inv [OF inv1 _ okb] apb by simp
qed

text \<open>Two adjacent blocks in hand become one.\<close>

lemma size_change: "16 \<le> n \<Longrightarrow> changed_in a n m (set_size a w m)" "16 \<le> n \<Longrightarrow> changed_in a n m (set_signature a w m)"
  "16 \<le> n \<Longrightarrow> changed_in a n m (set_next a p m)"
  by (auto simp: changed_in_def set_size_def set_signature_def set_next_def wr64_def wr32_def)

lemma merge_inv:
  assumes inv: "heap_inv s L lv X" and ab: "a \<in> X" "b \<in> X" and adj: "unat b = unat a + bsize (h_mem s) a"
  shows "heap_inv (s\<lparr>h_mem := set_size a (mu_size (h_mem s) a + mu_size (h_mem s) b) (h_mem s)\<rparr>) L lv (X - {b})"
    and "unat (mu_size (h_mem s) a + mu_size (h_mem s) b) = bsize (h_mem s) a + bsize (h_mem s) b"
proof -
  let ?m = "h_mem s" let ?n = "bsize ?m a + bsize ?m b"
  note I = heap_invD [OF inv]
  have B: "a \<in> blocks L lv X" "b \<in> blocks L lv X" using ab in_blocks(3) by auto
  note ok = I(8) [OF B(1)] I(8) [OF B(2)]
  have ne: "a \<noteq> b" using adj ok by (auto simp: block_ok_def)
  have "?n < 2 ^ 32" using ok adj I(1) by (auto simp: block_ok_def pool_ok_def)
  then show n: "unat (mu_size ?m a + mu_size ?m b) = ?n" by (simp add: unat_word_ariths)
  show "heap_inv (s\<lparr>h_mem := set_size a (mu_size ?m a + mu_size ?m b) ?m\<rparr>) L lv (X - {b})"
  proof (rule loose_resize [OF drop_inv [OF inv]])
    show "a \<in> X - {b}" using ab ne by simp
    show "changed_in a ?n ?m (set_size a (mu_size ?m a + mu_size ?m b) ?m)" using ok by (intro size_change) (auto simp: block_ok_def)
    show "bsize (set_size a (mu_size ?m a + mu_size ?m b) ?m) a \<le> ?n" by (simp add: n)
    show "block_ok (s\<lparr>h_mem := set_size a (mu_size ?m a + mu_size ?m b) ?m\<rparr>) a" using ok adj by (auto simp: block_ok_def n)
    show "unat c + bsize ?m c \<le> unat a \<or> unat a + ?n \<le> unat c" if c: "c \<in> blocks L lv (X - {b})" "c \<noteq> a" for c
    proof -
      have cB: "c \<in> blocks L lv X" using c(1) by (auto simp: blocks_def)
      have "b \<notin> blocks L lv (X - {b})" using I(5,6) ab(2) by (auto simp: blocks_def)
      then have "c \<noteq> b" using c(1) by auto
      then show ?thesis using I(9) [OF cB B(1) c(2)] I(9) [OF cB B(2)] I(8) [OF cB] adj by (auto simp: apart_def block_ok_def)
    qed
  qed
qed

text \<open>Fresh pages become a block in hand.\<close>

lemma pages_inv:
  assumes inv: "heap_inv s L lv {}" and n: "48 \<le> n" "16 dvd n" "unat (g_next_page s) + n \<le> unat (g_heap_end s)"
    and b: "b = g_next_page s" "unat nx = unat b + n"
  shows "heap_inv (s\<lparr>g_next_page := nx, h_mem := set_size b (of_nat n) (h_mem s)\<rparr>) L lv {b}"
    and "bsize (set_size b (of_nat n) (h_mem s)) b = n"
proof -
  let ?s = "s\<lparr>g_next_page := nx\<rparr>" and ?m = "set_size b (of_nat n) (h_mem s)"
  note I = heap_invD [OF inv]
  have p: "pool_ok ?s" using I(1) n b by (auto simp: pool_ok_def)
  have small: "n < 2 ^ 32" using n I(1) by (auto simp: pool_ok_def)
  then show sz: "bsize ?m b = n" by (simp add: unat_of_nat)
  have end_b: "unat c + bsize (h_mem s) c \<le> unat b" if "c \<in> blocks L lv {}" for c using I(8) [OF that] b by (simp add: block_ok_def)
  have same: "same_on (unat c) 16 (h_mem s) ?m" if "c \<in> blocks L lv {}" for c
    using end_b [OF that] I(8) [OF that] by (intro set_fields_same_on) (auto simp: block_ok_def)
  note hd = header_cong [OF same]
  have "heap_inv (?s\<lparr>h_mem := ?m\<rparr>) L lv {}"
  proof (rule heap_invI)
    show "pool_ok (?s\<lparr>h_mem := ?m\<rparr>)" using p by (simp add: pool_ok_def)
    show "block_list (h_mem (?s\<lparr>h_mem := ?m\<rparr>)) (list_head (?s\<lparr>h_mem := ?m\<rparr>) k) (L k)" if "k \<le> 512" for k
      using I(2) [OF that] hd(3) [OF in_blocks(1) [OF that]] block_list_cong [of "L k" ?m "h_mem s"] by (simp add: list_head_def split: if_splits)
    show "block_ok (?s\<lparr>h_mem := ?m\<rparr>) c" if "c \<in> blocks L lv {}" for c
      using I(8) [OF that] hd(2) [OF that] b n by (auto simp: block_ok_def)
    show "apart (h_mem (?s\<lparr>h_mem := ?m\<rparr>)) c d" if "c \<in> blocks L lv {}" "d \<in> blocks L lv {}" "c \<noteq> d" for c d
      using I(9) [OF that] hd(2) [OF that(1)] hd(2) [OF that(2)] by (simp add: apart_def)
    have "(\<Sum>a \<in> lv. bsize ?m a) = (\<Sum>a \<in> lv. bsize (h_mem s) a)" using hd(2) [OF in_blocks(2)] by (intro sum.cong) auto
    then show "used_size (g_hc (?s\<lparr>h_mem := ?m\<rparr>)) = of_nat (\<Sum>a \<in> lv. bsize (h_mem (?s\<lparr>h_mem := ?m\<rparr>)) a)"
      using I(13) by (simp del: of_nat_sum)
    show "bsize (h_mem (?s\<lparr>h_mem := ?m\<rparr>)) a = k" if "k < 512" "a \<in> set (L k)" for k a
      using I(11) [OF that] hd(2) [of a] in_blocks(1) [of k a L lv "{}"] that by simp
  qed (use I hd in_blocks in auto)
  moreover have "block_ok (?s\<lparr>h_mem := ?m\<rparr>) b" using sz b n I(1) by (auto simp: block_ok_def pool_ok_def)
  moreover have "apart ?m b c" if "c \<in> blocks L lv {}" for c using end_b [OF that] hd(2) [OF that] by (simp add: apart_def)
  moreover have "b \<notin> blocks L lv {}" using end_b [of b] I(8) [of b] by (auto simp: block_ok_def)
  ultimately show "heap_inv (s\<lparr>g_next_page := nx, h_mem := ?m\<rparr>) L lv {b}" using hand_inv [of "?s\<lparr>h_mem := ?m\<rparr>" L lv "{}" b] by simp
qed

section \<open>Allocation\<close>

lemma round_down_16: "unat (x AND NOT 15 :: u64) = 16 * (unat x div 16)"
proof -
  have e: "x AND NOT 15 = push_bit 4 (drop_bit 4 x)"
  proof (rule bit_word_eqI)
    fix n assume "n < LENGTH(64)"
    have "(15 :: u64) = mask 4" by (simp add: mask_eq_exp_minus_1)
    then have "bit (15 :: u64) n \<longleftrightarrow> n < 4" by (metis bit_mask_iff \<open>n < LENGTH(64)\<close> possible_bit_word)
    then show "bit (x AND NOT 15) n = bit (push_bit 4 (drop_bit 4 x)) n" using \<open>n < LENGTH(64)\<close> by (auto simp: bit_simps)
  qed
  have "unat x div 16 * 16 \<le> unat x" "unat x < 2 ^ 64" using div_times_less_eq_dividend unsigned_less [of x, where ?'a = nat] by auto
  then have "unat x div 16 * 16 < 2 ^ 64" by linarith
  then show ?thesis unfolding e by (simp add: push_bit_eq_mult drop_bit_eq_div unat_word_ariths unat_div)
qed

lemma block_total_bounds:
  assumes "unat req \<le> 2 ^ 62"
  shows "16 dvd unat (block_total req)" and "unat req + 48 \<le> unat (block_total req)" and "64 \<le> unat (block_total req)"
    and "unat (block_total req) \<le> unat req + 64"
proof -
  define r where "r = max 1 (unat req)"
  have "unat ((if req = 0 then 1 else req) + sizeof_CMemUsed + 2 * MEM_RED_ZONE_SIZE + 15) = r + 63"
    using assms by (auto simp: r_def sizeof_CMemUsed_def MEM_RED_ZONE_SIZE_def unat_word_ariths max_def unat_eq_zero not_le)
  then have u: "unat (block_total req) = 16 * ((r + 63) div 16)" unfolding block_total_def round_down_16 by simp
  show "16 dvd unat (block_total req)" by (simp add: u)
  have r: "1 \<le> r" "unat req \<le> r" "r \<le> unat req + 1" by (auto simp: r_def)
  then have "unat req + 48 \<le> 16 * ((r + 63) div 16)" "64 \<le> 16 * ((r + 63) div 16)" "16 * ((r + 63) div 16) \<le> unat req + 64"
    by presburger+
  then show "unat req + 48 \<le> unat (block_total req)" "64 \<le> unat (block_total req)" "unat (block_total req) \<le> unat req + 64"
    unfolding u by simp_all
qed

text \<open>The memory of the blocks in use stays as it is.\<close>

definition keeps :: "u64 set \<Rightarrow> memory \<Rightarrow> memory \<Rightarrow> bool" where
  "keeps lv m m' \<longleftrightarrow> (\<forall>b \<in> lv. same_on (unat b) (bsize m b) m m')"

lemma keeps_size:
  assumes "heap_inv s L lv X" and "keeps lv (h_mem s) m'" and "b \<in> lv"
  shows "mu_size m' b = mu_size (h_mem s) b"
proof -
  have "same_on (unat b) (bsize (h_mem s) b) (h_mem s) m'" using assms(2,3) by (simp add: keeps_def)
  moreover have "16 \<le> bsize (h_mem s) b" using heap_invD(8) [OF assms(1) in_blocks(2) [OF assms(3)]] by (simp add: block_ok_def)
  ultimately have "same_on (unat b) 16 (h_mem s) m'" by (auto intro: same_on_part)
  then show ?thesis by (rule header_cong)
qed

lemma heap_keeps_trans:
  assumes "heap_inv s L lv X" and "keeps lv (h_mem s) m'" and "keeps lv m' m''"
  shows "keeps lv (h_mem s) m''"
  unfolding keeps_def
proof
  fix b assume b: "b \<in> lv"
  have "same_on (unat b) (bsize (h_mem s) b) (h_mem s) m'" "same_on (unat b) (bsize (h_mem s) b) m' m''"
    using assms(2,3) b keeps_size [OF assms(1,2) b] by (auto simp: keeps_def)
  then show "same_on (unat b) (bsize (h_mem s) b) (h_mem s) m''" by (rule same_on_trans)
qed

lemma heap_keeps_refl [simp]: "keeps lv m m"
  by (simp add: keeps_def)

lemma changed_keeps:
  assumes "heap_inv s L lv X" and "a \<in> blocks L lv X" and "a \<notin> lv" and "changed_in a (bsize (h_mem s) a) (h_mem s) m'"
  shows "keeps lv (h_mem s) m'"
  unfolding keeps_def
proof
  fix b assume "b \<in> lv"
  then show "same_on (unat b) (bsize (h_mem s) b) (h_mem s) m'"
    using header_apart(1) [OF assms(1,2) in_blocks(2) _ assms(4)] assms(3) by auto
qed

lemma wr_commute:
  "unat a + 16 \<le> unat b \<Longrightarrow> set_size a w (set_next b p m) = set_next b p (set_size a w m)"
  by (rule ext) (auto simp: set_size_def set_next_def wr64_def wr32_def)

lemma trim_rule:
  assumes inv: "heap_inv s L lv {a}" and n: "unat nw = n" "16 dvd n" "64 \<le> n" "n \<le> bsize (h_mem s) a"
  shows "\<exists>L'. heap_inv (trim_block a nw s) L' lv {a} \<and> bsize (h_mem (trim_block a nw s)) a = n \<and>
    mu_signature (h_mem (trim_block a nw s)) a = mu_signature (h_mem s) a \<and> keeps lv (h_mem s) (h_mem (trim_block a nw s))"
proof -
  let ?m = "h_mem s" let ?sz = "bsize ?m a"
  note I = heap_invD [OF inv]
  have aB: "a \<in> blocks L lv {a}" by (rule in_blocks) simp
  have ok: "block_ok s a" by (rule I(8) [OF aB])
  have alv: "a \<notin> lv" using I(6) by auto
  have b32: "?sz < 2 ^ 32" using unat_less_u32 [of "mu_size ?m a"] by simp
  have uc: "unat (ucast (mu_size ?m a) :: u64) = ?sz" by (rule unat_ucast_u64)
  have n32: "n < 2 ^ 32" using n(4) b32 by linarith
  then have nb: "unat (ucast nw :: u32) = n" using n(1) by (simp add: unsigned_ucast_eq take_bit_nat_eq_self)
  have n48: "unat (nw + sizeof_CMemUsed + 16) = n + 32" using n(1) n32 by (simp add: sizeof_CMemUsed_def unat_word_ariths)
  have keep: "keeps lv ?m m'" if "changed_in a ?sz ?m m'" for m' by (rule changed_keeps [OF inv aB alv that])
  consider "?sz = n" | "n < ?sz" "?sz \<le> n + 32" | "n + 32 < ?sz" using n(4) by linarith
  then show ?thesis
  proof cases
    case 1
    then have "trim_block a nw s = s" using n(1) uc by (simp add: trim_block_def Let_def word_less_nat_alt)
    then show ?thesis using inv 1 by auto
  next
    case 2
    have "\<not> ucast (mu_size ?m a) > nw + sizeof_CMemUsed + 16"
      unfolding word_less_nat_alt n48 uc using 2 by simp
    then have e: "trim_block a nw s = s\<lparr>h_mem := set_size a (ucast nw) ?m\<rparr>"
      using 2 n(1) uc by (simp add: trim_block_def Let_def word_less_nat_alt)
    have ch: "changed_in a ?sz ?m (set_size a (ucast nw) ?m)" using n by (intro size_change) simp
    have "heap_inv (s\<lparr>h_mem := set_size a (ucast nw) ?m\<rparr>) L lv {a}"
      by (rule loose_write [OF inv _ ch]) (use n nb in auto)
    then show ?thesis using e nb keep [OF ch] by auto
  next
    case 3
    let ?rem = "a + nw" and ?w = "ucast (ucast (mu_size ?m a) - nw :: u64) :: u32"
    let ?m1 = "set_next ?rem 0 (set_size ?rem ?w (set_signature ?rem MEM_UNUSED_SIGNATURE ?m))"
    let ?m2 = "set_size a (ucast nw) ?m1"
    have "unat a + n < 2 ^ 64" using ok I(1) 3 by (auto simp: block_ok_def pool_ok_def)
    then have rem: "unat ?rem = unat a + n" using n(1) by (simp add: unat_word_ariths)
    have "16 dvd ?sz" using ok by (simp add: block_ok_def)
    then have big: "n + 48 \<le> ?sz" using 3 n(2) by presburger
    have "unat (ucast (mu_size ?m a) - nw :: u64) = ?sz - n" using 3 uc n(1) by (subst unat_sub) (simp_all add: word_le_nat_alt)
    moreover have "?sz - n < 2 ^ 32" using b32 by linarith
    ultimately have w: "unat ?w = ?sz - n" by (simp add: unsigned_ucast_eq take_bit_nat_eq_self)
    have ch: "changed_in a ?sz ?m ?m2" using rem big n
      by (auto simp: changed_in_def set_size_def set_signature_def set_next_def wr64_def wr32_def)
    have same: "same_on (unat ?rem) 16 ?m1 ?m2" using rem n by (intro set_fields_same_on) simp
    have inv2: "heap_inv (s\<lparr>h_mem := ?m2\<rparr>) L lv (insert ?rem {a})"
      by (rule split_inv [OF inv _ _ n(2) big ch]) (use n nb rem w header_cong(2) [OF same] in auto)
    let ?s2 = "s\<lparr>h_mem := ?m2\<rparr>"
    have hd: "list_head s 512 = malloc_free_list (g_hc s)" by (simp add: list_head_def)
    have ne: "?rem \<noteq> a" using rem n by auto
    have "heap_inv (set_head 512 ?rem (?s2\<lparr>h_mem := set_next ?rem (list_head ?s2 512) (h_mem ?s2)\<rparr>)) (L(512 := ?rem # L 512)) lv (insert ?rem {a} - {?rem})"
      by (rule push_inv [OF inv2]) (use header_cong(1) [OF same] in auto)
    then have inv3: "heap_inv (set_head 512 ?rem (s\<lparr>h_mem := set_next ?rem (malloc_free_list (g_hc s)) ?m2\<rparr>)) (L(512 := ?rem # L 512)) lv {a}"
      using ne hd by (simp add: insert_Diff_if)
    have "ucast (mu_size ?m a) > nw + sizeof_CMemUsed + 16" "ucast (mu_size ?m a) > nw"
      unfolding word_less_nat_alt n48 uc n(1) using 3 by simp_all
    then have e: "trim_block a nw s = set_head 512 ?rem (s\<lparr>h_mem := set_next ?rem (malloc_free_list (g_hc s)) ?m2\<rparr>)"
      using rem n wr_commute [of a ?rem] by (simp add: trim_block_def Let_def push_free_def set_head_def)
    have fin: "changed_in a ?sz ?m (set_next ?rem (malloc_free_list (g_hc s)) ?m2)" using rem big n
      by (auto simp: changed_in_def set_size_def set_signature_def set_next_def wr64_def wr32_def)
    have "same_on (unat a) 16 ?m2 (set_next ?rem (malloc_free_list (g_hc s)) ?m2)" using rem n by (intro set_fields_same_on) simp
    note h2 = header_cong [OF this]
    have "mu_signature ?m1 a = mu_signature ?m a"
      using rem n by (intro header_cong(1) same_on_trans [OF same_on_trans [OF set_fields_same_on(1) set_fields_same_on(2)] set_fields_same_on(3)]) auto
    then show ?thesis using inv3 e h2 nb keep [OF fin] by auto
  qed
qed

lemma cut_keeps:
  assumes inv: "heap_inv s L lv X" and k: "k \<le> 512" and L: "L k = pre @ c # post"
  shows "keeps lv (h_mem s) (h_mem (cut_out k pre c s))"
proof (cases "pre = []")
  case False
  then have l: "last pre \<in> set (L k)" using L by simp
  have B: "last pre \<in> blocks L lv X" using k l by (rule in_blocks)
  have "last pre \<notin> lv" using heap_invD(5) [OF inv k] l by auto
  moreover have "changed_in (last pre) (bsize (h_mem s) (last pre)) (h_mem s) (set_next (last pre) (mu_next (h_mem s) c) (h_mem s))"
    using heap_invD(8) [OF inv B] by (intro size_change) (simp add: block_ok_def)
  ultimately show ?thesis using changed_keeps [OF inv B] False by (simp add: cut_out_def)
qed (simp add: cut_out_def)

lemma page_bytes:
  assumes "unat nw = n" and "64 \<le> n" and "n \<le> 2 ^ 62 + 64"
  shows "unat ((nw + MEM_PAG_SIZE - 1) div MEM_PAG_SIZE * MEM_PAG_SIZE) = 4096 * ((n + 4095) div 4096)"
    and "n \<le> 4096 * ((n + 4095) div 4096)" and "4096 * ((n + 4095) div 4096) \<le> n + 4095"
proof -
  show le: "n \<le> 4096 * ((n + 4095) div 4096)" "4096 * ((n + 4095) div 4096) \<le> n + 4095"
    using mult_div_mod_eq [of 4096 "n + 4095"] mod_less_divisor [of 4096 "n + 4095"] by linarith+
  have "unat (nw + MEM_PAG_SIZE - 1) = n + 4095"
    using assms by (simp add: MEM_PAG_SIZE_def unat_word_ariths)
  then have "unat ((nw + MEM_PAG_SIZE - 1) div MEM_PAG_SIZE) = (n + 4095) div 4096" by (simp add: unat_div MEM_PAG_SIZE_def)
  moreover have "4096 * ((n + 4095) div 4096) < 2 ^ 64" by (rule le_less_trans [OF le(2)]) (use assms(3) in simp)
  ultimately show "unat ((nw + MEM_PAG_SIZE - 1) div MEM_PAG_SIZE * MEM_PAG_SIZE) = 4096 * ((n + 4095) div 4096)"
    by (simp add: MEM_PAG_SIZE_def unat_word_ariths mult.commute)
qed

lemma get_block_rule:
  assumes inv: "heap_inv s L lv {}" and n: "unat nw = n" "64 \<le> n" "n \<le> 2 ^ 62 + 64"
  shows "get_block nw s = Some (0, s) \<and> (\<forall>a \<in> set (L 512). bsize (h_mem s) a < n) \<and>
      unat (g_heap_end s) < unat (g_next_page s) + 4096 * ((n + 4095) div 4096) \<or>
    (\<exists>a s1 L1. get_block nw s = Some (a, s1) \<and> a \<noteq> 0 \<and> heap_inv s1 L1 lv {a} \<and> n \<le> bsize (h_mem s1) a \<and> keeps lv (h_mem s) (h_mem s1))"
proof -
  let ?m = "h_mem s" and ?hc = "g_hc s"
  note I = heap_invD [OF inv]
  have cut: ?thesis if g: "get_block nw s = Some (c, cut_out k pre c s)" and k: "k \<le> 512" and L: "L k = pre @ c # post" and sz: "n \<le> bsize ?m c" for k pre c post
  proof -
    have B: "c \<in> blocks L lv {}" by (rule in_blocks(1) [OF k]) (simp add: L)
    then show ?thesis using g cut_inv(1,2) [OF inv k L] cut_keeps [OF inv k L] block_nonzero [OF I(8) [OF B]] sz by auto
  qed
  show ?thesis
  proof (cases "nw < MEM_HEAP_HASH_SIZE \<and> heap_hash ?hc ! n \<noteq> 0")
    case True
    then have k: "n < 512" using n(1) by (simp add: word_less_nat_alt MEM_HEAP_HASH_SIZE_def)
    then have bl: "block_list ?m (heap_hash ?hc ! n) (L n)" using I(2) [of n] by (simp add: list_head_def)
    then obtain u rest where u: "L n = u # rest" "heap_hash ?hc ! n = u" using True by (cases "L n") auto
    have "get_block nw s = Some (u, cut_out n [] u s)"
      using True u n(1) k by (simp add: get_block_def Let_def cut_out_def set_head_def)
    then show ?thesis using cut [of u n "[]" rest] k u(1) I(11) [of n u] by simp
  next
    case False
    have bl: "block_list ?m (malloc_free_list ?hc) (L 512)" using I(2) [of 512] by (simp add: list_head_def)
    have le: "nw \<le> ucast (mu_size ?m a) \<longleftrightarrow> n \<le> bsize ?m a" for a by (simp add: word_le_nat_alt unat_ucast_u64 n(1))
    from free_scan_rule [OF bl, of nw 0] show ?thesis unfolding le
    proof (elim disjE exE conjE)
      fix pre c post assume f: "L 512 = pre @ c # post" "n \<le> bsize ?m c" "free_scan ?m nw 0 (malloc_free_list ?hc) = Some (last_or 0 pre, c)"
      have B: "x \<in> blocks L lv {}" if "x \<in> set (L 512)" for x using in_blocks(1) [of 512 x L] that by simp
      then have nz: "c \<noteq> 0" "pre \<noteq> [] \<longrightarrow> last pre \<noteq> 0" using block_nonzero [OF I(8)] f(1) by (auto simp: last_in_set)
      have "get_block nw s = Some (c, cut_out 512 pre c s)"
        using False f(3) nz n(1) by (auto simp: get_block_def Let_def cut_out_def set_head_def link_after_def last_or_def)
      then show ?thesis using cut [of c 512 pre post] f by simp
    next
      assume none: "\<forall>a \<in> set (L 512). \<not> n \<le> bsize ?m a" "free_scan ?m nw 0 (malloc_free_list ?hc) = Some (last_or 0 (L 512), 0)"
      let ?N = "4096 * ((n + 4095) div 4096)" and ?np = "(nw + MEM_PAG_SIZE - 1) div MEM_PAG_SIZE"
      note pb = page_bytes [OF n]
      have "unat (g_next_page s) + ?N < 2 ^ 64" using pb(3) n(3) I(1) by (auto simp: pool_ok_def)
      then have nx: "unat (g_next_page s + ?np * MEM_PAG_SIZE) = unat (g_next_page s) + ?N" using pb(1) by (simp add: unat_word_ariths)
      have nz: "g_next_page s \<noteq> 0" using I(1) by (auto simp: pool_ok_def)
      show ?thesis
      proof (cases "unat (g_next_page s) + ?N \<le> unat (g_heap_end s)")
        case True
        let ?b = "g_next_page s" and ?nx = "g_next_page s + ?np * MEM_PAG_SIZE"
        have w: "(ucast (?np * MEM_PAG_SIZE) :: u32) = of_nat ?N"
          by (simp add: pb(1) [symmetric])
        have g: "get_block nw s = Some (?b, s\<lparr>g_next_page := ?nx, h_mem := set_size ?b (of_nat ?N) ?m\<rparr>)"
          using False none(2) n(1) nx True nz w by (auto simp: get_block_def Let_def alloc_pages_def word_less_nat_alt)
        have N: "48 \<le> ?N" "16 dvd ?N" using pb(2) n(2) by (auto intro: dvd_trans [of _ 4096])
        note pg = pages_inv [OF inv N True refl nx]
        have "unat b + bsize ?m b \<le> unat ?b" if "b \<in> lv" for b using I(8) [OF in_blocks(2) [OF that]] by (simp add: block_ok_def)
        then have "keeps lv ?m (set_size ?b (of_nat ?N) ?m)" unfolding keeps_def by (intro ballI set_fields_same_on) simp
        then show ?thesis using g pg nz pb(2) by auto
      next
        case False
        then have "get_block nw s = Some (0, s)"
          using \<open>\<not> (nw < MEM_HEAP_HASH_SIZE \<and> heap_hash ?hc ! n \<noteq> 0)\<close> none(2) n(1) nx
          by (auto simp: get_block_def Let_def alloc_pages_def word_less_nat_alt)
        then show ?thesis using False none(1) by (auto simp: not_le)
      qed
    qed
  qed
qed

section \<open>Red zones\<close>

lemma step_4: "unat a + 4 * Suc j < 2 ^ 64 \<Longrightarrow> unat (a + 4 :: u64) = unat a + 4"
  by (simp add: unat_word_ariths)

lemma put_words_same_on:
  "unat a + 4 * j < 2 ^ 64 \<Longrightarrow> b + k \<le> unat a \<or> unat a + 4 * j \<le> b \<Longrightarrow> same_on b k m (put_words j a w m)"
proof (induction j arbitrary: a m)
  case (Suc j)
  have a: "unat (a + 4) = unat a + 4" by (rule step_4 [OF Suc.prems(1)])
  have "same_on b k (wr32 m (unat a) w) (put_words j (a + 4) w (wr32 m (unat a) w))"
    using Suc.prems a by (intro Suc.IH) auto
  then show ?case using wr32_same_on [of b k "unat a" m w] Suc.prems(2) by (auto intro: same_on_trans)
qed simp

lemma all_words_same: "unat a + 4 * j < 2 ^ 64 \<Longrightarrow> same_on (unat a) (4 * j) m m' \<Longrightarrow> all_words j a w m' = all_words j a w m"
proof (induction j arbitrary: a)
  case (Suc j)
  have a: "unat (a + 4) = unat a + 4" by (rule step_4 [OF Suc.prems(1)])
  have "same_on (unat (a + 4)) (4 * j) m m'" "same_on (unat a) 4 m m'" using same_on_part [OF Suc.prems(2)] a by auto
  then show ?case using Suc.IH [of "a + 4"] Suc.prems(1) a rd32_same_on by simp
qed simp

lemma all_words_put: "unat a + 4 * j < 2 ^ 64 \<Longrightarrow> all_words j a w (put_words j a w m)"
proof (induction j arbitrary: a m)
  case (Suc j)
  have a: "unat (a + 4) = unat a + 4" by (rule step_4 [OF Suc.prems(1)])
  have "same_on (unat a) 4 (wr32 m (unat a) w) (put_words j (a + 4) w (wr32 m (unat a) w))"
    using Suc.prems a by (intro put_words_same_on) auto
  then show ?case using Suc a rd32_same_on rd32_wr32 by simp
qed simp

lemma zone_addrs:
  assumes "unat a + bsize m a < 2 ^ 64" and "48 \<le> bsize m a"
  shows "unat (a + sizeof_CMemUsed) = unat a + 16" and "unat (user_bytes m a) = bsize m a - 48"
    and "unat (a + sizeof_CMemUsed + MEM_RED_ZONE_SIZE + user_bytes m a) = unat a + bsize m a - 16"
proof -
  show f: "unat (a + sizeof_CMemUsed) = unat a + 16" using assms by (simp add: sizeof_CMemUsed_def unat_word_ariths)
  have "unat (ucast (mu_size m a) - 48 :: u64) = bsize m a - 48" using assms(2) by (subst unat_sub) (simp_all add: word_le_nat_alt unat_ucast_u64)
  then show u: "unat (user_bytes m a) = bsize m a - 48" by (simp add: user_bytes_def sizeof_CMemUsed_def MEM_RED_ZONE_SIZE_def)
  have "unat (a + sizeof_CMemUsed + MEM_RED_ZONE_SIZE) = unat a + 32" using f assms by (simp add: MEM_RED_ZONE_SIZE_def unat_word_ariths)
  moreover have "unat a + 32 + (bsize m a - 48) < 2 ^ 64" using assms by linarith
  ultimately show "unat (a + sizeof_CMemUsed + MEM_RED_ZONE_SIZE + user_bytes m a) = unat a + bsize m a - 16"
    using u assms by (simp add: unat_word_ariths)
qed

lemma canaries_rule:
  assumes "unat a + bsize m a < 2 ^ 64" and "48 \<le> bsize m a"
  shows "changed_in a (bsize m a) m (write_canaries a m)" and "same_on (unat a) 16 m (write_canaries a m)"
    and "check_canaries (write_canaries a m) a = 0"
proof -
  let ?n = "bsize m a" and ?f = "a + sizeof_CMemUsed"
  let ?b = "?f + MEM_RED_ZONE_SIZE + user_bytes m a"
  note f = zone_addrs(1) [OF assms] and b = zone_addrs(3) [OF assms]
  let ?m1 = "put_words 4 ?f MEM_CANARY_FRONT m"
  have s1: "same_on (unat a) 16 m ?m1" using f assms by (intro put_words_same_on) auto
  have sz1: "mu_size ?m1 a = mu_size m a" by (rule header_cong [OF s1])
  have ub1: "user_bytes ?m1 a = user_bytes m a" by (simp add: user_bytes_def sz1)
  have w: "write_canaries a m = put_words 4 ?b MEM_CANARY_BACK ?m1" by (simp add: write_canaries_def Let_def ub1)
  have s2: "same_on (unat a) 32 ?m1 (write_canaries a m)" unfolding w using b assms by (intro put_words_same_on) auto
  show s16: "same_on (unat a) 16 m (write_canaries a m)" by (rule same_on_trans [OF s1 same_on_part [OF s2]]) simp_all
  show "changed_in a ?n m (write_canaries a m)"
  proof -
    have "same_on x 1 m (write_canaries a m)" if "x < unat a \<or> unat a + ?n \<le> x" for x
      unfolding w by (rule same_on_trans [OF put_words_same_on put_words_same_on]) (use that f b assms in auto)
    then show ?thesis unfolding changed_in_def same_on_def by auto
  qed
  have "all_words 4 ?f MEM_CANARY_FRONT (write_canaries a m)"
    using all_words_same [of ?f 4 ?m1 "write_canaries a m"] same_on_part [OF s2, of "unat ?f" 16] all_words_put [of ?f 4] f assms by simp
  moreover have "all_words 4 ?b MEM_CANARY_BACK (write_canaries a m)" unfolding w using b assms by (intro all_words_put) simp
  moreover have "user_bytes (write_canaries a m) a = user_bytes m a" using header_cong(2) [OF s16] by (simp add: user_bytes_def)
  ultimately show "check_canaries (write_canaries a m) a = 0" by (simp add: check_canaries_def Let_def)
qed

lemma heap_alloc_rule:
  assumes inv: "heap_inv s L lv {}" and req: "unat req \<le> 2 ^ 62"
  shows "mem_alloc req s = Some (0, s) \<and> (\<forall>a \<in> set (L 512). bsize (h_mem s) a < unat (block_total req)) \<and>
      unat (g_heap_end s) < unat (g_next_page s) + unat (block_total req) + 4095 \<or>
    (\<exists>a s' L'. mem_alloc req s = Some (a + 32, s') \<and> heap_inv s' L' (insert a lv) {} \<and> a \<notin> lv \<and>
      unat req + 48 \<le> bsize (h_mem s') a \<and> keeps lv (h_mem s) (h_mem s') \<and> check_canaries (h_mem s') a = 0)"
proof -
  let ?nw = "block_total req" let ?n = "unat ?nw"
  note bt = block_total_bounds [OF req]
  have n: "64 \<le> ?n" "?n \<le> 2 ^ 62 + 64" using bt(3,4) req by linarith+
  have heap: "g_heap s \<noteq> 0" using heap_invD(1) [OF inv] by (simp add: pool_ok_def)
  from get_block_rule [OF inv refl n] show ?thesis
  proof (elim disjE exE conjE)
    fix a s1 L1 assume g: "get_block ?nw s = Some (a, s1)" "a \<noteq> 0" "heap_inv s1 L1 lv {a}" "?n \<le> bsize (h_mem s1) a" "keeps lv (h_mem s) (h_mem s1)"
    let ?s2 = "s1\<lparr>h_mem := set_signature a MEM_USED_SIGNATURE (h_mem s1)\<rparr>"
    have ch: "changed_in a (bsize (h_mem s1) a) (h_mem s1) (set_signature a MEM_USED_SIGNATURE (h_mem s1))" using g(4) n by (intro size_change) simp
    have aB: "a \<in> blocks L1 lv {a}" by (rule in_blocks) simp
    have ok: "block_ok s1 a" by (rule heap_invD(8) [OF g(3) aB])
    have alv: "a \<notin> lv" using heap_invD(6) [OF g(3)] by auto
    have i2: "heap_inv ?s2 L1 lv {a}" by (rule loose_write [OF g(3) _ ch]) (use ok in \<open>auto simp: block_ok_def\<close>)
    have k2: "keeps lv (h_mem s1) (h_mem ?s2)" using changed_keeps [OF g(3) aB alv ch] by simp
    have "?n \<le> bsize (h_mem ?s2) a" using g(4) by simp
    from trim_rule [OF i2 refl bt(1) n(1) this] obtain L3 where t: "heap_inv (trim_block a ?nw ?s2) L3 lv {a}"
      "bsize (h_mem (trim_block a ?nw ?s2)) a = ?n" "mu_signature (h_mem (trim_block a ?nw ?s2)) a = MEM_USED_SIGNATURE"
      "keeps lv (h_mem ?s2) (h_mem (trim_block a ?nw ?s2))" by auto
    let ?s3 = "trim_block a ?nw ?s2" let ?m4 = "write_canaries a (h_mem ?s3)"
    have aB3: "a \<in> blocks L3 lv {a}" by (rule in_blocks) simp
    have ok3: "block_ok ?s3 a" by (rule heap_invD(8) [OF t(1) aB3])
    have "unat a + bsize (h_mem ?s3) a < 2 ^ 64" using ok3 heap_invD(1) [OF t(1)] by (auto simp: block_ok_def pool_ok_def)
    note cn = canaries_rule [OF this] and t2 = t(2)
    have c48: "48 \<le> bsize (h_mem ?s3) a" using n t2 by simp
    note cn = cn [OF c48] note hd = header_cong [OF cn(2)]
    have i4: "heap_inv (?s3\<lparr>h_mem := ?m4\<rparr>) L3 lv {a}"
      by (rule loose_write [OF t(1) _ cn(1)]) (use ok3 hd in \<open>auto simp: block_ok_def\<close>)
    let ?s4 = "?s3\<lparr>h_mem := ?m4\<rparr>"
    have "heap_inv (?s4\<lparr>g_hc := (g_hc ?s4)\<lparr>used_size := used_size (g_hc ?s4) + ucast (mu_size (h_mem ?s4) a)\<rparr>\<rparr>) L3 (insert a lv) ({a} - {a})"
      by (rule use_inv [OF i4]) (use hd t(3) in auto)
    moreover have "keeps lv (h_mem ?s3) ?m4" by (rule changed_keeps [OF t(1) aB3 alv cn(1)])
    then have "keeps lv (h_mem s) ?m4"
      using heap_keeps_trans [OF inv g(5)] heap_keeps_trans [OF g(3) k2] heap_keeps_trans [OF i2 t(4)] by blast
    moreover have "mem_alloc req s = Some (a + 32, ?s4\<lparr>g_hc := (g_hc ?s4)\<lparr>used_size := used_size (g_hc ?s4) + ucast (mu_size (h_mem ?s4) a)\<rparr>\<rparr>)"
      using heap g(1,2) by (simp add: mem_alloc_def Let_def sizeof_CMemUsed_def MEM_RED_ZONE_SIZE_def add.assoc)
    ultimately show ?thesis using alv bt(2) hd(2) t2 cn(3) by (intro disjI2 exI conjI) auto
  qed (use heap page_bytes(3) [OF refl n] in \<open>auto simp: mem_alloc_def Let_def\<close>)
qed

section \<open>Release\<close>

definition list_for :: "memory \<Rightarrow> u64 \<Rightarrow> nat" where
  "list_for m a = (if bsize m a < 512 then bsize m a else 512)"

lemma list_for_le: "list_for m a \<le> 512" "list_for m a < 512 \<Longrightarrow> bsize m a = list_for m a"
  by (auto simp: list_for_def)

text \<open>Where the release of a block looks for the next one: when the memory behind the block is marked as a
  free block, that block is on the list of its size.\<close>

definition next_listed :: "heap_state \<Rightarrow> (nat \<Rightarrow> u64 list) \<Rightarrow> u64 \<Rightarrow> bool" where
  "next_listed s L a \<longleftrightarrow>
     (let nxt = a + ucast (mu_size (h_mem s) a) in
      nxt < g_heap s + sizeof_CHeapCtrl + max_size (g_hc s) \<and> mu_signature (h_mem s) nxt = MEM_UNUSED_SIGNATURE \<longrightarrow>
        nxt \<in> set (L (list_for (h_mem s) nxt)))"

lemma unlink_free_rule:
  assumes inv: "heap_inv s L lv X" and c: "L (list_for (h_mem s) c) = pre @ c # post"
  shows "unlink_free c s = Some (cut_out (list_for (h_mem s) c) pre c s)"
proof -
  let ?k = "list_for (h_mem s) c"
  have k: "?k \<le> 512" by (rule list_for_le)
  have bl: "block_list (h_mem s) (list_head s ?k) (pre @ c # post)" using heap_invD(2) [OF inv k] c by simp
  have "c \<notin> set pre" using heap_invD(3) [OF inv k] c by simp
  note scan = unlink_scan_rule [OF bl this, of 0]
  have "last pre \<noteq> 0" if "pre \<noteq> []"
    using block_nonzero [OF heap_invD(8) [OF inv in_blocks(1) [OF k]], of "last pre"] that c by simp
  then have lz: "last_or 0 pre \<noteq> 0 \<longleftrightarrow> pre \<noteq> []" "pre \<noteq> [] \<Longrightarrow> last_or 0 pre = last pre" by (auto simp: last_or_def)
  have "ucast (mu_size (h_mem s) c) < MEM_HEAP_HASH_SIZE \<longleftrightarrow> bsize (h_mem s) c < 512"
    by (simp add: word_less_nat_alt unat_ucast_u64 MEM_HEAP_HASH_SIZE_def)
  then show ?thesis using scan lz
    by (auto simp: unlink_free_def Let_def list_for_def list_head_def cut_out_def set_head_def split: if_splits)
qed

lemma push_by_size_eq:
  "push_by_size a s = set_head (list_for (h_mem s) a) a (s\<lparr>h_mem := set_next a (list_head s (list_for (h_mem s) a)) (h_mem s)\<rparr>)"
  by (simp add: push_by_size_def push_free_def Let_def list_for_def set_head_def list_head_def word_less_nat_alt unat_ucast_u64 MEM_HEAP_HASH_SIZE_def)

lemma block_end:
  assumes "heap_inv s L lv X" and "a \<in> blocks L lv X"
  shows "unat (a + ucast (mu_size (h_mem s) a)) = unat a + bsize (h_mem s) a"
proof -
  have "unat a + bsize (h_mem s) a < 2 ^ 64"
    using heap_invD(8) [OF assms] heap_invD(1) [OF assms(1)] by (auto simp: block_ok_def pool_ok_def)
  then show ?thesis by (simp add: unat_word_ariths unat_ucast_u64)
qed

text \<open>Merging with the block behind, for a block in hand.\<close>

lemma coalesce_rule:
  assumes inv: "heap_inv s L lv {a}" and sig: "mu_signature (h_mem s) a = MEM_UNUSED_SIGNATURE" and nl: "next_listed s L a"
  shows "\<exists>s' L'. coalesce a s = Some s' \<and> heap_inv s' L' lv {a} \<and> mu_signature (h_mem s') a = MEM_UNUSED_SIGNATURE \<and>
    bsize (h_mem s) a \<le> bsize (h_mem s') a \<and> keeps lv (h_mem s) (h_mem s')"
proof -
  let ?m = "h_mem s" let ?nxt = "a + ucast (mu_size ?m a)" let ?k = "list_for ?m ?nxt"
  show ?thesis
  proof (cases "?nxt < g_heap s + sizeof_CHeapCtrl + max_size (g_hc s) \<and> mu_signature ?m ?nxt = MEM_UNUSED_SIGNATURE")
    case False
    then have "coalesce a s = Some s" by (auto simp: coalesce_def Let_def)
    then show ?thesis using inv sig by auto
  next
    case True
    then have "?nxt \<in> set (L ?k)" using nl by (simp add: next_listed_def Let_def)
    then obtain pre post where L: "L ?k = pre @ ?nxt # post" by (auto simp: in_set_conv_decomp)
    have k: "?k \<le> 512" by (rule list_for_le)
    let ?s1 = "cut_out ?k pre ?nxt s"
    have u: "unlink_free ?nxt s = Some ?s1" by (rule unlink_free_rule [OF inv L])
    have aB: "a \<in> blocks L lv {a}" by (rule in_blocks) simp
    have nB: "?nxt \<in> blocks L lv {a}" by (rule in_blocks(1) [OF k]) (simp add: L)
    note cut = cut_inv [OF inv k L]
    have sz: "mu_size (h_mem ?s1) a = mu_size ?m a" by (rule cut(2) [OF aB])
    let ?L1 = "L(?k := pre @ post)" and ?m2 = "set_size a (mu_size (h_mem ?s1) a + mu_size (h_mem ?s1) ?nxt) (h_mem ?s1)"
    have adj: "unat ?nxt = unat a + bsize (h_mem ?s1) a" using block_end [OF inv aB] sz by simp
    have ne: "?nxt \<noteq> a" using heap_invD(5) [OF inv k] L by auto
    have "heap_inv (?s1\<lparr>h_mem := ?m2\<rparr>) ?L1 lv ({?nxt, a} - {?nxt})" by (rule merge_inv(1) [OF cut(1) _ _ adj]) simp_all
    then have i2: "heap_inv (?s1\<lparr>h_mem := ?m2\<rparr>) ?L1 lv {a}" using ne by (simp add: insert_Diff_if)
    have "unat (mu_size (h_mem ?s1) a + mu_size (h_mem ?s1) ?nxt) = bsize (h_mem ?s1) a + bsize (h_mem ?s1) ?nxt"
      by (rule merge_inv(2) [OF cut(1) _ _ adj]) simp_all
    then have grow: "bsize ?m a \<le> bsize ?m2 a" by (simp add: sz)
    have a1: "a \<in> blocks ?L1 lv (insert ?nxt {a})" by (rule in_blocks) simp
    have "a \<notin> lv" using heap_invD(6) [OF inv] by auto
    moreover have "changed_in a (bsize (h_mem ?s1) a) (h_mem ?s1) ?m2"
      using heap_invD(8) [OF cut(1) a1] by (intro size_change) (simp add: block_ok_def)
    ultimately have "keeps lv (h_mem ?s1) ?m2" using changed_keeps [OF cut(1) a1] by blast
    then have "keeps lv ?m ?m2" using heap_keeps_trans [OF inv cut_keeps [OF inv k L]] by blast
    moreover have "coalesce a s = Some (?s1\<lparr>h_mem := ?m2\<rparr>)" using True u by (simp add: coalesce_def Let_def)
    moreover have "mu_signature ?m2 a = MEM_UNUSED_SIGNATURE" using cut(3) [OF aB] sig by simp
    ultimately show ?thesis using i2 grow by auto
  qed
qed

lemma heap_free_rule:
  assumes inv: "heap_inv s L lv {}" and a: "a \<in> lv" and nl: "next_listed s L a"
  shows "\<exists>s' L'. mem_free (a + 32) s = Some s' \<and> heap_inv s' L' (lv - {a}) {} \<and> a \<in> set (L' (list_for (h_mem s') a)) \<and>
    bsize (h_mem s) a \<le> bsize (h_mem s') a \<and> keeps (lv - {a}) (h_mem s) (h_mem s')"
proof -
  let ?m = "h_mem s" and ?hc = "g_hc s" and ?lv = "lv - {a}"
  let ?s0 = "s\<lparr>g_hc := ?hc\<lparr>used_size := used_size ?hc - ucast (mu_size ?m a)\<rparr>\<rparr>"
  let ?m1 = "set_next a 0 (set_signature a MEM_UNUSED_SIGNATURE ?m)" let ?s1 = "?s0\<lparr>h_mem := ?m1\<rparr>"
  have i0: "heap_inv ?s0 L ?lv {a}" using unuse_inv [OF inv a] by simp
  have aB: "a \<in> blocks L ?lv {a}" by (rule in_blocks) simp
  have ok: "block_ok s a" by (rule heap_invD(8) [OF inv in_blocks(2) [OF a]])
  have ch: "changed_in a (bsize (h_mem ?s0) a) (h_mem ?s0) ?m1"
    using ok by (auto simp: block_ok_def intro!: changed_in_trans [OF size_change(2) size_change(3)])
  have i1: "heap_inv ?s1 L ?lv {a}" by (rule loose_write [OF i0 _ ch]) (use ok in \<open>auto simp: block_ok_def\<close>)
  have k1: "keeps ?lv ?m ?m1" using changed_keeps [OF i0 aB _ ch] by simp
  let ?nxt = "a + ucast (mu_size ?m a)"
  have "unat ?nxt = unat a + bsize ?m a" by (rule block_end [OF inv in_blocks(2) [OF a]])
  then have "same_on (unat ?nxt) 16 ?m ?m1" using ch by (intro changed_in_same) auto
  note hn = header_cong [OF this]
  then have "list_for ?m1 ?nxt = list_for ?m ?nxt" by (simp add: list_for_def)
  then have "next_listed ?s1 L a" using nl hn(1) by (simp add: next_listed_def Let_def)
  from coalesce_rule [OF i1 _ this] obtain s2 L2 where c: "coalesce a ?s1 = Some s2" "heap_inv s2 L2 ?lv {a}"
    "mu_signature (h_mem s2) a = MEM_UNUSED_SIGNATURE" "bsize ?m a \<le> bsize (h_mem s2) a" "keeps ?lv ?m1 (h_mem s2)" by auto
  let ?k = "list_for (h_mem s2) a" let ?s3 = "push_by_size a s2"
  have i3: "heap_inv ?s3 (L2(?k := a # L2 ?k)) ?lv {}"
    using push_inv [OF c(2) _ c(3) list_for_le] by (simp add: push_by_size_eq)
  have aB2: "a \<in> blocks L2 ?lv {a}" by (rule in_blocks) simp
  have ch3: "changed_in a (bsize (h_mem s2) a) (h_mem s2) (h_mem ?s3)"
    using heap_invD(8) [OF c(2) aB2] unfolding push_by_size_eq by (auto simp: block_ok_def intro: size_change)
  have "keeps ?lv (h_mem s2) (h_mem ?s3)" by (rule changed_keeps [OF c(2) aB2 _ ch3]) simp
  then have kp: "keeps ?lv ?m (h_mem ?s3)"
    using heap_keeps_trans [OF c(2)] heap_keeps_trans [OF i1, of "h_mem s2"] heap_keeps_trans [OF i0, of ?m1] k1 c(5) by simp
  have hdr: "header_of (a + 32) = a" by (simp add: header_of_def MEM_RED_ZONE_SIZE_def sizeof_CMemUsed_def)
  have sz3: "mu_size (h_mem ?s3) a = mu_size (h_mem s2) a" by (simp add: push_by_size_eq)
  have "a + 32 \<noteq> 0"
  proof -
    have "unat (a + 32) = unat a + 32" using ok heap_invD(1) [OF inv] by (auto simp: block_ok_def pool_ok_def unat_word_ariths)
    then show ?thesis by auto
  qed
  moreover have "g_heap s \<noteq> 0" using heap_invD(1) [OF inv] by (simp add: pool_ok_def)
  moreover have "mu_signature ?m a = MEM_USED_SIGNATURE" by (rule heap_invD(12) [OF inv a])
  ultimately have "mem_free (a + 32) s = Some ?s3" using c(1) by (simp add: mem_free_def Let_def hdr)
  moreover have "list_for (h_mem ?s3) a = ?k" by (simp add: list_for_def sz3)
  ultimately show ?thesis using i3 c(4) kp sz3 by (intro exI [of _ ?s3] exI [of _ "L2(?k := a # L2 ?k)"]) auto
qed

end
