(* ===== verification/Kheap_Props.thy ===== *)
theory Kheap_Props
  imports Kheap_Facts
begin

text \<open>
  What the callers of the kernel heap rely on: a fresh heap is well-formed, allocation returns a block
  apart from the blocks in use, release gives the block back, reallocation keeps the contents, and
  the red zones show every write across the ends of a block.
\<close>

section \<open>Helpers\<close>

lemma header_of_user [simp]: "header_of (a + 32) = a"
  by (simp add: header_of_def MEM_RED_ZONE_SIZE_def sizeof_CMemUsed_def)

lemma block_span:
  assumes "heap_inv s L lv X" and "a \<in> blocks L lv X"
  shows "unat (a + 32) = unat a + 32" and "a + 32 \<noteq> 0" and "unat a + bsize (h_mem s) a < 2 ^ 63" and "48 \<le> bsize (h_mem s) a"
    and "16 dvd unat a" and "unat (user_bytes (h_mem s) a) = bsize (h_mem s) a - 48"
proof -
  show b: "unat a + bsize (h_mem s) a < 2 ^ 63" "48 \<le> bsize (h_mem s) a" "16 dvd unat a"
    using heap_invD(8) [OF assms] heap_invD(1) [OF assms(1)] by (auto simp: block_ok_def pool_ok_def)
  then show u: "unat (a + 32) = unat a + 32" by (simp add: unat_word_ariths)
  then show "a + 32 \<noteq> 0" by auto
  show "unat (user_bytes (h_mem s) a) = bsize (h_mem s) a - 48" by (rule zone_addrs(2)) (use b in simp_all)
qed

lemma keeps_sum:
  assumes "heap_inv s L lv X" and "keeps lv (h_mem s) m'"
  shows "(\<Sum>b \<in> lv. bsize m' b) = (\<Sum>b \<in> lv. bsize (h_mem s) b)"
  by (rule sum.cong) (auto dest: keeps_size [OF assms])

lemma keeps_subset: "keeps lv m m' \<Longrightarrow> lv' \<subseteq> lv \<Longrightarrow> keeps lv' m m'"
  by (auto simp: keeps_def)

lemma inv_heap: "heap_inv s L lv X \<Longrightarrow> g_heap s \<noteq> 0"
  using heap_invD(1) by (auto simp: pool_ok_def)

lemma rd32_inj:
  assumes "rd32 m a = rd32 m' a"
  shows "same_on a 4 m m'"
proof -
  have b: "m a = ucast (rd32 m a)" "m (a + 1) = ucast (drop_bit 8 (rd32 m a))" "m (a + 2) = ucast (drop_bit 16 (rd32 m a))"
    "m (a + 3) = ucast (drop_bit 24 (rd32 m a))" for m
    unfolding rd32_def by (rule bit_word_eqI; auto simp: bit_simps dest: bit_imp_le_length)+
  have "m' (a + i) = m (a + i)" if "i < 4" for i
  proof -
    from that have "i = 0 \<or> i = 1 \<or> i = 2 \<or> i = 3" by linarith
    then show ?thesis using b [of m] b [of m'] assms by auto
  qed
  then show ?thesis unfolding same_on_def by (metis le_Suc_ex nat_add_left_cancel_less)
qed

lemma all_words_inj:
  "unat a + 4 * j < 2 ^ 64 \<Longrightarrow> all_words j a w m \<Longrightarrow> all_words j a w m' \<Longrightarrow> same_on (unat a) (4 * j) m m'"
proof (induction j arbitrary: a)
  case (Suc j)
  have a: "unat (a + 4) = unat a + 4" by (rule step_4 [OF Suc.prems(1)])
  have "same_on (unat a) 4 m m'" by (rule rd32_inj) (use Suc.prems in simp)
  moreover have "same_on (unat a + 4) (4 * j) m m'" using Suc.IH [of "a + 4"] Suc.prems a by simp
  ultimately show ?case unfolding same_on_def by (metis add.assoc add_less_cancel_left linorder_not_less mult_Suc_right)
qed (auto simp: same_on_def)

text \<open>With the header in place, the red zones are intact exactly when none of their bytes has changed.\<close>

lemma canaries_iff:
  assumes "unat a + bsize m a < 2 ^ 64" and "48 \<le> bsize m a" and "same_on (unat a) 16 m m'" and "check_canaries m a = 0"
  shows "check_canaries m' a = (if same_on (unat a + 16) 16 m m' \<and> same_on (unat a + bsize m a - 16) 16 m m' then 0 else -1)"
proof -
  let ?f = "a + sizeof_CMemUsed" and ?b = "a + sizeof_CMemUsed + MEM_RED_ZONE_SIZE + user_bytes m a"
  note z = zone_addrs [OF assms(1,2)]
  have ub: "user_bytes m' a = user_bytes m a" using header_cong(2) [OF assms(3)] by (simp add: user_bytes_def)
  have w: "all_words 4 ?f MEM_CANARY_FRONT m" "all_words 4 ?b MEM_CANARY_BACK m"
    using assms(4) by (auto simp: check_canaries_def Let_def split: if_splits)
  have lim: "unat ?f + 4 * 4 < 2 ^ 64" "unat ?b + 4 * 4 < 2 ^ 64" using z assms(1,2) by linarith+
  have "all_words 4 ?f MEM_CANARY_FRONT m' \<longleftrightarrow> same_on (unat a + 16) 16 m m'"
    using all_words_inj [OF lim(1) w(1), of m'] all_words_same [OF lim(1), of m m'] w(1) z(1) by auto
  moreover have "all_words 4 ?b MEM_CANARY_BACK m' \<longleftrightarrow> same_on (unat a + bsize m a - 16) 16 m m'"
    using all_words_inj [OF lim(2) w(2), of m'] all_words_same [OF lim(2), of m m'] w(2) z(3) by auto
  ultimately show ?thesis by (simp add: check_canaries_def Let_def ub)
qed

text \<open>A write to a block in use that leaves its header alone.\<close>

lemma live_write:
  assumes inv: "heap_inv s L lv {}" and a: "a \<in> lv" and ch: "changed_in a (bsize (h_mem s) a) (h_mem s) m'"
    and hd: "same_on (unat a) 16 (h_mem s) m'"
  shows "heap_inv (s\<lparr>h_mem := m'\<rparr>) L lv {}"
proof -
  let ?s0 = "s\<lparr>g_hc := (g_hc s)\<lparr>used_size := used_size (g_hc s) - ucast (mu_size (h_mem s) a)\<rparr>\<rparr>"
  note h = header_cong [OF hd]
  have ok: "block_ok s a" by (rule heap_invD(8) [OF inv in_blocks(2) [OF a]])
  have i0: "heap_inv ?s0 L (lv - {a}) {a}" using unuse_inv [OF inv a] by simp
  have i1: "heap_inv (?s0\<lparr>h_mem := m'\<rparr>) L (lv - {a}) {a}" by (rule loose_write [OF i0]) (use ok ch h in \<open>auto simp: block_ok_def\<close>)
  have "mu_signature m' a = MEM_USED_SIGNATURE" using h heap_invD(12) [OF inv a] by simp
  then show ?thesis using use_inv [OF i1, of a] a h by (simp add: insert_absorb)
qed

lemma live_keeps:
  assumes inv: "heap_inv s L lv {}" and a: "a \<in> lv" and ch: "changed_in a (bsize (h_mem s) a) (h_mem s) m'"
  shows "keeps (lv - {a}) (h_mem s) m'"
proof -
  have "a \<in> blocks L (lv - {a}) {a}" by (rule in_blocks) simp
  from changed_keeps [OF unuse_inv [OF inv a] this] ch show ?thesis by simp
qed

lemma copy_into:
  fixes src :: nat
  assumes inv: "heap_inv s L lv {}" and a: "a \<in> lv" and fit: "n + 48 \<le> bsize (h_mem s) a" and c: "check_canaries (h_mem s) a = 0"
  shows "heap_inv (s\<lparr>h_mem := mem_copy (h_mem s) (unat (a + 32)) src n\<rparr>) L lv {}"
    and "keeps (lv - {a}) (h_mem s) (mem_copy (h_mem s) (unat (a + 32)) src n)"
    and "check_canaries (mem_copy (h_mem s) (unat (a + 32)) src n) a = 0"
    and "mu_size (mem_copy (h_mem s) (unat (a + 32)) src n) a = mu_size (h_mem s) a"
proof -
  let ?m1 = "h_mem s" let ?m2 = "mem_copy ?m1 (unat (a + 32)) src n"
  note sa = block_span [OF inv in_blocks(2) [OF a]]
  have out: "same_on x j ?m1 ?m2" if "x + j \<le> unat a + 32 \<or> unat a + bsize ?m1 a - 16 \<le> x" for x j
    by (rule copy_same_on) (use that fit sa(1) in auto)
  have ch: "changed_in a (bsize ?m1 a) ?m1 ?m2" using fit sa(1) by (auto simp: changed_in_def mem_copy_def)
  have hd: "same_on (unat a) 16 ?m1 ?m2" by (rule out) simp
  show "heap_inv (s\<lparr>h_mem := ?m2\<rparr>) L lv {}" by (rule live_write [OF inv a ch hd])
  show "keeps (lv - {a}) ?m1 ?m2" by (rule live_keeps [OF inv a ch])
  show "check_canaries ?m2 a = 0"
    using canaries_iff [OF _ sa(4) hd c] sa(3) out [of "unat a + 16" 16] out [of "unat a + bsize ?m1 a - 16" 16] by simp
  show "mu_size ?m2 a = mu_size ?m1 a" by (rule header_cong [OF hd])
qed

lemma kept_zones:
  assumes "same_on (unat a) (bsize m a) m m'" and "unat a + bsize m a < 2 ^ 64" and "48 \<le> bsize m a" and "check_canaries m a = 0"
  shows "check_canaries m' a = 0" and "mu_size m' a = mu_size m a"
proof -
  have hd: "same_on (unat a) 16 m m'" by (rule same_on_part [OF assms(1)]) (use assms(3) in auto)
  show "check_canaries m' a = 0"
    using canaries_iff [OF assms(2,3) hd assms(4)] assms(3) same_on_part [OF assms(1), of "unat a + 16" 16]
      same_on_part [OF assms(1), of "unat a + bsize m a - 16" 16] by simp
  show "mu_size m' a = mu_size m a" by (rule header_cong [OF hd])
qed

section \<open>A fresh heap\<close>

lemma fresh_inv:
  assumes "pool_ok s" and "heap_hash (g_hc s) = replicate 512 0" and "malloc_free_list (g_hc s) = 0" and "used_size (g_hc s) = 0"
  shows "heap_inv s (\<lambda>_. []) {} {}"
  by (rule heap_invI) (use assms in \<open>auto simp: list_head_def blocks_def\<close>)

lemma init_rule:
  assumes "backing \<noteq> 0" and "16 dvd unat backing" and "8192 \<le> unat n" and "unat n < 2 ^ 32" and "unat backing + unat n < 2 ^ 63"
  shows "\<exists>s'. mem_init backing n s = (0, s') \<and> heap_inv s' (\<lambda>_. []) {} {} \<and> h_mem s' = h_mem s \<and>
    g_next_page s' = backing + 8192 \<and> g_heap_end s' = backing + n"
proof -
  have e: "unat (backing + 8192) = unat backing + 8192" "unat (backing + n) = unat backing + unat n"
    using assms(3,5) by (simp_all add: unat_word_ariths)
  then have "\<not> backing + 8192 > backing + n" using assms(3) by (simp add: word_less_nat_alt)
  moreover have "(sizeof_CHeapCtrl + MEM_PAG_SIZE - 1) div MEM_PAG_SIZE * MEM_PAG_SIZE = 8192"
    by (simp add: sizeof_CHeapCtrl_def MEM_PAG_SIZE_def)
  ultimately have "mem_init backing n s =
    (0, s\<lparr>g_heap_base := backing, g_heap_total := n, g_next_page := backing + 8192, g_heap_end := backing + n, g_heap := backing,
      g_hc := empty_ctrl\<lparr>hc_signature := HEAP_CTRL_SIGNATURE, max_size := n - MEM_PAG_SIZE\<rparr>\<rparr>)" (is "_ = (0, ?s)")
    using assms(1) by (simp add: mem_init_def alloc_pages_def Let_def)
  moreover have "pool_ok ?s" using assms e by (auto simp: pool_ok_def empty_ctrl_def)
  then have "heap_inv ?s (\<lambda>_. []) {} {}" by (rule fresh_inv) (simp_all add: empty_ctrl_def)
  ultimately show ?thesis by auto
qed

section \<open>Two blocks in use and one free, for the examples\<close>

definition demo_word :: "nat \<Rightarrow> u32" where
  "demo_word a =
     (if a = 0x402000 \<or> a = 0x402040 then MEM_USED_SIGNATURE
      else if a = 0x402004 \<or> a = 0x402044 then 64
      else if 0x402010 \<le> a \<and> a < 0x402020 \<or> 0x402050 \<le> a \<and> a < 0x402060 then MEM_CANARY_FRONT
      else if 0x402030 \<le> a \<and> a < 0x402040 \<or> 0x402070 \<le> a \<and> a < 0x402080 then MEM_CANARY_BACK
      else if a = 0x402080 then MEM_UNUSED_SIGNATURE
      else if a = 0x402084 then 3968
      else 0)"

definition demo_heap :: heap_state where
  "demo_heap =
     \<lparr>h_mem = (\<lambda>x. ucast (drop_bit (8 * (x mod 4)) (demo_word (x - x mod 4)))),
      g_heap = 0x400000, g_hc = \<lparr>hc_signature = HEAP_CTRL_SIGNATURE, heap_hash = replicate 512 0, malloc_free_list = 0x402080,
        used_size = 128, max_size = 0xFF000\<rparr>,
      g_heap_base = 0x400000, g_heap_total = 0x100000, g_next_page = 0x403000, g_heap_end = 0x500000\<rparr>"

definition demo_lists :: "nat \<Rightarrow> u64 list" where
  "demo_lists k = (if k = 512 then [0x402080] else [])"

lemma demo_read:
  assumes "4 dvd a"
  shows "rd32 (h_mem demo_heap) a = demo_word a"
proof -
  from assms obtain k where "a = 4 * k" by auto
  then have "a mod 4 = 0" "(a + 1) mod 4 = 1" "(a + 2) mod 4 = 2" "(a + 3) mod 4 = 3" by presburger+
  then have "rd32 (h_mem demo_heap) a = rd32 (wr32 (\<lambda>_. 0) a (demo_word a)) a" by (simp add: rd32_def wr32_def demo_heap_def)
  then show ?thesis by (simp add: rd32_wr32)
qed

lemma demo_headers:
  "mu_signature (h_mem demo_heap) 0x402000 = MEM_USED_SIGNATURE" "mu_size (h_mem demo_heap) 0x402000 = 64"
  "mu_signature (h_mem demo_heap) 0x402040 = MEM_USED_SIGNATURE" "mu_size (h_mem demo_heap) 0x402040 = 64"
  "mu_signature (h_mem demo_heap) 0x402080 = MEM_UNUSED_SIGNATURE" "mu_size (h_mem demo_heap) 0x402080 = 3968"
  "mu_next (h_mem demo_heap) 0x402080 = 0"
  by (simp_all add: mu_signature_def mu_size_def mu_next_def rd64_def demo_read demo_word_def)

lemma demo_inv: "heap_inv demo_heap demo_lists {0x402000, 0x402040} {}"
proof -
  have B: "blocks demo_lists {0x402000, 0x402040} {} = {0x402080, 0x402000, 0x402040}"
    by (auto simp: blocks_def demo_lists_def split: if_splits)
  show ?thesis
  proof (rule heap_invI)
    show "pool_ok demo_heap" by (simp add: pool_ok_def demo_heap_def)
    show "block_list (h_mem demo_heap) (list_head demo_heap k) (demo_lists k)" if "k \<le> 512" for k
      using that demo_headers(7) by (auto simp: list_head_def demo_lists_def demo_heap_def)
    show "block_ok demo_heap a" if "a \<in> blocks demo_lists {0x402000, 0x402040} {}" for a
      using that unfolding B by (auto simp: block_ok_def demo_headers) (simp_all add: demo_heap_def)
    show "apart (h_mem demo_heap) a b" if "a \<in> blocks demo_lists {0x402000, 0x402040} {}" "b \<in> blocks demo_lists {0x402000, 0x402040} {}"
      "a \<noteq> b" for a b using that unfolding B by (auto simp: apart_def demo_headers)
    show "used_size (g_hc demo_heap) = of_nat (\<Sum>a \<in> {0x402000, 0x402040}. bsize (h_mem demo_heap) a)"
      by (simp add: demo_headers) (simp add: demo_heap_def)
  qed (auto simp: demo_lists_def demo_headers split: if_splits)
qed

lemma demo_next: "next_listed demo_heap demo_lists 0x402000" "next_listed demo_heap demo_lists 0x402040"
  by (simp_all add: next_listed_def Let_def demo_headers list_for_def demo_lists_def) (simp add: MEM_USED_SIGNATURE_def MEM_UNUSED_SIGNATURE_def)

section \<open>Properties\<close>

text \<open>C30: a well-formed heap answers every request up to \<open>2 ^ 62\<close> bytes. Either the result is \<open>NULL\<close>, the
  heap is unchanged, no block on the list of all sizes is large enough and the pages left are too few; or it is a
  16-byte aligned address of a block with at least the bytes asked for and intact red zones, which overlaps no
  block in use, the memory of the blocks in use is unchanged, the bytes in use grow by the size of the block, and
  the heap is well-formed with the block in use.\<close>

theorem alloc_returns_fresh_block:
  assumes inv: "heap_inv s L lv {}" and req: "unat req \<le> 2 ^ 62"
  shows "\<exists>p s'. mem_alloc req s = Some (p, s') \<and>
    (if p = 0 then s' = s \<and> (\<forall>a \<in> set (L 512). unat (mu_size (h_mem s) a) < unat (block_total req)) \<and>
        unat (g_heap_end s) < unat (g_next_page s) + unat (block_total req) + 4095
     else (let a = header_of p; m' = h_mem s' in
        16 dvd unat p \<and> unat p = unat a + 32 \<and> unat req \<le> unat (user_bytes m' a) \<and> mem_check_redzones p s' = 0 \<and>
        (\<forall>b \<in> lv. unat a + unat (mu_size m' a) \<le> unat b \<or> unat b + unat (mu_size (h_mem s) b) \<le> unat a) \<and>
        keeps lv (h_mem s) m' \<and> mem_used s' = mem_used s + ucast (mu_size m' a) \<and>
        (\<exists>L'. heap_inv s' L' (insert a lv) {})))"
  using heap_alloc_rule [OF inv req]
proof (elim disjE exE conjE)
  fix a s' L' assume r: "mem_alloc req s = Some (a + 32, s')" "heap_inv s' L' (insert a lv) {}" "a \<notin> lv"
    "unat req + 48 \<le> bsize (h_mem s') a" "keeps lv (h_mem s) (h_mem s')" "check_canaries (h_mem s') a = 0"
  have aB: "a \<in> blocks L' (insert a lv) {}" by (rule in_blocks) simp
  note sp = block_span [OF r(2) aB]
  have "16 dvd unat (a + 32)" unfolding sp(1) using sp(5) by simp
  moreover have "unat req \<le> unat (user_bytes (h_mem s') a)" using r(4) sp(6) by linarith
  moreover have "mem_check_redzones (a + 32) s' = 0"
    using sp(2) inv_heap [OF r(2)] heap_invD(12) [OF r(2)] r(6) by (simp add: mem_check_redzones_def)
  moreover have "unat a + bsize (h_mem s') a \<le> unat b \<or> unat b + bsize (h_mem s) b \<le> unat a" if "b \<in> lv" for b
    using heap_invD(9) [OF r(2) aB in_blocks(2), of b] that r(3) keeps_size [OF inv r(5) that] by (auto simp: apart_def)
  moreover have "mem_used s' = mem_used s + ucast (mu_size (h_mem s') a)"
    using heap_invD(7,13) [OF inv] heap_invD(13) [OF r(2)] r(3) keeps_sum [OF inv r(5)] inv_heap [OF inv] inv_heap [OF r(2)]
    by (simp add: mem_used_def unat_ucast_u64 add.commute)
  ultimately show ?thesis using r(1,2,5) sp(1,2) by (intro exI [of _ "a + 32"] exI [of _ s']) (auto simp: Let_def)
qed auto

theorem alloc_returns_fresh_block_witness:
  "\<exists>p s'. mem_alloc 100 demo_heap = Some (p, s') \<and> p \<noteq> 0 \<and> mem_check_redzones p s' = 0"
  using alloc_returns_fresh_block [OF demo_inv, of 100]
  by (auto simp: demo_lists_def demo_headers Let_def block_total_def sizeof_CMemUsed_def MEM_RED_ZONE_SIZE_def split: if_splits)

text \<open>C31: releasing a block in use, when the block behind it is not free or is on the list of its size, returns. The
  block is then on the list of its size, marked free, no smaller than before, no other block in use has changed, the
  bytes in use shrink by its size, and the heap is well-formed without it. A second release of the same address
  changes nothing.\<close>

theorem free_returns_block:
  assumes inv: "heap_inv s L lv {}" and a: "header_of p \<in> lv" and nl: "next_listed s L (header_of p)"
  shows "\<exists>s' L'. mem_free p s = Some s' \<and> heap_inv s' L' (lv - {header_of p}) {} \<and>
    header_of p \<in> set (L' (list_for (h_mem s') (header_of p))) \<and> mu_size (h_mem s) (header_of p) \<le> mu_size (h_mem s') (header_of p) \<and>
    keeps (lv - {header_of p}) (h_mem s) (h_mem s') \<and> mem_used s' = mem_used s - ucast (mu_size (h_mem s) (header_of p)) \<and>
    mem_free p s' = Some s'"
proof -
  let ?a = "header_of p"
  have p: "p = ?a + 32" by (simp add: header_of_def MEM_RED_ZONE_SIZE_def sizeof_CMemUsed_def)
  from heap_free_rule [OF inv a nl] obtain s' L' where r: "mem_free (?a + 32) s = Some s'" "heap_inv s' L' (lv - {?a}) {}"
    "?a \<in> set (L' (list_for (h_mem s') ?a))" "bsize (h_mem s) ?a \<le> bsize (h_mem s') ?a" "keeps (lv - {?a}) (h_mem s) (h_mem s')"
    by blast
  have "heap_inv (s\<lparr>g_hc := (g_hc s)\<lparr>used_size := used_size (g_hc s) - ucast (mu_size (h_mem s) ?a)\<rparr>\<rparr>) L (lv - {?a}) {?a}"
    using unuse_inv [OF inv a] by simp
  note inv0 = keeps_size [OF this, simplified, OF r(5)]
  have "mu_signature (h_mem s') ?a = MEM_UNUSED_SIGNATURE" by (rule heap_invD(10) [OF r(2) list_for_le(1) r(3)])
  then have "mem_free (?a + 32) s' = Some s'" by (simp add: mem_free_def MEM_USED_SIGNATURE_def MEM_UNUSED_SIGNATURE_def)
  moreover have "(\<Sum>b \<in> lv - {?a}. bsize (h_mem s') b) = (\<Sum>b \<in> lv - {?a}. bsize (h_mem s) b)"
    by (rule sum.cong) (auto simp: inv0)
  then have "used_size (g_hc s') = of_nat (\<Sum>b \<in> lv - {?a}. bsize (h_mem s) b)" using heap_invD(13) [OF r(2)] by simp
  moreover have "used_size (g_hc s) = of_nat (bsize (h_mem s) ?a + (\<Sum>b \<in> lv - {?a}. bsize (h_mem s) b))"
    using heap_invD(13) [OF inv] sum.remove [OF heap_invD(7) [OF inv] a, of "bsize (h_mem s)"] by simp
  ultimately have "mem_used s' = mem_used s - ucast (mu_size (h_mem s) ?a)" "mem_free (?a + 32) s' = Some s'"
    using inv_heap [OF inv] inv_heap [OF r(2)] by (simp_all add: mem_used_def)
  with r show ?thesis unfolding p [symmetric] by (auto simp: word_le_nat_alt)
qed

theorem free_returns_block_witness:
  "\<exists>s'. mem_free 0x402060 demo_heap = Some s' \<and> mem_used s' = 64 \<and> mem_free 0x402060 s' = Some s'"
proof -
  have h: "header_of 0x402060 = 0x402040" by (simp add: header_of_def MEM_RED_ZONE_SIZE_def sizeof_CMemUsed_def)
  have "mem_used demo_heap = 128" by (simp add: mem_used_def demo_heap_def)
  then show ?thesis using free_returns_block [where p = "0x402060", OF demo_inv] demo_next by (auto simp: h demo_headers)
qed

text \<open>C32: after any writes that leave the header of a block in use alone, the check of its red zones succeeds exactly when
  none of the 16 bytes before and the 16 bytes behind the caller's part of the block has changed.\<close>

theorem red_zones_detect_writes:
  assumes inv: "heap_inv s L lv {}" and a: "header_of p \<in> lv" and ok: "mem_check_redzones p s = 0"
    and hd: "same_on (unat (header_of p)) 16 (h_mem s) m'"
  shows "mem_check_redzones p (s\<lparr>h_mem := m'\<rparr>) =
    (if \<forall>x. (unat p - 16 \<le> x \<and> x < unat p \<or>
             unat p + unat (user_bytes (h_mem s) (header_of p)) \<le> x \<and> x < unat p + unat (user_bytes (h_mem s) (header_of p)) + 16) \<longrightarrow>
           m' x = h_mem s x then 0 else -1)"
proof -
  let ?a = "header_of p"
  have p: "p = ?a + 32" by (simp add: header_of_def MEM_RED_ZONE_SIZE_def sizeof_CMemUsed_def)
  note sp = block_span [OF inv in_blocks(2) [OF a]]
  have pu: "unat p = unat ?a + 32" using sp(1) p by simp
  have c: "check_canaries (h_mem s) ?a = 0" using ok by (simp add: mem_check_redzones_def split: if_splits)
  have "mem_check_redzones p (s\<lparr>h_mem := m'\<rparr>) = check_canaries m' ?a"
    using ok header_cong(1) [OF hd] by (auto simp: mem_check_redzones_def split: if_splits)
  also have "\<dots> = (if same_on (unat ?a + 16) 16 (h_mem s) m' \<and> same_on (unat ?a + bsize (h_mem s) ?a - 16) 16 (h_mem s) m' then 0 else -1)"
    by (rule canaries_iff [OF _ sp(4) hd c]) (use sp(3) in simp)
  finally have e: "mem_check_redzones p (s\<lparr>h_mem := m'\<rparr>) = \<dots>" .
  have z: "unat ?a + 16 = unat p - 16" "unat ?a + bsize (h_mem s) ?a - 16 = unat p + unat (user_bytes (h_mem s) ?a)"
    using sp(4,6) pu by linarith+
  have "unat p - 16 + 16 = unat p" using pu by simp
  then show ?thesis unfolding e z same_on_def by auto
qed

lemma all_words_4: "all_words 4 a w m \<longleftrightarrow> rd32 m (unat a) = w \<and> rd32 m (unat (a + 4)) = w \<and> rd32 m (unat (a + 8)) = w \<and> rd32 m (unat (a + 12)) = w"
  by (simp add: numeral_eq_Suc add.assoc)

lemma demo_user: "header_of 0x402020 = 0x402000" "user_bytes (h_mem demo_heap) 0x402000 = 16"
  by (simp_all add: header_of_def user_bytes_def MEM_RED_ZONE_SIZE_def sizeof_CMemUsed_def demo_headers)

lemma demo_zones: "mem_check_redzones 0x402020 demo_heap = 0"
proof -
  have "check_canaries (h_mem demo_heap) 0x402000 = 0"
    by (simp add: check_canaries_def all_words_4 demo_user sizeof_CMemUsed_def MEM_RED_ZONE_SIZE_def demo_read demo_word_def)
  then show ?thesis by (simp add: mem_check_redzones_def demo_user demo_headers) (simp add: demo_heap_def)
qed

theorem red_zones_detect_writes_witness:
  "mem_check_redzones 0x402020 (demo_heap\<lparr>h_mem := (h_mem demo_heap)(0x402030 := 1)\<rparr>) = -1"
proof -
  let ?m = "(h_mem demo_heap)(0x402030 := 1)"
  have "?m 0x402030 \<noteq> h_mem demo_heap 0x402030"
    by (simp add: demo_heap_def demo_word_def MEM_CANARY_BACK_def)
  then have "\<not> (\<forall>x. (unat (0x402020 :: u64) - 16 \<le> x \<and> x < unat (0x402020 :: u64) \<or> unat (0x402020 :: u64) + 16 \<le> x \<and> x < unat (0x402020 :: u64) + 16 + 16) \<longrightarrow>
      ?m x = h_mem demo_heap x)" by (auto intro!: exI [of _ "0x402030"])
  moreover have "same_on 0x402000 16 (h_mem demo_heap) ?m" by (simp add: same_on_def)
  ultimately show ?thesis
    using red_zones_detect_writes [where m' = ?m, OF demo_inv _ demo_zones] by (simp add: demo_user)
qed

text \<open>C33: reallocating a block in use that has a block in use behind it to a size up to \<open>2 ^ 62\<close> returns. Either the result is
  \<open>NULL\<close> and the heap is unchanged; or it is a block of at least that size with intact red zones that starts with the
  old contents up to the smaller of the two sizes, the old block is released, and no other block in use has changed.\<close>

theorem realloc_keeps_contents:
  assumes inv: "heap_inv s L lv {}" and b: "header_of p \<in> lv" and nxt: "header_of p + ucast (mu_size (h_mem s) (header_of p)) \<in> lv"
    and n: "new_size \<noteq> 0" "unat new_size \<le> 2 ^ 62"
  shows "\<exists>q s'. mem_realloc p new_size s = Some (q, s') \<and>
    (if q = 0 then s' = s
     else (let old = unat (user_bytes (h_mem s) (header_of p)) in
        unat new_size \<le> unat (user_bytes (h_mem s') (header_of q)) \<and> mem_check_redzones q s' = 0 \<and>
        (\<forall>i < min old (unat new_size). h_mem s' (unat q + i) = h_mem s (unat p + i)) \<and>
        keeps (lv - {header_of p}) (h_mem s) (h_mem s') \<and>
        (\<exists>L'. heap_inv s' L' (insert (header_of q) (lv - {header_of p})) {})))"
proof -
  let ?b = "header_of p" let ?old = "user_bytes (h_mem s) ?b" let ?n = "if ?old < new_size then ?old else new_size"
  have p: "p = ?b + 32" by (simp add: header_of_def MEM_RED_ZONE_SIZE_def sizeof_CMemUsed_def)
  note sb = block_span [OF inv in_blocks(2) [OF b]]
  have p0: "p \<noteq> 0" and pu: "unat p = unat ?b + 32" using sb(1,2) p by simp_all
  have k: "unat ?n = min (unat ?old) (unat new_size)" by (auto simp: word_less_nat_alt)
  from heap_alloc_rule [OF inv n(2)] show ?thesis
  proof (elim disjE exE conjE)
    assume "mem_alloc new_size s = Some (0, s)"
    then show ?thesis using p0 n by (simp add: mem_realloc_def Let_def)
  next
    fix a s1 L1 assume r: "mem_alloc new_size s = Some (a + 32, s1)" "heap_inv s1 L1 (insert a lv) {}" "a \<notin> lv"
      "unat new_size + 48 \<le> bsize (h_mem s1) a" "keeps lv (h_mem s) (h_mem s1)" "check_canaries (h_mem s1) a = 0"
    let ?m1 = "h_mem s1" let ?m2 = "mem_copy ?m1 (unat (a + 32)) (unat p) (unat ?n)" let ?s2 = "s1\<lparr>h_mem := ?m2\<rparr>"
    note sa = block_span [OF r(2) in_blocks(2)] note sa = sa [of a, simplified]
    have fit: "unat ?n + 48 \<le> bsize ?m1 a" using r(4) k by linarith
    have bl: "?b \<in> insert a lv" "?b \<noteq> a" using b r(3) by auto
    have kb: "same_on (unat ?b) (bsize (h_mem s) ?b) (h_mem s) ?m1" using r(5) b by (simp add: keeps_def)
    have i2: "heap_inv ?s2 L1 (insert a lv) {}" by (rule copy_into(1) [OF r(2) _ fit r(6)]) simp
    have k2: "keeps lv (h_mem s) ?m2" using heap_keeps_trans [OF inv r(5)] copy_into(2) [OF r(2) _ fit r(6)] r(3) by simp
    have c2: "check_canaries ?m2 a = 0" and sza: "mu_size ?m2 a = mu_size ?m1 a" by (rule copy_into(3,4) [OF r(2) _ fit r(6)]; simp)+
    have sz: "mu_size ?m2 ?b = mu_size (h_mem s) ?b" by (rule keeps_size [OF inv k2 b])
    have "mu_signature ?m2 (?b + ucast (mu_size ?m2 ?b)) = MEM_USED_SIGNATURE" using heap_invD(12) [OF i2] nxt sz by simp
    then have "next_listed ?s2 L1 ?b" by (simp add: next_listed_def Let_def MEM_USED_SIGNATURE_def MEM_UNUSED_SIGNATURE_def)
    from heap_free_rule [OF i2 bl(1) this] obtain s3 L3 where f: "mem_free p ?s2 = Some s3" "heap_inv s3 L3 (insert a lv - {?b}) {}"
      "keeps (insert a lv - {?b}) ?m2 (h_mem s3)" by (auto simp: p [symmetric])
    have ka: "same_on (unat a) (bsize ?m2 a) ?m2 (h_mem s3)" using f(3) bl(2) by (simp add: keeps_def)
    have lim: "unat a + bsize ?m2 a < 2 ^ 64" "48 \<le> bsize ?m2 a" using sa(3,4) sza by auto
    note kz = kept_zones [OF ka lim c2]
    have z: "mem_check_redzones (a + 32) s3 = 0"
      using kz(1) sa(2) inv_heap [OF f(2)] heap_invD(12) [OF f(2), of a] bl(2) by (simp add: mem_check_redzones_def)
    have "h_mem s3 (unat (a + 32) + i) = h_mem s (unat p + i)" if i: "i < unat ?n" for i
    proof -
      have "h_mem s3 (unat (a + 32) + i) = ?m2 (unat (a + 32) + i)" using ka i fit sa(1) sza by (simp add: same_on_def)
      also have "\<dots> = ?m1 (unat p + i)" using i by (simp add: mem_copy_def)
      finally have e: "h_mem s3 (unat (a + 32) + i) = ?m1 (unat p + i)" .
      have "i < bsize (h_mem s) ?b - 48" using i unfolding k sb(6) by linarith
      then have "unat ?b \<le> unat p + i \<and> unat p + i < unat ?b + bsize (h_mem s) ?b" using sb(4) pu by linarith
      then have "?m1 (unat p + i) = h_mem s (unat p + i)" using kb unfolding same_on_def by blast
      with e show ?thesis by simp
    qed
    moreover have "unat new_size \<le> unat (user_bytes (h_mem s3) a)"
      using kz(2) sza r(4) zone_addrs(2) [of a "h_mem s3"] lim by simp
    moreover have "keeps (lv - {?b}) (h_mem s) (h_mem s3)"
    proof -
      have "keeps (lv - {?b}) (h_mem s) ?m2" "keeps (lv - {?b}) ?m2 (h_mem s3)" by (rule keeps_subset [OF k2] keeps_subset [OF f(3)]; blast)+
      then show ?thesis using heap_keeps_trans [OF unuse_inv [OF inv b], of ?m2 "h_mem s3"] by simp
    qed
    moreover have "insert a lv - {?b} = insert a (lv - {?b})" using bl(2) by auto
    ultimately have "mem_realloc p new_size s = Some (a + 32, s3)" and post: "unat new_size \<le> unat (user_bytes (h_mem s3) a)"
      "\<forall>i < min (unat ?old) (unat new_size). h_mem s3 (unat (a + 32) + i) = h_mem s (unat p + i)"
      "keeps (lv - {?b}) (h_mem s) (h_mem s3)" "heap_inv s3 L3 (insert a (lv - {?b})) {}"
      using p0 n r(1) f(1,2) sa(2) k by (auto simp: mem_realloc_def Let_def)
    then show ?thesis using z sa(2) by (intro exI [of _ "a + 32"] exI [of _ s3]) (auto simp: Let_def)
  qed
qed

theorem realloc_keeps_contents_witness:
  "\<exists>q s'. mem_realloc 0x402020 100 demo_heap = Some (q, s') \<and> (q = 0 \<or> (\<forall>i < 16. h_mem s' (unat q + i) = h_mem demo_heap (0x402020 + i)))"
proof -
  have "header_of 0x402020 + ucast (mu_size (h_mem demo_heap) (header_of 0x402020)) = 0x402040" by (simp add: demo_user demo_headers)
  then show ?thesis using realloc_keeps_contents [where p = "0x402020" and new_size = 100, OF demo_inv]
    by (auto simp: demo_user Let_def split: if_splits)
qed

end
