(* ===== verification/Minic_Const.thy ===== *)
theory Minic_Const
  imports Prelude "HOL-Library.Signed_Division"
begin

text \<open>
  The front end of the Mini-C compiler (\<open>jit/jit_minic_cg.c\<close>): tokens and the evaluation of constant expressions.
  The lexer is the text from its position on. An evaluation returns the value, or no value when the expression is not
  constant, together with the position it leaves. The recursion has fuel; \<open>None\<close> means that it ran out, or that the
  least number is divided by \<open>-1\<close>, which traps.
\<close>

section \<open>Tokens\<close>

datatype CGTokType = TOK_EOF | TOK_IDENT | TOK_NUMBER | TOK_HEX | TOK_PLUS | TOK_MINUS | TOK_STAR | TOK_SLASH | TOK_PERCENT
  | TOK_AMP | TOK_PIPE | TOK_CARET | TOK_TILDE | TOK_SHL | TOK_SHR | TOK_LPAREN | TOK_RPAREN | TOK_LBRACE | TOK_RBRACE
  | TOK_SEMI | TOK_COMMA | TOK_ASSIGN | TOK_EQ | TOK_NE | TOK_LT | TOK_GT | TOK_LE | TOK_GE
  | TOK_RETURN | TOK_IF | TOK_ELSE | TOK_WHILE | TOK_LONG

record CGToken =
  tok_type :: CGTokType
  tok_text :: string
  tok_ival :: u64

type_synonym lexer = "string \<times> CGToken"

definition cg_peek :: "string \<Rightarrow> char" where "cg_peek s = (case s of [] \<Rightarrow> CHR 0x00 | c # _ \<Rightarrow> c)"

definition cg_skip_ws :: "string \<Rightarrow> string" where
  "cg_skip_ws s = dropWhile (\<lambda>c. c \<in> {CHR '' '', CHR 0x09, CHR 0x0A, CHR 0x0D}) s"

definition is_digit :: "char \<Rightarrow> bool" where "is_digit c \<longleftrightarrow> 48 \<le> (of_char c :: nat) \<and> (of_char c :: nat) \<le> 57"
definition is_alpha :: "char \<Rightarrow> bool" where
  "is_alpha c \<longleftrightarrow> 65 \<le> (of_char c :: nat) \<and> (of_char c :: nat) \<le> 90 \<or> 97 \<le> (of_char c :: nat) \<and> (of_char c :: nat) \<le> 122"
definition is_xdigit :: "char \<Rightarrow> bool" where
  "is_xdigit c \<longleftrightarrow> is_digit c \<or> 65 \<le> (of_char c :: nat) \<and> (of_char c :: nat) \<le> 70 \<or> 97 \<le> (of_char c :: nat) \<and> (of_char c :: nat) \<le> 102"

definition digit_value :: "char \<Rightarrow> nat" where
  "digit_value c = (let n = of_char c in if n \<le> 57 then n - 48 else if n \<le> 70 then n - 55 else n - 87)"

definition keyword :: "string \<Rightarrow> CGTokType" where
  "keyword t = (if t = ''return'' then TOK_RETURN else if t = ''if'' then TOK_IF else if t = ''else'' then TOK_ELSE
     else if t = ''while'' then TOK_WHILE else if t = ''long'' then TOK_LONG else TOK_IDENT)"

text \<open>\<open>strtoull\<close> in base 16, which stops at the largest number.\<close>

definition hex_value :: "string \<Rightarrow> u64" where
  "hex_value ds = (let v = foldl (\<lambda>a c. a * 16 + digit_value c) 0 ds in if v < 2 ^ 64 then of_nat v else - 1)"

definition dec_value :: "string \<Rightarrow> u64" where
  "dec_value ds = foldl (\<lambda>a c. a * 10 + of_nat (digit_value c)) 0 ds"

text \<open>An operator that starts with \<open>c\<close>, before the text \<open>s\<close>, and the text behind it.\<close>

definition operator :: "char \<Rightarrow> string \<Rightarrow> CGTokType \<times> string" where
  "operator c s =
     (if c = CHR ''+'' then (TOK_PLUS, s) else if c = CHR ''-'' then (TOK_MINUS, s) else if c = CHR ''*'' then (TOK_STAR, s)
      else if c = CHR ''/'' then (TOK_SLASH, s) else if c = CHR ''%'' then (TOK_PERCENT, s)
      else if c = CHR ''&'' then (TOK_AMP, if cg_peek s = CHR ''&'' then tl s else s)
      else if c = CHR ''|'' then (TOK_PIPE, s) else if c = CHR ''^'' then (TOK_CARET, s) else if c = CHR ''~'' then (TOK_TILDE, s)
      else if c = CHR ''<'' then
        (if cg_peek s = CHR ''<'' then (TOK_SHL, tl s) else if cg_peek s = CHR ''='' then (TOK_LE, tl s) else (TOK_LT, s))
      else if c = CHR ''>'' then
        (if cg_peek s = CHR ''>'' then (TOK_SHR, tl s) else if cg_peek s = CHR ''='' then (TOK_GE, tl s) else (TOK_GT, s))
      else if c = CHR ''('' then (TOK_LPAREN, s) else if c = CHR '')'' then (TOK_RPAREN, s)
      else if c = CHR ''{'' then (TOK_LBRACE, s) else if c = CHR ''}'' then (TOK_RBRACE, s)
      else if c = CHR '';'' then (TOK_SEMI, s) else if c = CHR '','' then (TOK_COMMA, s)
      else if c = CHR ''='' then (if cg_peek s = CHR ''='' then (TOK_EQ, tl s) else (TOK_ASSIGN, s))
      else if c = CHR ''!'' then (if cg_peek s = CHR ''='' then (TOK_NE, tl s) else (TOK_EOF, s))
      else (TOK_EOF, s))"

definition cg_next_token :: "string \<Rightarrow> CGToken \<Rightarrow> lexer" where
  "cg_next_token src tok =
     (let s = cg_skip_ws src; c = cg_peek s in
      if c = CHR 0x00 then (s, tok\<lparr>tok_type := TOK_EOF\<rparr>)
      else if is_alpha c \<or> c = CHR ''_'' then
        (let t = takeWhile (\<lambda>c. is_alpha c \<or> is_digit c \<or> c = CHR ''_'') (take 63 s) in
         (drop (length t) s, tok\<lparr>tok_type := keyword t, tok_text := t\<rparr>))
      else if is_digit c then
        (if c = CHR ''0'' \<and> (cg_peek (tl s) = CHR ''x'' \<or> cg_peek (tl s) = CHR ''X'') then
           (let ds = takeWhile is_xdigit (take 60 (drop 2 s)) in
            (drop (2 + length ds) s, tok\<lparr>tok_type := TOK_HEX, tok_text := take 2 s @ ds, tok_ival := hex_value ds\<rparr>))
         else (let ds = takeWhile is_digit s in
            (drop (length ds) s, tok\<lparr>tok_type := TOK_NUMBER, tok_ival := dec_value ds\<rparr>)))
      else (case operator c (tl s) of (t, r) \<Rightarrow> (r, tok\<lparr>tok_type := t\<rparr>)))"

abbreviation cur :: "lexer \<Rightarrow> CGTokType" where "cur l \<equiv> tok_type (snd l)"

definition advance :: "lexer \<Rightarrow> lexer" where "advance l = cg_next_token (fst l) (snd l)"

section \<open>Constant expressions\<close>

text \<open>The value of an operator: \<open>None\<close> when it traps, \<open>Some None\<close> when evaluation ends at once with 0.\<close>

type_synonym const_op = "u64 \<Rightarrow> u64 \<Rightarrow> u64 option option"
type_synonym const_result = "(u64 option \<times> lexer) option"

definition min_by_minus_1 :: "u64 \<Rightarrow> u64 \<Rightarrow> bool" where "min_by_minus_1 a b \<longleftrightarrow> a = 0x8000000000000000 \<and> b = - 1"

definition mul_ops :: "CGTokType \<Rightarrow> const_op option" where
  "mul_ops t = (case t of
      TOK_STAR \<Rightarrow> Some (\<lambda>a b. Some (Some (a * b)))
    | TOK_SLASH \<Rightarrow> Some (\<lambda>a b. if b = 0 then Some None else if min_by_minus_1 a b then None else Some (Some (word_of_int (sint a sdiv sint b))))
    | TOK_PERCENT \<Rightarrow> Some (\<lambda>a b. if b = 0 then Some None else if min_by_minus_1 a b then None else Some (Some (word_of_int (sint a smod sint b))))
    | _ \<Rightarrow> None)"

definition add_ops :: "CGTokType \<Rightarrow> const_op option" where
  "add_ops t = (case t of TOK_PLUS \<Rightarrow> Some (\<lambda>a b. Some (Some (a + b))) | TOK_MINUS \<Rightarrow> Some (\<lambda>a b. Some (Some (a - b))) | _ \<Rightarrow> None)"

definition shift_ops :: "CGTokType \<Rightarrow> const_op option" where
  "shift_ops t = (case t of
      TOK_SHL \<Rightarrow> Some (\<lambda>a b. Some (Some (push_bit (unat (b AND 63)) a)))
    | TOK_SHR \<Rightarrow> Some (\<lambda>a b. Some (Some (signed_drop_bit (unat (b AND 63)) a)))
    | _ \<Rightarrow> None)"

definition bit_ops :: "CGTokType \<Rightarrow> const_op option" where
  "bit_ops t = (case t of
      TOK_AMP \<Rightarrow> Some (\<lambda>a b. Some (Some (a AND b)))
    | TOK_CARET \<Rightarrow> Some (\<lambda>a b. Some (Some (a XOR b)))
    | TOK_PIPE \<Rightarrow> Some (\<lambda>a b. Some (Some (a OR b)))
    | _ \<Rightarrow> None)"

definition of_bool64 :: "bool \<Rightarrow> u64" where "of_bool64 b = (if b then 1 else 0)"

definition cmp_ops :: "CGTokType \<Rightarrow> const_op option" where
  "cmp_ops t = (case t of
      TOK_EQ \<Rightarrow> Some (\<lambda>a b. Some (Some (of_bool64 (a = b))))
    | TOK_NE \<Rightarrow> Some (\<lambda>a b. Some (Some (of_bool64 (a \<noteq> b))))
    | TOK_LT \<Rightarrow> Some (\<lambda>a b. Some (Some (of_bool64 (a <s b))))
    | TOK_GT \<Rightarrow> Some (\<lambda>a b. Some (Some (of_bool64 (b <s a))))
    | TOK_LE \<Rightarrow> Some (\<lambda>a b. Some (Some (of_bool64 (a \<le>s b))))
    | TOK_GE \<Rightarrow> Some (\<lambda>a b. Some (Some (of_bool64 (b \<le>s a))))
    | _ \<Rightarrow> None)"

text \<open>The loop over the operators of one level, and the level: on failure the position is that of the operator, or
  the start.\<close>

fun op_loop :: "nat \<Rightarrow> (lexer \<Rightarrow> const_result) \<Rightarrow> (CGTokType \<Rightarrow> const_op option) \<Rightarrow> u64 \<Rightarrow> lexer \<Rightarrow> const_result" where
  "op_loop 0 P ops lhs l = None"
| "op_loop (Suc n) P ops lhs l =
     (case ops (cur l) of
        None \<Rightarrow> Some (Some lhs, l)
      | Some f \<Rightarrow> (case P (advance l) of
            None \<Rightarrow> None
          | Some (None, _) \<Rightarrow> Some (None, l)
          | Some (Some rhs, l1) \<Rightarrow> (case f lhs rhs of
                None \<Rightarrow> None
              | Some None \<Rightarrow> Some (Some 0, l1)
              | Some (Some v) \<Rightarrow> op_loop n P ops v l1)))"

definition const_level :: "nat \<Rightarrow> (lexer \<Rightarrow> const_result) \<Rightarrow> (CGTokType \<Rightarrow> const_op option) \<Rightarrow> lexer \<Rightarrow> const_result" where
  "const_level n P ops l =
     (case P l of None \<Rightarrow> None | Some (None, _) \<Rightarrow> Some (None, l) | Some (Some lhs, l1) \<Rightarrow> op_loop n P ops lhs l1)"

definition cg_const_eval_multiplicative :: "nat \<Rightarrow> (lexer \<Rightarrow> const_result) \<Rightarrow> lexer \<Rightarrow> const_result" where
  "cg_const_eval_multiplicative n P = const_level n P mul_ops"
definition cg_const_eval_additive :: "nat \<Rightarrow> (lexer \<Rightarrow> const_result) \<Rightarrow> lexer \<Rightarrow> const_result" where
  "cg_const_eval_additive n P = const_level n (cg_const_eval_multiplicative n P) add_ops"
definition cg_const_eval_shift :: "nat \<Rightarrow> (lexer \<Rightarrow> const_result) \<Rightarrow> lexer \<Rightarrow> const_result" where
  "cg_const_eval_shift n P = const_level n (cg_const_eval_additive n P) shift_ops"
definition cg_const_eval_bitwise :: "nat \<Rightarrow> (lexer \<Rightarrow> const_result) \<Rightarrow> lexer \<Rightarrow> const_result" where
  "cg_const_eval_bitwise n P = const_level n (cg_const_eval_shift n P) bit_ops"

text \<open>At most one comparison.\<close>

definition cg_const_eval_compare :: "nat \<Rightarrow> (lexer \<Rightarrow> const_result) \<Rightarrow> lexer \<Rightarrow> const_result" where
  "cg_const_eval_compare n P l =
     (case cg_const_eval_bitwise n P l of
        None \<Rightarrow> None
      | Some (None, _) \<Rightarrow> Some (None, l)
      | Some (Some lhs, l1) \<Rightarrow> (case cmp_ops (cur l1) of
            None \<Rightarrow> Some (Some lhs, l1)
          | Some f \<Rightarrow> (case cg_const_eval_bitwise n P (advance l1) of
                None \<Rightarrow> None
              | Some (None, _) \<Rightarrow> Some (None, l1)
              | Some (Some rhs, l2) \<Rightarrow> (case f lhs rhs of Some (Some v) \<Rightarrow> Some (Some v, l2) | _ \<Rightarrow> None))))"

fun cg_const_eval_primary :: "nat \<Rightarrow> lexer \<Rightarrow> const_result" where
  "cg_const_eval_primary 0 l = None"
| "cg_const_eval_primary (Suc n) l =
     (if cur l = TOK_LPAREN then
        (case cg_const_eval_compare n (cg_const_eval_primary n) (advance l) of
           None \<Rightarrow> None
         | Some (None, _) \<Rightarrow> Some (None, l)
         | Some (Some v, l1) \<Rightarrow> Some (if cur l1 = TOK_RPAREN then (Some v, advance l1) else (None, l)))
      else if cur l = TOK_NUMBER \<or> cur l = TOK_HEX then Some (Some (tok_ival (snd l)), advance l)
      else if cur l = TOK_MINUS then
        (case cg_const_eval_primary n (advance l) of
           None \<Rightarrow> None | Some (None, _) \<Rightarrow> Some (None, l) | Some (Some v, l1) \<Rightarrow> Some (Some (- v), l1))
      else if cur l = TOK_TILDE then
        (case cg_const_eval_primary n (advance l) of
           None \<Rightarrow> None | Some (None, _) \<Rightarrow> Some (None, l) | Some (Some v, l1) \<Rightarrow> Some (Some (NOT v), l1))
      else Some (None, l))"

definition cg_const_eval :: "nat \<Rightarrow> lexer \<Rightarrow> const_result" where
  "cg_const_eval n = cg_const_eval_compare n (cg_const_eval_primary n)"

end
