(* ===== verification/Rv64.thy ===== *)
theory Rv64
  imports Prelude
begin

text \<open>
  The RISC-V encoder (\<open>jit/wubu_rv64.c\<close>, \<open>jit/wubu_rv64.h\<close>): one definition per instruction, which appends its
  encoding to a code buffer. The buffer is the list of its \<open>cap\<close> bytes; signed integers are words, whose arithmetic
  wraps.
\<close>

section \<open>The encoder\<close>

type_synonym RV64Reg = u32

definition RV_X0 :: RV64Reg where "RV_X0 = 0"
definition RV_RA :: RV64Reg where "RV_RA = 1"
definition RV_SP :: RV64Reg where "RV_SP = 2"
definition RV_T0 :: RV64Reg where "RV_T0 = 5"
definition RV_T1 :: RV64Reg where "RV_T1 = 6"
definition RV_T2 :: RV64Reg where "RV_T2 = 7"
definition RV_A0 :: RV64Reg where "RV_A0 = 10"
definition RV_T3 :: RV64Reg where "RV_T3 = 28"
definition RV_T4 :: RV64Reg where "RV_T4 = 29"
definition RV_T5 :: RV64Reg where "RV_T5 = 30"
definition RV_T6 :: RV64Reg where "RV_T6 = 31"

lemmas rv_regs = RV_X0_def RV_RA_def RV_SP_def RV_T0_def RV_T1_def RV_T2_def RV_A0_def RV_T3_def RV_T4_def RV_T5_def RV_T6_def

definition RV_OP_LUI :: u32 where "RV_OP_LUI = 0x37"
definition RV_OP_JAL :: u32 where "RV_OP_JAL = 0x6F"
definition RV_OP_JALR :: u32 where "RV_OP_JALR = 0x67"
definition RV_OP_BRANCH :: u32 where "RV_OP_BRANCH = 0x63"
definition RV_OP_LOAD :: u32 where "RV_OP_LOAD = 0x03"
definition RV_OP_STORE :: u32 where "RV_OP_STORE = 0x23"
definition RV_OP_OP_IMM :: u32 where "RV_OP_OP_IMM = 0x13"
definition RV_OP_OP :: u32 where "RV_OP_OP = 0x33"

lemmas rv_ops = RV_OP_LUI_def RV_OP_JAL_def RV_OP_JALR_def RV_OP_BRANCH_def RV_OP_LOAD_def RV_OP_STORE_def RV_OP_OP_IMM_def RV_OP_OP_def

record RV64Enc =
  enc_buf :: bytes
  enc_pos :: nat
  enc_cap :: nat
  owns_buf :: bool

definition rv64_emit :: "u32 \<Rightarrow> RV64Enc \<Rightarrow> RV64Enc" where
  "rv64_emit w e =
     (if enc_pos e + 4 \<le> enc_cap e
      then e\<lparr>enc_buf := put_bytes (enc_pos e) (le32 w) (enc_buf e), enc_pos := enc_pos e + 4\<rparr> else e)"

definition rv_r_type :: "u32 \<Rightarrow> RV64Reg \<Rightarrow> RV64Reg \<Rightarrow> u32 \<Rightarrow> RV64Reg \<Rightarrow> u32 \<Rightarrow> u32" where
  "rv_r_type funct7 rs2 rs1 funct3 rd opcode =
     push_bit 25 (funct7 AND 0x7F) OR push_bit 20 (rs2 AND 0x1F) OR push_bit 15 (rs1 AND 0x1F) OR
     push_bit 12 (funct3 AND 0x7) OR push_bit 7 (rd AND 0x1F) OR opcode"

text \<open>An immediate of type \<open>int16_t\<close> is promoted to \<open>int\<close>.\<close>

definition rv_i_type :: "u16 \<Rightarrow> RV64Reg \<Rightarrow> u32 \<Rightarrow> RV64Reg \<Rightarrow> u32 \<Rightarrow> u32" where
  "rv_i_type imm rs1 funct3 rd opcode =
     push_bit 20 ((scast imm :: u32) AND 0xFFF) OR push_bit 15 (rs1 AND 0x1F) OR push_bit 12 (funct3 AND 0x7) OR
     push_bit 7 (rd AND 0x1F) OR opcode"

definition rv_s_type :: "u16 \<Rightarrow> RV64Reg \<Rightarrow> RV64Reg \<Rightarrow> u32 \<Rightarrow> u32 \<Rightarrow> u32" where
  "rv_s_type imm rs2 rs1 funct3 opcode =
     (let hi = signed_drop_bit 5 (scast imm :: u32) AND 0x7F; lo = (scast imm :: u32) AND 0x1F in
      push_bit 25 hi OR push_bit 20 (rs2 AND 0x1F) OR push_bit 15 (rs1 AND 0x1F) OR push_bit 12 (funct3 AND 0x7) OR
      push_bit 7 lo OR opcode)"

definition rv_b_type :: "u16 \<Rightarrow> RV64Reg \<Rightarrow> RV64Reg \<Rightarrow> u32 \<Rightarrow> u32 \<Rightarrow> u32" where
  "rv_b_type imm rs2 rs1 funct3 opcode =
     (let off = scast (signed_drop_bit 1 imm) :: u32;
          b12 = signed_drop_bit 11 off AND 1; b11 = signed_drop_bit 10 off AND 1;
          b10_5 = signed_drop_bit 4 off AND 0x3F; b4_1 = off AND 0xF
      in push_bit 31 b12 OR push_bit 25 b10_5 OR push_bit 20 (rs2 AND 0x1F) OR push_bit 15 (rs1 AND 0x1F) OR
         push_bit 12 (funct3 AND 0x7) OR push_bit 8 b4_1 OR push_bit 7 b11 OR opcode)"

definition rv_j_type :: "u32 \<Rightarrow> RV64Reg \<Rightarrow> u32 \<Rightarrow> u32" where
  "rv_j_type imm rd opcode =
     (let off = signed_drop_bit 1 imm;
          j20 = signed_drop_bit 19 off AND 1; j10_1 = signed_drop_bit 9 off AND 0x3FF;
          j11 = signed_drop_bit 8 off AND 1; j19_12 = off AND 0xFF
      in push_bit 31 j20 OR push_bit 12 j19_12 OR push_bit 20 j11 OR push_bit 21 j10_1 OR push_bit 7 (rd AND 0x1F) OR opcode)"

definition rv64_enc_init :: "bytes \<Rightarrow> nat \<Rightarrow> RV64Enc" where
  "rv64_enc_init buf cap = \<lparr>enc_buf = buf, enc_pos = 0, enc_cap = cap, owns_buf = False\<rparr>"

text \<open>The memory that \<open>malloc\<close> returns is an argument, \<open>None\<close> when it fails.\<close>

definition rv64_enc_init_dynamic :: "(nat \<Rightarrow> bytes option) \<Rightarrow> nat \<Rightarrow> RV64Enc" where
  "rv64_enc_init_dynamic malloc initial_cap =
     (let n = (if initial_cap = 0 then 256 else initial_cap) in
      case malloc n of
        None \<Rightarrow> \<lparr>enc_buf = [], enc_pos = 0, enc_cap = 0, owns_buf = True\<rparr>
      | Some b \<Rightarrow> \<lparr>enc_buf = b, enc_pos = 0, enc_cap = n, owns_buf = True\<rparr>)"

definition rv64_emit_word :: "u32 \<Rightarrow> RV64Enc \<Rightarrow> RV64Enc" where "rv64_emit_word w e = rv64_emit w e"
definition rv64_enc_pos :: "RV64Enc \<Rightarrow> nat" where "rv64_enc_pos e = enc_pos e"

definition rv64_add :: "RV64Reg \<Rightarrow> RV64Reg \<Rightarrow> RV64Reg \<Rightarrow> RV64Enc \<Rightarrow> RV64Enc" where
  "rv64_add rd rs1 rs2 = rv64_emit (rv_r_type 0x00 rs2 rs1 0x0 rd RV_OP_OP)"
definition rv64_sub :: "RV64Reg \<Rightarrow> RV64Reg \<Rightarrow> RV64Reg \<Rightarrow> RV64Enc \<Rightarrow> RV64Enc" where
  "rv64_sub rd rs1 rs2 = rv64_emit (rv_r_type 0x20 rs2 rs1 0x0 rd RV_OP_OP)"
definition rv64_mul :: "RV64Reg \<Rightarrow> RV64Reg \<Rightarrow> RV64Reg \<Rightarrow> RV64Enc \<Rightarrow> RV64Enc" where
  "rv64_mul rd rs1 rs2 = rv64_emit (rv_r_type 0x01 rs2 rs1 0x0 rd RV_OP_OP)"
definition rv64_div :: "RV64Reg \<Rightarrow> RV64Reg \<Rightarrow> RV64Reg \<Rightarrow> RV64Enc \<Rightarrow> RV64Enc" where
  "rv64_div rd rs1 rs2 = rv64_emit (rv_r_type 0x01 rs2 rs1 0x4 rd RV_OP_OP)"
definition rv64_rem :: "RV64Reg \<Rightarrow> RV64Reg \<Rightarrow> RV64Reg \<Rightarrow> RV64Enc \<Rightarrow> RV64Enc" where
  "rv64_rem rd rs1 rs2 = rv64_emit (rv_r_type 0x01 rs2 rs1 0x6 rd RV_OP_OP)"
definition rv64_and :: "RV64Reg \<Rightarrow> RV64Reg \<Rightarrow> RV64Reg \<Rightarrow> RV64Enc \<Rightarrow> RV64Enc" where
  "rv64_and rd rs1 rs2 = rv64_emit (rv_r_type 0x00 rs2 rs1 0x7 rd RV_OP_OP)"
definition rv64_or :: "RV64Reg \<Rightarrow> RV64Reg \<Rightarrow> RV64Reg \<Rightarrow> RV64Enc \<Rightarrow> RV64Enc" where
  "rv64_or rd rs1 rs2 = rv64_emit (rv_r_type 0x00 rs2 rs1 0x6 rd RV_OP_OP)"
definition rv64_xor :: "RV64Reg \<Rightarrow> RV64Reg \<Rightarrow> RV64Reg \<Rightarrow> RV64Enc \<Rightarrow> RV64Enc" where
  "rv64_xor rd rs1 rs2 = rv64_emit (rv_r_type 0x00 rs2 rs1 0x4 rd RV_OP_OP)"
definition rv64_sll :: "RV64Reg \<Rightarrow> RV64Reg \<Rightarrow> RV64Reg \<Rightarrow> RV64Enc \<Rightarrow> RV64Enc" where
  "rv64_sll rd rs1 rs2 = rv64_emit (rv_r_type 0x00 rs2 rs1 0x1 rd RV_OP_OP)"
definition rv64_srl :: "RV64Reg \<Rightarrow> RV64Reg \<Rightarrow> RV64Reg \<Rightarrow> RV64Enc \<Rightarrow> RV64Enc" where
  "rv64_srl rd rs1 rs2 = rv64_emit (rv_r_type 0x00 rs2 rs1 0x5 rd RV_OP_OP)"
definition rv64_sra :: "RV64Reg \<Rightarrow> RV64Reg \<Rightarrow> RV64Reg \<Rightarrow> RV64Enc \<Rightarrow> RV64Enc" where
  "rv64_sra rd rs1 rs2 = rv64_emit (rv_r_type 0x20 rs2 rs1 0x5 rd RV_OP_OP)"
definition rv64_slt :: "RV64Reg \<Rightarrow> RV64Reg \<Rightarrow> RV64Reg \<Rightarrow> RV64Enc \<Rightarrow> RV64Enc" where
  "rv64_slt rd rs1 rs2 = rv64_emit (rv_r_type 0x00 rs2 rs1 0x2 rd RV_OP_OP)"
definition rv64_sltu :: "RV64Reg \<Rightarrow> RV64Reg \<Rightarrow> RV64Reg \<Rightarrow> RV64Enc \<Rightarrow> RV64Enc" where
  "rv64_sltu rd rs1 rs2 = rv64_emit (rv_r_type 0x00 rs2 rs1 0x3 rd RV_OP_OP)"

definition rv64_addi :: "RV64Reg \<Rightarrow> RV64Reg \<Rightarrow> u16 \<Rightarrow> RV64Enc \<Rightarrow> RV64Enc" where
  "rv64_addi rd rs1 imm = rv64_emit (rv_i_type imm rs1 0x0 rd RV_OP_OP_IMM)"
definition rv64_ori :: "RV64Reg \<Rightarrow> RV64Reg \<Rightarrow> u16 \<Rightarrow> RV64Enc \<Rightarrow> RV64Enc" where
  "rv64_ori rd rs1 imm = rv64_emit (rv_i_type imm rs1 0x6 rd RV_OP_OP_IMM)"
definition rv64_xori :: "RV64Reg \<Rightarrow> RV64Reg \<Rightarrow> u16 \<Rightarrow> RV64Enc \<Rightarrow> RV64Enc" where
  "rv64_xori rd rs1 imm = rv64_emit (rv_i_type imm rs1 0x4 rd RV_OP_OP_IMM)"
definition rv64_andi :: "RV64Reg \<Rightarrow> RV64Reg \<Rightarrow> u16 \<Rightarrow> RV64Enc \<Rightarrow> RV64Enc" where
  "rv64_andi rd rs1 imm = rv64_emit (rv_i_type imm rs1 0x7 rd RV_OP_OP_IMM)"
definition rv64_slti :: "RV64Reg \<Rightarrow> RV64Reg \<Rightarrow> u16 \<Rightarrow> RV64Enc \<Rightarrow> RV64Enc" where
  "rv64_slti rd rs1 imm = rv64_emit (rv_i_type imm rs1 0x2 rd RV_OP_OP_IMM)"
definition rv64_sltiu :: "RV64Reg \<Rightarrow> RV64Reg \<Rightarrow> u16 \<Rightarrow> RV64Enc \<Rightarrow> RV64Enc" where
  "rv64_sltiu rd rs1 imm = rv64_emit (rv_i_type imm rs1 0x3 rd RV_OP_OP_IMM)"
definition rv64_slli :: "RV64Reg \<Rightarrow> RV64Reg \<Rightarrow> u8 \<Rightarrow> RV64Enc \<Rightarrow> RV64Enc" where
  "rv64_slli rd rs1 shamt = rv64_emit (rv_i_type (ucast shamt AND 0x3F) rs1 0x1 rd RV_OP_OP_IMM)"
definition rv64_srli :: "RV64Reg \<Rightarrow> RV64Reg \<Rightarrow> u8 \<Rightarrow> RV64Enc \<Rightarrow> RV64Enc" where
  "rv64_srli rd rs1 shamt = rv64_emit (rv_i_type (ucast shamt AND 0x3F) rs1 0x5 rd RV_OP_OP_IMM)"
definition rv64_srai :: "RV64Reg \<Rightarrow> RV64Reg \<Rightarrow> u8 \<Rightarrow> RV64Enc \<Rightarrow> RV64Enc" where
  "rv64_srai rd rs1 shamt = rv64_emit (rv_i_type (ucast shamt AND 0x3F OR 0x400) rs1 0x5 rd RV_OP_OP_IMM)"

definition rv64_ld :: "RV64Reg \<Rightarrow> RV64Reg \<Rightarrow> u16 \<Rightarrow> RV64Enc \<Rightarrow> RV64Enc" where
  "rv64_ld rd base off = rv64_emit (rv_i_type off base 0x3 rd RV_OP_LOAD)"
definition rv64_sd :: "RV64Reg \<Rightarrow> RV64Reg \<Rightarrow> u16 \<Rightarrow> RV64Enc \<Rightarrow> RV64Enc" where
  "rv64_sd rs2 base off = rv64_emit (rv_s_type off rs2 base 0x3 RV_OP_STORE)"

definition rv64_beq :: "RV64Reg \<Rightarrow> RV64Reg \<Rightarrow> u16 \<Rightarrow> RV64Enc \<Rightarrow> RV64Enc" where
  "rv64_beq rs1 rs2 off = rv64_emit (rv_b_type off rs2 rs1 0x0 RV_OP_BRANCH)"
definition rv64_bne :: "RV64Reg \<Rightarrow> RV64Reg \<Rightarrow> u16 \<Rightarrow> RV64Enc \<Rightarrow> RV64Enc" where
  "rv64_bne rs1 rs2 off = rv64_emit (rv_b_type off rs2 rs1 0x1 RV_OP_BRANCH)"
definition rv64_blt :: "RV64Reg \<Rightarrow> RV64Reg \<Rightarrow> u16 \<Rightarrow> RV64Enc \<Rightarrow> RV64Enc" where
  "rv64_blt rs1 rs2 off = rv64_emit (rv_b_type off rs2 rs1 0x4 RV_OP_BRANCH)"
definition rv64_bge :: "RV64Reg \<Rightarrow> RV64Reg \<Rightarrow> u16 \<Rightarrow> RV64Enc \<Rightarrow> RV64Enc" where
  "rv64_bge rs1 rs2 off = rv64_emit (rv_b_type off rs2 rs1 0x5 RV_OP_BRANCH)"

definition rv64_jal :: "RV64Reg \<Rightarrow> u32 \<Rightarrow> RV64Enc \<Rightarrow> RV64Enc" where
  "rv64_jal rd off = rv64_emit (rv_j_type off rd RV_OP_JAL)"
definition rv64_jalr :: "RV64Reg \<Rightarrow> RV64Reg \<Rightarrow> u16 \<Rightarrow> RV64Enc \<Rightarrow> RV64Enc" where
  "rv64_jalr rd rs1 off = rv64_emit (rv_i_type off rs1 0 rd RV_OP_JALR)"
definition rv64_ret :: "RV64Enc \<Rightarrow> RV64Enc" where
  "rv64_ret = rv64_emit (rv_i_type 0 RV_RA 0 RV_X0 RV_OP_JALR)"

definition rv64_lui :: "RV64Reg \<Rightarrow> u32 \<Rightarrow> RV64Enc \<Rightarrow> RV64Enc" where
  "rv64_lui rd imm20 = rv64_emit (push_bit 12 (imm20 AND 0xFFFFF) OR push_bit 7 (rd AND 0x1F) OR RV_OP_LUI)"

definition rv64_li :: "RV64Reg \<Rightarrow> u64 \<Rightarrow> RV64Enc \<Rightarrow> RV64Enc" where
  "rv64_li rd imm e =
     (let lo0 = ucast (imm AND 0xFFF) :: u32;
          lo = (if lo0 AND 0x800 \<noteq> 0 then lo0 OR NOT 0xFFF else lo0);
          hi20 = ucast (signed_drop_bit 12 imm AND 0xFFFFF) :: u32
      in if hi20 \<noteq> 0 then
           (let e1 = rv64_lui rd (push_bit 12 hi20) e in if lo \<noteq> 0 then rv64_addi rd rd (ucast lo) e1 else e1)
         else rv64_addi rd RV_X0 (ucast lo) e)"

definition rv64_mv :: "RV64Reg \<Rightarrow> RV64Reg \<Rightarrow> RV64Enc \<Rightarrow> RV64Enc" where "rv64_mv rd rs = rv64_addi rd rs 0"

text \<open>The position of the last instruction; the generator asks for it behind an instruction it has just emitted.\<close>

definition rv64_branch_pos :: "RV64Enc \<Rightarrow> nat" where "rv64_branch_pos e = enc_pos e - 4"

text \<open>The instruction at a position.\<close>

definition ins_at :: "bytes \<Rightarrow> nat \<Rightarrow> u32" where
  "ins_at b i = ucast (b ! i) OR push_bit 8 (ucast (b ! (i + 1))) OR push_bit 16 (ucast (b ! (i + 2))) OR push_bit 24 (ucast (b ! (i + 3)))"

definition rv64_patch_branch :: "nat \<Rightarrow> nat \<Rightarrow> RV64Enc \<Rightarrow> RV64Enc" where
  "rv64_patch_branch pos target e =
     (if pos + 4 > enc_pos e then e
      else (let offset = of_nat target - of_nat pos :: u32; ins = ins_at (enc_buf e) pos; opcode = ins AND 0x7F in
        if opcode = RV_OP_BRANCH then
          e\<lparr>enc_buf := put_bytes pos (le32 (rv_b_type (ucast offset) (drop_bit 20 ins AND 0x1F) (drop_bit 15 ins AND 0x1F)
              (drop_bit 12 ins AND 0x7) RV_OP_BRANCH)) (enc_buf e)\<rparr>
        else if opcode = RV_OP_JAL then
          e\<lparr>enc_buf := put_bytes pos (le32 (rv_j_type offset (drop_bit 7 ins AND 0x1F) RV_OP_JAL)) (enc_buf e)\<rparr>
        else e))"

end
