(* ===== verification/Rv64_Codegen.thy ===== *)
theory Rv64_Codegen
  imports Rv64
begin

text \<open>
  The interface of the abstract code generator (\<open>jit/jit_codegen.h\<close>), a record of operations on an encoder of any
  type, and its RISC-V instance (\<open>jit/jit_codegen_rv64.c\<close>).
\<close>

section \<open>The interface\<close>

type_synonym CGReg = nat

datatype CGCC = CG_CC_EQ | CG_CC_NE | CG_CC_CS | CG_CC_CC | CG_CC_MI | CG_CC_PL | CG_CC_VS | CG_CC_VC
  | CG_CC_HI | CG_CC_LS | CG_CC_GE | CG_CC_LT | CG_CC_GT | CG_CC_LE | CG_CC_AL

record 'e CodeGenVTable =
  vt_buffer :: "'e \<Rightarrow> bytes"
  vt_pos :: "'e \<Rightarrow> nat"
  vt_emit_byte :: "u8 \<Rightarrow> 'e \<Rightarrow> 'e"
  vt_emit_word32 :: "u32 \<Rightarrow> 'e \<Rightarrow> 'e"
  vt_emit_word64 :: "u64 \<Rightarrow> 'e \<Rightarrow> 'e"
  vt_add_imm :: "CGReg \<Rightarrow> CGReg \<Rightarrow> u32 \<Rightarrow> 'e \<Rightarrow> 'e"
  vt_sub_imm :: "CGReg \<Rightarrow> CGReg \<Rightarrow> u32 \<Rightarrow> 'e \<Rightarrow> 'e"
  vt_add_reg :: "CGReg \<Rightarrow> CGReg \<Rightarrow> CGReg \<Rightarrow> 'e \<Rightarrow> 'e"
  vt_sub_reg :: "CGReg \<Rightarrow> CGReg \<Rightarrow> CGReg \<Rightarrow> 'e \<Rightarrow> 'e"
  vt_mul_reg :: "CGReg \<Rightarrow> CGReg \<Rightarrow> CGReg \<Rightarrow> 'e \<Rightarrow> 'e"
  vt_div_reg :: "CGReg \<Rightarrow> CGReg \<Rightarrow> CGReg \<Rightarrow> 'e \<Rightarrow> 'e"
  vt_mod_reg :: "CGReg \<Rightarrow> CGReg \<Rightarrow> CGReg \<Rightarrow> 'e \<Rightarrow> 'e"
  vt_and_reg :: "CGReg \<Rightarrow> CGReg \<Rightarrow> CGReg \<Rightarrow> 'e \<Rightarrow> 'e"
  vt_orr_reg :: "CGReg \<Rightarrow> CGReg \<Rightarrow> CGReg \<Rightarrow> 'e \<Rightarrow> 'e"
  vt_eor_reg :: "CGReg \<Rightarrow> CGReg \<Rightarrow> CGReg \<Rightarrow> 'e \<Rightarrow> 'e"
  vt_lsl_imm :: "CGReg \<Rightarrow> CGReg \<Rightarrow> u8 \<Rightarrow> 'e \<Rightarrow> 'e"
  vt_lsr_imm :: "CGReg \<Rightarrow> CGReg \<Rightarrow> u8 \<Rightarrow> 'e \<Rightarrow> 'e"
  vt_asr_imm :: "CGReg \<Rightarrow> CGReg \<Rightarrow> u8 \<Rightarrow> 'e \<Rightarrow> 'e"
  vt_mov_imm :: "CGReg \<Rightarrow> u64 \<Rightarrow> 'e \<Rightarrow> 'e"
  vt_mov_reg :: "CGReg \<Rightarrow> CGReg \<Rightarrow> 'e \<Rightarrow> 'e"
  vt_load :: "CGReg \<Rightarrow> CGReg \<Rightarrow> u32 \<Rightarrow> 'e \<Rightarrow> 'e"
  vt_store :: "CGReg \<Rightarrow> CGReg \<Rightarrow> u32 \<Rightarrow> 'e \<Rightarrow> 'e"
  vt_cmp_imm :: "CGReg \<Rightarrow> u32 \<Rightarrow> 'e \<Rightarrow> 'e"
  vt_cmp_reg :: "CGReg \<Rightarrow> CGReg \<Rightarrow> 'e \<Rightarrow> 'e"
  vt_cmp_reg_cc :: "CGReg \<Rightarrow> CGReg \<Rightarrow> CGCC \<Rightarrow> 'e \<Rightarrow> 'e"
  vt_cset :: "CGReg \<Rightarrow> CGCC \<Rightarrow> 'e \<Rightarrow> 'e"
  vt_b_uncond :: "u32 \<Rightarrow> 'e \<Rightarrow> 'e"
  vt_b_cond :: "u32 \<Rightarrow> CGCC \<Rightarrow> 'e \<Rightarrow> 'e"
  vt_b_reg :: "CGReg \<Rightarrow> 'e \<Rightarrow> 'e"
  vt_ret :: "'e \<Rightarrow> 'e"
  vt_branch_pos :: "'e \<Rightarrow> nat"
  vt_patch_branch :: "nat \<Rightarrow> nat \<Rightarrow> 'e \<Rightarrow> 'e"
  vt_push :: "CGReg \<Rightarrow> 'e \<Rightarrow> 'e"
  vt_pop :: "CGReg \<Rightarrow> 'e \<Rightarrow> 'e"
  vt_drop :: "'e \<Rightarrow> 'e"
  vt_prologue :: "int \<Rightarrow> nat \<Rightarrow> 'e \<Rightarrow> 'e"
  vt_epilogue :: "nat \<Rightarrow> 'e \<Rightarrow> 'e"

section \<open>The RISC-V instance\<close>

definition cg_to_rv64 :: "CGReg \<Rightarrow> RV64Reg" where
  "cg_to_rv64 r =
     (if r < 16 then [10, 11, 12, 13, 14, 15, 16, 17, RV_T0, RV_T1, RV_T2, RV_T3, RV_T4, RV_T5, RV_T6, RV_SP] ! r else RV_T0)"

definition rv64_emit_byte :: "u8 \<Rightarrow> RV64Enc \<Rightarrow> RV64Enc" where "rv64_emit_byte b = rv64_emit_word (ucast b)"
definition rv64_emit_word32 :: "u32 \<Rightarrow> RV64Enc \<Rightarrow> RV64Enc" where "rv64_emit_word32 w = rv64_emit_word w"
definition rv64_emit_word64 :: "u64 \<Rightarrow> RV64Enc \<Rightarrow> RV64Enc" where
  "rv64_emit_word64 q e = rv64_emit_word (ucast (drop_bit 32 q)) (rv64_emit_word (ucast q) e)"

definition rv64_add_imm :: "CGReg \<Rightarrow> CGReg \<Rightarrow> u32 \<Rightarrow> RV64Enc \<Rightarrow> RV64Enc" where
  "rv64_add_imm rd rn imm e =
     (if imm \<le> 0xFFF then rv64_addi (cg_to_rv64 rd) (cg_to_rv64 rn) (ucast imm) e
      else rv64_add (cg_to_rv64 rd) (cg_to_rv64 rn) RV_T6 (rv64_li RV_T6 (ucast imm) e))"

definition rv64_sub_imm :: "CGReg \<Rightarrow> CGReg \<Rightarrow> u32 \<Rightarrow> RV64Enc \<Rightarrow> RV64Enc" where
  "rv64_sub_imm rd rn imm e =
     (if imm \<le> 0x1000 then rv64_addi (cg_to_rv64 rd) (cg_to_rv64 rn) (ucast (- imm)) e
      else rv64_sub (cg_to_rv64 rd) (cg_to_rv64 rn) RV_T6 (rv64_li RV_T6 (ucast imm) e))"

definition rv64_reg3 :: "(RV64Reg \<Rightarrow> RV64Reg \<Rightarrow> RV64Reg \<Rightarrow> RV64Enc \<Rightarrow> RV64Enc) \<Rightarrow> CGReg \<Rightarrow> CGReg \<Rightarrow> CGReg \<Rightarrow> RV64Enc \<Rightarrow> RV64Enc" where
  "rv64_reg3 f rd rn rm = f (cg_to_rv64 rd) (cg_to_rv64 rn) (cg_to_rv64 rm)"

definition rv64_lsl_imm :: "CGReg \<Rightarrow> CGReg \<Rightarrow> u8 \<Rightarrow> RV64Enc \<Rightarrow> RV64Enc" where
  "rv64_lsl_imm rd rn s = rv64_slli (cg_to_rv64 rd) (cg_to_rv64 rn) s"
definition rv64_lsr_imm :: "CGReg \<Rightarrow> CGReg \<Rightarrow> u8 \<Rightarrow> RV64Enc \<Rightarrow> RV64Enc" where
  "rv64_lsr_imm rd rn s = rv64_srli (cg_to_rv64 rd) (cg_to_rv64 rn) s"
definition rv64_asr_imm :: "CGReg \<Rightarrow> CGReg \<Rightarrow> u8 \<Rightarrow> RV64Enc \<Rightarrow> RV64Enc" where
  "rv64_asr_imm rd rn s = rv64_srai (cg_to_rv64 rd) (cg_to_rv64 rn) s"
definition rv64_mov_imm :: "CGReg \<Rightarrow> u64 \<Rightarrow> RV64Enc \<Rightarrow> RV64Enc" where
  "rv64_mov_imm rd imm = rv64_li (cg_to_rv64 rd) imm"
definition rv64_mov_reg :: "CGReg \<Rightarrow> CGReg \<Rightarrow> RV64Enc \<Rightarrow> RV64Enc" where
  "rv64_mov_reg rd rn = rv64_mv (cg_to_rv64 rd) (cg_to_rv64 rn)"
definition rv64_load :: "CGReg \<Rightarrow> CGReg \<Rightarrow> u32 \<Rightarrow> RV64Enc \<Rightarrow> RV64Enc" where
  "rv64_load rt base off = rv64_ld (cg_to_rv64 rt) (cg_to_rv64 base) (ucast off)"
definition rv64_store :: "CGReg \<Rightarrow> CGReg \<Rightarrow> u32 \<Rightarrow> RV64Enc \<Rightarrow> RV64Enc" where
  "rv64_store rt base off = rv64_sd (cg_to_rv64 rt) (cg_to_rv64 base) (ucast off)"

definition rv64_cmp_imm :: "CGReg \<Rightarrow> u32 \<Rightarrow> RV64Enc \<Rightarrow> RV64Enc" where
  "rv64_cmp_imm rn imm e = rv64_sub RV_T6 (cg_to_rv64 rn) RV_T6 (rv64_li RV_T6 (ucast imm) e)"
definition rv64_cmp_reg :: "CGReg \<Rightarrow> CGReg \<Rightarrow> RV64Enc \<Rightarrow> RV64Enc" where
  "rv64_cmp_reg rn rm = rv64_sub RV_T6 (cg_to_rv64 rn) (cg_to_rv64 rm)"

definition rv64_cset :: "CGReg \<Rightarrow> CGCC \<Rightarrow> RV64Enc \<Rightarrow> RV64Enc" where
  "rv64_cset rd cc e =
     (case cc of
        CG_CC_NE \<Rightarrow> rv64_sltiu (cg_to_rv64 rd) RV_T6 1 e
      | CG_CC_EQ \<Rightarrow> rv64_addi (cg_to_rv64 rd) RV_T6 0 (rv64_sltiu RV_T6 RV_T6 1 e)
      | CG_CC_LT \<Rightarrow> rv64_slt (cg_to_rv64 rd) RV_T6 RV_X0 e
      | CG_CC_GE \<Rightarrow> rv64_xori (cg_to_rv64 rd) RV_T6 1 (rv64_slt RV_T6 RV_T6 RV_X0 e)
      | _ \<Rightarrow> rv64_addi (cg_to_rv64 rd) RV_X0 0 e)"

definition rv64_cmp_reg_cc :: "CGReg \<Rightarrow> CGReg \<Rightarrow> CGCC \<Rightarrow> RV64Enc \<Rightarrow> RV64Enc" where
  "rv64_cmp_reg_cc rn rm cc e = rv64_cset rn cc (rv64_cmp_reg rn rm e)"

definition rv64_b_uncond :: "u32 \<Rightarrow> RV64Enc \<Rightarrow> RV64Enc" where "rv64_b_uncond off = rv64_jal RV_X0 off"
definition rv64_b_cond :: "u32 \<Rightarrow> CGCC \<Rightarrow> RV64Enc \<Rightarrow> RV64Enc" where
  "rv64_b_cond offset cc = (case cc of CG_CC_NE \<Rightarrow> rv64_bne RV_T6 RV_X0 0 | _ \<Rightarrow> rv64_beq RV_T6 RV_X0 0)"
definition rv64_b_reg :: "CGReg \<Rightarrow> RV64Enc \<Rightarrow> RV64Enc" where "rv64_b_reg rn = rv64_jalr RV_X0 (cg_to_rv64 rn) 0"

definition rv64_push :: "CGReg \<Rightarrow> RV64Enc \<Rightarrow> RV64Enc" where
  "rv64_push rt e = rv64_sd (cg_to_rv64 rt) RV_SP 0 (rv64_addi RV_SP RV_SP (- 8) e)"
definition rv64_pop :: "CGReg \<Rightarrow> RV64Enc \<Rightarrow> RV64Enc" where
  "rv64_pop rt e = rv64_addi RV_SP RV_SP 8 (rv64_ld (cg_to_rv64 rt) RV_SP 0 e)"

definition frame_bytes :: "nat \<Rightarrow> nat" where "frame_bytes stack_slots = (stack_slots * 8 + 15) div 16 * 16"

definition rv64_prologue :: "int \<Rightarrow> nat \<Rightarrow> RV64Enc \<Rightarrow> RV64Enc" where
  "rv64_prologue n_args stack_slots e =
     (if stack_slots > 0 then rv64_addi RV_SP RV_SP (- of_nat (frame_bytes stack_slots)) e else e)"
definition rv64_epilogue :: "nat \<Rightarrow> RV64Enc \<Rightarrow> RV64Enc" where
  "rv64_epilogue stack_slots e =
     rv64_ret (if stack_slots > 0 then rv64_addi RV_SP RV_SP (of_nat (frame_bytes stack_slots)) e else e)"

definition rv64_vtable :: "RV64Enc CodeGenVTable" where
  "rv64_vtable = \<lparr>vt_buffer = enc_buf, vt_pos = enc_pos, vt_emit_byte = rv64_emit_byte, vt_emit_word32 = rv64_emit_word32,
     vt_emit_word64 = rv64_emit_word64, vt_add_imm = rv64_add_imm, vt_sub_imm = rv64_sub_imm,
     vt_add_reg = rv64_reg3 rv64_add, vt_sub_reg = rv64_reg3 rv64_sub, vt_mul_reg = rv64_reg3 rv64_mul,
     vt_div_reg = rv64_reg3 rv64_div, vt_mod_reg = rv64_reg3 rv64_rem, vt_and_reg = rv64_reg3 rv64_and,
     vt_orr_reg = rv64_reg3 rv64_or, vt_eor_reg = rv64_reg3 rv64_xor, vt_lsl_imm = rv64_lsl_imm, vt_lsr_imm = rv64_lsr_imm,
     vt_asr_imm = rv64_asr_imm, vt_mov_imm = rv64_mov_imm, vt_mov_reg = rv64_mov_reg, vt_load = rv64_load, vt_store = rv64_store,
     vt_cmp_imm = rv64_cmp_imm, vt_cmp_reg = rv64_cmp_reg, vt_cmp_reg_cc = rv64_cmp_reg_cc, vt_cset = rv64_cset,
     vt_b_uncond = rv64_b_uncond, vt_b_cond = rv64_b_cond, vt_b_reg = rv64_b_reg, vt_ret = rv64_ret,
     vt_branch_pos = rv64_branch_pos, vt_patch_branch = rv64_patch_branch, vt_push = rv64_push, vt_pop = rv64_pop,
     vt_drop = (\<lambda>e. e), vt_prologue = rv64_prologue, vt_epilogue = rv64_epilogue\<rparr>"

definition cg_create_rv64 :: "(nat \<Rightarrow> bytes option) \<Rightarrow> RV64Enc" where
  "cg_create_rv64 malloc = rv64_enc_init_dynamic malloc 4096"

end
