(* ===== verification/Minic_Compile.thy ===== *)
theory Minic_Compile
  imports Minic_Const Rv64_Codegen
begin

text \<open>
  The Mini-C compiler (\<open>jit/jit_minic_cg.c\<close>) for register machines, over the interface of a code generator. The
  structured code for WebAssembly is not modelled. The recursion has fuel: \<open>None\<close> means that it ran out, that the
  evaluation of a constant traps, or that a variable is stored outside the table.
\<close>

section \<open>State\<close>

definition CG_MAX_VARS :: nat where "CG_MAX_VARS = 32"
definition CG_MAX_ARGS :: nat where "CG_MAX_ARGS = 6"

record 'e CGCompiler =
  cc_enc :: 'e
  cc_lex :: lexer
  cc_vars :: "(string \<times> CGReg) list"
  cc_n_args :: nat
  stack_slots :: nat

definition emit :: "('e \<Rightarrow> 'e) \<Rightarrow> 'e CGCompiler \<Rightarrow> 'e CGCompiler" where "emit f cc = cc\<lparr>cc_enc := f (cc_enc cc)\<rparr>"

abbreviation cg_cur :: "'e CGCompiler \<Rightarrow> CGTokType" where "cg_cur cc \<equiv> cur (cc_lex cc)"

definition next_tok :: "'e CGCompiler \<Rightarrow> 'e CGCompiler" where "next_tok cc = cc\<lparr>cc_lex := advance (cc_lex cc)\<rparr>"

definition cg_consume :: "CGTokType \<Rightarrow> 'e CGCompiler \<Rightarrow> 'e CGCompiler" where
  "cg_consume t cc = (if cg_cur cc = t then next_tok cc else cc)"

definition cg_find_var :: "'e CGCompiler \<Rightarrow> string \<Rightarrow> CGReg option" where "cg_find_var cc name = map_of (cc_vars cc) name"

definition cg_add_var :: "string \<Rightarrow> bool \<Rightarrow> 'e CGCompiler \<Rightarrow> (CGReg \<times> 'e CGCompiler) option" where
  "cg_add_var name is_arg cc =
     (if length (cc_vars cc) \<ge> CG_MAX_VARS \<or> is_arg \<and> cc_n_args cc \<ge> CG_MAX_ARGS then None
      else (let r = (if is_arg then cc_n_args cc + 1 else min (7 + stack_slots cc) 15);
                cc1 = (if is_arg then cc\<lparr>cc_n_args := cc_n_args cc + 1\<rparr> else cc\<lparr>stack_slots := stack_slots cc + 1\<rparr>)
            in Some (r, cc1\<lparr>cc_vars := cc_vars cc @ [(take 31 name, r)]\<rparr>)))"

section \<open>Expressions\<close>

definition is_power_of_2 :: "u64 \<Rightarrow> bool" where "is_power_of_2 v \<longleftrightarrow> 0 <s v \<and> v AND (v - 1) = 0"

fun halvings :: "nat \<Rightarrow> nat" where "halvings n = (if n > 1 then halvings (n div 2) + 1 else 0)"
declare halvings.simps [simp del]

definition ilog2 :: "u64 \<Rightarrow> nat" where "ilog2 v = (if 1 <s v then halvings (unat v) else 0)"

text \<open>A primary gives whether it is a constant, which one, and the state.\<close>

type_synonym 'e primary = "CGReg \<Rightarrow> 'e CGCompiler \<Rightarrow> ((bool \<times> u64) \<times> 'e CGCompiler) option"
type_synonym 'e compile = "CGReg \<Rightarrow> 'e CGCompiler \<Rightarrow> 'e CGCompiler option"

definition mul_by :: "'e CodeGenVTable \<Rightarrow> bool \<times> u64 \<Rightarrow> CGReg \<Rightarrow> 'e CGCompiler \<Rightarrow> 'e CGCompiler" where
  "mul_by vt k dst cc =
     (if fst k \<and> is_power_of_2 (snd k) then emit (vt_lsl_imm vt dst dst (of_nat (ilog2 (snd k)))) (emit (vt_drop vt) cc)
      else if fst k \<and> snd k = 0 then emit (vt_mov_imm vt dst 0) (emit (vt_drop vt) cc)
      else if fst k \<and> snd k = 1 then emit (vt_drop vt) cc
      else if dst = 15 then emit (vt_mul_reg vt dst 14 15) (emit (vt_mov_reg vt 14 dst) cc)
      else emit (vt_mul_reg vt dst dst 15) cc)"

definition div_by :: "'e CodeGenVTable \<Rightarrow> bool \<times> u64 \<Rightarrow> CGReg \<Rightarrow> 'e CGCompiler \<Rightarrow> 'e CGCompiler" where
  "div_by vt k dst cc =
     (if fst k \<and> is_power_of_2 (snd k) then emit (vt_asr_imm vt dst dst (of_nat (ilog2 (snd k)))) (emit (vt_drop vt) cc)
      else if fst k \<and> snd k = 1 then emit (vt_drop vt) cc
      else emit (vt_div_reg vt dst dst 15) cc)"

definition mod_by :: "'e CodeGenVTable \<Rightarrow> bool \<times> u64 \<Rightarrow> CGReg \<Rightarrow> 'e CGCompiler \<Rightarrow> 'e CGCompiler" where
  "mod_by vt k dst cc =
     (if fst k \<and> is_power_of_2 (snd k) then emit (vt_and_reg vt dst dst 9) (emit (vt_mov_imm vt 9 (snd k - 1)) (emit (vt_drop vt) cc))
      else emit (vt_mod_reg vt dst dst 15) cc)"

fun mul_loop :: "'e CodeGenVTable \<Rightarrow> nat \<Rightarrow> 'e primary \<Rightarrow> 'e compile" where
  "mul_loop vt 0 P dst cc = None"
| "mul_loop vt (Suc n) P dst cc =
     (let step = (\<lambda>f. case P 15 (next_tok cc) of None \<Rightarrow> None | Some (k, cc1) \<Rightarrow> mul_loop vt n P dst (f vt k dst cc1)) in
      if cg_cur cc = TOK_STAR then step mul_by
      else if cg_cur cc = TOK_SLASH then step div_by
      else if cg_cur cc = TOK_PERCENT then step mod_by
      else Some cc)"

definition cg_compile_multiplicative :: "'e CodeGenVTable \<Rightarrow> nat \<Rightarrow> 'e primary \<Rightarrow> 'e compile" where
  "cg_compile_multiplicative vt n P dst cc = (case P dst cc of None \<Rightarrow> None | Some (_, cc1) \<Rightarrow> mul_loop vt n P dst cc1)"

text \<open>A level whose operators act on two registers.\<close>

fun reg_loop :: "(CGTokType \<Rightarrow> (CGReg \<Rightarrow> CGReg \<Rightarrow> CGReg \<Rightarrow> 'e \<Rightarrow> 'e) option) \<Rightarrow> nat \<Rightarrow> 'e compile \<Rightarrow> 'e compile" where
  "reg_loop ops 0 Q dst cc = None"
| "reg_loop ops (Suc n) Q dst cc =
     (case ops (cg_cur cc) of
        None \<Rightarrow> Some cc
      | Some f \<Rightarrow> (case Q 15 (next_tok cc) of None \<Rightarrow> None | Some cc1 \<Rightarrow> reg_loop ops n Q dst (emit (f dst dst 15) cc1)))"

definition cg_compile_additive :: "'e CodeGenVTable \<Rightarrow> nat \<Rightarrow> 'e primary \<Rightarrow> 'e compile" where
  "cg_compile_additive vt n P dst cc =
     (case cg_compile_multiplicative vt n P dst cc of
        None \<Rightarrow> None
      | Some cc1 \<Rightarrow> reg_loop (\<lambda>t. case t of TOK_PLUS \<Rightarrow> Some (vt_add_reg vt) | TOK_MINUS \<Rightarrow> Some (vt_sub_reg vt) | _ \<Rightarrow> None) n
          (cg_compile_multiplicative vt n P) dst cc1)"

definition cg_compile_bitwise :: "'e CodeGenVTable \<Rightarrow> nat \<Rightarrow> 'e primary \<Rightarrow> 'e compile" where
  "cg_compile_bitwise vt n P dst cc =
     (case cg_compile_additive vt n P dst cc of
        None \<Rightarrow> None
      | Some cc1 \<Rightarrow> reg_loop (\<lambda>t. case t of TOK_AMP \<Rightarrow> Some (vt_and_reg vt) | TOK_PIPE \<Rightarrow> Some (vt_orr_reg vt) | TOK_CARET \<Rightarrow> Some (vt_eor_reg vt)
            | _ \<Rightarrow> None) n (cg_compile_additive vt n P) dst cc1)"

fun shift_loop :: "'e CodeGenVTable \<Rightarrow> nat \<Rightarrow> 'e compile" where
  "shift_loop vt 0 dst cc = None"
| "shift_loop vt (Suc n) dst cc =
     (let step = (\<lambda>f. let cc1 = next_tok cc in
        if cg_cur cc1 = TOK_NUMBER then
          (let s = ucast (tok_ival (snd (cc_lex cc1)) AND 63) :: u8 in shift_loop vt n dst (emit (f dst dst s) (next_tok cc1)))
        else shift_loop vt n dst cc1)
      in if cg_cur cc = TOK_SHL then step (vt_lsl_imm vt) else if cg_cur cc = TOK_SHR then step (vt_asr_imm vt) else Some cc)"

definition cg_compile_shift :: "'e CodeGenVTable \<Rightarrow> nat \<Rightarrow> 'e primary \<Rightarrow> 'e compile" where
  "cg_compile_shift vt n P dst cc =
     (case cg_compile_bitwise vt n P dst cc of None \<Rightarrow> None | Some cc1 \<Rightarrow> shift_loop vt n dst cc1)"

definition compare_cc :: "CGTokType \<Rightarrow> CGCC option" where
  "compare_cc t = (case t of TOK_EQ \<Rightarrow> Some CG_CC_EQ | TOK_NE \<Rightarrow> Some CG_CC_NE | TOK_LE \<Rightarrow> Some CG_CC_LE | TOK_GE \<Rightarrow> Some CG_CC_GE
     | TOK_LT \<Rightarrow> Some CG_CC_LT | TOK_GT \<Rightarrow> Some CG_CC_GT | _ \<Rightarrow> None)"

definition cg_compile_compare :: "'e CodeGenVTable \<Rightarrow> nat \<Rightarrow> 'e primary \<Rightarrow> 'e compile" where
  "cg_compile_compare vt n P dst cc =
     (case cg_compile_shift vt n P dst cc of
        None \<Rightarrow> None
      | Some cc1 \<Rightarrow> (case compare_cc (cg_cur cc1) of
            None \<Rightarrow> Some cc1
          | Some c \<Rightarrow> (case cg_compile_shift vt n P 15 (next_tok cc1) of
                None \<Rightarrow> None | Some cc2 \<Rightarrow> Some (emit (vt_cmp_reg_cc vt dst 15 c) cc2))))"

definition compile_expr_with :: "'e CodeGenVTable \<Rightarrow> nat \<Rightarrow> 'e primary \<Rightarrow> 'e compile" where
  "compile_expr_with vt n P dst cc =
     (case cg_const_eval n (cc_lex cc) of
        None \<Rightarrow> None
      | Some (Some v, l) \<Rightarrow> Some (emit (vt_mov_imm vt dst v) (cc\<lparr>cc_lex := l\<rparr>))
      | Some (None, l) \<Rightarrow> cg_compile_compare vt n P dst (cc\<lparr>cc_lex := l\<rparr>))"

text \<open>The value of a variable. The name is read where the identifier was, after the next token has been read there.\<close>

definition load_var :: "'e CodeGenVTable \<Rightarrow> CGReg \<Rightarrow> 'e CGCompiler \<Rightarrow> 'e CGCompiler option" where
  "load_var vt dst cc =
     (let cc1 = next_tok cc; name = tok_text (snd (cc_lex cc1)) in
      case cg_find_var cc1 name of
        Some r \<Rightarrow> Some (if r \<noteq> dst then emit (vt_mov_reg vt dst r) cc1 else cc1)
      | None \<Rightarrow>
          if name \<in> {''a'', ''b'', ''c'', ''d'', ''e'', ''f''} then
            (case cg_add_var name True cc1 of
               None \<Rightarrow> None | Some (r, cc2) \<Rightarrow> Some (if r \<noteq> dst then emit (vt_mov_reg vt dst r) cc2 else cc2))
          else Some (emit (vt_mov_imm vt dst 0) cc1))"

fun cg_compile_primary :: "'e CodeGenVTable \<Rightarrow> nat \<Rightarrow> 'e primary" where
  "cg_compile_primary vt 0 dst cc = None"
| "cg_compile_primary vt (Suc n) dst cc =
     (let l = cc_lex cc in
      if cur l = TOK_LPAREN then
        (case compile_expr_with vt n (cg_compile_primary vt n) dst (next_tok cc) of
           None \<Rightarrow> None | Some cc1 \<Rightarrow> Some ((False, 0), cg_consume TOK_RPAREN cc1))
      else if cur l = TOK_NUMBER \<or> cur l = TOK_HEX then
        Some ((True, tok_ival (snd l)), next_tok (emit (vt_mov_imm vt dst (tok_ival (snd l))) cc))
      else if cur l = TOK_MINUS then
        (case cg_compile_primary vt n dst (next_tok cc) of
           None \<Rightarrow> None
         | Some ((True, v), cc1) \<Rightarrow> Some ((True, - v), emit (vt_sub_reg vt dst 9 dst) (emit (vt_mov_imm vt 9 0) cc1))
         | Some ((False, _), cc1) \<Rightarrow> Some ((False, 0), emit (vt_mov_imm vt dst 0) cc1))
      else if cur l = TOK_TILDE then
        (case cg_compile_primary vt n dst (next_tok cc) of
           None \<Rightarrow> None
         | Some ((True, v), cc1) \<Rightarrow> Some ((True, NOT v), emit (vt_eor_reg vt dst dst 9) (emit (vt_mov_imm vt 9 (- 1)) cc1))
         | Some ((False, _), cc1) \<Rightarrow> Some ((False, 0), emit (vt_mov_imm vt dst 0) cc1))
      else if cur l = TOK_IDENT then map_option (\<lambda>cc1. ((False, 0), cc1)) (load_var vt dst cc)
      else Some ((False, 0), emit (vt_mov_imm vt dst 0) cc))"

definition cg_compile_expr :: "'e CodeGenVTable \<Rightarrow> nat \<Rightarrow> 'e compile" where
  "cg_compile_expr vt n = compile_expr_with vt n (cg_compile_primary vt n)"

section \<open>Statements\<close>

definition cg_compile_return_stmt :: "'e CodeGenVTable \<Rightarrow> nat \<Rightarrow> 'e CGCompiler \<Rightarrow> 'e CGCompiler option" where
  "cg_compile_return_stmt vt n cc = cg_compile_expr vt n 0 (cg_consume TOK_RETURN cc)"

fun skip_long :: "nat \<Rightarrow> 'e CGCompiler \<Rightarrow> 'e CGCompiler option" where
  "skip_long 0 cc = None"
| "skip_long (Suc n) cc = (if cg_cur cc = TOK_LONG then skip_long n (next_tok cc) else Some cc)"

definition cg_compile_decl_stmt :: "'e CodeGenVTable \<Rightarrow> nat \<Rightarrow> 'e CGCompiler \<Rightarrow> 'e CGCompiler option" where
  "cg_compile_decl_stmt vt n cc =
     (case skip_long n cc of
        None \<Rightarrow> None
      | Some cc1 \<Rightarrow>
          if cg_cur cc1 \<noteq> TOK_IDENT then Some cc1
          else (let name = take 31 (tok_text (snd (cc_lex cc1))) in
            case cg_add_var name False (next_tok cc1) of
              None \<Rightarrow> None
            | Some (r, cc2) \<Rightarrow> if cg_cur cc2 = TOK_ASSIGN then cg_compile_expr vt n r (next_tok cc2) else Some cc2))"

definition cg_compile_assign_stmt :: "'e CodeGenVTable \<Rightarrow> nat \<Rightarrow> 'e CGCompiler \<Rightarrow> 'e CGCompiler option" where
  "cg_compile_assign_stmt vt n cc =
     (if cg_cur cc \<noteq> TOK_IDENT then Some cc
      else (let name = take 31 (tok_text (snd (cc_lex cc)));
                cc1 = cg_consume TOK_ASSIGN (next_tok cc);
                r = (case cg_find_var cc1 name of None \<Rightarrow> 9 | Some r \<Rightarrow> r)
            in cg_compile_expr vt n r cc1))"

text \<open>A statement, a condition with its branches, a loop, and the statements of a block.\<close>

fun cg_compile_stmt :: "'e CodeGenVTable \<Rightarrow> nat \<Rightarrow> 'e CGCompiler \<Rightarrow> 'e CGCompiler option"
  and cg_compile_if_stmt :: "'e CodeGenVTable \<Rightarrow> nat \<Rightarrow> 'e CGCompiler \<Rightarrow> 'e CGCompiler option"
  and cg_compile_while_stmt :: "'e CodeGenVTable \<Rightarrow> nat \<Rightarrow> 'e CGCompiler \<Rightarrow> 'e CGCompiler option"
  and compile_body :: "'e CodeGenVTable \<Rightarrow> nat \<Rightarrow> 'e CGCompiler \<Rightarrow> 'e CGCompiler option"
  and block_loop :: "'e CodeGenVTable \<Rightarrow> nat \<Rightarrow> 'e CGCompiler \<Rightarrow> 'e CGCompiler option"
where
  "cg_compile_stmt vt 0 cc = None"
| "cg_compile_stmt vt (Suc n) cc =
     (if cg_cur cc = TOK_RETURN then map_option (cg_consume TOK_SEMI) (cg_compile_return_stmt vt n cc)
      else if cg_cur cc = TOK_IF then cg_compile_if_stmt vt n cc
      else if cg_cur cc = TOK_WHILE then cg_compile_while_stmt vt n cc
      else if cg_cur cc = TOK_LONG then map_option (cg_consume TOK_SEMI) (cg_compile_decl_stmt vt n cc)
      else if cg_cur cc = TOK_IDENT then
        map_option (cg_consume TOK_SEMI)
          (if cg_cur (next_tok cc) = TOK_ASSIGN then cg_compile_assign_stmt vt n cc else cg_compile_expr vt n 9 cc)
      else map_option (cg_consume TOK_SEMI) (cg_compile_expr vt n 9 cc))"
| "cg_compile_if_stmt vt 0 cc = None"
| "cg_compile_if_stmt vt (Suc n) cc =
     (case cg_compile_expr vt n 0 (cg_consume TOK_LPAREN (cg_consume TOK_IF cc)) of
        None \<Rightarrow> None
      | Some cc1 \<Rightarrow>
          (let cc2 = emit (vt_b_cond vt 0 CG_CC_EQ) (emit (vt_cmp_imm vt 0 0) (cg_consume TOK_RPAREN cc1));
               else_patch = vt_branch_pos vt (cc_enc cc2)
           in case compile_body vt n cc2 of
                None \<Rightarrow> None
              | Some cc3 \<Rightarrow>
                  if cg_cur cc3 = TOK_ELSE then
                    (let cc4 = emit (vt_b_uncond vt 0) (next_tok cc3); end_patch = vt_branch_pos vt (cc_enc cc4);
                         cc5 = emit (vt_patch_branch vt else_patch (vt_pos vt (cc_enc cc4))) cc4
                     in case compile_body vt n cc5 of
                          None \<Rightarrow> None
                        | Some cc6 \<Rightarrow> Some (emit (vt_patch_branch vt end_patch (vt_pos vt (cc_enc cc6))) cc6))
                  else Some (emit (vt_patch_branch vt else_patch (vt_pos vt (cc_enc cc3))) cc3)))"
| "cg_compile_while_stmt vt 0 cc = None"
| "cg_compile_while_stmt vt (Suc n) cc =
     (let cc0 = cg_consume TOK_LPAREN (cg_consume TOK_WHILE cc); loop_top = vt_pos vt (cc_enc cc0) in
      case cg_compile_expr vt n 0 cc0 of
        None \<Rightarrow> None
      | Some cc1 \<Rightarrow>
          (let cc2 = emit (vt_b_cond vt 0 CG_CC_EQ) (emit (vt_cmp_imm vt 0 0) (cg_consume TOK_RPAREN cc1));
               exit_patch = vt_branch_pos vt (cc_enc cc2)
           in case compile_body vt n cc2 of
                None \<Rightarrow> None
              | Some cc3 \<Rightarrow>
                  (let cc4 = emit (vt_b_uncond vt 0) cc3; back_patch = vt_branch_pos vt (cc_enc cc4);
                       cc5 = emit (vt_patch_branch vt back_patch loop_top) cc4
                   in Some (emit (vt_patch_branch vt exit_patch (vt_pos vt (cc_enc cc5))) cc5))))"
| "compile_body vt 0 cc = None"
| "compile_body vt (Suc n) cc =
     (if cg_cur cc = TOK_LBRACE then map_option (cg_consume TOK_RBRACE) (block_loop vt n (next_tok cc))
      else cg_compile_stmt vt n cc)"
| "block_loop vt 0 cc = None"
| "block_loop vt (Suc n) cc =
     (if cg_cur cc \<noteq> TOK_RBRACE \<and> cg_cur cc \<noteq> TOK_EOF
      then (case cg_compile_stmt vt n cc of None \<Rightarrow> None | Some cc1 \<Rightarrow> block_loop vt n cc1)
      else Some cc)"

fun stmt_loop :: "'e CodeGenVTable \<Rightarrow> nat \<Rightarrow> 'e CGCompiler \<Rightarrow> 'e CGCompiler option" where
  "stmt_loop vt 0 cc = None"
| "stmt_loop vt (Suc n) cc =
     (if cg_cur cc \<noteq> TOK_EOF then (case cg_compile_stmt vt n cc of None \<Rightarrow> None | Some cc1 \<Rightarrow> stmt_loop vt n cc1) else Some cc)"

definition blank_token :: CGToken where "blank_token = \<lparr>tok_type = TOK_EOF, tok_text = '''', tok_ival = 0\<rparr>"

definition jit_minic_compile_cg :: "'e CodeGenVTable \<Rightarrow> nat \<Rightarrow> 'e \<Rightarrow> string \<Rightarrow> 'e option" where
  "jit_minic_compile_cg vt n enc src =
     (let cc = \<lparr>cc_enc = vt_prologue vt 0 8 enc, cc_lex = cg_next_token src blank_token, cc_vars = [], cc_n_args = 0, stack_slots = 0\<rparr> in
      case stmt_loop vt n cc of None \<Rightarrow> None | Some cc1 \<Rightarrow> Some (vt_epilogue vt 8 (cc_enc cc1)))"

definition jit_minic_get_code :: "'e CodeGenVTable \<Rightarrow> 'e \<Rightarrow> bytes" where
  "jit_minic_get_code vt enc = take (vt_pos vt enc) (vt_buffer vt enc)"

end
