(* ===== verification/C_Expr.thy ===== *)
theory C_Expr
  imports Prelude "HOL-Library.Signed_Division"
begin

text \<open>
  Constant expressions of C over a 64-bit \<open>long\<close>, independently of the compiler: the operators with the precedence
  of the C grammar, the trees the grammar gives, their text, and their value where C defines one.
\<close>

section \<open>Syntax\<close>

datatype c_op = C_Mul | C_Div | C_Mod | C_Add | C_Sub | C_Shl | C_Shr | C_Lt | C_Gt | C_Le | C_Ge | C_Eq | C_Ne
  | C_And | C_Xor | C_Or

datatype c_exp = C_Num nat | C_Par c_exp | C_Neg c_exp | C_Not c_exp | C_Bin c_op c_exp c_exp

text \<open>The binary levels of the C grammar from the one that binds most: multiplicative, additive, shift, relational,
  equality, AND, exclusive OR, inclusive OR.\<close>

fun c_prec :: "c_op \<Rightarrow> nat" where
  "c_prec C_Mul = 1" | "c_prec C_Div = 1" | "c_prec C_Mod = 1"
| "c_prec C_Add = 2" | "c_prec C_Sub = 2"
| "c_prec C_Shl = 3" | "c_prec C_Shr = 3"
| "c_prec C_Lt = 4" | "c_prec C_Gt = 4" | "c_prec C_Le = 4" | "c_prec C_Ge = 4"
| "c_prec C_Eq = 5" | "c_prec C_Ne = 5"
| "c_prec C_And = 6" | "c_prec C_Xor = 7" | "c_prec C_Or = 8"

fun c_level :: "c_exp \<Rightarrow> nat" where
  "c_level (C_Bin f a b) = c_prec f"
| "c_level _ = 0"

text \<open>The text, in decimal and without blanks.\<close>

fun decimal :: "nat \<Rightarrow> string" where
  "decimal n = (if n < 10 then [char_of (48 + n)] else decimal (n div 10) @ [char_of (48 + n mod 10)])"
declare decimal.simps [simp del]

fun c_op_text :: "c_op \<Rightarrow> string" where
  "c_op_text C_Mul = ''*''" | "c_op_text C_Div = ''/''" | "c_op_text C_Mod = ''%''"
| "c_op_text C_Add = ''+''" | "c_op_text C_Sub = ''-''"
| "c_op_text C_Shl = ''<<''" | "c_op_text C_Shr = ''>>''"
| "c_op_text C_Lt = ''<''" | "c_op_text C_Gt = ''>''" | "c_op_text C_Le = ''<=''" | "c_op_text C_Ge = ''>=''"
| "c_op_text C_Eq = ''==''" | "c_op_text C_Ne = ''!=''"
| "c_op_text C_And = ''&''" | "c_op_text C_Xor = ''^''" | "c_op_text C_Or = ''|''"

fun c_text :: "c_exp \<Rightarrow> string" where
  "c_text (C_Num n) = decimal n"
| "c_text (C_Par e) = ''('' @ c_text e @ '')''"
| "c_text (C_Neg e) = ''-'' @ c_text e"
| "c_text (C_Not e) = ''~'' @ c_text e"
| "c_text (C_Bin f a b) = c_text a @ c_op_text f @ c_text b"

text \<open>The trees of the C grammar: binary operators group to the left, an operand of lower precedence is in
  parentheses, the operand of a sign is primary or has a sign. Two adjacent minus signs would be the decrement
  operator, so they do not occur.\<close>

fun minus_first :: "c_exp \<Rightarrow> bool" where
  "minus_first (C_Neg e) = True"
| "minus_first (C_Bin f a b) = minus_first a"
| "minus_first _ = False"

fun c_tree :: "c_exp \<Rightarrow> bool" where
  "c_tree (C_Num n) \<longleftrightarrow> True"
| "c_tree (C_Par e) \<longleftrightarrow> c_tree e"
| "c_tree (C_Neg e) \<longleftrightarrow> c_tree e \<and> c_level e = 0 \<and> \<not> minus_first e"
| "c_tree (C_Not e) \<longleftrightarrow> c_tree e \<and> c_level e = 0"
| "c_tree (C_Bin f a b) \<longleftrightarrow> c_tree a \<and> c_tree b \<and> c_level a \<le> c_prec f \<and> c_level b < c_prec f \<and>
     (f = C_Sub \<longrightarrow> \<not> minus_first b)"

text \<open>Expressions that parenthesise the operands on which C and the compiler may disagree: an operand of a comparison
  that is a comparison or a bitwise expression, and an operand of \<open>&\<close>, \<open>^\<close> or \<open>|\<close> that is a comparison or another
  of the three.\<close>

fun plain :: "c_exp \<Rightarrow> bool" where
  "plain (C_Num n) \<longleftrightarrow> True"
| "plain (C_Par e) \<longleftrightarrow> plain e"
| "plain (C_Neg e) \<longleftrightarrow> plain e"
| "plain (C_Not e) \<longleftrightarrow> plain e"
| "plain (C_Bin f a b) \<longleftrightarrow> plain a \<and> plain b \<and>
     (4 \<le> c_prec f \<longrightarrow> c_level b < 4 \<and> (c_level a < 4 \<or> 6 \<le> c_prec f \<and> c_level a = c_prec f))"

fun c_size :: "c_exp \<Rightarrow> nat" where
  "c_size (C_Num n) = 1"
| "c_size (C_Par e) = c_size e + 1"
| "c_size (C_Neg e) = c_size e + 1"
| "c_size (C_Not e) = c_size e + 1"
| "c_size (C_Bin f a b) = c_size a + c_size b + 1"

section \<open>Values\<close>

text \<open>A \<open>long\<close> has 64 bits; a result that does not fit is undefined. A negative number is shifted right as an
  arithmetic shift, the usual choice where C leaves one.\<close>

definition is_long :: "int \<Rightarrow> bool" where
  "is_long z \<longleftrightarrow> - (2 ^ 63) \<le> z \<and> z < 2 ^ 63"

definition as_long :: "int \<Rightarrow> int option" where
  "as_long z = (if is_long z then Some z else None)"

fun c_apply :: "c_op \<Rightarrow> int \<Rightarrow> int \<Rightarrow> int option" where
  "c_apply C_Mul x y = as_long (x * y)"
| "c_apply C_Div x y = (if y = 0 then None else as_long (x sdiv y))"
| "c_apply C_Mod x y = (if y = 0 \<or> \<not> is_long (x sdiv y) then None else Some (x smod y))"
| "c_apply C_Add x y = as_long (x + y)"
| "c_apply C_Sub x y = as_long (x - y)"
| "c_apply C_Shl x y = (if x < 0 \<or> y < 0 \<or> 64 \<le> y then None else as_long (x * 2 ^ nat y))"
| "c_apply C_Shr x y = (if y < 0 \<or> 64 \<le> y then None else Some (x div 2 ^ nat y))"
| "c_apply C_Lt x y = Some (of_bool (x < y))"
| "c_apply C_Gt x y = Some (of_bool (x > y))"
| "c_apply C_Le x y = Some (of_bool (x \<le> y))"
| "c_apply C_Ge x y = Some (of_bool (x \<ge> y))"
| "c_apply C_Eq x y = Some (of_bool (x = y))"
| "c_apply C_Ne x y = Some (of_bool (x \<noteq> y))"
| "c_apply C_And x y = Some (x AND y)"
| "c_apply C_Xor x y = Some (x XOR y)"
| "c_apply C_Or x y = Some (x OR y)"

fun c_value :: "c_exp \<Rightarrow> int option" where
  "c_value (C_Num n) = as_long (int n)"
| "c_value (C_Par e) = c_value e"
| "c_value (C_Neg e) = c_value e \<bind> (\<lambda>z. as_long (- z))"
| "c_value (C_Not e) = map_option NOT (c_value e)"
| "c_value (C_Bin f a b) = c_value a \<bind> (\<lambda>x. c_value b \<bind> c_apply f x)"

lemma as_long_Some [simp]: "as_long z = Some u \<longleftrightarrow> u = z \<and> is_long z"
  by (auto simp: as_long_def)

lemma is_long_bits: "is_long z \<longleftrightarrow> (\<forall>n \<ge> 63. bit z n = bit z 63)"
proof -
  have "is_long z \<longleftrightarrow> signed_take_bit 63 z = z" by (simp add: is_long_def signed_take_bit_int_eq_self_iff)
  also have "\<dots> \<longleftrightarrow> (\<forall>n \<ge> 63. bit z n = bit z 63)"
    by (simp add: bit_eq_iff bit_signed_take_bit_iff min_def) (metis nle_le)
  finally show ?thesis .
qed

lemma is_long_bitwise:
  "is_long x \<Longrightarrow> is_long y \<Longrightarrow> is_long (x AND y)" "is_long x \<Longrightarrow> is_long y \<Longrightarrow> is_long (x OR y)"
  "is_long x \<Longrightarrow> is_long y \<Longrightarrow> is_long (x XOR y)" "is_long x \<Longrightarrow> is_long (NOT x)"
  unfolding is_long_bits bit_and_iff bit_or_iff bit_xor_iff bit_not_int_iff by blast+

lemma is_long_shr: "is_long x \<Longrightarrow> is_long (x div 2 ^ n)"
  unfolding is_long_bits drop_bit_eq_div [symmetric] bit_drop_bit_eq comp_def by (meson trans_le_add2 order_refl)

lemma is_long_smod:
  assumes "is_long y" and "y \<noteq> 0"
  shows "is_long (x smod y)"
proof -
  have "\<bar>x smod y\<bar> < \<bar>y\<bar>" using assms(2) by (simp add: signed_modulo_int_def abs_mult abs_sgn_eq)
  then show ?thesis using assms(1) by (auto simp: is_long_def)
qed

lemma c_apply_long:
  assumes "c_apply f x y = Some z" and "is_long x" and "is_long y"
  shows "is_long z"
  using assms by (cases f) (auto simp: is_long_bitwise is_long_smod is_long_shr split: if_splits, auto simp: is_long_def)

lemma c_value_long: "c_value e = Some z \<Longrightarrow> is_long z"
  by (induction e arbitrary: z) (auto simp: is_long_bitwise bind_eq_Some_conv intro: c_apply_long)

end
