(* ===== verification/Minic_Facts.thy ===== *)
theory Minic_Facts
  imports Minic_Const C_Expr
begin

text \<open>
  How the evaluator of the compiler reads a constant expression: trees over its tokens and its own five levels of
  operators, and the proof that it reads the text of such a tree and computes the tree with the operator tables of
  the code. \<open>Minic_C\<close> relates this to the expressions of C.
\<close>

section \<open>Expressions\<close>

datatype cexp = Num nat | Par cexp | Neg cexp | Inv cexp | Bin CGTokType cexp cexp

definition op_text :: "CGTokType \<Rightarrow> string" where
  "op_text t = (case t of TOK_STAR \<Rightarrow> ''*'' | TOK_SLASH \<Rightarrow> ''/'' | TOK_PERCENT \<Rightarrow> ''%'' | TOK_PLUS \<Rightarrow> ''+'' | TOK_MINUS \<Rightarrow> ''-''
     | TOK_SHL \<Rightarrow> ''<<'' | TOK_SHR \<Rightarrow> ''>>'' | TOK_AMP \<Rightarrow> ''&'' | TOK_CARET \<Rightarrow> ''^'' | TOK_PIPE \<Rightarrow> ''|'' | TOK_EQ \<Rightarrow> ''=='' | TOK_NE \<Rightarrow> ''!=''
     | TOK_LT \<Rightarrow> ''<'' | TOK_GT \<Rightarrow> ''>'' | TOK_LE \<Rightarrow> ''<='' | TOK_GE \<Rightarrow> ''>='' | _ \<Rightarrow> '''')"

fun text_of :: "cexp \<Rightarrow> string" where
  "text_of (Num n) = decimal n"
| "text_of (Par e) = ''('' @ text_of e @ '')''"
| "text_of (Neg e) = ''-'' @ text_of e"
| "text_of (Inv e) = ''~'' @ text_of e"
| "text_of (Bin t a b) = text_of a @ op_text t @ text_of b"

text \<open>The operators of each level, from the one that binds most.\<close>

fun level_ops :: "nat \<Rightarrow> CGTokType \<Rightarrow> const_op option" where
  "level_ops k = (if k = 1 then mul_ops else if k = 2 then add_ops else if k = 3 then shift_ops else if k = 4 then bit_ops
     else if k = 5 then cmp_ops else (\<lambda>_. None))"
declare level_ops.simps [simp del]

definition op_level :: "CGTokType \<Rightarrow> nat" where
  "op_level t = (if mul_ops t \<noteq> None then 1 else if add_ops t \<noteq> None then 2 else if shift_ops t \<noteq> None then 3
     else if bit_ops t \<noteq> None then 4 else if cmp_ops t \<noteq> None then 5 else 0)"

fun level :: "cexp \<Rightarrow> nat" where "level (Bin t a b) = op_level t" | "level _ = 0"

text \<open>Expressions that need no further parentheses: operators group to the left, comparisons do not chain.\<close>

fun layered :: "cexp \<Rightarrow> bool" where
  "layered (Num n) \<longleftrightarrow> True"
| "layered (Par e) \<longleftrightarrow> layered e"
| "layered (Neg e) \<longleftrightarrow> layered e \<and> level e = 0"
| "layered (Inv e) \<longleftrightarrow> layered e \<and> level e = 0"
| "layered (Bin t a b) \<longleftrightarrow> layered a \<and> layered b \<and> 0 < op_level t \<and> level b < op_level t \<and>
     (if op_level t = 5 then level a < 5 else level a \<le> op_level t)"

text \<open>The value in 64-bit arithmetic; there is none when a division by 0 or a division that traps occurs.\<close>

fun value_of :: "cexp \<Rightarrow> u64 option" where
  "value_of (Num n) = Some (of_nat n)"
| "value_of (Par e) = value_of e"
| "value_of (Neg e) = map_option uminus (value_of e)"
| "value_of (Inv e) = map_option NOT (value_of e)"
| "value_of (Bin t a b) =
     (case (value_of a, value_of b, level_ops (op_level t) t) of
        (Some x, Some y, Some f) \<Rightarrow> (case f x y of Some (Some v) \<Rightarrow> Some v | _ \<Rightarrow> None) | _ \<Rightarrow> None)"

fun weight :: "cexp \<Rightarrow> nat" where
  "weight (Num n) = 1" | "weight (Par e) = weight e + 1" | "weight (Neg e) = weight e + 1" | "weight (Inv e) = weight e + 1"
| "weight (Bin t a b) = weight a + weight b + 1"

section \<open>Reading the text\<close>

definition at :: "string \<Rightarrow> lexer \<Rightarrow> bool" where "at s l \<longleftrightarrow> (\<exists>tok. l = cg_next_token s tok)"

definition next_type :: "string \<Rightarrow> CGTokType" where
  "next_type s = cur (cg_next_token s \<lparr>tok_type = TOK_EOF, tok_text = [], tok_ival = 0\<rparr>)"

lemma at_type: "at s l \<Longrightarrow> cur l = next_type s"
  by (auto simp: at_def next_type_def cg_next_token_def Let_def split: prod.splits)

lemma at_advance: "fst l = s \<Longrightarrow> at s (advance l)"
  by (auto simp: at_def advance_def)

lemma digit_char: "(n :: nat) < 10 \<Longrightarrow> is_digit (char_of (48 + n))"
  by (simp add: is_digit_def of_char_of)

lemma decimal_digits: "list_all is_digit (decimal n)"
  by (induction n rule: decimal.induct) (subst decimal.simps, auto simp: digit_char)

lemma decimal_nonempty: "decimal n \<noteq> []"
  by (subst decimal.simps) auto

lemma dec_value_append: "dec_value (ds @ [c]) = dec_value ds * 10 + of_nat (digit_value c)"
  by (simp add: dec_value_def)

lemma dec_value_decimal: "dec_value (decimal n) = of_nat n"
proof (induction n rule: decimal.induct)
  case (1 n)
  show ?case
  proof (cases "n < 10")
    case True
    then show ?thesis by (subst decimal.simps) (simp add: dec_value_def digit_value_def Let_def of_char_of)
  next
    case False
    then have "dec_value (decimal n) = of_nat (n div 10) * 10 + of_nat (n mod 10)"
      using 1 by (subst decimal.simps) (simp add: dec_value_append digit_value_def Let_def of_char_of)
    also have "\<dots> = of_nat (n div 10 * 10 + n mod 10)" by (simp only: of_nat_add of_nat_mult of_nat_numeral)
    finally show ?thesis by simp
  qed
qed

text \<open>What may stand behind a number, and what an operand starts with.\<close>

definition clean :: "string \<Rightarrow> bool" where
  "clean r \<longleftrightarrow> (case r of [] \<Rightarrow> True | c # _ \<Rightarrow> \<not> is_digit c \<and> c \<noteq> CHR ''x'' \<and> c \<noteq> CHR ''X'')"

definition opens :: "string \<Rightarrow> bool" where
  "opens s \<longleftrightarrow> (\<exists>c r. s = c # r \<and> (is_digit c \<or> c = CHR ''('' \<or> c = CHR ''-'' \<or> c = CHR ''~''))"

lemma number_at:
  assumes "at (decimal n @ r) l" and "clean r"
  shows "cur l = TOK_NUMBER" and "tok_ival (snd l) = of_nat n" and "fst l = r"
proof -
  obtain tok where l: "l = cg_next_token (decimal n @ r) tok" using assms(1) by (auto simp: at_def)
  obtain c cs where d: "decimal n = c # cs" using decimal_nonempty by (cases "decimal n") auto
  have dig: "is_digit c" "list_all is_digit (c # cs)" using decimal_digits [of n] by (simp_all add: d)
  then have c: "c \<notin> {CHR '' '', CHR 0x09, CHR 0x0A, CHR 0x0D}" "c \<noteq> CHR 0x00" "\<not> is_alpha c" "c \<noteq> CHR ''_''"
    by (auto simp: is_digit_def is_alpha_def)
  have tw: "takeWhile is_digit (decimal n @ r) = decimal n"
    using decimal_digits [of n] assms(2) by (cases r) (auto simp: takeWhile_append list_all_iff clean_def)
  have "cg_peek (cs @ r) \<noteq> CHR ''x''" "cg_peek (cs @ r) \<noteq> CHR ''X''"
    using dig(2) assms(2) by (cases cs; cases r; auto simp: cg_peek_def clean_def is_digit_def)+
  then have "l = (drop (length (decimal n)) (decimal n @ r), tok\<lparr>tok_type := TOK_NUMBER, tok_ival := dec_value (decimal n)\<rparr>)"
    using c dig(1) tw unfolding l by (simp add: cg_next_token_def cg_skip_ws_def d cg_peek_def Let_def)
  then show "cur l = TOK_NUMBER" "tok_ival (snd l) = of_nat n" "fst l = r" by (simp_all add: dec_value_decimal)
qed

lemma sign_at:
  "at (CHR ''('' # s) l \<Longrightarrow> cur l = TOK_LPAREN \<and> fst l = s" "at (CHR '')'' # s) l \<Longrightarrow> cur l = TOK_RPAREN \<and> fst l = s"
  "at (CHR ''-'' # s) l \<Longrightarrow> cur l = TOK_MINUS \<and> fst l = s" "at (CHR ''~'' # s) l \<Longrightarrow> cur l = TOK_TILDE \<and> fst l = s"
  "at (CHR '';'' # s) l \<Longrightarrow> cur l = TOK_SEMI \<and> fst l = s"
  by (auto simp: at_def cg_next_token_def cg_skip_ws_def cg_peek_def is_alpha_def is_digit_def operator_def)

lemma opens_text: "opens (text_of e @ r)"
proof (induction e arbitrary: r)
  case (Num n)
  obtain c cs where "decimal n = c # cs" using decimal_nonempty by (cases "decimal n") auto
  then show ?case using decimal_digits [of n] by (auto simp: opens_def)
qed (auto simp: opens_def)

lemmas op_tables = mul_ops_def add_ops_def shift_ops_def bit_ops_def cmp_ops_def

lemma level_ops_iff: "1 \<le> k \<Longrightarrow> k \<le> 5 \<Longrightarrow> level_ops k t \<noteq> None \<longleftrightarrow> op_level t = k"
  by (cases t) (auto simp: level_ops.simps op_level_def op_tables)

lemma op_level_le: "op_level t \<le> 5"
  by (simp add: op_level_def)

lemma op_at:
  assumes "0 < op_level t" and "opens s" and "at (op_text t @ s) l"
  shows "cur l = t" and "fst l = s"
proof -
  obtain c r where s: "s = c # r" and c: "is_digit c \<or> c = CHR ''('' \<or> c = CHR ''-'' \<or> c = CHR ''~''"
    using assms(2) by (auto simp: opens_def)
  have nc: "c \<noteq> CHR ''<''" "c \<noteq> CHR ''=''" "c \<noteq> CHR ''>''" "c \<noteq> CHR ''&''" using c by (auto simp: is_digit_def)
  obtain tok where l: "l = cg_next_token (op_text t @ s) tok" using assms(3) by (auto simp: at_def)
  have "cur l = t \<and> fst l = s" using assms(1) nc unfolding l s
    by (cases t) (auto simp: op_level_def op_tables op_text_def cg_next_token_def cg_skip_ws_def cg_peek_def is_alpha_def is_digit_def operator_def)
  then show "cur l = t" "fst l = s" by auto
qed

lemma op_next: "0 < op_level t \<Longrightarrow> opens s \<Longrightarrow> next_type (op_text t @ s) = t"
  using op_at(1) at_type by (metis at_def)

lemma op_clean: "0 < op_level t \<Longrightarrow> clean (op_text t @ s)"
  by (cases t) (auto simp: op_level_def op_tables op_text_def clean_def is_digit_def)

lemma paren_next: "next_type (CHR '')'' # s) = TOK_RPAREN" "next_type (CHR '';'' # s) = TOK_SEMI"
  using sign_at(2,5) at_type by (metis at_def)+

section \<open>The evaluator\<close>

fun parser :: "nat \<Rightarrow> nat \<Rightarrow> lexer \<Rightarrow> const_result" where
  "parser n 0 = cg_const_eval_primary n"
| "parser n (Suc k) = const_level n (parser n k) (level_ops (Suc k))"

lemma parser_4: "cg_const_eval_bitwise n (cg_const_eval_primary n) = parser n 4"
  by (simp add: numeral_eq_Suc cg_const_eval_bitwise_def cg_const_eval_shift_def cg_const_eval_additive_def cg_const_eval_multiplicative_def level_ops.simps)

fun chain_ops :: "nat \<Rightarrow> cexp \<Rightarrow> nat" where
  "chain_ops k (Bin t a b) = (if op_level t = k then chain_ops k a + 1 else 0)"
| "chain_ops k _ = 0"

lemma weight_pos: "0 < weight e"
  by (cases e) auto

lemma chain_ops_less: "chain_ops k e < weight e"
  by (induction e) auto

text \<open>An expression of level at most \<open>k\<close> is read by the parser of the level, up to a token that does not belong to
  that level or a lower one; and the parser is in its loop when it has read the expression.\<close>

definition reads :: "cexp \<Rightarrow> nat \<Rightarrow> bool" where
  "reads e k \<longleftrightarrow> (\<forall>n r l v. value_of e = Some v \<and> weight e \<le> n \<and> clean r \<and> at (text_of e @ r) l \<and>
     (op_level (next_type r) = 0 \<or> k < op_level (next_type r)) \<longrightarrow> (\<exists>l'. parser n k l = Some (Some v, l') \<and> at r l'))"

definition loops :: "cexp \<Rightarrow> nat \<Rightarrow> bool" where
  "loops e k \<longleftrightarrow> (\<forall>n r l v. value_of e = Some v \<and> weight e \<le> n \<and> clean r \<and> at (text_of e @ r) l \<and>
     (op_level (next_type r) = 0 \<or> k \<le> op_level (next_type r)) \<longrightarrow>
     (\<exists>l'. parser n k l = op_loop (n - chain_ops k e) (parser n (k - 1)) (level_ops k) v l' \<and> at r l'))"

definition evaluates :: "cexp \<Rightarrow> bool" where
  "evaluates e \<longleftrightarrow> (\<forall>n r l v. value_of e = Some v \<and> weight e \<le> n \<and> clean r \<and> at (text_of e @ r) l \<and> op_level (next_type r) = 0 \<longrightarrow>
     (\<exists>l'. cg_const_eval n l = Some (Some v, l') \<and> at r l'))"

lemma readsD:
  assumes "reads e k" and "value_of e = Some v" and "weight e \<le> n" and "clean r" and "at (text_of e @ r) l"
    and "op_level (next_type r) = 0 \<or> k < op_level (next_type r)"
  obtains l' where "parser n k l = Some (Some v, l')" and "at r l'"
  using assms unfolding reads_def by blast

lemma loopsD:
  assumes "loops e k" and "value_of e = Some v" and "weight e \<le> n" and "clean r" and "at (text_of e @ r) l"
    and "op_level (next_type r) = 0 \<or> k \<le> op_level (next_type r)"
  obtains l' where "parser n k l = op_loop (n - chain_ops k e) (parser n (k - 1)) (level_ops k) v l'" and "at r l'"
  using assms unfolding loops_def by blast

lemma evaluatesD:
  assumes "evaluates e" and "value_of e = Some v" and "weight e \<le> n" and "clean r" and "at (text_of e @ r) l"
    and "op_level (next_type r) = 0"
  obtains l' where "cg_const_eval n l = Some (Some v, l')" and "at r l'"
  using assms unfolding evaluates_def by blast

lemma loops_reads:
  assumes "loops e k" and "1 \<le> k" and "k \<le> 5"
  shows "reads e k"
  unfolding reads_def
proof (intro allI impI, elim conjE)
  fix n r l v assume *: "value_of e = Some v" "weight e \<le> n" "clean r" "at (text_of e @ r) l" and o: "op_level (next_type r) = 0 \<or> k < op_level (next_type r)"
  from * o assms(1) obtain l' where l': "parser n k l = op_loop (n - chain_ops k e) (parser n (k - 1)) (level_ops k) v l'" "at r l'"
    unfolding loops_def by (meson less_imp_le)
  obtain m where m: "n - chain_ops k e = Suc m" using chain_ops_less [of k e] *(2) by (cases "n - chain_ops k e") auto
  have "level_ops k (cur l') = None" using level_ops_iff [OF assms(2,3), of "cur l'"] o at_type [OF l'(2)] assms(2) by auto
  then show "\<exists>l'. parser n k l = Some (Some v, l') \<and> at r l'" using l' m by auto
qed

lemma reads_loops:
  assumes "reads e k" and "level e \<le> k" and "k < 5"
  shows "loops e (Suc k)"
  unfolding loops_def
proof (intro allI impI, elim conjE)
  fix n r l v assume *: "value_of e = Some v" "weight e \<le> n" "clean r" "at (text_of e @ r) l"
    and o: "op_level (next_type r) = 0 \<or> Suc k \<le> op_level (next_type r)"
  have o': "op_level (next_type r) = 0 \<or> k < op_level (next_type r)" using o by auto
  from readsD [OF assms(1) * o'] obtain l' where l': "parser n k l = Some (Some v, l')" "at r l'" .
  have "chain_ops (Suc k) e = 0" using assms(2) by (cases e) auto
  then show "\<exists>l'. parser n (Suc k) l = op_loop (n - chain_ops (Suc k) e) (parser n (Suc k - 1)) (level_ops (Suc k)) v l' \<and> at r l'"
    using l' by (intro exI [of _ l']) (simp add: const_level_def)
qed

lemma reads_up:
  assumes "reads e k" and "level e \<le> k" and "k \<le> j" and "j \<le> 4"
  shows "reads e j"
  using assms(3,4)
proof (induction j rule: dec_induct)
  case (step j)
  then have "loops e (Suc j)" using reads_loops [of e j] assms(2) by simp
  then show ?case using loops_reads [of e "Suc j"] step by simp
qed (use assms(1) in simp)

lemma reads_evaluates:
  assumes "reads e 4"
  shows "evaluates e"
  unfolding evaluates_def
proof (intro allI impI, elim conjE)
  fix n r l v assume *: "value_of e = Some v" "weight e \<le> n" "clean r" "at (text_of e @ r) l" and o: "op_level (next_type r) = 0"
  from readsD [OF assms *] o obtain l' where l': "parser n 4 l = Some (Some v, l')" "at r l'" by auto
  have "cmp_ops (cur l') = None" using at_type [OF l'(2)] o by (auto simp: op_level_def split: if_splits)
  then show "\<exists>l'. cg_const_eval n l = Some (Some v, l') \<and> at r l'"
    using l' by (auto simp: cg_const_eval_def cg_const_eval_compare_def parser_4)
qed

lemma level_0_reads:
  assumes "level e = 0" and "layered e"
    and sub: "\<And>e'. e = Par e' \<Longrightarrow> evaluates e'" "\<And>e'. e = Neg e' \<or> e = Inv e' \<Longrightarrow> reads e' 0"
  shows "reads e 0"
  unfolding reads_def
proof (intro allI impI, elim conjE)
  fix n r l v assume v: "value_of e = Some v" and w: "weight e \<le> n" and r: "clean r" and l: "at (text_of e @ r) l"
    and o: "op_level (next_type r) = 0 \<or> 0 < op_level (next_type r)"
  obtain m where n: "n = Suc m" using w weight_pos [of e] by (cases n) auto
  show "\<exists>l'. parser n 0 l = Some (Some v, l') \<and> at r l'"
  proof (cases e)
    case (Num k)
    then have "at (decimal k @ r) l" using l by simp
    note a = number_at [OF this r]
    show ?thesis using a at_advance [OF a(3)] v Num n by auto
  next
    case (Par e')
    then have "at (CHR ''('' # text_of e' @ CHR '')'' # r) l" using l by simp
    note p = sign_at(1) [OF this] note s = conjunct1 [OF p] at_advance [OF conjunct2 [OF p]]
    have "clean (CHR '')'' # r)" "op_level (next_type (CHR '')'' # r)) = 0" by (auto simp: clean_def is_digit_def paren_next op_level_def op_tables)
    from evaluatesD [OF sub(1) [OF Par] _ _ this(1) s(2) this(2), of v m] v w n Par
    obtain l' where l': "cg_const_eval m (advance l) = Some (Some v, l')" "at (CHR '')'' # r) l'" by auto
    note q = sign_at(2) [OF l'(2)]
    show ?thesis using l'(1) conjunct1 [OF q] at_advance [OF conjunct2 [OF q]] s(1) n
      by (intro exI [of _ "advance l'"]) (simp add: cg_const_eval_def)
  next
    case (Neg e')
    then have "at (CHR ''-'' # text_of e' @ r) l" using l by simp
    note p = sign_at(3) [OF this] note s = conjunct1 [OF p] at_advance [OF conjunct2 [OF p]]
    from v Neg obtain u where u: "value_of e' = Some u" "v = - u" by auto
    from readsD [OF sub(2) u(1) _ r s(2), of m] Neg w n o obtain l' where "cg_const_eval_primary m (advance l) = Some (Some u, l')" "at r l'" by auto
    then show ?thesis using s(1) n u by (intro exI [of _ l']) simp
  next
    case (Inv e')
    then have "at (CHR ''~'' # text_of e' @ r) l" using l by simp
    note p = sign_at(4) [OF this] note s = conjunct1 [OF p] at_advance [OF conjunct2 [OF p]]
    from v Inv obtain u where u: "value_of e' = Some u" "v = NOT u" by auto
    from readsD [OF sub(2) u(1) _ r s(2), of m] Inv w n o obtain l' where "cg_const_eval_primary m (advance l) = Some (Some u, l')" "at r l'" by auto
    then show ?thesis using s(1) n u by (intro exI [of _ l']) simp
  next
    case (Bin t a b)
    then show ?thesis using assms(1,2) by auto
  qed
qed

lemma bin_loops:
  assumes lay: "layered (Bin t a b)" and k: "op_level t = Suc k" "Suc k < 5" and a: "loops a (Suc k)" and b: "reads b k"
  shows "loops (Bin t a b) (Suc k)"
  unfolding loops_def
proof (intro allI impI, elim conjE)
  fix n r l v assume v: "value_of (Bin t a b) = Some v" and w: "weight (Bin t a b) \<le> n" and r: "clean r" and l: "at (text_of (Bin t a b) @ r) l"
    and o: "op_level (next_type r) = 0 \<or> Suc k \<le> op_level (next_type r)"
  let ?s = "text_of b @ r" let ?m = "n - chain_ops (Suc k) a"
  have t: "0 < op_level t" using k by simp
  obtain x y f where x: "value_of a = Some x" "value_of b = Some y" "level_ops (Suc k) t = Some f" "f x y = Some (Some v)"
    using v k by (auto split: option.splits)
  have "clean (op_text t @ ?s)" "next_type (op_text t @ ?s) = t" by (rule op_clean [OF t] op_next [OF t opens_text])+
  with loopsD [OF a x(1), of n "op_text t @ ?s" l] w l k(1)
  obtain l1 where l1: "parser n (Suc k) l = op_loop ?m (parser n k) (level_ops (Suc k)) x l1" "at (op_text t @ ?s) l1" by auto
  note tok = op_at [OF t opens_text l1(2)]
  have o': "op_level (next_type r) = 0 \<or> k < op_level (next_type r)" using o by auto
  have wb: "weight b \<le> n" using w by simp
  from readsD [OF b x(2) wb r at_advance [OF tok(2)] o'] obtain l2 where l2: "parser n k (advance l1) = Some (Some y, l2)" "at r l2" .
  obtain m where m: "?m = Suc m" using w chain_ops_less [of "Suc k" a] by (cases ?m) auto
  then have "n - chain_ops (Suc k) (Bin t a b) = m" using k(1) by simp
  then show "\<exists>l'. parser n (Suc k) l = op_loop (n - chain_ops (Suc k) (Bin t a b)) (parser n (Suc k - 1)) (level_ops (Suc k)) v l' \<and> at r l'"
    using l1(1) l2 m tok(1) x(3,4) by (intro exI [of _ l2]) simp
qed

lemma compare_evaluates:
  assumes k: "op_level t = 5" and a: "reads a 4" and b: "reads b 4"
  shows "evaluates (Bin t a b)"
  unfolding evaluates_def
proof (intro allI impI, elim conjE)
  fix n r l v assume v: "value_of (Bin t a b) = Some v" and w: "weight (Bin t a b) \<le> n" and r: "clean r" and l: "at (text_of (Bin t a b) @ r) l"
    and o: "op_level (next_type r) = 0"
  let ?s = "text_of b @ r"
  have t: "0 < op_level t" using k by simp
  obtain x y f where x: "value_of a = Some x" "value_of b = Some y" "cmp_ops t = Some f" "f x y = Some (Some v)"
    using v k by (auto simp: level_ops.simps split: option.splits)
  have wa: "weight a \<le> n" "weight b \<le> n" using w by auto
  have "clean (op_text t @ ?s)" "next_type (op_text t @ ?s) = t" by (rule op_clean [OF t] op_next [OF t opens_text])+
  with readsD [OF a x(1) wa(1), of "op_text t @ ?s" l] l k obtain l1 where l1: "parser n 4 l = Some (Some x, l1)" "at (op_text t @ ?s) l1" by auto
  note tok = op_at [OF t opens_text l1(2)]
  from readsD [OF b x(2) wa(2) r at_advance [OF tok(2)]] o obtain l2 where l2: "parser n 4 (advance l1) = Some (Some y, l2)" "at r l2" by auto
  show "\<exists>l'. cg_const_eval n l = Some (Some v, l') \<and> at r l'"
    using l1(1) l2 tok(1) x(3,4) by (auto simp: cg_const_eval_def cg_const_eval_compare_def parser_4)
qed

lemma layered_reads:
  "layered e \<Longrightarrow> (level e \<le> 4 \<longrightarrow> reads e (level e)) \<and> (1 \<le> level e \<and> level e \<le> 4 \<longrightarrow> loops e (level e)) \<and> evaluates e"
proof (induction e)
  case (Bin t a b)
  show ?case
  proof (cases "op_level t = 5")
    case True
    then have "reads a 4" "reads b 4" using Bin reads_up [of a "level a" 4] reads_up [of b "level b" 4] by auto
    then show ?thesis using compare_evaluates [OF True] True by simp
  next
    case False
    then obtain k where k: "op_level t = Suc k" "Suc k < 5" using Bin.prems op_level_le [of t] by (cases "op_level t") auto
    have b: "reads b k" using Bin k False reads_up [of b "level b" k] by auto
    have "loops a (Suc k)"
    proof (cases "level a = Suc k")
      case True
      then show ?thesis using Bin k by auto
    next
      case F: False
      then have "reads a k" "level a \<le> k" using Bin k False reads_up [of a "level a" k] by auto
      then show ?thesis using reads_loops k by simp
    qed
    then have lp: "loops (Bin t a b) (Suc k)" using bin_loops [OF Bin.prems k _ b] by blast
    then have rd: "reads (Bin t a b) (Suc k)" using loops_reads k by simp
    then have "evaluates (Bin t a b)" using reads_up [of "Bin t a b" "Suc k" 4] reads_evaluates k by simp
    then show ?thesis using lp rd k by simp
  qed
next
  case (Num n)
  have "reads (Num n) 0" by (rule level_0_reads) auto
  then show ?case using reads_up [of "Num n" 0 4] reads_evaluates by simp
next
  case (Par e)
  have "reads (Par e) 0" by (rule level_0_reads) (use Par in auto)
  then show ?case using reads_up [of "Par e" 0 4] reads_evaluates by simp
next
  case (Neg e)
  have "reads (Neg e) 0" by (rule level_0_reads) (use Neg in auto)
  then show ?case using reads_up [of "Neg e" 0 4] reads_evaluates by simp
next
  case (Inv e)
  have "reads (Inv e) 0" by (rule level_0_reads) (use Inv in auto)
  then show ?case using reads_up [of "Inv e" 0 4] reads_evaluates by simp
qed

lemma const_eval_rule:
  assumes "layered e" and "value_of e = Some v" and "weight e \<le> n" and "clean r" and "at (text_of e @ r) l" and "op_level (next_type r) = 0"
  obtains l' where "cg_const_eval n l = Some (Some v, l')" and "at r l'"
  using evaluatesD [OF _ assms(2-6)] layered_reads [OF assms(1)] by blast

end
