(* ===== verification/Minic_C.thy ===== *)
theory Minic_C
  imports Minic_Facts
begin

text \<open>
  The compiler's evaluator against the C language: a C expression that is \<open>plain\<close> is read by the compiler as C reads
  it, although the compiler has one level for all bitwise operators, above one for all comparisons; and each of its
  operators gives the value that C defines.
\<close>

section \<open>Trees\<close>

fun token :: "c_op \<Rightarrow> CGTokType" where
  "token C_Mul = TOK_STAR" | "token C_Div = TOK_SLASH" | "token C_Mod = TOK_PERCENT" | "token C_Add = TOK_PLUS"
| "token C_Sub = TOK_MINUS" | "token C_Shl = TOK_SHL" | "token C_Shr = TOK_SHR" | "token C_Lt = TOK_LT"
| "token C_Gt = TOK_GT" | "token C_Le = TOK_LE" | "token C_Ge = TOK_GE" | "token C_Eq = TOK_EQ" | "token C_Ne = TOK_NE"
| "token C_And = TOK_AMP" | "token C_Xor = TOK_CARET" | "token C_Or = TOK_PIPE"

fun cexp_of :: "c_exp \<Rightarrow> cexp" where
  "cexp_of (C_Num n) = Num n"
| "cexp_of (C_Par e) = Par (cexp_of e)"
| "cexp_of (C_Neg e) = Neg (cexp_of e)"
| "cexp_of (C_Not e) = Inv (cexp_of e)"
| "cexp_of (C_Bin f a b) = Bin (token f) (cexp_of a) (cexp_of b)"

lemma text_cexp: "text_of (cexp_of e) = c_text e"
proof -
  have "op_text (token f) = c_op_text f" for f by (cases f) (simp_all add: op_text_def)
  then show ?thesis by (induction e) simp_all
qed

lemma weight_cexp: "weight (cexp_of e) = c_size e"
  by (induction e) simp_all

text \<open>The two orders of precedence: the three lowest levels are the same; above, plain expressions do not nest.\<close>

definition code_level :: "nat \<Rightarrow> nat" where
  "code_level p = (if p \<le> 3 then p else if p \<le> 5 then 5 else 4)"

lemma op_level_token: "op_level (token f) = code_level (c_prec f)"
  by (cases f) (simp_all add: op_level_def op_tables code_level_def)

lemma level_cexp: "level (cexp_of e) = code_level (c_level e)"
  by (cases e) (simp_all add: op_level_token, simp_all add: code_level_def)

lemma plain_layered: "c_tree e \<Longrightarrow> plain e \<Longrightarrow> layered (cexp_of e)"
proof (induction e)
  case (C_Bin f a b)
  have "1 \<le> c_prec f" "c_prec f \<le> 8" by (cases f; simp)+
  with C_Bin show ?case by (auto simp: op_level_token level_cexp code_level_def split: if_splits)
qed (auto simp: level_cexp code_level_def)

section \<open>Values\<close>

lemma sint_long: "is_long z \<Longrightarrow> sint (word_of_int z :: u64) = z"
  by (simp add: sint_sbintrunc' is_long_def signed_take_bit_int_eq_self)

lemma and_63_long: "0 \<le> y \<Longrightarrow> y < 64 \<Longrightarrow> unat ((word_of_int y :: u64) AND 63) = nat y"
proof -
  assume y: "0 \<le> y" "y < 64"
  have m: "(63 :: u64) = mask 6" by (simp add: mask_eq_exp_minus_1)
  have "unat (word_of_int y :: u64) = nat y" using y by (simp add: unat_eq_nat_uint uint_word_of_int)
  then show ?thesis unfolding m unat_and_mask using y by (simp add: nat_less_iff)
qed

text \<open>Each operator of the code has the value of C.\<close>

lemma op_value:
  assumes "c_apply f x y = Some z" and x: "is_long x" and y: "is_long y"
  shows "\<exists>g. level_ops (op_level (token f)) (token f) = Some g \<and>
    g (word_of_int x) (word_of_int y) = Some (Some (word_of_int z))"
proof -
  note sx = sint_long [OF x] and sy = sint_long [OF y]
  have eq: "(word_of_int x :: u64) = word_of_int y \<longleftrightarrow> x = y" using sx sy by metis
  have z0: "(word_of_int y :: u64) = 0 \<longleftrightarrow> y = 0" using sy by (metis of_int_0 sint_0)
  have trap: "min_by_minus_1 (word_of_int x) (word_of_int y) \<Longrightarrow> x sdiv y = 2 ^ 63"
  proof -
    assume "min_by_minus_1 (word_of_int x) (word_of_int y)"
    then have "sint (word_of_int x :: u64) = sint (0x8000000000000000 :: u64)" "sint (word_of_int y :: u64) = sint (- 1 :: u64)"
      by (simp_all add: min_by_minus_1_def)
    then have "x = - (2 ^ 63)" "y = - 1" using sx sy by simp_all
    then show ?thesis by (simp add: signed_divide_int_def)
  qed
  have big: "\<not> is_long (2 ^ 63)" by (simp add: is_long_def)
  show ?thesis
  proof (cases f)
    case C_Shl
    then have "0 \<le> y" "y < 64" "z = x * 2 ^ nat y" using assms(1) by (auto split: if_splits)
    with C_Shl show ?thesis by (simp add: op_level_def op_tables level_ops.simps and_63_long push_bit_eq_mult)
  next
    case C_Shr
    then have r: "0 \<le> y" "y < 64" and z: "z = drop_bit (nat y) x" using assms(1) by (auto simp: drop_bit_eq_div split: if_splits)
    have "signed_drop_bit (nat y) (word_of_int x :: u64) = word_of_int z"
    proof -
      have "sint (signed_drop_bit (nat y) (word_of_int x :: u64)) = z" by (simp add: sint_signed_drop_bit_eq sx z)
      then have "(word_of_int (sint (signed_drop_bit (nat y) (word_of_int x :: u64))) :: u64) = word_of_int z" by (rule arg_cong)
      then show ?thesis by simp
    qed
    with C_Shr r show ?thesis by (simp add: op_level_def op_tables level_ops.simps and_63_long)
  qed (use assms(1) trap big sx sy z0 eq in \<open>auto simp: op_level_def op_tables level_ops.simps of_bool64_def
      word_sless_alt word_sle_eq of_int_and_eq of_int_or_eq of_int_xor_eq split: if_splits\<close>)
qed

lemma value_cexp: "c_value e = Some z \<Longrightarrow> value_of (cexp_of e) = Some (word_of_int z)"
proof (induction e arbitrary: z)
  case (C_Bin f a b)
  then obtain x y where xy: "c_value a = Some x" "c_value b = Some y" "c_apply f x y = Some z" by (auto simp: bind_eq_Some_conv)
  from op_value [OF xy(3) c_value_long [OF xy(1)] c_value_long [OF xy(2)]] C_Bin.IH(1) [OF xy(1)] C_Bin.IH(2) [OF xy(2)]
  show ?case by auto
qed (auto simp: bind_eq_Some_conv of_int_not_eq)

text \<open>What follows an expression: the end of the text, or a closing sign.\<close>

definition ends :: "string \<Rightarrow> bool" where
  "ends r \<longleftrightarrow> (\<exists>s. r = '';'' @ s \<or> r = '')'' @ s)"

lemma ends_next: "ends r \<Longrightarrow> clean r \<and> op_level (next_type r) = 0"
  by (auto simp: ends_def clean_def is_digit_def paren_next op_level_def op_tables)

lemma c_const_eval:
  assumes "c_tree e" and "plain e" and "c_value e = Some z" and "c_size e \<le> n" and "ends r" and "at (c_text e @ r) l"
  obtains l' where "cg_const_eval n l = Some (Some (word_of_int z), l')" and "at r l'"
proof -
  have w: "weight (cexp_of e) \<le> n" using assms(4) by (simp add: weight_cexp)
  have l: "at (text_of (cexp_of e) @ r) l" using assms(6) by (simp add: text_cexp)
  from const_eval_rule [OF plain_layered [OF assms(1,2)] value_cexp [OF assms(3)] w _ l] ends_next [OF assms(5)] that
  show thesis by blast
qed

text \<open>C35: the compiler's evaluator computes the value that C gives to a constant expression, from its text. The
  expressions are those of the C grammar, with C's precedence and grouping, over decimal numbers, parentheses, the
  signs \<open>-\<close> and \<open>~\<close> and the binary operators, written without blanks, that have a value in C (every result fits a 64-bit
  \<open>long\<close>, no division by 0, shift amounts below 64), and that parenthesise a comparison or bitwise expression which is an
  operand of a comparison, and a comparison or another bitwise operator which is an operand of \<open>&\<close>, \<open>^\<close> or \<open>|\<close> (without those
  parentheses the code groups differently from C). With fuel for the size the result is the value, and the text
  behind the expression is next.\<close>

theorem constant_expressions_fold:
  assumes "c_tree e" and "plain e" and "c_value e = Some z" and "c_size e \<le> n" and "ends r"
  shows "\<exists>tok'. cg_const_eval n (cg_next_token (c_text e @ r) tok) = Some (Some (word_of_int z), cg_next_token r tok')"
proof -
  have "at (c_text e @ r) (cg_next_token (c_text e @ r) tok)" by (auto simp: at_def)
  then obtain l' where "cg_const_eval n (cg_next_token (c_text e @ r) tok) = Some (Some (word_of_int z), l')" "at r l'"
    by (rule c_const_eval [OF assms])
  then show ?thesis unfolding at_def by blast
qed

theorem constant_expressions_fold_witness:
  "\<exists>tok'. cg_const_eval 12 (cg_next_token ''1+2*3<<(8-7)&12;'' \<lparr>tok_type = TOK_EOF, tok_text = [], tok_ival = 0\<rparr>) = Some (Some 12, cg_next_token '';'' tok')"
proof -
  let ?e = "C_Bin C_And (C_Bin C_Shl (C_Bin C_Add (C_Num 1) (C_Bin C_Mul (C_Num 2) (C_Num 3))) (C_Par (C_Bin C_Sub (C_Num 8) (C_Num 7)))) (C_Num 12)"
  have T: "c_text ?e @ '';'' = ''1+2*3<<(8-7)&12;''" by code_simp
  have L: "c_tree ?e" "plain ?e" and V: "c_value ?e = Some 12" by (simp_all add: as_long_def is_long_def)
  have W: "c_size ?e \<le> 12" and R: "ends '';''" by (simp_all add: ends_def)
  from constant_expressions_fold [OF L V W R] show ?thesis unfolding T by simp
qed

end
