(* ===== verification/Riscv_Interp.thy ===== *)
theory Riscv_Interp
  imports Byte_Memory "HOL-Library.Signed_Division"
begin

text \<open>
  The RISC-V interpreter (\<open>runtime/wubu_riscv_interp.c\<close>): a processor with 32 registers and 64 KiB of memory
  that executes a code buffer until it halts. Registers are 64-bit words; signed operations wrap. An access
  outside the memory, the code or the call stack, and a division that traps, give \<open>Undefined\<close>. The soft-float
  and matrix routines behind the host calls are not part of the repository and are arguments.
\<close>

section \<open>State\<close>

definition RV_MEM :: nat where "RV_MEM = 65536"

record rv_cpu =
  x_regs :: "u64 list"
  fret :: u32
  fret_valid :: bool
  call_stack :: "u32 list"
  call_sp :: nat
  rv_pc :: u64
  flag_n :: bool
  flag_z :: bool
  rv_mem :: memory

text \<open>The external routines: what function \<open>fn\<close> computes from its operands, cut to 32 bits, the float comparison, and
  the matrix product on the memory.\<close>

record host_ops =
  sf_op :: "nat \<Rightarrow> u32 \<Rightarrow> u32 \<Rightarrow> u32"
  sf_cmp :: "u32 \<Rightarrow> u32 \<Rightarrow> int"
  tgemm_mem8 :: "memory \<Rightarrow> u32 \<Rightarrow> u32 \<Rightarrow> u32 \<Rightarrow> nat \<Rightarrow> nat \<Rightarrow> nat \<Rightarrow> memory"

datatype rv_outcome = Next rv_cpu | Halt rv_cpu | Undefined

abbreviation reg :: "rv_cpu \<Rightarrow> nat \<Rightarrow> u64" where "reg cpu i \<equiv> x_regs cpu ! i"

definition set_reg :: "nat \<Rightarrow> u64 \<Rightarrow> rv_cpu \<Rightarrow> rv_cpu" where
  "set_reg i v cpu = cpu\<lparr>x_regs := (x_regs cpu)[i := v]\<rparr>"

definition set_nz :: "u64 \<Rightarrow> rv_cpu \<Rightarrow> rv_cpu" where
  "set_nz v cpu = cpu\<lparr>flag_n := (v <s 0), flag_z := (v = 0)\<rparr>"

definition fetch32 :: "bytes \<Rightarrow> u64 \<Rightarrow> u32" where
  "fetch32 code pc = (let i = unat pc in
     ucast (code ! i) OR push_bit 8 (ucast (code ! (i + 1))) OR push_bit 16 (ucast (code ! (i + 2))) OR push_bit 24 (ucast (code ! (i + 3))))"

definition sext12 :: "u32 \<Rightarrow> u64" where
  "sext12 imm12 = (let v = ucast (imm12 AND 0xFFF) :: u64 in if imm12 AND 0x800 \<noteq> 0 then v OR NOT 0xFFF else v)"

text \<open>C division on \<open>int64_t\<close>, which traps for the least number and \<open>-1\<close>.\<close>

definition div_traps :: "u64 \<Rightarrow> u64 \<Rightarrow> bool" where "div_traps a b \<longleftrightarrow> a = 0x8000000000000000 \<and> b = - 1"
definition c_div :: "u64 \<Rightarrow> u64 \<Rightarrow> u64" where "c_div a b = word_of_int (sint a sdiv sint b)"
definition c_mod :: "u64 \<Rightarrow> u64 \<Rightarrow> u64" where "c_mod a b = word_of_int (sint a smod sint b)"

section \<open>Arithmetic instructions\<close>

text \<open>The result, and what is stored in \<open>x11\<close> beside it.\<close>

definition op_result :: "u32 \<Rightarrow> u32 \<Rightarrow> u64 \<Rightarrow> u64 \<Rightarrow> (u64 \<times> u64 option) option" where
  "op_result funct3 funct7 a b =
     (if funct3 = 0 then
        Some (if funct7 = 0x00 then a + b else if funct7 = 0x20 then a - b else if funct7 = 0x01 then a * b else 0, None)
      else if funct3 = 1 then Some (push_bit (unat (b AND 0x3F)) a, None)
      else if funct3 = 2 then Some (if a <s b then 1 else 0, None)
      else if funct3 = 3 then Some (if a < b then 1 else 0, None)
      else if funct3 = 4 then
        (if funct7 = 0x00 then Some (a XOR b, None)
         else if funct7 = 0x01 then
           (if b = 0 then Some (- 1, Some a) else if div_traps a b then None else Some (c_div a b, Some (c_mod a b)))
         else Some (a XOR b, None))
      else if funct3 = 5 then
        (if funct7 = 0x00 then Some (drop_bit (unat (b AND 0x3F)) a, None)
         else if funct7 = 0x20 then Some (signed_drop_bit (unat (b AND 0x3F)) a, None)
         else if funct7 = 0x01 then (if b = 0 then Some (- 1, Some a) else Some (a div b, Some (a mod b)))
         else Some (signed_drop_bit (unat (b AND 0x3F)) a, None))
      else if funct3 = 6 then
        (if funct7 = 0x00 then Some (a OR b, None)
         else if funct7 = 0x01 then
           (if b = 0 then Some (a, None) else if div_traps a b then None else Some (c_div a b, Some (c_mod a b)))
         else if funct7 = 0x05 then (if b = 0 then Some (a, None) else Some (a div b, Some (a mod b)))
         else Some (a OR b, None))
      else
        (if funct7 = 0x01 then Some (if b = 0 then a else a mod b, None) else Some (a AND b, None)))"

definition exec_op :: "u32 \<Rightarrow> rv_cpu \<Rightarrow> rv_outcome" where
  "exec_op inst cpu =
     (let rd = unat (drop_bit 7 inst AND 0x1F); funct3 = drop_bit 12 inst AND 0x7; rs1 = unat (drop_bit 15 inst AND 0x1F);
          rs2 = unat (drop_bit 20 inst AND 0x1F); funct7 = drop_bit 25 inst AND 0x7F
      in case op_result funct3 funct7 (reg cpu rs1) (reg cpu rs2) of
        None \<Rightarrow> Undefined
      | Some (res, extra) \<Rightarrow>
          (let cpu1 = (case extra of None \<Rightarrow> cpu | Some r \<Rightarrow> set_reg 11 r cpu) in Next (set_nz res (set_reg rd res cpu1))))"

definition imm_result :: "u32 \<Rightarrow> u32 \<Rightarrow> u64 \<Rightarrow> u64 \<Rightarrow> u64" where
  "imm_result funct3 funct7 a imm =
     (if funct3 = 0 then a + imm
      else if funct3 = 1 then push_bit (unat (imm AND 0x3F)) a
      else if funct3 = 2 then (if a <s imm then 1 else 0)
      else if funct3 = 3 then (if a < imm then 1 else 0)
      else if funct3 = 4 then a XOR imm
      else if funct3 = 5 then (if funct7 = 0x00 then drop_bit (unat (imm AND 0x3F)) a else signed_drop_bit (unat (imm AND 0x3F)) a)
      else if funct3 = 6 then a OR imm
      else a AND imm)"

definition exec_op_imm :: "u32 \<Rightarrow> rv_cpu \<Rightarrow> rv_outcome" where
  "exec_op_imm inst cpu =
     (let rd = unat (drop_bit 7 inst AND 0x1F); funct3 = drop_bit 12 inst AND 0x7; rs1 = unat (drop_bit 15 inst AND 0x1F);
          funct7 = drop_bit 25 inst AND 0x7F;
          res = imm_result funct3 funct7 (reg cpu rs1) (sext12 (drop_bit 20 inst))
      in Next (set_nz res (set_reg rd res cpu)))"

section \<open>Memory, branches and jumps\<close>

text \<open>Whether \<open>n\<close> bytes at an address are in the memory.\<close>

definition in_mem :: "u64 \<Rightarrow> nat \<Rightarrow> bool" where "in_mem addr n \<longleftrightarrow> unat addr + n \<le> RV_MEM"

definition load_value :: "u32 \<Rightarrow> u64 \<Rightarrow> memory \<Rightarrow> u64 option" where
  "load_value funct3 addr m =
     (let i = unat addr in
      if funct3 = 0 then (if in_mem addr 1 then Some (scast (m i)) else None)
      else if funct3 = 1 then (if in_mem addr 2 then Some (scast (push_bit 8 (ucast (m i)) OR ucast (m (i + 1)) :: u16)) else None)
      else if funct3 = 2 then (if in_mem addr 4 then Some (scast (rd32 m i)) else None)
      else if funct3 = 3 then (if in_mem addr 8 then Some (rd64 m i) else None)
      else Some 0)"

definition exec_load :: "u32 \<Rightarrow> rv_cpu \<Rightarrow> rv_outcome" where
  "exec_load inst cpu =
     (let rd = unat (drop_bit 7 inst AND 0x1F); funct3 = drop_bit 12 inst AND 0x7; rs1 = unat (drop_bit 15 inst AND 0x1F);
          addr = reg cpu rs1 + sext12 (drop_bit 20 inst)
      in case load_value funct3 addr (rv_mem cpu) of None \<Rightarrow> Undefined | Some v \<Rightarrow> Next (set_nz v (set_reg rd v cpu)))"

definition store_value :: "u32 \<Rightarrow> u64 \<Rightarrow> u64 \<Rightarrow> memory \<Rightarrow> memory option" where
  "store_value funct3 addr v m =
     (let i = unat addr in
      if funct3 = 0 then (if in_mem addr 1 then Some (m(i := ucast v)) else None)
      else if funct3 = 1 then (if in_mem addr 2 then Some (m(i := ucast v, i + 1 := ucast (drop_bit 8 v))) else None)
      else if funct3 = 2 then (if in_mem addr 4 then Some (wr32 m i (ucast v)) else None)
      else if funct3 = 3 then (if in_mem addr 8 then Some (wr64 m i v) else None)
      else Some m)"

definition exec_store :: "u32 \<Rightarrow> rv_cpu \<Rightarrow> rv_outcome" where
  "exec_store inst cpu =
     (let funct3 = drop_bit 12 inst AND 0x7; rs1 = unat (drop_bit 15 inst AND 0x1F); rs2 = unat (drop_bit 20 inst AND 0x1F);
          offset = sext12 (push_bit 5 (drop_bit 25 inst AND 0x7F)) OR ucast (drop_bit 7 inst AND 0x1F);
          addr = reg cpu rs1 + offset
      in case store_value funct3 addr (reg cpu rs2) (rv_mem cpu) of None \<Rightarrow> Undefined | Some m \<Rightarrow> Next (cpu\<lparr>rv_mem := m\<rparr>))"

definition branch_taken :: "u32 \<Rightarrow> u64 \<Rightarrow> u64 \<Rightarrow> bool" where
  "branch_taken funct3 a b \<longleftrightarrow>
     (if funct3 = 0 then a = b else if funct3 = 1 then a \<noteq> b else if funct3 = 4 then a <s b
      else if funct3 = 5 then a < b else if funct3 = 6 then b \<le>s a else if funct3 = 7 then b \<le> a else False)"

definition branch_offset :: "u32 \<Rightarrow> u64" where
  "branch_offset inst =
     sext12 (push_bit 12 (drop_bit 31 inst AND 1)) OR
     ucast (push_bit 5 (drop_bit 25 inst AND 0x3F) OR push_bit 1 (drop_bit 8 inst AND 0xF) OR push_bit 11 (drop_bit 7 inst AND 1))"

definition exec_branch :: "u32 \<Rightarrow> rv_cpu \<Rightarrow> rv_outcome" where
  "exec_branch inst cpu =
     (let rs1 = unat (drop_bit 15 inst AND 0x1F); rs2 = unat (drop_bit 20 inst AND 0x1F) in
      Next (if branch_taken (drop_bit 12 inst AND 0x7) (reg cpu rs1) (reg cpu rs2)
            then cpu\<lparr>rv_pc := rv_pc cpu + branch_offset inst - 4\<rparr> else cpu))"

definition jal_offset :: "u32 \<Rightarrow> u64" where
  "jal_offset inst =
     (let off = ucast (push_bit 20 (drop_bit 31 inst AND 1) OR push_bit 12 (drop_bit 12 inst AND 0xFF) OR
            push_bit 11 (drop_bit 20 inst AND 1) OR push_bit 1 (drop_bit 21 inst AND 0x3FF)) :: u64
      in if off AND 0x100000 \<noteq> 0 then off - 0x200000 else off)"

definition exec_jal :: "u32 \<Rightarrow> rv_cpu \<Rightarrow> rv_outcome" where
  "exec_jal inst cpu =
     (let rd = unat (drop_bit 7 inst AND 0x1F); cpu1 = (if rd \<noteq> 0 then set_reg rd (rv_pc cpu) cpu else cpu) in
      Next (cpu1\<lparr>rv_pc := rv_pc cpu1 + jal_offset inst - 4\<rparr>))"

definition exec_jalr :: "u32 \<Rightarrow> rv_cpu \<Rightarrow> rv_outcome" where
  "exec_jalr inst cpu =
     (let rd = unat (drop_bit 7 inst AND 0x1F); rs1 = unat (drop_bit 15 inst AND 0x1F);
          offset = sext12 (drop_bit 20 inst); t = reg cpu rs1 + offset
      in if rd = 0 \<and> rs1 = 1 \<and> reg cpu 1 = 0 \<and> offset = 0 then Halt cpu
         else Next ((set_reg rd (rv_pc cpu) cpu)\<lparr>rv_pc := t AND NOT 1\<rparr>))"

definition exec_lui :: "u32 \<Rightarrow> rv_cpu \<Rightarrow> rv_outcome" where
  "exec_lui inst cpu =
     (let rd = unat (drop_bit 7 inst AND 0x1F); v = ucast (inst AND 0xFFFFF000) in Next (set_nz v (set_reg rd v cpu)))"

definition exec_auipc :: "u32 \<Rightarrow> rv_cpu \<Rightarrow> rv_outcome" where
  "exec_auipc inst cpu =
     (let rd = unat (drop_bit 7 inst AND 0x1F); v = ucast (inst AND 0xFFFFF000) + rv_pc cpu - 4 in Next (set_nz v (set_reg rd v cpu)))"

definition exec_system :: "u32 \<Rightarrow> rv_cpu \<Rightarrow> rv_outcome" where
  "exec_system inst cpu =
     (let rd = drop_bit 7 inst AND 0x1F; funct3 = drop_bit 12 inst AND 0x7; rs2 = drop_bit 20 inst AND 0x1F in
      if funct3 = 0 \<and> rs2 = 0 \<and> (rd = 0 \<or> rd = 1) then Halt cpu else Next cpu)"

section \<open>Host calls\<close>

definition float_op :: "nat \<Rightarrow> bool" where
  "float_op fn \<longleftrightarrow> fn \<in> {0, 1, 2, 3, 4, 5, 14, 15, 16, 17, 18, 19, 20, 21, 22, 23, 24}"

definition truth :: "bool \<Rightarrow> u32" where "truth b = (if b then 0xFFFFFFFF else 0)"

text \<open>Operands of a matrix product: 8-byte cells from the code, the first \<open>na\<close> to one place, the rest to another.\<close>

fun stage_cells :: "bytes \<Rightarrow> u32 \<Rightarrow> u32 \<Rightarrow> nat \<Rightarrow> nat \<Rightarrow> nat \<Rightarrow> nat \<Rightarrow> memory \<Rightarrow> memory option" where
  "stage_cells code a b na c 0 pc m = Some m"
| "stage_cells code a b na c (Suc n) pc m =
     (let cell = (if c < na then a + of_nat c else b + of_nat (c - na)); i = unat (cell * 8) in
      if pc + 8 > length code \<or> i + 8 > RV_MEM then None
      else stage_cells code a b na (c + 1) n (pc + 8) (\<lambda>x. if i \<le> x \<and> x < i + 8 then code ! (pc + (x - i)) else m x))"

definition host_tgemm :: "host_ops \<Rightarrow> bytes \<Rightarrow> u32 \<Rightarrow> u32 \<Rightarrow> u32 \<Rightarrow> rv_cpu \<Rightarrow> rv_cpu option" where
  "host_tgemm ops code dst_off sa_off sb_off cpu =
     (if rv_pc cpu + 3 > of_nat (length code) then Some cpu
      else (let i = unat (rv_pc cpu); mm = unat (code ! i); nn = unat (code ! (i + 1)); kk = unat (code ! (i + 2));
                cells = mm * nn + nn * kk
            in case stage_cells code dst_off sa_off (mm * nn) 0 cells (i + 3) (rv_mem cpu) of
                 None \<Rightarrow> None
               | Some m \<Rightarrow> Some (cpu\<lparr>rv_pc := rv_pc cpu + of_nat (3 + 8 * cells), rv_mem := tgemm_mem8 ops m dst_off sa_off sb_off mm nn kk\<rparr>)))"

text \<open>Bytes copied one after the other.\<close>

fun copy_up :: "nat \<Rightarrow> nat \<Rightarrow> nat \<Rightarrow> memory \<Rightarrow> memory" where
  "copy_up 0 dst src m = m"
| "copy_up (Suc n) dst src m = copy_up n (dst + 1) (src + 1) (m(dst := m src))"

definition host_tget :: "u32 \<Rightarrow> u32 \<Rightarrow> rv_cpu \<Rightarrow> (u32 \<times> rv_cpu) option" where
  "host_tget dst_off sa_off cpu =
     (let off = ucast sa_off * 8 :: u64; slot = reg cpu 8 + ucast dst_off in
      if \<not> in_mem off 8 \<or> \<not> in_mem slot 8 then None
      else (let m = copy_up 8 (unat slot) (unat off) (rv_mem cpu) in Some (rd32 m (unat off), cpu\<lparr>rv_mem := m\<rparr>)))"

text \<open>The value \<open>r\<close> of a host call other than a call or return, and the state before it is stored.\<close>

definition host_value :: "host_ops \<Rightarrow> bytes \<Rightarrow> nat \<Rightarrow> u32 \<Rightarrow> u32 \<Rightarrow> u32 \<Rightarrow> u32 \<Rightarrow> u32 \<Rightarrow> rv_cpu \<Rightarrow> (u32 \<times> rv_cpu) option" where
  "host_value ops code fn dst_off sa_off sb_off fa fb cpu =
     (if float_op fn then Some (sf_op ops fn fa fb, cpu)
      else if fn = 10 then Some (fa XOR 0x80000000, cpu)
      else if fn = 6 then Some (truth (sf_cmp ops fa fb = 0), cpu)
      else if fn = 7 then Some (truth (sf_cmp ops fa fb \<noteq> 0), cpu)
      else if fn = 8 then Some (truth (sf_cmp ops fa fb < 0), cpu)
      else if fn = 9 then Some (truth (sf_cmp ops fa fb \<le> 0), cpu)
      else if fn = 11 then Some (fa, cpu\<lparr>fret := fa, fret_valid := True\<rparr>)
      else if fn = 12 then map_option (\<lambda>c. (0, c)) (host_tgemm ops code dst_off sa_off sb_off cpu)
      else if fn = 13 then host_tget dst_off sa_off cpu
      else if fn = 25 then
        (let i = ucast fa * 8 :: u64 in if in_mem i 1 then Some (ucast (rv_mem cpu (unat i)), cpu) else None)
      else if fn = 26 then
        (let i = ucast fb * 8 :: u64 in if in_mem i 1 then Some (0, cpu\<lparr>rv_mem := (rv_mem cpu)(unat i := ucast fa)\<rparr>) else None)
      else Some (0, cpu))"

definition host_call :: "bytes \<Rightarrow> rv_cpu \<Rightarrow> rv_cpu" where
  "host_call code cpu =
     (if call_sp cpu < 32 then
        (let target = fetch32 code (rv_pc cpu); pc1 = rv_pc cpu + 4 in
         cpu\<lparr>call_stack := (call_stack cpu)[call_sp cpu := ucast pc1], call_sp := call_sp cpu + 1, rv_pc := ucast target\<rparr>)
      else cpu)"

definition host_return :: "nat \<Rightarrow> u32 \<Rightarrow> rv_cpu \<Rightarrow> rv_cpu option" where
  "host_return code_size sa_off cpu =
     (let addr = reg cpu 8 + scast sa_off; slot = reg cpu 8 + 8 in
      if \<not> in_mem addr 1 then None
      else (let v = rv_mem cpu (unat addr); cpu1 = set_reg 10 (ucast v) cpu in
        if \<not> in_mem slot 1 then None
        else (let cpu2 = cpu1\<lparr>rv_mem := (rv_mem cpu1)(unat slot := v)\<rparr> in
          Some (if call_sp cpu2 > 0 then cpu2\<lparr>call_sp := call_sp cpu2 - 1, rv_pc := ucast (call_stack cpu2 ! (call_sp cpu2 - 1))\<rparr>
                else cpu2\<lparr>rv_pc := of_nat code_size\<rparr>))))"

definition exec_host :: "host_ops \<Rightarrow> bytes \<Rightarrow> rv_cpu \<Rightarrow> rv_outcome" where
  "exec_host ops code cpu =
     (let pc = rv_pc cpu in
      if pc + 20 > of_nat (length code) then Halt cpu
      else (let fn = unat (fetch32 code pc); dst_off = fetch32 code (pc + 4); sa_off = fetch32 code (pc + 8);
                sb_off = fetch32 code (pc + 12); cpu1 = cpu\<lparr>rv_pc := pc + 16\<rparr>;
                fa_p = reg cpu1 8 + scast sa_off; fb_p = reg cpu1 8 + scast sb_off; dst_p = reg cpu1 8 + scast dst_off
            in if \<not> in_mem fa_p 4 \<or> \<not> in_mem fb_p 4 then Undefined
               else (let fa = rd32 (rv_mem cpu1) (unat fa_p); fb = rd32 (rv_mem cpu1) (unat fb_p) in
                 if fn = 27 then Next (host_call code cpu1)
                 else if fn = 28 then (case host_return (length code) sa_off cpu1 of None \<Rightarrow> Undefined | Some c \<Rightarrow> Next c)
                 else (case host_value ops code fn dst_off sa_off sb_off fa fb cpu1 of
                     None \<Rightarrow> Undefined
                   | Some (r, cpu2) \<Rightarrow>
                       if dst_off \<noteq> 0 \<or> fn = 25 then
                         (if in_mem dst_p 4 then Next (cpu2\<lparr>rv_mem := wr32 (rv_mem cpu2) (unat dst_p) r\<rparr>) else Undefined)
                       else Next cpu2))))"

section \<open>The interpreter\<close>

text \<open>What an instruction does, with the program counter behind it, and one round of the loop.\<close>

definition rv_exec :: "host_ops \<Rightarrow> bytes \<Rightarrow> u32 \<Rightarrow> rv_cpu \<Rightarrow> rv_outcome" where
  "rv_exec ops code inst cpu =
     (let opcode = inst AND 0x7F in
      if opcode = 0x33 then exec_op inst cpu
      else if opcode = 0x13 then exec_op_imm inst cpu
      else if opcode = 0x03 then exec_load inst cpu
      else if opcode = 0x23 then exec_store inst cpu
      else if opcode = 0x63 then exec_branch inst cpu
      else if opcode = 0x6F then exec_jal inst cpu
      else if opcode = 0x67 then exec_jalr inst cpu
      else if opcode = 0x37 then exec_lui inst cpu
      else if opcode = 0x17 then exec_auipc inst cpu
      else if opcode = 0x73 then exec_system inst cpu
      else if opcode = 0x0B then exec_host ops code cpu
      else Halt cpu)"

definition rv_step :: "host_ops \<Rightarrow> bytes \<Rightarrow> rv_cpu \<Rightarrow> rv_outcome" where
  "rv_step ops code cpu =
     (let cpu0 = set_reg 0 0 cpu in
      if unat (rv_pc cpu0) + 4 > length code then Undefined
      else rv_exec ops code (fetch32 code (rv_pc cpu0)) (cpu0\<lparr>rv_pc := rv_pc cpu0 + 4\<rparr>))"

datatype rv_result = Returned u64 | Faulted

definition rv_return :: "rv_cpu \<Rightarrow> u64" where
  "rv_return cpu = (if fret_valid cpu then scast (fret cpu) else reg cpu 10)"

text \<open>The loop; \<open>None\<close> means that it runs forever.\<close>

partial_function (option) rv_loop :: "host_ops \<Rightarrow> bytes \<Rightarrow> rv_cpu \<Rightarrow> rv_result option" where
  "rv_loop ops code cpu =
     (if rv_pc cpu + 4 \<le> of_nat (length code) then
        (case rv_step ops code cpu of
           Next cpu1 \<Rightarrow> rv_loop ops code cpu1
         | Halt cpu1 \<Rightarrow> Some (Returned (rv_return cpu1))
         | Undefined \<Rightarrow> Some Faulted)
      else Some (Returned (rv_return cpu)))"

declare rv_loop.simps [code]

definition rv_start :: rv_cpu where
  "rv_start = \<lparr>x_regs = (replicate 32 0)[2 := of_nat RV_MEM], fret = 0, fret_valid = False, call_stack = replicate 32 0, call_sp = 0,
     rv_pc = 0, flag_n = False, flag_z = False, rv_mem = (\<lambda>_. 0)\<rparr>"

definition wubu_riscv_run :: "host_ops \<Rightarrow> bytes \<Rightarrow> u64 \<Rightarrow> rv_result option" where
  "wubu_riscv_run ops code arg = rv_loop ops code rv_start"

end
