(* ===== verification/Rv64_Facts.thy ===== *)
theory Rv64_Facts
  imports Rv64_Codegen Riscv_Interp
begin

text \<open>
  The RISC-V encoder against the interpreter: the fields of the instruction formats are read back as they were placed,
  code is emitted behind the code there is, and an emitted instruction has the effect that the architecture gives it.
\<close>

section \<open>Fields\<close>

lemma low_bits:
  "(w :: u32) AND 0x7 = take_bit 3 w" "w AND 0x1F = take_bit 5 w" "w AND 0x7F = take_bit 7 w" "w AND 0xFFF = take_bit 12 w"
  by (simp_all add: take_bit_eq_mask mask_eq_exp_minus_1)

text \<open>A field placed in an instruction is either the one that is read or does not touch it.\<close>

lemma drop_field:
  "i + n \<le> j \<Longrightarrow> drop_bit j (push_bit i (take_bit n (v :: u32))) = 0"
  "j \<le> i \<Longrightarrow> i + n \<le> 32 \<Longrightarrow> drop_bit j (push_bit i (take_bit n v)) = push_bit (i - j) (take_bit n v)"
  by (rule bit_word_eqI; auto simp: bit_simps add.commute)+

lemma take_field: "k \<le> i \<Longrightarrow> take_bit k (push_bit i (v :: u32)) = 0"
  by (rule bit_word_eqI) (auto simp: bit_simps)

lemma drop_opcode: "take_bit 7 (opc :: u32) = opc \<Longrightarrow> 7 \<le> j \<Longrightarrow> drop_bit j opc = 0"
  by (rule bit_word_eqI) (metis bit_0_eq bit_drop_bit_eq bit_take_bit_iff bot_apply bot_bool_def comp_apply le_add1 linorder_not_less order_trans)

lemmas field_simps32 = take_bit_or drop_bit_or drop_field take_field drop_opcode

lemma r_type_fields:
  assumes "take_bit 7 opc = opc"
  shows "take_bit 7 (rv_r_type f7 rs2 rs1 f3 rd opc) = opc"
    and "take_bit 5 (drop_bit 7 (rv_r_type f7 rs2 rs1 f3 rd opc)) = take_bit 5 rd"
    and "take_bit 3 (drop_bit 12 (rv_r_type f7 rs2 rs1 f3 rd opc)) = take_bit 3 f3"
    and "take_bit 5 (drop_bit 15 (rv_r_type f7 rs2 rs1 f3 rd opc)) = take_bit 5 rs1"
    and "take_bit 5 (drop_bit 20 (rv_r_type f7 rs2 rs1 f3 rd opc)) = take_bit 5 rs2"
    and "take_bit 7 (drop_bit 25 (rv_r_type f7 rs2 rs1 f3 rd opc)) = take_bit 7 f7"
  unfolding rv_r_type_def low_bits by (simp_all add: field_simps32 assms)

lemma i_type_fields:
  assumes "take_bit 7 opc = opc"
  shows "take_bit 7 (rv_i_type imm rs1 f3 rd opc) = opc"
    and "take_bit 5 (drop_bit 7 (rv_i_type imm rs1 f3 rd opc)) = take_bit 5 rd"
    and "take_bit 3 (drop_bit 12 (rv_i_type imm rs1 f3 rd opc)) = take_bit 3 f3"
    and "take_bit 5 (drop_bit 15 (rv_i_type imm rs1 f3 rd opc)) = take_bit 5 rs1"
    and "drop_bit 20 (rv_i_type imm rs1 f3 rd opc) = take_bit 12 (scast imm)"
    and "drop_bit 25 (rv_i_type imm rs1 f3 rd opc) = drop_bit 5 (take_bit 12 (scast imm))"
proof -
  show d: "drop_bit 20 (rv_i_type imm rs1 f3 rd opc) = take_bit 12 (scast imm)"
    unfolding rv_i_type_def low_bits by (simp add: field_simps32 assms)
  have "drop_bit 25 (rv_i_type imm rs1 f3 rd opc) = drop_bit 5 (drop_bit 20 (rv_i_type imm rs1 f3 rd opc))" by simp
  then show "drop_bit 25 (rv_i_type imm rs1 f3 rd opc) = drop_bit 5 (take_bit 12 (scast imm))" using d by simp
qed (unfold rv_i_type_def low_bits, simp_all add: field_simps32 assms)

lemma s_type_fields:
  assumes "take_bit 7 opc = opc"
  shows "take_bit 7 (rv_s_type imm rs2 rs1 f3 opc) = opc"
    and "take_bit 5 (drop_bit 7 (rv_s_type imm rs2 rs1 f3 opc)) = take_bit 5 (scast imm)"
    and "take_bit 3 (drop_bit 12 (rv_s_type imm rs2 rs1 f3 opc)) = take_bit 3 f3"
    and "take_bit 5 (drop_bit 15 (rv_s_type imm rs2 rs1 f3 opc)) = take_bit 5 rs1"
    and "take_bit 5 (drop_bit 20 (rv_s_type imm rs2 rs1 f3 opc)) = take_bit 5 rs2"
    and "take_bit 7 (drop_bit 25 (rv_s_type imm rs2 rs1 f3 opc)) = take_bit 7 (signed_drop_bit 5 (scast imm))"
  unfolding rv_s_type_def low_bits Let_def by (simp_all add: field_simps32 assms)

text \<open>The immediate is read back as it was given.\<close>

lemma small_imm_bits:
  assumes "- 2048 \<le> sint (imm :: u16)" and "sint imm < 2048"
  shows "bit imm (min 15 n) = bit imm (min 11 n)"
proof -
  have b: "bit (sint imm) k = bit imm (min 15 k)" for k
    by (cases "k < 15"; cases "k = 15") (auto simp: bit_sint_iff min_def dest: bit_imp_le_length)
  have "signed_take_bit 11 (sint imm) = sint imm" using assms by (simp add: signed_take_bit_int_eq_self_iff)
  moreover have "bit (signed_take_bit 11 (sint imm)) n = bit (sint imm) (min 11 n)" by (simp add: bit_signed_take_bit_iff)
  ultimately have "bit (sint imm) n = bit (sint imm) (min 11 n)" by simp
  then show ?thesis unfolding b by (simp add: min_def split: if_splits)
qed

lemma bit_sext12: "bit (sext12 w) n \<longleftrightarrow> n < 64 \<and> bit w (min 11 n)"
proof -
  have m: "(0xFFF :: u64) = mask 12" "(0xFFF :: u32) = mask 12" by (simp_all add: mask_eq_exp_minus_1)
  have e: "(w AND 0x800 \<noteq> 0) = bit w 11"
  proof -
    have "(0x800 :: u32) = push_bit 11 1" by simp
    then show ?thesis by (simp only: bit_iff_and_push_bit_not_eq_0) 
  qed
  show ?thesis unfolding sext12_def Let_def e m
    by (cases "n < 11"; cases "n = 11") (auto simp: bit_simps min_def)
qed

lemma sext12_imm:
  assumes "- 2048 \<le> sint (imm :: u16)" and "sint imm < 2048"
  shows "sext12 (take_bit 12 (scast imm)) = scast imm"
proof (rule bit_word_eqI)
  fix n assume "n < LENGTH(64)"
  then show "bit (sext12 (take_bit 12 (scast imm))) n = bit (scast imm :: u64) n"
    using small_imm_bits [OF assms, of n] by (simp add: bit_sext12 bit_take_bit_iff bit_signed_iff min_def split: if_splits)
qed

lemma scast_bits: "bit (scast (w :: u16) :: u32) n \<longleftrightarrow> n < 32 \<and> bit w (min 15 n)"
  by (simp add: bit_signed_iff)

lemma store_offset:
  assumes "- 2048 \<le> sint (imm :: u16)" and "sint imm < 2048"
  shows "sext12 (push_bit 5 (take_bit 7 (signed_drop_bit 5 (scast imm)))) OR ucast (take_bit 5 (scast imm :: u32)) = (scast imm :: u64)"
proof (rule bit_word_eqI)
  fix n assume "n < LENGTH(64)"
  then show "bit (sext12 (push_bit 5 (take_bit 7 (signed_drop_bit 5 (scast imm)))) OR ucast (take_bit 5 (scast imm :: u32))) n = bit (scast imm :: u64) n"
    using small_imm_bits [OF assms, of n]
    by (cases "n < 5"; cases "n < 11") (auto simp: bit_sext12 bit_simps scast_bits min_def split: if_splits)
qed

section \<open>Emitted code\<close>

lemma nth_le32: "le32 w ! 0 = ucast w" "le32 w ! 1 = ucast (drop_bit 8 w)" "le32 w ! 2 = ucast (drop_bit 16 w)" "le32 w ! 3 = ucast (drop_bit 24 w)"
  by (simp_all add: le32_def)

lemma fetch_at:
  assumes "unat pc = length xs"
  shows "fetch32 (xs @ le32 w @ ys) pc = w"
proof -
  have "(xs @ le32 w @ ys) ! (length xs + k) = le32 w ! k" if "k < 4" for k using that by (simp add: nth_append)
  from this [of 0] this [of 1] this [of 2] this [of 3] show ?thesis
    by (simp add: fetch32_def assms Let_def nth_le32 word_of_bytes [unfolded One_nat_def] del: One_nat_def)
qed

text \<open>What has been emitted, and that emission appends an instruction while there is room.\<close>

definition emitted :: "RV64Enc \<Rightarrow> bytes" where "emitted e = take (enc_pos e) (enc_buf e)"

definition room :: "nat \<Rightarrow> RV64Enc \<Rightarrow> bool" where
  "room n e \<longleftrightarrow> length (enc_buf e) = enc_cap e \<and> enc_pos e + 4 * n \<le> enc_cap e"

lemma length_emitted: "room n e \<Longrightarrow> length (emitted e) = enc_pos e"
  by (auto simp: room_def emitted_def)

lemma emit_rule:
  assumes "room (Suc n) e"
  shows "room n (rv64_emit w e)" and "emitted (rv64_emit w e) = emitted e @ le32 w" and "enc_pos (rv64_emit w e) = enc_pos e + 4"
  using assms by (auto simp: room_def rv64_emit_def emitted_def length_put_bytes take_put_bytes [of _ "le32 w", simplified])

text \<open>A round of the loop at an instruction that has been emitted.\<close>

lemma step_at:
  assumes "unat (rv_pc cpu) = length xs" and "length (x_regs cpu) = 32"
  shows "rv_step ops (xs @ le32 w @ ys) cpu = rv_exec ops (xs @ le32 w @ ys) w ((set_reg 0 0 cpu)\<lparr>rv_pc := rv_pc cpu + 4\<rparr>)"
  using assms by (simp add: rv_step_def Let_def set_reg_def fetch_at)

section \<open>The instructions\<close>

text \<open>The instructions that the encoder emits and the interpreter executes as the architecture says. The encoder
  emits more: DIV and REM, which the interpreter executes with a convention of its own (quotient in \<open>rd\<close>, remainder in
  \<open>x11\<close>), and branches, jumps and LUI.\<close>

datatype alu = AluAdd | AluSub | AluMul | AluAnd | AluOr | AluXor | AluSll | AluSrl | AluSra | AluSlt | AluSltu

fun alu_sem :: "alu \<Rightarrow> u64 \<Rightarrow> u64 \<Rightarrow> u64" where
  "alu_sem AluAdd a b = a + b"
| "alu_sem AluSub a b = a - b"
| "alu_sem AluMul a b = a * b"
| "alu_sem AluAnd a b = a AND b"
| "alu_sem AluOr a b = a OR b"
| "alu_sem AluXor a b = a XOR b"
| "alu_sem AluSll a b = push_bit (unat b mod 64) a"
| "alu_sem AluSrl a b = drop_bit (unat b mod 64) a"
| "alu_sem AluSra a b = signed_drop_bit (unat b mod 64) a"
| "alu_sem AluSlt a b = (if sint a < sint b then 1 else 0)"
| "alu_sem AluSltu a b = (if unat a < unat b then 1 else 0)"

datatype rv_ins = Alu alu RV64Reg RV64Reg RV64Reg | AluImm alu RV64Reg RV64Reg u16 | Shift alu RV64Reg RV64Reg u8
  | Ld RV64Reg RV64Reg u16 | Sd RV64Reg RV64Reg u16

fun emit_alu :: "alu \<Rightarrow> RV64Reg \<Rightarrow> RV64Reg \<Rightarrow> RV64Reg \<Rightarrow> RV64Enc \<Rightarrow> RV64Enc" where
  "emit_alu AluAdd = rv64_add" | "emit_alu AluSub = rv64_sub" | "emit_alu AluMul = rv64_mul" | "emit_alu AluAnd = rv64_and"
| "emit_alu AluOr = rv64_or" | "emit_alu AluXor = rv64_xor" | "emit_alu AluSll = rv64_sll" | "emit_alu AluSrl = rv64_srl"
| "emit_alu AluSra = rv64_sra" | "emit_alu AluSlt = rv64_slt" | "emit_alu AluSltu = rv64_sltu"

fun emit_ins :: "rv_ins \<Rightarrow> RV64Enc \<Rightarrow> RV64Enc" where
  "emit_ins (Alu f rd rs1 rs2) = emit_alu f rd rs1 rs2"
| "emit_ins (AluImm f rd rs1 imm) =
     (case f of AluAdd \<Rightarrow> rv64_addi rd rs1 imm | AluAnd \<Rightarrow> rv64_andi rd rs1 imm | AluOr \<Rightarrow> rv64_ori rd rs1 imm
      | AluXor \<Rightarrow> rv64_xori rd rs1 imm | AluSlt \<Rightarrow> rv64_slti rd rs1 imm | AluSltu \<Rightarrow> rv64_sltiu rd rs1 imm | _ \<Rightarrow> (\<lambda>e. e))"
| "emit_ins (Shift f rd rs1 n) =
     (case f of AluSll \<Rightarrow> rv64_slli rd rs1 n | AluSrl \<Rightarrow> rv64_srli rd rs1 n | AluSra \<Rightarrow> rv64_srai rd rs1 n | _ \<Rightarrow> (\<lambda>e. e))"
| "emit_ins (Ld rd base off) = rv64_ld rd base off"
| "emit_ins (Sd rs2 base off) = rv64_sd rs2 base off"

definition is_imm :: "u16 \<Rightarrow> bool" where "is_imm imm \<longleftrightarrow> - 2048 \<le> sint imm \<and> sint imm < 2048"

text \<open>Registers exist, immediates have 12 bits, and the form exists. A logical right shift by 32 or more is left out: the
  interpreter takes bit 5 of the amount for a sign that the shift is arithmetic.\<close>

fun ins_ok :: "rv_ins \<Rightarrow> bool" where
  "ins_ok (Alu f rd rs1 rs2) \<longleftrightarrow> unat rd < 32 \<and> unat rs1 < 32 \<and> unat rs2 < 32"
| "ins_ok (AluImm f rd rs1 imm) \<longleftrightarrow> unat rd < 32 \<and> unat rs1 < 32 \<and> is_imm imm \<and> f \<in> {AluAdd, AluAnd, AluOr, AluXor, AluSlt, AluSltu}"
| "ins_ok (Shift f rd rs1 n) \<longleftrightarrow> unat rd < 32 \<and> unat rs1 < 32 \<and> unat n < (if f = AluSrl then 32 else 64) \<and> f \<in> {AluSll, AluSrl, AluSra}"
| "ins_ok (Ld rd base off) \<longleftrightarrow> unat rd < 32 \<and> unat base < 32 \<and> is_imm off"
| "ins_ok (Sd rs2 base off) \<longleftrightarrow> unat rs2 < 32 \<and> unat base < 32 \<and> is_imm off"

definition put_result :: "RV64Reg \<Rightarrow> u64 \<Rightarrow> rv_cpu \<Rightarrow> rv_cpu" where
  "put_result rd v cpu = set_nz v (set_reg (unat rd) v cpu)"

fun isa_step :: "rv_ins \<Rightarrow> rv_cpu \<Rightarrow> rv_outcome" where
  "isa_step (Alu f rd rs1 rs2) cpu = Next (put_result rd (alu_sem f (reg cpu (unat rs1)) (reg cpu (unat rs2))) cpu)"
| "isa_step (AluImm f rd rs1 imm) cpu = Next (put_result rd (alu_sem f (reg cpu (unat rs1)) (word_of_int (sint imm))) cpu)"
| "isa_step (Shift f rd rs1 n) cpu = Next (put_result rd (alu_sem f (reg cpu (unat rs1)) (of_nat (unat n))) cpu)"
| "isa_step (Ld rd base off) cpu =
     (let addr = reg cpu (unat base) + word_of_int (sint off) in
      if unat addr + 8 \<le> RV_MEM then Next (put_result rd (rd64 (rv_mem cpu) (unat addr)) cpu) else Undefined)"
| "isa_step (Sd rs2 base off) cpu =
     (let addr = reg cpu (unat base) + word_of_int (sint off) in
      if unat addr + 8 \<le> RV_MEM then Next (cpu\<lparr>rv_mem := wr64 (rv_mem cpu) (unat addr) (reg cpu (unat rs2))\<rparr>) else Undefined)"

lemma take5: "unat (r :: u32) < 32 \<Longrightarrow> take_bit 5 r = r"
proof -
  assume "unat r < 32"
  then have "unat (take_bit 5 r) = unat r" by (simp add: unat_take_bit_mod)
  then show "take_bit 5 r = r" by (simp only: word_unat_eq_iff)
qed

lemma and_63: "unat ((b :: u64) AND 0x3F) = unat b mod 64"
proof -
  have "(0x3F :: u64) = mask 6" by (simp add: mask_eq_exp_minus_1)
  then show ?thesis by (simp only: unat_and_mask) simp
qed

lemma scast_sint: "(scast (w :: u16) :: u64) = word_of_int (sint w)"
  by (fact scast_eq)

lemma exec_r:
  "rv_exec ops code (rv_r_type f7 rs2 rs1 f3 rd RV_OP_OP) cpu =
     (case op_result (take_bit 3 f3) (take_bit 7 f7) (reg cpu (unat (take_bit 5 rs1))) (reg cpu (unat (take_bit 5 rs2))) of
        None \<Rightarrow> Undefined
      | Some (res, extra) \<Rightarrow>
          Next (put_result (take_bit 5 rd) res (case extra of None \<Rightarrow> cpu | Some r \<Rightarrow> set_reg 11 r cpu)))"
proof -
  have o: "take_bit 7 RV_OP_OP = RV_OP_OP" by (simp add: rv_ops)
  note f = r_type_fields [OF o, of f7 rs2 rs1 f3 rd]
  show ?thesis unfolding rv_exec_def exec_op_def low_bits f by (simp add: rv_ops put_result_def Let_def split: option.splits)
qed

lemma exec_i:
  "rv_exec ops code (rv_i_type imm rs1 f3 rd RV_OP_OP_IMM) cpu =
     Next (put_result (take_bit 5 rd) (imm_result (take_bit 3 f3) (take_bit 7 (drop_bit 5 (take_bit 12 (scast imm))))
       (reg cpu (unat (take_bit 5 rs1))) (sext12 (take_bit 12 (scast imm)))) cpu)"
proof -
  have o: "take_bit 7 RV_OP_OP_IMM = RV_OP_OP_IMM" by (simp add: rv_ops)
  note f = i_type_fields [OF o, of imm rs1 f3 rd]
  show ?thesis unfolding rv_exec_def exec_op_imm_def low_bits f by (simp add: rv_ops put_result_def Let_def)
qed

lemma exec_ld:
  "rv_exec ops code (rv_i_type imm rs1 0x3 rd RV_OP_LOAD) cpu =
     (case load_value 3 (reg cpu (unat (take_bit 5 rs1)) + sext12 (take_bit 12 (scast imm))) (rv_mem cpu) of
        None \<Rightarrow> Undefined | Some v \<Rightarrow> Next (put_result (take_bit 5 rd) v cpu))"
proof -
  have o: "take_bit 7 RV_OP_LOAD = RV_OP_LOAD" by (simp add: rv_ops)
  note f = i_type_fields [OF o, of imm rs1 "0x3" rd]
  show ?thesis unfolding rv_exec_def exec_load_def low_bits f by (simp add: rv_ops put_result_def Let_def split: option.splits)
qed

lemma exec_sd:
  "rv_exec ops code (rv_s_type imm rs2 rs1 0x3 RV_OP_STORE) cpu =
     (case store_value 3 (reg cpu (unat (take_bit 5 rs1)) + (sext12 (push_bit 5 (take_bit 7 (signed_drop_bit 5 (scast imm)))) OR
         ucast (take_bit 5 (scast imm :: u32)))) (reg cpu (unat (take_bit 5 rs2))) (rv_mem cpu) of
        None \<Rightarrow> Undefined | Some m \<Rightarrow> Next (cpu\<lparr>rv_mem := m\<rparr>))"
proof -
  have o: "take_bit 7 RV_OP_STORE = RV_OP_STORE" by (simp add: rv_ops)
  note f = s_type_fields [OF o, of imm rs2 rs1 "0x3"]
  show ?thesis unfolding rv_exec_def exec_store_def low_bits f by (simp add: rv_ops Let_def)
qed

lemma masks: "(0x3F :: u64) = mask 6" "(0x3F :: u16) = mask 6"
  by (simp_all add: mask_eq_exp_minus_1)

lemma bit_400: "bit (0x400 :: u16) k \<longleftrightarrow> k = 10" "bit (0x400 :: u32) k \<longleftrightarrow> k = 10"
proof -
  have "(0x400 :: u16) = push_bit 10 1" "(0x400 :: u32) = push_bit 10 1" by simp_all
  then show "bit (0x400 :: u16) k \<longleftrightarrow> k = 10" "bit (0x400 :: u32) k \<longleftrightarrow> k = 10" by (simp_all only: bit_push_bit_iff bit_1_iff) auto
qed

lemma shamt_bits:
  assumes "unat (n :: u8) < 64" and "bit n k"
  shows "k < 6"
proof -
  have "take_bit 6 n = n" using assms(1) unat_take_bit_mod [of 6 n] by (simp add: word_unat_eq_iff)
  then show ?thesis using assms(2) by (metis bit_take_bit_iff)
qed

lemma unat_ucast_8_64: "unat (ucast (n :: u8) :: u64) = unat n"
proof -
  have "unat n < 2 ^ 64" by (rule order_less_trans [OF unat_less_256]) simp
  then show ?thesis by (simp add: unsigned_ucast_eq take_bit_nat_eq_self)
qed

lemma shift_amount:
  assumes "unat (n :: u8) < 64" and v: "v = (ucast n :: u16) AND 0x3F \<or> v = ucast n AND 0x3F OR 0x400"
  shows "unat (sext12 (take_bit 12 (scast v)) AND 0x3F) = unat n"
proof -
  have vb: "bit v k = bit n k" if "k < 6" for k
    using v that unfolding masks by (elim disjE; simp only:) (auto simp only: bit_and_iff bit_or_iff bit_400 bit_mask_iff bit_unsigned_iff, auto)
  have "sext12 (take_bit 12 (scast v)) AND 0x3F = (ucast n :: u64)"
  proof (rule bit_word_eqI)
    fix k assume "k < LENGTH(64)"
    then show "bit (sext12 (take_bit 12 (scast v)) AND 0x3F) k = bit (ucast n :: u64) k"
      using vb [of k] shamt_bits [OF assms(1), of k] unfolding masks
      by (cases "k < 6") (auto simp: bit_sext12 bit_simps scast_bits min_def)
  qed
  then show ?thesis by (simp add: unat_ucast_8_64)
qed

lemma shift_kind:
  assumes "unat (n :: u8) < 64"
  shows "unat n < 32 \<Longrightarrow> take_bit 7 (drop_bit 5 (take_bit 12 (scast ((ucast n :: u16) AND 0x3F)) :: u32)) = 0"
    and "take_bit 7 (drop_bit 5 (take_bit 12 (scast ((ucast n :: u16) AND 0x3F OR 0x400)) :: u32)) \<noteq> 0"
proof -
  assume "unat n < 32"
  then have "take_bit 5 n = n" using unat_take_bit_mod [of 5 n] by (simp add: word_unat_eq_iff)
  then have b: "bit n k \<Longrightarrow> k < 5" for k by (metis bit_take_bit_iff)
  show "take_bit 7 (drop_bit 5 (take_bit 12 (scast ((ucast n :: u16) AND 0x3F)) :: u32)) = 0"
    unfolding masks by (rule bit_word_eqI) (auto simp: bit_simps scast_bits min_def dest: b split: if_splits)
next
  have "bit (take_bit 7 (drop_bit 5 (take_bit 12 (scast ((ucast n :: u16) AND 0x3F OR 0x400)) :: u32))) 5"
    unfolding masks by (simp add: bit_simps scast_bits bit_400)
  then show "take_bit 7 (drop_bit 5 (take_bit 12 (scast ((ucast n :: u16) AND 0x3F OR 0x400)) :: u32)) \<noteq> 0" by auto
qed

lemma emit_ins_word:
  assumes "ins_ok i"
  shows "\<exists>w. emit_ins i = rv64_emit w \<and> (\<forall>ops code cpu. rv_exec ops code w cpu = isa_step i cpu)"
proof (cases i)
  case (Alu f rd rs1 rs2)
  then have "unat rd < 32" "unat rs1 < 32" "unat rs2 < 32" using assms by auto
  note t = this [THEN take5]
  show ?thesis
    by (cases f) (auto simp: Alu rv64_add_def rv64_sub_def rv64_mul_def rv64_and_def rv64_or_def rv64_xor_def rv64_sll_def rv64_srl_def
        rv64_sra_def rv64_slt_def rv64_sltu_def exec_r t op_result_def and_63 word_sless_alt word_less_nat_alt intro!: exI)
next
  case (AluImm f rd rs1 imm)
  then have r: "unat rd < 32" "unat rs1 < 32" and im: "is_imm imm" and f: "f \<in> {AluAdd, AluAnd, AluOr, AluXor, AluSlt, AluSltu}"
    using assms by auto
  note t = r [THEN take5]
  have x: "sext12 (take_bit 12 (scast imm)) = word_of_int (sint imm)"
    using im sext12_imm [of imm] scast_sint [of imm] by (simp only: is_imm_def)
  show ?thesis using f
    by (cases f) (auto simp: AluImm rv64_addi_def rv64_andi_def rv64_ori_def rv64_xori_def rv64_slti_def rv64_sltiu_def exec_i t x imm_result_def
        word_sless_alt word_less_nat_alt intro!: exI)
next
  case (Ld rd base off)
  then have r: "unat rd < 32" "unat base < 32" and im: "is_imm off" using assms by auto
  note t = r [THEN take5]
  have x: "sext12 (take_bit 12 (scast off)) = word_of_int (sint off)"
    using im sext12_imm [of off] scast_sint [of off] by (simp only: is_imm_def)
  show ?thesis by (auto simp: Ld rv64_ld_def exec_ld t x load_value_def in_mem_def Let_def intro!: exI)
next
  case (Sd rs2 base off)
  then have r: "unat rs2 < 32" "unat base < 32" and im: "is_imm off" using assms by auto
  note t = r [THEN take5]
  have x: "sext12 (push_bit 5 (take_bit 7 (signed_drop_bit 5 (scast off)))) OR ucast (take_bit 5 (scast off :: u32)) = word_of_int (sint off)"
    using im store_offset [of off] scast_sint [of off] by (simp only: is_imm_def)
  show ?thesis by (auto simp: Sd rv64_sd_def exec_sd t x store_value_def in_mem_def Let_def intro!: exI)
next
  case (Shift f rd rs1 n)
  then have r: "unat rd < 32" "unat rs1 < 32" and n: "unat n < 64" "f = AluSrl \<Longrightarrow> unat n < 32" and f: "f \<in> {AluSll, AluSrl, AluSra}"
    using assms by (auto split: if_splits)
  note t = r [THEN take5]
  have m: "unat (of_nat (unat n) :: u64) mod 64 = unat n" using n(1) by (simp add: unat_ucast_8_64)
  note a = shift_amount [OF n(1) disjI1 [OF refl]] shift_amount [OF n(1) disjI2 [OF refl]] and k = shift_kind [OF n(1)]
  show ?thesis using f n(2)
    by (cases f) (auto simp: Shift rv64_slli_def rv64_srli_def rv64_srai_def exec_i t imm_result_def m a k simp del: of_nat_unat intro!: exI)
qed

text \<open>C34: the encoder and the interpreter agree on the architecture for these instructions: ADD, SUB, MUL, AND, OR,
  XOR, SLL, SRL, SRA, SLT, SLTU on registers; ADDI, ANDI, ORI, XORI, SLTI, SLTIU with a 12-bit immediate; SLLI and SRAI
  by less than 64 and SRLI by less than 32; LD and SD with a 12-bit offset. Emitted behind any code while there is
  room, and executed where it was emitted, such an instruction has exactly the effect that it has by definition,
  with \<open>x0\<close> read as 0 and the program counter behind it; a load or store outside the memory is the only access
  that faults. Not covered: SRLI by 32 or more, which the interpreter executes as an arithmetic shift, REM, for
  which it stores the quotient, DIV, for which it also writes \<open>x11\<close>, and branches, jumps and LUI.\<close>

theorem emitted_instruction_executes:
  assumes "ins_ok i" and "room (Suc n) e" and "enc_cap e < 2 ^ 63" and "length (x_regs cpu) = 32" and "rv_pc cpu = of_nat (enc_pos e)"
  shows "rv_step ops (emitted (emit_ins i e)) cpu = isa_step i ((set_reg 0 0 cpu)\<lparr>rv_pc := rv_pc cpu + 4\<rparr>)"
proof -
  from emit_ins_word [OF assms(1)] obtain w where w: "emit_ins i = rv64_emit w" "\<And>ops code cpu. rv_exec ops code w cpu = isa_step i cpu" by blast
  have em: "emitted (emit_ins i e) = emitted e @ le32 w @ []" using emit_rule(2) [OF assms(2)] w(1) by simp
  have "unat (rv_pc cpu) = length (emitted e)"
    using assms(2,3,5) length_emitted [OF assms(2)] by (auto simp: room_def)
  from step_at [OF this assms(4), of ops w "[]"] show ?thesis unfolding em by (simp add: w(2))
qed

definition no_host :: host_ops where
  "no_host = \<lparr>sf_op = (\<lambda>fn a b. 0), sf_cmp = (\<lambda>a b. 0), tgemm_mem8 = (\<lambda>m a b c i j k. m)\<rparr>"

theorem emitted_instruction_executes_witness:
  "rv_step no_host (emitted (rv64_addi 10 0 42 (rv64_enc_init (replicate 8 0) 8))) rv_start =
     Next (put_result 10 42 (rv_start\<lparr>rv_pc := 4\<rparr>))"
proof -
  have "rv_step no_host (emitted (emit_ins (AluImm AluAdd 10 0 42) (rv64_enc_init (replicate 8 0) 8))) rv_start =
    isa_step (AluImm AluAdd 10 0 42) ((set_reg 0 0 rv_start)\<lparr>rv_pc := rv_pc rv_start + 4\<rparr>)"
    by (rule emitted_instruction_executes [where n = 1])
      (simp_all add: is_imm_def room_def rv64_enc_init_def rv_start_def)
  moreover have "set_reg 0 0 rv_start = rv_start" by (simp add: set_reg_def rv_start_def eval_nat_numeral)
  ultimately show ?thesis by (simp add: rv_start_def eval_nat_numeral)
qed

end
