(* ===== verification/Minic_Props.thy ===== *)
theory Minic_Props
  imports Minic_Compile Minic_C Rv64_Facts
begin

text \<open>
  The compiler, the RISC-V back end, the encoder and the interpreter together: what a compiled constant expression
  returns.
\<close>

section \<open>Running emitted code\<close>

lemma loop_at:
  assumes "unat (rv_pc cpu) = length xs" and "length (x_regs cpu) = 32" and "length (xs @ le32 w @ ys) < 2 ^ 63"
  shows "rv_loop ops (xs @ le32 w @ ys) cpu =
    (case rv_exec ops (xs @ le32 w @ ys) w ((set_reg 0 0 cpu)\<lparr>rv_pc := rv_pc cpu + 4\<rparr>) of
       Next c \<Rightarrow> rv_loop ops (xs @ le32 w @ ys) c | Halt c \<Rightarrow> Some (Returned (rv_return c)) | Undefined \<Rightarrow> Some Faulted)"
proof -
  have "rv_pc cpu + 4 \<le> of_nat (length (xs @ le32 w @ ys))"
    using assms(1,3) by (simp add: word_le_nat_alt unat_word_ariths)
  then show ?thesis by (subst rv_loop.simps) (simp add: step_at [OF assms(1,2)])
qed

lemma exec_ret:
  assumes "reg cpu 1 = 0"
  shows "rv_exec ops code (rv_i_type 0 RV_RA 0 RV_X0 RV_OP_JALR) cpu = Halt cpu"
proof -
  have o: "take_bit 7 RV_OP_JALR = RV_OP_JALR" by (simp add: rv_ops)
  note f = i_type_fields [OF o, of 0 RV_RA 0 RV_X0]
  show ?thesis unfolding rv_exec_def exec_jalr_def low_bits f using assms by (simp add: rv_ops rv_regs sext12_def Let_def)
qed

definition small_value :: "u64 \<Rightarrow> u64" where "small_value v = (if unat v < 2048 then v else v - 4096)"

lemma sext12_small:
  assumes "unat (v :: u64) < 4096"
  shows "sext12 (ucast v) = small_value v"
proof -
  have "take_bit 12 v = v" using assms unat_take_bit_mod [of 12 v] by (simp add: word_unat_eq_iff)
  then have b: "bit v k \<Longrightarrow> k < 12" for k by (metis bit_take_bit_iff)
  have s: "bit v 11 \<longleftrightarrow> 2048 \<le> unat v"
  proof -
    have "bit v 11 \<longleftrightarrow> bit (unat v) 11" by (simp add: bit_unsigned_iff)
    also have "\<dots> \<longleftrightarrow> odd (unat v div 2048)" by (simp add: bit_iff_odd)
    also have "\<dots> \<longleftrightarrow> 2048 \<le> unat v"
    proof (cases "2048 \<le> unat v")
      case True
      then have "unat v div 2048 = 1" using assms by linarith
      then show ?thesis using True by simp
    qed simp
    finally show ?thesis .
  qed
  show ?thesis
  proof (cases "2048 \<le> unat v")
    case False
    have b11: "bit v k \<Longrightarrow> k < 11" for k using b [of k] s False by (cases "k = 11") auto
    have "sext12 (ucast v) = v" using s False by (intro bit_word_eqI) (auto simp: bit_sext12 bit_simps min_def dest: b11)
    then show ?thesis using False by (simp add: small_value_def)
  next
    case True
    have "sext12 (ucast v) = v OR NOT (mask 12)" 
    proof (rule bit_word_eqI)
      fix n assume "n < LENGTH(64)"
      then show "bit (sext12 (ucast v)) n = bit (v OR NOT (mask 12)) n" using True s b [of n]
        by (cases "n = 11"; cases "n < 11") (auto simp: bit_sext12 bit_simps min_def)
    qed
    also have "\<dots> = v + NOT (mask 12)" by (rule disjunctive_add [symmetric]) (use b in \<open>auto simp: bit_simps\<close>)
    also have "NOT (mask 12 :: u64) = - 4096" by (simp add: mask_eq_exp_minus_1)
    finally show ?thesis using True by (simp add: small_value_def)
  qed
qed

lemma li_small:
  assumes "unat v < 4096"
  shows "\<exists>imm. rv64_li rd v = rv64_addi rd RV_X0 imm \<and> sext12 (take_bit 12 (scast imm)) = small_value v"
proof -
  have "take_bit 12 v = v" using assms unat_take_bit_mod [of 12 v] by (simp add: word_unat_eq_iff)
  then have b: "bit v k \<Longrightarrow> k < 12" for k by (metis bit_take_bit_iff)
  have z: "signed_drop_bit 12 v = 0" by (rule bit_word_eqI) (use b [of 63] b in \<open>auto simp: bit_simps dest: b\<close>)
  let ?lo = "if (ucast (v AND 0xFFF) :: u32) AND 0x800 \<noteq> 0 then ucast (v AND 0xFFF) OR NOT 0xFFF else ucast (v AND 0xFFF) :: u32"
  have e: "rv64_li rd v = rv64_addi rd RV_X0 (ucast ?lo)" by (rule ext) (simp add: rv64_li_def Let_def z)
  have m: "(0xFFF :: u64) = mask 12" "(0xFFF :: u32) = mask 12" by (simp_all add: mask_eq_exp_minus_1)
  have "sext12 (take_bit 12 (scast (ucast ?lo :: u16))) = sext12 (ucast v)"
    unfolding m by (rule bit_word_eqI) (auto simp: bit_sext12 bit_simps scast_bits min_def)
  then show ?thesis using e sext12_small [OF assms] by auto
qed

section \<open>The compiled program\<close>

lemma blank_at: "cg_next_token (CHR '' '' # s) tok = cg_next_token s tok"
  by (simp add: cg_next_token_def cg_skip_ws_def)

lemma return_at: "cg_next_token (''return '' @ s) tok = (CHR '' '' # s, tok\<lparr>tok_type := TOK_RETURN, tok_text := ''return''\<rparr>)"
  by (simp add: cg_next_token_def cg_skip_ws_def cg_peek_def is_alpha_def is_digit_def keyword_def Let_def)

lemma end_at: "at [] l \<Longrightarrow> cur l = TOK_EOF"
  by (auto simp: at_def cg_next_token_def cg_skip_ws_def cg_peek_def)

lemma compile_return:
  assumes "c_tree e" and "plain e" and "c_value e = Some z" and "c_size e + 4 \<le> n"
  shows "jit_minic_compile_cg vt n enc (''return '' @ c_text e @ '';'') =
    Some (vt_epilogue vt 8 (vt_mov_imm vt 0 (word_of_int z) (vt_prologue vt 0 8 enc)))"
proof -
  from assms(4) obtain k where k: "n = c_size e + 4 + k" by (auto simp: le_iff_add)
  define m where "m = c_size e + 1 + k"
  have n: "n = Suc (Suc (Suc m))" by (simp add: k m_def)
  let ?tok = "blank_token\<lparr>tok_type := TOK_RETURN, tok_text := ''return''\<rparr>"
  have "at (c_text e @ '';'') (cg_next_token (c_text e @ '';'') ?tok)" by (auto simp: at_def)
  moreover have "ends '';''" by (simp add: ends_def)
  moreover have "c_size e \<le> Suc m" by (simp add: m_def)
  ultimately obtain l where l: "cg_const_eval (Suc m) (cg_next_token (c_text e @ '';'') ?tok) = Some (Some (word_of_int z), l)" "at '';'' l"
    using c_const_eval [OF assms(1-3)] by metis
  note q = sign_at(5) [OF l(2)]
  have "cur (advance l) = TOK_EOF" using end_at at_advance q by blast
  then show ?thesis using q l(1) unfolding n
    by (simp add: jit_minic_compile_cg_def Let_def return_at [simplified] cg_compile_return_stmt_def cg_compile_expr_def compile_expr_with_def
        cg_consume_def next_tok_def advance_def blank_at emit_def)
qed

section \<open>From the text to the result\<close>

text \<open>A state of a running program without calls.\<close>

definition running :: "nat \<Rightarrow> rv_cpu \<Rightarrow> bool" where
  "running k cpu \<longleftrightarrow> length (x_regs cpu) = 32 \<and> rv_pc cpu = of_nat k \<and> reg cpu 1 = 0 \<and> \<not> fret_valid cpu"

abbreviation addi_word :: "RV64Reg \<Rightarrow> RV64Reg \<Rightarrow> u16 \<Rightarrow> u32" where
  "addi_word rd rs imm \<equiv> rv_i_type imm rs 0 rd RV_OP_OP_IMM"

lemma addi_runs:
  assumes "running (length xs) cpu" and "length (xs @ le32 (addi_word rd rs imm) @ ys) < 2 ^ 63"
    and r: "unat rd < 32" "unat rd \<noteq> 1" "unat rs < 32"
  shows "\<exists>cpu'. rv_loop ops (xs @ le32 (addi_word rd rs imm) @ ys) cpu = rv_loop ops (xs @ le32 (addi_word rd rs imm) @ ys) cpu' \<and>
    running (length xs + 4) cpu' \<and> reg cpu' (unat rd) = (if rs = 0 then 0 else reg cpu (unat rs)) + sext12 (take_bit 12 (scast imm)) \<and>
    (\<forall>j. 0 < j \<and> j \<noteq> unat rd \<longrightarrow> reg cpu' j = reg cpu j)"
proof -
  let ?c = "(set_reg 0 0 cpu)\<lparr>rv_pc := rv_pc cpu + 4\<rparr>" let ?v = "reg ?c (unat rs) + sext12 (take_bit 12 (scast imm))"
  have i: "unat (rv_pc cpu) = length xs" "length (x_regs cpu) = 32" using assms(1,2) by (auto simp: running_def)
  have "rv_exec ops code (addi_word rd rs imm) ?c = Next (put_result rd ?v ?c)" for code
    by (simp add: exec_i imm_result_def take5 [OF r(1)] take5 [OF r(3)])
  then have "rv_loop ops (xs @ le32 (addi_word rd rs imm) @ ys) cpu = rv_loop ops (xs @ le32 (addi_word rd rs imm) @ ys) (put_result rd ?v ?c)"
    using loop_at [OF i assms(2)] by simp
  moreover have "reg ?c (unat rs) = (if rs = 0 then 0 else reg cpu (unat rs))" using i(2) by (auto simp: set_reg_def unat_eq_0 nth_list_update)
  moreover have "running (length xs + 4) (put_result rd ?v ?c)"
    using assms(1) r by (simp add: running_def put_result_def set_nz_def set_reg_def)
  ultimately show ?thesis using i(2) r(1)
    by (intro exI [of _ "put_result rd ?v ?c"]) (auto simp: put_result_def set_nz_def set_reg_def)
qed

lemma frame_8: "frame_bytes 8 = 64"
  by (simp add: frame_bytes_def)

lemma compiled_words:
  assumes "room 4 e" and "enc_pos e = 0" and "rv64_li 10 v = rv64_addi 10 RV_X0 imm"
  shows "jit_minic_get_code rv64_vtable (vt_epilogue rv64_vtable 8 (vt_mov_imm rv64_vtable 0 v (vt_prologue rv64_vtable 0 8 e))) =
    le32 (addi_word 2 2 (- 64)) @ le32 (addi_word 10 0 imm) @ le32 (addi_word 2 2 64) @ le32 (rv_i_type 0 RV_RA 0 RV_X0 RV_OP_JALR)"
proof -
  let ?e1 = "rv64_emit (addi_word 2 2 (- 64)) e" let ?e2 = "rv64_emit (addi_word 10 0 imm) ?e1"
  let ?e3 = "rv64_emit (addi_word 2 2 64) ?e2" let ?e4 = "rv64_emit (rv_i_type 0 RV_RA 0 RV_X0 RV_OP_JALR) ?e3"
  have "cg_to_rv64 0 = 10" by (simp add: cg_to_rv64_def)
  then have "vt_epilogue rv64_vtable 8 (vt_mov_imm rv64_vtable 0 v (vt_prologue rv64_vtable 0 8 e)) = ?e4"
    using assms(3) by (simp add: rv64_vtable_def rv64_epilogue_def rv64_prologue_def rv64_mov_imm_def frame_8 rv64_addi_def rv64_ret_def rv_regs)
  moreover have r: "room (Suc (Suc (Suc (Suc 0)))) e" using assms(1) by (simp add: numeral_eq_Suc)
  note e1 = emit_rule [OF r] note e2 = emit_rule [OF e1(1)] note e3 = emit_rule [OF e2(1)] note e4 = emit_rule [OF e3(1)]
  have "emitted ?e4 = emitted e @ le32 (addi_word 2 2 (- 64)) @ le32 (addi_word 10 0 imm) @ le32 (addi_word 2 2 64) @
      le32 (rv_i_type 0 RV_RA 0 RV_X0 RV_OP_JALR)"
    by (simp add: e1(2) e2(2) e3(2) e4(2))
  moreover have "emitted e = []" using assms(2) by (simp add: emitted_def)
  ultimately show ?thesis by (simp add: jit_minic_get_code_def rv64_vtable_def emitted_def)
qed

lemma start_running: "running 0 rv_start"
  by (simp add: running_def rv_start_def eval_nat_numeral)

text \<open>What the compiler relies on: a back end whose code for a constant in the result register returns it.\<close>

locale returning_backend =
  fixes vt :: "'e CodeGenVTable" and fresh :: "'e \<Rightarrow> bool" and small :: "u64 \<Rightarrow> bool" and run :: "'e \<Rightarrow> 'r" and ret :: "u64 \<Rightarrow> 'r"
  assumes returns: "fresh e \<Longrightarrow> small v \<Longrightarrow> run (vt_epilogue vt 8 (vt_mov_imm vt 0 v (vt_prologue vt 0 8 e))) = ret v"
begin

lemma constant_program:
  assumes "c_tree e" and "plain e" and "c_value e = Some z" and "c_size e + 4 \<le> n" and "fresh enc" and "small (word_of_int z)"
  shows "\<exists>enc'. jit_minic_compile_cg vt n enc (''return '' @ c_text e @ '';'') = Some enc' \<and> run enc' = ret (word_of_int z)"
  by (intro exI conjI, rule compile_return [OF assms(1-4)], rule returns [OF assms(5,6)])

end

lemma rv64_returns:
  assumes e: "room 4 e \<and> enc_pos e = 0" and v: "unat v < 4096"
  shows "wubu_riscv_run ops (jit_minic_get_code rv64_vtable (vt_epilogue rv64_vtable 8 (vt_mov_imm rv64_vtable 0 v (vt_prologue rv64_vtable 0 8 e)))) arg =
    Some (Returned (small_value v))"
proof -
  from li_small [OF v] obtain imm where imm: "rv64_li 10 v = rv64_addi 10 RV_X0 imm" "sext12 (take_bit 12 (scast imm)) = small_value v" by blast
  let ?w1 = "le32 (addi_word 2 2 (- 64))" and ?w2 = "le32 (addi_word 10 0 imm)" and ?w3 = "le32 (addi_word 2 2 64)"
  let ?w4 = "le32 (rv_i_type 0 RV_RA 0 RV_X0 RV_OP_JALR)" let ?code = "?w1 @ ?w2 @ ?w3 @ ?w4"
  from addi_runs [where xs = "[]" and cpu = rv_start and rd = 2 and rs = 2 and imm = "- 64" and ys = "?w2 @ ?w3 @ ?w4" and ops = ops] start_running
  obtain c1 where c1: "rv_loop ops ?code rv_start = rv_loop ops ?code c1" "running 4 c1" by auto
  from addi_runs [where xs = ?w1 and cpu = c1 and rd = 10 and rs = 0 and imm = imm and ys = "?w3 @ ?w4" and ops = ops] c1(2)
  obtain c2 where c2: "rv_loop ops ?code c1 = rv_loop ops ?code c2" "running 8 c2" "reg c2 10 = small_value v" by (auto simp: imm(2))
  from addi_runs [where xs = "?w1 @ ?w2" and cpu = c2 and rd = 2 and rs = 2 and imm = 64 and ys = ?w4 and ops = ops] c2(2)
  obtain c3 where c3: "rv_loop ops ?code c2 = rv_loop ops ?code c3" "running 12 c3" "reg c3 10 = reg c2 10" by auto
  have "rv_loop ops ?code c3 = Some (Returned (reg c3 10))"
    using loop_at [of c3 "?w1 @ ?w2 @ ?w3" _ "[]" ops] exec_ret c3(2)
    by (auto simp: running_def rv_return_def set_reg_def)
  then have "wubu_riscv_run ops ?code arg = Some (Returned (small_value v))"
    using c1(1) c2(1,3) c3(1,3) by (simp add: wubu_riscv_run_def)
  then show ?thesis using compiled_words [OF _ _ imm(1)] e by simp
qed

interpretation riscv: returning_backend rv64_vtable "\<lambda>e. room 4 e \<and> enc_pos e = 0" "\<lambda>v. unat v < 4096"
  "\<lambda>e. wubu_riscv_run ops (jit_minic_get_code rv64_vtable e) arg" "\<lambda>v. Some (Returned (small_value v))" for ops arg
  by unfold_locales (rule rv64_returns)

text \<open>C36: the compiler, the RISC-V back end, the encoder and the interpreter together. The program \<open>return e;\<close>, for a
  plain constant expression of C whose value is between 0 and 2047, compiles when the code buffer can be had, and the
  interpreter returns from the code it gets with exactly that value. (Negative constants and those from 2048 on are
  not loaded as they should be by \<open>rv64_li\<close>.)\<close>

theorem compiled_constant_returns:
  assumes "c_tree e" and "plain e" and "c_value e = Some z" and "0 \<le> z" and "z < 2048" and "c_size e + 4 \<le> n"
    and "malloc 4096 = Some buf" and "length buf = 4096"
  shows "\<exists>enc. jit_minic_compile_cg rv64_vtable n (cg_create_rv64 malloc) (''return '' @ c_text e @ '';'') = Some enc \<and>
    wubu_riscv_run ops (jit_minic_get_code rv64_vtable enc) arg = Some (Returned (word_of_int z))"
proof -
  have "room 4 (cg_create_rv64 malloc) \<and> enc_pos (cg_create_rv64 malloc) = 0"
    using assms(7,8) by (simp add: cg_create_rv64_def rv64_enc_init_dynamic_def room_def Let_def)
  moreover have "uint (word_of_int z :: u64) = z" using assms(4,5) by (simp add: uint_word_of_int)
  then have u: "unat (word_of_int z :: u64) < 2048" using assms(4,5) by (simp add: unat_eq_nat_uint nat_less_iff)
  ultimately show ?thesis
    using riscv.constant_program [OF assms(1-3,6)] by (simp add: small_value_def)
qed

theorem compiled_constant_returns_witness:
  "\<exists>enc. jit_minic_compile_cg rv64_vtable 20 (cg_create_rv64 (\<lambda>n. Some (replicate n 0))) ''return 6*7;'' = Some enc \<and>
    wubu_riscv_run no_host (jit_minic_get_code rv64_vtable enc) 0 = Some (Returned 42)"
proof -
  let ?e = "C_Bin C_Mul (C_Num 6) (C_Num 7)"
  have T: "''return '' @ c_text ?e @ '';'' = ''return 6*7;''" by code_simp
  have L: "c_tree ?e" "plain ?e" and V: "c_value ?e = Some 42" by (simp_all add: as_long_def is_long_def)
  show ?thesis using compiled_constant_returns [OF L V, of 20 "\<lambda>n. Some (replicate n 0)" "replicate 4096 0" no_host 0] unfolding T by simp
qed

end
