(* ===== verification/Inflate.thy ===== *)
theory Inflate
  imports Prelude
begin

text \<open>
  The DEFLATE decoder of the kernel (\<open>kernel/wubu_inflate.c\<close>): the bit reader, canonical Huffman tables, the three
  kinds of blocks, and the raw, zlib and gzip entry points. A buffer is passed as the list of its bytes, which stands
  for the pointer and the length; positions, code lengths and symbols are numbers below overflow, which for the
  32-bit positions means a source of less than 2^32 - 4 bytes (in \<open>block_stored\<close> the code computes \<open>pos + 4\<close> in 32 bits)
  and a destination of less than 2^32. An error of
  the decoder is \<open>Inl\<close> of its negative number. \<open>None\<close> around a whole result means that an array is left or that the
  decoder runs forever.
\<close>

section \<open>Tables\<close>

definition k_len_base :: "nat list" where
  "k_len_base = [3, 4, 5, 6, 7, 8, 9, 10, 11, 13, 15, 17, 19, 23, 27, 31, 35, 43, 51, 59, 67, 83, 99, 115, 131, 163, 195, 227, 258]"
definition k_len_extra :: "nat list" where
  "k_len_extra = [0, 0, 0, 0, 0, 0, 0, 0, 1, 1, 1, 1, 2, 2, 2, 2, 3, 3, 3, 3, 4, 4, 4, 4, 5, 5, 5, 5, 0]"
definition k_dist_base :: "nat list" where
  "k_dist_base = [1, 2, 3, 4, 5, 7, 9, 13, 17, 25, 33, 49, 65, 97, 129, 193, 257, 385, 513, 769,
     1025, 1537, 2049, 3073, 4097, 6145, 8193, 12289, 16385, 24577]"
definition k_dist_extra :: "nat list" where
  "k_dist_extra = [0, 0, 0, 0, 1, 1, 2, 2, 3, 3, 4, 4, 5, 5, 6, 6, 7, 7, 8, 8, 9, 9, 10, 10, 11, 11, 12, 12, 13, 13]"

section \<open>The bit reader\<close>

record wubu_br =
  br_data :: bytes
  br_pos :: nat
  bitbuf :: u32
  bitcnt :: nat

definition br_init :: "bytes \<Rightarrow> wubu_br" where
  "br_init d = \<lparr>br_data = d, br_pos = 0, bitbuf = 0, bitcnt = 0\<rparr>"

text \<open>One byte more, zero bits behind the end, until there are \<open>n\<close> bits.\<close>

definition br_feed :: "wubu_br \<Rightarrow> wubu_br" where
  "br_feed b =
     (if br_pos b \<ge> length (br_data b) then b\<lparr>bitcnt := bitcnt b + 8\<rparr>
      else b\<lparr>br_pos := br_pos b + 1, bitbuf := bitbuf b OR push_bit (bitcnt b) (ucast (br_data b ! br_pos b)), bitcnt := bitcnt b + 8\<rparr>)"

function br_fill :: "nat \<Rightarrow> wubu_br \<Rightarrow> wubu_br" where
  "br_fill n b = (if bitcnt b < n then br_fill n (br_feed b) else b)"
  by pat_completeness auto
termination
  by (relation "measure (\<lambda>(n, b). n - bitcnt b)") (auto simp: br_feed_def)

declare br_fill.simps [simp del]

definition br_get :: "nat \<Rightarrow> wubu_br \<Rightarrow> nat \<times> wubu_br" where
  "br_get n b =
     (let b1 = br_fill n b in
      (unat (bitbuf b1 AND (push_bit n 1 - 1)), b1\<lparr>bitbuf := drop_bit n (bitbuf b1), bitcnt := bitcnt b1 - n\<rparr>))"

definition br_align :: "wubu_br \<Rightarrow> wubu_br" where "br_align b = b\<lparr>bitbuf := 0, bitcnt := 0\<rparr>"

section \<open>Huffman tables\<close>

record wubu_huff =
  huff_cnt :: "nat list"
  huff_sym :: "nat list"

fun count_lengths :: "nat list \<Rightarrow> nat list \<Rightarrow> nat list option" where
  "count_lengths cnt [] = Some cnt"
| "count_lengths cnt (l # ls) = (if l < length cnt then count_lengths (cnt[l := cnt ! l + 1]) ls else None)"

text \<open>The codes that are left after the codes of each length, or \<open>None\<close> when there are too many codes.\<close>

fun codes_left :: "int \<Rightarrow> nat list \<Rightarrow> int option" where
  "codes_left left [] = Some left"
| "codes_left left (c # cs) = (let l = 2 * left - int c in if l < 0 then None else codes_left l cs)"

text \<open>Where the symbols of each length start.\<close>

fun offsets :: "nat \<Rightarrow> nat list \<Rightarrow> nat list" where
  "offsets start [] = []"
| "offsets start (c # cs) = start # offsets (start + c) cs"

fun place_symbols :: "nat \<Rightarrow> nat list \<Rightarrow> nat list \<Rightarrow> nat list \<Rightarrow> nat list option" where
  "place_symbols i [] offs sy = Some sy"
| "place_symbols i (l # ls) offs sy =
     (if l = 0 then place_symbols (i + 1) ls offs sy
      else if l < length offs \<and> offs ! l < length sy
      then place_symbols (i + 1) ls (offs[l := offs ! l + 1]) (sy[offs ! l := i]) else None)"

text \<open>The table for the given code lengths. Entries behind the last symbol, which keep what the memory held, are 0
  here; nothing reads them.\<close>

definition huff_build :: "nat list \<Rightarrow> (int + wubu_huff) option" where
  "huff_build lengths =
     (case count_lengths (replicate 16 0) lengths of
        None \<Rightarrow> None
      | Some cnt0 \<Rightarrow>
          (let cnt = cnt0[0 := 0] in
           case codes_left 1 (tl cnt) of
             None \<Rightarrow> Some (Inl (- 1))
           | Some left \<Rightarrow>
               if left \<noteq> 0 \<and> (length lengths = 0 \<or> left \<noteq> 1) then Some (Inl (- 1))
               else (case place_symbols 0 lengths (0 # offsets 0 (tl cnt)) (replicate 288 0) of
                   None \<Rightarrow> None
                 | Some sy \<Rightarrow> Some (Inr \<lparr>huff_cnt = cnt, huff_sym = sy\<rparr>))))"

fun decode_loop :: "nat list \<Rightarrow> nat list \<Rightarrow> int \<Rightarrow> int \<Rightarrow> int \<Rightarrow> wubu_br \<Rightarrow> (int \<times> wubu_br) option" where
  "decode_loop sy [] code first index b = Some (- 1, b)"
| "decode_loop sy (c # cs) code first index b =
     (case br_get 1 b of (v, b1) \<Rightarrow>
        (let code1 = code OR int v; k = index + (code1 - first) in
         if code1 - first < int c then (if 0 \<le> k \<and> k < int (length sy) then Some (int (sy ! nat k), b1) else None)
         else decode_loop sy cs (push_bit 1 code1) (push_bit 1 (first + int c)) (index + int c) b1))"

definition huff_decode :: "wubu_huff \<Rightarrow> wubu_br \<Rightarrow> (int \<times> wubu_br) option" where
  "huff_decode h b = decode_loop (huff_sym h) (tl (huff_cnt h)) 0 0 0 b"

section \<open>Output\<close>

record wubu_sink =
  sk_dst :: bytes
  sk_len :: nat

definition sink_put :: "u8 \<Rightarrow> wubu_sink \<Rightarrow> int \<times> wubu_sink" where
  "sink_put c s =
     (if sk_len s \<ge> length (sk_dst s) then (- 2, s)
      else (0, s\<lparr>sk_dst := (sk_dst s)[sk_len s := c], sk_len := sk_len s + 1\<rparr>))"

text \<open>A copy of \<open>n\<close> bytes from \<open>d\<close> bytes back, one after the other.\<close>

fun copy_match :: "nat \<Rightarrow> nat \<Rightarrow> wubu_sink \<Rightarrow> (int \<times> wubu_sink) option" where
  "copy_match 0 d s = Some (0, s)"
| "copy_match (Suc n) d s =
     (if d > sk_len s \<or> sk_len s - d \<ge> length (sk_dst s) then None
      else (case sink_put (sk_dst s ! (sk_len s - d)) s of
          (r, s1) \<Rightarrow> if r \<noteq> 0 then Some (- 2, s1) else copy_match n d s1))"

section \<open>Blocks\<close>

definition fixed_litlen :: "nat list" where
  "fixed_litlen = replicate 144 8 @ replicate 112 9 @ replicate 24 7 @ replicate 8 8"
definition fixed_dist :: "nat list" where "fixed_dist = replicate 32 5"

text \<open>The length or the distance that a symbol stands for, with its extra bits; the symbol is in the table.\<close>

definition with_extra :: "nat list \<Rightarrow> nat list \<Rightarrow> nat \<Rightarrow> wubu_br \<Rightarrow> nat \<times> wubu_br" where
  "with_extra base extra i b = (case br_get (extra ! i) b of (v, b1) \<Rightarrow> (base ! i + v, b1))"

partial_function (option) block_decode :: "wubu_huff \<Rightarrow> wubu_huff \<Rightarrow> wubu_br \<Rightarrow> wubu_sink \<Rightarrow> (int \<times> wubu_br \<times> wubu_sink) option" where
  "block_decode lth dth b out =
     (case huff_decode lth b of
        None \<Rightarrow> None
      | Some (sy, b1) \<Rightarrow>
          if sy < 0 then Some (- 1, b1, out)
          else if sy = 256 then Some (0, b1, out)
          else if sy < 256 then
            (case sink_put (of_int sy) out of
               (r, out1) \<Rightarrow> if r \<noteq> 0 then Some (- 2, b1, out1) else block_decode lth dth b1 out1)
          else if sy - 257 \<ge> 29 then Some (- 1, b1, out)
          else (case with_extra k_len_base k_len_extra (nat (sy - 257)) b1 of (len, b2) \<Rightarrow>
            (case huff_decode dth b2 of
               None \<Rightarrow> None
             | Some (ds, b3) \<Rightarrow>
                 if ds < 0 \<or> ds \<ge> 30 then Some (- 1, b3, out)
                 else (case with_extra k_dist_base k_dist_extra (nat ds) b3 of (distance, b4) \<Rightarrow>
                   if distance > sk_len out then Some (- 1, b4, out)
                   else (case copy_match len distance out of
                       None \<Rightarrow> None
                     | Some (r, out1) \<Rightarrow> if r \<noteq> 0 then Some (- 2, b4, out1) else block_decode lth dth b4 out1)))))"

declare block_decode.simps [code]

definition ORD :: "nat list" where "ORD = [16, 17, 18, 0, 8, 7, 9, 6, 10, 5, 11, 4, 12, 3, 13, 2, 14, 1, 15]"

text \<open>The lengths of the code for code lengths.\<close>

fun read_cl :: "nat list \<Rightarrow> nat list \<Rightarrow> wubu_br \<Rightarrow> nat list \<times> wubu_br" where
  "read_cl [] cl b = (cl, b)"
| "read_cl (k # ks) cl b = (case br_get 3 b of (v, b1) \<Rightarrow> read_cl ks (cl[k := v]) b1)"

text \<open>The array of code lengths, of which the entries written are the list; it has room for 320.\<close>

fun put_lengths :: "nat \<Rightarrow> nat \<Rightarrow> nat \<Rightarrow> nat list \<Rightarrow> nat list option" where
  "put_lengths 0 v n ls = Some ls"
| "put_lengths (Suc r) v n ls =
     (if length ls < n then (if length ls < 320 then put_lengths r v n (ls @ [v]) else None) else Some ls)"

partial_function (option) read_lengths :: "wubu_huff \<Rightarrow> nat \<Rightarrow> nat list \<Rightarrow> wubu_br \<Rightarrow> ((int + nat list) \<times> wubu_br) option" where
  "read_lengths clh n ls b =
     (if length ls < n then
        (case huff_decode clh b of
           None \<Rightarrow> None
         | Some (s, b1) \<Rightarrow>
             if s < 0 then Some (Inl (- 1), b1)
             else if s < 16 then (case put_lengths 1 (nat s) n ls of None \<Rightarrow> None | Some ls1 \<Rightarrow> read_lengths clh n ls1 b1)
             else if s = 16 then
               (if ls = [] then Some (Inl (- 1), b1)
                else (case br_get 2 b1 of (v, b2) \<Rightarrow>
                  case put_lengths (v + 3) (last ls) n ls of None \<Rightarrow> None | Some ls1 \<Rightarrow> read_lengths clh n ls1 b2))
             else if s = 17 then
               (case br_get 3 b1 of (v, b2) \<Rightarrow>
                  case put_lengths (v + 3) 0 n ls of None \<Rightarrow> None | Some ls1 \<Rightarrow> read_lengths clh n ls1 b2)
             else if s = 18 then
               (case br_get 7 b1 of (v, b2) \<Rightarrow>
                  case put_lengths (v + 11) 0 n ls of None \<Rightarrow> None | Some ls1 \<Rightarrow> read_lengths clh n ls1 b2)
             else Some (Inl (- 1), b1))
      else Some (Inr ls, b))"

declare read_lengths.simps [code]

definition block_dynamic :: "wubu_br \<Rightarrow> wubu_sink \<Rightarrow> (int \<times> wubu_br \<times> wubu_sink) option" where
  "block_dynamic b out =
     (case br_get 5 b of (hl, b1) \<Rightarrow> case br_get 5 b1 of (hds, b2) \<Rightarrow> case br_get 4 b2 of (hc, b3) \<Rightarrow>
        (let hlit = hl + 257; hdist = hds + 1; hclen = hc + 4 in
         case read_cl (take hclen ORD) (replicate 19 0) b3 of (cl_len, b4) \<Rightarrow>
           (case huff_build cl_len of
              None \<Rightarrow> None
            | Some (Inl _) \<Rightarrow> Some (- 1, b4, out)
            | Some (Inr clh) \<Rightarrow>
                (case read_lengths clh (hlit + hdist) [] b4 of
                   None \<Rightarrow> None
                 | Some (Inl e, b5) \<Rightarrow> Some (e, b5, out)
                 | Some (Inr lengths, b5) \<Rightarrow>
                     (case huff_build (take hlit lengths) of
                        None \<Rightarrow> None
                      | Some (Inl _) \<Rightarrow> Some (- 1, b5, out)
                      | Some (Inr lth) \<Rightarrow>
                          (case huff_build (take hdist (drop hlit lengths)) of
                             None \<Rightarrow> None
                           | Some (Inl _) \<Rightarrow> Some (- 1, b5, out)
                           | Some (Inr dth) \<Rightarrow> block_decode lth dth b5 out))))))"

fun stored_copy :: "nat \<Rightarrow> wubu_br \<Rightarrow> wubu_sink \<Rightarrow> int \<times> wubu_br \<times> wubu_sink" where
  "stored_copy 0 b out = (0, b, out)"
| "stored_copy (Suc n) b out =
     (if br_pos b \<ge> length (br_data b) then (- 1, b, out)
      else (case sink_put (br_data b ! br_pos b) out of
          (r, out1) \<Rightarrow> (let b1 = b\<lparr>br_pos := br_pos b + 1\<rparr> in if r \<noteq> 0 then (- 2, b1, out1) else stored_copy n b1 out1)))"

definition block_stored :: "wubu_br \<Rightarrow> wubu_sink \<Rightarrow> int \<times> wubu_br \<times> wubu_sink" where
  "block_stored b out =
     (let b1 = br_align b; p = br_pos b1; src = br_data b1 in
      if p + 4 > length src then (- 1, b1, out)
      else (let len = unat (src ! p) + 256 * unat (src ! (p + 1)) in stored_copy len (b1\<lparr>br_pos := p + 4\<rparr>) out))"

definition block_fixed :: "wubu_br \<Rightarrow> wubu_sink \<Rightarrow> (int \<times> wubu_br \<times> wubu_sink) option" where
  "block_fixed b out =
     (case huff_build fixed_litlen of
        None \<Rightarrow> None
      | Some (Inl _) \<Rightarrow> Some (- 1, b, out)
      | Some (Inr lth) \<Rightarrow> (case huff_build fixed_dist of
            None \<Rightarrow> None
          | Some (Inl _) \<Rightarrow> Some (- 1, b, out)
          | Some (Inr dth) \<Rightarrow> block_decode lth dth b out))"

section \<open>Streams\<close>

definition block_any :: "nat \<Rightarrow> wubu_br \<Rightarrow> wubu_sink \<Rightarrow> (int \<times> wubu_br \<times> wubu_sink) option" where
  "block_any btype b out =
     (if btype = 0 then Some (block_stored b out)
      else if btype = 1 then block_fixed b out
      else if btype = 2 then block_dynamic b out
      else Some (- 1, b, out))"

partial_function (option) inflate_loop :: "nat \<Rightarrow> wubu_br \<Rightarrow> wubu_sink \<Rightarrow> (int \<times> wubu_br \<times> wubu_sink) option" where
  "inflate_loop guard b out =
     (if guard + 1 > 1000000 then Some (- 1, b, out)
      else (case br_get 1 b of (bfinal, b1) \<Rightarrow> case br_get 2 b1 of (btype, b2) \<Rightarrow>
        (case block_any btype b2 out of
           None \<Rightarrow> None
         | Some (rc, b3, out1) \<Rightarrow>
             if rc \<noteq> 0 then Some (rc, b3, out1)
             else if bfinal \<noteq> 0 then Some (0, b3, out1)
             else inflate_loop (guard + 1) b3 out1)))"

declare inflate_loop.simps [code]

text \<open>The error, or the bytes produced and consumed; and the destination.\<close>

type_synonym inflate_result = "((int + nat \<times> nat) \<times> bytes) option"

definition inflate_raw :: "bytes \<Rightarrow> bytes \<Rightarrow> inflate_result" where
  "inflate_raw src dst =
     (case inflate_loop 0 (br_init src) \<lparr>sk_dst = dst, sk_len = 0\<rparr> of
        None \<Rightarrow> None
      | Some (rc, b, out) \<Rightarrow> Some (if rc \<noteq> 0 then Inl rc else Inr (sk_len out, br_pos b), sk_dst out))"

definition wubu_inflate_raw :: "bytes \<Rightarrow> bytes \<Rightarrow> inflate_result" where "wubu_inflate_raw src dst = inflate_raw src dst"

definition wubu_inflate :: "bytes \<Rightarrow> bytes \<Rightarrow> inflate_result" where
  "wubu_inflate src dst =
     (if length src < 2 then Some (Inl (- 1), dst)
      else (let cmf = unat (src ! 0); flg = unat (src ! 1) in
        if cmf mod 16 \<noteq> 8 then Some (Inl (- 1), dst)
        else if cmf div 16 > 7 then Some (Inl (- 1), dst)
        else if (cmf * 256 + flg) mod 31 \<noteq> 0 then Some (Inl (- 1), dst)
        else (case inflate_raw (drop 2 src) dst of
            None \<Rightarrow> None
          | Some (Inl e, dst1) \<Rightarrow> Some (Inl e, dst1)
          | Some (Inr (n, consumed), dst1) \<Rightarrow>
              (let total = 2 + consumed in Some (Inr (n, if total + 4 \<le> length src then total + 4 else total), dst1)))))"

fun adler_loop :: "nat \<Rightarrow> nat \<Rightarrow> bytes \<Rightarrow> nat \<times> nat" where
  "adler_loop a b [] = (a, b)"
| "adler_loop a b (c # cs) = (let a1 = (a + unat c) mod 65521; b1 = (b + a1) mod 65521 in adler_loop a1 b1 cs)"

definition wubu_adler32 :: "bytes \<Rightarrow> u32" where
  "wubu_adler32 data = (case adler_loop 1 0 data of (a, b) \<Rightarrow> push_bit 16 (of_nat b) OR of_nat a)"

text \<open>The position behind a string that starts at \<open>pos\<close>, or \<open>None\<close> when it does not end.\<close>

definition skip_string :: "bytes \<Rightarrow> nat \<Rightarrow> nat option" where
  "skip_string src pos =
     (let p = pos + length (takeWhile (\<lambda>c. c \<noteq> 0) (drop pos src)) in if p \<ge> length src then None else Some (p + 1))"

definition skip_extra :: "bytes \<Rightarrow> nat \<Rightarrow> nat option" where
  "skip_extra src pos =
     (if pos + 2 > length src then None
      else (let p = pos + 2 + (unat (src ! pos) + 256 * unat (src ! (pos + 1))) in if p > length src then None else Some p))"

definition gzip_body :: "bytes \<Rightarrow> nat option" where
  "gzip_body src =
     (let flg = src ! 3 in
      do {
        p1 \<leftarrow> (if flg AND 0x04 \<noteq> 0 then skip_extra src 10 else Some 10);
        p2 \<leftarrow> (if flg AND 0x08 \<noteq> 0 then skip_string src p1 else Some p1);
        p3 \<leftarrow> (if flg AND 0x10 \<noteq> 0 then skip_string src p2 else Some p2);
        (if flg AND 0x02 \<noteq> 0 then (if p3 + 2 > length src then None else Some (p3 + 2)) else Some p3)
      })"

definition wubu_gunzip :: "bytes \<Rightarrow> bytes \<Rightarrow> inflate_result" where
  "wubu_gunzip src dst =
     (if length src < 18 then Some (Inl (- 1), dst)
      else if src ! 0 \<noteq> 0x1f \<or> src ! 1 \<noteq> 0x8b then Some (Inl (- 1), dst)
      else if src ! 2 \<noteq> 8 then Some (Inl (- 1), dst)
      else (case gzip_body src of
          None \<Rightarrow> Some (Inl (- 1), dst)
        | Some pos \<Rightarrow>
            (let body_end = length src - 8 in
             if pos > body_end then Some (Inl (- 1), dst)
             else (case inflate_raw (take (body_end - pos) (drop pos src)) dst of
                 None \<Rightarrow> None
               | Some (Inl e, dst1) \<Rightarrow> Some (Inl e, dst1)
               | Some (Inr (n, consumed), dst1) \<Rightarrow> Some (Inr (n, pos + consumed + 8), dst1)))))"

end
