(* ===== verification/Inflate_Huffman.thy ===== *)
theory Inflate_Huffman
  imports Inflate
begin

text \<open>
  The bit reader as a list of bits, and canonical Huffman codes: a table that \<open>huff_build\<close> returns decodes the code
  that RFC 1951 assigns to each symbol.
\<close>

section \<open>The reader\<close>

definition byte_bits :: "u8 \<Rightarrow> bool list" where "byte_bits c = map (bit c) [0..<8]"
definition bits_of :: "bytes \<Rightarrow> bool list" where "bits_of bs = concat (map byte_bits bs)"

text \<open>A number of \<open>n\<close> bits, the lowest first.\<close>

definition lsb_bits :: "nat \<Rightarrow> nat \<Rightarrow> bool list" where "lsb_bits n v = map (bit v) [0..<n]"

definition br_bits :: "wubu_br \<Rightarrow> bool list" where
  "br_bits b = map (bit (bitbuf b)) [0..<bitcnt b] @ bits_of (drop (br_pos b) (br_data b))"

text \<open>Between two reads the buffer has at most seven bits, and no others are set.\<close>

definition clean_buf :: "wubu_br \<Rightarrow> bool" where "clean_buf b \<longleftrightarrow> (\<forall>i. bit (bitbuf b) i \<longrightarrow> i < bitcnt b) \<and> br_pos b \<le> length (br_data b)"
definition br_ok :: "wubu_br \<Rightarrow> bool" where "br_ok b \<longleftrightarrow> clean_buf b \<and> bitcnt b < 8"

lemma length_bits_of [simp]: "length (bits_of bs) = 8 * length bs"
  by (induction bs) (auto simp: bits_of_def byte_bits_def)

lemma bits_of_simps [simp]: "bits_of [] = []" "bits_of (c # cs) = byte_bits c @ bits_of cs" "bits_of (xs @ ys) = bits_of xs @ bits_of ys"
  by (simp_all add: bits_of_def)

lemma length_lsb_bits [simp]: "length (lsb_bits n v) = n"
  by (simp add: lsb_bits_def)

lemma length_br_bits: "length (br_bits b) = bitcnt b + 8 * (length (br_data b) - br_pos b)"
  by (simp add: br_bits_def)

lemma feed_rule:
  assumes "clean_buf b" and "bitcnt b \<le> 24" and "br_pos b < length (br_data b)"
  shows "clean_buf (br_feed b)" and "br_bits (br_feed b) = br_bits b" and "br_data (br_feed b) = br_data b" and "bitcnt (br_feed b) = bitcnt b + 8"
proof -
  let ?c = "br_data b ! br_pos b"
  have c: "bit (ucast ?c :: u32) i \<longleftrightarrow> bit ?c i" for i
    by (auto simp: bit_unsigned_iff dest: bit_imp_le_length)
  have bb: "bit (bitbuf (br_feed b)) i \<longleftrightarrow> bit (bitbuf b) i \<or> bitcnt b \<le> i \<and> i < 32 \<and> bit ?c (i - bitcnt b)" for i
    using assms(3) by (auto simp: br_feed_def bit_or_iff bit_push_bit_iff c)
  show "br_data (br_feed b) = br_data b" and cnt: "bitcnt (br_feed b) = bitcnt b + 8" by (auto simp: br_feed_def)
  have pos: "br_pos (br_feed b) = br_pos b + 1" using assms(3) by (simp add: br_feed_def)
  show "clean_buf (br_feed b)"
    using assms unfolding clean_buf_def bb cnt pos by (auto simp: br_feed_def dest: bit_imp_le_length)
  have "map (bit (bitbuf (br_feed b))) [0..<bitcnt b + 8] = map (bit (bitbuf b)) [0..<bitcnt b] @ byte_bits ?c"
  proof (rule nth_equalityI)
    fix i assume "i < length (map (bit (bitbuf (br_feed b))) [0..<bitcnt b + 8])"
    then show "map (bit (bitbuf (br_feed b))) [0..<bitcnt b + 8] ! i = (map (bit (bitbuf b)) [0..<bitcnt b] @ byte_bits ?c) ! i"
      using assms(1,2) by (auto simp: nth_append byte_bits_def bb clean_buf_def simp del: upt_Suc)
  qed (simp add: byte_bits_def)
  moreover have "drop (br_pos b) (br_data b) = ?c # drop (br_pos b + 1) (br_data b)" using assms(3) by (simp add: Cons_nth_drop_Suc)
  ultimately show "br_bits (br_feed b) = br_bits b"
    using assms(3) cnt pos by (simp add: br_bits_def br_feed_def)
qed

lemma fill_rule:
  assumes "clean_buf b" and "bitcnt b < n + 8" and "n \<le> 24" and "n \<le> length (br_bits b)"
  shows "clean_buf (br_fill n b) \<and> br_bits (br_fill n b) = br_bits b \<and> br_data (br_fill n b) = br_data b \<and>
    n \<le> bitcnt (br_fill n b) \<and> bitcnt (br_fill n b) < n + 8"
  using assms
proof (induction n b rule: br_fill.induct)
  case (1 n b)
  show ?case
  proof (cases "bitcnt b < n")
    case True
    then have p: "br_pos b < length (br_data b)" using 1(5) by (simp add: length_br_bits)
    note f = feed_rule [OF 1(2) _ p]
    have "bitcnt b \<le> 24" using True 1(4) by simp
    note f = f [OF this]
    from 1(1) [OF True f(1)] show ?thesis
      unfolding br_fill.simps [of n b] using True 1(4,5) f by simp
  qed (use 1 in \<open>simp add: br_fill.simps [of n b]\<close>)
qed

lemma mask_32: "n \<le> 24 \<Longrightarrow> w AND (push_bit n 1 - 1) = take_bit n (w :: u32)"
  by (simp add: take_bit_eq_mask mask_eq_exp_minus_1 push_bit_eq_mult)

text \<open>Reading gives the first bits and leaves the others.\<close>

lemma br_get_rule:
  assumes ok: "br_ok b" and bits: "br_bits b = lsb_bits n v @ rest" and v: "v < 2 ^ n" and n: "n \<le> 24"
  obtains b' where "br_get n b = (v, b')" and "br_ok b'" and "br_bits b' = rest" and "br_data b' = br_data b"
proof -
  let ?b = "br_fill n b"
  have "n \<le> length (br_bits b)" by (simp add: bits)
  with fill_rule [of b n] ok n have f: "clean_buf ?b" "br_bits ?b = br_bits b" "br_data ?b = br_data b" "n \<le> bitcnt ?b" "bitcnt ?b < n + 8"
    by (auto simp: br_ok_def)
  let ?b' = "?b\<lparr>bitbuf := drop_bit n (bitbuf ?b), bitcnt := bitcnt ?b - n\<rparr>"
  have split: "map (bit (bitbuf ?b)) [0..<bitcnt ?b] = map (bit (bitbuf ?b)) [0..<n] @ map (bit (bitbuf ?b')) [0..<bitcnt ?b - n]"
  proof (rule nth_equalityI)
    fix i assume "i < length (map (bit (bitbuf ?b)) [0..<bitcnt ?b])"
    then show "map (bit (bitbuf ?b)) [0..<bitcnt ?b] ! i = (map (bit (bitbuf ?b)) [0..<n] @ map (bit (bitbuf ?b')) [0..<bitcnt ?b - n]) ! i"
      using f(4) by (auto simp: nth_append bit_drop_bit_eq)
  qed (use f(4) in simp)
  have eq: "map (bit (bitbuf ?b)) [0..<n] @ br_bits ?b' = lsb_bits n v @ rest"
    using f(2) bits split by (simp add: br_bits_def)
  then have lo: "map (bit (bitbuf ?b)) [0..<n] = lsb_bits n v" and re: "br_bits ?b' = rest" by (simp_all add: lsb_bits_def)
  have "unat (take_bit n (bitbuf ?b)) = v"
  proof (rule bit_eqI)
    fix i
    have i: "i < n \<Longrightarrow> bit (bitbuf ?b) i = bit v i" using lo by (simp add: lsb_bits_def)
    have "\<not> bit v i" if "n \<le> i"
    proof -
      have "v < 2 ^ i" using v that by (meson less_le_trans one_le_numeral power_increasing)
      then show ?thesis by (simp add: bit_iff_odd)
    qed
    moreover have "bit (unat (take_bit n (bitbuf ?b))) i \<longleftrightarrow> i < n \<and> bit (bitbuf ?b) i"
      by (auto simp: bit_unsigned_iff bit_take_bit_iff dest: bit_imp_le_length)
    ultimately show "bit (unat (take_bit n (bitbuf ?b))) i = bit v i" using i by (cases "i < n") auto
  qed
  then have "br_get n b = (v, ?b')" using mask_32 [OF n] by (simp add: br_get_def Let_def)
  moreover have "br_ok ?b'"
    using f(1,4,5) by (auto simp: br_ok_def clean_buf_def bit_drop_bit_eq)
  ultimately show ?thesis using that re f(3) by simp
qed

section \<open>Building a table\<close>

lemma count_lengths_rule:
  assumes "\<forall>l \<in> set ls. l < length cnt"
  obtains cnt' where "count_lengths cnt ls = Some cnt'" and "length cnt' = length cnt" and "\<forall>l < length cnt. cnt' ! l = cnt ! l + count_list ls l"
proof -
  have "\<exists>cnt'. count_lengths cnt ls = Some cnt' \<and> length cnt' = length cnt \<and> (\<forall>l < length cnt. cnt' ! l = cnt ! l + count_list ls l)"
    using assms
  proof (induction ls arbitrary: cnt)
    case (Cons l ls)
    then show ?case using Cons.IH [of "cnt[l := cnt ! l + 1]"] by (force simp: nth_list_update)
  qed simp
  then show ?thesis using that by blast
qed

definition length_counts :: "nat list \<Rightarrow> nat list" where "length_counts ls = map (count_list ls) [1..<16]"

lemma length_counts_len [simp]: "length (length_counts ls) = 15"
  by (simp add: length_counts_def)

lemma length_counts_nth: "k < 15 \<Longrightarrow> length_counts ls ! k = count_list ls (Suc k)"
  by (simp add: length_counts_def)

lemma counts_of:
  assumes "\<forall>l \<in> set ls. l < 16"
  obtains cnt where "count_lengths (replicate 16 0) ls = Some cnt" and "cnt[0 := 0] = 0 # length_counts ls"
proof -
  have r: "(replicate 16 0 :: nat list) ! l = 0" if "l < 16" for l using that by (simp add: nth_replicate)
  obtain cnt where c: "count_lengths (replicate 16 0) ls = Some cnt" "length cnt = 16" "\<forall>l < 16. cnt ! l = count_list ls l"
    using count_lengths_rule [of ls "replicate 16 0"] assms r by (metis add_0 length_replicate)
  have "cnt[0 := 0] = 0 # length_counts ls"
    by (rule nth_equalityI) (use c in \<open>auto simp: nth_Cons length_counts_nth split: nat.splits\<close>)
  with c(1) show ?thesis by (rule that)
qed

lemma length_offsets [simp]: "length (offsets start cs) = length cs"
  by (induction cs arbitrary: start) auto

lemma offsets_nth: "i < length cs \<Longrightarrow> offsets start cs ! i = start + sum_list (take i cs)"
  by (induction cs arbitrary: start i) (auto simp: nth_Cons take_Cons split: nat.splits)

text \<open>Symbols go to the place of their rank among those of their length, when the places of different lengths do not
  overlap.\<close>

definition span :: "nat list \<Rightarrow> nat list \<Rightarrow> nat \<Rightarrow> nat set" where "span offs ls l = {offs ! l..<offs ! l + count_list ls l}"

definition spans_ok :: "nat list \<Rightarrow> nat list \<Rightarrow> nat list \<Rightarrow> bool" where
  "spans_ok offs ls sy \<longleftrightarrow> (\<forall>l \<in> set ls. l < length offs) \<and>
     (\<forall>l. 0 < l \<and> l < length offs \<longrightarrow> offs ! l + count_list ls l \<le> length sy) \<and>
     (\<forall>l l'. 0 < l \<and> l < length offs \<and> 0 < l' \<and> l' < length offs \<and> l \<noteq> l' \<longrightarrow> span offs ls l \<inter> span offs ls l' = {})"

lemma spans_ok_step:
  assumes "spans_ok offs (l # ls) sy" and "0 < l"
  shows "spans_ok (offs[l := offs ! l + 1]) ls (sy[offs ! l := i])"
    and "span (offs[l := offs ! l + 1]) ls k \<subseteq> span offs (l # ls) k"
    and "offs ! l \<in> span offs (l # ls) l" and "offs ! l < length sy" and "l < length offs"
    and "0 < k \<Longrightarrow> k < length offs \<Longrightarrow> offs ! l \<notin> span (offs[l := offs ! l + 1]) ls k"
proof -
  show l: "l < length offs" using assms by (simp add: spans_ok_def)
  show sub: "span (offs[l := offs ! l + 1]) ls k \<subseteq> span offs (l # ls) k" for k
    using l by (cases "k < length offs") (auto simp: span_def nth_list_update)
  show m: "offs ! l \<in> span offs (l # ls) l" by (simp add: span_def)
  have "offs ! l + count_list (l # ls) l \<le> length sy" using assms l unfolding spans_ok_def by blast
  then show "offs ! l < length sy" by simp
  show "spans_ok (offs[l := offs ! l + 1]) ls (sy[offs ! l := i])"
    unfolding spans_ok_def
  proof (intro conjI allI impI)
    show "\<forall>l' \<in> set ls. l' < length (offs[l := offs ! l + 1])" using assms by (simp add: spans_ok_def)
  next
    fix k assume k: "0 < k \<and> k < length (offs[l := offs ! l + 1])"
    then have "offs ! k + count_list (l # ls) k \<le> length sy" using assms unfolding spans_ok_def by simp
    then show "offs[l := offs ! l + 1] ! k + count_list ls k \<le> length (sy[offs ! l := i])"
      using k by (auto simp: nth_list_update split: if_splits)
  next
    fix k k' assume "0 < k \<and> k < length (offs[l := offs ! l + 1]) \<and> 0 < k' \<and> k' < length (offs[l := offs ! l + 1]) \<and> k \<noteq> k'"
    then have "span offs (l # ls) k \<inter> span offs (l # ls) k' = {}" using assms unfolding spans_ok_def by simp
    then show "span (offs[l := offs ! l + 1]) ls k \<inter> span (offs[l := offs ! l + 1]) ls k' = {}" using sub [of k] sub [of k'] by blast
  qed
  show "offs ! l \<notin> span (offs[l := offs ! l + 1]) ls k" if k: "0 < k" "k < length offs"
  proof (cases "k = l")
    case True
    then show ?thesis using l by (simp add: span_def)
  next
    case False
    then have "span offs (l # ls) k \<inter> span offs (l # ls) l = {}" using assms l k unfolding spans_ok_def by blast
    then show ?thesis using sub [of k] m by blast
  qed
qed

lemma place_symbols_rule:
  assumes "spans_ok offs ls sy"
  obtains sy' where "place_symbols i ls offs sy = Some sy'" and "length sy' = length sy"
    and "\<And>j. j < length ls \<Longrightarrow> 0 < ls ! j \<Longrightarrow> sy' ! (offs ! (ls ! j) + count_list (take j ls) (ls ! j)) = i + j"
proof -
  have "\<exists>sy'. place_symbols i ls offs sy = Some sy' \<and> length sy' = length sy \<and>
      (\<forall>j < length ls. 0 < ls ! j \<longrightarrow> sy' ! (offs ! (ls ! j) + count_list (take j ls) (ls ! j)) = i + j) \<and>
      (\<forall>p. (\<forall>l. 0 < l \<and> l < length offs \<longrightarrow> p \<notin> span offs ls l) \<longrightarrow> sy' ! p = sy ! p)"
    using assms
  proof (induction ls arbitrary: i offs sy)
    case (Cons l ls)
    show ?case
    proof (cases "l = 0")
      case True
      have "spans_ok offs ls sy"
        using Cons.prems unfolding spans_ok_def span_def True by (auto split: if_splits)
      from Cons.IH [OF this, of "i + 1"] obtain sy' where
        sy': "place_symbols (i + 1) ls offs sy = Some sy'" "length sy' = length sy"
          "\<forall>j < length ls. 0 < ls ! j \<longrightarrow> sy' ! (offs ! (ls ! j) + count_list (take j ls) (ls ! j)) = i + 1 + j"
          "\<forall>p. (\<forall>l. 0 < l \<and> l < length offs \<longrightarrow> p \<notin> span offs ls l) \<longrightarrow> sy' ! p = sy ! p" by blast
      have "span offs (0 # ls) k = span offs ls k" if "0 < k" for k using that by (simp add: span_def)
      then show ?thesis using sy' True by (auto simp: nth_Cons take_Cons split: nat.splits)
    next
      case False
      then have l: "0 < l" by simp
      note st = spans_ok_step [OF Cons.prems l]
      let ?o = "offs[l := offs ! l + 1]" let ?s = "sy[offs ! l := i]"
      from Cons.IH [OF st(1) [of i], of "i + 1"] obtain sy' where
        sy': "place_symbols (i + 1) ls ?o ?s = Some sy'" "length sy' = length sy"
          "\<forall>j < length ls. 0 < ls ! j \<longrightarrow> sy' ! (?o ! (ls ! j) + count_list (take j ls) (ls ! j)) = i + 1 + j"
          "\<forall>p. (\<forall>l. 0 < l \<and> l < length offs \<longrightarrow> p \<notin> span ?o ls l) \<longrightarrow> sy' ! p = ?s ! p"
        unfolding length_list_update by blast
      have w: "sy' ! (offs ! l) = i" using sy'(4) st(4,6) by auto
      have "sy' ! (offs ! ((l # ls) ! j) + count_list (take j (l # ls)) ((l # ls) ! j)) = i + j"
        if j: "j < length (l # ls)" "0 < (l # ls) ! j" for j
      proof (cases j)
        case 0
        then show ?thesis using w by simp
      next
        case (Suc j')
        then have "?o ! (ls ! j') + count_list (take j' ls) (ls ! j') = offs ! (ls ! j') + count_list (take j (l # ls)) (ls ! j')"
          using st(5) by (cases "ls ! j' = l") auto
        then show ?thesis using sy'(3) j Suc by auto
      qed
      moreover have "sy' ! p = sy ! p" if p: "\<forall>k. 0 < k \<and> k < length offs \<longrightarrow> p \<notin> span offs (l # ls) k" for p
      proof -
        have "p \<noteq> offs ! l" using p st(3,5) l by blast
        moreover have "\<forall>k. 0 < k \<and> k < length offs \<longrightarrow> p \<notin> span ?o ls k" using p st(2) by blast
        ultimately show ?thesis using sy'(4) by simp
      qed
      ultimately show ?thesis using sy'(1,2) st(4,5) False by auto
    qed
  qed simp
  then show ?thesis using that by blast
qed

lemma sum_counts: "sum_list (length_counts ls) \<le> length ls"
proof -
  have "sum_list (length_counts ls) = (\<Sum>l \<in> {1..<16}. count_list ls l)"
    by (simp add: length_counts_def sum_list_distinct_conv_sum_set del: upt_Suc)
  also have "\<dots> \<le> (\<Sum>l \<in> {1..<16} \<union> set ls. count_list ls l)" by (rule sum_mono2) auto
  also have "\<dots> = length ls" by (rule sum_count_set) auto
  finally show ?thesis .
qed

lemma take_sum_mono: "i \<le> j \<Longrightarrow> sum_list (take i xs) \<le> sum_list (take j (xs :: nat list))"
  by (metis le_add1 le_add_diff_inverse sum_list_append take_add)

lemma take_sum_Suc: "i < length xs \<Longrightarrow> sum_list (take (Suc i) xs) = sum_list (take i xs) + (xs ! i :: nat)"
  by (simp add: take_Suc_conv_app_nth)

definition starts :: "nat list \<Rightarrow> nat \<Rightarrow> nat" where "starts ls l = sum_list (take (l - 1) (length_counts ls))"

lemma starts_Suc: "0 < l \<Longrightarrow> l < 16 \<Longrightarrow> starts ls (Suc l) = starts ls l + count_list ls l"
  using take_sum_Suc [of "l - 1" "length_counts ls"] by (simp add: starts_def length_counts_nth)

lemma starts_1 [simp]: "starts ls (Suc 0) = 0"
  by (simp add: starts_def)

lemma starts_mono: "l \<le> l' \<Longrightarrow> starts ls l \<le> starts ls l'"
  by (simp add: starts_def take_sum_mono)

lemma starts_le: "starts ls l \<le> length ls"
  unfolding starts_def using sum_counts [of ls] take_sum_mono [of "l - 1" "max 15 (l - 1)" "length_counts ls"] by simp

lemma offs_nth: "0 < l \<Longrightarrow> l < 16 \<Longrightarrow> (0 # offsets 0 (length_counts ls)) ! l = starts ls l"
  by (simp add: nth_Cons' offsets_nth starts_def)

lemma span_starts:
  "0 < l \<Longrightarrow> l < 16 \<Longrightarrow> span (0 # offsets 0 (length_counts ls)) ls l = {starts ls l..<starts ls (Suc l)}"
  unfolding span_def by (simp only: offs_nth starts_Suc)

lemma built_spans:
  assumes "length ls \<le> n" and "\<forall>l \<in> set ls. l < 16"
  shows "spans_ok (0 # offsets 0 (length_counts ls)) ls (replicate n 0)"
proof -
  have e: "starts ls l + count_list ls l = starts ls (Suc l)" if "0 < l" "l < 16" for l using starts_Suc [OF that] by simp
  have "span (0 # offsets 0 (length_counts ls)) ls l \<inter> span (0 # offsets 0 (length_counts ls)) ls l' = {}"
    if l: "0 < l" "l < 16" "0 < l'" "l' < 16" "l < l'" for l l'
  proof -
    have "starts ls (Suc l) \<le> starts ls l'" using l(5) by (intro starts_mono) simp
    then show ?thesis using l by (simp only: span_starts) auto
  qed
  then have "span (0 # offsets 0 (length_counts ls)) ls l \<inter> span (0 # offsets 0 (length_counts ls)) ls l' = {}"
    if "0 < l" "l < 16" "0 < l'" "l' < 16" "l \<noteq> l'" for l l'
    using that by (cases "l < l'") (auto simp: Int_commute)
  moreover have "(0 # offsets 0 (length_counts ls)) ! l + count_list ls l \<le> n" if "0 < l" "l < 16" for l
    unfolding offs_nth [OF that] e [OF that] using starts_le [of ls "Suc l"] assms(1) by simp
  ultimately show ?thesis using assms(2) unfolding spans_ok_def by simp
qed

text \<open>A table as it is built from code lengths.\<close>

definition built :: "nat list \<Rightarrow> wubu_huff \<Rightarrow> bool" where
  "built ls h \<longleftrightarrow> huff_cnt h = 0 # length_counts ls \<and> length (huff_sym h) = 288 \<and> sum_list (length_counts ls) \<le> 288 \<and>
     codes_left 1 (length_counts ls) \<noteq> None \<and>
     (\<forall>j < length ls. 0 < ls ! j \<longrightarrow> huff_sym h ! (starts ls (ls ! j) + count_list (take j ls) (ls ! j)) = j)"

lemma build_rule:
  assumes "length ls \<le> 288" and l: "\<forall>l \<in> set ls. l < 16"
  obtains "huff_build ls = Some (Inl (- 1))" and "\<forall>left. codes_left 1 (length_counts ls) = Some left \<longrightarrow> left \<noteq> 0"
  | h where "huff_build ls = Some (Inr h)" and "built ls h"
proof -
  obtain cnt where c: "count_lengths (replicate 16 0) ls = Some cnt" "cnt[0 := 0] = 0 # length_counts ls" by (rule counts_of [OF l])
  obtain sy where sy: "place_symbols 0 ls (0 # offsets 0 (length_counts ls)) (replicate 288 0) = Some sy" "length sy = 288"
    "\<And>j. j < length ls \<Longrightarrow> 0 < ls ! j \<Longrightarrow> sy ! ((0 # offsets 0 (length_counts ls)) ! (ls ! j) + count_list (take j ls) (ls ! j)) = j"
    using place_symbols_rule [OF built_spans [OF assms], of 0] by auto
  show ?thesis
  proof (cases "\<exists>left. codes_left 1 (length_counts ls) = Some left \<and> \<not> (left \<noteq> 0 \<and> (length ls = 0 \<or> left \<noteq> 1))")
    case True
    then have "huff_build ls = Some (Inr \<lparr>huff_cnt = 0 # length_counts ls, huff_sym = sy\<rparr>)"
      using c sy(1) by (auto simp: huff_build_def)
    moreover have "built ls \<lparr>huff_cnt = 0 # length_counts ls, huff_sym = sy\<rparr>"
    proof -
      have "sy ! (starts ls (ls ! j) + count_list (take j ls) (ls ! j)) = j" if "j < length ls" "0 < ls ! j" for j
        using sy(3) [OF that] offs_nth [OF that(2)] l that(1) by simp
      then show ?thesis using True sy(2) sum_counts [of ls] assms(1) unfolding built_def by auto
    qed
    ultimately show ?thesis by (rule that(2))
  next
    case False
    then have "huff_build ls = Some (Inl (- 1))" using c by (auto simp: huff_build_def Let_def split: option.splits)
    then show ?thesis using False by (intro that(1)) auto
  qed
qed

section \<open>Decoding\<close>

text \<open>A decoder of a built table stays inside it.\<close>

lemma br_get_less: "n \<le> 24 \<Longrightarrow> br_get n b = (v, b') \<Longrightarrow> v < 2 ^ n"
  unfolding br_get_def Let_def mask_32 by (auto simp: unat_take_bit_mod)

lemma or_bit: "even (code :: int) \<Longrightarrow> v < 2 \<Longrightarrow> code OR int v = code + int v"
  by (cases v) (auto simp: less_Suc_eq numeral_2_eq_2 or_one_eq)

lemma decode_loop_safe:
  assumes "index + sum_list cs \<le> length sy" and "first \<le> code" and "even code"
  shows "\<exists>r b'. decode_loop sy cs code first (int index) b = Some (r, b') \<and> (r = - 1 \<or> (\<exists>k < index + sum_list cs. r = int (sy ! k)))"
  using assms
proof (induction cs arbitrary: index code first b)
  case (Cons c cs)
  obtain v b1 where g: "br_get (Suc 0) b = (v, b1)" by (cases "br_get (Suc 0) b") auto
  have v: "v < 2" using br_get_less [OF _ g] by simp
  let ?c = "code + int v"
  have c: "code OR int v = ?c" using or_bit [OF Cons.prems(3) v] .
  show ?case
  proof (cases "?c - first < int c")
    case True
    let ?k = "nat (int index + (?c - first))"
    have k: "0 \<le> int index + (?c - first)" "int index + (?c - first) < int (length sy)" "?k < index + sum_list (c # cs)"
      using True Cons.prems(1,2) by auto
    then show ?thesis using True by (auto simp: g c Let_def intro!: exI [of _ ?k])
  next
    case False
    have "\<exists>r b'. decode_loop sy cs (push_bit 1 ?c) (push_bit 1 (first + int c)) (int (index + c)) b1 = Some (r, b') \<and>
        (r = - 1 \<or> (\<exists>k < index + c + sum_list cs. r = int (sy ! k)))"
      by (rule Cons.IH) (use False Cons.prems in \<open>auto simp: push_bit_eq_mult\<close>)
    then show ?thesis using False by (auto simp: g c Let_def add.assoc)
  qed
qed simp

lemma huff_decode_safe:
  assumes "built ls h"
  obtains r b' where "huff_decode h b = Some (r, b')"
  using decode_loop_safe [of 0 "length_counts ls" "huff_sym h" 0 0 b] assms by (auto simp: built_def huff_decode_def)

text \<open>The code of a symbol (RFC 1951, 3.2.2): the codes of each length are consecutive numbers, in the order of the
  symbols, and the highest bit comes first.\<close>

fun next_code :: "nat list \<Rightarrow> nat \<Rightarrow> nat" where
  "next_code ls 0 = 0"
| "next_code ls (Suc l) = 2 * (next_code ls l + (if l = 0 then 0 else count_list ls l))"

definition code_number :: "nat list \<Rightarrow> nat \<Rightarrow> nat" where "code_number ls s = next_code ls (ls ! s) + count_list (take s ls) (ls ! s)"
definition code_bits :: "nat list \<Rightarrow> nat \<Rightarrow> bool list" where "code_bits ls s = rev (lsb_bits (ls ! s) (code_number ls s))"

lemma div_pow_Suc: "c div 2 ^ m div 2 = c div 2 ^ Suc m" for c :: nat
  by (simp only: power_Suc2 div_mult2_eq)

lemma codes_below:
  assumes "next_code ls l \<le> c" and "0 < j" and "l = Suc (j + m)"
  shows "next_code ls j + count_list ls j \<le> c div 2 ^ Suc m"
  using assms(2,3)
proof (induction m arbitrary: j)
  case 0
  then show ?case using assms(1) by simp
next
  case (Suc m)
  then have "next_code ls (Suc j) + count_list ls (Suc j) \<le> c div 2 ^ Suc m" by simp
  then have "2 * (next_code ls j + count_list ls j) \<le> c div 2 ^ Suc m" using Suc.prems by simp
  then have "next_code ls j + count_list ls j \<le> c div 2 ^ Suc m div 2" by simp
  then show ?case by (simp only: div_pow_Suc)
qed

lemma bits_Suc: "rev (lsb_bits (Suc m) c) = bit c m # rev (lsb_bits m c)"
  by (simp add: lsb_bits_def)

lemma half_step: "c div 2 ^ m = 2 * (c div 2 ^ Suc m) + of_bool (bit c m)" for c :: nat
proof -
  have "c div 2 ^ m = 2 * (c div 2 ^ m div 2) + c div 2 ^ m mod 2" by simp
  then show ?thesis unfolding div_pow_Suc by (simp add: bit_iff_odd odd_iff_mod_2_eq_one)
qed

lemma get_bit:
  assumes "br_ok b" and "br_bits b = x # rest"
  obtains b' where "br_get (Suc 0) b = (of_bool x, b')" and "br_ok b'" and "br_bits b' = rest" and "br_data b' = br_data b"
proof -
  have "br_bits b = lsb_bits (Suc 0) (of_bool x) @ rest" using assms(2) by (simp add: lsb_bits_def bit_0)
  then show ?thesis by (rule br_get_rule [OF assms(1)]) (auto intro: that)
qed

lemma decode_step:
  assumes "br_ok b" and "br_bits b = x # rest" and "f \<le> 2 * q + of_bool x"
  shows "\<exists>b1. br_ok b1 \<and> br_bits b1 = rest \<and> br_data b1 = br_data b \<and>
    decode_loop sy (n # cs) (int (2 * q)) (int f) (int s) b =
      (let c1 = 2 * q + of_bool x in
       if c1 < f + n then (if s + (c1 - f) < length sy then Some (int (sy ! (s + (c1 - f))), b1) else None)
       else decode_loop sy cs (int (2 * c1)) (int (2 * (f + n))) (int (s + n)) b1)"
proof -
  obtain b1 where b1: "br_get (Suc 0) b = (of_bool x, b1)" "br_ok b1" "br_bits b1 = rest" "br_data b1 = br_data b"
    using get_bit [OF assms(1,2)] by blast
  let ?c = "2 * q + of_bool x"
  have c: "int (2 * q) OR int (of_bool x) = int ?c" by (subst or_bit) auto
  have d: "int ?c - int f = int (?c - f)" using assms(3) by (simp only: of_nat_diff)
  have p: "push_bit 1 (int ?c) = int (2 * ?c)" "push_bit 1 (int f + int n) = int (2 * (f + n))" by (simp_all add: push_bit_eq_mult)
  have "decode_loop sy (n # cs) (int (2 * q)) (int f) (int s) b =
      (if int (?c - f) < int n then (if 0 \<le> int s + int (?c - f) \<and> int s + int (?c - f) < int (length sy)
           then Some (int (sy ! nat (int s + int (?c - f))), b1) else None)
       else decode_loop sy cs (int (2 * ?c)) (int (2 * (f + n))) (int s + int n) b1)"
    unfolding decode_loop.simps(2) One_nat_def b1(1) prod.case Let_def c d p [unfolded One_nat_def] ..
  also have "\<dots> = (if ?c < f + n then (if s + (?c - f) < length sy then Some (int (sy ! (s + (?c - f))), b1) else None)
       else decode_loop sy cs (int (2 * ?c)) (int (2 * (f + n))) (int (s + n)) b1)"
  proof -
    have "int (?c - f) < int n \<longleftrightarrow> ?c < f + n" using assms(3) by linarith
    moreover have "nat (int s + int (?c - f)) = s + (?c - f)" by linarith
    moreover have "(0 \<le> int s + int (?c - f) \<and> int s + int (?c - f) < int (length sy)) \<longleftrightarrow> s + (?c - f) < length sy" by linarith
    ultimately show ?thesis by (simp only: of_nat_add)
  qed
  finally show ?thesis using b1(2-4) unfolding Let_def by blast
qed

lemma decode_loop_rule:
  assumes "built ls h" and "l < 16" and c: "next_code ls l \<le> c" "c < next_code ls l + count_list ls l"
    and "l = Suc (k + m)" and "br_ok b" and "br_bits b = rev (lsb_bits (Suc m) c) @ rest"
  shows "\<exists>b'. decode_loop (huff_sym h) (drop k (length_counts ls)) (int (2 * (c div 2 ^ Suc m))) (int (next_code ls (Suc k)))
      (int (starts ls (Suc k))) b = Some (int (huff_sym h ! (starts ls l + (c - next_code ls l))), b') \<and>
    br_ok b' \<and> br_bits b' = rest \<and> br_data b' = br_data b"
  using assms(5-)
proof (induction m arbitrary: k b)
  case 0
  have d: "drop k (length_counts ls) = count_list ls l # drop (Suc k) (length_counts ls)"
    using 0(1) assms(2) by (simp add: Cons_nth_drop_Suc [symmetric] length_counts_nth)
  have q: "2 * (c div 2 ^ Suc 0) + of_bool (bit c 0) = c" using half_step [of c 0] by simp
  have "starts ls l + (c - next_code ls l) < length (huff_sym h)"
  proof -
    have "starts ls l + (c - next_code ls l) < starts ls (Suc l)" using starts_Suc [of l ls] c assms(2) 0(1) by simp
    also have "\<dots> \<le> sum_list (length_counts ls)" unfolding starts_def by (metis take_sum_mono max.cobounded1 max.cobounded2 take_all length_counts_len)
    finally show ?thesis using assms(1) by (simp add: built_def)
  qed
  moreover have bb: "br_bits b = bit c 0 # rest" using 0(3) bits_Suc [of 0 c] by (simp add: lsb_bits_def)
  have "next_code ls l \<le> 2 * (c div 2 ^ Suc 0) + of_bool (bit c 0)" using q c by simp
  note step = decode_step [OF 0(2) bb this, where sy = "huff_sym h" and n = "count_list ls l" and cs = "drop (Suc k) (length_counts ls)" and s = "starts ls l",
      unfolded Let_def q]
  moreover have "Suc k = l" using 0(1) by simp
  ultimately show ?case unfolding d \<open>Suc k = l\<close> using c(2) step by (metis (no_types, lifting))
next
  case (Suc m)
  have k: "k < 15" using Suc.prems(1) assms(2) by simp
  then have d: "drop k (length_counts ls) = count_list ls (Suc k) # drop (Suc k) (length_counts ls)"
    by (simp add: Cons_nth_drop_Suc [symmetric] length_counts_nth)
  have q: "2 * (c div 2 ^ Suc (Suc m)) + of_bool (bit c (Suc m)) = c div 2 ^ Suc m" using half_step [of c "Suc m"] by simp
  have lo: "next_code ls (Suc k) + count_list ls (Suc k) \<le> c div 2 ^ Suc m" by (rule codes_below [OF c(1)]) (use Suc.prems(1) in auto)
  have bb: "br_bits b = bit c (Suc m) # rev (lsb_bits (Suc m) c) @ rest" using Suc.prems(3) bits_Suc [of "Suc m" c] by simp
  have "next_code ls (Suc k) \<le> 2 * (c div 2 ^ Suc (Suc m)) + of_bool (bit c (Suc m))" using q lo by simp
  note step = decode_step [OF Suc.prems(2) bb this, where sy = "huff_sym h" and n = "count_list ls (Suc k)" and cs = "drop (Suc k) (length_counts ls)"
      and s = "starts ls (Suc k)", unfolded Let_def q]
  have n: "2 * (next_code ls (Suc k) + count_list ls (Suc k)) = next_code ls (Suc (Suc k))" by simp
  have st: "starts ls (Suc k) + count_list ls (Suc k) = starts ls (Suc (Suc k))" using starts_Suc [of "Suc k" ls] k by simp
  have "l = Suc (Suc k + m)" using Suc.prems(1) by simp
  moreover obtain b1 where b1: "br_ok b1" "br_bits b1 = rev (lsb_bits (Suc m) c) @ rest" "br_data b1 = br_data b"
    "decode_loop (huff_sym h) (count_list ls (Suc k) # drop (Suc k) (length_counts ls)) (int (2 * (c div 2 ^ Suc (Suc m)))) (int (next_code ls (Suc k)))
       (int (starts ls (Suc k))) b =
     decode_loop (huff_sym h) (drop (Suc k) (length_counts ls)) (int (2 * (c div 2 ^ Suc m))) (int (next_code ls (Suc (Suc k)))) (int (starts ls (Suc (Suc k)))) b1"
    using step lo unfolding n st by (meson leD)
  ultimately show ?case unfolding d b1(4) b1(3) [symmetric] using Suc.IH [OF _ b1(1,2)] by blast
qed

text \<open>The codes of a length have that length.\<close>

lemma codes_left_append: "codes_left left (xs @ ys) = (case codes_left left xs of None \<Rightarrow> None | Some l \<Rightarrow> codes_left l ys)"
  by (induction xs arbitrary: left) (auto simp: Let_def)

lemma codes_left_nonneg: "codes_left left cs = Some r \<Longrightarrow> 0 \<le> left \<Longrightarrow> 0 \<le> r"
  by (induction cs arbitrary: left) (auto simp: Let_def split: if_splits)

lemma codes_left_take:
  "k \<le> 15 \<Longrightarrow> codes_left 1 (take k (length_counts ls)) = Some r \<Longrightarrow>
    r = 2 ^ k - int (next_code ls k + (if k = 0 then 0 else count_list ls k))"
proof (induction k arbitrary: r)
  case (Suc k)
  then have "take (Suc k) (length_counts ls) = take k (length_counts ls) @ [count_list ls (Suc k)]"
    by (simp add: take_Suc_conv_app_nth length_counts_nth)
  with Suc show ?case by (auto simp: codes_left_append Let_def split: option.splits if_splits)
qed simp

lemma code_fits:
  assumes "codes_left 1 (length_counts ls) \<noteq> None" and "0 < l" and "l < 16"
  shows "next_code ls l + count_list ls l \<le> 2 ^ l"
proof -
  have "codes_left 1 (take l (length_counts ls) @ drop l (length_counts ls)) \<noteq> None" using assms(1) by simp
  then obtain r where r: "codes_left 1 (take l (length_counts ls)) = Some r"
    unfolding codes_left_append by (auto split: option.splits)
  have "0 \<le> 2 ^ l - int (next_code ls l + count_list ls l)"
    using codes_left_nonneg [OF r] codes_left_take [OF _ r] assms(2,3) by simp
  then have "int (next_code ls l + count_list ls l) \<le> int (2 ^ l)" by simp
  then show ?thesis by (simp only: of_nat_le_iff)
qed

lemma rank_less: "s < length ls \<Longrightarrow> count_list (take s ls) (ls ! s) < count_list ls (ls ! s)"
proof -
  assume "s < length ls"
  then have "ls = take s ls @ ls ! s # drop (Suc s) ls" by (rule id_take_nth_drop)
  then have "count_list ls (ls ! s) = count_list (take s ls) (ls ! s) + count_list (ls ! s # drop (Suc s) ls) (ls ! s)"
    by (metis count_list_append)
  then show ?thesis by simp
qed

text \<open>The decoder inverts the code of every symbol that has one.\<close>

lemma huff_decode_rule:
  assumes "built ls h" and "\<forall>l \<in> set ls. l < 16" and "s < length ls" and "0 < ls ! s"
    and "br_ok b" and "br_bits b = code_bits ls s @ rest"
  obtains b' where "huff_decode h b = Some (int s, b')" and "br_ok b'" and "br_bits b' = rest" and "br_data b' = br_data b"
proof -
  let ?l = "ls ! s" and ?c = "code_number ls s"
  obtain m where m: "?l = Suc (0 + m)" using assms(4) by (cases ?l) auto
  have l: "?l < 16" using assms(2,3) by simp
  have c: "next_code ls ?l \<le> ?c" "?c < next_code ls ?l + count_list ls ?l"
    using rank_less [OF assms(3)] by (simp_all add: code_number_def)
  have z: "?c div 2 ^ Suc m = 0"
    using code_fits [of ls ?l] assms(1,4) l c(2) m by (simp add: built_def)
  have "br_bits b = rev (lsb_bits (Suc m) ?c) @ rest" using assms(6) m by (simp add: code_bits_def)
  from decode_loop_rule [OF assms(1) l c m assms(5) this, unfolded z] obtain b' where
    b': "decode_loop (huff_sym h) (length_counts ls) 0 0 0 b = Some (int (huff_sym h ! (starts ls ?l + (?c - next_code ls ?l))), b')"
      "br_ok b'" "br_bits b' = rest" "br_data b' = br_data b" by auto
  moreover have "huff_sym h ! (starts ls ?l + (?c - next_code ls ?l)) = s"
    using assms(1,3,4) by (simp add: built_def code_number_def)
  ultimately show ?thesis using that assms(1) by (simp add: huff_decode_def built_def)
qed

section \<open>Complete codes\<close>

definition complete_code :: "nat list \<Rightarrow> bool" where
  "complete_code ls \<longleftrightarrow> length ls \<le> 288 \<and> (\<forall>l \<in> set ls. l < 16) \<and> (\<Sum>l\<leftarrow>filter ((<) 0) ls. 2 ^ (15 - l)) = (32768 :: int)"

fun weighted :: "nat list \<Rightarrow> int" where
  "weighted [] = 0"
| "weighted (c # cs) = int c * 2 ^ length cs + weighted cs"

lemma weighted_nonneg: "0 \<le> weighted cs"
  by (induction cs) auto

lemma weighted_add: "weighted (map (\<lambda>l. f l + g l) xs) = weighted (map f xs) + weighted (map g xs)"
  by (induction xs) (auto simp: algebra_simps)

lemma codes_left_value:
  "0 \<le> 2 ^ length cs * left - weighted cs \<Longrightarrow> codes_left left cs = Some (2 ^ length cs * left - weighted cs)"
proof (induction cs arbitrary: left)
  case (Cons c cs)
  have e: "2 ^ length (c # cs) * left - weighted (c # cs) = 2 ^ length cs * (2 * left - int c) - weighted cs"
    by (simp add: algebra_simps)
  then have "0 \<le> 2 ^ length cs * (2 * left - int c)" using Cons.prems weighted_nonneg [of cs] by linarith
  then have "0 \<le> 2 * left - int c" by (simp add: zero_le_mult_iff)
  then show ?case using Cons.IH [of "2 * left - int c"] Cons.prems unfolding e by (simp add: Let_def)
qed simp

lemma weighted_one: "weighted (map (\<lambda>l. if x = l then 1 else 0) [a..<b]) = (if a \<le> x \<and> x < b then 2 ^ (b - Suc x) else 0)"
proof (induction "b - a" arbitrary: a)
  case (Suc n)
  then have "[a..<b] = a # [Suc a..<b]" by (simp add: upt_conv_Cons)
  with Suc show ?case using Suc.hyps(1) [of "Suc a"] by auto
qed auto

lemma weighted_counts: "\<forall>l \<in> set ls. l < 16 \<Longrightarrow> weighted (length_counts ls) = (\<Sum>l\<leftarrow>filter ((<) 0) ls. 2 ^ (15 - l))"
proof (induction ls)
  case Nil
  have "weighted (map (\<lambda>l. 0) xs) = 0" for xs :: "nat list" by (induction xs) auto
  then show ?case unfolding length_counts_def count_list.simps by simp
next
  case (Cons x ls)
  have "length_counts (x # ls) = map (\<lambda>l. (if x = l then 1 else 0) + count_list ls l) [1..<16]"
    unfolding length_counts_def by (rule map_cong) auto
  then have "weighted (length_counts (x # ls)) = (if 0 < x then 2 ^ (15 - x) else 0) + weighted (length_counts ls)"
    using weighted_one [of x 1 16] Cons.prems unfolding length_counts_def [of ls] by (simp only: weighted_add) simp
  then show ?case using Cons by simp
qed

lemma complete_built:
  assumes "complete_code ls"
  obtains h where "huff_build ls = Some (Inr h)" and "built ls h"
proof -
  have l: "length ls \<le> 288" "\<forall>l \<in> set ls. l < 16" using assms by (auto simp: complete_code_def)
  have "weighted (length_counts ls) = 32768" using assms weighted_counts [OF l(2)] by (simp add: complete_code_def)
  then have "codes_left 1 (length_counts ls) = Some 0" using codes_left_value [of "length_counts ls" 1] by simp
  then show ?thesis using build_rule [OF l] that by blast
qed

end
