(* ===== verification/Inflate_Facts.thy ===== *)
theory Inflate_Facts
  imports Inflate_Huffman
begin

text \<open>
  The format of RFC 1951 as an encoder of blocks (stored, with the fixed code, with a code of their own) and the bytes
  they stand for, and that the decoder inverts it. The decoder returns on every input and stays inside its arrays.
\<close>

section \<open>Output\<close>

text \<open>A destination whose first bytes are the output so far.\<close>

definition sink_of :: "bytes \<Rightarrow> bytes \<Rightarrow> wubu_sink" where
  "sink_of dst out = \<lparr>sk_dst = out @ drop (length out) dst, sk_len = length out\<rparr>"

lemma sk_len_sink_of [simp]: "sk_len (sink_of dst out) = length out"
  by (simp add: sink_of_def)

lemma sink_put_rule:
  "length out < length dst \<Longrightarrow> sink_put c (sink_of dst out) = (0, sink_of dst (out @ [c]))"
  "length out = length dst \<Longrightarrow> sink_put c (sink_of dst out) = (- 2, sink_of dst out)"
  by (auto simp: sink_put_def sink_of_def list_update_append Cons_nth_drop_Suc [symmetric])

text \<open>Bytes repeated from \<open>d\<close> bytes back.\<close>

fun copy_back :: "nat \<Rightarrow> nat \<Rightarrow> bytes \<Rightarrow> bytes" where
  "copy_back 0 d out = out"
| "copy_back (Suc n) d out = copy_back n d (out @ [out ! (length out - d)])"

lemma length_copy_back [simp]: "length (copy_back n d out) = length out + n"
  by (induction n arbitrary: out) auto

lemma copy_match_rule:
  assumes "0 < d" and "d \<le> length out" and "length out \<le> length dst"
  obtains m where "m \<le> n" and "copy_match n d (sink_of dst out) = Some (if m = n then 0 else - 2, sink_of dst (copy_back m d out))"
    and "length out + m \<le> length dst" and "length out + n \<le> length dst \<Longrightarrow> m = n"
proof -
  have "\<exists>m \<le> n. copy_match n d (sink_of dst out) = Some (if m = n then 0 else - 2, sink_of dst (copy_back m d out)) \<and>
      length out + m \<le> length dst \<and> (length out + n \<le> length dst \<longrightarrow> m = n)"
    using assms(2,3)
  proof (induction n arbitrary: out)
    case (Suc n)
    have in_dst: "\<not> (d > length out \<or> length out - d \<ge> length (sk_dst (sink_of dst out)))"
      using Suc.prems assms(1) by (auto simp: sink_of_def)
    have "length out - d < length out" using Suc.prems assms(1) by simp
    then have byte: "sk_dst (sink_of dst out) ! (length out - d) = out ! (length out - d)"
      by (simp add: sink_of_def nth_append)
    show ?case
    proof (cases "length out < length dst")
      case True
      from Suc.IH [of "out @ [out ! (length out - d)]"] Suc.prems True obtain m where
        "m \<le> n" "copy_match n d (sink_of dst (out @ [out ! (length out - d)])) =
          Some (if m = n then 0 else - 2, sink_of dst (copy_back m d (out @ [out ! (length out - d)])))"
        "length out + Suc m \<le> length dst" "length out + Suc n \<le> length dst \<longrightarrow> m = n" by auto
      then show ?thesis using in_dst by (intro exI [of _ "Suc m"]) (auto simp: byte sink_put_rule(1) [OF True])
    next
      case False
      then have "length out = length dst" using Suc.prems by simp
      then show ?thesis using in_dst by (intro exI [of _ 0]) (auto simp: byte sink_put_rule(2))
    qed
  qed simp
  then show ?thesis using that by blast
qed

section \<open>Literals and matches\<close>

text \<open>A byte; or a length and a distance, each as its symbol and the value of its extra bits.\<close>

datatype token = Literal u8 | Match nat nat nat nat

fun expand_token :: "token \<Rightarrow> bytes \<Rightarrow> bytes" where
  "expand_token (Literal c) out = out @ [c]"
| "expand_token (Match i x j y) out = copy_back (k_len_base ! i + x) (k_dist_base ! j + y) out"

definition expand :: "token list \<Rightarrow> bytes \<Rightarrow> bytes" where "expand ts out = fold expand_token ts out"

fun encode_token :: "nat list \<Rightarrow> nat list \<Rightarrow> token \<Rightarrow> bool list" where
  "encode_token L D (Literal c) = code_bits L (unat c)"
| "encode_token L D (Match i x j y) =
     code_bits L (257 + i) @ lsb_bits (k_len_extra ! i) x @ code_bits D j @ lsb_bits (k_dist_extra ! j) y"

definition has_code :: "nat list \<Rightarrow> nat \<Rightarrow> bool" where "has_code ls s \<longleftrightarrow> s < length ls \<and> 0 < ls ! s"

fun token_ok :: "nat list \<Rightarrow> nat list \<Rightarrow> nat \<Rightarrow> token \<Rightarrow> bool" where
  "token_ok L D n (Literal c) \<longleftrightarrow> has_code L (unat c)"
| "token_ok L D n (Match i x j y) \<longleftrightarrow> i < 29 \<and> has_code L (257 + i) \<and> x < 2 ^ (k_len_extra ! i) \<and>
     j < 30 \<and> has_code D j \<and> y < 2 ^ (k_dist_extra ! j) \<and> k_dist_base ! j + y \<le> n"

fun tokens_ok :: "nat list \<Rightarrow> nat list \<Rightarrow> bytes \<Rightarrow> token list \<Rightarrow> bool" where
  "tokens_ok L D out [] \<longleftrightarrow> True"
| "tokens_ok L D out (t # ts) \<longleftrightarrow> token_ok L D (length out) t \<and> tokens_ok L D (expand_token t out) ts"

lemma extra_small: "i < 29 \<Longrightarrow> k_len_extra ! i \<le> 24" "j < 30 \<Longrightarrow> k_dist_extra ! j \<le> 24"
proof -
  have "\<forall>n \<in> set k_len_extra. n \<le> 24" "\<forall>n \<in> set k_dist_extra. n \<le> 24" by (auto simp: k_len_extra_def k_dist_extra_def)
  moreover have "length k_len_extra = 29" "length k_dist_extra = 30" by (simp_all add: k_len_extra_def k_dist_extra_def)
  ultimately show "i < 29 \<Longrightarrow> k_len_extra ! i \<le> 24" "j < 30 \<Longrightarrow> k_dist_extra ! j \<le> 24" by auto
qed

lemma base_pos: "i < 29 \<Longrightarrow> 3 \<le> k_len_base ! i" "j < 30 \<Longrightarrow> 0 < k_dist_base ! j"
proof -
  have "\<forall>n \<in> set k_len_base. 3 \<le> n" "\<forall>n \<in> set k_dist_base. 0 < n" by (auto simp: k_len_base_def k_dist_base_def)
  moreover have "length k_len_base = 29" "length k_dist_base = 30" by (simp_all add: k_len_base_def k_dist_base_def)
  ultimately show "i < 29 \<Longrightarrow> 3 \<le> k_len_base ! i" "j < 30 \<Longrightarrow> 0 < k_dist_base ! j" by auto
qed

lemma length_expand_token: "length out \<le> length (expand_token t out)"
  by (cases t) auto

lemma length_expand: "length out \<le> length (expand ts out)"
  by (induction ts arbitrary: out) (auto simp: expand_def intro: order_trans [OF length_expand_token])

lemma with_extra_rule:
  assumes "br_ok b" and "br_bits b = lsb_bits (extra ! i) v @ rest" and "v < 2 ^ (extra ! i)" and "extra ! i \<le> 24"
  obtains b' where "with_extra base extra i b = (base ! i + v, b')" and "br_ok b'" and "br_bits b' = rest" and "br_data b' = br_data b"
proof -
  obtain b' where "br_get (extra ! i) b = (v, b')" "br_ok b'" "br_bits b' = rest" "br_data b' = br_data b" by (rule br_get_rule [OF assms])
  then show ?thesis using that by (simp add: with_extra_def)
qed

text \<open>Two tables for two codes.\<close>

definition tables :: "nat list \<Rightarrow> nat list \<Rightarrow> wubu_huff \<Rightarrow> wubu_huff \<Rightarrow> bool" where
  "tables L D lth dth \<longleftrightarrow> built L lth \<and> built D dth \<and> (\<forall>l \<in> set L. l < 16) \<and> (\<forall>l \<in> set D. l < 16)"

lemma decode_code:
  assumes "built ls h" and "\<forall>l \<in> set ls. l < 16" and "has_code ls s" and "br_ok b" and "br_bits b = code_bits ls s @ rest"
  obtains b' where "huff_decode h b = Some (int s, b')" and "br_ok b'" and "br_bits b' = rest" and "br_data b' = br_data b"
  using huff_decode_rule [OF assms(1,2) _ _ assms(4,5)] assms(3) unfolding has_code_def by blast

lemma block_decode_token:
  assumes t: "tables L D lth dth" and ok: "token_ok L D (length out) t" and b: "br_ok b" "br_bits b = encode_token L D t @ rest"
    and room: "length (expand_token t out) \<le> length dst"
  obtains b' where "block_decode lth dth b (sink_of dst out) = block_decode lth dth b' (sink_of dst (expand_token t out))"
    and "br_ok b'" and "br_bits b' = rest" and "br_data b' = br_data b"
proof (cases t)
  case (Literal c)
  have lth: "built L lth" "\<forall>l \<in> set L. l < 16" using t by (auto simp: tables_def)
  obtain b1 where b1: "huff_decode lth b = Some (int (unat c), b1)" "br_ok b1" "br_bits b1 = rest" "br_data b1 = br_data b"
    using decode_code [OF lth _ b(1)] ok b(2) Literal by (metis encode_token.simps(1) token_ok.simps(1))
  have "int (unat c) < 256" using unat_less_256 [of c] by linarith
  moreover have "length out < length dst" using room Literal by simp
  ultimately have "block_decode lth dth b (sink_of dst out) = block_decode lth dth b1 (sink_of dst (out @ [c]))"
    by (subst block_decode.simps) (simp add: b1(1) sink_put_rule(1))
  then show ?thesis using that b1 Literal by simp
next
  case (Match i x j y)
  have lth: "built L lth" "\<forall>l \<in> set L. l < 16" and dth: "built D dth" "\<forall>l \<in> set D. l < 16" using t by (auto simp: tables_def)
  have m: "i < 29" "has_code L (257 + i)" "x < 2 ^ (k_len_extra ! i)" "j < 30" "has_code D j" "y < 2 ^ (k_dist_extra ! j)" "k_dist_base ! j + y \<le> length out"
    using ok Match by auto
  have bits: "br_bits b = code_bits L (257 + i) @ lsb_bits (k_len_extra ! i) x @ code_bits D j @ lsb_bits (k_dist_extra ! j) y @ rest"
    using b(2) Match by simp
  obtain b1 where b1: "huff_decode lth b = Some (int (257 + i), b1)" "br_ok b1" "br_data b1 = br_data b"
    "br_bits b1 = lsb_bits (k_len_extra ! i) x @ code_bits D j @ lsb_bits (k_dist_extra ! j) y @ rest"
    by (rule decode_code [OF lth m(2) b(1) bits])
  obtain b2 where b2: "with_extra k_len_base k_len_extra i b1 = (k_len_base ! i + x, b2)" "br_ok b2" "br_data b2 = br_data b1"
    "br_bits b2 = code_bits D j @ lsb_bits (k_dist_extra ! j) y @ rest"
    by (rule with_extra_rule [OF b1(2,4) m(3) extra_small(1) [OF m(1)]])
  obtain b3 where b3: "huff_decode dth b2 = Some (int j, b3)" "br_ok b3" "br_data b3 = br_data b2" "br_bits b3 = lsb_bits (k_dist_extra ! j) y @ rest"
    by (rule decode_code [OF dth m(5) b2(2,4)])
  obtain b4 where b4: "with_extra k_dist_base k_dist_extra j b3 = (k_dist_base ! j + y, b4)" "br_ok b4" "br_data b4 = br_data b3" "br_bits b4 = rest"
    by (rule with_extra_rule [OF b3(2,4) m(6) extra_small(2) [OF m(4)]])
  have r: "length out + (k_len_base ! i + x) \<le> length dst" using room Match by simp
  have d: "0 < k_dist_base ! j + y" "length out \<le> length dst" using base_pos(2) [OF m(4)] r by simp_all
  have c: "copy_match (k_len_base ! i + x) (k_dist_base ! j + y) (sink_of dst out) = Some (0, sink_of dst (expand_token t out))"
    by (rule copy_match_rule [OF d(1) m(7) d(2), of "k_len_base ! i + x"]) (use r Match in auto)
  have s: "nat (int (257 + i) - 257) = i" "nat (int j) = j" "\<not> int (257 + i) < 0" "int (257 + i) \<noteq> 256" "\<not> int (257 + i) < 256"
    "\<not> 29 \<le> int (257 + i) - 257" "\<not> (int j < 0 \<or> 30 \<le> int j)" "\<not> length out < k_dist_base ! j + y" using m(1,4,7) by auto
  have "block_decode lth dth b (sink_of dst out) = block_decode lth dth b4 (sink_of dst (expand_token t out))"
    by (subst block_decode.simps) (simp only: b1(1) b2(1) b3(1) b4(1) c s option.case prod.case if_False if_True sk_len_sink_of not_True_eq_False simp_thms)
  then show ?thesis using that b4 b3(3) b2(3) b1(3) by simp
qed

lemma block_decode_rule:
  assumes t: "tables L D lth dth" and e: "has_code L 256"
  shows "tokens_ok L D out ts \<Longrightarrow> br_ok b \<Longrightarrow> br_bits b = concat (map (encode_token L D) ts) @ code_bits L 256 @ rest \<Longrightarrow>
    length (expand ts out) \<le> length dst \<Longrightarrow>
    \<exists>b'. block_decode lth dth b (sink_of dst out) = Some (0, b', sink_of dst (expand ts out)) \<and> br_ok b' \<and> br_bits b' = rest \<and> br_data b' = br_data b"
proof (induction ts arbitrary: out b)
  case Nil
  have "built L lth" "\<forall>l \<in> set L. l < 16" using t by (auto simp: tables_def)
  then obtain b1 where "huff_decode lth b = Some (int 256, b1)" "br_ok b1" "br_bits b1 = rest" "br_data b1 = br_data b"
    by (rule decode_code [OF _ _ e Nil(2)]) (use Nil(3) in auto)
  then show ?case by (subst block_decode.simps) (simp add: expand_def)
next
  case (Cons t' ts)
  have ok: "token_ok L D (length out) t'" "tokens_ok L D (expand_token t' out) ts" using Cons.prems(1) by auto
  have ex: "expand (t' # ts) out = expand ts (expand_token t' out)" by (simp add: expand_def)
  then have room: "length (expand_token t' out) \<le> length dst"
    using Cons.prems(4) length_expand [of "expand_token t' out" ts] by simp
  obtain b1 where b1: "block_decode lth dth b (sink_of dst out) = block_decode lth dth b1 (sink_of dst (expand_token t' out))"
    "br_ok b1" "br_bits b1 = concat (map (encode_token L D) ts) @ code_bits L 256 @ rest" "br_data b1 = br_data b"
    by (rule block_decode_token [OF t ok(1) Cons.prems(2) _ room]) (use Cons.prems(3) in auto)
  from Cons.IH [OF ok(2) b1(2,3)] Cons.prems(4) show ?case unfolding b1(1) ex b1(4) by blast
qed

section \<open>Stored blocks\<close>

lemma bits_of_prefix:
  assumes "bits_of xs = bits_of ys @ rest"
  obtains zs where "xs = ys @ zs" and "bits_of zs = rest"
proof -
  have "\<exists>zs. xs = ys @ zs \<and> bits_of zs = rest" using assms
  proof (induction ys arbitrary: xs)
    case (Cons y ys)
    then obtain x xs' where xs: "xs = x # xs'" by (cases xs) (auto simp: byte_bits_def)
    have "length (byte_bits x) = length (byte_bits y)" by (simp add: byte_bits_def)
    then have b: "byte_bits x = byte_bits y" and r: "bits_of xs' = bits_of ys @ rest" using Cons.prems xs by auto
    have "x = y" using b by (intro bit_word_eqI) (auto simp: byte_bits_def)
    then show ?case using Cons.IH [OF r] xs by auto
  qed simp
  then show ?thesis using that by blast
qed

lemma stored_copy_rule:
  "drop (br_pos b) (br_data b) = bs @ later \<Longrightarrow> length out + length bs \<le> length dst \<Longrightarrow>
    stored_copy (length bs) b (sink_of dst out) = (0, b\<lparr>br_pos := br_pos b + length bs\<rparr>, sink_of dst (out @ bs))"
proof (induction bs arbitrary: b out)
  case (Cons c bs)
  then have p: "br_pos b < length (br_data b)" by (metis append_Cons drop_all list.distinct(1) not_le_imp_less)
  then have d: "br_data b ! br_pos b = c" "drop (Suc (br_pos b)) (br_data b) = bs @ later"
    using Cons.prems(1) by (simp_all add: Cons_nth_drop_Suc [symmetric])
  have "length out < length dst" using Cons.prems(2) by simp
  then show ?case using Cons.IH [of "b\<lparr>br_pos := br_pos b + 1\<rparr>" "out @ [c]"] Cons.prems(2) p d by (simp add: sink_put_rule(1))
qed simp

definition stored_header :: "nat \<Rightarrow> bytes" where
  "stored_header n = [of_nat n, of_nat (n div 256), NOT (of_nat n), NOT (of_nat (n div 256))]"

lemma align_bits:
  assumes "br_ok b" and "br_bits b = pad @ rest" and "length pad = length (br_bits b) mod 8"
  shows "bits_of (drop (br_pos b) (br_data b)) = rest"
proof -
  have "length (br_bits b) mod 8 = bitcnt b" using assms(1) by (simp add: length_br_bits br_ok_def)
  then show ?thesis using assms(2,3) by (simp add: br_bits_def)
qed

lemma block_stored_rule:
  assumes b: "br_ok b" "br_bits b = pad @ bits_of (stored_header (length bs) @ bs) @ rest" "length pad = length (br_bits b) mod 8"
    and n: "length bs < 65536" "length out + length bs \<le> length dst"
  obtains b' where "block_stored b (sink_of dst out) = (0, b', sink_of dst (out @ bs))" and "br_ok b'" and "br_bits b' = rest" and "br_data b' = br_data b"
proof -
  have "bits_of (drop (br_pos b) (br_data b)) = bits_of (stored_header (length bs) @ bs) @ rest" by (rule align_bits [OF b])
  then obtain later where later: "drop (br_pos b) (br_data b) = (stored_header (length bs) @ bs) @ later" "bits_of later = rest" by (rule bits_of_prefix)
  let ?p = "br_pos b" and ?n = "length bs"
  have len: "length (br_data b) - ?p = 4 + ?n + length later" using arg_cong [OF later(1), of length] by (simp add: stored_header_def)
  then have p: "?p + 4 \<le> length (br_data b)" by simp
  have "br_data b ! ?p = of_nat ?n" "br_data b ! (?p + 1) = of_nat (?n div 256)"
    using p arg_cong [OF later(1), of "\<lambda>xs. xs ! 0"] arg_cong [OF later(1), of "\<lambda>xs. xs ! 1"] by (simp_all add: stored_header_def)
  then have "unat (br_data b ! ?p) + 256 * unat (br_data b ! (?p + 1)) = ?n mod 256 + 256 * (?n div 256)"
    using n(1) by (simp add: unat_of_nat)
  then have v: "unat (br_data b ! ?p) + 256 * unat (br_data b ! (?p + 1)) = ?n" by simp
  have d: "drop (?p + 4) (br_data b) = bs @ later"
    using arg_cong [OF later(1), of "drop 4"] by (simp add: stored_header_def add.commute)
  let ?b = "(br_align b)\<lparr>br_pos := ?p + 4\<rparr>"
  have "block_stored b (sink_of dst out) = (0, ?b\<lparr>br_pos := ?p + 4 + ?n\<rparr>, sink_of dst (out @ bs))"
    using stored_copy_rule [of ?b bs later out dst] d n(2) v p by (simp add: block_stored_def br_align_def Let_def)
  moreover have "drop (?p + 4 + ?n) (br_data b) = later" using arg_cong [OF d, of "drop ?n"] by (simp add: add.commute)
  then have "br_bits (?b\<lparr>br_pos := ?p + 4 + ?n\<rparr>) = rest" using later(2) by (simp add: br_bits_def br_align_def)
  moreover have "br_ok (?b\<lparr>br_pos := ?p + 4 + ?n\<rparr>)" using len p by (auto simp: br_ok_def clean_buf_def br_align_def)
  moreover have "br_data (?b\<lparr>br_pos := ?p + 4 + ?n\<rparr>) = br_data b" by (simp add: br_align_def)
  ultimately show ?thesis using that by blast
qed

section \<open>Blocks with a code of their own\<close>

text \<open>Code lengths as they are transmitted: a length; the last one again; zeros. The number is that of the extra
  bits.\<close>

datatype run = Len nat | Again nat | Zeros nat | ManyZeros nat

fun run_symbol :: "run \<Rightarrow> nat" where
  "run_symbol (Len l) = l" | "run_symbol (Again v) = 16" | "run_symbol (Zeros v) = 17" | "run_symbol (ManyZeros v) = 18"

fun run_bits :: "run \<Rightarrow> bool list" where
  "run_bits (Len l) = []" | "run_bits (Again v) = lsb_bits 2 v" | "run_bits (Zeros v) = lsb_bits 3 v" | "run_bits (ManyZeros v) = lsb_bits 7 v"

fun expand_run :: "run \<Rightarrow> nat list \<Rightarrow> nat list" where
  "expand_run (Len l) ls = ls @ [l]"
| "expand_run (Again v) ls = ls @ replicate (v + 3) (last ls)"
| "expand_run (Zeros v) ls = ls @ replicate (v + 3) 0"
| "expand_run (ManyZeros v) ls = ls @ replicate (v + 11) 0"

fun run_ok :: "nat list \<Rightarrow> run \<Rightarrow> bool" where
  "run_ok ls (Len l) \<longleftrightarrow> l < 16"
| "run_ok ls (Again v) \<longleftrightarrow> ls \<noteq> [] \<and> v < 4"
| "run_ok ls (Zeros v) \<longleftrightarrow> v < 8"
| "run_ok ls (ManyZeros v) \<longleftrightarrow> v < 128"

fun runs_ok :: "nat list \<Rightarrow> nat list \<Rightarrow> run list \<Rightarrow> bool" where
  "runs_ok cl ls [] \<longleftrightarrow> True"
| "runs_ok cl ls (r # rs) \<longleftrightarrow> run_ok ls r \<and> has_code cl (run_symbol r) \<and> runs_ok cl (expand_run r ls) rs"

definition expand_runs :: "run list \<Rightarrow> nat list \<Rightarrow> nat list" where "expand_runs rs ls = fold expand_run rs ls"

definition encode_run :: "nat list \<Rightarrow> run \<Rightarrow> bool list" where "encode_run cl r = code_bits cl (run_symbol r) @ run_bits r"

lemma length_expand_run: "length ls < length (expand_run r ls)"
  by (cases r) auto

lemma length_expand_runs: "length ls \<le> length (expand_runs rs ls)"
  by (induction rs arbitrary: ls) (auto simp: expand_runs_def intro: order_trans [OF less_imp_le [OF length_expand_run]])

lemma expand_runs_small: "runs_ok cl ls rs \<Longrightarrow> \<forall>l \<in> set ls. l < 16 \<Longrightarrow> \<forall>l \<in> set (expand_runs rs ls). l < 16"
proof (induction rs arbitrary: ls)
  case (Cons r rs)
  have "\<forall>l \<in> set (expand_run r ls). l < 16" using Cons.prems by (cases r) auto
  then show ?case using Cons.IH [of "expand_run r ls"] Cons.prems(1) by (simp add: expand_runs_def)
qed (simp add: expand_runs_def)

lemma put_lengths_rule: "length ls + r \<le> n \<Longrightarrow> n \<le> 320 \<Longrightarrow> put_lengths r v n ls = Some (ls @ replicate r v)"
  by (induction r arbitrary: ls) (auto simp: replicate_append_same)

lemma read_lengths_rule:
  assumes cl: "built cl h" "\<forall>l \<in> set cl. l < 16" and n: "n \<le> 320"
  shows "runs_ok cl ls rs \<Longrightarrow> br_ok b \<Longrightarrow> br_bits b = concat (map (encode_run cl) rs) @ rest \<Longrightarrow> length (expand_runs rs ls) = n \<Longrightarrow>
    \<exists>b'. read_lengths h n ls b = Some (Inr (expand_runs rs ls), b') \<and> br_ok b' \<and> br_bits b' = rest \<and> br_data b' = br_data b"
proof (induction rs arbitrary: ls b)
  case Nil
  then show ?case by (subst read_lengths.simps) (auto simp: expand_runs_def)
next
  case (Cons r rs)
  have ok: "run_ok ls r" "has_code cl (run_symbol r)" "runs_ok cl (expand_run r ls) rs" using Cons.prems(1) by auto
  have ex: "expand_runs (r # rs) ls = expand_runs rs (expand_run r ls)" by (simp add: expand_runs_def)
  have len: "length (expand_run r ls) \<le> n" using Cons.prems(4) length_expand_runs [of "expand_run r ls" rs] unfolding ex by simp
  then have less: "length ls < n" using length_expand_run [of ls r] by simp
  obtain b1 where b1: "huff_decode h b = Some (int (run_symbol r), b1)" "br_ok b1" "br_bits b1 = run_bits r @ concat (map (encode_run cl) rs) @ rest"
    "br_data b1 = br_data b"
    by (rule decode_code [OF cl ok(2) Cons.prems(2)]) (use Cons.prems(3) in \<open>auto simp: encode_run_def [of cl r]\<close>)
  have "\<exists>b2. read_lengths h n ls b = read_lengths h n (expand_run r ls) b2 \<and> br_ok b2 \<and> br_bits b2 = concat (map (encode_run cl) rs) @ rest \<and> br_data b2 = br_data b"
  proof (cases r)
    case (Len l)
    have "put_lengths 1 l n ls = Some (ls @ [l])" using put_lengths_rule [of ls 1 n l] len n Len by simp
    then show ?thesis using b1 ok(1) less Len by (subst read_lengths.simps) auto
  next
    case (Again v)
    obtain b2 where b2: "br_get 2 b1 = (v, b2)" "br_ok b2" "br_bits b2 = concat (map (encode_run cl) rs) @ rest" "br_data b2 = br_data b1"
      by (rule br_get_rule [OF b1(2)]) (use b1(3) ok(1) Again in auto)
    have "put_lengths (v + 3) (last ls) n ls = Some (expand_run r ls)" using put_lengths_rule [of ls "v + 3" n "last ls"] len n Again by simp
    then show ?thesis using b1 b2 ok(1) less Again by (subst read_lengths.simps) auto
  next
    case (Zeros v)
    obtain b2 where b2: "br_get 3 b1 = (v, b2)" "br_ok b2" "br_bits b2 = concat (map (encode_run cl) rs) @ rest" "br_data b2 = br_data b1"
      by (rule br_get_rule [OF b1(2)]) (use b1(3) ok(1) Zeros in auto)
    have "put_lengths (v + 3) 0 n ls = Some (expand_run r ls)" using put_lengths_rule [of ls "v + 3" n 0] len n Zeros by simp
    then show ?thesis using b1 b2 ok(1) less Zeros by (subst read_lengths.simps) auto
  next
    case (ManyZeros v)
    obtain b2 where b2: "br_get 7 b1 = (v, b2)" "br_ok b2" "br_bits b2 = concat (map (encode_run cl) rs) @ rest" "br_data b2 = br_data b1"
      by (rule br_get_rule [OF b1(2)]) (use b1(3) ok(1) ManyZeros in auto)
    have "put_lengths (v + 11) 0 n ls = Some (expand_run r ls)" using put_lengths_rule [of ls "v + 11" n 0] len n ManyZeros by simp
    then show ?thesis using b1 b2 ok(1) less ManyZeros by (subst read_lengths.simps) auto
  qed
  then obtain b2 where b2: "read_lengths h n ls b = read_lengths h n (expand_run r ls) b2" "br_ok b2" "br_bits b2 = concat (map (encode_run cl) rs) @ rest"
    "br_data b2 = br_data b" by blast
  from Cons.IH [OF ok(3) b2(2,3)] Cons.prems(4) show ?case unfolding b2(1) b2(4) ex by blast
qed

lemma read_cl_rule:
  "\<forall>k \<in> set ks. cls ! k < 8 \<Longrightarrow> br_ok b \<Longrightarrow> br_bits b = concat (map (\<lambda>k. lsb_bits 3 (cls ! k)) ks) @ rest \<Longrightarrow>
    \<exists>b'. read_cl ks cl b = (fold (\<lambda>k c. c[k := cls ! k]) ks cl, b') \<and> br_ok b' \<and> br_bits b' = rest \<and> br_data b' = br_data b"
proof (induction ks arbitrary: cl b)
  case (Cons k ks)
  obtain b1 where b1: "br_get 3 b = (cls ! k, b1)" "br_ok b1" "br_bits b1 = concat (map (\<lambda>k. lsb_bits 3 (cls ! k)) ks) @ rest" "br_data b1 = br_data b"
    by (rule br_get_rule [OF Cons.prems(2)]) (use Cons.prems(1,3) in auto)
  from Cons.IH [OF _ b1(2,3), of "cl[k := cls ! k]"] Cons.prems(1) b1(1,4) show ?case by simp
qed simp

lemma fold_update_nth:
  "length (fold (\<lambda>k c. c[k := f k]) ks cl) = length cl \<and>
   (\<forall>k < length cl. fold (\<lambda>k c. c[k := f k]) ks cl ! k = (if k \<in> set ks then f k else cl ! k))"
  by (induction ks arbitrary: cl) (auto simp: nth_list_update)

lemma ORD_all: "set ORD = {0..<19}"
proof -
  have "x \<in> set ORD" if "x < 19" for x using that by (simp add: ORD_def) arith
  then have "{0..<19} \<subseteq> set ORD" by auto
  moreover have "set ORD \<subseteq> {0..<19}" by (simp add: ORD_def)
  ultimately show ?thesis by simp
qed

lemma cl_lengths:
  assumes "length cls = 19" and "\<forall>k \<in> set (drop h ORD). cls ! k = 0"
  shows "fold (\<lambda>k c. c[k := cls ! k]) (take h ORD) (replicate 19 0) = cls"
proof (rule nth_equalityI)
  show "length (fold (\<lambda>k c. c[k := cls ! k]) (take h ORD) (replicate 19 0)) = length cls"
    using fold_update_nth [of "(!) cls" "take h ORD" "replicate 19 0"] assms(1) by simp
next
  fix k assume "k < length (fold (\<lambda>k c. c[k := cls ! k]) (take h ORD) (replicate 19 0))"
  then have k: "k < 19" using fold_update_nth [of "(!) cls" "take h ORD" "replicate 19 0"] by simp
  then have "k \<in> set (take h ORD @ drop h ORD)" unfolding append_take_drop_id ORD_all by simp
  then have "k \<in> set (take h ORD) \<or> k \<in> set (drop h ORD)" by (simp only: set_append Un_iff)
  then show "fold (\<lambda>k c. c[k := cls ! k]) (take h ORD) (replicate 19 0) ! k = cls ! k"
    using fold_update_nth [of "(!) cls" "take h ORD" "replicate 19 0"] assms(2) k by auto
qed

section \<open>Streams\<close>

text \<open>A block: bytes; tokens in the fixed code; or tokens in a code that is transmitted, as the number of lengths of
  the code for code lengths, these lengths, the runs that give the lengths of both codes, and how many of them belong
  to the first.\<close>

datatype block = Stored bytes | Fixed "token list" | Dynamic nat "nat list" "run list" nat "token list"

definition token_bits :: "nat list \<Rightarrow> nat list \<Rightarrow> token list \<Rightarrow> bool list" where
  "token_bits L D ts = concat (map (encode_token L D) ts) @ code_bits L 256"

fun block_bits :: "nat \<Rightarrow> block \<Rightarrow> bool list" where
  "block_bits p (Stored bs) = replicate ((8 - p mod 8) mod 8) False @ bits_of (stored_header (length bs) @ bs)"
| "block_bits p (Fixed ts) = token_bits fixed_litlen fixed_dist ts"
| "block_bits p (Dynamic h cls rs k ts) =
     (let ls = expand_runs rs [] in
      lsb_bits 5 (k - 257) @ lsb_bits 5 (length ls - k - 1) @ lsb_bits 4 (h - 4) @
      concat (map (\<lambda>i. lsb_bits 3 (cls ! i)) (take h ORD)) @ concat (map (encode_run cls) rs) @ token_bits (take k ls) (drop k ls) ts)"

fun block_type :: "block \<Rightarrow> nat" where
  "block_type (Stored bs) = 0" | "block_type (Fixed ts) = 1" | "block_type (Dynamic h cls rs k ts) = 2"

fun block_ok :: "bytes \<Rightarrow> block \<Rightarrow> bool" where
  "block_ok out (Stored bs) \<longleftrightarrow> length bs < 65536"
| "block_ok out (Fixed ts) \<longleftrightarrow> tokens_ok fixed_litlen fixed_dist out ts"
| "block_ok out (Dynamic h cls rs k ts) \<longleftrightarrow>
     (let ls = expand_runs rs [] in
      4 \<le> h \<and> h \<le> 19 \<and> length cls = 19 \<and> (\<forall>l \<in> set cls. l < 8) \<and> (\<forall>i \<in> set (drop h ORD). cls ! i = 0) \<and> complete_code cls \<and>
      runs_ok cls [] rs \<and> 257 \<le> k \<and> k \<le> 288 \<and> k < length ls \<and> length ls \<le> k + 32 \<and>
      complete_code (take k ls) \<and> complete_code (drop k ls) \<and> has_code ls 256 \<and> tokens_ok (take k ls) (drop k ls) out ts)"

fun expand_block :: "block \<Rightarrow> bytes \<Rightarrow> bytes" where
  "expand_block (Stored bs) out = out @ bs"
| "expand_block (Fixed ts) out = expand ts out"
| "expand_block (Dynamic h cls rs k ts) out = expand ts out"

lemma complete_tables:
  assumes "complete_code L" and "complete_code D"
  obtains lth dth where "huff_build L = Some (Inr lth)" and "huff_build D = Some (Inr dth)" and "tables L D lth dth"
proof -
  obtain lth where "huff_build L = Some (Inr lth)" "built L lth" by (rule complete_built [OF assms(1)])
  moreover obtain dth where "huff_build D = Some (Inr dth)" "built D dth" by (rule complete_built [OF assms(2)])
  ultimately show ?thesis using that assms by (auto simp: tables_def complete_code_def)
qed

lemma fixed_complete: "complete_code fixed_litlen" "complete_code fixed_dist" "has_code fixed_litlen 256"
  by (auto simp: complete_code_def fixed_litlen_def fixed_dist_def has_code_def nth_append sum_list_replicate filter_replicate)

lemma block_fixed_rule:
  assumes "block_ok out (Fixed ts)" and "br_ok b" and "br_bits b = block_bits p (Fixed ts) @ rest" and "length (expand ts out) \<le> length dst"
  shows "\<exists>b'. block_fixed b (sink_of dst out) = Some (0, b', sink_of dst (expand ts out)) \<and> br_ok b' \<and> br_bits b' = rest \<and> br_data b' = br_data b"
proof -
  obtain lth dth where t: "huff_build fixed_litlen = Some (Inr lth)" "huff_build fixed_dist = Some (Inr dth)" "tables fixed_litlen fixed_dist lth dth"
    by (rule complete_tables [OF fixed_complete(1,2)])
  show ?thesis using block_decode_rule [OF t(3) fixed_complete(3) _ assms(2) _ assms(4)] assms(1,3) by (simp add: block_fixed_def t(1,2) token_bits_def)
qed

lemma block_dynamic_rule:
  assumes ok: "block_ok out (Dynamic h cls rs k ts)" and b: "br_ok b" "br_bits b = block_bits p (Dynamic h cls rs k ts) @ rest"
    and room: "length (expand ts out) \<le> length dst"
  shows "\<exists>b'. block_dynamic b (sink_of dst out) = Some (0, b', sink_of dst (expand ts out)) \<and> br_ok b' \<and> br_bits b' = rest \<and> br_data b' = br_data b"
proof -
  let ?ls = "expand_runs rs []" let ?L = "take k ?ls" and ?D = "drop k ?ls"
  have o: "4 \<le> h" "h \<le> 19" "length cls = 19" "\<forall>l \<in> set cls. l < 8" "\<forall>i \<in> set (drop h ORD). cls ! i = 0" "complete_code cls"
    "runs_ok cls [] rs" "257 \<le> k" "k \<le> 288" "k < length ?ls" "length ?ls \<le> k + 32" "complete_code ?L" "complete_code ?D" "has_code ?ls 256"
    "tokens_ok ?L ?D out ts" using ok by (simp_all add: Let_def)
  let ?cl = "concat (map (\<lambda>i. lsb_bits 3 (cls ! i)) (take h ORD))" and ?rs = "concat (map (encode_run cls) rs)" and ?ts = "token_bits ?L ?D ts @ rest"
  obtain b1 where b1: "br_get 5 b = (k - 257, b1)" "br_ok b1" "br_bits b1 = lsb_bits 5 (length ?ls - k - 1) @ lsb_bits 4 (h - 4) @ ?cl @ ?rs @ ?ts"
    "br_data b1 = br_data b" by (rule br_get_rule [OF b(1)]) (use b(2) o(9) in \<open>auto simp: Let_def\<close>)
  obtain b2 where b2: "br_get 5 b1 = (length ?ls - k - 1, b2)" "br_ok b2" "br_bits b2 = lsb_bits 4 (h - 4) @ ?cl @ ?rs @ ?ts" "br_data b2 = br_data b1"
    by (rule br_get_rule [OF b1(2,3)]) (use o(10,11) in auto)
  obtain b3 where b3: "br_get 4 b2 = (h - 4, b3)" "br_ok b3" "br_bits b3 = ?cl @ ?rs @ ?ts" "br_data b3 = br_data b2"
    by (rule br_get_rule [OF b2(2,3)]) (use o(2) in auto)
  have "\<forall>i \<in> set (take h ORD). cls ! i < 8" using o(3,4) ORD_all by (auto dest!: in_set_takeD)
  from read_cl_rule [OF this b3(2,3), of "replicate 19 0"] obtain b4 where
    b4: "read_cl (take h ORD) (replicate 19 0) b3 = (cls, b4)" "br_ok b4" "br_bits b4 = ?rs @ ?ts" "br_data b4 = br_data b3"
    unfolding cl_lengths [OF o(3,5)] by blast
  obtain clh where clh: "huff_build cls = Some (Inr clh)" "built cls clh" by (rule complete_built [OF o(6)])
  have "\<forall>l \<in> set cls. l < 16" using o(4) by auto
  from read_lengths_rule [OF clh(2) this _ o(7) b4(2,3) refl] o(9,11) obtain b5 where
    b5: "read_lengths clh (length ?ls) [] b4 = Some (Inr ?ls, b5)" "br_ok b5" "br_bits b5 = ?ts" "br_data b5 = br_data b4" by auto
  obtain lth dth where t: "huff_build ?L = Some (Inr lth)" "huff_build ?D = Some (Inr dth)" "tables ?L ?D lth dth"
    by (rule complete_tables [OF o(12,13)])
  have "has_code ?L 256" using o(8,14) by (simp add: has_code_def)
  from block_decode_rule [OF t(3) this o(15) b5(2) _ room] b5(3) obtain b6 where
    b6: "block_decode lth dth b5 (sink_of dst out) = Some (0, b6, sink_of dst (expand ts out))" "br_ok b6" "br_bits b6 = rest" "br_data b6 = br_data b5"
    by (auto simp: token_bits_def)
  have n: "k - 257 + 257 = k" "length ?ls - k - 1 + 1 = length ?D" "h - 4 + 4 = h" "k + length ?D = length ?ls" "take (length ?D) ?D = ?D" using o(1,8,10) by auto
  have "block_dynamic b (sink_of dst out) = Some (0, b6, sink_of dst (expand ts out))"
    unfolding block_dynamic_def b1(1) b2(1) b3(1) prod.case Let_def n b4(1) clh(1) b5(1) option.case sum.case t(1,2) b6(1) ..
  then show ?thesis using b6 b5(4) b4(4) b3(4) b2(4) b1(4) by simp
qed

lemma pad_length:
  fixes n p :: nat
  assumes "(p + n) mod 8 = 0"
  shows "n mod 8 = (8 - p mod 8) mod 8"
proof -
  have s: "(p mod 8 + n mod 8) mod 8 = 0" using assms by (simp add: mod_add_eq)
  have b: "p mod 8 < 8" "n mod 8 < 8" by simp_all
  show ?thesis
  proof (cases "p mod 8 + n mod 8 < 8")
    case True
    then show ?thesis using s by simp
  next
    case False
    then have "(p mod 8 + n mod 8 - 8) mod 8 = 0" using s le_mod_geq [of 8 "p mod 8 + n mod 8"] by linarith
    moreover have "p mod 8 + n mod 8 - 8 < 8" using b by linarith
    ultimately have "p mod 8 + n mod 8 - 8 = 0" by simp
    then have "p mod 8 + n mod 8 = 8" using False by linarith
    then have "n mod 8 = 8 - p mod 8" by linarith
    then show ?thesis using b(2) by simp
  qed
qed

lemma length_expand_block: "length out \<le> length (expand_block bl out)"
  by (cases bl) (auto simp: length_expand)

lemma block_any_rule:
  assumes "block_ok out bl" and "br_ok b" and "br_bits b = block_bits p bl @ rest" and "(p + length (br_bits b)) mod 8 = 0"
    and "length (expand_block bl out) \<le> length dst"
  obtains b' where "block_any (block_type bl) b (sink_of dst out) = Some (0, b', sink_of dst (expand_block bl out))"
    and "br_ok b'" and "br_bits b' = rest" and "br_data b' = br_data b"
proof (cases bl)
  case (Stored bs)
  have bits: "br_bits b = replicate ((8 - p mod 8) mod 8) False @ bits_of (stored_header (length bs) @ bs) @ rest"
    using assms(3) unfolding Stored block_bits.simps by (simp only: append_assoc)
  have pad: "length (replicate ((8 - p mod 8) mod 8) False) = length (br_bits b) mod 8"
    unfolding length_replicate using pad_length [OF assms(4)] by (rule sym)
  have n: "length bs < 65536" "length out + length bs \<le> length dst" using assms(1,5) Stored by simp_all
  obtain b' where "block_stored b (sink_of dst out) = (0, b', sink_of dst (out @ bs))" "br_ok b'" "br_bits b' = rest" "br_data b' = br_data b"
    by (rule block_stored_rule [OF assms(2) bits pad n])
  then show ?thesis using that Stored by (simp add: block_any_def)
next
  case (Fixed ts)
  then show ?thesis using block_fixed_rule [of out ts b p rest dst] assms that by (auto simp: block_any_def)
next
  case (Dynamic h cls rs k ts)
  then show ?thesis using block_dynamic_rule [of out h cls rs k ts b p rest dst] assms that by (auto simp: block_any_def simp del: block_ok.simps block_bits.simps)
qed

text \<open>Blocks one after the other, from bit \<open>p\<close> on; the first bit of a block says whether it is the last.\<close>

fun stream_bits :: "nat \<Rightarrow> block list \<Rightarrow> bool list" where
  "stream_bits p [] = []"
| "stream_bits p (bl # bls) =
     (let e = (bls = []) # lsb_bits 2 (block_type bl) @ block_bits (p + 3) bl in e @ stream_bits (p + length e) bls)"

fun stream_ok :: "bytes \<Rightarrow> block list \<Rightarrow> bool" where
  "stream_ok out [] \<longleftrightarrow> True"
| "stream_ok out (bl # bls) \<longleftrightarrow> block_ok out bl \<and> stream_ok (expand_block bl out) bls"

definition expand_stream :: "block list \<Rightarrow> bytes \<Rightarrow> bytes" where "expand_stream bls out = fold expand_block bls out"

lemma length_expand_stream: "length out \<le> length (expand_stream bls out)"
  by (induction bls arbitrary: out) (auto simp: expand_stream_def intro: order_trans [OF length_expand_block])

lemma inflate_loop_rule:
  "bls \<noteq> [] \<Longrightarrow> stream_ok out bls \<Longrightarrow> br_ok b \<Longrightarrow> br_bits b = stream_bits p bls @ rest \<Longrightarrow> (p + length (br_bits b)) mod 8 = 0 \<Longrightarrow>
    guard + length bls \<le> 1000000 \<Longrightarrow> length (expand_stream bls out) \<le> length dst \<Longrightarrow>
    \<exists>b'. inflate_loop guard b (sink_of dst out) = Some (0, b', sink_of dst (expand_stream bls out)) \<and> br_ok b' \<and> br_bits b' = rest \<and> br_data b' = br_data b"
proof (induction bls arbitrary: out b p guard)
  case (Cons bl bls)
  let ?e = "(bls = []) # lsb_bits 2 (block_type bl) @ block_bits (p + 3) bl" let ?out = "expand_block bl out"
  have bits: "br_bits b = (bls = []) # lsb_bits 2 (block_type bl) @ block_bits (p + 3) bl @ stream_bits (p + length ?e) bls @ rest"
    using Cons.prems(4) by (simp add: Let_def)
  obtain b1 where b1: "br_get (Suc 0) b = (of_bool (bls = []), b1)" "br_ok b1" "br_data b1 = br_data b"
    "br_bits b1 = lsb_bits 2 (block_type bl) @ block_bits (p + 3) bl @ stream_bits (p + length ?e) bls @ rest" by (rule get_bit [OF Cons.prems(3) bits])
  have ty: "block_type bl < 2 ^ 2" by (cases bl) auto
  obtain b2 where b2: "br_get 2 b1 = (block_type bl, b2)" "br_ok b2" "br_data b2 = br_data b1"
    "br_bits b2 = block_bits (p + 3) bl @ stream_bits (p + length ?e) bls @ rest" by (rule br_get_rule [OF b1(2,4) ty]) simp
  have "p + 3 + length (br_bits b2) = p + length (br_bits b)" unfolding bits b2(4) by simp
  then have al: "(p + 3 + length (br_bits b2)) mod 8 = 0" using Cons.prems(5) by (simp only:)
  have ex: "expand_stream (bl # bls) out = expand_stream bls ?out" by (simp add: expand_stream_def)
  then have room: "length ?out \<le> length dst" using Cons.prems(7) length_expand_stream [of ?out bls] by simp
  have ok: "block_ok out bl" "stream_ok ?out bls" using Cons.prems(2) by auto
  obtain b3 where b3: "block_any (block_type bl) b2 (sink_of dst out) = Some (0, b3, sink_of dst ?out)" "br_ok b3" "br_data b3 = br_data b2"
    "br_bits b3 = stream_bits (p + length ?e) bls @ rest" by (rule block_any_rule [OF ok(1) b2(2,4) al room])
  have g: "\<not> guard + 1 > 1000000" using Cons.prems(6) by simp
  show ?case
  proof (cases "bls = []")
    case True
    then have "inflate_loop guard b (sink_of dst out) = Some (0, b3, sink_of dst ?out)"
      using g b1(1) b2(1) b3(1) by (subst inflate_loop.simps) simp
    then show ?thesis using True b3 b2(3) b1(3) unfolding ex by (simp add: expand_stream_def)
  next
    case False
    then have step: "inflate_loop guard b (sink_of dst out) = inflate_loop (guard + 1) b3 (sink_of dst ?out)"
      using g b1(1) b2(1) b3(1) by (subst inflate_loop.simps) simp
    have "p + length ?e + length (br_bits b3) = p + 3 + length (br_bits b2)" unfolding b2(4) b3(4) by simp
    then have "(p + length ?e + length (br_bits b3)) mod 8 = 0" using al by (simp only:)
    from Cons.IH [OF False ok(2) b3(2,4) this, of "guard + 1"] Cons.prems(6,7) show ?thesis
      unfolding step ex using b3(3) b2(3) b1(3) by auto
  qed
qed simp

section \<open>Any input\<close>

text \<open>A reader moves on in its data, and an operation on a block ends with an error or not, inside the destination.\<close>

definition onward :: "wubu_br \<Rightarrow> wubu_br \<Rightarrow> bool" where
  "onward b b' \<longleftrightarrow> br_data b' = br_data b \<and> (br_pos b \<le> length (br_data b) \<longrightarrow> br_pos b' \<le> length (br_data b))"

definition ends :: "bytes \<Rightarrow> wubu_br \<Rightarrow> (int \<times> wubu_br \<times> wubu_sink) option \<Rightarrow> bool" where
  "ends dst b r \<longleftrightarrow> (\<exists>rc b' out. r = Some (rc, b', sink_of dst out) \<and> rc \<in> {0, - 1, - 2} \<and> length out \<le> length dst \<and> onward b b')"

lemma onward_refl [simp]: "onward b b"
  by (simp add: onward_def)

lemma onward_trans: "onward b b1 \<Longrightarrow> onward b1 b2 \<Longrightarrow> onward b b2"
  by (auto simp: onward_def)

lemma ends_intro: "rc \<in> {0, - 1, - 2} \<Longrightarrow> length out \<le> length dst \<Longrightarrow> onward b b' \<Longrightarrow> ends dst b (Some (rc, b', sink_of dst out))"
  by (auto simp: ends_def)

lemma ends_onward: "onward b b1 \<Longrightarrow> ends dst b1 r \<Longrightarrow> ends dst b r"
  by (auto simp: ends_def intro: onward_trans)

lemma fill_onward: "onward b (br_fill n b)"
proof (induction n b rule: br_fill.induct)
  case (1 n b)
  have "onward b (br_feed b)" by (simp add: onward_def br_feed_def)
  then show ?case using 1 onward_trans by (cases "bitcnt b < n") (auto simp: br_fill.simps [of n b])
qed

lemma get_onward: "br_get n b = (v, b') \<Longrightarrow> onward b b'"
  using fill_onward [of b n] by (auto simp: br_get_def Let_def onward_def)

lemma decode_loop_onward: "decode_loop sy cs code first index b = Some (r, b') \<Longrightarrow> onward b b'"
proof (induction cs arbitrary: code first index b)
  case (Cons c cs)
  then show ?case by (auto simp: Let_def split: prod.splits if_splits dest!: get_onward intro: onward_trans)
qed simp

lemma decode_safe:
  assumes "built ls h"
  obtains r b' where "huff_decode h b = Some (r, b')" and "onward b b'"
  by (rule huff_decode_safe [OF assms, of b]) (use that in \<open>auto simp: huff_decode_def dest: decode_loop_onward\<close>)

lemma with_extra_safe:
  obtains v b' where "with_extra base extra i b = (base ! i + v, b')" and "onward b b'"
  using that get_onward unfolding with_extra_def by (metis (no_types, lifting) case_prod_conv surj_pair)

lemma block_decode_ends:
  assumes "built L lth" and "built D dth"
  shows "length out \<le> length dst \<Longrightarrow> ends dst b (block_decode lth dth b (sink_of dst out))"
proof (induction "length dst - length out" arbitrary: out b rule: less_induct)
  case less
  obtain s b1 where s: "huff_decode lth b = Some (s, b1)" "onward b b1" by (rule decode_safe [OF assms(1)])
  obtain l b2 where l: "with_extra k_len_base k_len_extra (nat (s - 257)) b1 = (k_len_base ! nat (s - 257) + l, b2)" "onward b1 b2" by (rule with_extra_safe)
  obtain ds b3 where ds: "huff_decode dth b2 = Some (ds, b3)" "onward b2 b3" by (rule decode_safe [OF assms(2)])
  obtain d b4 where d: "with_extra k_dist_base k_dist_extra (nat ds) b3 = (k_dist_base ! nat ds + d, b4)" "onward b3 b4" by (rule with_extra_safe)
  let ?l = "k_len_base ! nat (s - 257) + l" and ?d = "k_dist_base ! nat ds + d"
  have on: "onward b b2" "onward b b3" "onward b b4" using s(2) l(2) ds(2) d(2) onward_trans by blast+
  consider "s < 0 \<or> s = 256" | "0 \<le> s" "s < 256" | "257 \<le> s" "s \<ge> 286" | "257 \<le> s" "s < 286" by linarith
  then show ?case
  proof cases
    case 1
    then show ?thesis using s less.prems by (subst block_decode.simps) (auto intro!: ends_intro)
  next
    case 2
    show ?thesis
    proof (cases "length out < length dst")
      case True
      then have "ends dst b1 (block_decode lth dth b1 (sink_of dst (out @ [of_int s])))" using less.hyps [of "out @ [of_int s]" b1] by simp
      then show ?thesis using 2 True s ends_onward [OF s(2)] by (subst block_decode.simps) (simp add: sink_put_rule(1))
    next
      case False
      then have "length out = length dst" using less.prems by simp
      then show ?thesis using 2 s by (subst block_decode.simps) (simp add: sink_put_rule(2) ends_intro)
    qed
  next
    case 3
    then show ?thesis using s less.prems by (subst block_decode.simps) (auto intro!: ends_intro)
  next
    case 4
    have c: "\<not> s < 0" "s \<noteq> 256" "\<not> s < 256" "\<not> 29 \<le> s - 257" using 4 by auto
    show ?thesis
    proof (cases "ds < 0 \<or> 30 \<le> ds \<or> ?d > length out")
      case True
      then show ?thesis using s(1) l(1) ds(1) d(1) c on less.prems by (subst block_decode.simps) (auto intro!: ends_intro)
    next
      case False
      have dp: "0 < ?d" using base_pos(2) [of "nat ds"] False by auto
      have dl: "?d \<le> length out" using False by simp
      have "nat (s - 257) < 29" using 4 by linarith
      then have lp: "0 < ?l" using base_pos(1) [of "nat (s - 257)"] by linarith
      obtain m where m: "m \<le> ?l" "copy_match ?l ?d (sink_of dst out) = Some (if m = ?l then 0 else - 2, sink_of dst (copy_back m ?d out))"
        "length out + m \<le> length dst" by (rule copy_match_rule [OF dp dl less.prems])
      have eq: "block_decode lth dth b (sink_of dst out) =
          (if m = ?l then block_decode lth dth b4 (sink_of dst (copy_back m ?d out)) else Some (- 2, b4, sink_of dst (copy_back m ?d out)))"
        using s(1) l(1) ds(1) d(1) c False m(2) by (subst block_decode.simps) simp
      show ?thesis
      proof (cases "m = ?l")
        case True
        have "length dst - length (copy_back m ?d out) < length dst - length out" unfolding length_copy_back using m(3) lp True by linarith
        from less.hyps [OF this, of b4] m(3) have "ends dst b4 (block_decode lth dth b4 (sink_of dst (copy_back m ?d out)))" by simp
        then show ?thesis unfolding eq using True ends_onward [OF on(3)] by simp
      next
        case False
        then show ?thesis unfolding eq using m(3) on(3) by (simp add: ends_intro)
      qed
    qed
  qed
qed

lemma put_lengths_safe: "length ls \<le> n \<Longrightarrow> n \<le> 320 \<Longrightarrow> put_lengths r v n ls = Some (ls @ replicate (min r (n - length ls)) v)"
proof (induction r arbitrary: ls)
  case (Suc r)
  then show ?case by (cases "length ls < n") (auto simp: min_def Suc_diff_Suc [symmetric] simp del: diff_Suc_1)
qed simp

definition small_lengths :: "nat \<Rightarrow> nat list \<Rightarrow> bool" where "small_lengths n ls \<longleftrightarrow> length ls \<le> n \<and> (\<forall>l \<in> set ls. l < 16)"

lemma read_lengths_safe:
  assumes "built cl h" and "n \<le> 320"
  shows "small_lengths n ls \<Longrightarrow> \<exists>r b'. read_lengths h n ls b = Some (r, b') \<and> onward b b' \<and>
    (r = Inl (- 1) \<or> (\<exists>ls'. r = Inr ls' \<and> length ls' = n \<and> small_lengths n ls'))"
proof (induction "n - length ls" arbitrary: ls b rule: less_induct)
  case less
  have len: "length ls \<le> n" using less.prems by (simp add: small_lengths_def)
  show ?case
  proof (cases "length ls < n")
    case True
    obtain s b1 where s: "huff_decode h b = Some (s, b1)" "onward b b1" by (rule decode_safe [OF assms(1)])
    have put: "\<exists>r' b'. (case put_lengths (Suc r) v n ls of None \<Rightarrow> None | Some ls1 \<Rightarrow> read_lengths h n ls1 b2) = Some (r', b') \<and> onward b b' \<and>
        (r' = Inl (- 1) \<or> (\<exists>ls'. r' = Inr ls' \<and> length ls' = n \<and> small_lengths n ls'))" if "v < 16" "onward b b2" for r v b2
    proof -
      let ?ls = "ls @ replicate (min (Suc r) (n - length ls)) v"
      have "small_lengths n ?ls" using less.prems that(1) by (auto simp: small_lengths_def)
      moreover have "n - length ?ls < n - length ls" using True by simp
      ultimately obtain r' b' where "read_lengths h n ?ls b2 = Some (r', b')" "onward b2 b'"
        "r' = Inl (- 1) \<or> (\<exists>ls'. r' = Inr ls' \<and> length ls' = n \<and> small_lengths n ls')" using less.hyps by blast
      then show ?thesis using put_lengths_safe [OF len assms(2), of "Suc r" v] onward_trans [OF that(2)] by auto
    qed
    obtain v2 c2 where g2: "br_get 2 b1 = (v2, c2)" by (cases "br_get 2 b1")
    obtain v3 c3 where g3: "br_get 3 b1 = (v3, c3)" by (cases "br_get 3 b1")
    obtain v7 c7 where g7: "br_get 7 b1 = (v7, c7)" by (cases "br_get 7 b1")
    have on: "onward b c2" "onward b c3" "onward b c7" using s(2) g2 g3 g7 get_onward onward_trans by blast+
    have last: "ls \<noteq> [] \<Longrightarrow> last ls < 16" using less.prems by (simp add: small_lengths_def)
    have n3: "v + 3 = Suc (v + 2)" "v + 11 = Suc (v + 10)" for v :: nat by simp_all
    consider "s < 0 \<or> 18 < s \<or> s = 16 \<and> ls = []" | "0 \<le> s" "s < 16" | "s = 16" "ls \<noteq> []" | "s = 17" | "s = 18" by linarith
    then show ?thesis
    proof cases
      case 1
      then show ?thesis using True s by (subst read_lengths.simps) auto
    next
      case 2
      then show ?thesis using True s(1) put [of "nat s" b1 0] s(2) by (subst read_lengths.simps) simp
    next
      case 3
      then show ?thesis using True s(1) g2 put [OF last on(1), of "v2 + 2"] by (subst read_lengths.simps) (simp add: n3)
    next
      case 4
      then show ?thesis using True s(1) g3 put [OF _ on(2), of 0 "v3 + 2"] by (subst read_lengths.simps) (simp add: n3)
    next
      case 5
      then show ?thesis using True s(1) g7 put [OF _ on(3), of 0 "v7 + 10"] by (subst read_lengths.simps) (simp add: n3)
    qed
  next
    case False
    then show ?thesis using less.prems len by (subst read_lengths.simps) auto
  qed
qed

lemma read_cl_safe:
  "\<forall>l \<in> set cl. l < 8 \<Longrightarrow> read_cl ks cl b = (cl', b') \<Longrightarrow> length cl' = length cl \<and> (\<forall>l \<in> set cl'. l < 8) \<and> onward b b'"
proof (induction ks arbitrary: cl b)
  case (Cons k ks)
  obtain v b1 where g: "br_get 3 b = (v, b1)" by (cases "br_get 3 b")
  have "v < 8" using br_get_less [OF _ g] by simp
  then have "\<forall>l \<in> set (cl[k := v]). l < 8" using Cons.prems(1) set_update_subset_insert [of cl k v] by blast
  from Cons.IH [OF this] Cons.prems(2) g show ?case using get_onward [OF g] onward_trans by auto
qed simp

lemma build_safe:
  assumes "length ls \<le> 288" and "\<forall>l \<in> set ls. l < 16"
  obtains "huff_build ls = Some (Inl (- 1))" | h where "huff_build ls = Some (Inr h)" and "built ls h"
  by (rule build_rule [OF assms]) (use that in blast)+

lemma block_dynamic_ends: "length out \<le> length dst \<Longrightarrow> ends dst b (block_dynamic b (sink_of dst out))"
proof -
  assume room: "length out \<le> length dst"
  obtain hl b1 where b1: "br_get 5 b = (hl, b1)" by (cases "br_get 5 b")
  obtain hds b2 where b2: "br_get 5 b1 = (hds, b2)" by (cases "br_get 5 b1")
  obtain hc b3 where b3: "br_get 4 b2 = (hc, b3)" by (cases "br_get 4 b2")
  have v: "hl < 32" "hds < 32" using br_get_less [OF _ b1] br_get_less [OF _ b2] by auto
  let ?n = "hl + 257 + (hds + 1)"
  obtain cl b4 where b4: "read_cl (take (hc + 4) ORD) (replicate 19 0) b3 = (cl, b4)" by (cases "read_cl (take (hc + 4) ORD) (replicate 19 0) b3")
  have cl: "length cl = 19" "\<forall>l \<in> set cl. l < 8" "onward b3 b4" using read_cl_safe [OF _ b4] by auto
  have on: "onward b b4" using get_onward [OF b1] get_onward [OF b2] get_onward [OF b3] cl(3) onward_trans by blast
  have unf: "block_dynamic b (sink_of dst out) =
    (case huff_build cl of None \<Rightarrow> None | Some (Inl _) \<Rightarrow> Some (- 1, b4, sink_of dst out)
     | Some (Inr clh) \<Rightarrow> (case read_lengths clh ?n [] b4 of None \<Rightarrow> None | Some (Inl e, b5) \<Rightarrow> Some (e, b5, sink_of dst out)
       | Some (Inr lengths, b5) \<Rightarrow> (case huff_build (take (hl + 257) lengths) of None \<Rightarrow> None | Some (Inl _) \<Rightarrow> Some (- 1, b5, sink_of dst out)
         | Some (Inr lth) \<Rightarrow> (case huff_build (take (hds + 1) (drop (hl + 257) lengths)) of None \<Rightarrow> None | Some (Inl _) \<Rightarrow> Some (- 1, b5, sink_of dst out)
           | Some (Inr dth) \<Rightarrow> block_decode lth dth b5 (sink_of dst out)))))"
    unfolding block_dynamic_def b1 b2 b3 prod.case Let_def b4 ..
  show ?thesis
  proof (rule build_safe [of cl])
    show "length cl \<le> 288" "\<forall>l \<in> set cl. l < 16" using cl by auto
  next
    assume "huff_build cl = Some (Inl (- 1))"
    then show ?thesis unfolding unf using room on by (simp add: ends_intro)
  next
    fix clh assume clh: "huff_build cl = Some (Inr clh)" "built cl clh"
    have "?n \<le> 320" using v by simp
    from read_lengths_safe [OF clh(2) this, of "[]" b4] obtain r b5 where r: "read_lengths clh ?n [] b4 = Some (r, b5)" "onward b4 b5"
      "r = Inl (- 1) \<or> (\<exists>ls. r = Inr ls \<and> length ls = ?n \<and> small_lengths ?n ls)" by (auto simp: small_lengths_def)
    have on5: "onward b b5" using on r(2) onward_trans by blast
    show ?thesis
    proof (cases r)
      case (Inl e)
      then show ?thesis unfolding unf using clh(1) r room on5 by (simp add: ends_intro)
    next
      case (Inr ls)
      let ?L = "take (hl + 257) ls" and ?D = "take (hds + 1) (drop (hl + 257) ls)"
      have ls: "length ?L \<le> 288" "\<forall>l \<in> set ?L. l < 16" "length ?D \<le> 288" "\<forall>l \<in> set ?D. l < 16"
        using r(3) Inr v by (auto simp: small_lengths_def dest!: in_set_takeD in_set_dropD)
      have err: "ends dst b (Some (- 1, b5, sink_of dst out))" using room on5 by (simp add: ends_intro)
      show ?thesis
      proof (rule build_safe [OF ls(1,2)])
        assume "huff_build ?L = Some (Inl (- 1))"
        then show ?thesis unfolding unf using clh(1) r(1) Inr err by simp
      next
        fix lth assume lth: "huff_build ?L = Some (Inr lth)" "built ?L lth"
        show ?thesis
        proof (rule build_safe [OF ls(3,4)])
          assume "huff_build ?D = Some (Inl (- 1))"
          then show ?thesis unfolding unf using clh(1) r(1) Inr lth(1) err by simp
        next
          fix dth assume dth: "huff_build ?D = Some (Inr dth)" "built ?D dth"
          then show ?thesis unfolding unf using clh(1) r(1) Inr lth(1) ends_onward [OF on5 block_decode_ends [OF lth(2) dth(2) room]] by simp
        qed
      qed
    qed
  qed
qed

lemma stored_copy_ends: "length out \<le> length dst \<Longrightarrow> ends dst b (Some (stored_copy n b (sink_of dst out)))"
proof (induction n arbitrary: b out)
  case (Suc n)
  let ?b = "b\<lparr>br_pos := br_pos b + 1\<rparr>"
  show ?case
  proof (cases "br_pos b \<ge> length (br_data b)")
    case False
    then have on: "onward b ?b" by (simp add: onward_def)
    show ?thesis
    proof (cases "length out < length dst")
      case True
      then show ?thesis using False ends_onward [OF on Suc.IH [of "out @ [br_data b ! br_pos b]"]] by (simp add: sink_put_rule(1))
    next
      case F: False
      then have "length out = length dst" using Suc.prems by simp
      then show ?thesis using False on by (simp add: sink_put_rule(2) ends_intro)
    qed
  qed (use Suc.prems in \<open>simp add: ends_intro\<close>)
qed (simp add: ends_intro)

lemma block_any_ends: "length out \<le> length dst \<Longrightarrow> ends dst b (block_any t b (sink_of dst out))"
proof -
  assume room: "length out \<le> length dst"
  have "onward b (br_align b)" by (simp add: onward_def br_align_def)
  moreover have "onward b ((br_align b)\<lparr>br_pos := br_pos b + 4\<rparr>)" if "br_pos b + 4 \<le> length (br_data b)"
    using that by (simp add: onward_def br_align_def)
  ultimately have "ends dst b (Some (block_stored b (sink_of dst out)))"
    using room ends_onward [OF _ stored_copy_ends] by (auto simp: block_stored_def Let_def ends_intro br_align_def not_less)
  moreover have "ends dst b (block_fixed b (sink_of dst out))"
  proof (rule complete_tables [OF fixed_complete(1,2)])
    fix lth dth assume t: "huff_build fixed_litlen = Some (Inr lth)" "huff_build fixed_dist = Some (Inr dth)" "tables fixed_litlen fixed_dist lth dth"
    have "ends dst b (block_decode lth dth b (sink_of dst out))" by (rule block_decode_ends [OF _ _ room]) (use t(3) in \<open>auto simp: tables_def\<close>)
    then show ?thesis by (simp add: block_fixed_def t(1,2))
  qed
  ultimately show ?thesis using room block_dynamic_ends [OF room] by (auto simp: block_any_def ends_intro)
qed

lemma inflate_loop_ends: "length out \<le> length dst \<Longrightarrow> ends dst b (inflate_loop guard b (sink_of dst out))"
proof (induction "1000000 - guard" arbitrary: guard b out rule: less_induct)
  case less
  obtain f b1 where b1: "br_get 1 b = (f, b1)" by (cases "br_get 1 b")
  obtain t b2 where b2: "br_get 2 b1 = (t, b2)" by (cases "br_get 2 b1")
  have on: "onward b b2" using get_onward [OF b1] get_onward [OF b2] onward_trans by blast
  from block_any_ends [OF less.prems, of b2 t] obtain rc b3 out1 where
    r: "block_any t b2 (sink_of dst out) = Some (rc, b3, sink_of dst out1)" "rc \<in> {0, - 1, - 2}" "length out1 \<le> length dst" "onward b2 b3"
    by (auto simp: ends_def)
  have on3: "onward b b3" using on r(4) onward_trans by blast
  show ?case
  proof (cases "guard + 1 > 1000000")
    case True
    then show ?thesis using less.prems by (subst inflate_loop.simps) (simp add: ends_intro)
  next
    case False
    then have "ends dst b3 (inflate_loop (guard + 1) b3 (sink_of dst out1))" using r(3) by (intro less.hyps) simp_all
    then have go: "ends dst b (inflate_loop (guard + 1) b3 (sink_of dst out1))" by (rule ends_onward [OF on3])
    have "inflate_loop guard b (sink_of dst out) =
        (if rc \<noteq> 0 then Some (rc, b3, sink_of dst out1) else if f \<noteq> 0 then Some (0, b3, sink_of dst out1) else inflate_loop (guard + 1) b3 (sink_of dst out1))"
      using False b1 b2 r(1) by (subst inflate_loop.simps) simp
    then show ?thesis using go r(2,3) on3 by (auto intro: ends_intro)
  qed
qed

text \<open>What a caller relies on.\<close>

definition inflate_ok :: "bytes \<Rightarrow> bytes \<Rightarrow> inflate_result \<Rightarrow> bool" where
  "inflate_ok src dst r \<longleftrightarrow> (\<exists>res dst'. r = Some (res, dst') \<and> length dst' = length dst \<and>
     (case res of Inl e \<Rightarrow> e = - 1 \<or> e = - 2
      | Inr (n, k) \<Rightarrow> n \<le> length dst \<and> k \<le> length src \<and> drop n dst' = drop n dst))"

lemma inflate_raw_ok: "inflate_ok src dst (inflate_raw src dst)"
proof -
  have start: "\<lparr>sk_dst = dst, sk_len = 0\<rparr> = sink_of dst []" by (simp add: sink_of_def)
  have "ends dst (br_init src) (inflate_loop 0 (br_init src) (sink_of dst []))" by (rule inflate_loop_ends) simp
  then obtain rc b out where r: "inflate_loop 0 (br_init src) (sink_of dst []) = Some (rc, b, sink_of dst out)" "rc \<in> {0, - 1, - 2}"
    "length out \<le> length dst" "onward (br_init src) b" by (auto simp: ends_def)
  have "br_pos b \<le> length src" using r(4) by (simp add: onward_def br_init_def)
  then show ?thesis using r(1-3) unfolding inflate_raw_def start by (auto simp: inflate_ok_def sink_of_def)
qed

lemma inflate_okE:
  assumes "inflate_ok src dst r"
  obtains e dst' where "r = Some (Inl e, dst')" and "e = - 1 \<or> e = - 2" and "length dst' = length dst"
  | n k dst' where "r = Some (Inr (n, k), dst')" and "n \<le> length dst" and "k \<le> length src" and "length dst' = length dst" and "drop n dst' = drop n dst"
proof -
  obtain res dst' where r: "r = Some (res, dst')" "length dst' = length dst" "case res of Inl e \<Rightarrow> e = - 1 \<or> e = - 2
      | Inr (n, k) \<Rightarrow> n \<le> length dst \<and> k \<le> length src \<and> drop n dst' = drop n dst" using assms unfolding inflate_ok_def by blast
  show ?thesis using r that by (cases res) auto
qed

lemma inflate_ok_error: "inflate_ok src dst (Some (Inl (- 1), dst))"
  by (simp add: inflate_ok_def)

lemma wubu_inflate_ok: "inflate_ok src dst (wubu_inflate src dst)"
proof (cases "length src < 2")
  case False
  show ?thesis
    by (rule inflate_okE [OF inflate_raw_ok [of "drop 2 src" dst]])
      (use False in \<open>auto simp: wubu_inflate_def Let_def inflate_ok_error inflate_ok_def\<close>)
qed (simp add: wubu_inflate_def inflate_ok_error)

lemma wubu_gunzip_ok: "inflate_ok src dst (wubu_gunzip src dst)"
proof (cases "length src < 18 \<or> gzip_body src = None")
  case True
  then show ?thesis by (auto simp: wubu_gunzip_def inflate_ok_error)
next
  case False
  then obtain pos where pos: "gzip_body src = Some pos" "18 \<le> length src" by auto
  show ?thesis
    by (rule inflate_okE [OF inflate_raw_ok [of "take (length src - 8 - pos) (drop pos src)" dst]])
      (use pos in \<open>auto simp: wubu_gunzip_def Let_def inflate_ok_error inflate_ok_def\<close>)
qed

text \<open>C38: the decoder is safe on every input. Whatever the source holds, the raw, zlib and gzip decoders return: they
  do not run forever and read or write no array outside its bounds. They report one of the two errors, or a number of
  bytes that fits the destination and a number of bytes consumed that the source has, and then the rest of the
  destination is unchanged.\<close>

theorem inflate_never_leaves_buffers:
  "inflate_ok src dst (wubu_inflate_raw src dst) \<and> inflate_ok src dst (wubu_inflate src dst) \<and> inflate_ok src dst (wubu_gunzip src dst)"
  unfolding wubu_inflate_raw_def using inflate_raw_ok wubu_inflate_ok wubu_gunzip_ok by blast

text \<open>C37: the decoder inverts the format. For every sequence of at most 1000000 blocks (stored, with the fixed code, or
  with literal and distance codes of their own that are complete, transmitted in any way the format allows) whose
  matches do not reach before the output, a source that starts with its bits decodes to the bytes the blocks stand for,
  when they fit the destination, and the bytes consumed are those up to the last bit. A distance code of a single
  symbol, or of none, is allowed by the format but not complete: \<open>huff_build\<close> refuses it, and such blocks are not
  covered.\<close>

theorem inflate_inverts_format:
  assumes "bits_of src = stream_bits 0 bls @ rest" and "bls \<noteq> []" and "length bls \<le> 1000000" and "stream_ok [] bls"
    and "length (expand_stream bls []) \<le> length dst"
  shows "wubu_inflate_raw src dst = Some (Inr (length (expand_stream bls []), length src - length rest div 8),
    expand_stream bls [] @ drop (length (expand_stream bls [])) dst)"
proof -
  have start: "\<lparr>sk_dst = dst, sk_len = 0\<rparr> = sink_of dst []" by (simp add: sink_of_def)
  have b: "br_ok (br_init src)" "br_bits (br_init src) = stream_bits 0 bls @ rest" "br_data (br_init src) = src"
    using assms(1) by (auto simp: br_ok_def clean_buf_def br_init_def br_bits_def)
  have al: "(0 + length (br_bits (br_init src))) mod 8 = 0" by (simp add: length_br_bits br_init_def)
  have "0 + length bls \<le> 1000000" using assms(3) by simp
  from inflate_loop_rule [OF assms(2,4) b(1,2) al this assms(5)] obtain b' where
    b': "inflate_loop 0 (br_init src) (sink_of dst []) = Some (0, b', sink_of dst (expand_stream bls []))" "br_ok b'" "br_bits b' = rest" "br_data b' = src"
    unfolding b(3) by blast
  have "length rest = bitcnt b' + 8 * (length src - br_pos b')" using length_br_bits [of b'] b'(3,4) by simp
  then have "br_pos b' = length src - length rest div 8" using b'(2,4) by (simp add: br_ok_def clean_buf_def)
  then show ?thesis unfolding wubu_inflate_raw_def inflate_raw_def start b'(1) by (simp add: sink_of_def)
qed

theorem inflate_inverts_format_witness:
  "wubu_inflate_raw [0x4B, 0x04, 0x02, 0x40, 0x55] [9, 9, 9, 9, 9] = Some (Inr (4, 4), [0x61, 0x61, 0x61, 0x61, 9])"
proof -
  let ?bls = "[Fixed [Literal 0x61, Match 0 0 0 0]]"
  have s: "bits_of [0x4B, 0x04, 0x02, 0x40, 0x55] = stream_bits 0 ?bls @ [True, False, True, False, True, False, True, False, True, False]"
    by code_simp
  have ok: "stream_ok [] ?bls"
    by (simp add: has_code_def fixed_litlen_def fixed_dist_def nth_append k_dist_base_def k_len_extra_def k_dist_extra_def)
  have e: "expand_stream ?bls [] = [0x61, 0x61, 0x61, 0x61]"
    by (simp add: expand_stream_def expand_def k_dist_base_def k_len_base_def eval_nat_numeral)
  show ?thesis using inflate_inverts_format [OF s _ _ ok, of "[9, 9, 9, 9, 9]"] by (simp add: e)
qed

end
