(* ===== verification/Eevdf.thy ===== *)
theory Eevdf
  imports Prelude
begin

text \<open>
  The scheduling policy (\<open>kernel/sched_eevdf.c\<close>): a run queue of weighted tasks, the choice of the eligible task with
  the earliest virtual deadline, and the accounting of the time a task ran. The queue is the list of the tasks in use.
  The lag that \<open>eevdf_lag\<close> reports is computed in floating point and not modelled; it changes nothing. Every task has
  a weight that is not 0, so the division in \<open>eevdf_charge\<close> is defined.
\<close>

section \<open>Model\<close>

definition EEVDF_MAX_TASKS :: nat where "EEVDF_MAX_TASKS = 16"
definition EEVDF_NICE_0 :: u32 where "EEVDF_NICE_0 = 1024"
definition EEVDF_BASE_SLICE :: u32 where "EEVDF_BASE_SLICE = 4"

record eevdf_task =
  task_id :: int
  task_weight :: u32
  slice :: u32
  vruntime :: u64
  deadline :: u64
  ran :: u64
  eligible :: bool

record eevdf_rq =
  rq_tasks :: "eevdf_task list"
  vclock :: u64
  min_vruntime :: u64

definition eevdf_init :: eevdf_rq where "eevdf_init = \<lparr>rq_tasks = [], vclock = 0, min_vruntime = 0\<rparr>"

definition eevdf_add :: "int \<Rightarrow> u32 \<Rightarrow> eevdf_rq \<Rightarrow> int \<times> eevdf_rq" where
  "eevdf_add i w rq =
     (if length (rq_tasks rq) \<ge> EEVDF_MAX_TASKS \<or> w = 0 then (- 1, rq)
      else (let s0 = EEVDF_BASE_SLICE * EEVDF_NICE_0 div w; s = (if s0 < 1 then 1 else s0); v = min_vruntime rq in
        (0, rq\<lparr>rq_tasks := rq_tasks rq @ [\<lparr>task_id = i, task_weight = w, slice = s, vruntime = v, deadline = v + ucast s, ran = 0, eligible = True\<rparr>]\<rparr>)))"

definition pick_step :: "eevdf_task list \<Rightarrow> nat \<Rightarrow> nat option \<times> u64 \<Rightarrow> nat option \<times> u64" where
  "pick_step ts i st =
     (case st of (best, best_dl) \<Rightarrow>
        (let t = ts ! i in
         if \<not> eligible t then (best, best_dl)
         else if deadline t < best_dl \<or> deadline t = best_dl \<and> (case best of None \<Rightarrow> False | Some b \<Rightarrow> vruntime t < vruntime (ts ! b))
         then (Some i, deadline t) else (best, best_dl)))"

definition eevdf_pick :: "eevdf_rq \<Rightarrow> int" where
  "eevdf_pick rq =
     (case fst (fold (pick_step (rq_tasks rq)) [0..<length (rq_tasks rq)] (None, - 1)) of None \<Rightarrow> - 1 | Some i \<Rightarrow> int i)"

definition mark_eligible :: "u64 \<Rightarrow> eevdf_task \<Rightarrow> eevdf_task" where
  "mark_eligible m u =
     (let u1 = u\<lparr>eligible := vruntime u \<le> m\<rparr> in
      if \<not> eligible u1 \<and> deadline u1 < m then u1\<lparr>deadline := m\<rparr> else u1)"

definition eevdf_charge :: "int \<Rightarrow> u32 \<Rightarrow> eevdf_rq \<Rightarrow> eevdf_rq" where
  "eevdf_charge index ticks rq =
     (if index < 0 \<or> index \<ge> int (length (rq_tasks rq)) then rq
      else (let t = rq_tasks rq ! nat index;
                delta = ucast ticks * ucast EEVDF_NICE_0 div ucast (task_weight t) :: u64;
                v = vruntime t + delta;
                m = (if v > min_vruntime rq then v else min_vruntime rq);
                t1 = t\<lparr>vruntime := v, ran := ran t + ucast ticks, deadline := v + ucast (slice t)\<rparr>
            in rq\<lparr>rq_tasks := map (mark_eligible m) ((rq_tasks rq)[nat index := t1]), vclock := vclock rq + delta, min_vruntime := m\<rparr>))"

text \<open>The scheduler at work: a task joins, or the task that is picked runs for some ticks.\<close>

datatype sched_op = Join int u32 | Tick u32

fun sched_step :: "sched_op \<Rightarrow> eevdf_rq \<Rightarrow> eevdf_rq" where
  "sched_step (Join i w) rq = snd (eevdf_add i w rq)"
| "sched_step (Tick n) rq = eevdf_charge (eevdf_pick rq) n rq"

section \<open>The choice\<close>

definition before :: "eevdf_task \<Rightarrow> eevdf_task \<Rightarrow> bool" where
  "before t u \<longleftrightarrow> deadline t < deadline u \<or> deadline t = deadline u \<and> vruntime t \<le> vruntime u"

lemma before_refl: "before t t"
  by (simp add: before_def)

lemma before_trans: "before t u \<Longrightarrow> before u w \<Longrightarrow> before t w"
  by (auto simp: before_def)

text \<open>The loop keeps the first of the best tasks it has seen.\<close>

definition best_of :: "eevdf_task list \<Rightarrow> nat \<Rightarrow> nat option \<times> u64 \<Rightarrow> bool" where
  "best_of ts k st \<longleftrightarrow> (case fst st of
      None \<Rightarrow> snd st = - 1 \<and> (\<forall>j < k. \<not> eligible (ts ! j))
    | Some b \<Rightarrow> b < k \<and> eligible (ts ! b) \<and> snd st = deadline (ts ! b) \<and> (\<forall>j < k. eligible (ts ! j) \<longrightarrow> before (ts ! b) (ts ! j)))"

lemma pick_loop_rule:
  assumes "\<forall>t \<in> set ts. deadline t \<noteq> - 1"
  shows "k \<le> length ts \<Longrightarrow> best_of ts k (fold (pick_step ts) [0..<k] (None, - 1))"
proof (induction k)
  case (Suc k)
  obtain best dl where st: "fold (pick_step ts) [0..<k] (None, - 1) = (best, dl)" by (cases "fold (pick_step ts) [0..<k] (None, - 1)")
  have IH: "best_of ts k (best, dl)" using Suc by (simp add: st)
  have f: "fold (pick_step ts) [0..<Suc k] (None, - 1) = pick_step ts k (best, dl)" by (simp add: st)
  have d: "deadline (ts ! k) < - 1" using assms Suc.prems by (simp add: word_order.not_eq_extremum)
  show ?case
  proof (cases best)
    case None
    then show ?thesis unfolding f using IH d by (auto simp: best_of_def pick_step_def Let_def less_Suc_eq before_refl)
  next
    case (Some b)
    then have b: "b < k" "eligible (ts ! b)" "dl = deadline (ts ! b)" "\<forall>j < k. eligible (ts ! j) \<longrightarrow> before (ts ! b) (ts ! j)"
      using IH by (auto simp: best_of_def)
    show ?thesis
    proof (cases "eligible (ts ! k) \<and> \<not> before (ts ! b) (ts ! k)")
      case True
      then have "pick_step ts k (best, dl) = (Some k, deadline (ts ! k))" using Some b(3) by (auto simp: pick_step_def before_def Let_def)
      moreover have "before (ts ! k) (ts ! b)" using True by (auto simp: before_def)
      then have "\<forall>j < Suc k. eligible (ts ! j) \<longrightarrow> before (ts ! k) (ts ! j)" using b(4) before_trans before_refl less_Suc_eq by metis
      ultimately show ?thesis unfolding f using True by (simp add: best_of_def)
    next
      case False
      then have "\<not> eligible (ts ! k) \<or> \<not> (deadline (ts ! k) < dl \<or> deadline (ts ! k) = dl \<and> vruntime (ts ! k) < vruntime (ts ! b))"
        using b(3) unfolding before_def by (metis leD order.asym order.irrefl)
      then have "pick_step ts k (best, dl) = (best, dl)" using Some by (auto simp: pick_step_def Let_def)
      then show ?thesis unfolding f using b False Some by (auto simp: best_of_def less_Suc_eq)
    qed
  qed
qed (simp add: best_of_def)

text \<open>Whatever the state of the queue, an eligible task is picked when there is one, and none of the eligible
  ones comes before it.\<close>

lemma pick_rule:
  assumes "\<forall>t \<in> set (rq_tasks rq). deadline t \<noteq> - 1" and "\<exists>t \<in> set (rq_tasks rq). eligible t"
  obtains b where "eevdf_pick rq = int b" and "b < length (rq_tasks rq)" and "eligible (rq_tasks rq ! b)"
    and "\<forall>t \<in> set (rq_tasks rq). eligible t \<longrightarrow> before (rq_tasks rq ! b) t"
proof -
  let ?ts = "rq_tasks rq" let ?st = "fold (pick_step ?ts) [0..<length ?ts] (None, - 1)"
  have b: "best_of ?ts (length ?ts) ?st" by (rule pick_loop_rule) (use assms(1) in auto)
  show ?thesis
  proof (cases "fst ?st")
    case None
    then show ?thesis using b assms(2) by (auto simp: best_of_def in_set_conv_nth)
  next
    case (Some i)
    then have "i < length ?ts" "eligible (?ts ! i)" "\<forall>t \<in> set ?ts. eligible t \<longrightarrow> before (?ts ! i) t"
      using b by (auto simp: best_of_def in_set_conv_nth)
    then show ?thesis using Some that [of i] by (simp add: eevdf_pick_def)
  qed
qed

section \<open>Bounded lag\<close>

text \<open>The run queue after \<open>n\<close> steps of at most \<open>T\<close> ticks, each at most \<open>D\<close> units of virtual time: no virtual time has
  wrapped, and no task is ahead of another by more than that task's slice and one step.\<close>

definition task_ok :: "nat \<Rightarrow> nat \<Rightarrow> u64 \<Rightarrow> eevdf_task \<Rightarrow> bool" where
  "task_ok T D m t \<longleftrightarrow> task_weight t \<noteq> 0 \<and> 1024 * T div unat (task_weight t) \<le> D \<and> unat (slice t) \<le> 4096 \<and> vruntime t \<le> m \<and>
     deadline t = vruntime t + ucast (slice t) \<and> eligible t \<and> unat m \<le> unat (vruntime t) + unat (slice t) + D"

definition rq_ok :: "nat \<Rightarrow> nat \<Rightarrow> nat \<Rightarrow> eevdf_rq \<Rightarrow> bool" where
  "rq_ok T D n rq \<longleftrightarrow> length (rq_tasks rq) \<le> EEVDF_MAX_TASKS \<and> unat (min_vruntime rq) \<le> n * D \<and> n * D + 4096 < 2 ^ 64 - 1 \<and>
     (\<forall>t \<in> set (rq_tasks rq). task_ok T D (min_vruntime rq) t)"

fun op_ok :: "nat \<Rightarrow> nat \<Rightarrow> sched_op \<Rightarrow> bool" where
  "op_ok T D (Join i w) \<longleftrightarrow> 1024 * T div unat w \<le> D"
| "op_ok T D (Tick n) \<longleftrightarrow> unat n \<le> T"

lemma unat_add_64: "unat (a :: u64) + unat b < 2 ^ 64 \<Longrightarrow> unat (a + b) = unat a + unat b"
  by (simp add: unat_word_ariths)

lemma task_deadline:
  assumes "task_ok T D m t" and "unat m + 4096 < 2 ^ 64 - 1"
  shows "unat (deadline t) = unat (vruntime t) + unat (slice t)" and "deadline t \<noteq> - 1"
proof -
  have v: "unat (vruntime t) \<le> unat m" "unat (slice t) \<le> 4096" using assms(1) by (auto simp: task_ok_def word_le_nat_alt)
  then show d: "unat (deadline t) = unat (vruntime t) + unat (slice t)"
    using assms unat_add_64 [of "vruntime t" "ucast (slice t)"] by (simp add: task_ok_def unat_ucast_u64)
  show "deadline t \<noteq> - 1"
  proof
    assume "deadline t = - 1"
    then have "unat (deadline t) = unat (- 1 :: u64)" by (rule arg_cong)
    then have "unat (deadline t) = 2 ^ 64 - 1" by (simp add: unsigned_minus_1_eq_mask mask_eq_exp_minus_1)
    then show False using d v assms(2) by linarith
  qed
qed

lemma mark_eligible_ok: "eligible t \<Longrightarrow> vruntime t \<le> m \<Longrightarrow> mark_eligible m t = t"
  by (simp add: mark_eligible_def)

lemma delta_rule:
  assumes "unat (n :: u32) \<le> T" and "(w :: u32) \<noteq> 0" and "1024 * T div unat w \<le> D"
  shows "unat (ucast n * ucast EEVDF_NICE_0 div ucast w :: u64) \<le> D"
proof -
  have "unat n < 4294967296" by (rule unat_less_u32)
  then have "unat n * 1024 < 18446744073709551616" by linarith
  then have "unat (ucast n * ucast EEVDF_NICE_0 :: u64) = unat n * 1024"
    by (simp add: unat_word_ariths unat_ucast_u64 EEVDF_NICE_0_def)
  then have "unat (ucast n * ucast EEVDF_NICE_0 div ucast w :: u64) = unat n * 1024 div unat w"
    by (simp only: unat_div unat_ucast_u64)
  also have "\<dots> \<le> 1024 * T div unat w" using assms(1) by (intro div_le_mono) simp
  finally show ?thesis using assms(3) by simp
qed

lemma join_ok:
  assumes "rq_ok T D n rq" and "1024 * T div unat w \<le> D"
  shows "rq_ok T D n (snd (eevdf_add i w rq))"
proof (cases "length (rq_tasks rq) \<ge> EEVDF_MAX_TASKS \<or> w = 0")
  case False
  let ?full = "EEVDF_BASE_SLICE * EEVDF_NICE_0 div w"
  have "unat ?full = 4096 div unat w" by (simp add: EEVDF_BASE_SLICE_def EEVDF_NICE_0_def unat_div)
  then have "unat (if ?full < 1 then 1 else ?full) \<le> 4096" by simp
  then show ?thesis using assms False by (auto simp: eevdf_add_def Let_def rq_ok_def task_ok_def)
qed (use assms in \<open>simp add: eevdf_add_def\<close>)

lemma tick_ok:
  assumes ok: "rq_ok T D n rq" and k: "unat k \<le> T" and n: "Suc n * D + 4096 < 2 ^ 64 - 1"
  shows "rq_ok T D (Suc n) (eevdf_charge (eevdf_pick rq) k rq)"
proof (cases "rq_tasks rq = []")
  case True
  then show ?thesis using ok n by (simp add: eevdf_charge_def eevdf_pick_def rq_ok_def)
next
  case False
  let ?ts = "rq_tasks rq" and ?m = "min_vruntime rq"
  have m: "unat ?m \<le> n * D" "unat ?m + 4096 < 2 ^ 64 - 1" using ok by (auto simp: rq_ok_def)
  have t: "task_ok T D ?m t" if "t \<in> set ?ts" for t using ok that by (auto simp: rq_ok_def)
  note dl = task_deadline [OF t m(2)]
  obtain b where b: "eevdf_pick rq = int b" "b < length ?ts" "\<And>j. j < length ?ts \<Longrightarrow> before (?ts ! b) (?ts ! j)"
  proof (rule pick_rule [of rq])
    show "\<forall>t \<in> set ?ts. deadline t \<noteq> - 1" using dl(2) by blast
    have "hd ?ts \<in> set ?ts" using False by simp
    then show "\<exists>t \<in> set ?ts. eligible t" using t unfolding task_ok_def by blast
  next
    fix b
    assume "eevdf_pick rq = int b" "b < length ?ts" "\<forall>t \<in> set ?ts. eligible t \<longrightarrow> before (?ts ! b) t"
    then show thesis using that [of b] t unfolding task_ok_def by (meson nth_mem)
  qed
  let ?t = "?ts ! b" let ?d = "ucast k * ucast EEVDF_NICE_0 div ucast (task_weight ?t) :: u64" let ?v = "vruntime ?t + ?d"
  let ?m' = "if ?v > ?m then ?v else ?m" let ?t' = "?t\<lparr>vruntime := ?v, ran := ran ?t + ucast k, deadline := ?v + ucast (slice ?t)\<rparr>"
  have tb: "task_ok T D ?m ?t" using t b(2) by simp
  have d: "unat ?d \<le> D" by (rule delta_rule [OF k]) (use tb in \<open>auto simp: task_ok_def\<close>)
  have vm: "unat (vruntime ?t) \<le> unat ?m" using tb by (simp add: task_ok_def word_le_nat_alt)
  have v: "unat ?v = unat (vruntime ?t) + unat ?d" by (rule unat_add_64) (use vm d m n in simp)
  have m': "unat ?m' = max (unat ?m) (unat ?v)" by (simp add: word_less_nat_alt)
  have all: "task_ok T D ?m' u" if u: "u \<in> set (?ts[b := ?t'])" for u
  proof -
    have "u = ?t' \<or> u \<in> set ?ts" using u set_update_subset_insert [of ?ts b ?t'] by blast
    then show ?thesis
    proof
      assume "u = ?t'"
      then show ?thesis using tb m' v by (auto simp: task_ok_def word_le_nat_alt)
    next
      assume s: "u \<in> set ?ts"
      then obtain j where j: "j < length ?ts" "u = ?ts ! j" by (auto simp: in_set_conv_nth)
      have "unat (deadline ?t) \<le> unat (deadline u)" using b(3) [OF j(1)] j(2) by (auto simp: before_def word_less_nat_alt)
      then have "unat ?v \<le> unat (vruntime u) + unat (slice u) + D" using dl(1) [OF s] dl(1) [of ?t] b(2) v d by simp
      then show ?thesis using t [OF s] m' by (auto simp: task_ok_def word_le_nat_alt)
    qed
  qed
  have mark: "map (mark_eligible ?m') (?ts[b := ?t']) = ?ts[b := ?t']"
    by (rule map_idI) (use all in \<open>auto simp: task_ok_def intro!: mark_eligible_ok\<close>)
  have "eevdf_charge (eevdf_pick rq) k rq = rq\<lparr>rq_tasks := ?ts[b := ?t'], vclock := vclock rq + ?d, min_vruntime := ?m'\<rparr>"
    using b(1,2) mark by (simp add: eevdf_charge_def Let_def)
  moreover have "unat ?m' \<le> Suc n * D" using m' m(1) v vm d by simp
  ultimately show ?thesis using ok all n by (simp add: rq_ok_def)
qed

lemma steps_ok:
  assumes "\<forall>op \<in> set ops. op_ok T D op" and "length ops * D + 4096 < 2 ^ 64 - 1"
  shows "rq_ok T D (length ops) (fold sched_step ops eevdf_init)"
  using assms
proof (induction ops rule: rev_induct)
  case Nil
  then show ?case by (simp add: rq_ok_def eevdf_init_def EEVDF_MAX_TASKS_def)
next
  case (snoc op ops)
  have n: "Suc (length ops) * D + 4096 < 2 ^ 64 - 1" using snoc.prems(2) by simp
  have IH: "rq_ok T D (length ops) (fold sched_step ops eevdf_init)" using snoc by simp
  show ?case
  proof (cases op)
    case (Join i w)
    then have "rq_ok T D (length ops) (fold sched_step (ops @ [op]) eevdf_init)" using join_ok [OF IH] snoc.prems(1) by simp
    then show ?thesis using n by (auto simp: rq_ok_def)
  next
    case (Tick k)
    then show ?thesis using tick_ok [OF IH _ n, of k] snoc.prems(1) by simp
  qed
qed

text \<open>C39: bounded unfairness. From an empty run queue, through any sequence of tasks that join and of steps of at most
  \<open>T\<close> ticks given to the task picked, with \<open>D\<close> a bound on the virtual time of one step, and as long as virtual time
  does not wrap: no task's virtual run time is ahead of another's by more than the other's slice plus \<open>D\<close>; and the next
  task picked is an eligible one, with the earliest deadline of the eligible tasks, and of those with the least
  virtual run time.\<close>

theorem scheduling_is_fair:
  assumes "\<forall>op \<in> set ops. op_ok T D op" and "length ops * D + 4096 < 2 ^ 64 - 1" and "rq = fold sched_step ops eevdf_init"
    and "t \<in> set (rq_tasks rq)" and "u \<in> set (rq_tasks rq)"
  shows "unat (vruntime t) \<le> unat (vruntime u) + unat (slice u) + D \<and>
    (\<exists>b < length (rq_tasks rq). eevdf_pick rq = int b \<and> eligible (rq_tasks rq ! b) \<and>
       (eligible t \<longrightarrow> before (rq_tasks rq ! b) t))"
proof -
  have ok: "rq_ok T D (length ops) rq" unfolding assms(3) by (rule steps_ok [OF assms(1,2)])
  then have t: "task_ok T D (min_vruntime rq) x" if "x \<in> set (rq_tasks rq)" for x using that by (auto simp: rq_ok_def)
  have m: "unat (min_vruntime rq) + 4096 < 2 ^ 64 - 1" using ok by (auto simp: rq_ok_def)
  have d: "\<forall>t \<in> set (rq_tasks rq). deadline t \<noteq> - 1" using task_deadline(2) [OF t m] by blast
  have "eligible t" using t [OF assms(4)] by (simp add: task_ok_def)
  then obtain b where "eevdf_pick rq = int b" "b < length (rq_tasks rq)" "eligible (rq_tasks rq ! b)" "before (rq_tasks rq ! b) t"
    using pick_rule [OF d] assms(4) by metis
  moreover have "unat (vruntime t) \<le> unat (vruntime u) + unat (slice u) + D"
    using t [OF assms(4)] t [OF assms(5)] by (auto simp: task_ok_def word_le_nat_alt)
  ultimately show ?thesis by blast
qed

theorem scheduling_is_fair_witness:
  "let rq = fold sched_step [Join 1 1024, Join 2 512, Tick 3, Tick 3] eevdf_init; t = rq_tasks rq ! 0; u = rq_tasks rq ! 1 in
     unat (vruntime t) \<le> unat (vruntime u) + unat (slice u) + 6 \<and>
       (\<exists>b < length (rq_tasks rq). eevdf_pick rq = int b \<and> eligible (rq_tasks rq ! b) \<and>
          (eligible t \<longrightarrow> before (rq_tasks rq ! b) t))"
proof -
  let ?rq = "fold sched_step [Join 1 1024, Join 2 512, Tick 3, Tick 3] eevdf_init"
  have l: "length (rq_tasks ?rq) = 2" by code_simp
  show ?thesis unfolding Let_def
    by (rule scheduling_is_fair [of "[Join 1 1024, Join 2 512, Tick 3, Tick 3]" 3 6 ?rq]) (use l in auto)
qed

end
