(* ===== verification/Gc.thy ===== *)
theory Gc
  imports Prelude
begin

text \<open>
  The garbage collector of applets (\<open>runtime/wubu_gc.c\<close>): a list of objects, the newest first, a set of root pointers,
  and mark and sweep. An object is its address with the fields of its header; a pointer to its payload is 24 bytes
  further on. What \<open>malloc\<close> and \<open>realloc\<close> answer are arguments. \<open>None\<close> around a result means that the header of an object that does
  not exist is accessed.
\<close>

section \<open>Model\<close>

record GCObject =
  gc_addr :: u64
  gc_size :: u64
  gc_marked :: bool
  gc_pinned :: u8

record gc_state =
  g_alloc_list :: "GCObject list"
  g_roots :: "u64 list"
  g_root_cap :: nat
  g_total_allocated :: u64
  g_gc_threshold :: u64
  g_gc_enabled :: bool

definition gc_initial :: gc_state where
  "gc_initial = \<lparr>g_alloc_list = [], g_roots = [], g_root_cap = 0, g_total_allocated = 0, g_gc_threshold = 1024 * 1024, g_gc_enabled = True\<rparr>"

definition sizeof_GCObject :: u64 where "sizeof_GCObject = 24"

definition wubu_gc_root_add :: "bool \<Rightarrow> u64 \<Rightarrow> gc_state \<Rightarrow> gc_state" where
  "wubu_gc_root_add realloc_ok ptr s =
     (if ptr = 0 then s
      else if length (g_roots s) = g_root_cap s then
        (if \<not> realloc_ok then s
         else s\<lparr>g_root_cap := (if g_root_cap s \<noteq> 0 then g_root_cap s * 2 else 32), g_roots := g_roots s @ [ptr]\<rparr>)
      else s\<lparr>g_roots := g_roots s @ [ptr]\<rparr>)"

definition wubu_gc_root_remove :: "u64 \<Rightarrow> gc_state \<Rightarrow> gc_state" where
  "wubu_gc_root_remove ptr s =
     (if ptr = 0 then s
      else (case find_slot (\<lambda>r. r = ptr) (g_roots s) of
          None \<Rightarrow> s
        | Some i \<Rightarrow> s\<lparr>g_roots := butlast ((g_roots s)[i := last (g_roots s)])\<rparr>))"

definition wubu_gc_root_count :: "gc_state \<Rightarrow> nat" where "wubu_gc_root_count s = length (g_roots s)"

text \<open>The address of the newest object, 0 when there is none.\<close>

definition list_head :: "GCObject list \<Rightarrow> u64" where "list_head os = (case os of [] \<Rightarrow> 0 | ob # _ \<Rightarrow> gc_addr ob)"

definition gc_mark_ptr :: "u64 \<Rightarrow> GCObject list \<Rightarrow> GCObject list option" where
  "gc_mark_ptr ptr os =
     (if ptr = 0 then Some os
      else (let a = ptr - sizeof_GCObject in
        if list_head os \<le> a then
          (case find_slot (\<lambda>ob. gc_addr ob = a) os of
             None \<Rightarrow> None
           | Some i \<Rightarrow> Some (if gc_marked (os ! i) then os else os[i := (os ! i)\<lparr>gc_marked := True\<rparr>]))
        else Some os))"

fun gc_mark_roots :: "u64 list \<Rightarrow> GCObject list \<Rightarrow> GCObject list option" where
  "gc_mark_roots [] os = Some os"
| "gc_mark_roots (r # rs) os = (case gc_mark_ptr r os of None \<Rightarrow> None | Some os1 \<Rightarrow> gc_mark_roots rs os1)"

text \<open>The objects that stay, with their marks cleared, and the bytes left.\<close>

fun gc_sweep :: "GCObject list \<Rightarrow> u64 \<Rightarrow> GCObject list \<times> u64" where
  "gc_sweep [] bytes_left = ([], bytes_left)"
| "gc_sweep (ob # os) bytes_left =
     (if gc_marked ob \<or> gc_pinned ob \<noteq> 0 then (case gc_sweep os bytes_left of (os1, t) \<Rightarrow> (ob\<lparr>gc_marked := False\<rparr> # os1, t))
      else gc_sweep os (bytes_left - gc_size ob))"

definition clamp_threshold :: "u64 \<Rightarrow> u64" where
  "clamp_threshold t =
     (let t1 = (if t < 64 * 1024 then 64 * 1024 else t) in if t1 > 64 * 1024 * 1024 then 64 * 1024 * 1024 else t1)"

definition wubu_gc_collect :: "gc_state \<Rightarrow> gc_state option" where
  "wubu_gc_collect s =
     (if \<not> g_gc_enabled s then Some s
      else (case gc_mark_roots (g_roots s) (g_alloc_list s) of
          None \<Rightarrow> None
        | Some os \<Rightarrow> (case gc_sweep os (g_total_allocated s) of
              (os1, bytes_left) \<Rightarrow> Some (s\<lparr>g_alloc_list := os1, g_total_allocated := bytes_left, g_gc_threshold := clamp_threshold (bytes_left * 2)\<rparr>))))"

text \<open>The pointer returned, and the state; \<open>got\<close> is what \<open>malloc\<close> returns.\<close>

definition wubu_gc_alloc :: "u64 option \<Rightarrow> u64 \<Rightarrow> gc_state \<Rightarrow> (u64 \<times> gc_state) option" where
  "wubu_gc_alloc got size0 s =
     (if size0 = 0 then Some (0, s)
      else (let size = (size0 + 15) AND NOT 15 in
        case (if g_gc_enabled s \<and> g_total_allocated s + size > g_gc_threshold s then wubu_gc_collect s else Some s) of
          None \<Rightarrow> None
        | Some s1 \<Rightarrow> (case got of
              None \<Rightarrow> Some (0, s1)
            | Some a \<Rightarrow> Some (a + sizeof_GCObject,
                s1\<lparr>g_alloc_list := \<lparr>gc_addr = a, gc_size = size, gc_marked = False, gc_pinned = 0\<rparr> # g_alloc_list s1,
                   g_total_allocated := g_total_allocated s1 + size\<rparr>))))"

definition wubu_gc_free :: "u64 \<Rightarrow> gc_state \<Rightarrow> gc_state" where
  "wubu_gc_free ptr s =
     (if ptr = 0 then s
      else (case find_slot (\<lambda>ob. gc_addr ob = ptr - sizeof_GCObject) (g_alloc_list s) of
          None \<Rightarrow> s
        | Some i \<Rightarrow> s\<lparr>g_alloc_list := take i (g_alloc_list s) @ drop (i + 1) (g_alloc_list s),
                       g_total_allocated := g_total_allocated s - gc_size (g_alloc_list s ! i)\<rparr>))"

definition wubu_gc_enable :: "bool \<Rightarrow> gc_state \<Rightarrow> gc_state" where "wubu_gc_enable e s = s\<lparr>g_gc_enabled := e\<rparr>"
definition wubu_gc_set_threshold :: "u64 \<Rightarrow> gc_state \<Rightarrow> gc_state" where "wubu_gc_set_threshold n s = s\<lparr>g_gc_threshold := n\<rparr>"

definition wubu_gc_shutdown :: "gc_state \<Rightarrow> gc_state" where
  "wubu_gc_shutdown s = s\<lparr>g_alloc_list := [], g_roots := [], g_root_cap := 0, g_total_allocated := 0\<rparr>"

section \<open>What a collection frees\<close>

text \<open>Addresses are distinct, no marks are set between collections, and the total is the sum of the sizes.\<close>

definition gc_ok :: "gc_state \<Rightarrow> bool" where
  "gc_ok s \<longleftrightarrow> distinct (map gc_addr (g_alloc_list s)) \<and> (\<forall>ob \<in> set (g_alloc_list s). \<not> gc_marked ob) \<and>
     g_total_allocated s = sum_list (map gc_size (g_alloc_list s))"

text \<open>The roots that marking looks at point to objects.\<close>

definition roots_ok :: "gc_state \<Rightarrow> bool" where
  "roots_ok s \<longleftrightarrow> (\<forall>r \<in> set (g_roots s). r \<noteq> 0 \<and> list_head (g_alloc_list s) \<le> r - sizeof_GCObject \<longrightarrow>
     r - sizeof_GCObject \<in> gc_addr ` set (g_alloc_list s))"

definition kept :: "gc_state \<Rightarrow> GCObject \<Rightarrow> bool" where
  "kept s ob \<longleftrightarrow> gc_pinned ob \<noteq> 0 \<or> list_head (g_alloc_list s) \<le> gc_addr ob \<and> gc_addr ob + sizeof_GCObject \<in> set (g_roots s) - {0}"

text \<open>Marking sets the marks of the objects that the roots point to, from the newest object's address on.\<close>

definition mark_if :: "(u64 \<Rightarrow> bool) \<Rightarrow> GCObject \<Rightarrow> GCObject" where
  "mark_if P ob = (if P (gc_addr ob) then ob\<lparr>gc_marked := True\<rparr> else ob)"

lemma mark_if_fields [simp]: "gc_addr (mark_if P ob) = gc_addr ob" "gc_size (mark_if P ob) = gc_size ob" "gc_pinned (mark_if P ob) = gc_pinned ob"
  "gc_marked (mark_if P ob) \<longleftrightarrow> P (gc_addr ob) \<or> gc_marked ob"
  by (simp_all add: mark_if_def)

lemma list_head_map: "list_head (map (mark_if P) os) = list_head os"
  by (cases os) (simp_all add: list_head_def)

lemma mark_ptr_rule:
  assumes "distinct (map gc_addr os)" and "r \<noteq> 0 \<Longrightarrow> list_head os \<le> r - sizeof_GCObject \<Longrightarrow> r - sizeof_GCObject \<in> gc_addr ` set os"
  shows "gc_mark_ptr r os = Some (map (mark_if (\<lambda>a. r \<noteq> 0 \<and> list_head os \<le> a \<and> a + sizeof_GCObject = r)) os)"
proof -
  let ?P = "\<lambda>a. r \<noteq> 0 \<and> list_head os \<le> a \<and> a + sizeof_GCObject = r" and ?a = "r - sizeof_GCObject"
  have a: "x + sizeof_GCObject = r \<longleftrightarrow> x = ?a" for x by (simp add: eq_diff_eq)
  show ?thesis
  proof (cases "r \<noteq> 0 \<and> list_head os \<le> ?a")
    case False
    then have "map (mark_if ?P) os = os" unfolding a by (intro map_idI) (auto simp: mark_if_def)
    then show ?thesis using False by (auto simp: gc_mark_ptr_def Let_def)
  next
    case True
    then obtain i where i: "i < length os" "gc_addr (os ! i) = ?a" using assms(2) by (auto simp: in_set_conv_nth)
    have u: "j = i" if "j < length os" "gc_addr (os ! j) = ?a" for j
      using nth_eq_iff_index_eq [OF assms(1), of j i] that i by simp
    have "find_slot (\<lambda>ob. gc_addr ob = ?a) os = Some i" by (rule find_slot_Some_unique) (rule i, rule i, rule u)
    moreover have "os[i := (os ! i)\<lparr>gc_marked := True\<rparr>] = map (mark_if ?P) os"
    proof (rule nth_equalityI)
      fix j assume "j < length (os[i := (os ! i)\<lparr>gc_marked := True\<rparr>])"
      then have j: "j < length os" by simp
      have "?P (gc_addr (os ! j)) \<longleftrightarrow> j = i" unfolding a using True i(2) u [OF j] by metis
      then show "os[i := (os ! i)\<lparr>gc_marked := True\<rparr>] ! j = map (mark_if ?P) os ! j" using j by (simp add: mark_if_def)
    qed simp
    moreover have "gc_marked (os ! i) \<Longrightarrow> os[i := (os ! i)\<lparr>gc_marked := True\<rparr>] = os"
      by (cases "os ! i") (metis GCObject.update_convs(3) GCObject.select_convs(3) list_update_id)
    ultimately show ?thesis using True by (auto simp: gc_mark_ptr_def Let_def)
  qed
qed

lemma mark_roots_rule:
  assumes "distinct (map gc_addr os)"
    and "\<forall>r \<in> set rs. r \<noteq> 0 \<and> list_head os \<le> r - sizeof_GCObject \<longrightarrow> r - sizeof_GCObject \<in> gc_addr ` set os"
  shows "gc_mark_roots rs os = Some (map (mark_if (\<lambda>a. list_head os \<le> a \<and> a + sizeof_GCObject \<in> set rs - {0})) os)"
  using assms
proof (induction rs arbitrary: os)
  case Nil
  have "map (mark_if (\<lambda>a. False)) os = os" by (rule map_idI) (simp add: mark_if_def)
  then show ?case by simp
next
  case (Cons r rs)
  let ?P = "\<lambda>a. r \<noteq> 0 \<and> list_head os \<le> a \<and> a + sizeof_GCObject = r" and ?Q = "\<lambda>a. list_head os \<le> a \<and> a + sizeof_GCObject \<in> set rs - {0}"
  have "gc_mark_ptr r os = Some (map (mark_if ?P) os)" by (rule mark_ptr_rule) (use Cons.prems in auto)
  moreover have ad: "map gc_addr (map (mark_if ?P) os) = map gc_addr os" by simp
  moreover have im: "gc_addr ` set (map (mark_if ?P) os) = gc_addr ` set os" using arg_cong [OF ad, of set] by (simp only: set_map)
  moreover have "gc_mark_roots rs (map (mark_if ?P) os) =
      Some (map (mark_if (\<lambda>a. list_head (map (mark_if ?P) os) \<le> a \<and> a + sizeof_GCObject \<in> set rs - {0})) (map (mark_if ?P) os))"
    by (rule Cons.IH) (use Cons.prems in \<open>auto simp only: ad im list_head_map set_simps\<close>)
  ultimately have "gc_mark_roots (r # rs) os = Some (map (mark_if ?Q) (map (mark_if ?P) os))" by (simp only: list_head_map gc_mark_roots.simps option.case)
  also have "map (mark_if ?Q) (map (mark_if ?P) os) = map (mark_if (\<lambda>a. list_head os \<le> a \<and> a + sizeof_GCObject \<in> set (r # rs) - {0})) os"
    unfolding map_map by (rule map_cong) (auto simp: mark_if_def)
  finally show ?case .
qed

lemma sweep_rule:
  "gc_sweep os bytes_left = (map (\<lambda>ob. ob\<lparr>gc_marked := False\<rparr>) (filter (\<lambda>ob. gc_marked ob \<or> gc_pinned ob \<noteq> 0) os),
     bytes_left - sum_list (map gc_size (filter (\<lambda>ob. \<not> (gc_marked ob \<or> gc_pinned ob \<noteq> 0)) os)))"
  by (induction os arbitrary: bytes_left) (auto simp: algebra_simps)

lemma sum_filter: "sum_list (map f xs) - sum_list (map f (filter (\<lambda>x. \<not> P x) xs)) = (sum_list (map f (filter P xs)) :: u64)"
  by (induction xs) (auto simp: algebra_simps)

text \<open>The exact result of a collection.\<close>

lemma collect_rule:
  assumes "gc_ok s" and "roots_ok s" and "g_gc_enabled s"
  shows "\<exists>s'. wubu_gc_collect s = Some s' \<and> g_alloc_list s' = filter (kept s) (g_alloc_list s) \<and> gc_ok s' \<and> g_roots s' = g_roots s \<and>
    g_gc_threshold s' = clamp_threshold (2 * g_total_allocated s')"
proof -
  let ?os = "g_alloc_list s" let ?P = "\<lambda>a. list_head ?os \<le> a \<and> a + sizeof_GCObject \<in> set (g_roots s) - {0}"
  have um: "\<forall>ob \<in> set ?os. \<not> gc_marked ob" using assms(1) by (simp add: gc_ok_def)
  have m: "gc_mark_roots (g_roots s) ?os = Some (map (mark_if ?P) ?os)"
    by (rule mark_roots_rule) (use assms(1,2) in \<open>auto simp: gc_ok_def roots_ok_def\<close>)
  have k: "(gc_marked (mark_if ?P ob) \<or> gc_pinned (mark_if ?P ob) \<noteq> 0) = kept s ob" if "ob \<in> set ?os" for ob
    using um that by (auto simp: kept_def)
  have f: "filter (\<lambda>ob. gc_marked ob \<or> gc_pinned ob \<noteq> 0) (map (mark_if ?P) ?os) = map (mark_if ?P) (filter (kept s) ?os)"
    "filter (\<lambda>ob. \<not> (gc_marked ob \<or> gc_pinned ob \<noteq> 0)) (map (mark_if ?P) ?os) = map (mark_if ?P) (filter (\<lambda>ob. \<not> kept s ob) ?os)"
    unfolding filter_map o_def using k by (simp_all cong: filter_cong)
  have c: "map (\<lambda>ob. ob\<lparr>gc_marked := False\<rparr>) (map (mark_if ?P) (filter (kept s) ?os)) = filter (kept s) ?os"
    unfolding map_map using um by (intro map_idI) (auto simp: mark_if_def)
  have t: "g_total_allocated s - sum_list (map gc_size (map (mark_if ?P) (filter (\<lambda>ob. \<not> kept s ob) ?os))) = sum_list (map gc_size (filter (kept s) ?os))"
    using assms(1) sum_filter [of gc_size ?os "kept s"] by (simp add: gc_ok_def o_def)
  have "wubu_gc_collect s = Some (s\<lparr>g_alloc_list := filter (kept s) ?os, g_total_allocated := sum_list (map gc_size (filter (kept s) ?os)),
      g_gc_threshold := clamp_threshold (sum_list (map gc_size (filter (kept s) ?os)) * 2)\<rparr>)"
    using assms(3) unfolding wubu_gc_collect_def m option.case sweep_rule f c t prod.case by simp
  then show ?thesis using assms(1) um by (auto simp: gc_ok_def distinct_map_filter mult.commute)
qed

text \<open>C40: a collection is safe for the objects it protects. With distinct objects, and roots that point to objects (those
  that marking looks at), a collection returns; every pinned object stays, and so does every object that a root points
  to, provided its address is not below that of the newest object (nothing is claimed for rooted objects below it); what
  is left are objects that were there, in their order; no mark is left, the total is the sum of the sizes that are
  left, the roots are the same, and the threshold is twice the total between 64 KiB and 64 MiB.\<close>

theorem collect_keeps_protected:
  assumes "gc_ok s" and "roots_ok s" and "g_gc_enabled s"
  shows "\<exists>s' P. wubu_gc_collect s = Some s' \<and> gc_ok s' \<and> g_alloc_list s' = filter P (g_alloc_list s) \<and>
    (\<forall>ob \<in> set (g_alloc_list s). gc_pinned ob \<noteq> 0 \<longrightarrow> ob \<in> set (g_alloc_list s')) \<and>
    (\<forall>ob \<in> set (g_alloc_list s). gc_addr ob + sizeof_GCObject \<in> set (g_roots s) \<and> gc_addr ob + sizeof_GCObject \<noteq> 0 \<and>
       list_head (g_alloc_list s) \<le> gc_addr ob \<longrightarrow> ob \<in> set (g_alloc_list s')) \<and>
    g_roots s' = g_roots s \<and> g_gc_threshold s' = clamp_threshold (2 * g_total_allocated s')"
proof -
  obtain s' where "wubu_gc_collect s = Some s'" "g_alloc_list s' = filter (kept s) (g_alloc_list s)" "gc_ok s'"
    "g_roots s' = g_roots s" "g_gc_threshold s' = clamp_threshold (2 * g_total_allocated s')"
    using collect_rule [OF assms] by blast
  then show ?thesis by (intro exI [of _ s'] exI [of _ "kept s"]) (simp add: kept_def)
qed

theorem collect_keeps_protected_witness:
  "\<exists>s s'. map gc_addr (g_alloc_list s) = [0x2000, 0x3000, 0x1000] \<and> g_roots s = [0x3018] \<and>
    wubu_gc_collect s = Some s' \<and> \<lparr>gc_addr = 0x3000, gc_size = 32, gc_marked = False, gc_pinned = 0\<rparr> \<in> set (g_alloc_list s') \<and>
    \<lparr>gc_addr = 0x1000, gc_size = 16, gc_marked = False, gc_pinned = 1\<rparr> \<in> set (g_alloc_list s')"
proof -
  let ?os = "[\<lparr>gc_addr = 0x2000, gc_size = 16, gc_marked = False, gc_pinned = 0\<rparr>, \<lparr>gc_addr = 0x3000, gc_size = 32, gc_marked = False, gc_pinned = 0\<rparr>,
      \<lparr>gc_addr = 0x1000, gc_size = 16, gc_marked = False, gc_pinned = 1\<rparr>]"
  let ?s = "gc_initial\<lparr>g_alloc_list := ?os, g_roots := [0x3018], g_root_cap := 32, g_total_allocated := 64\<rparr>"
  have "gc_ok ?s" "roots_ok ?s" "g_gc_enabled ?s"
    by (simp_all add: gc_ok_def roots_ok_def gc_initial_def list_head_def sizeof_GCObject_def)
  note c = collect_keeps_protected [OF this]
  then obtain s' where s': "wubu_gc_collect ?s = Some s'"
    "\<forall>ob \<in> set ?os. gc_pinned ob \<noteq> 0 \<longrightarrow> ob \<in> set (g_alloc_list s')"
    "\<forall>ob \<in> set ?os. gc_addr ob + sizeof_GCObject \<in> {0x3018} \<and> gc_addr ob + sizeof_GCObject \<noteq> 0 \<and> list_head ?os \<le> gc_addr ob \<longrightarrow>
      ob \<in> set (g_alloc_list s')"
    by auto
  then show ?thesis by (intro exI [of _ ?s] exI [of _ s']) (simp add: list_head_def sizeof_GCObject_def)
qed

end
