(* ===== verification/Spec2Isabelle.thy ===== *)
theory Spec2Isabelle
  imports Cap_Handle_Facts Styx_Props Styx_Table_Facts Timer_Wheel_Facts Hive_Facts Txfs_Facts Vmm_Props
    Recovery Sha256_Facts Fat32_Dir_Facts Kheap_Props Minic_Props
    Inflate_Facts Eevdf Gc
begin

text \<open>
  \<^bold>\<open>A verification of the core of WuBuOS\<close>

  WuBuOS is a hosted and bare-metal operating system in C. This development models the parts
  that carry its own logic of authority, naming, storage and memory, and proves what makes
  them correct. Paths below are relative to \<open>src/\<close> of the repository.

  \<^bold>\<open>Parts and theories.\<close>

  \<^item> Capabilities (\<open>runtime/wubu_cap\<close>). \<open>Cap_Token\<close>: packed tokens. \<open>Cap_Audit\<close>: the ring
    of refusals. \<open>Cap_Object\<close>: the object registry with derivation and both ways of
    revocation. \<open>Cap_Handle\<close> and \<open>Cap_System\<close>: the handle tables of processes and the
    capability of the system. \<open>Cap_Run\<close>: runs of all public operations, creation with a parent
    and destruction included, with a ghost record of which token was derived from which.
    \<open>Cap_Object_Facts\<close>, \<open>Cap_Revoke_Facts\<close>, \<open>Cap_Props\<close> and \<open>Cap_Handle_Facts\<close> show that
    derivation never adds rights, that a revoked token stays refused until its object is
    destroyed, that eager revocation reaches the derived tokens in runs without destruction,
    that refusals are recorded, and that a handle table is a
    partial map (interface \<open>slot_store\<close> of \<open>Slot_Store\<close>, interpreted on the table).
  \<^item> Styx, the file protocol (\<open>runtime/styx_*.c\<close>). \<open>Styx_Wire\<close>: the messages and their
    builders and parsers. \<open>Styx_Tables\<close>: tags, byte-range locks, requests in flight, names.
    \<open>Styx_Serve\<close>: the server, one definition per request. \<open>Styx_Wire_Facts\<close>: round trips.
    \<open>Styx_Props\<close>: the server reads within the frame (but for a truncated Twstat with a wstat
    callback), answers with well-formed replies within the negotiated size. \<open>Styx_Table_Facts\<close>: the tag table is a map and locks exclude.
  \<^item> Timer wheel (\<open>kernel/timer_wheel.c\<close>). \<open>Timer_Wheel\<close>, \<open>Timer_Wheel_Facts\<close>: every timer
    added for a later tick fires at its tick through all cascades, and the next expiry is the
    earliest.
  \<^item> Hive container (\<open>kernel/wubu_hive.c\<close>). \<open>Hive\<close>, \<open>Hive_Facts\<close>: it implements the bag
    interface \<open>bag_store\<close> of \<open>Bag_Store\<close>, and insertions do not move elements.
  \<^item> Checksums and the journal (\<open>kernel/txfs.c\<close>). \<open>Crc32\<close>: the two CRC routines are one
    function. \<open>Txfs\<close>, \<open>Txfs_Facts\<close>: a commit publishes all operations of a transaction or
    none, at every point of its copies into the journal buffer, and recovery stops at damage.
    The repository has no code that opens a journal left by an earlier run, so there is none
    here.
  \<^item> Recovery ring (\<open>kernel/wubu_recovery.c\<close>). \<open>Recovery\<close>: the five newest checkpoints are
    retrievable and verify.
  \<^item> Virtual memory (\<open>kernel/wubu_vmm.c\<close>, \<open>kernel/wubu_memmap.c\<close>). \<open>Vmm\<close>: the page
    allocator, the four-level tables, demand-zero and copy-on-write faults. \<open>Vmm_Facts\<close>: the
    allocator and reference counts. \<open>Vmm_Tables\<close>: the tree of tables, with large pages as
    leaves, and its invariant. \<open>Vmm_Boot\<close>: the tables that \<open>kernel/crt0.S\<close> builds, which satisfy it.
    \<open>Vmm_Props\<close>: what each operation does to the translations and to memory, for addresses
    that no large page maps (the code does not look at the page-size bit).
  \<^item> SHA-256 (\<open>kernel/wubu_sha256.c\<close>). \<open>Sha256\<close>, \<open>Sha256_Facts\<close>: the streaming hash is the
    one-pass hash of the padded message, with the compression function of the code.
  \<^item> FAT32 (\<open>kernel/fat32_*.c\<close>, \<open>kernel/wubu_lfn.c\<close>). \<open>Fat32\<close>: the cached allocation table, cluster
    chains, names and time stamps. \<open>Fat32_Facts\<close>: the interface \<open>blk_device\<close> of a block device
    that may fail, interpreted on the RAM disk of the tests, and the table as a map on every
    such device. \<open>Fat32_Chains\<close>, \<open>Fat32_Alloc\<close>: on a device that does not fail
    (\<open>reliable_device\<close>), what allocation finds and links, that releasing a chain undoes it, and
    that releasing ends on every table. \<open>Fat32_Format\<close>: formatting, mounting, unmounting;
    \<open>Fat32_Format_Facts\<close>: a formatted device mounts with an empty table, and unmounting and
    mounting again keeps it. \<open>Lfn\<close>: long names and that they survive. \<open>Fat32_Dir\<close>, \<open>Fat32_File\<close>:
    directories and open files. \<open>Fat32_Frame\<close>, \<open>Fat32_Extents\<close>: table operations leave the data
    area alone, and a volume as two maps, entries and cluster contents, on a device that
    transfers runs of sectors (\<open>extent_device\<close>). \<open>Fat32_File_Facts\<close>: what is written is read
    back. \<open>Fat32_Dir_Facts\<close>: a created file is found. A whole result \<open>None\<close> of a directory or file operation is a chain followed forever or a
    store outside a buffer; the buffers one operation allocates succeed or fail together.
  \<^item> Kernel heap (\<open>kernel/memory.c\<close>). \<open>Byte_Memory\<close>: byte-addressed memory. \<open>Kheap\<close>: blocks with
    headers and red zones, free lists, first fit, splitting and merging. \<open>Kheap_Facts\<close>: the invariant
    that listed blocks and blocks in use are disjoint, with one rule for each step. \<open>Kheap_Props\<close>: allocation
    returns memory nobody uses, release and reallocation keep the rest, the red zones show stray writes.
  \<^item> RISC-V (\<open>jit/wubu_rv64.c\<close>, \<open>jit/jit_codegen_rv64.c\<close>, \<open>runtime/wubu_riscv_interp.c\<close>). \<open>Rv64\<close>: the encoder.
    \<open>Rv64_Codegen\<close>: the interface of a code generator, a record of operations, and its RISC-V instance.
    \<open>Riscv_Interp\<close>: the interpreter, one definition per kind of instruction. \<open>Rv64_Facts\<close>: an emitted arithmetic, shift, load
    or store instruction (the list is at the theorem) has, executed where it was emitted, the effect that the
    architecture gives it.
  \<^item> Mini-C (\<open>jit/jit_minic_cg.c\<close>). \<open>Minic_Const\<close>: tokens and constant folding. \<open>Minic_Compile\<close>: expressions and
    statements over any code generator. \<open>C_Expr\<close>: constant expressions of C, their grammar and their
    values, independently of the compiler. \<open>Minic_Facts\<close>: how the compiler reads an expression. \<open>Minic_C\<close>: constant folding
    computes from the text the value that C defines, for expressions with parentheses where the compiler's
    precedence of bitwise operators and comparisons differs from C's. \<open>Minic_Props\<close>: through the interface
    \<open>returning_backend\<close>, interpreted on the RISC-V back end, compiled constants from 0 to 2047 return their value in the
    interpreter.
  \<^item> DEFLATE (\<open>kernel/wubu_inflate.c\<close>). \<open>Inflate\<close>: the bit reader, canonical codes, the three kinds of block and
    the raw, zlib and gzip decoders. \<open>Inflate_Huffman\<close>: the canonical code of a list of code lengths, and that the
    tables decode it. \<open>Inflate_Facts\<close>: the decoder inverts the format, given as blocks of tokens with their bits and
    the bytes they stand for, with complete codes; on every input it returns and stays within its buffers.
  \<^item> Scheduling policy (\<open>kernel/sched_eevdf.c\<close>). \<open>Eevdf\<close>: the run queue, and a bound on how far one task gets
    ahead of another. The lag that the code reports is floating point and left out.
  \<^item> Garbage collector (\<open>runtime/wubu_gc.c\<close>). \<open>Gc\<close>: objects, roots, mark and sweep, and which objects
    a collection is sure to keep.
  \<^item> \<open>Prelude\<close> has the integer types, index loops and word lemmas; \<open>Bit_Array\<close> the packed
    bit maps of the hive and of the page allocator; \<open>Packed_Fields\<close> the fields of packed
    structures in a buffer.

  \<^bold>\<open>How the model corresponds to the code.\<close> A C structure is a record with its fields; arrays are
  lists of their declared length; integers are words of their width, or numbers where the
  code keeps them far below overflow. An operation takes the state and returns it updated
  together with the value the function returns; error returns are the negative numbers of
  the source. An \<open>option\<close> around a whole result is \<open>None\<close> where the C program would read or
  write outside an array. Loops are recursive functions with termination proofs. Only
  the Mini-C compiler, whose recursion follows the nesting of the text and whose statement loop can run forever, takes
  fuel; the number \<open>c_size e + 4\<close> is enough for the program \<open>return e;\<close>, and the theorems prove that it returns. The
  loop of the interpreter is a partial function. The loop that releases a cluster chain may run forever on a device that loses writes and is
  a partial function; that it returns is proved. The
  loops of the DEFLATE decoder over symbols, code lengths and blocks are partial functions too; that they return on every input is
  proved. Callbacks and allocators the source receives as function pointers are
  parameters. Mutexes and spinlocks are not modelled: each operation is one step.

  \<^bold>\<open>Kinds of statements.\<close> Safety of authority and of memory (no amplification, revocation that
  lasts until destruction, exclusive locks, private copies), refinement of an abstract map, bag or log,
  round trips of wire formats, compressed streams and checkpoints, equivalence of two routines, correctness of encoded instructions and of folded and compiled constants, totality with
  the exact condition for success (commits, page mappings), and bounds on every byte the
  Styx server reads and writes. The atomicity of a commit is stated over the contents of the
  journal buffer after each of its copies. Where the code does not do what it should, the property
  says which cases it leaves out.

  \<^bold>\<open>Not modelled.\<close> The desktop, window system and applications (\<open>gui\<close>, \<open>apps\<close>, \<open>shell\<close>),
  device and GPU drivers (the greater part of \<open>kernel\<close>), firmware, audio, the language
  model and its training (\<open>bear\<close>), the x86, ARM64 and WebAssembly
  back ends of the JIT compiler, the Linux and NT system-call layers
  (\<open>runtime/vsl\<close>), containers and the build: they are hardware access, rendering, host system
  calls or floating point. Assembly, boot code and the context switch are outside the
  language of the model, but for the page tables the boot code leaves.
\<close>

end
